(* ===== verification/Prelude.thy ===== *)
theory Prelude
  imports Main "HOL-Library.Word" "HOL-Library.Signed_Division"
begin

text \<open>
  Shared vocabulary of the development: what can go wrong in the C++ code (\<open>fault\<close>), the
  outcome type every fallible operation returns, the machine integers, and the generic list
  facts the component theories use.

  The Linux build (CMakeLists.txt) always passes \<^verbatim>\<open>-D_DEBUG\<close> and never \<^verbatim>\<open>-DNDEBUG\<close>, so
  \<^verbatim>\<open>TASSERT\<close> of MultiSys.h ends in \<^verbatim>\<open>assert(false)\<close>: a failed assertion aborts the process.
  It is the fault \<open>Assertion\<close>. The other faults are undefined behaviour of C++ that the code
  can reach; a definition that reaches one returns it instead of a value.
\<close>

section \<open>Faults and outcomes\<close>

datatype fault =
    Assertion string
  | NullPointer
  | WildPointer
  | OutOfBounds
  | OverlappingCopy
  | SignedOverflow
  | BadDelete
  | DoubleErase
  | BadUnlock
  | DivByZero
  | Diverges

type_synonym 'a outcome = "fault + 'a"

definition bindE :: "'e + 'a \<Rightarrow> ('a \<Rightarrow> 'e + 'b) \<Rightarrow> 'e + 'b" where
  "bindE m f = (case m of Inl e \<Rightarrow> Inl e | Inr x \<Rightarrow> f x)"

text \<open>\<^verbatim>\<open>TASSERT(p, msg)\<close>, MultiSys.h, the debug branch.\<close>

definition TASSERT :: "bool \<Rightarrow> string \<Rightarrow> unit outcome" where
  "TASSERT p msg = (if p then Inr () else Inl (Assertion msg))"

named_theorems outcome_simps \<open>unfolding of outcomes, used by simp in the component proofs\<close>

lemma bindE_Inl [simp]: "bindE (Inl e) f = Inl e"
  by (simp add: bindE_def)

lemma bindE_Inr [simp]: "bindE (Inr x) f = f x"
  by (simp add: bindE_def)

lemma bindE_eq_Inr [outcome_simps]: "bindE m f = Inr y \<longleftrightarrow> (\<exists>x. m = Inr x \<and> f x = Inr y)"
  by (cases m) auto

lemma bindE_eq_Inl [outcome_simps]:
  "bindE m f = Inl e \<longleftrightarrow> m = Inl e \<or> (\<exists>x. m = Inr x \<and> f x = Inl e)"
  by (cases m) auto

lemma bindE_assoc: "bindE (bindE m f) g = bindE m (\<lambda>x. bindE (f x) g)"
  by (cases m) auto

lemma bindE_cong [fundef_cong]:
  "m = m' \<Longrightarrow> (\<And>x. m' = Inr x \<Longrightarrow> f x = f' x) \<Longrightarrow> bindE m f = bindE m' f'"
  by (cases m') auto

lemma bindE_if: "bindE (if c then m else m') f = (if c then bindE m f else bindE m' f)"
  by simp

lemma TASSERT_True [simp]: "TASSERT True msg = Inr ()"
  by (simp add: TASSERT_def)

lemma TASSERT_False [simp]: "TASSERT False msg = Inl (Assertion msg)"
  by (simp add: TASSERT_def)

lemma TASSERT_eq_Inr [simp]: "TASSERT p msg = Inr u \<longleftrightarrow> p"
  by (simp add: TASSERT_def)

lemma TASSERT_eq_Inl [simp]: "TASSERT p msg = Inl e \<longleftrightarrow> \<not> p \<and> e = Assertion msg"
  by (auto simp: TASSERT_def)

section \<open>Machine integers\<close>

text \<open>
  Linux.h: \<^verbatim>\<open>s32\<close> is \<^verbatim>\<open>int32_t\<close>, \<^verbatim>\<open>s64\<close> is \<^verbatim>\<open>int64_t\<close>, \<^verbatim>\<open>u32\<close>/\<^verbatim>\<open>u64\<close> their unsigned
  counterparts. Unsigned values are words, which wrap. Signed values are integers: signed
  overflow is undefined in C++, so arithmetic goes through \<open>chk_s32\<close>/\<open>chk_s64\<close>, and a
  narrowing conversion keeps the low bits (\<open>to_s32\<close>), as gcc defines it.
\<close>

type_synonym byte = "8 word"
type_synonym u32 = "32 word"
type_synonym u64 = "64 word"
type_synonym s32 = int
type_synonym s64 = int

definition in_s32 :: "int \<Rightarrow> bool" where
  "in_s32 x \<longleftrightarrow> - (2 ^ 31) \<le> x \<and> x < 2 ^ 31"

definition in_s64 :: "int \<Rightarrow> bool" where
  "in_s64 x \<longleftrightarrow> - (2 ^ 63) \<le> x \<and> x < 2 ^ 63"

definition to_s32 :: "int \<Rightarrow> s32" where
  "to_s32 x = (x + 2 ^ 31) mod 2 ^ 32 - 2 ^ 31"

definition to_s64 :: "int \<Rightarrow> s64" where
  "to_s64 x = (x + 2 ^ 63) mod 2 ^ 64 - 2 ^ 63"

definition chk_s32 :: "int \<Rightarrow> s32 outcome" where
  "chk_s32 x = (if in_s32 x then Inr x else Inl SignedOverflow)"

definition chk_s64 :: "int \<Rightarrow> s64 outcome" where
  "chk_s64 x = (if in_s64 x then Inr x else Inl SignedOverflow)"

text \<open>Division of C: it truncates towards zero, and dividing by zero traps.\<close>

definition div_s64 :: "int \<Rightarrow> int \<Rightarrow> int outcome" where
  "div_s64 a b = (if b = 0 then Inl DivByZero else Inr (a sdiv b))"

text \<open>A conversion to \<^verbatim>\<open>size_t\<close> (64 bits, unsigned): negative values become huge.\<close>

definition to_size_t :: "int \<Rightarrow> nat" where
  "to_size_t x = nat (x mod 2 ^ 64)"

lemma to_s32_id [simp]: "in_s32 x \<Longrightarrow> to_s32 x = x"
  by (simp add: to_s32_def in_s32_def)

lemma to_s64_id [simp]: "in_s64 x \<Longrightarrow> to_s64 x = x"
  by (simp add: to_s64_def in_s64_def)

lemma in_s32_to_s32 [simp]: "in_s32 (to_s32 x)"
proof -
  have "0 \<le> (x + 2 ^ 31) mod 2 ^ 32" "(x + 2 ^ 31) mod 2 ^ 32 < (2 ^ 32 :: int)"
    by simp_all
  then show ?thesis by (simp add: to_s32_def in_s32_def)
qed

lemma in_s32_in_s64: "in_s32 x \<Longrightarrow> in_s64 x"
  by (simp add: in_s32_def in_s64_def)

lemma chk_s32_Inr [simp]: "in_s32 x \<Longrightarrow> chk_s32 x = Inr x"
  by (simp add: chk_s32_def)

lemma chk_s32_eq_Inr [outcome_simps]: "chk_s32 x = Inr y \<longleftrightarrow> in_s32 x \<and> y = x"
  by (auto simp: chk_s32_def)

lemma chk_s64_Inr [simp]: "in_s64 x \<Longrightarrow> chk_s64 x = Inr x"
  by (simp add: chk_s64_def)

lemma chk_s64_eq_Inr [outcome_simps]: "chk_s64 x = Inr y \<longleftrightarrow> in_s64 x \<and> y = x"
  by (auto simp: chk_s64_def)

lemma to_size_t_nat [simp]: "0 \<le> x \<Longrightarrow> in_s64 x \<Longrightarrow> to_size_t x = nat x"
  by (simp add: to_size_t_def in_s64_def)

lemma to_size_t_neg: "x < 0 \<Longrightarrow> in_s64 x \<Longrightarrow> 2 ^ 63 \<le> to_size_t x"
proof -
  assume "x < 0" "in_s64 x"
  then have "x mod 2 ^ 64 = (x + 2 ^ 64) mod 2 ^ 64" "0 \<le> x + 2 ^ 64" "x + 2 ^ 64 < 2 ^ 64"
    "2 ^ 63 \<le> x + 2 ^ 64"
    by (simp_all add: in_s64_def)
  then have "x mod 2 ^ 64 = x + 2 ^ 64" by (metis mod_pos_pos_trivial)
  with \<open>2 ^ 63 \<le> x + 2 ^ 64\<close> show ?thesis by (simp add: to_size_t_def nat_le_iff le_nat_iff)
qed

lemma div_s64_nonneg [simp]: "0 \<le> a \<Longrightarrow> 0 < b \<Longrightarrow> div_s64 a b = Inr (a div b)"
  by (auto simp: div_s64_def signed_divide_int_def sgn_if)

lemma div_less_next: "0 < s \<Longrightarrow> x < (x div s + 1) * s" for x s :: int
proof -
  assume "0 < s"
  then have "x mod s < s" by simp
  moreover have "x = x div s * s + x mod s" by simp
  ultimately show ?thesis unfolding distrib_right by linarith
qed

section \<open>Lists as memory\<close>

text \<open>\<open>blit xs i ys\<close>: the cells of \<open>xs\<close> from index \<open>i\<close> on overwritten by \<open>ys\<close>.\<close>

definition blit :: "'a list \<Rightarrow> nat \<Rightarrow> 'a list \<Rightarrow> 'a list" where
  "blit xs i ys = take i xs @ ys @ drop (i + length ys) xs"

lemma length_blit [simp]: "i + length ys \<le> length xs \<Longrightarrow> length (blit xs i ys) = length xs"
  by (simp add: blit_def)

lemma blit_Nil [simp]: "blit xs i [] = xs"
  by (simp add: blit_def)

lemma take_drop_blit_other:
  "b + n \<le> i \<Longrightarrow> i + length ys \<le> length xs \<Longrightarrow> take n (drop b (blit xs i ys)) = take n (drop b xs)"
  by (simp add: blit_def take_drop)

lemma take_drop_blit_append:
  assumes "b \<le> i" "i + length ys \<le> length xs"
  shows "take (i - b + length ys) (drop b (blit xs i ys)) = take (i - b) (drop b xs) @ ys"
  using assms by (simp add: blit_def take_drop)

section \<open>Searching a list\<close>

lemma find_split:
  "find P xs = Some a \<Longrightarrow> \<exists>ys zs. xs = ys @ a # zs \<and> (\<forall>y \<in> set ys. \<not> P y) \<and> P a"
proof (induction xs)
  case (Cons x xs)
  show ?case
  proof (cases "P x")
    case True
    with Cons.prems have "x # xs = [] @ a # xs \<and> P a" by simp
    then show ?thesis by (metis empty_iff list.set(1))
  next
    case False
    with Cons obtain ys zs where "xs = ys @ a # zs" "\<forall>y \<in> set ys. \<not> P y" "P a" by auto
    with False show ?thesis by (intro exI [of _ "x # ys"] exI [of _ zs]) simp
  qed
qed simp

end
