(* ===== verification/Tools.thy ===== *)
theory Tools
  imports Prelude
begin

text \<open>
  src/Public/Tools.h: the checked memory functions every buffer of the program goes through,
  the number/string conversions the configuration is read with, and the path of the
  executable. The C library functions they call (\<^verbatim>\<open>memcpy\<close>, \<^verbatim>\<open>memset\<close>, \<^verbatim>\<open>atoi\<close>,
  \<^verbatim>\<open>snprintf("%d")\<close>, \<^verbatim>\<open>dirname\<close>) are modelled as the C standard states them: an access
  outside an object and a \<^verbatim>\<open>memcpy\<close> between overlapping ranges are faults.
\<close>

section \<open>memcpy and memset\<close>

text \<open>Copy between two different objects: \<open>n\<close> cells of \<open>src\<close> to offset \<open>d\<close> of \<open>dst\<close>.\<close>

definition memcpy :: "'a list \<Rightarrow> nat \<Rightarrow> 'a list \<Rightarrow> nat \<Rightarrow> 'a list outcome" where
  "memcpy dst d src n =
     (if d + n \<le> length dst \<and> n \<le> length src then Inr (blit dst d (take n src))
      else Inl OutOfBounds)"

text \<open>Copy inside one object, from offset \<open>s\<close> to offset \<open>d\<close>.\<close>

definition memcpy_within :: "'a list \<Rightarrow> nat \<Rightarrow> nat \<Rightarrow> nat \<Rightarrow> 'a list outcome" where
  "memcpy_within buf d s n =
     (if d + n \<le> length buf \<and> s + n \<le> length buf then
        if 0 < n \<and> d < s + n \<and> s < d + n then Inl OverlappingCopy
        else Inr (blit buf d (take n (drop s buf)))
      else Inl OutOfBounds)"

definition SafeMemcpy :: "'a list \<Rightarrow> nat \<Rightarrow> nat \<Rightarrow> 'a list \<Rightarrow> nat \<Rightarrow> 'a list outcome" where
  "SafeMemcpy dst d lim src n =
     bindE (TASSERT (n \<le> lim) ''over flow'') (\<lambda>_.
       memcpy dst d src (if n \<le> lim then n else lim))"

definition SafeMemcpy_within :: "'a list \<Rightarrow> nat \<Rightarrow> nat \<Rightarrow> nat \<Rightarrow> nat \<Rightarrow> 'a list outcome" where
  "SafeMemcpy_within buf d lim s n =
     bindE (TASSERT (n \<le> lim) ''over flow'') (\<lambda>_.
       memcpy_within buf d s (if n \<le> lim then n else lim))"

definition SafeMemset :: "'a list \<Rightarrow> nat \<Rightarrow> 'a \<Rightarrow> nat \<Rightarrow> 'a list outcome" where
  "SafeMemset dst lim v n =
     bindE (TASSERT (n \<le> lim) ''over flow'') (\<lambda>_.
       let k = (if n \<le> lim then n else lim) in
       if k \<le> length dst then Inr (blit dst 0 (replicate k v)) else Inl OutOfBounds)"

lemma SafeMemcpy_Inr [simp]:
  "n \<le> lim \<Longrightarrow> d + n \<le> length dst \<Longrightarrow> n \<le> length src \<Longrightarrow>
     SafeMemcpy dst d lim src n = Inr (blit dst d (take n src))"
  by (simp add: SafeMemcpy_def memcpy_def)

lemma SafeMemcpy_overflow [simp]: "lim < n \<Longrightarrow> SafeMemcpy dst d lim src n = Inl (Assertion ''over flow'')"
  by (simp add: SafeMemcpy_def)

lemma SafeMemcpy_within_disjoint [simp]:
  "n \<le> lim \<Longrightarrow> d + n \<le> s \<Longrightarrow> s + n \<le> length buf \<Longrightarrow>
     SafeMemcpy_within buf d lim s n = Inr (blit buf d (take n (drop s buf)))"
  by (simp add: SafeMemcpy_within_def memcpy_within_def)

lemma SafeMemcpy_within_overlap:
  "n \<le> lim \<Longrightarrow> d < s + n \<Longrightarrow> s < d + n \<Longrightarrow> d + n \<le> length buf \<Longrightarrow> s + n \<le> length buf \<Longrightarrow>
     SafeMemcpy_within buf d lim s n = Inl OverlappingCopy"
  by (simp add: SafeMemcpy_within_def memcpy_within_def)

lemma SafeMemset_Inr [simp]:
  "n \<le> lim \<Longrightarrow> n \<le> length dst \<Longrightarrow> SafeMemset dst lim v n = Inr (replicate n v @ drop n dst)"
  by (simp add: SafeMemset_def blit_def)

section \<open>Numbers and strings\<close>

definition digit_char :: "nat \<Rightarrow> char" where
  "digit_char d = char_of (48 + d)"

definition is_digit :: "char \<Rightarrow> bool" where
  "is_digit c \<longleftrightarrow> 48 \<le> (of_char c :: nat) \<and> (of_char c :: nat) \<le> 57"

definition digit_value :: "char \<Rightarrow> nat" where
  "digit_value c = of_char c - 48"

text \<open>\<^verbatim>\<open>isspace\<close> of the C locale.\<close>

definition is_space :: "char \<Rightarrow> bool" where
  "is_space c \<longleftrightarrow> of_char c = (32::nat) \<or> (9 \<le> (of_char c :: nat) \<and> (of_char c :: nat) \<le> 13)"

fun show_nat :: "nat \<Rightarrow> string" where
  "show_nat n = (if n < 10 then [digit_char n] else show_nat (n div 10) @ [digit_char (n mod 10)])"

declare show_nat.simps [simp del]

definition show_int :: "int \<Rightarrow> string" where
  "show_int i = (if i < 0 then CHR ''-'' # show_nat (nat (- i)) else show_nat (nat i))"

definition IntAsString :: "s32 \<Rightarrow> string" where
  "IntAsString value = show_int value"

definition Int64AsString :: "s64 \<Rightarrow> string" where
  "Int64AsString value = show_int value"

fun parse_digits :: "string \<Rightarrow> nat \<Rightarrow> nat" where
  "parse_digits [] acc = acc"
| "parse_digits (c # cs) acc = (if is_digit c then parse_digits cs (10 * acc + digit_value c) else acc)"

text \<open>
  \<^verbatim>\<open>atoi\<close>: leading white space, an optional sign, digits up to the first other character. A
  value outside \<^verbatim>\<open>int\<close> is undefined behaviour (C11 7.22.1).
\<close>

definition atoi :: "string \<Rightarrow> s32 outcome" where
  "atoi str =
     (case dropWhile is_space str of
        [] \<Rightarrow> Inr 0
      | c # cs \<Rightarrow>
          if c = CHR ''-'' then chk_s32 (- int (parse_digits cs 0))
          else if c = CHR ''+'' then chk_s32 (int (parse_digits cs 0))
          else chk_s32 (int (parse_digits (c # cs) 0)))"

text \<open>\<^verbatim>\<open>StringAsInt\<close>: the argument is a pointer, \<open>None\<close> is \<^verbatim>\<open>NULL\<close>.\<close>

definition StringAsInt :: "string option \<Rightarrow> s32 outcome" where
  "StringAsInt value =
     bindE (TASSERT (value \<noteq> None) ''null point'') (\<lambda>_.
       case value of None \<Rightarrow> Inl NullPointer | Some v \<Rightarrow> atoi v)"

lemma digit_char_facts:
  assumes "d < 10"
  shows "is_digit (digit_char d)" "digit_value (digit_char d) = d" "\<not> is_space (digit_char d)"
    "digit_char d \<noteq> CHR ''-''" "digit_char d \<noteq> CHR ''+''"
proof -
  have c: "of_char (digit_char d) = 48 + d" using assms by (simp add: digit_char_def)
  then show "is_digit (digit_char d)" "digit_value (digit_char d) = d" "\<not> is_space (digit_char d)"
    using assms by (simp_all add: is_digit_def digit_value_def is_space_def)
  have "of_char (CHR ''-'') = (45::nat)" "of_char (CHR ''+'') = (43::nat)" by simp_all
  with c show "digit_char d \<noteq> CHR ''-''" "digit_char d \<noteq> CHR ''+''" by fastforce+
qed

lemma parse_digits_append:
  "\<forall>c \<in> set xs. is_digit c \<Longrightarrow> parse_digits (xs @ ys) acc = parse_digits ys (parse_digits xs acc)"
  by (induction xs arbitrary: acc) auto

lemma show_nat_digits: "c \<in> set (show_nat n) \<Longrightarrow> is_digit c \<and> \<not> is_space c \<and> c \<noteq> CHR ''-'' \<and> c \<noteq> CHR ''+''"
proof (induction n rule: show_nat.induct)
  case (1 n)
  show ?case
  proof (cases "n < 10")
    case True
    with "1.prems" show ?thesis by (simp add: show_nat.simps [of n] digit_char_facts)
  next
    case False
    with 1 show ?thesis by (auto simp: show_nat.simps [of n] digit_char_facts)
  qed
qed

lemma show_nat_ne [simp]: "show_nat n \<noteq> []"
  by (subst show_nat.simps) simp

lemma parse_show_nat: "parse_digits (show_nat n) 0 = n"
proof (induction n rule: show_nat.induct)
  case (1 n)
  show ?case
  proof (cases "n < 10")
    case True
    then show ?thesis by (simp add: show_nat.simps [of n] digit_char_facts)
  next
    case False
    with 1 show ?thesis
      using show_nat_digits [of _ "n div 10"]
      by (simp add: show_nat.simps [of n] parse_digits_append digit_char_facts)
  qed
qed

lemma atoi_show_int: "in_s32 v \<Longrightarrow> atoi (show_int v) = Inr v"
proof -
  assume v: "in_s32 v"
  obtain c cs where cs: "show_nat (nat \<bar>v\<bar>) = c # cs" by (cases "show_nat (nat \<bar>v\<bar>)") auto
  have "\<not> is_space c" "c \<noteq> CHR ''-''" "c \<noteq> CHR ''+''"
    using show_nat_digits [of c "nat \<bar>v\<bar>"] cs by auto
  moreover have "parse_digits (c # cs) 0 = nat \<bar>v\<bar>"
    using parse_show_nat [of "nat \<bar>v\<bar>"] by (simp only: cs)
  moreover have "\<not> is_space (CHR ''-'')" by (simp add: is_space_def)
  ultimately show ?thesis
    using cs v by (cases "v < 0") (simp_all add: atoi_def show_int_def del: parse_digits.simps)
qed

section \<open>The path of the executable\<close>

text \<open>POSIX \<^verbatim>\<open>dirname\<close> of a path with no trailing slash.\<close>

definition dirname :: "string \<Rightarrow> string" where
  "dirname path =
     (if CHR ''/'' \<in> set path then
        let d = rev (tl (dropWhile (\<lambda>c. c \<noteq> CHR ''/'') (rev path))) in
        if d = [] then ''/'' else d
      else ''.'')"

abbreviation NUL :: char where "NUL \<equiv> char_of (0::nat)"

text \<open>
  \<^verbatim>\<open>GetAppPath\<close> on its first call: a 256-byte zeroed buffer receives up to 256 bytes of the
  target of \<^verbatim>\<open>/proc/self/exe\<close> (\<^verbatim>\<open>readlink\<close> writes no terminator); the guard compares the
  count with 265. \<^verbatim>\<open>dirname\<close> then reads the buffer up to its terminator.
\<close>

definition GetAppPath :: "string \<Rightarrow> string outcome" where
  "GetAppPath target =
     (let nCount = min 256 (length target);
          pStrPath = blit (replicate 256 NUL) 0 (take 256 target) in
      bindE (TASSERT (\<not> nCount \<ge> 265) ''system path error'') (\<lambda>_.
        if NUL \<in> set pStrPath then Inr (dirname (takeWhile (\<lambda>c. c \<noteq> NUL) pStrPath))
        else Inl OutOfBounds))"

lemma GetAppPath_short:
  assumes "length target < 256" "NUL \<notin> set target"
  shows "GetAppPath target = Inr (dirname target)"
proof -
  have "takeWhile (\<lambda>c. c \<noteq> NUL) (target @ replicate k NUL) = target" for k
    using assms(2) by (subst takeWhile_append2) (auto simp: takeWhile_eq_Nil_iff)
  with assms show ?thesis by (auto simp: GetAppPath_def blit_def)
qed

lemma GetAppPath_long:
  assumes "256 \<le> length target" "NUL \<notin> set target"
  shows "GetAppPath target = Inl OutOfBounds"
  using assms by (auto simp: GetAppPath_def blit_def Let_def dest: in_set_takeD)

end
