(* ===== verification/Pool.thy ===== *)
theory Pool
  imports Tools
begin

text \<open>
  src/Public/TPool.h: the block allocator behind every pooled object of the program (timer
  nodes and slots, connection pipes, sessions, log streams). A unit lives in a block; its
  address is the pair of the block's number and the unit's index in the block. The free list
  is a FIFO: \<^verbatim>\<open>Create\<close> takes its head, \<^verbatim>\<open>Recover\<close> appends. A unit is constructed once, when
  its block is allocated; \<^verbatim>\<open>Create\<close> hands it out again as its last user left it.
  \<open>sz\<close> is \<^verbatim>\<open>sizeof(type_info)\<close>, \<open>ctor\<close> a default-constructed unit, \<open>count\<close> the template's
  block size. The lock only serialises the operations and is not part of the state.
\<close>

section \<open>State\<close>

datatype unit_status = IN_USE | IS_FREE

record 'a type_info =
  tunit :: 'a
  len :: nat
  status :: unit_status

datatype uaddr = UAddr (blk: nat) (idx: nat)

text \<open>How an object was allocated; \<^verbatim>\<open>delete\<close> must match \<^verbatim>\<open>new\<close>, \<^verbatim>\<open>delete[]\<close> must match \<^verbatim>\<open>new[]\<close>.\<close>

datatype alloc_form = Scalar | Array

record 'a tpool =
  m_list :: "uaddr list"
  m_sBlockCount :: nat
  m_pUnitAry :: "'a type_info list list"
  m_pUnitAry_form :: "alloc_form option"

definition delete_as :: "alloc_form \<Rightarrow> alloc_form option \<Rightarrow> unit outcome" where
  "delete_as f ptr = (case ptr of None \<Rightarrow> Inr () | Some g \<Rightarrow> if f = g then Inr () else Inl BadDelete)"

definition valid_unit :: "'a tpool \<Rightarrow> uaddr \<Rightarrow> bool" where
  "valid_unit p a \<longleftrightarrow> blk a < length (m_pUnitAry p) \<and> idx a < length (m_pUnitAry p ! blk a)"

definition unit_info :: "'a tpool \<Rightarrow> uaddr \<Rightarrow> 'a type_info" where
  "unit_info p a = m_pUnitAry p ! blk a ! idx a"

definition set_unit_info :: "uaddr \<Rightarrow> 'a type_info \<Rightarrow> 'a tpool \<Rightarrow> 'a tpool" where
  "set_unit_info a ti p =
     p\<lparr>m_pUnitAry := (m_pUnitAry p)[blk a := (m_pUnitAry p ! blk a)[idx a := ti]]\<rparr>"

section \<open>Operations\<close>

definition new_block :: "nat \<Rightarrow> 'a \<Rightarrow> nat \<Rightarrow> 'a type_info list" where
  "new_block sz ctor n = replicate n \<lparr>tunit = ctor, len = sz, status = IS_FREE\<rparr>"

definition AllocNewBlob :: "nat \<Rightarrow> 'a \<Rightarrow> nat \<Rightarrow> 'a tpool \<Rightarrow> 'a tpool outcome" where
  "AllocNewBlob sz ctor count p =
     bindE
       (if m_pUnitAry_form p = None then
          bindE (TASSERT (m_sBlockCount p = 0) ''pool bug'') (\<lambda>_. Inr Scalar)
        else
          bindE (delete_as (if 1 = m_sBlockCount p then Scalar else Array) (m_pUnitAry_form p))
            (\<lambda>_. Inr Array))
       (\<lambda>form. Inr (p\<lparr>
          m_pUnitAry_form := Some form,
          m_pUnitAry := m_pUnitAry p @ [new_block sz ctor count],
          m_list := m_list p @ map (UAddr (m_sBlockCount p)) [0..<count],
          m_sBlockCount := Suc (m_sBlockCount p)\<rparr>))"

definition TPool_new :: "nat \<Rightarrow> 'a \<Rightarrow> nat \<Rightarrow> 'a tpool outcome" where
  "TPool_new sz ctor size0 =
     AllocNewBlob sz ctor size0
       \<lparr>m_list = [], m_sBlockCount = 0, m_pUnitAry = [], m_pUnitAry_form = None\<rparr>"

definition TPool_Create :: "nat \<Rightarrow> 'a \<Rightarrow> nat \<Rightarrow> 'a tpool \<Rightarrow> (uaddr option \<times> 'a tpool) outcome" where
  "TPool_Create sz ctor count p =
     bindE (if m_list p = [] then AllocNewBlob sz ctor count p else Inr p) (\<lambda>p.
       case m_list p of
         [] \<Rightarrow> Inr (None, p)
       | a # rest \<Rightarrow>
           bindE (TASSERT (status (unit_info p a) = IS_FREE \<and> len (unit_info p a) = sz) ''wtf'')
             (\<lambda>_. Inr (Some a,
                (set_unit_info a ((unit_info p a)\<lparr>status := IN_USE\<rparr>) p)\<lparr>m_list := rest\<rparr>)))"

text \<open>\<^verbatim>\<open>CheckAddr\<close> reads the header in front of the pointer: outside the blocks that is a wild read.\<close>

definition CheckAddr :: "nat \<Rightarrow> 'a tpool \<Rightarrow> uaddr \<Rightarrow> bool outcome" where
  "CheckAddr sz p a = (if valid_unit p a then Inr (len (unit_info p a) = sz) else Inl WildPointer)"

definition TPool_Recover :: "nat \<Rightarrow> uaddr \<Rightarrow> 'a tpool \<Rightarrow> 'a tpool outcome" where
  "TPool_Recover sz a p =
     bindE (CheckAddr sz p a) (\<lambda>ok.
       bindE (TASSERT (\<not> (\<not> ok \<or> status (unit_info p a) \<noteq> IN_USE)) ''point adress error'') (\<lambda>_.
         let q = set_unit_info a ((unit_info p a)\<lparr>status := IS_FREE\<rparr>) p in
         Inr (q\<lparr>m_list := m_list q @ [a]\<rparr>)))"

text \<open>The destructor: each block with \<^verbatim>\<open>delete[]\<close>, then the block table.\<close>

definition TPool_delete :: "'a tpool \<Rightarrow> unit outcome" where
  "TPool_delete p =
     delete_as (if m_sBlockCount p > 1 then Scalar else Array) (m_pUnitAry_form p)"

text \<open>What a client sees: the unit behind an address, and writing through the pointer.\<close>

definition get_unit :: "'a tpool \<Rightarrow> uaddr \<Rightarrow> 'a" where
  "get_unit p a = tunit (unit_info p a)"

definition put_unit :: "uaddr \<Rightarrow> 'a \<Rightarrow> 'a tpool \<Rightarrow> 'a tpool" where
  "put_unit a v p = set_unit_info a ((unit_info p a)\<lparr>tunit := v\<rparr>) p"

definition in_use :: "'a tpool \<Rightarrow> uaddr set" where
  "in_use p = {a. valid_unit p a \<and> status (unit_info p a) = IN_USE}"

section \<open>Invariant\<close>

definition pool_inv :: "nat \<Rightarrow> 'a tpool \<Rightarrow> bool" where
  "pool_inv sz p \<longleftrightarrow>
     m_sBlockCount p = length (m_pUnitAry p) \<and>
     m_pUnitAry_form p =
       (if m_sBlockCount p = 0 then None else if m_sBlockCount p = 1 then Some Scalar else Some Array) \<and>
     distinct (m_list p) \<and>
     (\<forall>a. a \<in> set (m_list p) \<longleftrightarrow> valid_unit p a \<and> status (unit_info p a) = IS_FREE) \<and>
     (\<forall>a. valid_unit p a \<longrightarrow> len (unit_info p a) = sz)"

lemma valid_set_unit_info [simp]: "valid_unit (set_unit_info a ti p) b \<longleftrightarrow> valid_unit p b"
  by (cases "blk a = blk b"; cases "blk b < length (m_pUnitAry p)")
    (auto simp: valid_unit_def set_unit_info_def)

lemma uaddr_eq_iff: "a = b \<longleftrightarrow> blk a = blk b \<and> idx a = idx b"
  by (cases a; cases b) simp

lemma unit_info_set [simp]:
  "valid_unit p a \<Longrightarrow> unit_info (set_unit_info a ti p) b = (if b = a then ti else unit_info p b)"
  by (cases a; cases b; cases "blk a = blk b"; cases "idx a = idx b")
    (simp_all add: valid_unit_def unit_info_def set_unit_info_def)

lemma set_unit_info_fields [simp]:
  "m_list (set_unit_info a ti p) = m_list p"
  "m_sBlockCount (set_unit_info a ti p) = m_sBlockCount p"
  "length (m_pUnitAry (set_unit_info a ti p)) = length (m_pUnitAry p)"
  "m_pUnitAry_form (set_unit_info a ti p) = m_pUnitAry_form p"
  by (simp_all add: set_unit_info_def)

lemma list_update_valid [simp]:
  "valid_unit (p\<lparr>m_list := xs\<rparr>) b \<longleftrightarrow> valid_unit p b"
  "unit_info (p\<lparr>m_list := xs\<rparr>) b = unit_info p b"
  by (simp_all add: valid_unit_def unit_info_def)

lemma pool_inv_free: "pool_inv sz p \<Longrightarrow> a \<in> set (m_list p) \<Longrightarrow>
    valid_unit p a \<and> status (unit_info p a) = IS_FREE \<and> len (unit_info p a) = sz"
  by (auto simp: pool_inv_def)

lemma pool_inv_in_use: "pool_inv sz p \<Longrightarrow> a \<in> in_use p \<Longrightarrow>
    valid_unit p a \<and> status (unit_info p a) = IN_USE \<and> len (unit_info p a) = sz \<and> a \<notin> set (m_list p)"
  by (auto simp: pool_inv_def in_use_def)

section \<open>Every operation keeps the invariant\<close>

lemma AllocNewBlob_ok:
  assumes "pool_inv sz p" "m_list p = []"
  shows "\<exists>q. AllocNewBlob sz ctor count p = Inr q \<and> pool_inv sz q \<and> in_use q = in_use p \<and>
     m_list q = map (UAddr (m_sBlockCount p)) [0..<count] \<and>
     (\<forall>a. valid_unit p a \<longrightarrow> unit_info q a = unit_info p a)"
proof -
  let ?n = "m_sBlockCount p"
  let ?form = "if m_pUnitAry_form p = None then Scalar else Array"
  let ?q = "p\<lparr>m_pUnitAry_form := Some ?form, m_pUnitAry := m_pUnitAry p @ [new_block sz ctor count],
              m_list := map (UAddr ?n) [0..<count], m_sBlockCount := Suc ?n\<rparr>"
  have run: "AllocNewBlob sz ctor count p = Inr ?q"
    using assms by (auto simp: AllocNewBlob_def pool_inv_def delete_as_def)
  have n: "length (m_pUnitAry p) = ?n" using assms(1) by (simp add: pool_inv_def)
  have valid: "valid_unit ?q a \<longleftrightarrow> valid_unit p a \<or> (blk a = ?n \<and> idx a < count)" for a
    using n by (auto simp: valid_unit_def nth_append new_block_def)
  have old: "valid_unit p a \<Longrightarrow> unit_info ?q a = unit_info p a" for a
    by (simp add: unit_info_def valid_unit_def nth_append)
  have new: "blk a = ?n \<Longrightarrow> idx a < count \<Longrightarrow>
      unit_info ?q a = \<lparr>tunit = ctor, len = sz, status = IS_FREE\<rparr>" for a
    using n by (simp add: unit_info_def nth_append new_block_def)
  have none_free: "valid_unit p a \<Longrightarrow> status (unit_info p a) = IN_USE" for a
    using assms by (cases "status (unit_info p a)") (auto simp: pool_inv_def)
  have use: "in_use ?q = in_use p"
    using valid old new by (fastforce simp: in_use_def)
  have "m_sBlockCount ?q = length (m_pUnitAry ?q)" using n by simp
  moreover have "m_pUnitAry_form ?q = (if m_sBlockCount ?q = 0 then None
      else if m_sBlockCount ?q = 1 then Some Scalar else Some Array)"
    using assms(1) by (auto simp: pool_inv_def split: if_splits)
  moreover have "distinct (m_list ?q)" by (simp add: distinct_map inj_on_def)
  moreover have "a \<in> set (m_list ?q) \<longleftrightarrow> valid_unit ?q a \<and> status (unit_info ?q a) = IS_FREE" for a
  proof (cases "blk a = ?n \<and> idx a < count")
    case True
    then have "a \<in> set (m_list ?q)" by (cases a) simp
    with True new [of a] valid [of a] show ?thesis by simp
  next
    case False
    then have "a \<notin> set (m_list ?q)" by (cases a) auto
    with False none_free [of a] old [of a] valid [of a] show ?thesis by fastforce
  qed
  moreover have "len (unit_info ?q a) = sz" if "valid_unit ?q a" for a
    using that valid [of a] old [of a] new [of a] assms(1) by (auto simp: pool_inv_def)
  ultimately have "pool_inv sz ?q" unfolding pool_inv_def by blast
  with run use old show ?thesis by auto
qed

lemma TPool_new_inv: "\<exists>p. TPool_new sz ctor size0 = Inr p \<and> pool_inv sz p \<and> in_use p = {} \<and>
    m_list p = map (UAddr 0) [0..<size0]"
proof -
  let ?e = "\<lparr>m_list = [], m_sBlockCount = 0, m_pUnitAry = [], m_pUnitAry_form = None\<rparr> :: 'a tpool"
  have "pool_inv sz ?e" "in_use ?e = {}" by (simp_all add: pool_inv_def valid_unit_def in_use_def)
  with AllocNewBlob_ok [of sz ?e ctor size0] show ?thesis by (auto simp: TPool_new_def)
qed

lemma take_head_inv:
  assumes "pool_inv sz p" "m_list p = a # rest"
  defines "q \<equiv> (set_unit_info a ((unit_info p a)\<lparr>status := IN_USE\<rparr>) p)\<lparr>m_list := rest\<rparr>"
  shows "pool_inv sz q" "in_use q = insert a (in_use p)" "a \<notin> in_use p"
    "get_unit q b = get_unit p b"
proof -
  have a: "valid_unit p a" "status (unit_info p a) = IS_FREE"
    using assms(1,2) by (auto dest: pool_inv_free)
  have rest: "x \<in> set rest \<longleftrightarrow> valid_unit p x \<and> status (unit_info p x) = IS_FREE \<and> x \<noteq> a" for x
    using assms(1,2) by (auto simp: pool_inv_def)
  have "distinct rest" using assms(1,2) by (simp add: pool_inv_def)
  with assms(1) a rest show "pool_inv sz q" by (auto simp: q_def pool_inv_def)
  show "in_use q = insert a (in_use p)" "a \<notin> in_use p" "get_unit q b = get_unit p b"
    using a by (auto simp: q_def in_use_def get_unit_def)
qed

text \<open>\<^verbatim>\<open>Create\<close>: the head of the free list, or the first unit of a new block when it is empty.\<close>

lemma TPool_Create_ok:
  assumes "pool_inv sz p" "0 < count"
  shows "\<exists>a q. TPool_Create sz ctor count p = Inr (Some a, q) \<and> pool_inv sz q \<and>
     a \<notin> in_use p \<and> in_use q = insert a (in_use p) \<and>
     (\<forall>b. valid_unit p b \<longrightarrow> get_unit q b = get_unit p b) \<and>
     m_list q = tl (if m_list p = [] then map (UAddr (m_sBlockCount p)) [0..<count] else m_list p) \<and>
     a = hd (if m_list p = [] then map (UAddr (m_sBlockCount p)) [0..<count] else m_list p)"
proof -
  obtain p1 where p1: "(if m_list p = [] then AllocNewBlob sz ctor count p else Inr p) = Inr p1"
      "pool_inv sz p1" "in_use p1 = in_use p"
      "m_list p1 = (if m_list p = [] then map (UAddr (m_sBlockCount p)) [0..<count] else m_list p)"
      "\<And>b. valid_unit p b \<Longrightarrow> unit_info p1 b = unit_info p b"
  proof (cases "m_list p = []")
    case True
    from AllocNewBlob_ok [OF assms(1) True, of ctor count] obtain q
      where "AllocNewBlob sz ctor count p = Inr q" "pool_inv sz q" "in_use q = in_use p"
        "m_list q = map (UAddr (m_sBlockCount p)) [0..<count]"
        "\<forall>a. valid_unit p a \<longrightarrow> unit_info q a = unit_info p a" by blast
    with True show ?thesis by (intro that [of q]) simp_all
  next
    case False
    with assms(1) show ?thesis by (intro that [of p]) simp_all
  qed
  have "m_list p1 \<noteq> []" using p1(4) assms(2) by simp
  then obtain a rest where ar: "m_list p1 = a # rest" by (meson neq_Nil_conv)
  note head = take_head_inv [OF p1(2) ar]
  have "status (unit_info p1 a) = IS_FREE \<and> len (unit_info p1 a) = sz"
    using pool_inv_free [OF p1(2), of a] ar by simp
  with p1(1) ar have run: "TPool_Create sz ctor count p =
      Inr (Some a, (set_unit_info a ((unit_info p1 a)\<lparr>status := IN_USE\<rparr>) p1)\<lparr>m_list := rest\<rparr>)"
    by (simp add: TPool_Create_def)
  have "rest = tl (m_list p1)" "a = hd (m_list p1)" using ar by simp_all
  then show ?thesis
    unfolding run using head p1(3-5) by (auto simp: get_unit_def)
qed

lemma TPool_Recover_ok:
  assumes "pool_inv sz p" "a \<in> in_use p"
  shows "\<exists>q. TPool_Recover sz a p = Inr q \<and> pool_inv sz q \<and> in_use q = in_use p - {a} \<and>
     m_list q = m_list p @ [a] \<and> (\<forall>b. get_unit q b = get_unit p b)"
proof -
  let ?q0 = "set_unit_info a ((unit_info p a)\<lparr>status := IS_FREE\<rparr>) p"
  let ?q = "?q0\<lparr>m_list := m_list ?q0 @ [a]\<rparr>"
  note a = pool_inv_in_use [OF assms]
  then have run: "TPool_Recover sz a p = Inr ?q"
    by (simp add: TPool_Recover_def CheckAddr_def Let_def)
  have inv: "pool_inv sz ?q" using assms(1) a by (simp add: pool_inv_def)
  show ?thesis
    unfolding run using inv a by (auto simp: in_use_def get_unit_def)
qed

text \<open>Recovering a unit that is not in use aborts: the status word catches a double recover.\<close>

lemma TPool_Recover_free:
  "pool_inv sz p \<Longrightarrow> a \<in> set (m_list p) \<Longrightarrow>
     TPool_Recover sz a p = Inl (Assertion ''point adress error'')"
  by (auto simp: TPool_Recover_def CheckAddr_def dest: pool_inv_free)

lemma put_unit_ok:
  assumes "pool_inv sz p" "valid_unit p a"
  shows "pool_inv sz (put_unit a v p)" "in_use (put_unit a v p) = in_use p"
    "get_unit (put_unit a v p) b = (if b = a then v else get_unit p b)"
    "m_list (put_unit a v p) = m_list p"
  using assms by (auto simp: put_unit_def pool_inv_def in_use_def get_unit_def)

lemma valid_put_unit [simp]: "valid_unit (put_unit a v p) b \<longleftrightarrow> valid_unit p b"
  by (simp add: put_unit_def)

lemma in_use_valid: "a \<in> in_use p \<Longrightarrow> valid_unit p a"
  by (simp add: in_use_def)

text \<open>
  A recycled unit keeps its content, so what holds of every idle unit holds of the next one
  handed out: \<open>idle_sat P p\<close> says that \<open>P\<close> holds of all idle units.
\<close>

definition idle_sat :: "('a \<Rightarrow> bool) \<Rightarrow> 'a tpool \<Rightarrow> bool" where
  "idle_sat P p \<longleftrightarrow> (\<forall>a. valid_unit p a \<longrightarrow> a \<notin> in_use p \<longrightarrow> P (get_unit p a))"

lemma AllocNewBlob_idle:
  assumes "pool_inv sz p" "AllocNewBlob sz ctor count p = Inr q" "idle_sat P p" "P ctor"
  shows "idle_sat P q"
proof -
  have q: "m_pUnitAry q = m_pUnitAry p @ [new_block sz ctor count]"
    using assms(2) by (auto simp: AllocNewBlob_def outcome_simps split: if_splits)
  have n: "length (m_pUnitAry p) = m_sBlockCount p" using assms(1) by (simp add: pool_inv_def)
  show ?thesis
    unfolding idle_sat_def
  proof (intro allI impI)
    fix a assume a: "valid_unit q a" "a \<notin> in_use q"
    show "P (get_unit q a)"
    proof (cases "blk a < length (m_pUnitAry p)")
      case True
      with a q have "valid_unit p a" "a \<notin> in_use p" "get_unit q a = get_unit p a"
        by (auto simp: valid_unit_def in_use_def get_unit_def unit_info_def nth_append)
      with assms(3) show ?thesis by (auto simp: idle_sat_def)
    next
      case False
      with a q have "get_unit q a = ctor"
        by (auto simp: valid_unit_def get_unit_def unit_info_def nth_append new_block_def less_Suc_eq)
      with assms(4) show ?thesis by simp
    qed
  qed
qed

lemma TPool_Create_idle:
  assumes "pool_inv sz p" "0 < count" "idle_sat P p" "P ctor" "TPool_Create sz ctor count p = Inr (Some a, q)"
  shows "idle_sat P q" "P (get_unit q a)"
proof -
  obtain p1 where p1: "(if m_list p = [] then AllocNewBlob sz ctor count p else Inr p) = Inr p1"
    using assms(5) unfolding TPool_Create_def bindE_eq_Inr by blast
  have "pool_inv sz p1 \<and> idle_sat P p1"
  proof (cases "m_list p = []")
    case True
    with p1 have "AllocNewBlob sz ctor count p = Inr p1" by simp
    with True AllocNewBlob_ok [OF assms(1) True, of ctor count] AllocNewBlob_idle [OF assms(1) _ assms(3,4)]
    show ?thesis by auto
  next
    case False
    with p1 assms(1,3) show ?thesis by simp
  qed
  then have i: "pool_inv sz p1" "idle_sat P p1" by simp_all
  obtain rest where ar: "m_list p1 = a # rest"
      and q: "q = (set_unit_info a ((unit_info p1 a)\<lparr>status := IN_USE\<rparr>) p1)\<lparr>m_list := rest\<rparr>"
    using assms(5) p1 by (auto simp: TPool_Create_def outcome_simps split: list.splits)
  note h = take_head_inv [OF i(1) ar]
  have "valid_unit p1 a" using pool_inv_free [OF i(1), of a] ar by simp
  then show "P (get_unit q a)" using i(2) h(3,4) by (simp add: q idle_sat_def)
  show "idle_sat P q" using i(2) h(2,4) unfolding q idle_sat_def by simp
qed

lemma TPool_Recover_idle:
  assumes "pool_inv sz p" "a \<in> in_use p" "idle_sat P p" "P (get_unit p a)" "TPool_Recover sz a p = Inr q"
  shows "idle_sat P q"
proof -
  from TPool_Recover_ok [OF assms(1,2)] assms(5) have q: "in_use q = in_use p - {a}" "\<forall>b. get_unit q b = get_unit p b"
    by auto
  have "valid_unit q b = valid_unit p b" for b
    using assms(5) by (auto simp: TPool_Recover_def CheckAddr_def Let_def outcome_simps split: if_splits)
  with q assms(3,4) show ?thesis by (auto simp: idle_sat_def)
qed

lemma put_unit_idle:
  assumes "pool_inv sz p" "a \<in> in_use p"
  shows "idle_sat P (put_unit a v p) \<longleftrightarrow> idle_sat P p"
  using put_unit_ok [OF assms(1) in_use_valid [OF assms(2)], of v] assms(2)
  by (simp add: idle_sat_def) metis

lemma TPool_new_idle:
  assumes "P ctor" "TPool_new sz ctor n = Inr p"
  shows "idle_sat P p"
proof -
  let ?e = "\<lparr>m_list = [], m_sBlockCount = 0, m_pUnitAry = [], m_pUnitAry_form = None\<rparr> :: 'a tpool"
  have "pool_inv sz ?e" "idle_sat P ?e" by (simp_all add: pool_inv_def valid_unit_def idle_sat_def)
  from AllocNewBlob_idle [OF this(1) _ this(2) assms(1)] assms(2) show ?thesis by (simp add: TPool_new_def)
qed

section \<open>The interface clients rely on\<close>

text \<open>
  A pool of cells: \<open>create\<close> hands out a cell nobody holds, \<open>recover\<close> takes back a held one,
  and neither touches what the other holders wrote.
\<close>

locale cell_pool =
  fixes invar :: "'p \<Rightarrow> bool"
    and held :: "'p \<Rightarrow> 'x set"
    and content :: "'p \<Rightarrow> 'x \<Rightarrow> 'a"
    and create :: "'p \<Rightarrow> ('x option \<times> 'p) outcome"
    and recover :: "'x \<Rightarrow> 'p \<Rightarrow> 'p outcome"
    and store :: "'x \<Rightarrow> 'a \<Rightarrow> 'p \<Rightarrow> 'p"
  assumes create_law: "invar p \<Longrightarrow> \<exists>a q. create p = Inr (Some a, q) \<and> invar q \<and>
        a \<notin> held p \<and> held q = insert a (held p) \<and> (\<forall>b \<in> held p. content q b = content p b)"
    and recover_law: "invar p \<Longrightarrow> a \<in> held p \<Longrightarrow> \<exists>q. recover a p = Inr q \<and> invar q \<and>
        held q = held p - {a} \<and> (\<forall>b. content q b = content p b)"
    and store_law: "invar p \<Longrightarrow> a \<in> held p \<Longrightarrow> invar (store a v p) \<and> held (store a v p) = held p \<and>
        content (store a v p) = (content p)(a := v)"
begin

lemma create_cases:
  assumes "invar p"
  obtains a q where "create p = Inr (Some a, q)" "invar q" "a \<notin> held p"
    "held q = insert a (held p)" "\<And>b. b \<in> held p \<Longrightarrow> content q b = content p b"
  using create_law [OF assms] by blast

lemma create_facts:
  assumes "invar p" "create p = Inr (r, q)"
  shows "\<exists>a. r = Some a \<and> invar q \<and> a \<notin> held p \<and> held q = insert a (held p) \<and>
    (\<forall>b \<in> held p. content q b = content p b)"
  using create_law [OF assms(1)] assms(2) by auto

lemma recover_facts:
  assumes "invar p" "a \<in> held p" "recover a p = Inr q"
  shows "invar q" "held q = held p - {a}" "content q = content p"
  using recover_law [OF assms(1,2)] assms(3) by auto

text \<open>Storing does not disturb the other cells, and a stored value survives other traffic.\<close>

lemma store_create_content:
  assumes "invar p" "a \<in> held p" "create (store a v p) = Inr (Some b, q)"
  shows "b \<noteq> a \<and> content q a = v"
  using store_law [OF assms(1,2), of v] create_facts [of "store a v p" "Some b" q] assms(2,3) by auto

end

interpretation block_pool: cell_pool "pool_inv sz" in_use get_unit "TPool_Create sz ctor 64"
    "TPool_Recover sz" put_unit for sz ctor
proof unfold_locales
  fix p :: "'a tpool" assume "pool_inv sz p"
  then show "\<exists>a q. TPool_Create sz ctor 64 p = Inr (Some a, q) \<and> pool_inv sz q \<and> a \<notin> in_use p \<and>
      in_use q = insert a (in_use p) \<and> (\<forall>b \<in> in_use p. get_unit q b = get_unit p b)"
    using TPool_Create_ok [of sz p 64 ctor] in_use_valid [of _ p] by fastforce
next
  fix p :: "'a tpool" and a assume "pool_inv sz p" "a \<in> in_use p"
  then show "\<exists>q. TPool_Recover sz a p = Inr q \<and> pool_inv sz q \<and> in_use q = in_use p - {a} \<and>
      (\<forall>b. get_unit q b = get_unit p b)"
    using TPool_Recover_ok [of sz p a] by auto
next
  fix p :: "'a tpool" and a and v :: 'a assume "pool_inv sz p" "a \<in> in_use p"
  then show "pool_inv sz (put_unit a v p) \<and> in_use (put_unit a v p) = in_use p \<and>
      get_unit (put_unit a v p) = (get_unit p)(a := v)"
    using put_unit_ok [of sz p a v] in_use_valid [of a p] by (simp add: fun_eq_iff)
qed

text \<open>
  A pool whose clients reset a cell before giving it back: a property \<open>P\<close> that every idle cell
  has is also a property of each cell handed out.
\<close>

locale recycling_pool = cell_pool +
  fixes idle :: "('c \<Rightarrow> bool) \<Rightarrow> 'a \<Rightarrow> bool" and fresh :: 'c
  assumes create_idle: "invar p \<Longrightarrow> idle P p \<Longrightarrow> P fresh \<Longrightarrow> create p = Inr (Some a, q) \<Longrightarrow>
      idle P q \<and> P (content q a)"
    and recover_idle: "invar p \<Longrightarrow> a \<in> held p \<Longrightarrow> idle P p \<Longrightarrow> P (content p a) \<Longrightarrow>
      recover a p = Inr q \<Longrightarrow> idle P q"
    and store_idle: "invar p \<Longrightarrow> a \<in> held p \<Longrightarrow> idle P (store a v p) \<longleftrightarrow> idle P p"
begin

text \<open>Reset a cell and give it back: never fails, and keeps the idle cells clean.\<close>

lemma reset_recover:
  assumes "invar p" "a \<in> held p" "idle P p" "P v"
  shows "\<exists>q. recover a (store a v p) = Inr q \<and> invar q \<and> held q = held p - {a} \<and> idle P q \<and>
    (\<forall>b. b \<noteq> a \<longrightarrow> content q b = content p b)"
proof -
  note s = store_law [OF assms(1,2), of v]
  from s have i: "invar (store a v p)" "a \<in> held (store a v p)" using assms(2) by simp_all
  from recover_law [OF this] obtain q where q: "recover a (store a v p) = Inr q" "invar q"
      "held q = held p - {a}" "\<forall>b. content q b = content (store a v p) b" using s by auto
  from recover_idle [OF i _ _ q(1), of P] s assms store_idle [OF assms(1,2)] have "idle P q" by simp
  with q s show ?thesis by auto
qed

text \<open>Take a clean cell.\<close>

lemma create_clean:
  assumes "invar p" "idle P p" "P fresh"
  shows "\<exists>a q. create p = Inr (Some a, q) \<and> invar q \<and> a \<notin> held p \<and> held q = insert a (held p) \<and>
    idle P q \<and> P (content q a) \<and> (\<forall>b \<in> held p. content q b = content p b)"
  using create_law [OF assms(1)] create_idle [OF assms] by blast

end

interpretation clean_pool: recycling_pool "pool_inv sz" in_use get_unit "TPool_Create sz ctor 64"
    "TPool_Recover sz" put_unit idle_sat ctor for sz ctor
proof unfold_locales
  show "idle_sat P q \<and> P (get_unit q a)" if "pool_inv sz p" "idle_sat P p" "P ctor"
      "TPool_Create sz ctor 64 p = Inr (Some a, q)" for p q :: "'a tpool" and P a
    using TPool_Create_idle [OF that(1) _ that(2-4)] by simp
next
  show "idle_sat P q" if "pool_inv sz p" "a \<in> in_use p" "idle_sat P p" "P (get_unit p a)"
      "TPool_Recover sz a p = Inr q" for p q :: "'a tpool" and P a
    by (rule TPool_Recover_idle [OF that])
next
  show "idle_sat P (put_unit a v p) = idle_sat P p" if "pool_inv sz p" "a \<in> in_use p" for p :: "'a tpool" and a v P
    by (rule put_unit_idle [OF that])
qed

section \<open>Reachable pools\<close>

text \<open>Any history of a pool: construction, then \<^verbatim>\<open>Create\<close>, \<^verbatim>\<open>Recover\<close> and writes by the holders.\<close>

inductive pool_reach :: "nat \<Rightarrow> 'a \<Rightarrow> nat \<Rightarrow> nat \<Rightarrow> 'a tpool \<Rightarrow> bool"
  for sz :: nat and ctor :: 'a and size0 count :: nat where
  pr_new: "TPool_new sz ctor size0 = Inr p \<Longrightarrow> pool_reach sz ctor size0 count p"
| pr_create: "pool_reach sz ctor size0 count p \<Longrightarrow> TPool_Create sz ctor count p = Inr (r, q) \<Longrightarrow>
    pool_reach sz ctor size0 count q"
| pr_recover: "pool_reach sz ctor size0 count p \<Longrightarrow> TPool_Recover sz a p = Inr q \<Longrightarrow>
    pool_reach sz ctor size0 count q"
| pr_write: "pool_reach sz ctor size0 count p \<Longrightarrow> a \<in> in_use p \<Longrightarrow>
    pool_reach sz ctor size0 count (put_unit a v p)"

lemma TPool_Recover_Inr: "TPool_Recover sz a p = Inr q \<Longrightarrow> a \<in> in_use p"
  by (auto simp: TPool_Recover_def CheckAddr_def in_use_def outcome_simps split: if_splits)

lemma TPool_blocks:
  "TPool_new sz ctor n = Inr p \<Longrightarrow> 0 < m_sBlockCount p"
  "TPool_Create sz ctor n p = Inr (r, q) \<Longrightarrow> m_sBlockCount p \<le> m_sBlockCount q"
  "TPool_Recover sz a p = Inr q \<Longrightarrow> m_sBlockCount q = m_sBlockCount p"
  by (auto simp: TPool_new_def TPool_Create_def TPool_Recover_def AllocNewBlob_def Let_def
      outcome_simps split: if_splits list.splits)

lemma pool_reach_inv:
  assumes "pool_reach sz ctor size0 count p" "0 < count"
  shows "pool_inv sz p \<and> 0 < m_sBlockCount p"
  using assms(1)
proof induction
  case (pr_new p)
  then show ?case using TPool_new_inv [of sz ctor size0] TPool_blocks(1) [of sz ctor size0] by auto
next
  case (pr_create p r q)
  then show ?case using TPool_Create_ok [OF _ assms(2), of sz p ctor] TPool_blocks(2) by fastforce
next
  case (pr_recover p a q)
  then show ?case
    using TPool_Recover_ok [of sz p a] TPool_Recover_Inr [of sz a p q] TPool_blocks(3) by fastforce
next
  case (pr_write p a v)
  then show ?case using put_unit_ok(1) [of sz p a v] by (simp add: in_use_valid put_unit_def)
qed

text \<open>A run of allocations.\<close>

fun create_many :: "nat \<Rightarrow> nat \<Rightarrow> 'a \<Rightarrow> nat \<Rightarrow> 'a tpool \<Rightarrow> (uaddr option list \<times> 'a tpool) outcome" where
  "create_many 0 sz ctor count p = Inr ([], p)"
| "create_many (Suc n) sz ctor count p =
     bindE (TPool_Create sz ctor count p) (\<lambda>(r, q).
       bindE (create_many n sz ctor count q) (\<lambda>(rs, q'). Inr (r # rs, q')))"

lemma create_many_free:
  assumes "pool_inv sz p" "n \<le> length (m_list p)" "0 < count"
  shows "\<exists>q. create_many n sz ctor count p = Inr (map Some (take n (m_list p)), q) \<and>
     pool_inv sz q \<and> m_list q = drop n (m_list p) \<and> (\<forall>b. valid_unit p b \<longrightarrow> get_unit q b = get_unit p b) \<and>
     (\<forall>b. valid_unit p b \<longrightarrow> valid_unit q b)"
  using assms(1,2)
proof (induction n arbitrary: p)
  case 0
  then show ?case by simp
next
  case (Suc n)
  obtain a rest where ar: "m_list p = a # rest" using Suc.prems(2) by (cases "m_list p") auto
  let ?q = "(set_unit_info a ((unit_info p a)\<lparr>status := IN_USE\<rparr>) p)\<lparr>m_list := rest\<rparr>"
  have run: "TPool_Create sz ctor count p = Inr (Some a, ?q)"
    using ar pool_inv_free [OF Suc.prems(1), of a] by (simp add: TPool_Create_def)
  note q = take_head_inv [OF Suc.prems(1) ar]
  have "n \<le> length (m_list ?q)" using Suc.prems(2) ar by simp
  from Suc.IH [OF q(1) this] obtain q' where "create_many n sz ctor count ?q = Inr (map Some (take n rest), q')"
      "pool_inv sz q'" "m_list q' = drop n rest" "\<forall>b. valid_unit p b \<longrightarrow> get_unit q' b = get_unit ?q b"
      "\<forall>b. valid_unit p b \<longrightarrow> valid_unit q' b"
    by auto
  with run ar q(4) show ?case by simp
qed

section \<open>Properties\<close>

text \<open>
  C22: In every history of a pool, \<^verbatim>\<open>Create\<close> succeeds with a non-null unit that nobody holds,
  marks exactly that unit as held, and leaves what every other holder stored unchanged; in
  particular two live objects never share memory.
\<close>

theorem pool_create_fresh:
  assumes "pool_reach sz ctor size0 64 p"
  shows "\<exists>a q. TPool_Create sz ctor 64 p = Inr (Some a, q) \<and> a \<notin> in_use p \<and>
    in_use q = insert a (in_use p) \<and> (\<forall>b \<in> in_use p. get_unit q b = get_unit p b)"
  using block_pool.create_law [of sz p ctor] pool_reach_inv [OF assms] by auto

theorem pool_create_fresh_witness:
  "\<exists>p a q. TPool_new 16 (7::nat) 2 = Inr p \<and> TPool_Create 16 7 64 p = Inr (Some a, q) \<and> a \<in> in_use q"
proof -
  obtain p where p: "TPool_new 16 (7::nat) 2 = Inr p" using TPool_new_inv [of 16 7 2] by blast
  from pool_create_fresh [OF pr_new [OF p]] p show ?thesis by blast
qed

text \<open>
  \<^verbatim>\<open>Recover\<close> of a held unit succeeds once; a second \<^verbatim>\<open>Recover\<close> of the same unit is caught
  by the status word and aborts instead of entering the unit twice in the free list.
\<close>

theorem pool_double_recover:
  assumes "pool_reach sz ctor size0 64 p" "a \<in> in_use p"
  shows "\<exists>q. TPool_Recover sz a p = Inr q \<and> in_use q = in_use p - {a} \<and>
    TPool_Recover sz a q = Inl (Assertion ''point adress error'')"
proof -
  have "pool_inv sz p" using pool_reach_inv [OF assms(1)] by simp
  from TPool_Recover_ok [OF this assms(2)] TPool_Recover_free show ?thesis by fastforce
qed

theorem pool_double_recover_witness:
  "\<exists>p a q r. TPool_new 16 (7::nat) 2 = Inr p \<and> TPool_Create 16 7 64 p = Inr (Some a, q) \<and>
     TPool_Recover 16 a q = Inr r \<and> TPool_Recover 16 a r = Inl (Assertion ''point adress error'')"
proof -
  obtain p where p: "TPool_new 16 (7::nat) 2 = Inr p" "pool_inv 16 p" using TPool_new_inv [of 16 7 2] by blast
  obtain a q where q: "TPool_Create 16 7 64 p = Inr (Some a, q)" "a \<in> in_use q"
    using TPool_Create_ok [OF p(2), of 64 7] by auto
  from pool_double_recover [OF pr_create [OF pr_new [OF p(1)] q(1)] q(2)] p(1) q(1) show ?thesis by blast
qed

text \<open>
  Free units are reused first-in first-out, and a recycled unit is not reset: after a unit
  with content \<open>v\<close> is recovered, the pool hands out all units that were free before it, in
  order, then that unit again, still holding \<open>v\<close>.
\<close>

theorem pool_recycles_stale:
  assumes "pool_reach sz ctor size0 64 p" "a \<in> in_use p" "TPool_Recover sz a p = Inr q"
  shows "\<exists>r. create_many (Suc (length (m_list p))) sz ctor 64 q = Inr (map Some (m_list p @ [a]), r) \<and>
    get_unit r a = get_unit p a"
proof -
  have inv: "pool_inv sz p" using pool_reach_inv [OF assms(1)] by simp
  from TPool_Recover_ok [OF inv assms(2)] assms(3)
  have q: "pool_inv sz q" "m_list q = m_list p @ [a]" "\<forall>b. get_unit q b = get_unit p b" by auto
  then have "valid_unit q a" by (auto dest: pool_inv_free)
  with create_many_free [OF q(1), of "Suc (length (m_list p))" 64 ctor] q show ?thesis by auto
qed

theorem pool_recycles_stale_witness:
  "\<exists>p a q r s. TPool_new 16 (7::nat) 2 = Inr p \<and> TPool_Create 16 7 64 p = Inr (Some a, q) \<and>
     TPool_Recover 16 a (put_unit a 99 q) = Inr r \<and>
     create_many 2 16 7 64 r = Inr ([Some (UAddr 0 1), Some a], s) \<and> get_unit s a = 99"
proof -
  obtain p where p: "TPool_new 16 (7::nat) 2 = Inr p" "pool_inv 16 p" "m_list p = map (UAddr 0) [0..<2]"
    using TPool_new_inv [of 16 7 2] by blast
  obtain a q where q: "TPool_Create 16 7 64 p = Inr (Some a, q)" "a \<in> in_use q" "pool_inv 16 q"
      "m_list q = [UAddr 0 1]"
    using TPool_Create_ok [OF p(2), of 64 7] p(3) by (auto simp: upt_rec)
  let ?q = "put_unit a 99 q"
  have reach: "pool_reach 16 7 2 64 ?q"
    by (rule pr_write [OF pr_create [OF pr_new [OF p(1)] q(1)] q(2)])
  note put = put_unit_ok [OF q(3) in_use_valid [OF q(2)], of 99]
  obtain r where r: "TPool_Recover 16 a ?q = Inr r"
    using TPool_Recover_ok [OF put(1), of a] put(2) q(2) by auto
  from pool_recycles_stale [OF reach _ r] p(1) q r put show ?thesis by (auto simp: numeral_2_eq_2)
qed

text \<open>
  The destructor releases the block table with the wrong form of \<^verbatim>\<open>delete\<close> in every
  reachable pool: the table is one \<^verbatim>\<open>new type_info*\<close> while there is one block and a
  \<^verbatim>\<open>new type_info*[n]\<close> afterwards, and \<^verbatim>\<open>~TPool\<close> tests the count the other way round.
\<close>

lemma pool_table_form:
  assumes "pool_reach sz ctor size0 64 p"
  shows "TPool_delete p = Inl BadDelete"
  using pool_reach_inv [OF assms] by (auto simp: TPool_delete_def delete_as_def pool_inv_def)

end
