(* ===== verification/Queue.thy ===== *)
theory Queue
  imports Prelude
begin

text \<open>
  src/Public/TQueue.h: the ring buffer between the network threads and the main loop
  (\<^verbatim>\<open>IOEVENT_QUEUE\<close>, 4096 slots) and between the loop and the logger (409600 slots). Each slot
  has a sign telling whether it holds data; two \<^verbatim>\<open>u32\<close> counters count reads and writes and
  wrap around. The template's \<open>size\<close> is the length of \<open>m_queue\<close>. \<^verbatim>\<open>Add\<close> waits while the slot
  at the write index is taken: \<open>None\<close> is \<open>the call does not return until somebody reads\<close>. The
  \<^verbatim>\<open>_DEBUG\<close> timing messages are not modelled. Theory Queue_SPSC has the two threads.
\<close>

section \<open>State and operations\<close>

datatype sign = NOT_EXISTS_DATA | EXISTS_DATA

record 'a tqueue =
  m_queue :: "'a list"
  m_sign :: "sign list"
  m_nRIndex :: nat
  m_nWIndex :: nat
  m_nRCount :: u32
  m_nWCount :: u32

text \<open>The constructor leaves the cells as the memory was (\<open>junk\<close>) and clears the signs.\<close>

definition TQueue_new :: "'a list \<Rightarrow> 'a tqueue" where
  "TQueue_new junk =
     \<lparr>m_queue = junk, m_sign = replicate (length junk) NOT_EXISTS_DATA,
      m_nRIndex = 0, m_nWIndex = 0, m_nRCount = 0, m_nWCount = 0\<rparr>"

definition wrap_index :: "nat \<Rightarrow> 'a tqueue \<Rightarrow> nat" where
  "wrap_index i q = (if i \<ge> length (m_queue q) then 0 else i)"

definition publish :: "'a \<Rightarrow> 'a tqueue \<Rightarrow> 'a tqueue" where
  "publish src q =
     q\<lparr>m_queue := (m_queue q)[m_nWIndex q := src],
       m_sign := (m_sign q)[m_nWIndex q := EXISTS_DATA],
       m_nWCount := m_nWCount q + 1,
       m_nWIndex := wrap_index (Suc (m_nWIndex q)) q\<rparr>"

definition TQueue_Add :: "'a \<Rightarrow> 'a tqueue \<Rightarrow> 'a tqueue option" where
  "TQueue_Add src q =
     (if m_sign q ! m_nWIndex q \<noteq> NOT_EXISTS_DATA then None else Some (publish src q))"

definition TQueue_TryAdd :: "'a \<Rightarrow> 'a tqueue \<Rightarrow> bool \<times> 'a tqueue" where
  "TQueue_TryAdd src q =
     (if m_sign q ! m_nWIndex q \<noteq> NOT_EXISTS_DATA then (False, q) else (True, publish src q))"

definition TQueue_Read :: "'a tqueue \<Rightarrow> ('a \<times> 'a tqueue) option" where
  "TQueue_Read q =
     (if m_sign q ! m_nRIndex q \<noteq> EXISTS_DATA then None
      else Some (m_queue q ! m_nRIndex q,
        q\<lparr>m_sign := (m_sign q)[m_nRIndex q := NOT_EXISTS_DATA],
          m_nRCount := m_nRCount q + 1,
          m_nRIndex := wrap_index (Suc (m_nRIndex q)) q\<rparr>))"

definition TQueue_IsEmpty :: "'a tqueue \<Rightarrow> bool" where
  "TQueue_IsEmpty q \<longleftrightarrow> m_nRCount q = m_nWCount q"

section \<open>Ring arithmetic\<close>

text \<open>The slots of \<open>k\<close> items that start at \<open>r\<close> in a ring of \<open>n\<close>.\<close>

definition ring_slots :: "nat \<Rightarrow> nat \<Rightarrow> nat \<Rightarrow> nat set" where
  "ring_slots n r k = (\<lambda>i. (r + i) mod n) ` {..<k}"

lemma ring_slots_0 [simp]: "ring_slots n r 0 = {}"
  by (simp add: ring_slots_def)

lemma ring_slots_Suc: "ring_slots n r (Suc k) = insert ((r + k) mod n) (ring_slots n r k)"
  by (auto simp: ring_slots_def lessThan_Suc)

lemma ring_slots_head: "r < n \<Longrightarrow> ring_slots n r (Suc k) = insert r (ring_slots n (Suc r mod n) k)"
proof -
  assume "r < n"
  have "(Suc r mod n + i) mod n = (r + Suc i) mod n" for i
    by (metis add_Suc_shift mod_add_left_eq)
  then have "ring_slots n (Suc r mod n) k = (\<lambda>i. (r + i) mod n) ` (Suc ` {..<k})"
    by (auto simp: ring_slots_def image_iff)
  moreover have "{..<Suc k} = insert 0 (Suc ` {..<k})" by (rule lessThan_Suc_eq_insert_0)
  ultimately show ?thesis using \<open>r < n\<close> by (simp add: ring_slots_def)
qed

lemma ring_inj:
  fixes r :: nat
  assumes "i < n" "j < n" "(r + i) mod n = (r + j) mod n"
  shows "i = j"
proof -
  have "(int r + int i) mod int n = (int r + int j) mod int n"
    using assms(3) by (metis of_nat_add zmod_int)
  then have "int n dvd int i - int j" by (simp add: mod_eq_dvd_iff)
  then have "int i - int j = 0 \<or> \<bar>int n\<bar> \<le> \<bar>int i - int j\<bar>" by (metis dvd_imp_le_int)
  with assms(1,2) show ?thesis by linarith
qed

lemma ring_next_free: "k < n \<Longrightarrow> (r + k) mod n \<notin> ring_slots n r k"
proof
  assume "k < n" "(r + k) mod n \<in> ring_slots n r k"
  then obtain i where "i < k" "(r + k) mod n = (r + i) mod n" by (auto simp: ring_slots_def)
  with ring_inj [of k n i r] \<open>k < n\<close> show False by simp
qed

lemma ring_head_notin:
  assumes "r < n" "k < n"
  shows "r \<notin> ring_slots n (Suc r mod n) k"
proof
  assume "r \<in> ring_slots n (Suc r mod n) k"
  then obtain i where i: "i < k" "r = (Suc r mod n + i) mod n" by (auto simp: ring_slots_def)
  have "(Suc r mod n + i) mod n = (r + Suc i) mod n" by (metis add_Suc_shift mod_add_left_eq)
  with i(2) \<open>r < n\<close> have "(r + Suc i) mod n = (r + 0) mod n" by simp
  with ring_inj [of "Suc i" n 0 r] i(1) \<open>k < n\<close> show False by simp
qed

lemma ring_full: "r < n \<Longrightarrow> ring_slots n r n = {..<n}"
proof -
  assume "r < n"
  have inj: "inj_on (\<lambda>i. (r + i) mod n) {..<n}"
    by (rule inj_onI) (auto dest: ring_inj [rotated 2])
  have "ring_slots n r n \<subseteq> {..<n}" using \<open>r < n\<close> by (auto simp: ring_slots_def)
  moreover have "card (ring_slots n r n) = card {..<n}"
    using inj by (simp add: ring_slots_def card_image)
  ultimately show ?thesis by (simp add: card_subset_eq)
qed

section \<open>Invariant and contents\<close>

definition queue_len :: "'a tqueue \<Rightarrow> nat" where
  "queue_len q = unat (m_nWCount q - m_nRCount q)"

definition queued :: "'a tqueue \<Rightarrow> 'a list" where
  "queued q = map (\<lambda>i. m_queue q ! ((m_nRIndex q + i) mod length (m_queue q))) [0..<queue_len q]"

definition capacity :: "'a tqueue \<Rightarrow> nat" where
  "capacity q = length (m_queue q)"

definition queue_inv :: "'a tqueue \<Rightarrow> bool" where
  "queue_inv q \<longleftrightarrow>
     0 < capacity q \<and> capacity q < 2 ^ 32 \<and> length (m_sign q) = capacity q \<and>
     m_nRIndex q < capacity q \<and> queue_len q \<le> capacity q \<and>
     m_nWIndex q = (m_nRIndex q + queue_len q) mod capacity q \<and>
     (\<forall>j < capacity q. m_sign q ! j = EXISTS_DATA \<longleftrightarrow>
        j \<in> ring_slots (capacity q) (m_nRIndex q) (queue_len q))"

lemma length_queued [simp]: "length (queued q) = queue_len q"
  by (simp add: queued_def)

lemma unat_add_one_less: "unat (x :: u32) < 2 ^ 32 - 1 \<Longrightarrow> unat (x + 1) = Suc (unat x)"
  by (simp add: unat_word_ariths(1))

lemma not_sign [simp]: "s \<noteq> NOT_EXISTS_DATA \<longleftrightarrow> s = EXISTS_DATA" "s \<noteq> EXISTS_DATA \<longleftrightarrow> s = NOT_EXISTS_DATA"
  by (cases s; simp)+

text \<open>The ring is full exactly when the slot at the write index is taken.\<close>

lemma write_slot_taken:
  assumes "queue_inv q"
  shows "m_sign q ! m_nWIndex q = EXISTS_DATA \<longleftrightarrow> queue_len q = capacity q"
proof (cases "queue_len q = capacity q")
  case True
  with assms show ?thesis
    using ring_full [of "m_nRIndex q" "capacity q"] by (auto simp: queue_inv_def)
next
  case False
  with assms show ?thesis
    using ring_next_free [of "queue_len q" "capacity q" "m_nRIndex q"] by (auto simp: queue_inv_def)
qed

lemma read_slot_taken:
  assumes "queue_inv q"
  shows "m_sign q ! m_nRIndex q = EXISTS_DATA \<longleftrightarrow> queue_len q \<noteq> 0"
proof (cases "queue_len q")
  case 0
  with assms show ?thesis by (simp add: queue_inv_def)
next
  case (Suc k)
  with assms show ?thesis
    using ring_slots_head [of "m_nRIndex q" "capacity q" k] by (auto simp: queue_inv_def)
qed

lemma wrap_mod: "i < n \<Longrightarrow> (if Suc i \<ge> n then 0 else Suc i) = Suc i mod n"
  by (auto simp: le_Suc_eq)

lemma publish_ok:
  assumes inv: "queue_inv q" and room: "queue_len q < capacity q"
  shows "queue_inv (publish src q) \<and> queued (publish src q) = queued q @ [src] \<and>
    capacity (publish src q) = capacity q"
proof -
  let ?n = "capacity q" and ?r = "m_nRIndex q" and ?w = "m_nWIndex q" and ?k = "queue_len q"
  let ?p = "publish src q"
  have q: "0 < ?n" "?n < 2 ^ 32" "length (m_sign q) = ?n" "?r < ?n" "?w = (?r + ?k) mod ?n"
    "\<And>j. j < ?n \<Longrightarrow> m_sign q ! j = EXISTS_DATA \<longleftrightarrow> j \<in> ring_slots ?n ?r ?k"
    using inv by (simp_all add: queue_inv_def)
  have w: "?w < ?n" using q(1,5) by simp
  have cap: "capacity ?p = ?n" by (simp add: capacity_def publish_def)
  have "unat (m_nWCount q - m_nRCount q) < 2 ^ 32 - 1" using room q(2) by (simp add: queue_len_def)
  from unat_add_one_less [OF this] have len: "queue_len ?p = Suc ?k"
    by (simp add: queue_len_def publish_def algebra_simps)
  have r: "m_nRIndex ?p = ?r" by (simp add: publish_def)
  have w': "m_nWIndex ?p = Suc ?w mod ?n"
    using wrap_mod [OF w] by (simp add: publish_def wrap_index_def capacity_def)
  also have "\<dots> = (?r + Suc ?k) mod ?n" using q(5) by (simp add: mod_Suc_eq)
  finally have w'': "m_nWIndex ?p = (?r + Suc ?k) mod ?n" .
  have "m_sign ?p ! j = EXISTS_DATA \<longleftrightarrow> j \<in> ring_slots ?n ?r (Suc ?k)" if "j < ?n" for j
    using that q(3,5,6) by (simp add: publish_def ring_slots_Suc nth_list_update)
  with q w'' len r cap room have inv': "queue_inv ?p" by (simp add: queue_inv_def publish_def)
  have other: "m_queue ?p ! ((?r + i) mod ?n) = m_queue q ! ((?r + i) mod ?n)" if "i < ?k" for i
  proof -
    have "(?r + i) mod ?n \<noteq> ?w" using ring_inj [of i ?n ?k ?r] that room q(5) by auto
    then show ?thesis by (simp add: publish_def)
  qed
  have "m_queue ?p ! ?w = src" using w by (simp add: publish_def capacity_def)
  with other q(5) have "queued ?p = queued q @ [src]"
    by (simp add: queued_def len r cap [unfolded capacity_def] capacity_def)
  with inv' cap show ?thesis by simp
qed

lemma TQueue_Read_ok:
  assumes inv: "queue_inv q" and some: "queue_len q \<noteq> 0"
  shows "\<exists>p. TQueue_Read q = Some (hd (queued q), p) \<and> queue_inv p \<and> queued p = tl (queued q) \<and>
    capacity p = capacity q"
proof -
  let ?n = "capacity q" and ?r = "m_nRIndex q"
  obtain k where k: "queue_len q = Suc k" using some by (cases "queue_len q") auto
  let ?p = "q\<lparr>m_sign := (m_sign q)[?r := NOT_EXISTS_DATA], m_nRCount := m_nRCount q + 1,
              m_nRIndex := wrap_index (Suc ?r) q\<rparr>"
  have q: "0 < ?n" "?n < 2 ^ 32" "length (m_sign q) = ?n" "?r < ?n" "queue_len q \<le> ?n"
    "m_nWIndex q = (?r + Suc k) mod ?n"
    "\<And>j. j < ?n \<Longrightarrow> m_sign q ! j = EXISTS_DATA \<longleftrightarrow> j \<in> ring_slots ?n ?r (Suc k)"
    using inv k by (simp_all add: queue_inv_def)
  have shift: "(Suc ?r mod ?n + i) mod ?n = (?r + Suc i) mod ?n" for i
    by (metis add_Suc_shift mod_add_left_eq)
  have run: "TQueue_Read q = Some (m_queue q ! ?r, ?p)"
    using read_slot_taken [OF inv] k by (simp add: TQueue_Read_def)
  have cap: "capacity ?p = ?n" by (simp add: capacity_def)
  have "m_nWCount q - m_nRCount q \<noteq> 0" using k by (auto simp: queue_len_def)
  from unat_minus_one [OF this] k have len: "queue_len ?p = k"
    by (simp add: queue_len_def algebra_simps)
  have r': "m_nRIndex ?p = Suc ?r mod ?n"
    using wrap_mod [OF q(4)] by (simp add: wrap_index_def capacity_def)
  have "m_sign ?p ! j = EXISTS_DATA \<longleftrightarrow> j \<in> ring_slots ?n (Suc ?r mod ?n) k" if "j < ?n" for j
    using that q ring_slots_head [OF q(4), of k] ring_head_notin [OF q(4), of k] k
    by (auto simp: nth_list_update)
  with q len r' cap k shift [of k] have inv': "queue_inv ?p" by (simp add: queue_inv_def)
  have "queued q = m_queue q ! ?r # map (\<lambda>i. m_queue q ! ((?r + Suc i) mod ?n)) [0..<k]"
    using q(4) by (simp add: queued_def k capacity_def map_upt_Suc del: upt_Suc)
  moreover have "queued ?p = map (\<lambda>i. m_queue q ! ((?r + Suc i) mod ?n)) [0..<k]"
    unfolding queued_def len r' using shift by (simp add: capacity_def)
  ultimately show ?thesis using run inv' cap by simp
qed

lemma TQueue_new_ok:
  "junk \<noteq> [] \<Longrightarrow> length junk < 2 ^ 32 \<Longrightarrow>
     queue_inv (TQueue_new junk) \<and> queued (TQueue_new junk) = [] \<and> capacity (TQueue_new junk) = length junk"
  by (auto simp: TQueue_new_def queue_inv_def queue_len_def queued_def capacity_def)

section \<open>The interface clients rely on\<close>

text \<open>
  A bounded queue: \<open>put\<close> appends unless the queue is full, \<open>get\<close> takes the head. The event
  loop and the logger use nothing else of the ring.
\<close>

locale bounded_fifo =
  fixes invar :: "'q \<Rightarrow> bool"
    and items :: "'q \<Rightarrow> 'a list"
    and room :: "'q \<Rightarrow> nat"
    and put :: "'a \<Rightarrow> 'q \<Rightarrow> 'q option"
    and get :: "'q \<Rightarrow> ('a \<times> 'q) option"
  assumes put_full: "invar q \<Longrightarrow> room q \<le> length (items q) \<Longrightarrow> put x q = None"
    and put_room: "invar q \<Longrightarrow> length (items q) < room q \<Longrightarrow>
        \<exists>p. put x q = Some p \<and> invar p \<and> items p = items q @ [x] \<and> room p = room q"
    and get_empty: "invar q \<Longrightarrow> items q = [] \<Longrightarrow> get q = None"
    and get_head: "invar q \<Longrightarrow> items q = x # xs \<Longrightarrow>
        \<exists>p. get q = Some (x, p) \<and> invar p \<and> items p = xs \<and> room p = room q"
begin

lemma put_Some:
  assumes "invar q" "put x q = Some p"
  shows "invar p \<and> items p = items q @ [x] \<and> room p = room q \<and> length (items q) < room q"
  using put_full [OF assms(1), of x] put_room [OF assms(1), of x] assms(2)
  by (cases "length (items q) < room q") auto

lemma put_None: "invar q \<Longrightarrow> put x q = None \<longleftrightarrow> room q \<le> length (items q)"
  using put_full [of q x] put_room [of q x] by (cases "length (items q) < room q") auto

lemma get_Some:
  assumes "invar q" "get q = Some (x, p)"
  shows "items q = x # items p \<and> invar p \<and> room p = room q"
  using get_empty [OF assms(1)] get_head [OF assms(1)] assms(2) by (cases "items q") auto

lemma get_None: "invar q \<Longrightarrow> get q = None \<longleftrightarrow> items q = []"
  using get_empty [of q] get_head [of q] by (cases "items q") auto

end

interpretation ring_queue: bounded_fifo queue_inv queued capacity TQueue_Add TQueue_Read
proof unfold_locales
  fix q :: "'a tqueue" and x assume q: "queue_inv q"
  then have le: "queue_len q \<le> capacity q" by (simp add: queue_inv_def)
  show "TQueue_Add x q = None" if "capacity q \<le> length (queued q)"
    using that le write_slot_taken [OF q] by (simp add: TQueue_Add_def)
  show "\<exists>p. TQueue_Add x q = Some p \<and> queue_inv p \<and> queued p = queued q @ [x] \<and> capacity p = capacity q"
    if "length (queued q) < capacity q"
    using that write_slot_taken [OF q] publish_ok [OF q, of x] by (simp add: TQueue_Add_def)
next
  fix q :: "'a tqueue" assume q: "queue_inv q"
  show "TQueue_Read q = None" if "queued q = []"
    using that read_slot_taken [OF q] by (simp add: TQueue_Read_def queued_def)
  show "\<exists>p. TQueue_Read q = Some (x, p) \<and> queue_inv p \<and> queued p = xs \<and> capacity p = capacity q"
    if "queued q = x # xs" for x xs
  proof -
    have "queue_len q \<noteq> 0" using that by (metis length_queued length_0_conv list.discI)
    with TQueue_Read_ok [OF q] that show ?thesis by simp
  qed
qed

lemma TryAdd_Add: "TQueue_TryAdd x q = (case TQueue_Add x q of None \<Rightarrow> (False, q) | Some p \<Rightarrow> (True, p))"
  by (simp add: TQueue_TryAdd_def TQueue_Add_def)

lemma queue_len_0: "queue_len q = 0 \<longleftrightarrow> queued q = []"
  by (simp add: queued_def)

lemma IsEmpty_iff: "TQueue_IsEmpty q \<longleftrightarrow> queued q = []"
  unfolding queue_len_0 [symmetric] by (auto simp: TQueue_IsEmpty_def queue_len_def unat_eq_zero)

text \<open>
  A sequence of calls, \<open>Some x\<close> for \<^verbatim>\<open>TryAdd(x)\<close> and \<open>None\<close> for \<^verbatim>\<open>Read\<close>: the values accepted,
  the values read, and the queue afterwards.
\<close>

fun queue_calls :: "'a option list \<Rightarrow> 'a tqueue \<Rightarrow> 'a list \<times> 'a list \<times> 'a tqueue" where
  "queue_calls [] q = ([], [], q)"
| "queue_calls (Some x # cs) q =
     (let (ok, p) = TQueue_TryAdd x q; (ins, outs, r) = queue_calls cs p in
      (if ok then x # ins else ins, outs, r))"
| "queue_calls (None # cs) q =
     (case TQueue_Read q of
        None \<Rightarrow> queue_calls cs q
      | Some (x, p) \<Rightarrow> let (ins, outs, r) = queue_calls cs p in (ins, x # outs, r))"

lemma queue_calls_ok:
  assumes "queue_inv q" "queue_calls cs q = (ins, outs, r)"
  shows "queue_inv r \<and> queued q @ ins = outs @ queued r \<and> capacity r = capacity q"
  using assms
proof (induction cs q arbitrary: ins outs r rule: queue_calls.induct)
  case (1 q)
  then show ?case by simp
next
  case (2 x cs q)
  obtain ok p where p: "TQueue_TryAdd x q = (ok, p)" by fastforce
  obtain ins' outs' r' where rec: "queue_calls cs p = (ins', outs', r')" by (cases "queue_calls cs p")
  have res: "ins = (if ok then x # ins' else ins')" "outs = outs'" "r = r'"
    using 2(3) p rec by (simp_all split: if_splits)
  have "queue_inv p \<and> capacity p = capacity q \<and> queued p = queued q @ (if ok then [x] else [])"
    using p 2(2) ring_queue.put_Some [of q x p]
    by (auto simp: TryAdd_Add split: option.splits)
  with 2(1) [OF p [symmetric] refl _ rec] res show ?case by auto
next
  case (3 cs q)
  show ?case
  proof (cases "TQueue_Read q")
    case None
    with 3 show ?thesis by simp
  next
    case (Some xp)
    obtain x p where xp: "xp = (x, p)" by fastforce
    obtain ins' outs' r' where rec: "queue_calls cs p = (ins', outs', r')" by (cases "queue_calls cs p")
    from Some xp 3(3) ring_queue.get_Some [of q x p]
    have "queued q = x # queued p" "queue_inv p" "capacity p = capacity q" by simp_all
    with 3(2) [OF Some xp [symmetric] _ rec] 3(4) Some xp rec show ?thesis by auto
  qed
qed

section \<open>Properties\<close>



text \<open>
  \<^verbatim>\<open>IsEmpty\<close> compares two 32-bit counters that wrap around; after any sequence of calls on a
  ring with fewer than \<open>2^32\<close> slots it still answers true exactly when every accepted value has
  been read.
\<close>

theorem queue_isempty_exact:
  assumes "junk \<noteq> []" "length junk < 2 ^ 32" "queue_calls cs (TQueue_new junk) = (ins, outs, r)"
  shows "TQueue_IsEmpty r \<longleftrightarrow> length outs = length ins"
proof -
  note new = TQueue_new_ok [OF assms(1,2)]
  from queue_calls_ok [OF _ assms(3)] new
  have "queue_inv r" "ins = outs @ queued r" by simp_all
  then show ?thesis by (simp add: IsEmpty_iff queue_len_0)
qed

theorem queue_isempty_exact_witness:
  "queue_calls [Some 1, None, None] (TQueue_new [0, 0 :: nat]) =
     ([1], [1], snd (snd (queue_calls [Some 1, None, None] (TQueue_new [0, 0])))) \<and>
   TQueue_IsEmpty (snd (snd (queue_calls [Some 1, None, None] (TQueue_new [0, 0 :: nat]))))"
proof -
  let ?run = "queue_calls [Some 1, None, None] (TQueue_new [0, 0 :: nat])"
  have run: "?run = ([1], [1], snd (snd ?run))"
    by (simp add: TQueue_new_def TQueue_TryAdd_def TQueue_Read_def publish_def wrap_index_def)
  with queue_isempty_exact [OF _ _ run] show ?thesis by simp
qed

end
