(* ===== verification/Queue_SPSC.thy ===== *)
theory Queue_SPSC
  imports Queue
begin

text \<open>
  TQueue.h between two threads. \<^verbatim>\<open>IOEVENT_QUEUE\<close> and the logger's queue are instantiated with
  \<open>lock = false\<close>: one thread calls \<^verbatim>\<open>Add\<close>, another \<^verbatim>\<open>Read\<close>, and nothing but the sign of each
  slot orders them. Here every access to shared memory is one step, in the order the source
  makes them, and the two threads interleave arbitrarily (sequential consistency; the code
  has no fences and relies on the strong ordering of x86). The state extends the queue's record
  with the two program counters and two ghost lists: the values published and the values taken.
\<close>

section \<open>The two threads\<close>

datatype 'a producer_pc =
    PIdle
  | PCheck 'a    \<comment> \<open>\<^verbatim>\<open>while (m_sign[m_nWIndex] != NOT_EXISTS_DATA) CSLEEP(1);\<close>\<close>
  | PWrite 'a    \<comment> \<open>\<^verbatim>\<open>m_queue[m_nWIndex] = src;\<close>\<close>
  | PSign 'a     \<comment> \<open>\<^verbatim>\<open>m_sign[m_nWIndex++] = EXISTS_DATA;\<close>\<close>
  | PCount       \<comment> \<open>\<^verbatim>\<open>m_nWCount++;\<close>\<close>
  | PWrap        \<comment> \<open>\<^verbatim>\<open>if (m_nWIndex >= size) m_nWIndex = 0;\<close>\<close>

datatype 'a consumer_pc =
    CIdle
  | CCheck       \<comment> \<open>\<^verbatim>\<open>while (m_sign[m_nRIndex] != EXISTS_DATA) return false;\<close>\<close>
  | CRead        \<comment> \<open>\<^verbatim>\<open>value = m_queue[m_nRIndex];\<close>\<close>
  | CClear 'a    \<comment> \<open>\<^verbatim>\<open>m_sign[m_nRIndex++] = NOT_EXISTS_DATA;\<close>\<close>
  | CCount 'a    \<comment> \<open>\<^verbatim>\<open>m_nRCount++;\<close>\<close>
  | CWrap 'a     \<comment> \<open>\<^verbatim>\<open>if (m_nRIndex >= size) m_nRIndex = 0;\<close>\<close>

record 'a spsc = "'a tqueue" +
  producer :: "'a producer_pc"
  consumer :: "'a consumer_pc"
  sent :: "'a list"
  taken :: "'a list"

definition spsc_new :: "'a list \<Rightarrow> 'a spsc" where
  "spsc_new junk =
     \<lparr>m_queue = junk, m_sign = replicate (length junk) NOT_EXISTS_DATA,
      m_nRIndex = 0, m_nWIndex = 0, m_nRCount = 0, m_nWCount = 0,
      producer = PIdle, consumer = CIdle, sent = [], taken = []\<rparr>"

inductive spsc_step :: "'a spsc \<Rightarrow> 'a spsc \<Rightarrow> bool" where
  p_call: "producer s = PIdle \<Longrightarrow> spsc_step s (s\<lparr>producer := PCheck v\<rparr>)"
| p_spin: "producer s = PCheck v \<Longrightarrow> m_sign s ! m_nWIndex s \<noteq> NOT_EXISTS_DATA \<Longrightarrow> spsc_step s s"
| p_free: "producer s = PCheck v \<Longrightarrow> m_sign s ! m_nWIndex s = NOT_EXISTS_DATA \<Longrightarrow>
    spsc_step s (s\<lparr>producer := PWrite v\<rparr>)"
| p_write: "producer s = PWrite v \<Longrightarrow>
    spsc_step s (s\<lparr>m_queue := (m_queue s)[m_nWIndex s := v], producer := PSign v\<rparr>)"
| p_sign: "producer s = PSign v \<Longrightarrow>
    spsc_step s (s\<lparr>m_sign := (m_sign s)[m_nWIndex s := EXISTS_DATA], m_nWIndex := Suc (m_nWIndex s),
                  producer := PCount, sent := sent s @ [v]\<rparr>)"
| p_count: "producer s = PCount \<Longrightarrow> spsc_step s (s\<lparr>m_nWCount := m_nWCount s + 1, producer := PWrap\<rparr>)"
| p_wrap: "producer s = PWrap \<Longrightarrow>
    spsc_step s (s\<lparr>m_nWIndex := (if m_nWIndex s \<ge> length (m_queue s) then 0 else m_nWIndex s),
                  producer := PIdle\<rparr>)"
| c_call: "consumer s = CIdle \<Longrightarrow> spsc_step s (s\<lparr>consumer := CCheck\<rparr>)"
| c_empty: "consumer s = CCheck \<Longrightarrow> m_sign s ! m_nRIndex s \<noteq> EXISTS_DATA \<Longrightarrow>
    spsc_step s (s\<lparr>consumer := CIdle\<rparr>)"
| c_some: "consumer s = CCheck \<Longrightarrow> m_sign s ! m_nRIndex s = EXISTS_DATA \<Longrightarrow>
    spsc_step s (s\<lparr>consumer := CRead\<rparr>)"
| c_read: "consumer s = CRead \<Longrightarrow> spsc_step s (s\<lparr>consumer := CClear (m_queue s ! m_nRIndex s)\<rparr>)"
| c_clear: "consumer s = CClear v \<Longrightarrow>
    spsc_step s (s\<lparr>m_sign := (m_sign s)[m_nRIndex s := NOT_EXISTS_DATA], m_nRIndex := Suc (m_nRIndex s),
                  consumer := CCount v, taken := taken s @ [v]\<rparr>)"
| c_count: "consumer s = CCount v \<Longrightarrow> spsc_step s (s\<lparr>m_nRCount := m_nRCount s + 1, consumer := CWrap v\<rparr>)"
| c_wrap: "consumer s = CWrap v \<Longrightarrow>
    spsc_step s (s\<lparr>m_nRIndex := (if m_nRIndex s \<ge> length (m_queue s) then 0 else m_nRIndex s),
                  consumer := CIdle\<rparr>)"

inductive spsc_reach :: "'a list \<Rightarrow> 'a spsc \<Rightarrow> bool" for junk :: "'a list" where
  sr_new: "spsc_reach junk (spsc_new junk)"
| sr_step: "spsc_reach junk s \<Longrightarrow> spsc_step s t \<Longrightarrow> spsc_reach junk t"

section \<open>Invariant\<close>

abbreviation ring_size :: "'a spsc \<Rightarrow> nat" where "ring_size s \<equiv> length (m_queue s)"
abbreviation n_sent :: "'a spsc \<Rightarrow> nat" where "n_sent s \<equiv> length (sent s)"
abbreviation n_taken :: "'a spsc \<Rightarrow> nat" where "n_taken s \<equiv> length (taken s)"

text \<open>The number of \<open>k\<close> with index \<open>j\<close> published and not taken is one or none.\<close>

definition occupied :: "'a spsc \<Rightarrow> nat \<Rightarrow> bool" where
  "occupied s j \<longleftrightarrow> (\<exists>k. n_taken s \<le> k \<and> k < n_sent s \<and> j = k mod ring_size s)"

definition window_inv :: "'a spsc \<Rightarrow> bool" where
  "window_inv s \<longleftrightarrow> 0 < ring_size s \<and> length (m_sign s) = ring_size s \<and>
     n_taken s \<le> n_sent s \<and> n_sent s \<le> n_taken s + ring_size s \<and>
     taken s = take (n_taken s) (sent s)"

definition sign_inv :: "'a spsc \<Rightarrow> bool" where
  "sign_inv s \<longleftrightarrow> (\<forall>j < ring_size s. m_sign s ! j = EXISTS_DATA \<longleftrightarrow> occupied s j)"

definition data_inv :: "'a spsc \<Rightarrow> bool" where
  "data_inv s \<longleftrightarrow> (\<forall>k. n_taken s \<le> k \<longrightarrow> k < n_sent s \<longrightarrow> m_queue s ! (k mod ring_size s) = sent s ! k)"

definition producer_inv :: "'a spsc \<Rightarrow> bool" where
  "producer_inv s \<longleftrightarrow>
     (case producer s of
        PIdle \<Rightarrow> m_nWIndex s = n_sent s mod ring_size s
      | PCheck v \<Rightarrow> m_nWIndex s = n_sent s mod ring_size s
      | PWrite v \<Rightarrow> m_nWIndex s = n_sent s mod ring_size s \<and> n_sent s < n_taken s + ring_size s
      | PSign v \<Rightarrow> m_nWIndex s = n_sent s mod ring_size s \<and> n_sent s < n_taken s + ring_size s \<and>
          m_queue s ! m_nWIndex s = v
      | PCount \<Rightarrow> 0 < n_sent s \<and> m_nWIndex s = Suc ((n_sent s - 1) mod ring_size s)
      | PWrap \<Rightarrow> 0 < n_sent s \<and> m_nWIndex s = Suc ((n_sent s - 1) mod ring_size s)) \<and>
     m_nWCount s = of_nat (n_sent s) - (if producer s = PCount then 1 else 0)"

definition consumer_inv :: "'a spsc \<Rightarrow> bool" where
  "consumer_inv s \<longleftrightarrow>
     (case consumer s of
        CIdle \<Rightarrow> m_nRIndex s = n_taken s mod ring_size s
      | CCheck \<Rightarrow> m_nRIndex s = n_taken s mod ring_size s
      | CRead \<Rightarrow> m_nRIndex s = n_taken s mod ring_size s \<and> n_taken s < n_sent s
      | CClear v \<Rightarrow> m_nRIndex s = n_taken s mod ring_size s \<and> n_taken s < n_sent s \<and>
          v = sent s ! n_taken s
      | CCount v \<Rightarrow> 0 < n_taken s \<and> m_nRIndex s = Suc ((n_taken s - 1) mod ring_size s)
      | CWrap v \<Rightarrow> 0 < n_taken s \<and> m_nRIndex s = Suc ((n_taken s - 1) mod ring_size s)) \<and>
     m_nRCount s = of_nat (n_taken s) - (case consumer s of CCount _ \<Rightarrow> 1 | _ \<Rightarrow> 0)"

definition spsc_inv :: "'a spsc \<Rightarrow> bool" where
  "spsc_inv s \<longleftrightarrow> window_inv s \<and> sign_inv s \<and> data_inv s \<and> producer_inv s \<and> consumer_inv s"

lemmas spsc_inv_defs = window_inv_def sign_inv_def data_inv_def producer_inv_def consumer_inv_def

lemma window_inj:
  fixes a :: nat
  assumes "a \<le> k" "k < a + n" "a \<le> l" "l < a + n" "k mod n = l mod n"
  shows "k = l"
proof -
  have "(a + (k - a)) mod n = (a + (l - a)) mod n" using assms by simp
  with ring_inj [of "k - a" n "l - a" a] assms show ?thesis by linarith
qed

lemma Suc_mod_pred: "0 < m \<Longrightarrow> 0 < n \<Longrightarrow>
    (if n \<le> Suc ((m - 1) mod n) then 0 else Suc ((m - 1) mod n)) = m mod n"
  using wrap_mod [of "(m - 1) mod n" n] by (simp add: mod_Suc_eq)

text \<open>The check of the producer fails exactly when the ring is full, that of the consumer when it is empty.\<close>

lemma full_iff:
  assumes "window_inv s" "sign_inv s"
  shows "m_sign s ! (n_sent s mod ring_size s) = EXISTS_DATA \<longleftrightarrow> n_sent s = n_taken s + ring_size s"
proof -
  have "occupied s (n_sent s mod ring_size s) \<longleftrightarrow> n_sent s = n_taken s + ring_size s"
  proof
    assume "occupied s (n_sent s mod ring_size s)"
    then obtain k where k: "n_taken s \<le> k" "k < n_sent s" "n_sent s mod ring_size s = k mod ring_size s"
      by (auto simp: occupied_def)
    with window_inj [of "n_taken s" k "ring_size s" "n_sent s"] assms(1)
    show "n_sent s = n_taken s + ring_size s" by (fastforce simp: window_inv_def)
  next
    assume "n_sent s = n_taken s + ring_size s"
    with assms(1) show "occupied s (n_sent s mod ring_size s)"
      by (auto simp: occupied_def window_inv_def intro!: exI [of _ "n_taken s"])
  qed
  with assms show ?thesis by (simp add: sign_inv_def window_inv_def)
qed

lemma empty_iff_sign:
  assumes "window_inv s" "sign_inv s"
  shows "m_sign s ! (n_taken s mod ring_size s) = EXISTS_DATA \<longleftrightarrow> n_taken s < n_sent s"
proof -
  have "occupied s (n_taken s mod ring_size s) \<longleftrightarrow> n_taken s < n_sent s"
    by (auto simp: occupied_def)
  with assms show ?thesis by (simp add: sign_inv_def window_inv_def)
qed

section \<open>Every step keeps the invariant\<close>

lemma spsc_new_inv: "junk \<noteq> [] \<Longrightarrow> spsc_inv (spsc_new junk)"
  by (auto simp: spsc_inv_def spsc_inv_defs spsc_new_def occupied_def)

lemma write_keeps_data:
  assumes "window_inv s" "data_inv s" "n_sent s < n_taken s + ring_size s" "w = n_sent s mod ring_size s"
  shows "data_inv (s\<lparr>m_queue := (m_queue s)[w := v], producer := pc\<rparr>)"
proof -
  have "w \<noteq> k mod ring_size s" if "n_taken s \<le> k" "k < n_sent s" for k
    using window_inj [of "n_taken s" k "ring_size s" "n_sent s"] that assms(1,3,4)
    by (auto simp: window_inv_def)
  with assms(2) show ?thesis by (simp add: data_inv_def)
qed

lemma sign_step_inv:
  fixes s :: "'a spsc" and v :: 'a and w w' :: nat and pc :: "'a producer_pc"
  assumes "window_inv s" "sign_inv s" "data_inv s" "n_sent s < n_taken s + ring_size s"
    and w: "w = n_sent s mod ring_size s" "m_queue s ! w = v"
  defines "t \<equiv> s\<lparr>m_sign := (m_sign s)[w := EXISTS_DATA], m_nWIndex := w', producer := pc,
                 sent := sent s @ [v]\<rparr>"
  shows "window_inv t \<and> sign_inv t \<and> data_inv t"
proof -
  have occ: "occupied t j \<longleftrightarrow> j = w \<or> occupied s j" for j
    using assms(1) w(1) by (auto simp: occupied_def t_def less_Suc_eq window_inv_def)
  have "m_sign t ! j = EXISTS_DATA \<longleftrightarrow> j = w \<or> m_sign s ! j = EXISTS_DATA" if "j < ring_size s" for j
    using that assms(1) w(1) by (simp add: t_def window_inv_def nth_list_update)
  moreover have size: "ring_size t = ring_size s" by (simp add: t_def)
  ultimately have "sign_inv t" using assms(2) by (simp add: sign_inv_def occ)
  moreover have "window_inv t"
    using assms(1,4) by (auto simp: window_inv_def t_def)
  moreover have "data_inv t"
    using assms(3) w by (auto simp: data_inv_def t_def nth_append less_Suc_eq)
  ultimately show ?thesis by blast
qed

lemma clear_step_inv:
  fixes s :: "'a spsc" and v :: 'a and r r' :: nat and pc :: "'a consumer_pc"
  assumes "window_inv s" "sign_inv s" "data_inv s" "n_taken s < n_sent s"
    and r: "r = n_taken s mod ring_size s" "v = sent s ! n_taken s"
  defines "t \<equiv> s\<lparr>m_sign := (m_sign s)[r := NOT_EXISTS_DATA], m_nRIndex := r', consumer := pc,
                 taken := taken s @ [v]\<rparr>"
  shows "window_inv t \<and> sign_inv t \<and> data_inv t"
proof -
  have inj: "k = n_taken s" if "n_taken s \<le> k" "k < n_sent s" "k mod ring_size s = r" for k
    using window_inj [of "n_taken s" k "ring_size s" "n_taken s"] that assms(1,4) r(1)
    by (auto simp: window_inv_def)
  have occ: "occupied t j \<longleftrightarrow> j \<noteq> r \<and> occupied s j" for j
  proof
    assume "occupied t j"
    then obtain k where k: "Suc (n_taken s) \<le> k" "k < n_sent s" "j = k mod ring_size s"
      by (auto simp: occupied_def t_def)
    have "j \<noteq> r" using inj [of k] k by auto
    moreover have "occupied s j" using k by (auto simp: occupied_def intro!: exI [of _ k])
    ultimately show "j \<noteq> r \<and> occupied s j" ..
  next
    assume "j \<noteq> r \<and> occupied s j"
    then obtain k where k: "n_taken s \<le> k" "k < n_sent s" "j = k mod ring_size s" "j \<noteq> r"
      by (auto simp: occupied_def)
    then have "k \<noteq> n_taken s" using r(1) by auto
    with k show "occupied t j" by (auto simp: occupied_def t_def intro!: exI [of _ k])
  qed
  have "m_sign t ! j = EXISTS_DATA \<longleftrightarrow> j \<noteq> r \<and> m_sign s ! j = EXISTS_DATA" if "j < ring_size s" for j
    using that assms(1) r(1) by (simp add: t_def window_inv_def nth_list_update)
  moreover have size: "ring_size t = ring_size s" by (simp add: t_def)
  ultimately have "sign_inv t" using assms(2) by (simp add: sign_inv_def occ)
  moreover have "window_inv t"
    using assms(1,4) r(2) by (auto simp: window_inv_def t_def take_Suc_conv_app_nth)
  moreover have "data_inv t"
    using assms(3) by (auto simp: data_inv_def t_def)
  ultimately show ?thesis by blast
qed

lemma spsc_step_inv: "spsc_step s t \<Longrightarrow> spsc_inv s \<Longrightarrow> spsc_inv t"
proof (induction rule: spsc_step.induct)
  case (p_call s v)
  then show ?case by (simp add: spsc_inv_def spsc_inv_defs occupied_def split: producer_pc.splits consumer_pc.splits)
next
  case (p_spin s v)
  then show ?case by simp
next
  case (p_free s v)
  then have "n_sent s < n_taken s + ring_size s"
    using full_iff [of s] by (auto simp: spsc_inv_def producer_inv_def window_inv_def)
  with p_free show ?case by (simp add: spsc_inv_def spsc_inv_defs occupied_def split: producer_pc.splits consumer_pc.splits)
next
  case (p_write s v)
  then have "data_inv (s\<lparr>m_queue := (m_queue s)[m_nWIndex s := v], producer := PSign v\<rparr>)"
    by (intro write_keeps_data) (auto simp: spsc_inv_def producer_inv_def)
  with p_write show ?case
    by (simp add: spsc_inv_def window_inv_def sign_inv_def producer_inv_def consumer_inv_def occupied_def
        split: consumer_pc.splits)
next
  case (p_sign s v)
  let ?t = "s\<lparr>m_sign := (m_sign s)[m_nWIndex s := EXISTS_DATA], m_nWIndex := Suc (m_nWIndex s),
              producer := PCount, sent := sent s @ [v]\<rparr>"
  have "window_inv ?t \<and> sign_inv ?t \<and> data_inv ?t"
    using p_sign by (intro sign_step_inv) (auto simp: spsc_inv_def producer_inv_def)
  moreover have "producer_inv ?t" using p_sign by (simp add: spsc_inv_def producer_inv_def)
  moreover have "consumer_inv ?t"
    using p_sign by (auto simp: spsc_inv_def consumer_inv_def window_inv_def nth_append split: consumer_pc.splits)
  ultimately show ?case by (simp add: spsc_inv_def)
next
  case (p_count s)
  then show ?case by (simp add: spsc_inv_def spsc_inv_defs occupied_def split: producer_pc.splits consumer_pc.splits)
next
  case (p_wrap s)
  then have at: "m_nWIndex s = Suc ((n_sent s - 1) mod ring_size s)" "0 < n_sent s" "0 < ring_size s"
    by (simp_all add: spsc_inv_def producer_inv_def window_inv_def)
  have wrapped: "(if ring_size s \<le> m_nWIndex s then 0 else m_nWIndex s) = n_sent s mod ring_size s"
    unfolding at(1) by (rule Suc_mod_pred [OF at(2,3)])
  from p_wrap show ?case
    unfolding wrapped
    by (simp add: spsc_inv_def spsc_inv_defs occupied_def split: producer_pc.splits consumer_pc.splits)
next
  case (c_call s)
  then show ?case by (simp add: spsc_inv_def spsc_inv_defs occupied_def split: producer_pc.splits consumer_pc.splits)
next
  case (c_empty s)
  then show ?case by (simp add: spsc_inv_def spsc_inv_defs occupied_def split: producer_pc.splits consumer_pc.splits)
next
  case (c_some s)
  then have "n_taken s < n_sent s"
    using empty_iff_sign [of s] by (auto simp: spsc_inv_def consumer_inv_def)
  with c_some show ?case by (simp add: spsc_inv_def spsc_inv_defs occupied_def split: producer_pc.splits consumer_pc.splits)
next
  case (c_read s)
  then show ?case by (simp add: spsc_inv_def spsc_inv_defs occupied_def split: producer_pc.splits consumer_pc.splits)
next
  case (c_clear s v)
  let ?t = "s\<lparr>m_sign := (m_sign s)[m_nRIndex s := NOT_EXISTS_DATA], m_nRIndex := Suc (m_nRIndex s),
              consumer := CCount v, taken := taken s @ [v]\<rparr>"
  have "window_inv ?t \<and> sign_inv ?t \<and> data_inv ?t"
    using c_clear by (intro clear_step_inv) (auto simp: spsc_inv_def consumer_inv_def)
  moreover have "consumer_inv ?t" using c_clear by (simp add: spsc_inv_def consumer_inv_def)
  moreover have "producer_inv ?t"
    using c_clear by (auto simp: spsc_inv_def producer_inv_def split: producer_pc.splits)
  ultimately show ?case by (simp add: spsc_inv_def)
next
  case (c_count s v)
  then show ?case by (simp add: spsc_inv_def spsc_inv_defs occupied_def split: producer_pc.splits consumer_pc.splits)
next
  case (c_wrap s v)
  then have at: "m_nRIndex s = Suc ((n_taken s - 1) mod ring_size s)" "0 < n_taken s" "0 < ring_size s"
    by (simp_all add: spsc_inv_def consumer_inv_def window_inv_def)
  have wrapped: "(if ring_size s \<le> m_nRIndex s then 0 else m_nRIndex s) = n_taken s mod ring_size s"
    unfolding at(1) by (rule Suc_mod_pred [OF at(2,3)])
  from c_wrap show ?case
    unfolding wrapped
    by (simp add: spsc_inv_def spsc_inv_defs occupied_def split: producer_pc.splits consumer_pc.splits)
qed

lemma spsc_reach_inv: "spsc_reach junk s \<Longrightarrow> junk \<noteq> [] \<Longrightarrow> spsc_inv s"
  by (induction rule: spsc_reach.induct) (auto intro: spsc_new_inv spsc_step_inv)

lemma spsc_step_ring_size: "spsc_step s t \<Longrightarrow> ring_size t = ring_size s"
  by (induction rule: spsc_step.induct) auto

lemma spsc_reach_ring_size: "spsc_reach junk s \<Longrightarrow> ring_size s = length junk"
  by (induction rule: spsc_reach.induct) (simp_all add: spsc_new_def spsc_step_ring_size)

section \<open>Properties\<close>

text \<open>
  C4: With one producer and one consumer and no lock, under every interleaving of the single
  memory accesses, the values the consumer has taken are a prefix, in order, of the values the
  producer has published: nothing is lost, duplicated, reordered or read before it is written.
  At most as many values are in flight as the ring has slots.
\<close>

theorem spsc_fifo:
  assumes "junk \<noteq> []" "spsc_reach junk s"
  shows "taken s = take (length (taken s)) (sent s) \<and> length (taken s) \<le> length (sent s) \<and>
    length (sent s) \<le> length (taken s) + length junk"
  using spsc_reach_inv [OF assms(2,1)] spsc_reach_ring_size [OF assms(2)]
  by (auto simp: spsc_inv_def window_inv_def)

definition spsc_example :: "nat spsc" where
  "spsc_example =
     \<lparr>m_queue = [5, 0], m_sign = [NOT_EXISTS_DATA, NOT_EXISTS_DATA], m_nRIndex = 1, m_nWIndex = 1,
      m_nRCount = 0, m_nWCount = 0, producer = PCount, consumer = CCount 5, sent = [5], taken = [5]\<rparr>"

lemma spsc_example_reach: "spsc_reach [0, 0] spsc_example"
proof -
  note step = sr_step [rotated]
  let ?s0 = "spsc_new [0, 0 :: nat]"
  let ?s1 = "?s0\<lparr>producer := PCheck 5\<rparr>"
  let ?s2 = "?s1\<lparr>producer := PWrite 5\<rparr>"
  let ?s3 = "?s2\<lparr>m_queue := [5, 0], producer := PSign 5\<rparr>"
  let ?s4 = "?s3\<lparr>m_sign := [EXISTS_DATA, NOT_EXISTS_DATA], m_nWIndex := 1, producer := PCount, sent := [5]\<rparr>"
  let ?s5 = "?s4\<lparr>consumer := CCheck\<rparr>"
  let ?s6 = "?s5\<lparr>consumer := CRead\<rparr>"
  let ?s7 = "?s6\<lparr>consumer := CClear 5\<rparr>"
  have "spsc_reach [0, 0] ?s0" by (rule sr_new)
  moreover have "spsc_step ?s0 ?s1" by (rule p_call) (simp add: spsc_new_def)
  ultimately have "spsc_reach [0, 0] ?s1" by (rule sr_step)
  moreover have "spsc_step ?s1 ?s2" by (rule p_free) (simp_all add: spsc_new_def)
  ultimately have "spsc_reach [0, 0] ?s2" by (rule sr_step)
  moreover have "spsc_step ?s2 ?s3" using p_write [of ?s2 5] by (simp add: spsc_new_def)
  ultimately have "spsc_reach [0, 0] ?s3" by (rule sr_step)
  moreover have "spsc_step ?s3 ?s4" using p_sign [of ?s3 5] by (simp add: spsc_new_def)
  ultimately have "spsc_reach [0, 0] ?s4" by (rule sr_step)
  moreover have "spsc_step ?s4 ?s5" by (rule c_call) (simp add: spsc_new_def)
  ultimately have "spsc_reach [0, 0] ?s5" by (rule sr_step)
  moreover have "spsc_step ?s5 ?s6" by (rule c_some) (simp_all add: spsc_new_def)
  ultimately have "spsc_reach [0, 0] ?s6" by (rule sr_step)
  moreover have "spsc_step ?s6 ?s7" using c_read [of ?s6] by (simp add: spsc_new_def)
  ultimately have "spsc_reach [0, 0] ?s7" by (rule sr_step)
  moreover have "spsc_step ?s7 spsc_example"
    using c_clear [of ?s7 5] by (simp add: spsc_new_def spsc_example_def)
  ultimately show ?thesis by (rule sr_step)
qed

theorem spsc_fifo_witness:
  "taken spsc_example = take 1 (sent spsc_example) \<and> length (taken spsc_example) = 1"
  using spsc_fifo [OF _ spsc_example_reach] by (simp add: spsc_example_def)

text \<open>
  C34: Neither thread waits without cause: in every reachable state the producer's check blocks
  exactly when all slots hold unread values, and the consumer's check reports \<open>no data\<close> exactly
  when every published value has been taken. So the two can never block each other.
\<close>

theorem spsc_blocks_only_when_full:
  assumes "junk \<noteq> []" "spsc_reach junk s"
  shows "(\<forall>v. producer s = PCheck v \<longrightarrow>
      (m_sign s ! m_nWIndex s \<noteq> NOT_EXISTS_DATA \<longleftrightarrow> length (sent s) = length (taken s) + length junk)) \<and>
    (consumer s = CCheck \<longrightarrow>
      (m_sign s ! m_nRIndex s \<noteq> EXISTS_DATA \<longleftrightarrow> length (sent s) = length (taken s)))"
proof -
  have inv: "window_inv s" "sign_inv s" "producer_inv s" "consumer_inv s" "ring_size s = length junk"
    using spsc_reach_inv [OF assms(2,1)] spsc_reach_ring_size [OF assms(2)] by (simp_all add: spsc_inv_def)
  have "m_sign s ! m_nWIndex s = EXISTS_DATA \<longleftrightarrow> n_sent s = n_taken s + length junk"
    if "producer s = PCheck v" for v
    using that inv(3,5) full_iff [OF inv(1,2)] by (simp add: producer_inv_def)
  moreover have "m_sign s ! m_nRIndex s \<noteq> EXISTS_DATA \<longleftrightarrow> n_sent s = n_taken s" if "consumer s = CCheck"
  proof -
    have "n_taken s \<le> n_sent s" using inv(1) by (simp add: window_inv_def)
    moreover have "m_sign s ! m_nRIndex s = EXISTS_DATA \<longleftrightarrow> n_taken s < n_sent s"
      using that inv(4) empty_iff_sign [OF inv(1,2)] by (simp add: consumer_inv_def)
    ultimately show ?thesis by (auto simp del: not_sign)
  qed
  ultimately show ?thesis by (simp only: not_sign(1)) blast
qed

theorem spsc_blocks_only_when_full_witness:
  "let s = (spsc_new [0, 0 :: nat])\<lparr>producer := PCheck 5\<rparr> in
     producer s = PCheck 5 \<and> m_sign s ! m_nWIndex s = NOT_EXISTS_DATA"
proof -
  let ?s = "(spsc_new [0, 0 :: nat])\<lparr>producer := PCheck 5\<rparr>"
  have "spsc_step (spsc_new [0, 0 :: nat]) ?s" by (rule p_call) (simp add: spsc_new_def)
  with sr_new have reach: "spsc_reach [0, 0] ?s" by (rule sr_step)
  have "length (sent ?s) \<noteq> length (taken ?s) + 2" by (simp add: spsc_new_def)
  with spsc_blocks_only_when_full [OF _ reach] show ?thesis by (auto simp: Let_def)
qed

end
