(* ===== verification/Stream.thy ===== *)
theory Stream
  imports Tools
begin

text \<open>
  src/Public/TStream.h: the byte buffer of every connection (receive and send side), of the
  argument packer and of the log. Bytes between \<open>m_read\<close> and \<open>m_write\<close> are pending. \<open>bl\<close> is
  the template's \<open>buff_length\<close>: the initial size and the step by which the buffer grows. The
  read/write locks only serialise the operations and are not part of the state. Memory fresh
  from \<^verbatim>\<open>new char[]\<close> is written as zeros; nothing reads it before it is written.
\<close>

section \<open>State and operations\<close>

record tstream =
  m_pbuff :: "byte list"
  m_read :: s32
  m_write :: s32
  m_max :: s32

definition TStream_new :: "s32 \<Rightarrow> tstream" where
  "TStream_new bl = \<lparr>m_pbuff = replicate (nat bl) 0, m_read = 0, m_write = 0, m_max = bl\<rparr>"

definition TStream_clear :: "s32 \<Rightarrow> tstream \<Rightarrow> tstream outcome" where
  "TStream_clear bl s =
     (let s0 = s\<lparr>m_read := 0, m_write := 0\<rparr>;
          s1 = (if m_max s0 > bl then s0\<lparr>m_pbuff := replicate (nat bl) 0, m_max := bl\<rparr> else s0) in
      bindE (SafeMemset (m_pbuff s1) (to_size_t bl) 0 (to_size_t bl))
        (\<lambda>b. Inr (s1\<lparr>m_pbuff := b\<rparr>)))"

text \<open>\<^verbatim>\<open>buff()\<close> points at the first pending byte; the readable memory from there on.\<close>

definition TStream_buff :: "tstream \<Rightarrow> byte list" where
  "TStream_buff s = drop (nat (m_read s)) (m_pbuff s)"

definition TStream_size :: "tstream \<Rightarrow> s32" where
  "TStream_size s = m_write s - m_read s"

definition TStream_out :: "s32 \<Rightarrow> tstream \<Rightarrow> tstream outcome" where
  "TStream_out size0 s =
     (if size0 > m_write s - m_read s then
        bindE (TASSERT False ''tstream overflow'') (\<lambda>_. Inr (s\<lparr>m_read := m_write s\<rparr>))
      else bindE (chk_s32 (m_read s + size0)) (\<lambda>r. Inr (s\<lparr>m_read := r\<rparr>)))"

text \<open>\<^verbatim>\<open>while (nNewSize - cursize <= size) nNewSize += buff_length;\<close>\<close>

function grow_size :: "s32 \<Rightarrow> s32 \<Rightarrow> s32 \<Rightarrow> s32 \<Rightarrow> s32 outcome" where
  "grow_size bl cursize size0 nNewSize =
     (if nNewSize - cursize \<le> size0 then
        if bl \<le> 0 then Inl Diverges
        else bindE (chk_s32 (nNewSize + bl)) (\<lambda>n. grow_size bl cursize size0 n)
      else Inr nNewSize)"
  by pat_completeness auto
termination
  by (relation "measure (\<lambda>(bl, cursize, size0, n). nat (cursize + size0 - n + 1))")
    (auto simp: chk_s32_def split: if_splits)

declare grow_size.simps [simp del]

definition malloc_new_size :: "s32 \<Rightarrow> tstream \<Rightarrow> tstream outcome" where
  "malloc_new_size newSize s =
     (let cursize = m_write s - m_read s in
      bindE (SafeMemcpy (replicate (nat newSize) 0) 0 (to_size_t newSize)
               (drop (nat (m_read s)) (m_pbuff s)) (to_size_t cursize))
        (\<lambda>b. Inr \<lparr>m_pbuff = b, m_read = 0, m_write = cursize, m_max = newSize\<rparr>))"

text \<open>The space check of \<^verbatim>\<open>in\<close>: grow the buffer, or move the pending bytes to its front.\<close>

definition make_room :: "s32 \<Rightarrow> s32 \<Rightarrow> tstream \<Rightarrow> tstream outcome" where
  "make_room bl size0 s =
     (if size0 > m_max s - m_write s then
        let cursize = m_write s - m_read s in
        if m_max s - cursize \<le> size0 then
          bindE (chk_s32 (m_max s + bl)) (\<lambda>n0.
            bindE (grow_size bl cursize size0 n0) (\<lambda>n. malloc_new_size n s))
        else
          bindE (SafeMemcpy_within (m_pbuff s) 0 (to_size_t (m_max s)) (nat (m_read s)) (to_size_t cursize))
            (\<lambda>b. Inr (s\<lparr>m_pbuff := b, m_write := cursize, m_read := 0\<rparr>))
      else Inr s)"

definition TStream_in :: "s32 \<Rightarrow> byte list \<Rightarrow> s32 \<Rightarrow> tstream \<Rightarrow> tstream outcome" where
  "TStream_in bl src size0 s =
     bindE (make_room bl size0 s) (\<lambda>s.
       bindE (SafeMemcpy (m_pbuff s) (nat (m_write s)) (to_size_t (m_max s - m_write s)) src (to_size_t size0))
         (\<lambda>b. bindE (chk_s32 (m_write s + size0)) (\<lambda>w. Inr (s\<lparr>m_pbuff := b, m_write := w\<rparr>))))"

section \<open>Invariant and contents\<close>

definition stream_inv :: "s32 \<Rightarrow> tstream \<Rightarrow> bool" where
  "stream_inv bl s \<longleftrightarrow>
     0 < bl \<and> bl \<le> m_max s \<and> in_s32 (m_max s) \<and> 0 \<le> m_read s \<and> m_read s \<le> m_write s \<and>
     m_write s \<le> m_max s \<and> length (m_pbuff s) = nat (m_max s)"

text \<open>The pending bytes: what \<^verbatim>\<open>buff()\<close> and \<^verbatim>\<open>size()\<close> describe together.\<close>

definition pending :: "tstream \<Rightarrow> byte list" where
  "pending s = take (nat (TStream_size s)) (TStream_buff s)"

text \<open>When \<^verbatim>\<open>in\<close> moves the pending bytes onto themselves.\<close>

definition overlapping_move :: "s32 \<Rightarrow> tstream \<Rightarrow> bool" where
  "overlapping_move size0 s \<longleftrightarrow>
     size0 > m_max s - m_write s \<and> size0 < m_max s - (m_write s - m_read s) \<and>
     m_read s < m_write s - m_read s"

lemma stream_inv_new: "0 < bl \<Longrightarrow> in_s32 bl \<Longrightarrow> stream_inv bl (TStream_new bl)"
  by (simp add: stream_inv_def TStream_new_def)

lemma pending_new [simp]: "pending (TStream_new bl) = []"
  by (simp add: pending_def TStream_size_def TStream_new_def)

lemma length_pending: "stream_inv bl s \<Longrightarrow> length (pending s) = nat (TStream_size s)"
  by (auto simp: pending_def TStream_size_def TStream_buff_def stream_inv_def)

lemma TStream_clear_ok:
  assumes "stream_inv bl s"
  shows "\<exists>t. TStream_clear bl s = Inr t \<and> stream_inv bl t \<and> pending t = []"
proof -
  have bl: "0 < bl" "bl \<le> m_max s" "in_s32 bl" "in_s32 (m_max s)" "length (m_pbuff s) = nat (m_max s)"
    using assms by (auto simp: stream_inv_def in_s32_def)
  then have "to_size_t bl = nat bl" by (simp add: in_s32_in_s64)
  with bl show ?thesis
    by (auto simp: TStream_clear_def stream_inv_def pending_def TStream_size_def Let_def)
qed

lemma TStream_out_ok:
  assumes "stream_inv bl s" "0 \<le> n" "n \<le> TStream_size s"
  shows "\<exists>t. TStream_out n s = Inr t \<and> stream_inv bl t \<and> pending t = drop (nat n) (pending s)"
proof -
  have "in_s32 (m_read s + n)" using assms by (auto simp: stream_inv_def TStream_size_def in_s32_def)
  moreover have "pending (s\<lparr>m_read := m_read s + n\<rparr>) = drop (nat n) (pending s)"
  proof -
    have "nat (m_write s - (m_read s + n)) = nat (m_write s - m_read s) - nat n"
      "nat (m_read s + n) = nat n + nat (m_read s)"
      using assms by (auto simp: stream_inv_def TStream_size_def nat_add_distrib nat_diff_distrib)
    then show ?thesis by (simp add: pending_def TStream_size_def TStream_buff_def drop_take)
  qed
  ultimately show ?thesis
    using assms by (auto simp: TStream_out_def stream_inv_def TStream_size_def)
qed

lemma TStream_out_over: "TStream_size s < n \<Longrightarrow> TStream_out n s = Inl (Assertion ''tstream overflow'')"
  by (simp add: TStream_out_def TStream_size_def)

lemma grow_size_ok:
  assumes "0 < bl" "cursize + size0 + bl < 2 ^ 31" "in_s32 n" "0 \<le> cursize" "0 \<le> n"
  shows "\<exists>m. grow_size bl cursize size0 n = Inr m \<and> size0 < m - cursize \<and> n \<le> m \<and> in_s32 m"
  using assms
proof (induction bl cursize size0 n rule: grow_size.induct)
  case (1 bl cursize size0 n)
  show ?case
  proof (cases "n - cursize \<le> size0")
    case True
    then have ok: "in_s32 (n + bl)" using 1 by (simp add: in_s32_def)
    with 1 True obtain m where "grow_size bl cursize size0 (n + bl) = Inr m" "size0 < m - cursize"
      "n + bl \<le> m" "in_s32 m" by fastforce
    with True ok 1 show ?thesis by (auto simp: grow_size.simps [of bl cursize size0 n])
  next
    case False
    with 1 show ?thesis by (simp add: grow_size.simps [of bl cursize size0 n])
  qed
qed

lemma to_size_t_s32 [simp]: "0 \<le> x \<Longrightarrow> x < 2 ^ 31 \<Longrightarrow> to_size_t x = nat x"
  by (simp add: in_s64_def)

lemma malloc_new_size_ok:
  assumes "stream_inv bl s" "bl \<le> n" "TStream_size s \<le> n" "in_s32 n"
  shows "\<exists>t. malloc_new_size n s = Inr t \<and> stream_inv bl t \<and> pending t = pending s \<and>
    m_max t = n \<and> m_read t = 0"
proof -
  let ?k = "nat (TStream_size s)"
  let ?t = "\<lparr>m_pbuff = blit (replicate (nat n) 0) 0 (take ?k (TStream_buff s)), m_read = 0,
             m_write = TStream_size s, m_max = n\<rparr>"
  have inv: "0 < bl" "0 \<le> m_read s" "m_read s \<le> m_write s" "m_write s \<le> m_max s" "in_s32 (m_max s)"
    "length (m_pbuff s) = nat (m_max s)"
    using assms(1) by (simp_all add: stream_inv_def)
  have k: "?k \<le> length (TStream_buff s)" "?k \<le> nat n"
    using inv assms(3) by (auto simp: TStream_size_def TStream_buff_def)
  have "to_size_t n = nat n" "to_size_t (m_write s - m_read s) = ?k"
    using inv assms(2,4) by (auto simp: TStream_size_def in_s32_def)
  with k have run: "malloc_new_size n s = Inr ?t"
    by (simp add: malloc_new_size_def Let_def TStream_buff_def TStream_size_def)
  have "stream_inv bl ?t" using inv assms(2-4) k by (auto simp: stream_inv_def TStream_size_def)
  moreover have "pending ?t = pending s"
    using k by (simp add: pending_def TStream_size_def TStream_buff_def blit_def)
  ultimately show ?thesis using run by auto
qed

text \<open>The two ways \<^verbatim>\<open>in\<close> makes room, and the append that follows.\<close>

lemma make_room_move:
  assumes inv: "stream_inv bl s" and full: "m_max s - m_write s < n" "n < m_max s - TStream_size s"
  shows "if overlapping_move n s then make_room bl n s = Inl OverlappingCopy
    else \<exists>t. make_room bl n s = Inr t \<and> stream_inv bl t \<and> pending t = pending s \<and>
      n \<le> m_max t - m_write t \<and> TStream_size t = TStream_size s \<and> m_read t = 0"
proof -
  have s: "0 < bl" "bl \<le> m_max s" "0 \<le> m_read s" "m_read s \<le> m_write s" "m_write s \<le> m_max s"
      "m_max s < 2 ^ 31" "length (m_pbuff s) = nat (m_max s)"
    using inv by (simp_all add: stream_inv_def in_s32_def)
  let ?k = "nat (TStream_size s)"
  have sizes: "to_size_t (m_max s) = nat (m_max s)" "to_size_t (m_write s - m_read s) = ?k"
    using s by (simp_all add: TStream_size_def)
  show ?thesis
  proof (cases "m_read s < TStream_size s")
    case True
    then have "overlapping_move n s" using full by (simp add: overlapping_move_def TStream_size_def)
    moreover have "SafeMemcpy_within (m_pbuff s) 0 (nat (m_max s)) (nat (m_read s)) ?k = Inl OverlappingCopy"
      using True s by (intro SafeMemcpy_within_overlap) (auto simp: TStream_size_def)
    ultimately show ?thesis using full sizes by (simp add: make_room_def TStream_size_def Let_def)
  next
    case False
    let ?t = "s\<lparr>m_pbuff := blit (m_pbuff s) 0 (take ?k (drop (nat (m_read s)) (m_pbuff s))),
                m_write := TStream_size s, m_read := 0\<rparr>"
    have no: "\<not> overlapping_move n s" using False by (simp add: overlapping_move_def TStream_size_def)
    have len: "?k + nat (m_read s) \<le> length (m_pbuff s)" using s by (auto simp: TStream_size_def)
    have "SafeMemcpy_within (m_pbuff s) 0 (nat (m_max s)) (nat (m_read s)) ?k =
        Inr (blit (m_pbuff s) 0 (take ?k (drop (nat (m_read s)) (m_pbuff s))))"
      using False s len by (intro SafeMemcpy_within_disjoint) (auto simp: TStream_size_def)
    then have run: "make_room bl n s = Inr ?t"
      using full sizes by (simp add: make_room_def TStream_size_def Let_def)
    have "stream_inv bl ?t" using inv s len by (auto simp: stream_inv_def TStream_size_def)
    moreover have "pending ?t = pending s"
      using len by (simp add: pending_def TStream_size_def TStream_buff_def blit_def)
    ultimately show ?thesis using run no full by (auto simp: TStream_size_def)
  qed
qed

lemma grow_size_Inr:
  "grow_size bl cursize size0 n = Inr m \<Longrightarrow> in_s32 n \<Longrightarrow> size0 < m - cursize \<and> n \<le> m \<and> in_s32 m"
proof (induction bl cursize size0 n arbitrary: m rule: grow_size.induct)
  case (1 bl cursize size0 n)
  show ?case
  proof (cases "n - cursize \<le> size0")
    case True
    then have "0 < bl" "in_s32 (n + bl)" "grow_size bl cursize size0 (n + bl) = Inr m"
      using 1(2) by (auto simp: grow_size.simps [of bl cursize size0 n] outcome_simps split: if_splits)
    with 1(1) [OF True, of "n + bl" m] show ?thesis by auto
  next
    case False
    with 1(2,3) show ?thesis by (simp add: grow_size.simps [of bl cursize size0 n])
  qed
qed

lemma make_room_grow:
  assumes inv: "stream_inv bl s" and full: "m_max s - m_write s < n" "m_max s - TStream_size s \<le> n" "0 \<le> n"
    and m: "in_s32 (m_max s + bl)" "grow_size bl (TStream_size s) n (m_max s + bl) = Inr m"
  shows "\<exists>t. make_room bl n s = Inr t \<and> stream_inv bl t \<and> pending t = pending s \<and>
      n \<le> m_max t - m_write t \<and> TStream_size t = TStream_size s \<and> m_read t = 0"
proof -
  have s: "0 < bl" "bl \<le> m_max s" "TStream_size s \<le> m_max s"
    using inv by (simp_all add: stream_inv_def TStream_size_def)
  note g = grow_size_Inr [OF m(2,1)]
  from malloc_new_size_ok [OF inv, of m] g s obtain t where
    t: "malloc_new_size m s = Inr t" "stream_inv bl t" "pending t = pending s" "m_max t = m" "m_read t = 0"
    by auto
  have "TStream_size t = TStream_size s"
    using t(1) by (auto simp: malloc_new_size_def TStream_size_def outcome_simps Let_def)
  moreover have "make_room bl n s = Inr t"
    using full m t(1) by (simp add: make_room_def TStream_size_def Let_def)
  ultimately show ?thesis using t g by (auto simp: TStream_size_def)
qed

lemma append_ok:
  assumes t: "make_room bl n s = Inr t" "stream_inv bl t" "n \<le> m_max t - m_write t"
    and n: "0 \<le> n" "nat n \<le> length src"
  shows "\<exists>u. TStream_in bl src n s = Inr u \<and> stream_inv bl u \<and>
    pending u = pending t @ take (nat n) src \<and> m_read u = m_read t"
proof -
  have ti: "0 \<le> m_read t" "m_read t \<le> m_write t" "m_write t \<le> m_max t" "m_max t < 2 ^ 31"
      "length (m_pbuff t) = nat (m_max t)"
    using t(2) by (simp_all add: stream_inv_def in_s32_def)
  let ?u = "t\<lparr>m_pbuff := blit (m_pbuff t) (nat (m_write t)) (take (nat n) src), m_write := m_write t + n\<rparr>"
  have len: "nat (m_write t) + nat n \<le> length (m_pbuff t)" "in_s32 (m_write t + n)"
    using ti t(3) n(1) by (auto simp: in_s32_def)
  have "to_size_t (m_max t - m_write t) = nat (m_max t - m_write t)" "to_size_t n = nat n"
    using ti t(3) n(1) by simp_all
  then have run: "TStream_in bl src n s = Inr ?u"
    using t(1,3) n len by (simp add: TStream_in_def)
  have inv: "stream_inv bl ?u" using t(2,3) n len by (auto simp: stream_inv_def)
  have le: "nat (m_read t) \<le> nat (m_write t)" "nat (m_write t) + length (take (nat n) src) \<le> length (m_pbuff t)"
    using ti(2) len(1) by simp_all
  have "nat (TStream_size ?u) = nat (m_write t) - nat (m_read t) + length (take (nat n) src)"
    using ti n by (simp add: TStream_size_def nat_diff_distrib nat_add_distrib)
  then have "pending ?u = take (nat (m_write t) - nat (m_read t) + length (take (nat n) src))
      (drop (nat (m_read t)) (blit (m_pbuff t) (nat (m_write t)) (take (nat n) src)))"
    by (simp only: pending_def TStream_buff_def) simp
  also have "\<dots> = take (nat (m_write t) - nat (m_read t)) (drop (nat (m_read t)) (m_pbuff t)) @ take (nat n) src"
    by (rule take_drop_blit_append [OF le])
  also have "nat (m_write t) - nat (m_read t) = nat (TStream_size t)"
    using ti by (simp add: TStream_size_def nat_diff_distrib)
  finally have "pending ?u = pending t @ take (nat n) src" by (simp add: pending_def TStream_buff_def)
  with run inv show ?thesis by auto
qed

text \<open>What \<^verbatim>\<open>in\<close> does, given enough address space; and whatever it does, when it returns.\<close>

lemma TStream_in_ok:
  assumes inv: "stream_inv bl s" and n: "0 \<le> n" "nat n \<le> length src"
    and small: "m_max s + bl < 2 ^ 31" "TStream_size s + n + bl < 2 ^ 31"
  shows "if overlapping_move n s then TStream_in bl src n s = Inl OverlappingCopy
    else \<exists>t. TStream_in bl src n s = Inr t \<and> stream_inv bl t \<and> pending t = pending s @ take (nat n) src \<and>
      (m_read s = 0 \<longrightarrow> m_read t = 0)"
proof -
  have s: "0 < bl" "0 \<le> m_max s" "0 \<le> TStream_size s"
    using inv by (simp_all add: stream_inv_def TStream_size_def)
  consider (room) "n \<le> m_max s - m_write s" | (grow) "m_max s - m_write s < n" "m_max s - TStream_size s \<le> n"
    | (move) "m_max s - m_write s < n" "n < m_max s - TStream_size s" by linarith
  then show ?thesis
  proof cases
    case room
    then have "make_room bl n s = Inr s" "\<not> overlapping_move n s"
      by (simp_all add: make_room_def overlapping_move_def)
    with append_ok [OF this(1) inv room n] show ?thesis by auto
  next
    case grow
    have c: "in_s32 (m_max s + bl)" using s small by (simp add: in_s32_def)
    with grow_size_ok [of bl "TStream_size s" n "m_max s + bl"] s small obtain m
      where "grow_size bl (TStream_size s) n (m_max s + bl) = Inr m" by auto
    from make_room_grow [OF inv grow n(1) c this] obtain t where
      t: "make_room bl n s = Inr t" "stream_inv bl t" "pending t = pending s" "n \<le> m_max t - m_write t" "m_read t = 0"
      by blast
    have "\<not> overlapping_move n s" using grow by (simp add: overlapping_move_def TStream_size_def)
    with append_ok [OF t(1,2,4) n] t show ?thesis by auto
  next
    case move
    show ?thesis
    proof (cases "overlapping_move n s")
      case True
      with make_room_move [OF inv move] show ?thesis by (simp add: TStream_in_def)
    next
      case False
      with make_room_move [OF inv move] obtain t where
        t: "make_room bl n s = Inr t" "stream_inv bl t" "pending t = pending s" "n \<le> m_max t - m_write t" "m_read t = 0"
        by auto
      with append_ok [OF t(1,2,4) n] False show ?thesis by auto
    qed
  qed
qed

lemma TStream_in_Inr:
  assumes inv: "stream_inv bl s" and n: "0 \<le> n" "nat n \<le> length src" and run: "TStream_in bl src n s = Inr u"
  shows "stream_inv bl u \<and> pending u = pending s @ take (nat n) src"
proof -
  from run obtain t where t: "make_room bl n s = Inr t" by (auto simp: TStream_in_def outcome_simps)
  have "stream_inv bl t \<and> pending t = pending s \<and> n \<le> m_max t - m_write t"
  proof -
    consider (room) "n \<le> m_max s - m_write s" | (grow) "m_max s - m_write s < n" "m_max s - TStream_size s \<le> n"
      | (move) "m_max s - m_write s < n" "n < m_max s - TStream_size s" by linarith
    then show ?thesis
    proof cases
      case room
      then show ?thesis using t inv by (simp add: make_room_def)
    next
      case grow
      then obtain m where "in_s32 (m_max s + bl)" "grow_size bl (TStream_size s) n (m_max s + bl) = Inr m"
        using t by (auto simp: make_room_def Let_def TStream_size_def outcome_simps)
      from make_room_grow [OF inv grow n(1) this] t show ?thesis by auto
    next
      case move
      from make_room_move [OF inv this] t show ?thesis by (auto split: if_splits)
    qed
  qed
  with append_ok [OF t _ _ n] run show ?thesis by auto
qed

text \<open>
  A stream nothing was ever read from: \<^verbatim>\<open>in\<close> has no pending bytes to move, so it always
  returns, and the buffer stays within \<open>B\<close>.
\<close>

lemma grow_size_bound:
  "grow_size bl cursize size0 n = Inr m \<Longrightarrow> n \<le> cursize + size0 + bl \<Longrightarrow> m \<le> cursize + size0 + bl"
proof (induction bl cursize size0 n arbitrary: m rule: grow_size.induct)
  case (1 bl cursize size0 n)
  show ?case
  proof (cases "n - cursize \<le> size0")
    case True
    then have "in_s32 (n + bl)" "grow_size bl cursize size0 (n + bl) = Inr m" "\<not> bl \<le> 0"
      using 1(2) by (auto simp: grow_size.simps [of bl cursize size0 n] outcome_simps split: if_splits)
    with 1(1) [OF True, of "n + bl" m] True show ?thesis by simp
  next
    case False
    with 1(2,3) show ?thesis by (simp add: grow_size.simps [of bl cursize size0 n])
  qed
qed

lemma TStream_in_max:
  assumes "TStream_in bl src n s = Inr t" "m_read s = 0" "0 \<le> n"
  shows "m_max t \<le> max (m_max s) (TStream_size s + n + bl)"
proof -
  from assms(1) obtain u where u: "make_room bl n s = Inr u" "m_max t = m_max u"
    by (auto simp: TStream_in_def outcome_simps)
  have "m_max u \<le> max (m_max s) (TStream_size s + n + bl)"
  proof (cases "m_max s - m_write s < n \<and> m_max s - TStream_size s \<le> n")
    case True
    then obtain m where m: "grow_size bl (TStream_size s) n (m_max s + bl) = Inr m" "malloc_new_size m s = Inr u"
      using u(1) by (auto simp: make_room_def Let_def TStream_size_def outcome_simps)
    from grow_size_bound [OF m(1)] True have "m \<le> TStream_size s + n + bl" by simp
    moreover have "m_max u = m" using m(2) by (auto simp: malloc_new_size_def Let_def outcome_simps)
    ultimately show ?thesis by simp
  next
    case False
    with u(1) have "m_max u = m_max s"
      by (auto simp: make_room_def Let_def TStream_size_def outcome_simps split: if_splits)
    then show ?thesis by simp
  qed
  with u(2) show ?thesis by simp
qed

lemma TStream_in_fresh:
  assumes inv: "stream_inv bl s" "m_read s = 0" and n: "0 \<le> n" "nat n \<le> length src"
    and B: "m_max s \<le> B" "TStream_size s + n + bl \<le> B" "B + bl < 2 ^ 31"
  shows "\<exists>t. TStream_in bl src n s = Inr t \<and> stream_inv bl t \<and> m_read t = 0 \<and> m_max t \<le> B \<and>
    pending t = pending s @ take (nat n) src"
proof -
  have bl: "0 < bl" using inv(1) by (simp add: stream_inv_def)
  have "\<not> overlapping_move n s" using inv(2) by (simp add: overlapping_move_def)
  with TStream_in_ok [OF inv(1) n] B inv bl obtain t where
    "TStream_in bl src n s = Inr t" "stream_inv bl t" "pending t = pending s @ take (nat n) src" "m_read t = 0" by auto
  moreover from TStream_in_max [OF this(1) inv(2) n(1)] B have "m_max t \<le> B" by simp
  ultimately show ?thesis by blast
qed

text \<open>The bytes at \<^verbatim>\<open>buff()\<close> start with the pending ones.\<close>

lemma take_buff:
  assumes "k \<le> length (pending s)"
  shows "take k (TStream_buff s) = take k (pending s)" "k \<le> length (TStream_buff s)"
  using assms by (simp_all add: pending_def)

section \<open>The interface its clients rely on\<close>

text \<open>
  A byte stream: \<open>push\<close> appends when it returns, \<open>pop\<close> drops bytes from the front and fails
  exactly when there are too few, \<open>reset\<close> empties it.
\<close>

locale byte_stream =
  fixes invar :: "'s \<Rightarrow> bool"
    and bytes :: "'s \<Rightarrow> 'b list"
    and push :: "'b list \<Rightarrow> 's \<Rightarrow> 's outcome"
    and pop :: "nat \<Rightarrow> 's \<Rightarrow> 's outcome"
    and reset :: "'s \<Rightarrow> 's outcome"
  assumes push_law: "invar s \<Longrightarrow> push bs s = Inr t \<Longrightarrow> invar t \<and> bytes t = bytes s @ bs"
    and pop_law: "invar s \<Longrightarrow> n \<le> length (bytes s) \<Longrightarrow> \<exists>t. pop n s = Inr t \<and> invar t \<and> bytes t = drop n (bytes s)"
    and pop_over: "invar s \<Longrightarrow> length (bytes s) < n \<Longrightarrow> \<exists>e. pop n s = Inl e"
    and reset_law: "invar s \<Longrightarrow> \<exists>t. reset s = Inr t \<and> invar t \<and> bytes t = []"

datatype 'b stream_call = Push "'b list" | Pop nat

fun session :: "('b list \<Rightarrow> 's \<Rightarrow> 's outcome) \<Rightarrow> (nat \<Rightarrow> 's \<Rightarrow> 's outcome) \<Rightarrow> ('s \<Rightarrow> 'b list) \<Rightarrow>
    'b stream_call list \<Rightarrow> 's \<Rightarrow> ('b list \<times> 's) outcome" where
  "session push pop bytes [] s = Inr ([], s)"
| "session push pop bytes (Push bs # cs) s = bindE (push bs s) (session push pop bytes cs)"
| "session push pop bytes (Pop n # cs) s =
     bindE (pop n s) (\<lambda>t. bindE (session push pop bytes cs t)
       (\<lambda>(got, u). Inr (take n (bytes s) @ got, u)))"

fun pushed :: "'b stream_call list \<Rightarrow> 'b list" where
  "pushed [] = []"
| "pushed (Push bs # cs) = bs @ pushed cs"
| "pushed (Pop n # cs) = pushed cs"

context byte_stream
begin

lemma pop_Inr:
  assumes "invar s" "pop n s = Inr t"
  shows "n \<le> length (bytes s)" "invar t" "bytes s = take n (bytes s) @ bytes t"
proof -
  show le: "n \<le> length (bytes s)"
    using pop_over [OF assms(1), of n] assms(2) by (cases "n \<le> length (bytes s)") auto
  from pop_law [OF assms(1) this] assms(2) show "invar t" "bytes s = take n (bytes s) @ bytes t"
    by auto
qed

lemma session_fifo:
  assumes "invar s" "session push pop bytes cs s = Inr (got, t)"
  shows "invar t \<and> got @ bytes t = bytes s @ pushed cs"
  using assms
proof (induction cs arbitrary: s got)
  case Nil
  then show ?case by simp
next
  case (Cons c cs)
  show ?case
  proof (cases c)
    case (Push bs)
    with Cons.prems(2) obtain u where u: "push bs s = Inr u" "session push pop bytes cs u = Inr (got, t)"
      by (auto simp: outcome_simps)
    with Cons.IH [of u got] push_law [OF Cons.prems(1) u(1)] Push show ?thesis by simp
  next
    case (Pop n)
    with Cons.prems(2) obtain u got' where u: "pop n s = Inr u" "session push pop bytes cs u = Inr (got', t)"
        "got = take n (bytes s) @ got'"
      by (auto simp: outcome_simps)
    note p = pop_Inr [OF Cons.prems(1) u(1)]
    from Cons.IH [OF p(2) u(2)] have "got @ bytes t = take n (bytes s) @ bytes u @ pushed cs"
      and "invar t" using u(3) by simp_all
    with p(3) Pop show ?thesis by (metis append.assoc pushed.simps(3))
  qed
qed

end

lemma TStream_out_law:
  assumes "stream_inv bl s" "n \<le> length (pending s)"
  shows "\<exists>t. TStream_out (int n) s = Inr t \<and> stream_inv bl t \<and> pending t = drop n (pending s)"
proof -
  have "int n \<le> TStream_size s"
    using assms length_pending [OF assms(1)] by (auto simp: stream_inv_def TStream_size_def)
  from TStream_out_ok [OF assms(1) _ this] show ?thesis by simp
qed

lemma TStream_out_too_many:
  assumes "stream_inv bl s" "length (pending s) < n"
  shows "TStream_out (int n) s = Inl (Assertion ''tstream overflow'')"
proof -
  have "TStream_size s < int n"
    using assms length_pending [OF assms(1)] by (auto simp: stream_inv_def TStream_size_def)
  then show ?thesis by (rule TStream_out_over)
qed

interpretation buffer: byte_stream "stream_inv bl" pending "\<lambda>bs. TStream_in bl bs (int (length bs))"
    "\<lambda>n. TStream_out (int n)" "TStream_clear bl" for bl
proof unfold_locales
  show "stream_inv bl t \<and> pending t = pending s @ bs"
    if "stream_inv bl s" "TStream_in bl bs (int (length bs)) s = Inr t" for s t bs
    using TStream_in_Inr [OF that(1) _ _ that(2)] by simp
qed (use TStream_out_law TStream_out_too_many TStream_clear_ok in blast)+

section \<open>Properties\<close>

text \<open>
  What \<^verbatim>\<open>in\<close> does on every branch, for any stream that satisfies the invariant and while
  its size stays below 2 GB: either it appends exactly the given bytes to the pending ones
  (writing in place, moving the pending bytes to the front, or growing the buffer) and keeps
  the invariant, or, precisely when the bytes to be moved overlap their destination, it calls
  \<^verbatim>\<open>memcpy\<close> on overlapping regions, which is undefined.
\<close>

theorem stream_in_spec:
  assumes "stream_inv bl s" "0 \<le> n" "nat n \<le> length src" "m_max s + bl < 2 ^ 31" "TStream_size s + n + bl < 2 ^ 31"
  shows "if overlapping_move n s then TStream_in bl src n s = Inl OverlappingCopy
    else \<exists>t. TStream_in bl src n s = Inr t \<and> stream_inv bl t \<and> pending t = pending s @ take (nat n) src"
  using TStream_in_ok [OF assms] by (auto split: if_splits)

definition full_then_two_out :: tstream where
  "full_then_two_out = \<lparr>m_pbuff = [1, 2, 3, 4, 5, 6, 7, 8], m_read = 2, m_write = 8, m_max = 8\<rparr>"

theorem stream_in_spec_witness:
  "TStream_in 8 [9] 1 full_then_two_out = Inl OverlappingCopy \<and>
   (\<exists>t. TStream_in 8 [9, 10, 11] 3 full_then_two_out = Inr t \<and>
      pending t = [3, 4, 5, 6, 7, 8, 9, 10, 11])"
  using stream_in_spec [of 8 full_then_two_out 1 "[9]"]
    stream_in_spec [of 8 full_then_two_out 3 "[9, 10, 11]"]
  by (auto simp: stream_inv_def in_s32_def TStream_size_def overlapping_move_def full_then_two_out_def
      pending_def TStream_buff_def split: if_splits)

text \<open>
  C21: A stream is a faithful pipe: over any sequence of \<^verbatim>\<open>in\<close> and \<^verbatim>\<open>out\<close> calls that returns,
  the bytes read followed by the bytes still pending are the bytes that were pending followed
  by the bytes written, in order, none lost and none duplicated.
\<close>

theorem stream_fifo:
  assumes "0 < bl" "in_s32 bl"
    "session (\<lambda>bs. TStream_in bl bs (int (length bs))) (\<lambda>n. TStream_out (int n)) pending cs (TStream_new bl) =
       Inr (got, t)"
  shows "got @ pending t = pushed cs"
  using buffer.session_fifo [OF stream_inv_new [OF assms(1,2)] assms(3)] by simp

theorem stream_fifo_witness:
  "\<exists>t. session (\<lambda>bs. TStream_in 4 bs (int (length bs))) (\<lambda>n. TStream_out (int n)) pending
       [Push [1, 2, 3], Pop 2, Push [4, 5, 6, 7, 8, 9], Pop 5] (TStream_new 4) = Inr ([1, 2, 3, 4, 5, 6, 7], t) \<and>
     [1, 2, 3, 4, 5, 6, 7] @ pending t = [1, 2, 3, 4, 5, 6, 7, 8, 9]"
proof -
  let ?cs = "[Push [1, 2, 3], Pop 2, Push [4, 5, 6, 7, 8, 9], Pop 5] :: byte stream_call list"
  let ?run = "session (\<lambda>bs. TStream_in 4 bs (int (length bs))) (\<lambda>n. TStream_out (int n)) pending ?cs (TStream_new 4)"
  have "map_sum id fst ?run = Inr [1, 2, 3, 4, 5, 6, 7]" by code_simp
  then obtain t where run: "?run = Inr ([1, 2, 3, 4, 5, 6, 7], t)" by (cases ?run) auto
  moreover have "[1, 2, 3, 4, 5, 6, 7] @ pending t = pushed ?cs"
    by (rule stream_fifo [OF _ _ run]) (simp_all add: in_s32_def)
  ultimately show ?thesis by simp
qed

end
