(* ===== verification/Timer.thy ===== *)
theory Timer
  imports Pool
begin

text \<open>
  src/kernel/timermgr: the timer wheel. \<^verbatim>\<open>Timermgr\<close> maps a slot number (a span of
  \<open>m_nTimeScale\<close> milliseconds since \<open>m_lStartRunTick\<close>) to a \<^verbatim>\<open>TimeSlot\<close>, the head of a linked list
  of \<^verbatim>\<open>TimeNode\<close>s; nodes and slots come from pools. A pointer to a node or slot is its address
  in the pool; a pool never frees memory while it lives, so a dereference always reads a unit.

  The modules' \<^verbatim>\<open>ITimer\<close> callbacks are code outside the timer manager: \<open>client\<close> is the list of
  calls the callback makes to the kernel, as any function of everything that happened before.
  \<open>gettime n\<close> is the \<open>n\<close>-th reading of the wall clock. The record's last two fields belong to
  the model: how many times the clock was read, and the calls made to \<^verbatim>\<open>ITimer\<close> so far, each
  with the node it was made for.
\<close>

section \<open>Nodes and slots\<close>

datatype timer_status = TIMER_STATUS_NOT_FOUND | TIMER_STATUS_RUN | TIMER_STATUS_PAUSE | TIMER_STATUS_CLOSE

definition LOOP_FOREVER :: s32 where "LOOP_FOREVER = - 1"

text \<open>The address of an \<^verbatim>\<open>ITimer\<close>; 0 is \<^verbatim>\<open>NULL\<close>.\<close>

type_synonym itimer = nat

record timenode =
  m_byStatus :: timer_status
  m_nIndex :: s32
  m_nID :: s32
  m_nInterval :: s32
  m_nHitCount :: s32
  m_nMaxHitCount :: s32
  m_lNextRunTick :: s64
  m_pTimer :: itimer
  m_pNext :: "uaddr option"

record timeslot =
  m_pHead :: "uaddr option"
  m_nLen :: s32

text \<open>\<^verbatim>\<open>sizeof(type_info)\<close> of the two pools, LP64.\<close>

abbreviation (input) node_sz :: nat where "node_sz \<equiv> 56"
abbreviation (input) slot_sz :: nat where "slot_sz \<equiv> 24"

text \<open>\<^verbatim>\<open>TimeNode()\<close> sets some members only; the rest of a new block's memory is taken to be zero.\<close>

definition zero_node :: timenode where
  "zero_node = \<lparr>m_byStatus = TIMER_STATUS_NOT_FOUND, m_nIndex = 0, m_nID = 0, m_nInterval = 0,
     m_nHitCount = 0, m_nMaxHitCount = 0, m_lNextRunTick = 0, m_pTimer = 0, m_pNext = None\<rparr>"

definition TimeSlot_new :: timeslot where
  "TimeSlot_new = \<lparr>m_pHead = None, m_nLen = 0\<rparr>"

text \<open>What is observable: nodes set up, and the calls to \<^verbatim>\<open>ITimer\<close>.\<close>

datatype timer_event =
    Created uaddr s32 itimer s32 s32 s64
  | OnStart uaddr itimer s32 s64
  | OnTime uaddr itimer s32 s64
  | OnTerminate uaddr itimer s32 bool s64

text \<open>A call a module makes to the kernel's timer interface.\<close>

datatype timer_request =
    StartTimer s32 itimer s64 s64 s64
  | KillTimer s32 itimer

type_synonym client = "timer_event list \<Rightarrow> timer_request list"
type_synonym clock = "nat \<Rightarrow> int"

record timers =
  m_lStartRunTick :: s64
  m_nTimeScale :: s32
  m_nCursor :: s32
  m_oTimeSlotMap :: "s32 \<rightharpoonup> uaddr"
  s_oTimeNodeMap :: "int \<rightharpoonup> uaddr"
  s_oTimeNodePool :: "timenode tpool"
  s_oTimeSlotPool :: "timeslot tpool"
  reads :: nat
  trace :: "timer_event list"

definition node :: "timers \<Rightarrow> uaddr \<Rightarrow> timenode" where
  "node st a = get_unit (s_oTimeNodePool st) a"

definition set_node :: "uaddr \<Rightarrow> timenode \<Rightarrow> timers \<Rightarrow> timers" where
  "set_node a n st = st\<lparr>s_oTimeNodePool := put_unit a n (s_oTimeNodePool st)\<rparr>"

definition slot :: "timers \<Rightarrow> uaddr \<Rightarrow> timeslot" where
  "slot st s = get_unit (s_oTimeSlotPool st) s"

definition set_slot :: "uaddr \<Rightarrow> timeslot \<Rightarrow> timers \<Rightarrow> timers" where
  "set_slot s v st = st\<lparr>s_oTimeSlotPool := put_unit s v (s_oTimeSlotPool st)\<rparr>"

definition observe :: "timer_event \<Rightarrow> timers \<Rightarrow> timers" where
  "observe e st = st\<lparr>trace := trace st @ [e]\<rparr>"

definition GetTimeMillisecond :: "clock \<Rightarrow> timers \<Rightarrow> int \<times> timers" where
  "GetTimeMillisecond gettime st = (gettime (reads st), st\<lparr>reads := Suc (reads st)\<rparr>)"

section \<open>TimeNode\<close>

text \<open>The hash map's key: \<^verbatim>\<open>nodeinfo\<close> converts to \<^verbatim>\<open>id + (s64)p\<close>.\<close>

definition nodeinfo :: "s32 \<Rightarrow> itimer \<Rightarrow> int" where
  "nodeinfo id0 p = (id0 + int p) mod 2 ^ 64"

definition FindNode :: "s32 \<Rightarrow> itimer \<Rightarrow> bool \<Rightarrow> timers \<Rightarrow> (uaddr option \<times> timers) outcome" where
  "FindNode id0 timer remove0 st =
     (case s_oTimeNodeMap st (nodeinfo id0 timer) of
        None \<Rightarrow> Inr (None, st)
      | Some a \<Rightarrow>
          bindE (TASSERT (timer = m_pTimer (node st a)) ''wtf'') (\<lambda>_.
            let st = set_node a ((node st a)\<lparr>m_byStatus := TIMER_STATUS_CLOSE\<rparr>) st;
                st = (if remove0 then
                        st\<lparr>s_oTimeNodeMap := (s_oTimeNodeMap st)(nodeinfo id0 timer := None)\<rparr>
                      else st)
            in Inr (Some a, st)))"

definition Initialize ::
    "clock \<Rightarrow> uaddr \<Rightarrow> s32 \<Rightarrow> itimer \<Rightarrow> s32 \<Rightarrow> s32 \<Rightarrow> s32 \<Rightarrow> uaddr option \<Rightarrow> timers \<Rightarrow> timers" where
  "Initialize gettime a id0 timer interval loop delay next0 st =
     (let (now, st) = GetTimeMillisecond gettime st;
          n = zero_node\<lparr>m_byStatus := TIMER_STATUS_RUN, m_nID := id0, m_pTimer := timer,
                m_nInterval := interval, m_nMaxHitCount := loop, m_pNext := next0,
                m_lNextRunTick := to_s64 (now + delay)\<rparr>
      in observe (Created a id0 timer interval loop (m_lNextRunTick n)) (set_node a n st))"

definition SetTimer ::
    "clock \<Rightarrow> s32 \<Rightarrow> itimer \<Rightarrow> s32 \<Rightarrow> s32 \<Rightarrow> s32 \<Rightarrow> timers \<Rightarrow> (uaddr \<times> timers) outcome" where
  "SetTimer gettime id0 timer interval loop delay st =
     bindE (FindNode id0 timer True st) (\<lambda>(_, st).
     bindE (TPool_Create node_sz zero_node 64 (s_oTimeNodePool st)) (\<lambda>(r, p).
       case r of
         None \<Rightarrow> Inl NullPointer
       | Some a \<Rightarrow>
           Inr (a, Initialize gettime a id0 timer interval loop delay None (st\<lparr>s_oTimeNodePool := p\<rparr>))))"

definition TimeNode_Release :: "uaddr \<Rightarrow> timers \<Rightarrow> timers outcome" where
  "TimeNode_Release a st =
     (let st = set_node a zero_node st in
      bindE (TPool_Recover node_sz a (s_oTimeNodePool st)) (\<lambda>p. Inr (st\<lparr>s_oTimeNodePool := p\<rparr>)))"

section \<open>The wheel: adding a node\<close>

text \<open>
  \<open>m_nLen\<close> is incremented and never read; it is kept as the low 32 bits, since a list long
  enough to overflow it does not fit in memory.
\<close>

definition TimeSlot_Add :: "uaddr \<Rightarrow> uaddr \<Rightarrow> timers \<Rightarrow> timers" where
  "TimeSlot_Add s a st =
     (let st = set_slot s ((slot st s)\<lparr>m_nLen := to_s32 (m_nLen (slot st s) + 1)\<rparr>) st in
      case m_pHead (slot st s) of
        None \<Rightarrow>
          let st = set_slot s ((slot st s)\<lparr>m_pHead := Some a\<rparr>) st
          in set_node a ((node st a)\<lparr>m_pNext := None\<rparr>) st
      | Some h \<Rightarrow>
          let st = set_node a ((node st a)\<lparr>m_pNext := Some h\<rparr>) st
          in set_slot s ((slot st s)\<lparr>m_pHead := Some a\<rparr>) st)"

definition GetTimeSlot :: "timers \<Rightarrow> (uaddr option \<times> timers) outcome" where
  "GetTimeSlot st =
     bindE (TPool_Create slot_sz TimeSlot_new 64 (s_oTimeSlotPool st))
       (\<lambda>(r, p). Inr (r, st\<lparr>s_oTimeSlotPool := p\<rparr>))"

definition SlotAdd :: "s32 \<Rightarrow> uaddr \<Rightarrow> timers \<Rightarrow> timers outcome" where
  "SlotAdd nCursor a st =
     (case m_oTimeSlotMap st nCursor of
        Some s \<Rightarrow> Inr (TimeSlot_Add s a st)
      | None \<Rightarrow>
          bindE (GetTimeSlot st) (\<lambda>(r, st).
            case r of
              None \<Rightarrow> Inl NullPointer
            | Some s \<Rightarrow>
                Inr (TimeSlot_Add s a (st\<lparr>m_oTimeSlotMap := (m_oTimeSlotMap st)(nCursor \<mapsto> s)\<rparr>))))"

definition ResetTimeNode :: "uaddr \<Rightarrow> timers \<Rightarrow> timers outcome" where
  "ResetTimeNode a st =
     bindE (TASSERT (m_byStatus (node st a) = TIMER_STATUS_RUN) ''wtf'') (\<lambda>_.
     bindE (chk_s64 (m_lNextRunTick (node st a) - m_lStartRunTick st)) (\<lambda>d.
     bindE (div_s64 d (m_nTimeScale st)) (\<lambda>q. SlotAdd (to_s32 q) a st)))"

section \<open>The interface of the manager\<close>

definition Timermgr_StartTimer ::
    "clock \<Rightarrow> s32 \<Rightarrow> itimer \<Rightarrow> s64 \<Rightarrow> s64 \<Rightarrow> s64 \<Rightarrow> timers \<Rightarrow> (bool \<times> timers) outcome" where
  "Timermgr_StartTimer gettime id0 timer interval delay loop st =
     bindE (TASSERT (interval \<ge> 100) ''wtf'') (\<lambda>_.
     bindE (SetTimer gettime id0 timer (to_s32 interval) (to_s32 loop) (to_s32 delay) st) (\<lambda>(a, st).
     bindE (ResetTimeNode a st) (\<lambda>st. Inr (True, st))))"

definition Timermgr_KillTimer :: "s32 \<Rightarrow> itimer \<Rightarrow> timers \<Rightarrow> (bool \<times> timers) outcome" where
  "Timermgr_KillTimer id0 timer st =
     bindE (FindNode id0 timer True st) (\<lambda>(r, st). Inr (True, st))"

definition Timermgr_PauseTimer :: "s32 \<Rightarrow> itimer \<Rightarrow> timers \<Rightarrow> bool \<times> timers" where
  "Timermgr_PauseTimer id0 timer st = (False, st)"

definition Timermgr_ResumeTimer :: "s32 \<Rightarrow> itimer \<Rightarrow> timers \<Rightarrow> bool \<times> timers" where
  "Timermgr_ResumeTimer id0 timer st = (False, st)"

fun do_request :: "clock \<Rightarrow> timer_request \<Rightarrow> timers \<Rightarrow> timers outcome" where
  "do_request gettime (StartTimer id0 timer interval delay loop) st =
     bindE (Timermgr_StartTimer gettime id0 timer interval delay loop st) (\<lambda>(_, st). Inr st)"
| "do_request gettime (KillTimer id0 timer) st =
     bindE (Timermgr_KillTimer id0 timer st) (\<lambda>(_, st). Inr st)"

fun do_requests :: "clock \<Rightarrow> timer_request list \<Rightarrow> timers \<Rightarrow> timers outcome" where
  "do_requests gettime [] st = Inr st"
| "do_requests gettime (r # rs) st = bindE (do_request gettime r st) (do_requests gettime rs)"

text \<open>A virtual call on \<open>m_pTimer\<close>: through a null pointer it is undefined.\<close>

definition callback :: "clock \<Rightarrow> client \<Rightarrow> itimer \<Rightarrow> timer_event \<Rightarrow> timers \<Rightarrow> timers outcome" where
  "callback gettime client timer e st =
     (if timer = 0 then Inl NullPointer
      else do_requests gettime (client (trace st @ [e])) (observe e st))"

section \<open>Running timers\<close>

definition OnTimer :: "clock \<Rightarrow> client \<Rightarrow> uaddr \<Rightarrow> s64 \<Rightarrow> timers \<Rightarrow> timers outcome" where
  "OnTimer gettime client a lTick st =
     bindE (if 0 = m_nHitCount (node st a) then
              callback gettime client (m_pTimer (node st a))
                (OnStart a (m_pTimer (node st a)) (m_nID (node st a)) lTick) st
            else Inr st) (\<lambda>st.
     bindE (callback gettime client (m_pTimer (node st a))
              (OnTime a (m_pTimer (node st a)) (m_nID (node st a)) lTick) st) (\<lambda>st.
     bindE (chk_s64 (m_lNextRunTick (node st a) + m_nInterval (node st a))) (\<lambda>nxt.
     bindE (chk_s32 (m_nHitCount (node st a) + 1)) (\<lambda>hit.
     let st = set_node a ((node st a)\<lparr>m_lNextRunTick := nxt, m_nHitCount := hit\<rparr>) st in
     if m_nHitCount (node st a) = m_nMaxHitCount (node st a) \<and> m_nMaxHitCount (node st a) \<noteq> LOOP_FOREVER then
       bindE (callback gettime client (m_pTimer (node st a))
                (OnTerminate a (m_pTimer (node st a)) (m_nID (node st a)) True lTick) st) (\<lambda>st.
       bindE (FindNode (m_nID (node st a)) (m_pTimer (node st a)) True st) (\<lambda>(_, st).
       TimeNode_Release a st))
     else ResetTimeNode a st))))"

text \<open>\<open>fuel\<close> bounds the iterations of \<^verbatim>\<open>while (m_pHead != NULL)\<close>.\<close>

fun TimeSlot_Run :: "nat \<Rightarrow> clock \<Rightarrow> client \<Rightarrow> uaddr \<Rightarrow> s64 \<Rightarrow> timers \<Rightarrow> timers outcome" where
  "TimeSlot_Run 0 gettime client s lTick st = Inl Diverges"
| "TimeSlot_Run (Suc fuel) gettime client s lTick st =
     (case m_pHead (slot st s) of
        None \<Rightarrow> Inr (set_slot s ((slot st s)\<lparr>m_nLen := 0\<rparr>) st)
      | Some a \<Rightarrow>
          let st = set_slot s ((slot st s)\<lparr>m_pHead := m_pNext (node st a)\<rparr>) st in
          bindE (case m_byStatus (node st a) of
                   TIMER_STATUS_RUN \<Rightarrow> OnTimer gettime client a lTick st
                 | TIMER_STATUS_PAUSE \<Rightarrow> Inr st
                 | TIMER_STATUS_CLOSE \<Rightarrow> TimeNode_Release a st
                 | TIMER_STATUS_NOT_FOUND \<Rightarrow> bindE (TASSERT False ''wtf'') (\<lambda>_. Inr st))
            (\<lambda>st. TimeSlot_Run fuel gettime client s lTick st))"

definition TimeSlot_Release :: "uaddr \<Rightarrow> timers \<Rightarrow> timers outcome" where
  "TimeSlot_Release s st =
     (let st = set_slot s \<lparr>m_pHead = None, m_nLen = 0\<rparr> st in
      bindE (TPool_Recover slot_sz s (s_oTimeSlotPool st)) (\<lambda>p. Inr (st\<lparr>s_oTimeSlotPool := p\<rparr>)))"

definition SlotRun :: "nat \<Rightarrow> clock \<Rightarrow> client \<Rightarrow> s32 \<Rightarrow> s64 \<Rightarrow> timers \<Rightarrow> timers outcome" where
  "SlotRun fuel gettime client nCursor lTick st =
     (case m_oTimeSlotMap st nCursor of
        None \<Rightarrow> Inr st
      | Some s \<Rightarrow>
          bindE (TimeSlot_Run fuel gettime client s lTick st) (\<lambda>st.
          bindE (TimeSlot_Release s st) (\<lambda>st.
          Inr (st\<lparr>m_oTimeSlotMap := (m_oTimeSlotMap st)(nCursor := None)\<rparr>))))"

text \<open>The \<^verbatim>\<open>for\<close> loop of \<^verbatim>\<open>Processing\<close>, \<open>n\<close> iterations.\<close>

fun run_slots :: "nat \<Rightarrow> nat \<Rightarrow> clock \<Rightarrow> client \<Rightarrow> s64 \<Rightarrow> timers \<Rightarrow> timers outcome" where
  "run_slots 0 fuel gettime client lTick st = Inr st"
| "run_slots (Suc n) fuel gettime client lTick st =
     bindE (SlotRun fuel gettime client (m_nCursor st) lTick st)
       (\<lambda>st. run_slots n fuel gettime client lTick (st\<lparr>m_nCursor := m_nCursor st + 1\<rparr>))"

definition Timermgr_Processing :: "nat \<Rightarrow> clock \<Rightarrow> client \<Rightarrow> timers \<Rightarrow> (s64 \<times> timers) outcome" where
  "Timermgr_Processing fuel gettime client st =
     (let (now, st) = GetTimeMillisecond gettime st; lTick = to_s64 now in
      bindE (chk_s64 (lTick - m_lStartRunTick st)) (\<lambda>d.
      bindE (div_s64 (to_s32 d) (m_nTimeScale st)) (\<lambda>nCursor.
      bindE (run_slots (nat (nCursor - m_nCursor st)) fuel gettime client lTick st) (\<lambda>st.
      let (now, st) = GetTimeMillisecond gettime st in Inr (to_s64 (now - lTick), st)))))"

section \<open>Start-up\<close>

text \<open>The static pools, the constructor (\<^verbatim>\<open>getInstance(scale)\<close>), then \<^verbatim>\<open>Initialize\<close>.\<close>

definition Timermgr_new :: "s32 \<Rightarrow> timers outcome" where
  "Timermgr_new scale =
     bindE (TPool_new node_sz zero_node 64) (\<lambda>np.
     bindE (TPool_new slot_sz TimeSlot_new 1024) (\<lambda>sp.
     Inr \<lparr>m_lStartRunTick = 0, m_nTimeScale = scale, m_nCursor = 0, m_oTimeSlotMap = Map.empty,
          s_oTimeNodeMap = Map.empty, s_oTimeNodePool = np, s_oTimeSlotPool = sp, reads = 0, trace = []\<rparr>))"

definition Timermgr_Redry :: "timers \<Rightarrow> bool \<times> timers" where
  "Timermgr_Redry st = (True, st)"

definition Timermgr_Initialize :: "clock \<Rightarrow> timers \<Rightarrow> bool \<times> timers" where
  "Timermgr_Initialize gettime st =
     (let st = st\<lparr>m_nCursor := 0\<rparr>; (now, st) = GetTimeMillisecond gettime st in
      (True, st\<lparr>m_lStartRunTick := to_s64 now\<rparr>))"

end
