(* ===== verification/Timer_Spec.thy ===== *)
theory Timer_Spec
  imports Timer
begin

text \<open>
  What the timer wheel promises, and the proof that it keeps the promise.

  The specification is a monitor of the observable events: it knows, of each live timer, its
  parameters, when it is due and how often it ran, and refuses an event the interface of
  src/API/IKernel.h does not allow. The invariant ties the linked lists in the pools to the
  monitor's state.
\<close>

section \<open>The specification: a monitor of timer events\<close>

datatype life = Life (l_id: s32) (l_timer: itimer) (l_interval: s32) (l_loop: s32) (l_due: s64)
  (l_hits: s32) (l_started: bool)

text \<open>
  \<^verbatim>\<open>OnStart\<close> comes once, before the first \<^verbatim>\<open>OnTime\<close>; no call comes before the timer is due; each
  \<^verbatim>\<open>OnTime\<close> moves the due time by the interval; a timer with a positive \<open>loop\<close> gets at most that
  many \<^verbatim>\<open>OnTime\<close> calls, and \<^verbatim>\<open>OnTerminate\<close> (nonviolent) right when it had them all.
\<close>

fun observe_life :: "timer_event \<Rightarrow> (uaddr \<rightharpoonup> life) \<Rightarrow> (uaddr \<rightharpoonup> life) option" where
  "observe_life (Created a i p iv lp due) M =
     (case M a of None \<Rightarrow> Some (M(a \<mapsto> Life i p iv lp due 0 False)) | Some _ \<Rightarrow> None)"
| "observe_life (OnStart a p i t) M =
     (case M a of None \<Rightarrow> None
      | Some (Life i' p' iv lp due hits started) \<Rightarrow>
          if i = i' \<and> p = p' \<and> \<not> started \<and> hits = 0 \<and> due \<le> t
          then Some (M(a \<mapsto> Life i p iv lp due hits True)) else None)"
| "observe_life (OnTime a p i t) M =
     (case M a of None \<Rightarrow> None
      | Some (Life i' p' iv lp due hits started) \<Rightarrow>
          if i = i' \<and> p = p' \<and> started \<and> due \<le> t \<and> (0 < lp \<longrightarrow> hits < lp)
          then Some (M(a \<mapsto> Life i p iv lp (due + iv) (hits + 1) started)) else None)"
| "observe_life (OnTerminate a p i nonviolent t) M =
     (case M a of None \<Rightarrow> None
      | Some (Life i' p' iv lp due hits started) \<Rightarrow>
          if i = i' \<and> p = p' \<and> started \<and> hits = lp \<and> nonviolent then Some (M(a := None)) else None)"

fun monitor :: "timer_event list \<Rightarrow> (uaddr \<rightharpoonup> life) \<Rightarrow> (uaddr \<rightharpoonup> life) option" where
  "monitor [] M = Some M"
| "monitor (e # es) M = Option.bind (observe_life e M) (monitor es)"

lemma monitor_append: "monitor (es @ fs) M = Option.bind (monitor es M) (monitor fs)"
  by (induction es arbitrary: M) (auto simp: bind_split split: option.splits)

section \<open>The invariant\<close>

text \<open>The linked list from \<open>h\<close> through \<open>m_pNext\<close>.\<close>

fun chain :: "(uaddr \<Rightarrow> timenode) \<Rightarrow> uaddr option \<Rightarrow> uaddr list \<Rightarrow> bool" where
  "chain f h [] \<longleftrightarrow> h = None"
| "chain f h (a # xs) \<longleftrightarrow> h = Some a \<and> chain f (m_pNext (f a)) xs"

lemma chain_cong: "(\<And>a. a \<in> set xs \<Longrightarrow> m_pNext (f a) = m_pNext (g a)) \<Longrightarrow> chain f h xs = chain g h xs"
  by (induction xs arbitrary: h) auto

lemma chain_None: "chain f None xs \<longleftrightarrow> xs = []"
  by (cases xs) auto

lemma chain_Some: "chain f (Some a) xs \<longleftrightarrow> (\<exists>ys. xs = a # ys \<and> chain f (m_pNext (f a)) ys)"
  by (cases xs) auto

text \<open>\<open>L c\<close> lists the nodes of slot \<open>c\<close>.\<close>

definition wheel_inv :: "(s32 \<Rightarrow> uaddr list) \<Rightarrow> timers \<Rightarrow> bool" where
  "wheel_inv L st \<longleftrightarrow>
     pool_inv node_sz (s_oTimeNodePool st) \<and> pool_inv slot_sz (s_oTimeSlotPool st) \<and>
     s_oTimeNodeMap st = Map.empty \<and>
     inj_on (m_oTimeSlotMap st) (dom (m_oTimeSlotMap st)) \<and>
     in_use (s_oTimeSlotPool st) = ran (m_oTimeSlotMap st) \<and>
     idle_sat (\<lambda>s. m_pHead s = None) (s_oTimeSlotPool st) \<and>
     (\<forall>c s. m_oTimeSlotMap st c = Some s \<longrightarrow> chain (node st) (m_pHead (slot st s)) (L c)) \<and>
     (\<forall>c. m_oTimeSlotMap st c = None \<longrightarrow> L c = []) \<and>
     (\<forall>c. distinct (L c)) \<and> (\<forall>c. set (L c) \<subseteq> in_use (s_oTimeNodePool st)) \<and>
     (\<forall>c c' a. a \<in> set (L c) \<longrightarrow> a \<in> set (L c') \<longrightarrow> c = c')"

lemma wheel_inv_slot:
  assumes "wheel_inv L st" "m_oTimeSlotMap st c = Some s"
  shows "s \<in> in_use (s_oTimeSlotPool st)" "chain (node st) (m_pHead (slot st s)) (L c)"
    "m_oTimeSlotMap st c' = Some s \<Longrightarrow> c' = c"
proof -
  show "s \<in> in_use (s_oTimeSlotPool st)" "chain (node st) (m_pHead (slot st s)) (L c)"
    using assms by (auto simp: wheel_inv_def ran_def)
  have "inj_on (m_oTimeSlotMap st) (dom (m_oTimeSlotMap st))" using assms by (simp add: wheel_inv_def)
  then show "m_oTimeSlotMap st c' = Some s \<Longrightarrow> c' = c"
    using assms(2) by (auto simp: inj_on_def dom_def)
qed

section \<open>Reading and writing nodes and slots\<close>

lemma get_put_unit: "valid_unit p a \<Longrightarrow> get_unit (put_unit a v p) b = (if b = a then v else get_unit p b)"
  by (simp add: put_unit_def get_unit_def)

lemma set_node_fields [simp]:
  "m_lStartRunTick (set_node a n st) = m_lStartRunTick st" "m_nTimeScale (set_node a n st) = m_nTimeScale st"
  "m_nCursor (set_node a n st) = m_nCursor st" "m_oTimeSlotMap (set_node a n st) = m_oTimeSlotMap st"
  "s_oTimeNodeMap (set_node a n st) = s_oTimeNodeMap st" "s_oTimeSlotPool (set_node a n st) = s_oTimeSlotPool st"
  "reads (set_node a n st) = reads st" "trace (set_node a n st) = trace st" "slot (set_node a n st) = slot st"
  by (simp_all add: set_node_def slot_def fun_eq_iff)

lemma set_slot_fields [simp]:
  "m_lStartRunTick (set_slot a n st) = m_lStartRunTick st" "m_nTimeScale (set_slot a n st) = m_nTimeScale st"
  "m_nCursor (set_slot a n st) = m_nCursor st" "m_oTimeSlotMap (set_slot a n st) = m_oTimeSlotMap st"
  "s_oTimeNodeMap (set_slot a n st) = s_oTimeNodeMap st" "s_oTimeNodePool (set_slot a n st) = s_oTimeNodePool st"
  "reads (set_slot a n st) = reads st" "trace (set_slot a n st) = trace st" "node (set_slot a n st) = node st"
  by (simp_all add: set_slot_def node_def fun_eq_iff)

lemma node_set_node [simp]: "a \<in> in_use (s_oTimeNodePool st) \<Longrightarrow>
    node (set_node a n st) b = (if b = a then n else node st b)"
  by (simp add: node_def set_node_def get_put_unit in_use_valid)

lemma slot_set_slot [simp]: "s \<in> in_use (s_oTimeSlotPool st) \<Longrightarrow>
    slot (set_slot s v st) b = (if b = s then v else slot st b)"
  by (simp add: slot_def set_slot_def get_put_unit in_use_valid)

lemma set_node_pool:
  assumes "pool_inv node_sz (s_oTimeNodePool st)" "a \<in> in_use (s_oTimeNodePool st)"
  shows "pool_inv node_sz (s_oTimeNodePool (set_node a n st))"
    "in_use (s_oTimeNodePool (set_node a n st)) = in_use (s_oTimeNodePool st)"
  using put_unit_ok [OF assms(1) in_use_valid [OF assms(2)]] by (simp_all add: set_node_def)

lemma set_slot_pool:
  assumes "pool_inv slot_sz (s_oTimeSlotPool st)" "s \<in> in_use (s_oTimeSlotPool st)"
  shows "pool_inv slot_sz (s_oTimeSlotPool (set_slot s v st))"
    "in_use (s_oTimeSlotPool (set_slot s v st)) = in_use (s_oTimeSlotPool st)"
    "idle_sat P (s_oTimeSlotPool (set_slot s v st)) = idle_sat P (s_oTimeSlotPool st)"
  using put_unit_ok [OF assms(1) in_use_valid [OF assms(2)]] put_unit_idle [OF assms]
  by (simp_all add: set_slot_def)

text \<open>Replacing a slot's head and a node outside the other lists.\<close>

lemma wheel_inv_set_slot:
  assumes inv: "wheel_inv L st" and s: "m_oTimeSlotMap st c = Some s"
    and xs: "chain (node st) (m_pHead v) xs" "distinct xs" "set xs \<subseteq> in_use (s_oTimeNodePool st)"
      "\<And>c' a. c' \<noteq> c \<Longrightarrow> a \<in> set (L c') \<Longrightarrow> a \<notin> set xs"
  shows "wheel_inv (L(c := xs)) (set_slot s v st)"
proof -
  have w: "pool_inv slot_sz (s_oTimeSlotPool st)" using inv by (simp add: wheel_inv_def)
  have su: "s \<in> in_use (s_oTimeSlotPool st)" by (rule wheel_inv_slot(1) [OF inv s])
  have ch: "chain (node st) (m_pHead (slot (set_slot s v st) s')) ((L(c := xs)) c')"
    if c': "m_oTimeSlotMap st c' = Some s'" for c' s'
  proof (cases "c' = c")
    case True
    with c' s xs(1) su show ?thesis by simp
  next
    case False
    with wheel_inv_slot(3) [OF inv s, of c'] c' have "s' \<noteq> s" by auto
    with False wheel_inv_slot(2) [OF inv c'] su show ?thesis by simp
  qed
  have dis: "c1 = c2" if "a \<in> set ((L(c := xs)) c1)" "a \<in> set ((L(c := xs)) c2)" for c1 c2 a
    using that inv xs(4) by (auto simp: wheel_inv_def split: if_splits)
  have L: "\<forall>c'. distinct ((L(c := xs)) c')" "\<forall>c'. set ((L(c := xs)) c') \<subseteq> in_use (s_oTimeNodePool st)"
    "\<forall>c'. m_oTimeSlotMap st c' = None \<longrightarrow> (L(c := xs)) c' = []"
    using inv xs(2,3) s by (simp_all add: wheel_inv_def)
  from inv have "pool_inv node_sz (s_oTimeNodePool st)" "s_oTimeNodeMap st = Map.empty"
    "inj_on (m_oTimeSlotMap st) (dom (m_oTimeSlotMap st))" "in_use (s_oTimeSlotPool st) = ran (m_oTimeSlotMap st)"
    "idle_sat (\<lambda>s. m_pHead s = None) (s_oTimeSlotPool st)"
    by (simp_all add: wheel_inv_def)
  with set_slot_pool [OF w su] L ch dis show ?thesis
    unfolding wheel_inv_def set_slot_fields by blast
qed

lemma wheel_inv_set_node:
  assumes inv: "wheel_inv L st" and a: "a \<in> in_use (s_oTimeNodePool st)"
    and "(\<forall>c. a \<notin> set (L c)) \<or> m_pNext n = m_pNext (node st a)"
  shows "wheel_inv L (set_node a n st)"
proof -
  have w: "pool_inv node_sz (s_oTimeNodePool st)" using inv by (simp add: wheel_inv_def)
  have "chain (node (set_node a n st)) h (L c) = chain (node st) h (L c)" for h c
    using assms by (intro chain_cong) auto
  with inv set_node_pool [OF w a] show ?thesis unfolding wheel_inv_def by simp
qed

section \<open>Adding a node\<close>

lemma put_put_unit: "valid_unit p a \<Longrightarrow> put_unit a v (put_unit a w p) = put_unit a v p"
  by (simp add: put_unit_def) (simp add: set_unit_info_def valid_unit_def unit_info_def)

lemma set_slot_twice: "s \<in> in_use (s_oTimeSlotPool st) \<Longrightarrow> set_slot s v (set_slot s w st) = set_slot s v st"
  by (simp add: set_slot_def put_put_unit in_use_valid)

lemma set_slot_node_commute: "set_node a n (set_slot s v st) = set_slot s v (set_node a n st)"
  by (simp add: set_slot_def set_node_def)

lemma in_use_set_slot [simp]:
  "valid_unit (s_oTimeSlotPool st) s \<Longrightarrow> in_use (s_oTimeSlotPool (set_slot s v st)) = in_use (s_oTimeSlotPool st)"
  by (auto simp: set_slot_def put_unit_def in_use_def)

lemma in_use_set_node [simp]:
  "valid_unit (s_oTimeNodePool st) a \<Longrightarrow> in_use (s_oTimeNodePool (set_node a v st)) = in_use (s_oTimeNodePool st)"
  by (auto simp: set_node_def put_unit_def in_use_def)

lemma timeslot_updates [simp]: "(v :: timeslot)\<lparr>m_nLen := n, m_pHead := h\<rparr> = \<lparr>m_pHead = h, m_nLen = n\<rparr>"
  by (cases v) simp

lemma TimeSlot_Add_eq:
  assumes "s \<in> in_use (s_oTimeSlotPool st)" "a \<in> in_use (s_oTimeNodePool st)"
  shows "TimeSlot_Add s a st =
    set_slot s \<lparr>m_pHead = Some a, m_nLen = to_s32 (m_nLen (slot st s) + 1)\<rparr>
      (set_node a ((node st a)\<lparr>m_pNext := m_pHead (slot st s)\<rparr>) st)"
  using assms
  by (simp add: TimeSlot_Add_def Let_def set_slot_twice set_slot_node_commute in_use_valid split: option.split)

text \<open>What an operation on the wheel leaves alone.\<close>

definition same_frame :: "timers \<Rightarrow> timers \<Rightarrow> bool" where
  "same_frame st st' \<longleftrightarrow> m_lStartRunTick st' = m_lStartRunTick st \<and> m_nTimeScale st' = m_nTimeScale st \<and>
     m_nCursor st' = m_nCursor st"

lemma same_frame_refl [simp]: "same_frame st st"
  by (simp add: same_frame_def)

lemma same_frame_trans: "same_frame st st' \<Longrightarrow> same_frame st' st'' \<Longrightarrow> same_frame st st''"
  by (simp add: same_frame_def)

definition added :: "s32 \<Rightarrow> uaddr \<Rightarrow> timers \<Rightarrow> timers \<Rightarrow> bool" where
  "added c a st st' \<longleftrightarrow> same_frame st st' \<and> reads st' = reads st \<and> trace st' = trace st \<and>
     in_use (s_oTimeNodePool st') = in_use (s_oTimeNodePool st) \<and>
     (\<exists>h. node st' = (node st)(a := (node st a)\<lparr>m_pNext := h\<rparr>)) \<and>
     (\<forall>c'. c' \<noteq> c \<longrightarrow> m_oTimeSlotMap st' c' = m_oTimeSlotMap st c') \<and>
     (\<forall>s. m_oTimeSlotMap st c = Some s \<longrightarrow> m_oTimeSlotMap st' c = Some s)"

lemma TimeSlot_Add_ok:
  assumes inv: "wheel_inv L st" and s: "m_oTimeSlotMap st c = Some s"
    and a: "a \<in> in_use (s_oTimeNodePool st)" "\<forall>c. a \<notin> set (L c)"
  shows "wheel_inv (L(c := a # L c)) (TimeSlot_Add s a st)" "added c a st (TimeSlot_Add s a st)"
proof -
  note su = wheel_inv_slot(1,2) [OF inv s]
  let ?n = "(node st a)\<lparr>m_pNext := m_pHead (slot st s)\<rparr>" and ?st = "set_node a ((node st a)\<lparr>m_pNext := m_pHead (slot st s)\<rparr>) st"
  let ?v = "\<lparr>m_pHead = Some a, m_nLen = to_s32 (m_nLen (slot st s) + 1)\<rparr>"
  have eq: "TimeSlot_Add s a st = set_slot s ?v ?st" by (rule TimeSlot_Add_eq [OF su(1) a(1)])
  have i1: "wheel_inv L ?st" using wheel_inv_set_node [OF inv a(1)] a(2) by simp
  have "chain (node ?st) h (L c) = chain (node st) h (L c)" for h
    using a by (intro chain_cong) auto
  then have ch: "chain (node ?st) (m_pHead ?v) (a # L c)" using su(2) a(1) by simp
  have "distinct (L c)" "set (L c) \<subseteq> in_use (s_oTimeNodePool st)"
    and other: "\<And>c' b. b \<in> set (L c') \<Longrightarrow> b \<in> set (L c) \<Longrightarrow> c' = c"
    using inv by (auto simp: wheel_inv_def)
  then have xs: "distinct (a # L c)" "set (a # L c) \<subseteq> in_use (s_oTimeNodePool ?st)"
    using a by (simp_all add: in_use_valid)
  have "b \<notin> set (a # L c)" if "c' \<noteq> c" "b \<in> set (L c')" for c' b
    using that a(2) other [of b c'] by auto
  from wheel_inv_set_slot [OF i1 _ ch xs this] s
  show "wheel_inv (L(c := a # L c)) (TimeSlot_Add s a st)" by (simp add: eq)
  show "added c a st (TimeSlot_Add s a st)"
    using a(1) by (auto simp: eq added_def same_frame_def in_use_valid fun_eq_iff)
qed

lemma GetTimeSlot_ok:
  assumes inv: "wheel_inv L st" and c: "m_oTimeSlotMap st c = None"
  shows "\<exists>s sp. GetTimeSlot st = Inr (Some s, st\<lparr>s_oTimeSlotPool := sp\<rparr>) \<and>
     wheel_inv L (st\<lparr>s_oTimeSlotPool := sp, m_oTimeSlotMap := (m_oTimeSlotMap st)(c \<mapsto> s)\<rparr>)"
proof -
  let ?P = "\<lambda>s. m_pHead s = None"
  have w: "pool_inv slot_sz (s_oTimeSlotPool st)" "idle_sat ?P (s_oTimeSlotPool st)"
      "in_use (s_oTimeSlotPool st) = ran (m_oTimeSlotMap st)" using inv by (simp_all add: wheel_inv_def)
  obtain s sp where sp: "TPool_Create slot_sz TimeSlot_new 64 (s_oTimeSlotPool st) = Inr (Some s, sp)"
      "pool_inv slot_sz sp" "s \<notin> in_use (s_oTimeSlotPool st)" "in_use sp = insert s (in_use (s_oTimeSlotPool st))"
      "idle_sat ?P sp" "m_pHead (get_unit sp s) = None"
      "\<forall>b \<in> in_use (s_oTimeSlotPool st). get_unit sp b = get_unit (s_oTimeSlotPool st) b"
    using clean_pool.create_clean [of slot_sz "s_oTimeSlotPool st" ?P TimeSlot_new] w(1,2)
    by (auto simp: TimeSlot_new_def)
  let ?st = "st\<lparr>s_oTimeSlotPool := sp, m_oTimeSlotMap := (m_oTimeSlotMap st)(c \<mapsto> s)\<rparr>"
  have new: "m_oTimeSlotMap st c' \<noteq> Some s" for c'
    using sp(3) w(3) by (auto simp: ran_def)
  have "inj_on (m_oTimeSlotMap ?st) (dom (m_oTimeSlotMap ?st))"
    using inv new unfolding wheel_inv_def inj_on_def by (auto split: if_splits)
  moreover have "in_use sp = ran (m_oTimeSlotMap ?st)"
    using sp(4) w(3) c by simp
  moreover have "chain (node ?st) (m_pHead (slot ?st s')) (L c')" if "m_oTimeSlotMap ?st c' = Some s'" for c' s'
  proof (cases "c' = c")
    case True
    moreover have "L c = []" using inv c by (simp add: wheel_inv_def)
    ultimately show ?thesis using that sp(6) by (simp add: slot_def)
  next
    case False
    with that have m: "m_oTimeSlotMap st c' = Some s'" by simp
    then have "slot ?st s' = slot st s'"
      using sp(7) wheel_inv_slot(1) [OF inv m] by (simp add: slot_def)
    moreover have "node ?st = node st" by (simp add: node_def fun_eq_iff)
    ultimately show ?thesis using wheel_inv_slot(2) [OF inv m] by simp
  qed
  ultimately have "wheel_inv L ?st"
    using inv sp(2,5) unfolding wheel_inv_def by (auto split: if_splits)
  then show ?thesis using sp(1) by (auto simp: GetTimeSlot_def)
qed

lemma SlotAdd_ok:
  assumes inv: "wheel_inv L st" and a: "a \<in> in_use (s_oTimeNodePool st)" "\<forall>c. a \<notin> set (L c)"
  shows "\<exists>st'. SlotAdd c a st = Inr st' \<and> wheel_inv (L(c := a # L c)) st' \<and> added c a st st'"
proof (cases "m_oTimeSlotMap st c")
  case (Some s)
  with TimeSlot_Add_ok [OF inv Some a] show ?thesis by (simp add: SlotAdd_def)
next
  case None
  from GetTimeSlot_ok [OF inv None] obtain s sp where
    g: "GetTimeSlot st = Inr (Some s, st\<lparr>s_oTimeSlotPool := sp\<rparr>)"
    "wheel_inv L (st\<lparr>s_oTimeSlotPool := sp, m_oTimeSlotMap := (m_oTimeSlotMap st)(c \<mapsto> s)\<rparr>)" (is "wheel_inv L ?st")
    by auto
  have f: "node ?st = node st" by (simp add: node_def fun_eq_iff)
  note t = TimeSlot_Add_ok [OF g(2), of c s a]
  have run: "SlotAdd c a st = Inr (TimeSlot_Add s a ?st)" using None g(1) by (simp add: SlotAdd_def)
  have "added c a st (TimeSlot_Add s a ?st)"
    using t(2) a f None by (auto simp: added_def same_frame_def)
  with t(1) a run show ?thesis by simp
qed

section \<open>Nodes, monitor and clock\<close>

definition node_ok :: "s64 \<Rightarrow> timenode \<Rightarrow> bool" where
  "node_ok start n \<longleftrightarrow> m_byStatus n = TIMER_STATUS_RUN \<and> m_pTimer n \<noteq> 0 \<and>
     100 \<le> m_nInterval n \<and> in_s32 (m_nInterval n) \<and> in_s32 (m_nMaxHitCount n) \<and>
     0 \<le> m_nHitCount n \<and> (0 < m_nMaxHitCount n \<longrightarrow> m_nHitCount n < m_nMaxHitCount n) \<and>
     m_nHitCount n * 100 \<le> m_lNextRunTick n - start \<and> m_lNextRunTick n - start < 2 ^ 32"

definition life_of :: "timenode \<Rightarrow> life" where
  "life_of n = Life (m_nID n) (m_pTimer n) (m_nInterval n) (m_nMaxHitCount n) (m_lNextRunTick n)
     (m_nHitCount n) (m_nHitCount n \<noteq> 0)"

lemma node_ok_next [simp]: "node_ok start (n\<lparr>m_pNext := h\<rparr>) = node_ok start n"
  by (simp add: node_ok_def)

lemma life_of_next [simp]: "life_of (n\<lparr>m_pNext := h\<rparr>) = life_of n"
  by (simp add: life_of_def)

lemma node_ok_start: "node_ok start n \<Longrightarrow> start \<le> m_lNextRunTick n"
  by (auto simp: node_ok_def)

definition due_slot :: "timers \<Rightarrow> timenode \<Rightarrow> s32" where
  "due_slot st n = (m_lNextRunTick n - m_lStartRunTick st) div m_nTimeScale st"

lemma due_slot_next [simp]: "due_slot st (n\<lparr>m_pNext := h\<rparr>) = due_slot st n"
  by (simp add: due_slot_def)

lemma due_slot_frame: "same_frame st st' \<Longrightarrow> due_slot st' = due_slot st"
  by (simp add: due_slot_def same_frame_def fun_eq_iff)

text \<open>\<open>M\<close> is the monitor's state; \<open>D\<close> the nodes taken from the pool and in no slot: the one being run or set up.\<close>

definition nodes_inv :: "(s32 \<Rightarrow> uaddr list) \<Rightarrow> (uaddr \<rightharpoonup> life) \<Rightarrow> uaddr set \<Rightarrow> timers \<Rightarrow> bool" where
  "nodes_inv L M D st \<longleftrightarrow>
     monitor (trace st) Map.empty = Some M \<and> dom M \<subseteq> in_use (s_oTimeNodePool st) \<and>
     (\<forall>a. a \<in> in_use (s_oTimeNodePool st) \<longleftrightarrow> (\<exists>c. a \<in> set (L c)) \<or> a \<in> D) \<and> (\<forall>a \<in> D. \<forall>c. a \<notin> set (L c)) \<and>
     (\<forall>c. \<forall>a \<in> set (L c). node_ok (m_lStartRunTick st) (node st a) \<and> due_slot st (node st a) = c \<and>
        M a = Some (life_of (node st a)))"

text \<open>
  The wall clock does not go backwards and stays within \<open>2 ^ 31\<close> milliseconds (24 days) of the
  first reading; the code narrows the elapsed time to \<^verbatim>\<open>s32\<close>.
\<close>

definition good_clock :: "clock \<Rightarrow> bool" where
  "good_clock gettime \<longleftrightarrow> mono gettime \<and> 0 \<le> gettime 0 \<and> gettime 0 < 2 ^ 62 \<and>
     (\<forall>k. gettime k < gettime 0 + 2 ^ 31)"

text \<open>\<open>C\<close>: a slot number the clock has already reached.\<close>

definition clock_inv :: "clock \<Rightarrow> s32 \<Rightarrow> timers \<Rightarrow> bool" where
  "clock_inv gettime C st \<longleftrightarrow>
     20 \<le> m_nTimeScale st \<and> m_nTimeScale st \<le> 100 \<and> 0 \<le> m_nCursor st \<and> m_nCursor st \<le> C \<and>
     0 \<le> m_lStartRunTick st \<and> m_lStartRunTick st < 2 ^ 63 - 2 ^ 33 \<and>
     (\<forall>k \<ge> reads st. C * m_nTimeScale st \<le> gettime k - m_lStartRunTick st \<and>
        gettime k - m_lStartRunTick st < 2 ^ 31) \<and>
     (\<forall>c \<in> dom (m_oTimeSlotMap st). m_nCursor st \<le> c)"

definition timer_inv ::
    "clock \<Rightarrow> s32 \<Rightarrow> (s32 \<Rightarrow> uaddr list) \<Rightarrow> (uaddr \<rightharpoonup> life) \<Rightarrow> uaddr set \<Rightarrow> timers \<Rightarrow> bool" where
  "timer_inv gettime C L M D st \<longleftrightarrow> wheel_inv L st \<and> nodes_inv L M D st \<and> clock_inv gettime C st"

lemma timer_inv_listed:
  assumes "timer_inv gettime C L M D st" "a \<in> set (L c)"
  shows "node_ok (m_lStartRunTick st) (node st a)" "due_slot st (node st a) = c"
    "M a = Some (life_of (node st a))" "a \<notin> D" "a \<in> in_use (s_oTimeNodePool st)"
proof -
  from assms show "node_ok (m_lStartRunTick st) (node st a)" "due_slot st (node st a) = c"
    "M a = Some (life_of (node st a))" "a \<notin> D" "a \<in> in_use (s_oTimeNodePool st)"
    by (auto simp: timer_inv_def nodes_inv_def)
qed

lemma timer_inv_inflight:
  assumes "timer_inv gettime C L M D st" "a \<in> D"
  shows "a \<in> in_use (s_oTimeNodePool st)" "\<forall>c. a \<notin> set (L c)"
  using assms by (auto simp: timer_inv_def nodes_inv_def)

lemma timer_inv_scale: "timer_inv gettime C L M D st \<Longrightarrow> 20 \<le> m_nTimeScale st \<and> m_nTimeScale st \<le> 100"
  by (simp add: timer_inv_def clock_inv_def)

section \<open>Starting a timer\<close>

lemma ResetTimeNode_ok:
  assumes inv: "timer_inv gettime C L M D st" and aD: "a \<in> D"
    and n: "node_ok (m_lStartRunTick st) (node st a)" "M a = Some (life_of (node st a))"
    and c: "c = due_slot st (node st a)" "m_nCursor st \<le> c"
  shows "\<exists>st'. ResetTimeNode a st = Inr st' \<and> timer_inv gettime C (L(c := a # L c)) M (D - {a}) st' \<and> added c a st st'"
proof -
  note a = timer_inv_inflight [OF inv aD]
  have w: "wheel_inv L st" and ni: "nodes_inv L M D st" and ci: "clock_inv gettime C st"
    using inv by (simp_all add: timer_inv_def)
  have sc: "20 \<le> m_nTimeScale st" using ci by (simp add: clock_inv_def)
  let ?d = "m_lNextRunTick (node st a) - m_lStartRunTick st"
  have d: "0 \<le> ?d" "?d < 2 ^ 32" using n(1) by (auto simp: node_ok_def)
  then have "?d div m_nTimeScale st \<le> ?d div 20" using sc by (intro zdiv_mono2) auto
  then have "in_s32 (?d div m_nTimeScale st)"
    using d sc pos_imp_zdiv_nonneg_iff [of "m_nTimeScale st" ?d] by (simp add: in_s32_def)
  then have run: "ResetTimeNode a st = SlotAdd c a st"
    using n(1) d sc c(1) by (simp add: ResetTimeNode_def node_ok_def due_slot_def in_s64_def)
  obtain st' where st': "SlotAdd c a st = Inr st'" "wheel_inv (L(c := a # L c)) st'" "added c a st st'"
    using SlotAdd_ok [OF w a] by blast
  then obtain h where nd: "node st' = (node st)(a := (node st a)\<lparr>m_pNext := h\<rparr>)" by (auto simp: added_def)
  have f: "same_frame st st'" "reads st' = reads st" "trace st' = trace st"
      "in_use (s_oTimeNodePool st') = in_use (s_oTimeNodePool st)" using st'(3) by (simp_all add: added_def)
  have dom: "dom (m_oTimeSlotMap st') \<subseteq> insert c (dom (m_oTimeSlotMap st))"
    using st'(3) by (auto simp: added_def dom_def)
  have "b \<in> in_use (s_oTimeNodePool st') \<longleftrightarrow> (\<exists>c'. b \<in> set ((L(c := a # L c)) c')) \<or> b \<in> D - {a}" for b
    using ni f(4) aD unfolding nodes_inv_def by auto
  moreover have "\<forall>b \<in> D - {a}. \<forall>c'. b \<notin> set ((L(c := a # L c)) c')"
    using ni by (simp add: nodes_inv_def)
  moreover have "\<forall>c'. \<forall>b \<in> set ((L(c := a # L c)) c'). node_ok (m_lStartRunTick st') (node st' b) \<and>
      due_slot st' (node st' b) = c' \<and> M b = Some (life_of (node st' b))"
    using ni f(1) nd n c(1) due_slot_frame [OF f(1)] unfolding nodes_inv_def by (auto simp: same_frame_def)
  ultimately have "nodes_inv (L(c := a # L c)) M (D - {a}) st'"
    using ni f(3,4) unfolding nodes_inv_def by simp
  moreover have "\<forall>c \<in> dom (m_oTimeSlotMap st'). m_nCursor st \<le> c"
    using dom c(2) ci by (auto simp: clock_inv_def)
  then have "clock_inv gettime C st'"
    using ci f by (simp add: clock_inv_def same_frame_def)
  ultimately show ?thesis using run st' by (auto simp: timer_inv_def)
qed

text \<open>The requests the modules may make: a timer object, parameters that fit \<^verbatim>\<open>s32\<close>, no negative delay.\<close>

fun request_ok :: "timer_request \<Rightarrow> bool" where
  "request_ok (StartTimer id0 timer interval delay loop) \<longleftrightarrow>
     timer \<noteq> 0 \<and> 100 \<le> interval \<and> in_s32 interval \<and> 0 \<le> delay \<and> in_s32 delay \<and> in_s32 loop"
| "request_ok (KillTimer id0 timer) \<longleftrightarrow> True"

definition client_ok :: "client \<Rightarrow> bool" where
  "client_ok client \<longleftrightarrow> (\<forall>es. \<forall>r \<in> set (client es). request_ok r)"

lemma FindNode_none: "s_oTimeNodeMap st = Map.empty \<Longrightarrow> FindNode id0 timer rm st = Inr (None, st)"
  by (simp add: FindNode_def)

lemma SetTimer_ok:
  assumes inv: "timer_inv gettime C L M D st"
    and p: "timer \<noteq> 0" "100 \<le> interval" "in_s32 interval" "0 \<le> delay" "in_s32 delay" "in_s32 loop"
  shows "\<exists>a st'. SetTimer gettime id0 timer interval loop delay st = Inr (a, st') \<and>
     a \<notin> in_use (s_oTimeNodePool st) \<and> timer_inv gettime C L (M(a \<mapsto> life_of (node st' a))) (insert a D) st' \<and>
     node_ok (m_lStartRunTick st') (node st' a) \<and> C \<le> due_slot st' (node st' a) \<and>
     (\<forall>b \<in> in_use (s_oTimeNodePool st). node st' b = node st b) \<and>
     same_frame st st' \<and> reads st' = Suc (reads st) \<and> m_oTimeSlotMap st' = m_oTimeSlotMap st"
proof -
  have w: "wheel_inv L st" and ni: "nodes_inv L M D st" and ci: "clock_inv gettime C st"
    using inv by (simp_all add: timer_inv_def)
  have pool: "pool_inv node_sz (s_oTimeNodePool st)" and fm: "s_oTimeNodeMap st = Map.empty"
    using w by (simp_all add: wheel_inv_def)
  obtain a q where q: "TPool_Create node_sz zero_node 64 (s_oTimeNodePool st) = Inr (Some a, q)"
      "pool_inv node_sz q" "a \<notin> in_use (s_oTimeNodePool st)" "in_use q = insert a (in_use (s_oTimeNodePool st))"
      "\<forall>b \<in> in_use (s_oTimeNodePool st). get_unit q b = get_unit (s_oTimeNodePool st) b"
    using block_pool.create_law [OF pool, of zero_node] by blast
  let ?now = "gettime (reads st)"
  let ?n = "zero_node\<lparr>m_byStatus := TIMER_STATUS_RUN, m_nID := id0, m_pTimer := timer, m_nInterval := interval,
              m_nMaxHitCount := loop, m_pNext := None, m_lNextRunTick := to_s64 (?now + delay)\<rparr>"
  let ?e = "Created a id0 timer interval loop (m_lNextRunTick ?n)"
  let ?st = "st\<lparr>s_oTimeNodePool := put_unit a ?n q, reads := Suc (reads st), trace := trace st @ [?e]\<rparr>"
  have run: "SetTimer gettime id0 timer interval loop delay st = Inr (a, ?st)"
    using q(1) by (simp add: SetTimer_def FindNode_none [OF fm] Initialize_def GetTimeMillisecond_def
        set_node_def observe_def)
  have va: "valid_unit q a" using q(4) by (auto intro: in_use_valid)
  have node: "node ?st b = (if b = a then ?n else get_unit q b)" for b
    using va by (simp add: node_def get_put_unit)
  have now: "C * m_nTimeScale st \<le> ?now - m_lStartRunTick st" "?now - m_lStartRunTick st < 2 ^ 31"
    "0 \<le> m_lStartRunTick st" "m_lStartRunTick st < 2 ^ 63 - 2 ^ 33" "20 \<le> m_nTimeScale st" "0 \<le> C"
    using ci by (auto simp: clock_inv_def)
  have "0 \<le> C * m_nTimeScale st" using now(5,6) by simp
  then have "m_lStartRunTick st \<le> ?now" using now(1) by linarith
  then have "in_s64 (?now + delay)" using p(4,5) now(2-4) by (simp add: in_s64_def in_s32_def)
  then have due: "m_lNextRunTick ?n = ?now + delay" by simp
  have unlisted: "a \<notin> set (L c)" for c using w q(3) by (auto simp: wheel_inv_def)
  have aMD: "a \<notin> dom M" "a \<notin> D" using q(3) ni by (auto simp: nodes_inv_def)
  have useL: "in_use (s_oTimeNodePool ?st) = insert a (in_use (s_oTimeNodePool st))"
    using put_unit_ok(2) [OF q(2) va] q(4) by simp
  have ok: "node_ok (m_lStartRunTick st) ?n"
    using p due now \<open>m_lStartRunTick st \<le> ?now\<close> by (auto simp: node_ok_def zero_node_def in_s32_def)
  have "C * m_nTimeScale st div m_nTimeScale st \<le> (m_lNextRunTick ?n - m_lStartRunTick st) div m_nTimeScale st"
    using now due p(4) by (intro zdiv_mono1) auto
  then have slot: "C \<le> due_slot ?st ?n" using now(5) by (simp add: due_slot_def)
  have same: "node ?st b = node st b" if "b \<in> in_use (s_oTimeNodePool st)" for b
    using that q(3,5) node by (auto simp: node_def)
  have li: "set (L c) \<subseteq> in_use (s_oTimeNodePool st)" for c using w by (simp add: wheel_inv_def)
  have "chain (node ?st) h (L c) = chain (node st) h (L c)" for h c
    by (rule chain_cong) (use li same in fastforce)
  moreover have "slot ?st = slot st" by (simp add: slot_def fun_eq_iff)
  moreover have "pool_inv node_sz (put_unit a ?n q)" "in_use (put_unit a ?n q) = in_use q"
    using put_unit_ok [OF q(2) va] by blast+
  ultimately have "wheel_inv L ?st"
    using w q(4) unfolding wheel_inv_def by auto
  moreover have "nodes_inv L (M(a \<mapsto> life_of (node ?st a))) (insert a D) ?st"
  proof -
    have "life_of ?n = Life id0 timer interval loop (m_lNextRunTick ?n) 0 False"
      by (simp add: life_of_def zero_node_def)
    then have "monitor (trace ?st) Map.empty = Some (M(a \<mapsto> life_of (node ?st a)))"
      using ni aMD(1) node [of a] by (simp add: nodes_inv_def monitor_append domIff)
    moreover have "dom (M(a \<mapsto> life_of (node ?st a))) \<subseteq> in_use (s_oTimeNodePool ?st)"
    proof -
      have "dom M \<subseteq> in_use (s_oTimeNodePool st)" using ni by (simp add: nodes_inv_def)
      then show ?thesis unfolding useL by auto
    qed
    moreover have "\<forall>b. b \<in> in_use (s_oTimeNodePool ?st) \<longleftrightarrow> (\<exists>c. b \<in> set (L c)) \<or> b \<in> insert a D"
      unfolding useL using ni by (auto simp: nodes_inv_def)
    moreover have "node_ok (m_lStartRunTick ?st) (node ?st b) \<and> due_slot ?st (node ?st b) = c \<and>
        (M(a \<mapsto> life_of (node ?st a))) b = Some (life_of (node ?st b))" if b: "b \<in> set (L c)" for b c
      using timer_inv_listed [OF inv b] same [of b] unlisted [of c] b by (auto simp: due_slot_def)
    moreover have "\<forall>b \<in> insert a D. \<forall>c. b \<notin> set (L c)"
      using ni unlisted by (auto simp: nodes_inv_def)
    ultimately show ?thesis unfolding nodes_inv_def by blast
  qed
  moreover have "clock_inv gettime C ?st" using ci by (auto simp: clock_inv_def)
  ultimately have "timer_inv gettime C L (M(a \<mapsto> life_of (node ?st a))) (insert a D) ?st" by (simp add: timer_inv_def)
  with run q(3) ok slot same node [of a] show ?thesis
    by (intro exI [of _ a] exI [of _ ?st]) (simp add: same_frame_def)
qed

text \<open>What calls to the kernel's timer interface leave alone: all existing timers, and the slots below \<open>C\<close>.\<close>

definition grown :: "s32 \<Rightarrow> (s32 \<Rightarrow> uaddr list) \<Rightarrow> (uaddr \<rightharpoonup> life) \<Rightarrow> timers \<Rightarrow>
    (s32 \<Rightarrow> uaddr list) \<Rightarrow> (uaddr \<rightharpoonup> life) \<Rightarrow> timers \<Rightarrow> bool" where
  "grown C L M st L' M' st' \<longleftrightarrow> same_frame st st' \<and> reads st \<le> reads st' \<and>
     (\<forall>c < C. L' c = L c \<and> m_oTimeSlotMap st' c = m_oTimeSlotMap st c) \<and>
     in_use (s_oTimeNodePool st) \<subseteq> in_use (s_oTimeNodePool st') \<and>
     (\<forall>a \<in> in_use (s_oTimeNodePool st). M' a = M a \<and> node st' a = node st a \<and>
        (\<forall>c. a \<in> set (L' c) \<longrightarrow> a \<in> set (L c)))"

lemma grown_refl [simp]: "grown C L M st L M st"
  by (simp add: grown_def)

lemma grown_trans:
  assumes "grown C L M st L' M' st'" "grown C L' M' st' L'' M'' st''"
  shows "grown C L M st L'' M'' st''"
proof -
  have "same_frame st st''" using assms by (auto simp: grown_def intro: same_frame_trans)
  moreover have "M'' a = M a \<and> node st'' a = node st a \<and> (\<forall>c. a \<in> set (L'' c) \<longrightarrow> a \<in> set (L c))"
    if "a \<in> in_use (s_oTimeNodePool st)" for a
  proof -
    have "a \<in> in_use (s_oTimeNodePool st')" using assms(1) that by (auto simp: grown_def)
    with assms that show ?thesis by (simp add: grown_def)
  qed
  ultimately show ?thesis using assms unfolding grown_def by (auto intro: order_trans)
qed

lemma StartTimer_ok:
  assumes inv: "timer_inv gettime C L M D st"
    and ok: "request_ok (StartTimer id0 timer interval delay loop)"
  shows "\<exists>L' M' st'. Timermgr_StartTimer gettime id0 timer interval delay loop st = Inr (True, st') \<and>
    timer_inv gettime C L' M' D st' \<and> grown C L M st L' M' st'"
proof -
  have p: "timer \<noteq> 0" "100 \<le> interval" "in_s32 interval" "0 \<le> delay" "in_s32 delay" "in_s32 loop"
    using ok by simp_all
  from SetTimer_ok [OF inv p, of id0] obtain a st1 where
    a: "SetTimer gettime id0 timer interval loop delay st = Inr (a, st1)" "a \<notin> in_use (s_oTimeNodePool st)"
      "timer_inv gettime C L (M(a \<mapsto> life_of (node st1 a))) (insert a D) st1"
      "node_ok (m_lStartRunTick st1) (node st1 a)" "C \<le> due_slot st1 (node st1 a)"
      "\<forall>b \<in> in_use (s_oTimeNodePool st). node st1 b = node st b"
      "same_frame st st1" "reads st1 = Suc (reads st)" "m_oTimeSlotMap st1 = m_oTimeSlotMap st"
    by blast
  let ?M = "M(a \<mapsto> life_of (node st1 a))" and ?c = "due_slot st1 (node st1 a)"
  have cur: "m_nCursor st1 \<le> ?c" using a(3,5) by (auto simp: timer_inv_def clock_inv_def)
  have "a \<notin> D" using inv a(2) by (auto simp: timer_inv_def nodes_inv_def)
  then have D: "insert a D - {a} = D" by simp
  have "a \<in> insert a D" "?M a = Some (life_of (node st1 a))" by simp_all
  from ResetTimeNode_ok [OF a(3) this(1) a(4) this(2) refl cur] obtain st2 where
    st2: "ResetTimeNode a st1 = Inr st2" "timer_inv gettime C (L(?c := a # L ?c)) ?M D st2" "added ?c a st1 st2"
    unfolding D by blast
  have use: "in_use (s_oTimeNodePool st1) = insert a (in_use (s_oTimeNodePool st))"
    using inv a(3) by (auto simp: timer_inv_def nodes_inv_def)
  from st2(3) obtain h where n2: "node st2 = (node st1)(a := (node st1 a)\<lparr>m_pNext := h\<rparr>)"
    by (auto simp: added_def)
  have "grown C L M st (L(?c := a # L ?c)) ?M st2"
    unfolding grown_def
  proof (intro conjI ballI allI impI)
    show "same_frame st st2" using a(7) st2(3) by (auto simp: added_def intro: same_frame_trans)
    show "reads st \<le> reads st2" using a(8) st2(3) by (simp add: added_def)
    show "in_use (s_oTimeNodePool st) \<subseteq> in_use (s_oTimeNodePool st2)" using use st2(3) by (auto simp: added_def)
    fix c assume "c < C"
    then have "c \<noteq> ?c" using a(5) by simp
    then show "(L(?c := a # L ?c)) c = L c" "m_oTimeSlotMap st2 c = m_oTimeSlotMap st c"
      using st2(3) a(9) by (simp_all add: added_def)
  next
    fix b c assume b: "b \<in> in_use (s_oTimeNodePool st)"
    then have "b \<noteq> a" using a(2) by blast
    then show "?M b = M b" "node st2 b = node st b" using a(6) n2 b by simp_all
    assume "b \<in> set ((L(?c := a # L ?c)) c)"
    with \<open>b \<noteq> a\<close> show "b \<in> set (L c)" by (auto split: if_splits)
  qed
  moreover have "Timermgr_StartTimer gettime id0 timer interval delay loop st = Inr (True, st2)"
    using a(1) st2(1) p by (simp add: Timermgr_StartTimer_def)
  ultimately show ?thesis using st2(2) by blast
qed

lemma KillTimer_ok:
  assumes "s_oTimeNodeMap st = Map.empty"
  shows "Timermgr_KillTimer id0 timer st = Inr (True, st)"
  by (simp add: Timermgr_KillTimer_def FindNode_none [OF assms])

lemma timer_inv_map_empty: "timer_inv gettime C L M D st \<Longrightarrow> s_oTimeNodeMap st = Map.empty"
  by (simp add: timer_inv_def wheel_inv_def)

lemma do_request_ok:
  assumes "timer_inv gettime C L M D st" "request_ok r"
  shows "\<exists>L' M' st'. do_request gettime r st = Inr st' \<and> timer_inv gettime C L' M' D st' \<and> grown C L M st L' M' st'"
proof (cases r)
  case (StartTimer id0 timer interval delay loop)
  with assms(2) have "request_ok (StartTimer id0 timer interval delay loop)" by simp
  from StartTimer_ok [OF assms(1) this] obtain L' M' st' where
    "Timermgr_StartTimer gettime id0 timer interval delay loop st = Inr (True, st')"
    "timer_inv gettime C L' M' D st'" "grown C L M st L' M' st'" by blast
  with StartTimer show ?thesis by auto
next
  case (KillTimer id0 timer)
  with KillTimer_ok [OF timer_inv_map_empty [OF assms(1)]] assms(1) show ?thesis
    by (auto intro: grown_refl)
qed

lemma do_requests_ok:
  assumes "timer_inv gettime C L M D st" "\<forall>r \<in> set rs. request_ok r"
  shows "\<exists>L' M' st'. do_requests gettime rs st = Inr st' \<and> timer_inv gettime C L' M' D st' \<and> grown C L M st L' M' st'"
  using assms
proof (induction rs arbitrary: L M st)
  case Nil
  then show ?case by (auto intro: grown_refl)
next
  case (Cons r rs)
  from do_request_ok [OF Cons.prems(1), of r] Cons.prems(2) obtain L1 M1 st1 where
    1: "do_request gettime r st = Inr st1" "timer_inv gettime C L1 M1 D st1" "grown C L M st L1 M1 st1" by auto
  from Cons.IH [OF 1(2)] Cons.prems(2) obtain L2 M2 st2 where
    2: "do_requests gettime rs st1 = Inr st2" "timer_inv gettime C L2 M2 D st2" "grown C L1 M1 st1 L2 M2 st2" by auto
  from grown_trans [OF 1(3) 2(3)] 1(1) 2 show ?case by auto
qed

section \<open>Callbacks\<close>

text \<open>An event accepted by the monitor, about a node in no list, keeps the invariant.\<close>

lemma timer_inv_observe:
  assumes inv: "timer_inv gettime C L M D st" and e: "observe_life e M = Some M'"
    and M': "\<And>b. b \<noteq> a \<Longrightarrow> M' b = M b" "a \<in> D"
  shows "timer_inv gettime C L M' D (observe e st)"
proof -
  have f: "node (observe e st) = node st" "slot (observe e st) = slot st"
      "due_slot (observe e st) = due_slot st"
    by (simp_all add: observe_def node_def slot_def due_slot_def fun_eq_iff)
  have "wheel_inv L (observe e st)"
    using inv f by (simp add: timer_inv_def wheel_inv_def) (simp add: observe_def)
  moreover have "monitor (trace st @ [e]) Map.empty = Some M'"
    using inv e by (simp add: timer_inv_def nodes_inv_def monitor_append)
  moreover have "dom M' \<subseteq> in_use (s_oTimeNodePool st)"
  proof
    fix b assume b: "b \<in> dom M'"
    have "dom M \<subseteq> in_use (s_oTimeNodePool st)" using inv by (simp add: timer_inv_def nodes_inv_def)
    moreover have "b \<in> dom M" if "b \<noteq> a" using b M'(1) [OF that] by (simp add: domIff)
    ultimately show "b \<in> in_use (s_oTimeNodePool st)"
      using timer_inv_inflight(1) [OF inv M'(2)] by (cases "b = a") auto
  qed
  moreover have "M' b = Some (life_of (node st b))" if b: "b \<in> set (L c)" for b c
  proof -
    have "b \<noteq> a" using timer_inv_listed(4) [OF inv b] M'(2) by blast
    with M'(1) timer_inv_listed(3) [OF inv b] show ?thesis by simp
  qed
  ultimately have "nodes_inv L M' D (observe e st)"
    using inv f unfolding timer_inv_def nodes_inv_def by (simp add: observe_def)
  moreover have "clock_inv gettime C (observe e st)"
    using inv by (auto simp: timer_inv_def clock_inv_def observe_def)
  ultimately show ?thesis using \<open>wheel_inv L (observe e st)\<close> by (simp add: timer_inv_def)
qed

lemma callback_ok:
  assumes inv: "timer_inv gettime C L M D st" and e: "observe_life e M = Some M1"
    and M1: "\<And>b. b \<noteq> a \<Longrightarrow> M1 b = M b" "a \<in> D" and t: "timer \<noteq> 0" "client_ok client"
  shows "\<exists>L' M' st'. callback gettime client timer e st = Inr st' \<and> timer_inv gettime C L' M' D st' \<and>
    grown C L M1 st L' M' st'"
proof -
  from timer_inv_observe [OF inv e M1] have 1: "timer_inv gettime C L M1 D (observe e st)" by simp
  have "\<forall>r \<in> set (client (trace st @ [e])). request_ok r" using t(2) by (simp add: client_ok_def)
  from do_requests_ok [OF 1 this] obtain L' M' st' where
    2: "do_requests gettime (client (trace st @ [e])) (observe e st) = Inr st'"
      "timer_inv gettime C L' M' D st'" "grown C L M1 (observe e st) L' M' st'" by blast
  from 2(3) have "grown C L M1 st L' M' st'"
    by (simp add: grown_def same_frame_def observe_def node_def)
  with 2 t(1) show ?thesis by (auto simp: callback_def)
qed

section \<open>Running one timer\<close>

text \<open>The same slots up to \<open>c0\<close>, and the same manager.\<close>

definition same_below :: "s32 \<Rightarrow> (s32 \<Rightarrow> uaddr list) \<Rightarrow> timers \<Rightarrow> (s32 \<Rightarrow> uaddr list) \<Rightarrow> timers \<Rightarrow> bool" where
  "same_below C L st L' st' \<longleftrightarrow> same_frame st st' \<and>
     (\<forall>c < C. L' c = L c \<and> m_oTimeSlotMap st' c = m_oTimeSlotMap st c)"

lemma same_below_refl [simp]: "same_below C L st L st"
  by (simp add: same_below_def)

lemma same_below_trans:
  "same_below C L st L' st' \<Longrightarrow> same_below C L' st' L'' st'' \<Longrightarrow> same_below C L st L'' st''"
  by (auto simp: same_below_def intro: same_frame_trans)

lemma same_below_mono: "same_below C L st L' st' \<Longrightarrow> c \<le> C \<Longrightarrow> same_below c L st L' st'"
  by (simp add: same_below_def)

lemma grown_same_below: "grown C L M st L' M' st' \<Longrightarrow> same_below C L st L' st'"
  by (simp add: grown_def same_below_def)

lemma callback_node:
  assumes inv: "timer_inv gettime C L M D st" and a: "a \<in> D"
    and e: "observe_life e M = Some (M(a := l))" and t: "timer \<noteq> 0" "client_ok client"
  shows "\<exists>L' M' st'. callback gettime client timer e st = Inr st' \<and> timer_inv gettime C L' M' D st' \<and>
    M' a = l \<and> node st' a = node st a \<and> same_below C L st L' st'"
proof -
  have "\<And>b. b \<noteq> a \<Longrightarrow> (M(a := l)) b = M b" by simp
  from callback_ok [OF inv e this a t] obtain L' M' st' where
    r: "callback gettime client timer e st = Inr st'" "timer_inv gettime C L' M' D st'"
      "grown C L (M(a := l)) st L' M' st'" by blast
  with timer_inv_inflight(1) [OF inv a] have "M' a = l" "node st' a = node st a"
    by (auto simp: grown_def)
  with r grown_same_below [OF r(3)] show ?thesis by blast
qed

lemma timer_inv_set_node:
  assumes inv: "timer_inv gettime C L M D st" and aD: "a \<in> D"
  shows "timer_inv gettime C L M D (set_node a n st)"
proof -
  note a = timer_inv_inflight [OF inv aD]
  have "wheel_inv L (set_node a n st)"
    using wheel_inv_set_node [OF _ a(1)] a(2) inv by (simp add: timer_inv_def)
  moreover have "due_slot (set_node a n st) = due_slot st" by (simp add: due_slot_def fun_eq_iff)
  moreover have "\<And>b c. b \<in> set (L c) \<Longrightarrow> node (set_node a n st) b = node st b" using a by auto
  ultimately show ?thesis
    using inv a(1) unfolding timer_inv_def nodes_inv_def clock_inv_def by (simp add: in_use_valid)
qed

lemma TimeNode_Release_ok:
  assumes inv: "timer_inv gettime C L M {a} st" and Ma: "M a = None"
  shows "\<exists>st'. TimeNode_Release a st = Inr st' \<and> timer_inv gettime C L M {} st' \<and> same_below C L st L st'"
proof -
  note use = timer_inv_inflight [OF inv, of a, simplified]
  let ?s = "set_node a zero_node st"
  have i1: "timer_inv gettime C L M {a} ?s" by (rule timer_inv_set_node [OF inv]) simp
  have w: "pool_inv node_sz (s_oTimeNodePool ?s)" "a \<in> in_use (s_oTimeNodePool ?s)"
    using i1 use(1) by (simp_all add: timer_inv_def wheel_inv_def in_use_valid)
  obtain p where p: "TPool_Recover node_sz a (s_oTimeNodePool ?s) = Inr p" "pool_inv node_sz p"
      "in_use p = in_use (s_oTimeNodePool ?s) - {a}" "\<forall>b. get_unit p b = get_unit (s_oTimeNodePool ?s) b"
    using block_pool.recover_law [OF w] by blast
  let ?t = "?s\<lparr>s_oTimeNodePool := p\<rparr>"
  have f: "node ?t = node ?s" "slot ?t = slot ?s" "due_slot ?t = due_slot ?s"
    using p(4) by (simp_all add: node_def slot_def due_slot_def fun_eq_iff)
  have li: "set (L c) \<subseteq> in_use p" for c using i1 use(2) p(3) by (auto simp: timer_inv_def wheel_inv_def)
  have "wheel_inv L ?t" using i1 f p(2) li unfolding timer_inv_def wheel_inv_def by simp
  moreover have "\<forall>b. b \<in> in_use p \<longleftrightarrow> (\<exists>c. b \<in> set (L c))" "dom M \<subseteq> in_use p"
    using i1 p(3) use(2) Ma by (auto simp: timer_inv_def nodes_inv_def)
  then have "nodes_inv L M {} ?t"
    using i1 f unfolding timer_inv_def nodes_inv_def by simp
  moreover have "clock_inv gettime C ?t" using i1 by (simp add: timer_inv_def clock_inv_def)
  ultimately have "timer_inv gettime C L M {} ?t" by (simp add: timer_inv_def)
  moreover have "TimeNode_Release a st = Inr ?t" using p(1) by (simp add: TimeNode_Release_def)
  ultimately show ?thesis by (auto simp: same_below_def same_frame_def)
qed

text \<open>After the callbacks: the node is either terminated and released, or re-armed in a later slot.\<close>

lemma OnTimer_finish:
  assumes inv: "timer_inv gettime C L M {a} st"
    and n: "node_ok (m_lStartRunTick st) (node st a)" "m_nHitCount (node st a) = h"
    and M: "M a = Some (Life (m_nID (node st a)) (m_pTimer (node st a)) (m_nInterval (node st a))
        (m_nMaxHitCount (node st a)) (m_lNextRunTick (node st a) + m_nInterval (node st a)) (h + 1) True)"
    and due: "m_lNextRunTick (node st a) \<le> lTick" "lTick - m_lStartRunTick st < 2 ^ 31"
    and c0: "c0 = due_slot st (node st a)" "m_nCursor st \<le> c0" "c0 < C" and t: "client_ok client"
  shows "\<exists>L' M' st'.
     bindE (chk_s64 (m_lNextRunTick (node st a) + m_nInterval (node st a))) (\<lambda>nxt.
     bindE (chk_s32 (m_nHitCount (node st a) + 1)) (\<lambda>hit.
     let st = set_node a ((node st a)\<lparr>m_lNextRunTick := nxt, m_nHitCount := hit\<rparr>) st in
     if m_nHitCount (node st a) = m_nMaxHitCount (node st a) \<and> m_nMaxHitCount (node st a) \<noteq> LOOP_FOREVER then
       bindE (callback gettime client (m_pTimer (node st a))
                (OnTerminate a (m_pTimer (node st a)) (m_nID (node st a)) True lTick) st) (\<lambda>st.
       bindE (FindNode (m_nID (node st a)) (m_pTimer (node st a)) True st) (\<lambda>(_, st).
       TimeNode_Release a st))
     else ResetTimeNode a st)) = Inr st' \<and>
     timer_inv gettime C L' M' {} st' \<and> same_below (c0 + 1) L st L' st'"
proof -
  let ?n = "node st a"
  let ?n' = "?n\<lparr>m_lNextRunTick := m_lNextRunTick ?n + m_nInterval ?n, m_nHitCount := m_nHitCount ?n + 1\<rparr>"
  have clk: "20 \<le> m_nTimeScale st" "m_nTimeScale st \<le> 100" "0 \<le> m_lStartRunTick st"
      "m_lStartRunTick st < 2 ^ 63 - 2 ^ 33"
    using inv by (simp_all add: timer_inv_def clock_inv_def)
  have nf: "m_pTimer ?n \<noteq> 0" "100 \<le> m_nInterval ?n" "in_s32 (m_nInterval ?n)" "0 \<le> m_nHitCount ?n"
      "m_nHitCount ?n * 100 \<le> m_lNextRunTick ?n - m_lStartRunTick st" "m_lNextRunTick ?n - m_lStartRunTick st < 2 ^ 32"
    using n(1) by (simp_all add: node_ok_def)
  have chk: "in_s64 (m_lNextRunTick ?n + m_nInterval ?n)" "in_s32 (m_nHitCount ?n + 1)"
    using nf clk by (auto simp: in_s64_def in_s32_def)
  have use: "a \<in> in_use (s_oTimeNodePool st)" using timer_inv_inflight(1) [OF inv] by simp
  let ?s = "set_node a ?n' st"
  have i1: "timer_inv gettime C L M {a} ?s" by (rule timer_inv_set_node [OF inv]) simp
  have sb1: "same_below (c0 + 1) L st L ?s" by (simp add: same_below_def same_frame_def)
  show ?thesis
  proof (cases "m_nHitCount ?n + 1 = m_nMaxHitCount ?n \<and> m_nMaxHitCount ?n \<noteq> LOOP_FOREVER")
    case True
    have e: "observe_life (OnTerminate a (m_pTimer ?n) (m_nID ?n) True lTick) M = Some (M(a := None))"
      using M True n(2) by simp
    from callback_node [OF i1 _ e nf(1) t] obtain L1 M1 s1 where
      1: "callback gettime client (m_pTimer ?n) (OnTerminate a (m_pTimer ?n) (m_nID ?n) True lTick) ?s = Inr s1"
        "timer_inv gettime C L1 M1 {a} s1" "M1 a = None" "same_below C L ?s L1 s1" by blast
    from TimeNode_Release_ok [OF 1(2,3)] obtain s2 where
      2: "TimeNode_Release a s1 = Inr s2" "timer_inv gettime C L1 M1 {} s2" "same_below C L1 s1 L1 s2" by blast
    have "same_below C L ?s L1 s2" using same_below_trans [OF 1(4) 2(3)] .
    then have "same_below (c0 + 1) L st L1 s2"
      using same_below_trans [OF sb1] same_below_mono [of C L ?s L1 s2 "c0 + 1"] c0(3) by simp
    moreover note f = FindNode_none [OF timer_inv_map_empty [OF 1(2)]]
    ultimately show ?thesis using chk True 1(1) 2(1,2) use by (auto simp: Let_def)
  next
    case False
    have nn: "node_ok (m_lStartRunTick ?s) (node ?s a)"
      using n(1) nf due chk False use by (auto simp: node_ok_def in_s32_def LOOP_FOREVER_def)
    have Ma: "M a = Some (life_of (node ?s a))" using M n(2) use nf(4) by (simp add: life_of_def)
    let ?c = "due_slot ?s (node ?s a)"
    have "?c = ((m_lNextRunTick ?n - m_lStartRunTick st + (m_nInterval ?n - m_nTimeScale st)) + m_nTimeScale st)
        div m_nTimeScale st"
      using use by (simp add: due_slot_def algebra_simps)
    also have "\<dots> = (m_lNextRunTick ?n - m_lStartRunTick st + (m_nInterval ?n - m_nTimeScale st)) div m_nTimeScale st + 1"
      by (rule div_add_self2) (use clk in simp)
    finally have next_slot: "?c = (m_lNextRunTick ?n - m_lStartRunTick st + (m_nInterval ?n - m_nTimeScale st)) div m_nTimeScale st + 1" .
    have "c0 \<le> (m_lNextRunTick ?n - m_lStartRunTick st + (m_nInterval ?n - m_nTimeScale st)) div m_nTimeScale st"
      using clk nf(2) unfolding c0(1) due_slot_def by (intro zdiv_mono1) auto
    then have c: "c0 < ?c" "m_nCursor ?s \<le> ?c" using c0(2) next_slot by simp_all
    have "a \<in> {a}" "{a} - {a} = {}" by simp_all
    with ResetTimeNode_ok [OF i1 this(1) nn Ma refl c(2)] obtain s2 where
      2: "ResetTimeNode a ?s = Inr s2" "timer_inv gettime C (L(?c := a # L ?c)) M {} s2" "added ?c a ?s s2" by auto
    have "same_below (c0 + 1) L st (L(?c := a # L ?c)) s2"
      using 2(3) c(1) by (auto simp: same_below_def added_def same_frame_def)
    with 2 chk False use show ?thesis by (auto simp: Let_def)
  qed
qed

lemma OnTimer_ok:
  assumes inv: "timer_inv gettime C L M {a} st"
    and n: "node_ok (m_lStartRunTick st) (node st a)" "M a = Some (life_of (node st a))"
    and due: "m_lNextRunTick (node st a) \<le> lTick" "lTick - m_lStartRunTick st < 2 ^ 31"
    and c0: "c0 = due_slot st (node st a)" "m_nCursor st \<le> c0" "c0 < C" and t: "client_ok client"
  shows "\<exists>L' M' st'. OnTimer gettime client a lTick st = Inr st' \<and> timer_inv gettime C L' M' {} st' \<and>
    same_below (c0 + 1) L st L' st'"
proof -
  let ?n = "node st a"
  let ?life = "Life (m_nID ?n) (m_pTimer ?n) (m_nInterval ?n) (m_nMaxHitCount ?n)"
  have nz: "m_pTimer ?n \<noteq> 0" using n(1) by (simp add: node_ok_def)
  obtain L1 M1 s1 where
    1: "(if 0 = m_nHitCount ?n then callback gettime client (m_pTimer ?n) (OnStart a (m_pTimer ?n) (m_nID ?n) lTick) st
        else Inr st) = Inr s1" "timer_inv gettime C L1 M1 {a} s1"
      "M1 a = Some (?life (m_lNextRunTick ?n) (m_nHitCount ?n) True)" "node s1 a = ?n"
      "same_below C L st L1 s1"
  proof (cases "m_nHitCount ?n = 0")
    case True
    then have "observe_life (OnStart a (m_pTimer ?n) (m_nID ?n) lTick) M =
        Some (M(a \<mapsto> ?life (m_lNextRunTick ?n) (m_nHitCount ?n) True))"
      using n(2) due(1) by (simp add: life_of_def)
    from callback_node [OF inv _ this nz t] True that show ?thesis by auto
  next
    case False
    then show ?thesis using that [of st L M] inv n(2) by (simp add: life_of_def)
  qed
  have "observe_life (OnTime a (m_pTimer ?n) (m_nID ?n) lTick) M1 =
      Some (M1(a \<mapsto> ?life (m_lNextRunTick ?n + m_nInterval ?n) (m_nHitCount ?n + 1) True))"
    using 1(3) due(1) n(1) by (simp add: node_ok_def)
  then obtain L2 M2 s2 where
    2: "callback gettime client (m_pTimer ?n) (OnTime a (m_pTimer ?n) (m_nID ?n) lTick) s1 = Inr s2"
      "timer_inv gettime C L2 M2 {a} s2"
      "M2 a = Some (?life (m_lNextRunTick ?n + m_nInterval ?n) (m_nHitCount ?n + 1) True)"
      "node s2 a = node s1 a" "same_below C L1 s1 L2 s2"
    using callback_node [OF 1(2) _ _ nz t] by blast
  have sb: "same_below C L st L2 s2" by (rule same_below_trans [OF 1(5) 2(5)])
  then have fr: "same_frame st s2" by (simp add: same_below_def)
  have n2: "node s2 a = ?n" using 1(4) 2(4) by simp
  have start: "m_lStartRunTick s2 = m_lStartRunTick st" "m_nCursor s2 = m_nCursor st" using fr by (simp_all add: same_frame_def)
  from OnTimer_finish [OF 2(2), of "m_nHitCount ?n" lTick c0 client] n2 n(1) 2(3) due c0 start
    due_slot_frame [OF fr] t
  obtain L3 M3 s3 where 3: "timer_inv gettime C L3 M3 {} s3" "same_below (c0 + 1) L2 s2 L3 s3"
    and run: "OnTimer gettime client a lTick st = Inr s3"
    unfolding OnTimer_def 1(1) using 2(1) 1(4) by auto
  have "c0 + 1 \<le> C" using c0(3) by simp
  with same_below_trans [OF same_below_mono [OF sb this] 3(2)] 3(1) run show ?thesis by blast
qed

section \<open>Running a slot\<close>

text \<open>Taking the head of the running slot: \<^verbatim>\<open>m_pHead = m_pHead->GetNext()\<close>.\<close>

lemma timer_inv_set_slot:
  assumes inv: "timer_inv gettime C L M D st" and s: "m_oTimeSlotMap st c = Some s"
    and xs: "chain (node st) (m_pHead v) xs" "distinct xs" "set xs \<subseteq> set (L c)"
  shows "timer_inv gettime C (L(c := xs)) M (D \<union> (set (L c) - set xs)) (set_slot s v st)"
proof -
  have w: "wheel_inv L st" using inv by (simp add: timer_inv_def)
  then have "set (L c) \<subseteq> in_use (s_oTimeNodePool st)" by (simp add: wheel_inv_def)
  then have "set xs \<subseteq> in_use (s_oTimeNodePool st)" using xs(3) by blast
  moreover have "\<And>c' a. c' \<noteq> c \<Longrightarrow> a \<in> set (L c') \<Longrightarrow> a \<notin> set xs"
    using w xs(3) by (auto simp: wheel_inv_def)
  ultimately have w': "wheel_inv (L(c := xs)) (set_slot s v st)" by (rule wheel_inv_set_slot [OF w s xs(1,2)])
  moreover have "due_slot (set_slot s v st) = due_slot st" by (simp add: due_slot_def fun_eq_iff)
  moreover have "b \<in> in_use (s_oTimeNodePool st) \<longleftrightarrow> (\<exists>c'. b \<in> set ((L(c := xs)) c')) \<or> b \<in> D \<union> (set (L c) - set xs)" for b
    using inv xs(3) unfolding timer_inv_def nodes_inv_def by (auto split: if_splits)
  moreover have "\<forall>a \<in> D \<union> (set (L c) - set xs). \<forall>c'. a \<notin> set ((L(c := xs)) c')"
    using inv w xs(3) unfolding timer_inv_def nodes_inv_def wheel_inv_def by auto
  moreover have "\<forall>c'. \<forall>a \<in> set ((L(c := xs)) c'). node_ok (m_lStartRunTick st) (node st a) \<and>
      due_slot st (node st a) = c' \<and> M a = Some (life_of (node st a))"
    using timer_inv_listed(1-3) [OF inv] xs(3) by (auto split: if_splits)
  ultimately have "nodes_inv (L(c := xs)) M (D \<union> (set (L c) - set xs)) (set_slot s v st)"
    using inv unfolding timer_inv_def nodes_inv_def by simp
  moreover have "clock_inv gettime C (set_slot s v st)"
    using inv by (simp add: timer_inv_def clock_inv_def)
  ultimately show ?thesis using w' by (simp add: timer_inv_def)
qed

lemma TimeSlot_Run_ok:
  assumes "timer_inv gettime C L M {} st" "m_oTimeSlotMap st c = Some s" "m_nCursor st = c" "c < C"
    and clk: "C * m_nTimeScale st \<le> lTick - m_lStartRunTick st" "lTick - m_lStartRunTick st < 2 ^ 31"
    and t: "client_ok client" and len: "length (L c) = k"
  shows "\<exists>L' M' st'. (\<forall>fuel > k. TimeSlot_Run fuel gettime client s lTick st = Inr st') \<and>
    timer_inv gettime C L' M' {} st' \<and> L' c = [] \<and> same_frame st st' \<and> m_oTimeSlotMap st' c = Some s"
  using assms
proof (induction k arbitrary: L M st)
  case 0
  have ch: "m_pHead (slot st s) = None"
    using wheel_inv_slot(2) [of L st c s] 0 by (simp add: timer_inv_def)
  let ?st = "set_slot s ((slot st s)\<lparr>m_nLen := 0\<rparr>) st"
  have "timer_inv gettime C (L(c := [])) M ({} \<union> (set (L c) - set [])) ?st"
    by (rule timer_inv_set_slot [OF 0(1,2)]) (simp_all add: ch)
  then have "timer_inv gettime C (L(c := [])) M {} ?st" using 0(8) by simp
  moreover have "TimeSlot_Run fuel gettime client s lTick st = Inr ?st" if "fuel > 0" for fuel
    using that ch by (cases fuel) simp_all
  moreover have "(L(c := [])) c = []" "same_frame st ?st" "m_oTimeSlotMap ?st c = Some s"
    using 0(2) by (simp_all add: same_frame_def)
  ultimately show ?case by blast
next
  case (Suc k)
  have w: "wheel_inv L st" using Suc.prems(1) by (simp add: timer_inv_def)
  obtain a ys where ay: "L c = a # ys" using Suc.prems(8) by (cases "L c") auto
  with wheel_inv_slot(2) [OF w Suc.prems(2)] have
    h: "m_pHead (slot st s) = Some a" and ch: "chain (node st) (m_pNext (node st a)) ys" by simp_all
  let ?v = "(slot st s)\<lparr>m_pHead := m_pNext (node st a)\<rparr>" and ?L = "L(c := ys)"
  let ?st = "set_slot s ((slot st s)\<lparr>m_pHead := m_pNext (node st a)\<rparr>) st"
  have dy: "distinct ys" "a \<notin> set ys" using w ay by (auto simp: wheel_inv_def dest: spec [of _ c])
  have "timer_inv gettime C ?L M ({} \<union> (set (L c) - set ys)) ?st"
    by (rule timer_inv_set_slot [OF Suc.prems(1,2)]) (use ch dy ay in auto)
  moreover have "set (L c) - set ys = {a}" using ay dy by auto
  ultimately have i1: "timer_inv gettime C ?L M {a} ?st" by simp
  have al: "a \<in> set (L c)" using ay by simp
  note li = timer_inv_listed [OF Suc.prems(1) al]
  have sc: "20 \<le> m_nTimeScale st" using timer_inv_scale [OF Suc.prems(1)] by simp
  have "m_lNextRunTick (node st a) - m_lStartRunTick st < (c + 1) * m_nTimeScale st"
    using li(2) sc div_less_next [of "m_nTimeScale st"] by (simp add: due_slot_def) fastforce
  moreover have "(c + 1) * m_nTimeScale st \<le> C * m_nTimeScale st"
    using Suc.prems(4) sc by (intro mult_right_mono) auto
  ultimately have due: "m_lNextRunTick (node st a) \<le> lTick" using Suc.prems(5) by linarith
  have ds: "due_slot ?st = due_slot st" by (simp add: due_slot_def fun_eq_iff)
  have c0: "c = due_slot ?st (node ?st a)" "m_nCursor ?st \<le> c" using li(2) ds Suc.prems(3) by simp_all
  have "node_ok (m_lStartRunTick ?st) (node ?st a)" "M a = Some (life_of (node ?st a))"
    "m_lNextRunTick (node ?st a) \<le> lTick" "lTick - m_lStartRunTick ?st < 2 ^ 31"
    using li(1,3) due Suc.prems(6) by simp_all
  from OnTimer_ok [OF i1 this c0 Suc.prems(4) t]
  obtain L1 M1 s1 where
    1: "OnTimer gettime client a lTick ?st = Inr s1" "timer_inv gettime C L1 M1 {} s1" "same_below (c + 1) ?L ?st L1 s1"
    by blast
  have s1: "m_oTimeSlotMap s1 c = Some s" "L1 c = ys" "same_frame ?st s1"
    using 1(3) Suc.prems(2) by (simp_all add: same_below_def)
  have fr: "same_frame st s1" using s1(3) by (simp add: same_frame_def)
  have "length (L1 c) = k" using s1(2) ay Suc.prems(8) by simp
  with Suc.IH [OF 1(2) s1(1) _ Suc.prems(4) _ _ t] fr Suc.prems(3,5,6) obtain L2 M2 s2 where
    2: "\<forall>fuel > k. TimeSlot_Run fuel gettime client s lTick s1 = Inr s2" "timer_inv gettime C L2 M2 {} s2"
      "L2 c = []" "same_frame s1 s2" "m_oTimeSlotMap s2 c = Some s"
    by (auto simp: same_frame_def)
  have "TimeSlot_Run fuel gettime client s lTick st = Inr s2" if long: "fuel > Suc k" for fuel
  proof -
    obtain f where f: "fuel = Suc f" "f > k" using long by (cases fuel) auto
    have "m_byStatus (node st a) = TIMER_STATUS_RUN" using li(1) by (simp add: node_ok_def)
    then show ?thesis using f 2(1) h 1(1) by (simp add: Let_def)
  qed
  then show ?case using 2 same_frame_trans [OF fr 2(4)] by blast
qed

lemma TimeSlot_Release_ok:
  assumes inv: "timer_inv gettime C L M {} st" and c: "m_oTimeSlotMap st c = Some s" "L c = []"
  shows "\<exists>st'. TimeSlot_Release s st = Inr st' \<and> same_frame st st' \<and> m_oTimeSlotMap st' = m_oTimeSlotMap st \<and>
    timer_inv gettime C L M {} (st'\<lparr>m_oTimeSlotMap := (m_oTimeSlotMap st')(c := None)\<rparr>)"
proof -
  let ?P = "\<lambda>s. m_pHead s = None"
  have w: "wheel_inv L st" using inv by (simp add: timer_inv_def)
  have pool: "pool_inv slot_sz (s_oTimeSlotPool st)" "idle_sat ?P (s_oTimeSlotPool st)"
    "in_use (s_oTimeSlotPool st) = ran (m_oTimeSlotMap st)" using w by (simp_all add: wheel_inv_def)
  have su: "s \<in> in_use (s_oTimeSlotPool st)" by (rule wheel_inv_slot(1) [OF w c(1)])
  obtain p where p: "TPool_Recover slot_sz s (put_unit s \<lparr>m_pHead = None, m_nLen = 0\<rparr> (s_oTimeSlotPool st)) = Inr p"
      "pool_inv slot_sz p" "in_use p = in_use (s_oTimeSlotPool st) - {s}" "idle_sat ?P p"
      "\<forall>b. b \<noteq> s \<longrightarrow> get_unit p b = get_unit (s_oTimeSlotPool st) b"
    using clean_pool.reset_recover [OF pool(1) su pool(2), of "\<lparr>m_pHead = None, m_nLen = 0\<rparr>"] by auto
  let ?t = "st\<lparr>s_oTimeSlotPool := p\<rparr>" and ?u = "st\<lparr>s_oTimeSlotPool := p, m_oTimeSlotMap := (m_oTimeSlotMap st)(c := None)\<rparr>"
  have run: "TimeSlot_Release s st = Inr ?t" using p(1) by (simp add: TimeSlot_Release_def set_slot_def)
  have f: "node ?u = node st" "due_slot ?u = due_slot st" by (simp_all add: node_def due_slot_def fun_eq_iff)
  have ne: "s' \<noteq> s" if "m_oTimeSlotMap st c' = Some s'" "c' \<noteq> c" for c' s'
    using wheel_inv_slot(3) [OF w c(1), of c'] that by auto
  have "(\<exists>c'. m_oTimeSlotMap st c' = Some x) \<and> x \<noteq> s \<longleftrightarrow> (\<exists>c'. c' \<noteq> c \<and> m_oTimeSlotMap st c' = Some x)" for x
    using c(1) ne by (metis option.inject)
  then have "in_use p = ran (m_oTimeSlotMap ?u)"
    unfolding p(3) pool(3) ran_def by (auto split: if_splits)
  moreover have "inj_on (m_oTimeSlotMap ?u) (dom (m_oTimeSlotMap ?u))"
    using w by (auto simp: wheel_inv_def inj_on_def)
  moreover have "chain (node ?u) (m_pHead (slot ?u s')) (L c')" if "m_oTimeSlotMap ?u c' = Some s'" for c' s'
  proof -
    from that have m: "c' \<noteq> c" "m_oTimeSlotMap st c' = Some s'" by (auto split: if_splits)
    with ne have "slot ?u s' = slot st s'" using p(5) by (simp add: slot_def)
    with wheel_inv_slot(2) [OF w m(2)] f show ?thesis by simp
  qed
  ultimately have "wheel_inv L ?u" using w p(2,4) c(2) unfolding wheel_inv_def by simp
  moreover have "nodes_inv L M {} ?u" using inv f by (simp add: timer_inv_def nodes_inv_def)
  moreover have "clock_inv gettime C ?u" using inv by (auto simp: timer_inv_def clock_inv_def)
  ultimately have "timer_inv gettime C L M {} ?u" by (simp add: timer_inv_def)
  with run show ?thesis by (auto simp: same_frame_def)
qed

lemma SlotRun_ok:
  assumes inv: "timer_inv gettime C L M {} st" and c: "m_nCursor st < C"
    and clk: "C * m_nTimeScale st \<le> lTick - m_lStartRunTick st" "lTick - m_lStartRunTick st < 2 ^ 31"
    and t: "client_ok client"
  shows "\<exists>N L' M' st'. (\<forall>fuel > N. SlotRun fuel gettime client (m_nCursor st) lTick st = Inr st') \<and>
    timer_inv gettime C L' M' {} st' \<and> same_frame st st' \<and> m_oTimeSlotMap st' (m_nCursor st) = None"
proof (cases "m_oTimeSlotMap st (m_nCursor st)")
  case None
  then show ?thesis using inv by (intro exI [of _ 0] exI [of _ L] exI [of _ M] exI [of _ st]) (simp add: SlotRun_def)
next
  case (Some s)
  from TimeSlot_Run_ok [OF inv Some refl c clk t refl] obtain L1 M1 s1 where
    1: "\<forall>fuel > length (L (m_nCursor st)). TimeSlot_Run fuel gettime client s lTick st = Inr s1"
      "timer_inv gettime C L1 M1 {} s1" "L1 (m_nCursor st) = []" "same_frame st s1"
      "m_oTimeSlotMap s1 (m_nCursor st) = Some s" by blast
  from TimeSlot_Release_ok [OF 1(2,5,3)] obtain s2 where
    2: "TimeSlot_Release s s1 = Inr s2" "same_frame s1 s2" "m_oTimeSlotMap s2 = m_oTimeSlotMap s1"
      "timer_inv gettime C L1 M1 {} (s2\<lparr>m_oTimeSlotMap := (m_oTimeSlotMap s2)(m_nCursor st := None)\<rparr>)"
      (is "timer_inv _ _ _ _ _ ?u") by blast
  have "SlotRun fuel gettime client (m_nCursor st) lTick st = Inr ?u" if "fuel > length (L (m_nCursor st))" for fuel
    using 1(1) 2(1) Some that by (simp add: SlotRun_def)
  moreover have "same_frame st ?u" using same_frame_trans [OF 1(4) 2(2)] by (simp add: same_frame_def)
  moreover have "m_oTimeSlotMap ?u (m_nCursor st) = None" by simp
  ultimately show ?thesis using 2(4) by blast
qed

lemma timer_inv_advance:
  assumes inv: "timer_inv gettime C L M D st" and c: "m_oTimeSlotMap st (m_nCursor st) = None" "m_nCursor st < C"
  shows "timer_inv gettime C L M D (st\<lparr>m_nCursor := m_nCursor st + 1\<rparr>)"
proof -
  let ?u = "st\<lparr>m_nCursor := m_nCursor st + 1\<rparr>"
  have f: "node ?u = node st" "slot ?u = slot st" "due_slot ?u = due_slot st"
    by (simp_all add: node_def slot_def due_slot_def fun_eq_iff)
  have "m_nCursor st + 1 \<le> c'" if "c' \<in> dom (m_oTimeSlotMap st)" for c'
  proof -
    have "m_nCursor st \<le> c'" using inv that by (auto simp: timer_inv_def clock_inv_def)
    moreover have "c' \<noteq> m_nCursor st" using c(1) that by auto
    ultimately show ?thesis by simp
  qed
  then have "clock_inv gettime C ?u" using inv c(2) by (simp add: timer_inv_def clock_inv_def)
  moreover have "wheel_inv L ?u" using inv f by (simp add: timer_inv_def wheel_inv_def)
  moreover have "nodes_inv L M D ?u" using inv f by (simp add: timer_inv_def nodes_inv_def)
  ultimately show ?thesis by (simp add: timer_inv_def)
qed

lemma run_slots_ok:
  assumes "timer_inv gettime C L M {} st" "n = nat (C - m_nCursor st)"
    and "C * m_nTimeScale st \<le> lTick - m_lStartRunTick st" "lTick - m_lStartRunTick st < 2 ^ 31"
    and t: "client_ok client"
  shows "\<exists>N L' M' st'. (\<forall>fuel > N. run_slots n fuel gettime client lTick st = Inr st') \<and>
    timer_inv gettime C L' M' {} st' \<and> m_nCursor st' = C \<and> m_lStartRunTick st' = m_lStartRunTick st \<and>
    m_nTimeScale st' = m_nTimeScale st"
  using assms
proof (induction n arbitrary: L M st)
  case 0
  have "m_nCursor st = C" using 0(1,2) by (auto simp: timer_inv_def clock_inv_def)
  with 0(1) show ?case by (intro exI [of _ 0] exI [of _ L] exI [of _ M] exI [of _ st]) simp
next
  case (Suc n)
  have c: "m_nCursor st < C" using Suc.prems(2) by simp
  from SlotRun_ok [OF Suc.prems(1) c Suc.prems(3,4) t] obtain N1 L1 M1 s1 where
    1: "\<forall>fuel > N1. SlotRun fuel gettime client (m_nCursor st) lTick st = Inr s1" "timer_inv gettime C L1 M1 {} s1"
      "same_frame st s1" "m_oTimeSlotMap s1 (m_nCursor st) = None" by blast
  have cur: "m_nCursor s1 = m_nCursor st" "m_lStartRunTick s1 = m_lStartRunTick st" "m_nTimeScale s1 = m_nTimeScale st"
    using 1(3) by (simp_all add: same_frame_def)
  let ?u = "s1\<lparr>m_nCursor := m_nCursor s1 + 1\<rparr>"
  have i: "timer_inv gettime C L1 M1 {} ?u"
    by (rule timer_inv_advance [OF 1(2)]) (use 1(4) cur c in simp_all)
  have "n = nat (C - m_nCursor ?u)" using Suc.prems(2) cur by simp
  from Suc.IH [OF i this] Suc.prems(3,4) cur t obtain N2 L2 M2 s2 where
    2: "\<forall>fuel > N2. run_slots n fuel gettime client lTick ?u = Inr s2" "timer_inv gettime C L2 M2 {} s2"
      "m_nCursor s2 = C" "m_lStartRunTick s2 = m_lStartRunTick st" "m_nTimeScale s2 = m_nTimeScale st"
    by auto
  have "run_slots (Suc n) fuel gettime client lTick st = Inr s2" if "fuel > max N1 N2" for fuel
    using 1(1) 2(1) that by simp
  with 2 show ?case by blast
qed

section \<open>Processing\<close>

lemma GetTimeMillisecond_inv:
  assumes "timer_inv gettime C L M D st"
  shows "timer_inv gettime C L M D (st\<lparr>reads := Suc (reads st)\<rparr>)"
proof -
  let ?u = "st\<lparr>reads := Suc (reads st)\<rparr>"
  have "node ?u = node st" "slot ?u = slot st" "due_slot ?u = due_slot st"
    by (simp_all add: node_def slot_def due_slot_def fun_eq_iff)
  then have "wheel_inv L ?u" using assms by (simp add: timer_inv_def wheel_inv_def)
  moreover have "nodes_inv L M D ?u"
    using assms \<open>node ?u = node st\<close> \<open>due_slot ?u = due_slot st\<close> by (simp add: timer_inv_def nodes_inv_def)
  moreover have "clock_inv gettime C ?u" using assms by (simp add: timer_inv_def clock_inv_def)
  ultimately show ?thesis by (simp add: timer_inv_def)
qed

text \<open>A clock that has moved on lets the bound \<open>C\<close> grow.\<close>

lemma timer_inv_raise:
  assumes "timer_inv gettime C L M D st" "C \<le> C'"
    "\<forall>k \<ge> reads st. C' * m_nTimeScale st \<le> gettime k - m_lStartRunTick st"
  shows "timer_inv gettime C' L M D st"
  using assms by (auto simp: timer_inv_def clock_inv_def)

lemma Processing_ok:
  assumes inv: "timer_inv gettime (m_nCursor st) L M {} st" and clk: "mono gettime" and t: "client_ok client"
  shows "\<exists>N r L' M' st'. (\<forall>fuel > N. Timermgr_Processing fuel gettime client st = Inr (r, st')) \<and>
    timer_inv gettime (m_nCursor st') L' M' {} st' \<and>
    m_nCursor st' = (gettime (reads st) - m_lStartRunTick st) div m_nTimeScale st \<and>
    m_lStartRunTick st' = m_lStartRunTick st \<and> m_nTimeScale st' = m_nTimeScale st"
proof -
  let ?now = "gettime (reads st)" and ?s = "st\<lparr>reads := Suc (reads st)\<rparr>"
  let ?d = "?now - m_lStartRunTick st" and ?C = "(?now - m_lStartRunTick st) div m_nTimeScale st"
  have ci: "20 \<le> m_nTimeScale st" "0 \<le> m_nCursor st" "0 \<le> m_lStartRunTick st" "m_lStartRunTick st < 2 ^ 63 - 2 ^ 33"
    "m_nCursor st * m_nTimeScale st \<le> ?d" "?d < 2 ^ 31"
    using inv by (auto simp: timer_inv_def clock_inv_def)
  have "0 \<le> m_nCursor st * m_nTimeScale st" using ci(1,2) by simp
  then have d: "0 \<le> ?d" using ci(5) by linarith
  then have rng: "in_s64 ?now" "in_s64 ?d" "in_s32 ?d" using ci(3,4,6) by (simp_all add: in_s64_def in_s32_def)
  have low: "?C * m_nTimeScale st \<le> ?d" using ci(1) div_mult_mod_eq [of ?d "m_nTimeScale st"] pos_mod_sign [of "m_nTimeScale st" ?d] by linarith
  have "m_nCursor st * m_nTimeScale st div m_nTimeScale st \<le> ?C" using ci(1,5) by (intro zdiv_mono1) auto
  then have cc: "m_nCursor st \<le> ?C" using ci(1) by simp
  have later: "?C * m_nTimeScale st \<le> gettime k - m_lStartRunTick st" if "reads st \<le> k" for k
    using monoD [OF clk that] low by linarith
  have i: "timer_inv gettime ?C L M {} ?s"
    by (rule timer_inv_raise [OF GetTimeMillisecond_inv [OF inv] cc]) (use later in simp)
  from run_slots_ok [OF i refl _ _ t, of ?now] low ci(6) obtain N L1 M1 s1 where
    1: "\<forall>fuel > N. run_slots (nat (?C - m_nCursor st)) fuel gettime client ?now ?s = Inr s1"
      "timer_inv gettime ?C L1 M1 {} s1" "m_nCursor s1 = ?C" "m_lStartRunTick s1 = m_lStartRunTick st"
      "m_nTimeScale s1 = m_nTimeScale st" by auto
  let ?r = "to_s64 (gettime (reads s1) - ?now)" and ?t = "s1\<lparr>reads := Suc (reads s1)\<rparr>"
  have "Timermgr_Processing fuel gettime client st = Inr (?r, ?t)" if "fuel > N" for fuel
    using 1(1) that rng d ci(1) by (simp add: Timermgr_Processing_def GetTimeMillisecond_def Let_def)
  moreover have "timer_inv gettime (m_nCursor ?t) L1 M1 {} ?t"
    using GetTimeMillisecond_inv [OF 1(2)] 1(3) by simp
  ultimately show ?thesis using 1 by (intro exI [of _ N] exI [of _ ?r] exI [of _ L1] exI [of _ M1] exI [of _ ?t]) simp
qed

text \<open>A round that returns with some fuel returns the same with more.\<close>

lemma TimeSlot_Run_more:
  "TimeSlot_Run fuel gettime client s lTick st = Inr t \<Longrightarrow> fuel \<le> fuel' \<Longrightarrow>
   TimeSlot_Run fuel' gettime client s lTick st = Inr t"
proof (induction fuel arbitrary: fuel' st)
  case (Suc fuel)
  then obtain f where f: "fuel' = Suc f" "fuel \<le> f" by (cases fuel') auto
  with Suc show ?case by (auto simp: outcome_simps Let_def split: option.splits)
qed simp

lemma SlotRun_more:
  "SlotRun fuel gettime client c lTick st = Inr t \<Longrightarrow> fuel \<le> fuel' \<Longrightarrow>
   SlotRun fuel' gettime client c lTick st = Inr t"
  by (auto simp: SlotRun_def outcome_simps dest: TimeSlot_Run_more split: option.splits)

lemma run_slots_more:
  "run_slots n fuel gettime client lTick st = Inr t \<Longrightarrow> fuel \<le> fuel' \<Longrightarrow>
   run_slots n fuel' gettime client lTick st = Inr t"
proof (induction n arbitrary: st)
  case (Suc n)
  from Suc.prems obtain u where "SlotRun fuel gettime client (m_nCursor st) lTick st = Inr u"
    "run_slots n fuel gettime client lTick (u\<lparr>m_nCursor := m_nCursor u + 1\<rparr>) = Inr t"
    by (auto simp: outcome_simps)
  with Suc SlotRun_more [OF this(1) Suc.prems(2)] show ?case by simp
qed simp

lemma Processing_more:
  "Timermgr_Processing fuel gettime client st = Inr x \<Longrightarrow> fuel \<le> fuel' \<Longrightarrow>
   Timermgr_Processing fuel' gettime client st = Inr x"
  by (auto simp: Timermgr_Processing_def outcome_simps Let_def GetTimeMillisecond_def dest: run_slots_more)

section \<open>Every history of the timer manager\<close>

text \<open>
  Start-up with the default scale, then any sequence of calls from the modules and rounds of
  \<^verbatim>\<open>Processing\<close>, with modules that respect \<open>request_ok\<close>.
\<close>

inductive timer_reach :: "clock \<Rightarrow> client \<Rightarrow> timers \<Rightarrow> bool" for gettime :: clock and client :: client where
  tr_init: "Timermgr_new 20 = Inr st \<Longrightarrow> timer_reach gettime client (snd (Timermgr_Initialize gettime st))"
| tr_request: "timer_reach gettime client st \<Longrightarrow> request_ok r \<Longrightarrow> do_request gettime r st = Inr st' \<Longrightarrow>
    timer_reach gettime client st'"
| tr_process: "timer_reach gettime client st \<Longrightarrow> Timermgr_Processing fuel gettime client st = Inr (r, st') \<Longrightarrow>
    timer_reach gettime client st'"

lemma Timermgr_start_ok:
  assumes clk: "good_clock gettime" and new: "Timermgr_new 20 = Inr st"
  shows "timer_inv gettime 0 (\<lambda>_. []) Map.empty {} (snd (Timermgr_Initialize gettime st))"
proof -
  obtain np sp where pools: "TPool_new node_sz zero_node 64 = Inr np" "TPool_new slot_sz TimeSlot_new 1024 = Inr sp"
      and st: "st = \<lparr>m_lStartRunTick = 0, m_nTimeScale = 20, m_nCursor = 0, m_oTimeSlotMap = Map.empty,
          s_oTimeNodeMap = Map.empty, s_oTimeNodePool = np, s_oTimeSlotPool = sp, reads = 0, trace = []\<rparr>"
    using new by (auto simp: Timermgr_new_def outcome_simps)
  have np: "pool_inv node_sz np" "in_use np = {}" using TPool_new_inv [of node_sz zero_node 64] pools(1) by auto
  have sp: "pool_inv slot_sz sp" "in_use sp = {}" using TPool_new_inv [of slot_sz TimeSlot_new 1024] pools(2) by auto
  have idle: "idle_sat (\<lambda>s. m_pHead s = None) sp"
    by (rule TPool_new_idle [OF _ pools(2)]) (simp add: TimeSlot_new_def)
  have t: "mono gettime" "0 \<le> gettime 0" "gettime 0 < 2 ^ 62" "\<And>k. gettime k < gettime 0 + 2 ^ 31"
    using clk by (simp_all add: good_clock_def)
  then have "\<And>k. gettime 0 \<le> gettime k" "in_s64 (gettime 0)" by (simp_all add: monoD in_s64_def)
  with t have "clock_inv gettime 0 (snd (Timermgr_Initialize gettime st))"
    by (simp add: clock_inv_def Timermgr_Initialize_def GetTimeMillisecond_def st) (smt (verit))
  then show ?thesis
    using np sp idle
    by (simp add: timer_inv_def wheel_inv_def nodes_inv_def Timermgr_Initialize_def GetTimeMillisecond_def st)
qed

lemma timer_reach_inv:
  assumes "timer_reach gettime client st" "good_clock gettime" "client_ok client"
  shows "\<exists>L M. timer_inv gettime (m_nCursor st) L M {} st"
  using assms(1)
proof induction
  case (tr_init st)
  then have "m_nCursor (snd (Timermgr_Initialize gettime st)) = 0"
    by (simp add: Timermgr_Initialize_def GetTimeMillisecond_def)
  with Timermgr_start_ok [OF assms(2) tr_init] show ?case by auto
next
  case (tr_request st r st')
  then obtain L M where "timer_inv gettime (m_nCursor st) L M {} st" by blast
  from do_request_ok [OF this tr_request(2)] tr_request(3) obtain L' M' where
    "timer_inv gettime (m_nCursor st) L' M' {} st'" "grown (m_nCursor st) L M st L' M' st'" by auto
  then show ?case by (auto simp: grown_def same_frame_def)
next
  case (tr_process st fuel r st')
  then obtain L M where "timer_inv gettime (m_nCursor st) L M {} st" by blast
  from Processing_ok [OF this _ assms(3)] assms(2) obtain N r' L' M' st'' where
    p: "\<forall>fuel > N. Timermgr_Processing fuel gettime client st = Inr (r', st'')"
      "timer_inv gettime (m_nCursor st'') L' M' {} st''" by (auto simp: good_clock_def)
  have "Timermgr_Processing (max fuel (Suc N)) gettime client st = Inr (r, st')"
    by (rule Processing_more [OF tr_process(2)]) simp
  with p(1) have "st' = st''" by simp
  with p(2) show ?case by blast
qed

section \<open>A concrete run\<close>

text \<open>One timer, every 100 ms, twice; the clock reads 1000, 1005 and then 1300.\<close>

definition example_clock :: clock where
  "example_clock n = (if n = 0 then 1000 else if n = 1 then 1005 else 1300)"

definition example_client :: client where
  "example_client es = []"

definition timer_example :: "timers outcome" where
  "timer_example =
     bindE (Timermgr_new 20) (\<lambda>st.
     do_request example_clock (StartTimer 7 1 100 0 2) (snd (Timermgr_Initialize example_clock st)))"

lemma example_clock_ok: "good_clock example_clock"
  by (auto simp: good_clock_def example_clock_def mono_def)

lemma example_client_ok: "client_ok example_client"
  by (simp add: client_ok_def example_client_def)

lemma timer_example_runs:
  "\<exists>st. timer_example = Inr st \<and> timer_reach example_clock example_client st"
proof -
  obtain np where "TPool_new node_sz zero_node 64 = Inr np" using TPool_new_inv [of node_sz zero_node 64] by blast
  moreover obtain sp where "TPool_new slot_sz TimeSlot_new 1024 = Inr sp"
    using TPool_new_inv [of slot_sz TimeSlot_new 1024] by blast
  ultimately obtain st where st: "Timermgr_new 20 = Inr st" by (simp add: Timermgr_new_def)
  let ?r = "StartTimer 7 1 100 0 2"
  have r: "request_ok ?r" by (simp add: in_s32_def)
  from do_request_ok [OF Timermgr_start_ok [OF example_clock_ok st] r] obtain st' where
    st': "do_request example_clock ?r (snd (Timermgr_Initialize example_clock st)) = Inr st'" by blast
  from tr_request [OF tr_init [OF st] r st'] st st' show ?thesis by (auto simp: timer_example_def)
qed

lemma timer_reach_monitor:
  assumes "timer_reach gettime client st" "good_clock gettime" "client_ok client"
  shows "\<exists>M. monitor (trace st) Map.empty = Some M \<and> dom M = in_use (s_oTimeNodePool st) \<and>
    (\<forall>a l. M a = Some l \<longrightarrow> 0 < l_loop l \<longrightarrow> l_hits l < l_loop l)"
proof -
  obtain L M where inv: "timer_inv gettime (m_nCursor st) L M {} st" using timer_reach_inv [OF assms] by blast
  then have "dom M \<subseteq> in_use (s_oTimeNodePool st)"
    and use: "\<forall>a. a \<in> in_use (s_oTimeNodePool st) \<longleftrightarrow> (\<exists>c. a \<in> set (L c))"
    and mon: "monitor (trace st) Map.empty = Some M"
    by (simp_all add: timer_inv_def nodes_inv_def)
  moreover have "in_use (s_oTimeNodePool st) \<subseteq> dom M"
    using use timer_inv_listed(3) [OF inv] by blast
  moreover have "l_hits l < l_loop l" if "M a = Some l" "0 < l_loop l" for a l
  proof -
    have "a \<in> dom M" using that(1) by auto
    with calculation(1) use obtain c where "a \<in> set (L c)" by blast
    from timer_inv_listed(1,3) [OF inv this] that show ?thesis by (auto simp: node_ok_def life_of_def)
  qed
  ultimately show ?thesis by blast
qed

section \<open>Properties\<close>



text \<open>
  C27: \<^verbatim>\<open>Processing\<close> always returns, whatever timers the callbacks start, and after a round no
  live timer is late by a whole slot: with the clock at \<open>t\<close>, every one of them is due after
  \<open>t - m_nTimeScale\<close>. So each timer fires in the first round that starts \<open>m_nTimeScale\<close>
  milliseconds after it is due, or earlier.
\<close>

theorem timer_processing_prompt:
  assumes "timer_reach gettime client st" "good_clock gettime" "client_ok client"
  shows "\<exists>N r st' M. (\<forall>fuel > N. Timermgr_Processing fuel gettime client st = Inr (r, st')) \<and>
    monitor (trace st') Map.empty = Some M \<and>
    (\<forall>a l. M a = Some l \<longrightarrow> gettime (reads st) - m_nTimeScale st < l_due l)"
proof -
  obtain L M where inv: "timer_inv gettime (m_nCursor st) L M {} st" using timer_reach_inv [OF assms] by blast
  from Processing_ok [OF inv _ assms(3)] assms(2) obtain N r L' M' st' where
    p: "\<forall>fuel > N. Timermgr_Processing fuel gettime client st = Inr (r, st')"
      "timer_inv gettime (m_nCursor st') L' M' {} st'"
      "m_nCursor st' = (gettime (reads st) - m_lStartRunTick st) div m_nTimeScale st"
      "m_lStartRunTick st' = m_lStartRunTick st" "m_nTimeScale st' = m_nTimeScale st"
    by (auto simp: good_clock_def)
  have "gettime (reads st) - m_nTimeScale st < l_due l" if "M' a = Some l" for a l
  proof -
    have "a \<in> dom M'" using that by auto
    moreover have "dom M' \<subseteq> in_use (s_oTimeNodePool st')"
      and "\<forall>a. a \<in> in_use (s_oTimeNodePool st') \<longleftrightarrow> (\<exists>c. a \<in> set (L' c))"
      using p(2) by (simp_all add: timer_inv_def nodes_inv_def)
    ultimately obtain c where c: "a \<in> set (L' c)" by blast
    note li = timer_inv_listed [OF p(2) c]
    have sc: "0 < m_nTimeScale st" using timer_inv_scale [OF inv] by simp
    have "c \<in> dom (m_oTimeSlotMap st')" using p(2) c by (auto simp: timer_inv_def wheel_inv_def domIff)
    then have "m_nCursor st' \<le> c" using p(2) by (auto simp: timer_inv_def clock_inv_def)
    then have "m_nCursor st' \<le> (l_due l - m_lStartRunTick st) div m_nTimeScale st"
      using li(2,3) that p(4,5) by (simp add: due_slot_def life_of_def)
    then have "m_nCursor st' * m_nTimeScale st \<le> (l_due l - m_lStartRunTick st) div m_nTimeScale st * m_nTimeScale st"
      using sc by (intro mult_right_mono) auto
    also have "\<dots> \<le> l_due l - m_lStartRunTick st"
      using sc div_mult_mod_eq [of "l_due l - m_lStartRunTick st" "m_nTimeScale st"]
        pos_mod_sign [of "m_nTimeScale st" "l_due l - m_lStartRunTick st"] by linarith
    finally show ?thesis
      using div_less_next [OF sc, of "gettime (reads st) - m_lStartRunTick st"] p(3) by (simp add: distrib_right)
  qed
  with p(1,2) show ?thesis by (auto simp: timer_inv_def nodes_inv_def)
qed

theorem timer_processing_prompt_witness:
  "\<exists>st N r st' M. timer_example = Inr st \<and>
     (\<forall>fuel > N. Timermgr_Processing fuel example_clock example_client st = Inr (r, st')) \<and>
     monitor (trace st') Map.empty = Some M"
  using timer_example_runs timer_processing_prompt [OF _ example_clock_ok example_client_ok] by blast

text \<open>
  \<^verbatim>\<open>KillTimer\<close> does nothing: in every reachable state it returns true and leaves the whole
  state as it was, since no code ever enters a node in \<^verbatim>\<open>s_oTimeNodeMap\<close>; so a killed timer
  keeps firing, and starting a timer again under the same id leaves the old one running.
\<close>

theorem timer_kill_ignored:
  assumes "timer_reach gettime client st" "good_clock gettime" "client_ok client"
  shows "Timermgr_KillTimer id0 timer st = Inr (True, st) \<and> FindNode id0 timer True st = Inr (None, st)"
  using timer_reach_inv [OF assms] KillTimer_ok FindNode_none timer_inv_map_empty by blast

theorem timer_kill_ignored_witness:
  "\<exists>st. timer_example = Inr st \<and> Timermgr_KillTimer 7 1 st = Inr (True, st)"
  using timer_example_runs timer_kill_ignored [OF _ example_clock_ok example_client_ok] by blast

text \<open>
  C39: The elapsed time is narrowed to 32 bits: from \<open>2 ^ 31\<close> milliseconds (24.8 days) after the
  start until \<open>2 ^ 32\<close>, \<^verbatim>\<open>Processing\<close> runs no timer at all; it only reads the clock.
\<close>

theorem timer_stalls_after_24_days:
  assumes "0 \<le> m_nCursor st" "0 < m_nTimeScale st" "0 \<le> m_lStartRunTick st" "gettime (reads st) < 2 ^ 63"
    and "2 ^ 31 \<le> gettime (reads st) - m_lStartRunTick st" "gettime (reads st) - m_lStartRunTick st < 2 ^ 32"
  shows "\<exists>r. Timermgr_Processing fuel gettime client st = Inr (r, st\<lparr>reads := Suc (Suc (reads st))\<rparr>)"
proof -
  let ?d = "gettime (reads st) - m_lStartRunTick st"
  have rng: "in_s64 (gettime (reads st))" "in_s64 ?d" using assms by (simp_all add: in_s64_def)
  have "(?d + 2 ^ 31) mod 2 ^ 32 = (?d + 2 ^ 31 - 2 ^ 32) mod 2 ^ 32"
    by (metis minus_mod_self2)
  also have "\<dots> = ?d + 2 ^ 31 - 2 ^ 32" using assms(5,6) by (intro mod_pos_pos_trivial) auto
  finally have "to_s32 ?d < 0" using assms(6) by (simp add: to_s32_def)
  then have "to_s32 ?d sdiv m_nTimeScale st \<le> 0"
    using assms(2) pos_imp_zdiv_nonneg_iff [OF assms(2), of "- to_s32 ?d"]
    by (simp add: signed_divide_int_def sgn_if)
  then have "nat (to_s32 ?d sdiv m_nTimeScale st - m_nCursor st) = 0" using assms(1) by simp
  then show ?thesis
    using rng assms(2) by (simp add: Timermgr_Processing_def GetTimeMillisecond_def div_s64_def Let_def)
qed

theorem timer_stalls_after_24_days_witness:
  "\<exists>st r. Timermgr_new 20 = Inr st \<and>
     Timermgr_Processing 9 (\<lambda>_. 2 ^ 31) example_client st = Inr (r, st\<lparr>reads := Suc (Suc (reads st))\<rparr>)"
proof -
  obtain np where "TPool_new node_sz zero_node 64 = Inr np" using TPool_new_inv [of node_sz zero_node 64] by blast
  moreover obtain sp where "TPool_new slot_sz TimeSlot_new 1024 = Inr sp"
    using TPool_new_inv [of slot_sz TimeSlot_new 1024] by blast
  ultimately obtain st where st: "Timermgr_new 20 = Inr st" "m_nCursor st = 0" "m_nTimeScale st = 20" "m_lStartRunTick st = 0"
    by (auto simp: Timermgr_new_def)
  from timer_stalls_after_24_days [of st "\<lambda>_. 2 ^ 31" 9 example_client] st show ?thesis by auto
qed

end
