(* ===== verification/Bytes.thy ===== *)
theory Bytes
  imports Prelude
begin

text \<open>
  The in-memory representation of integers that the program copies in and out of its byte
  buffers with \<^verbatim>\<open>memcpy\<close>: two's complement, little-endian (x86-64). A \<^verbatim>\<open>double\<close> is its
  64-bit pattern.
\<close>

fun nat_bytes :: "nat \<Rightarrow> nat \<Rightarrow> byte list" where
  "nat_bytes 0 v = []"
| "nat_bytes (Suc n) v = of_nat (v mod 256) # nat_bytes n (v div 256)"

fun bytes_nat :: "byte list \<Rightarrow> nat" where
  "bytes_nat [] = 0"
| "bytes_nat (b # bs) = unat b + 256 * bytes_nat bs"

lemma length_nat_bytes [simp]: "length (nat_bytes n v) = n"
  by (induction n v rule: nat_bytes.induct) simp_all

lemma bytes_nat_bytes: "bytes_nat (nat_bytes n v) = v mod 256 ^ n"
proof (induction n v rule: nat_bytes.induct)
  case (2 n v)
  have "unat (of_nat (v mod 256) :: byte) = v mod 256"
    by (simp add: unat_of_nat)
  with 2 show ?case by (simp add: mod_mult2_eq)
qed simp

lemma bytes_nat_less: "bytes_nat bs < 256 ^ length bs"
proof (induction bs)
  case (Cons b bs)
  have "unat b < 2 ^ LENGTH(8)" by (rule unsigned_less)
  then have "unat b < 256" by simp
  with Cons show ?case by simp
qed simp

definition word_bytes :: "nat \<Rightarrow> 'a::len word \<Rightarrow> byte list" where
  "word_bytes n w = nat_bytes n (unat w)"

definition bytes_word :: "byte list \<Rightarrow> 'a::len word" where
  "bytes_word bs = of_nat (bytes_nat bs)"

lemma length_word_bytes [simp]: "length (word_bytes n w) = n"
  by (simp add: word_bytes_def)

lemma bytes_word_bytes:
  assumes "8 * n = LENGTH('a)"
  shows "bytes_word (word_bytes n w) = (w :: 'a::len word)"
proof -
  have "(256 :: nat) ^ n = 2 ^ LENGTH('a)" unfolding assms [symmetric] by (simp add: power_mult)
  moreover have "unat w < 2 ^ LENGTH('a)" by simp
  ultimately show ?thesis by (simp add: bytes_word_def word_bytes_def bytes_nat_bytes)
qed

lemma nat_bytes_bytes: "nat_bytes (length bs) (bytes_nat bs) = bs"
proof (induction bs)
  case (Cons b bs)
  have "unat b < 2 ^ LENGTH(8)" by (rule unsigned_less)
  then have "unat b < 256" by simp
  then have "(unat b + 256 * bytes_nat bs) mod 256 = unat b" "(unat b + 256 * bytes_nat bs) div 256 = bytes_nat bs"
    by simp_all
  with Cons show ?case by simp
qed simp

lemma word_bytes_bytes:
  assumes "8 * length bs = LENGTH('a)"
  shows "word_bytes (length bs) (bytes_word bs :: 'a::len word) = bs"
proof -
  have "(256 :: nat) ^ length bs = 2 ^ LENGTH('a)" unfolding assms [symmetric] by (simp add: power_mult)
  then have "bytes_nat bs < 2 ^ LENGTH('a)" using bytes_nat_less [of bs] by simp
  then have "unat (bytes_word bs :: 'a word) = bytes_nat bs" by (simp add: bytes_word_def unat_of_nat)
  then show ?thesis by (simp add: word_bytes_def nat_bytes_bytes)
qed

text \<open>A signed 32-bit read.\<close>

definition bytes_s32 :: "byte list \<Rightarrow> s32" where
  "bytes_s32 bs = sint (bytes_word bs :: 32 word)"

definition s32_bytes :: "s32 \<Rightarrow> byte list" where
  "s32_bytes v = word_bytes 4 (word_of_int v :: 32 word)"

lemma length_s32_bytes [simp]: "length (s32_bytes v) = 4"
  by (simp add: s32_bytes_def)

lemma bytes_s32_bytes [simp]: "in_s32 v \<Longrightarrow> bytes_s32 (s32_bytes v) = v"
  by (simp add: bytes_s32_def s32_bytes_def bytes_word_bytes in_s32_def signed_take_bit_int_eq_self sint_sbintrunc')

lemma in_s32_bytes_s32: "in_s32 (bytes_s32 bs)"
  using sint_greater_eq [of "bytes_word bs :: 32 word"] sint_less [of "bytes_word bs :: 32 word"]
  by (simp add: bytes_s32_def in_s32_def)

text \<open>Characters as bytes.\<close>

definition chars_bytes :: "string \<Rightarrow> byte list" where
  "chars_bytes cs = map (\<lambda>c. of_nat (of_char c)) cs"

definition bytes_chars :: "byte list \<Rightarrow> string" where
  "bytes_chars bs = map (\<lambda>b. char_of (unat b)) bs"

lemma length_chars_bytes [simp]: "length (chars_bytes cs) = length cs"
  by (simp add: chars_bytes_def)

lemma bytes_chars_bytes [simp]: "bytes_chars (chars_bytes cs) = cs"
proof -
  have "char_of (unat (of_nat (of_char c) :: byte)) = c" for c :: char
    by (simp add: unat_of_nat)
  then show ?thesis by (simp add: bytes_chars_def chars_bytes_def map_idI)
qed

end
