(* ===== verification/Args.thy ===== *)
theory Args
  imports Stream Bytes
begin

text \<open>
  src/Public/CData.h and CArgs.h: a tagged value and the packer that appends such values to a
  byte stream (\<^verbatim>\<open><<\<close>) and takes them off again (\<^verbatim>\<open>>>\<close>). The union of \<^verbatim>\<open>CData\<close> with its type
  tag is a datatype; integers are words of their width, a \<^verbatim>\<open>double\<close> its bit pattern, the
  string pointer an optional string.
\<close>

section \<open>CData\<close>

datatype cdata =
    DATA_TYPE_INVALID
  | DATA_TYPE_S8 "8 word"
  | DATA_TYPE_S16 "16 word"
  | DATA_TYPE_S32 "32 word"
  | DATA_TYPE_S64 "64 word"
  | DATA_TYPE_DOUBLE "64 word"
  | DATA_TYPE_STRING "string option"
  | DATA_TYPE_BLOB
  | OTHER_TYPE byte

fun type_code :: "cdata \<Rightarrow> byte" where
  "type_code DATA_TYPE_INVALID = 0"
| "type_code (DATA_TYPE_S8 v) = 1"
| "type_code (DATA_TYPE_S16 v) = 2"
| "type_code (DATA_TYPE_S32 v) = 3"
| "type_code (DATA_TYPE_S64 v) = 4"
| "type_code (DATA_TYPE_DOUBLE v) = 5"
| "type_code (DATA_TYPE_STRING v) = 6"
| "type_code DATA_TYPE_BLOB = 7"
| "type_code (OTHER_TYPE b) = b"

definition GetDataType :: "string \<Rightarrow> byte" where
  "GetDataType szDataTypeName =
     (case map_of [(''s8'', 1), (''s16'', 2), (''s32'', 3), (''s64'', 4), (''double'', 5),
                   (''string'', 6), (''blob'', 7)] szDataTypeName of
        Some t \<Rightarrow> t | None \<Rightarrow> 0)"

definition GetDataLength :: "byte \<Rightarrow> nat" where
  "GetDataLength t =
     (if t = 1 then 1 else if t = 2 then 2 else if t = 3 then 4 else if t = 4 then 8
      else if t = 5 then 8 else 0)"

definition CData_new :: cdata where
  "CData_new = DATA_TYPE_INVALID"

text \<open>\<open>nLen\<close> is the size of the memory at \<^verbatim>\<open>pMem\<close>.\<close>

definition SetDataToMem :: "nat \<Rightarrow> cdata \<Rightarrow> byte list outcome" where
  "SetDataToMem nLen d =
     (let mem = replicate nLen 0 in
      case d of
        DATA_TYPE_S8 v \<Rightarrow> SafeMemcpy mem 0 nLen (word_bytes 1 v) 1
      | DATA_TYPE_S16 v \<Rightarrow> SafeMemcpy mem 0 nLen (word_bytes 2 v) 2
      | DATA_TYPE_S32 v \<Rightarrow> SafeMemcpy mem 0 nLen (word_bytes 4 v) 4
      | DATA_TYPE_S64 v \<Rightarrow> SafeMemcpy mem 0 nLen (word_bytes 8 v) 8
      | DATA_TYPE_DOUBLE v \<Rightarrow> SafeMemcpy mem 0 nLen (word_bytes 8 v) 8
      | DATA_TYPE_STRING None \<Rightarrow> Inl NullPointer
      | DATA_TYPE_STRING (Some str) \<Rightarrow> SafeMemcpy mem 0 nLen (chars_bytes str @ [0]) (length str)
      | _ \<Rightarrow> Inr mem)"

definition GetDataSize :: "cdata \<Rightarrow> nat outcome" where
  "GetDataSize d =
     (case d of
        DATA_TYPE_STRING None \<Rightarrow> Inl NullPointer
      | DATA_TYPE_STRING (Some str) \<Rightarrow> Inr (8 + length str + 1)
      | DATA_TYPE_INVALID \<Rightarrow> Inr 0 | DATA_TYPE_BLOB \<Rightarrow> Inr 0 | OTHER_TYPE b \<Rightarrow> Inr 0
      | _ \<Rightarrow> Inr (GetDataLength (type_code d) + 1))"

fun clear_string :: "cdata \<Rightarrow> cdata" where
  "clear_string (DATA_TYPE_STRING s) = DATA_TYPE_STRING None"
| "clear_string d = d"

text \<open>\<^verbatim>\<open>strlen\<close>: up to the terminator; a null pointer is undefined.\<close>

definition SetString :: "string option \<Rightarrow> cdata \<Rightarrow> cdata outcome" where
  "SetString szStrValue d =
     (case szStrValue of None \<Rightarrow> Inl NullPointer
      | Some s \<Rightarrow> Inr (DATA_TYPE_STRING (Some (takeWhile (\<lambda>c. c \<noteq> NUL) s))))"

definition GetString :: "cdata \<Rightarrow> string \<Rightarrow> string outcome" where
  "GetString d out =
     (case d of DATA_TYPE_STRING None \<Rightarrow> Inl NullPointer
      | DATA_TYPE_STRING (Some s) \<Rightarrow> Inr s
      | _ \<Rightarrow> Inr out)"

text \<open>The setters replace the value; the getters write their argument when the type matches.\<close>

definition SetS8 :: "8 word \<Rightarrow> cdata \<Rightarrow> cdata" where "SetS8 v d = DATA_TYPE_S8 v"
definition SetS16 :: "16 word \<Rightarrow> cdata \<Rightarrow> cdata" where "SetS16 v d = DATA_TYPE_S16 v"
definition SetS32 :: "32 word \<Rightarrow> cdata \<Rightarrow> cdata" where "SetS32 v d = DATA_TYPE_S32 v"
definition SetS64 :: "64 word \<Rightarrow> cdata \<Rightarrow> cdata" where "SetS64 v d = DATA_TYPE_S64 v"
definition SetDouble :: "64 word \<Rightarrow> cdata \<Rightarrow> cdata" where "SetDouble v d = DATA_TYPE_DOUBLE v"

definition GetS8 :: "cdata \<Rightarrow> 8 word \<Rightarrow> 8 word" where
  "GetS8 d out = (case d of DATA_TYPE_S8 v \<Rightarrow> v | _ \<Rightarrow> out)"

definition GetS16 :: "cdata \<Rightarrow> 16 word \<Rightarrow> 16 word" where
  "GetS16 d out = (case d of DATA_TYPE_S16 v \<Rightarrow> v | _ \<Rightarrow> out)"

text \<open>
  \<^verbatim>\<open>GetS32(s32& s16Value)\<close>: its parameter is misnamed, so \<^verbatim>\<open>s32Value = this->s32Value\<close> assigns
  the member to itself and the caller's variable keeps its value.
\<close>

definition GetS32 :: "cdata \<Rightarrow> 32 word \<Rightarrow> 32 word" where
  "GetS32 d out = out"

definition GetS64 :: "cdata \<Rightarrow> 64 word \<Rightarrow> 64 word" where
  "GetS64 d out = (case d of DATA_TYPE_S64 v \<Rightarrow> v | _ \<Rightarrow> out)"

definition GetDouble :: "cdata \<Rightarrow> 64 word \<Rightarrow> 64 word" where
  "GetDouble d out = (case d of DATA_TYPE_DOUBLE v \<Rightarrow> v | _ \<Rightarrow> out)"

text \<open>\<^verbatim>\<open>SetValue\<close> for an integer argument; \<open>to_double\<close> is the FPU's conversion.\<close>

definition SetValue :: "(int \<Rightarrow> 64 word) \<Rightarrow> int \<Rightarrow> cdata \<Rightarrow> cdata" where
  "SetValue to_double v d =
     (case clear_string d of
        DATA_TYPE_S8 _ \<Rightarrow> DATA_TYPE_S8 (word_of_int v)
      | DATA_TYPE_S16 _ \<Rightarrow> DATA_TYPE_S16 (word_of_int v)
      | DATA_TYPE_S32 _ \<Rightarrow> DATA_TYPE_S32 (word_of_int v)
      | DATA_TYPE_S64 _ \<Rightarrow> DATA_TYPE_S64 (word_of_int v)
      | DATA_TYPE_DOUBLE _ \<Rightarrow> DATA_TYPE_DOUBLE (to_double v)
      | d' \<Rightarrow> d')"

section \<open>CArgs\<close>

record cargs =
  args_stream :: tstream
  m_nDataNum :: u64

definition CArgs_new :: cargs where
  "CArgs_new = \<lparr>args_stream = TStream_new 1024, m_nDataNum = 0\<rparr>"

definition CArgs_clear :: "cargs \<Rightarrow> cargs outcome" where
  "CArgs_clear a = bindE (TStream_clear 1024 (args_stream a)) (\<lambda>s. Inr \<lparr>args_stream = s, m_nDataNum = 0\<rparr>)"

definition put_payload :: "cdata \<Rightarrow> tstream \<Rightarrow> tstream outcome" where
  "put_payload d s =
     (case d of
        DATA_TYPE_S8 v \<Rightarrow> TStream_in 1024 (word_bytes 1 v) 1 s
      | DATA_TYPE_S16 v \<Rightarrow> TStream_in 1024 (word_bytes 2 v) 2 s
      | DATA_TYPE_S32 v \<Rightarrow> TStream_in 1024 (word_bytes 4 v) 4 s
      | DATA_TYPE_S64 v \<Rightarrow> TStream_in 1024 (word_bytes 8 v) 8 s
      | DATA_TYPE_DOUBLE v \<Rightarrow> TStream_in 1024 (word_bytes 8 v) 8 s
      | DATA_TYPE_STRING None \<Rightarrow> Inl NullPointer
      | DATA_TYPE_STRING (Some str) \<Rightarrow>
          bindE (TStream_in 1024 (word_bytes 8 (of_nat (length str) :: u64)) 8 s) (\<lambda>s.
          TStream_in 1024 (chars_bytes str @ [0]) (to_s32 (int (length str))) s)
      | _ \<Rightarrow> Inr s)"

text \<open>\<^verbatim>\<open>operator<<\<close>; the type is compared as a signed char.\<close>

definition CArgs_push :: "cdata \<Rightarrow> cargs \<Rightarrow> cargs outcome" where
  "CArgs_push d a =
     (if sint (type_code d) < 1 \<or> sint (type_code d) > 6 then Inr a
      else
        bindE (TStream_in 1024 [type_code d] 1 (args_stream a)) (\<lambda>s.
        bindE (put_payload d s) (\<lambda>s.
        Inr \<lparr>args_stream = s, m_nDataNum = m_nDataNum a + 1\<rparr>)))"

text \<open>\<^verbatim>\<open>SafeMemcpy(&v, n, buff(), n); out(n);\<close>\<close>

definition read_out :: "nat \<Rightarrow> tstream \<Rightarrow> (byte list \<times> tstream) outcome" where
  "read_out n s =
     bindE (SafeMemcpy (replicate n 0) 0 n (TStream_buff s) n) (\<lambda>bs.
     bindE (TStream_out (int n) s) (\<lambda>s. Inr (bs, s)))"

definition take_payload :: "byte \<Rightarrow> tstream \<Rightarrow> (cdata \<times> tstream) outcome" where
  "take_payload t s =
     (if t = 1 then bindE (read_out 1 s) (\<lambda>(bs, s). Inr (DATA_TYPE_S8 (bytes_word bs), s))
      else if t = 2 then bindE (read_out 2 s) (\<lambda>(bs, s). Inr (DATA_TYPE_S16 (bytes_word bs), s))
      else if t = 3 then bindE (read_out 4 s) (\<lambda>(bs, s). Inr (DATA_TYPE_S32 (bytes_word bs), s))
      else if t = 4 then bindE (read_out 8 s) (\<lambda>(bs, s). Inr (DATA_TYPE_S64 (bytes_word bs), s))
      else if t = 5 then bindE (read_out 8 s) (\<lambda>(bs, s). Inr (DATA_TYPE_DOUBLE (bytes_word bs), s))
      else if t = 6 then
        bindE (read_out 8 s) (\<lambda>(bs, s).
          let nStrLen = unat (bytes_word bs :: u64) in
          if nStrLen \<le> length (TStream_buff s) then
            bindE (TStream_out (to_s32 (int nStrLen)) s) (\<lambda>s'.
              Inr (DATA_TYPE_STRING (Some (bytes_chars (take nStrLen (TStream_buff s)))), s'))
          else Inl OutOfBounds)
      else Inr (if t = 0 then DATA_TYPE_INVALID else if t = 7 then DATA_TYPE_BLOB else OTHER_TYPE t, s))"

text \<open>\<^verbatim>\<open>operator>>\<close>\<close>

definition CArgs_pop :: "cargs \<Rightarrow> (cdata \<times> cargs) outcome" where
  "CArgs_pop a =
     bindE (read_out 1 (args_stream a)) (\<lambda>(bs, s).
     bindE (take_payload (hd bs) s) (\<lambda>(d, s).
     Inr (d, \<lparr>args_stream = s, m_nDataNum = m_nDataNum a - 1\<rparr>)))"

definition CArgs_size :: "cargs \<Rightarrow> nat" where
  "CArgs_size a = to_size_t (TStream_size (args_stream a))"

definition GetDataNum :: "cargs \<Rightarrow> u64" where
  "GetDataNum a = m_nDataNum a"

definition IsEmpty :: "cargs \<Rightarrow> bool" where
  "IsEmpty a \<longleftrightarrow> m_nDataNum a = 0"

section \<open>The wire format\<close>

fun packable :: "cdata \<Rightarrow> bool" where
  "packable (DATA_TYPE_S8 v) = True"
| "packable (DATA_TYPE_S16 v) = True"
| "packable (DATA_TYPE_S32 v) = True"
| "packable (DATA_TYPE_S64 v) = True"
| "packable (DATA_TYPE_DOUBLE v) = True"
| "packable (DATA_TYPE_STRING s) = (s \<noteq> None)"
| "packable _ = False"

text \<open>What a value looks like in the buffer.\<close>

fun payload :: "cdata \<Rightarrow> byte list" where
  "payload (DATA_TYPE_S8 v) = word_bytes 1 v"
| "payload (DATA_TYPE_S16 v) = word_bytes 2 v"
| "payload (DATA_TYPE_S32 v) = word_bytes 4 v"
| "payload (DATA_TYPE_S64 v) = word_bytes 8 v"
| "payload (DATA_TYPE_DOUBLE v) = word_bytes 8 v"
| "payload (DATA_TYPE_STRING (Some s)) = word_bytes 8 (of_nat (length s) :: u64) @ chars_bytes s"
| "payload _ = []"

definition wire :: "cdata \<Rightarrow> byte list" where
  "wire d = type_code d # payload d"

lemma packable_code: "packable d \<Longrightarrow> \<not> (sint (type_code d) < 1 \<or> sint (type_code d) > 6)"
  by (cases d) simp_all

lemma GetDataSize_wire: "packable d \<Longrightarrow> GetDataSize d = Inr (length (wire d))"
  by (cases d) (auto simp: GetDataSize_def GetDataLength_def wire_def)

definition args_ok :: "s32 \<Rightarrow> cargs \<Rightarrow> bool" where
  "args_ok B a \<longleftrightarrow> stream_inv 1024 (args_stream a) \<and> m_read (args_stream a) = 0 \<and> m_max (args_stream a) \<le> B"

lemma in_bytes:
  assumes "stream_inv 1024 s" "m_read s = 0" "m_max s \<le> B" "length (pending s) + n + 1024 \<le> nat B" "B < 2 ^ 31 - 1024"
    "n \<le> length src"
  shows "\<exists>t. TStream_in 1024 src (int n) s = Inr t \<and> stream_inv 1024 t \<and> m_read t = 0 \<and> m_max t \<le> B \<and>
    pending t = pending s @ take n src"
proof -
  have "0 \<le> TStream_size s" using assms(1) by (simp add: stream_inv_def TStream_size_def)
  then have "TStream_size s + int n + 1024 \<le> B"
    using length_pending [OF assms(1)] assms(4) by linarith
  with TStream_in_fresh [of 1024 s "int n" src B] assms show ?thesis by simp
qed

lemma put_payload_ok:
  assumes "packable d" "stream_inv 1024 s" "m_read s = 0" "m_max s \<le> B"
    "length (pending s) + length (payload d) + 1024 \<le> nat B" "B < 2 ^ 31 - 1024"
  shows "\<exists>t. put_payload d s = Inr t \<and> stream_inv 1024 t \<and> m_read t = 0 \<and> m_max t \<le> B \<and>
    pending t = pending s @ payload d"
proof (cases "\<exists>str. d = DATA_TYPE_STRING (Some str)")
  case True
  then obtain str where d: "d = DATA_TYPE_STRING (Some str)" by blast
  let ?len = "word_bytes 8 (of_nat (length str) :: u64)"
  from in_bytes [OF assms(2-4) _ assms(6), of 8 ?len] assms(5) d obtain s1 where
    1: "TStream_in 1024 ?len 8 s = Inr s1" "stream_inv 1024 s1" "m_read s1 = 0" "m_max s1 \<le> B"
      "pending s1 = pending s @ ?len" by auto
  have "length (pending s1) + length str + 1024 \<le> nat B" using 1(5) assms(5) d by simp
  from in_bytes [OF 1(2-4) this assms(6), of "chars_bytes str @ [0]"] obtain s2 where
    2: "TStream_in 1024 (chars_bytes str @ [0]) (int (length str)) s1 = Inr s2" "stream_inv 1024 s2" "m_read s2 = 0"
      "m_max s2 \<le> B" "pending s2 = pending s1 @ chars_bytes str" by auto
  have "in_s32 (int (length str))" using assms(5,6) d by (simp add: in_s32_def)
  then show ?thesis using 1(1,5) 2 d by (simp add: put_payload_def)
next
  case False
  have "put_payload d s = TStream_in 1024 (payload d) (int (length (payload d))) s"
    using assms(1) False by (cases d) (auto simp: put_payload_def)
  then show ?thesis using in_bytes [OF assms(2-6), of "payload d"] by simp
qed

lemma CArgs_push_ok:
  assumes "packable d" "args_ok B a" "length (pending (args_stream a)) + length (wire d) + 1024 \<le> nat B" "B < 2 ^ 31 - 1024"
  shows "\<exists>b. CArgs_push d a = Inr b \<and> args_ok B b \<and> pending (args_stream b) = pending (args_stream a) @ wire d \<and>
    m_nDataNum b = m_nDataNum a + 1"
proof -
  have a: "stream_inv 1024 (args_stream a)" "m_read (args_stream a) = 0" "m_max (args_stream a) \<le> B"
    using assms(2) by (simp_all add: args_ok_def)
  from in_bytes [OF a _ assms(4), of 1 "[type_code d]"] assms(3) obtain s1 where
    1: "TStream_in 1024 [type_code d] 1 (args_stream a) = Inr s1" "stream_inv 1024 s1" "m_read s1 = 0" "m_max s1 \<le> B"
      "pending s1 = pending (args_stream a) @ [type_code d]" by (auto simp: wire_def)
  have "length (pending s1) + length (payload d) + 1024 \<le> nat B" using 1(5) assms(3) by (simp add: wire_def)
  from put_payload_ok [OF assms(1) 1(2-4) this assms(4)] obtain s2 where
    "put_payload d s1 = Inr s2" "stream_inv 1024 s2" "m_read s2 = 0" "m_max s2 \<le> B"
    "pending s2 = pending s1 @ payload d" by blast
  with 1 packable_code [OF assms(1)] show ?thesis by (simp add: CArgs_push_def args_ok_def wire_def)
qed

section \<open>Taking values off\<close>

lemma read_out_ok:
  assumes "stream_inv 1024 s" "pending s = xs @ ys" "length xs = n"
  shows "\<exists>t. read_out n s = Inr (xs, t) \<and> stream_inv 1024 t \<and> pending t = ys"
proof -
  have "n \<le> length (pending s)" using assms(2,3) by simp
  note b = take_buff [OF this]
  from TStream_out_law [OF assms(1), of n] assms(2,3) obtain t where
    "TStream_out (int n) s = Inr t" "stream_inv 1024 t" "pending t = ys" by auto
  with b assms(2,3) show ?thesis by (simp add: read_out_def blit_def)
qed

lemma take_payload_ok:
  assumes "packable d" "stream_inv 1024 s" "pending s = payload d @ rest" "length (payload d) < 2 ^ 31"
  shows "\<exists>t. take_payload (type_code d) s = Inr (d, t) \<and> stream_inv 1024 t \<and> pending t = rest"
proof (cases "\<exists>str. d = DATA_TYPE_STRING (Some str)")
  case True
  then obtain str where d: "d = DATA_TYPE_STRING (Some str)" by blast
  let ?len = "word_bytes 8 (of_nat (length str) :: u64)"
  from read_out_ok [OF assms(2), of ?len "chars_bytes str @ rest" 8] assms(3) d obtain s1 where
    1: "read_out 8 s = Inr (?len, s1)" "stream_inv 1024 s1" "pending s1 = chars_bytes str @ rest" by auto
  have len: "length str < 2 ^ 31" using assms(4) d by simp
  then have n: "unat (bytes_word ?len :: u64) = length str"
    by (simp add: bytes_word_bytes unat_of_nat)
  have le: "length str \<le> length (pending s1)" using 1(3) by simp
  note b = take_buff [OF le]
  from TStream_out_law [OF 1(2) le] 1(3) obtain s2 where
    "TStream_out (int (length str)) s1 = Inr s2" "stream_inv 1024 s2" "pending s2 = rest" by auto
  moreover have "in_s32 (int (length str))" using len by (simp add: in_s32_def)
  ultimately show ?thesis using 1 n b d by (simp add: take_payload_def Let_def)
next
  case False
  from read_out_ok [OF assms(2,3) refl] obtain t where
    "read_out (length (payload d)) s = Inr (payload d, t)" "stream_inv 1024 t" "pending t = rest" by blast
  with False assms(1) show ?thesis
    by (cases d) (auto simp: take_payload_def bytes_word_bytes)
qed

lemma CArgs_pop_ok:
  assumes "packable d" "stream_inv 1024 (args_stream a)" "pending (args_stream a) = wire d @ rest" "length (wire d) < 2 ^ 31"
  shows "\<exists>b. CArgs_pop a = Inr (d, b) \<and> stream_inv 1024 (args_stream b) \<and> pending (args_stream b) = rest \<and>
    m_nDataNum b = m_nDataNum a - 1"
proof -
  from read_out_ok [OF assms(2), of "[type_code d]" "payload d @ rest" 1] assms(3) obtain s1 where
    1: "read_out 1 (args_stream a) = Inr ([type_code d], s1)" "stream_inv 1024 s1" "pending s1 = payload d @ rest"
    by (auto simp: wire_def)
  from take_payload_ok [OF assms(1) 1(2,3)] assms(4) 1(1) show ?thesis
    by (auto simp: CArgs_pop_def wire_def)
qed

lemma CArgs_pop_empty:
  assumes "stream_inv 1024 (args_stream a)" "pending (args_stream a) = []"
  shows "\<exists>e. CArgs_pop a = Inl e"
proof -
  have "TStream_out 1 (args_stream a) = Inl (Assertion ''tstream overflow'')"
    using TStream_out_too_many [OF assms(1), of 1] assms(2) by simp
  then show ?thesis
    by (auto simp: CArgs_pop_def read_out_def SafeMemcpy_def memcpy_def)
qed

section \<open>Packing and unpacking a list\<close>

fun push_all :: "cdata list \<Rightarrow> cargs \<Rightarrow> cargs outcome" where
  "push_all [] a = Inr a"
| "push_all (d # ds) a = bindE (CArgs_push d a) (push_all ds)"

fun pop_all :: "nat \<Rightarrow> cargs \<Rightarrow> (cdata list \<times> cargs) outcome" where
  "pop_all 0 a = Inr ([], a)"
| "pop_all (Suc n) a = bindE (CArgs_pop a) (\<lambda>(d, a). bindE (pop_all n a) (\<lambda>(ds, a). Inr (d # ds, a)))"

lemma push_all_ok:
  assumes "\<forall>d \<in> set ds. packable d" "args_ok B a" "B < 2 ^ 31 - 1024"
    "length (pending (args_stream a)) + length (concat (map wire ds)) + 1024 \<le> nat B"
  shows "\<exists>b. push_all ds a = Inr b \<and> args_ok B b \<and>
    pending (args_stream b) = pending (args_stream a) @ concat (map wire ds) \<and>
    m_nDataNum b = m_nDataNum a + of_nat (length ds)"
  using assms
proof (induction ds arbitrary: a)
  case (Cons d ds)
  from CArgs_push_ok [OF _ Cons.prems(2) _ Cons.prems(3), of d] Cons.prems(1,4) obtain b where
    "CArgs_push d a = Inr b" "args_ok B b" "pending (args_stream b) = pending (args_stream a) @ wire d"
    "m_nDataNum b = m_nDataNum a + 1" by auto
  with Cons.IH [of b] Cons.prems show ?case by (auto simp: algebra_simps)
qed simp

lemma pop_all_ok:
  assumes "\<forall>d \<in> set ds. packable d" "stream_inv 1024 (args_stream a)"
    "pending (args_stream a) = concat (map wire ds) @ rest" "length (concat (map wire ds)) < 2 ^ 31"
  shows "\<exists>b. pop_all (length ds) a = Inr (ds, b) \<and> stream_inv 1024 (args_stream b) \<and>
    pending (args_stream b) = rest \<and> m_nDataNum b = m_nDataNum a - of_nat (length ds)"
  using assms
proof (induction ds arbitrary: a)
  case (Cons d ds)
  from CArgs_pop_ok [of d a "concat (map wire ds) @ rest"] Cons.prems obtain b where
    "CArgs_pop a = Inr (d, b)" "stream_inv 1024 (args_stream b)"
    "pending (args_stream b) = concat (map wire ds) @ rest" "m_nDataNum b = m_nDataNum a - 1" by auto
  with Cons.IH [of b] Cons.prems show ?case by (auto simp: algebra_simps)
qed simp

section \<open>Properties\<close>

text \<open>
  C23: Packing any list of values (every type the packer accepts, strings with any bytes) into
  fresh arguments and unpacking as many values gives back the same list and leaves the
  arguments empty; in between, \<^verbatim>\<open>size()\<close> is the sum of the values' \<^verbatim>\<open>GetDataSize\<close> and
  \<^verbatim>\<open>GetDataNum\<close> their number. Unpacking one value more aborts.
\<close>

theorem args_roundtrip:
  assumes "\<forall>d \<in> set ds. packable d" "length (concat (map wire ds)) < 2 ^ 31 - 3072"
  shows "\<exists>a b e. push_all ds CArgs_new = Inr a \<and> pop_all (length ds) a = Inr (ds, b) \<and>
    CArgs_size a = (\<Sum>d \<leftarrow> ds. case GetDataSize d of Inr n \<Rightarrow> n | Inl _ \<Rightarrow> 0) \<and>
    GetDataNum a = of_nat (length ds) \<and> IsEmpty b \<and> CArgs_size b = 0 \<and> CArgs_pop b = Inl e"
proof -
  let ?w = "concat (map wire ds)"
  have "args_ok (2 ^ 31 - 1025) CArgs_new"
    by (simp add: args_ok_def CArgs_new_def stream_inv_new in_s32_def) (simp add: TStream_new_def)
  moreover have "length (pending (args_stream CArgs_new)) + length ?w + 1024 \<le> nat (2 ^ 31 - 1025)"
    using assms(2) by (simp add: CArgs_new_def)
  ultimately obtain a where a: "push_all ds CArgs_new = Inr a" "stream_inv 1024 (args_stream a)"
      "pending (args_stream a) = ?w" "m_nDataNum a = of_nat (length ds)"
    using push_all_ok [OF assms(1), of "2 ^ 31 - 1025" CArgs_new] by (auto simp: args_ok_def CArgs_new_def)
  from pop_all_ok [OF assms(1) a(2), of "[]"] a(3) assms(2) obtain b where
    b: "pop_all (length ds) a = Inr (ds, b)" "stream_inv 1024 (args_stream b)" "pending (args_stream b) = []"
      "m_nDataNum b = 0" using a(4) by auto
  have size: "CArgs_size x = length (pending (args_stream x))" if "stream_inv 1024 (args_stream x)" for x
    using that length_pending [OF that]
    by (simp add: CArgs_size_def TStream_size_def stream_inv_def in_s32_def)
  have "length ?w = (\<Sum>d \<leftarrow> ds. length (wire d))" by (simp add: length_concat comp_def)
  also have "\<dots> = (\<Sum>d \<leftarrow> ds. case GetDataSize d of Inr n \<Rightarrow> n | Inl _ \<Rightarrow> 0)"
    using assms(1) by (intro arg_cong [of _ _ sum_list] map_cong) (simp_all add: GetDataSize_wire)
  finally have "CArgs_size a = (\<Sum>d \<leftarrow> ds. case GetDataSize d of Inr n \<Rightarrow> n | Inl _ \<Rightarrow> 0)"
    using size [OF a(2)] a(3) by simp
  moreover obtain e where "CArgs_pop b = Inl e" using CArgs_pop_empty [OF b(2,3)] by blast
  ultimately show ?thesis
    using a(1,4) b(1,3,4) size [OF b(2)] by (simp add: GetDataNum_def IsEmpty_def)
qed

theorem args_roundtrip_witness:
  "\<exists>a b. push_all [DATA_TYPE_S32 7, DATA_TYPE_STRING (Some ''hello''), DATA_TYPE_S8 255] CArgs_new = Inr a \<and>
     pop_all 3 a = Inr ([DATA_TYPE_S32 7, DATA_TYPE_STRING (Some ''hello''), DATA_TYPE_S8 255], b) \<and>
     CArgs_size a = 21"
  using args_roundtrip [of "[DATA_TYPE_S32 7, DATA_TYPE_STRING (Some ''hello''), DATA_TYPE_S8 255]"]
  by (auto simp: wire_def GetDataSize_def GetDataLength_def numeral_3_eq_3)

end
