(* ===== verification/Rand.thy ===== *)
theory Rand
  imports Prelude
begin

text \<open>
  src/Public/CRand.h: the pseudo-random numbers of the sample modules, a linear congruential
  generator on an unsigned 64-bit state whose arithmetic wraps.
\<close>

unbundle bit_operations_syntax

record crand =
  m_lSeed :: u64

definition SetSeed :: "u32 \<Rightarrow> crand \<Rightarrow> crand" where
  "SetSeed seed r = r\<lparr>m_lSeed := ucast seed\<rparr>"

definition Rand :: "crand \<Rightarrow> s32 \<times> crand" where
  "Rand r = (let s = m_lSeed r * 214013 + 2531011 in
     (uint (drop_bit 16 s AND 0x7fff), r\<lparr>m_lSeed := s\<rparr>))"

fun rands :: "nat \<Rightarrow> crand \<Rightarrow> s32 list" where
  "rands 0 r = []"
| "rands (Suc n) r = (let (v, r) = Rand r in v # rands n r)"

section \<open>The reference generator\<close>

text \<open>The textbook form: a 31-bit state, of which the upper 15 bits are the number.\<close>

fun lcg :: "nat \<Rightarrow> int \<Rightarrow> int list" where
  "lcg 0 s = []"
| "lcg (Suc n) s = (let s = (214013 * s + 2531011) mod 2 ^ 31 in s div 2 ^ 16 # lcg n s)"

lemma Rand_step:
  fixes r :: crand
  defines "s \<equiv> (214013 * uint (m_lSeed r) + 2531011) mod 2 ^ 31"
  shows "fst (Rand r) = s div 2 ^ 16" "uint (m_lSeed (snd (Rand r))) mod 2 ^ 31 = s"
proof -
  let ?w = "m_lSeed r * 214013 + 2531011"
  have "uint ?w = (uint (m_lSeed r) * 214013 + 2531011) mod 2 ^ 64"
    by (simp add: uint_word_ariths mod_simps)
  then have "uint ?w mod 2 ^ 31 = (uint (m_lSeed r) * 214013 + 2531011) mod 2 ^ 64 mod 2 ^ 31" by simp
  also have "\<dots> = s" unfolding s_def by (simp add: mod_mod_cancel mult.commute)
  finally have w: "uint ?w mod 2 ^ 31 = s" .
  then show "uint (m_lSeed (snd (Rand r))) mod 2 ^ 31 = s" by (simp add: Rand_def Let_def)
  have m: "(0x7fff :: u64) = mask 15" by (simp add: mask_eq_exp_minus_1)
  have "uint (drop_bit 16 ?w AND 0x7fff) = take_bit 15 (drop_bit 16 (uint ?w))"
    unfolding m by (rule bit_eqI) (auto simp: bit_simps)
  also have "\<dots> = drop_bit 16 (take_bit 31 (uint ?w))"
    by (simp add: drop_bit_take_bit)
  also have "\<dots> = s div 2 ^ 16"
    using w by (simp add: take_bit_eq_mod drop_bit_eq_div)
  finally show "fst (Rand r) = s div 2 ^ 16" by (simp add: Rand_def Let_def)
qed

lemma lcg_mod: "lcg n (s mod 2 ^ 31) = lcg n s"
proof (cases n)
  case (Suc m)
  have "(214013 * (s mod 2 ^ 31) + 2531011) mod 2 ^ 31 = (214013 * s + 2531011) mod 2 ^ 31"
    by (metis mod_add_left_eq mod_mult_right_eq)
  then show ?thesis using Suc by (simp add: Let_def)
qed simp

section \<open>Properties\<close>

text \<open>
  C38: The numbers drawn are those of the textbook 31-bit generator, whatever the 64-bit state
  holds above: each lies in \<open>0..32767\<close>, and seeds that agree modulo \<open>2 ^ 31\<close> give the same
  sequence for ever.
\<close>

theorem rand_is_lcg31:
  "rands n r = lcg n (uint (m_lSeed r)) \<and> list_all (\<lambda>v. 0 \<le> v \<and> v < 32768) (rands n r)"
proof (induction n arbitrary: r)
  case (Suc n)
  let ?s = "(214013 * uint (m_lSeed r) + 2531011) mod 2 ^ 31"
  note st = Rand_step [of r]
  have "rands n (snd (Rand r)) = lcg n (uint (m_lSeed (snd (Rand r))))" using Suc.IH by blast
  also have "\<dots> = lcg n ?s" using st(2) lcg_mod [of n "uint (m_lSeed (snd (Rand r)))"] by simp
  finally have tail: "rands n (snd (Rand r)) = lcg n ?s" .
  have run: "rands (Suc n) r = fst (Rand r) # rands n (snd (Rand r))" by (simp add: case_prod_beta Let_def)
  have "0 \<le> ?s" "?s < 2 ^ 31" by simp_all
  then have "0 \<le> ?s div 2 ^ 16" "?s div 2 ^ 16 < 32768" by (simp_all add: pos_imp_zdiv_nonneg_iff div_less_iff_less_mult)
  moreover have "list_all (\<lambda>v. 0 \<le> v \<and> v < 32768) (lcg n ?s)" using Suc.IH [of "snd (Rand r)"] tail by metis
  ultimately show ?case unfolding run tail st(1) by (simp add: Let_def)
qed simp

end
