(* ===== verification/Runs.thy ===== *)
theory Runs
  imports Prelude
begin

text \<open>
  Sequences of steps that can fail, and what several components share about them: an invariant, a
  relation between earlier and later states, an abstract machine that the steps refine, and the contract
  of a connection (the interface \<^verbatim>\<open>IPipe\<close> of API/IKernel.h, which both network engines implement).
\<close>

section \<open>Runs\<close>

fun runE :: "('c \<Rightarrow> 's \<Rightarrow> 's outcome) \<Rightarrow> 'c list \<Rightarrow> 's \<Rightarrow> 's outcome" where
  "runE step [] s = Inr s"
| "runE step (c # cs) s = bindE (step c s) (runE step cs)"

lemma runE_append: "runE step (cs @ ds) s = bindE (runE step cs s) (runE step ds)"
  by (induction cs arbitrary: s) (auto simp: bindE_def split: sum.splits)

lemma runE_Cons_Inr [elim]:
  assumes "runE step (c # cs) s = Inr t"
  obtains s1 where "step c s = Inr s1" "runE step cs s1 = Inr t"
  using assms by (auto simp: outcome_simps)

section \<open>Invariants\<close>

locale outcome_system =
  fixes step :: "'c \<Rightarrow> 's \<Rightarrow> 's outcome"
    and good :: "'c \<Rightarrow> bool"
    and invar :: "'s \<Rightarrow> bool"
  assumes step_invar: "invar s \<Longrightarrow> good c \<Longrightarrow> step c s = Inr t \<Longrightarrow> invar t"
begin

lemma run_invar: "invar s \<Longrightarrow> list_all good cs \<Longrightarrow> runE step cs s = Inr t \<Longrightarrow> invar t"
  by (induction cs arbitrary: s) (auto simp: outcome_simps dest: step_invar)

end

text \<open>A relation that every step extends.\<close>

locale ordered_system = outcome_system +
  fixes later :: "'s \<Rightarrow> 's \<Rightarrow> bool"
  assumes later_refl: "invar s \<Longrightarrow> later s s"
    and later_trans: "later s t \<Longrightarrow> later t u \<Longrightarrow> later s u"
    and step_later: "invar s \<Longrightarrow> good c \<Longrightarrow> step c s = Inr t \<Longrightarrow> later s t"
begin

lemma run_later: "invar s \<Longrightarrow> list_all good cs \<Longrightarrow> runE step cs s = Inr t \<Longrightarrow> later s t"
proof (induction cs arbitrary: s)
  case Nil
  then show ?case by (simp add: later_refl)
next
  case (Cons c cs)
  from Cons.prems(3) obtain s1 where s1: "step c s = Inr s1" "runE step cs s1 = Inr t" ..
  have g: "good c" "list_all good cs" using Cons.prems(2) by simp_all
  from Cons.IH [OF step_invar [OF Cons.prems(1) g(1) s1(1)] g(2) s1(2)] step_later [OF Cons.prems(1) g(1) s1(1)]
  show ?case by (rule later_trans [rotated])
qed

end

section \<open>Refinement\<close>

text \<open>
  An abstract machine whose steps never fail, and the calls that are legal in its states: legal calls
  succeed and do what the abstract machine does.
\<close>

fun legal_run :: "('c \<Rightarrow> 'a \<Rightarrow> bool) \<Rightarrow> ('c \<Rightarrow> 'a \<Rightarrow> 'a) \<Rightarrow> 'c list \<Rightarrow> 'a \<Rightarrow> bool" where
  "legal_run legal astep [] x \<longleftrightarrow> True"
| "legal_run legal astep (c # cs) x \<longleftrightarrow> legal c x \<and> legal_run legal astep cs (astep c x)"

locale refined_system =
  fixes step :: "'c \<Rightarrow> 's \<Rightarrow> 's outcome"
    and invar :: "'s \<Rightarrow> bool"
    and abs_state :: "'s \<Rightarrow> 'a"
    and astep :: "'c \<Rightarrow> 'a \<Rightarrow> 'a"
    and legal :: "'c \<Rightarrow> 'a \<Rightarrow> bool"
  assumes step_refines: "invar s \<Longrightarrow> legal c (abs_state s) \<Longrightarrow>
    \<exists>t. step c s = Inr t \<and> invar t \<and> abs_state t = astep c (abs_state s)"
begin

lemma run_refines:
  "invar s \<Longrightarrow> legal_run legal astep cs (abs_state s) \<Longrightarrow>
     \<exists>t. runE step cs s = Inr t \<and> invar t \<and> abs_state t = fold astep cs (abs_state s)"
proof (induction cs arbitrary: s)
  case Nil
  then show ?case by simp
next
  case (Cons c cs)
  from step_refines [OF Cons.prems(1), of c] Cons.prems(2) obtain t
    where t: "step c s = Inr t" "invar t" "abs_state t = astep c (abs_state s)" by auto
  with Cons.IH [OF t(2)] Cons.prems(2) show ?case by auto
qed

end

section \<open>Connections\<close>

text \<open>
  A connection: \<open>wire s\<close> is what went out so far, \<open>waiting s\<close> what still waits, and \<open>gives c\<close> the bytes
  that the call \<open>c\<close> hands over. No step loses, repeats or reorders a byte; while nobody is asked to
  flush (\<open>idle\<close>), nothing waits.
\<close>

locale byte_link = outcome_system +
  fixes wire :: "'s \<Rightarrow> 'b list"
    and waiting :: "'s \<Rightarrow> 'b list"
    and gives :: "'c \<Rightarrow> 'b list"
    and idle :: "'s \<Rightarrow> bool"
  assumes step_bytes: "invar s \<Longrightarrow> good c \<Longrightarrow> step c s = Inr t \<Longrightarrow>
      wire t @ waiting t = wire s @ waiting s @ gives c"
    and idle_empty: "invar s \<Longrightarrow> idle s \<Longrightarrow> waiting s = []"
begin

lemma run_bytes:
  "invar s \<Longrightarrow> list_all good cs \<Longrightarrow> runE step cs s = Inr t \<Longrightarrow>
     wire t @ waiting t = wire s @ waiting s @ concat (map gives cs)"
proof (induction cs arbitrary: s)
  case Nil
  then show ?case by simp
next
  case (Cons c cs)
  from Cons.prems(3) obtain s1 where s1: "step c s = Inr s1" "runE step cs s1 = Inr t" ..
  have g: "good c" "list_all good cs" using Cons.prems(2) by simp_all
  from Cons.IH [OF step_invar [OF Cons.prems(1) g(1) s1(1)] g(2) s1(2)] step_bytes [OF Cons.prems(1) g(1) s1(1)]
  show ?case by simp
qed

text \<open>When the connection is idle again, everything that was given has gone out.\<close>

lemma run_flushed:
  assumes "invar s" "list_all good cs" "runE step cs s = Inr t" "waiting s = []" "idle t"
  shows "wire t = wire s @ concat (map gives cs)"
  using run_bytes [OF assms(1-3)] idle_empty [OF run_invar [OF assms(1-3)] assms(5)] assms(4) by simp

end

end
