(* ===== verification/Net_Pipe.thy ===== *)
theory Net_Pipe
  imports Stream Runs
begin

text \<open>
  src/kernel/net/Header.h and src/kernel/net/epoll/Pipe.h, CPipe.h, CPipe.cpp: one connection.
  A pipe has a socket, a receive and a send stream, and belongs to a session (its host).
  \<^verbatim>\<open>Send\<close> runs on the main thread, \<^verbatim>\<open>DoRecv\<close> and \<^verbatim>\<open>DoSend\<close> on a worker thread; the part of
  \<^verbatim>\<open>Send\<close> and \<^verbatim>\<open>DoSend\<close> that touches the socket holds the send stream's read lock, so they are
  modelled as whole steps.

  The operating system is a parameter: \<open>sys\<close> holds its future answers to \<^verbatim>\<open>send\<close>, \<^verbatim>\<open>recv\<close> and
  \<^verbatim>\<open>epoll_ctl\<close> and the log of the calls made. A call when no answer is left means that the
  operation is still running; its outcome is \<open>Diverges\<close>.
\<close>

unbundle bit_operations_syntax

section \<open>Header.h\<close>

datatype eSocketOpt = SO_ACCEPT | SO_TCPRECV | SO_TCPSEND | SO_CONNECT
datatype eSocketStatus = SS_UNINITIALIZE | SS_ESTABLISHED | SS_WAITCLOSE
datatype io_event_type = IO_EVENT_TYPE_BREAK | IO_EVENT_TYPE_RECV | IO_EVENT_TYPE_CONNECTED
  | IO_EVENT_TYPE_CONNECTFAILD | IO_EVENT_TYPE_COUNT

abbreviation (input) BUFF_SIZE :: s32 where "BUFF_SIZE \<equiv> 16 * 1024"

section \<open>The operating system\<close>

definition EPOLLIN :: u32 where "EPOLLIN = 0x001"
definition EPOLLOUT :: u32 where "EPOLLOUT = 0x004"
definition EPOLLERR :: u32 where "EPOLLERR = 0x008"
definition EPOLLHUP :: u32 where "EPOLLHUP = 0x010"
definition EPOLLRDHUP :: u32 where "EPOLLRDHUP = 0x2000"
definition EPOLLONESHOT :: u32 where "EPOLLONESHOT = 0x40000000"
definition EPOLLET :: u32 where "EPOLLET = 0x80000000"

text \<open>
  \<^verbatim>\<open>send\<close>: \<open>Accept k\<close> takes up to \<open>k\<close> bytes and returns how many it took; \<open>Would_block\<close> is -1
  with \<^verbatim>\<open>EAGAIN\<close>; \<open>Send_fail\<close> is -1 with another error. \<^verbatim>\<open>recv\<close>: \<open>Received bs\<close> fills the buffer
  with \<open>bs\<close> (at most its size; no byte at all means that the peer closed).
\<close>

datatype send_answer = Accept nat | Would_block | Send_fail
datatype recv_answer = Received "byte list" | No_data | Recv_fail

datatype sys_call =
    CallSend s64 "byte list"
  | CallRecv s64 "byte list"
  | EpollAdd s64 s64 u32
  | EpollMod s64 s64 u32
  | EpollDel s64 s64
  | CloseFd s64

record sys =
  send_answers :: "send_answer list"
  recv_answers :: "recv_answer list"
  ctl_answers :: "s32 list"
  calls :: "sys_call list"

definition log_call :: "sys_call \<Rightarrow> sys \<Rightarrow> sys" where
  "log_call c w = w\<lparr>calls := calls w @ [c]\<rparr>"

definition epoll_ctl :: "sys_call \<Rightarrow> sys \<Rightarrow> (s32 \<times> sys) outcome" where
  "epoll_ctl c w =
     (case ctl_answers w of
        [] \<Rightarrow> Inl Diverges
      | r # rs \<Rightarrow> Inr (r, log_call c (w\<lparr>ctl_answers := rs\<rparr>)))"

section \<open>The pipe\<close>

text \<open>The address of a session; 0 is \<^verbatim>\<open>NULL\<close>. A socket address is 16 bytes.\<close>

type_synonym host = nat

record cpipe =
  m_nStatus :: eSocketStatus
  m_lSocketHandler :: s64
  m_oAddr :: "byte list"
  m_oRecvStream :: tstream
  m_oSendStream :: tstream
  m_pHost :: host
  m_lEpollFD :: s64
  m_bNeedSend :: bool

definition Pipe_Clear :: "cpipe \<Rightarrow> cpipe" where
  "Pipe_Clear p = p\<lparr>m_nStatus := SS_UNINITIALIZE, m_lSocketHandler := - 1, m_oAddr := replicate 16 0\<rparr>"

definition CPipe_new :: cpipe where
  "CPipe_new = \<lparr>m_nStatus = SS_UNINITIALIZE, m_lSocketHandler = - 1, m_oAddr = replicate 16 0,
     m_oRecvStream = TStream_new BUFF_SIZE, m_oSendStream = TStream_new BUFF_SIZE,
     m_pHost = 0, m_lEpollFD = - 1, m_bNeedSend = True\<rparr>"

definition CPipe_Clear :: "cpipe \<Rightarrow> cpipe outcome" where
  "CPipe_Clear p =
     (let p = Pipe_Clear p in
      bindE (TStream_clear BUFF_SIZE (m_oRecvStream p)) (\<lambda>r.
      bindE (TStream_clear BUFF_SIZE (m_oSendStream p)) (\<lambda>s.
      Inr (p\<lparr>m_oRecvStream := r, m_oSendStream := s, m_lEpollFD := - 1, m_pHost := 0, m_bNeedSend := True\<rparr>))))"

definition SetSockAddr :: "byte list \<Rightarrow> cpipe \<Rightarrow> cpipe outcome" where
  "SetSockAddr addr p = bindE (SafeMemcpy (m_oAddr p) 0 16 addr 16) (\<lambda>a. Inr (p\<lparr>m_oAddr := a\<rparr>))"

text \<open>\<^verbatim>\<open>IsNeedPostSendOPT\<close> returns the address of the member, which is never null.\<close>

definition IsNeedPostSendOPT :: "cpipe \<Rightarrow> bool" where
  "IsNeedPostSendOPT p = True"

definition PostOPTInEpollQueue :: "u32 \<Rightarrow> cpipe \<Rightarrow> sys \<Rightarrow> (cpipe \<times> sys) outcome" where
  "PostOPTInEpollQueue opt p w =
     bindE (epoll_ctl (EpollMod (m_lEpollFD p) (m_lSocketHandler p) opt) w) (\<lambda>(res, w).
     bindE (TASSERT (0 = res) ''wtf'') (\<lambda>_. Inr (p, w)))"

definition CPipe_Close :: "cpipe \<Rightarrow> sys \<Rightarrow> (cpipe \<times> sys) outcome" where
  "CPipe_Close p w =
     (let p = p\<lparr>m_nStatus := SS_WAITCLOSE\<rparr> in
      if m_bNeedSend p then PostOPTInEpollQueue (EPOLLOUT OR EPOLLONESHOT) p w else Inr (p, w))"

text \<open>The bytes at \<^verbatim>\<open>buff()\<close> that one \<^verbatim>\<open>send\<close> takes.\<close>

definition accepted :: "nat \<Rightarrow> tstream \<Rightarrow> byte list" where
  "accepted k s = take k (pending s)"

text \<open>The loop of \<^verbatim>\<open>Send\<close>.\<close>

fun Send_loop :: "send_answer list \<Rightarrow> cpipe \<Rightarrow> sys \<Rightarrow> (cpipe \<times> sys) outcome" where
  "Send_loop rs p w =
     (if TStream_size (m_oSendStream p) > 0 then
        case rs of
          [] \<Rightarrow> Inl Diverges
        | r # rs' \<Rightarrow>
            let bs = (case r of Accept k \<Rightarrow> accepted k (m_oSendStream p) | _ \<Rightarrow> []);
                w = log_call (CallSend (m_lSocketHandler p) bs) (w\<lparr>send_answers := rs'\<rparr>);
                nSendLen = (case r of Accept k \<Rightarrow> int (length bs) | _ \<Rightarrow> - 1) in
            if nSendLen > 0 then
              bindE (TStream_out nSendLen (m_oSendStream p)) (\<lambda>s. Send_loop rs' (p\<lparr>m_oSendStream := s\<rparr>) w)
            else if r = Would_block then Inr (p\<lparr>m_bNeedSend := False\<rparr>, w)
            else PostOPTInEpollQueue (EPOLLERR OR EPOLLHUP OR EPOLLRDHUP) p w
      else if m_nStatus p = SS_WAITCLOSE then
        PostOPTInEpollQueue (EPOLLERR OR EPOLLHUP OR EPOLLRDHUP) p w
      else Inr (p\<lparr>m_bNeedSend := True\<rparr>, w))"

definition CPipe_Send :: "byte list \<Rightarrow> s32 \<Rightarrow> cpipe \<Rightarrow> sys \<Rightarrow> (cpipe \<times> sys) outcome" where
  "CPipe_Send pContext nSize p w =
     bindE (TASSERT (m_nStatus p = SS_ESTABLISHED) ''wtf'') (\<lambda>_.
     if m_nStatus p \<noteq> SS_ESTABLISHED then Inr (p, w)
     else
       bindE (TStream_in BUFF_SIZE pContext nSize (m_oSendStream p)) (\<lambda>s.
       let p = p\<lparr>m_oSendStream := s\<rparr> in
       if m_bNeedSend p then Send_loop (send_answers w) p w else Inr (p, w)))"

definition DoClose :: "cpipe \<Rightarrow> sys \<Rightarrow> (cpipe \<times> sys) outcome" where
  "DoClose p w =
     bindE (TASSERT (m_nStatus p \<noteq> SS_UNINITIALIZE \<and> m_lSocketHandler p \<noteq> - 1) ''wtf'') (\<lambda>_.
     if m_nStatus p \<noteq> SS_UNINITIALIZE then
       let p = p\<lparr>m_nStatus := SS_UNINITIALIZE\<rparr> in
       bindE (epoll_ctl (EpollDel (m_lEpollFD p) (m_lSocketHandler p)) w) (\<lambda>(res, w).
       bindE (TASSERT (0 = res) ''epoll_ctl del error'') (\<lambda>_.
       Inr (p\<lparr>m_lSocketHandler := - 1\<rparr>, log_call (CloseFd (m_lSocketHandler p)) w)))
     else Inr (p, w))"

text \<open>The loop of \<^verbatim>\<open>DoRecv\<close>; \<open>nSize\<close> is the configured size of the buffer.\<close>

fun DoRecv_loop :: "recv_answer list \<Rightarrow> s32 \<Rightarrow> s32 \<Rightarrow> cpipe \<Rightarrow> sys \<Rightarrow> (io_event_type \<times> cpipe \<times> sys) outcome" where
  "DoRecv_loop rs nSize nRecvSize p w =
     (case rs of
        [] \<Rightarrow> Inl Diverges
      | r # rs' \<Rightarrow>
          let bs = (case r of Received xs \<Rightarrow> take (nat nSize) xs | _ \<Rightarrow> []);
              w = log_call (CallRecv (m_lSocketHandler p) bs) (w\<lparr>recv_answers := rs'\<rparr>);
              len = (case r of Received xs \<Rightarrow> int (length bs) | _ \<Rightarrow> - 1) in
          if r = No_data then
            Inr (if nRecvSize > 0 then IO_EVENT_TYPE_RECV else IO_EVENT_TYPE_COUNT, p, w)
          else if len \<le> 0 then
            bindE (DoClose p w) (\<lambda>(p, w). Inr (IO_EVENT_TYPE_BREAK, p, w))
          else
            bindE (chk_s32 (nRecvSize + len)) (\<lambda>nRecvSize.
            bindE (TStream_in BUFF_SIZE bs len (m_oRecvStream p)) (\<lambda>s.
            DoRecv_loop rs' nSize nRecvSize (p\<lparr>m_oRecvStream := s\<rparr>) w)))"

definition DoRecv :: "s32 \<Rightarrow> cpipe \<Rightarrow> sys \<Rightarrow> (io_event_type \<times> cpipe \<times> sys) outcome" where
  "DoRecv nSize p w = DoRecv_loop (recv_answers w) nSize 0 p w"

fun DoSend_loop :: "send_answer list \<Rightarrow> cpipe \<Rightarrow> sys \<Rightarrow> (io_event_type \<times> cpipe \<times> sys) outcome" where
  "DoSend_loop rs p w =
     (if TStream_size (m_oSendStream p) > 0 then
        case rs of
          [] \<Rightarrow> Inl Diverges
        | r # rs' \<Rightarrow>
            let bs = (case r of Accept k \<Rightarrow> accepted k (m_oSendStream p) | _ \<Rightarrow> []);
                w = log_call (CallSend (m_lSocketHandler p) bs) (w\<lparr>send_answers := rs'\<rparr>);
                nSendLen = (case r of Accept k \<Rightarrow> int (length bs) | _ \<Rightarrow> - 1) in
            if nSendLen > 0 then
              bindE (TStream_out nSendLen (m_oSendStream p)) (\<lambda>s. DoSend_loop rs' (p\<lparr>m_oSendStream := s\<rparr>) w)
            else if r = Would_block then Inr (IO_EVENT_TYPE_COUNT, p, w)
            else Inr (IO_EVENT_TYPE_BREAK, p, w)
      else if m_nStatus p = SS_WAITCLOSE then Inr (IO_EVENT_TYPE_BREAK, p, w)
      else Inr (IO_EVENT_TYPE_COUNT, p\<lparr>m_bNeedSend := True\<rparr>, w))"

definition DoSend :: "cpipe \<Rightarrow> sys \<Rightarrow> (io_event_type \<times> cpipe \<times> sys) outcome" where
  "DoSend p w = DoSend_loop (send_answers w) p w"

declare Send_loop.simps [simp del] DoRecv_loop.simps [simp del] DoSend_loop.simps [simp del]

lemmas send_unfold =
  Send_loop.simps [of "[]"] Send_loop.simps [of "r # rs" for r rs]
  DoSend_loop.simps [of "[]"] DoSend_loop.simps [of "r # rs" for r rs]

lemmas recv_unfold = DoRecv_loop.simps [of "[]"] DoRecv_loop.simps [of "r # rs" for r rs]

section \<open>What went over the wire\<close>

fun sent :: "sys_call list \<Rightarrow> byte list" where
  "sent [] = []"
| "sent (CallSend fd bs # cs) = bs @ sent cs"
| "sent (c # cs) = sent cs"

fun received :: "sys_call list \<Rightarrow> byte list" where
  "received [] = []"
| "received (CallRecv fd bs # cs) = bs @ received cs"
| "received (c # cs) = received cs"

lemma sent_append [simp]: "sent (cs @ ds) = sent cs @ sent ds"
  by (induction cs rule: sent.induct) simp_all

lemma received_append [simp]: "received (cs @ ds) = received cs @ received ds"
  by (induction cs rule: received.induct) simp_all

abbreviation pipe_stream :: "tstream \<Rightarrow> bool" where
  "pipe_stream \<equiv> stream_inv BUFF_SIZE"

lemma pipe_stream_size: "pipe_stream s \<Longrightarrow> TStream_size s = int (length (pending s))"
  using length_pending [of BUFF_SIZE s] by (auto simp: stream_inv_def TStream_size_def)

text \<open>The send loops change nothing of the pipe but its send stream and \<open>m_bNeedSend\<close>.\<close>

definition same_but_send :: "cpipe \<Rightarrow> cpipe \<Rightarrow> bool" where
  "same_but_send p q \<longleftrightarrow> q = p\<lparr>m_oSendStream := m_oSendStream q, m_bNeedSend := m_bNeedSend q\<rparr>"

lemma same_but_send_refl [simp]: "same_but_send p p"
  by (simp add: same_but_send_def)

lemma same_but_send_iff:
  "same_but_send p q \<longleftrightarrow> m_nStatus q = m_nStatus p \<and> m_lSocketHandler q = m_lSocketHandler p \<and>
     m_oAddr q = m_oAddr p \<and> m_oRecvStream q = m_oRecvStream p \<and> m_pHost q = m_pHost p \<and>
     m_lEpollFD q = m_lEpollFD p"
  by (cases p; cases q) (auto simp: same_but_send_def)

definition sends_on :: "cpipe \<Rightarrow> sys \<Rightarrow> cpipe \<Rightarrow> sys \<Rightarrow> bool" where
  "sends_on p w q v \<longleftrightarrow> pipe_stream (m_oSendStream q) \<and> same_but_send p q \<and>
     sent (calls v) @ pending (m_oSendStream q) = sent (calls w) @ pending (m_oSendStream p) \<and>
     received (calls v) = received (calls w) \<and> recv_answers v = recv_answers w"

lemma Post_sends_on:
  assumes "PostOPTInEpollQueue opt p w = Inr (q, v)" "pipe_stream (m_oSendStream p)"
  shows "sends_on p w q v \<and> q = p \<and> send_answers v = send_answers w"
  using assms
  by (auto simp: PostOPTInEpollQueue_def epoll_ctl_def log_call_def sends_on_def outcome_simps split: list.splits)

text \<open>One accepted \<^verbatim>\<open>send\<close>.\<close>

lemma send_step:
  assumes "pipe_stream (m_oSendStream p)" "bs = accepted k (m_oSendStream p)" "bs \<noteq> []"
    "w' = log_call (CallSend fd bs) (w\<lparr>send_answers := rs\<rparr>)"
  obtains s where "TStream_out (int (length bs)) (m_oSendStream p) = Inr s" "pipe_stream s"
    "sends_on p w (p\<lparr>m_oSendStream := s\<rparr>) w'" "length (pending s) < length (pending (m_oSendStream p))"
proof -
  have bs: "bs = take (length bs) (pending (m_oSendStream p))" "length bs \<le> length (pending (m_oSendStream p))"
    using assms(2) by (simp_all add: accepted_def min_def)
  from buffer.pop_law [OF assms(1) bs(2)] obtain s where
    s: "TStream_out (int (length bs)) (m_oSendStream p) = Inr s" "pipe_stream s"
      "pending s = drop (length bs) (pending (m_oSendStream p))" by blast
  have "bs @ pending s = pending (m_oSendStream p)"
    using bs(1) s(3) by (metis append_take_drop_id)
  then have "sends_on p w (p\<lparr>m_oSendStream := s\<rparr>) w'"
    using s(2) by (simp add: sends_on_def same_but_send_def log_call_def assms(4))
  moreover have "length (pending s) < length (pending (m_oSendStream p))"
    using s(3) bs(2) assms(3) by (cases bs) auto
  ultimately show ?thesis using that s(1,2) by blast
qed

lemma sends_on_trans: "sends_on p w q v \<Longrightarrow> sends_on q v q' v' \<Longrightarrow> sends_on p w q' v'"
  by (auto simp: sends_on_def same_but_send_iff)

text \<open>An answer of an operating system that does not fail.\<close>

fun fine_answer :: "send_answer \<Rightarrow> bool" where
  "fine_answer (Accept k) = (0 < k)"
| "fine_answer Would_block = True"
| "fine_answer Send_fail = False"

lemma accepted_fine: "0 < k \<Longrightarrow> pending s \<noteq> [] \<Longrightarrow> accepted k s \<noteq> []"
  by (simp add: accepted_def)

definition settled :: "cpipe \<Rightarrow> bool" where
  "settled p \<longleftrightarrow> (m_bNeedSend p \<longrightarrow> pending (m_oSendStream p) = [])"

lemma Send_loop_ok:
  assumes "Send_loop rs p w = Inr (q, v)" "pipe_stream (m_oSendStream p)" "send_answers w = rs"
  shows "sends_on p w q v \<and>
    (list_all fine_answer rs \<and> m_nStatus p = SS_ESTABLISHED \<longrightarrow> settled q \<and> list_all fine_answer (send_answers v))"
  using assms
proof (induction rs arbitrary: p w)
  case Nil
  have e: "pending (m_oSendStream p) = []"
    using Nil(1,2) by (auto simp: send_unfold pipe_stream_size split: if_splits)
  show ?case
  proof (cases "m_nStatus p = SS_WAITCLOSE")
    case True
    with Nil e show ?thesis by (auto simp: send_unfold pipe_stream_size dest: Post_sends_on)
  next
    case False
    with Nil e show ?thesis
      by (auto simp: send_unfold pipe_stream_size sends_on_def same_but_send_def settled_def)
  qed
next
  case (Cons r rs)
  show ?case
  proof (cases "pending (m_oSendStream p) = []")
    case e: True
    show ?thesis
    proof (cases "m_nStatus p = SS_WAITCLOSE")
      case True
      with Cons e show ?thesis by (auto simp: send_unfold pipe_stream_size dest: Post_sends_on)
    next
      case False
      with Cons e show ?thesis
        by (auto simp: send_unfold pipe_stream_size sends_on_def same_but_send_def settled_def)
    qed
  next
    case ne: False
    let ?w = "\<lambda>bs. log_call (CallSend (m_lSocketHandler p) bs) (w\<lparr>send_answers := rs\<rparr>)"
    have w0: "sends_on p w p (?w [])"
      using Cons.prems(2) by (simp add: sends_on_def log_call_def)
    show ?thesis
    proof (cases "\<exists>k. r = Accept k \<and> accepted k (m_oSendStream p) \<noteq> []")
      case True
      then obtain k where k: "r = Accept k" "accepted k (m_oSendStream p) \<noteq> []" by blast
      let ?bs = "accepted k (m_oSendStream p)"
      obtain s where s: "TStream_out (int (length ?bs)) (m_oSendStream p) = Inr s" "pipe_stream s"
          "sends_on p w (p\<lparr>m_oSendStream := s\<rparr>) (?w ?bs)"
        using send_step [OF Cons.prems(2) refl k(2) refl] by metis
      have run: "Send_loop rs (p\<lparr>m_oSendStream := s\<rparr>) (?w ?bs) = Inr (q, v)"
        using Cons.prems(1,2) k ne s(1) by (simp add: send_unfold pipe_stream_size Let_def)
      have "send_answers (?w ?bs) = rs" by (simp add: log_call_def)
      with Cons.IH [OF run] s(2,3) show ?thesis by (auto intro: sends_on_trans)
    next
      case False
      then have none: "(case r of Accept k \<Rightarrow> accepted k (m_oSendStream p) | _ \<Rightarrow> []) = []" by (cases r) auto
      show ?thesis
      proof (cases "r = Would_block")
        case True
        then have "q = p\<lparr>m_bNeedSend := False\<rparr>" "v = ?w []"
          using Cons.prems(1,2) ne by (auto simp: send_unfold pipe_stream_size Let_def)
        with w0 show ?thesis
          by (auto simp: sends_on_def same_but_send_def settled_def log_call_def)
      next
        case fail: False
        have post: "PostOPTInEpollQueue (EPOLLERR OR EPOLLHUP OR EPOLLRDHUP) p (?w []) = Inr (q, v)"
          using Cons.prems(1,2) ne fail none
          by (cases r) (simp_all add: send_unfold pipe_stream_size Let_def)
        have "\<not> fine_answer r" using False fail ne accepted_fine by (cases r) auto
        with Post_sends_on [OF post Cons.prems(2)] w0 show ?thesis
          by (auto intro: sends_on_trans)
      qed
    qed
  qed
qed

lemma DoSend_loop_ok:
  assumes "DoSend_loop rs p w = Inr (ev, q, v)" "pipe_stream (m_oSendStream p)" "send_answers w = rs"
  shows "sends_on p w q v \<and> (ev = IO_EVENT_TYPE_BREAK \<or> ev = IO_EVENT_TYPE_COUNT) \<and>
    (list_all fine_answer rs \<and> m_nStatus p = SS_ESTABLISHED \<longrightarrow>
       ev = IO_EVENT_TYPE_COUNT \<and> list_all fine_answer (send_answers v) \<and> (settled p \<longrightarrow> settled q))"
  using assms
proof (induction rs arbitrary: p w)
  case Nil
  have e: "pending (m_oSendStream p) = []"
    using Nil(1,2) by (auto simp: send_unfold pipe_stream_size split: if_splits)
  with Nil show ?case
    by (auto simp: send_unfold pipe_stream_size sends_on_def same_but_send_def settled_def split: if_splits)
next
  case (Cons r rs)
  show ?case
  proof (cases "pending (m_oSendStream p) = []")
    case e: True
    with Cons.prems show ?thesis
      by (auto simp: send_unfold pipe_stream_size sends_on_def same_but_send_def settled_def split: if_splits)
  next
    case ne: False
    let ?w = "\<lambda>bs. log_call (CallSend (m_lSocketHandler p) bs) (w\<lparr>send_answers := rs\<rparr>)"
    have w0: "sends_on p w p (?w [])" "send_answers (?w []) = rs"
      using Cons.prems(2) by (simp_all add: sends_on_def log_call_def)
    show ?thesis
    proof (cases "\<exists>k. r = Accept k \<and> accepted k (m_oSendStream p) \<noteq> []")
      case True
      then obtain k where k: "r = Accept k" "accepted k (m_oSendStream p) \<noteq> []" by blast
      let ?bs = "accepted k (m_oSendStream p)"
      obtain s where s: "TStream_out (int (length ?bs)) (m_oSendStream p) = Inr s" "pipe_stream s"
          "sends_on p w (p\<lparr>m_oSendStream := s\<rparr>) (?w ?bs)"
        using send_step [OF Cons.prems(2) refl k(2) refl] by metis
      have run: "DoSend_loop rs (p\<lparr>m_oSendStream := s\<rparr>) (?w ?bs) = Inr (ev, q, v)"
        using Cons.prems(1,2) k ne s(1) by (simp add: send_unfold pipe_stream_size Let_def)
      have "send_answers (?w ?bs) = rs" by (simp add: log_call_def)
      moreover have "settled p \<longrightarrow> settled (p\<lparr>m_oSendStream := s\<rparr>)" using ne by (simp add: settled_def)
      ultimately show ?thesis using Cons.IH [OF run] s(2,3) by (auto intro: sends_on_trans)
    next
      case False
      then have none: "(case r of Accept k \<Rightarrow> accepted k (m_oSendStream p) | _ \<Rightarrow> []) = []" by (cases r) auto
      have nf: "r \<noteq> Would_block \<Longrightarrow> \<not> fine_answer r" using False ne accepted_fine by (cases r) auto
      have "q = p \<and> v = ?w [] \<and> ev = (if r = Would_block then IO_EVENT_TYPE_COUNT else IO_EVENT_TYPE_BREAK)"
        using Cons.prems(1,2) ne none
        by (cases r) (auto simp: send_unfold pipe_stream_size Let_def)
      with w0 nf show ?thesis by auto
    qed
  qed
qed

text \<open>\<^verbatim>\<open>DoSend\<close> returns when the system goes on answering: each iteration but the last sends a byte.\<close>

lemma DoSend_loop_returns:
  assumes "pipe_stream (m_oSendStream p)" "length (pending (m_oSendStream p)) \<le> length rs"
  shows "\<exists>ev q v. DoSend_loop rs p w = Inr (ev, q, v)"
  using assms
proof (induction rs arbitrary: p w)
  case Nil
  then show ?case by (auto simp: send_unfold pipe_stream_size)
next
  case (Cons r rs)
  show ?case
  proof (cases "pending (m_oSendStream p) \<noteq> [] \<and> (\<exists>k. r = Accept k \<and> accepted k (m_oSendStream p) \<noteq> [])")
    case True
    then obtain k where k: "pending (m_oSendStream p) \<noteq> []" "r = Accept k" "accepted k (m_oSendStream p) \<noteq> []" by blast
    let ?bs = "accepted k (m_oSendStream p)"
    let ?w = "log_call (CallSend (m_lSocketHandler p) ?bs) (w\<lparr>send_answers := rs\<rparr>)"
    obtain s where s: "TStream_out (int (length ?bs)) (m_oSendStream p) = Inr s" "pipe_stream s"
        "length (pending s) < length (pending (m_oSendStream p))"
      using send_step [OF Cons.prems(1) refl k(3) refl] by metis
    have "DoSend_loop (r # rs) p w = DoSend_loop rs (p\<lparr>m_oSendStream := s\<rparr>) ?w"
      using k s(1) Cons.prems(1) by (simp add: send_unfold pipe_stream_size Let_def)
    with Cons.IH [of "p\<lparr>m_oSendStream := s\<rparr>" ?w] s Cons.prems(2) show ?thesis by simp
  next
    case False
    then show ?thesis using Cons.prems(1)
      by (cases r) (auto simp: send_unfold pipe_stream_size Let_def)
  qed
qed

section \<open>Receiving\<close>

lemma DoClose_ok:
  assumes "DoClose p w = Inr (q, v)"
  shows "q = p\<lparr>m_nStatus := SS_UNINITIALIZE, m_lSocketHandler := - 1\<rparr>" "m_nStatus p \<noteq> SS_UNINITIALIZE"
    "calls v = calls w @ [EpollDel (m_lEpollFD p) (m_lSocketHandler p), CloseFd (m_lSocketHandler p)]"
  using assms by (auto simp: DoClose_def epoll_ctl_def log_call_def Let_def outcome_simps split: list.splits if_splits)

lemma DoRecv_loop_ok:
  assumes "DoRecv_loop rs nSize n p w = Inr (ev, q, v)" "pipe_stream (m_oRecvStream p)"
    "m_nStatus p \<noteq> SS_UNINITIALIZE" "0 \<le> n"
  shows "\<exists>bs. received (calls v) = received (calls w) @ bs \<and>
    pipe_stream (m_oRecvStream q) \<and> pending (m_oRecvStream q) = pending (m_oRecvStream p) @ bs \<and>
    m_oSendStream q = m_oSendStream p \<and> m_pHost q = m_pHost p \<and>
    (if ev = IO_EVENT_TYPE_BREAK then m_nStatus q = SS_UNINITIALIZE \<and> last (calls v) = CloseFd (m_lSocketHandler p)
     else m_nStatus q = m_nStatus p \<and> m_lSocketHandler q = m_lSocketHandler p \<and>
       ev = (if n > 0 \<or> bs \<noteq> [] then IO_EVENT_TYPE_RECV else IO_EVENT_TYPE_COUNT))"
  using assms
proof (induction rs arbitrary: n p w)
  case Nil
  then show ?case by (simp add: recv_unfold)
next
  case (Cons r rs)
  let ?bs = "case r of Received xs \<Rightarrow> take (nat nSize) xs | _ \<Rightarrow> []"
  let ?w = "log_call (CallRecv (m_lSocketHandler p) ?bs) (w\<lparr>recv_answers := rs\<rparr>)"
  have rec: "received (calls ?w) = received (calls w) @ ?bs" by (simp add: log_call_def)
  consider (none) "r = No_data" | (closed) "r \<noteq> No_data" "?bs = []" | (data) "?bs \<noteq> []" by blast
  then show ?case
  proof cases
    case none
    then have "ev = (if n > 0 then IO_EVENT_TYPE_RECV else IO_EVENT_TYPE_COUNT)" "q = p" "v = ?w"
      using Cons.prems(1) by (auto simp: recv_unfold Let_def)
    with rec none Cons.prems(2) show ?thesis by (intro exI [of _ "[]"]) simp
  next
    case closed
    then have c: "DoClose p ?w = Inr (q, v)" "ev = IO_EVENT_TYPE_BREAK"
      using Cons.prems(1) by (auto simp: recv_unfold Let_def outcome_simps split: recv_answer.splits)
    note d = DoClose_ok [OF c(1)]
    have "received (calls v) = received (calls w)" using d(3) rec closed(2) by simp
    with d c(2) Cons.prems(2) show ?thesis by (intro exI [of _ "[]"]) simp
  next
    case data
    then obtain xs where r: "r = Received xs" by (cases r) auto
    let ?n = "n + int (length ?bs)"
    from data r Cons.prems(1) obtain s where
      s: "in_s32 ?n" "TStream_in BUFF_SIZE ?bs (int (length ?bs)) (m_oRecvStream p) = Inr s"
        "DoRecv_loop rs nSize ?n (p\<lparr>m_oRecvStream := s\<rparr>) ?w = Inr (ev, q, v)"
      by (auto simp: recv_unfold Let_def outcome_simps)
    from buffer.push_law [OF Cons.prems(2) s(2)] have i: "pipe_stream s" "pending s = pending (m_oRecvStream p) @ ?bs"
      by simp_all
    have pos: "0 \<le> ?n" "0 < ?n" using Cons.prems(4) data by (cases ?bs; simp)+
    from Cons.IH [OF s(3)] i(1) Cons.prems(3) pos(1) obtain bs where
      b: "received (calls v) = received (calls ?w) @ bs" "pipe_stream (m_oRecvStream q)"
        "pending (m_oRecvStream q) = pending s @ bs" "m_oSendStream q = m_oSendStream p" "m_pHost q = m_pHost p"
        "if ev = IO_EVENT_TYPE_BREAK then m_nStatus q = SS_UNINITIALIZE \<and> last (calls v) = CloseFd (m_lSocketHandler p)
         else m_nStatus q = m_nStatus p \<and> m_lSocketHandler q = m_lSocketHandler p \<and>
           ev = (if ?n > 0 \<or> bs \<noteq> [] then IO_EVENT_TYPE_RECV else IO_EVENT_TYPE_COUNT)"
      by auto
    from b(1,3) rec i(2) have "received (calls v) = received (calls w) @ (?bs @ bs)"
      "pending (m_oRecvStream q) = pending (m_oRecvStream p) @ (?bs @ bs)" by simp_all
    with b(2,4-6) pos(2) data show ?thesis by (intro exI [of _ "?bs @ bs"]) (auto split: if_splits)
  qed
qed

section \<open>A connection's life\<close>

text \<open>
  What the two threads do to an established pipe: the host sends, the worker flushes
  (\<^verbatim>\<open>DoSend\<close>) and receives (\<^verbatim>\<open>DoRecv\<close>), the main loop consumes received bytes.
\<close>

datatype pipe_op = Op_Send "byte list" | Op_DoSend | Op_DoRecv | Op_Consume nat

text \<open>The worker receives only on an established pipe and flushes only one that is open.\<close>

fun do_pipe_op :: "s32 \<Rightarrow> pipe_op \<Rightarrow> cpipe \<times> sys \<Rightarrow> (cpipe \<times> sys) outcome" where
  "do_pipe_op nSize (Op_Send bs) (p, w) = CPipe_Send bs (int (length bs)) p w"
| "do_pipe_op nSize Op_DoSend (p, w) =
     (if m_nStatus p \<noteq> SS_UNINITIALIZE then bindE (DoSend p w) (\<lambda>(ev, p, w). Inr (p, w)) else Inr (p, w))"
| "do_pipe_op nSize Op_DoRecv (p, w) =
     (if m_nStatus p = SS_ESTABLISHED then bindE (DoRecv nSize p w) (\<lambda>(ev, p, w). Inr (p, w)) else Inr (p, w))"
| "do_pipe_op nSize (Op_Consume n) (p, w) =
     bindE (TStream_out (int n) (m_oRecvStream p)) (\<lambda>s. Inr (p\<lparr>m_oRecvStream := s\<rparr>, w))"

abbreviation pipe_ops :: "s32 \<Rightarrow> pipe_op list \<Rightarrow> cpipe \<times> sys \<Rightarrow> (cpipe \<times> sys) outcome" where
  "pipe_ops nSize \<equiv> runE (do_pipe_op nSize)"

fun consumed :: "pipe_op list \<Rightarrow> nat" where
  "consumed [] = 0"
| "consumed (Op_Consume n # ops) = n + consumed ops"
| "consumed (oper # ops) = consumed ops"

fun to_send :: "pipe_op list \<Rightarrow> byte list" where
  "to_send [] = []"
| "to_send (Op_Send bs # ops) = bs @ to_send ops"
| "to_send (oper # ops) = to_send ops"

definition pipe_ok :: "cpipe \<Rightarrow> bool" where
  "pipe_ok p \<longleftrightarrow> pipe_stream (m_oSendStream p) \<and> pipe_stream (m_oRecvStream p)"

definition alive :: "cpipe \<Rightarrow> sys \<Rightarrow> bool" where
  "alive p w \<longleftrightarrow> m_nStatus p = SS_ESTABLISHED \<and> list_all fine_answer (send_answers w) \<and> settled p"

lemma CPipe_Send_ok:
  assumes "CPipe_Send bs (int (length bs)) p w = Inr (q, v)" "pipe_ok p"
  shows "pipe_ok q \<and> sent (calls v) @ pending (m_oSendStream q) = sent (calls w) @ pending (m_oSendStream p) @ bs \<and>
    m_nStatus q = SS_ESTABLISHED \<and> received (calls v) = received (calls w) \<and>
    m_oRecvStream q = m_oRecvStream p \<and> (alive p w \<longrightarrow> alive q v)"
proof -
  from assms(1) obtain s where s: "m_nStatus p = SS_ESTABLISHED"
      "TStream_in BUFF_SIZE bs (int (length bs)) (m_oSendStream p) = Inr s"
      "(if m_bNeedSend p then Send_loop (send_answers w) (p\<lparr>m_oSendStream := s\<rparr>) w
        else Inr (p\<lparr>m_oSendStream := s\<rparr>, w)) = Inr (q, v)"
    by (auto simp: CPipe_Send_def Let_def outcome_simps split: if_splits)
  have i: "pipe_stream s" "pending s = pending (m_oSendStream p) @ bs"
    using buffer.push_law [OF _ s(2)] assms(2) by (simp_all add: pipe_ok_def)
  show ?thesis
  proof (cases "m_bNeedSend p")
    case True
    then have run: "Send_loop (send_answers w) (p\<lparr>m_oSendStream := s\<rparr>) w = Inr (q, v)" using s(3) by simp
    from Send_loop_ok [OF run _ refl] i s(1) assms(2) show ?thesis
      by (auto simp: sends_on_def same_but_send_iff alive_def pipe_ok_def)
  next
    case False
    then have "q = p\<lparr>m_oSendStream := s\<rparr>" "v = w" using s(3) by simp_all
    with i s(1) assms(2) False show ?thesis by (simp add: pipe_ok_def alive_def settled_def)
  qed
qed

lemma DoSend_ok:
  assumes "DoSend p w = Inr (ev, q, v)" "pipe_ok p"
  shows "pipe_ok q" "sent (calls v) @ pending (m_oSendStream q) = sent (calls w) @ pending (m_oSendStream p)"
    "m_nStatus q = m_nStatus p" "received (calls v) = received (calls w)" "m_oRecvStream q = m_oRecvStream p"
    "alive p w \<Longrightarrow> alive q v"
  using DoSend_loop_ok [of "send_answers w" p w ev q v] assms
  by (auto simp: DoSend_def sends_on_def same_but_send_iff alive_def pipe_ok_def)

lemma log_call_sent:
  "DoRecv_loop rs nSize n p w = Inr (ev, q, v) \<Longrightarrow>
   sent (calls v) = sent (calls w) \<and> send_answers v = send_answers w \<and> m_bNeedSend q = m_bNeedSend p"
proof (induction rs arbitrary: n p w)
  case (Cons r rs)
  from Cons.prems show ?case
    by (auto simp: recv_unfold Let_def log_call_def DoClose_def epoll_ctl_def outcome_simps
        dest!: Cons.IH split: if_splits list.splits)
qed (simp add: recv_unfold)

lemma DoRecv_ok:
  assumes "DoRecv nSize p w = Inr (ev, q, v)" "pipe_ok p" "m_nStatus p = SS_ESTABLISHED"
  obtains bs where "received (calls v) = received (calls w) @ bs" "pipe_ok q"
    "pending (m_oRecvStream q) = pending (m_oRecvStream p) @ bs" "sent (calls v) = sent (calls w)"
    "m_oSendStream q = m_oSendStream p" "send_answers v = send_answers w" "m_bNeedSend q = m_bNeedSend p"
    "if ev = IO_EVENT_TYPE_BREAK then m_nStatus q = SS_UNINITIALIZE \<and> last (calls v) = CloseFd (m_lSocketHandler p)
     else m_nStatus q = SS_ESTABLISHED \<and> ev = (if bs \<noteq> [] then IO_EVENT_TYPE_RECV else IO_EVENT_TYPE_COUNT)"
  using DoRecv_loop_ok [of "recv_answers w" nSize 0 p w ev q v] log_call_sent [of "recv_answers w" nSize 0 p w ev q v] assms
  by (auto simp: DoRecv_def pipe_ok_def split: if_splits)

text \<open>What one step keeps; \<open>xs\<close> are the bytes it adds on the send side, \<open>n\<close> those it consumes.\<close>

definition pipe_step_ok :: "byte list \<Rightarrow> nat \<Rightarrow> cpipe \<Rightarrow> sys \<Rightarrow> cpipe \<Rightarrow> sys \<Rightarrow> bool" where
  "pipe_step_ok xs n p w q v \<longleftrightarrow> pipe_ok q \<and>
     sent (calls v) @ pending (m_oSendStream q) = sent (calls w) @ pending (m_oSendStream p) @ xs \<and>
     (alive p w \<and> m_nStatus q = SS_ESTABLISHED \<longrightarrow> alive q v) \<and>
     (m_nStatus q = SS_ESTABLISHED \<longrightarrow> m_nStatus p = SS_ESTABLISHED) \<and>
     (\<exists>bs. received (calls v) = received (calls w) @ bs \<and>
        pending (m_oRecvStream q) = drop n (pending (m_oRecvStream p) @ bs) \<and>
        n \<le> length (pending (m_oRecvStream p) @ bs))"

lemma do_pipe_op_ok:
  assumes "do_pipe_op nSize oper (p, w) = Inr (q, v)" "pipe_ok p"
  shows "pipe_step_ok (to_send [oper]) (consumed [oper]) p w q v"
proof (cases oper)
  case (Op_Send bs)
  with assms(1) have run: "CPipe_Send bs (int (length bs)) p w = Inr (q, v)" by simp
  then have "m_nStatus p = SS_ESTABLISHED" by (auto simp: CPipe_Send_def outcome_simps)
  with CPipe_Send_ok [OF run assms(2)] Op_Send show ?thesis by (auto simp: pipe_step_ok_def)
next
  case Op_DoSend
  show ?thesis
  proof (cases "m_nStatus p = SS_UNINITIALIZE")
    case True
    with assms Op_DoSend show ?thesis by (simp add: pipe_step_ok_def)
  next
    case False
    with assms(1) Op_DoSend obtain ev where "DoSend p w = Inr (ev, q, v)" by (auto simp: outcome_simps)
    from DoSend_ok [OF this assms(2)] Op_DoSend show ?thesis by (auto simp: pipe_step_ok_def)
  qed
next
  case Op_DoRecv
  show ?thesis
  proof (cases "m_nStatus p = SS_ESTABLISHED")
    case True
    with assms(1) Op_DoRecv obtain ev where "DoRecv nSize p w = Inr (ev, q, v)" by (auto simp: outcome_simps)
    from DoRecv_ok [OF this assms(2) True] obtain bs where
      r: "received (calls v) = received (calls w) @ bs" "pipe_ok q"
        "pending (m_oRecvStream q) = pending (m_oRecvStream p) @ bs" "sent (calls v) = sent (calls w)"
        "m_oSendStream q = m_oSendStream p" "send_answers v = send_answers w" "m_bNeedSend q = m_bNeedSend p"
      by metis
    then show ?thesis using Op_DoRecv True by (simp add: pipe_step_ok_def alive_def settled_def)
  next
    case False
    with assms Op_DoRecv show ?thesis by (simp add: pipe_step_ok_def)
  qed
next
  case (Op_Consume n)
  with assms(1) obtain s where s: "TStream_out (int n) (m_oRecvStream p) = Inr s"
      "q = p\<lparr>m_oRecvStream := s\<rparr>" "v = w" by (auto simp: outcome_simps)
  have i: "pipe_stream (m_oRecvStream p)" using assms(2) by (simp add: pipe_ok_def)
  note o = buffer.pop_Inr [OF i s(1)]
  from buffer.pop_law [OF i o(1)] s(1) have "pending s = drop n (pending (m_oRecvStream p))" by simp
  with o s(2,3) assms(2) Op_Consume show ?thesis
    by (simp add: pipe_step_ok_def pipe_ok_def alive_def settled_def)
qed

lemma pipe_step_ok_trans:
  assumes "pipe_step_ok xs m p w p' w'" "pipe_step_ok ys n p' w' q v"
  shows "pipe_step_ok (xs @ ys) (m + n) p w q v"
proof -
  from assms(1) obtain bs where 1: "received (calls w') = received (calls w) @ bs"
      "pending (m_oRecvStream p') = drop m (pending (m_oRecvStream p) @ bs)"
      "m \<le> length (pending (m_oRecvStream p) @ bs)" by (auto simp: pipe_step_ok_def)
  from assms(2) obtain cs where 2: "received (calls v) = received (calls w') @ cs"
      "pending (m_oRecvStream q) = drop n (pending (m_oRecvStream p') @ cs)"
      "n \<le> length (pending (m_oRecvStream p') @ cs)" by (auto simp: pipe_step_ok_def)
  have "pending (m_oRecvStream p') @ cs = drop m (pending (m_oRecvStream p) @ bs @ cs)"
    using 1(2,3) by simp
  then have "pending (m_oRecvStream q) = drop (m + n) (pending (m_oRecvStream p) @ bs @ cs)"
    "m + n \<le> length (pending (m_oRecvStream p) @ bs @ cs)"
    using 2(2,3) 1(3) by (simp_all only: drop_drop length_drop add.commute) simp_all
  then have "\<exists>bs. received (calls v) = received (calls w) @ bs \<and>
      pending (m_oRecvStream q) = drop (m + n) (pending (m_oRecvStream p) @ bs) \<and>
      m + n \<le> length (pending (m_oRecvStream p) @ bs)"
    using 1(1) 2(1) by (intro exI [of _ "bs @ cs"]) simp
  with assms show ?thesis unfolding pipe_step_ok_def by (metis append.assoc)
qed

lemma pipe_ops_ok:
  "pipe_ops nSize ops (p, w) = Inr (q, v) \<Longrightarrow> pipe_ok p \<Longrightarrow> pipe_step_ok (to_send ops) (consumed ops) p w q v"
proof (induction ops arbitrary: p w)
  case Nil
  then show ?case by (simp add: pipe_step_ok_def)
next
  case (Cons oper ops)
  from Cons.prems(1) obtain p' w' where step: "do_pipe_op nSize oper (p, w) = Inr (p', w')"
      "pipe_ops nSize ops (p', w') = Inr (q, v)" by (auto simp: outcome_simps)
  note 1 = do_pipe_op_ok [OF step(1) Cons.prems(2)]
  then have "pipe_ok p'" by (simp add: pipe_step_ok_def)
  from pipe_step_ok_trans [OF 1 Cons.IH [OF step(2) this]] show ?case by (cases oper) simp_all
qed

text \<open>The contract of a connection, kept by the pipe of the Linux engine.\<close>

lemma to_send_concat: "concat (map (\<lambda>oper. to_send [oper]) ops) = to_send ops"
  by (induction ops rule: to_send.induct) simp_all

interpretation epoll_link: byte_link "do_pipe_op nSize" "\<lambda>_. True" "\<lambda>(p, w). pipe_ok p"
    "\<lambda>(p, w). sent (calls w)" "\<lambda>(p, w). pending (m_oSendStream p)" "\<lambda>oper. to_send [oper]"
    "\<lambda>(p, w). alive p w \<and> m_bNeedSend p" for nSize
proof unfold_locales
  fix c and s t :: "cpipe \<times> sys"
  assume s: "case s of (p, w) \<Rightarrow> pipe_ok p" and run: "do_pipe_op nSize c s = Inr t"
  obtain p w q v where pw: "s = (p, w)" "t = (q, v)" by (metis surj_pair)
  from do_pipe_op_ok [OF run [unfolded pw]] s pw have "pipe_step_ok (to_send [c]) (consumed [c]) p w q v" by simp
  then show "case t of (p, w) \<Rightarrow> pipe_ok p"
    "(case t of (p, w) \<Rightarrow> sent (calls w)) @ (case t of (p, w) \<Rightarrow> pending (m_oSendStream p)) =
      (case s of (p, w) \<Rightarrow> sent (calls w)) @ (case s of (p, w) \<Rightarrow> pending (m_oSendStream p)) @ to_send [c]"
    by (simp_all add: pipe_step_ok_def pw)
qed (auto simp: alive_def settled_def)

section \<open>A concrete connection\<close>

definition example_pipe :: cpipe where
  "example_pipe = CPipe_new\<lparr>m_nStatus := SS_ESTABLISHED, m_lSocketHandler := 5, m_lEpollFD := 4, m_pHost := 1\<rparr>"

definition example_sys :: sys where
  "example_sys = \<lparr>send_answers = [Accept 2, Would_block, Accept 9], recv_answers = [Received [7, 8], No_data],
     ctl_answers = [], calls = []\<rparr>"

lemma example_pipe_ok: "pipe_ok example_pipe"
  by (simp add: pipe_ok_def example_pipe_def CPipe_new_def stream_inv_new in_s32_def)


definition example_ops :: "pipe_op list" where
  "example_ops = [Op_Send [1, 2, 3], Op_DoRecv, Op_Send [4], Op_DoSend, Op_Consume 1]"

lemmas pipe_eval = example_pipe_def CPipe_new_def example_sys_def CPipe_Send_def TStream_new_def
  TStream_in_def make_room_def send_unfold recv_unfold DoRecv_def DoSend_def Let_def TStream_size_def accepted_def
  pending_def TStream_buff_def blit_def TStream_out_def in_s32_def log_call_def in_s64_def

lemma example_run:
  "\<exists>q v. pipe_ops 1024 example_ops (example_pipe, example_sys) = Inr (q, v) \<and>
     sent (calls v) = [1, 2, 3, 4] \<and> pending (m_oRecvStream q) = [8] \<and> received (calls v) = [7, 8]"
  by (simp add: example_ops_def pipe_eval)

section \<open>Properties\<close>

text \<open>
  C2: The bytes a session sends reach the socket complete and in order, whatever the socket
  accepts at a time and however \<^verbatim>\<open>Send\<close>, the worker's flushes, receives and the main loop's
  reads interleave: what the system took, followed by what still waits in the stream, is
  exactly what was given to \<^verbatim>\<open>Send\<close>. And no wake-up is lost: as long as the socket does not
  fail, an open pipe whose \<open>m_bNeedSend\<close> is set (no flush requested) has nothing waiting.
\<close>

theorem pipe_sends_in_order:
  assumes "pipe_ops nSize ops (p, w) = Inr (q, v)" "pipe_ok p"
  shows "sent (calls v) @ pending (m_oSendStream q) = sent (calls w) @ pending (m_oSendStream p) @ to_send ops \<and>
    (alive p w \<and> m_nStatus q = SS_ESTABLISHED \<longrightarrow> m_bNeedSend q \<longrightarrow> pending (m_oSendStream q) = [])"
  using epoll_link.run_bytes [of "(p, w)" ops nSize "(q, v)"] pipe_ops_ok [OF assms] assms
  by (auto simp: to_send_concat list_all_iff pipe_step_ok_def alive_def settled_def)

theorem pipe_sends_in_order_witness:
  "\<exists>q v. pipe_ops 1024 example_ops (example_pipe, example_sys) = Inr (q, v) \<and>
     sent (calls v) @ pending (m_oSendStream q) = [1, 2, 3, 4] \<and> sent (calls v) = [1, 2, 3, 4]"
proof -
  obtain q v where r: "pipe_ops 1024 example_ops (example_pipe, example_sys) = Inr (q, v)" "sent (calls v) = [1, 2, 3, 4]"
    using example_run by blast
  from pipe_sends_in_order [OF r(1) example_pipe_ok] r show ?thesis
    by (auto simp: example_ops_def example_sys_def example_pipe_def CPipe_new_def)
qed

text \<open>
  C24: What the socket delivers is kept complete and in order on the receive side: the bytes
  pending in the receive stream are those that were pending and those \<^verbatim>\<open>recv\<close> returned since,
  without the ones consumed.
\<close>

theorem pipe_receives_in_order:
  assumes "pipe_ops nSize ops (p, w) = Inr (q, v)" "pipe_ok p"
  shows "\<exists>bs. received (calls v) = received (calls w) @ bs \<and>
    pending (m_oRecvStream q) = drop (consumed ops) (pending (m_oRecvStream p) @ bs)"
  using pipe_ops_ok [OF assms] by (auto simp: pipe_step_ok_def)

theorem pipe_receives_in_order_witness:
  "\<exists>q v bs. pipe_ops 1024 example_ops (example_pipe, example_sys) = Inr (q, v) \<and> received (calls v) = bs \<and>
     pending (m_oRecvStream q) = drop 1 bs \<and> bs = [7, 8]"
proof -
  obtain q v where r: "pipe_ops 1024 example_ops (example_pipe, example_sys) = Inr (q, v)" "received (calls v) = [7, 8]"
    using example_run by blast
  from pipe_receives_in_order [OF r(1) example_pipe_ok] r show ?thesis
    by (auto simp: example_ops_def example_sys_def example_pipe_def CPipe_new_def)
qed

text \<open>
  \<^verbatim>\<open>DoRecv\<close> reads until the socket has nothing more: what it returns says what happened. On
  \<^verbatim>\<open>BREAK\<close> the pipe was closed and its socket released, with the bytes received before the end
  kept for the host; otherwise it stays open, and \<^verbatim>\<open>RECV\<close> comes exactly when bytes arrived.
\<close>

theorem pipe_recv_event:
  assumes "DoRecv nSize p w = Inr (ev, q, v)" "pipe_ok p" "m_nStatus p = SS_ESTABLISHED"
  shows "\<exists>bs. received (calls v) = received (calls w) @ bs \<and>
    pending (m_oRecvStream q) = pending (m_oRecvStream p) @ bs \<and>
    (if ev = IO_EVENT_TYPE_BREAK then m_nStatus q = SS_UNINITIALIZE \<and> last (calls v) = CloseFd (m_lSocketHandler p)
     else m_nStatus q = SS_ESTABLISHED \<and> ev = (if bs \<noteq> [] then IO_EVENT_TYPE_RECV else IO_EVENT_TYPE_COUNT))"
  using DoRecv_ok [OF assms] by metis

theorem pipe_recv_event_witness:
  "\<exists>q v bs. DoRecv 1024 example_pipe example_sys = Inr (IO_EVENT_TYPE_RECV, q, v) \<and>
     pending (m_oRecvStream q) = bs \<and> bs \<noteq> []"
proof -
  have "\<exists>q v. DoRecv 1024 example_pipe example_sys = Inr (IO_EVENT_TYPE_RECV, q, v)"
    by (simp add: pipe_eval)
  then obtain q v where r: "DoRecv 1024 example_pipe example_sys = Inr (IO_EVENT_TYPE_RECV, q, v)" by blast
  have "m_nStatus example_pipe = SS_ESTABLISHED" by (simp add: example_pipe_def)
  from pipe_recv_event [OF r example_pipe_ok this] r show ?thesis
    by (auto simp: example_pipe_def CPipe_new_def split: if_splits)
qed

text \<open>
  \<^verbatim>\<open>DoSend\<close> cannot spin: each of its iterations but the last makes the socket take at least
  one byte, so it returns after at most as many \<^verbatim>\<open>send\<close> calls as bytes are waiting, whatever
  the socket answers.
\<close>

theorem pipe_flush_returns:
  assumes "pipe_ok p" "length (pending (m_oSendStream p)) \<le> length (send_answers w)"
  shows "\<exists>ev q v. DoSend p w = Inr (ev, q, v)"
  using DoSend_loop_returns [of p "send_answers w" w] assms by (simp add: DoSend_def pipe_ok_def)

theorem pipe_flush_returns_witness:
  "\<exists>ev q v. DoSend example_pipe example_sys = Inr (ev, q, v)"
  by (rule pipe_flush_returns [OF example_pipe_ok]) (simp add: example_pipe_def CPipe_new_def)

end
