(* ===== verification/Threads.thy ===== *)
theory Threads
  imports Prelude
begin

text \<open>
  src/Public/CThread.h and CThread.cpp, CLockUnit.h (the Linux branches) and CLock.h: threads,
  the mutex and its scope guard. The POSIX calls are written as the standard states them: a
  default mutex knows its holder, locking a held mutex waits (\<open>None\<close>: the call does not return
  until somebody unlocks), unlocking a mutex the thread does not hold is undefined, and so is
  destroying a held one. What \<^verbatim>\<open>pthread_create\<close>, \<^verbatim>\<open>pthread_join\<close> and \<^verbatim>\<open>pthread_cancel\<close> answer is
  an argument.
\<close>

section \<open>CThread\<close>

datatype thread_status = THREAD_STOPED | THREAD_WORKING | THREAD_STOPPING

record cthread =
  thread_status :: thread_status
  m_hThread :: u64

text \<open>The constructor leaves the status as the memory was.\<close>

definition CThread_new :: "thread_status \<Rightarrow> cthread" where
  "CThread_new junk = \<lparr>thread_status = junk, m_hThread = 0\<rparr>"

text \<open>
  The loop of \<^verbatim>\<open>Start\<close> over the answers of \<^verbatim>\<open>pthread_create\<close> (its result and the thread's id);
  the middle component lists the threads that now run \<^verbatim>\<open>Run\<close>.
\<close>

fun start_threads :: "(s32 \<times> u64) list \<Rightarrow> cthread \<Rightarrow> bool \<times> u64 list \<times> cthread" where
  "start_threads [] th = (True, [], th)"
| "start_threads ((ret, ptid) # as) th =
     (if ret \<noteq> 0 then (False, [], th)
      else let (ok, ts, th) = start_threads as (th\<lparr>m_hThread := ptid\<rparr>) in (ok, ptid # ts, th))"

definition CThread_Start :: "(nat \<Rightarrow> s32 \<times> u64) \<Rightarrow> s32 \<Rightarrow> cthread \<Rightarrow> bool \<times> u64 list \<times> cthread" where
  "CThread_Start pthread_create threadcount th =
     start_threads (map pthread_create [0..<nat threadcount]) th"

text \<open>\<^verbatim>\<open>ThreadProc\<close>: the body of a created thread; \<open>run\<close> is the virtual \<^verbatim>\<open>Run\<close>.\<close>

definition ThreadProc :: "'t option \<Rightarrow> ('t \<Rightarrow> 't outcome) \<Rightarrow> 't outcome" where
  "ThreadProc pThis run =
     bindE (TASSERT (pThis \<noteq> None) ''a null thread owner point'') (\<lambda>_.
       case pThis of None \<Rightarrow> Inl NullPointer | Some th \<Rightarrow> run th)"

definition CThread_Wait :: "(u64 \<Rightarrow> s32) \<Rightarrow> cthread \<Rightarrow> bool" where
  "CThread_Wait pthread_join th = (if pthread_join (m_hThread th) \<noteq> 0 then False else True)"

definition CThread_Terminate :: "(u64 \<Rightarrow> s32) \<Rightarrow> cthread \<Rightarrow> bool" where
  "CThread_Terminate pthread_cancel th = (if pthread_cancel (m_hThread th) = 0 then True else False)"

lemma start_threads_all:
  "\<forall>a \<in> set as. fst a = 0 \<Longrightarrow>
     start_threads as th = (True, map snd as, th\<lparr>m_hThread := last (m_hThread th # map snd as)\<rparr>)"
  by (induction as arbitrary: th) auto

text \<open>Of the threads one \<^verbatim>\<open>Start\<close> creates, \<^verbatim>\<open>Wait\<close> joins the last one only.\<close>

lemma start_then_wait_joins_last:
  assumes "\<And>i. fst (pthread_create i) = 0" "0 < n"
  shows "\<exists>th'. CThread_Start pthread_create n th =
      (True, map (\<lambda>i. snd (pthread_create i)) [0..<nat n], th') \<and>
    (CThread_Wait pthread_join th' \<longleftrightarrow> pthread_join (snd (pthread_create (nat n - 1))) = 0)"
  using assms by (auto simp: CThread_Wait_def CThread_Start_def start_threads_all last_map o_def)

text \<open>A failed creation stops the loop: the threads started before it keep running.\<close>

lemma start_threads_fail:
  "\<forall>a \<in> set as. fst a = 0 \<Longrightarrow> ret \<noteq> 0 \<Longrightarrow>
     fst (start_threads (as @ (ret, t) # bs) th) = False \<and>
     fst (snd (start_threads (as @ (ret, t) # bs) th)) = map snd as"
  by (induction as arbitrary: th) (auto simp: Let_def case_prod_beta)

section \<open>CLockUnit\<close>

type_synonym thread_id = nat

record lockunit =
  m_lock :: "thread_id option"

definition CLockUnit_new :: lockunit where
  "CLockUnit_new = \<lparr>m_lock = None\<rparr>"

definition CLockUnit_delete :: "lockunit \<Rightarrow> unit outcome" where
  "CLockUnit_delete u = (if m_lock u = None then Inr () else Inl BadDelete)"

definition CLockUnit_Clear :: "lockunit \<Rightarrow> lockunit outcome" where
  "CLockUnit_Clear u = bindE (CLockUnit_delete u) (\<lambda>_. Inr CLockUnit_new)"

definition CLockUnit_Lock :: "thread_id \<Rightarrow> lockunit \<Rightarrow> lockunit option" where
  "CLockUnit_Lock t u = (if m_lock u = None then Some (u\<lparr>m_lock := Some t\<rparr>) else None)"

definition CLockUnit_UnLock :: "thread_id \<Rightarrow> lockunit \<Rightarrow> lockunit outcome" where
  "CLockUnit_UnLock t u = (if m_lock u = Some t then Inr (u\<lparr>m_lock := None\<rparr>) else Inl BadUnlock)"

text \<open>\<^verbatim>\<open>!pthread_mutex_trylock\<close>: zero means that the lock was taken.\<close>

definition CLockUnit_TryLock :: "thread_id \<Rightarrow> lockunit \<Rightarrow> bool \<times> lockunit" where
  "CLockUnit_TryLock t u =
     (case CLockUnit_Lock t u of None \<Rightarrow> (False, u) | Some v \<Rightarrow> (True, v))"

section \<open>CLock\<close>

text \<open>
  The guard of one lock unit. The constructor takes a pointer (\<open>None\<close> is \<^verbatim>\<open>NULL\<close>) and gives no
  value while the lock is held.
\<close>

definition CLock_new :: "thread_id \<Rightarrow> lockunit option \<Rightarrow> lockunit option outcome" where
  "CLock_new t pLock =
     bindE (TASSERT (pLock \<noteq> None) ''CLockUnit point null'') (\<lambda>_.
       case pLock of None \<Rightarrow> Inl NullPointer | Some u \<Rightarrow> Inr (CLockUnit_Lock t u))"

definition CLock_Free :: "thread_id \<Rightarrow> lockunit option \<Rightarrow> lockunit outcome" where
  "CLock_Free t pLock =
     bindE (TASSERT (pLock \<noteq> None) ''CLockUnit point null'') (\<lambda>_.
       case pLock of None \<Rightarrow> Inl NullPointer | Some u \<Rightarrow> CLockUnit_UnLock t u)"

definition CLock_delete :: "thread_id \<Rightarrow> lockunit \<Rightarrow> lockunit outcome" where
  "CLock_delete t u = CLockUnit_UnLock t u"

text \<open>
  Threads that guard their critical sections with one lock: a thread enters (the guard is
  constructed), may release early with \<^verbatim>\<open>Free\<close>, and leaves the scope (the guard is destroyed).
\<close>

datatype lock_event = Enter thread_id | Early thread_id | Leave thread_id

fun lock_step :: "lock_event \<Rightarrow> lockunit \<Rightarrow> lockunit option outcome" where
  "lock_step (Enter t) u = CLock_new t (Some u)"
| "lock_step (Early t) u = bindE (CLock_Free t (Some u)) (\<lambda>v. Inr (Some v))"
| "lock_step (Leave t) u = bindE (CLock_delete t u) (\<lambda>v. Inr (Some v))"

text \<open>A schedule in which every step can be taken: a waiting \<open>Enter\<close> is not chosen.\<close>

fun lock_run :: "lock_event list \<Rightarrow> lockunit \<Rightarrow> lockunit option outcome" where
  "lock_run [] u = Inr (Some u)"
| "lock_run (e # es) u =
     bindE (lock_step e u) (\<lambda>r. case r of None \<Rightarrow> Inr None | Some v \<Rightarrow> lock_run es v)"

text \<open>The threads inside their scope after a schedule without early releases.\<close>

fun inside :: "lock_event list \<Rightarrow> thread_id list" where
  "inside [] = []"
| "inside (Enter t # es) = t # inside es"
| "inside (Early t # es) = inside es"
| "inside (Leave t # es) = removeAll t (inside es)"

lemmas lock_defs = CLock_new_def CLock_Free_def CLock_delete_def CLockUnit_Lock_def CLockUnit_UnLock_def

lemma lock_run_append:
  "lock_run (es @ fs) u =
     bindE (lock_run es u) (\<lambda>r. case r of None \<Rightarrow> Inr None | Some v \<Rightarrow> lock_run fs v)"
  by (induction es arbitrary: u) (auto simp: bindE_def split: sum.splits option.splits)

text \<open>Mutual exclusion: guards that are never freed early admit one thread at a time.\<close>

lemma guards_exclusive:
  "lock_run (rev es) CLockUnit_new = Inr (Some u) \<Longrightarrow> (\<And>t. Early t \<notin> set es) \<Longrightarrow>
     inside es = (case m_lock u of None \<Rightarrow> [] | Some t \<Rightarrow> [t])"
proof (induction es arbitrary: u)
  case Nil
  then show ?case by (auto simp: CLockUnit_new_def)
next
  case (Cons e es)
  from Cons.prems(1) obtain v where v: "lock_run (rev es) CLockUnit_new = Inr (Some v)"
      "lock_step e v = Inr (Some u)"
    by (auto simp: lock_run_append outcome_simps split: option.splits)
  have "inside es = (case m_lock v of None \<Rightarrow> [] | Some t \<Rightarrow> [t])"
    using Cons.IH [OF v(1)] Cons.prems(2) by simp
  with v(2) Cons.prems(2) show ?case
    by (cases e) (auto simp: lock_defs outcome_simps split: if_splits option.splits)
qed

text \<open>
  After \<^verbatim>\<open>Free\<close> the guard still unlocks at the end of its scope. Whatever other threads do in
  between, that second unlock is undefined.
\<close>

lemma others_never_hold:
  "lock_run es u = Inr (Some v) \<Longrightarrow> Enter t \<notin> set es \<Longrightarrow> m_lock u \<noteq> Some t \<Longrightarrow> m_lock v \<noteq> Some t"
proof (induction es arbitrary: u)
  case (Cons e es)
  from Cons.prems obtain w where w: "lock_step e u = Inr (Some w)" "lock_run es w = Inr (Some v)"
    by (auto simp: outcome_simps split: option.splits)
  have "m_lock w \<noteq> Some t"
    using w(1) Cons.prems(2,3) by (cases e) (auto simp: lock_defs outcome_simps split: if_splits)
  with Cons.IH [OF w(2)] Cons.prems(2) show ?case by simp
qed simp

text \<open>
  A scope guard that was released early with \<^verbatim>\<open>Free\<close> unlocks the mutex again when its scope
  ends, whatever the other threads did in between: the mutex is then not held by this thread, and
  unlocking it is undefined.
\<close>

theorem lock_guard_unlocks_twice:
  assumes "lock_run (Enter t # before @ [Early t]) CLockUnit_new = Inr (Some u)"
    and "lock_run others u = Inr (Some v)" "Enter t \<notin> set others"
  shows "CLock_delete t v = Inl BadUnlock"
proof -
  from assms(1) obtain w where "lock_step (Early t) w = Inr (Some u)"
    by (auto simp: lock_run_append outcome_simps split: option.splits)
  then have "m_lock u \<noteq> Some t" by (auto simp: lock_defs outcome_simps split: if_splits)
  from others_never_hold [OF assms(2,3) this] show ?thesis by (simp add: lock_defs)
qed

theorem lock_guard_unlocks_twice_witness:
  "\<exists>u v. lock_run [Enter 1, Early 1] CLockUnit_new = Inr (Some u) \<and>
     lock_run [Enter 2] u = Inr (Some v) \<and> CLock_delete 1 v = Inl BadUnlock"
  using lock_guard_unlocks_twice [of 1 "[]" "\<lparr>m_lock = None\<rparr>" "[Enter 2]" "\<lparr>m_lock = Some 2\<rparr>"]
  by (simp add: lock_defs CLockUnit_new_def)

end
