(* ===== verification/Net_Worker.thy ===== *)
theory Net_Worker
  imports Net_Pipe Pool Queue Threads
begin

text \<open>
  src/kernel/net/epoll/epollWorker.h and epollWorker.cpp, with the parts of CPipe.h and
  CPipe.cpp that reach beyond one pipe. A worker thread (\<^verbatim>\<open>Run\<close>) waits for socket events,
  receives and flushes, and queues what the main thread must hear of; \<^verbatim>\<open>Processing\<close>, on the
  main thread, takes the queued events and calls the sessions.

  Sessions are code outside the engine: \<open>hosts\<close> gives, as functions of everything that
  happened before, what \<^verbatim>\<open>OnRecv\<close> returns, which calls a callback makes to its own or another
  session (\<^verbatim>\<open>Send\<close>, \<^verbatim>\<open>Close\<close>), and the session \<^verbatim>\<open>MallocConnection\<close> returns. \<open>gettime\<close> is the
  wall clock, by reading. Pipes live in their pool and are named by their address there.
\<close>

section \<open>State\<close>

record ioevent =
  io_type :: io_event_type
  pCPipe :: uaddr

record worker =
  w_nStatus :: thread_status
  w_lEpollFd :: s64
  m_lOptCount :: s64
  m_oEventQueue :: "ioevent tqueue"

datatype host_event =
    OnRecv host "byte list"
  | OnDisconnect host
  | OnConnected host
  | OnConnectFailed host
  | MallocConnection host
  | ServerError host

datatype host_request = HostSend host "byte list" | HostClose host

record hosts =
  on_recv :: "host_event list \<Rightarrow> s32"
  on_call :: "host_event list \<Rightarrow> host_request list"
  on_malloc :: "host_event list \<Rightarrow> host"

record net =
  s_oCPipePool :: "cpipe tpool"
  session_pipe :: "host \<rightharpoonup> uaddr"
  workers :: "worker list"
  os :: sys
  clock_reads :: nat
  history :: "host_event list"

text \<open>\<^verbatim>\<open>sizeof(type_info)\<close> of the pipe pool.\<close>

abbreviation (input) pipe_sz :: nat where "pipe_sz \<equiv> 168"

definition pipe_at :: "net \<Rightarrow> uaddr \<Rightarrow> cpipe" where
  "pipe_at st a = get_unit (s_oCPipePool st) a"

definition set_pipe :: "uaddr \<Rightarrow> cpipe \<Rightarrow> net \<Rightarrow> net" where
  "set_pipe a p st = st\<lparr>s_oCPipePool := put_unit a p (s_oCPipePool st)\<rparr>"

text \<open>An operation of one pipe, on the pipe at an address.\<close>

definition on_pipe :: "uaddr \<Rightarrow> (cpipe \<Rightarrow> sys \<Rightarrow> (cpipe \<times> sys) outcome) \<Rightarrow> net \<Rightarrow> net outcome" where
  "on_pipe a f st = bindE (f (pipe_at st a) (os st)) (\<lambda>(p, w). Inr ((set_pipe a p st)\<lparr>os := w\<rparr>))"

definition on_pipe_ev ::
    "uaddr \<Rightarrow> (cpipe \<Rightarrow> sys \<Rightarrow> (io_event_type \<times> cpipe \<times> sys) outcome) \<Rightarrow> net \<Rightarrow> (io_event_type \<times> net) outcome" where
  "on_pipe_ev a f st =
     bindE (f (pipe_at st a) (os st)) (\<lambda>(ev, p, w). Inr (ev, (set_pipe a p st)\<lparr>os := w\<rparr>))"

definition worker_new :: "ioevent list \<Rightarrow> worker" where
  "worker_new junk = \<lparr>w_nStatus = THREAD_STOPED, w_lEpollFd = - 1, m_lOptCount = 0, m_oEventQueue = TQueue_new junk\<rparr>"

definition GetEpollFD :: "worker \<Rightarrow> s64 outcome" where
  "GetEpollFD wk = bindE (TASSERT (w_lEpollFd wk \<noteq> - 1) ''wtf'') (\<lambda>_. Inr (w_lEpollFd wk))"

text \<open>\<open>fd\<close> is what \<^verbatim>\<open>epoll_create\<close> returned.\<close>

definition worker_Initialize :: "s64 \<Rightarrow> worker \<Rightarrow> bool \<times> worker" where
  "worker_Initialize fd wk =
     (let wk = wk\<lparr>w_lEpollFd := fd\<rparr> in
      if - 1 = w_lEpollFd wk then (False, wk\<lparr>w_lEpollFd := - 1\<rparr>) else (True, wk))"

section \<open>Sessions\<close>

text \<open>\<^verbatim>\<open>ITcpSession::Send\<close> and \<^verbatim>\<open>Close\<close> go through \<open>m_pPipe\<close>.\<close>

fun do_host_request :: "host_request \<Rightarrow> net \<Rightarrow> net outcome" where
  "do_host_request (HostSend h bs) st =
     (case session_pipe st h of None \<Rightarrow> Inl NullPointer
      | Some a \<Rightarrow> on_pipe a (CPipe_Send bs (int (length bs))) st)"
| "do_host_request (HostClose h) st =
     (case session_pipe st h of None \<Rightarrow> Inl NullPointer | Some a \<Rightarrow> on_pipe a CPipe_Close st)"

fun do_host_requests :: "host_request list \<Rightarrow> net \<Rightarrow> net outcome" where
  "do_host_requests [] st = Inr st"
| "do_host_requests (r # rs) st = bindE (do_host_request r st) (do_host_requests rs)"

text \<open>A virtual call on a session, and everything it does before it returns.\<close>

definition call_host :: "hosts \<Rightarrow> host \<Rightarrow> host_event \<Rightarrow> net \<Rightarrow> net outcome" where
  "call_host hs h e st =
     (if h = 0 then Inl NullPointer
      else do_host_requests (on_call hs (history st @ [e])) (st\<lparr>history := history st @ [e]\<rparr>))"

section \<open>The worker thread\<close>

definition has_flag :: "u32 \<Rightarrow> u32 \<Rightarrow> bool" where
  "has_flag events fl \<longleftrightarrow> events AND fl \<noteq> 0"

text \<open>
  One event of \<^verbatim>\<open>Run\<close>. Every event source of a worker's epoll is a \<^verbatim>\<open>CPipe\<close>, whose event
  record has the type \<^verbatim>\<open>SO_CONNECT\<close>. \<^verbatim>\<open>Add\<close> on a full queue spins until the main thread reads.
\<close>

definition queue_event :: "nat \<Rightarrow> ioevent \<Rightarrow> net \<Rightarrow> net outcome" where
  "queue_event i e st =
     (case TQueue_Add e (m_oEventQueue (workers st ! i)) of
        None \<Rightarrow> Inl Diverges
      | Some q \<Rightarrow> Inr (st\<lparr>workers := (workers st)[i := (workers st ! i)\<lparr>m_oEventQueue := q\<rparr>]\<rparr>))"

definition Run_event :: "s32 \<Rightarrow> nat \<Rightarrow> uaddr \<Rightarrow> u32 \<Rightarrow> net \<Rightarrow> net outcome" where
  "Run_event nSize i a events st =
     bindE (if has_flag events EPOLLIN \<and> m_nStatus (pipe_at st a) = SS_ESTABLISHED
            then on_pipe_ev a (DoRecv nSize) st else Inr (IO_EVENT_TYPE_COUNT, st)) (\<lambda>(eventType, st).
     bindE (if has_flag events EPOLLOUT \<and> m_nStatus (pipe_at st a) \<noteq> SS_UNINITIALIZE
            then bindE (on_pipe_ev a DoSend st) (\<lambda>(ty, st).
              Inr (if eventType \<noteq> IO_EVENT_TYPE_BREAK \<and> ty \<noteq> IO_EVENT_TYPE_COUNT then ty else eventType, st))
            else Inr (eventType, st)) (\<lambda>(eventType, st).
     bindE (if has_flag events (EPOLLERR OR EPOLLHUP OR EPOLLRDHUP) \<and> m_nStatus (pipe_at st a) \<noteq> SS_UNINITIALIZE
            then on_pipe a DoClose st else Inr st) (\<lambda>st.
     if eventType \<noteq> IO_EVENT_TYPE_COUNT then queue_event i \<lparr>io_type = eventType, pCPipe = a\<rparr> st else Inr st)))"

fun Run_events :: "s32 \<Rightarrow> nat \<Rightarrow> (uaddr \<times> u32) list \<Rightarrow> net \<Rightarrow> net outcome" where
  "Run_events nSize i [] st = Inr st"
| "Run_events nSize i ((a, ev) # es) st = bindE (Run_event nSize i a ev st) (Run_events nSize i es)"

text \<open>What \<^verbatim>\<open>epoll_wait\<close> reports: nothing in 5 ms, an error (\<^verbatim>\<open>errno == EINTR\<close> or not), or events.\<close>

datatype wait_answer = Timeout | Wait_error bool | Ready "(uaddr \<times> u32) list"

text \<open>The thread runs over the answers of \<^verbatim>\<open>epoll_wait\<close>; it stops when \<^verbatim>\<open>Terminate\<close> asked it to.\<close>

fun Run_loop :: "s32 \<Rightarrow> nat \<Rightarrow> wait_answer list \<Rightarrow> net \<Rightarrow> net outcome" where
  "Run_loop nSize i ans st =
     (if w_nStatus (workers st ! i) = THREAD_STOPPING then
        Inr (st\<lparr>workers := (workers st)[i := (workers st ! i)\<lparr>w_nStatus := THREAD_STOPED\<rparr>]\<rparr>)
      else case ans of
        [] \<Rightarrow> Inl Diverges
      | Timeout # ans' \<Rightarrow> Run_loop nSize i ans' st
      | Wait_error eintr # ans' \<Rightarrow> bindE (TASSERT eintr ''epoll_wait err!'') (\<lambda>_. Run_loop nSize i ans' st)
      | Ready es # ans' \<Rightarrow> bindE (Run_events nSize i es st) (Run_loop nSize i ans'))"

definition Run :: "s32 \<Rightarrow> nat \<Rightarrow> wait_answer list \<Rightarrow> net \<Rightarrow> net outcome" where
  "Run nSize i ans st =
     Run_loop nSize i ans (st\<lparr>workers := (workers st)[i := (workers st ! i)\<lparr>w_nStatus := THREAD_WORKING\<rparr>]\<rparr>)"

section \<open>The main thread\<close>

text \<open>The \<^verbatim>\<open>do ... while (0 != nUse)\<close> around \<^verbatim>\<open>OnRecv\<close>; \<open>fuel\<close> bounds its iterations.\<close>

fun deliver :: "nat \<Rightarrow> hosts \<Rightarrow> uaddr \<Rightarrow> net \<Rightarrow> net outcome" where
  "deliver 0 hs a st = Inl Diverges"
| "deliver (Suc fuel) hs a st =
     (let nLeft = TStream_size (m_oRecvStream (pipe_at st a)) in
      bindE (TASSERT (nLeft \<ge> 0) ''wtf'') (\<lambda>_.
      if nLeft > 0 then
        let h = m_pHost (pipe_at st a);
            e = OnRecv h (pending (m_oRecvStream (pipe_at st a)));
            nUse = on_recv hs (history st @ [e]) in
        bindE (call_host hs h e st) (\<lambda>st.
        bindE (if nUse > 0 then
                 bindE (TStream_out nUse (m_oRecvStream (pipe_at st a))) (\<lambda>s.
                 Inr (set_pipe a ((pipe_at st a)\<lparr>m_oRecvStream := s\<rparr>) st))
               else Inr st) (\<lambda>st.
        if nUse \<noteq> 0 then deliver fuel hs a st else Inr st))
      else Inr st))"

definition deal_ioevent :: "nat \<Rightarrow> hosts \<Rightarrow> ioevent \<Rightarrow> net \<Rightarrow> net outcome" where
  "deal_ioevent fuel hs e st =
     (case io_type e of
        IO_EVENT_TYPE_BREAK \<Rightarrow>
          bindE (deliver fuel hs (pCPipe e) st) (\<lambda>st.
            call_host hs (m_pHost (pipe_at st (pCPipe e))) (OnDisconnect (m_pHost (pipe_at st (pCPipe e)))) st)
      | IO_EVENT_TYPE_RECV \<Rightarrow> deliver fuel hs (pCPipe e) st
      | _ \<Rightarrow> bindE (TASSERT False ''wtf'') (\<lambda>_. Inr st))"

definition read_clock :: "(nat \<Rightarrow> int) \<Rightarrow> net \<Rightarrow> s64 \<times> net" where
  "read_clock gettime st = (to_s64 (gettime (clock_reads st)), st\<lparr>clock_reads := Suc (clock_reads st)\<rparr>)"

definition read_queue :: "nat \<Rightarrow> net \<Rightarrow> (ioevent \<times> net) option" where
  "read_queue i st =
     (case TQueue_Read (m_oEventQueue (workers st ! i)) of
        None \<Rightarrow> None
      | Some (e, q) \<Rightarrow> Some (e, st\<lparr>workers := (workers st)[i := (workers st ! i)\<lparr>m_oEventQueue := q\<rparr>]\<rparr>))"

text \<open>\<open>n\<close> bounds the events read in one call; the queue holds at most 4096.\<close>

fun Processing_loop :: "nat \<Rightarrow> nat \<Rightarrow> (nat \<Rightarrow> int) \<Rightarrow> hosts \<Rightarrow> nat \<Rightarrow> s64 \<Rightarrow> s64 \<Rightarrow> net \<Rightarrow> (s64 \<times> net) outcome" where
  "Processing_loop 0 fuel gettime hs i overtime lTick st = Inl Diverges"
| "Processing_loop (Suc n) fuel gettime hs i overtime lTick st =
     (case read_queue i st of
        None \<Rightarrow> let (now, st) = read_clock gettime st in bindE (chk_s64 (now - lTick)) (\<lambda>use. Inr (use, st))
      | Some (e, st) \<Rightarrow>
          bindE (deal_ioevent fuel hs e st) (\<lambda>st.
          let (lUse, st) = read_clock gettime st in
          bindE (chk_s64 (lUse - lTick)) (\<lambda>use.
          if use \<ge> overtime then Inr (use, st)
          else Processing_loop n fuel gettime hs i overtime lTick st)))"

definition worker_Processing ::
    "nat \<Rightarrow> nat \<Rightarrow> (nat \<Rightarrow> int) \<Rightarrow> hosts \<Rightarrow> nat \<Rightarrow> s64 \<Rightarrow> net \<Rightarrow> (s64 \<times> net) outcome" where
  "worker_Processing n fuel gettime hs i overtime st =
     (let (lTick, st) = read_clock gettime st in Processing_loop n fuel gettime hs i overtime lTick st)"

end
