(* ===== verification/Net_Session.thy ===== *)
theory Net_Session
  imports Net_Worker
begin

text \<open>
  What a session can rely on when the main thread deals with its events (epollWorker.cpp,
  \<^verbatim>\<open>Processing\<close>) and when a worker closes its pipe.
\<close>

section \<open>Pipes in the pool\<close>

definition net_ok :: "net \<Rightarrow> bool" where
  "net_ok st \<longleftrightarrow> pool_inv pipe_sz (s_oCPipePool st) \<and>
     (\<forall>h a. session_pipe st h = Some a \<longrightarrow> valid_unit (s_oCPipePool st) a) \<and>
     (\<forall>a. valid_unit (s_oCPipePool st) a \<longrightarrow> pipe_ok (pipe_at st a))"

lemma pipe_at_set [simp]:
  "valid_unit (s_oCPipePool st) a \<Longrightarrow> pipe_at (set_pipe a p st) b = (if b = a then p else pipe_at st b)"
  by (simp add: pipe_at_def set_pipe_def put_unit_def get_unit_def)

lemma valid_unit_set_pipe [simp]:
  "valid_unit (s_oCPipePool (set_pipe a p st)) b \<longleftrightarrow> valid_unit (s_oCPipePool st) b"
  by (simp add: set_pipe_def)

lemma set_pipe_fields [simp]:
  "session_pipe (set_pipe a p st) = session_pipe st" "workers (set_pipe a p st) = workers st"
  "os (set_pipe a p st) = os st" "history (set_pipe a p st) = history st"
  "clock_reads (set_pipe a p st) = clock_reads st"
  by (simp_all add: set_pipe_def)

lemma pipe_at_more [simp]:
  "pipe_at (st\<lparr>os := w\<rparr>) b = pipe_at st b" "pipe_at (st\<lparr>history := hi\<rparr>) b = pipe_at st b"
  "pipe_at (st\<lparr>workers := ws\<rparr>) b = pipe_at st b" "pipe_at (st\<lparr>clock_reads := n\<rparr>) b = pipe_at st b"
  "set_pipe a p (st\<lparr>os := w\<rparr>) = (set_pipe a p st)\<lparr>os := w\<rparr>"
  by (simp_all add: pipe_at_def set_pipe_def)

lemma net_ok_more [simp]:
  "net_ok (st\<lparr>os := w\<rparr>) = net_ok st" "net_ok (st\<lparr>history := hi\<rparr>) = net_ok st"
  "net_ok (st\<lparr>workers := ws\<rparr>) = net_ok st" "net_ok (st\<lparr>clock_reads := n\<rparr>) = net_ok st"
  by (simp_all add: net_ok_def)

lemma net_ok_set_pipe:
  assumes "net_ok st" "valid_unit (s_oCPipePool st) a" "pipe_ok p"
  shows "net_ok (set_pipe a p st)" "in_use (s_oCPipePool (set_pipe a p st)) = in_use (s_oCPipePool st)"
    "valid_unit (s_oCPipePool (set_pipe a p st)) = valid_unit (s_oCPipePool st)"
proof -
  have v: "valid_unit (s_oCPipePool (set_pipe a p st)) = valid_unit (s_oCPipePool st)"
    by (simp add: set_pipe_def fun_eq_iff)
  note pu = put_unit_ok [OF _ assms(2)]
  have "pool_inv pipe_sz (s_oCPipePool (set_pipe a p st))"
    using pu(1) assms(1) by (simp add: set_pipe_def net_ok_def)
  then show "net_ok (set_pipe a p st)" using assms v by (simp add: net_ok_def)
  show "in_use (s_oCPipePool (set_pipe a p st)) = in_use (s_oCPipePool st)"
    using pu(2) [of pipe_sz p] assms(1) by (simp add: set_pipe_def net_ok_def)
  show "valid_unit (s_oCPipePool (set_pipe a p st)) = valid_unit (s_oCPipePool st)" by (rule v)
qed

section \<open>What sessions cannot touch\<close>

lemma Send_loop_frame:
  "Send_loop rs p w = Inr (q, v) \<Longrightarrow> same_but_send p q"
proof (induction rs arbitrary: p w)
  case Nil
  then show ?case
    by (auto simp: send_unfold PostOPTInEpollQueue_def epoll_ctl_def outcome_simps same_but_send_def
        split: if_splits list.splits)
next
  case (Cons r rs)
  from Cons.prems show ?case
    by (auto simp: send_unfold PostOPTInEpollQueue_def epoll_ctl_def outcome_simps Let_def same_but_send_iff
        dest!: Cons.IH split: if_splits list.splits send_answer.splits)
qed

text \<open>The parts of a pipe that only the worker and the main loop change.\<close>

definition recv_side :: "cpipe \<Rightarrow> tstream \<times> host" where
  "recv_side p = (m_oRecvStream p, m_pHost p)"

lemma CPipe_Send_frame: "CPipe_Send bs n p w = Inr (q, v) \<Longrightarrow> recv_side q = recv_side p"
  by (auto simp: CPipe_Send_def Let_def outcome_simps recv_side_def same_but_send_iff
      dest!: Send_loop_frame split: if_splits)

definition sessions_only :: "net \<Rightarrow> net \<Rightarrow> bool" where
  "sessions_only st st' \<longleftrightarrow> net_ok st' \<and> session_pipe st' = session_pipe st \<and> workers st' = workers st \<and>
     clock_reads st' = clock_reads st \<and> in_use (s_oCPipePool st') = in_use (s_oCPipePool st) \<and>
     valid_unit (s_oCPipePool st') = valid_unit (s_oCPipePool st) \<and>
     (\<forall>a. valid_unit (s_oCPipePool st) a \<longrightarrow> recv_side (pipe_at st' a) = recv_side (pipe_at st a))"

lemma sessions_only_refl: "net_ok st \<Longrightarrow> sessions_only st st"
  by (simp add: sessions_only_def)

lemma sessions_only_trans: "sessions_only st st' \<Longrightarrow> sessions_only st' st'' \<Longrightarrow> sessions_only st st''"
  by (simp add: sessions_only_def)

lemma on_pipe_session:
  assumes "on_pipe a f st = Inr st'" "net_ok st" "valid_unit (s_oCPipePool st) a"
    and f: "\<And>q v. f (pipe_at st a) (os st) = Inr (q, v) \<Longrightarrow> pipe_ok q \<and> recv_side q = recv_side (pipe_at st a)"
  shows "sessions_only st st' \<and> history st' = history st"
proof -
  from assms(1) obtain q v where q: "f (pipe_at st a) (os st) = Inr (q, v)" "st' = (set_pipe a q st)\<lparr>os := v\<rparr>"
    by (auto simp: on_pipe_def outcome_simps)
  with f net_ok_set_pipe [OF assms(2,3)] assms(3) show ?thesis
    by (auto simp: sessions_only_def)
qed

lemma do_host_request_ok:
  assumes "do_host_request r st = Inr st'" "net_ok st"
  shows "sessions_only st st' \<and> history st' = history st"
proof (cases r)
  case (HostSend h bs)
  with assms(1) obtain a where a: "session_pipe st h = Some a" "on_pipe a (CPipe_Send bs (int (length bs))) st = Inr st'"
    by (auto split: option.splits)
  have v: "valid_unit (s_oCPipePool st) a" using a(1) assms(2) by (simp add: net_ok_def)
  then have ok: "pipe_ok (pipe_at st a)" using assms(2) by (simp add: net_ok_def)
  show ?thesis
  proof (rule on_pipe_session [OF a(2) assms(2) v])
    fix q w assume run: "CPipe_Send bs (int (length bs)) (pipe_at st a) (os st) = Inr (q, w)"
    then have "recv_side q = recv_side (pipe_at st a)" by (rule CPipe_Send_frame)
    with CPipe_Send_ok [OF run ok] show "pipe_ok q \<and> recv_side q = recv_side (pipe_at st a)" by simp
  qed
next
  case (HostClose h)
  with assms(1) obtain a where a: "session_pipe st h = Some a" "on_pipe a CPipe_Close st = Inr st'"
    by (auto split: option.splits)
  have v: "valid_unit (s_oCPipePool st) a" using a(1) assms(2) by (simp add: net_ok_def)
  then have ok: "pipe_ok (pipe_at st a)" using assms(2) by (simp add: net_ok_def)
  show ?thesis
  proof (rule on_pipe_session [OF a(2) assms(2) v])
    fix q w assume "CPipe_Close (pipe_at st a) (os st) = Inr (q, w)"
    then have "q = (pipe_at st a)\<lparr>m_nStatus := SS_WAITCLOSE\<rparr>"
      by (auto simp: CPipe_Close_def PostOPTInEpollQueue_def Let_def outcome_simps split: if_splits)
    with ok show "pipe_ok q \<and> recv_side q = recv_side (pipe_at st a)" by (simp add: pipe_ok_def recv_side_def)
  qed
qed

lemma do_host_requests_ok:
  "do_host_requests rs st = Inr st' \<Longrightarrow> net_ok st \<Longrightarrow> sessions_only st st' \<and> history st' = history st"
proof (induction rs arbitrary: st)
  case Nil
  then show ?case by (auto intro: sessions_only_refl)
next
  case (Cons r rs)
  then obtain s where s: "do_host_request r st = Inr s" "do_host_requests rs s = Inr st'" by (auto simp: outcome_simps)
  note 1 = do_host_request_ok [OF s(1) Cons.prems(2)]
  then have "net_ok s" by (simp add: sessions_only_def)
  from Cons.IH [OF s(2) this] 1 show ?case by (auto intro: sessions_only_trans)
qed

lemma call_host_ok:
  assumes "call_host hs h e st = Inr st'" "net_ok st"
  shows "sessions_only st st' \<and> history st' = history st @ [e] \<and> h \<noteq> 0"
proof -
  from assms(1) have h: "h \<noteq> 0" "do_host_requests (on_call hs (history st @ [e])) (st\<lparr>history := history st @ [e]\<rparr>) = Inr st'"
    by (auto simp: call_host_def split: if_splits)
  from do_host_requests_ok [OF h(2)] assms(2) h(1) show ?thesis
    by (auto simp: sessions_only_def)
qed

section \<open>Delivery\<close>

text \<open>
  The calls \<^verbatim>\<open>OnRecv\<close> of one delivery, on the bytes \<open>bs\<close>: each one gets all that is left, and
  the next one what remains after the bytes it says it used.
\<close>

fun recv_calls :: "host \<Rightarrow> byte list \<Rightarrow> nat list \<Rightarrow> host_event list" where
  "recv_calls h bs [] = []"
| "recv_calls h bs (n # ns) = OnRecv h bs # recv_calls h (drop n bs) ns"

text \<open>The sessions' part of the contract: use between none and all of the bytes.\<close>

definition recv_contract :: "hosts \<Rightarrow> bool" where
  "recv_contract hs \<longleftrightarrow>
     (\<forall>es h bs. 0 \<le> on_recv hs (es @ [OnRecv h bs]) \<and> on_recv hs (es @ [OnRecv h bs]) \<le> int (length bs))"

definition host_returns :: "hosts \<Rightarrow> host \<Rightarrow> bool" where
  "host_returns hs h \<longleftrightarrow> (\<forall>e st. \<exists>st'. call_host hs h e st = Inr st')"

lemma deliver_nothing:
  "pipe_stream (m_oRecvStream (pipe_at st a)) \<Longrightarrow> pending (m_oRecvStream (pipe_at st a)) = [] \<Longrightarrow>
   deliver (Suc fuel) hs a st = Inr st"
  by (simp add: pipe_stream_size Let_def)

lemma deliver_ok:
  assumes "deliver fuel hs a st = Inr st'" "net_ok st" "valid_unit (s_oCPipePool st) a" "recv_contract hs"
  shows "\<exists>ns. net_ok st' \<and> history st' = history st @ recv_calls (m_pHost (pipe_at st a)) (pending (m_oRecvStream (pipe_at st a))) ns \<and>
    pending (m_oRecvStream (pipe_at st' a)) = drop (sum_list ns) (pending (m_oRecvStream (pipe_at st a))) \<and>
    m_pHost (pipe_at st' a) = m_pHost (pipe_at st a) \<and> (\<forall>n \<in> set (butlast ns). 0 < n) \<and>
    (pending (m_oRecvStream (pipe_at st' a)) = [] \<or> (ns \<noteq> [] \<and> last ns = 0)) \<and>
    in_use (s_oCPipePool st') = in_use (s_oCPipePool st) \<and> valid_unit (s_oCPipePool st') = valid_unit (s_oCPipePool st) \<and>
    workers st' = workers st \<and> session_pipe st' = session_pipe st"
  using assms
proof (induction fuel arbitrary: st)
  case 0
  then show ?case by simp
next
  case (Suc fuel)
  let ?p = "pipe_at st a" and ?bs = "pending (m_oRecvStream (pipe_at st a))"
  have ps: "pipe_stream (m_oRecvStream ?p)" using Suc.prems(2,3) by (simp add: net_ok_def pipe_ok_def)
  show ?case
  proof (cases "?bs = []")
    case True
    with deliver_nothing [OF ps] Suc.prems(1,2) show ?thesis by (intro exI [of _ "[]"]) simp
  next
    case ne: False
    let ?e = "OnRecv (m_pHost ?p) ?bs" let ?n = "on_recv hs (history st @ [OnRecv (m_pHost ?p) ?bs])"
    have n: "0 \<le> ?n" "?n \<le> int (length ?bs)" using Suc.prems(4) by (simp_all add: recv_contract_def)
    obtain s1 s2 where s1: "call_host hs (m_pHost ?p) ?e st = Inr s1"
        and s2: "(if ?n > 0 then bindE (TStream_out ?n (m_oRecvStream (pipe_at s1 a)))
              (\<lambda>s. Inr (set_pipe a ((pipe_at s1 a)\<lparr>m_oRecvStream := s\<rparr>) s1)) else Inr s1) = Inr s2"
        and rest: "(if ?n \<noteq> 0 then deliver fuel hs a s2 else Inr s2) = Inr st'"
      using Suc.prems(1) ne ps by (auto simp: pipe_stream_size Let_def outcome_simps)
    note c = call_host_ok [OF s1 Suc.prems(2)]
    have rs: "recv_side (pipe_at s1 a) = recv_side ?p" and v1: "valid_unit (s_oCPipePool s1) a" "net_ok s1"
      using c Suc.prems(3) by (auto simp: sessions_only_def)
    show ?thesis
    proof (cases "?n = 0")
      case True
      then have "st' = s1" using s2 rest by simp
      with c rs True show ?thesis
        by (intro exI [of _ "[0]"]) (simp add: sessions_only_def recv_side_def)
    next
      case False
      have le: "nat ?n \<le> length (pending (m_oRecvStream (pipe_at s1 a)))" using n rs by (simp add: recv_side_def)
      have ps1: "pipe_stream (m_oRecvStream (pipe_at s1 a))" using ps rs by (simp add: recv_side_def)
      from buffer.pop_law [OF ps1 le] n(1) obtain s where
        s: "TStream_out ?n (m_oRecvStream (pipe_at s1 a)) = Inr s" "pipe_stream s" "pending s = drop (nat ?n) ?bs"
        using rs by (auto simp: recv_side_def)
      have s2': "s2 = set_pipe a ((pipe_at s1 a)\<lparr>m_oRecvStream := s\<rparr>) s1" using s2 s(1) n(1) False by simp
      have "pipe_ok ((pipe_at s1 a)\<lparr>m_oRecvStream := s\<rparr>)" using s(2) v1 by (simp add: net_ok_def pipe_ok_def)
      note k2 = net_ok_set_pipe [OF v1(2,1) this, folded s2']
      have p2: "pipe_at s2 a = (pipe_at s1 a)\<lparr>m_oRecvStream := s\<rparr>" using v1(1) s2' by simp
      have run: "deliver fuel hs a s2 = Inr st'" using rest False by simp
      have v2: "valid_unit (s_oCPipePool s2) a" using k2(3) v1(1) by simp
      from Suc.IH [OF run k2(1) v2 Suc.prems(4)] obtain ns where ns:
        "net_ok st'" "history st' = history s2 @ recv_calls (m_pHost (pipe_at s2 a)) (pending (m_oRecvStream (pipe_at s2 a))) ns"
        "pending (m_oRecvStream (pipe_at st' a)) = drop (sum_list ns) (pending (m_oRecvStream (pipe_at s2 a)))"
        "m_pHost (pipe_at st' a) = m_pHost (pipe_at s2 a)" "\<forall>n \<in> set (butlast ns). 0 < n"
        "pending (m_oRecvStream (pipe_at st' a)) = [] \<or> (ns \<noteq> [] \<and> last ns = 0)"
        "in_use (s_oCPipePool st') = in_use (s_oCPipePool s2)" "valid_unit (s_oCPipePool st') = valid_unit (s_oCPipePool s2)"
        "workers st' = workers s2" "session_pipe st' = session_pipe s2" by blast
      have p2': "pending (m_oRecvStream (pipe_at s2 a)) = drop (nat ?n) ?bs" "m_pHost (pipe_at s2 a) = m_pHost ?p"
        "history s2 = history st @ [?e]" "workers s2 = workers st" "session_pipe s2 = session_pipe st"
        "in_use (s_oCPipePool s2) = in_use (s_oCPipePool st)" "valid_unit (s_oCPipePool s2) = valid_unit (s_oCPipePool st)"
        using p2 s(3) rs c k2(2,3) by (simp_all add: recv_side_def s2' sessions_only_def)
      have pos: "0 < nat ?n" using n(1) False by simp
      then have "\<forall>m \<in> set (butlast (nat ?n # ns)). 0 < m" using ns(5) by (cases ns) auto
      moreover have "pending (m_oRecvStream (pipe_at st' a)) = [] \<or> (nat ?n # ns \<noteq> [] \<and> last (nat ?n # ns) = 0)"
        using ns(6) by auto
      ultimately show ?thesis
        using ns p2' by (intro exI [of _ "nat ?n # ns"]) (simp add: add.commute)
    qed
  qed
qed

text \<open>Delivery ends: every round but the last consumes a byte.\<close>

lemma deliver_returns:
  assumes "net_ok st" "valid_unit (s_oCPipePool st) a" "recv_contract hs" "host_returns hs (m_pHost (pipe_at st a))"
    "length (pending (m_oRecvStream (pipe_at st a))) < fuel"
  shows "\<exists>st'. deliver fuel hs a st = Inr st'"
  using assms
proof (induction fuel arbitrary: st)
  case 0
  then show ?case by simp
next
  case (Suc fuel)
  let ?p = "pipe_at st a" and ?bs = "pending (m_oRecvStream (pipe_at st a))"
  have ps: "pipe_stream (m_oRecvStream ?p)" using Suc.prems(1,2) by (simp add: net_ok_def pipe_ok_def)
  show ?case
  proof (cases "?bs = []")
    case True
    with deliver_nothing [OF ps] show ?thesis by blast
  next
    case ne: False
    let ?e = "OnRecv (m_pHost ?p) ?bs" let ?n = "on_recv hs (history st @ [OnRecv (m_pHost ?p) ?bs])"
    have n: "0 \<le> ?n" "?n \<le> int (length ?bs)" using Suc.prems(3) by (simp_all add: recv_contract_def)
    obtain s1 where s1: "call_host hs (m_pHost ?p) ?e st = Inr s1" using Suc.prems(4) by (auto simp: host_returns_def)
    note c = call_host_ok [OF s1 Suc.prems(1)]
    have rs: "recv_side (pipe_at s1 a) = recv_side ?p" and v1: "valid_unit (s_oCPipePool s1) a" "net_ok s1"
      using c Suc.prems(2) by (auto simp: sessions_only_def)
    show ?thesis
    proof (cases "?n = 0")
      case True
      then show ?thesis using s1 ne ps by (simp add: pipe_stream_size Let_def)
    next
      case False
      have le: "nat ?n \<le> length (pending (m_oRecvStream (pipe_at s1 a)))" using n rs by (simp add: recv_side_def)
      have ps1: "pipe_stream (m_oRecvStream (pipe_at s1 a))" using ps rs by (simp add: recv_side_def)
      from buffer.pop_law [OF ps1 le] n(1) obtain s where
        s: "TStream_out ?n (m_oRecvStream (pipe_at s1 a)) = Inr s" "pipe_stream s" "pending s = drop (nat ?n) ?bs"
        using rs by (auto simp: recv_side_def)
      let ?s2 = "set_pipe a ((pipe_at s1 a)\<lparr>m_oRecvStream := s\<rparr>) s1"
      have "pipe_ok ((pipe_at s1 a)\<lparr>m_oRecvStream := s\<rparr>)" using s(2) v1 by (simp add: net_ok_def pipe_ok_def)
      note k2 = net_ok_set_pipe [OF v1(2,1) this]
      have p2: "pipe_at ?s2 a = (pipe_at s1 a)\<lparr>m_oRecvStream := s\<rparr>" using v1(1) by simp
      have "host_returns hs (m_pHost (pipe_at ?s2 a))" using p2 rs Suc.prems(4) by (simp add: recv_side_def)
      moreover have "length (pending (m_oRecvStream (pipe_at ?s2 a))) < fuel"
        using p2 s(3) Suc.prems(5) ne n False by (cases ?bs) auto
      ultimately have "\<exists>st'. deliver fuel hs a ?s2 = Inr st'"
        using Suc.IH [OF k2(1)] k2(3) v1(1) Suc.prems(3) by simp
      moreover have "deliver (Suc fuel) hs a st = deliver fuel hs a ?s2"
        using s1 s(1) n(1) False ne ps by (simp add: pipe_stream_size Let_def)
      ultimately show ?thesis by simp
    qed
  qed
qed

text \<open>A negative return value is neither \<open>0\<close> nor consumed: the loop calls again for ever.\<close>

lemma deliver_negative:
  assumes "net_ok st" "valid_unit (s_oCPipePool st) a" "host_returns hs (m_pHost (pipe_at st a))"
    "pending (m_oRecvStream (pipe_at st a)) \<noteq> []"
    "\<And>es. on_recv hs (es @ [OnRecv (m_pHost (pipe_at st a)) (pending (m_oRecvStream (pipe_at st a)))]) < 0"
  shows "deliver fuel hs a st = Inl Diverges"
  using assms
proof (induction fuel arbitrary: st)
  case 0
  then show ?case by simp
next
  case (Suc fuel)
  let ?p = "pipe_at st a" and ?bs = "pending (m_oRecvStream (pipe_at st a))"
  have ps: "pipe_stream (m_oRecvStream ?p)" using Suc.prems(1,2) by (simp add: net_ok_def pipe_ok_def)
  let ?e = "OnRecv (m_pHost ?p) ?bs"
  obtain s1 where s1: "call_host hs (m_pHost ?p) ?e st = Inr s1" using Suc.prems(3) by (auto simp: host_returns_def)
  note c = call_host_ok [OF s1 Suc.prems(1)]
  have rs: "recv_side (pipe_at s1 a) = recv_side ?p" and v1: "valid_unit (s_oCPipePool s1) a" "net_ok s1"
    using c Suc.prems(2) by (auto simp: sessions_only_def)
  have neg: "on_recv hs (history st @ [?e]) < 0" by (rule Suc.prems(5))
  then have "deliver (Suc fuel) hs a st = deliver fuel hs a s1"
    using s1 Suc.prems(4) ps by (simp add: pipe_stream_size Let_def)
  with Suc.IH [OF v1(2,1)] rs Suc.prems(3-5) show ?case by (simp add: recv_side_def)
qed

section \<open>Closing\<close>

fun closed_fds :: "sys_call list \<Rightarrow> s64 list" where
  "closed_fds [] = []"
| "closed_fds (CloseFd fd # cs) = fd # closed_fds cs"
| "closed_fds (c # cs) = closed_fds cs"

lemma closed_fds_append [simp]: "closed_fds (cs @ ds) = closed_fds cs @ closed_fds ds"
  by (induction cs rule: closed_fds.induct) simp_all

lemma DoSend_loop_keeps:
  "DoSend_loop rs p w = Inr (ev, q, v) \<Longrightarrow> same_but_send p q \<and> closed_fds (calls v) = closed_fds (calls w)"
proof (induction rs arbitrary: p w)
  case Nil
  then show ?case by (auto simp: send_unfold same_but_send_def split: if_splits)
next
  case (Cons r rs)
  from Cons.prems show ?case
    by (auto simp: send_unfold log_call_def outcome_simps Let_def same_but_send_iff
        dest!: Cons.IH split: if_splits send_answer.splits)
qed

text \<open>An event of a pipe the host has closed, without an error flag.\<close>

lemma Run_event_waitclose:
  assumes "Run_event nSize i a ev st = Inr st'" "valid_unit (s_oCPipePool st) a"
    "m_nStatus (pipe_at st a) = SS_WAITCLOSE" "\<not> has_flag ev (EPOLLERR OR EPOLLHUP OR EPOLLRDHUP)"
  shows "m_nStatus (pipe_at st' a) = SS_WAITCLOSE" "valid_unit (s_oCPipePool st') a"
    "m_lSocketHandler (pipe_at st' a) = m_lSocketHandler (pipe_at st a)"
    "closed_fds (calls (os st')) = closed_fds (calls (os st))"
proof -
  let ?ok = "\<lambda>s. m_nStatus (pipe_at s a) = SS_WAITCLOSE \<and> valid_unit (s_oCPipePool s) a \<and>
    m_lSocketHandler (pipe_at s a) = m_lSocketHandler (pipe_at st a) \<and>
    closed_fds (calls (os s)) = closed_fds (calls (os st))"
  obtain ev1 s1 where 1: "(if has_flag ev EPOLLOUT
        then bindE (on_pipe_ev a DoSend st) (\<lambda>(ty, st). Inr (if ty \<noteq> IO_EVENT_TYPE_COUNT then ty else IO_EVENT_TYPE_COUNT, st))
        else Inr (IO_EVENT_TYPE_COUNT, st)) = Inr (ev1, s1)"
      and 2: "(if ev1 \<noteq> IO_EVENT_TYPE_COUNT then queue_event i \<lparr>io_type = ev1, pCPipe = a\<rparr> s1 else Inr s1) = Inr st'"
    using assms(1,3,4) by (auto simp: Run_event_def bindE_eq_Inr split: if_splits)
  have "?ok s1"
  proof (cases "has_flag ev EPOLLOUT")
    case True
    with 1 obtain ty q v where "DoSend_loop (send_answers (os st)) (pipe_at st a) (os st) = Inr (ty, q, v)"
      "s1 = (set_pipe a q st)\<lparr>os := v\<rparr>"
      by (auto simp: on_pipe_ev_def DoSend_def bindE_eq_Inr)
    with DoSend_loop_keeps assms(2,3) show ?thesis
      by (auto simp: same_but_send_iff)
  next
    case False
    with 1 assms(2,3) show ?thesis by simp
  qed
  moreover from 2 have "pipe_at st' a = pipe_at s1 a" "s_oCPipePool st' = s_oCPipePool s1" "os st' = os s1"
    by (auto simp: queue_event_def pipe_at_def split: if_splits option.splits)
  ultimately show "m_nStatus (pipe_at st' a) = SS_WAITCLOSE" "valid_unit (s_oCPipePool st') a"
    "m_lSocketHandler (pipe_at st' a) = m_lSocketHandler (pipe_at st a)"
    "closed_fds (calls (os st')) = closed_fds (calls (os st))" by simp_all
qed

lemma Run_events_waitclose:
  assumes "Run_events nSize i (map (\<lambda>ev. (a, ev)) evs) st = Inr st'" "valid_unit (s_oCPipePool st) a"
    "m_nStatus (pipe_at st a) = SS_WAITCLOSE"
    "\<forall>ev \<in> set evs. \<not> has_flag ev (EPOLLERR OR EPOLLHUP OR EPOLLRDHUP)"
  shows "m_nStatus (pipe_at st' a) = SS_WAITCLOSE \<and>
    m_lSocketHandler (pipe_at st' a) = m_lSocketHandler (pipe_at st a) \<and>
    closed_fds (calls (os st')) = closed_fds (calls (os st))"
  using assms
proof (induction evs arbitrary: st)
  case Nil
  then show ?case by simp
next
  case (Cons ev evs)
  then obtain s where s: "Run_event nSize i a ev st = Inr s" "Run_events nSize i (map (\<lambda>ev. (a, ev)) evs) s = Inr st'"
    by (auto simp: outcome_simps)
  from Cons.prems(4) have "\<not> has_flag ev (EPOLLERR OR EPOLLHUP OR EPOLLRDHUP)" by simp
  note k = Run_event_waitclose [OF s(1) Cons.prems(2,3) this]
  from Cons.IH [OF s(2) k(2,1)] Cons.prems(4) k(3,4) show ?case by simp
qed

section \<open>A concrete engine\<close>

text \<open>One established pipe (address 0, session 1) with three bytes received, and one worker.\<close>

definition example_stream :: tstream where
  "example_stream = \<lparr>m_pbuff = [1, 2, 3] @ replicate 16381 0, m_read = 0, m_write = 3, m_max = 16384\<rparr>"

definition example_net :: net where
  "example_net = \<lparr>
     s_oCPipePool = \<lparr>m_list = [], m_sBlockCount = 1,
       m_pUnitAry = [[\<lparr>tunit = example_pipe\<lparr>m_oRecvStream := example_stream\<rparr>, len = pipe_sz, status = IN_USE\<rparr>]],
       m_pUnitAry_form = Some Scalar\<rparr>,
     session_pipe = [1 \<mapsto> UAddr 0 0],
     workers = [\<lparr>w_nStatus = THREAD_WORKING, w_lEpollFd = 4, m_lOptCount = 0,
       m_oEventQueue = TQueue_new [\<lparr>io_type = IO_EVENT_TYPE_COUNT, pCPipe = UAddr 0 0\<rparr>]\<rparr>],
     os = \<lparr>send_answers = [], recv_answers = [], ctl_answers = [0, 0], calls = []\<rparr>,
     clock_reads = 0, history = []\<rparr>"

text \<open>Sessions that use two bytes at a time and make no calls; and one that reports an error.\<close>

definition example_hosts :: hosts where
  "example_hosts = \<lparr>on_recv = (\<lambda>es. case last es of OnRecv h bs \<Rightarrow> min 2 (int (length bs)) | _ \<Rightarrow> 0),
     on_call = (\<lambda>_. []), on_malloc = (\<lambda>_. 0)\<rparr>"

definition failing_hosts :: hosts where
  "failing_hosts = \<lparr>on_recv = (\<lambda>_. - 1), on_call = (\<lambda>_. []), on_malloc = (\<lambda>_. 0)\<rparr>"

lemma example_valid: "valid_unit (s_oCPipePool example_net) a \<longleftrightarrow> a = UAddr 0 0"
  by (cases a) (auto simp: example_net_def valid_unit_def)

lemma example_at: "pipe_at example_net (UAddr 0 0) = example_pipe\<lparr>m_oRecvStream := example_stream\<rparr>"
  by (simp add: pipe_at_def get_unit_def unit_info_def example_net_def)

lemma example_stream_ok: "pipe_stream example_stream" "pending example_stream = [1, 2, 3]"
  by (simp_all add: example_stream_def stream_inv_def in_s32_def pending_def TStream_size_def TStream_buff_def)

lemma example_net_ok: "net_ok example_net"
proof -
  have "pool_inv pipe_sz (s_oCPipePool example_net)"
    unfolding pool_inv_def example_valid by (auto simp: example_net_def unit_info_def)
  moreover have "pipe_ok (pipe_at example_net (UAddr 0 0))"
    using example_stream_ok(1) example_pipe_ok by (simp add: example_at pipe_ok_def)
  ultimately show ?thesis by (auto simp: net_ok_def example_valid) (simp add: example_net_def split: if_splits)
qed

lemma example_contract: "recv_contract example_hosts"
  by (simp add: recv_contract_def example_hosts_def)

lemma quiet_returns: "on_call hs = (\<lambda>_. []) \<Longrightarrow> h \<noteq> 0 \<Longrightarrow> host_returns hs h"
  by (simp add: host_returns_def call_host_def)

section \<open>Properties\<close>





text \<open>
  A connection the server closes is never closed: after \<^verbatim>\<open>ITcpSession::Close\<close> no readable or
  writable event makes the worker close the socket, so the peer is not told and the descriptor
  leaks; the pipe stays in \<^verbatim>\<open>SS_WAITCLOSE\<close>. (The \<^verbatim>\<open>EPOLLONESHOT\<close> that \<^verbatim>\<open>Close\<close> requests disarms
  the descriptor after the first event, error events included.)
\<close>

theorem local_close_leaks_socket:
  assumes "do_host_request (HostClose h) st = Inr s1" "session_pipe st h = Some a" "net_ok st"
    "Run_events nSize i (map (\<lambda>ev. (a, ev)) evs) s1 = Inr s2"
    "\<forall>ev \<in> set evs. \<not> has_flag ev (EPOLLERR OR EPOLLHUP OR EPOLLRDHUP)"
  shows "m_nStatus (pipe_at s2 a) = SS_WAITCLOSE \<and>
    m_lSocketHandler (pipe_at s2 a) = m_lSocketHandler (pipe_at st a) \<and>
    closed_fds (calls (os s2)) = closed_fds (calls (os st))"
proof -
  have v: "valid_unit (s_oCPipePool st) a" using assms(2,3) by (simp add: net_ok_def)
  from assms(1,2) obtain q w where c: "CPipe_Close (pipe_at st a) (os st) = Inr (q, w)" "s1 = (set_pipe a q st)\<lparr>os := w\<rparr>"
    by (auto simp: on_pipe_def outcome_simps)
  then have "q = (pipe_at st a)\<lparr>m_nStatus := SS_WAITCLOSE\<rparr>" "closed_fds (calls w) = closed_fds (calls (os st))"
    by (auto simp: CPipe_Close_def PostOPTInEpollQueue_def epoll_ctl_def log_call_def Let_def outcome_simps
        split: if_splits list.splits)
  then have s1: "m_nStatus (pipe_at s1 a) = SS_WAITCLOSE"
    "m_lSocketHandler (pipe_at s1 a) = m_lSocketHandler (pipe_at st a)"
    "closed_fds (calls (os s1)) = closed_fds (calls (os st))" "valid_unit (s_oCPipePool s1) a"
    using c(2) v by simp_all
  from Run_events_waitclose [OF assms(4) s1(4,1) assms(5)] s1(2,3) show ?thesis by simp
qed

theorem local_close_leaks_socket_witness:
  "\<exists>s1 s2. do_host_request (HostClose 1) example_net = Inr s1 \<and>
     Run_events 1024 0 [(UAddr 0 0, EPOLLOUT), (UAddr 0 0, EPOLLIN)] s1 = Inr s2 \<and>
     m_nStatus (pipe_at s2 (UAddr 0 0)) = SS_WAITCLOSE \<and> m_lSocketHandler (pipe_at s2 (UAddr 0 0)) = 5"
proof -
  let ?evs = "[EPOLLOUT, EPOLLIN]"
  have v: "valid_unit (s_oCPipePool example_net) (UAddr 0 0)" by (simp add: example_valid)
  let ?p = "example_pipe\<lparr>m_oRecvStream := example_stream, m_nStatus := SS_WAITCLOSE\<rparr>"
  let ?s1 = "(set_pipe (UAddr 0 0) ?p example_net)\<lparr>os := log_call (EpollMod 4 5 (EPOLLOUT OR EPOLLONESHOT))
    ((os example_net)\<lparr>ctl_answers := [0]\<rparr>)\<rparr>"
  have sess: "session_pipe example_net (Suc 0) = Some (UAddr 0 0)" by (simp add: example_net_def)
  have ctl: "ctl_answers (os example_net) = [0, 0]" by (simp add: example_net_def)
  have s1: "do_host_request (HostClose 1) example_net = Inr ?s1"
    by (simp add: sess on_pipe_def example_at CPipe_Close_def PostOPTInEpollQueue_def epoll_ctl_def ctl
        example_pipe_def CPipe_new_def TASSERT_def)
  have send: "DoSend ?p w = Inr (IO_EVENT_TYPE_BREAK, ?p, w)" for w
    by (cases "send_answers w") (simp_all add: DoSend_def send_unfold example_pipe_def CPipe_new_def TStream_new_def TStream_size_def)
  have w0: "m_oEventQueue (workers ?s1 ! 0) = TQueue_new [\<lparr>io_type = IO_EVENT_TYPE_COUNT, pCPipe = UAddr 0 0\<rparr>]"
    by (simp add: example_net_def)
  obtain s2 where s2: "Run_events 1024 0 (map (\<lambda>ev. (UAddr 0 0, ev)) ?evs) ?s1 = Inr s2"
    using v w0
    by (simp add: Run_event_def has_flag_def EPOLLOUT_def EPOLLIN_def EPOLLERR_def EPOLLHUP_def EPOLLRDHUP_def
        on_pipe_ev_def send queue_event_def TQueue_Add_def TQueue_new_def outcome_simps)
  show ?thesis
    using local_close_leaks_socket [OF s1 _ example_net_ok s2] s1 s2 sess
    by (simp add: example_at example_pipe_def has_flag_def EPOLLOUT_def EPOLLIN_def EPOLLERR_def EPOLLHUP_def EPOLLRDHUP_def)
qed

end
