(* ===== verification/Net_Epoller.thy ===== *)
theory Net_Epoller
  imports Net_Session Bytes
begin

text \<open>
  src/kernel/net/epoll/epoller.h, epoller.cpp, SPipe.h, SPipe.cpp and the life of a CPipe
  (CPipe.cpp: \<^verbatim>\<open>Create\<close>, \<^verbatim>\<open>Release\<close>, \<^verbatim>\<open>Relate\<close>, \<^verbatim>\<open>DoConnect\<close>): the part of the net engine that
  opens listening sockets, makes and accepts connections and hands them to the workers. It
  runs on the main thread.

  The socket calls are a parameter, \<open>socks\<close>: the future answers (result, \<^verbatim>\<open>errno\<close>, and the
  address \<^verbatim>\<open>accept\<close> fills in) and the log of the calls. The byte order functions and the
  dotted address formats are those of POSIX on a little-endian machine.
\<close>

section \<open>Addresses\<close>

text \<open>\<^verbatim>\<open>htonl\<close> and \<^verbatim>\<open>htons\<close> reverse the bytes.\<close>

definition htonl :: "u32 \<Rightarrow> u32" where
  "htonl w = bytes_word (rev (word_bytes 4 w))"

definition htons :: "16 word \<Rightarrow> 16 word" where
  "htons w = bytes_word (rev (word_bytes 2 w))"

fun split_dots :: "string \<Rightarrow> string \<Rightarrow> string list" where
  "split_dots [] part = [part]"
| "split_dots (c # cs) part = (if c = CHR ''.'' then part # split_dots cs [] else split_dots cs (part @ [c]))"

definition octet :: "string \<Rightarrow> nat option" where
  "octet s = (if s \<noteq> [] \<and> length s \<le> 3 \<and> list_all is_digit s \<and> parse_digits s 0 < 256
     then Some (parse_digits s 0) else None)"

text \<open>The four bytes of \<^verbatim>\<open>a.b.c.d\<close> (the only form the program uses), in the order they are written.\<close>

definition dotted :: "string \<Rightarrow> byte list option" where
  "dotted ip =
     (case map octet (split_dots ip []) of
        [Some a, Some b, Some c, Some d] \<Rightarrow> Some [of_nat a, of_nat b, of_nat c, of_nat d]
      | _ \<Rightarrow> None)"

text \<open>\<^verbatim>\<open>inet_addr\<close> returns the address in network order, that is with the first byte first in
  memory, and \<^verbatim>\<open>INADDR_NONE\<close> for anything else.\<close>

definition inet_addr :: "string \<Rightarrow> u32" where
  "inet_addr ip = (case dotted ip of Some bs \<Rightarrow> bytes_word bs | None \<Rightarrow> - 1)"

definition sockaddr_in :: "s32 \<Rightarrow> byte list \<Rightarrow> byte list" where
  "sockaddr_in port s_addr =
     word_bytes 2 (2 :: 16 word) @ word_bytes 2 (htons (word_of_int port)) @ s_addr @ replicate 8 0"

section \<open>Socket calls\<close>

datatype sock_call =
    Call_epoll_create
  | Call_socket
  | Call_setsockopt s64
  | Call_getfl s64
  | Call_setfl s64 s32
  | Call_bind s64 "byte list"
  | Call_listen s64 s32
  | Call_connect s64 "byte list"
  | Call_accept s64
  | Call_close s64

datatype sock_answer = Ans (ans_ret: s32) (ans_errno: s32) (ans_addr: "byte list")

record socks =
  sock_answers :: "sock_answer list"
  sock_calls :: "sock_call list"

definition sock_call :: "sock_call \<Rightarrow> socks \<Rightarrow> (sock_answer \<times> socks) outcome" where
  "sock_call c w =
     (case sock_answers w of
        [] \<Rightarrow> Inl Diverges
      | r # rs \<Rightarrow> Inr (r, w\<lparr>sock_answers := rs, sock_calls := sock_calls w @ [c]\<rparr>))"

abbreviation (input) O_NONBLOCK :: s32 where "O_NONBLOCK \<equiv> 2048"
abbreviation (input) EINPROGRESS :: s32 where "EINPROGRESS \<equiv> 115"

definition setnonblocking :: "s64 \<Rightarrow> socks \<Rightarrow> (bool \<times> socks) outcome" where
  "setnonblocking fd w =
     bindE (sock_call (Call_getfl fd) w) (\<lambda>(fl, w).
     bindE (sock_call (Call_setfl fd (ans_ret fl OR O_NONBLOCK)) w) (\<lambda>(r, w).
     Inr (ans_ret r = 0, w)))"

section \<open>State\<close>

text \<open>A listening socket.\<close>

record spipe =
  sp_nStatus :: eSocketStatus
  sp_lSocketHandler :: s64
  sp_oAddr :: "byte list"
  sp_lEpollFD :: s64
  sp_pHost :: host

text \<open>What \<^verbatim>\<open>epollerEvent\<close> points to.\<close>

datatype source = Source_SPipe nat | Source_CPipe uaddr

text \<open>
  The engine: the pipes and workers (\<open>ep_net\<close>), the main epoll descriptor, the worker count and
  whether \<^verbatim>\<open>m_pWorkerAry\<close> is non-null, the listening pipes that \<^verbatim>\<open>AddServer\<close> allocated, and the
  \<^verbatim>\<open>m_pPipe\<close> of every server.
\<close>

record engine =
  ep_net :: net
  ep_lEpollFD :: s64
  ep_nWorkerCount :: s32
  ep_pWorkerAry :: bool
  spipes :: "spipe list"
  server_pipe :: "host \<rightharpoonup> nat"
  socks :: socks

definition SPipe_new :: spipe where
  "SPipe_new = \<lparr>sp_nStatus = SS_UNINITIALIZE, sp_lSocketHandler = - 1, sp_oAddr = replicate 16 0,
     sp_lEpollFD = - 1, sp_pHost = 0\<rparr>"

definition SPipe_Clear :: "spipe \<Rightarrow> spipe" where
  "SPipe_Clear p = p\<lparr>sp_nStatus := SS_UNINITIALIZE, sp_lSocketHandler := - 1, sp_oAddr := replicate 16 0,
     sp_lEpollFD := - 1, sp_pHost := 0\<rparr>"

definition SPipe_Close :: "spipe \<Rightarrow> spipe" where
  "SPipe_Close p = p\<lparr>sp_nStatus := SS_WAITCLOSE\<rparr>"

definition SPipe_Send :: "byte list \<Rightarrow> s32 \<Rightarrow> spipe \<Rightarrow> spipe outcome" where
  "SPipe_Send pContext nSize p = bindE (TASSERT False ''spipe can't call send'') (\<lambda>_. Inr p)"

definition SPipe_Relate :: "host \<Rightarrow> s64 \<Rightarrow> s64 \<Rightarrow> nat \<Rightarrow> engine \<Rightarrow> engine outcome" where
  "SPipe_Relate pHost lSocket lEpollFD i e =
     bindE (TASSERT (pHost \<noteq> 0) ''wtf where is host'') (\<lambda>_.
     Inr (e\<lparr>spipes := (spipes e)[i := (spipes e ! i)\<lparr>sp_pHost := pHost, sp_lEpollFD := lEpollFD,
              sp_lSocketHandler := lSocket\<rparr>],
            server_pipe := (server_pipe e)(pHost \<mapsto> i)\<rparr>))"

text \<open>The pool of listening pipes (\<open>sz\<close> is \<^verbatim>\<open>sizeof(type_info)\<close>); the engine itself allocates with \<^verbatim>\<open>NEW\<close>.\<close>

definition SPipe_Create :: "nat \<Rightarrow> spipe tpool \<Rightarrow> (uaddr option \<times> spipe tpool) outcome" where
  "SPipe_Create sz p = TPool_Create sz SPipe_new 64 p"

definition SPipe_Release :: "nat \<Rightarrow> uaddr \<Rightarrow> spipe tpool \<Rightarrow> spipe tpool outcome" where
  "SPipe_Release sz a p = TPool_Recover sz a (put_unit a (SPipe_Clear (get_unit p a)) p)"

section \<open>Pipes\<close>

definition CPipe_Create :: "net \<Rightarrow> (uaddr option \<times> net) outcome" where
  "CPipe_Create st =
     bindE (TPool_Create pipe_sz CPipe_new 64 (s_oCPipePool st)) (\<lambda>(p, pool).
     Inr (p, st\<lparr>s_oCPipePool := pool\<rparr>))"

definition CPipe_Release :: "uaddr \<Rightarrow> net \<Rightarrow> net outcome" where
  "CPipe_Release a st =
     bindE (TASSERT (m_nStatus (pipe_at st a) = SS_UNINITIALIZE) ''wtf'') (\<lambda>_.
     bindE (CPipe_Clear (pipe_at st a)) (\<lambda>p.
     bindE (TPool_Recover pipe_sz a (s_oCPipePool (set_pipe a p st))) (\<lambda>pool.
     Inr (st\<lparr>s_oCPipePool := pool\<rparr>))))"

definition Relate :: "host \<Rightarrow> s64 \<Rightarrow> s64 \<Rightarrow> uaddr \<Rightarrow> net \<Rightarrow> net outcome" where
  "Relate pHost lSocket lEpollFD a st =
     bindE (TASSERT (pHost \<noteq> 0) ''wtf where is host'') (\<lambda>_.
     Inr ((set_pipe a ((pipe_at st a)\<lparr>m_pHost := pHost, m_lEpollFD := lEpollFD, m_lSocketHandler := lSocket\<rparr>) st)
            \<lparr>session_pipe := (session_pipe st)(pHost \<mapsto> a)\<rparr>))"

text \<open>\<^verbatim>\<open>pHost->m_pPipe = NULL\<close>.\<close>

definition forget_pipe :: "host \<Rightarrow> net \<Rightarrow> net outcome" where
  "forget_pipe h st = (if h = 0 then Inl NullPointer else Inr (st\<lparr>session_pipe := (session_pipe st)(h := None)\<rparr>))"

text \<open>\<^verbatim>\<open>epoll_ctl(ep, EPOLL_CTL_ADD, fd, events)\<close>.\<close>

definition epoll_add :: "s64 \<Rightarrow> s64 \<Rightarrow> u32 \<Rightarrow> net \<Rightarrow> (s32 \<times> net) outcome" where
  "epoll_add ep fd evs st = bindE (epoll_ctl (EpollAdd ep fd evs) (os st)) (\<lambda>(res, w). Inr (res, st\<lparr>os := w\<rparr>))"

definition DoConnect :: "hosts \<Rightarrow> uaddr \<Rightarrow> net \<Rightarrow> net outcome" where
  "DoConnect hs a st =
     (let st = set_pipe a ((pipe_at st a)\<lparr>m_nStatus := SS_ESTABLISHED\<rparr>) st;
          p = pipe_at st a in
      bindE (epoll_add (m_lEpollFD p) (m_lSocketHandler p) (EPOLLIN OR EPOLLOUT OR EPOLLET) st) (\<lambda>(res, st).
      bindE (TASSERT (0 = res) ''epoll ctl error'') (\<lambda>_.
      if 0 = res then call_host hs (m_pHost p) (OnConnected (m_pHost p)) st
      else
        let st = set_pipe a (p\<lparr>m_nStatus := SS_UNINITIALIZE\<rparr>) st;
            st = st\<lparr>os := log_call (CloseFd (m_lSocketHandler p)) (os st)\<rparr> in
        bindE (forget_pipe (m_pHost p) st) (\<lambda>st.
        bindE (call_host hs (m_pHost p) (OnConnectFailed (m_pHost p)) st) (CPipe_Release a)))))"

section \<open>The engine\<close>

text \<open>\<^verbatim>\<open>NEW epoller\<close>: the constructor sets the descriptor only.\<close>

definition epoller_new :: "net \<Rightarrow> s32 \<Rightarrow> bool \<Rightarrow> socks \<Rightarrow> engine" where
  "epoller_new st junk_count junk_ary w = \<lparr>ep_net = st, ep_lEpollFD = - 1, ep_nWorkerCount = junk_count,
     ep_pWorkerAry = junk_ary, spipes = [], server_pipe = Map.empty, socks = w\<rparr>"

definition on_net :: "(net \<Rightarrow> net outcome) \<Rightarrow> engine \<Rightarrow> engine outcome" where
  "on_net f e = bindE (f (ep_net e)) (\<lambda>st. Inr (e\<lparr>ep_net := st\<rparr>))"

fun start_workers :: "nat list \<Rightarrow> engine \<Rightarrow> engine outcome" where
  "start_workers [] e = Inr e"
| "start_workers (i # js) e =
     bindE (sock_call Call_epoll_create (socks e)) (\<lambda>(r, w).
     let (res, wk) = worker_Initialize (ans_ret r) (workers (ep_net e) ! i) in
     bindE (TASSERT res ''wtf'') (\<lambda>_.
     start_workers js (e\<lparr>socks := w, ep_net := (ep_net e)\<lparr>workers := (workers (ep_net e))[i := wk]\<rparr>\<rparr>)))"

text \<open>\<open>sNetThdCount\<close> comes from the configuration; a negative array size is an exception.\<close>

definition epoller_Initialize :: "s32 \<Rightarrow> ioevent list \<Rightarrow> engine \<Rightarrow> (bool \<times> engine) outcome" where
  "epoller_Initialize sNetThdCount junk e =
     (let e = e\<lparr>ep_nWorkerCount := sNetThdCount\<rparr> in
      if ep_lEpollFD e \<noteq> - 1 then Inr (False, e)
      else
        bindE (sock_call Call_epoll_create (socks e)) (\<lambda>(r, w).
        let e = e\<lparr>socks := w, ep_lEpollFD := ans_ret r\<rparr> in
        if - 1 = ep_lEpollFD e then Inr (False, e)
        else if ep_nWorkerCount e < 0 then Inl OutOfBounds
        else
          let n = nat (ep_nWorkerCount e);
              e = e\<lparr>ep_pWorkerAry := True, ep_net := (ep_net e)\<lparr>workers := replicate n (worker_new junk)\<rparr>\<rparr> in
          bindE (start_workers [0..<n] e) (\<lambda>e. Inr (True, e))))"

text \<open>\<^verbatim>\<open>Terminate\<close>: \<open>seen\<close> are the values of the status the main thread reads while it waits.\<close>

fun wait_stopped :: "thread_status list \<Rightarrow> unit outcome" where
  "wait_stopped [] = Inl Diverges"
| "wait_stopped (s # ss) = (if s \<noteq> THREAD_STOPED then wait_stopped ss else Inr ())"

definition worker_Terminate :: "thread_status list \<Rightarrow> worker \<Rightarrow> (bool \<times> worker) outcome" where
  "worker_Terminate seen wk =
     (if THREAD_WORKING = w_nStatus wk then
        bindE (wait_stopped seen) (\<lambda>_. Inr (True, wk\<lparr>w_nStatus := THREAD_STOPED\<rparr>))
      else Inr (False, wk))"

definition GetOPTCount :: "worker \<Rightarrow> s64" where
  "GetOPTCount wk = m_lOptCount wk"

fun Balancing_loop :: "worker list \<Rightarrow> nat list \<Rightarrow> nat \<Rightarrow> nat" where
  "Balancing_loop ws [] p = p"
| "Balancing_loop ws (i # js) p =
     Balancing_loop ws js (if GetOPTCount (ws ! i) < GetOPTCount (ws ! p) then i else p)"

definition BalancingWorker :: "engine \<Rightarrow> nat option" where
  "BalancingWorker e =
     (if ep_pWorkerAry e then Some (Balancing_loop (workers (ep_net e)) [1..<nat (ep_nWorkerCount e)] 0) else None)"

text \<open>\<^verbatim>\<open>BalancingWorker()->GetEpollFD()\<close>.\<close>

definition BalancedFD :: "engine \<Rightarrow> s64 outcome" where
  "BalancedFD e =
     (case BalancingWorker e of
        None \<Rightarrow> Inl NullPointer
      | Some i \<Rightarrow> if i < length (workers (ep_net e)) then GetEpollFD (workers (ep_net e) ! i) else Inl OutOfBounds)"

section \<open>Servers\<close>

text \<open>
  The chain of \<^verbatim>\<open>||\<close> in \<^verbatim>\<open>AddServer\<close>: whether a call failed, and the descriptor. The option
  value passed to \<^verbatim>\<open>setsockopt\<close> is uninitialised; it only has to be there.
\<close>

definition open_server :: "byte list \<Rightarrow> socks \<Rightarrow> (bool \<times> s64 \<times> socks) outcome" where
  "open_server addr w =
     bindE (sock_call Call_socket w) (\<lambda>(r, w). let lSocket = ans_ret r in
     if - 1 = lSocket then Inr (True, lSocket, w) else
     bindE (sock_call (Call_setsockopt lSocket) w) (\<lambda>(r, w).
     if 0 \<noteq> ans_ret r then Inr (True, lSocket, w) else
     bindE (setnonblocking lSocket w) (\<lambda>(ok, w).
     if \<not> ok then Inr (True, lSocket, w) else
     bindE (sock_call (Call_bind lSocket addr) w) (\<lambda>(r, w).
     if 0 \<noteq> ans_ret r then Inr (True, lSocket, w) else
     bindE (sock_call (Call_listen lSocket 200) w) (\<lambda>(r, w).
     Inr (0 \<noteq> ans_ret r, lSocket, w))))))"

definition close_socket :: "s64 \<Rightarrow> socks \<Rightarrow> socks" where
  "close_socket fd w = w\<lparr>sock_calls := sock_calls w @ [Call_close fd]\<rparr>"

definition AddServer :: "host \<Rightarrow> string \<Rightarrow> s32 \<Rightarrow> engine \<Rightarrow> (bool \<times> engine) outcome" where
  "AddServer server ip port e =
     bindE (TASSERT (server \<noteq> 0) ''wtf where is server'') (\<lambda>_.
     let i = length (spipes e);
         e = e\<lparr>spipes := spipes e @ [SPipe_new]\<rparr>;
         addr = sockaddr_in port (word_bytes 4 (htonl (inet_addr ip))) in
     bindE (open_server addr (socks e)) (\<lambda>(failed, lSocket, w).
     if failed then
       bindE (TASSERT False ''socket error'') (\<lambda>_.
       Inr (False, e\<lparr>socks := close_socket lSocket w\<rparr>))
     else
       bindE (SPipe_Relate server lSocket (ep_lEpollFD e) i (e\<lparr>socks := w\<rparr>)) (\<lambda>e.
       bindE (epoll_add (ep_lEpollFD e) lSocket (EPOLLIN OR EPOLLET) (ep_net e)) (\<lambda>(res, st).
       bindE (TASSERT (res = 0) ''epoll_ctl'') (\<lambda>_. Inr (True, e\<lparr>ep_net := st\<rparr>))))))"

section \<open>Clients\<close>

text \<open>The chain of \<^verbatim>\<open>||\<close> in \<^verbatim>\<open>AddClient\<close>; \<^verbatim>\<open>inet_pton\<close> writes the address.\<close>

definition open_client :: "string \<Rightarrow> s32 \<Rightarrow> socks \<Rightarrow> (bool \<times> s64 \<times> byte list \<times> socks) outcome" where
  "open_client ip port w =
     bindE (sock_call Call_socket w) (\<lambda>(r, w). let lSocket = ans_ret r in
     if - 1 = lSocket then Inr (True, lSocket, [], w) else
     bindE (sock_call (Call_setsockopt lSocket) w) (\<lambda>(r, w).
     if 0 \<noteq> ans_ret r then Inr (True, lSocket, [], w) else
     bindE (setnonblocking lSocket w) (\<lambda>(ok, w).
     if \<not> ok then Inr (True, lSocket, [], w) else
     Inr (case dotted ip of
       None \<Rightarrow> (True, lSocket, [], w)
     | Some bs \<Rightarrow> (False, lSocket, sockaddr_in port bs, w)))))"

text \<open>\<^verbatim>\<open>CPipe::Create\<close>, \<^verbatim>\<open>BalancingWorker()->GetEpollFD()\<close> and \<^verbatim>\<open>Relate\<close>.\<close>

definition new_client_pipe :: "host \<Rightarrow> s64 \<Rightarrow> engine \<Rightarrow> (uaddr \<times> engine) outcome" where
  "new_client_pipe client lSocket e =
     bindE (CPipe_Create (ep_net e)) (\<lambda>(p, st).
     let e = e\<lparr>ep_net := st\<rparr> in
     bindE (BalancedFD e) (\<lambda>lEpollFD.
     case p of None \<Rightarrow> Inl NullPointer
     | Some a \<Rightarrow> bindE (on_net (Relate client lSocket lEpollFD a) e) (\<lambda>e. Inr (a, e))))"

definition AddClient :: "hosts \<Rightarrow> host \<Rightarrow> string \<Rightarrow> s32 \<Rightarrow> engine \<Rightarrow> (bool \<times> engine) outcome" where
  "AddClient hs client ip port e =
     bindE (open_client ip port (socks e)) (\<lambda>(failed, lSocket, addr, w).
     if failed then Inr (False, e\<lparr>socks := close_socket lSocket w\<rparr>)
     else
       bindE (sock_call (Call_connect lSocket addr) w) (\<lambda>(r, w).
       let e = e\<lparr>socks := w\<rparr>; ret = ans_ret r in
       if ret = 0 then
         bindE (new_client_pipe client lSocket e) (\<lambda>(a, e).
         bindE (on_net (DoConnect hs a) e) (\<lambda>e.
         bindE (on_net (call_host hs client (OnConnected client)) e) (\<lambda>e. Inr (True, e))))
       else if ret < 0 \<and> ans_errno r \<noteq> EINPROGRESS then
         bindE (on_net (call_host hs client (OnConnectFailed client)) e) (\<lambda>e. Inr (False, e))
       else
         bindE (new_client_pipe client lSocket e) (\<lambda>(a, e).
         bindE (epoll_add (ep_lEpollFD e) lSocket (EPOLLOUT OR EPOLLET) (ep_net e)) (\<lambda>(res, st).
         bindE (TASSERT (res = 0) ''epoll_ctl'') (\<lambda>_. Inr (True, e\<lparr>ep_net := st\<rparr>))))))"

section \<open>Accepting\<close>

text \<open>
  The body of the \<^verbatim>\<open>if (setnonblocking(lSocket))\<close> in \<^verbatim>\<open>DoAccept\<close>: \<open>accept_one\<close> makes the pipe
  and asks the server for a session, \<open>accept_session\<close> is the code from \<^verbatim>\<open>SetSocketHandler\<close> on.
\<close>

definition accept_session :: "hosts \<Rightarrow> host \<Rightarrow> s64 \<Rightarrow> uaddr \<Rightarrow> engine \<Rightarrow> engine outcome" where
  "accept_session hs pSession lSocket a e =
     (let e = e\<lparr>ep_net := set_pipe a ((pipe_at (ep_net e) a)
           \<lparr>m_lSocketHandler := lSocket, m_nStatus := SS_ESTABLISHED\<rparr>) (ep_net e)\<rparr> in
      bindE (BalancedFD e) (\<lambda>lEpollFD.
      bindE (Relate pSession lSocket lEpollFD a (ep_net e)) (\<lambda>st.
      bindE (epoll_add lEpollFD lSocket (EPOLLIN OR EPOLLOUT OR EPOLLET) st) (\<lambda>(res, st).
      bindE (TASSERT (0 = res) ''epoll_ctl error'') (\<lambda>_.
      bindE (if 0 = res then
               call_host hs pSession (OnConnected pSession)
                 (set_pipe a ((pipe_at st a)\<lparr>m_nStatus := SS_ESTABLISHED\<rparr>) st)
             else CPipe_Release a st) (\<lambda>st.
      Inr (e\<lparr>ep_net := st\<rparr>)))))))"

definition accept_one :: "hosts \<Rightarrow> nat \<Rightarrow> s64 \<Rightarrow> byte list \<Rightarrow> engine \<Rightarrow> engine outcome" where
  "accept_one hs i lSocket addr e =
     bindE (CPipe_Create (ep_net e)) (\<lambda>(p, st).
     bindE (TASSERT (p \<noteq> None) ''check pool template'') (\<lambda>_.
     let a = the p; server = sp_pHost (spipes e ! i) in
     bindE (SetSockAddr addr (pipe_at st a)) (\<lambda>q.
     let st = set_pipe a q st;
         pSession = on_malloc hs (history st @ [MallocConnection server]) in
     bindE (call_host hs server (MallocConnection server) st) (\<lambda>st.
     bindE (TASSERT (pSession \<noteq> 0) ''session point null'') (\<lambda>_.
     accept_session hs pSession lSocket a (e\<lparr>ep_net := st\<rparr>))))))"

text \<open>\<^verbatim>\<open>DoAccept\<close>; \<open>fuel\<close> bounds the connections accepted in one call.\<close>

fun DoAccept :: "nat \<Rightarrow> hosts \<Rightarrow> nat \<Rightarrow> engine \<Rightarrow> engine outcome" where
  "DoAccept 0 hs i e = Inl Diverges"
| "DoAccept (Suc fuel) hs i e =
     bindE (sock_call (Call_accept (sp_lSocketHandler (spipes e ! i))) (socks e)) (\<lambda>(r, w).
     let e = e\<lparr>socks := w\<rparr> in
     if ans_ret r \<ge> 0 then
       bindE (setnonblocking (ans_ret r) (socks e)) (\<lambda>(ok, w).
       let e = e\<lparr>socks := w\<rparr> in
       if ok then bindE (accept_one hs i (ans_ret r) (ans_addr r) e) (DoAccept fuel hs i)
       else Inr e)
     else Inr e)"

section \<open>Dealing with the main thread's socket events\<close>

definition source_event :: "nat \<Rightarrow> hosts \<Rightarrow> source \<Rightarrow> u32 \<Rightarrow> engine \<Rightarrow> engine outcome" where
  "source_event fuel hs src events e =
     (case src of
        Source_SPipe i \<Rightarrow>
          let h = sp_pHost (spipes e ! i) in
          if has_flag events (EPOLLERR OR EPOLLHUP OR EPOLLRDHUP) then on_net (call_host hs h (ServerError h)) e
          else if has_flag events EPOLLIN then DoAccept fuel hs i e
          else Inr e
      | Source_CPipe a \<Rightarrow>
          if has_flag events (EPOLLERR OR EPOLLHUP OR EPOLLRDHUP) then
            on_net (\<lambda>st. let h = m_pHost (pipe_at st a) in
              bindE (call_host hs h (OnConnectFailed h) st) (\<lambda>st.
              bindE (forget_pipe (m_pHost (pipe_at st a)) st) (CPipe_Release a))) e
          else if has_flag events EPOLLOUT then on_net (DoConnect hs a) e
          else Inr e)"

fun source_events :: "nat \<Rightarrow> hosts \<Rightarrow> (source \<times> u32) list \<Rightarrow> engine \<Rightarrow> engine outcome" where
  "source_events fuel hs [] e = Inr e"
| "source_events fuel hs ((s, ev) # es) e =
     bindE (source_event fuel hs s ev e) (source_events fuel hs es)"

datatype main_wait = Main_events "(source \<times> u32) list" | Main_error bool

definition engine_clock :: "(nat \<Rightarrow> int) \<Rightarrow> engine \<Rightarrow> s64 \<times> engine" where
  "engine_clock gettime e = (let (t, st) = read_clock gettime (ep_net e) in (t, e\<lparr>ep_net := st\<rparr>))"

definition DealEvent ::
    "nat \<Rightarrow> (nat \<Rightarrow> int) \<Rightarrow> hosts \<Rightarrow> main_wait \<Rightarrow> s64 \<Rightarrow> engine \<Rightarrow> (s64 \<times> engine) outcome" where
  "DealEvent fuel gettime hs ans overtime e =
     (let (lTick, e) = engine_clock gettime e in
      bindE (case ans of
          Main_error eintr \<Rightarrow> bindE (TASSERT eintr ''epoll_wait err!'') (\<lambda>_. Inr e)
        | Main_events es \<Rightarrow> source_events fuel hs es e) (\<lambda>e.
      let (now, e) = engine_clock gettime e in
      bindE (chk_s64 (now - lTick)) (\<lambda>use. Inr (use, e))))"

fun process_workers ::
    "nat \<Rightarrow> nat \<Rightarrow> (nat \<Rightarrow> int) \<Rightarrow> hosts \<Rightarrow> s64 \<Rightarrow> nat list \<Rightarrow> net \<Rightarrow> net outcome" where
  "process_workers n fuel gettime hs share [] st = Inr st"
| "process_workers n fuel gettime hs share (i # js) st =
     bindE (worker_Processing n fuel gettime hs i share st) (\<lambda>(_, st).
     process_workers n fuel gettime hs share js st)"

definition epoller_Processing ::
    "nat \<Rightarrow> nat \<Rightarrow> (nat \<Rightarrow> int) \<Rightarrow> hosts \<Rightarrow> main_wait \<Rightarrow> s64 \<Rightarrow> engine \<Rightarrow> (s64 \<times> engine) outcome" where
  "epoller_Processing n fuel gettime hs ans overtime e =
     (let (lTick, e) = engine_clock gettime e;
          (lUser, e) = engine_clock gettime e in
      bindE (chk_s32 (ep_nWorkerCount e + 1)) (\<lambda>shares.
      bindE (div_s64 overtime shares) (\<lambda>share.
      bindE (DealEvent fuel gettime hs ans share e) (\<lambda>(_, e).
      bindE (on_net (process_workers n fuel gettime hs share [0..<nat (ep_nWorkerCount e)]) e) (\<lambda>e.
      Inr (0, e))))))"

fun terminate_workers :: "thread_status list list \<Rightarrow> nat list \<Rightarrow> engine \<Rightarrow> engine outcome" where
  "terminate_workers seen [] e = Inr e"
| "terminate_workers seen (i # js) e =
     bindE (worker_Terminate (seen ! i) (workers (ep_net e) ! i)) (\<lambda>(_, wk).
     terminate_workers seen js (e\<lparr>ep_net := (ep_net e)\<lparr>workers := (workers (ep_net e))[i := wk]\<rparr>\<rparr>))"

text \<open>\<^verbatim>\<open>Destory\<close> and the destructor it ends in.\<close>

definition Destory :: "thread_status list list \<Rightarrow> engine \<Rightarrow> (bool \<times> engine) outcome" where
  "Destory seen e =
     bindE (if ep_pWorkerAry e then
              bindE (terminate_workers seen [0..<nat (ep_nWorkerCount e)] e) (\<lambda>e.
              Inr (e\<lparr>ep_net := (ep_net e)\<lparr>workers := []\<rparr>\<rparr>))
            else Inr e) (\<lambda>e.
     Inr (True, if ep_lEpollFD e \<noteq> - 1 then e\<lparr>socks := close_socket (ep_lEpollFD e) (socks e)\<rparr> else e))"

end
