(* ===== verification/Net_Connect.thy ===== *)
theory Net_Connect
  imports Net_Epoller
begin

text \<open>
  What the engine guarantees when connections are made: the invariant of pooled pipes and
  sessions, addresses, the choice of a worker, and the life of an outgoing connection.
\<close>

section \<open>The interest sets of the kernel\<close>

text \<open>
  Which descriptors which epoll instance watches, after a log of calls. Every addition and
  deletion of the engine asserts that it succeeded; closing a descriptor removes it everywhere.
\<close>

fun reg_step :: "(s64 \<times> s64) set \<Rightarrow> sys_call \<Rightarrow> (s64 \<times> s64) set" where
  "reg_step S (EpollAdd ep fd evs) = insert (ep, fd) S"
| "reg_step S (EpollDel ep fd) = S - {(ep, fd)}"
| "reg_step S (CloseFd fd) = {x \<in> S. snd x \<noteq> fd}"
| "reg_step S c = S"

definition registered :: "sys_call list \<Rightarrow> (s64 \<times> s64) set" where
  "registered cs = foldl reg_step {} cs"

lemma registered_snoc [simp]: "registered (cs @ [c]) = reg_step (registered cs) c"
  by (simp add: registered_def)

section \<open>What calls of sessions leave alone\<close>

definition link :: "cpipe \<Rightarrow> s64 \<times> s64 \<times> byte list \<times> tstream \<times> host" where
  "link p = (m_lSocketHandler p, m_lEpollFD p, m_oAddr p, m_oRecvStream p, m_pHost p)"

definition open_still :: "cpipe \<Rightarrow> cpipe \<Rightarrow> bool" where
  "open_still p q \<longleftrightarrow> m_nStatus p \<noteq> SS_UNINITIALIZE \<longrightarrow> m_nStatus q \<noteq> SS_UNINITIALIZE"

lemma Post_registered:
  "PostOPTInEpollQueue opt p w = Inr (q, v) \<Longrightarrow> registered (calls v) = registered (calls w)"
  by (auto simp: PostOPTInEpollQueue_def epoll_ctl_def log_call_def outcome_simps split: list.splits)

lemma log_send_registered [simp]:
  "registered (calls (log_call (CallSend fd bs) (w\<lparr>send_answers := rs\<rparr>))) = registered (calls w)"
  by (simp add: log_call_def)

lemma Send_loop_registered:
  "Send_loop rs p w = Inr (q, v) \<Longrightarrow> registered (calls v) = registered (calls w)"
proof (induction rs arbitrary: p w)
  case Nil
  then show ?case by (auto simp: send_unfold dest: Post_registered split: if_splits)
next
  case (Cons r rs)
  show ?case
  proof (cases "TStream_size (m_oSendStream p) > 0")
    case True
    with Cons.prems show ?thesis
      by (auto simp: send_unfold Let_def bindE_eq_Inr dest: Cons.IH Post_registered split: if_splits)
  next
    case False
    with Cons.prems show ?thesis by (auto simp: send_unfold dest: Post_registered split: if_splits)
  qed
qed

lemma CPipe_Send_link:
  "CPipe_Send bs n p w = Inr (q, v) \<Longrightarrow> link q = link p \<and> open_still p q \<and> registered (calls v) = registered (calls w)"
  by (auto simp: CPipe_Send_def Let_def outcome_simps link_def open_still_def same_but_send_iff
      dest: Send_loop_frame Send_loop_registered split: if_splits)

lemma CPipe_Close_link:
  "CPipe_Close p w = Inr (q, v) \<Longrightarrow> link q = link p \<and> open_still p q \<and> registered (calls v) = registered (calls w)"
  by (auto simp: CPipe_Close_def PostOPTInEpollQueue_def epoll_ctl_def log_call_def link_def open_still_def Let_def outcome_simps
      split: if_splits list.splits)

section \<open>The invariant\<close>

definition idle_pipe :: "cpipe \<Rightarrow> bool" where
  "idle_pipe p \<longleftrightarrow> m_nStatus p = SS_UNINITIALIZE \<and> m_lSocketHandler p = - 1 \<and> m_bNeedSend p \<and> m_pHost p = 0 \<and>
     length (m_oAddr p) = 16 \<and> pending (m_oRecvStream p) = [] \<and> pending (m_oSendStream p) = []"

text \<open>
  Pipes nobody uses are as new; a session's pipe is in use and belongs to that session; all
  addresses are 16 bytes.
\<close>

definition conn_ok :: "net \<Rightarrow> bool" where
  "conn_ok st \<longleftrightarrow> net_ok st \<and> idle_sat idle_pipe (s_oCPipePool st) \<and>
     (\<forall>h a. session_pipe st h = Some a \<longrightarrow> a \<in> in_use (s_oCPipePool st) \<and> m_pHost (pipe_at st a) = h)"

lemma conn_ok_more [simp]:
  "conn_ok (st\<lparr>os := w\<rparr>) = conn_ok st" "conn_ok (st\<lparr>history := hi\<rparr>) = conn_ok st"
  "conn_ok (st\<lparr>workers := ws\<rparr>) = conn_ok st" "conn_ok (st\<lparr>clock_reads := n\<rparr>) = conn_ok st"
  by (simp_all add: conn_ok_def)

lemma conn_ok_set_pipe:
  assumes "conn_ok st" "a \<in> in_use (s_oCPipePool st)" "pipe_ok p" "m_pHost p = m_pHost (pipe_at st a)"
  shows "conn_ok (set_pipe a p st)" "in_use (s_oCPipePool (set_pipe a p st)) = in_use (s_oCPipePool st)"
proof -
  have v: "valid_unit (s_oCPipePool st) a" using assms(2) by (simp add: in_use_valid)
  have n: "net_ok st" using assms(1) by (simp add: conn_ok_def)
  note s = net_ok_set_pipe [OF n v assms(3)]
  show "in_use (s_oCPipePool (set_pipe a p st)) = in_use (s_oCPipePool st)" by (rule s(2))
  have "idle_sat idle_pipe (s_oCPipePool (set_pipe a p st))"
    using put_unit_idle [OF _ assms(2), of pipe_sz idle_pipe p] assms(1) n
    by (simp add: conn_ok_def net_ok_def set_pipe_def)
  with s(1,2) v assms(1,4) show "conn_ok (set_pipe a p st)" by (simp add: conn_ok_def)
qed

definition links_kept :: "net \<Rightarrow> net \<Rightarrow> bool" where
  "links_kept st st' \<longleftrightarrow> session_pipe st' = session_pipe st \<and> workers st' = workers st \<and>
     in_use (s_oCPipePool st') = in_use (s_oCPipePool st) \<and>
     valid_unit (s_oCPipePool st') = valid_unit (s_oCPipePool st) \<and>
     (\<forall>a. valid_unit (s_oCPipePool st) a \<longrightarrow> 
        link (pipe_at st' a) = link (pipe_at st a) \<and> open_still (pipe_at st a) (pipe_at st' a) \<and>
        ((\<forall>h. session_pipe st h \<noteq> Some a) \<longrightarrow> pipe_at st' a = pipe_at st a)) \<and>
     registered (calls (os st')) = registered (calls (os st))"

lemma links_kept_refl [simp]: "links_kept st st"
  by (simp add: links_kept_def open_still_def)

lemma links_kept_trans: "links_kept st st' \<Longrightarrow> links_kept st' st'' \<Longrightarrow> links_kept st st''"
  by (simp add: links_kept_def open_still_def)

lemma do_host_request_links:
  assumes "do_host_request r st = Inr st'" "conn_ok st"
  shows "conn_ok st' \<and> links_kept st st' \<and> history st' = history st"
proof -
  define h where "h = (case r of HostSend h bs \<Rightarrow> h | HostClose h \<Rightarrow> h)"
  define f where "f = (case r of HostSend h bs \<Rightarrow> CPipe_Send bs (int (length bs)) | HostClose h \<Rightarrow> CPipe_Close)"
  obtain a where a: "session_pipe st h = Some a" "on_pipe a f st = Inr st'"
    using assms(1) by (cases r) (auto simp: h_def f_def split: option.splits)
  then obtain q w where q: "f (pipe_at st a) (os st) = Inr (q, w)" "st' = (set_pipe a q st)\<lparr>os := w\<rparr>"
    by (auto simp: on_pipe_def outcome_simps)
  have use: "a \<in> in_use (s_oCPipePool st)" using a(1) assms(2) by (simp add: conn_ok_def)
  then have v: "valid_unit (s_oCPipePool st) a" by (simp add: in_use_valid)
  have ok: "pipe_ok (pipe_at st a)" using assms(2) v by (simp add: conn_ok_def net_ok_def)
  have l: "link q = link (pipe_at st a)" "open_still (pipe_at st a) q" "registered (calls w) = registered (calls (os st))"
    using q(1) CPipe_Send_link CPipe_Close_link by (auto simp: f_def split: host_request.splits)
  have "pipe_ok q"
  proof (cases r)
    case (HostSend h bs)
    with q(1) CPipe_Send_ok [OF _ ok] show ?thesis by (auto simp: f_def)
  next
    case (HostClose h)
    with q(1) ok show ?thesis
      by (auto simp: f_def CPipe_Close_def PostOPTInEpollQueue_def pipe_ok_def Let_def outcome_simps split: if_splits)
  qed
  moreover have "m_pHost q = m_pHost (pipe_at st a)" using l(1) by (simp add: link_def)
  ultimately show ?thesis
    using conn_ok_set_pipe [OF assms(2) use] q(2) l v a(1) by (auto simp: links_kept_def open_still_def)
qed

lemma do_host_requests_links:
  "do_host_requests rs st = Inr st' \<Longrightarrow> conn_ok st \<Longrightarrow> conn_ok st' \<and> links_kept st st' \<and> history st' = history st"
proof (induction rs arbitrary: st)
  case Nil
  then show ?case by simp
next
  case (Cons r rs)
  then obtain s where s: "do_host_request r st = Inr s" "do_host_requests rs s = Inr st'" by (auto simp: outcome_simps)
  note 1 = do_host_request_links [OF s(1) Cons.prems(2)]
  with Cons.IH [OF s(2)] show ?case by (auto intro: links_kept_trans)
qed

lemma call_host_links:
  assumes "call_host hs h e st = Inr st'" "conn_ok st"
  shows "conn_ok st'" "links_kept st st'" "history st' = history st @ [e]" "h \<noteq> 0"
proof -
  from assms(1) have h: "h \<noteq> 0" "do_host_requests (on_call hs (history st @ [e])) (st\<lparr>history := history st @ [e]\<rparr>) = Inr st'"
    by (auto simp: call_host_def split: if_splits)
  from do_host_requests_links [OF h(2)] assms(2) h(1)
  show "conn_ok st'" "links_kept st st'" "history st' = history st @ [e]" "h \<noteq> 0"
    by (auto simp: links_kept_def)
qed

section \<open>Making and releasing pipes\<close>

lemma idle_new: "idle_pipe CPipe_new"
  by (simp add: idle_pipe_def CPipe_new_def TStream_new_def pending_def TStream_size_def)

lemma new_pipe_ok: "pipe_ok CPipe_new"
  by (simp add: pipe_ok_def CPipe_new_def stream_inv_new in_s32_def)

lemma TPool_Create_sat:
  assumes "pool_inv sz p" "0 < count" "\<forall>a. valid_unit p a \<longrightarrow> P (get_unit p a)" "P ctor"
    "TPool_Create sz ctor count p = Inr (Some a, q)"
  shows "\<forall>b. valid_unit q b \<longrightarrow> P (get_unit q b)"
proof (intro allI impI)
  fix b assume b: "valid_unit q b"
  from TPool_Create_ok [OF assms(1,2), of ctor] assms(5)
  have q: "in_use q = insert a (in_use p)" "\<forall>b. valid_unit p b \<longrightarrow> get_unit q b = get_unit p b" by auto
  have "idle_sat P p" using assms(3) by (simp add: idle_sat_def)
  note i = TPool_Create_idle [OF assms(1,2) this assms(4,5)]
  show "P (get_unit q b)"
  proof (cases "b \<in> in_use q")
    case True
    with q i(2) assms(3) show ?thesis by (auto dest: in_use_valid)
  next
    case False
    with i(1) b show ?thesis by (simp add: idle_sat_def)
  qed
qed

lemma CPipe_Create_ok:
  assumes "conn_ok st"
  obtains a st' where "CPipe_Create st = Inr (Some a, st')" "conn_ok st'" "a \<notin> in_use (s_oCPipePool st)"
    "in_use (s_oCPipePool st') = insert a (in_use (s_oCPipePool st))" "idle_pipe (pipe_at st' a)"
    "pipe_ok (pipe_at st' a)" "st' = st\<lparr>s_oCPipePool := s_oCPipePool st'\<rparr>"
    "\<forall>h. session_pipe st h \<noteq> Some a" "\<forall>b. valid_unit (s_oCPipePool st) b \<longrightarrow> pipe_at st' b = pipe_at st b"
proof -
  let ?p = "s_oCPipePool st"
  have inv: "pool_inv pipe_sz ?p" "idle_sat idle_pipe ?p" "\<forall>a. valid_unit ?p a \<longrightarrow> pipe_ok (get_unit ?p a)"
    using assms by (simp_all add: conn_ok_def net_ok_def pipe_at_def)
  from TPool_Create_ok [OF inv(1), of 64 CPipe_new] obtain a q where c:
    "TPool_Create pipe_sz CPipe_new 64 ?p = Inr (Some a, q)" "pool_inv pipe_sz q" "a \<notin> in_use ?p"
    "in_use q = insert a (in_use ?p)" "\<forall>b. valid_unit ?p b \<longrightarrow> get_unit q b = get_unit ?p b" by auto
  note idle = TPool_Create_idle [OF inv(1) _ inv(2) idle_new c(1)]
  note ok = TPool_Create_sat [OF inv(1) _ inv(3) new_pipe_ok c(1)]
  let ?s = "st\<lparr>s_oCPipePool := q\<rparr>"
  have a: "a \<in> in_use q" using c(4) by simp
  have sess: "b \<in> in_use ?p \<and> m_pHost (get_unit ?p b) = h" if "session_pipe st h = Some b" for h b
    using that assms by (simp add: conn_ok_def pipe_at_def)
  have fresh: "\<forall>h. session_pipe st h \<noteq> Some a" using sess c(3) by blast
  have s: "conn_ok ?s"
    using c(2,4,5) idle(1) ok by (auto simp: conn_ok_def net_ok_def pipe_at_def dest!: sess dest: in_use_valid)
  show ?thesis
    by (rule that [of a ?s]) (use c s idle(2) ok a fresh in \<open>simp_all add: CPipe_Create_def pipe_at_def in_use_valid\<close>)
qed

lemma Relate_ok:
  assumes "Relate h fd ep a st = Inr st'" "conn_ok st" "a \<in> in_use (s_oCPipePool st)"
    "\<forall>h'. session_pipe st h' = Some a \<longrightarrow> h' = h"
  shows "conn_ok st'" "session_pipe st' h = Some a" "h \<noteq> 0" "in_use (s_oCPipePool st') = in_use (s_oCPipePool st)"
    "pipe_at st' a = (pipe_at st a)\<lparr>m_pHost := h, m_lEpollFD := ep, m_lSocketHandler := fd\<rparr>"
    "os st' = os st" "history st' = history st" "workers st' = workers st"
    "valid_unit (s_oCPipePool st') = valid_unit (s_oCPipePool st)"
proof -
  let ?p = "(pipe_at st a)\<lparr>m_pHost := h, m_lEpollFD := ep, m_lSocketHandler := fd\<rparr>"
  have st': "h \<noteq> 0" "st' = (set_pipe a ?p st)\<lparr>session_pipe := (session_pipe st)(h \<mapsto> a)\<rparr>"
    using assms(1) by (auto simp: Relate_def outcome_simps)
  have v: "valid_unit (s_oCPipePool st) a" using assms(3) by (simp add: in_use_valid)
  have n: "net_ok st" using assms(2) by (simp add: conn_ok_def)
  have "pipe_ok ?p" using v n by (simp add: net_ok_def pipe_ok_def)
  note s = net_ok_set_pipe [OF n v this]
  have at: "pipe_at st' b = (if b = a then ?p else pipe_at st b)" for b
    using v unfolding st'(2) by (simp add: pipe_at_def set_pipe_def put_unit_def get_unit_def)
  have "net_ok st'" using s v unfolding st'(2) by (simp add: net_ok_def pipe_at_def)
  moreover have "idle_sat idle_pipe (s_oCPipePool st')"
    using put_unit_idle [OF _ assms(3), of pipe_sz idle_pipe ?p] assms(2) n
    unfolding st'(2) by (simp add: conn_ok_def net_ok_def set_pipe_def)
  moreover have "b \<in> in_use (s_oCPipePool st') \<and> m_pHost (pipe_at st' b) = g"
    if "session_pipe st' g = Some b" for g b
  proof (cases "g = h")
    case True
    with that have "b = a" unfolding st'(2) by simp
    with True at [of a] assms(3) s(2) show ?thesis unfolding st'(2) by simp
  next
    case False
    with that have b: "session_pipe st g = Some b" unfolding st'(2) by simp
    with assms(4) False have "b \<noteq> a" by blast
    with b at [of b] assms(2) s(2) show ?thesis unfolding st'(2) by (simp add: conn_ok_def)
  qed
  ultimately show "conn_ok st'" by (simp add: conn_ok_def)
  show "pipe_at st' a = ?p" using at by simp
  show "session_pipe st' h = Some a" "h \<noteq> 0" "in_use (s_oCPipePool st') = in_use (s_oCPipePool st)"
    "os st' = os st" "history st' = history st" "workers st' = workers st"
    "valid_unit (s_oCPipePool st') = valid_unit (s_oCPipePool st)"
    using st'(1) s(2,3) unfolding st'(2) by simp_all
qed

lemma CPipe_Release_ok:
  assumes "CPipe_Release a st = Inr st'" "conn_ok st" "\<forall>h. session_pipe st h \<noteq> Some a"
  shows "conn_ok st'" "a \<in> in_use (s_oCPipePool st)" "in_use (s_oCPipePool st') = in_use (s_oCPipePool st) - {a}"
    "session_pipe st' = session_pipe st" "os st' = os st" "history st' = history st"
proof -
  obtain p pool where r: "m_nStatus (pipe_at st a) = SS_UNINITIALIZE" "CPipe_Clear (pipe_at st a) = Inr p"
    "TPool_Recover pipe_sz a (s_oCPipePool (set_pipe a p st)) = Inr pool" "st' = st\<lparr>s_oCPipePool := pool\<rparr>"
    using assms(1) by (auto simp: CPipe_Release_def outcome_simps)
  have n: "net_ok st" and pool: "pool_inv pipe_sz (s_oCPipePool st)" using assms(2) by (simp_all add: conn_ok_def net_ok_def)
  have v: "valid_unit (s_oCPipePool st) a"
    using r(3) by (auto simp: TPool_Recover_def CheckAddr_def outcome_simps set_pipe_def split: if_splits)
  have "pipe_ok (pipe_at st a)" using n v by (simp add: net_ok_def)
  then have sok: "stream_inv 16384 (m_oRecvStream (pipe_at st a))" "stream_inv 16384 (m_oSendStream (pipe_at st a))"
    by (simp_all add: pipe_ok_def)
  from r(2) TStream_clear_ok [OF sok(1)] TStream_clear_ok [OF sok(2)]
  have p: "pipe_ok p" "idle_pipe p"
    by (auto simp: CPipe_Clear_def Pipe_Clear_def Let_def outcome_simps pipe_ok_def idle_pipe_def)
  note s = net_ok_set_pipe [OF n v p(1)]
  let ?q = "s_oCPipePool (set_pipe a p st)"
  have qinv: "pool_inv pipe_sz ?q" using s(1) by (simp add: net_ok_def)
  have use: "a \<in> in_use ?q" using TPool_Recover_Inr [OF r(3)] .
  then show use': "a \<in> in_use (s_oCPipePool st)" using s(2) by simp
  from TPool_Recover_ok [OF qinv use] r(3) have rec: "pool_inv pipe_sz pool" "in_use pool = in_use ?q - {a}"
    "\<forall>b. get_unit pool b = get_unit ?q b" by auto
  have val: "valid_unit pool b = valid_unit (s_oCPipePool st) b" for b
    using r(3) by (auto simp: TPool_Recover_def CheckAddr_def Let_def outcome_simps split: if_splits)
  have "idle_sat idle_pipe ?q"
    using put_unit_idle [OF pool use', of idle_pipe p] assms(2) by (simp add: set_pipe_def conn_ok_def)
  moreover have at: "get_unit ?q b = (if b = a then p else pipe_at st b)" for b
    using pipe_at_set [OF v, of p b] by (simp add: pipe_at_def)
  ultimately have idle: "idle_sat idle_pipe pool"
    using TPool_Recover_idle [OF qinv use _ _ r(3), of idle_pipe] p(2) by simp
  have g: "get_unit pool b = (if b = a then p else pipe_at st b)" for b using rec(3) at by simp
  show inu: "in_use (s_oCPipePool st') = in_use (s_oCPipePool st) - {a}" using rec(2) s(2) r(4) by simp
  have "net_ok st'" using rec(1) val g p(1) n r(4) by (simp add: net_ok_def pipe_at_def)
  then show "conn_ok st'" using idle inu assms(2,3) g r(4) by (auto simp: conn_ok_def pipe_at_def)
  show "session_pipe st' = session_pipe st" "os st' = os st" "history st' = history st" using r(4) by simp_all
qed

lemma BalancedFD_fields:
  "BalancedFD e = Inr ep \<Longrightarrow> workers (ep_net e') = workers (ep_net e) \<Longrightarrow> ep_pWorkerAry e' = ep_pWorkerAry e \<Longrightarrow>
     ep_nWorkerCount e' = ep_nWorkerCount e \<Longrightarrow> BalancedFD e' = Inr ep"
  by (auto simp: BalancedFD_def BalancingWorker_def split: if_splits)

lemma SetSockAddr_ok:
  assumes "length (m_oAddr p) = 16" "length addr = 16"
  shows "SetSockAddr addr p = Inr (p\<lparr>m_oAddr := addr\<rparr>)"
  using assms by (simp add: SetSockAddr_def blit_def)

lemma conn_ok_pipe_ok: "conn_ok st \<Longrightarrow> a \<in> in_use (s_oCPipePool st) \<Longrightarrow> pipe_ok (pipe_at st a)"
  by (simp add: conn_ok_def net_ok_def in_use_valid)

section \<open>Accepting\<close>

lemma accept_one_ok:
  fixes hs i e
  defines "server \<equiv> sp_pHost (spipes e ! i)"
  defines "sess \<equiv> on_malloc hs (history (ep_net e) @ [MallocConnection server])"
  assumes "accept_one hs i fd addr e = Inr e'" "conn_ok (ep_net e)" "length addr = 16"
  shows "\<exists>a ep. BalancedFD e = Inr ep \<and> a \<notin> in_use (s_oCPipePool (ep_net e)) \<and>
     in_use (s_oCPipePool (ep_net e')) = insert a (in_use (s_oCPipePool (ep_net e))) \<and>
     session_pipe (ep_net e') sess = Some a \<and> m_nStatus (pipe_at (ep_net e') a) \<noteq> SS_UNINITIALIZE \<and>
     m_lSocketHandler (pipe_at (ep_net e') a) = fd \<and> m_oAddr (pipe_at (ep_net e') a) = addr \<and>
     m_lEpollFD (pipe_at (ep_net e') a) = ep \<and> m_pHost (pipe_at (ep_net e') a) = sess \<and>
     pending (m_oRecvStream (pipe_at (ep_net e') a)) = [] \<and>
     registered (calls (os (ep_net e'))) = insert (ep, fd) (registered (calls (os (ep_net e)))) \<and>
     history (ep_net e') = history (ep_net e) @ [MallocConnection server, OnConnected sess] \<and> conn_ok (ep_net e')"
proof -
  let ?st = "ep_net e"
  obtain a s1 where c: "CPipe_Create ?st = Inr (Some a, s1)" "conn_ok s1" "a \<notin> in_use (s_oCPipePool ?st)"
    "in_use (s_oCPipePool s1) = insert a (in_use (s_oCPipePool ?st))" "idle_pipe (pipe_at s1 a)"
    "pipe_ok (pipe_at s1 a)" "s1 = ?st\<lparr>s_oCPipePool := s_oCPipePool s1\<rparr>"
    "\<forall>h. session_pipe ?st h \<noteq> Some a"
    using CPipe_Create_ok [OF assms(4)] by metis
  have f1: "session_pipe s1 = session_pipe ?st" "os s1 = os ?st" "history s1 = history ?st" "workers s1 = workers ?st"
    using arg_cong [OF c(7), of session_pipe] arg_cong [OF c(7), of os] arg_cong [OF c(7), of history]
      arg_cong [OF c(7), of workers] by simp_all
  let ?q = "(pipe_at s1 a)\<lparr>m_oAddr := addr\<rparr>"
  have set: "SetSockAddr addr (pipe_at s1 a) = Inr ?q"
    using c(5) assms(5) by (intro SetSockAddr_ok) (simp_all add: idle_pipe_def)
  define s2 where "s2 = set_pipe a ?q s1"
  have use1: "a \<in> in_use (s_oCPipePool s1)" using c(4) by simp
  have v1: "valid_unit (s_oCPipePool s1) a" using use1 by (rule in_use_valid)
  have "pipe_ok ?q" using c(6) by (simp add: pipe_ok_def)
  from conn_ok_set_pipe [OF c(2) use1 this] have s2: "conn_ok s2" "in_use (s_oCPipePool s2) = in_use (s_oCPipePool s1)"
    by (simp_all add: s2_def)
  have f2: "history s2 = history ?st" "session_pipe s2 = session_pipe ?st" "os s2 = os ?st" "pipe_at s2 a = ?q"
      "workers s2 = workers ?st"
    using f1 v1 by (simp_all add: s2_def)
  obtain s3 where m: "call_host hs server (MallocConnection server) s2 = Inr s3" "sess \<noteq> 0"
    and r3: "accept_session hs sess fd a (e\<lparr>ep_net := s3\<rparr>) = Inr e'"
    using assms(3) unfolding accept_one_def c(1) bindE_Inr prod.case option.sel Let_def set s2_def [symmetric]
      server_def [symmetric] f2(1) sess_def [symmetric]
    by (auto simp: bindE_eq_Inr)
  note k3 = call_host_links [OF m(1) s2(1)]
  have use3: "a \<in> in_use (s_oCPipePool s3)" using k3(2) s2(2) use1 by (simp add: links_kept_def)
  have v3: "valid_unit (s_oCPipePool s3) a" using use3 by (rule in_use_valid)
  have v2: "valid_unit (s_oCPipePool s2) a" using v1 by (simp add: s2_def)
  have f3: "session_pipe s3 = session_pipe ?st" "pipe_at s3 a = ?q" "workers s3 = workers ?st"
    "registered (calls (os s3)) = registered (calls (os ?st))"
    using k3(2) f2 c(8) v2 by (simp_all add: links_kept_def)
  let ?q4 = "?q\<lparr>m_lSocketHandler := fd, m_nStatus := SS_ESTABLISHED\<rparr>"
  define s4 where "s4 = set_pipe a ?q4 s3"
  have "pipe_ok ?q4" using c(6) by (simp add: pipe_ok_def)
  from conn_ok_set_pipe [OF k3(1) use3 this] f3(2) have s4: "conn_ok s4" "in_use (s_oCPipePool s4) = in_use (s_oCPipePool s3)"
    by (simp_all add: s4_def)
  have f4: "session_pipe s4 = session_pipe ?st" "pipe_at s4 a = ?q4" "workers s4 = workers ?st" "history s4 = history s3"
    "os s4 = os s3"
    using f3 v3 by (simp_all add: s4_def)
  obtain ep s5 res s6 s8 where b: "BalancedFD (e\<lparr>ep_net := s4\<rparr>) = Inr ep" "Relate sess fd ep a s4 = Inr s5"
    "epoll_add ep fd (EPOLLIN OR EPOLLOUT OR EPOLLET) s5 = Inr (res, s6)" "0 = res"
    and s8: "call_host hs sess (OnConnected sess) (set_pipe a ((pipe_at s6 a)\<lparr>m_nStatus := SS_ESTABLISHED\<rparr>) s6) = Inr s8"
      "e' = e\<lparr>ep_net := s8\<rparr>"
    using r3 unfolding accept_session_def Let_def by (auto simp: bindE_eq_Inr f3(2) s4_def)
  have ep: "BalancedFD e = Inr ep" using BalancedFD_fields [OF b(1), of e] f4(3) by simp
  have "\<forall>h'. session_pipe s4 h' = Some a \<longrightarrow> h' = sess" using f4(1) c(8) by simp
  note k5 = Relate_ok [OF b(2) s4(1) _ this]
  have use4: "a \<in> in_use (s_oCPipePool s4)" using s4(2) use3 by simp
  have s6: "s6 = s5\<lparr>os := os s6\<rparr>" "registered (calls (os s6)) = insert (ep, fd) (registered (calls (os s5)))"
    using b(3) by (auto simp: epoll_add_def epoll_ctl_def log_call_def outcome_simps split: list.splits)
  have c6: "conn_ok s6" using k5(1) [OF use4] conn_ok_more(1) [of "os s6" s5] s6(1) by simp
  have f6: "pipe_at s6 = pipe_at s5" "s_oCPipePool s6 = s_oCPipePool s5" "session_pipe s6 = session_pipe s5"
    "history s6 = history s5" "workers s6 = workers s5"
    using arg_cong [OF s6(1), of session_pipe] arg_cong [OF s6(1), of s_oCPipePool] arg_cong [OF s6(1), of history]
      arg_cong [OF s6(1), of workers] by (simp_all add: pipe_at_def fun_eq_iff)
  have p6: "(pipe_at s6 a)\<lparr>m_nStatus := SS_ESTABLISHED\<rparr> = pipe_at s6 a"
    using k5(5) [OF use4] f6(1) f4(2) by simp
  have use6: "a \<in> in_use (s_oCPipePool s6)" using f6(2) k5(4) [OF use4] use4 by simp
  have v6: "valid_unit (s_oCPipePool s6) a" using use6 by (rule in_use_valid)
  define s7 where "s7 = set_pipe a (pipe_at s6 a) s6"
  from conn_ok_set_pipe [OF c6 use6 conn_ok_pipe_ok [OF c6 use6]] have c7: "conn_ok s7"
    "in_use (s_oCPipePool s7) = in_use (s_oCPipePool s6)" by (simp_all add: s7_def)
  have "call_host hs sess (OnConnected sess) s7 = Inr s8" using s8(1) by (simp add: s7_def p6)
  note k8 = call_host_links [OF this c7(1)]
  have v7: "valid_unit (s_oCPipePool s7) a" using v6 by (simp add: s7_def)
  have f7: "pipe_at s7 a = pipe_at s6 a" "session_pipe s7 = session_pipe s6" "history s7 = history s6" "os s7 = os s6"
    using v6 by (simp_all add: s7_def)
  have p5: "pipe_at s6 a = ?q4\<lparr>m_pHost := sess, m_lEpollFD := ep, m_lSocketHandler := fd\<rparr>"
    using k5(5) [OF use4] f6(1) f4(2) by simp
  have l: "link (pipe_at s8 a) = (fd, ep, addr, m_oRecvStream (pipe_at s1 a), sess)"
    "m_nStatus (pipe_at s8 a) \<noteq> SS_UNINITIALIZE"
    using k8(2) v7 f7(1) p5 by (simp_all add: links_kept_def link_def open_still_def)
  have "in_use (s_oCPipePool s8) = insert a (in_use (s_oCPipePool ?st))"
    using k8(2) c7(2) f6(2) k5(4) [OF use4] s4(2) k3(2) s2(2) c(4) by (simp add: links_kept_def)
  moreover have "session_pipe s8 sess = Some a" using k8(2) f7(2) f6(3) k5(2) [OF use4] by (simp add: links_kept_def)
  moreover have "registered (calls (os s8)) = insert (ep, fd) (registered (calls (os ?st)))"
    using k8(2) f7(4) s6(2) k5(6) [OF use4] f4(5) f3(4) by (simp add: links_kept_def)
  moreover have "history s8 = history ?st @ [MallocConnection server, OnConnected sess]"
    using k8(3) f7(3) f6(4) k5(7) [OF use4] f4(4) k3(3) f2(1) by simp
  moreover have "pending (m_oRecvStream (pipe_at s1 a)) = []" using c(5) by (simp add: idle_pipe_def)
  ultimately show ?thesis
    using ep c(3) l k8(1) by (intro exI [of _ a] exI [of _ ep]) (simp add: s8(2) link_def)
qed

section \<open>Connecting\<close>

lemma epoll_add_ok:
  assumes "epoll_add ep fd evs st = Inr (res, st')"
  shows "st' = st\<lparr>os := os st'\<rparr>" "registered (calls (os st')) = insert (ep, fd) (registered (calls (os st)))"
    "\<exists>rs. ctl_answers (os st) = res # rs"
  using assms by (auto simp: epoll_add_def epoll_ctl_def log_call_def outcome_simps split: list.splits)

lemma os_only:
  assumes "st' = st\<lparr>os := w\<rparr>"
  shows "pipe_at st' = pipe_at st" "s_oCPipePool st' = s_oCPipePool st" "session_pipe st' = session_pipe st"
    "history st' = history st" "workers st' = workers st" "conn_ok st' = conn_ok st"
  unfolding assms by (simp_all add: fun_eq_iff)

lemma DoConnect_ok:
  assumes "DoConnect hs a st = Inr st'" "conn_ok st" "a \<in> in_use (s_oCPipePool st)"
  defines "p \<equiv> pipe_at st a"
  shows "conn_ok st'" "history st' = history st @ [OnConnected (m_pHost p)]" "session_pipe st' = session_pipe st"
    "registered (calls (os st')) = insert (m_lEpollFD p, m_lSocketHandler p) (registered (calls (os st)))"
    "link (pipe_at st' a) = link p" "m_nStatus (pipe_at st' a) \<noteq> SS_UNINITIALIZE"
    "in_use (s_oCPipePool st') = in_use (s_oCPipePool st)"
proof -
  let ?q = "p\<lparr>m_nStatus := SS_ESTABLISHED\<rparr>"
  have v: "valid_unit (s_oCPipePool st) a" using assms(3) by (rule in_use_valid)
  have "pipe_ok ?q" using conn_ok_pipe_ok [OF assms(2,3)] by (simp add: pipe_ok_def p_def)
  from conn_ok_set_pipe [OF assms(2,3) this] have s1: "conn_ok (set_pipe a ?q st)"
    "in_use (s_oCPipePool (set_pipe a ?q st)) = in_use (s_oCPipePool st)" by (simp_all add: p_def)
  obtain s2 where s2: "epoll_add (m_lEpollFD p) (m_lSocketHandler p) (EPOLLIN OR EPOLLOUT OR EPOLLET) (set_pipe a ?q st) = Inr (0, s2)"
    "call_host hs (m_pHost p) (OnConnected (m_pHost p)) s2 = Inr st'"
    using assms(1) v by (auto simp: DoConnect_def Let_def bindE_eq_Inr p_def)
  note a2 = epoll_add_ok [OF s2(1)]
  note o2 = os_only [OF a2(1)]
  have c2: "conn_ok s2" using o2(6) s1(1) by simp
  note k = call_host_links [OF s2(2) c2]
  have v2: "valid_unit (s_oCPipePool s2) a" using v o2(2) by simp
  show "conn_ok st'" by (rule k(1))
  show "history st' = history st @ [OnConnected (m_pHost p)]" using k(3) o2(4) by simp
  show "session_pipe st' = session_pipe st" using k(2) o2(3) by (simp add: links_kept_def)
  show "registered (calls (os st')) = insert (m_lEpollFD p, m_lSocketHandler p) (registered (calls (os st)))"
    using k(2) a2(2) by (simp add: links_kept_def)
  show "link (pipe_at st' a) = link p" "m_nStatus (pipe_at st' a) \<noteq> SS_UNINITIALIZE"
    using k(2) v2 o2(1) v by (simp_all add: links_kept_def open_still_def link_def)
  show "in_use (s_oCPipePool st') = in_use (s_oCPipePool st)" using k(2) o2(2) s1(2) by (simp add: links_kept_def)
qed

lemma new_client_pipe_ok:
  assumes "new_client_pipe client fd e = Inr (a, e1)" "conn_ok (ep_net e)"
  shows "conn_ok (ep_net e1)" "a \<notin> in_use (s_oCPipePool (ep_net e))" "client \<noteq> 0"
    "in_use (s_oCPipePool (ep_net e1)) = insert a (in_use (s_oCPipePool (ep_net e)))"
    "session_pipe (ep_net e1) client = Some a" "m_pHost (pipe_at (ep_net e1) a) = client"
    "m_lSocketHandler (pipe_at (ep_net e1) a) = fd" "BalancedFD e = Inr (m_lEpollFD (pipe_at (ep_net e1) a))"
    "m_nStatus (pipe_at (ep_net e1) a) = SS_UNINITIALIZE"
    "history (ep_net e1) = history (ep_net e)" "os (ep_net e1) = os (ep_net e)"
    "pending (m_oRecvStream (pipe_at (ep_net e1) a)) = []" "e1 = e\<lparr>ep_net := ep_net e1\<rparr>"
proof -
  let ?st = "ep_net e"
  obtain b s1 where c: "CPipe_Create ?st = Inr (Some b, s1)" "conn_ok s1" "b \<notin> in_use (s_oCPipePool ?st)"
    "in_use (s_oCPipePool s1) = insert b (in_use (s_oCPipePool ?st))" "idle_pipe (pipe_at s1 b)"
    "s1 = ?st\<lparr>s_oCPipePool := s_oCPipePool s1\<rparr>" "\<forall>h. session_pipe ?st h \<noteq> Some b"
    using CPipe_Create_ok [OF assms(2)] by metis
  have f1: "session_pipe s1 = session_pipe ?st" "os s1 = os ?st" "history s1 = history ?st" "workers s1 = workers ?st"
    using arg_cong [OF c(6), of session_pipe] arg_cong [OF c(6), of os] arg_cong [OF c(6), of history]
      arg_cong [OF c(6), of workers] by simp_all
  obtain ep s2 where r: "BalancedFD (e\<lparr>ep_net := s1\<rparr>) = Inr ep" "Relate client fd ep b s1 = Inr s2" "a = b"
    "e1 = e\<lparr>ep_net := s2\<rparr>"
    using assms(1) c(1) by (auto simp: new_client_pipe_def on_net_def bindE_eq_Inr)
  have ep: "BalancedFD e = Inr ep" using BalancedFD_fields [OF r(1), of e] f1(4) by simp
  have use: "b \<in> in_use (s_oCPipePool s1)" using c(4) by simp
  have "\<forall>h'. session_pipe s1 h' = Some b \<longrightarrow> h' = client" using f1(1) c(7) by simp
  note k = Relate_ok [OF r(2) c(2) use this]
  show "conn_ok (ep_net e1)" "a \<notin> in_use (s_oCPipePool (ep_net e))" "client \<noteq> 0"
    "in_use (s_oCPipePool (ep_net e1)) = insert a (in_use (s_oCPipePool (ep_net e)))"
    "session_pipe (ep_net e1) client = Some a" "m_pHost (pipe_at (ep_net e1) a) = client"
    "m_lSocketHandler (pipe_at (ep_net e1) a) = fd" "BalancedFD e = Inr (m_lEpollFD (pipe_at (ep_net e1) a))"
    "m_nStatus (pipe_at (ep_net e1) a) = SS_UNINITIALIZE"
    "history (ep_net e1) = history (ep_net e)" "os (ep_net e1) = os (ep_net e)"
    "pending (m_oRecvStream (pipe_at (ep_net e1) a)) = []" "e1 = e\<lparr>ep_net := ep_net e1\<rparr>"
    using k c(3,4,5) r(3,4) ep f1 by (simp_all add: idle_pipe_def)
qed

lemma on_net_eq_Inr: "on_net f e = Inr e' \<longleftrightarrow> (\<exists>st. f (ep_net e) = Inr st \<and> e' = e\<lparr>ep_net := st\<rparr>)"
  by (auto simp: on_net_def bindE_eq_Inr)

lemma flags_simps: "has_flag ev (EPOLLERR OR EPOLLHUP OR EPOLLRDHUP) \<Longrightarrow> source_event fuel hs (Source_CPipe a) ev e =
    on_net (\<lambda>st. bindE (call_host hs (m_pHost (pipe_at st a)) (OnConnectFailed (m_pHost (pipe_at st a))) st) (\<lambda>st.
              bindE (forget_pipe (m_pHost (pipe_at st a)) st) (CPipe_Release a))) e"
  "\<not> has_flag ev (EPOLLERR OR EPOLLHUP OR EPOLLRDHUP) \<Longrightarrow> has_flag ev EPOLLOUT \<Longrightarrow>
    source_event fuel hs (Source_CPipe a) ev e = on_net (DoConnect hs a) e"
  by (simp_all add: source_event_def Let_def)

section \<open>A concrete engine\<close>

text \<open>One pipe in use (session 1), one free; one worker (epoll 4), the main epoll 3; server 2 listens on 6.\<close>

definition example_pool :: "cpipe tpool" where
  "example_pool = \<lparr>m_list = [UAddr 0 1], m_sBlockCount = 1,
     m_pUnitAry = [[\<lparr>tunit = example_pipe, len = pipe_sz, status = IN_USE\<rparr>,
                    \<lparr>tunit = CPipe_new, len = pipe_sz, status = IS_FREE\<rparr>]],
     m_pUnitAry_form = Some Scalar\<rparr>"

definition example_engine :: "s32 list \<Rightarrow> sock_answer list \<Rightarrow> engine" where
  "example_engine ctl sk = \<lparr>
     ep_net = example_net\<lparr>s_oCPipePool := example_pool, os := (os example_net)\<lparr>ctl_answers := ctl\<rparr>\<rparr>,
     ep_lEpollFD = 3, ep_nWorkerCount = 1, ep_pWorkerAry = True,
     spipes = [SPipe_new\<lparr>sp_lSocketHandler := 6, sp_lEpollFD := 3, sp_pHost := 2\<rparr>],
     server_pipe = [2 \<mapsto> 0], socks = \<lparr>sock_answers = sk, sock_calls = []\<rparr>\<rparr>"

lemma example_pool_valid: "valid_unit example_pool a \<longleftrightarrow> a = UAddr 0 0 \<or> a = UAddr 0 1"
  by (cases a) (auto simp: example_pool_def valid_unit_def less_Suc_eq)

lemma example_pool_at:
  "get_unit example_pool (UAddr 0 0) = example_pipe" "get_unit example_pool (UAddr 0 (Suc 0)) = CPipe_new"
  "status (unit_info example_pool (UAddr 0 0)) = IN_USE" "status (unit_info example_pool (UAddr 0 (Suc 0))) = IS_FREE"
  "len (unit_info example_pool (UAddr 0 0)) = pipe_sz" "len (unit_info example_pool (UAddr 0 (Suc 0))) = pipe_sz"
  by (simp_all add: get_unit_def unit_info_def example_pool_def)

lemma example_pool_inv: "pool_inv pipe_sz example_pool"
  unfolding pool_inv_def
  by (auto simp: example_pool_valid example_pool_at) (simp_all add: example_pool_def unit_info_def)

lemma example_pool_use: "in_use example_pool = {UAddr 0 0}"
  by (auto simp: in_use_def example_pool_valid example_pool_at)

lemma example_engine_fields [simp]:
  "s_oCPipePool (ep_net (example_engine ctl sk)) = example_pool"
  "session_pipe (ep_net (example_engine ctl sk)) = [1 \<mapsto> UAddr 0 0]"
  "history (ep_net (example_engine ctl sk)) = []" "ep_lEpollFD (example_engine ctl sk) = 3"
  "ep_pWorkerAry (example_engine ctl sk)" "ep_nWorkerCount (example_engine ctl sk) = 1"
  "socks (example_engine ctl sk) = \<lparr>sock_answers = sk, sock_calls = []\<rparr>"
  "ctl_answers (os (ep_net (example_engine ctl sk))) = ctl" "calls (os (ep_net (example_engine ctl sk))) = []"
  "workers (ep_net (example_engine ctl sk)) = workers example_net"
  "spipes (example_engine ctl sk) = [SPipe_new\<lparr>sp_lSocketHandler := 6, sp_lEpollFD := 3, sp_pHost := 2\<rparr>]"
  by (simp_all add: example_engine_def example_net_def)

lemma example_engine_ok: "conn_ok (ep_net (example_engine ctl sk))"
proof -
  have at: "pipe_at (ep_net (example_engine ctl sk)) a = get_unit example_pool a" for a by (simp add: pipe_at_def)
  have "m_pHost example_pipe = 1" by (simp add: example_pipe_def)
  then show ?thesis
    by (auto simp: conn_ok_def net_ok_def example_pool_inv idle_sat_def example_pool_use example_pool_valid at
        example_pool_at example_pipe_ok new_pipe_ok idle_new)
qed

lemma example_balanced: "BalancedFD (example_engine ctl sk) = Inr 4"
  by (simp add: BalancedFD_def BalancingWorker_def GetEpollFD_def example_net_def)

section \<open>Choosing a worker\<close>

lemma Balancing_loop_least:
  assumes "p < n" "\<forall>j < k. GetOPTCount (ws ! p) \<le> GetOPTCount (ws ! j)" "p < k"
  shows "let r = Balancing_loop ws [k..<n] p in
    r < n \<and> (\<forall>j < n. j < k \<or> k \<le> j \<longrightarrow> GetOPTCount (ws ! r) \<le> GetOPTCount (ws ! j))"
  using assms
proof (induction "n - k" arbitrary: k p)
  case 0
  then have "n \<le> k" by simp
  then show ?case using 0 by (auto simp: Let_def)
next
  case (Suc m)
  then have "k < n" by simp
  then have up: "[k..<n] = k # [Suc k..<n]" by (rule upt_conv_Cons)
  define q where "q = (if GetOPTCount (ws ! k) < GetOPTCount (ws ! p) then k else p)"
  have "q < n" "q < Suc k" using Suc.prems \<open>k < n\<close> by (auto simp: q_def)
  moreover have "\<forall>j < Suc k. GetOPTCount (ws ! q) \<le> GetOPTCount (ws ! j)"
    using Suc.prems(2) by (auto simp: q_def less_Suc_eq)
  moreover have "m = n - Suc k" using Suc.hyps(2) by simp
  ultimately have "let r = Balancing_loop ws [Suc k..<n] q in
    r < n \<and> (\<forall>j < n. j < Suc k \<or> Suc k \<le> j \<longrightarrow> GetOPTCount (ws ! r) \<le> GetOPTCount (ws ! j))"
    using Suc.hyps(1) [of "Suc k" q] by simp
  then show ?case unfolding up by (auto simp: Let_def q_def [symmetric])
qed

section \<open>Addresses\<close>

lemma htonl_bytes: "length bs = 4 \<Longrightarrow> word_bytes 4 (htonl (bytes_word bs)) = rev bs"
proof -
  assume n: "length bs = 4"
  have "word_bytes 4 (bytes_word bs :: 32 word) = bs" "word_bytes 4 (bytes_word (rev bs) :: 32 word) = rev bs"
    using word_bytes_bytes [of bs, where 'a = 32] word_bytes_bytes [of "rev bs", where 'a = 32] n by simp_all
  then show ?thesis by (simp add: htonl_def)
qed

lemma open_server_bind:
  assumes "open_server addr w = Inr (False, fd, w')"
  shows "Call_bind fd addr \<in> set (sock_calls w')"
  using assms
  by (auto simp: open_server_def sock_call_def setnonblocking_def bindE_eq_Inr Let_def split: if_splits list.splits)

lemma open_client_addr:
  assumes "open_client ip port w = Inr (False, fd, addr, w')" "dotted ip = Some bs"
  shows "addr = sockaddr_in port bs"
  using assms
  by (auto simp: open_client_def sock_call_def setnonblocking_def bindE_eq_Inr Let_def split: if_splits list.splits)

section \<open>Properties\<close>

text \<open>
  C6: An accepted connection gets a pipe nobody used, with no bytes of an earlier connection,
  that carries the new socket, its peer's address and the session the server returned; the
  chosen worker watches the socket, and exactly then the session is told. The pool's and the
  sessions' invariant holds again.
\<close>

theorem accepted_connection:
  assumes "accept_one hs i fd addr e = Inr e'" "conn_ok (ep_net e)" "length addr = 16"
  shows "let server = sp_pHost (spipes e ! i); sess = on_malloc hs (history (ep_net e) @ [MallocConnection server]) in
    \<exists>a ep. a \<notin> in_use (s_oCPipePool (ep_net e)) \<and> BalancedFD e = Inr ep \<and>
     in_use (s_oCPipePool (ep_net e')) = insert a (in_use (s_oCPipePool (ep_net e))) \<and>
     session_pipe (ep_net e') sess = Some a \<and> m_nStatus (pipe_at (ep_net e') a) \<noteq> SS_UNINITIALIZE \<and>
     m_lSocketHandler (pipe_at (ep_net e') a) = fd \<and> m_oAddr (pipe_at (ep_net e') a) = addr \<and>
     pending (m_oRecvStream (pipe_at (ep_net e') a)) = [] \<and>
     registered (calls (os (ep_net e'))) = insert (ep, fd) (registered (calls (os (ep_net e)))) \<and>
     history (ep_net e') = history (ep_net e) @ [MallocConnection server, OnConnected sess] \<and> conn_ok (ep_net e')"
  using accept_one_ok [OF assms] unfolding Let_def by blast

theorem accepted_connection_witness:
  "\<exists>e'. accept_one (example_hosts\<lparr>on_malloc := \<lambda>_. 9\<rparr>) 0 7 (replicate 16 1) (example_engine [0] []) = Inr e' \<and>
     history (ep_net e') = [MallocConnection 2, OnConnected 9] \<and> conn_ok (ep_net e')"
proof -
  let ?e = "example_engine [0] []" and ?hs = "example_hosts\<lparr>on_malloc := \<lambda>_. 9\<rparr>"
  obtain a st where c: "CPipe_Create (ep_net ?e) = Inr (Some a, st)" "idle_pipe (pipe_at st a)"
    "st = (ep_net ?e)\<lparr>s_oCPipePool := s_oCPipePool st\<rparr>" "conn_ok st" "a \<in> in_use (s_oCPipePool st)"
    using CPipe_Create_ok [OF example_engine_ok [of "[0]" "[]"]] by (metis insertI1)
  have f: "history st = []" "workers st = workers example_net" "ctl_answers (os st) = [0]"
    using arg_cong [OF c(3), of history] arg_cong [OF c(3), of workers] arg_cong [OF c(3), of os] by simp_all
  have v: "valid_unit (s_oCPipePool st) a" using c(5) by (rule in_use_valid)
  have set: "SetSockAddr (replicate 16 1) (pipe_at st a) = Inr ((pipe_at st a)\<lparr>m_oAddr := replicate 16 1\<rparr>)"
    using c(2) by (intro SetSockAddr_ok) (simp_all add: idle_pipe_def)
  have bal: "BalancedFD (?e\<lparr>ep_net := s\<rparr>) = Inr 4" if "workers s = workers example_net" for s
    using BalancedFD_fields [OF example_balanced, of "?e\<lparr>ep_net := s\<rparr>" "[0]" "[]"] that by simp
  obtain e' where e': "accept_one ?hs 0 7 (replicate 16 1) ?e = Inr e'"
    using v f by (simp add: accept_one_def c(1) set call_host_def example_hosts_def accept_session_def Let_def SPipe_new_def
        bal Relate_def epoll_add_def epoll_ctl_def)
  with accepted_connection [OF e' example_engine_ok] show ?thesis
    by (auto simp: Let_def SPipe_new_def)
qed

lemma AddClient_outcomes:
  assumes "AddClient hs client ip port e = Inr (ok, e')" "conn_ok (ep_net e)"
    "open_client ip port (socks e) = Inr (False, fd, addr, w)" "sock_answers w = r # rs"
  shows "conn_ok (ep_net e') \<and> sock_calls (socks e') = sock_calls w @ [Call_connect fd addr] \<and>
    (if ans_ret r = 0 then
       ok \<and> history (ep_net e') = history (ep_net e) @ [OnConnected client, OnConnected client] \<and>
       (\<exists>a ep. a \<notin> in_use (s_oCPipePool (ep_net e)) \<and> session_pipe (ep_net e') client = Some a \<and> BalancedFD e = Inr ep \<and>
          registered (calls (os (ep_net e'))) = insert (ep, fd) (registered (calls (os (ep_net e)))))
     else if ans_ret r < 0 \<and> ans_errno r \<noteq> EINPROGRESS then
       \<not> ok \<and> history (ep_net e') = history (ep_net e) @ [OnConnectFailed client] \<and>
       in_use (s_oCPipePool (ep_net e')) = in_use (s_oCPipePool (ep_net e))
     else
       ok \<and> history (ep_net e') = history (ep_net e) \<and>
       (\<exists>a. a \<notin> in_use (s_oCPipePool (ep_net e)) \<and> session_pipe (ep_net e') client = Some a \<and>
          m_nStatus (pipe_at (ep_net e') a) = SS_UNINITIALIZE \<and> m_lSocketHandler (pipe_at (ep_net e') a) = fd \<and>
          registered (calls (os (ep_net e'))) = insert (ep_lEpollFD e, fd) (registered (calls (os (ep_net e))))))"
proof -
  define w' where "w' = w\<lparr>sock_answers := rs, sock_calls := sock_calls w @ [Call_connect fd addr]\<rparr>"
  let ?e = "e\<lparr>socks := w'\<rparr>"
  have c: "sock_call (Call_connect fd addr) w = Inr (r, w')"
    using assms(4) by (simp add: sock_call_def w'_def)
  have run: "(if ans_ret r = 0 then
         bindE (new_client_pipe client fd ?e) (\<lambda>(a, e).
         bindE (on_net (DoConnect hs a) e) (\<lambda>e.
         bindE (on_net (call_host hs client (OnConnected client)) e) (\<lambda>e. Inr (True, e))))
       else if ans_ret r < 0 \<and> ans_errno r \<noteq> EINPROGRESS then
         bindE (on_net (call_host hs client (OnConnectFailed client)) ?e) (\<lambda>e. Inr (False, e))
       else
         bindE (new_client_pipe client fd ?e) (\<lambda>(a, e).
         bindE (epoll_add (ep_lEpollFD e) fd (EPOLLOUT OR EPOLLET) (ep_net e)) (\<lambda>(res, st).
         bindE (TASSERT (res = 0) ''epoll_ctl'') (\<lambda>_. Inr (True, e\<lparr>ep_net := st\<rparr>))))) = Inr (ok, e')"
    using assms(1,3) c by (simp add: AddClient_def Let_def)
  have ok: "conn_ok (ep_net ?e)" using assms(2) by simp
  have calls: "sock_calls w' = sock_calls w @ [Call_connect fd addr]" by (simp add: w'_def)
  have bal: "BalancedFD ?e = BalancedFD e" by (simp add: BalancedFD_def BalancingWorker_def)
  consider (now) "ans_ret r = 0" | (failed) "ans_ret r \<noteq> 0" "ans_ret r < 0 \<and> ans_errno r \<noteq> EINPROGRESS"
    | (progress) "ans_ret r \<noteq> 0" "\<not> (ans_ret r < 0 \<and> ans_errno r \<noteq> EINPROGRESS)" by blast
  then show ?thesis
  proof cases
    case now
    then obtain a e1 s2 s3 where r: "new_client_pipe client fd ?e = Inr (a, e1)" "DoConnect hs a (ep_net e1) = Inr s2"
      "call_host hs client (OnConnected client) s2 = Inr s3" "ok" "e' = e1\<lparr>ep_net := s3\<rparr>"
      using run by (auto simp: bindE_eq_Inr on_net_eq_Inr)
    note n = new_client_pipe_ok [OF r(1) ok]
    have use: "a \<in> in_use (s_oCPipePool (ep_net e1))" using n(4) by simp
    note d = DoConnect_ok [OF r(2) n(1) use]
    note k = call_host_links [OF r(3) d(1)]
    have "socks e1 = w'" using arg_cong [OF n(13), of socks] by simp
    then show ?thesis
      using n d k r(4,5) now calls bal by (auto simp: links_kept_def)
  next
    case failed
    then obtain s2 where r: "call_host hs client (OnConnectFailed client) (ep_net e) = Inr s2" "\<not> ok" "e' = ?e\<lparr>ep_net := s2\<rparr>"
      using run by (auto simp: bindE_eq_Inr on_net_eq_Inr)
    from call_host_links [OF r(1) assms(2)] r(2,3) failed calls show ?thesis by (simp add: links_kept_def)
  next
    case progress
    then obtain a e1 s2 where r: "new_client_pipe client fd ?e = Inr (a, e1)"
      "epoll_add (ep_lEpollFD e1) fd (EPOLLOUT OR EPOLLET) (ep_net e1) = Inr (0, s2)" "ok" "e' = e1\<lparr>ep_net := s2\<rparr>"
      using run by (auto simp: bindE_eq_Inr)
    note n = new_client_pipe_ok [OF r(1) ok]
    note a2 = epoll_add_ok [OF r(2)]
    note o2 = os_only [OF a2(1)]
    have "socks e1 = w'" "ep_lEpollFD e1 = ep_lEpollFD e"
      using arg_cong [OF n(13), of socks] arg_cong [OF n(13), of ep_lEpollFD] by simp_all
    then show ?thesis
      using n a2(2) o2 r(3,4) progress calls by auto
  qed
qed

text \<open>
  C29: \<^verbatim>\<open>AddClient\<close> on its three branches. A connect that succeeds at once tells the session
  twice that it is connected. One that fails at once reports it and leaves the pool alone, but
  nobody closes the socket. One in progress makes an uninitialised pipe watched by the main
  epoll, and says nothing yet.
\<close>

theorem add_client_outcomes:
  assumes "AddClient hs client ip port e = Inr (ok, e')" "conn_ok (ep_net e)"
    "open_client ip port (socks e) = Inr (False, fd, addr, w)" "sock_answers w = r # rs"
  shows "conn_ok (ep_net e') \<and> sock_calls (socks e') = sock_calls w @ [Call_connect fd addr] \<and>
    (if ans_ret r = 0 then
       ok \<and> history (ep_net e') = history (ep_net e) @ [OnConnected client, OnConnected client] \<and>
       (\<exists>a ep. a \<notin> in_use (s_oCPipePool (ep_net e)) \<and> session_pipe (ep_net e') client = Some a \<and> BalancedFD e = Inr ep \<and>
          registered (calls (os (ep_net e'))) = insert (ep, fd) (registered (calls (os (ep_net e)))))
     else if ans_ret r < 0 \<and> ans_errno r \<noteq> EINPROGRESS then
       \<not> ok \<and> history (ep_net e') = history (ep_net e) @ [OnConnectFailed client] \<and>
       in_use (s_oCPipePool (ep_net e')) = in_use (s_oCPipePool (ep_net e))
     else
       ok \<and> history (ep_net e') = history (ep_net e) \<and>
       (\<exists>a. a \<notin> in_use (s_oCPipePool (ep_net e)) \<and> session_pipe (ep_net e') client = Some a \<and>
          m_nStatus (pipe_at (ep_net e') a) = SS_UNINITIALIZE \<and> m_lSocketHandler (pipe_at (ep_net e') a) = fd \<and>
          registered (calls (os (ep_net e'))) = insert (ep_lEpollFD e, fd) (registered (calls (os (ep_net e))))))"
  by (rule AddClient_outcomes [OF assms])

text \<open>A client's socket calls that succeed, with \<open>r\<close> as the answer of \<^verbatim>\<open>connect\<close>.\<close>

definition client_answers :: "sock_answer \<Rightarrow> sock_answer list" where
  "client_answers r = [Ans 7 0 [], Ans 0 0 [], Ans 2 0 [], Ans 0 0 [], r]"

lemma example_open_client:
  "\<exists>w. open_client ''10.0.0.7'' 80 \<lparr>sock_answers = client_answers r, sock_calls = []\<rparr> =
     Inr (False, 7, sockaddr_in 80 [10, 0, 0, 7], w) \<and> sock_answers w = [r]"
  by (simp add: open_client_def sock_call_def client_answers_def setnonblocking_def dotted_def octet_def is_digit_def
      digit_value_def)

lemma example_AddClient:
  "\<exists>w ok e'. AddClient example_hosts 9 ''10.0.0.7'' 80 (example_engine [0] (client_answers (Ans 0 0 []))) = Inr (ok, e') \<and>
     open_client ''10.0.0.7'' 80 (socks (example_engine [0] (client_answers (Ans 0 0 [])))) =
       Inr (False, 7, sockaddr_in 80 [10, 0, 0, 7], w) \<and> sock_answers w = [Ans 0 0 []]"
proof -
  let ?e = "example_engine [0] (client_answers (Ans 0 0 []))"
  obtain w where w: "open_client ''10.0.0.7'' 80 (socks ?e) = Inr (False, 7, sockaddr_in 80 [10, 0, 0, 7], w)"
    "sock_answers w = [Ans 0 0 []]"
    using example_open_client by auto
  let ?e1 = "?e\<lparr>socks := w\<lparr>sock_answers := [], sock_calls := sock_calls w @ [Call_connect 7 (sockaddr_in 80 [10, 0, 0, 7])]\<rparr>\<rparr>"
  obtain a st where c: "CPipe_Create (ep_net ?e) = Inr (Some a, st)"
    "st = (ep_net ?e)\<lparr>s_oCPipePool := s_oCPipePool st\<rparr>" "a \<in> in_use (s_oCPipePool st)"
    using CPipe_Create_ok [OF example_engine_ok [of "[0]" "client_answers (Ans 0 0 [])"]] by (metis insertI1)
  have f: "history st = []" "workers st = workers example_net" "ctl_answers (os st) = [0]"
    using arg_cong [OF c(2), of history] arg_cong [OF c(2), of workers] arg_cong [OF c(2), of os] by simp_all
  have v: "valid_unit (s_oCPipePool st) a" using c(3) by (rule in_use_valid)
  have v2: "valid_unit (s_oCPipePool (set_pipe a q st\<lparr>session_pipe := m\<rparr>)) a" for q m using v by simp
  have at: "pipe_at ((set_pipe a q st)\<lparr>session_pipe := m\<rparr>) a = q" for q m
    using v by (simp add: pipe_at_def set_pipe_def put_unit_def get_unit_def)
  have bal: "BalancedFD (?e1\<lparr>ep_net := st\<rparr>) = Inr 4"
    using BalancedFD_fields [OF example_balanced, of "?e1\<lparr>ep_net := st\<rparr>" "[0]" "client_answers (Ans 0 0 [])"] f(2) by simp
  obtain e1 where e1: "new_client_pipe 9 7 ?e1 = Inr (a, e1)" "ctl_answers (os (ep_net e1)) = [0]"
    "m_pHost (pipe_at (ep_net e1) a) = 9" "valid_unit (s_oCPipePool (ep_net e1)) a"
    using v2 at f(3) by (simp add: new_client_pipe_def c(1) bal on_net_def Relate_def)
  obtain ok e' where e': "AddClient example_hosts 9 ''10.0.0.7'' 80 ?e = Inr (ok, e')"
    using e1(2-4) by (simp add: AddClient_def w [simplified] sock_call_def e1(1) [simplified] on_net_def DoConnect_def epoll_add_def
        epoll_ctl_def call_host_def example_hosts_def Let_def)
  with w show ?thesis by blast
qed

theorem add_client_outcomes_witness:
  "\<exists>ok e'. AddClient example_hosts 9 ''10.0.0.7'' 80 (example_engine [0] (client_answers (Ans 0 0 []))) = Inr (ok, e') \<and>
     history (ep_net e') = [OnConnected 9, OnConnected 9]"
proof -
  obtain w ok e' where e: "AddClient example_hosts 9 ''10.0.0.7'' 80 (example_engine [0] (client_answers (Ans 0 0 []))) = Inr (ok, e')"
    "open_client ''10.0.0.7'' 80 (socks (example_engine [0] (client_answers (Ans 0 0 [])))) =
       Inr (False, 7, sockaddr_in 80 [10, 0, 0, 7], w)" "sock_answers w = [Ans 0 0 []]"
    using example_AddClient by blast
  from add_client_outcomes [OF e(1) example_engine_ok e(2,3)] e(1) show ?thesis by auto
qed

text \<open>
  An outgoing connection stays watched by the main epoll. The first writable event connects
  it: the session is told and a worker watches the socket too. Nothing removes it from the main
  epoll, so when the socket becomes writable again \<^verbatim>\<open>DoConnect\<close> runs again, the kernel refuses to
  add a descriptor that is already watched (\<^verbatim>\<open>EEXIST\<close>), and the process aborts.
\<close>

theorem outgoing_connection_aborts:
  assumes "source_event fuel hs (Source_CPipe a) ev e = Inr e1" "conn_ok (ep_net e)"
    "a \<in> in_use (s_oCPipePool (ep_net e))"
    "has_flag ev EPOLLOUT" "\<not> has_flag ev (EPOLLERR OR EPOLLHUP OR EPOLLRDHUP)"
    "has_flag ev' EPOLLOUT" "\<not> has_flag ev' (EPOLLERR OR EPOLLHUP OR EPOLLRDHUP)"
    and kernel_EEXIST: "ctl_answers (os (ep_net e1)) = r # rs"
      "(m_lEpollFD (pipe_at (ep_net e) a), m_lSocketHandler (pipe_at (ep_net e) a)) \<in> registered (calls (os (ep_net e1)))
        \<Longrightarrow> r \<noteq> 0"
  shows "history (ep_net e1) = history (ep_net e) @ [OnConnected (m_pHost (pipe_at (ep_net e) a))] \<and>
    registered (calls (os (ep_net e))) \<subseteq> registered (calls (os (ep_net e1))) \<and>
    source_event fuel hs (Source_CPipe a) ev' e1 = Inl (Assertion ''epoll ctl error'')"
proof -
  obtain s1 where r: "DoConnect hs a (ep_net e) = Inr s1" "e1 = e\<lparr>ep_net := s1\<rparr>"
    using assms(1) by (auto simp: flags_simps(2) [OF assms(5,4)] on_net_eq_Inr)
  note d = DoConnect_ok [OF r(1) assms(2,3)]
  have v: "valid_unit (s_oCPipePool s1) a" using d(7) assms(3) in_use_valid by blast
  have l: "m_lEpollFD (pipe_at s1 a) = m_lEpollFD (pipe_at (ep_net e) a)"
    "m_lSocketHandler (pipe_at s1 a) = m_lSocketHandler (pipe_at (ep_net e) a)"
    using d(5) by (simp_all add: link_def)
  have "r \<noteq> 0" using kernel_EEXIST(2) d(4) r(2) by simp
  then have "DoConnect hs a s1 = Inl (Assertion ''epoll ctl error'')"
    using v kernel_EEXIST(1) r(2) by (simp add: DoConnect_def Let_def epoll_add_def epoll_ctl_def TASSERT_def)
  then show ?thesis
    using d(2,4) r(2) by (auto simp: flags_simps(2) [OF assms(7,6)] on_net_def)
qed

theorem outgoing_connection_aborts_witness:
  "\<exists>e1. source_event 5 example_hosts (Source_CPipe (UAddr 0 0)) EPOLLOUT (example_engine [0, - 1] []) = Inr e1 \<and>
     history (ep_net e1) = [OnConnected 1] \<and>
     source_event 5 example_hosts (Source_CPipe (UAddr 0 0)) EPOLLOUT e1 = Inl (Assertion ''epoll ctl error'')"
proof -
  let ?e = "example_engine [0, - 1] []"
  have fl: "has_flag EPOLLOUT EPOLLOUT" "\<not> has_flag EPOLLOUT (EPOLLERR OR EPOLLHUP OR EPOLLRDHUP)"
    by (simp_all add: has_flag_def EPOLLOUT_def EPOLLERR_def EPOLLHUP_def EPOLLRDHUP_def)
  have use: "UAddr 0 0 \<in> in_use (s_oCPipePool (ep_net ?e))" by (simp add: example_pool_use)
  have v: "valid_unit (s_oCPipePool (ep_net ?e)) (UAddr 0 0)" by (simp add: example_pool_valid)
  have at: "pipe_at (ep_net ?e) (UAddr 0 0) = example_pipe" by (simp add: pipe_at_def example_pool_at)
  obtain e1 where e1: "source_event 5 example_hosts (Source_CPipe (UAddr 0 0)) EPOLLOUT ?e = Inr e1"
    "ctl_answers (os (ep_net e1)) = [- 1]"
    using v at by (simp add: flags_simps(2) [OF fl(2,1)] on_net_def DoConnect_def Let_def epoll_add_def epoll_ctl_def
        log_call_def call_host_def example_hosts_def example_pipe_def)
  from outgoing_connection_aborts [OF e1(1) example_engine_ok use fl(1,2) fl(1,2) e1(2)] e1 show ?thesis
    by (simp add: at example_pipe_def)
qed

text \<open>
  A connection attempt that fails later (the event carries an error) tells the session,
  takes its pipe away and gives the pipe back clean to the pool; but the socket is not closed
  and stays watched by the main epoll, with an event record that now belongs to the pool.
\<close>

theorem failed_connection_leaks_socket:
  assumes "source_event fuel hs (Source_CPipe a) ev e = Inr e1" "conn_ok (ep_net e)"
    "a \<in> in_use (s_oCPipePool (ep_net e))" "has_flag ev (EPOLLERR OR EPOLLHUP OR EPOLLRDHUP)"
  shows "let h = m_pHost (pipe_at (ep_net e) a) in
    history (ep_net e1) = history (ep_net e) @ [OnConnectFailed h] \<and> session_pipe (ep_net e1) h = None \<and>
    in_use (s_oCPipePool (ep_net e1)) = in_use (s_oCPipePool (ep_net e)) - {a} \<and> conn_ok (ep_net e1) \<and>
    socks e1 = socks e \<and> registered (calls (os (ep_net e1))) = registered (calls (os (ep_net e)))"
proof -
  let ?h = "m_pHost (pipe_at (ep_net e) a)"
  obtain s1 s2 s3 where r: "call_host hs ?h (OnConnectFailed ?h) (ep_net e) = Inr s1"
    "forget_pipe (m_pHost (pipe_at s1 a)) s1 = Inr s2" "CPipe_Release a s2 = Inr s3" "e1 = e\<lparr>ep_net := s3\<rparr>"
    using assms(1) by (auto simp: flags_simps(1) [OF assms(4)] on_net_eq_Inr bindE_eq_Inr)
  note k = call_host_links [OF r(1) assms(2)]
  have v: "valid_unit (s_oCPipePool (ep_net e)) a" using assms(3) by (rule in_use_valid)
  have h: "m_pHost (pipe_at s1 a) = ?h" using k(2) v by (simp add: links_kept_def link_def)
  have s2: "s2 = s1\<lparr>session_pipe := (session_pipe s1)(?h := None)\<rparr>"
    using r(2) h by (auto simp: forget_pipe_def split: if_splits)
  have c2: "conn_ok s2" using k(1) unfolding s2 by (auto simp: conn_ok_def net_ok_def pipe_at_def split: if_splits)
  have none: "\<forall>g. session_pipe s2 g \<noteq> Some a"
    using k(1) h unfolding s2 by (auto simp: conn_ok_def)
  from CPipe_Release_ok [OF r(3) c2 none] k(2,3) show ?thesis
    by (simp add: Let_def r(4) s2 links_kept_def)
qed

theorem failed_connection_leaks_socket_witness:
  "\<exists>e1. source_event 5 example_hosts (Source_CPipe (UAddr 0 0)) EPOLLERR
      ((example_engine [] [])\<lparr>ep_net := set_pipe (UAddr 0 0) (example_pipe\<lparr>m_nStatus := SS_UNINITIALIZE\<rparr>)
         (ep_net (example_engine [] []))\<rparr>) = Inr e1 \<and>
     history (ep_net e1) = [OnConnectFailed 1] \<and> in_use (s_oCPipePool (ep_net e1)) = {}"
proof -
  let ?s = "ep_net (example_engine [] [])" and ?p = "example_pipe\<lparr>m_nStatus := SS_UNINITIALIZE\<rparr>"
  let ?e = "(example_engine [] [])\<lparr>ep_net := set_pipe (UAddr 0 0) ?p ?s\<rparr>"
  have fl: "has_flag EPOLLERR (EPOLLERR OR EPOLLHUP OR EPOLLRDHUP)"
    by (simp add: has_flag_def EPOLLERR_def EPOLLHUP_def EPOLLRDHUP_def)
  have use: "UAddr 0 0 \<in> in_use (s_oCPipePool ?s)" by (simp add: example_pool_use)
  have v: "valid_unit (s_oCPipePool ?s) (UAddr 0 0)" by (simp add: example_pool_valid)
  have ok: "pipe_ok ?p" using example_pipe_ok by (simp add: pipe_ok_def)
  have at: "pipe_at ?s (UAddr 0 0) = example_pipe" by (simp add: pipe_at_def example_pool_at)
  note c = conn_ok_set_pipe [OF example_engine_ok use ok]
  have c1: "conn_ok (ep_net ?e)" "in_use (s_oCPipePool (ep_net ?e)) = {UAddr 0 0}"
    using c at by (simp_all add: example_pool_use)
  have pinv: "pool_inv pipe_sz (s_oCPipePool (set_pipe (UAddr 0 0) ?p ?s))" using c1(1) by (simp add: conn_ok_def net_ok_def)
  obtain q where q: "CPipe_Clear ?p = Inr q" "pipe_ok q"
  proof -
    have sok: "stream_inv 16384 (m_oRecvStream ?p)" "stream_inv 16384 (m_oSendStream ?p)"
      using ok by (simp_all add: pipe_ok_def)
    from TStream_clear_ok [OF sok(1)] TStream_clear_ok [OF sok(2)] show ?thesis
      by (auto intro!: that simp: CPipe_Clear_def Pipe_Clear_def pipe_ok_def)
  qed
  define s2 where "s2 = (set_pipe (UAddr 0 0) ?p ?s)\<lparr>history := [OnConnectFailed 1], session_pipe := Map.empty\<rparr>"
  have n2: "net_ok (set_pipe (UAddr 0 0) q s2)" "in_use (s_oCPipePool (set_pipe (UAddr 0 0) q s2)) = {UAddr 0 0}"
  proof -
    have "net_ok s2" using c1(1) by (auto simp: s2_def conn_ok_def net_ok_def pipe_at_def)
    moreover have "valid_unit (s_oCPipePool s2) (UAddr 0 0)" using v by (simp add: s2_def)
    moreover have "in_use (s_oCPipePool s2) = {UAddr 0 0}" using c1(2) by (simp add: s2_def)
    ultimately show "net_ok (set_pipe (UAddr 0 0) q s2)" "in_use (s_oCPipePool (set_pipe (UAddr 0 0) q s2)) = {UAddr 0 0}"
      using net_ok_set_pipe [OF _ _ q(2), of s2 "UAddr 0 0"] by simp_all
  qed
  have p2: "pool_inv pipe_sz (s_oCPipePool (set_pipe (UAddr 0 0) q s2))" using n2(1) by (simp add: net_ok_def)
  have u2: "UAddr 0 0 \<in> in_use (s_oCPipePool (set_pipe (UAddr 0 0) q s2))" using n2(2) by simp
  obtain pool where "TPool_Recover pipe_sz (UAddr 0 0) (s_oCPipePool (set_pipe (UAddr 0 0) q s2)) = Inr pool"
    using TPool_Recover_ok [OF p2 u2] by blast
  moreover have "pipe_at s2 (UAddr 0 0) = ?p"
    using v unfolding s2_def by (simp add: pipe_at_def set_pipe_def put_unit_def get_unit_def)
  ultimately have "CPipe_Release (UAddr 0 0) s2 = Inr (s2\<lparr>s_oCPipePool := pool\<rparr>)"
    by (simp add: CPipe_Release_def q(1))
  moreover have "forget_pipe 1 ((set_pipe (UAddr 0 0) ?p ?s)\<lparr>history := [OnConnectFailed 1]\<rparr>) = Inr s2"
    by (simp add: forget_pipe_def s2_def)
  moreover have "call_host example_hosts 1 (OnConnectFailed 1) (ep_net ?e) =
      Inr ((set_pipe (UAddr 0 0) ?p ?s)\<lparr>history := [OnConnectFailed 1]\<rparr>)"
    by (simp add: call_host_def example_hosts_def)
  moreover have h: "m_pHost (pipe_at (ep_net ?e) (UAddr 0 0)) = 1"
    "m_pHost (pipe_at ((set_pipe (UAddr 0 0) ?p ?s)\<lparr>history := [OnConnectFailed 1]\<rparr>) (UAddr 0 0)) = 1"
    using v by (simp_all add: example_pipe_def)
  ultimately obtain e1 where e1: "source_event 5 example_hosts (Source_CPipe (UAddr 0 0)) EPOLLERR ?e = Inr e1"
    unfolding flags_simps(1) [OF fl] on_net_def by (simp only: h bindE_Inr)
  from failed_connection_leaks_socket [OF e1 c1(1) _ fl] c1(2) h(1) e1 show ?thesis by (simp add: Let_def)
qed

text \<open>
  For the same address string a client connects to \<^verbatim>\<open>a.b.c.d\<close>, while a server is bound to
  \<^verbatim>\<open>d.c.b.a\<close>: \<^verbatim>\<open>AddServer\<close> applies \<^verbatim>\<open>htonl\<close> to an address that already is in network order.
\<close>

theorem server_address_reversed:
  assumes "AddServer server ip port e = Inr (True, e')" "dotted ip = Some [a, b, c, d]"
  shows "(\<exists>fd. Call_bind fd (sockaddr_in port [d, c, b, a]) \<in> set (sock_calls (socks e'))) \<and>
    (\<forall>w fd addr w'. open_client ip port w = Inr (False, fd, addr, w') \<longrightarrow> addr = sockaddr_in port [a, b, c, d])"
proof -
  have addr: "word_bytes 4 (htonl (inet_addr ip)) = [d, c, b, a]"
    using htonl_bytes [of "[a, b, c, d]"] by (simp add: inet_addr_def assms(2))
  let ?e = "e\<lparr>spipes := spipes e @ [SPipe_new]\<rparr>"
  obtain failed fd w where o: "open_server (sockaddr_in port [d, c, b, a]) (socks ?e) = Inr (failed, fd, w)"
    using assms(1) by (auto simp: AddServer_def Let_def bindE_eq_Inr addr)
  then have "\<not> failed" using assms(1) by (auto simp: AddServer_def Let_def bindE_eq_Inr addr)
  with assms(1) o obtain e1 where "SPipe_Relate server fd (ep_lEpollFD e) (length (spipes e)) (?e\<lparr>socks := w\<rparr>) = Inr e1"
    "socks e' = socks e1"
    by (auto simp: AddServer_def Let_def bindE_eq_Inr addr)
  then have "socks e' = w" by (auto simp: SPipe_Relate_def bindE_eq_Inr)
  with open_server_bind [of _ "socks ?e" fd w] o \<open>\<not> failed\<close> open_client_addr [OF _ assms(2)] show ?thesis by auto
qed

theorem server_address_reversed_witness:
  "\<exists>e'. AddServer 5 ''10.0.0.7'' 80 (example_engine [0] [Ans 7 0 [], Ans 0 0 [], Ans 2 0 [], Ans 0 0 [], Ans 0 0 [], Ans 0 0 []]) =
      Inr (True, e') \<and>
     (\<exists>fd. Call_bind fd (sockaddr_in 80 [7, 0, 0, 10]) \<in> set (sock_calls (socks e')))"
proof -
  let ?e = "example_engine [0] [Ans 7 0 [], Ans 0 0 [], Ans 2 0 [], Ans 0 0 [], Ans 0 0 [], Ans 0 0 []]"
  have d: "dotted ''10.0.0.7'' = Some [10, 0, 0, 7]"
    by (simp add: dotted_def octet_def is_digit_def digit_value_def)
  obtain e' where e': "AddServer 5 ''10.0.0.7'' 80 ?e = Inr (True, e')"
    by (simp add: AddServer_def open_server_def sock_call_def setnonblocking_def SPipe_Relate_def epoll_add_def epoll_ctl_def Let_def)
  from server_address_reversed [OF e' d] e' show ?thesis by blast
qed

end
