(* ===== verification/Net_Balance.thy ===== *)
theory Net_Balance
  imports Net_Connect
begin

text \<open>
  The load counters of the workers over whole runs of the engine (epoller.cpp,
  \<^verbatim>\<open>BalancingWorker\<close>; epollWorker.h, \<^verbatim>\<open>m_lOptCount\<close>).
\<close>

section \<open>No operation changes a counter\<close>

definition counts :: "net \<Rightarrow> s64 list" where
  "counts st = map m_lOptCount (workers st)"

lemma counts_more [simp]:
  "counts (st\<lparr>os := w\<rparr>) = counts st" "counts (st\<lparr>history := hi\<rparr>) = counts st"
  "counts (st\<lparr>s_oCPipePool := p\<rparr>) = counts st" "counts (st\<lparr>session_pipe := se\<rparr>) = counts st"
  "counts (st\<lparr>clock_reads := n\<rparr>) = counts st" "counts (set_pipe a q st) = counts st"
  by (simp_all add: counts_def set_pipe_def)

lemma counts_update_worker:
  "m_lOptCount wk = m_lOptCount (workers st ! i) \<Longrightarrow> counts (st\<lparr>workers := (workers st)[i := wk]\<rparr>) = counts st"
  by (simp add: counts_def map_update) (metis list_update_beyond list_update_id length_map not_less nth_map)

lemma on_pipe_counts: "on_pipe a f st = Inr st' \<Longrightarrow> counts st' = counts st"
  by (auto simp: on_pipe_def outcome_simps)

lemma on_pipe_ev_counts: "on_pipe_ev a f st = Inr (ev, st') \<Longrightarrow> counts st' = counts st"
  by (auto simp: on_pipe_ev_def outcome_simps)

lemma request_counts: "do_host_request r st = Inr st' \<Longrightarrow> counts st' = counts st"
  by (cases r) (auto dest: on_pipe_counts split: option.splits)

lemma requests_counts: "do_host_requests rs st = Inr st' \<Longrightarrow> counts st' = counts st"
  by (induction rs arbitrary: st) (auto simp: outcome_simps dest!: request_counts)

lemma call_host_counts: "call_host hs h e st = Inr st' \<Longrightarrow> counts st' = counts st"
  by (auto simp: call_host_def dest!: requests_counts split: if_splits)

lemma queue_event_counts: "queue_event i e st = Inr st' \<Longrightarrow> counts st' = counts st"
  by (auto simp: queue_event_def counts_update_worker split: option.splits)

lemma Run_event_counts: 
  assumes "Run_event nSize i a ev st = Inr st'"
  shows "counts st' = counts st"
proof -
  obtain t1 s1 t2 s2 s3 where
    1: "(if has_flag ev EPOLLIN \<and> m_nStatus (pipe_at st a) = SS_ESTABLISHED
         then on_pipe_ev a (DoRecv nSize) st else Inr (IO_EVENT_TYPE_COUNT, st)) = Inr (t1, s1)" and
    2: "(if has_flag ev EPOLLOUT \<and> m_nStatus (pipe_at s1 a) \<noteq> SS_UNINITIALIZE
         then bindE (on_pipe_ev a DoSend s1) (\<lambda>(ty, st).
              Inr (if t1 \<noteq> IO_EVENT_TYPE_BREAK \<and> ty \<noteq> IO_EVENT_TYPE_COUNT then ty else t1, st))
         else Inr (t1, s1)) = Inr (t2, s2)" and
    3: "(if has_flag ev (EPOLLERR OR EPOLLHUP OR EPOLLRDHUP) \<and> m_nStatus (pipe_at s2 a) \<noteq> SS_UNINITIALIZE
         then on_pipe a DoClose s2 else Inr s2) = Inr s3" and
    4: "(if t2 \<noteq> IO_EVENT_TYPE_COUNT then queue_event i \<lparr>io_type = t2, pCPipe = a\<rparr> s3 else Inr s3) = Inr st'"
    using assms unfolding Run_event_def bindE_eq_Inr split_paired_Ex prod.case by blast
  have "counts s1 = counts st" using 1 by (auto dest: on_pipe_ev_counts split: if_splits)
  moreover have "counts s2 = counts s1" using 2 by (auto simp: bindE_eq_Inr dest: on_pipe_ev_counts split: if_splits)
  moreover have "counts s3 = counts s2" using 3 by (auto dest: on_pipe_counts split: if_splits)
  moreover have "counts st' = counts s3" using 4 by (auto dest: queue_event_counts split: if_splits)
  ultimately show ?thesis by simp
qed

lemma Run_events_counts: "Run_events nSize i es st = Inr st' \<Longrightarrow> counts st' = counts st"
  by (induction nSize i es st rule: Run_events.induct) (auto simp: outcome_simps dest: Run_event_counts)

lemma deliver_counts: "deliver fuel hs a st = Inr st' \<Longrightarrow> counts st' = counts st"
proof (induction fuel arbitrary: st)
  case (Suc fuel)
  from Suc.prems show ?case
    by (auto simp: Let_def outcome_simps dest!: Suc.IH call_host_counts split: if_splits)
qed simp

lemma deal_ioevent_counts: "deal_ioevent fuel hs e st = Inr st' \<Longrightarrow> counts st' = counts st"
  by (auto simp: deal_ioevent_def outcome_simps dest!: deliver_counts call_host_counts split: io_event_type.splits)

lemma read_queue_counts: "read_queue i st = Some (e, st') \<Longrightarrow> counts st' = counts st"
  by (auto simp: read_queue_def counts_update_worker split: option.splits)

lemma read_clock_counts: "read_clock g st = (t, st') \<Longrightarrow> counts st' = counts st"
  by (auto simp: read_clock_def)

lemma Processing_loop_counts:
  "Processing_loop n fuel g hs i ov t st = Inr (u, st') \<Longrightarrow> counts st' = counts st"
proof (induction n arbitrary: st)
  case (Suc n)
  from Suc.prems show ?case
    by (auto simp: outcome_simps read_clock_def dest!: Suc.IH deal_ioevent_counts read_queue_counts
        split: option.splits prod.splits if_splits)
qed simp

lemma worker_Processing_counts: "worker_Processing n fuel g hs i ov st = Inr (u, st') \<Longrightarrow> counts st' = counts st"
  by (auto simp: worker_Processing_def dest!: Processing_loop_counts read_clock_counts split: prod.splits)

lemma process_workers_counts: "process_workers n fuel g hs share is st = Inr st' \<Longrightarrow> counts st' = counts st"
  by (induction "is" arbitrary: st) (auto simp: outcome_simps dest!: worker_Processing_counts)

lemma pipe_life_counts:
  "CPipe_Create st = Inr (p, st') \<Longrightarrow> counts st' = counts st"
  "CPipe_Release a st = Inr st' \<Longrightarrow> counts st' = counts st"
  "Relate h fd ep a st = Inr st' \<Longrightarrow> counts st' = counts st"
  "forget_pipe h st = Inr st' \<Longrightarrow> counts st' = counts st"
  "epoll_add ep fd evs st = Inr (res, st') \<Longrightarrow> counts st' = counts st"
  by (auto simp: CPipe_Create_def CPipe_Release_def Relate_def forget_pipe_def epoll_add_def outcome_simps
      split: if_splits)

lemma DoConnect_counts: "DoConnect hs a st = Inr st' \<Longrightarrow> counts st' = counts st"
  by (auto simp: DoConnect_def Let_def outcome_simps dest!: pipe_life_counts call_host_counts split: if_splits)

section \<open>Runs of the engine\<close>

text \<open>What the balancing reads.\<close>

definition load :: "engine \<Rightarrow> s64 list \<times> s32 \<times> bool" where
  "load e = (counts (ep_net e), ep_nWorkerCount e, ep_pWorkerAry e)"

lemma load_more [simp]:
  "load (e\<lparr>socks := w\<rparr>) = load e" "load (e\<lparr>spipes := sp\<rparr>) = load e" "load (e\<lparr>server_pipe := m\<rparr>) = load e"
  "counts st = counts (ep_net e) \<Longrightarrow> load (e\<lparr>ep_net := st\<rparr>) = load e"
  by (simp_all add: load_def)

lemma on_net_load:
  "on_net f e = Inr e' \<Longrightarrow> (\<And>st. f (ep_net e) = Inr st \<Longrightarrow> counts st = counts (ep_net e)) \<Longrightarrow> load e' = load e"
  by (auto simp: on_net_eq_Inr)

lemma SPipe_Relate_load: "SPipe_Relate h fd ep i e = Inr e' \<Longrightarrow> load e' = load e"
  by (auto simp: SPipe_Relate_def outcome_simps load_def)

lemma AddServer_load:
  assumes "AddServer h ip port e = Inr (ok, e')"
  shows "load e' = load e"
proof -
  let ?e = "e\<lparr>spipes := spipes e @ [SPipe_new]\<rparr>"
  obtain failed fd w where o: "open_server (sockaddr_in port (word_bytes 4 (htonl (inet_addr ip)))) (socks ?e) = Inr (failed, fd, w)"
    using assms by (auto simp: AddServer_def Let_def bindE_eq_Inr)
  then have "\<not> failed" using assms by (auto simp: AddServer_def Let_def bindE_eq_Inr)
  with assms o obtain e1 res st where r: "SPipe_Relate h fd (ep_lEpollFD e) (length (spipes e)) (?e\<lparr>socks := w\<rparr>) = Inr e1"
    "epoll_add (ep_lEpollFD e1) fd (EPOLLIN OR EPOLLET) (ep_net e1) = Inr (res, st)" "e' = e1\<lparr>ep_net := st\<rparr>"
    by (auto simp: AddServer_def Let_def bindE_eq_Inr)
  from SPipe_Relate_load [OF r(1)] pipe_life_counts(5) [OF r(2)] show ?thesis by (simp add: r(3))
qed

lemma new_client_pipe_load:
  assumes "new_client_pipe h fd e = Inr (a, e')"
  shows "load e' = load e"
proof -
  obtain p st where c: "CPipe_Create (ep_net e) = Inr (p, st)"
    using assms unfolding new_client_pipe_def bindE_eq_Inr by force
  let ?e = "e\<lparr>ep_net := st\<rparr>"
  from c assms obtain ep where "(case p of None \<Rightarrow> Inl NullPointer
     | Some a \<Rightarrow> bindE (on_net (Relate h fd ep a) ?e) (\<lambda>e. Inr (a, e))) = Inr (a, e')"
    by (auto simp: new_client_pipe_def Let_def bindE_eq_Inr [where m = "BalancedFD x" for x])
  then obtain b where "on_net (Relate h fd ep b) ?e = Inr e'"
    by (auto simp: bindE_eq_Inr split: option.splits)
  from on_net_load [OF this pipe_life_counts(3)] pipe_life_counts(1) [OF c] show ?thesis by simp
qed

lemma AddClient_load:
  assumes "AddClient hs h ip port e = Inr (ok, e')"
  shows "load e' = load e"
proof -
  obtain failed fd addr w where o: "open_client ip port (socks e) = Inr (failed, fd, addr, w)"
    using assms by (auto simp: AddClient_def bindE_eq_Inr)
  show ?thesis
  proof (cases failed)
    case True
    with assms o show ?thesis by (auto simp: AddClient_def)
  next
    case False
    obtain r w' where c: "sock_call (Call_connect fd addr) w = Inr (r, w')"
      using assms o False by (auto simp: AddClient_def bindE_eq_Inr)
    let ?e = "e\<lparr>socks := w'\<rparr>"
    have run: "(if ans_ret r = 0 then
         bindE (new_client_pipe h fd ?e) (\<lambda>(a, e).
         bindE (on_net (DoConnect hs a) e) (\<lambda>e.
         bindE (on_net (call_host hs h (OnConnected h)) e) (\<lambda>e. Inr (True, e))))
       else if ans_ret r < 0 \<and> ans_errno r \<noteq> EINPROGRESS then
         bindE (on_net (call_host hs h (OnConnectFailed h)) ?e) (\<lambda>e. Inr (False, e))
       else
         bindE (new_client_pipe h fd ?e) (\<lambda>(a, e).
         bindE (epoll_add (ep_lEpollFD e) fd (EPOLLOUT OR EPOLLET) (ep_net e)) (\<lambda>(res, st).
         bindE (TASSERT (res = 0) ''epoll_ctl'') (\<lambda>_. Inr (True, e\<lparr>ep_net := st\<rparr>))))) = Inr (ok, e')"
      using assms o c False by (simp add: AddClient_def Let_def)
    have 1: "load e3 = load e" if "new_client_pipe h fd ?e = Inr (a, e1)" "on_net (DoConnect hs a) e1 = Inr e2"
      "on_net (call_host hs h (OnConnected h)) e2 = Inr e3" for a e1 e2 e3
      using new_client_pipe_load [OF that(1)] on_net_load [OF that(2) DoConnect_counts]
        on_net_load [OF that(3) call_host_counts] by simp
    have 2: "load e2 = load e" if "on_net (call_host hs h (OnConnectFailed h)) ?e = Inr e2" for e2
      using on_net_load [OF that call_host_counts] by simp
    have 3: "load (e1\<lparr>ep_net := st\<rparr>) = load e" if "new_client_pipe h fd ?e = Inr (a, e1)"
      "epoll_add (ep_lEpollFD e1) fd (EPOLLOUT OR EPOLLET) (ep_net e1) = Inr (res, st)" for a e1 res st
      using new_client_pipe_load [OF that(1)] pipe_life_counts(5) [OF that(2)] by simp
    from run show ?thesis
      by (auto simp: bindE_eq_Inr dest: 1 2 3 split: if_splits)
  qed
qed

lemma accept_one_load: "accept_one hs i fd addr e = Inr e' \<Longrightarrow> load e' = load e"
  by (auto simp: accept_one_def accept_session_def Let_def outcome_simps
      dest!: pipe_life_counts call_host_counts split: if_splits)

lemma DoAccept_load: "DoAccept fuel hs i e = Inr e' \<Longrightarrow> load e' = load e"
proof (induction fuel arbitrary: e)
  case (Suc fuel)
  from Suc.prems show ?case
    by (auto simp: Let_def outcome_simps dest!: Suc.IH accept_one_load split: if_splits)
qed simp

lemma source_event_load: "source_event fuel hs s ev e = Inr e' \<Longrightarrow> load e' = load e"
  by (auto simp: source_event_def Let_def outcome_simps on_net_eq_Inr
      dest!: DoAccept_load DoConnect_counts call_host_counts pipe_life_counts split: source.splits if_splits)

lemma source_events_load: "source_events fuel hs es e = Inr e' \<Longrightarrow> load e' = load e"
  by (induction fuel hs es e rule: source_events.induct) (auto simp: outcome_simps dest: source_event_load)

lemma engine_clock_load: "engine_clock g e = (t, e') \<Longrightarrow> load e' = load e"
  by (auto simp: engine_clock_def read_clock_def)

lemma DealEvent_load: "DealEvent fuel g hs ans ov e = Inr (u, e') \<Longrightarrow> load e' = load e"
  by (auto simp: DealEvent_def engine_clock_def read_clock_def Let_def outcome_simps dest!: source_events_load
      split: main_wait.splits)

lemma epoller_Processing_load: "epoller_Processing n fuel g hs ans ov e = Inr (u, e') \<Longrightarrow> load e' = load e"
  by (auto simp: epoller_Processing_def engine_clock_def read_clock_def Let_def outcome_simps on_net_eq_Inr
      dest!: DealEvent_load process_workers_counts)

text \<open>
  What happens to an engine: calls of \<^verbatim>\<open>AddServer\<close> and \<^verbatim>\<open>AddClient\<close>, rounds of the main loop,
  socket events on a worker thread, and calls of sessions.
\<close>

datatype engine_op =
    Op_server host string s32
  | Op_client host string s32
  | Op_process main_wait s64
  | Op_worker s32 nat "(uaddr \<times> u32) list"
  | Op_session host_request

fun engine_step :: "nat \<Rightarrow> nat \<Rightarrow> (nat \<Rightarrow> int) \<Rightarrow> hosts \<Rightarrow> engine_op \<Rightarrow> engine \<Rightarrow> engine outcome" where
  "engine_step n fuel g hs (Op_server h ip port) e = bindE (AddServer h ip port e) (\<lambda>(_, e). Inr e)"
| "engine_step n fuel g hs (Op_client h ip port) e = bindE (AddClient hs h ip port e) (\<lambda>(_, e). Inr e)"
| "engine_step n fuel g hs (Op_process ans ov) e = bindE (epoller_Processing n fuel g hs ans ov e) (\<lambda>(_, e). Inr e)"
| "engine_step n fuel g hs (Op_worker nSize i es) e = on_net (Run_events nSize i es) e"
| "engine_step n fuel g hs (Op_session r) e = on_net (do_host_request r) e"

abbreviation engine_run :: "nat \<Rightarrow> nat \<Rightarrow> (nat \<Rightarrow> int) \<Rightarrow> hosts \<Rightarrow> engine_op list \<Rightarrow> engine \<Rightarrow> engine outcome" where
  "engine_run n fuel g hs \<equiv> runE (engine_step n fuel g hs)"

lemma engine_step_load: "engine_step n fuel g hs x e = Inr e' \<Longrightarrow> load e' = load e"
  by (cases x) (auto simp: bindE_eq_Inr dest: AddServer_load AddClient_load epoller_Processing_load
      on_net_load [OF _ Run_events_counts] on_net_load [OF _ request_counts])

interpretation loads: outcome_system "engine_step n fuel g hs" "\<lambda>_. True" "\<lambda>e. load e = l" for n fuel g hs l
  by unfold_locales (simp add: engine_step_load)

lemma engine_run_load: "engine_run n fuel g hs xs e = Inr e' \<Longrightarrow> load e' = load e"
  using loads.run_invar [of e "load e" xs] by (simp add: list_all_iff)

lemma start_workers_load:
  assumes "start_workers is e = Inr e'"
  shows "load e' = load e"
  using assms
proof (induction "is" arbitrary: e)
  case Nil
  then show ?case by simp
next
  case (Cons i js)
  obtain r w where s: "sock_call Call_epoll_create (socks e) = Inr (r, w)"
    using Cons.prems by (auto simp: bindE_eq_Inr)
  let ?wk = "snd (worker_Initialize (ans_ret r) (workers (ep_net e) ! i))"
  let ?e = "e\<lparr>socks := w, ep_net := (ep_net e)\<lparr>workers := (workers (ep_net e))[i := ?wk]\<rparr>\<rparr>"
  have run: "start_workers js ?e = Inr e'"
    using Cons.prems s by (auto simp: bindE_eq_Inr split: prod.splits)
  have "m_lOptCount ?wk = m_lOptCount (workers (ep_net e) ! i)" by (simp add: worker_Initialize_def Let_def)
  from counts_update_worker [OF this] have "load ?e = load e" by (simp add: load_def)
  with Cons.IH [OF run] show ?case by simp
qed

lemma Initialize_load:
  assumes "epoller_Initialize n junk (epoller_new st jc ja w) = Inr (True, e)"
  shows "load e = (replicate (nat n) 0, n, True)" "0 \<le> n"
proof -
  let ?e0 = "epoller_new st jc ja w"
  obtain r w' where s: "sock_call Call_epoll_create w = Inr (r, w')" "ans_ret r \<noteq> - 1" "0 \<le> n"
      "start_workers [0..<nat n] (?e0\<lparr>ep_nWorkerCount := n, socks := w', ep_lEpollFD := ans_ret r, ep_pWorkerAry := True,
         ep_net := st\<lparr>workers := replicate (nat n) (worker_new junk)\<rparr>\<rparr>) = Inr e"
    using assms by (auto simp: epoller_Initialize_def epoller_new_def Let_def bindE_eq_Inr split: if_splits)
  show "0 \<le> n" by (rule s(3))
  show "load e = (replicate (nat n) 0, n, True)"
    using start_workers_load [OF s(4)] by (simp add: load_def counts_def epoller_new_def worker_new_def)
qed

text \<open>With all counts zero the search stays at the first worker.\<close>

lemma zero_load_first:
  assumes l: "load e = (replicate (nat n) 0, n, True)" and "0 < n"
  shows "BalancingWorker e = Some 0"
proof -
  have z: "GetOPTCount (workers (ep_net e) ! j) = 0" if "j < nat n" for j
  proof -
    from l have m: "map m_lOptCount (workers (ep_net e)) = replicate (nat n) 0" by (simp add: load_def counts_def)
    then have "length (workers (ep_net e)) = nat n" by (metis length_map length_replicate)
    with that nth_map [of j "workers (ep_net e)" m_lOptCount] m show ?thesis by (simp add: GetOPTCount_def)
  qed
  have first: "Balancing_loop (workers (ep_net e)) js 0 = 0" if "set js \<subseteq> {..<nat n}" for js
    using that by (induction js) (use z assms(2) in \<open>auto simp: subset_iff\<close>)
  have "Balancing_loop (workers (ep_net e)) [1..<nat n] 0 = 0"
    by (rule first) auto
  with l show ?thesis by (simp add: BalancingWorker_def load_def)
qed

section \<open>Properties\<close>

text \<open>
  \<^verbatim>\<open>BalancingWorker\<close> returns a worker of the array with the least operation count of all.
\<close>

theorem balancing_least_loaded:
  assumes "ep_pWorkerAry e" "0 < ep_nWorkerCount e" "ep_nWorkerCount e = int (length (workers (ep_net e)))"
  shows "\<exists>i < length (workers (ep_net e)). BalancingWorker e = Some i \<and>
    (\<forall>j < length (workers (ep_net e)). GetOPTCount (workers (ep_net e) ! i) \<le> GetOPTCount (workers (ep_net e) ! j))"
proof -
  let ?ws = "workers (ep_net e)"
  have "0 < length ?ws" using assms(2,3) by simp
  then have "let r = Balancing_loop ?ws [1..<length ?ws] 0 in
    r < length ?ws \<and> (\<forall>j < length ?ws. j < 1 \<or> 1 \<le> j \<longrightarrow> GetOPTCount (?ws ! r) \<le> GetOPTCount (?ws ! j))"
    by (intro Balancing_loop_least) auto
  moreover have "j < 1 \<or> 1 \<le> j" for j :: nat by linarith
  moreover have "BalancingWorker e = Some (Balancing_loop ?ws [1..<length ?ws] 0)"
    using assms by (simp add: BalancingWorker_def)
  ultimately show ?thesis by (simp only: Let_def) blast
qed

theorem balancing_least_loaded_witness:
  "\<exists>i < 3. BalancingWorker ((example_engine [] [])\<lparr>ep_nWorkerCount := 3,
       ep_net := example_net\<lparr>workers := [(worker_new [])\<lparr>m_lOptCount := 5\<rparr>, (worker_new [])\<lparr>m_lOptCount := 2\<rparr>, worker_new []]\<rparr>\<rparr>) = Some i"
  using balancing_least_loaded [of "(example_engine [] [])\<lparr>ep_nWorkerCount := 3,
       ep_net := example_net\<lparr>workers := [(worker_new [])\<lparr>m_lOptCount := 5\<rparr>, (worker_new [])\<lparr>m_lOptCount := 2\<rparr>, worker_new []]\<rparr>\<rparr>"]
  by (auto simp: numeral_3_eq_3)

text \<open>
  But nothing ever counts an operation: in every run of an engine that initialised with at
  least one worker, \<^verbatim>\<open>BalancingWorker\<close> chooses the first worker, so that worker's thread serves
  every connection and the others none.
\<close>

theorem balancing_always_first:
  assumes "epoller_Initialize n junk (epoller_new st jc ja w) = Inr (True, e0)" "0 < n"
    "engine_run k fuel g hs ops e0 = Inr e"
  shows "BalancingWorker e = Some 0"
  by (rule zero_load_first [OF _ assms(2)]) (use engine_run_load [OF assms(3)] Initialize_load(1) [OF assms(1)] in simp)

theorem balancing_always_first_witness:
  "\<exists>e e'. epoller_Initialize 2 [] (epoller_new example_net 0 False
        \<lparr>sock_answers = [Ans 7 0 [], Ans 8 0 [], Ans 9 0 []], sock_calls = []\<rparr>) = Inr (True, e) \<and>
     engine_run 5 5 (\<lambda>_. 0) example_hosts [Op_session (HostClose 1)] e = Inr e' \<and> BalancingWorker e' = Some 0"
proof -
  let ?e = "epoller_new example_net 0 False \<lparr>sock_answers = [Ans 7 0 [], Ans 8 0 [], Ans 9 0 []], sock_calls = []\<rparr>"
  obtain e ws where e: "epoller_Initialize 2 [] ?e = Inr (True, e)" "ep_net e = example_net\<lparr>workers := ws\<rparr>"
    by (simp add: epoller_Initialize_def epoller_new_def sock_call_def worker_Initialize_def upt_rec Let_def)
  have sess: "session_pipe example_net (Suc 0) = Some (UAddr 0 0)" and ctl: "ctl_answers (os example_net) = [0, 0]"
    by (simp_all add: example_net_def)
  obtain e' where e': "engine_run 5 5 (\<lambda>_. 0) example_hosts [Op_session (HostClose 1)] e = Inr e'"
    by (simp add: on_net_def e(2) sess on_pipe_def example_at CPipe_Close_def PostOPTInEpollQueue_def epoll_ctl_def ctl
        example_pipe_def CPipe_new_def)
  from balancing_always_first [OF e(1) _ this] e(1) this show ?thesis by auto
qed

end
