(* ===== verification/Gate.thy ===== *)
theory Gate
  imports Pool Bytes Rand
begin

text \<open>
  The gate module of the game server: src/logic/Interface/PublicHeader.h (the message header),
  src/logic/Gate/ClientConnectSink.h (one session of a game client), Gate.h and Gate.cpp (the
  server and its timers). A session is a unit of its pool, named by its address. What a session
  asks of its connection (\<^verbatim>\<open>Send\<close>, \<^verbatim>\<open>Close\<close>) is returned as a list of calls.
\<close>

section \<open>Messages\<close>

text \<open>
  \<^verbatim>\<open>testmsgheader\<close>, packed: the length of the whole message and its kind, 4 bytes each, then a
  tick and a pointer of 8 bytes each.
\<close>

abbreviation (input) header_size :: nat where "header_size \<equiv> 24"
abbreviation (input) TEST_MSG_ID_SET_GROUP :: s32 where "TEST_MSG_ID_SET_GROUP \<equiv> 0"
abbreviation (input) TEST_MSG_ID_BROADCAST :: s32 where "TEST_MSG_ID_BROADCAST \<equiv> 1"

definition testmsgheader :: "s32 \<Rightarrow> s32 \<Rightarrow> 64 word \<Rightarrow> 64 word \<Rightarrow> byte list" where
  "testmsgheader nsize msgid ltick pThis =
     s32_bytes nsize @ s32_bytes msgid @ word_bytes 8 ltick @ word_bytes 8 pThis"

text \<open>\<^verbatim>\<open>*(const s32 *)(context + i)\<close>; \<open>context\<close> is the readable memory from the pointer on.\<close>

definition read_s32 :: "byte list \<Rightarrow> nat \<Rightarrow> s32 outcome" where
  "read_s32 context i = (if i + 4 \<le> length context then Inr (bytes_s32 (take 4 (drop i context))) else Inl OutOfBounds)"

section \<open>State\<close>

record sink =
  m_bIsConnected :: bool
  m_nGroupID :: s32

text \<open>The static members: the pool, the link count, and the groups in the order of their keys.\<close>

record gate =
  s_oPoolClient :: "sink tpool"
  s_nLinkCount :: s32
  s_oGroupMap :: "(s32 \<times> uaddr list) list"

datatype sink_call = Sink_Send uaddr "byte list" s32 | Sink_Close uaddr

definition sink_new :: sink where
  "sink_new = \<lparr>m_bIsConnected = False, m_nGroupID = - 1\<rparr>"

text \<open>\<^verbatim>\<open>sizeof(type_info)\<close> of the session pool.\<close>

abbreviation (input) sink_sz :: nat where "sink_sz \<equiv> 32"

definition sink_at :: "gate \<Rightarrow> uaddr \<Rightarrow> sink" where
  "sink_at g a = get_unit (s_oPoolClient g) a"

definition set_sink :: "uaddr \<Rightarrow> sink \<Rightarrow> gate \<Rightarrow> gate" where
  "set_sink a s g = g\<lparr>s_oPoolClient := put_unit a s (s_oPoolClient g)\<rparr>"

definition Sink_Create :: "gate \<Rightarrow> (uaddr option \<times> gate) outcome" where
  "Sink_Create g =
     bindE (TPool_Create sink_sz sink_new 64 (s_oPoolClient g)) (\<lambda>(p, pool). Inr (p, g\<lparr>s_oPoolClient := pool\<rparr>))"

definition Sink_Release :: "uaddr \<Rightarrow> gate \<Rightarrow> gate outcome" where
  "Sink_Release a g =
     bindE (TPool_Recover sink_sz a (s_oPoolClient g)) (\<lambda>pool. Inr (g\<lparr>s_oPoolClient := pool\<rparr>))"

section \<open>ClientConnectSink\<close>

text \<open>\<^verbatim>\<open>SetGroupID\<close>: the list of the group in the ordered map, made when it is missing.\<close>

fun group_push :: "s32 \<Rightarrow> uaddr \<Rightarrow> (s32 \<times> uaddr list) list \<Rightarrow> (s32 \<times> uaddr list) list" where
  "group_push k a [] = [(k, [a])]"
| "group_push k a ((k', as) # m) =
     (if k < k' then (k, [a]) # (k', as) # m
      else if k = k' then (k', as @ [a]) # m
      else (k', as) # group_push k a m)"

definition SetGroupID :: "s32 \<Rightarrow> uaddr \<Rightarrow> gate \<Rightarrow> gate" where
  "SetGroupID groupid a g =
     (let g = set_sink a ((sink_at g a)\<lparr>m_nGroupID := groupid\<rparr>) g in
      g\<lparr>s_oGroupMap := group_push groupid a (s_oGroupMap g)\<rparr>)"

text \<open>
  The comparison with \<^verbatim>\<open>sizeof\<close> converts the length to \<^verbatim>\<open>size_t\<close>. The result is the number of
  bytes used.
\<close>

definition Sink_OnRecv :: "byte list \<Rightarrow> s32 \<Rightarrow> uaddr \<Rightarrow> gate \<Rightarrow> (s32 \<times> sink_call list \<times> gate) outcome" where
  "Sink_OnRecv context nsize a g =
     bindE (read_s32 context 0) (\<lambda>nLen.
     if nLen > 4096 then Inr (0, [Sink_Close a], g)
     else if nLen \<le> nsize \<and> to_size_t nLen \<ge> header_size then
       bindE (read_s32 context 4) (\<lambda>msgid.
       bindE (if msgid = TEST_MSG_ID_SET_GROUP then
                bindE (TASSERT (m_nGroupID (sink_at g a) = - 1 \<and> m_bIsConnected (sink_at g a)) ''wtf'') (\<lambda>_.
                bindE (read_s32 context header_size) (\<lambda>groupid.
                let g = set_sink a ((sink_at g a)\<lparr>m_nGroupID := groupid\<rparr>) g in
                Inr ([], SetGroupID groupid a g)))
              else if msgid = TEST_MSG_ID_BROADCAST then Inr ([Sink_Send a context nLen], g)
              else Inr ([], g)) (\<lambda>(cs, g).
       Inr (nLen, cs, g)))
     else Inr (0, [], g))"

definition Sink_OnDisconnect :: "uaddr \<Rightarrow> gate \<Rightarrow> gate outcome" where
  "Sink_OnDisconnect a g =
     bindE (chk_s32 (s_nLinkCount g - 1)) (\<lambda>n.
     let g = g\<lparr>s_nLinkCount := n\<rparr> in
     bindE (TASSERT (s_nLinkCount g \<ge> 0 \<and> m_bIsConnected (sink_at g a) = True) ''wtf'') (\<lambda>_.
     Inr (set_sink a ((sink_at g a)\<lparr>m_bIsConnected := False\<rparr>) g)))"

definition Sink_OnConnected :: "uaddr \<Rightarrow> gate \<Rightarrow> gate outcome" where
  "Sink_OnConnected a g =
     bindE (chk_s32 (s_nLinkCount g + 1)) (\<lambda>n.
     let g = g\<lparr>s_nLinkCount := n\<rparr> in
     bindE (TASSERT (s_nLinkCount g > 0 \<and> m_bIsConnected (sink_at g a) = False) ''wtf'') (\<lambda>_.
     Inr (set_sink a ((sink_at g a)\<lparr>m_bIsConnected := True\<rparr>) g)))"

definition Sink_OnConnectFailed :: "uaddr \<Rightarrow> gate \<Rightarrow> gate outcome" where
  "Sink_OnConnectFailed a g = Inr g"

text \<open>
  \<^verbatim>\<open>BroadCast\<close>, over the sessions of one group: a connected session other than the sender gets
  the message, a disconnected one leaves the group and goes back to the pool.
\<close>

fun broadcast_group :: "byte list \<Rightarrow> s32 \<Rightarrow> uaddr \<Rightarrow> uaddr list \<Rightarrow> gate \<Rightarrow> (sink_call list \<times> uaddr list \<times> gate) outcome" where
  "broadcast_group context n a [] g = Inr ([], [], g)"
| "broadcast_group context n a (b # bs) g =
     (if m_bIsConnected (sink_at g b) then
        bindE (broadcast_group context n a bs g) (\<lambda>(cs, kept, g).
        Inr (if b \<noteq> a then Sink_Send b context n # cs else cs, b # kept, g))
      else
        bindE (Sink_Release b g) (broadcast_group context n a bs))"

fun broadcast_map ::
    "byte list \<Rightarrow> s32 \<Rightarrow> uaddr \<Rightarrow> (s32 \<times> uaddr list) list \<Rightarrow> gate \<Rightarrow>
     (sink_call list \<times> (s32 \<times> uaddr list) list \<times> gate) outcome" where
  "broadcast_map context n a [] g = Inr ([], [], g)"
| "broadcast_map context n a ((k, bs) # m) g =
     bindE (broadcast_group context n a bs g) (\<lambda>(cs, kept, g).
     bindE (broadcast_map context n a m g) (\<lambda>(cs', m', g).
     Inr (cs @ cs', (k, kept) # m', g)))"

definition BroadCast :: "byte list \<Rightarrow> s32 \<Rightarrow> uaddr \<Rightarrow> gate \<Rightarrow> (sink_call list \<times> gate) outcome" where
  "BroadCast context n a g =
     bindE (broadcast_map context n a (s_oGroupMap g) g) (\<lambda>(cs, m, g). Inr (cs, g\<lparr>s_oGroupMap := m\<rparr>))"

section \<open>The gate server\<close>

text \<open>What the module asks of the kernel; timers carry interval, delay and count.\<close>

datatype kernel_call =
    Call_StartTcpServer string s32
  | Call_StartTcpClient uaddr string s32
  | Call_StartTimer s32 nat s64 s64 s64
  | Call_Shutdown

text \<open>\<open>self\<close> is the gate as a timer object.\<close>

definition Gate_Launched :: "nat \<Rightarrow> bool \<times> kernel_call list" where
  "Gate_Launched self = (True, [Call_StartTcpServer ''0.0.0.0'' 12588, Call_StartTimer 1 self 100 0 100])"

definition Gate_Initialize :: "bool" where "Gate_Initialize = True"
definition Gate_Destroy :: "bool" where "Gate_Destroy = True"

definition Gate_MallocConnection :: "gate \<Rightarrow> (uaddr option \<times> gate) outcome" where
  "Gate_MallocConnection g = Sink_Create g"

text \<open>\<^verbatim>\<open>ShutDownServer\<close>: the session is allocated with \<^verbatim>\<open>NEW\<close>.\<close>

definition ShutDownServer_MallocConnection :: "sink \<times> kernel_call list" where
  "ShutDownServer_MallocConnection = (sink_new, [Call_Shutdown])"

text \<open>A test timer.\<close>

record test_timer =
  m_nInterval :: s32
  m_lNextTick :: s64
  m_nHitCount :: s32
  m_nPrintCount :: s32

definition Timer_new :: "s32 \<Rightarrow> s32 \<Rightarrow> s64 \<Rightarrow> s32 \<Rightarrow> s32 \<Rightarrow> test_timer outcome" where
  "Timer_new nInterval nDelay now junk junk' =
     bindE (chk_s64 (now + nDelay)) (\<lambda>t.
     Inr \<lparr>m_nInterval = nInterval, m_lNextTick = t, m_nHitCount = junk, m_nPrintCount = junk'\<rparr>)"

definition Timer_OnStart :: "test_timer \<Rightarrow> test_timer" where
  "Timer_OnStart t = t\<lparr>m_nHitCount := 0, m_nPrintCount := 10\<rparr>"

text \<open>The first component is whether the drift is printed.\<close>

definition Timer_OnTime :: "s64 \<Rightarrow> test_timer \<Rightarrow> (bool \<times> test_timer) outcome" where
  "Timer_OnTime now t =
     bindE (chk_s64 (now - m_lNextTick t)) (\<lambda>lTick.
     bindE (chk_s64 (m_lNextTick t + m_nInterval t)) (\<lambda>next.
     bindE (chk_s32 (m_nHitCount t + 1)) (\<lambda>hits.
     Inr (lTick > 50 \<or> lTick < - 50, t\<lparr>m_lNextTick := next, m_nHitCount := hits\<rparr>))))"

definition gate_intervals :: "s32 list" where
  "gate_intervals = [200, 400, 600, 800, 1000, 1200, 1500, 2000, 5000, 20000, 3600000]"

text \<open>One \<^verbatim>\<open>NEW Timer\<close> and \<^verbatim>\<open>StartTimer\<close>: the id is 0 and the count is the default, -1; \<open>p\<close> is the new object.\<close>

fun start_timers :: "s32 list \<Rightarrow> nat \<Rightarrow> crand \<Rightarrow> kernel_call list \<times> nat \<times> crand" where
  "start_timers [] p r = ([], p, r)"
| "start_timers (nInterval # is) p r =
     (let (x, r) = Rand r;
          nDelay = x smod 100;
          (cs, q, r) = start_timers is (Suc p) r in
      (Call_StartTimer 0 p nInterval nDelay (- 1) # cs, q, r))"

text \<open>\<^verbatim>\<open>Gate::OnTime\<close>: ten rounds over the intervals, with the wall clock as the seed.\<close>

fun gate_rounds :: "nat \<Rightarrow> nat \<Rightarrow> crand \<Rightarrow> kernel_call list \<times> nat \<times> crand" where
  "gate_rounds 0 p r = ([], p, r)"
| "gate_rounds (Suc n) p r =
     (let (cs, p, r) = start_timers gate_intervals p r;
          (cs', p, r) = gate_rounds n p r in (cs @ cs', p, r))"

definition Gate_OnTime :: "s64 \<Rightarrow> s32 \<Rightarrow> nat \<Rightarrow> crand \<Rightarrow> (kernel_call list \<times> s32 \<times> nat \<times> crand) outcome" where
  "Gate_OnTime now nTimerCount p r =
     (let r = SetSeed (word_of_int now) r;
          (cs, p, r) = gate_rounds 10 p r in
      bindE (chk_s32 (nTimerCount + 100)) (\<lambda>n. Inr (cs, n, p, r)))"

end
