(* ===== verification/Gate_Spec.thy ===== *)
theory Gate_Spec
  imports Gate Net_Session
begin

text \<open>
  What the gate makes of the bytes its clients send (ClientConnectSink.h, \<^verbatim>\<open>OnRecv\<close>) under the
  delivery loop of the engine, and the load its timers create.
\<close>

section \<open>Rounds of OnRecv\<close>

text \<open>
  The engine calls \<^verbatim>\<open>OnRecv\<close> on the received bytes until it uses none: \<open>mem\<close> is the readable
  memory from the first pending byte on, of which \<open>n\<close> bytes are pending. The result is what the
  session asked for, how many bytes it used in all, and its state.
\<close>

fun recv_rounds :: "nat \<Rightarrow> byte list \<Rightarrow> s32 \<Rightarrow> uaddr \<Rightarrow> gate \<Rightarrow> (sink_call list \<times> nat \<times> gate) outcome" where
  "recv_rounds 0 mem n a g = Inl Diverges"
| "recv_rounds (Suc fuel) mem n a g =
     (if n > 0 then
        bindE (Sink_OnRecv mem n a g) (\<lambda>(u, cs, g).
        if u = 0 then Inr (cs, 0, g)
        else
          bindE (recv_rounds fuel (drop (nat u) mem) (if u > 0 then n - u else n) a g) (\<lambda>(cs', used, g).
          Inr (cs @ cs', nat u + used, g)))
      else Inr ([], 0, g))"

text \<open>A message with its length in front, and its kind.\<close>

definition message :: "byte list \<Rightarrow> bool" where
  "message m \<longleftrightarrow> header_size \<le> length m \<and> length m \<le> 4096 \<and> bytes_s32 (take 4 m) = int (length m)"

definition kind :: "byte list \<Rightarrow> s32" where
  "kind m = bytes_s32 (take 4 (drop 4 m))"

text \<open>The start of a message: at least the length, not all of it.\<close>

definition partial_message :: "byte list \<Rightarrow> bool" where
  "partial_message p \<longleftrightarrow> p = [] \<or> (4 \<le> length p \<and>
     (let l = bytes_s32 (take 4 p) in int header_size \<le> l \<and> l \<le> 4096 \<and> int (length p) < l))"

fun reply :: "sink_call \<Rightarrow> byte list" where
  "reply (Sink_Send a c n) = take (nat n) c"
| "reply (Sink_Close a) = []"

lemma take_append_le: "n \<le> length xs \<Longrightarrow> take n (xs @ ys) = take n xs"
  by simp

lemma OnRecv_message:
  assumes "message m" "kind m \<noteq> TEST_MSG_ID_SET_GROUP" "int (length m) \<le> n"
  shows "Sink_OnRecv (m @ rest) n a g =
    Inr (int (length m), if kind m = TEST_MSG_ID_BROADCAST then [Sink_Send a (m @ rest) (int (length m))] else [], g)"
proof -
  have l: "24 \<le> length m" "length m \<le> 4096" and b: "bytes_s32 (take 4 m) = int (length m)"
    using assms(1) by (simp_all add: message_def)
  have "read_s32 (m @ rest) 0 = Inr (int (length m))" "read_s32 (m @ rest) 4 = Inr (kind m)"
    using l b by (simp_all add: read_s32_def kind_def)
  moreover have "to_size_t (int (length m)) = length m" using l by (simp add: in_s64_def)
  ultimately show ?thesis using l assms(2,3) by (simp add: Sink_OnRecv_def)
qed

lemma OnRecv_partial:
  assumes "partial_message p" "p \<noteq> []"
  shows "Sink_OnRecv (p @ rest) (int (length p)) a g = Inr (0, [], g)"
  using assms by (simp add: partial_message_def Sink_OnRecv_def read_s32_def Let_def)

lemma recv_rounds_messages:
  assumes "list_all message ms" "list_all (\<lambda>m. kind m \<noteq> TEST_MSG_ID_SET_GROUP) ms" "partial_message p"
    "length ms < fuel"
  shows "\<exists>cs. recv_rounds fuel (concat ms @ p @ junk) (int (length (concat ms @ p))) a g =
      Inr (cs, length (concat ms), g) \<and>
    map reply cs = filter (\<lambda>m. kind m = TEST_MSG_ID_BROADCAST) ms"
  using assms(1,2,4)
proof (induction ms arbitrary: fuel)
  case Nil
  then obtain f where "fuel = Suc f" by (cases fuel) auto
  then show ?case using OnRecv_partial [OF assms(3)] by (cases "p = []") auto
next
  case (Cons m ms)
  then obtain f where f: "fuel = Suc f" "length ms < f" by (cases fuel) auto
  from Cons.prems have m: "message m" "kind m \<noteq> 0" by simp_all
  have len: "24 \<le> length m" using m(1) by (simp add: message_def)
  obtain cs where cs: "recv_rounds f (concat ms @ p @ junk) (int (length (concat ms @ p))) a g = Inr (cs, length (concat ms), g)"
    "map reply cs = filter (\<lambda>m. kind m = TEST_MSG_ID_BROADCAST) ms"
    using Cons.IH [of f] Cons.prems f(2) by auto
  have "Sink_OnRecv (m @ concat ms @ p @ junk) (int (length (concat (m # ms) @ p))) a g =
    Inr (int (length m), if kind m = TEST_MSG_ID_BROADCAST then [Sink_Send a (m @ concat ms @ p @ junk) (int (length m))] else [], g)"
    using OnRecv_message [OF m, of "int (length (concat (m # ms) @ p))" "concat ms @ p @ junk"] by simp
  moreover have "m \<noteq> []" using len by (cases m) simp_all
  ultimately show ?case using cs f(1) len by simp
qed

section \<open>Concrete messages\<close>

definition example_message :: "s32 \<Rightarrow> byte list" where
  "example_message k = testmsgheader 26 k 0 0 @ [7, 8]"

lemma example_message_facts:
  assumes "in_s32 k"
  shows "message (example_message k)" "kind (example_message k) = k"
  using assms by (simp_all add: message_def kind_def example_message_def testmsgheader_def in_s32_def)

definition example_gate :: gate where
  "example_gate = \<lparr>s_oPoolClient = \<lparr>m_list = [], m_sBlockCount = 1,
       m_pUnitAry = [[\<lparr>tunit = \<lparr>m_bIsConnected = True, m_nGroupID = - 1\<rparr>, len = sink_sz, status = IN_USE\<rparr>]],
       m_pUnitAry_form = Some Scalar\<rparr>,
     s_nLinkCount = 1, s_oGroupMap = []\<rparr>"

lemma sint_small: "n < 2 ^ 31 \<Longrightarrow> sint (of_nat n :: 32 word) = int n"
  by (simp add: signed_of_nat signed_take_bit_int_eq_self)

lemma example_gate_valid: "valid_unit (s_oPoolClient example_gate) a \<longleftrightarrow> a = UAddr 0 0"
  by (cases a) (auto simp: example_gate_def valid_unit_def)

section \<open>Sessions of the gate under the engine\<close>

text \<open>
  \<open>hs\<close> answers as the gate's sessions do, at host \<open>h\<close>, once the four bytes of the length are
  there (before that the answer depends on memory beyond the received bytes).
\<close>

definition gate_session :: "hosts \<Rightarrow> host \<Rightarrow> bool" where
  "gate_session hs h \<longleftrightarrow> (\<forall>es bs junk a g n cs g'. 4 \<le> length bs \<longrightarrow>
     Sink_OnRecv (bs @ junk) (int (length bs)) a g = Inr (n, cs, g') \<longrightarrow> on_recv hs (es @ [OnRecv h bs]) = n)"

definition recv_size :: "byte list \<Rightarrow> s32" where
  "recv_size bs = (let nLen = bytes_s32 (take 4 bs) in
     if nLen \<le> 4096 \<and> nLen \<le> int (length bs) \<and> to_size_t nLen \<ge> header_size then nLen else 0)"

definition gate_hosts :: hosts where
  "gate_hosts = \<lparr>on_recv = (\<lambda>es. case last es of OnRecv h bs \<Rightarrow> recv_size bs | _ \<Rightarrow> 0),
     on_call = (\<lambda>_. []), on_malloc = (\<lambda>_. 0)\<rparr>"

lemma gate_hosts_session: "gate_session gate_hosts h"
  by (auto simp: gate_session_def gate_hosts_def recv_size_def Sink_OnRecv_def read_s32_def Let_def bindE_eq_Inr
      split: if_splits)

section \<open>Timers\<close>

lemma Rand_range: "0 \<le> fst (Rand r)" "fst (Rand r) < 32768"
proof -
  have "list_all (\<lambda>v. 0 \<le> v \<and> v < 32768) (lcg 1 (uint (m_lSeed r)))"
    by (simp add: Let_def pos_imp_zdiv_nonneg_iff div_less_iff_less_mult)
  then have "0 \<le> fst (Rand r) \<and> fst (Rand r) < 32768"
    using Rand_step(1) [of r] by (simp add: Let_def)
  then show "0 \<le> fst (Rand r)" "fst (Rand r) < 32768" by simp_all
qed

definition gate_timer_call :: "kernel_call \<Rightarrow> bool" where
  "gate_timer_call c \<longleftrightarrow> (\<exists>p i d. c = Call_StartTimer 0 p i d (- 1) \<and> i \<in> set gate_intervals \<and> 0 \<le> d \<and> d < 100)"

lemma start_timers_calls:
  "set is \<subseteq> set gate_intervals \<Longrightarrow> start_timers is p r = (cs, q, r') \<Longrightarrow>
     length cs = length is \<and> q = p + length is \<and> list_all gate_timer_call cs"
proof (induction "is" arbitrary: p r cs q r')
  case (Cons i js)
  obtain cs1 q1 r1 where t: "start_timers js (Suc p) (snd (Rand r)) = (cs1, q1, r1)"
    by (metis prod_cases3)
  have d: "0 \<le> fst (Rand r) smod 100" "fst (Rand r) smod 100 < 100"
    using Rand_range [of r] by (cases "fst (Rand r) = 0"; simp add: signed_modulo_int_def sgn_if)+
  have "gate_timer_call (Call_StartTimer 0 p i (fst (Rand r) smod 100) (- 1))"
    using Cons.prems(1) d unfolding gate_timer_call_def by auto
  with Cons.prems Cons.IH [OF _ t] t show ?case by (auto simp: Let_def case_prod_beta)
qed simp

lemma gate_rounds_calls:
  "gate_rounds n p r = (cs, q, r') \<Longrightarrow>
     length cs = n * 11 \<and> q = p + n * 11 \<and> list_all gate_timer_call cs"
proof (induction n arbitrary: p r cs q r')
  case (Suc n)
  obtain cs1 p1 r1 where s: "start_timers gate_intervals p r = (cs1, p1, r1)" by (metis prod_cases3)
  obtain cs2 p2 r2 where g: "gate_rounds n p1 r1 = (cs2, p2, r2)" by (metis prod_cases3)
  have "length gate_intervals = 11" by (simp add: gate_intervals_def)
  with start_timers_calls [OF subset_refl s] Suc.IH [OF g] Suc.prems s g show ?case by auto
qed simp

section \<open>Properties\<close>





text \<open>
  A session may join a group once. A second \<^verbatim>\<open>SET_GROUP\<close> message of a client, after a group
  other than -1, aborts the server.
\<close>

theorem gate_second_group_aborts:
  assumes "message m" "kind m = TEST_MSG_ID_SET_GROUP" "28 \<le> length m" "bytes_s32 (take 4 (drop 24 m)) \<noteq> - 1"
    "message m'" "kind m' = TEST_MSG_ID_SET_GROUP" "valid_unit (s_oPoolClient g) a"
    "m_bIsConnected (sink_at g a)" "m_nGroupID (sink_at g a) = - 1"
  shows "recv_rounds (Suc (Suc fuel)) (m @ m' @ rest) (int (length (m @ m'))) a g = Inl (Assertion ''wtf'')"
proof -
  let ?id = "bytes_s32 (take 4 (drop 24 m))"
  have l: "24 \<le> length m" "length m \<le> 4096" "24 \<le> length m'" "length m' \<le> 4096"
    "bytes_s32 (take 4 m) = int (length m)" "bytes_s32 (take 4 m') = int (length m')"
    using assms(1,5) by (simp_all add: message_def)
  define g1 where "g1 = SetGroupID ?id a (set_sink a ((sink_at g a)\<lparr>m_nGroupID := ?id\<rparr>) g)"
  have "m_nGroupID (sink_at g1 a) = ?id"
    using assms(7) by (simp add: g1_def SetGroupID_def Let_def sink_at_def set_sink_def put_unit_def get_unit_def)
  moreover have "Sink_OnRecv (m @ m' @ rest) (int (length (m @ m'))) a g = Inr (int (length m), [], g1)"
    using l assms(2,3,8,9) by (simp add: Sink_OnRecv_def read_s32_def kind_def in_s64_def g1_def Let_def)
  moreover have "Sink_OnRecv (m' @ rest) (int (length m')) a g1 = Inl (Assertion ''wtf'')"
    if "m_nGroupID (sink_at g1 a) \<noteq> - 1"
    using l assms(6) that by (simp add: Sink_OnRecv_def read_s32_def kind_def in_s64_def TASSERT_def)
  moreover have "0 < int (length (m @ m'))" "0 < int (length m')" "m \<noteq> []" using l by auto
  ultimately show ?thesis using assms(4) l(1,3) by auto
qed

theorem gate_second_group_aborts_witness:
  "recv_rounds 5 ((testmsgheader 28 0 0 0 @ s32_bytes 3) @ (testmsgheader 28 0 0 0 @ s32_bytes 4) @ []) 56 (UAddr 0 0)
     example_gate = Inl (Assertion ''wtf'')"
proof -
  let ?m = "\<lambda>i. testmsgheader 28 0 0 0 @ s32_bytes i"
  have m: "message (?m i)" "kind (?m i) = 0" "length (?m i) = 28" "take 4 (drop 24 (?m i)) = s32_bytes i" for i
    by (simp_all add: message_def kind_def testmsgheader_def in_s32_def)
  have g: "m_bIsConnected (sink_at example_gate (UAddr 0 0))" "m_nGroupID (sink_at example_gate (UAddr 0 0)) = - 1"
    by (simp_all add: sink_at_def get_unit_def unit_info_def example_gate_def)
  have "recv_rounds (Suc (Suc 3)) (?m 3 @ ?m 4 @ []) (int (length (?m 3 @ ?m 4))) (UAddr 0 0) example_gate =
      Inl (Assertion ''wtf'')"
  proof (rule gate_second_group_aborts)
    show "28 \<le> length (?m 3)" "bytes_s32 (take 4 (drop 24 (?m 3))) \<noteq> - 1" using m(3,4) by (simp_all add: in_s32_def)
    show "valid_unit (s_oPoolClient example_gate) (UAddr 0 0)" by (simp add: example_gate_valid)
  qed (use m(1,2) g in simp_all)
  moreover have "Suc (Suc 3) = 5" "int (length (?m 3 @ ?m 4)) = 56" using m(3) by simp_all
  ultimately show ?thesis by simp
qed

text \<open>
  Messages cut inside their length field are judged by memory beyond the received bytes: when
  one to three bytes of a valid length are there, \<^verbatim>\<open>OnRecv\<close> waits if the following memory happens
  to hold the rest of that length, and closes the connection if it ends in \<open>0x7f\<close>.
\<close>

theorem gate_short_read_uses_garbage:
  assumes "24 \<le> l" "l \<le> 4096" "0 < k" "k < 4"
  shows "Sink_OnRecv (take k (s32_bytes l) @ drop k (s32_bytes l)) (int k) a g = Inr (0, [], g) \<and>
    Sink_OnRecv (take k (s32_bytes l) @ replicate (3 - k) 0 @ [0x7f]) (int k) a g = Inr (0, [Sink_Close a], g)"
proof -
  have "in_s32 l" using assms by (simp add: in_s32_def)
  then have 1: "Sink_OnRecv (s32_bytes l) (int k) a g = Inr (0, [], g)"
    using assms by (simp add: Sink_OnRecv_def read_s32_def)
  obtain b0 b1 b2 where b: "take k (s32_bytes l) @ replicate (3 - k) 0 @ [0x7f] = [b0, b1, b2, 0x7f :: byte]"
  proof -
    have "length (take k (s32_bytes l) @ replicate (3 - k) 0) = 3" using assms by simp
    then obtain b0 b1 b2 where "take k (s32_bytes l) @ replicate (3 - k) 0 = [b0, b1, b2 :: byte]"
      unfolding numeral_3_eq_3 length_Suc_conv by auto
    then have "take k (s32_bytes l) @ replicate (3 - k) 0 @ [0x7f] = [b0, b1, b2, 0x7f]" by (metis append_Cons append_Nil append_assoc)
    then show ?thesis by (rule that)
  qed
  have u: "unat b0 < 256" "unat b1 < 256" "unat b2 < 256"
    using unsigned_less [of b0] unsigned_less [of b1] unsigned_less [of b2] by simp_all
  let ?n = "unat b0 + 256 * (unat b1 + 256 * (unat b2 + 256 * 127))"
  have n: "?n < 2 ^ 31" "4096 < ?n" using u by simp_all
  have "bytes_nat [b0, b1, b2, 0x7f] = ?n" by simp
  then have "bytes_s32 [b0, b1, b2, 0x7f] = sint (of_nat ?n :: 32 word)"
    unfolding bytes_s32_def bytes_word_def by (rule arg_cong)
  also have "\<dots> = int ?n" by (rule sint_small [OF n(1)])
  finally have "bytes_s32 [b0, b1, b2, 0x7f] = int ?n" .
  moreover have "4096 < int ?n" using n(2) by linarith
  ultimately have "4096 < bytes_s32 [b0, b1, b2, 0x7f]" by linarith
  then show ?thesis using 1 unfolding b by (simp add: Sink_OnRecv_def read_s32_def)
qed

theorem gate_short_read_uses_garbage_witness:
  "Sink_OnRecv (take 2 (s32_bytes 26) @ drop 2 (s32_bytes 26)) (int 2) (UAddr 0 0) example_gate = Inr (0, [], example_gate) \<and>
   Sink_OnRecv (take 2 (s32_bytes 26) @ replicate (3 - 2) 0 @ [0x7f]) (int 2) (UAddr 0 0) example_gate =
     Inr (0, [Sink_Close (UAddr 0 0)], example_gate)"
  by (rule gate_short_read_uses_garbage) simp_all

text \<open>
  Every tick of the gate's own timer starts 110 more timers on fresh objects, each with one of
  the fixed intervals (at least the 100 ms the timer manager insists on), a delay below 100 ms,
  and no end; the counter that is reported grows by 100 only.
\<close>

theorem gate_tick_starts_timers:
  assumes "Gate_OnTime now n p r = Inr (cs, n', p', r')"
  shows "length cs = 110 \<and> p' = p + 110 \<and> n' = n + 100 \<and>
    (\<forall>c \<in> set cs. \<exists>q i d. c = Call_StartTimer 0 q i d (- 1) \<and> i \<in> set gate_intervals \<and> 100 \<le> i \<and> 0 \<le> d \<and> d < 100)"
proof -
  obtain r1 where g: "gate_rounds 10 p r1 = (cs, p', r')" "n' = n + 100"
    using assms by (auto simp: Gate_OnTime_def Let_def bindE_eq_Inr chk_s32_def split: prod.splits if_splits)
  have "100 \<le> i" if "i \<in> set gate_intervals" for i using that by (auto simp: gate_intervals_def)
  with gate_rounds_calls [OF g(1)] g(2) show ?thesis
    by (auto simp: list_all_iff gate_timer_call_def)
qed

theorem gate_tick_starts_timers_witness:
  "\<exists>cs p' r'. Gate_OnTime 1425000000000 400 1 \<lparr>m_lSeed = 0\<rparr> = Inr (cs, 500, p', r') \<and> length cs = 110"
proof -
  obtain cs n' p' r' where g: "Gate_OnTime 1425000000000 400 1 \<lparr>m_lSeed = 0\<rparr> = Inr (cs, n', p', r')"
    by (cases "gate_rounds 10 1 (SetSeed (word_of_int 1425000000000) \<lparr>m_lSeed = 0\<rparr>)")
      (auto simp: Gate_OnTime_def Let_def in_s32_def)
  from gate_tick_starts_timers [OF g] g show ?thesis by auto
qed

end
