(* ===== verification/Bundler.thy ===== *)
theory Bundler
  imports Prelude
begin

text \<open>
  src/Public/TBundler.h: member functions bound to ids, called by id. Unbinding is deferred: a
  binding is marked and erased by \<^verbatim>\<open>reflush\<close> (or by binding the same function again), because it
  may happen while the list is being walked. The list nodes are named by a number, so that an
  iterator kept in the delete list is the pair of an id and a node: erasing a node that is no
  longer there is the fault \<open>DoubleErase\<close>. Ids are \<open>'i\<close>; objects and member functions are
  numbers. The order in which the hash map lists its ids is not specified; nothing depends on it.

  src/Public/TCallBack.h: plain functions bound to ids, erased at once.
\<close>

section \<open>TBundler.h\<close>

record bundler =
  m_debug :: string
  m_pObj :: nat
  m_pAddress :: nat
  m_deleted :: bool
  node_id :: nat

record 'i bundler_pool =
  m_bundler_pool :: "('i \<times> bundler list) list"
  m_delete_list :: "('i \<times> nat) list"
  next_node :: nat

definition bundler_pool_new :: "'i bundler_pool" where
  "bundler_pool_new = \<lparr>m_bundler_pool = [], m_delete_list = [], next_node = 0\<rparr>"

definition bundler_new :: "nat \<Rightarrow> nat \<Rightarrow> string \<Rightarrow> nat \<Rightarrow> bundler" where
  "bundler_new pObj pAddress pDebug n =
     \<lparr>m_debug = pDebug, m_pObj = pObj, m_pAddress = pAddress, m_deleted = False, node_id = n\<rparr>"

text \<open>\<^verbatim>\<open>operator ==\<close>.\<close>

definition same_target :: "nat \<Rightarrow> nat \<Rightarrow> bundler \<Rightarrow> bool" where
  "same_target pObj pAddress b \<longleftrightarrow> m_pObj b = pObj \<and> m_pAddress b = pAddress"

fun change :: "'i \<Rightarrow> ('b \<Rightarrow> 'b) \<Rightarrow> ('i \<times> 'b) list \<Rightarrow> ('i \<times> 'b) list" where
  "change k f [] = []"
| "change k f ((k', v) # m) = (if k' = k then (k', f v) # m else (k', v) # change k f m)"

text \<open>\<^verbatim>\<open>delete_node::deleted\<close>: erase the node from its list.\<close>

definition erase_node :: "'i \<times> nat \<Rightarrow> ('i \<times> bundler list) list \<Rightarrow> ('i \<times> bundler list) list outcome" where
  "erase_node d m =
     (case map_of m (fst d) of
        None \<Rightarrow> Inl WildPointer
      | Some bs \<Rightarrow>
          if snd d \<in> node_id ` set bs then Inr (change (fst d) (filter (\<lambda>b. node_id b \<noteq> snd d)) m)
          else Inl DoubleErase)"

definition push_bundler :: "'i \<Rightarrow> nat \<Rightarrow> nat \<Rightarrow> string \<Rightarrow> 'i bundler_pool \<Rightarrow> 'i bundler_pool" where
  "push_bundler i pObj pAddress pinfo p =
     p\<lparr>m_bundler_pool := change i (\<lambda>bs. bs @ [bundler_new pObj pAddress pinfo (next_node p)]) (m_bundler_pool p),
       next_node := Suc (next_node p)\<rparr>"

definition bundler_bind ::
    "'i \<Rightarrow> nat \<Rightarrow> nat \<Rightarrow> string \<Rightarrow> 'i bundler_pool \<Rightarrow> (bool \<times> 'i bundler_pool) outcome" where
  "bundler_bind i pObj paddress pinfo p =
     (case map_of (m_bundler_pool p) i of
        None \<Rightarrow>
          Inr (True, push_bundler i pObj paddress pinfo (p\<lparr>m_bundler_pool := m_bundler_pool p @ [(i, [])]\<rparr>))
      | Some bs \<Rightarrow>
          (case find (same_target pObj paddress) bs of
             None \<Rightarrow> Inr (True, push_bundler i pObj paddress pinfo p)
           | Some b \<Rightarrow>
               if m_deleted b then
                 bindE (if (i, node_id b) \<in> set (m_delete_list p) then
                          bindE (erase_node (i, node_id b) (m_bundler_pool p)) (\<lambda>m.
                          Inr (p\<lparr>m_bundler_pool := m, m_delete_list := remove1 (i, node_id b) (m_delete_list p)\<rparr>))
                        else Inr p) (\<lambda>p.
                 Inr (True, push_bundler i pObj paddress pinfo p))
               else bindE (TASSERT False ''double add bindler'') (\<lambda>_. Inr (False, p))))"

definition mark :: "nat \<Rightarrow> bundler list \<Rightarrow> bundler list" where
  "mark n bs = map (\<lambda>b. if node_id b = n then b\<lparr>m_deleted := True\<rparr> else b) bs"

definition bundler_unbind :: "'i \<Rightarrow> nat \<Rightarrow> nat \<Rightarrow> 'i bundler_pool \<Rightarrow> bool \<times> 'i bundler_pool" where
  "bundler_unbind i pObj paddress p =
     (case map_of (m_bundler_pool p) i of
        None \<Rightarrow> (False, p)
      | Some bs \<Rightarrow>
          (case find (same_target pObj paddress) bs of
             None \<Rightarrow> (False, p)
           | Some b \<Rightarrow>
               (True, p\<lparr>m_bundler_pool := change i (mark (node_id b)) (m_bundler_pool p),
                        m_delete_list := m_delete_list p @ [(i, node_id b)]\<rparr>)))"

text \<open>\<^verbatim>\<open>unbind(pObj)\<close>: every binding of the object.\<close>

definition bundler_unbind_all :: "nat \<Rightarrow> 'i bundler_pool \<Rightarrow> 'i bundler_pool" where
  "bundler_unbind_all pObj p =
     p\<lparr>m_bundler_pool := map (\<lambda>(i, bs). (i, map (\<lambda>b. if m_pObj b = pObj then b\<lparr>m_deleted := True\<rparr> else b) bs)) (m_bundler_pool p),
       m_delete_list := m_delete_list p @
         concat (map (\<lambda>(i, bs). map (\<lambda>b. (i, node_id b)) (filter (\<lambda>b. m_pObj b = pObj) bs)) (m_bundler_pool p))\<rparr>"

fun erase_nodes :: "('i \<times> nat) list \<Rightarrow> ('i \<times> bundler list) list \<Rightarrow> ('i \<times> bundler list) list outcome" where
  "erase_nodes [] m = Inr m"
| "erase_nodes (d # ds) m = bindE (erase_node d m) (erase_nodes ds)"

definition bundler_reflush :: "'i bundler_pool \<Rightarrow> 'i bundler_pool outcome" where
  "bundler_reflush p =
     bindE (erase_nodes (m_delete_list p) (m_bundler_pool p)) (\<lambda>m.
     Inr (p\<lparr>m_bundler_pool := m, m_delete_list := []\<rparr>))"

definition bundler_clear :: "'i bundler_pool \<Rightarrow> 'i bundler_pool" where
  "bundler_clear p = p\<lparr>m_bundler_pool := [], m_delete_list := []\<rparr>"

text \<open>
  \<^verbatim>\<open>call_bundler\<close> walks the list while the functions it calls may bind and unbind: \<open>client\<close> gives
  what a call does, from the calls so far. The next node is the one behind the current node in the
  list as it is then; if the current node was erased, the iterator is gone.
\<close>

datatype 'i bundler_request =
    Req_bind 'i nat nat string
  | Req_unbind 'i nat nat
  | Req_unbind_all nat

fun do_bundler_request :: "'i bundler_request \<Rightarrow> 'i bundler_pool \<Rightarrow> 'i bundler_pool outcome" where
  "do_bundler_request (Req_bind i ob f s) p = bindE (bundler_bind i ob f s p) (\<lambda>(_, p). Inr p)"
| "do_bundler_request (Req_unbind i ob f) p = Inr (snd (bundler_unbind i ob f p))"
| "do_bundler_request (Req_unbind_all ob) p = Inr (bundler_unbind_all ob p)"

fun do_bundler_requests :: "'i bundler_request list \<Rightarrow> 'i bundler_pool \<Rightarrow> 'i bundler_pool outcome" where
  "do_bundler_requests [] p = Inr p"
| "do_bundler_requests (r # rs) p = bindE (do_bundler_request r p) (do_bundler_requests rs)"

fun behind :: "nat \<Rightarrow> bundler list \<Rightarrow> bundler list option" where
  "behind n [] = None"
| "behind n (b # bs) = (if node_id b = n then Some bs else behind n bs)"

fun call_from ::
    "nat \<Rightarrow> ((nat \<times> nat) list \<Rightarrow> 'i bundler_request list) \<Rightarrow> 'i \<Rightarrow> bundler list \<Rightarrow> (nat \<times> nat) list \<Rightarrow>
     'i bundler_pool \<Rightarrow> ((nat \<times> nat) list \<times> 'i bundler_pool) outcome" where
  "call_from fuel client i [] log p = Inr (log, p)"
| "call_from 0 client i (b # bs) log p = Inl Diverges"
| "call_from (Suc fuel) client i (b # bs) log p =
     bindE (if \<not> m_deleted b then
              let log = log @ [(m_pObj b, m_pAddress b)] in
              bindE (do_bundler_requests (client log) p) (\<lambda>p. Inr (log, p))
            else Inr (log, p)) (\<lambda>(log, p).
     case map_of (m_bundler_pool p) i of
       None \<Rightarrow> Inl WildPointer
     | Some now \<Rightarrow>
         (case behind (node_id b) now of
            None \<Rightarrow> Inl WildPointer
          | Some rest \<Rightarrow> call_from fuel client i rest log p))"

definition call_bundler ::
    "nat \<Rightarrow> ((nat \<times> nat) list \<Rightarrow> 'i bundler_request list) \<Rightarrow> 'i \<Rightarrow> 'i bundler_pool \<Rightarrow>
     ((nat \<times> nat) list \<times> 'i bundler_pool) outcome" where
  "call_bundler fuel client i p =
     (case map_of (m_bundler_pool p) i of
        None \<Rightarrow> Inr ([], p)
      | Some bs \<Rightarrow> call_from fuel client i bs [] p)"

section \<open>TCallBack.h\<close>

text \<open>A function with the text it was registered with; equality looks at the function only.\<close>

type_synonym callinfo = "nat \<times> string"
type_synonym 'i callbacks = "('i \<times> callinfo list) list"

text \<open>\<^verbatim>\<open>snprintf\<close> into the 256 bytes of \<^verbatim>\<open>info\<close>.\<close>

definition CallInfo_new :: "nat \<Rightarrow> string \<Rightarrow> callinfo" where
  "CallInfo_new val pInfo = (val, take 255 pInfo)"

definition pool_of :: "'i \<Rightarrow> 'i callbacks \<Rightarrow> callinfo list \<times> 'i callbacks" where
  "pool_of i m = (case map_of m i of None \<Rightarrow> ([], m @ [(i, [])]) | Some cs \<Rightarrow> (cs, m))"

definition RegisterCall :: "'i \<Rightarrow> nat \<Rightarrow> string \<Rightarrow> 'i callbacks \<Rightarrow> (bool \<times> 'i callbacks) outcome" where
  "RegisterCall i pFun pInfo m =
     (let (cs, m) = pool_of i m in
      if find (\<lambda>c. fst c = pFun) cs \<noteq> None then bindE (TASSERT False ''ASSERT'') (\<lambda>_. Inr (False, m))
      else Inr (True, change i (\<lambda>cs. cs @ [CallInfo_new pFun pInfo]) m))"

definition UnRgsCall :: "'i \<Rightarrow> nat \<Rightarrow> 'i callbacks \<Rightarrow> bool \<times> 'i callbacks" where
  "UnRgsCall i pFun m =
     (let (cs, m) = pool_of i m in
      case find (\<lambda>c. fst c = pFun) cs of
        None \<Rightarrow> (False, m)
      | Some c \<Rightarrow> (True, change i (remove1 c) m))"

text \<open>The functions called, in order, when none of them changes the registrations.\<close>

definition Callback_Call :: "'i \<Rightarrow> 'i callbacks \<Rightarrow> nat list" where
  "Callback_Call i m = (case map_of m i of None \<Rightarrow> [] | Some cs \<Rightarrow> map fst cs)"

end
