(* ===== verification/Bundler_Spec.thy ===== *)
theory Bundler_Spec
  imports Bundler Runs
begin

text \<open>
  What a bundler pool promises its clients (TBundler.h): for each id an ordered list of distinct
  bindings, however often deleted nodes are flushed in between; and what breaks when a binding is
  removed twice.
\<close>

section \<open>Keyed lists\<close>

lemma map_of_change [simp]:
  "map_of (change k f m) j = (if j = k then map_option f (map_of m k) else map_of m j)"
  by (induction k f m rule: change.induct) auto

lemma keys_change [simp]: "map fst (change k f m) = map fst m"
  by (induction k f m rule: change.induct) auto

lemma map_of_snoc: "map_of (m @ [(k, v)]) j = (case map_of m j of None \<Rightarrow> if j = k then Some v else None | Some x \<Rightarrow> Some x)"
  by (simp add: map_add_def split: option.splits)

declare map_of_append [simp del]

text \<open>No key twice; opaque, so that look-ups stay look-ups.\<close>

definition keys_ok :: "('i \<times> 'b) list \<Rightarrow> bool" where
  "keys_ok m \<longleftrightarrow> distinct (map fst m)"

lemma keys_ok_simps [simp]:
  "keys_ok []" "keys_ok (change k f m) = keys_ok m" "keys_ok (map (\<lambda>(k, v). (k, h v)) m) = keys_ok m"
  "map_of m k = None \<Longrightarrow> keys_ok (m @ [(k, v)]) = keys_ok m"
  by (auto simp: keys_ok_def case_prod_beta o_def map_of_eq_None_iff)

lemma keys_ok_Cons: "keys_ok (x # m) \<longleftrightarrow> map_of m (fst x) = None \<and> keys_ok m"
  by (simp add: keys_ok_def map_of_eq_None_iff)

lemma image_minus: "g ` {c \<in> A. P c \<and> g c \<noteq> t} = g ` {c \<in> A. P c} - {t}"
  by auto

lemma map_of_map_values: "map_of (map (\<lambda>(k, v). (k, f v)) m) j = map_option f (map_of m j)"
  by (induction m) auto

section \<open>The promise\<close>

definition target :: "bundler \<Rightarrow> nat \<times> nat" where
  "target b = (m_pObj b, m_pAddress b)"

text \<open>The functions a call of \<open>i\<close> reaches, in order.\<close>

definition live :: "'i bundler_pool \<Rightarrow> 'i \<Rightarrow> (nat \<times> nat) list" where
  "live p i = (case map_of (m_bundler_pool p) i of
     None \<Rightarrow> [] | Some bs \<Rightarrow> map target (filter (\<lambda>b. \<not> m_deleted b) bs))"

text \<open>
  Bindings of one id are distinct and nodes are new; the delete list holds each marked node once.
\<close>

definition nodes_ok :: "nat \<Rightarrow> bundler list \<Rightarrow> bool" where
  "nodes_ok n bs \<longleftrightarrow> distinct (map target bs) \<and> distinct (map node_id bs) \<and> (\<forall>b \<in> set bs. node_id b < n)"

definition bundler_inv :: "'i bundler_pool \<Rightarrow> bool" where
  "bundler_inv p \<longleftrightarrow> distinct (m_delete_list p) \<and> keys_ok (m_bundler_pool p) \<and>
     (\<forall>i bs. map_of (m_bundler_pool p) i = Some bs \<longrightarrow> nodes_ok (next_node p) bs) \<and>
     (\<forall>i n. (i, n) \<in> set (m_delete_list p) \<longleftrightarrow>
        (\<exists>bs b. map_of (m_bundler_pool p) i = Some bs \<and> b \<in> set bs \<and> node_id b = n \<and> m_deleted b))"

lemma bundler_inv_new: "bundler_inv bundler_pool_new"
  by (simp add: bundler_inv_def bundler_pool_new_def)

lemma find_target:
  assumes "nodes_ok n bs"
  shows "find (same_target ob f) bs = Some b \<longleftrightarrow> b \<in> set bs \<and> target b = (ob, f)"
    "find (same_target ob f) bs = None \<longleftrightarrow> (ob, f) \<notin> target ` set bs"
proof -
  have eq: "same_target ob f c \<longleftrightarrow> target c = (ob, f)" for c by (auto simp: same_target_def target_def)
  show "find (same_target ob f) bs = None \<longleftrightarrow> (ob, f) \<notin> target ` set bs"
    by (force simp: find_None_iff eq)
  have d: "distinct (map target bs)" using assms by (simp add: nodes_ok_def)
  show "find (same_target ob f) bs = Some b \<longleftrightarrow> b \<in> set bs \<and> target b = (ob, f)"
    using d by (induction bs) (auto simp: eq image_iff)
qed

lemma live_mem:
  "t \<in> set (live p i) \<longleftrightarrow>
     (\<exists>bs b. map_of (m_bundler_pool p) i = Some bs \<and> b \<in> set bs \<and> \<not> m_deleted b \<and> target b = t)"
  by (cases "map_of (m_bundler_pool p) i") (auto simp: live_def)

text \<open>The bindings removed since the last flush.\<close>

definition dead :: "'i bundler_pool \<Rightarrow> 'i \<Rightarrow> (nat \<times> nat) set" where
  "dead p i = (case map_of (m_bundler_pool p) i of None \<Rightarrow> {} | Some bs \<Rightarrow> target ` {b \<in> set bs. m_deleted b})"

lemma dead_Some: "map_of (m_bundler_pool p) i = Some bs \<Longrightarrow> dead p i = target ` {b \<in> set bs. m_deleted b}"
  by (simp add: dead_def)

lemma dead_push:
  assumes "map_of (m_bundler_pool p) i = Some bs"
  shows "dead (push_bundler i ob f s p) = dead p"
proof
  fix j
  have "{b \<in> set (bs @ [bundler_new ob f s (next_node p)]). m_deleted b} = {b \<in> set bs. m_deleted b}"
    by (auto simp: bundler_new_def)
  then show "dead (push_bundler i ob f s p) j = dead p j"
    using assms by (cases "j = i") (simp_all add: dead_def push_bundler_def)
qed

lemma live_push:
  assumes "map_of (m_bundler_pool p) i = Some bs"
  shows "live (push_bundler i ob f s p) j = live p j @ (if j = i then [(ob, f)] else [])"
  using assms by (auto simp: live_def push_bundler_def bundler_new_def target_def split: option.splits)

lemma push_inv:
  assumes "bundler_inv p" "map_of (m_bundler_pool p) i = Some bs" "(ob, f) \<notin> target ` set bs"
  shows "bundler_inv (push_bundler i ob f s p)"
proof -
  let ?b = "bundler_new ob f s (next_node p)"
  have b: "target ?b = (ob, f)" "node_id ?b = next_node p" "\<not> m_deleted ?b"
    by (simp_all add: bundler_new_def target_def)
  have ok: "nodes_ok (Suc (next_node p)) cs" if "map_of (m_bundler_pool p) j = Some cs" for j cs
    using assms(1) that unfolding bundler_inv_def nodes_ok_def by (meson less_Suc_eq)
  have "nodes_ok (next_node p) bs" using assms(1,2) by (simp add: bundler_inv_def)
  then have "nodes_ok (Suc (next_node p)) (bs @ [?b])"
    using b assms(3) by (auto simp: nodes_ok_def)
  then have 1: "\<forall>j cs. map_of (m_bundler_pool (push_bundler i ob f s p)) j = Some cs \<longrightarrow>
      nodes_ok (next_node (push_bundler i ob f s p)) cs"
    using ok assms(2) by (auto simp: push_bundler_def)
  have "(\<exists>cs c. map_of (m_bundler_pool (push_bundler i ob f s p)) j = Some cs \<and> c \<in> set cs \<and> node_id c = n \<and> m_deleted c) \<longleftrightarrow>
      (\<exists>cs c. map_of (m_bundler_pool p) j = Some cs \<and> c \<in> set cs \<and> node_id c = n \<and> m_deleted c)" for j n
    using assms(2) b(3) by (auto simp: push_bundler_def)
  with 1 assms(1) show ?thesis by (simp add: bundler_inv_def push_bundler_def)
qed

lemma erase_ok:
  assumes "bundler_inv p" "d \<in> set (m_delete_list p)"
  shows "\<exists>m. erase_node d (m_bundler_pool p) = Inr m \<and>
    (let q = p\<lparr>m_bundler_pool := m, m_delete_list := remove1 d (m_delete_list p)\<rparr> in
      bundler_inv q \<and> live q = live p \<and>
      (\<forall>j. map_of m j = map_option (\<lambda>bs. if j = fst d then filter (\<lambda>b. node_id b \<noteq> snd d) bs else bs)
         (map_of (m_bundler_pool p) j)))"
proof -
  obtain i n where d: "d = (i, n)" by (cases d)
  obtain bs b where b: "map_of (m_bundler_pool p) i = Some bs" "b \<in> set bs" "node_id b = n" "m_deleted b"
    using assms d unfolding bundler_inv_def by blast
  let ?f = "filter (\<lambda>b. node_id b \<noteq> n)"
  let ?m = "change i ?f (m_bundler_pool p)"
  let ?q = "p\<lparr>m_bundler_pool := ?m, m_delete_list := remove1 d (m_delete_list p)\<rparr>"
  have run: "erase_node d (m_bundler_pool p) = Inr ?m"
    using b d by (auto simp: erase_node_def)
  have ok: "nodes_ok (next_node p) bs" using assms(1) b(1) by (simp add: bundler_inv_def)
  have uniq: "c = b" if "c \<in> set bs" "node_id c = n" for c
    using ok b(2,3) that by (auto simp: nodes_ok_def distinct_map inj_on_def)
  have "nodes_ok (next_node p) (?f bs)" using ok by (auto simp: nodes_ok_def distinct_map_filter)
  then have "\<forall>j cs. map_of ?m j = Some cs \<longrightarrow> nodes_ok (next_node p) cs"
    using assms(1) b(1) by (auto simp: bundler_inv_def split: if_splits)
  moreover have dl: "distinct (m_delete_list p)" using assms(1) by (simp add: bundler_inv_def)
  moreover have "(j, k) \<in> set (remove1 d (m_delete_list p)) \<longleftrightarrow>
      (\<exists>cs c. map_of ?m j = Some cs \<and> c \<in> set cs \<and> node_id c = k \<and> m_deleted c)" for j k
    using assms(1) b(1) dl unfolding bundler_inv_def d by (auto split: if_splits)
  moreover have "keys_ok (m_bundler_pool p)" using assms(1) by (simp add: bundler_inv_def)
  ultimately have inv: "bundler_inv ?q" unfolding bundler_inv_def by simp
  have "filter (\<lambda>c. \<not> m_deleted c) (?f bs) = filter (\<lambda>c. \<not> m_deleted c) bs"
    unfolding filter_filter using uniq b(4) by (intro filter_cong) auto
  then have "live ?q = live p" using b(1) by (auto simp: fun_eq_iff live_def split: option.splits)
  moreover have "\<forall>j. map_of ?m j = map_option (\<lambda>bs. if j = fst d then filter (\<lambda>b. node_id b \<noteq> snd d) bs else bs)
         (map_of (m_bundler_pool p) j)"
    by (auto simp: d option.map_ident)
  ultimately show ?thesis using run inv unfolding Let_def by blast
qed

lemma erase_nodes_ok:
  "bundler_inv p \<Longrightarrow> \<exists>m. erase_nodes (m_delete_list p) (m_bundler_pool p) = Inr m \<and>
     (let q = p\<lparr>m_bundler_pool := m, m_delete_list := []\<rparr> in bundler_inv q \<and> live q = live p)"
proof (induction "m_delete_list p" arbitrary: p)
  case Nil
  then have "p\<lparr>m_bundler_pool := m_bundler_pool p, m_delete_list := []\<rparr> = p" by simp
  with Nil show ?case by (metis erase_nodes.simps(1))
next
  case (Cons d ds)
  have din: "d \<in> set (m_delete_list p)" by (simp add: Cons.hyps(2) [symmetric])
  have ds: "remove1 d (m_delete_list p) = ds" by (simp add: Cons.hyps(2) [symmetric])
  obtain m where m: "erase_node d (m_bundler_pool p) = Inr m"
    "bundler_inv (p\<lparr>m_bundler_pool := m, m_delete_list := ds\<rparr>)"
    "live (p\<lparr>m_bundler_pool := m, m_delete_list := ds\<rparr>) = live p"
    using erase_ok [OF Cons.prems din] unfolding ds Let_def by blast
  have "ds = m_delete_list (p\<lparr>m_bundler_pool := m, m_delete_list := ds\<rparr>)" by simp
  from Cons.hyps(1) [OF this m(2)] obtain m' where "erase_nodes ds m = Inr m'"
    "bundler_inv (p\<lparr>m_bundler_pool := m', m_delete_list := []\<rparr>)" "live (p\<lparr>m_bundler_pool := m', m_delete_list := []\<rparr>) = live p"
    using m(3) by (auto simp: Let_def)
  with m(1) show ?case by (simp add: Cons.hyps(2) [symmetric] Let_def)
qed

section \<open>The operations\<close>

text \<open>\<^verbatim>\<open>bind\<close> appends to the live list, or aborts when the function is bound already.\<close>

lemma bind_ok:
  assumes "bundler_inv p" "(ob, f) \<notin> set (live p i)"
  shows "\<exists>q. bundler_bind i ob f s p = Inr (True, q) \<and> bundler_inv q \<and>
    live q = (live p)(i := live p i @ [(ob, f)]) \<and> dead q = (dead p)(i := dead p i - {(ob, f)})"
proof (cases "map_of (m_bundler_pool p) i")
  case None
  let ?p = "p\<lparr>m_bundler_pool := m_bundler_pool p @ [(i, [])]\<rparr>"
  have m: "map_of (m_bundler_pool ?p) i = Some []" using None by (simp add: map_of_snoc)
  have "bundler_inv ?p" using assms(1) None by (auto simp: bundler_inv_def map_of_snoc nodes_ok_def split: option.splits if_splits)
  moreover have "live ?p = live p" using None by (auto simp: fun_eq_iff live_def map_of_snoc split: option.splits)
  moreover have "dead ?p = dead p" "dead p i = {}"
    using None by (auto simp: fun_eq_iff dead_def map_of_snoc split: option.splits)
  ultimately show ?thesis
    using None push_inv [OF _ m, of ob f s] live_push [OF m, of ob f s] dead_push [OF m, of ob f s]
    by (simp add: bundler_bind_def fun_eq_iff)
next
  case (Some bs)
  have ok: "nodes_ok (next_node p) bs" using assms(1) Some by (simp add: bundler_inv_def)
  show ?thesis
  proof (cases "find (same_target ob f) bs")
    case None
    then have nt: "(ob, f) \<notin> target ` set bs" using find_target(2) [OF ok] by blast
    then have "(ob, f) \<notin> dead p i" using Some by (auto simp: dead_def image_iff)
    with None nt show ?thesis
      using Some push_inv [OF assms(1) Some] live_push [OF Some, of ob f s] dead_push [OF Some, of ob f s]
      by (auto simp: bundler_bind_def fun_eq_iff)
  next
    case b: (Some b)
    then have b': "b \<in> set bs" "target b = (ob, f)" using find_target(1) [OF ok] by blast+
    then have del: "m_deleted b" using assms(2) Some by (force simp: live_def)
    then have d: "(i, node_id b) \<in> set (m_delete_list p)" using assms(1) Some b'(1) unfolding bundler_inv_def by blast
    let ?q = "\<lambda>m. p\<lparr>m_bundler_pool := m, m_delete_list := remove1 (i, node_id b) (m_delete_list p)\<rparr>"
    obtain m where m: "erase_node (i, node_id b) (m_bundler_pool p) = Inr m" "bundler_inv (?q m)" "live (?q m) = live p"
      "map_of m i = Some (filter (\<lambda>c. node_id c \<noteq> node_id b) bs)"
      using erase_ok [OF assms(1) d] Some by (auto simp: Let_def)
    have "(ob, f) \<notin> target ` set (filter (\<lambda>c. node_id c \<noteq> node_id b) bs)"
      using ok b' by (auto simp: nodes_ok_def distinct_map inj_on_def)
    then have "bundler_inv (push_bundler i ob f s (?q m))" using push_inv [OF m(2)] m(4) by simp
    moreover have "live (push_bundler i ob f s (?q m)) = (live p)(i := live p i @ [(ob, f)])"
      using live_push [of "?q m" i] m(3,4) by (auto simp: fun_eq_iff)
    moreover have "bundler_bind i ob f s p = Inr (True, push_bundler i ob f s (?q m))"
      using Some b del d m(1) by (simp add: bundler_bind_def)
    moreover have "dead (push_bundler i ob f s (?q m)) = (dead p)(i := dead p i - {(ob, f)})"
    proof -
      have mo: "map_of m j = (if j = i then Some (filter (\<lambda>c. node_id c \<noteq> node_id b) bs) else map_of (m_bundler_pool p) j)" for j
        using m(1) Some by (auto simp: erase_node_def split: if_splits)
      have one: "target c = (ob, f) \<longleftrightarrow> node_id c = node_id b" if "c \<in> set bs" for c
        using ok b' that by (auto simp: nodes_ok_def distinct_map inj_on_def)
      have "target ` {c \<in> set (filter (\<lambda>c. node_id c \<noteq> node_id b) bs). m_deleted c} =
          target ` {c \<in> set bs. m_deleted c} - {(ob, f)}"
      proof -
        have "{c \<in> set (filter (\<lambda>c. node_id c \<noteq> node_id b) bs). m_deleted c} = {c \<in> set bs. m_deleted c \<and> target c \<noteq> (ob, f)}"
          using one by auto
        then show ?thesis by (simp only: image_minus)
      qed
      then have "dead (?q m) = (dead p)(i := dead p i - {(ob, f)})"
        using mo Some by (auto simp: fun_eq_iff dead_def)
      then show ?thesis using dead_push [of "?q m" i] m(4) by simp
    qed
    ultimately show ?thesis by blast
  qed
qed

lemma bind_twice:
  assumes "bundler_inv p" "(ob, f) \<in> set (live p i)"
  shows "bundler_bind i ob f s p = Inl (Assertion ''double add bindler'')"
proof -
  obtain bs b where b: "map_of (m_bundler_pool p) i = Some bs" "b \<in> set bs" "\<not> m_deleted b" "target b = (ob, f)"
    using assms(2) by (auto simp: live_mem)
  have "nodes_ok (next_node p) bs" using assms(1) b(1) by (simp add: bundler_inv_def)
  from find_target(1) [OF this] b have "find (same_target ob f) bs = Some b" by blast
  with b show ?thesis by (simp add: bundler_bind_def)
qed

lemma unbind_eq:
  "map_of (m_bundler_pool p) i = Some bs \<Longrightarrow> find (same_target ob f) bs = Some b \<Longrightarrow>
     bundler_unbind i ob f p = (True, p\<lparr>m_bundler_pool := change i (mark (node_id b)) (m_bundler_pool p),
                        m_delete_list := m_delete_list p @ [(i, node_id b)]\<rparr>)"
  by (simp add: bundler_unbind_def)

lemma mark_deleted:
  assumes "b \<in> set bs"
  shows "(\<exists>c \<in> set (mark (node_id b) bs). node_id c = k \<and> m_deleted c) \<longleftrightarrow>
     (\<exists>c \<in> set bs. node_id c = k \<and> m_deleted c) \<or> k = node_id b"
proof -
  have 1: "(\<exists>c \<in> set (mark n cs). node_id c = k \<and> m_deleted c) \<longleftrightarrow>
     (\<exists>c \<in> set cs. node_id c = k \<and> (m_deleted c \<or> node_id c = n))" for n cs
    by (induction cs) (auto simp: mark_def)
  show ?thesis unfolding 1 using assms by blast
qed

lemma unbind_ok:
  assumes "bundler_inv p" "(ob, f) \<in> set (live p i)"
  shows "\<exists>q. bundler_unbind i ob f p = (True, q) \<and> bundler_inv q \<and>
    live q = (live p)(i := filter (\<lambda>t. t \<noteq> (ob, f)) (live p i)) \<and> dead q = (dead p)(i := insert (ob, f) (dead p i))"
proof -
  obtain bs b where b: "map_of (m_bundler_pool p) i = Some bs" "b \<in> set bs" "\<not> m_deleted b" "target b = (ob, f)"
    using assms(2) by (auto simp: live_mem)
  have ok: "nodes_ok (next_node p) bs" using assms(1) b(1) by (simp add: bundler_inv_def)
  from find_target(1) [OF this] b have fd: "find (same_target ob f) bs = Some b" by blast
  let ?n = "node_id b"
  let ?q = "p\<lparr>m_bundler_pool := change i (mark ?n) (m_bundler_pool p), m_delete_list := m_delete_list p @ [(i, ?n)]\<rparr>"
  have run: "bundler_unbind i ob f p = (True, ?q)" using b(1) fd by (simp add: bundler_unbind_def)
  have uniq: "c = b" if "c \<in> set bs" "node_id c = ?n" for c
    using ok b(2) that by (auto simp: nodes_ok_def distinct_map inj_on_def)
  have uniq_t: "c = b" if "c \<in> set bs" "target c = (ob, f)" for c
    using ok b(2,4) that by (auto simp: nodes_ok_def distinct_map inj_on_def)
  have mt: "map target (mark n cs) = map target cs" "map node_id (mark n cs) = map node_id cs" for n cs
    by (auto simp: mark_def target_def)
  have nmk: "nodes_ok k (mark n cs) = nodes_ok k cs" for k n cs
  proof -
    have "nodes_ok k cs \<longleftrightarrow> distinct (map target cs) \<and> distinct (map node_id cs) \<and> (\<forall>j \<in> set (map node_id cs). j < k)" for cs
      by (simp add: nodes_ok_def)
    then show ?thesis by (simp only: mt)
  qed
  have fresh: "(i, ?n) \<notin> set (m_delete_list p)"
  proof
    assume "(i, ?n) \<in> set (m_delete_list p)"
    then obtain c where "c \<in> set bs" "node_id c = ?n" "m_deleted c"
      using assms(1) b(1) unfolding bundler_inv_def by auto
    with uniq b(3) show False by blast
  qed
  have "\<forall>j cs. map_of (m_bundler_pool ?q) j = Some cs \<longrightarrow> nodes_ok (next_node p) cs"
    using assms(1) b(1) by (auto simp: bundler_inv_def nmk split: if_splits)
  moreover have "(j, k) \<in> set (m_delete_list ?q) \<longleftrightarrow>
      (\<exists>cs c. map_of (m_bundler_pool ?q) j = Some cs \<and> c \<in> set cs \<and> node_id c = k \<and> m_deleted c)" for j k
  proof (cases "j = i")
    case True
    have "(i, k) \<in> set (m_delete_list p) \<longleftrightarrow> (\<exists>c \<in> set bs. node_id c = k \<and> m_deleted c)"
      using assms(1) b(1) unfolding bundler_inv_def by auto
    moreover have "(\<exists>c \<in> set (mark ?n bs). node_id c = k \<and> m_deleted c) \<longleftrightarrow>
        (\<exists>c \<in> set bs. node_id c = k \<and> m_deleted c) \<or> k = ?n"
      using b(2) by (rule mark_deleted)
    ultimately show ?thesis using True b(1) by auto
  next
    case False
    with assms(1) show ?thesis unfolding bundler_inv_def by auto
  qed
  ultimately have "bundler_inv ?q"
    using assms(1) fresh unfolding bundler_inv_def by simp
  moreover have "map target (filter (\<lambda>c. \<not> m_deleted c) (mark ?n bs)) =
      filter (\<lambda>t. t \<noteq> (ob, f)) (map target (filter (\<lambda>c. \<not> m_deleted c) bs))"
  proof -
    have "filter (\<lambda>c. \<not> m_deleted c) (mark ?n cs) = filter (\<lambda>c. \<not> m_deleted c \<and> node_id c \<noteq> ?n) cs" for cs
      by (induction cs) (auto simp: mark_def)
    moreover have "filter (\<lambda>c. \<not> m_deleted c \<and> node_id c \<noteq> ?n) bs = filter (\<lambda>c. \<not> m_deleted c \<and> target c \<noteq> (ob, f)) bs"
      using uniq uniq_t b(4) by (intro filter_cong) auto
    ultimately show ?thesis by (simp add: filter_map o_def conj_commute)
  qed
  then have "live ?q = (live p)(i := filter (\<lambda>t. t \<noteq> (ob, f)) (live p i))"
    using b(1) by (auto simp: fun_eq_iff live_def split: option.splits)
  moreover have "dead ?q = (dead p)(i := insert (ob, f) (dead p i))"
  proof -
    have "map target (filter m_deleted (mark n cs)) = map target (filter (\<lambda>c. m_deleted c \<or> node_id c = n) cs)" for n cs
      by (induction cs) (auto simp: mark_def target_def)
    from arg_cong [OF this, of set]
    have "target ` {c \<in> set (mark ?n bs). m_deleted c} = target ` {c \<in> set bs. m_deleted c \<or> node_id c = ?n}" by simp
    also have "{c \<in> set bs. m_deleted c \<or> node_id c = ?n} = insert b {c \<in> set bs. m_deleted c}"
      using uniq b(2) by auto
    also have "target ` insert b {c \<in> set bs. m_deleted c} = insert (ob, f) (target ` {c \<in> set bs. m_deleted c})"
      using b(4) by simp
    finally show ?thesis using b(1) by (auto simp: fun_eq_iff dead_def)
  qed
  ultimately show ?thesis using run by blast
qed

lemma reflush_ok:
  assumes "bundler_inv p"
  shows "\<exists>q. bundler_reflush p = Inr q \<and> bundler_inv q \<and> live q = live p \<and> dead q = (\<lambda>_. {})"
proof -
  obtain m where m: "erase_nodes (m_delete_list p) (m_bundler_pool p) = Inr m"
    "bundler_inv (p\<lparr>m_bundler_pool := m, m_delete_list := []\<rparr>)" "live (p\<lparr>m_bundler_pool := m, m_delete_list := []\<rparr>) = live p"
    using erase_nodes_ok [OF assms] by (auto simp: Let_def)
  have "dead (p\<lparr>m_bundler_pool := m, m_delete_list := []\<rparr>) = (\<lambda>_. {})"
    using m(2) by (auto simp: fun_eq_iff dead_def bundler_inv_def split: option.splits)
  with m show ?thesis by (simp add: bundler_reflush_def)
qed

text \<open>A call whose functions do not touch the pool.\<close>

lemma behind_middle:
  "distinct (map node_id (xs @ b # ys)) \<Longrightarrow> behind (node_id b) (xs @ b # ys) = Some ys"
  by (induction xs) auto

lemma call_from_quiet:
  assumes "map_of (m_bundler_pool p) i = Some (xs @ ys)" "distinct (map node_id (xs @ ys))" "length ys \<le> fuel"
  shows "call_from fuel (\<lambda>_. []) i ys log p = Inr (log @ map target (filter (\<lambda>b. \<not> m_deleted b) ys), p)"
  using assms
proof (induction ys arbitrary: xs log fuel)
  case Nil
  then show ?case by (cases fuel) simp_all
next
  case (Cons b ys)
  then obtain k where k: "fuel = Suc k" "length ys \<le> k" by (cases fuel) auto
  have "call_from k (\<lambda>_. []) i ys l p = Inr (l @ map target (filter (\<lambda>b. \<not> m_deleted b) ys), p)" for l
    using Cons.IH [of "xs @ [b]" k l] Cons.prems(1,2) k(2) by simp
  then show ?case
    using Cons.prems(1) behind_middle [OF Cons.prems(2)] k(1) by (simp add: target_def)
qed

lemma call_ok:
  assumes "bundler_inv p"
  shows "\<exists>n. \<forall>fuel \<ge> n. call_bundler fuel (\<lambda>_. []) i p = Inr (live p i, p)"
proof (cases "map_of (m_bundler_pool p) i")
  case None
  then show ?thesis by (simp add: call_bundler_def live_def)
next
  case (Some bs)
  then have "distinct (map node_id ([] @ bs))" using assms by (simp add: bundler_inv_def nodes_ok_def)
  with call_from_quiet [of p i "[]" bs] Some show ?thesis
    by (intro exI [of _ "length bs"]) (simp add: call_bundler_def live_def)
qed

lemma unbind_absent:
  assumes "bundler_inv p" "(ob, f) \<notin> set (live p i)" "(ob, f) \<notin> dead p i"
  shows "bundler_unbind i ob f p = (False, p)"
proof (cases "map_of (m_bundler_pool p) i")
  case (Some bs)
  then have "nodes_ok (next_node p) bs" using assms(1) by (simp add: bundler_inv_def)
  moreover have "(ob, f) \<notin> target ` set bs"
    using assms(2,3) Some by (auto simp: live_mem dead_Some image_iff)
  ultimately have "find (same_target ob f) bs = None" using find_target(2) by blast
  with Some show ?thesis by (simp add: bundler_unbind_def)
qed (simp add: bundler_unbind_def)

definition mark_all :: "nat \<Rightarrow> bundler list \<Rightarrow> bundler list" where
  "mark_all ob bs = map (\<lambda>b. if m_pObj b = ob then b\<lparr>m_deleted := True\<rparr> else b) bs"

lemma mark_all_maps [simp]:
  "map target (mark_all ob bs) = map target bs" "map node_id (mark_all ob bs) = map node_id bs"
  by (auto simp: mark_all_def target_def)

lemma mark_all_nodes_ok [simp]: "nodes_ok n (mark_all ob bs) = nodes_ok n bs"
proof -
  have "nodes_ok n cs \<longleftrightarrow> distinct (map target cs) \<and> distinct (map node_id cs) \<and> (\<forall>k \<in> set (map node_id cs). k < n)" for cs
    by (simp add: nodes_ok_def)
  then show ?thesis by (simp only: mark_all_maps)
qed

lemma mark_all_deleted:
  "{(node_id b, target b) |b. b \<in> set (mark_all ob bs) \<and> m_deleted b} =
     {(node_id b, target b) |b. b \<in> set bs \<and> (m_deleted b \<or> m_pObj b = ob)}"
proof -
  have "map (\<lambda>b. (node_id b, target b)) (filter m_deleted (mark_all ob bs)) =
      map (\<lambda>b. (node_id b, target b)) (filter (\<lambda>b. m_deleted b \<or> m_pObj b = ob) bs)"
    by (induction bs) (auto simp: mark_all_def target_def)
  from arg_cong [OF this, of set] show ?thesis unfolding set_map set_filter by blast
qed

lemma unbind_all_pool:
  "m_bundler_pool (bundler_unbind_all ob p) = map (\<lambda>(i, bs). (i, mark_all ob bs)) (m_bundler_pool p)"
  "next_node (bundler_unbind_all ob p) = next_node p"
  by (simp_all add: bundler_unbind_all_def mark_all_def)

definition marks_of :: "nat \<Rightarrow> ('i \<times> bundler list) list \<Rightarrow> ('i \<times> nat) list" where
  "marks_of ob m = concat (map (\<lambda>(i, bs). map (\<lambda>b. (i, node_id b)) (filter (\<lambda>b. m_pObj b = ob) bs)) m)"

lemma marks_of_set:
  "keys_ok m \<Longrightarrow>
     (i, n) \<in> set (marks_of ob m) \<longleftrightarrow> (\<exists>bs b. map_of m i = Some bs \<and> b \<in> set bs \<and> node_id b = n \<and> m_pObj b = ob)"
proof (induction m)
  case (Cons x m)
  then have none: "map_of m (fst x) = None" and k: "keys_ok m" by (simp_all add: keys_ok_Cons)
  show ?case
  proof (cases "i = fst x")
    case True
    with Cons.IH [OF k] none show ?thesis by (cases x) (auto simp: marks_of_def)
  next
    case False
    with Cons.IH [OF k] show ?thesis by (cases x) (auto simp: marks_of_def)
  qed
qed (simp add: marks_of_def)

lemma marks_of_distinct:
  "keys_ok m \<Longrightarrow> (\<And>i bs. map_of m i = Some bs \<Longrightarrow> distinct (map node_id bs)) \<Longrightarrow> distinct (marks_of ob m)"
proof (induction m)
  case (Cons x m)
  obtain i bs where x: "x = (i, bs)" by (cases x)
  from Cons.prems(1) have ni: "map_of m i = None" and k: "keys_ok m" by (simp_all add: x keys_ok_Cons)
  have "distinct (map node_id cs)" if "map_of m j = Some cs" for j cs
    using Cons.prems(2) [of j cs] that ni by (cases "j = i") (simp_all add: x)
  then have "distinct (marks_of ob m)" by (rule Cons.IH [OF k])
  moreover have "distinct (map node_id bs)" using Cons.prems(2) [of i bs] by (simp add: x)
  then have "distinct (map (\<lambda>b. (i, node_id b)) (filter (\<lambda>b. m_pObj b = ob) bs))"
    by (induction bs) auto
  moreover have "(i, n) \<notin> set (marks_of ob m)" for n
    using marks_of_set [OF k, of i n ob] ni by simp
  moreover have "marks_of ob (x # m) = map (\<lambda>b. (i, node_id b)) (filter (\<lambda>b. m_pObj b = ob) bs) @ marks_of ob m"
    by (simp add: marks_of_def x)
  moreover have "fst y = i" if "y \<in> set (map (\<lambda>b. (i, node_id b)) (filter (\<lambda>b. m_pObj b = ob) bs))" for y
    using that by auto
  ultimately show ?case by (simp only: distinct_append) (metis disjoint_iff prod.collapse)
qed (simp add: marks_of_def)

lemma unbind_all_ok:
  assumes "bundler_inv p" "\<forall>i. \<forall>t \<in> dead p i. fst t \<noteq> ob"
  shows "bundler_inv (bundler_unbind_all ob p)"
    "live (bundler_unbind_all ob p) = (\<lambda>i. filter (\<lambda>t. fst t \<noteq> ob) (live p i))"
    "dead (bundler_unbind_all ob p) = (\<lambda>i. dead p i \<union> {t \<in> set (live p i). fst t = ob})"
proof -
  let ?m = "m_bundler_pool p" and ?q = "bundler_unbind_all ob p"
  have keys: "keys_ok ?m" using assms(1) by (simp add: bundler_inv_def)
  have mq: "map_of (m_bundler_pool ?q) i = map_option (mark_all ob) (map_of ?m i)" for i
    by (simp add: unbind_all_pool map_of_map_values)
  have dl: "m_delete_list ?q = m_delete_list p @ marks_of ob ?m"
    by (simp add: bundler_unbind_all_def marks_of_def)
  have nodes: "\<forall>i bs. map_of ?m i = Some bs \<longrightarrow> nodes_ok (next_node p) bs" using assms(1) by (simp add: bundler_inv_def)
  have old: "(i, n) \<in> set (m_delete_list p) \<longleftrightarrow> (\<exists>bs b. map_of ?m i = Some bs \<and> b \<in> set bs \<and> node_id b = n \<and> m_deleted b)" for i n
    using assms(1) by (simp add: bundler_inv_def)
  have clean: "\<not> m_deleted b" if "map_of ?m i = Some bs" "b \<in> set bs" "m_pObj b = ob" for i bs b
  proof
    assume "m_deleted b"
    with that have "target b \<in> dead p i" by (simp add: dead_Some)
    with assms(2) have "fst (target b) \<noteq> ob" by blast
    with that(3) show False by (simp add: target_def)
  qed
  have "(i, n) \<notin> set (m_delete_list p)" if "(i, n) \<in> set (marks_of ob ?m)" for i n
  proof
    assume "(i, n) \<in> set (m_delete_list p)"
    with that obtain bs b c where b: "map_of ?m i = Some bs" "b \<in> set bs" "node_id b = n" "m_deleted b"
      "c \<in> set bs" "node_id c = n" "m_pObj c = ob"
      unfolding old marks_of_set [OF keys] by auto
    then have "b = c" using nodes by (auto simp: nodes_ok_def distinct_map inj_on_def)
    with clean b show False by blast
  qed
  moreover have "distinct (marks_of ob ?m)"
    using nodes by (intro marks_of_distinct [OF keys]) (simp add: nodes_ok_def)
  ultimately have d: "distinct (m_delete_list ?q)" using assms(1) dl by (auto simp: bundler_inv_def)
  have "(i, n) \<in> set (m_delete_list ?q) \<longleftrightarrow>
      (\<exists>bs b. map_of (m_bundler_pool ?q) i = Some bs \<and> b \<in> set bs \<and> node_id b = n \<and> m_deleted b)" for i n
  proof (cases "map_of ?m i")
    case None
    then show ?thesis by (simp add: dl old marks_of_set [OF keys] mq)
  next
    case (Some bs)
    have "(\<exists>b \<in> set (mark_all ob bs). node_id b = n \<and> m_deleted b) \<longleftrightarrow>
        n \<in> fst ` {(node_id b, target b) |b. b \<in> set (mark_all ob bs) \<and> m_deleted b}" by force
    also have "\<dots> \<longleftrightarrow> (\<exists>b \<in> set bs. node_id b = n \<and> (m_deleted b \<or> m_pObj b = ob))"
      unfolding mark_all_deleted by force
    finally show ?thesis using Some by (auto simp: dl old marks_of_set [OF keys] mq)
  qed
  then show "bundler_inv ?q"
    using d nodes keys mq unfolding bundler_inv_def
    by (auto simp: unbind_all_pool)
  show "live ?q = (\<lambda>i. filter (\<lambda>t. fst t \<noteq> ob) (live p i))"
  proof
    fix i
    have "map target (filter (\<lambda>b. \<not> m_deleted b) (mark_all ob bs)) =
        filter (\<lambda>t. fst t \<noteq> ob) (map target (filter (\<lambda>b. \<not> m_deleted b) bs))" for bs
      by (induction bs) (auto simp: mark_all_def target_def)
    then show "live ?q i = filter (\<lambda>t. fst t \<noteq> ob) (live p i)"
      by (cases "map_of ?m i") (simp_all add: live_def mq)
  qed
  show "dead ?q = (\<lambda>i. dead p i \<union> {t \<in> set (live p i). fst t = ob})"
  proof
    fix i
    have "target ` {b \<in> set (mark_all ob bs). m_deleted b} =
        target ` {b \<in> set bs. m_deleted b} \<union> {t \<in> target ` {b \<in> set bs. \<not> m_deleted b}. fst t = ob}" for bs
    proof -
      have "target ` {b \<in> set (mark_all ob bs). m_deleted b} =
          snd ` {(node_id b, target b) |b. b \<in> set (mark_all ob bs) \<and> m_deleted b}" by force
      also have "\<dots> = target ` {b \<in> set bs. m_deleted b \<or> m_pObj b = ob}"
        unfolding mark_all_deleted by force
      also have "\<dots> = target ` {b \<in> set bs. m_deleted b} \<union> target ` {b \<in> set bs. \<not> m_deleted b \<and> m_pObj b = ob}"
        by blast
      also have "target ` {b \<in> set bs. \<not> m_deleted b \<and> m_pObj b = ob} = {t \<in> target ` {b \<in> set bs. \<not> m_deleted b}. fst t = ob}"
        by (auto simp: target_def)
      finally show ?thesis .
    qed
    then show "dead ?q i = dead p i \<union> {t \<in> set (live p i). fst t = ob}"
      by (cases "map_of ?m i") (simp_all add: live_def dead_def mq)
  qed
qed

section \<open>Properties\<close>

text \<open>The abstract pool: the live bindings of every id, and those removed since the last flush.\<close>

datatype 'i bundler_op =
    B_bind 'i nat nat string
  | B_unbind 'i nat nat
  | B_unbind_all nat
  | B_reflush

type_synonym 'i bindings = "('i \<Rightarrow> (nat \<times> nat) list) \<times> ('i \<Rightarrow> (nat \<times> nat) set)"

fun bundler_do :: "'i bundler_op \<Rightarrow> 'i bundler_pool \<Rightarrow> 'i bundler_pool outcome" where
  "bundler_do (B_bind i ob f s) p = bindE (bundler_bind i ob f s p) (\<lambda>(_, p). Inr p)"
| "bundler_do (B_unbind i ob f) p = Inr (snd (bundler_unbind i ob f p))"
| "bundler_do (B_unbind_all ob) p = Inr (bundler_unbind_all ob p)"
| "bundler_do B_reflush p = bundler_reflush p"

abbreviation bundler_run :: "'i bundler_op list \<Rightarrow> 'i bundler_pool \<Rightarrow> 'i bundler_pool outcome" where
  "bundler_run \<equiv> runE bundler_do"

fun abs_do :: "'i bundler_op \<Rightarrow> 'i bindings \<Rightarrow> 'i bindings" where
  "abs_do (B_bind i ob f s) (l, d) = (l(i := l i @ [(ob, f)]), d(i := d i - {(ob, f)}))"
| "abs_do (B_unbind i ob f) (l, d) =
     (if (ob, f) \<in> set (l i) then (l(i := filter (\<lambda>t. t \<noteq> (ob, f)) (l i)), d(i := insert (ob, f) (d i))) else (l, d))"
| "abs_do (B_unbind_all ob) (l, d) =
     ((\<lambda>i. filter (\<lambda>t. fst t \<noteq> ob) (l i)), (\<lambda>i. d i \<union> {t \<in> set (l i). fst t = ob}))"
| "abs_do B_reflush (l, d) = (l, (\<lambda>_. {}))"

text \<open>What a client may do: bind what is not bound, and not remove twice between two flushes.\<close>

fun abs_legal :: "'i bundler_op \<Rightarrow> 'i bindings \<Rightarrow> bool" where
  "abs_legal (B_bind i ob f s) (l, d) \<longleftrightarrow> (ob, f) \<notin> set (l i)"
| "abs_legal (B_unbind i ob f) (l, d) \<longleftrightarrow> (ob, f) \<notin> d i"
| "abs_legal (B_unbind_all ob) (l, d) \<longleftrightarrow> (\<forall>i. \<forall>t \<in> d i. fst t \<noteq> ob)"
| "abs_legal B_reflush (l, d) \<longleftrightarrow> True"

abbreviation abs_run_legal :: "'i bundler_op list \<Rightarrow> 'i bindings \<Rightarrow> bool" where
  "abs_run_legal \<equiv> legal_run abs_legal abs_do"

lemma bundler_do_refines:
  assumes "bundler_inv p" "abs_legal x (live p, dead p)"
  shows "\<exists>q. bundler_do x p = Inr q \<and> bundler_inv q \<and> (live q, dead q) = abs_do x (live p, dead p)"
proof (cases x)
  case (B_bind i ob f s)
  with bind_ok [OF assms(1), of ob f i s] assms(2) show ?thesis by auto
next
  case (B_unbind i ob f)
  with unbind_ok [OF assms(1), of ob f i] unbind_absent [OF assms(1), of ob f i] assms show ?thesis
    by (cases "(ob, f) \<in> set (live p i)") auto
next
  case (B_unbind_all ob)
  with unbind_all_ok [OF assms(1), of ob] assms(2) show ?thesis by auto
next
  case B_reflush
  with reflush_ok [OF assms(1)] show ?thesis by auto
qed

interpretation bindings: refined_system bundler_do bundler_inv "\<lambda>p. (live p, dead p)" abs_do abs_legal
  by unfold_locales (rule bundler_do_refines)

lemmas bundler_run_refines = bindings.run_refines

lemma new_empty: "live bundler_pool_new = (\<lambda>_. [])" "dead bundler_pool_new = (\<lambda>_. {})"
  by (simp_all add: fun_eq_iff live_def dead_def bundler_pool_new_def)

lemma erase_nodes_snoc: "erase_nodes (ds @ [d]) m = bindE (erase_nodes ds m) (erase_node d)"
proof (induction ds arbitrary: m)
  case Nil
  show ?case by (cases "erase_node d m") simp_all
next
  case (Cons a ds)
  then show ?case by (cases "erase_node a m") simp_all
qed

lemma erase_nodes_sub:
  "erase_nodes ds m = Inr m' \<Longrightarrow> map_of m i = Some bs \<Longrightarrow> \<exists>cs. map_of m' i = Some cs \<and> set cs \<subseteq> set bs"
proof (induction ds arbitrary: m bs)
  case (Cons d ds)
  then obtain m1 where m1: "erase_node d m = Inr m1" "erase_nodes ds m1 = Inr m'" by (auto simp: bindE_eq_Inr)
  then have "map_of m1 i = Some (if i = fst d then filter (\<lambda>b. node_id b \<noteq> snd d) bs else bs)"
    using Cons.prems(2) by (auto simp: erase_node_def split: if_splits option.splits)
  from Cons.IH [OF m1(2) this] show ?case by (auto split: if_splits)
qed simp

text \<open>
  C11: A bundler pool is a map from ids to ordered lists of distinct bindings: any sequence of
  operations that keeps the contract (bind what is not bound, remove nothing twice between two
  flushes) succeeds, and a call then reaches exactly the bound functions of the id, in the order
  they were bound, whether removed bindings have been flushed or not.
\<close>

theorem bundler_refines_bindings:
  assumes "abs_run_legal xs ((\<lambda>_. []), (\<lambda>_. {}))"
  shows "\<exists>p n. bundler_run xs bundler_pool_new = Inr p \<and>
    (\<forall>fuel \<ge> n. call_bundler fuel (\<lambda>_. []) i p = Inr (fst (fold abs_do xs ((\<lambda>_. []), (\<lambda>_. {}))) i, p))"
proof -
  have "abs_run_legal xs (live bundler_pool_new, dead bundler_pool_new)" using assms by (simp add: new_empty)
  from bundler_run_refines [OF bundler_inv_new this] obtain p where
    p: "bundler_run xs bundler_pool_new = Inr p" "bundler_inv p" "(live p, dead p) = fold abs_do xs ((\<lambda>_. []), (\<lambda>_. {}))"
    by (auto simp: new_empty)
  then have l: "fst (fold abs_do xs ((\<lambda>_. []), (\<lambda>_. {}))) i = live p i" by (metis fst_conv)
  from call_ok [OF p(2), of i] p(1) show ?thesis unfolding l by blast
qed

theorem bundler_refines_bindings_witness:
  "\<exists>p n. bundler_run [B_bind (1::nat) 7 1 ''a'', B_bind 1 8 1 ''b'', B_unbind 1 7 1, B_bind 1 7 1 ''c''] bundler_pool_new = Inr p \<and>
    (\<forall>fuel \<ge> n. call_bundler fuel (\<lambda>_. []) 1 p = Inr ([(8, 1), (7, 1)], p))"
  using bundler_refines_bindings [of "[B_bind (1::nat) 7 1 ''a'', B_bind 1 8 1 ''b'', B_unbind 1 7 1, B_bind 1 7 1 ''c'']" 1]
  by simp

text \<open>
  Removing a binding twice before the next flush puts its node on the delete list twice: both
  removals report success, and the flush then erases a list node that is gone.
\<close>

theorem bundler_double_unbind:
  assumes "bundler_inv p" "(ob, f) \<in> set (live p i)"
  shows "\<exists>q r. bundler_unbind i ob f p = (True, q) \<and> bundler_unbind i ob f q = (True, r) \<and>
    bundler_reflush r = Inl DoubleErase"
proof -
  obtain bs b where b: "map_of (m_bundler_pool p) i = Some bs" "b \<in> set bs" "\<not> m_deleted b" "target b = (ob, f)"
    using assms(2) by (auto simp: live_mem)
  have ok: "nodes_ok (next_node p) bs" using assms(1) b(1) by (simp add: bundler_inv_def)
  from find_target(1) [OF this] b have fd: "find (same_target ob f) bs = Some b" by blast
  let ?n = "node_id b"
  let ?q = "p\<lparr>m_bundler_pool := change i (mark ?n) (m_bundler_pool p), m_delete_list := m_delete_list p @ [(i, ?n)]\<rparr>"
  have q: "bundler_unbind i ob f p = (True, ?q)" using b(1) fd by (simp add: bundler_unbind_def)
  obtain q' where q': "bundler_unbind i ob f p = (True, q')" "bundler_inv q'" using unbind_ok [OF assms] by blast
  have qi: "bundler_inv ?q" using q q' by simp
  have mq: "map_of (m_bundler_pool ?q) i = Some (mark ?n bs)" using b(1) by simp
  let ?b = "b\<lparr>m_deleted := True\<rparr>"
  have "?b \<in> set (mark ?n bs)" using b(2) by (auto simp: mark_def)
  moreover have "target ?b = (ob, f)" using b(4) by (simp add: target_def)
  moreover have "nodes_ok (next_node ?q) (mark ?n bs)" using qi mq unfolding bundler_inv_def by blast
  ultimately have fd2: "find (same_target ob f) (mark ?n bs) = Some ?b" using find_target(1) by blast
  let ?r = "?q\<lparr>m_bundler_pool := change i (mark ?n) (m_bundler_pool ?q), m_delete_list := m_delete_list ?q @ [(i, ?n)]\<rparr>"
  have r: "bundler_unbind i ob f ?q = (True, ?r)" using unbind_eq [OF mq fd2] by simp
  have mm: "change i (mark ?n) (m_bundler_pool ?q) = m_bundler_pool ?q"
  proof -
    have "mark n (mark n cs) = mark n cs" for n cs by (auto simp: mark_def)
    then have "change i (mark n) (change i (mark n) m) = change i (mark n) m" for n m
      by (induction m) auto
    then show ?thesis by simp
  qed
  obtain m where m: "erase_nodes (m_delete_list ?q) (m_bundler_pool ?q) = Inr m"
      "bundler_inv (?q\<lparr>m_bundler_pool := m, m_delete_list := []\<rparr>)"
    using erase_nodes_ok [OF qi] by (auto simp: Let_def)
  obtain cs where cs: "map_of m i = Some cs" "set cs \<subseteq> set (mark ?n bs)"
    using erase_nodes_sub [OF m(1) mq] by blast
  have gone: "?n \<notin> node_id ` set cs"
  proof
    assume "?n \<in> node_id ` set cs"
    then obtain c where c: "c \<in> set cs" "node_id c = ?n" by auto
    with cs(2) have "m_deleted c" by (auto simp: mark_def)
    with c cs(1) m(2) show False by (auto simp: bundler_inv_def)
  qed
  have dr: "m_delete_list ?r = m_delete_list ?q @ [(i, ?n)]" by simp
  have pr: "m_bundler_pool ?r = m_bundler_pool ?q" using mm by simp
  have "erase_nodes (m_delete_list ?r) (m_bundler_pool ?r) =
      bindE (erase_nodes (m_delete_list ?q) (m_bundler_pool ?q)) (erase_node (i, ?n))"
    by (simp only: dr pr erase_nodes_snoc)
  also have "\<dots> = erase_node (i, ?n) m" by (simp only: m(1) bindE_Inr)
  also have "\<dots> = Inl DoubleErase" using cs(1) gone by (simp add: erase_node_def)
  finally have "erase_nodes (m_delete_list ?r) (m_bundler_pool ?r) = Inl DoubleErase" .
  then have "bundler_reflush ?r = Inl DoubleErase" by (simp add: bundler_reflush_def)
  with q r show ?thesis by blast
qed

theorem bundler_double_unbind_witness:
  "\<exists>p q r. bundler_run [B_bind (1::nat) 7 1 ''a''] bundler_pool_new = Inr p \<and>
     bundler_unbind 1 7 1 p = (True, q) \<and> bundler_unbind 1 7 1 q = (True, r) \<and> bundler_reflush r = Inl DoubleErase"
proof -
  obtain p where p: "bundler_run [B_bind (1::nat) 7 1 ''a''] bundler_pool_new = Inr p" "bundler_inv p" "live p 1 = [(7, 1)]"
    using bundler_run_refines [OF bundler_inv_new, of "[B_bind (1::nat) 7 1 ''a'']"] by (auto simp: new_empty)
  from bundler_double_unbind [OF p(2), of 7 1 1] p show ?thesis by auto
qed

end
