(* ===== verification/Logger.thy ===== *)
theory Logger
  imports Pool Queue Stream Threads
begin

text \<open>
  src/kernel/logger/Logger.h and Logger.cpp: the log file and the thread that writes it. The main
  thread takes a stream from a pool, copies the line into it and queues its address; the logger
  thread writes the stream to the file and gives it back. The file system is the list of chunks
  appended so far, in order, each with the name of its file (\<^verbatim>\<open>fopen\<close> uses the mode \<open>a+\<close>, which
  only ever appends). What the C library answers, and what the clock reads, is the environment of
  one round of the thread.
\<close>

section \<open>The log file\<close>

type_synonym disk = "(string \<times> byte list) list"

text \<open>\<^verbatim>\<open>FILE *\<close> is \<open>None\<close> for \<^verbatim>\<open>NULL\<close>, or the name of the open file.\<close>

record file_info =
  log_file :: "string option"
  m_lOpenTick :: s64
  m_lFileSize :: s64

text \<open>\<^verbatim>\<open>FILEOpen(name)\<close>: \<open>opens\<close> is the answer of \<^verbatim>\<open>fopen\<close>, \<open>now\<close> the clock.\<close>

definition FILEOpen :: "bool \<Rightarrow> s64 \<Rightarrow> string \<Rightarrow> file_info \<Rightarrow> (bool \<times> file_info) outcome" where
  "FILEOpen opens now name f =
     (if log_file f \<noteq> None then bindE (TASSERT False ''create file error'') (\<lambda>_. Inr (False, f))
      else if \<not> opens then Inr (False, f)
      else Inr (True, f\<lparr>log_file := Some name, m_lFileSize := 0, m_lOpenTick := now\<rparr>))"

definition FILEClose :: "bool \<Rightarrow> file_info \<Rightarrow> (bool \<times> file_info) outcome" where
  "FILEClose closes f =
     (if log_file f = None then Inr (False, f)
      else if closes then Inr (True, \<lparr>log_file = None, m_lOpenTick = 0, m_lFileSize = 0\<rparr>)
      else bindE (TASSERT False ''close file error'') (\<lambda>_. Inr (False, f)))"

text \<open>
  \<^verbatim>\<open>FILEWrite(context, size)\<close>: \<^verbatim>\<open>fwrite\<close> reads \<open>size\<close> bytes at \<open>context\<close> and reports how many the
  file took (\<open>accepts\<close>).
\<close>

definition FILEWrite ::
  "(s32 \<Rightarrow> s32) \<Rightarrow> byte list \<Rightarrow> s32 \<Rightarrow> file_info \<Rightarrow> disk \<Rightarrow> (bool \<times> file_info \<times> disk) outcome" where
  "FILEWrite accepts context size0 f d =
     (case log_file f of
        None \<Rightarrow> Inl NullPointer
      | Some name \<Rightarrow>
          if to_size_t size0 > length context then Inl OutOfBounds
          else
            let nCount = accepts size0; d = d @ [(name, take (nat nCount) context)] in
            bindE (chk_s64 (m_lFileSize f + nCount)) (\<lambda>n.
              let f = f\<lparr>m_lFileSize := n\<rparr> in
              if nCount \<noteq> size0 then bindE (TASSERT False ''write file error'') (\<lambda>_. Inr (False, f, d))
              else Inr (True, f, d)))"

section \<open>Logger\<close>

record logger =
  m_lMaxTick :: s64
  m_lMaxSize :: s64
  m_oFileInfo :: file_info
  m_oPoolStream :: "tstream tpool"
  m_oQueueStream :: "uaddr tqueue"
  m_nStatus :: thread_status
  log_disk :: disk

text \<open>The size of a pool unit that holds a stream, and the block size of \<^verbatim>\<open>LOGStream\<close>.\<close>

abbreviation (input) log_sz :: nat where "log_sz \<equiv> 56"
abbreviation (input) LOG_BLOCK :: s32 where "LOG_BLOCK \<equiv> 1024"

text \<open>
  \<^verbatim>\<open>new Logger\<close> (256 streams; the cells of the ring as the memory was) and \<^verbatim>\<open>Redry\<close>. The members
  \<^verbatim>\<open>Redry\<close> sets are zero before it.
\<close>

definition Logger_new :: "uaddr list \<Rightarrow> logger outcome" where
  "Logger_new junk =
     bindE (TPool_new log_sz (TStream_new LOG_BLOCK) 256) (\<lambda>pool.
       Inr \<lparr>m_lMaxTick = 0, m_lMaxSize = 0,
            m_oFileInfo = \<lparr>log_file = None, m_lOpenTick = 0, m_lFileSize = 0\<rparr>,
            m_oPoolStream = pool, m_oQueueStream = TQueue_new junk, m_nStatus = THREAD_STOPED,
            log_disk = []\<rparr>)"

definition Logger_Redry :: "logger \<Rightarrow> bool \<times> logger" where
  "Logger_Redry L =
     (True, L\<lparr>m_oFileInfo := \<lparr>log_file = None, m_lOpenTick = 0, m_lFileSize = 0\<rparr>,
              m_nStatus := THREAD_STOPED,
              m_lMaxTick := 60 * 60 * 1000,
              m_lMaxSize := 1024 * 1024 * 256\<rparr>)"

text \<open>\<^verbatim>\<open>getInstance\<close>: the static pointer is \<open>None\<close> on the first call.\<close>

definition Logger_getInstance :: "uaddr list \<Rightarrow> logger option \<Rightarrow> logger option outcome" where
  "Logger_getInstance junk p =
     (case p of
        Some L \<Rightarrow> Inr (Some L)
      | None \<Rightarrow>
          bindE (Logger_new junk) (\<lambda>L.
            let (ready, L) = Logger_Redry L in
            if \<not> ready then bindE (TASSERT False ''Logger cant ready'') (\<lambda>_. Inr None)
            else Inr (Some L)))"

text \<open>\<^verbatim>\<open>Initialize\<close> starts one thread and ignores whether it started.\<close>

definition Logger_Initialize :: "(nat \<Rightarrow> s32 \<times> u64) \<Rightarrow> cthread \<Rightarrow> bool \<times> cthread" where
  "Logger_Initialize pthread_create th =
     (let (_, _, th) = CThread_Start pthread_create 1 th in (True, th))"

text \<open>\<^verbatim>\<open>Destory\<close>: \<^verbatim>\<open>delete this\<close> runs the destructors of the members, the pool's among them.\<close>

definition Logger_Destory :: "logger \<Rightarrow> bool outcome" where
  "Logger_Destory L = bindE (TPool_delete (m_oPoolStream L)) (\<lambda>_. Inr True)"

definition Logger_Log :: "byte list option \<Rightarrow> logger \<Rightarrow> logger option outcome" where
  "Logger_Log log L =
     bindE (TASSERT (log \<noteq> None) ''log a long point'') (\<lambda>_.
       case log of
         None \<Rightarrow> Inr (Some L)
       | Some text \<Rightarrow>
           bindE (TPool_Create log_sz (TStream_new LOG_BLOCK) 64 (m_oPoolStream L)) (\<lambda>(r, pool).
             case r of
               None \<Rightarrow> Inl NullPointer
             | Some a \<Rightarrow>
                 bindE (TStream_in LOG_BLOCK text (to_s32 (int (length text))) (get_unit pool a)) (\<lambda>s.
                   case TQueue_Add a (m_oQueueStream L) of
                     None \<Rightarrow> Inr None
                   | Some q \<Rightarrow> Inr (Some (L\<lparr>m_oPoolStream := put_unit a s pool, m_oQueueStream := q\<rparr>)))))"

section \<open>The logger thread\<close>

text \<open>
  What one round of the thread meets: the clock at its start, the application path and the
  formatted time, the answers of \<^verbatim>\<open>fopen\<close>, \<^verbatim>\<open>fclose\<close> and \<^verbatim>\<open>fwrite\<close>.
\<close>

record log_env =
  env_tick :: s64
  env_app :: string
  env_time :: string
  env_fopen :: bool
  env_open_tick :: s64
  env_fclose :: bool
  env_refopen :: bool
  env_reopen_tick :: s64
  env_fwrite :: "s32 \<Rightarrow> s32"

text \<open>\<^verbatim>\<open>SafeSprintf(szName, 256, "%s/%s%s.log", ...)\<close> keeps 255 characters.\<close>

definition log_name :: "log_env \<Rightarrow> string" where
  "log_name e = take 255 (env_app e @ ''/'' @ ''logic_log_'' @ env_time e @ ''.log'')"

text \<open>The body of the loop for one stream that was read from the queue.\<close>

definition write_log :: "log_env \<Rightarrow> uaddr \<Rightarrow> logger \<Rightarrow> logger outcome" where
  "write_log e pLog L =
     bindE (if log_file (m_oFileInfo L) = None
            then bindE (FILEOpen (env_fopen e) (env_open_tick e) (log_name e) (m_oFileInfo L)) (\<lambda>(_, f). Inr f)
            else Inr (m_oFileInfo L)) (\<lambda>f.
     bindE (if valid_unit (m_oPoolStream L) pLog then Inr (get_unit (m_oPoolStream L) pLog) else Inl WildPointer) (\<lambda>s.
     bindE (chk_s64 (env_tick e - m_lOpenTick f)) (\<lambda>age.
     bindE (if age > m_lMaxTick L \<or> m_lFileSize f > m_lMaxSize L then
              bindE (FILEClose (env_fclose e) f) (\<lambda>(closed, f).
                if \<not> closed then Inr (f, log_disk L)
                else bindE (FILEOpen (env_refopen e) (env_reopen_tick e) (log_name e) f) (\<lambda>(opened, f).
                  if \<not> opened then Inr (f, log_disk L)
                  else bindE (FILEWrite (env_fwrite e) (TStream_buff s) (TStream_size s) f (log_disk L))
                    (\<lambda>(_, f, d). Inr (f, d))))
            else bindE (FILEWrite (env_fwrite e) (TStream_buff s) (TStream_size s) f (log_disk L))
              (\<lambda>(_, f, d). Inr (f, d))) (\<lambda>(f, d).
     bindE (TPool_Recover log_sz pLog (m_oPoolStream L)) (\<lambda>pool.
       Inr (L\<lparr>m_oFileInfo := f, log_disk := d, m_oPoolStream := pool\<rparr>))))))"

text \<open>One round of \<^verbatim>\<open>Run\<close>; the answer says whether the thread goes on.\<close>

definition Logger_round :: "log_env \<Rightarrow> logger \<Rightarrow> (bool \<times> logger) outcome" where
  "Logger_round e L =
     (case TQueue_Read (m_oQueueStream L) of
        Some (pLog, q) \<Rightarrow> bindE (write_log e pLog (L\<lparr>m_oQueueStream := q\<rparr>)) (\<lambda>L. Inr (True, L))
      | None \<Rightarrow>
          if TQueue_IsEmpty (m_oQueueStream L) \<and> m_nStatus L = THREAD_STOPPING
          then Inr (False, L\<lparr>m_nStatus := THREAD_STOPED\<rparr>)
          else Inr (True, L))"

text \<open>The rounds the thread makes, one per environment, until it returns.\<close>

fun Logger_rounds :: "log_env list \<Rightarrow> logger \<Rightarrow> (bool \<times> logger) outcome" where
  "Logger_rounds [] L = Inr (True, L)"
| "Logger_rounds (e # es) L =
     bindE (Logger_round e L) (\<lambda>(go, L). if go then Logger_rounds es L else Inr (False, L))"

definition Logger_Run :: "log_env list \<Rightarrow> logger \<Rightarrow> (bool \<times> logger) outcome" where
  "Logger_Run es L = Logger_rounds es (L\<lparr>m_nStatus := THREAD_WORKING\<rparr>)"

text \<open>
  \<^verbatim>\<open>Terminate\<close> asks the thread to stop and waits for it; \<open>es\<close> are the rounds the thread makes
  meanwhile. \<open>None\<close>: it still waits after them.
\<close>

definition Logger_Terminate :: "log_env list \<Rightarrow> logger \<Rightarrow> (bool \<times> logger) option outcome" where
  "Logger_Terminate es L =
     (if m_nStatus L = THREAD_WORKING then
        bindE (Logger_rounds es (L\<lparr>m_nStatus := THREAD_STOPPING\<rparr>)) (\<lambda>(_, L).
          if m_nStatus L \<noteq> THREAD_STOPED then Inr None else Inr (Some (True, L)))
      else Inr (Some (False, L)))"

end
