(* ===== verification/Logger_Spec.thy ===== *)
theory Logger_Spec
  imports Logger
begin

text \<open>
  What the logger writes. The lemmas follow one line from \<^verbatim>\<open>Log\<close> through the queue to the file;
  the properties are about whole runs: which bytes reach the file for which line, and that a
  thread asked to stop writes everything that was queued.
\<close>

section \<open>Invariant\<close>

definition log_stream :: "s32 \<Rightarrow> tstream \<Rightarrow> bool" where
  "log_stream B s \<longleftrightarrow> stream_inv LOG_BLOCK s \<and> m_read s = 0 \<and> m_max s \<le> B"

text \<open>The part of the state that writing a line uses, and the queue on top of it.\<close>

definition writer_inv :: "s32 \<Rightarrow> logger \<Rightarrow> bool" where
  "writer_inv B L \<longleftrightarrow>
     LOG_BLOCK \<le> B \<and> B + LOG_BLOCK < 2 ^ 31 \<and>
     pool_inv log_sz (m_oPoolStream L) \<and>
     idle_sat (log_stream B) (m_oPoolStream L) \<and>
     (\<forall>a \<in> in_use (m_oPoolStream L). log_stream B (get_unit (m_oPoolStream L) a)) \<and>
     0 \<le> m_lOpenTick (m_oFileInfo L) \<and> m_lOpenTick (m_oFileInfo L) \<le> 2 ^ 62 \<and>
     0 \<le> m_lFileSize (m_oFileInfo L) \<and> m_lFileSize (m_oFileInfo L) \<le> 2 ^ 28 + 2 ^ 31 \<and>
     m_lMaxSize L = 2 ^ 28"

definition logger_inv :: "s32 \<Rightarrow> logger \<Rightarrow> bool" where
  "logger_inv B L \<longleftrightarrow>
     writer_inv B L \<and>
     queue_inv (m_oQueueStream L) \<and>
     distinct (queued (m_oQueueStream L)) \<and>
     set (queued (m_oQueueStream L)) = in_use (m_oPoolStream L)"

lemmas logger_inv_defs = logger_inv_def writer_inv_def

text \<open>An environment in which the file system works and the clock is not before 1970.\<close>

definition healthy :: "log_env \<Rightarrow> bool" where
  "healthy e \<longleftrightarrow> env_fopen e \<and> env_fclose e \<and> env_refopen e \<and> (\<forall>n. env_fwrite e n = n) \<and>
     0 \<le> env_tick e \<and> env_tick e \<le> 2 ^ 62 \<and> 0 \<le> env_open_tick e \<and> env_open_tick e \<le> 2 ^ 62 \<and>
     0 \<le> env_reopen_tick e \<and> env_reopen_tick e \<le> 2 ^ 62"

text \<open>The chunks written so far, and the lines waiting in the queue.\<close>

definition written :: "logger \<Rightarrow> byte list list" where
  "written L = map snd (log_disk L)"

abbreviation stream_of :: "logger \<Rightarrow> uaddr \<Rightarrow> byte list" where
  "stream_of L a \<equiv> pending (get_unit (m_oPoolStream L) a)"

abbreviation waiting :: "logger \<Rightarrow> uaddr list" where
  "waiting L \<equiv> queued (m_oQueueStream L)"

lemma log_stream_new: "LOG_BLOCK \<le> B \<Longrightarrow> log_stream B (TStream_new LOG_BLOCK)"
  by (simp add: log_stream_def stream_inv_new in_s32_def) (simp add: TStream_new_def)

lemma log_stream_size: "log_stream B s \<Longrightarrow> TStream_size s = int (length (pending s)) \<and> TStream_size s \<le> B"
  using length_pending [of LOG_BLOCK s] by (auto simp: log_stream_def stream_inv_def TStream_size_def)

section \<open>One write\<close>

lemma FILEWrite_ok:
  assumes "log_stream B s" "B < 2 ^ 31" "log_file f = Some name" "\<forall>n. w n = n"
    and "0 \<le> m_lFileSize f" "m_lFileSize f \<le> 2 ^ 28"
  shows "\<exists>g. FILEWrite w (TStream_buff s) (TStream_size s) f d = Inr (True, g, d @ [(name, pending s)]) \<and>
    log_file g = Some name \<and> m_lOpenTick g = m_lOpenTick f \<and>
    0 \<le> m_lFileSize g \<and> m_lFileSize g \<le> 2 ^ 28 + 2 ^ 31"
proof -
  note n = log_stream_size [OF assms(1)]
  have "to_size_t (TStream_size s) = length (pending s)" using n assms(2) by simp
  moreover have "length (pending s) \<le> length (TStream_buff s)" by (simp add: pending_def)
  moreover have "take (length (pending s)) (TStream_buff s) = pending s"
    using take_buff(1) [of "length (pending s)" s] by simp
  moreover have "in_s64 (m_lFileSize f + TStream_size s)" using n assms(2,5,6) by (simp add: in_s64_def)
  ultimately show ?thesis using n assms by (simp add: FILEWrite_def Let_def)
qed

lemma write_log_ok:
  assumes inv: "writer_inv B L" "healthy e"
    and a: "a \<in> in_use (m_oPoolStream L)"
  shows "\<exists>f d pool. write_log e a L = Inr (L\<lparr>m_oFileInfo := f, log_disk := d, m_oPoolStream := pool\<rparr>) \<and>
    map snd d = written L @ [stream_of L a] \<and>
    TPool_Recover log_sz a (m_oPoolStream L) = Inr pool \<and>
    0 \<le> m_lOpenTick f \<and> m_lOpenTick f \<le> 2 ^ 62 \<and> 0 \<le> m_lFileSize f \<and> m_lFileSize f \<le> 2 ^ 28 + 2 ^ 31"
proof -
  let ?s = "get_unit (m_oPoolStream L) a"
  have s: "log_stream B ?s" "B < 2 ^ 31" "valid_unit (m_oPoolStream L) a"
    using inv a by (auto simp: writer_inv_def in_use_valid)
  obtain f where f: "(if log_file (m_oFileInfo L) = None
            then bindE (FILEOpen (env_fopen e) (env_open_tick e) (log_name e) (m_oFileInfo L)) (\<lambda>(_, f). Inr f)
            else Inr (m_oFileInfo L)) = Inr f"
      "log_file f \<noteq> None" "0 \<le> m_lOpenTick f" "m_lOpenTick f \<le> 2 ^ 62" "0 \<le> m_lFileSize f"
      "m_lFileSize f \<le> 2 ^ 28 + 2 ^ 31"
    using inv by (cases "log_file (m_oFileInfo L)") (auto simp: FILEOpen_def writer_inv_def healthy_def)
  have age: "in_s64 (env_tick e - m_lOpenTick f)" using inv(2) f by (simp add: healthy_def in_s64_def)
  have w: "\<forall>n. env_fwrite e n = n" using inv(2) by (simp add: healthy_def)
  obtain pool where pool: "TPool_Recover log_sz a (m_oPoolStream L) = Inr pool"
    using block_pool.recover_law [of log_sz "m_oPoolStream L" a] inv(1) a by (auto simp: writer_inv_def)
  show ?thesis
  proof (cases "env_tick e - m_lOpenTick f > m_lMaxTick L \<or> m_lFileSize f > m_lMaxSize L")
    case True
    let ?f = "\<lparr>log_file = Some (log_name e), m_lOpenTick = env_reopen_tick e, m_lFileSize = 0\<rparr>"
    obtain g where g: "FILEWrite (env_fwrite e) (TStream_buff ?s) (TStream_size ?s) ?f (log_disk L) =
        Inr (True, g, log_disk L @ [(log_name e, pending ?s)])" "m_lOpenTick g = m_lOpenTick ?f"
        "0 \<le> m_lFileSize g" "m_lFileSize g \<le> 2 ^ 28 + 2 ^ 31"
      using FILEWrite_ok [OF s(1,2) _ w, of ?f] by auto
    have c: "FILEClose (env_fclose e) f = Inr (True, \<lparr>log_file = None, m_lOpenTick = 0, m_lFileSize = 0\<rparr>)"
      using f(2) inv(2) by (simp add: FILEClose_def healthy_def)
    have o: "FILEOpen (env_refopen e) (env_reopen_tick e) (log_name e)
        \<lparr>log_file = None, m_lOpenTick = 0, m_lFileSize = 0\<rparr> = Inr (True, ?f)"
      using inv(2) by (simp add: FILEOpen_def healthy_def)
    have "0 \<le> m_lOpenTick g" "m_lOpenTick g \<le> 2 ^ 62" using g(2) inv(2) by (simp_all add: healthy_def)
    moreover have "write_log e a L = Inr (L\<lparr>m_oFileInfo := g,
        log_disk := log_disk L @ [(log_name e, pending ?s)], m_oPoolStream := pool\<rparr>)"
      using True f(1) s(3) age c o g(1) pool by (simp add: write_log_def)
    ultimately show ?thesis using g(3,4) pool
      by (intro exI [of _ g] exI [of _ "log_disk L @ [(log_name e, pending ?s)]"] exI [of _ pool])
        (simp add: written_def)
  next
    case False
    then have "m_lFileSize f \<le> 2 ^ 28" using inv(1) by (simp add: writer_inv_def)
    obtain name where name: "log_file f = Some name" using f(2) by auto
    obtain g where g: "FILEWrite (env_fwrite e) (TStream_buff ?s) (TStream_size ?s) f (log_disk L) =
        Inr (True, g, log_disk L @ [(name, pending ?s)])" "m_lOpenTick g = m_lOpenTick f"
        "0 \<le> m_lFileSize g" "m_lFileSize g \<le> 2 ^ 28 + 2 ^ 31"
      using FILEWrite_ok [OF s(1,2) name w f(5) \<open>m_lFileSize f \<le> 2 ^ 28\<close>] by auto
    have "write_log e a L = Inr (L\<lparr>m_oFileInfo := g,
        log_disk := log_disk L @ [(name, pending ?s)], m_oPoolStream := pool\<rparr>)"
      using False f(1) s(3) age g(1) pool by (simp add: write_log_def)
    then show ?thesis using f(3,4) g(2-4) pool
      by (intro exI [of _ g] exI [of _ "log_disk L @ [(name, pending ?s)]"] exI [of _ pool])
        (simp add: written_def)
  qed
qed

text \<open>A round that finds a line writes it and gives its stream back, with its content.\<close>

lemma round_writes:
  assumes inv: "logger_inv B L" "healthy e" and a: "waiting L = a # rest"
  shows "\<exists>L'. Logger_round e L = Inr (True, L') \<and> logger_inv B L' \<and> waiting L' = rest \<and>
    written L' = written L @ [stream_of L a] \<and> (\<forall>b. stream_of L' b = stream_of L b) \<and>
    m_list (m_oPoolStream L') = m_list (m_oPoolStream L) @ [a] \<and>
    capacity (m_oQueueStream L') = capacity (m_oQueueStream L) \<and> m_nStatus L' = m_nStatus L"
proof -
  have q: "queue_inv (m_oQueueStream L)" using inv(1) by (simp add: logger_inv_defs)
  from ring_queue.get_head [OF this a] obtain q' where q': "TQueue_Read (m_oQueueStream L) = Some (a, q')"
      "queue_inv q'" "queued q' = rest" "capacity q' = capacity (m_oQueueStream L)" by blast
  have au: "a \<in> in_use (m_oPoolStream L)" "a \<notin> set rest" "distinct rest" "in_use (m_oPoolStream L) = insert a (set rest)"
    using inv(1) a by (auto simp: logger_inv_defs)
  have pi: "pool_inv log_sz (m_oPoolStream L)" using inv(1) by (simp add: logger_inv_defs)
  let ?L = "L\<lparr>m_oQueueStream := q'\<rparr>"
  have wi: "writer_inv B ?L" "a \<in> in_use (m_oPoolStream ?L)" using inv(1) au(1) by (simp_all add: logger_inv_defs)
  obtain f d pool where w: "write_log e a ?L = Inr (?L\<lparr>m_oFileInfo := f, log_disk := d, m_oPoolStream := pool\<rparr>)"
      "map snd d = written L @ [stream_of L a]" "TPool_Recover log_sz a (m_oPoolStream L) = Inr pool"
      "0 \<le> m_lOpenTick f" "m_lOpenTick f \<le> 2 ^ 62" "0 \<le> m_lFileSize f" "m_lFileSize f \<le> 2 ^ 28 + 2 ^ 31"
    using write_log_ok [OF wi(1) inv(2) wi(2)] by (auto simp: written_def)
  from TPool_Recover_ok [OF pi au(1)] w(3) have p: "pool_inv log_sz pool"
      "in_use pool = in_use (m_oPoolStream L) - {a}" "m_list pool = m_list (m_oPoolStream L) @ [a]"
      "\<And>b. get_unit pool b = get_unit (m_oPoolStream L) b" by auto
  have idle: "idle_sat (log_stream B) pool"
    using TPool_Recover_idle [OF pi au(1) _ _ w(3)] inv(1) au(1) by (auto simp: logger_inv_defs)
  let ?L' = "?L\<lparr>m_oFileInfo := f, log_disk := d, m_oPoolStream := pool\<rparr>"
  have "logger_inv B ?L'"
    using inv(1) p idle q'(2,3) au w(4-7) by (auto simp: logger_inv_defs)
  moreover have "Logger_round e L = Inr (True, ?L')" by (simp add: Logger_round_def q'(1) w(1))
  ultimately show ?thesis using q' p w(2) by (auto simp: written_def)
qed

text \<open>\<^verbatim>\<open>Log\<close> appends the line to whatever the stream it takes still holds.\<close>

lemma log_queues:
  assumes inv: "logger_inv B L" and room: "length (waiting L) < capacity (m_oQueueStream L)"
    and a: "m_list (m_oPoolStream L) = a # rest"
    and n: "int (length (stream_of L a @ line)) + LOG_BLOCK \<le> B"
  shows "\<exists>L'. Logger_Log (Some line) L = Inr (Some L') \<and> logger_inv B L' \<and> waiting L' = waiting L @ [a] \<and>
    written L' = written L \<and> stream_of L' a = stream_of L a @ line \<and>
    (\<forall>b. valid_unit (m_oPoolStream L) b \<longrightarrow> b \<noteq> a \<longrightarrow> stream_of L' b = stream_of L b) \<and>
    m_list (m_oPoolStream L') = rest \<and>
    capacity (m_oQueueStream L') = capacity (m_oQueueStream L) \<and> m_nStatus L' = m_nStatus L \<and>
    (\<forall>b. valid_unit (m_oPoolStream L) b \<longrightarrow> valid_unit (m_oPoolStream L') b)"
proof -
  let ?P = "m_oPoolStream L"
  have pi: "pool_inv log_sz ?P" "idle_sat (log_stream B) ?P" and B: "LOG_BLOCK \<le> B" "B + LOG_BLOCK < 2 ^ 31"
    using inv by (simp_all add: logger_inv_defs)
  obtain pool where pool: "TPool_Create log_sz (TStream_new LOG_BLOCK) 64 ?P = Inr (Some a, pool)" "pool_inv log_sz pool"
      "a \<notin> in_use ?P" "in_use pool = insert a (in_use ?P)" "\<And>b. valid_unit ?P b \<Longrightarrow> get_unit pool b = get_unit ?P b"
      "m_list pool = rest"
    using TPool_Create_ok [OF pi(1), of 64 "TStream_new LOG_BLOCK"] a by auto
  have va: "valid_unit ?P a" using pool_inv_free [OF pi(1), of a] a by simp
  have vb: "valid_unit pool b" if "valid_unit ?P b" for b
    using pool(1) that a by (auto simp: TPool_Create_def outcome_simps)
  have idle: "idle_sat (log_stream B) pool" "log_stream B (get_unit pool a)"
    using TPool_Create_idle [OF pi(1) _ pi(2) log_stream_new [OF B(1)] pool(1)] by simp_all
  have ga: "get_unit pool a = get_unit ?P a" using pool(5) va by simp
  let ?n = "int (length line)"
  have small: "to_s32 ?n = ?n" using n B by (simp add: in_s32_def)
  have size: "TStream_size (get_unit pool a) + ?n + LOG_BLOCK \<le> B"
    using log_stream_size [OF idle(2)] n ga by simp
  obtain s where s: "TStream_in LOG_BLOCK line ?n (get_unit pool a) = Inr s" "stream_inv LOG_BLOCK s" "m_read s = 0"
      "m_max s \<le> B" "pending s = pending (get_unit pool a) @ line"
    using TStream_in_fresh [of LOG_BLOCK "get_unit pool a" ?n line B] idle(2) size B by (auto simp: log_stream_def)
  have q: "queue_inv (m_oQueueStream L)" using inv by (simp add: logger_inv_defs)
  from ring_queue.put_room [OF this room, of a] obtain q' where q': "TQueue_Add a (m_oQueueStream L) = Some q'"
      "queue_inv q'" "queued q' = waiting L @ [a]" "capacity q' = capacity (m_oQueueStream L)" by blast
  have vpa: "valid_unit pool a" using vb va by simp
  have aip: "a \<in> in_use pool" using pool(4) by simp
  note pu = put_unit_ok [OF pool(2) vpa, of s]
  let ?L' = "L\<lparr>m_oPoolStream := put_unit a s pool, m_oQueueStream := q'\<rparr>"
  have ne: "get_unit (put_unit a s pool) b = (if b = a then s else get_unit pool b)" for b
    using pu(3) .
  have ok: "log_stream B s" using s by (simp add: log_stream_def)
  have keep: "log_stream B (get_unit pool b)" if "b \<in> in_use ?P" for b
    using inv that pool(5) in_use_valid [of b ?P] by (simp add: logger_inv_defs)
  have i2: "idle_sat (log_stream B) (put_unit a s pool)" using put_unit_idle [OF pool(2) aip] idle(1) by simp
  have "logger_inv B ?L'"
    using inv pu(1,2) i2 ne ok keep q'(2,3) pool(3,4) unfolding logger_inv_defs by auto
  moreover have "Logger_Log (Some line) L = Inr (Some ?L')"
    by (simp add: Logger_Log_def pool(1) small s(1) q'(1))
  ultimately show ?thesis using q' s(5) ga ne pool(5,6) pu(4) vb by (auto simp: written_def)
qed

section \<open>A new logger\<close>

definition logger_ring :: "uaddr list \<Rightarrow> bool" where
  "logger_ring junk \<longleftrightarrow> length junk = 409600"

definition log_units :: "uaddr list" where
  "log_units = map (UAddr 0) [0..<256]"

lemma log_units_nth: "length log_units = 256" "i < 256 \<Longrightarrow> log_units ! i = UAddr 0 i"
    "UAddr 0 u \<in> set log_units \<longleftrightarrow> u < 256" "distinct log_units"
  unfolding log_units_def by (auto simp: distinct_map inj_on_def simp del: upt.simps)

lemma getInstance_ok:
  assumes "LOG_BLOCK \<le> B" "B + LOG_BLOCK < 2 ^ 31" "logger_ring junk"
  shows "\<exists>L. Logger_getInstance junk None = Inr (Some L) \<and> logger_inv B L \<and> waiting L = [] \<and> written L = [] \<and>
    m_list (m_oPoolStream L) = log_units \<and> capacity (m_oQueueStream L) = 409600 \<and>
    m_nStatus L = THREAD_STOPED \<and> (\<forall>u < 256. stream_of L (UAddr 0 u) = [])"
proof -
  obtain pool where pool: "TPool_new log_sz (TStream_new LOG_BLOCK) 256 = Inr pool" "pool_inv log_sz pool"
      "in_use pool = {}" "m_list pool = log_units"
    using TPool_new_inv [of log_sz "TStream_new LOG_BLOCK" 256, folded log_units_def] by blast
  have idle: "idle_sat (log_stream B) pool"
    by (rule TPool_new_idle [where P = "log_stream B", OF log_stream_new [OF assms(1)] pool(1)])
  have none: "idle_sat (\<lambda>s. pending s = []) pool"
    by (rule TPool_new_idle [where P = "\<lambda>s. pending s = []", OF pending_new pool(1)])
  have len: "length junk = 409600" using assms(3) by (simp add: logger_ring_def)
  then have "junk \<noteq> []" "length junk < 2 ^ 32" by auto
  note q = TQueue_new_ok [OF this]
  have empty: "stream_of_unit = []" if "u < 256" "stream_of_unit = pending (get_unit pool (UAddr 0 u))" for u stream_of_unit
  proof -
    have "UAddr 0 u \<in> set (m_list pool)" using pool(4) that(1) log_units_nth(3) by simp
    then have "valid_unit pool (UAddr 0 u)" using pool_inv_free [OF pool(2)] by blast
    with none pool(3) that(2) show ?thesis by (simp add: idle_sat_def)
  qed
  let ?L = "\<lparr>m_lMaxTick = 60 * 60 * 1000, m_lMaxSize = 1024 * 1024 * 256,
      m_oFileInfo = \<lparr>log_file = None, m_lOpenTick = 0, m_lFileSize = 0\<rparr>, m_oPoolStream = pool,
      m_oQueueStream = TQueue_new junk, m_nStatus = THREAD_STOPED, log_disk = []\<rparr>"
  have run: "Logger_getInstance junk None = Inr (Some ?L)"
    by (simp add: Logger_getInstance_def Logger_new_def Logger_Redry_def pool(1))
  have inv: "logger_inv B ?L" using pool(2,3) idle q assms(1,2) by (simp add: logger_inv_defs)
  have rest: "waiting ?L = []" "written ?L = []" "m_list (m_oPoolStream ?L) = log_units"
      "capacity (m_oQueueStream ?L) = 409600" "m_nStatus ?L = THREAD_STOPED"
    using q len pool(4) by (simp_all add: written_def)
  have "\<forall>u < 256. stream_of ?L (UAddr 0 u) = []" using empty by simp
  with run inv rest show ?thesis by blast
qed

section \<open>Stopping\<close>

text \<open>Rounds that find lines write all of them, in order.\<close>

lemma rounds_drain:
  assumes "logger_inv B L" "\<forall>e \<in> set es. healthy e" "length (waiting L) = length es"
  shows "\<exists>L'. Logger_rounds es L = Inr (True, L') \<and> logger_inv B L' \<and> waiting L' = [] \<and>
    written L' = written L @ map (stream_of L) (waiting L) \<and> m_nStatus L' = m_nStatus L"
  using assms
proof (induction es arbitrary: L)
  case Nil
  then have "waiting L = []" by (simp only: list.size length_0_conv)
  with Nil show ?case by simp
next
  case (Cons e es)
  then obtain a rest where a: "waiting L = a # rest" by (metis length_Suc_conv length_Cons)
  obtain L1 where L1: "Logger_round e L = Inr (True, L1)" "logger_inv B L1" "waiting L1 = rest"
      "written L1 = written L @ [stream_of L a]" "\<And>b. stream_of L1 b = stream_of L b" "m_nStatus L1 = m_nStatus L"
    using round_writes [OF Cons.prems(1) _ a, of e] Cons.prems(2) by auto
  have "length (waiting L1) = length es"
    using Cons.prems(3) L1(3) a by (metis Suc_inject length_Cons)
  from Cons.IH [OF L1(2) _ this] Cons.prems(2) obtain L' where L': "Logger_rounds es L1 = Inr (True, L')"
      "logger_inv B L'" "waiting L' = []" "written L' = written L1 @ map (stream_of L1) (waiting L1)"
      "m_nStatus L' = m_nStatus L1" by auto
  have "Logger_rounds (e # es) L = Inr (True, L')" using L1(1) L'(1) by simp
  moreover have "written L' = written L @ map (stream_of L) (waiting L)"
    using L'(4) L1(3,4,5) a by simp
  ultimately show ?case using L'(2,3,5) L1(6) by auto
qed

lemma rounds_append:
  "Logger_rounds es L = Inr (True, L') \<Longrightarrow> Logger_rounds (es @ fs) L = Logger_rounds fs L'"
  by (induction es arbitrary: L) (auto simp: outcome_simps split: if_splits)

lemma round_stops:
  assumes "logger_inv B L" "waiting L = []" "m_nStatus L = THREAD_STOPPING"
  shows "Logger_round e L = Inr (False, L\<lparr>m_nStatus := THREAD_STOPED\<rparr>)"
proof -
  have q: "queue_inv (m_oQueueStream L)" using assms(1) by (simp add: logger_inv_def)
  from ring_queue.get_empty [OF this assms(2)] have "TQueue_Read (m_oQueueStream L) = None" .
  with assms(2,3) show ?thesis by (simp add: Logger_round_def IsEmpty_iff)
qed

section \<open>Lines one after the other\<close>

text \<open>Each line is logged and written before the next one.\<close>

fun log_lines :: "byte list list \<Rightarrow> log_env list \<Rightarrow> logger \<Rightarrow> logger option outcome" where
  "log_lines (l # ls) (e # es) L =
     bindE (Logger_Log (Some l) L) (\<lambda>r.
       case r of
         None \<Rightarrow> Inr None
       | Some M \<Rightarrow> bindE (Logger_round e M) (\<lambda>(_, M). log_lines ls es M))"
| "log_lines _ _ L = Inr (Some L)"

text \<open>What the file gets for line \<open>i\<close>: every 256th line before it, and then the line.\<close>

definition lines_so_far :: "byte list list \<Rightarrow> nat \<Rightarrow> nat \<Rightarrow> byte list" where
  "lines_so_far ls u n = concat (map ((!) ls) (filter (\<lambda>j. j mod 256 = u) [0..<n]))"

definition log_chunk :: "byte list list \<Rightarrow> nat \<Rightarrow> byte list" where
  "log_chunk ls i = lines_so_far ls (i mod 256) (Suc i)"

text \<open>The state after \<open>n\<close> lines.\<close>

definition after_lines :: "s32 \<Rightarrow> byte list list \<Rightarrow> nat \<Rightarrow> logger \<Rightarrow> bool" where
  "after_lines B ls n L \<longleftrightarrow>
     logger_inv B L \<and> waiting L = [] \<and> capacity (m_oQueueStream L) = 409600 \<and>
     m_list (m_oPoolStream L) = rotate n log_units \<and>
     (\<forall>u < 256. stream_of L (UAddr 0 u) = lines_so_far ls u n) \<and>
     written L = map (log_chunk ls) [0..<n]"

lemma lines_so_far_Suc:
  "lines_so_far ls u (Suc n) = lines_so_far ls u n @ (if n mod 256 = u then ls ! n else [])"
  by (simp add: lines_so_far_def)

lemma lines_so_far_length: "n \<le> length ls \<Longrightarrow> length (lines_so_far ls u n) \<le> sum_list (map length (take n ls))"
  by (induction n) (auto simp: lines_so_far_Suc take_Suc_conv_app_nth lines_so_far_def [of _ _ 0])

lemma sum_list_take_le: "sum_list (map length (take n ls)) \<le> sum_list (map length ls)"
  by (metis append_take_drop_id map_append sum_list_append le_add1)

lemma after_lines_step:
  assumes st: "after_lines B ls n L" and n: "n < length ls" "healthy e"
    and B: "int (sum_list (map length ls)) + LOG_BLOCK \<le> B"
  shows "\<exists>M M'. Logger_Log (Some (ls ! n)) L = Inr (Some M) \<and> Logger_round e M = Inr (True, M') \<and>
    after_lines B ls (Suc n) M'"
proof -
  let ?u = "n mod 256" let ?a = "UAddr 0 ?u"
  have inv: "logger_inv B L" "waiting L = []" "capacity (m_oQueueStream L) = 409600"
      "m_list (m_oPoolStream L) = rotate n log_units" "\<And>u. u < 256 \<Longrightarrow> stream_of L (UAddr 0 u) = lines_so_far ls u n"
      "written L = map (log_chunk ls) [0..<n]" using st by (simp_all add: after_lines_def)
  have u: "?u < 256" by simp
  have "rotate n log_units \<noteq> []" using log_units_nth(1) by auto
  then obtain rest where rest: "rotate n log_units = ?a # rest"
    using hd_rotate_conv_nth [of log_units n] log_units_nth(1,2)
    by (metis list.collapse u rotate_is_Nil_conv)
  have ml: "m_list (m_oPoolStream L) = ?a # rest" using inv(4) rest by simp
  have room: "length (waiting L) < capacity (m_oQueueStream L)" using inv(2,3) by simp
  have "length (lines_so_far ls ?u n) + length (ls ! n) \<le> sum_list (map length (take (Suc n) ls))"
    using lines_so_far_length [of n ls ?u] n(1) by (simp add: take_Suc_conv_app_nth)
  then have small: "int (length (stream_of L ?a @ ls ! n)) + LOG_BLOCK \<le> B"
    using sum_list_take_le [of "Suc n" ls] B inv(5) [OF u] by simp
  from log_queues [OF inv(1) room ml small] obtain M where M: "Logger_Log (Some (ls ! n)) L = Inr (Some M)"
      "logger_inv B M" "waiting M = [?a]" "written M = written L" "stream_of M ?a = stream_of L ?a @ ls ! n"
      "\<And>b. valid_unit (m_oPoolStream L) b \<Longrightarrow> b \<noteq> ?a \<Longrightarrow> stream_of M b = stream_of L b"
      "m_list (m_oPoolStream M) = rest" "capacity (m_oQueueStream M) = 409600"
    using inv(2,3) by auto
  from round_writes [OF M(2) n(2) M(3)] obtain M' where M': "Logger_round e M = Inr (True, M')" "logger_inv B M'"
      "waiting M' = []" "written M' = written M @ [stream_of M ?a]" "\<And>b. stream_of M' b = stream_of M b"
      "m_list (m_oPoolStream M') = rest @ [?a]" "capacity (m_oQueueStream M') = 409600" using M(7,8) by auto
  have pi: "pool_inv log_sz (m_oPoolStream L)" using inv(1) by (simp add: logger_inv_defs)
  have own: "stream_of M' (UAddr 0 v) = lines_so_far ls v (Suc n)" if "v < 256" for v
  proof (cases "v = ?u")
    case True
    then show ?thesis using M'(5) M(5) inv(5) [OF u] by (simp add: lines_so_far_Suc)
  next
    case False
    have "UAddr 0 v \<in> set (m_list (m_oPoolStream L))" using inv(4) log_units_nth(3) that by simp
    then have "valid_unit (m_oPoolStream L) (UAddr 0 v)" using pool_inv_free [OF pi] by blast
    with False M(6) have "stream_of M (UAddr 0 v) = stream_of L (UAddr 0 v)" by simp
    then show ?thesis using M'(5) inv(5) [OF that] False by (simp add: lines_so_far_Suc)
  qed
  have "rotate (Suc n) log_units = rest @ [?a]" using rest by simp
  moreover have "written M' = map (log_chunk ls) [0..<Suc n]"
    using M'(4) M(4,5) inv(5) [OF u] inv(6) by (simp add: log_chunk_def lines_so_far_Suc)
  ultimately have "after_lines B ls (Suc n) M'" using M' own unfolding after_lines_def by metis
  with M(1) M'(1) show ?thesis by blast
qed

lemma log_lines_after:
  "after_lines B ls n L \<Longrightarrow> n + length es = length ls \<Longrightarrow> \<forall>e \<in> set es. healthy e \<Longrightarrow>
     int (sum_list (map length ls)) + LOG_BLOCK \<le> B \<Longrightarrow>
     \<exists>L'. log_lines (drop n ls) es L = Inr (Some L') \<and> after_lines B ls (length ls) L'"
proof (induction es arbitrary: n L)
  case Nil
  then show ?case by auto
next
  case (Cons e es)
  have n: "n < length ls" using Cons.prems(2) by simp
  obtain M M' where M: "Logger_Log (Some (ls ! n)) L = Inr (Some M)" "Logger_round e M = Inr (True, M')"
      "after_lines B ls (Suc n) M'"
    using after_lines_step [OF Cons.prems(1) n _ Cons.prems(4), of e] Cons.prems(3) by auto
  have "drop n ls = ls ! n # drop (Suc n) ls" using n by (simp add: Cons_nth_drop_Suc)
  with M Cons.IH [OF M(3)] Cons.prems(2-4) show ?case by simp
qed

section \<open>Properties\<close>

definition calm_env :: log_env where
  "calm_env = \<lparr>env_tick = 0, env_app = ''app'', env_time = ''now'', env_fopen = True, env_open_tick = 0,
     env_fclose = True, env_refopen = True, env_reopen_tick = 0, env_fwrite = (\<lambda>n. n)\<rparr>"

lemma healthy_calm [simp]: "healthy calm_env"
  by (simp add: healthy_def calm_env_def)

lemma example_chunk: "log_chunk (replicate 257 [1]) 256 = [1, 1]"
proof -
  have "filter (\<lambda>j. j mod 256 = 0) [0..<Suc 256] = [0, 256 :: nat]" by code_simp
  then show ?thesis by (simp add: log_chunk_def lines_so_far_def)
qed

text \<open>
  C25: The streams the lines travel in are recycled without being cleared. From a new logger on,
  with every line written before the next one is logged and a file system that works, the chunk
  the file gets for line \<open>i\<close> repeats the lines \<open>i mod 256\<close>, \<open>i mod 256 + 256\<close>, and so on up to
  line \<open>i\<close> itself: from the 257th line on, old lines are written again and again.
\<close>

theorem logger_repeats_lines:
  assumes "logger_ring junk" "length es = length ls" "\<forall>e \<in> set es. healthy e"
    and "sum_list (map length ls) < 2 ^ 30"
  shows "\<exists>L L'. Logger_getInstance junk None = Inr (Some L) \<and> log_lines ls es L = Inr (Some L') \<and>
    written L' = map (log_chunk ls) [0..<length ls]"
proof -
  let ?B = "2 ^ 30 + 2048 :: s32"
  obtain L where L: "Logger_getInstance junk None = Inr (Some L)" "logger_inv ?B L" "waiting L = []"
      "written L = []" "m_list (m_oPoolStream L) = log_units" "capacity (m_oQueueStream L) = 409600"
      "\<forall>u < 256. stream_of L (UAddr 0 u) = []"
    using getInstance_ok [of ?B junk] assms(1) by auto
  then have st: "after_lines ?B ls 0 L" by (simp add: after_lines_def lines_so_far_def)
  have "int (sum_list (map length ls)) + LOG_BLOCK \<le> ?B" using assms(4) by simp
  from log_lines_after [OF st _ assms(3) this] assms(2) obtain L' where
    "log_lines ls es L = Inr (Some L')" "after_lines ?B ls (length ls) L'" by auto
  with L(1) show ?thesis by (auto simp: after_lines_def)
qed

theorem logger_repeats_lines_witness:
  "\<exists>L L'. Logger_getInstance (replicate 409600 (UAddr 0 0)) None = Inr (Some L) \<and>
    log_lines (replicate 257 [1]) (replicate 257 calm_env) L = Inr (Some L') \<and> written L' ! 256 = [1, 1]"
proof -
  have "logger_ring (replicate 409600 (UAddr 0 0))" unfolding logger_ring_def by (rule length_replicate)
  moreover have "length (replicate 257 calm_env) = length (replicate 257 [1 :: byte])"
    by (simp only: length_replicate)
  moreover have "\<forall>e \<in> set (replicate 257 calm_env). healthy e" by (metis in_set_replicate healthy_calm)
  moreover have "sum_list (map length (replicate 257 [1 :: byte])) < 2 ^ 30"
    by (simp only: map_replicate sum_list_replicate) simp
  ultimately obtain L L' where L: "Logger_getInstance (replicate 409600 (UAddr 0 0)) None = Inr (Some L)"
      "log_lines (replicate 257 [1]) (replicate 257 calm_env) L = Inr (Some L')"
      "written L' = map (log_chunk (replicate 257 [1])) [0..<length (replicate 257 [1 :: byte])]"
    using logger_repeats_lines by blast
  have "(256::nat) < length [0..<length (replicate 257 [1 :: byte])]"
    by (simp only: length_upt length_replicate)
  then have "written L' ! 256 = log_chunk (replicate 257 [1]) 256"
    unfolding L(3) by (simp only: nth_map length_upt nth_upt add_0_left diff_zero)
  with L(1,2) example_chunk show ?thesis by auto
qed

text \<open>
  C35: A logger thread that is asked to stop first writes every line that was queued, each once and
  in the order of the queue, and then stops: \<^verbatim>\<open>Terminate\<close> returns after one round per waiting
  line and one more.
\<close>

theorem logger_stop_drains:
  assumes "logger_inv B L" "m_nStatus L = THREAD_WORKING"
    and "\<forall>e \<in> set es. healthy e" "length (waiting L) < length es"
  shows "\<exists>L'. Logger_Terminate es L = Inr (Some (True, L')) \<and> waiting L' = [] \<and>
    m_nStatus L' = THREAD_STOPED \<and> written L' = written L @ map (stream_of L) (waiting L)"
proof -
  let ?k = "length (waiting L)" and ?L = "L\<lparr>m_nStatus := THREAD_STOPPING\<rparr>"
  obtain e rest where e: "drop ?k es = e # rest" using assms(4) by (cases "drop ?k es") auto
  have es: "es = take ?k es @ e # rest" using e by (metis append_take_drop_id)
  have inv: "logger_inv B ?L" using assms(1) by (simp add: logger_inv_defs)
  have h: "\<forall>e \<in> set (take ?k es). healthy e" using assms(3) by (auto dest: in_set_takeD)
  have k: "length (waiting ?L) = length (take ?k es)" using assms(4) by (simp add: min_def)
  obtain L1 where L1: "Logger_rounds (take ?k es) ?L = Inr (True, L1)" "logger_inv B L1" "waiting L1 = []"
      "written L1 = written ?L @ map (stream_of ?L) (waiting ?L)" "m_nStatus L1 = THREAD_STOPPING"
    using rounds_drain [OF inv h k] by auto
  have "Logger_rounds es ?L = Logger_rounds (e # rest) L1"
    using rounds_append [OF L1(1)] es by metis
  also have "\<dots> = Inr (False, L1\<lparr>m_nStatus := THREAD_STOPED\<rparr>)"
    using round_stops [OF L1(2,3,5), of e] by simp
  finally have "Logger_rounds es ?L = Inr (False, L1\<lparr>m_nStatus := THREAD_STOPED\<rparr>)" .
  then show ?thesis using assms(2) L1(3,4) by (simp add: Logger_Terminate_def written_def)
qed

theorem logger_stop_drains_witness:
  "\<exists>L M L'. Logger_getInstance (replicate 409600 (UAddr 0 0)) None = Inr (Some L) \<and>
    Logger_Log (Some [1]) (L\<lparr>m_nStatus := THREAD_WORKING\<rparr>) = Inr (Some M) \<and>
    Logger_Terminate [calm_env, calm_env] M = Inr (Some (True, L')) \<and> written L' = [[1]]"
proof -
  have "logger_ring (replicate 409600 (UAddr 0 0))" unfolding logger_ring_def by (rule length_replicate)
  from getInstance_ok [OF _ _ this, of 4096] obtain L where
    L: "Logger_getInstance (replicate 409600 (UAddr 0 0)) None = Inr (Some L)" "logger_inv 4096 L" "waiting L = []"
      "written L = []" "m_list (m_oPoolStream L) = log_units" "capacity (m_oQueueStream L) = 409600"
      "\<forall>u < 256. stream_of L (UAddr 0 u) = []" by auto
  let ?W = "L\<lparr>m_nStatus := THREAD_WORKING\<rparr>"
  have W: "logger_inv 4096 ?W" using L(2) by (simp add: logger_inv_defs)
  have "log_units = UAddr 0 0 # tl log_units"
    using log_units_nth(1) log_units_nth(2) [of 0]
    by (metis hd_Cons_tl hd_conv_nth length_0_conv zero_less_numeral zero_neq_numeral)
  then have ml: "m_list (m_oPoolStream ?W) = UAddr 0 0 # tl log_units" using L(5) by simp
  have room: "length (waiting ?W) < capacity (m_oQueueStream ?W)" using L(3,6) by simp
  have small: "int (length (stream_of ?W (UAddr 0 0) @ [1])) + LOG_BLOCK \<le> 4096" using L(7) by simp
  from log_queues [OF W room ml small] obtain M where M: "Logger_Log (Some [1]) ?W = Inr (Some M)" "logger_inv 4096 M"
      "waiting M = [UAddr 0 0]" "written M = []" "stream_of M (UAddr 0 0) = [1]" "m_nStatus M = THREAD_WORKING"
    using L(3,4,7) by (auto simp: written_def)
  have calm: "\<forall>e \<in> set [calm_env, calm_env]. healthy e" by simp
  have "length (waiting M) < length [calm_env, calm_env]" unfolding M(3) by simp
  from logger_stop_drains [OF M(2,6) calm this] obtain L' where
    "Logger_Terminate [calm_env, calm_env] M = Inr (Some (True, L'))" "written L' = [[1]]"
    using M(3-5) by auto
  with L(1) M(1) show ?thesis by blast
qed

end
