(* ===== verification/Modules.thy ===== *)
theory Modules
  imports Tools
begin

text \<open>
  src/API/IModule.h and src/kernel/logicmgr/Logicmgr.h, Logicmgr.cpp: the modules a shared library
  brings, chained through \<^verbatim>\<open>m_pNextModule\<close>, and the manager that loads the libraries named by the
  configuration, registers their modules by name and starts them. The module objects are a list,
  an address is an index into it. The dynamic loader is a parameter: \<open>dlopen\<close> gives a handle for
  a path, \<open>get_module\<close> what \<^verbatim>\<open>dlsym(handle, "GetLogicModule")\<close> finds (\<open>None\<close>) and what calling it
  returns (\<open>Some None\<close> is a null module).
\<close>

section \<open>IModule\<close>

abbreviation (input) MODULE_NAME_LENGTH :: nat where "MODULE_NAME_LENGTH \<equiv> 64"

record imodule =
  m_pNextModule :: "nat option"
  m_pName :: string

text \<open>The constructor leaves the name as the memory was (\<open>junk\<close>, 64 bytes), but for its last byte.\<close>

definition IModule_new :: "string \<Rightarrow> imodule" where
  "IModule_new junk = \<lparr>m_pNextModule = None, m_pName = junk[MODULE_NAME_LENGTH - 1 := NUL]\<rparr>"

definition SetNext :: "nat option \<Rightarrow> imodule \<Rightarrow> bool \<times> imodule" where
  "SetNext pModule m = (True, m\<lparr>m_pNextModule := pModule\<rparr>)"

definition GetNext :: "imodule \<Rightarrow> nat option" where
  "GetNext m = m_pNextModule m"

text \<open>\<^verbatim>\<open>SetName\<close> copies 63 bytes from the pointer; \<open>mem\<close> is the object it points into, from there on.\<close>

definition SetName :: "string \<Rightarrow> imodule \<Rightarrow> (bool \<times> imodule) outcome" where
  "SetName mem m =
     bindE (SafeMemcpy (m_pName m) 0 (length (m_pName m)) mem (MODULE_NAME_LENGTH - 1))
       (\<lambda>b. Inr (True, m\<lparr>m_pName := b\<rparr>))"

text \<open>\<^verbatim>\<open>GetName\<close> returns the array; its readers stop at the first terminator.\<close>

definition GetName :: "imodule \<Rightarrow> string outcome" where
  "GetName m = (if NUL \<in> set (m_pName m) then Inr (takeWhile (\<lambda>c. c \<noteq> NUL) (m_pName m)) else Inl OutOfBounds)"

text \<open>
  \<^verbatim>\<open>CREATE_MODULE(name)\<close>: a static object whose constructor creates the module, names it and puts
  it in front of the library's chain \<open>plogic\<close>. \<open>mem\<close> is the memory from the literal \<^verbatim>\<open>#name\<close> on.
\<close>

definition create_module ::
  "string \<Rightarrow> string \<Rightarrow> imodule list \<times> nat option \<Rightarrow> (imodule list \<times> nat option) outcome" where
  "create_module mem junk = (\<lambda>(heap, plogic).
     bindE (SetName mem (IModule_new junk)) (\<lambda>(_, m).
       let (_, m) = SetNext plogic m in Inr (heap @ [m], Some (length heap))))"

text \<open>The exported \<^verbatim>\<open>GetLogicModule\<close> of \<^verbatim>\<open>GET_DLL_ENTRANCE\<close> (it also seeds \<^verbatim>\<open>rand\<close>, which nothing uses).\<close>

definition GetLogicModule :: "imodule list \<times> nat option \<Rightarrow> nat option" where
  "GetLogicModule lib = snd lib"

section \<open>Logicmgr\<close>

record logicmgr =
  m_vctModules :: "nat list"
  m_mapModules :: "string \<rightharpoonup> nat"

record module_config =
  strModulePath :: string
  vctModules :: "string list"

definition Logicmgr_new :: logicmgr where
  "Logicmgr_new = \<lparr>m_vctModules = [], m_mapModules = Map.empty\<rparr>"

definition Logicmgr_Redry :: "logicmgr \<Rightarrow> bool" where
  "Logicmgr_Redry m = True"

definition Logicmgr_getInstance :: "logicmgr option \<Rightarrow> logicmgr option outcome" where
  "Logicmgr_getInstance p =
     (case p of
        Some m \<Rightarrow> Inr (Some m)
      | None \<Rightarrow>
          if \<not> Logicmgr_Redry Logicmgr_new
          then bindE (TASSERT False ''Logicmgr cant ready'') (\<lambda>_. Inr None)
          else Inr (Some Logicmgr_new))"

text \<open>The names the module objects have, the bound for the walk along a chain.\<close>

definition module_names :: "imodule list \<Rightarrow> string set" where
  "module_names heap = {n. \<exists>m \<in> set heap. GetName m = Inr n}"

lemma finite_module_names: "finite (module_names heap)"
proof -
  have "module_names heap \<subseteq> (\<lambda>m. projr (GetName m)) ` set heap" by (force simp: module_names_def)
  then show ?thesis by (rule finite_subset) simp
qed

text \<open>
  The inner loop of \<^verbatim>\<open>Initialize\<close>: the modules of one chain are appended and entered by name. It
  ends for every chain, a cyclic one included: each round enters a new name or stops.
\<close>

function register_chain :: "imodule list \<Rightarrow> nat option \<Rightarrow> logicmgr \<Rightarrow> (bool \<times> logicmgr) outcome" where
  "register_chain heap plogic mgr =
     (case plogic of
        None \<Rightarrow> Inr (True, mgr)
      | Some a \<Rightarrow>
          if a \<ge> length heap then Inl WildPointer
          else
            case GetName (heap ! a) of
              Inl e \<Rightarrow> Inl e
            | Inr pName \<Rightarrow>
                if m_mapModules mgr pName \<noteq> None
                then bindE (TASSERT False ''LogicModule Name is exists'') (\<lambda>_. Inr (False, mgr))
                else register_chain heap (GetNext (heap ! a))
                       \<lparr>m_vctModules = m_vctModules mgr @ [a],
                        m_mapModules = (m_mapModules mgr)(pName \<mapsto> a)\<rparr>)"
  by pat_completeness auto

termination
proof (relation "measure (\<lambda>(heap, plogic, mgr). card (module_names heap - dom (m_mapModules mgr)))")
  fix heap :: "imodule list" and plogic :: "nat option" and mgr :: logicmgr and a :: nat and pName :: string
  assume a: "\<not> length heap \<le> a" "GetName (heap ! a) = Inr pName" "\<not> m_mapModules mgr pName \<noteq> None"
  let ?new = "\<lparr>m_vctModules = m_vctModules mgr @ [a], m_mapModules = (m_mapModules mgr)(pName \<mapsto> a)\<rparr> :: logicmgr"
  have "pName \<in> module_names heap" using a(1,2) by (force simp: module_names_def)
  with a(3) have "module_names heap - dom (m_mapModules ?new) \<subset> module_names heap - dom (m_mapModules mgr)"
    by (auto simp: dom_def)
  then have "card (module_names heap - dom (m_mapModules ?new)) < card (module_names heap - dom (m_mapModules mgr))"
    by (intro psubset_card_mono) (simp_all add: finite_module_names)
  then show "((heap, GetNext (heap ! a), ?new), heap, plogic, mgr)
      \<in> measure (\<lambda>(heap, plogic, mgr). card (module_names heap - dom (m_mapModules mgr)))" by simp
qed simp

declare register_chain.simps [simp del]

text \<open>\<^verbatim>\<open>SafeSprintf(path, 512, "%s/%slib%s.so", ...)\<close> keeps 511 characters.\<close>

definition module_path :: "string \<Rightarrow> string \<Rightarrow> string \<Rightarrow> string" where
  "module_path app dir name = take 511 (app @ ''/'' @ dir @ ''lib'' @ name @ ''.so'')"

text \<open>The outer loop: one library per configured name.\<close>

fun load_modules ::
  "(string \<Rightarrow> 'h option) \<Rightarrow> ('h \<Rightarrow> nat option option) \<Rightarrow> imodule list \<Rightarrow> string \<Rightarrow> string \<Rightarrow>
     string list \<Rightarrow> logicmgr \<Rightarrow> (bool \<times> logicmgr) outcome" where
  "load_modules dlopen get_module heap app dir [] mgr = Inr (True, mgr)"
| "load_modules dlopen get_module heap app dir (itor # rest) mgr =
     bindE (TASSERT (dlopen (module_path app dir itor) \<noteq> None) ''open error'') (\<lambda>_.
       case dlopen (module_path app dir itor) of
         None \<Rightarrow> Inl NullPointer
       | Some handle \<Rightarrow>
           bindE (TASSERT (get_module handle \<noteq> None) ''get function:GetLogicModule error'') (\<lambda>_.
             case get_module handle of
               None \<Rightarrow> Inl NullPointer
             | Some plogic \<Rightarrow>
                 bindE (TASSERT (plogic \<noteq> None) ''cant get module from lib'') (\<lambda>_.
                   bindE (register_chain heap plogic mgr) (\<lambda>(ok, mgr).
                     if \<not> ok then Inr (False, mgr)
                     else load_modules dlopen get_module heap app dir rest mgr))))"

text \<open>What the manager calls on the modules, in order.\<close>

datatype module_call = Module_Initialize nat | Module_Launched nat

definition Logicmgr_Initialize ::
  "(string \<Rightarrow> 'h option) \<Rightarrow> ('h \<Rightarrow> nat option option) \<Rightarrow> imodule list \<Rightarrow> string \<Rightarrow>
     module_config option \<Rightarrow> logicmgr \<Rightarrow> (bool \<times> module_call list \<times> logicmgr) outcome" where
  "Logicmgr_Initialize dlopen get_module heap app pConfig mgr =
     bindE (TASSERT (pConfig \<noteq> None) ''cant load module config'') (\<lambda>_.
       case pConfig of
         None \<Rightarrow> Inl NullPointer
       | Some cfg \<Rightarrow>
           bindE (load_modules dlopen get_module heap app (strModulePath cfg) (vctModules cfg) mgr) (\<lambda>(ok, mgr).
             if \<not> ok then Inr (False, [], mgr)
             else Inr (True, map Module_Initialize (m_vctModules mgr) @ map Module_Launched (m_vctModules mgr), mgr)))"

text \<open>\<^verbatim>\<open>Destory\<close> deletes the manager; the destructor's body is commented out and calls no module.\<close>

definition Logicmgr_Destory :: "logicmgr \<Rightarrow> bool \<times> module_call list" where
  "Logicmgr_Destory mgr = (True, [])"

definition FindModule :: "string \<Rightarrow> logicmgr \<Rightarrow> nat option" where
  "FindModule pStrModuleName mgr =
     (case m_mapModules mgr pStrModuleName of None \<Rightarrow> None | Some m \<Rightarrow> Some m)"

end
