(* ===== verification/Modules_Spec.thy ===== *)
theory Modules_Spec
  imports Modules
begin

text \<open>
  What the module manager does with any set of libraries: it starts all their modules, in the
  order of the configuration and of the chains, every \<^verbatim>\<open>Initialize\<close> before the first \<^verbatim>\<open>Launched\<close>,
  or aborts because two modules carry one name (a cyclic chain is such a case). Then the name a
  module gets from its class.
\<close>

section \<open>Chains\<close>

text \<open>\<open>chain heap p as\<close>: following the next pointers from \<open>p\<close> visits exactly \<open>as\<close>.\<close>

primrec chain :: "imodule list \<Rightarrow> nat option \<Rightarrow> nat list \<Rightarrow> bool" where
  "chain heap p [] \<longleftrightarrow> p = None"
| "chain heap p (a # as) \<longleftrightarrow> p = Some a \<and> a < length heap \<and> chain heap (GetNext (heap ! a)) as"

definition name_of :: "imodule \<Rightarrow> string" where
  "name_of m = takeWhile (\<lambda>c. c \<noteq> NUL) (m_pName m)"

text \<open>Module objects as \<^verbatim>\<open>CREATE_MODULE\<close> leaves them: terminated names, next pointers to objects.\<close>

definition heap_ok :: "imodule list \<Rightarrow> bool" where
  "heap_ok heap \<longleftrightarrow> (\<forall>m \<in> set heap. NUL \<in> set (m_pName m) \<and>
     (case m_pNextModule m of None \<Rightarrow> True | Some b \<Rightarrow> b < length heap))"

abbreviation names_of :: "imodule list \<Rightarrow> nat list \<Rightarrow> string list" where
  "names_of heap as \<equiv> map (\<lambda>a. name_of (heap ! a)) as"

lemma GetName_ok: "heap_ok heap \<Longrightarrow> a < length heap \<Longrightarrow> GetName (heap ! a) = Inr (name_of (heap ! a))"
  by (simp add: heap_ok_def GetName_def name_of_def)

lemma GetNext_ok: "heap_ok heap \<Longrightarrow> a < length heap \<Longrightarrow> GetNext (heap ! a) = Some b \<Longrightarrow> b < length heap"
  by (auto simp: heap_ok_def GetNext_def dest!: nth_mem)

lemma chain_unique: "chain heap p as \<Longrightarrow> chain heap p bs \<Longrightarrow> as = bs"
proof (induction as arbitrary: p bs)
  case Nil
  then show ?case by (cases bs) auto
next
  case (Cons a as)
  then show ?case by (cases bs) auto
qed

section \<open>Registration\<close>

text \<open>The manager after the modules \<open>as\<close> were entered.\<close>

fun entered :: "imodule list \<Rightarrow> nat list \<Rightarrow> logicmgr \<Rightarrow> logicmgr" where
  "entered heap [] mgr = mgr"
| "entered heap (a # as) mgr = entered heap as
     \<lparr>m_vctModules = m_vctModules mgr @ [a], m_mapModules = (m_mapModules mgr)(name_of (heap ! a) \<mapsto> a)\<rparr>"

text \<open>The names of \<open>as\<close> are new and pairwise different.\<close>

definition new_names :: "imodule list \<Rightarrow> nat list \<Rightarrow> logicmgr \<Rightarrow> bool" where
  "new_names heap as mgr \<longleftrightarrow> distinct (names_of heap as) \<and>
     set (names_of heap as) \<inter> dom (m_mapModules mgr) = {}"

lemma entered_vct: "m_vctModules (entered heap as mgr) = m_vctModules mgr @ as"
  by (induction as arbitrary: mgr) simp_all

lemma entered_append: "entered heap (as @ bs) mgr = entered heap bs (entered heap as mgr)"
  by (induction as arbitrary: mgr) simp_all

lemma entered_dom: "dom (m_mapModules (entered heap as mgr)) = dom (m_mapModules mgr) \<union> set (names_of heap as)"
  by (induction as arbitrary: mgr) auto

lemma entered_other: "n \<notin> set (names_of heap as) \<Longrightarrow> m_mapModules (entered heap as mgr) n = m_mapModules mgr n"
  by (induction as arbitrary: mgr) auto

lemma entered_find:
  "distinct (names_of heap as) \<Longrightarrow> a \<in> set as \<Longrightarrow> m_mapModules (entered heap as mgr) (name_of (heap ! a)) = Some a"
proof (induction as arbitrary: mgr)
  case (Cons b as)
  then show ?case by (auto simp: entered_other)
qed simp

lemma new_names_append: "new_names heap (as @ bs) mgr \<longleftrightarrow>
    new_names heap as mgr \<and> new_names heap bs (entered heap as mgr)"
  by (auto simp: new_names_def entered_dom)

abbreviation (input) name_clash :: fault where
  "name_clash \<equiv> Assertion ''LogicModule Name is exists''"

text \<open>One chain is entered completely, or the registration aborts on a name that is taken.\<close>

lemma register_chain_result:
  assumes "heap_ok heap" "\<And>a. p = Some a \<Longrightarrow> a < length heap"
  shows "(\<exists>as. chain heap p as \<and> new_names heap as mgr \<and>
      register_chain heap p mgr = Inr (True, entered heap as mgr)) \<or>
    (register_chain heap p mgr = Inl name_clash \<and> (\<nexists>as. chain heap p as \<and> new_names heap as mgr))"
  using assms
proof (induction heap p mgr rule: register_chain.induct)
  case (1 heap p mgr)
  show ?case
  proof (cases p)
    case None
    then have "chain heap p []" "new_names heap [] mgr" "register_chain heap p mgr = Inr (True, entered heap [] mgr)"
      by (simp_all add: register_chain.simps [of heap None] new_names_def)
    then show ?thesis by blast
  next
    case (Some a)
    have a: "a < length heap" using 1(3) Some by simp
    let ?n = "name_of (heap ! a)"
    note gn = GetName_ok [OF 1(2) a]
    have chains: "chain heap p as \<longleftrightarrow> (\<exists>bs. as = a # bs \<and> chain heap (GetNext (heap ! a)) bs)" for as
      using Some a by (cases as) auto
    show ?thesis
    proof (cases "m_mapModules mgr ?n = None")
      case False
      then have "register_chain heap p mgr = Inl name_clash"
        using Some a gn by (auto simp: register_chain.simps [of heap "Some a"])
      moreover have "\<not> new_names heap (a # bs) mgr" for bs
        using False by (auto simp: new_names_def)
      ultimately show ?thesis using chains by auto
    next
      case True
      let ?m = "\<lparr>m_vctModules = m_vctModules mgr @ [a], m_mapModules = (m_mapModules mgr)(?n \<mapsto> a)\<rparr>"
      have run: "register_chain heap p mgr = register_chain heap (GetNext (heap ! a)) ?m"
        using Some a gn True by (simp add: register_chain.simps [of heap "Some a"])
      have nn: "new_names heap (a # bs) mgr \<longleftrightarrow> new_names heap bs ?m" for bs
        using True by (auto simp: new_names_def)
      have "(\<exists>bs. chain heap (GetNext (heap ! a)) bs \<and> new_names heap bs ?m \<and>
          register_chain heap (GetNext (heap ! a)) ?m = Inr (True, entered heap bs ?m)) \<or>
        (register_chain heap (GetNext (heap ! a)) ?m = Inl name_clash \<and>
          (\<nexists>bs. chain heap (GetNext (heap ! a)) bs \<and> new_names heap bs ?m))"
        using 1(1) [OF Some _ gn, of] True a 1(2) GetNext_ok [OF 1(2) a] by auto
      then show ?thesis unfolding run by (metis chains nn entered.simps(2))
    qed
  qed
qed

section \<open>Loading\<close>

text \<open>The loader finds every configured library, and each library has at least one module.\<close>

definition loads ::
  "(string \<Rightarrow> 'h option) \<Rightarrow> ('h \<Rightarrow> nat option option) \<Rightarrow> imodule list \<Rightarrow> string \<Rightarrow> string \<Rightarrow> string \<Rightarrow> nat \<Rightarrow> bool" where
  "loads dlopen get_module heap app dir name a \<longleftrightarrow>
     (\<exists>h. dlopen (module_path app dir name) = Some h \<and> get_module h = Some (Some a)) \<and> a < length heap"

text \<open>The chains of the configured libraries, in order.\<close>

definition library_chains ::
  "(string \<Rightarrow> 'h option) \<Rightarrow> ('h \<Rightarrow> nat option option) \<Rightarrow> imodule list \<Rightarrow> string \<Rightarrow> module_config \<Rightarrow> nat list list \<Rightarrow> bool" where
  "library_chains dlopen get_module heap app cfg ass \<longleftrightarrow>
     list_all2 (\<lambda>name as. \<exists>a. loads dlopen get_module heap app (strModulePath cfg) name a \<and> chain heap (Some a) as)
       (vctModules cfg) ass"

lemma loads_unique: "loads d g heap app dir n a \<Longrightarrow> loads d g heap app dir n b \<Longrightarrow> a = b"
  by (auto simp: loads_def)

lemma load_modules_result:
  assumes "heap_ok heap" "\<forall>n \<in> set names. \<exists>a. loads d g heap app dir n a"
  shows "(\<exists>ass. list_all2 (\<lambda>n as. \<exists>a. loads d g heap app dir n a \<and> chain heap (Some a) as) names ass \<and>
      new_names heap (concat ass) mgr \<and>
      load_modules d g heap app dir names mgr = Inr (True, entered heap (concat ass) mgr)) \<or>
    (load_modules d g heap app dir names mgr = Inl name_clash \<and>
      (\<nexists>ass. list_all2 (\<lambda>n as. \<exists>a. loads d g heap app dir n a \<and> chain heap (Some a) as) names ass \<and>
        new_names heap (concat ass) mgr))"
  using assms(2)
proof (induction names arbitrary: mgr)
  case Nil
  have "new_names heap (concat []) mgr" by (simp add: new_names_def)
  then show ?case by auto
next
  case (Cons n names)
  let ?R = "\<lambda>n as. \<exists>a. loads d g heap app dir n a \<and> chain heap (Some a) as"
  obtain a where a: "loads d g heap app dir n a" using Cons.prems by auto
  then obtain h where h: "d (module_path app dir n) = Some h" "g h = Some (Some a)" "a < length heap"
    by (auto simp: loads_def)
  have run: "load_modules d g heap app dir (n # names) mgr =
      bindE (register_chain heap (Some a) mgr) (\<lambda>(ok, mgr). if \<not> ok then Inr (False, mgr)
        else load_modules d g heap app dir names mgr)"
    using h by simp
  have R: "?R n as \<longleftrightarrow> chain heap (Some a) as" for as using a loads_unique [OF a] by blast
  have split: "list_all2 ?R (n # names) ass \<longleftrightarrow>
      (\<exists>as rest. ass = as # rest \<and> chain heap (Some a) as \<and> list_all2 ?R names rest)" for ass
    by (cases ass) (simp_all add: R)
  consider (ok) as where "chain heap (Some a) as" "new_names heap as mgr"
      "register_chain heap (Some a) mgr = Inr (True, entered heap as mgr)"
    | (clash) "register_chain heap (Some a) mgr = Inl name_clash"
        "\<nexists>as. chain heap (Some a) as \<and> new_names heap as mgr"
    using register_chain_result [OF assms(1), of "Some a" mgr] h(3) by auto
  then show ?case
  proof cases
    case clash
    have "\<not> new_names heap (concat ass) mgr" if "list_all2 ?R (n # names) ass" for ass
      using that clash(2) unfolding split by (auto simp: new_names_append)
    then show ?thesis using clash(1) run by auto
  next
    case ok
    let ?m = "entered heap as mgr"
    have next_run: "load_modules d g heap app dir (n # names) mgr = load_modules d g heap app dir names ?m"
      using run ok(3) by simp
    have nn: "new_names heap (concat (as # rest)) mgr \<longleftrightarrow> new_names heap (concat rest) ?m" for rest
      using ok(2) by (simp add: new_names_append)
    have only: "list_all2 ?R (n # names) ass \<longleftrightarrow> (\<exists>rest. ass = as # rest \<and> list_all2 ?R names rest)" for ass
      unfolding split using ok(1) chain_unique [OF ok(1)] by blast
    have "\<forall>n \<in> set names. \<exists>a. loads d g heap app dir n a" using Cons.prems by simp
    from Cons.IH [OF this, of ?m] show ?thesis
    proof (elim disjE exE conjE)
      fix rest assume r: "list_all2 ?R names rest" "new_names heap (concat rest) ?m"
        "load_modules d g heap app dir names ?m = Inr (True, entered heap (concat rest) ?m)"
      have "list_all2 ?R (n # names) (as # rest)" using only r(1) by blast
      moreover have "load_modules d g heap app dir (n # names) mgr = Inr (True, entered heap (concat (as # rest)) mgr)"
        using next_run r(3) by (simp add: entered_append)
      ultimately show ?thesis using nn r(2) by blast
    next
      assume "load_modules d g heap app dir names ?m = Inl name_clash"
        "\<nexists>rest. list_all2 ?R names rest \<and> new_names heap (concat rest) ?m"
      then have "load_modules d g heap app dir (n # names) mgr = Inl name_clash"
        "\<nexists>ass. list_all2 ?R (n # names) ass \<and> new_names heap (concat ass) mgr"
        using next_run only nn by auto
      then show ?thesis by blast
    qed
  qed
qed

section \<open>Properties\<close>

text \<open>
  C26: When every configured library can be loaded, the manager either starts all modules or aborts
  because a name is used twice, and nothing else. If the chains of the libraries end and all names
  are different, every module is initialised, in the order of the configuration and of the chains,
  before the first one is launched, and afterwards each module is found under its own name and no
  other name finds anything. In every other case (two modules of one name, a library configured
  twice, a cyclic chain) the start aborts.
\<close>

theorem modules_startup:
  assumes "heap_ok heap" "\<forall>n \<in> set (vctModules cfg). \<exists>a. loads dlopen get_module heap app (strModulePath cfg) n a"
  shows "(\<forall>ass. library_chains dlopen get_module heap app cfg ass \<and> distinct (names_of heap (concat ass)) \<longrightarrow>
      (\<exists>mgr. Logicmgr_Initialize dlopen get_module heap app (Some cfg) Logicmgr_new =
          Inr (True, map Module_Initialize (concat ass) @ map Module_Launched (concat ass), mgr) \<and>
        (\<forall>a \<in> set (concat ass). FindModule (name_of (heap ! a)) mgr = Some a) \<and>
        (\<forall>n. n \<notin> set (names_of heap (concat ass)) \<longrightarrow> FindModule n mgr = None))) \<and>
    ((\<nexists>ass. library_chains dlopen get_module heap app cfg ass \<and> distinct (names_of heap (concat ass))) \<longrightarrow>
      Logicmgr_Initialize dlopen get_module heap app (Some cfg) Logicmgr_new =
        Inl (Assertion ''LogicModule Name is exists''))"
proof -
  let ?run = "load_modules dlopen get_module heap app (strModulePath cfg) (vctModules cfg) Logicmgr_new"
  have nn: "new_names heap as Logicmgr_new \<longleftrightarrow> distinct (names_of heap as)" for as
    by (simp add: new_names_def Logicmgr_new_def)
  have one: "as = bs" if "loads dlopen get_module heap app dir n a" "chain heap (Some a) as"
      "loads dlopen get_module heap app dir n b" "chain heap (Some b) bs" for dir n a b as bs
    using that loads_unique [OF that(1,3)] chain_unique by blast
  have unique: "ass = bss" if "library_chains dlopen get_module heap app cfg ass"
      "library_chains dlopen get_module heap app cfg bss" for ass bss
  proof (rule nth_equalityI)
    show "length ass = length bss" using that by (auto simp: library_chains_def dest!: list_all2_lengthD)
    show "ass ! i = bss ! i" if i: "i < length ass" for i
    proof -
      obtain a where a: "loads dlopen get_module heap app (strModulePath cfg) (vctModules cfg ! i) a"
          "chain heap (Some a) (ass ! i)"
        using \<open>library_chains dlopen get_module heap app cfg ass\<close> i
        by (auto simp: library_chains_def list_all2_conv_all_nth)
      obtain b where b: "loads dlopen get_module heap app (strModulePath cfg) (vctModules cfg ! i) b"
          "chain heap (Some b) (bss ! i)"
        using \<open>library_chains dlopen get_module heap app cfg ass\<close> \<open>library_chains dlopen get_module heap app cfg bss\<close> i
        by (auto simp: library_chains_def list_all2_conv_all_nth)
      from a b show ?thesis by (rule one)
    qed
  qed
  have find: "FindModule (name_of (heap ! a)) (entered heap as Logicmgr_new) = Some a"
    if "distinct (names_of heap as)" "a \<in> set as" for a as
    using entered_find [OF that] by (simp add: FindModule_def)
  have none: "FindModule n (entered heap as Logicmgr_new) = None" if "n \<notin> set (names_of heap as)" for n as
    using entered_other [OF that] by (simp add: FindModule_def Logicmgr_new_def)
  have vct: "m_vctModules (entered heap as Logicmgr_new) = as" for as
    by (simp add: entered_vct Logicmgr_new_def)
  from load_modules_result [OF assms, of Logicmgr_new, folded library_chains_def, unfolded nn]
  show ?thesis
  proof (elim disjE exE conjE)
    fix ass assume a: "library_chains dlopen get_module heap app cfg ass" "distinct (names_of heap (concat ass))"
      "?run = Inr (True, entered heap (concat ass) Logicmgr_new)"
    then have "Logicmgr_Initialize dlopen get_module heap app (Some cfg) Logicmgr_new =
        Inr (True, map Module_Initialize (concat ass) @ map Module_Launched (concat ass),
          entered heap (concat ass) Logicmgr_new)"
      by (simp add: Logicmgr_Initialize_def vct)
    with a(1,2) unique find none show ?thesis by blast
  next
    assume a: "?run = Inl name_clash"
      "\<nexists>ass. library_chains dlopen get_module heap app cfg ass \<and> distinct (names_of heap (concat ass))"
    then have "Logicmgr_Initialize dlopen get_module heap app (Some cfg) Logicmgr_new = Inl name_clash"
      by (simp add: Logicmgr_Initialize_def)
    with a(2) show ?thesis by blast
  qed
qed

text \<open>Two libraries with one module each, the way Gate and ClientMgr are built.\<close>

definition literal :: "string \<Rightarrow> string" where
  "literal name = name @ replicate 64 NUL"

definition example_heap :: "imodule list" where
  "example_heap = [\<lparr>m_pNextModule = None, m_pName = literal ''Gate''\<rparr>, \<lparr>m_pNextModule = None, m_pName = literal ''ClientMgr''\<rparr>]"

definition example_dlopen :: "string \<Rightarrow> nat option" where
  "example_dlopen path =
     (if path = ''/app/mods/libgate.so'' then Some 0 else if path = ''/app/mods/libclients.so'' then Some 1 else None)"

definition example_config :: "string list \<Rightarrow> module_config" where
  "example_config names = \<lparr>strModulePath = ''mods/'', vctModules = names\<rparr>"

theorem modules_startup_witness:
  "(\<exists>mgr. Logicmgr_Initialize example_dlopen (\<lambda>h. Some (Some h)) example_heap ''/app''
      (Some (example_config [''gate'', ''clients''])) Logicmgr_new =
      Inr (True, [Module_Initialize 0, Module_Initialize 1, Module_Launched 0, Module_Launched 1], mgr) \<and>
      FindModule ''Gate'' mgr = Some 0 \<and> FindModule ''x'' mgr = None) \<and>
   Logicmgr_Initialize example_dlopen (\<lambda>h. Some (Some h)) example_heap ''/app''
      (Some (example_config [''gate'', ''gate''])) Logicmgr_new = Inl (Assertion ''LogicModule Name is exists'')"
proof -
  let ?L = "loads example_dlopen (\<lambda>h. Some (Some h)) example_heap ''/app'' ''mods/''"
  have ok: "heap_ok example_heap" by (simp add: heap_ok_def example_heap_def literal_def)
  have p: "module_path ''/app'' ''mods/'' ''gate'' = ''/app/mods/libgate.so''"
    "module_path ''/app'' ''mods/'' ''clients'' = ''/app/mods/libclients.so''" by (simp_all add: module_path_def)
  have len: "length example_heap = 2" by (simp add: example_heap_def)
  have l: "?L ''gate'' 0" "?L ''clients'' 1" by (simp_all add: loads_def p example_dlopen_def len)
  have names: "name_of (example_heap ! 0) = ''Gate''" "name_of (example_heap ! 1) = ''ClientMgr''"
    by code_simp+
  have nxt: "GetNext (example_heap ! 0) = None" "GetNext (example_heap ! 1) = None"
    by (simp_all add: example_heap_def GetNext_def)
  have cfg: "vctModules (example_config ns) = ns" "strModulePath (example_config ns) = ''mods/''" for ns
    by (simp_all add: example_config_def)
  have c1: "library_chains example_dlopen (\<lambda>h. Some (Some h)) example_heap ''/app'' (example_config [''gate'', ''clients'']) [[0], [1]]"
    unfolding library_chains_def cfg using l nxt len by auto
  have h1: "\<forall>n \<in> set (vctModules (example_config [''gate'', ''clients''])).
      \<exists>a. loads example_dlopen (\<lambda>h. Some (Some h)) example_heap ''/app'' (strModulePath (example_config [''gate'', ''clients''])) n a"
    unfolding cfg using l by auto
  have d1: "distinct (names_of example_heap (concat [[0], [1]]))" by (simp add: names del: One_nat_def)
  note s1 = modules_startup [OF ok h1, THEN conjunct1, rule_format, OF conjI, OF c1 d1]
  have h2: "\<forall>n \<in> set (vctModules (example_config [''gate'', ''gate''])).
      \<exists>a. loads example_dlopen (\<lambda>h. Some (Some h)) example_heap ''/app'' (strModulePath (example_config [''gate'', ''gate''])) n a"
    unfolding cfg using l by auto
  have c2: "chain example_heap (Some a) as \<Longrightarrow> ?L ''gate'' a \<Longrightarrow> as = [0]" for a as
  proof -
    have e: "chain example_heap None bs \<Longrightarrow> bs = []" for bs by (cases bs) auto
    assume "chain example_heap (Some a) as" "?L ''gate'' a"
    with loads_unique [OF l(1), of a] nxt(1) e show ?thesis by (cases as) auto
  qed
  have "\<nexists>ass. library_chains example_dlopen (\<lambda>h. Some (Some h)) example_heap ''/app'' (example_config [''gate'', ''gate'']) ass \<and>
      distinct (names_of example_heap (concat ass))"
    unfolding library_chains_def cfg by (auto simp: list_all2_Cons1 dest!: c2)
  with modules_startup [OF ok h2] s1 names show ?thesis by (auto simp del: One_nat_def)
qed

text \<open>
  A module object built by \<^verbatim>\<open>CREATE_MODULE\<close> carries the first 63 characters of its class name
  when 63 bytes can be read from the name on; a shorter name is copied together with what follows
  it in memory, and when nothing readable follows, the copy leaves the object.
\<close>

theorem module_name_copied:
  assumes "length junk = 64" "NUL \<notin> set name"
  shows "create_module (name @ [NUL] @ rest) junk lib =
    (if length (name @ [NUL] @ rest) < 63 then Inl OutOfBounds
     else Inr (fst lib @ [\<lparr>m_pNextModule = snd lib, m_pName = take 63 (name @ [NUL] @ rest) @ [NUL]\<rparr>], Some (length (fst lib)))) \<and>
    GetName \<lparr>m_pNextModule = snd lib, m_pName = take 63 (name @ [NUL] @ rest) @ [NUL]\<rparr> = Inr (take 63 name)"
proof -
  let ?mem = "name @ [NUL] @ rest"
  have pad: "takeWhile (\<lambda>c. c \<noteq> NUL) (xs @ NUL # ys) = xs" if "NUL \<notin> set xs" for xs ys
    using that by (subst takeWhile_append2) auto
  have name: "takeWhile (\<lambda>c. c \<noteq> NUL) (take 63 ?mem @ [NUL]) = take 63 name"
  proof (cases "length name < 63")
    case True
    then have "take 63 ?mem @ [NUL] = name @ NUL # (take (62 - length name) rest @ [NUL])"
      by (simp add: take_Cons')
    with True pad [OF assms(2)] show ?thesis by simp
  next
    case False
    have "NUL \<notin> set (take 63 name)" using assms(2) by (auto dest: in_set_takeD)
    from False pad [OF this, of "[]"] show ?thesis by simp
  qed
  let ?m = "IModule_new junk"
  have m: "m_pName ?m = junk[63 := NUL]" "length (m_pName ?m) = 64" "m_pNextModule ?m = None"
    using assms(1) by (simp_all add: IModule_new_def)
  have copy: "blit (junk[63 := NUL]) 0 (take 63 ?mem) = take 63 ?mem @ [NUL]" if "63 \<le> length ?mem"
  proof -
    have "drop 63 (junk[63 := NUL]) = [junk[63 := NUL] ! 63]"
      using assms(1) by (subst Cons_nth_drop_Suc [symmetric]) auto
    moreover have "length (take 63 ?mem) = 63" using that by simp
    ultimately show ?thesis using assms(1) unfolding blit_def by (simp only: add_0_left) simp
  qed
  have set: "SetName ?mem ?m = (if length ?mem < 63 then Inl OutOfBounds
      else Inr (True, \<lparr>m_pNextModule = None, m_pName = take 63 ?mem @ [NUL]\<rparr>))"
  proof (cases "length ?mem < 63")
    case True
    then show ?thesis using m(2) by (simp add: SetName_def SafeMemcpy_def memcpy_def)
  next
    case False
    then have "SafeMemcpy (m_pName ?m) 0 (length (m_pName ?m)) ?mem (MODULE_NAME_LENGTH - 1) = Inr (take 63 ?mem @ [NUL])"
      using m copy by (subst SafeMemcpy_Inr) simp_all
    with False m(3) show ?thesis unfolding SetName_def by (cases ?m) simp
  qed
  show ?thesis
    unfolding create_module_def case_prod_beta set using name
    by (simp add: SetNext_def GetName_def)
qed

theorem module_name_copied_witness:
  "create_module (literal ''Gate'') (replicate 64 NUL) ([], None) =
     Inr ([\<lparr>m_pNextModule = None, m_pName = take 63 (literal ''Gate'') @ [NUL]\<rparr>], Some 0) \<and>
   create_module (''Gate'' @ [NUL]) (replicate 64 NUL) ([], None) = Inl OutOfBounds"
proof -
  have n: "NUL \<notin> set ''Gate''" by code_simp
  have l: "literal ''Gate'' = ''Gate'' @ [NUL] @ replicate 63 NUL"
    unfolding literal_def by (simp add: numeral_eq_Suc)
  show ?thesis
    using module_name_copied [OF length_replicate n, where rest = "replicate 63 NUL" and lib = "([], None)"]
      module_name_copied [OF length_replicate n, where rest = "[]" and lib = "([], None)"]
    unfolding l by simp
qed

end
