(* ===== verification/Clients.thy ===== *)
theory Clients
  imports Net_Worker Rand
begin

text \<open>
  src/logic/Clients: the load-test module. A timer of the manager connects two clients per tick;
  a client is a session that counts the connections of all clients in a static counter and
  otherwise swallows what it receives. Clients live in the static pool of the class; the events
  the engine reports to a session are those of theory Net_Worker.
\<close>

record client =
  cl_rand :: crand
  cl_bIsConnected :: bool
  cl_nGroupID :: s32

record clients =
  s_nLinkCount :: s32
  s_oClientPool :: "client tpool"

abbreviation (input) client_sz :: nat where "client_sz \<equiv> 56"

text \<open>\<^verbatim>\<open>Client()\<close>: the seed is as the memory was (zero in a fresh block).\<close>

definition Client_new :: client where
  "Client_new = \<lparr>cl_rand = \<lparr>m_lSeed = 0\<rparr>, cl_bIsConnected = False, cl_nGroupID = - 1\<rparr>"

definition client_at :: "clients \<Rightarrow> uaddr \<Rightarrow> client" where
  "client_at st a = get_unit (s_oClientPool st) a"

definition set_client :: "uaddr \<Rightarrow> client \<Rightarrow> clients \<Rightarrow> clients" where
  "set_client a c st = st\<lparr>s_oClientPool := put_unit a c (s_oClientPool st)\<rparr>"

definition Client_Create :: "clients \<Rightarrow> (uaddr option \<times> clients) outcome" where
  "Client_Create st =
     bindE (TPool_Create client_sz Client_new 64 (s_oClientPool st)) (\<lambda>(p, pool).
       Inr (p, st\<lparr>s_oClientPool := pool\<rparr>))"

definition Client_Release :: "uaddr \<Rightarrow> clients \<Rightarrow> clients outcome" where
  "Client_Release a st =
     bindE (TASSERT (cl_bIsConnected (client_at st a) = False) ''wtf'') (\<lambda>_.
       bindE (TPool_Recover client_sz a (s_oClientPool st)) (\<lambda>pool. Inr (st\<lparr>s_oClientPool := pool\<rparr>)))"

definition Client_OnRecv :: "s32 \<Rightarrow> s32" where
  "Client_OnRecv size0 = size0"

definition Client_OnDisconnect :: "uaddr \<Rightarrow> clients \<Rightarrow> clients outcome" where
  "Client_OnDisconnect a st =
     bindE (chk_s32 (s_nLinkCount st - 1)) (\<lambda>n.
       let st = st\<lparr>s_nLinkCount := n\<rparr> in
       bindE (TASSERT (s_nLinkCount st \<ge> 0 \<and> cl_bIsConnected (client_at st a) = True) ''wtf'') (\<lambda>_.
         Inr (set_client a ((client_at st a)\<lparr>cl_bIsConnected := False\<rparr>) st)))"

text \<open>\<open>now\<close> is the clock; \<^verbatim>\<open>SetSeed\<close> takes its low 32 bits. \<^verbatim>\<open>%\<close> truncates towards zero.\<close>

definition Client_OnConnected :: "s64 \<Rightarrow> uaddr \<Rightarrow> clients \<Rightarrow> clients outcome" where
  "Client_OnConnected now a st =
     (let c = (client_at st a)\<lparr>cl_rand := SetSeed (word_of_int now) (cl_rand (client_at st a)),
                               cl_nGroupID := s_nLinkCount st smod 40\<rparr> in
      bindE (chk_s32 (s_nLinkCount st + 1)) (\<lambda>n.
        let st = st\<lparr>s_nLinkCount := n\<rparr> in
        bindE (TASSERT (s_nLinkCount st > 0 \<and> cl_bIsConnected c = False) ''wtf'') (\<lambda>_.
          Inr (set_client a (c\<lparr>cl_bIsConnected := True\<rparr>) st))))"

definition Client_OnConnectFailed :: "uaddr \<Rightarrow> clients \<Rightarrow> clients outcome" where
  "Client_OnConnectFailed a st = bindE (TASSERT (cl_bIsConnected (client_at st a) = False) ''wtf'') (\<lambda>_. Inr st)"

text \<open>The dispatch of an engine event to the client at \<open>a\<close>.\<close>

fun client_event :: "s64 \<Rightarrow> uaddr \<Rightarrow> host_event \<Rightarrow> clients \<Rightarrow> clients outcome" where
  "client_event now a (OnConnected h) st = Client_OnConnected now a st"
| "client_event now a (OnDisconnect h) st = Client_OnDisconnect a st"
| "client_event now a (OnConnectFailed h) st = Client_OnConnectFailed a st"
| "client_event now a _ st = Inr st"

fun client_events :: "s64 \<Rightarrow> uaddr \<Rightarrow> host_event list \<Rightarrow> clients \<Rightarrow> clients outcome" where
  "client_events now a [] st = Inr st"
| "client_events now a (e # es) st = bindE (client_event now a e st) (client_events now a es)"

section \<open>ClientMgr\<close>

text \<open>\<^verbatim>\<open>Initialize\<close> starts the timer: id, interval, delay, loop as passed to the kernel.\<close>

definition ClientMgr_Initialize :: "bool \<times> (s32 \<times> s64 \<times> s64 \<times> s64)" where
  "ClientMgr_Initialize = (True, (1000000, 100, 0, 1000))"

definition ClientMgr_Launched :: bool where "ClientMgr_Launched = True"
definition ClientMgr_Destroy :: bool where "ClientMgr_Destroy = True"

text \<open>
  \<^verbatim>\<open>OnTime\<close>: \<open>start_client a\<close> is what \<^verbatim>\<open>StartTcpClient\<close> does for the client at \<open>a\<close>, the events it
  reports to it before it returns, and its result.
\<close>

definition connect_client ::
  "s64 \<Rightarrow> (uaddr \<Rightarrow> string \<Rightarrow> s32 \<Rightarrow> host_event list \<times> bool) \<Rightarrow> clients \<Rightarrow> clients outcome" where
  "connect_client now start_client st =
     bindE (Client_Create st) (\<lambda>(p, st).
       case p of
         None \<Rightarrow> Inl NullPointer
       | Some a \<Rightarrow>
           let (evs, ok) = start_client a ''10.240.58.22'' 12580 in
           bindE (client_events now a evs st) (\<lambda>st.
             if \<not> ok then Client_Release a st else Inr st))"

fun connect_clients ::
  "nat \<Rightarrow> s64 \<Rightarrow> (nat \<Rightarrow> uaddr \<Rightarrow> string \<Rightarrow> s32 \<Rightarrow> host_event list \<times> bool) \<Rightarrow> clients \<Rightarrow> clients outcome" where
  "connect_clients 0 now start_client st = Inr st"
| "connect_clients (Suc k) now start_client st =
     bindE (connect_client now (start_client k) st) (connect_clients k now start_client)"

definition ClientMgr_OnTime ::
  "s64 \<Rightarrow> (nat \<Rightarrow> uaddr \<Rightarrow> string \<Rightarrow> s32 \<Rightarrow> host_event list \<times> bool) \<Rightarrow> clients \<Rightarrow> clients outcome" where
  "ClientMgr_OnTime now start_client st = connect_clients 2 now start_client st"

section \<open>The counter\<close>

text \<open>
  While the engine keeps to one \<^verbatim>\<open>OnConnected\<close> per connection, the counter is the number of
  connected clients: the invariant every operation keeps.
\<close>

definition linked :: "clients \<Rightarrow> uaddr set" where
  "linked st = {a \<in> in_use (s_oClientPool st). cl_bIsConnected (client_at st a)}"

definition clients_inv :: "clients \<Rightarrow> bool" where
  "clients_inv st \<longleftrightarrow> pool_inv client_sz (s_oClientPool st) \<and> in_s32 (s_nLinkCount st) \<and> finite (linked st) \<and>
     s_nLinkCount st = int (card (linked st)) \<and>
     idle_sat (\<lambda>c. \<not> cl_bIsConnected c) (s_oClientPool st)"

lemma client_at_set:
  "pool_inv client_sz (s_oClientPool st) \<Longrightarrow> a \<in> in_use (s_oClientPool st) \<Longrightarrow>
     client_at (set_client a c st) b = (if b = a then c else client_at st b)"
  using put_unit_ok(3) [of client_sz "s_oClientPool st" a c b]
  by (simp add: client_at_def set_client_def in_use_valid)

lemma linked_set:
  assumes "pool_inv client_sz (s_oClientPool st)" "a \<in> in_use (s_oClientPool st)"
  shows "linked (set_client a c st) =
    (if cl_bIsConnected c then insert a (linked st) else linked st - {a})"
  using client_at_set [OF assms] put_unit_ok(2) [OF assms(1) in_use_valid [OF assms(2)], of c] assms(2)
  by (auto simp: linked_def set_client_def split: if_splits)

lemma clients_inv_set:
  assumes "clients_inv st" "a \<in> in_use (s_oClientPool st)"
    and n: "n = int (card (if cl_bIsConnected c then insert a (linked st) else linked st - {a}))"
    and small: "in_s32 n"
  shows "clients_inv (set_client a c (st\<lparr>s_nLinkCount := n\<rparr>))"
proof -
  let ?s = "st\<lparr>s_nLinkCount := n\<rparr>"
  have p: "pool_inv client_sz (s_oClientPool ?s)" "a \<in> in_use (s_oClientPool ?s)"
    using assms by (simp_all add: clients_inv_def)
  have "linked ?s = linked st" by (simp add: linked_def client_at_def)
  with linked_set [OF p, of c] have l: "linked (set_client a c ?s) =
      (if cl_bIsConnected c then insert a (linked st) else linked st - {a})" by simp
  have h: "pool_inv client_sz (s_oClientPool (set_client a c ?s))"
    "idle_sat (\<lambda>c. \<not> cl_bIsConnected c) (s_oClientPool (set_client a c ?s))"
    using put_unit_ok(1) [OF p(1) in_use_valid [OF p(2)], of c] put_unit_idle [OF p] assms(1)
    by (simp_all add: set_client_def clients_inv_def)
  have "s_nLinkCount (set_client a c ?s) = n" by (simp add: set_client_def)
  moreover have "finite (linked (set_client a c ?s))" using l assms(1) by (simp add: clients_inv_def)
  ultimately show ?thesis unfolding clients_inv_def using h small n l by metis
qed

lemma OnConnected_counts:
  assumes "clients_inv st" "a \<in> in_use (s_oClientPool st)" "\<not> cl_bIsConnected (client_at st a)"
    and "s_nLinkCount st < 2 ^ 31 - 1"
  shows "\<exists>st'. Client_OnConnected now a st = Inr st' \<and> clients_inv st' \<and> linked st' = insert a (linked st)"
proof -
  let ?n = "s_nLinkCount st + 1"
  let ?c = "(client_at st a)\<lparr>cl_rand := SetSeed (word_of_int now) (cl_rand (client_at st a)),
      cl_nGroupID := s_nLinkCount st smod 40, cl_bIsConnected := True\<rparr>"
  have a: "a \<notin> linked st" "finite (linked st)" "s_nLinkCount st = int (card (linked st))"
    using assms by (auto simp: linked_def clients_inv_def)
  then have n: "?n = int (card (if cl_bIsConnected ?c then insert a (linked st) else linked st - {a}))" by simp
  have small: "in_s32 ?n" "0 < ?n" using a(3) assms(4) by (simp_all add: in_s32_def)
  then have "Client_OnConnected now a st = Inr (set_client a ?c (st\<lparr>s_nLinkCount := ?n\<rparr>))"
    using assms(3) by (simp add: Client_OnConnected_def Let_def)
  moreover have "linked (set_client a ?c (st\<lparr>s_nLinkCount := ?n\<rparr>)) = insert a (linked st)"
    using linked_set [of "st\<lparr>s_nLinkCount := ?n\<rparr>" a ?c] assms(1,2)
    by (simp add: clients_inv_def linked_def client_at_def)
  ultimately show ?thesis using clients_inv_set [OF assms(1,2) n small(1)] by blast
qed

lemma OnDisconnect_counts:
  assumes "clients_inv st" "a \<in> linked st"
  shows "\<exists>st'. Client_OnDisconnect a st = Inr st' \<and> clients_inv st' \<and> linked st' = linked st - {a}"
proof -
  let ?n = "s_nLinkCount st - 1" and ?c = "(client_at st a)\<lparr>cl_bIsConnected := False\<rparr>"
  have a: "finite (linked st)" "s_nLinkCount st = int (card (linked st))" "a \<in> in_use (s_oClientPool st)"
      "cl_bIsConnected (client_at st a)" "0 < card (linked st)"
    using assms by (auto simp: linked_def clients_inv_def card_gt_0_iff)
  have n: "?n = int (card (if cl_bIsConnected ?c then insert a (linked st) else linked st - {a}))"
    using a(1,2,5) assms(2) by (simp add: card_Diff_singleton of_nat_diff Suc_leI)
  have small: "in_s32 ?n" using assms(1) a(2,5) by (simp add: clients_inv_def in_s32_def)
  then have "Client_OnDisconnect a st = Inr (set_client a ?c (st\<lparr>s_nLinkCount := ?n\<rparr>))"
    using a(2,4,5) by (simp add: Client_OnDisconnect_def Let_def client_at_def)
  moreover have "linked (set_client a ?c (st\<lparr>s_nLinkCount := ?n\<rparr>)) = linked st - {a}"
    using linked_set [of "st\<lparr>s_nLinkCount := ?n\<rparr>" a ?c] assms(1) a(3)
    by (simp add: clients_inv_def linked_def client_at_def)
  ultimately show ?thesis using clients_inv_set [OF assms(1) a(3) n small] by blast
qed

text \<open>A second \<^verbatim>\<open>OnConnected\<close> for one connection aborts.\<close>

lemma second_OnConnected:
  assumes "clients_inv st" "a \<in> in_use (s_oClientPool st)" "s_nLinkCount st < 2 ^ 31 - 2"
  shows "client_events now a [OnConnected h, OnConnected h] st = Inl (Assertion ''wtf'')"
proof (cases "cl_bIsConnected (client_at st a)")
  case True
  have "in_s32 (s_nLinkCount st + 1)" using assms(1,3) by (simp add: clients_inv_def in_s32_def)
  with True show ?thesis by (simp add: Client_OnConnected_def Let_def)
next
  case False
  have "s_nLinkCount st < 2 ^ 31 - 1" using assms(3) by simp
  with OnConnected_counts [OF assms(1,2) False] obtain st' where st': "Client_OnConnected now a st = Inr st'"
      "clients_inv st'" "linked st' = insert a (linked st)" by blast
  have fin: "finite (linked st)" "s_nLinkCount st = int (card (linked st))" "s_nLinkCount st' = int (card (linked st'))"
    using assms(1) st'(2) by (simp_all add: clients_inv_def)
  then have "s_nLinkCount st' \<le> s_nLinkCount st + 1" "0 \<le> s_nLinkCount st'"
    using card_insert_le_m1 [of "Suc (card (linked st))" "linked st" a] by (simp_all add: st'(3) card_insert_if)
  then have "in_s32 (s_nLinkCount st' + 1)" using assms(3) by (simp add: in_s32_def)
  moreover have "cl_bIsConnected (client_at st' a)" using st'(3) by (auto simp: linked_def)
  ultimately have "Client_OnConnected now a st' = Inl (Assertion ''wtf'')"
    by (simp add: Client_OnConnected_def Let_def)
  with st'(1) show ?thesis by simp
qed

end
