(* ===== verification/Clients_Spec.thy ===== *)
theory Clients_Spec
  imports Clients Net_Connect
begin

text \<open>
  The load-test clients on the engine of theory Net_Epoller: what the events of one \<^verbatim>\<open>AddClient\<close>
  do to the client they are delivered to, and the pool of a manager whose clients never go back.
\<close>

text \<open>A disconnected client is not released: nothing but a failed start gives clients back.\<close>

lemma events_keep_in_use:
  assumes "client_events now a es st = Inr st'" "pool_inv client_sz (s_oClientPool st)" "a \<in> in_use (s_oClientPool st)"
  shows "in_use (s_oClientPool st') = in_use (s_oClientPool st) \<and> pool_inv client_sz (s_oClientPool st')"
  using assms
proof (induction es arbitrary: st)
  case (Cons ev es)
  from Cons.prems(1) obtain s1 where s1: "client_event now a ev st = Inr s1" "client_events now a es s1 = Inr st'"
    by (auto simp: outcome_simps)
  have "in_use (s_oClientPool s1) = in_use (s_oClientPool st) \<and> pool_inv client_sz (s_oClientPool s1)"
    using s1(1) put_unit_ok(1,2) [OF Cons.prems(2) in_use_valid [OF Cons.prems(3)]] Cons.prems(2)
    by (cases ev) (auto simp: Client_OnConnected_def Client_OnDisconnect_def Client_OnConnectFailed_def
        set_client_def outcome_simps Let_def)
  with Cons.IH [OF s1(2)] Cons.prems(3) show ?case by auto
qed simp

text \<open>
  When the server a client connects to answers at once, the client module stops the process:
  the engine reports the connection twice during that one \<^verbatim>\<open>AddClient\<close>, and the client asserts
  that it is not connected yet.
\<close>

theorem immediate_connect_aborts_client:
  assumes "AddClient hs h ip port e = Inr (ok, e')" "conn_ok (ep_net e)"
    and "open_client ip port (socks e) = Inr (False, fd, addr, w)" "sock_answers w = r # rs" "ans_ret r = 0"
    and "clients_inv st" "a \<in> in_use (s_oClientPool st)" "s_nLinkCount st < 2 ^ 31 - 2"
  shows "client_events now a (drop (length (history (ep_net e))) (history (ep_net e'))) st =
    Inl (Assertion ''wtf'')"
proof -
  have "history (ep_net e') = history (ep_net e) @ [OnConnected h, OnConnected h]"
    using AddClient_outcomes [OF assms(1-4)] assms(5) by simp
  then show ?thesis using second_OnConnected [OF assms(6-8)] by simp
qed

theorem immediate_connect_aborts_client_witness:
  "\<exists>ok e' st a. AddClient example_hosts 9 ''10.0.0.7'' 80 (example_engine [0] (client_answers (Ans 0 0 []))) = Inr (ok, e') \<and>
     a \<in> in_use (s_oClientPool st) \<and> client_events 5 a (history (ep_net e')) st = Inl (Assertion ''wtf'')"
proof -
  obtain w ok e' where e: "AddClient example_hosts 9 ''10.0.0.7'' 80 (example_engine [0] (client_answers (Ans 0 0 []))) = Inr (ok, e')"
    "open_client ''10.0.0.7'' 80 (socks (example_engine [0] (client_answers (Ans 0 0 [])))) =
       Inr (False, 7, sockaddr_in 80 [10, 0, 0, 7], w)" "sock_answers w = [Ans 0 0 []]"
    using example_AddClient by blast
  obtain p where p: "TPool_new client_sz Client_new 64 = Inr p" "pool_inv client_sz p" "in_use p = {}"
    using TPool_new_inv [of client_sz Client_new 64] by blast
  have idle: "idle_sat (\<lambda>c. \<not> cl_bIsConnected c) p"
    by (rule TPool_new_idle [where P = "\<lambda>c. \<not> cl_bIsConnected c", OF _ p(1)]) (simp add: Client_new_def)
  obtain a q where q: "TPool_Create client_sz Client_new 64 p = Inr (Some a, q)" "pool_inv client_sz q"
      "in_use q = {a}" "idle_sat (\<lambda>c. \<not> cl_bIsConnected c) q" "\<not> cl_bIsConnected (get_unit q a)"
    using clean_pool.create_clean [OF p(2) idle, of Client_new] p(3) by (auto simp: Client_new_def)
  let ?st = "\<lparr>s_nLinkCount = 0, s_oClientPool = q\<rparr>"
  have "linked ?st = {}" using q(3,5) by (simp add: linked_def client_at_def)
  then have "clients_inv ?st" using q by (simp add: clients_inv_def in_s32_def)
  from immediate_connect_aborts_client [OF e(1) example_engine_ok e(2,3) _ this, of a 5] q(3)
  have "client_events 5 a (drop (length (history (ep_net (example_engine [0] (client_answers (Ans 0 0 []))))))
      (history (ep_net e'))) ?st = Inl (Assertion ''wtf'')" by simp
  moreover have "history (ep_net (example_engine [0] (client_answers (Ans 0 0 [])))) = []"
    by (simp add: example_engine_def example_net_def)
  ultimately have "client_events 5 a (history (ep_net e')) ?st = Inl (Assertion ''wtf'')" by simp
  moreover have "a \<in> in_use (s_oClientPool ?st)" using q(3) by simp
  ultimately show ?thesis using e(1) by blast
qed

end
