(* ===== verification/Xml_Text.thy ===== *)
theory Xml_Text
  imports Prelude
begin

text \<open>
  The character level of src/Public/tinyxml/tinyxmlparser.cpp (with the inline functions of
  tinyxml.h and \<^verbatim>\<open>EncodeString\<close> of tinyxml.cpp), which reads the configuration files: white space,
  names, entities, text up to an end tag, and the row and column of a position. The library is
  built without \<^verbatim>\<open>TIXML_USE_STL\<close> and without \<^verbatim>\<open>NDEBUG\<close>, so \<^verbatim>\<open>assert\<close> aborts.

  A pointer into the text is the list of the bytes from there to the terminator (\<open>[]\<close> points at
  the terminator), \<open>None\<close> is \<^verbatim>\<open>NULL\<close>. The bytes of a C string are not zero. Moving a pointer
  behind the terminator is the fault \<open>OutOfBounds\<close>: every caller reads through it at once.
\<close>

section \<open>Bytes\<close>

datatype encoding = TIXML_ENCODING_UNKNOWN | TIXML_ENCODING_UTF8 | TIXML_ENCODING_LEGACY

type_synonym cstr = "byte list"

abbreviation xassert :: "bool \<Rightarrow> unit outcome" where
  "xassert p \<equiv> TASSERT p ''tinyxml''"

text \<open>\<^verbatim>\<open>p[i]\<close>; at the end of the string it reads the terminator.\<close>

definition peek :: "cstr \<Rightarrow> nat \<Rightarrow> byte" where
  "peek p i = (if i < length p then p ! i else 0)"

definition bytes_of :: "string \<Rightarrow> cstr" where
  "bytes_of s = map of_char s"

definition string_of :: "cstr \<Rightarrow> string" where
  "string_of s = map (\<lambda>b. char_of (unat b)) s"

lemma unat_of_char: "unat (of_char c :: byte) = of_char c"
  by (cases c) simp

lemma string_of_bytes: "string_of (bytes_of s) = s"
  by (simp add: string_of_def bytes_of_def unat_of_char map_idI)

definition IsWhiteSpace :: "byte \<Rightarrow> bool" where
  "IsWhiteSpace c \<longleftrightarrow> (9 \<le> c \<and> c \<le> 13 \<or> c = 32) \<or> c = 10 \<or> c = 13"

definition isalpha :: "byte \<Rightarrow> bool" where
  "isalpha c \<longleftrightarrow> 65 \<le> c \<and> c \<le> 90 \<or> 97 \<le> c \<and> c \<le> 122"

definition isdigit :: "byte \<Rightarrow> bool" where
  "isdigit c \<longleftrightarrow> 48 \<le> c \<and> c \<le> 57"

definition IsAlpha :: "byte \<Rightarrow> bool" where
  "IsAlpha anyByte = (if anyByte < 127 then isalpha anyByte else True)"

definition IsAlphaNum :: "byte \<Rightarrow> bool" where
  "IsAlphaNum anyByte = (if anyByte < 127 then isalpha anyByte \<or> isdigit anyByte else True)"

text \<open>\<^verbatim>\<open>tolower\<close> of the C locale changes the ASCII capitals only, so both branches of the code agree.\<close>

definition ToLower :: "byte \<Rightarrow> encoding \<Rightarrow> byte" where
  "ToLower v enc =
     (let lower = (if 65 \<le> v \<and> v \<le> 90 then v + 32 else v) in
      if enc = TIXML_ENCODING_UTF8 then (if v < 128 then lower else v) else lower)"

text \<open>The table of sequence lengths by lead byte, row by row of 16.\<close>

definition utf8ByteTable :: "byte \<Rightarrow> nat" where
  "utf8ByteTable c =
     (if c < 0xc2 then 1 else if c < 0xe0 then 2 else if c < 0xf0 then 3 else if c < 0xf5 then 4 else 1)"

abbreviation (input) TIXML_UTF_LEAD_0 :: byte where "TIXML_UTF_LEAD_0 \<equiv> 0xef"
abbreviation (input) TIXML_UTF_LEAD_1 :: byte where "TIXML_UTF_LEAD_1 \<equiv> 0xbb"
abbreviation (input) TIXML_UTF_LEAD_2 :: byte where "TIXML_UTF_LEAD_2 \<equiv> 0xbf"

section \<open>UTF-8\<close>

unbundle bit_operations_syntax

text \<open>
  \<^verbatim>\<open>ConvertUTF32ToUTF8\<close>: the fall-through switch writes the continuation bytes from the last to
  the second and then the lead byte. An input that is too large gives no bytes (length 0).
\<close>

definition FIRST_BYTE_MARK :: "nat \<Rightarrow> u64" where
  "FIRST_BYTE_MARK n = [0x00, 0x00, 0xC0, 0xE0, 0xF0, 0xF8, 0xFC] ! n"

fun utf8_bytes :: "nat \<Rightarrow> nat \<Rightarrow> u64 \<Rightarrow> byte list" where
  "utf8_bytes n 0 input = []"
| "utf8_bytes n (Suc 0) input = [ucast (input OR FIRST_BYTE_MARK n)]"
| "utf8_bytes n (Suc k) input = utf8_bytes n k (drop_bit 6 input) @ [ucast ((input OR 0x80) AND 0xBF)]"

definition ConvertUTF32ToUTF8 :: "u64 \<Rightarrow> byte list" where
  "ConvertUTF32ToUTF8 input =
     (let len = (if input < 0x80 then 1 else if input < 0x800 then 2 else if input < 0x10000 then 3
                 else if input < 0x200000 then 4 else 0) in
      utf8_bytes len len input)"

section \<open>Row and column\<close>

record parsing_data =
  cursor_row :: int
  cursor_col :: int
  stamp :: cstr
  tabsize :: int

definition ParsingData_new :: "cstr \<Rightarrow> int \<Rightarrow> int \<Rightarrow> int \<Rightarrow> parsing_data" where
  "ParsingData_new start ts row col = \<lparr>cursor_row = row, cursor_col = col, stamp = start, tabsize = ts\<rparr>"

text \<open>
  The loop of \<^verbatim>\<open>Stamp\<close> while \<open>p\<close> is before \<^verbatim>\<open>now\<close>, that is, while more than \<open>n\<close> bytes remain
  (\<open>n\<close> the number of bytes from \<^verbatim>\<open>now\<close> to the end). With the lead byte 0xef and fewer than two
  bytes behind it the code advances nothing and loops for ever.
\<close>

function stamp_loop :: "encoding \<Rightarrow> int \<Rightarrow> nat \<Rightarrow> cstr \<Rightarrow> int \<Rightarrow> int \<Rightarrow> (cstr \<times> int \<times> int) outcome" where
  "stamp_loop enc ts n p row col =
     (if length p \<le> n then Inr (p, row, col)
      else
        case p of
          [] \<Rightarrow> Inr (p, row, col)
        | c # q \<Rightarrow>
            if c = 13 then stamp_loop enc ts n (if peek q 0 = 10 then drop 1 q else q) (row + 1) 0
            else if c = 10 then stamp_loop enc ts n (if peek q 0 = 13 then drop 1 q else q) (row + 1) 0
            else if c = 9 then stamp_loop enc ts n q row ((col div ts + 1) * ts)
            else if c = TIXML_UTF_LEAD_0 then
              if enc = TIXML_ENCODING_UTF8 then
                if peek p 1 \<noteq> 0 \<and> peek p 2 \<noteq> 0 then
                  if peek p 1 = TIXML_UTF_LEAD_1 \<and> peek p 2 = TIXML_UTF_LEAD_2 then stamp_loop enc ts n (drop 3 p) row col
                  else if peek p 1 = 0xbf \<and> peek p 2 = 0xbe then stamp_loop enc ts n (drop 3 p) row col
                  else if peek p 1 = 0xbf \<and> peek p 2 = 0xbf then stamp_loop enc ts n (drop 3 p) row col
                  else stamp_loop enc ts n (drop 3 p) row (col + 1)
                else Inl Diverges
              else stamp_loop enc ts n q row (col + 1)
            else if enc = TIXML_ENCODING_UTF8 then
              stamp_loop enc ts n (drop (let step = utf8ByteTable c in if step = 0 then 1 else step) p) row (col + 1)
            else stamp_loop enc ts n q row (col + 1))"
  by pat_completeness auto
termination
  by (relation "measure (\<lambda>(enc, ts, n, p, row, col). length p)") (auto simp: Let_def utf8ByteTable_def)

declare stamp_loop.simps [simp del]

definition Stamp :: "cstr option \<Rightarrow> encoding \<Rightarrow> parsing_data \<Rightarrow> parsing_data outcome" where
  "Stamp now enc d =
     bindE (xassert (now \<noteq> None)) (\<lambda>_.
       case now of
         None \<Rightarrow> Inl NullPointer
       | Some q \<Rightarrow>
           if tabsize d < 1 then Inr d
           else
             bindE (stamp_loop enc (tabsize d) (length q) (stamp d) (cursor_row d) (cursor_col d)) (\<lambda>(p, row, col).
               bindE (xassert (row \<ge> - 1)) (\<lambda>_.
                 bindE (xassert (col \<ge> - 1)) (\<lambda>_.
                   Inr (d\<lparr>cursor_row := row, cursor_col := col, stamp := p\<rparr>)))))"

section \<open>White space and names\<close>

text \<open>The two kinds of zero-width byte triples that are skipped next to white space.\<close>

definition is_mark :: "cstr \<Rightarrow> bool" where
  "is_mark p \<longleftrightarrow> peek p 0 = TIXML_UTF_LEAD_0 \<and>
     (peek p 1 = TIXML_UTF_LEAD_1 \<and> peek p 2 = TIXML_UTF_LEAD_2 \<or>
      peek p 1 = 0xbf \<and> peek p 2 = 0xbe \<or> peek p 1 = 0xbf \<and> peek p 2 = 0xbf)"

fun skip_utf8 :: "cstr \<Rightarrow> cstr" where
  "skip_utf8 [] = []"
| "skip_utf8 (c # q) =
     (if is_mark (c # q) then skip_utf8 (drop 2 q)
      else if IsWhiteSpace c then skip_utf8 q
      else c # q)"

definition SkipWhiteSpace :: "cstr option \<Rightarrow> encoding \<Rightarrow> cstr option" where
  "SkipWhiteSpace p enc =
     (case p of
        None \<Rightarrow> None
      | Some [] \<Rightarrow> None
      | Some q \<Rightarrow> Some (if enc = TIXML_ENCODING_UTF8 then skip_utf8 q else dropWhile IsWhiteSpace q))"

definition is_name_start :: "byte \<Rightarrow> bool" where
  "is_name_start c \<longleftrightarrow> IsAlpha c \<or> c = 95"

definition is_name_byte :: "byte \<Rightarrow> bool" where
  "is_name_byte c \<longleftrightarrow> IsAlphaNum c \<or> c = 95 \<or> c = 45 \<or> c = 46 \<or> c = 58"

text \<open>\<^verbatim>\<open>ReadName\<close>: the pointer behind the name (or \<^verbatim>\<open>NULL\<close>) and the name.\<close>

definition ReadName :: "cstr option \<Rightarrow> encoding \<Rightarrow> (cstr option \<times> cstr) outcome" where
  "ReadName p enc =
     bindE (xassert (p \<noteq> None)) (\<lambda>_.
       case p of
         Some (c # q) \<Rightarrow>
           if is_name_start c then Inr (Some (dropWhile is_name_byte (c # q)), takeWhile is_name_byte (c # q))
           else Inr (None, [])
       | _ \<Rightarrow> Inr (None, []))"

section \<open>Entities\<close>

definition entity :: "(cstr \<times> byte) list" where
  "entity = [(bytes_of ''&amp;'', 38), (bytes_of ''&lt;'', 60), (bytes_of ''&gt;'', 62),
             (bytes_of ''&quot;'', 34), (bytes_of ''&apos;'', 39)]"

text \<open>The digits before the semicolon, from the last one back to the \<open>x\<close> or \<open>#\<close> in front of them.\<close>

fun hex_back :: "byte list \<Rightarrow> u32 \<Rightarrow> u64 \<Rightarrow> u64 option" where
  "hex_back [] mult ucs = Some ucs"
| "hex_back (q # qs) mult ucs =
     (if q = 120 then Some ucs
      else if 48 \<le> q \<and> q \<le> 57 then hex_back qs (mult * 16) (ucs + ucast (mult * (ucast q - 48)))
      else if 97 \<le> q \<and> q \<le> 102 then hex_back qs (mult * 16) (ucs + ucast (mult * (ucast q - 97 + 10)))
      else if 65 \<le> q \<and> q \<le> 70 then hex_back qs (mult * 16) (ucs + ucast (mult * (ucast q - 65 + 10)))
      else None)"

fun dec_back :: "byte list \<Rightarrow> u32 \<Rightarrow> u64 \<Rightarrow> u64 option" where
  "dec_back [] mult ucs = Some ucs"
| "dec_back (q # qs) mult ucs =
     (if q = 35 then Some ucs
      else if 48 \<le> q \<and> q \<le> 57 then dec_back qs (mult * 10) (ucs + ucast (mult * (ucast q - 48)))
      else None)"

text \<open>\<^verbatim>\<open>strchr(p, ';')\<close>: the bytes before the semicolon and the rest from it on.\<close>

definition find_semicolon :: "cstr \<Rightarrow> (cstr \<times> cstr) option" where
  "find_semicolon p =
     (let rest = dropWhile (\<lambda>c. c \<noteq> 59) p in
      if rest = [] then None else Some (takeWhile (\<lambda>c. c \<noteq> 59) p, rest))"

definition char_reference :: "u64 \<Rightarrow> encoding \<Rightarrow> byte list" where
  "char_reference ucs enc = (if enc = TIXML_ENCODING_UTF8 then ConvertUTF32ToUTF8 ucs else [ucast ucs])"

text \<open>
  \<^verbatim>\<open>GetEntity\<close> at an ampersand: the new pointer and the bytes of the value (as many as \<^verbatim>\<open>*length\<close>
  says: none for an entity that is not recognised).
\<close>

definition GetEntity :: "cstr \<Rightarrow> encoding \<Rightarrow> cstr option \<times> byte list" where
  "GetEntity p enc =
     (if peek p 1 = 35 \<and> peek p 2 \<noteq> 0 then
        if peek p 2 = 120 then
          if peek p 3 = 0 then (None, [])
          else
            case find_semicolon (drop 3 p) of
              None \<Rightarrow> (None, [])
            | Some (ds, rest) \<Rightarrow>
                (case hex_back (rev ds) 1 0 of
                   None \<Rightarrow> (None, [])
                 | Some ucs \<Rightarrow> (Some (tl rest), char_reference ucs enc))
        else
          case find_semicolon (drop 2 p) of
            None \<Rightarrow> (None, [])
          | Some (ds, rest) \<Rightarrow>
              (case dec_back (rev ds) 1 0 of
                 None \<Rightarrow> (None, [])
               | Some ucs \<Rightarrow> (Some (tl rest), char_reference ucs enc))
      else
        case find (\<lambda>(str, chr). take (length str) p = str) entity of
          Some (str, chr) \<Rightarrow> (Some (drop (length str) p), [chr])
        | None \<Rightarrow> (Some (drop 1 p), []))"

text \<open>\<^verbatim>\<open>GetChar\<close> at a byte: one character, its entity expanded.\<close>

definition GetChar :: "cstr \<Rightarrow> encoding \<Rightarrow> (cstr option \<times> byte list) outcome" where
  "GetChar p enc =
     (let len = (if enc = TIXML_ENCODING_UTF8 then utf8ByteTable (peek p 0) else 1) in
      bindE (xassert (len < 5)) (\<lambda>_.
        if len = 1 then
          if peek p 0 = 38 then Inr (GetEntity p enc) else Inr (Some (drop 1 p), [peek p 0])
        else if len \<noteq> 0 then
          if len \<le> length p then Inr (Some (drop len p), take len p) else Inl OutOfBounds
        else Inr (None, [])))"

section \<open>Comparing and reading text\<close>

fun equal_prefix :: "bool \<Rightarrow> encoding \<Rightarrow> cstr \<Rightarrow> cstr \<Rightarrow> bool" where
  "equal_prefix ignoreCase enc q [] \<longleftrightarrow> True"
| "equal_prefix ignoreCase enc [] (t # ts) \<longleftrightarrow> False"
| "equal_prefix ignoreCase enc (c # q) (t # ts) \<longleftrightarrow>
     (if ignoreCase then ToLower c enc = ToLower t enc else c = t) \<and> equal_prefix ignoreCase enc q ts"

definition StringEqual :: "cstr option \<Rightarrow> cstr \<Rightarrow> bool \<Rightarrow> encoding \<Rightarrow> bool outcome" where
  "StringEqual p tag ignoreCase enc =
     bindE (xassert (p \<noteq> None)) (\<lambda>_.
       case p of
         Some (c # q) \<Rightarrow> Inr (equal_prefix ignoreCase enc (c # q) tag)
       | _ \<Rightarrow> bindE (xassert False) (\<lambda>_. Inr False))"

lemma find_semicolon_length: "find_semicolon p = Some (ds, rest) \<Longrightarrow> length (tl rest) < length p"
proof -
  assume f: "find_semicolon p = Some (ds, rest)"
  have "length (dropWhile (\<lambda>c. c \<noteq> 59) p) \<le> length p" by (simp add: length_dropWhile_le)
  then show ?thesis using f by (cases rest) (auto simp: find_semicolon_def Let_def split: if_splits)
qed

lemma entity_ne: "(str, chr) \<in> set entity \<Longrightarrow> 0 < length str"
  by (auto simp: entity_def bytes_of_def)

lemma GetEntity_shorter: "GetEntity p enc = (Some q, bs) \<Longrightarrow> p \<noteq> [] \<Longrightarrow> length q < length p"
proof -
  assume g: "GetEntity p enc = (Some q, bs)" and p: "p \<noteq> []"
  consider (none) "q = drop 1 p" | (named) str chr where "(str, chr) \<in> set entity" "q = drop (length str) p"
    | (hex) k ds rest where "find_semicolon (drop k p) = Some (ds, rest)" "q = tl rest"
    using g by (auto simp: GetEntity_def split: if_splits option.splits prod.splits dest: find_Some_iff [THEN iffD1])
      (metis (no_types, lifting) find_Some_iff nth_mem)+
  then show ?thesis
  proof cases
    case named
    with entity_ne [OF named(1)] p show ?thesis by simp
  next
    case hex
    with find_semicolon_length [OF hex(1)] show ?thesis by simp
  qed (use p in simp)
qed

lemma utf8ByteTable_pos: "0 < utf8ByteTable c \<and> utf8ByteTable c < 5"
  by (simp add: utf8ByteTable_def)

lemma GetChar_shorter: "GetChar p enc = Inr (Some q, bs) \<Longrightarrow> p \<noteq> [] \<Longrightarrow> length q < length p"
  using utf8ByteTable_pos [of "peek p 0"] GetEntity_shorter [of p enc q bs]
  by (auto simp: GetChar_def Let_def split: if_splits)

lemma skip_utf8_length: "length (skip_utf8 p) \<le> length p"
  by (induction p rule: skip_utf8.induct) auto

lemma SkipWhiteSpace_length: "SkipWhiteSpace (Some p) enc = Some q \<Longrightarrow> length q \<le> length p"
  using skip_utf8_length [of p] length_dropWhile_le [of IsWhiteSpace p]
  by (cases p) (auto simp: SkipWhiteSpace_def simp del: skip_utf8.simps dropWhile.simps split: if_splits)

text \<open>The loop that keeps all white space; \<open>endTag\<close> is not empty.\<close>

function keep_text :: "cstr \<Rightarrow> bool \<Rightarrow> encoding \<Rightarrow> cstr option \<Rightarrow> byte list \<Rightarrow> (cstr option \<times> byte list) outcome" where
  "keep_text endTag caseInsensitive enc p txt =
     (case p of
        None \<Rightarrow> Inr (None, txt)
      | Some [] \<Rightarrow> Inr (Some [], txt)
      | Some (c # q) \<Rightarrow>
          if equal_prefix caseInsensitive enc (c # q) endTag then Inr (Some (c # q), txt)
          else
            case GetChar (c # q) enc of
              Inl e \<Rightarrow> Inl e
            | Inr (p', bs) \<Rightarrow> keep_text endTag caseInsensitive enc p' (txt @ bs))"
  by pat_completeness auto
termination
  by (relation "measure (\<lambda>(e, i, enc, p, txt). case p of None \<Rightarrow> 0 | Some q \<Rightarrow> Suc (length q))")
    (auto split: option.splits dest: GetChar_shorter)

text \<open>The loop that condenses white space to single blanks.\<close>

function condense_text ::
  "cstr \<Rightarrow> bool \<Rightarrow> encoding \<Rightarrow> cstr option \<Rightarrow> bool \<Rightarrow> byte list \<Rightarrow> (cstr option \<times> byte list) outcome" where
  "condense_text endTag caseInsensitive enc p whitespace txt =
     (case p of
        None \<Rightarrow> Inr (None, txt)
      | Some [] \<Rightarrow> Inr (Some [], txt)
      | Some (c # q) \<Rightarrow>
          if equal_prefix caseInsensitive enc (c # q) endTag then Inr (Some (c # q), txt)
          else if c = 13 \<or> c = 10 then condense_text endTag caseInsensitive enc (Some q) True txt
          else if IsWhiteSpace c then condense_text endTag caseInsensitive enc (Some q) True txt
          else
            case GetChar (c # q) enc of
              Inl e \<Rightarrow> Inl e
            | Inr (p', bs) \<Rightarrow>
                condense_text endTag caseInsensitive enc p' False ((if whitespace then txt @ [32] else txt) @ bs))"
  by pat_completeness auto
termination
  by (relation "measure (\<lambda>(e, i, enc, p, w, txt). case p of None \<Rightarrow> 0 | Some q \<Rightarrow> Suc (length q))")
    (auto split: option.splits dest: GetChar_shorter)

declare keep_text.simps [simp del] condense_text.simps [simp del]

text \<open>\<^verbatim>\<open>ReadText\<close>; \<open>condense\<close> is the static \<^verbatim>\<open>condenseWhiteSpace\<close>.\<close>

definition ReadText :: "bool \<Rightarrow> cstr option \<Rightarrow> bool \<Rightarrow> cstr \<Rightarrow> bool \<Rightarrow> encoding \<Rightarrow> (cstr option \<times> byte list) outcome" where
  "ReadText condense p trimWhiteSpace endTag caseInsensitive enc =
     bindE (if \<not> trimWhiteSpace \<or> \<not> condense then keep_text endTag caseInsensitive enc p []
            else condense_text endTag caseInsensitive enc (SkipWhiteSpace p enc) False []) (\<lambda>(p, txt).
       let p = (case p of Some (c # q) \<Rightarrow> Some (drop (length endTag) (c # q)) | _ \<Rightarrow> p) in
       Inr (case p of Some (c # q) \<Rightarrow> Some (c # q) | _ \<Rightarrow> None, txt))"

section \<open>Encoding text\<close>

definition hex_digit :: "byte \<Rightarrow> byte" where
  "hex_digit d = (if d < 10 then d + 48 else d + 55)"

text \<open>\<^verbatim>\<open>"&#x%02X;"\<close> of a byte.\<close>

definition hex_reference :: "byte \<Rightarrow> byte list" where
  "hex_reference c = bytes_of ''&#x'' @ [hex_digit (drop_bit 4 c), hex_digit (c AND 0x0f)] @ [59]"

text \<open>
  The inner loop for a hexadecimal reference: from the ampersand on, bytes are copied until the
  next one is a semicolon or the last one; that byte is left to the outer loop.
\<close>

fun copy_reference :: "byte list \<Rightarrow> byte list \<times> byte list" where
  "copy_reference (c # d # r) =
     (if d = 59 then ([c], d # r) else (let (out, rest) = copy_reference (d # r) in (c # out, rest)))"
| "copy_reference r = ([], r)"

lemma copy_reference_length: "length (snd (copy_reference r)) \<le> length r"
  by (induction r rule: copy_reference.induct) (auto simp: Let_def split: prod.splits)

lemma copy_reference_shorter: "length (snd (copy_reference (c # d # r))) < length (c # d # r)"
  using copy_reference_length [of "d # r"] by (auto simp: Let_def split: prod.splits)

function EncodeString :: "byte list \<Rightarrow> byte list" where
  "EncodeString str =
     (case str of
        [] \<Rightarrow> []
      | c # r \<Rightarrow>
          if c = 38 \<and> 2 \<le> length r \<and> peek str 1 = 35 \<and> peek str 2 = 120 then
            fst (copy_reference str) @ EncodeString (snd (copy_reference str))
          else if c = 38 then fst (entity ! 0) @ EncodeString r
          else if c = 60 then fst (entity ! 1) @ EncodeString r
          else if c = 62 then fst (entity ! 2) @ EncodeString r
          else if c = 34 then fst (entity ! 3) @ EncodeString r
          else if c = 39 then fst (entity ! 4) @ EncodeString r
          else if c < 32 then hex_reference c @ EncodeString r
          else c # EncodeString r)"
  by pat_completeness auto
termination
proof (relation "measure length", goal_cases)
  case (2 str c r)
  then obtain d r' where "r = d # r'" by (cases r) auto
  with 2 copy_reference_shorter [of c d r'] show ?case by simp
qed auto

declare EncodeString.simps [simp del]

end
