(* ===== verification/Xml_Parse.thy ===== *)
theory Xml_Parse
  imports Xml_Text
begin

text \<open>
  The parser of src/Public/tinyxml/tinyxmlparser.cpp and the loading of a file in tinyxml.cpp:
  from the bytes of a file to the tree of nodes. A node is a value here, with its
  children in order; the code links them by pointers. Each \<^verbatim>\<open>Parse\<close> returns the pointer behind what it read (\<^verbatim>\<open>NULL\<close> after an
  error), the node, and the parsing data with the document's error. A node that failed is kept
  with what was read so far, as the code links it nevertheless.

  \<open>read_value\<close> and \<open>doc_loop\<close> take fuel, one unit per node read in the same element; running out
  is \<open>Diverges\<close>. Theory Xml_Spec shows that the length of the text is enough.
\<close>

section \<open>Nodes\<close>

type_synonym location = "int \<times> int"

record xattr =
  a_name :: "byte list"
  a_value :: "byte list"
  a_location :: location

datatype xnode =
    XElement location "byte list" "xattr list" "xnode list"
  | XComment location "byte list"
  | XUnknown location "byte list"
  | XText location "byte list" bool
  | XDeclaration location "byte list" "byte list" "byte list"

datatype xml_error =
    TIXML_ERROR_OPENING_FILE
  | TIXML_ERROR_PARSING_ELEMENT
  | TIXML_ERROR_FAILED_TO_READ_ELEMENT_NAME
  | TIXML_ERROR_READING_ELEMENT_VALUE
  | TIXML_ERROR_READING_ATTRIBUTES
  | TIXML_ERROR_PARSING_EMPTY
  | TIXML_ERROR_READING_END_TAG
  | TIXML_ERROR_PARSING_UNKNOWN
  | TIXML_ERROR_PARSING_COMMENT
  | TIXML_ERROR_PARSING_DECLARATION
  | TIXML_ERROR_DOCUMENT_EMPTY
  | TIXML_ERROR_PARSING_CDATA
  | TIXML_ERROR_DOCUMENT_TOP_ONLY

abbreviation (input) no_location :: location where "no_location \<equiv> (- 1, - 1)"

text \<open>\<^verbatim>\<open>Value()\<close>, \<^verbatim>\<open>ToElement()\<close> and \<^verbatim>\<open>ToText()\<close> of a node, and the C string of a byte string.\<close>

fun node_value :: "xnode \<Rightarrow> byte list" where
  "node_value (XElement l v as cs) = v"
| "node_value (XComment l v) = v"
| "node_value (XUnknown l v) = v"
| "node_value (XText l v c) = v"
| "node_value (XDeclaration l v e s) = []"

fun is_element :: "xnode \<Rightarrow> bool" where
  "is_element (XElement l v as cs) \<longleftrightarrow> True"
| "is_element _ \<longleftrightarrow> False"

definition c_str :: "byte list \<Rightarrow> cstr" where
  "c_str v = takeWhile (\<lambda>c. c \<noteq> 0) v"

definition Find :: "cstr \<Rightarrow> xattr list \<Rightarrow> xattr option" where
  "Find name as = find (\<lambda>a. c_str (a_name a) = name) as"

definition Add :: "xattr \<Rightarrow> xattr list \<Rightarrow> xattr list outcome" where
  "Add a as = bindE (xassert (Find (c_str (a_name a)) as = None)) (\<lambda>_. Inr (as @ [a]))"

section \<open>The state of a parse\<close>

record xstate =
  pd :: parsing_data
  xerr :: "(xml_error \<times> location) option"
  condense :: bool

definition cursor :: "xstate \<Rightarrow> location" where
  "cursor st = (cursor_row (pd st), cursor_col (pd st))"

definition stamp_at :: "cstr option \<Rightarrow> encoding \<Rightarrow> xstate \<Rightarrow> xstate outcome" where
  "stamp_at p enc st = bindE (Stamp p enc (pd st)) (\<lambda>d. Inr (st\<lparr>pd := d\<rparr>))"

text \<open>\<^verbatim>\<open>SetError\<close>: the first error stays; its place is known when a pointer is given.\<close>

definition SetError :: "xml_error \<Rightarrow> cstr option \<Rightarrow> encoding \<Rightarrow> xstate \<Rightarrow> xstate outcome" where
  "SetError err pError enc st =
     (if xerr st \<noteq> None then Inr st
      else
        case pError of
          None \<Rightarrow> Inr (st\<lparr>xerr := Some (err, no_location)\<rparr>)
        | Some p \<Rightarrow> bindE (stamp_at (Some p) enc st) (\<lambda>st. Inr (st\<lparr>xerr := Some (err, cursor st)\<rparr>)))"

text \<open>\<^verbatim>\<open>if (document) document->SetError(...); return 0;\<close>, with the node read so far.\<close>

definition fail_with ::
  "bool \<Rightarrow> xml_error \<Rightarrow> cstr option \<Rightarrow> encoding \<Rightarrow> 'n \<Rightarrow> xstate \<Rightarrow> (cstr option \<times> 'n \<times> xstate) outcome" where
  "fail_with doc err pError enc n st =
     bindE (if doc then SetError err pError enc st else Inr st) (\<lambda>st. Inr (None, n, st))"

abbreviation (input) no_more :: "cstr option \<Rightarrow> bool" where
  "no_more p \<equiv> p = None \<or> p = Some []"

section \<open>Attributes\<close>

text \<open>An unquoted value, up to white space or the end of the tag; a quote in it is an error.\<close>

fun unquoted :: "cstr \<Rightarrow> byte list \<times> cstr \<times> bool" where
  "unquoted [] = ([], [], True)"
| "unquoted (c # q) =
     (if IsWhiteSpace c \<or> c = 47 \<or> c = 62 then ([], c # q, True)
      else if c = 39 \<or> c = 34 then ([], c # q, False)
      else let (v, rest, ok) = unquoted q in (c # v, rest, ok))"

definition attr_new :: xattr where
  "attr_new = \<lparr>a_name = [], a_value = [], a_location = no_location\<rparr>"

definition attr_parse ::
  "bool \<Rightarrow> encoding \<Rightarrow> cstr option \<Rightarrow> xstate \<Rightarrow> (cstr option \<times> xattr \<times> xstate) outcome" where
  "attr_parse doc enc p st =
     (let p = SkipWhiteSpace p enc in
      if no_more p then Inr (None, attr_new, st)
      else
        bindE (stamp_at p enc st) (\<lambda>st.
        let a = attr_new\<lparr>a_location := cursor st\<rparr>; pErr = p in
        bindE (ReadName p enc) (\<lambda>(p, name).
        let a = a\<lparr>a_name := name\<rparr> in
        if no_more p then fail_with doc TIXML_ERROR_READING_ATTRIBUTES pErr enc a st
        else
          let p = SkipWhiteSpace p enc in
          if no_more p \<or> peek (the p) 0 \<noteq> 61 then fail_with doc TIXML_ERROR_READING_ATTRIBUTES p enc a st
          else
            let p = SkipWhiteSpace (Some (drop 1 (the p))) enc in
            if no_more p then fail_with doc TIXML_ERROR_READING_ATTRIBUTES p enc a st
            else if peek (the p) 0 = 39 then
              bindE (ReadText (condense st) (Some (drop 1 (the p))) False [39] False enc) (\<lambda>(p, v).
                Inr (p, a\<lparr>a_value := v\<rparr>, st))
            else if peek (the p) 0 = 34 then
              bindE (ReadText (condense st) (Some (drop 1 (the p))) False [34] False enc) (\<lambda>(p, v).
                Inr (p, a\<lparr>a_value := v\<rparr>, st))
            else
              let (v, rest, ok) = unquoted (the p) in
              if \<not> ok then fail_with doc TIXML_ERROR_READING_ATTRIBUTES (Some rest) enc (a\<lparr>a_value := v\<rparr>) st
              else Inr (Some rest, a\<lparr>a_value := v\<rparr>, st))))"

text \<open>What an attribute reads is shorter than what it was given.\<close>

lemma unquoted_length: "length (fst (snd (unquoted p))) \<le> length p"
  by (induction p) (auto simp: Let_def case_prod_beta)

lemma keep_text_length:
  "keep_text e i enc p tx = Inr (Some q, v) \<Longrightarrow> \<exists>r. p = Some r \<and> length q \<le> length r"
proof (induction e i enc p tx rule: keep_text.induct)
  case (1 e i enc p tx)
  show ?case
  proof (cases p)
    case None
    with 1(2) show ?thesis by (simp add: keep_text.simps)
  next
    case (Some r)
    show ?thesis
    proof (cases "r = [] \<or> equal_prefix i enc r e")
      case True
      with 1(2) Some show ?thesis by (cases r) (auto simp: keep_text.simps)
    next
      case False
      then obtain c r' where r: "r = c # r'" "\<not> equal_prefix i enc (c # r') e" by (cases r) auto
      with 1(2) Some obtain p' bs where g: "GetChar (c # r') enc = Inr (p', bs)"
          "keep_text e i enc p' (tx @ bs) = Inr (Some q, v)"
        by (auto simp: keep_text.simps [of e i enc "Some (c # r')"] split: sum.splits)
      from 1(1) [OF Some r(1,2) g(1) refl g(2)] obtain s where s: "p' = Some s" "length q \<le> length s" by blast
      from GetChar_shorter [OF g(1) [unfolded s(1)]] s Some r show ?thesis by simp
    qed
  qed
qed

lemma condense_text_length:
  "condense_text e i enc p w tx = Inr (Some q, v) \<Longrightarrow> \<exists>r. p = Some r \<and> length q \<le> length r"
proof (induction e i enc p w tx rule: condense_text.induct)
  case (1 e i enc p w tx)
  show ?case
  proof (cases p)
    case None
    with 1(4) show ?thesis by (simp add: condense_text.simps)
  next
    case (Some r)
    show ?thesis
    proof (cases "r = [] \<or> equal_prefix i enc r e")
      case True
      with 1(4) Some show ?thesis by (cases r) (auto simp: condense_text.simps)
    next
      case False
      then obtain c r' where r: "r = c # r'" "\<not> equal_prefix i enc (c # r') e" by (cases r) auto
      consider (nl) "c = 13 \<or> c = 10" | (ws) "\<not> (c = 13 \<or> c = 10)" "IsWhiteSpace c"
        | (ch) "\<not> (c = 13 \<or> c = 10)" "\<not> IsWhiteSpace c" by blast
      then show ?thesis
      proof cases
        case nl
        with 1(4) Some r have "condense_text e i enc (Some r') True tx = Inr (Some q, v)"
          by (simp add: condense_text.simps [of e i enc "Some (c # r')"])
        from 1(1) [OF Some r(1,2) nl this] Some r(1) show ?thesis by simp
      next
        case ws
        with 1(4) Some r have "condense_text e i enc (Some r') True tx = Inr (Some q, v)"
          by (simp add: condense_text.simps [of e i enc "Some (c # r')"])
        from 1(2) [OF Some r(1,2) ws this] Some r(1) show ?thesis by simp
      next
        case ch
        with 1(4) Some r obtain p' bs where g: "GetChar (c # r') enc = Inr (p', bs)"
            "condense_text e i enc p' False ((if w then tx @ [32] else tx) @ bs) = Inr (Some q, v)"
          by (auto simp: condense_text.simps [of e i enc "Some (c # r')"] split: sum.splits)
        from 1(3) [OF Some r(1,2) ch g(1) refl g(2)] obtain s where s: "p' = Some s" "length q \<le> length s" by blast
        from GetChar_shorter [OF g(1) [unfolded s(1)]] s Some r show ?thesis by simp
      qed
    qed
  qed
qed

lemma ReadText_length:
  "ReadText cw p trim e i enc = Inr (Some q, v) \<Longrightarrow> \<exists>r. p = Some r \<and> length q \<le> length r"
proof -
  assume run: "ReadText cw p trim e i enc = Inr (Some q, v)"
  then obtain p1 where p1: "(if \<not> trim \<or> \<not> cw then keep_text e i enc p []
        else condense_text e i enc (SkipWhiteSpace p enc) False []) = Inr (Some p1, v)" "length q \<le> length p1"
    by (fastforce simp: ReadText_def outcome_simps Let_def split: option.splits list.splits)
  show ?thesis
  proof (cases "\<not> trim \<or> \<not> cw")
    case True
    with p1 keep_text_length [of e i enc p "[]" p1 v] show ?thesis by fastforce
  next
    case False
    with p1 condense_text_length [of e i enc "SkipWhiteSpace p enc" False "[]" p1 v] obtain r
      where r: "SkipWhiteSpace p enc = Some r" "length p1 \<le> length r" by auto
    then obtain s where s: "p = Some s" by (cases p) (auto simp: SkipWhiteSpace_def)
    from SkipWhiteSpace_length r s have "length r \<le> length s" by blast
    with p1(2) r(2) s show ?thesis by simp
  qed
qed

lemma fail_with_result: "fail_with doc err pe enc n st = Inr (q, n', st') \<Longrightarrow> q = None \<and> n' = n"
  by (auto simp: fail_with_def outcome_simps)

lemma ReadName_length: "ReadName (Some p) enc = Inr (Some q, v) \<Longrightarrow> length q < length p"
proof -
  assume r: "ReadName (Some p) enc = Inr (Some q, v)"
  then obtain c s where p: "p = c # s" "is_name_start c" "q = dropWhile is_name_byte (c # s)"
    by (cases p) (auto simp: ReadName_def split: if_splits)
  then have "is_name_byte c" by (auto simp: is_name_start_def is_name_byte_def IsAlpha_def IsAlphaNum_def split: if_splits)
  then show ?thesis using p length_dropWhile_le [of is_name_byte s] by simp
qed

lemma attr_parse_shorter:
  assumes "attr_parse doc enc (Some p) st = Inr (Some q, a, st')"
  shows "length q < length p"
proof -
  obtain p1 where p1: "SkipWhiteSpace (Some p) enc = Some p1" "p1 \<noteq> []" "length p1 \<le> length p"
    using assms SkipWhiteSpace_length [of p enc] by (fastforce simp: attr_parse_def Let_def split: if_splits)
  obtain st1 p2 name where p2: "stamp_at (Some p1) enc st = Inr st1" "ReadName (Some p1) enc = Inr (Some p2, name)" "p2 \<noteq> []"
    using assms p1 by (auto simp: attr_parse_def Let_def outcome_simps fail_with_def split: if_splits)
  have l2: "length p2 < length p1" using ReadName_length [OF p2(2)] .
  obtain p3 where p3: "SkipWhiteSpace (Some p2) enc = Some p3" "p3 \<noteq> []" "peek p3 0 = 61"
    using assms p1(1,2) p2 by (fastforce simp: attr_parse_def Let_def outcome_simps fail_with_def split: if_splits)
  have l3: "length p3 \<le> length p2" using SkipWhiteSpace_length [OF p3(1)] .
  obtain p4 where p4: "SkipWhiteSpace (Some (drop 1 p3)) enc = Some p4" "p4 \<noteq> []"
    using assms p1(1,2) p2 p3 by (fastforce simp: attr_parse_def Let_def outcome_simps fail_with_def split: if_splits)
  have l4: "length p4 \<le> length (drop 1 p3)" using SkipWhiteSpace_length [OF p4(1)] .
  have "length q \<le> length p4"
  proof (cases "peek p4 0 = 39 \<or> peek p4 0 = 34")
    case True
    then obtain ch v where "ReadText (condense st1) (Some (drop 1 p4)) False [ch] False enc = Inr (Some q, v)"
      using assms p1(1,2) p2 p3 p4 by (auto simp: attr_parse_def Let_def outcome_simps split: if_splits)
    with ReadText_length show ?thesis by fastforce
  next
    case False
    with assms p1(1,2) p2 p3 p4 have "q = fst (snd (unquoted p4))"
      by (auto simp: attr_parse_def Let_def outcome_simps fail_with_def split: if_splits prod.splits)
    with unquoted_length [of p4] show ?thesis by simp
  qed
  with p1(3) l2 l3 l4 show ?thesis by simp
qed

section \<open>Leaf nodes\<close>

text \<open>\<^verbatim>\<open>TiXmlUnknown::Parse\<close>: everything up to the closing bracket.\<close>

definition unknown_parse :: "encoding \<Rightarrow> cstr option \<Rightarrow> xstate \<Rightarrow> (cstr option \<times> xnode \<times> xstate) outcome" where
  "unknown_parse enc p st =
     (let p = SkipWhiteSpace p enc in
      bindE (stamp_at p enc st) (\<lambda>st.
        let loc = cursor st in
        if no_more p \<or> peek (the p) 0 \<noteq> 60 then fail_with True TIXML_ERROR_PARSING_UNKNOWN p enc (XUnknown loc []) st
        else
          let body = drop 1 (the p); rest = dropWhile (\<lambda>c. c \<noteq> 62) body in
          Inr (Some (drop 1 rest), XUnknown loc (takeWhile (\<lambda>c. c \<noteq> 62) body), st)))"

text \<open>The bytes before an end tag; nothing is expanded.\<close>

fun raw_until :: "cstr \<Rightarrow> cstr \<Rightarrow> byte list \<times> cstr" where
  "raw_until endTag [] = ([], [])"
| "raw_until endTag (c # q) =
     (if take (length endTag) (c # q) = endTag then ([], c # q)
      else let (v, rest) = raw_until endTag q in (c # v, rest))"

definition comment_parse :: "encoding \<Rightarrow> cstr option \<Rightarrow> xstate \<Rightarrow> (cstr option \<times> xnode \<times> xstate) outcome" where
  "comment_parse enc p st =
     (let p = SkipWhiteSpace p enc in
      bindE (stamp_at p enc st) (\<lambda>st.
      bindE (StringEqual p (bytes_of ''<!--'') False enc) (\<lambda>start.
        if \<not> start then fail_with True TIXML_ERROR_PARSING_COMMENT p enc (XComment (cursor st) []) st
        else
          let (v, rest) = raw_until (bytes_of ''-->'') (drop 4 (the p)) in
          Inr (Some (drop 3 rest), XComment (cursor st) v, st))))"

text \<open>
  \<^verbatim>\<open>TiXmlText::Parse\<close>. \<open>cdata\<close> was set by \<^verbatim>\<open>Identify\<close>; the text of \<^verbatim>\<open>ReadValue\<close> has no parent and so
  no document to report to. For plain text the pointer goes back to the bracket that ended it.
\<close>

definition text_parse ::
  "bool \<Rightarrow> bool \<Rightarrow> encoding \<Rightarrow> cstr option \<Rightarrow> xstate \<Rightarrow> (cstr option \<times> xnode \<times> xstate) outcome" where
  "text_parse doc cdata enc p st =
     bindE (stamp_at p enc st) (\<lambda>st.
     bindE (if cdata then Inr True else StringEqual p (bytes_of ''<![CDATA['') False enc) (\<lambda>is_cdata.
       let loc = cursor st in
       if is_cdata then
         bindE (StringEqual p (bytes_of ''<![CDATA['') False enc) (\<lambda>start.
           if \<not> start then fail_with doc TIXML_ERROR_PARSING_CDATA p enc (XText loc [] True) st
           else
             let (v, rest) = raw_until (bytes_of '']]>'') (drop 9 (the p)) in
             bindE (ReadText (condense st) (Some rest) False (bytes_of '']]>'') False enc) (\<lambda>(p, dummy).
               Inr (p, XText loc v True, st)))
       else
         bindE (ReadText (condense st) p True [60] False enc) (\<lambda>(p, v).
           Inr (if no_more p then None else Some (60 # the p), XText loc v False, st))))"

text \<open>\<^verbatim>\<open>Blank\<close>: only white space.\<close>

definition Blank :: "byte list \<Rightarrow> bool" where
  "Blank v \<longleftrightarrow> (\<forall>c \<in> set v. IsWhiteSpace c)"

text \<open>
  \<^verbatim>\<open>TiXmlDeclaration::Parse\<close>: attributes whose name begins with one of three words are taken,
  anything else is passed over. The attribute objects have no document.
\<close>

definition is_skipped :: "byte \<Rightarrow> bool" where
  "is_skipped c \<longleftrightarrow> c \<noteq> 62 \<and> \<not> IsWhiteSpace c"

lemma skip_utf8_head: "skip_utf8 p = c # q \<Longrightarrow> \<not> IsWhiteSpace c"
  by (induction p rule: skip_utf8.induct) (auto split: if_splits)

lemma SkipWhiteSpace_head: "SkipWhiteSpace p enc = Some (c # q) \<Longrightarrow> \<not> IsWhiteSpace c"
  by (auto simp: SkipWhiteSpace_def dropWhile_eq_Cons_conv simp del: skip_utf8.simps dropWhile.simps
      dest: skip_utf8_head split: option.splits list.splits if_splits)

definition decl_measure :: "cstr option \<Rightarrow> nat" where
  "decl_measure p = (case p of None \<Rightarrow> 0 | Some [] \<Rightarrow> 0 | Some (c # q) \<Rightarrow> Suc (length q) + (if c = 62 then 0 else 1))"

lemma decl_measure_attr:
  assumes "attr_parse doc enc (SkipWhiteSpace (Some (c # q)) enc) st = Inr (p', a, st')" "c \<noteq> 62"
  shows "decl_measure p' < decl_measure (Some (c # q))"
proof (cases p')
  case None
  then show ?thesis by (simp add: decl_measure_def)
next
  case (Some r)
  obtain s where s: "SkipWhiteSpace (Some (c # q)) enc = Some s" by (simp add: SkipWhiteSpace_def)
  from attr_parse_shorter [of doc enc s st r a st'] assms(1) s Some have "length r < length s" by simp
  moreover have "length s \<le> Suc (length q)" using SkipWhiteSpace_length [OF s] by simp
  moreover have "decl_measure (Some r) \<le> length r + 1" by (cases r) (auto simp: decl_measure_def)
  ultimately show ?thesis using assms(2) Some by (simp add: decl_measure_def)
qed

lemma decl_measure_skip:
  assumes "StringEqual (SkipWhiteSpace (Some (c # q)) enc) tag i e = Inr b" "c \<noteq> 62"
  shows "decl_measure (Some (dropWhile is_skipped (the (SkipWhiteSpace (Some (c # q)) enc)))) < decl_measure (Some (c # q))"
proof -
  obtain s where s: "SkipWhiteSpace (Some (c # q)) enc = Some s" by (simp add: SkipWhiteSpace_def)
  from assms(1) s obtain x r where x: "s = x # r" by (cases s) (auto simp: StringEqual_def)
  have l: "length s \<le> Suc (length q)" using SkipWhiteSpace_length [OF s] by simp
  have m: "decl_measure (Some t) \<le> length t + 1" for t by (cases t) (auto simp: decl_measure_def)
  show ?thesis
  proof (cases "x = 62")
    case True
    then have "dropWhile is_skipped s = s" using x by (simp add: is_skipped_def)
    then show ?thesis using s x l True assms(2) by (simp add: decl_measure_def)
  next
    case False
    with SkipWhiteSpace_head [of _ enc x r] s x have "dropWhile is_skipped s = dropWhile is_skipped r"
      by (simp add: is_skipped_def)
    moreover have "length (dropWhile is_skipped r) \<le> length r" by (rule length_dropWhile_le)
    ultimately have "decl_measure (Some (dropWhile is_skipped s)) \<le> length r + 1"
      using m [of "dropWhile is_skipped r"] by simp
    then show ?thesis using s x l assms(2) by (simp add: decl_measure_def)
  qed
qed

function declaration_loop ::
  "encoding \<Rightarrow> cstr option \<Rightarrow> byte list \<times> byte list \<times> byte list \<Rightarrow> xstate \<Rightarrow>
     (cstr option \<times> (byte list \<times> byte list \<times> byte list) \<times> xstate) outcome" where
  "declaration_loop enc p d st =
     (case p of
        None \<Rightarrow> Inr (None, d, st)
      | Some [] \<Rightarrow> Inr (None, d, st)
      | Some (c # q) \<Rightarrow>
          if c = 62 then Inr (Some q, d, st)
          else
            let (version, encod, standalone) = d; p = SkipWhiteSpace (Some (c # q)) enc in
            bindE (StringEqual p (bytes_of ''version'') True enc) (\<lambda>is_version.
            if is_version then
              bindE (attr_parse False enc p st) (\<lambda>(p, a, st).
                declaration_loop enc p (c_str (a_value a), encod, standalone) st)
            else
              bindE (StringEqual p (bytes_of ''encoding'') True enc) (\<lambda>is_encoding.
              if is_encoding then
                bindE (attr_parse False enc p st) (\<lambda>(p, a, st).
                  declaration_loop enc p (version, c_str (a_value a), standalone) st)
              else
                bindE (StringEqual p (bytes_of ''standalone'') True enc) (\<lambda>is_standalone.
                if is_standalone then
                  bindE (attr_parse False enc p st) (\<lambda>(p, a, st).
                    declaration_loop enc p (version, encod, c_str (a_value a)) st)
                else declaration_loop enc (Some (dropWhile is_skipped (the p))) d st))))"
  by pat_completeness auto
termination
  by (relation "measure (\<lambda>(enc, p, d, st). decl_measure p)")
    (auto intro: decl_measure_attr decl_measure_skip)

declare declaration_loop.simps [simp del]

definition declaration_parse :: "encoding \<Rightarrow> cstr option \<Rightarrow> xstate \<Rightarrow> (cstr option \<times> xnode \<times> xstate) outcome" where
  "declaration_parse enc p st =
     (let p = SkipWhiteSpace p enc; empty = XDeclaration no_location [] [] [] in
      bindE (if no_more p then Inr False else StringEqual p (bytes_of ''<?xml'') True enc) (\<lambda>start.
        if \<not> start then fail_with True TIXML_ERROR_PARSING_DECLARATION None enc empty st
        else
          bindE (stamp_at p enc st) (\<lambda>st.
            let loc = cursor st in
            bindE (declaration_loop enc (Some (drop 5 (the p))) ([], [], []) st) (\<lambda>(p, (v, e, s), st).
              Inr (p, XDeclaration loc v e s, st)))))"

section \<open>Elements\<close>

datatype node_kind = K_Declaration | K_Comment | K_CData | K_Unknown | K_Element

definition Identify :: "encoding \<Rightarrow> cstr option \<Rightarrow> node_kind option outcome" where
  "Identify enc p =
     (let p = SkipWhiteSpace p enc in
      if no_more p \<or> peek (the p) 0 \<noteq> 60 then Inr None
      else
        let p = SkipWhiteSpace p enc in
        if no_more p then Inr None
        else
          bindE (StringEqual p (bytes_of ''<?xml'') True enc) (\<lambda>is_decl.
          if is_decl then Inr (Some K_Declaration)
          else bindE (StringEqual p (bytes_of ''<!--'') False enc) (\<lambda>is_comment.
          if is_comment then Inr (Some K_Comment)
          else bindE (StringEqual p (bytes_of ''<![CDATA['') False enc) (\<lambda>is_cdata.
          if is_cdata then Inr (Some K_CData)
          else bindE (StringEqual p (bytes_of ''<!'') False enc) (\<lambda>is_dtd.
          if is_dtd then Inr (Some K_Unknown)
          else if is_name_start (peek (the p) 1) then Inr (Some K_Element)
          else Inr (Some K_Unknown))))))"

text \<open>The loop over the attributes of a start tag, up to its end.\<close>

datatype tag_end = Tag_error | Tag_empty cstr | Tag_open cstr

lemma attr_parse_after_skip:
  assumes "attr_parse doc enc (SkipWhiteSpace (Some p) enc) st = Inr (Some q, a, st')"
  shows "length q < length p"
proof -
  obtain s where s: "SkipWhiteSpace (Some p) enc = Some s"
    using assms by (cases "SkipWhiteSpace (Some p) enc") (auto simp: attr_parse_def SkipWhiteSpace_def)
  with attr_parse_shorter [of doc enc s st q a st'] SkipWhiteSpace_length [OF s] assms show ?thesis by simp
qed

function element_attrs :: "encoding \<Rightarrow> cstr \<Rightarrow> xattr list \<Rightarrow> xstate \<Rightarrow> (tag_end \<times> xattr list \<times> xstate) outcome" where
  "element_attrs enc p as st =
     (let p1 = SkipWhiteSpace (Some p) enc in
      if no_more p1 then
        bindE (SetError TIXML_ERROR_READING_ATTRIBUTES (Some p) enc st) (\<lambda>st. Inr (Tag_error, as, st))
      else if peek (the p1) 0 = 47 then
        let p2 = drop 1 (the p1) in
        if peek p2 0 \<noteq> 62 then
          bindE (SetError TIXML_ERROR_PARSING_EMPTY (Some p2) enc st) (\<lambda>st. Inr (Tag_error, as, st))
        else Inr (Tag_empty (drop 1 p2), as, st)
      else if peek (the p1) 0 = 62 then Inr (Tag_open (drop 1 (the p1)), as, st)
      else
        bindE (attr_parse True enc p1 st) (\<lambda>(p2, a, st).
          if no_more p2 then
            bindE (SetError TIXML_ERROR_PARSING_ELEMENT p1 enc st) (\<lambda>st. Inr (Tag_error, as, st))
          else if Find (c_str (a_name a)) as \<noteq> None then
            bindE (SetError TIXML_ERROR_PARSING_ELEMENT p1 enc st) (\<lambda>st. Inr (Tag_error, as, st))
          else
            bindE (Add a as) (\<lambda>as. element_attrs enc (the p2) as st)))"
  by pat_completeness auto
termination
  by (relation "measure (\<lambda>(enc, p, as, st). length p)") (auto dest: attr_parse_after_skip)

declare element_attrs.simps [simp del]

text \<open>\<^verbatim>\<open>TiXmlElement::Parse\<close>, with \<^verbatim>\<open>ReadValue\<close> as an argument.\<close>

type_synonym read_value = "encoding \<Rightarrow> cstr option \<Rightarrow> xnode list \<Rightarrow> xstate \<Rightarrow> (cstr option \<times> xnode list \<times> xstate) outcome"

definition element_parse ::
  "read_value \<Rightarrow> encoding \<Rightarrow> cstr option \<Rightarrow> xstate \<Rightarrow> (cstr option \<times> xnode \<times> xstate) outcome" where
  "element_parse rv enc p st =
     (let p = SkipWhiteSpace p enc in
      if no_more p then fail_with True TIXML_ERROR_PARSING_ELEMENT None enc (XElement no_location [] [] []) st
      else
        bindE (stamp_at p enc st) (\<lambda>st.
        let loc = cursor st in
        if peek (the p) 0 \<noteq> 60 then fail_with True TIXML_ERROR_PARSING_ELEMENT p enc (XElement loc [] [] []) st
        else
          let pErr = SkipWhiteSpace (Some (drop 1 (the p))) enc in
          bindE (ReadName pErr enc) (\<lambda>(p, v).
          if no_more p then fail_with True TIXML_ERROR_FAILED_TO_READ_ELEMENT_NAME pErr enc (XElement loc v [] []) st
          else
            bindE (element_attrs enc (the p) [] st) (\<lambda>(t, as, st).
            case t of
              Tag_error \<Rightarrow> Inr (None, XElement loc v as [], st)
            | Tag_empty q \<Rightarrow> Inr (Some q, XElement loc v as [], st)
            | Tag_open q \<Rightarrow>
                bindE (rv enc (Some q) [] st) (\<lambda>(p, cs, st).
                if no_more p then fail_with True TIXML_ERROR_READING_END_TAG p enc (XElement loc v as cs) st
                else
                  bindE (StringEqual p (bytes_of ''</'' @ v) False enc) (\<lambda>closes.
                  if closes then
                    let p = SkipWhiteSpace (Some (drop (2 + length v) (the p))) enc in
                    if \<not> no_more p \<and> peek (the p) 0 = 62 then Inr (Some (drop 1 (the p)), XElement loc v as cs, st)
                    else fail_with True TIXML_ERROR_READING_END_TAG p enc (XElement loc v as cs) st
                  else fail_with True TIXML_ERROR_READING_END_TAG p enc (XElement loc v as cs) st))))))"

definition node_parse ::
  "read_value \<Rightarrow> node_kind \<Rightarrow> encoding \<Rightarrow> cstr option \<Rightarrow> xstate \<Rightarrow> (cstr option \<times> xnode \<times> xstate) outcome" where
  "node_parse rv k enc p st =
     (case k of
        K_Declaration \<Rightarrow> declaration_parse enc p st
      | K_Comment \<Rightarrow> comment_parse enc p st
      | K_CData \<Rightarrow> text_parse True True enc p st
      | K_Unknown \<Rightarrow> unknown_parse enc p st
      | K_Element \<Rightarrow> element_parse rv enc p st)"

text \<open>\<^verbatim>\<open>TiXmlElement::ReadValue\<close> from the pointer with its white space on; \<open>cs\<close> are the children so far.\<close>

primrec read_value :: "nat \<Rightarrow> read_value" where
  "read_value 0 enc pw cs st = Inl Diverges"
| "read_value (Suc n) enc pw cs st =
     (let p = SkipWhiteSpace pw enc in
      if p = None then
        bindE (SetError TIXML_ERROR_READING_ELEMENT_VALUE None enc st) (\<lambda>st. Inr (None, cs, st))
      else if p = Some [] then Inr (p, cs, st)
      else if peek (the p) 0 \<noteq> 60 then
        bindE (text_parse False False enc (if condense st then p else pw) st) (\<lambda>(p, node, st).
          read_value n enc p (if \<not> Blank (node_value node) then cs @ [node] else cs) st)
      else
        bindE (StringEqual p (bytes_of ''</'') False enc) (\<lambda>closing.
        if closing then Inr (p, cs, st)
        else
          bindE (Identify enc p) (\<lambda>k.
          case k of
            None \<Rightarrow> Inr (None, cs, st)
          | Some kind \<Rightarrow>
              bindE (node_parse (read_value n) kind enc p st) (\<lambda>(p, node, st).
                read_value n enc p (cs @ [node]) st))))"

section \<open>The document\<close>

record document =
  d_children :: "xnode list"
  d_error :: "(xml_error \<times> location) option"
  d_tabsize :: int
  d_useMicrosoftBOM :: bool

definition Document_new :: document where
  "Document_new = \<lparr>d_children = [], d_error = None, d_tabsize = 4, d_useMicrosoftBOM = False\<rparr>"

text \<open>The encoding a declaration asks for.\<close>

definition declared_encoding :: "byte list \<Rightarrow> encoding outcome" where
  "declared_encoding e =
     (if e = [] then Inr TIXML_ENCODING_UTF8
      else
        bindE (StringEqual (Some e) (bytes_of ''UTF-8'') True TIXML_ENCODING_UNKNOWN) (\<lambda>a.
        if a then Inr TIXML_ENCODING_UTF8
        else bindE (StringEqual (Some e) (bytes_of ''UTF8'') True TIXML_ENCODING_UNKNOWN) (\<lambda>b.
        if b then Inr TIXML_ENCODING_UTF8 else Inr TIXML_ENCODING_LEGACY)))"

primrec doc_loop ::
  "nat \<Rightarrow> encoding \<Rightarrow> cstr option \<Rightarrow> xnode list \<Rightarrow> xstate \<Rightarrow> (cstr option \<times> encoding \<times> xnode list \<times> xstate) outcome" where
  "doc_loop 0 enc p cs st = Inl Diverges"
| "doc_loop (Suc n) enc p cs st =
     (if no_more p then Inr (p, enc, cs, st)
      else
        bindE (Identify enc p) (\<lambda>k.
        case k of
          None \<Rightarrow> Inr (p, enc, cs, st)
        | Some kind \<Rightarrow>
            bindE (node_parse (read_value n) kind enc p st) (\<lambda>(p, node, st).
            bindE (case node of
                     XDeclaration l v e s \<Rightarrow> if enc = TIXML_ENCODING_UNKNOWN then declared_encoding e else Inr enc
                   | _ \<Rightarrow> Inr enc) (\<lambda>enc.
              doc_loop n enc (SkipWhiteSpace p enc) (cs @ [node]) st))))"

text \<open>\<^verbatim>\<open>TiXmlDocument::Parse\<close> of a whole text; \<open>cw\<close> is \<^verbatim>\<open>condenseWhiteSpace\<close>.\<close>

definition doc_Parse :: "bool \<Rightarrow> nat \<Rightarrow> cstr \<Rightarrow> encoding \<Rightarrow> document \<Rightarrow> (cstr option \<times> document) outcome" where
  "doc_Parse cw fuel p enc doc =
     (let doc = doc\<lparr>d_error := None\<rparr>;
          empty = (\<lambda>doc. Inr (None, doc\<lparr>d_error := Some (TIXML_ERROR_DOCUMENT_EMPTY, no_location)\<rparr>)) in
      if p = [] then empty doc
      else
        let st = \<lparr>pd = ParsingData_new p (d_tabsize doc) 0 0, xerr = None, condense = cw\<rparr>;
            bom = enc = TIXML_ENCODING_UNKNOWN \<and> peek p 0 = TIXML_UTF_LEAD_0 \<and> peek p 1 = TIXML_UTF_LEAD_1 \<and>
                  peek p 2 = TIXML_UTF_LEAD_2;
            enc = (if bom then TIXML_ENCODING_UTF8 else enc);
            doc = (if bom then doc\<lparr>d_useMicrosoftBOM := True\<rparr> else doc) in
        case SkipWhiteSpace (Some p) enc of
          None \<Rightarrow> empty doc
        | Some q \<Rightarrow>
            bindE (doc_loop fuel enc (Some q) (d_children doc) st) (\<lambda>(p, enc, cs, st).
              if cs = [] then
                bindE (SetError TIXML_ERROR_DOCUMENT_EMPTY None enc st) (\<lambda>st.
                  Inr (None, doc\<lparr>d_children := cs, d_error := xerr st\<rparr>))
              else Inr (p, doc\<lparr>d_children := cs, d_error := xerr st\<rparr>)))"

section \<open>Loading a file\<close>

text \<open>The normalisation of line ends, up to the first zero byte.\<close>

fun normalize :: "byte list \<Rightarrow> byte list" where
  "normalize [] = []"
| "normalize [c] = (if c = 0 then [] else if c = 13 then [10] else [c])"
| "normalize (c # d # q) =
     (if c = 0 then []
      else if c = 13 then 10 # (if d = 10 then normalize q else normalize (d # q))
      else c # normalize (d # q))"

text \<open>
  \<^verbatim>\<open>LoadFile(filename)\<close>: \<open>file\<close> is the content of the file, \<open>None\<close> when it cannot be opened; a
  regular file is read completely. A document that had an error keeps it until \<^verbatim>\<open>Parse\<close>.
\<close>

definition set_doc_error :: "xml_error \<Rightarrow> document \<Rightarrow> document" where
  "set_doc_error err doc = (if d_error doc = None then doc\<lparr>d_error := Some (err, no_location)\<rparr> else doc)"

definition LoadFile :: "bool \<Rightarrow> nat \<Rightarrow> byte list option \<Rightarrow> document \<Rightarrow> (bool \<times> document) outcome" where
  "LoadFile cw fuel file doc =
     (case file of
        None \<Rightarrow> Inr (False, set_doc_error TIXML_ERROR_OPENING_FILE doc)
      | Some bytes \<Rightarrow>
          let doc = doc\<lparr>d_children := []\<rparr> in
          if bytes = [] then Inr (False, set_doc_error TIXML_ERROR_DOCUMENT_EMPTY doc)
          else
            bindE (doc_Parse cw fuel (normalize bytes) TIXML_ENCODING_UNKNOWN doc) (\<lambda>(_, doc).
              Inr (d_error doc = None, doc)))"

section \<open>Looking at the tree\<close>

text \<open>
  \<^verbatim>\<open>FirstChild\<close>, \<^verbatim>\<open>NextSibling\<close> and their element variants, on the list of the siblings from a
  node on. A value is compared as a C string.
\<close>

fun NextSibling :: "cstr \<Rightarrow> xnode list \<Rightarrow> xnode list" where
  "NextSibling v [] = []"
| "NextSibling v (n # ns) = (if c_str (node_value n) = v then n # ns else NextSibling v ns)"

fun NextElement :: "cstr \<Rightarrow> xnode list \<Rightarrow> xnode list" where
  "NextElement v [] = []"
| "NextElement v (n # ns) =
     (if c_str (node_value n) = v \<and> is_element n then n # ns else NextElement v ns)"

fun FirstElement :: "xnode list \<Rightarrow> xnode list" where
  "FirstElement [] = []"
| "FirstElement (n # ns) = (if is_element n then n # ns else FirstElement ns)"

fun children_of :: "xnode \<Rightarrow> xnode list" where
  "children_of (XElement l v as cs) = cs"
| "children_of _ = []"

fun attrs_of :: "xnode \<Rightarrow> xattr list" where
  "attrs_of (XElement l v as cs) = as"
| "attrs_of _ = []"

definition FirstChildElement :: "cstr \<Rightarrow> xnode \<Rightarrow> xnode list" where
  "FirstChildElement v n = NextElement v (children_of n)"

definition NextSiblingElement :: "cstr \<Rightarrow> xnode list \<Rightarrow> xnode list" where
  "NextSiblingElement v ns = NextElement v (tl ns)"

definition RootElement :: "document \<Rightarrow> xnode option" where
  "RootElement doc = (case FirstElement (d_children doc) of [] \<Rightarrow> None | n # ns \<Rightarrow> Some n)"

text \<open>\<^verbatim>\<open>Attribute(name)\<close>: the value as a C string, \<open>None\<close> is \<^verbatim>\<open>NULL\<close>.\<close>

definition Attribute :: "cstr \<Rightarrow> xnode \<Rightarrow> cstr option" where
  "Attribute name n = (case Find name (attrs_of n) of None \<Rightarrow> None | Some a \<Rightarrow> Some (c_str (a_value a)))"

end
