(* ===== verification/Xml_Print.thy ===== *)
theory Xml_Print
  imports Xml_Parse
begin

text \<open>
  Writing a tree of nodes back to bytes: the \<^verbatim>\<open>Print\<close> functions of
  src/Public/tinyxml/tinyxml.cpp, which write to a file, \<^verbatim>\<open>SaveFile\<close>, and the visitor
  \<^verbatim>\<open>TiXmlPrinter\<close> (tinyxml.cpp and tinyxml.h), which writes to a string with line breaks of its
  own. A file is what is written to it; a string printed with \<^verbatim>\<open>%s\<close> ends at its first zero byte.
\<close>

section \<open>Printing to a file\<close>

definition indent :: "nat \<Rightarrow> byte list" where
  "indent depth = concat (replicate depth (bytes_of ''    ''))"

definition is_text :: "xnode \<Rightarrow> bool" where
  "is_text n \<longleftrightarrow> (case n of XText l v c \<Rightarrow> True | _ \<Rightarrow> False)"

text \<open>\<^verbatim>\<open>TiXmlAttribute::Print\<close>: the quote that does not occur in the value.\<close>

definition attr_print :: "xattr \<Rightarrow> byte list" where
  "attr_print a =
     (let n = EncodeString (a_name a); v = EncodeString (a_value a) in
      if 34 \<notin> set (a_value a) then c_str n @ bytes_of ''='' @ [34] @ c_str v @ [34]
      else c_str n @ bytes_of ''='' @ [39] @ c_str v @ [39])"

definition comment_print :: "nat \<Rightarrow> byte list \<Rightarrow> byte list" where
  "comment_print depth v = indent depth @ bytes_of ''<!--'' @ c_str v @ bytes_of ''-->''"

definition unknown_print :: "nat \<Rightarrow> byte list \<Rightarrow> byte list" where
  "unknown_print depth v = indent depth @ bytes_of ''<'' @ c_str v @ bytes_of ''>''"

definition text_print :: "nat \<Rightarrow> byte list \<Rightarrow> bool \<Rightarrow> byte list" where
  "text_print depth v cdata =
     (if cdata then [10] @ indent depth @ bytes_of ''<![CDATA['' @ c_str v @ bytes_of '']]>'' @ [10]
      else c_str (EncodeString v))"

definition named_part :: "string \<Rightarrow> byte list \<Rightarrow> byte list" where
  "named_part name v = (if v = [] then [] else bytes_of name @ bytes_of ''='' @ [34] @ c_str v @ [34] @ bytes_of '' '')"

definition declaration_print :: "byte list \<Rightarrow> byte list \<Rightarrow> byte list \<Rightarrow> byte list" where
  "declaration_print version encod standalone =
     bytes_of ''<?xml '' @ named_part ''version'' version @ named_part ''encoding'' encod @
     named_part ''standalone'' standalone @ bytes_of ''?>''"

text \<open>\<^verbatim>\<open>TiXmlElement::Print\<close> and, by the kind of the node, all the others.\<close>

fun node_print :: "nat \<Rightarrow> xnode \<Rightarrow> byte list"
  and children_print :: "nat \<Rightarrow> xnode list \<Rightarrow> byte list" where
  "node_print depth (XElement l v as cs) =
     indent depth @ bytes_of ''<'' @ c_str v @ concat (map (\<lambda>a. bytes_of '' '' @ attr_print a) as) @
     (case cs of
        [] \<Rightarrow> bytes_of '' />''
      | [XText lt vt ct] \<Rightarrow> bytes_of ''>'' @ text_print (depth + 1) vt ct @ bytes_of ''</'' @ c_str v @ bytes_of ''>''
      | _ \<Rightarrow> bytes_of ''>'' @ children_print (depth + 1) cs @ [10] @ indent depth @ bytes_of ''</'' @ c_str v @ bytes_of ''>'')"
| "node_print depth (XComment l v) = comment_print depth v"
| "node_print depth (XUnknown l v) = unknown_print depth v"
| "node_print depth (XText l v c) = text_print depth v c"
| "node_print depth (XDeclaration l v e s) = declaration_print v e s"
| "children_print depth [] = []"
| "children_print depth (n # ns) = (if \<not> is_text n then [10] else []) @ node_print depth n @ children_print depth ns"

definition doc_print :: "document \<Rightarrow> byte list" where
  "doc_print doc = concat (map (\<lambda>n. node_print 0 n @ [10]) (d_children doc))"

text \<open>
  \<^verbatim>\<open>SaveFile\<close>: \<open>opened\<close> says whether the file could be opened, \<open>ferror\<close> whether writing failed.
\<close>

definition SaveFile_to :: "bool \<Rightarrow> document \<Rightarrow> bool \<times> byte list" where
  "SaveFile_to ferror doc =
     (\<not> ferror,
      (if d_useMicrosoftBOM doc then [TIXML_UTF_LEAD_0, TIXML_UTF_LEAD_1, TIXML_UTF_LEAD_2] else []) @ doc_print doc)"

definition SaveFile :: "bool \<Rightarrow> bool \<Rightarrow> document \<Rightarrow> bool \<times> byte list option" where
  "SaveFile opened ferror doc =
     (if opened then (fst (SaveFile_to ferror doc), Some (snd (SaveFile_to ferror doc))) else (False, None))"

section \<open>Printing to a string\<close>

record printer =
  pr_depth :: nat
  pr_simpleTextPrint :: bool
  pr_buffer :: "byte list"
  pr_indent :: "byte list"
  pr_lineBreak :: "byte list"

definition Printer_new :: printer where
  "Printer_new = \<lparr>pr_depth = 0, pr_simpleTextPrint = False, pr_buffer = [],
                  pr_indent = bytes_of ''    '', pr_lineBreak = [10]\<rparr>"

definition SetIndent :: "cstr option \<Rightarrow> printer \<Rightarrow> printer" where
  "SetIndent s p = p\<lparr>pr_indent := (case s of None \<Rightarrow> [] | Some x \<Rightarrow> x)\<rparr>"

definition SetLineBreak :: "cstr option \<Rightarrow> printer \<Rightarrow> printer" where
  "SetLineBreak s p = p\<lparr>pr_lineBreak := (case s of None \<Rightarrow> [] | Some x \<Rightarrow> x)\<rparr>"

definition SetStreamPrinting :: "printer \<Rightarrow> printer" where
  "SetStreamPrinting p = p\<lparr>pr_indent := [], pr_lineBreak := []\<rparr>"

definition DoIndent :: "printer \<Rightarrow> printer" where
  "DoIndent p = p\<lparr>pr_buffer := pr_buffer p @ concat (replicate (pr_depth p) (pr_indent p))\<rparr>"

definition DoLineBreak :: "printer \<Rightarrow> printer" where
  "DoLineBreak p = p\<lparr>pr_buffer := pr_buffer p @ pr_lineBreak p\<rparr>"

definition put :: "byte list \<Rightarrow> printer \<Rightarrow> printer" where
  "put s p = p\<lparr>pr_buffer := pr_buffer p @ s\<rparr>"

text \<open>
  \<^verbatim>\<open>TiXmlAttribute::Print\<close> and \<^verbatim>\<open>TiXmlDeclaration::Print\<close> into a string append whole strings, so
  zero bytes do not end them.
\<close>

definition attr_text :: "xattr \<Rightarrow> byte list" where
  "attr_text a =
     (let n = EncodeString (a_name a); v = EncodeString (a_value a) in
      if 34 \<notin> set (a_value a) then n @ bytes_of ''='' @ [34] @ v @ [34]
      else n @ bytes_of ''='' @ [39] @ v @ [39])"

definition named_text :: "string \<Rightarrow> byte list \<Rightarrow> byte list" where
  "named_text name v = (if v = [] then [] else bytes_of name @ bytes_of ''='' @ [34] @ v @ [34] @ bytes_of '' '')"

definition declaration_text :: "byte list \<Rightarrow> byte list \<Rightarrow> byte list \<Rightarrow> byte list" where
  "declaration_text version encod standalone =
     bytes_of ''<?xml '' @ named_text ''version'' version @ named_text ''encoding'' encod @
     named_text ''standalone'' standalone @ bytes_of ''?>''"

text \<open>The child that is printed on the line of its element.\<close>

definition simple_text :: "xnode list \<Rightarrow> bool" where
  "simple_text cs \<longleftrightarrow> (case cs of [XText l v c] \<Rightarrow> \<not> c | _ \<Rightarrow> False)"

definition VisitEnter :: "byte list \<Rightarrow> xattr list \<Rightarrow> xnode list \<Rightarrow> printer \<Rightarrow> printer" where
  "VisitEnter v as cs p =
     (let p = put (c_str v) (put (bytes_of ''<'') (DoIndent p));
          p = put (concat (map (\<lambda>a. bytes_of '' '' @ attr_text a) as)) p;
          p = (if cs = [] then DoLineBreak (put (bytes_of '' />'') p)
               else
                 let p = put (bytes_of ''>'') p in
                 if simple_text cs then p\<lparr>pr_simpleTextPrint := True\<rparr> else DoLineBreak p) in
      p\<lparr>pr_depth := pr_depth p + 1\<rparr>)"

definition VisitExit :: "byte list \<Rightarrow> xnode list \<Rightarrow> printer \<Rightarrow> printer" where
  "VisitExit v cs p =
     (let p = p\<lparr>pr_depth := pr_depth p - 1\<rparr> in
      if cs = [] then p
      else
        let p = (if pr_simpleTextPrint p then p\<lparr>pr_simpleTextPrint := False\<rparr> else DoIndent p) in
        DoLineBreak (put (bytes_of ''</'' @ c_str v @ bytes_of ''>'') p))"

definition Visit_text :: "byte list \<Rightarrow> bool \<Rightarrow> printer \<Rightarrow> printer" where
  "Visit_text v cdata p =
     (if cdata then DoLineBreak (put (bytes_of ''<![CDATA['' @ c_str v @ bytes_of '']]>'') (DoIndent p))
      else if pr_simpleTextPrint p then put (EncodeString v) p
      else DoLineBreak (put (EncodeString v) (DoIndent p)))"

definition Visit_declaration :: "byte list \<Rightarrow> byte list \<Rightarrow> byte list \<Rightarrow> printer \<Rightarrow> printer" where
  "Visit_declaration v e s p = DoLineBreak (put (declaration_text v e s) (DoIndent p))"

definition Visit_comment :: "byte list \<Rightarrow> printer \<Rightarrow> printer" where
  "Visit_comment v p = DoLineBreak (put (bytes_of ''<!--'' @ c_str v @ bytes_of ''-->'') (DoIndent p))"

definition Visit_unknown :: "byte list \<Rightarrow> printer \<Rightarrow> printer" where
  "Visit_unknown v p = DoLineBreak (put (bytes_of ''<'' @ c_str v @ bytes_of ''>'') (DoIndent p))"

text \<open>\<^verbatim>\<open>Accept\<close> with this visitor, whose operations all return \<^verbatim>\<open>true\<close>.\<close>

fun Accept :: "xnode \<Rightarrow> printer \<Rightarrow> printer"
  and Accept_all :: "xnode list \<Rightarrow> printer \<Rightarrow> printer" where
  "Accept (XElement l v as cs) p = VisitExit v cs (Accept_all cs (VisitEnter v as cs p))"
| "Accept (XComment l v) p = Visit_comment v p"
| "Accept (XUnknown l v) p = Visit_unknown v p"
| "Accept (XText l v c) p = Visit_text v c p"
| "Accept (XDeclaration l v e s) p = Visit_declaration v e s p"
| "Accept_all [] p = p"
| "Accept_all (n # ns) p = Accept_all ns (Accept n p)"

definition doc_Accept :: "document \<Rightarrow> printer \<Rightarrow> printer" where
  "doc_Accept doc p = Accept_all (d_children doc) p"

end
