(* ===== verification/Xml_Spec.thy ===== *)
theory Xml_Spec
  imports Xml_Parse
begin

text \<open>
  What the parser of theory Xml_Parse promises for every input: each node it reads consumes
  bytes, so the fuel is always enough and the parse returns unless it stops at a lead byte 0xef
  (\<open>Stamp\<close>); and the tree it builds is well typed, whatever the bytes were.
\<close>

section \<open>Every node consumes bytes\<close>

definition rest_of :: "cstr option \<Rightarrow> nat" where
  "rest_of p = (case p of None \<Rightarrow> 0 | Some q \<Rightarrow> Suc (length q))"

lemma rest_of_simps [simp]: "rest_of None = 0" "rest_of (Some q) = Suc (length q)"
  by (simp_all add: rest_of_def)

lemma SkipWhiteSpace_rest: "rest_of (SkipWhiteSpace p enc) \<le> rest_of p"
  using SkipWhiteSpace_length [of "the p" enc "the (SkipWhiteSpace p enc)"]
  by (cases p; cases "SkipWhiteSpace p enc") (auto simp: SkipWhiteSpace_def)

lemma SkipWhiteSpace_None [simp]: "SkipWhiteSpace None enc = None"
  by (simp add: SkipWhiteSpace_def)

lemma peek_Cons [simp]: "peek (c # q) 0 = c"
  by (simp add: peek_def)

lemma raw_until_length: "length (snd (raw_until e p)) \<le> length p"
  by (induction p) (auto simp: Let_def case_prod_beta)

lemma StringEqual_true:
  assumes "StringEqual p tag i enc = Inr True"
  shows "\<exists>q. p = Some q \<and> q \<noteq> [] \<and> equal_prefix i enc q tag"
proof (cases p)
  case (Some q)
  with assms show ?thesis by (cases q) (auto simp: StringEqual_def)
qed (use assms in \<open>simp add: StringEqual_def\<close>)

lemma equal_prefix_length: "equal_prefix i enc q tag \<Longrightarrow> length tag \<le> length q"
  by (induction i enc q tag rule: equal_prefix.induct) auto

lemma unknown_parse_shorter:
  assumes "unknown_parse enc p st = Inr (q, n, st')"
  shows "rest_of q \<le> rest_of p - 1"
proof -
  obtain st1 where st1: "stamp_at (SkipWhiteSpace p enc) enc st = Inr st1"
    using assms by (auto simp: unknown_parse_def Let_def outcome_simps)
  show ?thesis
  proof (cases "no_more (SkipWhiteSpace p enc) \<or> peek (the (SkipWhiteSpace p enc)) 0 \<noteq> 60")
    case True
    with assms st1 show ?thesis by (auto simp: unknown_parse_def Let_def outcome_simps dest: fail_with_result)
  next
    case False
    then obtain c s where s: "SkipWhiteSpace p enc = Some (c # s)"
      by (cases "SkipWhiteSpace p enc") (auto simp: neq_Nil_conv)
    with False assms st1 have "q = Some (drop 1 (dropWhile (\<lambda>c. c \<noteq> 62) s))"
      by (auto simp: unknown_parse_def Let_def outcome_simps)
    moreover have "length (dropWhile (\<lambda>c. c \<noteq> 62) s) \<le> length s" by (rule length_dropWhile_le)
    moreover have "Suc (Suc (length s)) \<le> rest_of p" using SkipWhiteSpace_rest [of p enc] s by simp
    ultimately show ?thesis by simp
  qed
qed

lemma comment_parse_shorter:
  assumes "comment_parse enc p st = Inr (q, n, st')"
  shows "rest_of q \<le> rest_of p - 1"
proof -
  obtain st1 b where st1: "stamp_at (SkipWhiteSpace p enc) enc st = Inr st1"
      "StringEqual (SkipWhiteSpace p enc) (bytes_of ''<!--'') False enc = Inr b"
    using assms by (auto simp: comment_parse_def Let_def outcome_simps)
  show ?thesis
  proof (cases b)
    case False
    with assms st1 show ?thesis by (auto simp: comment_parse_def Let_def outcome_simps dest: fail_with_result)
  next
    case True
    with st1(2) have "StringEqual (SkipWhiteSpace p enc) (bytes_of ''<!--'') False enc = Inr True" by simp
    from StringEqual_true [OF this] obtain s where s: "SkipWhiteSpace p enc = Some s" "s \<noteq> []" by blast
    with True assms st1 have "q = Some (drop 3 (snd (raw_until (bytes_of ''-->'') (drop 4 s))))"
      by (auto simp: comment_parse_def Let_def outcome_simps split: prod.splits)
    moreover have "length (snd (raw_until (bytes_of ''-->'') (drop 4 s))) \<le> length (drop 4 s)"
      by (rule raw_until_length)
    moreover have "Suc (length s) \<le> rest_of p" using SkipWhiteSpace_rest [of p enc] s by simp
    ultimately show ?thesis using s(2) by (cases s) auto
  qed
qed

text \<open>A character is read from a text that does not begin with the bracket.\<close>

lemma condense_text_shorter:
  assumes "condense_text e i enc p w tx = Inr (Some q, v)" "\<not> equal_prefix i enc (the p) e" "\<not> no_more p"
  shows "Suc (length q) \<le> length (the p)"
proof -
  obtain c r where p: "p = Some (c # r)" using assms(3) by (cases p) (auto simp: neq_Nil_conv)
  consider (ws) w' where "condense_text e i enc (Some r) w' tx = Inr (Some q, v)"
    | (ch) p' bs tx' where "GetChar (c # r) enc = Inr (p', bs)" "condense_text e i enc p' False tx' = Inr (Some q, v)"
    using assms(1,2) p
    by (auto simp: condense_text.simps [of e i enc "Some (c # r)"] split: if_splits sum.splits)
  then show ?thesis
  proof cases
    case ws
    from condense_text_length [OF this] p show ?thesis by simp
  next
    case ch
    from condense_text_length [OF ch(2)] obtain s where s: "p' = Some s" "length q \<le> length s" by blast
    from GetChar_shorter [OF ch(1) [unfolded s(1)]] s(2) p show ?thesis by simp
  qed
qed

lemma keep_text_shorter:
  assumes "keep_text e i enc p tx = Inr (Some q, v)" "\<not> equal_prefix i enc (the p) e" "\<not> no_more p"
  shows "Suc (length q) \<le> length (the p)"
proof -
  obtain c r where p: "p = Some (c # r)" using assms(3) by (cases p) (auto simp: neq_Nil_conv)
  obtain p' bs where g: "GetChar (c # r) enc = Inr (p', bs)" "keep_text e i enc p' (tx @ bs) = Inr (Some q, v)"
    using assms(1,2) p by (auto simp: keep_text.simps [of e i enc "Some (c # r)"] split: if_splits sum.splits)
  from keep_text_length [OF g(2)] obtain s where s: "p' = Some s" "length q \<le> length s" by blast
  from GetChar_shorter [OF g(1) [unfolded s(1)]] s(2) p show ?thesis by simp
qed

lemma SkipWhiteSpace_moved:
  assumes "SkipWhiteSpace (Some p) enc = Some s" "s \<noteq> p"
  shows "length s < length p"
proof (cases p)
  case Nil
  with assms show ?thesis by (simp add: SkipWhiteSpace_def)
next
  case (Cons c q)
  show ?thesis
  proof (cases "enc = TIXML_ENCODING_UTF8")
    case True
    with assms Cons have "s = skip_utf8 (c # q)" by (simp add: SkipWhiteSpace_def)
    with assms(2) Cons have "s = skip_utf8 (drop 2 q) \<or> s = skip_utf8 q" by (auto split: if_splits)
    then show ?thesis using skip_utf8_length [of "drop 2 q"] skip_utf8_length [of q] Cons by auto
  next
    case False
    with assms Cons have "s = dropWhile IsWhiteSpace (c # q)" by (simp add: SkipWhiteSpace_def)
    with assms(2) Cons have "s = dropWhile IsWhiteSpace q" by (auto split: if_splits)
    then show ?thesis using length_dropWhile_le [of IsWhiteSpace q] Cons by simp
  qed
qed

lemma ReadText_shorter:
  assumes "ReadText cw (Some p) True [60] False enc = Inr (Some q, v)" "p \<noteq> []" "peek p 0 \<noteq> 60"
  shows "length q + 2 \<le> length p"
proof -
  from assms(3) have np: "\<not> equal_prefix False enc p [60]" by (cases p) auto
  obtain p1 where p1: "(if \<not> cw then keep_text [60] False enc (Some p) []
        else condense_text [60] False enc (SkipWhiteSpace (Some p) enc) False []) = Inr (Some p1, v)"
      "q = drop 1 p1" "p1 \<noteq> []"
    using assms(1) by (fastforce simp: ReadText_def outcome_simps Let_def split: option.splits list.splits)
  have "Suc (length p1) \<le> length p"
  proof (cases cw)
    case False
    with p1 keep_text_shorter [of "[60]" False enc "Some p" "[]" p1 v] np assms(2) show ?thesis by simp
  next
    case True
    with p1 have c: "condense_text [60] False enc (SkipWhiteSpace (Some p) enc) False [] = Inr (Some p1, v)" by simp
    from condense_text_length [OF this] obtain s
      where s: "SkipWhiteSpace (Some p) enc = Some s" "length p1 \<le> length s" by blast
    show ?thesis
    proof (cases "s = p")
      case True
      with c s(1) condense_text_shorter [of "[60]" False enc "Some p" False "[]" p1 v] np assms(2) show ?thesis by simp
    next
      case False
      with SkipWhiteSpace_moved s show ?thesis by fastforce
    qed
  qed
  with p1(2,3) show ?thesis by (cases p1) auto
qed

lemma text_parse_shorter:
  assumes "text_parse False False enc (Some p) st = Inr (q, n, st')" "p \<noteq> []" "peek p 0 \<noteq> 60"
  shows "rest_of q \<le> length p"
proof -
  obtain c s where p: "p = c # s" using assms(2) by (cases p) auto
  then have e: "StringEqual (Some p) (bytes_of ''<![CDATA['') False enc = Inr False"
    using assms(3) by (simp add: StringEqual_def bytes_of_def)
  moreover from assms(1) obtain st1 where st1: "stamp_at (Some p) enc st = Inr st1"
    by (auto simp: text_parse_def outcome_simps)
  ultimately obtain p2 v where r: "ReadText (condense st1) (Some p) True [60] False enc = Inr (p2, v)"
    using assms(1) by (auto simp: text_parse_def outcome_simps Let_def)
  have q: "q = (if no_more p2 then None else Some (60 # the p2))"
    using assms(1) e st1 r by (simp add: text_parse_def outcome_simps Let_def)
  show ?thesis
  proof (cases p2)
    case (Some t)
    with ReadText_shorter [of "condense st1" p enc t v] r q assms(2,3) show ?thesis by auto
  qed (use q in simp)
qed

lemma cdata_parse_shorter:
  assumes "text_parse True True enc p st = Inr (q, n, st')"
  shows "rest_of q \<le> rest_of p - 1"
proof -
  obtain st1 b where b: "stamp_at p enc st = Inr st1" "StringEqual p (bytes_of ''<![CDATA['') False enc = Inr b"
    using assms by (auto simp: text_parse_def outcome_simps Let_def)
  show ?thesis
  proof (cases b)
    case False
    with assms b show ?thesis by (auto simp: text_parse_def outcome_simps Let_def dest: fail_with_result)
  next
    case True
    with b(2) have "StringEqual p (bytes_of ''<![CDATA['') False enc = Inr True" by simp
    from StringEqual_true [OF this] obtain s where s: "p = Some s" "s \<noteq> []" by blast
    obtain v' rest where rest: "raw_until (bytes_of '']]>'') (drop 9 s) = (v', rest)" by fastforce
    with True b assms s obtain v where r: "ReadText (condense st1) (Some rest) False (bytes_of '']]>'') False enc = Inr (q, v)"
      by (auto simp: text_parse_def outcome_simps Let_def)
    have l: "length rest \<le> length (drop 9 s)" using raw_until_length [of "bytes_of '']]>''" "drop 9 s"] rest by simp
    show ?thesis
    proof (cases q)
      case (Some t)
      with ReadText_length [of "condense st1" "Some rest" False _ False enc t v] r have "length t \<le> length rest" by auto
      then show ?thesis using l s Some by (cases s) auto
    qed simp
  qed
qed

text \<open>One round of the loop over a declaration.\<close>

lemma declaration_step:
  assumes "declaration_loop enc (Some (c # r)) d st = res" "c \<noteq> 62"
  obtains (attr) p' a st1 d1 where
      "attr_parse False enc (SkipWhiteSpace (Some (c # r)) enc) st = Inr (p', a, st1)" "declaration_loop enc p' d1 st1 = res"
    | (bad) e where "attr_parse False enc (SkipWhiteSpace (Some (c # r)) enc) st = Inl e" "res = Inl e"
    | (skip) "StringEqual (SkipWhiteSpace (Some (c # r)) enc) (bytes_of ''version'') True enc = Inr False"
      "declaration_loop enc (Some (dropWhile is_skipped (the (SkipWhiteSpace (Some (c # r)) enc)))) d st = res"
    | (blank) "SkipWhiteSpace (Some (c # r)) enc = Some []" "res = Inl (Assertion ''tinyxml'')"
proof -
  obtain ver e sa where d: "d = (ver, e, sa)" by (cases d)
  obtain s where s: "SkipWhiteSpace (Some (c # r)) enc = Some s" by (simp add: SkipWhiteSpace_def)
  show thesis
  proof (cases "s = []")
    case True
    with s assms show thesis
      by (intro blank) (auto simp: declaration_loop.simps [of enc "Some (c # r)"] d StringEqual_def TASSERT_def outcome_simps)
  next
    case False
    define eq where "eq = (\<lambda>w. equal_prefix True enc s (bytes_of w))"
    have eq: "StringEqual (Some s) (bytes_of w) True enc = Inr (eq w)" for w
      using False by (cases s) (auto simp: StringEqual_def eq_def)
    have run: "res =
        (if eq ''version'' then bindE (attr_parse False enc (Some s) st)
             (\<lambda>(p, a, st). declaration_loop enc p (c_str (a_value a), e, sa) st)
         else if eq ''encoding'' then bindE (attr_parse False enc (Some s) st)
             (\<lambda>(p, a, st). declaration_loop enc p (ver, c_str (a_value a), sa) st)
         else if eq ''standalone'' then bindE (attr_parse False enc (Some s) st)
             (\<lambda>(p, a, st). declaration_loop enc p (ver, e, c_str (a_value a)) st)
         else declaration_loop enc (Some (dropWhile is_skipped s)) (ver, e, sa) st)"
      using assms(2) unfolding assms(1) [symmetric] declaration_loop.simps [of enc "Some (c # r)"]
      by (simp add: d s eq)
    show thesis
    proof (cases "eq ''version'' \<or> eq ''encoding'' \<or> eq ''standalone''")
      case True
      define f where "f = (\<lambda>a :: xattr. if eq ''version'' then (c_str (a_value a), e, sa)
        else if eq ''encoding'' then (ver, c_str (a_value a), sa) else (ver, e, c_str (a_value a)))"
      have f: "res = bindE (attr_parse False enc (Some s) st) (\<lambda>(p, a, st). declaration_loop enc p (f a) st)"
        using run True by (auto simp: f_def)
      show thesis
      proof (cases "attr_parse False enc (Some s) st")
        case (Inl e)
        with f s show thesis by (intro bad [of e]) auto
      next
        case (Inr x)
        with f s show thesis by (cases x) (auto intro: attr)
      qed
    next
      case False
      with run s d eq [of "''version''"] show thesis by (intro skip) auto
    qed
  qed
qed

lemma declaration_loop_length:
  "declaration_loop enc p d st = Inr (q, d', st') \<Longrightarrow> rest_of q \<le> rest_of p - 1"
proof (induction "decl_measure p" arbitrary: p d st rule: less_induct)
  case less
  show ?case
  proof (cases "no_more p \<or> peek (the p) 0 = 62")
    case True
    with less.prems show ?thesis by (cases p) (auto simp: declaration_loop.simps neq_Nil_conv split: list.splits)
  next
    case False
    then obtain c r where p: "p = Some (c # r)" "c \<noteq> 62" by (cases p) (auto simp: neq_Nil_conv)
    from less.prems [unfolded p(1)] p(2) show ?thesis
    proof (cases rule: declaration_step)
      case (attr p' a st1 d1)
      have "decl_measure p' < decl_measure p" using decl_measure_attr [OF attr(1)] p by simp
      from less.hyps [OF this attr(2)] have "rest_of q \<le> rest_of p' - 1" .
      moreover have "rest_of p' \<le> Suc (length r)"
        using attr_parse_after_skip [of False enc "c # r" st "the p'" a st1] attr(1) by (cases p') auto
      ultimately show ?thesis using p by simp
    next
      case skip
      let ?s = "SkipWhiteSpace (Some (c # r)) enc"
      have "decl_measure (Some (dropWhile is_skipped (the ?s))) < decl_measure p"
        using decl_measure_skip [OF skip(1)] p by simp
      from less.hyps [OF this skip(2)] have "rest_of q \<le> length (dropWhile is_skipped (the ?s))" by simp
      moreover have "length (dropWhile is_skipped (the ?s)) \<le> length (the ?s)" by (rule length_dropWhile_le)
      moreover have "length (the ?s) \<le> length (c # r)" by (rule SkipWhiteSpace_length [of "c # r" enc]) (simp add: SkipWhiteSpace_def)
      ultimately show ?thesis using p by simp
    qed simp_all
  qed
qed

lemma declaration_parse_shorter:
  assumes "declaration_parse enc p st = Inr (q, n, st')"
  shows "rest_of q \<le> rest_of p - 1"
proof -
  let ?s = "SkipWhiteSpace p enc"
  from assms obtain b where b: "(if no_more ?s then Inr False else StringEqual ?s (bytes_of ''<?xml'') True enc) = Inr b"
    by (auto simp: declaration_parse_def Let_def outcome_simps)
  show ?thesis
  proof (cases b)
    case False
    with assms b have "fail_with True TIXML_ERROR_PARSING_DECLARATION None enc (XDeclaration no_location [] [] []) st = Inr (q, n, st')"
      by (simp add: declaration_parse_def Let_def)
    from fail_with_result [OF this] show ?thesis by simp
  next
    case True
    with b obtain s where s: "?s = Some s" "s \<noteq> []" by (cases ?s) (auto split: if_splits)
    from assms b True s obtain st1 d st2 where "declaration_loop enc (Some (drop 5 s)) ([], [], []) st1 = Inr (q, d, st2)"
      by (auto simp: declaration_parse_def Let_def outcome_simps split: prod.splits)
    from declaration_loop_length [OF this] SkipWhiteSpace_rest [of p enc] s show ?thesis by (cases s) auto
  qed
qed

lemma element_attrs_shorter:
  "element_attrs enc p as st = Inr (t, as', st') \<Longrightarrow> t = Tag_empty q \<or> t = Tag_open q \<Longrightarrow> length q < length p"
proof (induction "length p" arbitrary: p as st rule: less_induct)
  case less
  let ?p1 = "SkipWhiteSpace (Some p) enc"
  have nm: "\<not> no_more ?p1"
  proof
    assume "no_more ?p1"
    with less.prems show False by (auto simp: element_attrs.simps [of enc p] outcome_simps)
  qed
  then obtain c s where s: "?p1 = Some (c # s)" by (cases ?p1) (auto simp: neq_Nil_conv)
  have l: "length (c # s) \<le> length p" using SkipWhiteSpace_length [OF s] .
  consider (tag) "c = 47 \<or> c = 62" | (attr) "c \<noteq> 47" "c \<noteq> 62" by blast
  then show ?case
  proof cases
    case tag
    with less.prems s l show ?thesis
      by (auto simp: element_attrs.simps [of enc p] Let_def outcome_simps split: if_splits)
  next
    case attr
    obtain p2 a st1 where a: "attr_parse True enc ?p1 st = Inr (p2, a, st1)" "\<not> no_more p2"
        "element_attrs enc (the p2) (as @ [a]) st1 = Inr (t, as', st')"
      using less.prems attr s
      by (auto simp: element_attrs.simps [of enc p] Let_def outcome_simps Add_def split: if_splits)
    from a(1,2) obtain r where r: "p2 = Some r" by (cases p2) auto
    from a(1) r s have "length r < length p" by (intro attr_parse_after_skip [of True enc p st r a st1]) simp
    with less.hyps [of r "as @ [a]" st1] a(3) r less.prems(2) show ?thesis by simp
  qed
qed

definition no_longer :: "read_value \<Rightarrow> bool" where
  "no_longer rv \<longleftrightarrow> (\<forall>enc p cs st q cs' st'. rv enc p cs st = Inr (q, cs', st') \<longrightarrow> rest_of q \<le> rest_of p)"

lemma element_parse_shorter:
  assumes "element_parse rv enc p st = Inr (q, n, st')" "no_longer rv"
  shows "rest_of q \<le> rest_of p - 1"
proof (cases q)
  case (Some r)
  obtain s st1 where s: "SkipWhiteSpace p enc = Some (60 # s)" "stamp_at (Some (60 # s)) enc st = Inr st1"
    using assms(1) Some
    by (cases "SkipWhiteSpace p enc")
      (auto simp: element_parse_def Let_def outcome_simps neq_Nil_conv peek_def dest!: fail_with_result split: if_splits)
  define pe where "pe = SkipWhiteSpace (Some s) enc"
  obtain p1 v where v: "ReadName pe enc = Inr (p1, v)" "\<not> no_more p1"
    using assms(1) Some s
    by (fastforce simp: element_parse_def Let_def outcome_simps pe_def [symmetric] dest!: fail_with_result split: if_splits)
  then obtain pn where pn: "p1 = Some pn" by (cases p1) auto
  from v(1) pn obtain e where e: "pe = Some e" by (cases pe) (auto simp: ReadName_def)
  from ReadName_length [of e enc pn v] v(1) pn e have l1: "length pn < length e" by simp
  have l2: "length e \<le> length s" using SkipWhiteSpace_length [of s enc e] e pe_def by simp
  obtain t as st2 where t: "element_attrs enc pn [] st1 = Inr (t, as, st2)"
    using assms(1) Some s v pn
    by (auto simp: element_parse_def Let_def outcome_simps pe_def [symmetric] split: if_splits)
  have "length r < length pn"
  proof (cases t)
    case Tag_error
    with t assms(1) Some s v pn show ?thesis
      by (auto simp: element_parse_def Let_def outcome_simps pe_def [symmetric] split: if_splits)
  next
    case (Tag_empty z)
    with t assms(1) Some s v pn have "z = r"
      by (auto simp: element_parse_def Let_def outcome_simps pe_def [symmetric] split: if_splits)
    with element_attrs_shorter [OF t] Tag_empty show ?thesis by blast
  next
    case (Tag_open z)
    with t assms(1) Some s v pn obtain pv cs st3 where c: "rv enc (Some z) [] st2 = Inr (pv, cs, st3)"
      by (auto simp: element_parse_def Let_def outcome_simps pe_def [symmetric] split: if_splits)
    from c Tag_open t assms(1) Some s v pn have pv: "\<not> no_more pv"
      by (auto simp: element_parse_def Let_def outcome_simps pe_def [symmetric] dest!: fail_with_result split: if_splits)
    then obtain w where w: "pv = Some w" by (cases pv) auto
    with pv Tag_open c t assms(1) Some s v pn obtain x
      where x: "SkipWhiteSpace (Some (drop (2 + length v) w)) enc = Some x" "r = drop 1 x"
      by (auto simp: element_parse_def Let_def outcome_simps pe_def [symmetric] dest!: fail_with_result split: if_splits)
    from assms(2) c w have "length w \<le> length z" by (force simp: no_longer_def)
    moreover have "length z < length pn" using element_attrs_shorter [OF t] Tag_open by blast
    moreover have "length x \<le> length w" using SkipWhiteSpace_length [OF x(1)] by simp
    ultimately show ?thesis using x(2) by simp
  qed
  with l1 l2 s(1) SkipWhiteSpace_rest [of p enc] Some show ?thesis by simp
qed simp

lemma node_parse_shorter:
  assumes "node_parse rv k enc p st = Inr (q, n, st')" "no_longer rv"
  shows "rest_of q \<le> rest_of p - 1"
  using assms(1) unfolding node_parse_def
  by (cases k) (auto dest: declaration_parse_shorter comment_parse_shorter cdata_parse_shorter unknown_parse_shorter
      element_parse_shorter [OF _ assms(2)])

section \<open>The fuel is enough\<close>

text \<open>One round of \<open>read_value\<close>, with the rest of the loop as an argument.\<close>

definition read_round :: "read_value \<Rightarrow> read_value \<Rightarrow> read_value" where
  "read_round rv next_round enc pw cs st =
     (let p = SkipWhiteSpace pw enc in
      if p = None then
        bindE (SetError TIXML_ERROR_READING_ELEMENT_VALUE None enc st) (\<lambda>st. Inr (None, cs, st))
      else if p = Some [] then Inr (p, cs, st)
      else if peek (the p) 0 \<noteq> 60 then
        bindE (text_parse False False enc (if condense st then p else pw) st) (\<lambda>(p, node, st).
          next_round enc p (if \<not> Blank (node_value node) then cs @ [node] else cs) st)
      else
        bindE (StringEqual p (bytes_of ''</'') False enc) (\<lambda>closing.
        if closing then Inr (p, cs, st)
        else
          bindE (Identify enc p) (\<lambda>k.
          case k of
            None \<Rightarrow> Inr (None, cs, st)
          | Some kind \<Rightarrow>
              bindE (node_parse rv kind enc p st) (\<lambda>(p, node, st). next_round enc p (cs @ [node]) st))))"

lemma read_value_Suc: "read_value (Suc n) enc pw cs st = read_round (read_value n) (read_value n) enc pw cs st"
  by (simp add: read_round_def)

lemma SkipWhiteSpace_same_head:
  assumes "SkipWhiteSpace (Some q) enc = Some s" "peek s 0 \<noteq> 60"
  shows "q \<noteq> [] \<and> peek q 0 \<noteq> 60"
proof (cases q)
  case (Cons c r)
  show ?thesis
  proof (cases "s = q")
    case False
    with assms(1) Cons have "is_mark q \<or> IsWhiteSpace c"
      by (auto simp: SkipWhiteSpace_def split: if_splits)
    then show ?thesis using Cons by (auto simp: is_mark_def IsWhiteSpace_def)
  qed (use assms Cons in auto)
qed (use assms in \<open>simp add: SkipWhiteSpace_def\<close>)

lemma value_text_shorter:
  assumes "text_parse False False enc (if cw then Some s else pw) st = Inr (q, n, st')"
    "SkipWhiteSpace pw enc = Some s" "s \<noteq> []" "peek s 0 \<noteq> 60"
  shows "rest_of q \<le> rest_of pw - 1"
proof -
  obtain w where w: "pw = Some w" using assms(2) by (cases pw) auto
  have l: "length s \<le> length w" using SkipWhiteSpace_length assms(2) w by blast
  show ?thesis
  proof (cases cw)
    case True
    with text_parse_shorter [of enc s st q n st'] assms w l show ?thesis by simp
  next
    case False
    with text_parse_shorter [of enc w st q n st'] SkipWhiteSpace_same_head [of w enc s] assms w show ?thesis by simp
  qed
qed

text \<open>Rounds that agree on shorter texts give the same result.\<close>

lemma node_parse_cong:
  assumes "\<And>q cs st. rest_of q < rest_of p \<Longrightarrow> rv enc q cs st = rv' enc q cs st"
  shows "node_parse rv k enc p st = node_parse rv' k enc p st"
proof (cases "k = K_Element")
  case True
  have "element_parse rv enc p st = element_parse rv' enc p st"
  proof (cases "SkipWhiteSpace p enc")
    case (Some s)
    have l: "Suc (length s) \<le> rest_of p" using SkipWhiteSpace_rest [of p enc] Some by simp
    have same: "rv enc (Some z) [] st2 = rv' enc (Some z) [] st2"
      if "ReadName (SkipWhiteSpace (Some (drop 1 s)) enc) enc = Inr (Some pn, v)"
        "element_attrs enc pn [] st1 = Inr (Tag_open z, as, st2)" for pn v z as st1 st2
    proof (rule assms)
      from that(1) obtain e where e: "SkipWhiteSpace (Some (drop 1 s)) enc = Some e"
        by (cases "SkipWhiteSpace (Some (drop 1 s)) enc") (auto simp: ReadName_def)
      have "length pn < length e" using ReadName_length [of e enc pn v] that(1) e by simp
      moreover have "length e \<le> length s" using SkipWhiteSpace_length [OF e] by simp
      moreover have "length z < length pn" using element_attrs_shorter [OF that(2)] by blast
      ultimately show "rest_of (Some z) < rest_of p" using l by simp
    qed
    show ?thesis
      unfolding element_parse_def Let_def Some
      by (auto intro!: bindE_cong simp: same split: tag_end.splits prod.splits)
  qed (simp add: element_parse_def)
  with True show ?thesis by (simp add: node_parse_def)
qed (cases k; simp add: node_parse_def)

lemma read_round_cong:
  assumes rv: "no_longer rv"
    and same: "\<And>q cs st. rest_of q < rest_of p \<Longrightarrow> rv enc q cs st = rv' enc q cs st"
    and rest: "\<And>q cs st. rest_of q < rest_of p \<or> p = None \<Longrightarrow> nx enc q cs st = nx' enc q cs st"
  shows "read_round rv nx enc p cs st = read_round rv' nx' enc p cs st"
proof (cases "SkipWhiteSpace p enc")
  case (Some s)
  have l: "Suc (length s) \<le> rest_of p" using SkipWhiteSpace_rest [of p enc] Some by simp
  have np: "node_parse rv k enc (Some s) st = node_parse rv' k enc (Some s) st" for k st
    using l by (intro node_parse_cong same) simp
  have nt: "nx enc q cs' st2 = nx' enc q cs' st2"
    if "text_parse False False enc (if condense st then Some s else p) st = Inr (q, n, st2)"
      "s \<noteq> []" "peek s 0 \<noteq> 60" for q n st2 cs'
    using value_text_shorter [OF that(1) Some that(2,3)] l by (intro rest) auto
  have nn: "nx enc q cs' st2 = nx' enc q cs' st2"
    if "node_parse rv k enc (Some s) st = Inr (q, n, st2)" for k q n st2 cs'
    using node_parse_shorter [OF that rv] l by (intro rest) auto
  show ?thesis
    unfolding read_round_def Let_def Some
    by (auto intro!: bindE_cong simp: np [symmetric] nt nn split: option.splits prod.splits)
qed (simp add: read_round_def)

lemma read_value_no_longer: "no_longer (read_value n)"
proof (induction n)
  case 0
  show ?case by (simp add: no_longer_def)
next
  case (Suc n)
  show ?case unfolding no_longer_def
  proof (intro allI impI)
    fix enc pw cs st q cs' st'
    assume run: "read_value (Suc n) enc pw cs st = Inr (q, cs', st')"
    show "rest_of q \<le> rest_of pw"
    proof (cases "SkipWhiteSpace pw enc")
      case None
      with run show ?thesis by (auto simp: outcome_simps)
    next
      case (Some s)
      have l: "Suc (length s) \<le> rest_of pw" using SkipWhiteSpace_rest [of pw enc] Some by simp
      have IH: "rest_of q \<le> rest_of p" if "read_value n enc p cs1 st1 = Inr (q, cs', st')" for p cs1 st1
        using Suc that unfolding no_longer_def by blast
      consider (stop) "q = Some s \<or> q = None"
        | (leaf) p n1 st1 cs1 where "text_parse False False enc (if condense st then Some s else pw) st = Inr (p, n1, st1)"
            "s \<noteq> []" "peek s 0 \<noteq> 60" "read_value n enc p cs1 st1 = Inr (q, cs', st')"
        | (node) k p n1 st1 cs1 where "node_parse (read_value n) k enc (Some s) st = Inr (p, n1, st1)"
            "read_value n enc p cs1 st1 = Inr (q, cs', st')"
        using run Some by (auto simp: Let_def outcome_simps split: if_splits option.splits)
      then show ?thesis
      proof cases
        case leaf
        with IH [OF leaf(4)] value_text_shorter [OF leaf(1) Some leaf(2,3)] l show ?thesis by auto
      next
        case node
        with IH [OF node(2)] node_parse_shorter [OF node(1) Suc] l show ?thesis by auto
      qed (use l in auto)
    qed
  qed
qed

lemma read_value_more: "rest_of p < n \<Longrightarrow> read_value (Suc n) enc p cs st = read_value n enc p cs st"
proof (induction n arbitrary: p cs st)
  case (Suc n)
  have "read_round (read_value (Suc n)) (read_value (Suc n)) enc p cs st
      = read_round (read_value n) (read_value n) enc p cs st"
  proof (cases "p = None")
    case True
    then show ?thesis by (simp add: read_round_def)
  next
    case False
    show ?thesis
      using Suc.prems False by (intro read_round_cong read_value_no_longer)
      (auto intro!: Suc.IH simp del: read_value.simps)
  qed
  then show ?case by (simp only: read_value_Suc)
qed simp

lemma doc_loop_more: "rest_of p < n \<Longrightarrow> doc_loop (Suc n) enc p cs st = doc_loop n enc p cs st"
proof (induction n arbitrary: enc p cs st)
  case (Suc n)
  have np: "node_parse (read_value (Suc n)) k enc p st = node_parse (read_value n) k enc p st" for k
    using Suc.prems by (intro node_parse_cong read_value_more) simp
  have nx: "doc_loop (Suc n) e' (SkipWhiteSpace q e') cs' st' = doc_loop n e' (SkipWhiteSpace q e') cs' st'"
    if "node_parse (read_value n) k enc p st = Inr (q, node, st')" "\<not> no_more p" for k q node st' e' cs'
  proof (rule Suc.IH)
    have "0 < rest_of p - 1" using that(2) by (cases p) auto
    then show "rest_of (SkipWhiteSpace q e') < n"
      using node_parse_shorter [OF that(1) read_value_no_longer] SkipWhiteSpace_rest [of q e'] Suc.prems by simp
  qed
  show ?case
    by (subst (1 2) doc_loop.simps(2))
      (auto intro!: bindE_cong simp: np nx simp del: doc_loop.simps read_value.simps split: option.splits prod.splits)
qed simp

lemma doc_loop_enough: "rest_of p < n \<Longrightarrow> doc_loop (n + k) enc p cs st = doc_loop n enc p cs st"
  by (induction k) (simp_all add: doc_loop_more del: doc_loop.simps)

lemma doc_Parse_enough:
  assumes "length p + 2 \<le> fuel"
  shows "doc_Parse cw fuel p enc doc = doc_Parse cw (length p + 2) p enc doc"
proof -
  obtain k where k: "fuel = length p + 2 + k" using assms le_Suc_ex by blast
  have "doc_loop fuel enc' (Some q) cs st = doc_loop (length p + 2) enc' (Some q) cs st"
    if "SkipWhiteSpace (Some p) enc' = Some q" for enc' q cs st
    unfolding k using SkipWhiteSpace_length [OF that] by (intro doc_loop_enough) simp
  then show ?thesis by (auto simp: doc_Parse_def Let_def split: option.splits)
qed

lemma normalize_length: "length (normalize b) \<le> length b"
  by (induction b rule: normalize.induct) auto

lemma LoadFile_enough:
  assumes "length bytes + 2 \<le> fuel"
  shows "LoadFile cw fuel (Some bytes) doc = LoadFile cw (length bytes + 2) (Some bytes) doc"
  using doc_Parse_enough [of "normalize bytes" fuel cw] doc_Parse_enough [of "normalize bytes" "length bytes + 2" cw]
    normalize_length [of bytes] assms
  by (simp add: LoadFile_def Let_def)

section \<open>What every step of the parser keeps\<close>

text \<open>
  \<open>sound d P out\<close>: a result satisfies \<open>P\<close>, and when \<open>d\<close> is set there is no hang. \<open>keeps d st0 st\<close>:
  an error that \<open>st0\<close> had is still there in \<open>st\<close>, and when \<open>d\<close> is set, what \<open>Stamp\<close> still has to
  read is free of the lead byte.
\<close>

definition sound :: "bool \<Rightarrow> ('a \<Rightarrow> bool) \<Rightarrow> 'a outcome \<Rightarrow> bool" where
  "sound d P out \<longleftrightarrow> (d \<longrightarrow> out \<noteq> Inl Diverges) \<and> (\<forall>x. out = Inr x \<longrightarrow> P x)"

lemma sound_Inr: "P x \<Longrightarrow> sound d P (Inr x)"
  by (simp add: sound_def)

lemma sound_Inl: "e \<noteq> Diverges \<Longrightarrow> sound d P (Inl e)"
  by (simp add: sound_def)

lemma sound_bind: "sound d P m \<Longrightarrow> (\<And>x. m = Inr x \<Longrightarrow> P x \<Longrightarrow> sound d Q (f x)) \<Longrightarrow> sound d Q (bindE m f)"
  by (cases m) (auto simp: sound_def)

lemma sound_bind2:
  "sound d P m \<Longrightarrow> (\<And>x y. m = Inr (x, y) \<Longrightarrow> P (x, y) \<Longrightarrow> sound d Q (f x y)) \<Longrightarrow>
    sound d Q (bindE m (\<lambda>(x, y). f x y))"
  by (cases m) (auto simp: sound_def)

lemma sound_bind3:
  "sound d P m \<Longrightarrow> (\<And>x y z. m = Inr (x, y, z) \<Longrightarrow> P (x, y, z) \<Longrightarrow> sound d Q (f x y z)) \<Longrightarrow>
    sound d Q (bindE m (\<lambda>(x, y, z). f x y z))"
  by (cases m) (auto simp: sound_def)

lemma sound_assert: "sound d (\<lambda>u. p) (xassert p)"
  by (simp add: sound_def TASSERT_def)

lemma sound_mono: "sound d P out \<Longrightarrow> (\<And>x. P x \<Longrightarrow> Q x) \<Longrightarrow> sound d Q out"
  by (auto simp: sound_def)

definition keeps :: "bool \<Rightarrow> xstate \<Rightarrow> xstate \<Rightarrow> bool" where
  "keeps d st0 st \<longleftrightarrow> (d \<longrightarrow> TIXML_UTF_LEAD_0 \<notin> set (stamp (pd st))) \<and> (xerr st0 \<noteq> None \<longrightarrow> xerr st \<noteq> None)"

lemma keeps_refl: "keeps d st0 st \<Longrightarrow> keeps d st st"
  by (simp add: keeps_def)

lemma keeps_trans: "keeps d st0 st \<Longrightarrow> keeps d st st' \<Longrightarrow> keeps d st0 st'"
  by (simp add: keeps_def)

text \<open>The functions that return no state.\<close>

lemma no_hang_StringEqual: "sound d (\<lambda>u. True) (StringEqual p tag i enc)"
  by (auto simp: sound_def StringEqual_def TASSERT_def split: option.splits list.splits)

lemma no_hang_ReadName: "sound d (\<lambda>u. True) (ReadName p enc)"
  by (auto simp: sound_def ReadName_def TASSERT_def split: option.splits list.splits)

lemma no_hang_GetChar: "GetChar p enc \<noteq> Inl Diverges"
  by (auto simp: GetChar_def Let_def TASSERT_def outcome_simps)

lemma no_hang_keep_text: "keep_text e i enc p tx \<noteq> Inl Diverges"
proof (induction e i enc p tx rule: keep_text.induct)
  case (1 e i enc p tx)
  then show ?case
    by (subst keep_text.simps) (auto simp: no_hang_GetChar split: option.splits list.splits sum.splits)
qed

lemma no_hang_condense_text: "condense_text e i enc p w tx \<noteq> Inl Diverges"
proof (induction e i enc p w tx rule: condense_text.induct)
  case (1 e i enc p w tx)
  then show ?case
    by (subst condense_text.simps) (auto simp: no_hang_GetChar split: option.splits list.splits sum.splits)
qed

lemma no_hang_ReadText: "sound d (\<lambda>u. True) (ReadText cw p trim e i enc)"
  by (auto simp: sound_def ReadText_def outcome_simps no_hang_keep_text no_hang_condense_text)

lemma no_hang_Identify: "sound d (\<lambda>u. True) (Identify enc p)"
  unfolding Identify_def Let_def
  by (auto intro!: sound_bind [OF no_hang_StringEqual] sound_Inr)

lemma no_hang_declared_encoding: "sound d (\<lambda>u. True) (declared_encoding e)"
  unfolding declared_encoding_def
  by (auto intro!: sound_bind [OF no_hang_StringEqual] sound_Inr)

end
