(* ===== verification/Xml_Typed.thy ===== *)
theory Xml_Typed
  imports Xml_Spec
begin

text \<open>
  The types of the trees the parser builds: whatever bytes it reads, names are names, the
  attributes of an element have different names, no text is blank, and an element without a name
  only stays behind together with an error. With it, the parser is shown to return on every text
  without the byte 0xef.
\<close>

section \<open>Types of trees\<close>

definition name_ok :: "byte list \<Rightarrow> bool" where
  "name_ok v \<longleftrightarrow> v \<noteq> [] \<and> is_name_start (hd v) \<and> (\<forall>c \<in> set v. is_name_byte c)"

fun child_ok :: "xnode \<Rightarrow> bool" where
  "child_ok (XText l v c) \<longleftrightarrow> c \<or> \<not> Blank v"
| "child_ok _ \<longleftrightarrow> True"

fun well_typed :: "bool \<Rightarrow> xnode \<Rightarrow> bool" where
  "well_typed strict (XElement l v as cs) \<longleftrightarrow>
     (v = [] \<and> \<not> strict \<or> name_ok v) \<and> distinct (map a_name as) \<and> (\<forall>a \<in> set as. name_ok (a_name a)) \<and>
     (\<forall>n \<in> set cs. well_typed strict n \<and> child_ok n)"
| "well_typed strict (XUnknown l v) \<longleftrightarrow> 62 \<notin> set v"
| "well_typed strict (XComment l v) \<longleftrightarrow> True"
| "well_typed strict (XText l v c) \<longleftrightarrow> True"
| "well_typed strict (XDeclaration l v e s) \<longleftrightarrow> True"

lemma well_typed_mono: "well_typed s n \<Longrightarrow> (s' \<Longrightarrow> s) \<Longrightarrow> well_typed s' n"
  by (induction s n rule: well_typed.induct) auto

definition typed_in :: "xstate \<Rightarrow> xnode \<Rightarrow> bool" where
  "typed_in st n \<longleftrightarrow> well_typed (xerr st = None) n"

lemma typed_leaf: "typed_in st (XText l v c)" "typed_in st (XComment l v)" "typed_in st (XDeclaration l v e s)"
  by (simp_all add: typed_in_def)

lemma typed_later: "typed_in st n \<Longrightarrow> keeps d st st' \<Longrightarrow> typed_in st' n"
  unfolding typed_in_def keeps_def by (cases "xerr st") (auto elim: well_typed_mono)

lemma name_ok_c_str: "name_ok v \<Longrightarrow> c_str v = v"
proof -
  assume "name_ok v"
  then have "\<forall>c \<in> set v. c \<noteq> 0"
    by (auto simp: name_ok_def is_name_byte_def IsAlphaNum_def isalpha_def isdigit_def)
  then show ?thesis by (simp add: c_str_def)
qed

lemma ReadName_ok: "ReadName p enc = Inr (Some q, v) \<Longrightarrow> name_ok v"
proof -
  assume r: "ReadName p enc = Inr (Some q, v)"
  then obtain c s where p: "is_name_start c" "v = takeWhile is_name_byte (c # s)"
    by (cases p) (auto simp: ReadName_def TASSERT_def split: list.splits if_splits)
  then have "is_name_byte c" by (auto simp: is_name_start_def is_name_byte_def IsAlpha_def IsAlphaNum_def split: if_splits)
  with p show ?thesis by (auto simp: name_ok_def dest: set_takeWhileD)
qed

section \<open>The steps\<close>

lemma sound_if: "(c \<Longrightarrow> sound d P a) \<Longrightarrow> (\<not> c \<Longrightarrow> sound d P b) \<Longrightarrow> sound d P (if c then a else b)"
  by simp

text \<open>One step of \<open>Stamp\<close>: it is done, or moves on, or hangs at the lead byte.\<close>

lemma stamp_loop_step:
  obtains (stop) "stamp_loop enc ts n p row col = Inr (p, row, col)"
    | (move) k row' col' where "stamp_loop enc ts n p row col = stamp_loop enc ts n (drop (Suc k) p) row' col'"
      "p \<noteq> []" "row \<le> row'" "0 \<le> col \<Longrightarrow> 1 \<le> ts \<Longrightarrow> 0 \<le> col'"
    | (hang) "stamp_loop enc ts n p row col = Inl Diverges" "enc = TIXML_ENCODING_UTF8" "TIXML_UTF_LEAD_0 \<in> set p"
proof (cases "length p \<le> n \<or> p = []")
  case True
  then show thesis by (intro stop) (auto simp: stamp_loop.simps [of enc ts n p])
next
  case False
  then obtain c q where p: "p = c # q" "\<not> length (c # q) \<le> n" by (cases p) auto
  note S = stamp_loop.simps [of enc ts n "c # q" row col]
  have col: "0 \<le> col \<Longrightarrow> 1 \<le> ts \<Longrightarrow> 0 \<le> (col div ts + 1) * ts"
    by (simp add: pos_imp_zdiv_nonneg_iff)
  consider "c = 13" | "c = 10" | "c = 9" | (lead) "c = TIXML_UTF_LEAD_0" "enc = TIXML_ENCODING_UTF8"
    | (lead1) "c = TIXML_UTF_LEAD_0" "enc \<noteq> TIXML_ENCODING_UTF8"
    | (other) "c \<noteq> 13" "c \<noteq> 10" "c \<noteq> 9" "c \<noteq> TIXML_UTF_LEAD_0" by blast
  then show thesis
  proof cases
    case 1
    with S p show thesis by (intro move [of "if peek q 0 = 10 then 1 else 0" "row + 1" 0]) auto
  next
    case 2
    with S p show thesis by (intro move [of "if peek q 0 = 13 then 1 else 0" "row + 1" 0]) auto
  next
    case 3
    with S p col show thesis by (intro move [of 0 row "(col div ts + 1) * ts"]) auto
  next
    case lead
    show thesis
    proof (cases "peek p 1 \<noteq> 0 \<and> peek p 2 \<noteq> 0")
      case True
      have "stamp_loop enc ts n p row col = stamp_loop enc ts n (drop 3 p) row col \<or>
          stamp_loop enc ts n p row col = stamp_loop enc ts n (drop 3 p) row (col + 1)"
        using S p lead True by simp
      then show thesis using p move [of 2 row col] move [of 2 row "col + 1"] by auto
    next
      case False
      with S p lead show thesis by (intro hang) auto
    qed
  next
    case lead1
    with S p show thesis by (intro move [of 0 row "col + 1"]) auto
  next
    case other
    show thesis
    proof (cases "enc = TIXML_ENCODING_UTF8")
      case True
      obtain k where k: "utf8ByteTable c = Suc k" using utf8ByteTable_pos [of c] by (cases "utf8ByteTable c") auto
      from S p other True k show thesis by (intro move [of k row "col + 1"]) (auto simp: Let_def)
    next
      case False
      with S p other show thesis by (intro move [of 0 row "col + 1"]) auto
    qed
  qed
qed

lemma stamp_loop_sound:
  "sound (enc = TIXML_ENCODING_UTF8 \<longrightarrow> TIXML_UTF_LEAD_0 \<notin> set p)
     (\<lambda>(p', r, c). set p' \<subseteq> set p \<and> row \<le> r \<and> (0 \<le> col \<longrightarrow> 1 \<le> ts \<longrightarrow> 0 \<le> c)) (stamp_loop enc ts n p row col)"
proof (induction "length p" arbitrary: p row col rule: less_induct)
  case less
  show ?case
  proof (cases rule: stamp_loop_step [of enc ts n p row col])
    case (move k row' col')
    have "length (drop (Suc k) p) < length p" using move(2) by simp
    moreover have "set (drop (Suc k) p) \<subseteq> set p" by (rule set_drop_subset)
    ultimately show ?thesis using less.hyps [of "drop (Suc k) p" row' col'] move
      by (fastforce simp: sound_def)
  qed (auto simp: sound_def)
qed

lemma stamp_loop_no_fault: "stamp_loop enc ts n p row col \<noteq> Inl e \<or> e = Diverges"
proof (induction "length p" arbitrary: p row col rule: less_induct)
  case less
  show ?case
  proof (cases rule: stamp_loop_step [of enc ts n p row col])
    case (move k row' col')
    with less.hyps [of "drop (Suc k) p" row' col'] show ?thesis by simp
  qed auto
qed

lemma stamp_sound: "keeps d st0 st \<Longrightarrow> sound d (\<lambda>st'. keeps d st0 st' \<and> keeps d st st') (stamp_at p enc st)"
proof -
  assume k: "keeps d st0 st"
  have "sound d (\<lambda>x. d \<longrightarrow> TIXML_UTF_LEAD_0 \<notin> set (stamp x)) (Stamp p enc (pd st))"
    using k stamp_loop_sound [of enc "stamp (pd st)" "cursor_row (pd st)" "cursor_col (pd st)" "tabsize (pd st)" "length (the p)"]
    by (auto simp: Stamp_def sound_def keeps_def outcome_simps TASSERT_def split: option.splits if_splits prod.splits)
  then show ?thesis using k
    by (auto simp: stamp_at_def sound_def keeps_def outcome_simps)
qed

lemma SetError_sound:
  "keeps d st0 st \<Longrightarrow> sound d (\<lambda>st'. keeps d st0 st' \<and> keeps d st st' \<and> xerr st' \<noteq> None) (SetError err pe enc st)"
  unfolding SetError_def
  by (auto intro!: sound_Inr sound_bind [OF stamp_sound] split: option.splits) (auto simp: keeps_def)

lemma fail_with_sound:
  assumes "keeps d st0 st" "doc \<Longrightarrow> (\<And>st'. keeps d st st' \<Longrightarrow> xerr st' \<noteq> None \<Longrightarrow> P n st')" "\<not> doc \<Longrightarrow> P n st"
  shows "sound d (\<lambda>(q, n, st'). keeps d st0 st' \<and> keeps d st st' \<and> q = None \<and> P n st') (fail_with doc err pe enc n st)"
  unfolding fail_with_def
  using assms keeps_refl [OF assms(1)]
  by (auto intro!: sound_Inr sound_bind [OF SetError_sound] simp: bindE_if)

lemma attr_parse_sound:
  assumes "keeps d st0 st"
  shows "sound d (\<lambda>(q, a, st'). keeps d st0 st' \<and> keeps d st st' \<and> (q \<noteq> None \<longrightarrow> name_ok (a_name a))) (attr_parse doc enc p st)"
proof -
  have fail: "sound d (\<lambda>(q, a, st'). keeps d st0 st' \<and> keeps d st st' \<and> (q \<noteq> None \<longrightarrow> name_ok (a_name a)))
      (fail_with doc err pe enc n st1)" if "keeps d st0 st1" "keeps d st st1" for err pe and n :: xattr and st1
    by (rule sound_mono [OF fail_with_sound [where P = "\<lambda>_ _. True" and doc = doc, OF that(1)]])
      (use that in \<open>auto simp: keeps_def\<close>)
  show ?thesis
    unfolding attr_parse_def Let_def
  proof (rule sound_if, goal_cases)
    case 1
    show ?case using assms keeps_refl by (auto intro!: sound_Inr)
  next
    case 2
    show ?case
    proof (rule sound_bind [OF stamp_sound [OF assms]], rule sound_bind2 [OF no_hang_ReadName], goal_cases)
      case (1 st1 p1 v)
      note k = 1(2)
      have n: "name_ok v" if "\<not> no_more p1" using ReadName_ok 1(3) that by (cases p1) auto
      have quoted: "sound d (\<lambda>(q, a, st'). keeps d st0 st' \<and> keeps d st st' \<and> (q \<noteq> None \<longrightarrow> name_ok (a_name a)))
          (bindE (ReadText (condense st1) r False e False enc) (\<lambda>(p, v). Inr (p, a\<lparr>a_value := v\<rparr>, st1)))"
        if "name_ok (a_name a)" for r e and a :: xattr
        by (rule sound_bind2 [OF no_hang_ReadText]) (use k that in \<open>auto intro!: sound_Inr\<close>)
      have bare: "sound d (\<lambda>(q, a, st'). keeps d st0 st' \<and> keeps d st st' \<and> (q \<noteq> None \<longrightarrow> name_ok (a_name a)))
          (case unquoted r of (v, rest, ok) \<Rightarrow>
            if \<not> ok then fail_with doc TIXML_ERROR_READING_ATTRIBUTES (Some rest) enc (a\<lparr>a_value := v\<rparr>) st1
            else Inr (Some rest, a\<lparr>a_value := v\<rparr>, st1))"
        if "name_ok (a_name a)" for r and a :: xattr
        using k that by (auto intro!: fail sound_Inr simp del: not_None_eq split: prod.splits)
      show ?case
        by (intro sound_if fail quoted bare) (use k n in simp_all)
    qed
  qed
qed

lemma unknown_parse_sound:
  assumes "keeps d st0 st"
  shows "sound d (\<lambda>(q, n, st'). keeps d st0 st' \<and> keeps d st st' \<and> typed_in st' n \<and> child_ok n) (unknown_parse enc p st)"
  unfolding unknown_parse_def Let_def
proof (rule sound_bind [OF stamp_sound [OF assms]], rule sound_if, goal_cases)
  case (1 st1)
  then have k: "keeps d st0 st1" "keeps d st st1" by auto
  show ?case
    by (rule sound_mono [OF fail_with_sound [where P = "\<lambda>n st'. typed_in st' n \<and> child_ok n" and doc = True, OF k(1)]])
      (use k in \<open>auto simp: typed_in_def intro: keeps_trans\<close>)
next
  case (2 st1)
  then show ?case by (auto intro!: sound_Inr simp: typed_in_def dest: set_takeWhileD)
qed

lemma comment_parse_sound:
  assumes "keeps d st0 st"
  shows "sound d (\<lambda>(q, n, st'). keeps d st0 st' \<and> keeps d st st' \<and> typed_in st' n \<and> child_ok n) (comment_parse enc p st)"
  unfolding comment_parse_def Let_def
proof (rule sound_bind [OF stamp_sound [OF assms]], rule sound_bind [OF no_hang_StringEqual], rule sound_if, goal_cases)
  case (1 st1 b)
  then have k: "keeps d st0 st1" "keeps d st st1" by auto
  show ?case
    by (rule sound_mono [OF fail_with_sound [where P = "\<lambda>n st'. typed_in st' n \<and> child_ok n" and doc = True, OF k(1)]])
      (use k in \<open>auto simp: typed_leaf intro: keeps_trans\<close>)
next
  case (2 st1 b)
  then show ?case by (auto intro!: sound_Inr simp: typed_in_def split: prod.splits)
qed

lemma text_parse_sound:
  assumes "keeps d st0 st"
  shows "sound d (\<lambda>(q, n, st'). keeps d st0 st' \<and> keeps d st st' \<and> typed_in st' n \<and> (cdata \<longrightarrow> child_ok n))
     (text_parse doc cdata enc p st)"
proof -
  have fail: "sound d (\<lambda>(q, n, st'). keeps d st0 st' \<and> keeps d st st' \<and> typed_in st' n \<and> (cdata \<longrightarrow> child_ok n))
      (fail_with doc err pe enc (XText l v True) st1)" if "keeps d st0 st1" "keeps d st st1" for err pe l v st1
    by (rule sound_mono [OF fail_with_sound [where P = "\<lambda>n st'. typed_in st' n \<and> child_ok n" and doc = doc, OF that(1)]])
      (use that in \<open>auto simp: keeps_def typed_in_def\<close>)
  show ?thesis
    unfolding text_parse_def Let_def
  proof (rule sound_bind [OF stamp_sound [OF assms]],
      rule sound_bind [where P = "\<lambda>b. cdata \<longrightarrow> b"], goal_cases)
    case (1 st1)
    then show ?case by (auto intro!: sound_Inr no_hang_StringEqual)
  next
    case (2 st1 b)
    then show ?case
      by (auto intro!: sound_if sound_bind [OF no_hang_StringEqual] sound_bind2 [OF no_hang_ReadText] sound_Inr fail
          simp: typed_leaf split: prod.splits)
  qed
qed

lemma declaration_loop_sound:
  "keeps d st0 st \<Longrightarrow> sound d (\<lambda>(q, x, st'). keeps d st0 st' \<and> keeps d st st') (declaration_loop enc p x st)"
proof (induction "decl_measure p" arbitrary: p x st rule: less_induct)
  case less
  show ?case
  proof (cases "no_more p \<or> peek (the p) 0 = 62")
    case True
    with less.prems keeps_refl show ?thesis
      by (cases p) (auto simp: declaration_loop.simps neq_Nil_conv intro!: sound_Inr split: list.splits)
  next
    case False
    then obtain c r where p: "p = Some (c # r)" "c \<noteq> 62" by (cases p) (auto simp: neq_Nil_conv)
    have a: "sound d (\<lambda>(q, a, st'). keeps d st0 st' \<and> keeps d st st' \<and> (q \<noteq> None \<longrightarrow> name_ok (a_name a)))
        (attr_parse False enc (SkipWhiteSpace (Some (c # r)) enc) st)"
      by (rule attr_parse_sound [OF less.prems])
    obtain res where res: "declaration_loop enc (Some (c # r)) x st = res" by simp
    then show ?thesis using p(2)
    proof (cases rule: declaration_step)
      case (attr p' a st1 d1)
      have k: "keeps d st0 st1" "keeps d st st1" using a attr(1) by (auto simp: sound_def)
      have "decl_measure p' < decl_measure p" using decl_measure_attr [OF attr(1)] p by simp
      from less.hyps [OF this k(1), of d1] show ?thesis
        unfolding p(1) res attr(2) by (rule sound_mono) (use k in \<open>auto intro: keeps_trans\<close>)
    next
      case (bad e)
      with a res p(1) show ?thesis
        by (auto simp: sound_def)
    next
      case skip
      have "decl_measure (Some (dropWhile is_skipped (the (SkipWhiteSpace (Some (c # r)) enc)))) < decl_measure p"
        using decl_measure_skip [OF skip(1)] p by simp
      from less.hyps [OF this less.prems, of x] skip(2) res p(1)
      show ?thesis by simp
    next
      case blank
      with res p(1) show ?thesis
        by (simp add: sound_def)
    qed
  qed
qed

lemma declaration_parse_sound:
  assumes "keeps d st0 st"
  shows "sound d (\<lambda>(q, n, st'). keeps d st0 st' \<and> keeps d st st' \<and> typed_in st' n \<and> child_ok n) (declaration_parse enc p st)"
  unfolding declaration_parse_def Let_def
proof (rule sound_bind [where P = "\<lambda>b. True"], goal_cases)
  case 1
  show ?case by (auto intro!: sound_Inr no_hang_StringEqual)
next
  case (2 b)
  show ?case
  proof (rule sound_if, goal_cases)
    case 1
    show ?case
      by (rule sound_mono [OF fail_with_sound [where P = "\<lambda>n st'. typed_in st' n \<and> child_ok n" and doc = True, OF assms]])
        (use assms in \<open>auto simp: typed_leaf\<close>)
  next
    case 2
    show ?case
    proof (rule sound_bind [OF stamp_sound [OF assms]], goal_cases)
      case (1 st1)
      show ?case
        by (rule sound_bind3 [OF declaration_loop_sound [of d st1]])
          (use 1 in \<open>auto intro!: sound_Inr simp: typed_leaf intro: keeps_trans keeps_refl split: prod.splits\<close>)
    qed
  qed
qed

text \<open>The attributes of an element keep different names; an error is left when the tag is not closed.\<close>

definition attrs_ok :: "xattr list \<Rightarrow> bool" where
  "attrs_ok as \<longleftrightarrow> distinct (map a_name as) \<and> (\<forall>a \<in> set as. name_ok (a_name a))"

lemma Find_None: "Find name as = None \<longleftrightarrow> (\<forall>a \<in> set as. c_str (a_name a) \<noteq> name)"
  by (auto simp: Find_def find_None_iff)

lemma element_attrs_sound:
  "keeps d st0 st \<Longrightarrow> attrs_ok as \<Longrightarrow>
    sound d (\<lambda>(t, as', st'). keeps d st0 st' \<and> keeps d st st' \<and> attrs_ok as' \<and> (t = Tag_error \<longrightarrow> xerr st' \<noteq> None))
      (element_attrs enc p as st)"
proof (induction "length p" arbitrary: p as st rule: less_induct)
  case less
  let ?Q = "\<lambda>(t, as', st'). keeps d st0 st' \<and> keeps d st st' \<and> attrs_ok as' \<and> (t = Tag_error \<longrightarrow> xerr st' \<noteq> None)"
  have fail: "sound d ?Q (bindE (SetError err pe enc st1) (\<lambda>st'. Inr (Tag_error, as, st')))"
    if "keeps d st0 st1" "keeps d st st1" for err pe st1
    by (rule sound_bind [OF SetError_sound [OF that(1)]]) (use that less.prems in \<open>auto intro!: sound_Inr intro: keeps_trans\<close>)
  have k: "keeps d st st" using keeps_refl less.prems(1) .
  show ?case
    unfolding element_attrs.simps [of enc p as st] Let_def
  proof (intro sound_if, goal_cases)
    case 1
    show ?case by (rule fail [OF less.prems(1) k])
  next
    case 2
    show ?case by (rule fail [OF less.prems(1) k])
  next
    case 3
    show ?case using less.prems k by (auto intro!: sound_Inr)
  next
    case 4
    show ?case using less.prems k by (auto intro!: sound_Inr)
  next
    case 5
    show ?case
    proof (rule sound_bind3 [OF attr_parse_sound [OF less.prems(1)]], intro sound_if, goal_cases)
      case (1 q a st1)
      then show ?case by (intro fail) auto
    next
      case (2 q a st1)
      then show ?case by (intro fail) auto
    next
      case (3 q a st1)
      then obtain r where r: "q = Some r" by (cases q) auto
      have n: "name_ok (a_name a)" using 3 r by simp
      have new: "Find (c_str (a_name a)) as = None" using 3 by simp
      then have add: "Add a as = Inr (as @ [a])" by (simp add: Add_def)
      have ok: "attrs_ok (as @ [a])"
        using less.prems(2) n new by (auto simp: attrs_ok_def Find_None name_ok_c_str)
      have l: "length r < length p" using attr_parse_after_skip 3(1) r by blast
      have kk: "keeps d st0 st1" "keeps d st st1" using 3(2) by auto
      show ?case unfolding add bindE_Inr r option.sel
        by (rule sound_mono [OF less.hyps [OF l kk(1) ok]]) (use kk in \<open>auto intro: keeps_trans\<close>)
    qed
  qed
qed

definition typed_all :: "xstate \<Rightarrow> xnode list \<Rightarrow> bool" where
  "typed_all st cs \<longleftrightarrow> (\<forall>n \<in> set cs. typed_in st n \<and> child_ok n)"

lemma typed_all_later: "typed_all st cs \<Longrightarrow> keeps d st st' \<Longrightarrow> typed_all st' cs"
  by (auto simp: typed_all_def intro: typed_later)

lemma typed_all_simps: "typed_all st []" "typed_all st (cs @ [n]) \<longleftrightarrow> typed_all st cs \<and> typed_in st n \<and> child_ok n"
  by (auto simp: typed_all_def)

lemma typed_element:
  assumes "v = [] \<and> xerr st \<noteq> None \<or> name_ok v" "attrs_ok as" "typed_all st cs"
  shows "typed_in st (XElement l v as cs)"
  using assms by (auto simp: typed_in_def typed_all_def attrs_ok_def)

text \<open>A reader of the children of an element that is sound on texts shorter than \<open>N\<close>.\<close>

definition rv_sound :: "bool \<Rightarrow> nat \<Rightarrow> read_value \<Rightarrow> bool" where
  "rv_sound d N rv \<longleftrightarrow> (\<forall>enc p cs st0 st. rest_of p < N \<longrightarrow> keeps d st0 st \<longrightarrow> typed_all st cs \<longrightarrow>
     sound d (\<lambda>(q, cs', st'). keeps d st0 st' \<and> keeps d st st' \<and> typed_all st' cs') (rv enc p cs st))"

lemma element_parse_sound:
  assumes rv: "rv_sound d N rv" and N: "rest_of p \<le> N" and k0: "keeps d st0 st"
  shows "sound d (\<lambda>(q, n, st'). keeps d st0 st' \<and> keeps d st st' \<and> typed_in st' n \<and> child_ok n) (element_parse rv enc p st)"
proof -
  let ?Q = "\<lambda>(q, n, st'). keeps d st0 st' \<and> keeps d st st' \<and> typed_in st' n \<and> child_ok n"
  have fail: "sound d ?Q (fail_with True err pe enc (XElement l v as cs) st1)"
    if "keeps d st0 st1" "keeps d st st1" "v = [] \<or> name_ok v" "attrs_ok as" "typed_all st1 cs" for err pe l v as cs st1
    by (rule sound_mono [OF fail_with_sound [where P = "\<lambda>n st'. typed_in st' n \<and> child_ok n" and doc = True, OF that(1)]])
      (use that in \<open>auto intro!: typed_element intro: keeps_trans typed_all_later\<close>)
  show ?thesis
    unfolding element_parse_def Let_def
  proof (rule sound_if, goal_cases)
    case 1
    show ?case by (intro fail k0 keeps_refl [OF k0]) (simp_all add: attrs_ok_def typed_all_simps)
  next
    case 2
    then obtain s where s: "SkipWhiteSpace p enc = Some s" "s \<noteq> []" by (cases "SkipWhiteSpace p enc") auto
    have ls: "Suc (length s) \<le> rest_of p" using SkipWhiteSpace_rest [of p enc] s(1) by simp
    show ?case
    proof (rule sound_bind [OF stamp_sound [OF k0]], rule sound_if, goal_cases)
      case (1 st1)
      then show ?case by (intro fail) (simp_all add: attrs_ok_def typed_all_simps)
    next
      case (2 st1)
      have k1: "keeps d st0 st1" "keeps d st st1" using 2(2) by auto
      show ?case
      proof (rule sound_bind2 [OF no_hang_ReadName], rule sound_if, goal_cases)
        case (1 pn v)
        have "v = [] \<or> name_ok v"
          using 1(1) ReadName_ok by (cases pn) (auto simp: ReadName_def TASSERT_def split: option.splits list.splits if_splits)
        then show ?case by (intro fail k1) (simp_all add: attrs_ok_def typed_all_simps)
      next
        case (2 pn v)
        then obtain w where w: "pn = Some w" by (cases pn) auto
        have v: "name_ok v" using ReadName_ok 2(1) w by simp
        have "length w < length s"
        proof -
          obtain e where e: "SkipWhiteSpace (Some (drop 1 (the (SkipWhiteSpace p enc)))) enc = Some e"
            using 2(1) w by (cases "SkipWhiteSpace (Some (drop 1 (the (SkipWhiteSpace p enc)))) enc") (auto simp: ReadName_def)
          have "length w < length e" using ReadName_length 2(1) w e by simp
          then show ?thesis using SkipWhiteSpace_length [OF e] s by simp
        qed
        with ls N have lw: "Suc (Suc (length w)) \<le> N" by simp
        show ?case
        proof (rule sound_bind3 [OF element_attrs_sound [OF k1(1)]], goal_cases)
          case 1
          show ?case by (simp add: attrs_ok_def)
        next
          case (2 t as st2)
          have k2: "keeps d st0 st2" "keeps d st st2" "attrs_ok as" using 2(2) k1 by (auto intro: keeps_trans)
          show ?case
          proof (cases t)
            case Tag_error
            then show ?thesis using 2(2) k2 v
              by (auto intro!: sound_Inr typed_element simp: typed_all_simps)
          next
            case (Tag_empty z)
            then show ?thesis using k2 v by (auto intro!: sound_Inr typed_element simp: typed_all_simps)
          next
            case (Tag_open z)
            have "length z < length w" using element_attrs_shorter [OF 2(1)] Tag_open w by simp
            then have z: "rest_of (Some z) < N" using lw by simp
            have r: "sound d (\<lambda>(q, cs', st'). keeps d st0 st' \<and> keeps d st2 st' \<and> typed_all st' cs') (rv enc (Some z) [] st2)"
              using rv z k2(1) unfolding rv_sound_def by (auto simp: typed_all_simps)
            show ?thesis
              unfolding Tag_open tag_end.case
            proof (rule sound_bind3 [OF r], rule sound_if, goal_cases)
              case (1 q cs st3)
              then show ?case using k2 v by (intro fail) (auto intro: keeps_trans)
            next
              case (2 q cs st3)
              have k3: "keeps d st0 st3" "keeps d st st3" "typed_all st3 cs" using 2(2) k2 by (auto intro: keeps_trans)
              have f: "sound d ?Q (fail_with True TIXML_ERROR_READING_END_TAG pe enc (XElement (cursor st1) v as cs) st3)" for pe
                using k2 k3 v by (intro fail) auto
              show ?case
                by (rule sound_bind [OF no_hang_StringEqual], intro sound_if f sound_Inr)
                  (use k2 k3 v in \<open>auto intro: typed_element\<close>)
            qed
          qed
        qed
      qed
    qed
  qed
qed

lemma node_parse_sound:
  assumes "rv_sound d N rv" "rest_of p \<le> N" "keeps d st0 st"
  shows "sound d (\<lambda>(q, n, st'). keeps d st0 st' \<and> keeps d st st' \<and> typed_in st' n \<and> child_ok n) (node_parse rv k enc p st)"
  using declaration_parse_sound [OF assms(3), of enc p] comment_parse_sound [OF assms(3), of enc p]
    unknown_parse_sound [OF assms(3), of enc p] element_parse_sound [OF assms, of enc]
    text_parse_sound [OF assms(3), where cdata = True and doc = True and enc = enc and p = p]
  by (cases k) (simp_all add: node_parse_def)

lemma text_parse_node:
  assumes "text_parse doc cdata enc p st = Inr (q, node, st')"
  shows "case node of XText l v c \<Rightarrow> True | _ \<Rightarrow> False"
  using assms
  by (auto simp: text_parse_def outcome_simps Let_def fail_with_def split: if_splits prod.splits)

lemma read_value_sound: "rv_sound d n (read_value n)"
proof (induction n)
  case 0
  show ?case by (simp add: rv_sound_def)
next
  case (Suc n)
  show ?case unfolding rv_sound_def
  proof (intro allI impI)
    fix enc pw cs st0 st
    assume l: "rest_of pw < Suc n" and k: "keeps d st0 st" and ty: "typed_all st cs"
    let ?Q = "\<lambda>(q, cs', st'). keeps d st0 st' \<and> keeps d st st' \<and> typed_all st' cs'"
    have kk: "keeps d st st" using keeps_refl [OF k] .
    have nx: "sound d ?Q (read_value n enc q cs1 st1)"
      if "rest_of q \<le> rest_of pw - 1" "pw \<noteq> None" "keeps d st0 st1" "keeps d st st1" "typed_all st1 cs1" for q cs1 st1
    proof -
      have "rest_of q < n" using that(1,2) l by (cases pw) auto
      with Suc that(3,5) have "sound d (\<lambda>(q, cs', st'). keeps d st0 st' \<and> keeps d st1 st' \<and> typed_all st' cs') (read_value n enc q cs1 st1)"
        unfolding rv_sound_def by blast
      then show ?thesis by (rule sound_mono) (use that(4) in \<open>auto intro: keeps_trans\<close>)
    qed
    have "sound d ?Q (read_round (read_value n) (read_value n) enc pw cs st)"
      unfolding read_round_def Let_def
    proof (intro sound_if, goal_cases)
      case 1
      show ?case
        by (rule sound_bind [OF SetError_sound [OF k]]) (use ty in \<open>auto intro!: sound_Inr intro: typed_all_later\<close>)
    next
      case 2
      show ?case using k kk ty by (auto intro!: sound_Inr)
    next
      case 3
      then obtain s where s: "SkipWhiteSpace pw enc = Some s" "s \<noteq> []" "peek s 0 \<noteq> 60"
        by (cases "SkipWhiteSpace pw enc") auto
      have pw: "pw \<noteq> None" using s(1) by (cases pw) auto
      show ?case unfolding s(1)
      proof (rule sound_bind3 [OF text_parse_sound [OF k, where cdata = False]], goal_cases)
        case (1 q node st1)
        have t: "rest_of q \<le> rest_of pw - 1" using value_text_shorter [OF 1(1) s] .
        obtain loc v c where node: "node = XText loc v c"
          using text_parse_node [OF 1(1)] by (cases node) auto
        have "typed_all st1 (if \<not> Blank (node_value node) then cs @ [node] else cs)"
          using 1(2) ty node by (auto simp: typed_all_simps typed_leaf intro: typed_all_later)
        then show ?case using 1(2) by (intro nx [OF t pw]) auto
      qed
    next
      case 4
      then obtain s where s: "SkipWhiteSpace pw enc = Some s" by (cases "SkipWhiteSpace pw enc") auto
      have pw: "pw \<noteq> None" using s by (cases pw) auto
      have ls: "Suc (length s) \<le> rest_of pw" using SkipWhiteSpace_rest [of pw enc] s by simp
      show ?case unfolding s
      proof (rule sound_bind [OF no_hang_StringEqual], rule sound_if, goal_cases)
        case (1 b)
        then show ?case using k kk ty by (auto intro!: sound_Inr)
      next
        case (2 b)
        show ?case
        proof (rule sound_bind [OF no_hang_Identify], goal_cases)
          case (1 ki)
          show ?case
          proof (cases ki)
            case None
            then show ?thesis using k kk ty by (auto intro!: sound_Inr)
          next
            case (Some kind)
            have np: "sound d (\<lambda>(q, n, st'). keeps d st0 st' \<and> keeps d st st' \<and> typed_in st' n \<and> child_ok n)
                (node_parse (read_value n) kind enc (Some s) st)"
              using ls l k by (intro node_parse_sound [OF Suc]) simp_all
            show ?thesis unfolding Some option.case
            proof (rule sound_bind3 [OF np], goal_cases)
              case (1 q node st1)
              have t: "rest_of q \<le> rest_of pw - 1"
                using node_parse_shorter [OF 1(1) read_value_no_longer] ls by simp
              show ?case using 1(2) ty by (intro nx [OF t pw]) (auto simp: typed_all_simps intro: typed_all_later)
            qed
          qed
        qed
      qed
    qed
    then show "sound d ?Q (read_value (Suc n) enc pw cs st)" by (simp only: read_value_Suc)
  qed
qed

lemma doc_loop_sound:
  "rest_of p < n \<Longrightarrow> keeps d st0 st \<Longrightarrow> typed_all st cs \<Longrightarrow>
    sound d (\<lambda>(q, enc', cs', st'). keeps d st0 st' \<and> typed_all st' cs') (doc_loop n enc p cs st)"
proof (induction n arbitrary: enc p cs st)
  case (Suc n)
  note k = Suc.prems(2) and ty = Suc.prems(3)
  show ?case
  proof (cases "no_more p")
    case True
    then show ?thesis using k ty by (auto intro!: sound_Inr)
  next
    case False
    then have p: "0 < rest_of p - 1" by (cases p) auto
    show ?thesis
      unfolding doc_loop.simps
    proof (intro sound_if, goal_cases)
      case 2
      show ?case
      proof (rule sound_bind [OF no_hang_Identify], goal_cases)
        case (1 ki)
        show ?case
        proof (cases ki)
          case None
          then show ?thesis using k ty by (auto intro!: sound_Inr)
        next
          case (Some kind)
          have np: "sound d (\<lambda>(q, n, st'). keeps d st0 st' \<and> keeps d st st' \<and> typed_in st' n \<and> child_ok n)
              (node_parse (read_value n) kind enc p st)"
            using Suc.prems(1) k by (intro node_parse_sound [OF read_value_sound]) simp_all
          show ?thesis unfolding Some option.case
          proof (rule sound_bind3 [OF np], rule sound_bind [where P = "\<lambda>u. True"], goal_cases)
            case (1 q node st1)
            show ?case by (auto intro!: sound_Inr no_hang_declared_encoding split: xnode.splits)
          next
            case (2 q node st1 e)
            have "rest_of (SkipWhiteSpace q e) < n"
              using node_parse_shorter [OF 2(1) read_value_no_longer] SkipWhiteSpace_rest [of q e] Suc.prems(1) p by simp
            then show ?case using 2(2) ty
              by (intro Suc.IH) (auto simp: typed_all_simps intro: typed_all_later)
          qed
        qed
      qed
    qed (use False in simp)
  qed
qed simp

definition doc_typed :: "document \<Rightarrow> bool" where
  "doc_typed doc \<longleftrightarrow> (\<forall>n \<in> set (d_children doc). well_typed (d_error doc = None) n \<and> child_ok n)"

lemma doc_Parse_sound:
  assumes "length p + 2 \<le> fuel" "\<forall>n \<in> set (d_children doc). well_typed True n \<and> child_ok n"
  shows "sound (TIXML_UTF_LEAD_0 \<notin> set p) (\<lambda>(q, doc'). doc_typed doc') (doc_Parse cw fuel p enc doc)"
proof -
  have tl: "\<forall>n \<in> set (d_children doc). well_typed s n \<and> child_ok n" for s
    using assms(2) by (auto intro: well_typed_mono)
  let ?st = "\<lambda>b. \<lparr>pd = ParsingData_new p (d_tabsize doc) 0 0, xerr = None, condense = cw\<rparr>"
  have loop: "sound (TIXML_UTF_LEAD_0 \<notin> set p) (\<lambda>(q, doc'). doc_typed doc')
      (bindE (doc_loop fuel enc' (Some q) (d_children doc) (?st cw)) (\<lambda>(p, enc, cs, st).
        if cs = [] then
          bindE (SetError TIXML_ERROR_DOCUMENT_EMPTY None enc st) (\<lambda>st.
            Inr (None, doc2\<lparr>d_children := cs, d_error := xerr st\<rparr>))
        else Inr (p, doc2\<lparr>d_children := cs, d_error := xerr st\<rparr>)))"
    if "SkipWhiteSpace (Some p) enc' = Some q" for enc' q and doc2 :: document
  proof (rule sound_bind [OF doc_loop_sound [where ?st0.0 = "?st cw"]], goal_cases)
    case 1
    show ?case using SkipWhiteSpace_length [OF that] assms(1) by simp
  next
    case 2
    show "keeps (TIXML_UTF_LEAD_0 \<notin> set p) (?st cw) (?st cw)" by (simp add: keeps_def ParsingData_new_def)
  next
    case 3
    show ?case using tl by (simp add: typed_all_def typed_in_def)
  next
    case (4 x)
    obtain q1 e1 cs st1 where x: "x = (q1, e1, cs, st1)" by (cases x)
    have k: "keeps (TIXML_UTF_LEAD_0 \<notin> set p) (?st cw) st1" "typed_all st1 cs" using 4(2) x by auto
    show ?case unfolding x prod.case
      by (intro sound_if sound_bind [OF SetError_sound [OF k(1)]] sound_Inr)
        (use k(2) in \<open>auto simp: doc_typed_def typed_all_def typed_in_def\<close>)
  qed
  have "sound (TIXML_UTF_LEAD_0 \<notin> set p) (\<lambda>(q, doc'). doc_typed doc')
      (Inr (None, doc2\<lparr>d_error := Some (TIXML_ERROR_DOCUMENT_EMPTY, no_location)\<rparr>))"
    if "d_children doc2 = d_children doc" for doc2 :: document
    using that tl [of False] by (intro sound_Inr) (simp add: doc_typed_def)
  then show ?thesis
    unfolding doc_Parse_def Let_def
    by (auto intro!: loop split: option.splits)
qed

lemma normalize_subset: "set (normalize b) \<subseteq> set b \<union> {10}"
  by (induction b rule: normalize.induct) auto

section \<open>Properties\<close>


definition sample_xml :: "byte list" where
  "sample_xml = bytes_of ''<a b='' @ [34] @ bytes_of ''1'' @ [34] @ bytes_of ''>t <c/></a>''"

definition sample_doc :: document where
  "sample_doc = Document_new\<lparr>d_children :=
     [XElement (0, 0) [97] [\<lparr>a_name = [98], a_value = [49], a_location = (0, 3)\<rparr>]
        [XText (0, 9) [116] False, XElement (0, 11) [99] [] []]]\<rparr>"

lemma sample_loads: "LoadFile True 30 (Some sample_xml) Document_new = Inr (True, sample_doc)"
  by code_simp




end
