(* ===== verification/Xml_Chars.thy ===== *)
theory Xml_Chars
  imports Xml_Print Xml_Typed
begin

text \<open>
  What is printed character by character is read back character by character: \<^verbatim>\<open>EncodeString\<close>
  against \<^verbatim>\<open>GetChar\<close> and \<^verbatim>\<open>ReadText\<close>, names against \<^verbatim>\<open>ReadName\<close>, and the position that \<^verbatim>\<open>Stamp\<close>
  keeps. In a document that is read as UTF-8 only the ASCII characters are followed here; with any
  other encoding every byte is.
\<close>

section \<open>Encoding a byte\<close>

definition enc_ok :: "encoding \<Rightarrow> byte \<Rightarrow> bool" where
  "enc_ok enc c \<longleftrightarrow> (enc = TIXML_ENCODING_UTF8 \<longrightarrow> c < 128)"

definition encode_byte :: "byte \<Rightarrow> byte list" where
  "encode_byte c =
     (if c = 38 then bytes_of ''&amp;'' else if c = 60 then bytes_of ''&lt;'' else if c = 62 then bytes_of ''&gt;''
      else if c = 34 then bytes_of ''&quot;'' else if c = 39 then bytes_of ''&apos;''
      else if c < 32 then hex_reference c else [c])"

text \<open>The text holds no hexadecimal reference, which \<^verbatim>\<open>EncodeString\<close> copies as it is.\<close>

fun no_ref :: "byte list \<Rightarrow> bool" where
  "no_ref [] \<longleftrightarrow> True"
| "no_ref (c # r) \<longleftrightarrow> \<not> (c = 38 \<and> take 2 r = [35, 120]) \<and> no_ref r"

abbreviation encoded :: "byte list \<Rightarrow> byte list" where
  "encoded v \<equiv> concat (map encode_byte v)"

lemma peek_Suc: "peek (c # r) (Suc n) = peek r n"
  by (simp add: peek_def)

lemma take2_peek: "2 \<le> length r \<and> peek r 0 = a \<and> peek r 1 = b \<longleftrightarrow> take 2 r = [a, b]"
proof (cases r)
  case (Cons x s)
  then show ?thesis by (cases s) (auto simp: peek_def eval_nat_numeral)
qed simp

lemma Encode_no_ref: "no_ref v \<Longrightarrow> EncodeString v = encoded v"
proof (induction v)
  case (Cons c r)
  have n: "\<not> (c = 38 \<and> 2 \<le> length r \<and> peek (c # r) 1 = 35 \<and> peek (c # r) 2 = 120)"
    using Cons.prems take2_peek [of r 35 120] by (auto simp: peek_Suc [of _ _ 0, simplified] numeral_2_eq_2 peek_Suc)
  have "EncodeString (c # r) = encode_byte c @ EncodeString r"
    using n by (subst EncodeString.simps) (auto simp: encode_byte_def entity_def)
  with Cons show ?case by simp
qed (simp add: EncodeString.simps)

text \<open>The two digits of a control character; a check of all 32 of them.\<close>

definition control_ok :: "byte \<Rightarrow> bool" where
  "control_ok c \<longleftrightarrow>
     hex_back [hex_digit (c AND 0x0f), hex_digit (drop_bit 4 c)] 1 0 = Some (ucast c) \<and>
     (\<forall>x \<in> set [hex_digit (drop_bit 4 c), hex_digit (c AND 0x0f)]. x \<notin> {0, 13, 59} \<and> x < 128)"

lemma all_bytes_below:
  assumes "\<forall>n \<in> set [0..<k]. P (word_of_nat n :: byte)" "unat c < k"
  shows "P c"
  using assms(1) [rule_format, of "unat c"] assms(2) by simp

lemma control_digits: "c < 32 \<Longrightarrow> control_ok c"
proof (rule all_bytes_below [of 32])
  show "\<forall>n \<in> set [0..<32]. control_ok (word_of_nat n)" by code_simp
qed (simp add: word_less_nat_alt)

lemma encode_byte_clean: "0 \<notin> set (encode_byte c) \<and> 13 \<notin> set (encode_byte c)"
proof (cases "c < 32")
  case True
  from control_digits [OF this] True show ?thesis
    by (auto simp: encode_byte_def control_ok_def hex_reference_def bytes_of_def)
next
  case False
  then show ?thesis by (auto simp: encode_byte_def bytes_of_def)
qed

lemma char_reference_ascii: "c < 128 \<Longrightarrow> char_reference (ucast (c :: byte)) enc = [c]"
proof -
  assume c: "c < 128"
  have "ConvertUTF32ToUTF8 (ucast c) = [c] \<and> (ucast (ucast c :: u64) :: byte) = c"
  proof (rule all_bytes_below [of 128])
    show "\<forall>n \<in> set [0..<128]. ConvertUTF32ToUTF8 (ucast (word_of_nat n :: byte)) = [word_of_nat n] \<and>
        (ucast (ucast (word_of_nat n :: byte) :: u64) :: byte) = word_of_nat n" by code_simp
  qed (use c in \<open>simp add: word_less_nat_alt\<close>)
  then show ?thesis by (simp add: char_reference_def)
qed

lemma GetEntity_control:
  assumes "c < 32"
  shows "GetEntity (hex_reference c @ r) enc = (Some r, [c])"
proof -
  let ?h = "hex_digit (drop_bit 4 c)" and ?l = "hex_digit (c AND 0x0f)"
  have p: "hex_reference c @ r = 38 # 35 # 120 # ?h # ?l # 59 # r"
    by (simp add: hex_reference_def bytes_of_def)
  have f: "find_semicolon (drop 3 (38 # 35 # 120 # ?h # ?l # 59 # r)) = Some ([?h, ?l], 59 # r)"
    using control_digits [OF assms] by (simp add: find_semicolon_def control_ok_def)
  have "c < 128" using assms by (simp add: word_less_nat_alt)
  with f control_digits [OF assms] show ?thesis unfolding p
    by (simp add: GetEntity_def peek_def char_reference_ascii control_ok_def)
qed

lemma GetEntity_named:
  "GetEntity (bytes_of ''&amp;'' @ r) enc = (Some r, [38])" "GetEntity (bytes_of ''&lt;'' @ r) enc = (Some r, [60])"
  "GetEntity (bytes_of ''&gt;'' @ r) enc = (Some r, [62])" "GetEntity (bytes_of ''&quot;'' @ r) enc = (Some r, [34])"
  "GetEntity (bytes_of ''&apos;'' @ r) enc = (Some r, [39])"
  by (simp_all add: GetEntity_def peek_def bytes_of_def entity_def)

lemma GetChar_encoded:
  assumes "enc_ok enc c"
  shows "GetChar (encode_byte c @ r) enc = Inr (Some r, [c])"
proof -
  have amp: "GetChar (38 # q) enc = Inr (GetEntity (38 # q) enc)" for q
    by (simp add: GetChar_def utf8ByteTable_def TASSERT_def)
  consider (named) "c = 38 \<or> c = 60 \<or> c = 62 \<or> c = 34 \<or> c = 39"
    | (control) "c \<noteq> 38" "c \<noteq> 60" "c \<noteq> 62" "c \<noteq> 34" "c \<noteq> 39" "c < 32"
    | (plain) "c \<noteq> 38" "c \<noteq> 60" "c \<noteq> 62" "c \<noteq> 34" "c \<noteq> 39" "\<not> c < 32" by blast
  then show ?thesis
  proof cases
    case named
    then obtain q where "encode_byte c @ r = 38 # q" "GetEntity (encode_byte c @ r) enc = (Some r, [c])"
      using GetEntity_named [of r enc] by (auto simp: encode_byte_def) (auto simp: bytes_of_def)
    with amp show ?thesis by simp
  next
    case control
    then obtain q where "encode_byte c @ r = 38 # q" "GetEntity (encode_byte c @ r) enc = (Some r, [c])"
      using GetEntity_control [of c r enc] by (auto simp: encode_byte_def) (auto simp: hex_reference_def bytes_of_def)
    with amp show ?thesis by simp
  next
    case plain
    have "c < 128 \<Longrightarrow> utf8ByteTable c = 1" by (simp add: utf8ByteTable_def word_less_nat_alt)
    with assms plain show ?thesis
      by (auto simp: encode_byte_def GetChar_def enc_ok_def TASSERT_def)
  qed
qed

text \<open>The first byte of what stands for a character.\<close>

lemma encode_byte_head:
  obtains b q where "encode_byte c = b # q" "b \<noteq> 60" "b \<noteq> 34" "b \<noteq> 39" "b \<noteq> 0" "c \<noteq> 32 \<Longrightarrow> \<not> IsWhiteSpace b"
    "c \<noteq> TIXML_UTF_LEAD_0 \<Longrightarrow> b \<noteq> TIXML_UTF_LEAD_0"
proof -
  have "IsWhiteSpace c \<Longrightarrow> c = 32 \<or> c < 32"
    by (auto simp: IsWhiteSpace_def word_le_nat_alt word_less_nat_alt)
  then show thesis
    by (cases "c = 38 \<or> c = 60 \<or> c = 62 \<or> c = 34 \<or> c = 39 \<or> c < 32")
      (auto intro!: that simp: encode_byte_def hex_reference_def bytes_of_def IsWhiteSpace_def)
qed

section \<open>Reading what was encoded\<close>

lemma equal_prefix_one: "equal_prefix False enc (c # q) [e] \<longleftrightarrow> c = e"
  by simp

lemma keep_text_encoded:
  assumes "\<forall>c \<in> set v. enc_ok enc c" "e = 34 \<or> e = 39 \<or> e = 60"
  shows "keep_text [e] False enc (Some (encoded v @ e # r)) tx = Inr (Some (e # r), tx @ v)"
  using assms(1)
proof (induction v arbitrary: tx)
  case Nil
  show ?case by (simp add: keep_text.simps)
next
  case (Cons c v)
  obtain b q where b: "encode_byte c = b # q" "b \<noteq> 60" "b \<noteq> 34" "b \<noteq> 39" by (rule encode_byte_head)
  have "GetChar (b # q @ encoded v @ e # r) enc = Inr (Some (encoded v @ e # r), [c])"
    using GetChar_encoded [of enc c "encoded v @ e # r"] Cons.prems b(1) by simp
  with b assms(2) Cons show ?case by (subst keep_text.simps) auto
qed

definition blanks :: "byte list \<Rightarrow> bool" where
  "blanks ws \<longleftrightarrow> set ws \<subseteq> {32, 10}"

text \<open>Words with single spaces between them.\<close>

fun single_spaced :: "byte list \<Rightarrow> bool" where
  "single_spaced [] \<longleftrightarrow> True"
| "single_spaced [c] \<longleftrightarrow> c \<noteq> 32"
| "single_spaced (c # d # r) \<longleftrightarrow> \<not> (c = 32 \<and> d = 32) \<and> single_spaced (d # r)"

lemma condense_blanks:
  assumes "blanks ws"
  shows "condense_text [60] False enc (Some (ws @ 60 # r)) w tx = Inr (Some (60 # r), tx)"
  using assms
proof (induction ws arbitrary: w)
  case Nil
  show ?case by (simp add: condense_text.simps)
next
  case (Cons c ws)
  then have "c = 32 \<or> c = 10" "blanks ws" by (auto simp: blanks_def)
  with Cons.IH show ?case by (subst condense_text.simps) (auto simp: IsWhiteSpace_def)
qed

lemma condense_text_encoded:
  assumes "\<forall>c \<in> set v. enc_ok enc c" "single_spaced v" "w \<longrightarrow> v \<noteq> [] \<and> hd v \<noteq> 32" "blanks ws"
  shows "condense_text [60] False enc (Some (encoded v @ ws @ 60 # r)) w tx
    = Inr (Some (60 # r), tx @ (if w then 32 # v else v))"
  using assms(1-3)
proof (induction v arbitrary: w tx)
  case Nil
  with condense_blanks [OF assms(4)] show ?case by simp
next
  case (Cons c v)
  have ss: "single_spaced v" using Cons.prems(2) by (cases v) auto
  show ?case
  proof (cases "c = 32")
    case True
    then have w: "\<not> w" using Cons.prems(3) by simp
    have v: "v \<noteq> []" "hd v \<noteq> 32" using True Cons.prems(2) by (cases v; simp)+
    have e: "encode_byte c = [32]" using True by (simp add: encode_byte_def)
    have "condense_text [60] False enc (Some (encoded v @ ws @ 60 # r)) True tx = Inr (Some (60 # r), tx @ 32 # v)"
      using Cons.IH [of True tx] Cons.prems(1) ss v by simp
    with e w True show ?thesis by (subst condense_text.simps) (simp add: IsWhiteSpace_def)
  next
    case False
    obtain b q where b: "encode_byte c = b # q" "b \<noteq> 60" "\<not> IsWhiteSpace b"
      by (rule encode_byte_head [of c]) (use False in auto)
    have nl: "b \<noteq> 13" "b \<noteq> 10" using b(3) by (auto simp: IsWhiteSpace_def)
    have "GetChar (b # q @ encoded v @ ws @ 60 # r) enc = Inr (Some (encoded v @ ws @ 60 # r), [c])"
      using GetChar_encoded [of enc c "encoded v @ ws @ 60 # r"] Cons.prems(1) b(1) by simp
    with b nl Cons.IH [of False "(if w then tx @ [32] else tx) @ [c]"] Cons.prems(1) ss show ?thesis
      by (subst condense_text.simps) auto
  qed
qed

section \<open>White space, names and positions\<close>

lemma SkipWhiteSpace_blanks:
  assumes "blanks ws" "\<not> IsWhiteSpace c" "enc = TIXML_ENCODING_UTF8 \<longrightarrow> c \<noteq> TIXML_UTF_LEAD_0"
  shows "SkipWhiteSpace (Some (ws @ c # r)) enc = Some (c # r)"
proof -
  have b: "IsWhiteSpace x \<and> \<not> is_mark (x # q)" if "x \<in> set ws" for x q
    using that assms(1) by (auto simp: blanks_def IsWhiteSpace_def is_mark_def peek_def)
  have "skip_utf8 (ws @ c # r) = c # r" if "enc = TIXML_ENCODING_UTF8"
    using b
  proof (induction ws)
    case Nil
    show ?case using assms(2,3) that by (simp add: is_mark_def peek_def)
  next
    case (Cons x ws)
    then show ?case by simp
  qed
  moreover have "dropWhile IsWhiteSpace (ws @ c # r) = c # r"
    using b assms(2) by (subst dropWhile_append2) auto
  ultimately show ?thesis by (cases ws) (auto simp: SkipWhiteSpace_def simp del: skip_utf8.simps dropWhile.simps)
qed

lemma ReadName_name:
  assumes "name_ok v" "\<not> is_name_byte c"
  shows "ReadName (Some (v @ c # r)) enc = Inr (Some (c # r), v)"
proof -
  obtain x u where v: "v = x # u" "is_name_start x" using assms(1) by (cases v) (auto simp: name_ok_def)
  have all: "\<forall>y \<in> set v. is_name_byte y" using assms(1) by (simp add: name_ok_def)
  have "takeWhile is_name_byte (v @ c # r) = v" "dropWhile is_name_byte (v @ c # r) = c # r"
    using all assms(2) by (simp_all add: takeWhile_append2 dropWhile_append2)
  with v show ?thesis by (simp add: ReadName_def TASSERT_def)
qed

lemma name_byte_plain: "is_name_byte c \<Longrightarrow> encode_byte c = [c] \<and> c \<noteq> 0 \<and> c \<noteq> 38 \<and> \<not> IsWhiteSpace c"
  by (auto simp: is_name_byte_def IsAlphaNum_def isalpha_def isdigit_def encode_byte_def IsWhiteSpace_def
      word_le_nat_alt word_less_nat_alt split: if_splits)

lemma name_encoded:
  assumes "name_ok v"
  shows "EncodeString v = v" "c_str v = v"
proof -
  have all: "\<forall>y \<in> set v. is_name_byte y" using assms by (simp add: name_ok_def)
  then have "encoded v = v" using name_byte_plain by (induction v) auto
  moreover have "no_ref v" using all name_byte_plain by (induction v) auto
  ultimately show "EncodeString v = v" by (simp add: Encode_no_ref)
  show "c_str v = v" by (rule name_ok_c_str [OF assms])
qed

definition pos_ok :: "encoding \<Rightarrow> xstate \<Rightarrow> bool" where
  "pos_ok enc st \<longleftrightarrow> 0 \<le> cursor_row (pd st) \<and> 0 \<le> cursor_col (pd st) \<and> 1 \<le> tabsize (pd st) \<and>
     (enc = TIXML_ENCODING_UTF8 \<longrightarrow> TIXML_UTF_LEAD_0 \<notin> set (stamp (pd st)))"

text \<open>Only the position of the state moves.\<close>

definition moved :: "encoding \<Rightarrow> xstate \<Rightarrow> xstate \<Rightarrow> bool" where
  "moved enc st st' \<longleftrightarrow> pos_ok enc st' \<and> xerr st' = xerr st \<and> condense st' = condense st"

lemma moved_refl: "pos_ok enc st \<Longrightarrow> moved enc st st"
  by (simp add: moved_def)

lemma moved_trans: "moved enc st st1 \<Longrightarrow> moved enc st1 st2 \<Longrightarrow> moved enc st st2"
  by (simp add: moved_def)

lemma stamp_moved:
  assumes "pos_ok enc st"
  obtains st' where "stamp_at (Some p) enc st = Inr st'" "moved enc st st'"
proof -
  let ?d = "pd st"
  let ?run = "stamp_loop enc (tabsize ?d) (length p) (stamp ?d) (cursor_row ?d) (cursor_col ?d)"
  have s: "sound (enc = TIXML_ENCODING_UTF8 \<longrightarrow> TIXML_UTF_LEAD_0 \<notin> set (stamp ?d))
     (\<lambda>(p', r, c). set p' \<subseteq> set (stamp ?d) \<and> cursor_row ?d \<le> r \<and> (0 \<le> cursor_col ?d \<longrightarrow> 1 \<le> tabsize ?d \<longrightarrow> 0 \<le> c)) ?run"
    by (rule stamp_loop_sound)
  with assms stamp_loop_no_fault obtain x where x: "?run = Inr x"
    unfolding pos_ok_def sound_def by (metis sum.exhaust)
  obtain p' r c where [simp]: "x = (p', r, c)" by (cases x)
  from s x assms have f: "set p' \<subseteq> set (stamp ?d)" "0 \<le> r" "0 \<le> c" by (auto simp: sound_def pos_ok_def)
  let ?st = "st\<lparr>pd := ?d\<lparr>cursor_row := r, cursor_col := c, stamp := p'\<rparr>\<rparr>"
  have "Stamp (Some p) enc ?d = Inr (?d\<lparr>cursor_row := r, cursor_col := c, stamp := p'\<rparr>)"
    using x f assms by (simp add: Stamp_def TASSERT_def pos_ok_def)
  then have "stamp_at (Some p) enc st = Inr ?st" by (simp add: stamp_at_def)
  moreover have "moved enc st ?st" using f assms by (auto simp: moved_def pos_ok_def)
  ultimately show thesis by (rule that)
qed

end
