(* ===== verification/Xml_Round.thy ===== *)
theory Xml_Round
  imports Xml_Chars
begin

text \<open>
  A tree that was written with \<^verbatim>\<open>SaveFile\<close> is the tree that \<^verbatim>\<open>LoadFile\<close> reads back, up to the
  positions of the nodes. \<open>printable\<close> says for which trees: names are names, texts are words with
  single spaces between them that are not blank, no two texts stand side by side, and no text
  holds a hexadecimal reference (which the printer does not encode).
\<close>

section \<open>Trees that can be printed\<close>

fun is_plain :: "xnode \<Rightarrow> bool" where
  "is_plain (XText l v c) \<longleftrightarrow> \<not> c"
| "is_plain _ \<longleftrightarrow> False"

fun spaced :: "xnode list \<Rightarrow> bool" where
  "spaced (m # n # ns) \<longleftrightarrow> \<not> (is_plain m \<and> is_plain n) \<and> spaced (n # ns)"
| "spaced ns \<longleftrightarrow> True"

definition all_ok :: "encoding \<Rightarrow> byte list \<Rightarrow> bool" where
  "all_ok enc v \<longleftrightarrow> (\<forall>c \<in> set v. enc_ok enc c)"

definition attr_ok :: "encoding \<Rightarrow> xattr \<Rightarrow> bool" where
  "attr_ok enc a \<longleftrightarrow> name_ok (a_name a) \<and> all_ok enc (a_name a) \<and> no_ref (a_value a) \<and> all_ok enc (a_value a)"

definition raw_ok :: "string \<Rightarrow> byte list \<Rightarrow> bool" where
  "raw_ok e v \<longleftrightarrow> 0 \<notin> set v \<and> 13 \<notin> set v \<and> raw_until (bytes_of e) (v @ bytes_of e) = (v, bytes_of e)"

definition dtd_ok :: "byte list \<Rightarrow> bool" where
  "dtd_ok v \<longleftrightarrow> v \<noteq> [] \<and> hd v = 33 \<and> take 3 v \<noteq> bytes_of ''!--'' \<and> take 8 v \<noteq> bytes_of ''![CDATA['' \<and>
     0 \<notin> set v \<and> 13 \<notin> set v \<and> 62 \<notin> set v"

fun printable :: "encoding \<Rightarrow> xnode \<Rightarrow> bool" where
  "printable enc (XElement l v as cs) \<longleftrightarrow>
     name_ok v \<and> all_ok enc v \<and> (\<forall>a \<in> set as. attr_ok enc a) \<and> distinct (map a_name as) \<and>
     (\<forall>n \<in> set cs. printable enc n) \<and> spaced cs"
| "printable enc (XComment l v) \<longleftrightarrow> raw_ok ''-->'' v \<and> all_ok enc v"
| "printable enc (XUnknown l v) \<longleftrightarrow> dtd_ok v \<and> all_ok enc v"
| "printable enc (XText l v c) \<longleftrightarrow> all_ok enc v \<and>
     (if c then raw_ok '']]>'' v
      else v \<noteq> [] \<and> hd v \<noteq> 32 \<and> single_spaced v \<and> no_ref v \<and> \<not> Blank v)"
| "printable enc (XDeclaration l v e s) \<longleftrightarrow> False"

text \<open>A tree without its positions.\<close>

definition erase_attr :: "xattr \<Rightarrow> xattr" where
  "erase_attr a = a\<lparr>a_location := no_location\<rparr>"

fun erase :: "xnode \<Rightarrow> xnode" where
  "erase (XElement l v as cs) = XElement no_location v (map erase_attr as) (map erase cs)"
| "erase (XComment l v) = XComment no_location v"
| "erase (XUnknown l v) = XUnknown no_location v"
| "erase (XText l v c) = XText no_location v c"
| "erase (XDeclaration l v e s) = XDeclaration no_location v e s"

section \<open>Attributes\<close>

lemma enc_ok_lead: "enc_ok enc c \<Longrightarrow> enc = TIXML_ENCODING_UTF8 \<longrightarrow> c \<noteq> TIXML_UTF_LEAD_0"
  by (auto simp: enc_ok_def word_less_nat_alt)

lemma encoded_clean: "0 \<notin> set (encoded v)" "13 \<notin> set (encoded v)"
  using encode_byte_clean by auto

lemma c_str_id: "0 \<notin> set v \<Longrightarrow> c_str v = v"
  unfolding c_str_def by (rule takeWhile_eq_all_conv [THEN iffD2]) auto

lemma attr_print_form:
  assumes "attr_ok enc a"
  obtains q where "attr_print a = a_name a @ 61 # q # encoded (a_value a) @ [q]" "q = 34 \<or> q = 39"
proof -
  have n: "EncodeString (a_name a) = a_name a" "c_str (a_name a) = a_name a"
    using assms name_encoded by (auto simp: attr_ok_def)
  have v: "EncodeString (a_value a) = encoded (a_value a)" "c_str (encoded (a_value a)) = encoded (a_value a)"
    using assms encoded_clean by (auto simp: attr_ok_def Encode_no_ref intro: c_str_id)
  show thesis
    by (rule that [of "if 34 \<notin> set (a_value a) then 34 else 39"])
      (auto simp: attr_print_def n v bytes_of_def Let_def)
qed

lemma ReadText_quoted:
  assumes "all_ok enc v" "q = 34 \<or> q = 39" "r \<noteq> []"
  shows "ReadText cw (Some (encoded v @ q # r)) False [q] False enc = Inr (Some r, v)"
  using assms keep_text_encoded [of v enc q r "[]"]
  by (auto simp: ReadText_def all_ok_def neq_Nil_conv)

lemma attr_parse_print:
  assumes a: "attr_ok enc a" and st: "pos_ok enc st" and r: "r \<noteq> []"
  obtains a' st' where "attr_parse doc enc (SkipWhiteSpace (Some (32 # attr_print a @ r)) enc) st = Inr (Some r, a', st')"
    "a_name a' = a_name a" "a_value a' = a_value a" "moved enc st st'"
proof -
  obtain q where q: "attr_print a = a_name a @ 61 # q # encoded (a_value a) @ [q]" "q = 34 \<or> q = 39"
    by (rule attr_print_form [OF a])
  let ?t = "q # encoded (a_value a) @ q # r"
  obtain x u where x: "a_name a = x # u" using a by (cases "a_name a") (auto simp: attr_ok_def name_ok_def)
  have xn: "\<not> IsWhiteSpace x" "enc = TIXML_ENCODING_UTF8 \<longrightarrow> x \<noteq> TIXML_UTF_LEAD_0"
    using a x name_byte_plain [of x] enc_ok_lead [of enc x] by (auto simp: attr_ok_def name_ok_def all_ok_def)
  have sp: "SkipWhiteSpace (Some (ws @ a_name a @ 61 # ?t)) enc = Some (a_name a @ 61 # ?t)" if "blanks ws" for ws
    using SkipWhiteSpace_blanks [OF that xn] x by simp
  have s1: "SkipWhiteSpace (Some (32 # attr_print a @ r)) enc = Some (a_name a @ 61 # ?t)"
    using sp [of "[32]"] q(1) by (simp add: blanks_def)
  have s2: "SkipWhiteSpace (Some (a_name a @ 61 # ?t)) enc = Some (a_name a @ 61 # ?t)"
    using sp [of "[]"] by (simp add: blanks_def)
  have s3: "SkipWhiteSpace (Some (61 # ?t)) enc = Some (61 # ?t)"
    using SkipWhiteSpace_blanks [of "[]" 61 enc ?t] by (simp add: blanks_def IsWhiteSpace_def)
  have s4: "SkipWhiteSpace (Some ?t) enc = Some ?t"
    using SkipWhiteSpace_blanks [of "[]" q enc] q(2) by (auto simp: blanks_def IsWhiteSpace_def)
  have rn: "ReadName (Some (a_name a @ 61 # ?t)) enc = Inr (Some (61 # ?t), a_name a)"
    using a by (intro ReadName_name) (auto simp: attr_ok_def is_name_byte_def IsAlphaNum_def isalpha_def isdigit_def)
  have rt: "ReadText cw (Some (encoded (a_value a) @ q # r)) False [q] False enc = Inr (Some r, a_value a)" for cw
    using a q(2) r by (intro ReadText_quoted) (auto simp: attr_ok_def)
  obtain st' where st': "stamp_at (Some (a_name a @ 61 # ?t)) enc st = Inr st'" "moved enc st st'"
    by (rule stamp_moved [OF st])
  let ?a = "\<lparr>a_name = a_name a, a_value = a_value a, a_location = cursor st'\<rparr>"
  have "attr_parse doc enc (Some (a_name a @ 61 # ?t)) st = Inr (Some r, ?a, st')"
  proof (cases "q = 39")
    case True
    with s2 s3 s4 st'(1) rn rt show ?thesis by (simp add: attr_parse_def attr_new_def)
  next
    case False
    with q(2) have "q = 34" by simp
    with s2 s3 s4 st'(1) rn rt show ?thesis by (simp add: attr_parse_def attr_new_def)
  qed
  with s1 st'(2) show thesis by (intro that [of ?a st']) simp_all
qed

lemma element_attrs_print:
  assumes "\<forall>a \<in> set as. attr_ok enc a" "attrs_ok done" "distinct (map a_name (done @ as))" "pos_ok enc st"
    "tail = 32 # 47 # 62 # r \<and> t = Tag_empty r \<or> tail = 62 # r \<and> t = Tag_open r"
  shows "\<exists>as' st'. element_attrs enc (concat (map (\<lambda>a. 32 # attr_print a) as) @ tail) done st = Inr (t, done @ as', st') \<and>
    map erase_attr as' = map erase_attr as \<and> moved enc st st'"
  using assms(1-4)
proof (induction as arbitrary: "done" st)
  case Nil
  have "SkipWhiteSpace (Some (32 # 47 # 62 # r)) enc = Some (47 # 62 # r)" "SkipWhiteSpace (Some (62 # r)) enc = Some (62 # r)"
    using SkipWhiteSpace_blanks [of "[32]" 47 enc] SkipWhiteSpace_blanks [of "[]" 62 enc]
    by (auto simp: blanks_def IsWhiteSpace_def)
  with assms(5) Nil.prems show ?case
    by (auto simp: element_attrs.simps [of enc "32 # 47 # 62 # r"] element_attrs.simps [of enc "62 # r"] moved_refl)
next
  case (Cons a as)
  let ?rest = "concat (map (\<lambda>a. 32 # attr_print a) as) @ tail"
  have r: "?rest \<noteq> []" using assms(5) by auto
  obtain a' st1 where a': "attr_parse True enc (SkipWhiteSpace (Some (32 # attr_print a @ ?rest)) enc) st = Inr (Some ?rest, a', st1)"
      "a_name a' = a_name a" "a_value a' = a_value a" "moved enc st st1"
    using Cons.prems r by (elim attr_parse_print [rotated -1]) auto
  have aok: "attr_ok enc a" using Cons.prems(1) by simp
  have new: "Find (c_str (a_name a')) done = None"
    using Cons.prems a'(2) aok by (auto simp: Find_None attrs_ok_def attr_ok_def name_ok_c_str) (metis imageI)
  have ok: "attrs_ok (done @ [a'])"
    using Cons.prems(2,3) a'(2) aok by (auto simp: attrs_ok_def attr_ok_def)
  have dist: "distinct (map a_name ((done @ [a']) @ as))" using Cons.prems(3) a'(2) by simp
  have p1: "pos_ok enc st1" using a'(4) by (simp add: moved_def)
  have rest_ok: "\<forall>a \<in> set as. attr_ok enc a" using Cons.prems(1) by simp
  obtain as' st' where IH: "element_attrs enc ?rest (done @ [a']) st1 = Inr (t, (done @ [a']) @ as', st')"
      "map erase_attr as' = map erase_attr as" "moved enc st1 st'"
    using Cons.IH [OF rest_ok ok dist p1] by blast
  obtain q where q: "attr_print a = a_name a @ 61 # q # encoded (a_value a) @ [q]" by (rule attr_print_form [OF aok])
  obtain x u where x: "a_name a = x # u" "is_name_start x"
    using aok by (cases "a_name a") (auto simp: attr_ok_def name_ok_def)
  have xe: "enc_ok enc x" using aok x by (auto simp: attr_ok_def all_ok_def)
  have xb: "is_name_byte x" using aok x by (auto simp: attr_ok_def name_ok_def)
  define R where "R = ?rest"
  define P where "P = attr_print a @ R"
  have sk: "SkipWhiteSpace (Some (32 # P)) enc = Some P"
    using SkipWhiteSpace_blanks [of "[32]" x enc] name_byte_plain [OF xb] enc_ok_lead [OF xe] q x
    by (simp add: blanks_def P_def)
  have pk: "peek P 0 \<noteq> 47" "peek P 0 \<noteq> 62" "P \<noteq> []"
    using q x xb by (auto simp: P_def is_name_byte_def IsAlphaNum_def isalpha_def isdigit_def)
  have ap: "attr_parse True enc (Some P) st = Inr (Some R, a', st1)" using a'(1) sk by (simp add: P_def R_def)
  have "R \<noteq> []" unfolding R_def by (rule r)
  with sk pk ap new have "element_attrs enc (32 # P) done st = element_attrs enc R (done @ [a']) st1"
    by (simp add: element_attrs.simps [of enc "32 # P"] Add_def)
  moreover have "concat (map (\<lambda>a. 32 # attr_print a) (a # as)) @ tail = 32 # P" by (simp add: P_def R_def)
  ultimately have "element_attrs enc (concat (map (\<lambda>a. 32 # attr_print a) (a # as)) @ tail) done st
      = element_attrs enc ?rest (done @ [a']) st1" by (simp only: R_def)
  moreover have "erase_attr a' = erase_attr a" using a'(2,3) by (simp add: erase_attr_def)
  ultimately show ?case using IH by (auto intro!: moved_trans [OF a'(4)] exI [of _ "a' # as'"])
qed

section \<open>Leaves\<close>

lemma raw_until_append:
  assumes "raw_until e (v @ e) = (v, e)" "e \<noteq> []"
  shows "raw_until e (v @ e @ r) = (v, e @ r)"
  using assms(1)
proof (induction v)
  case Nil
  then show ?case using assms(2) by (cases e) auto
next
  case (Cons c v)
  have n: "take (length e) (c # v @ e) \<noteq> e"
  proof
    assume "take (length e) (c # v @ e) = e"
    then have "raw_until e (c # v @ e) = ([], c # v @ e)" by simp
    with Cons.prems show False by simp
  qed
  then have "raw_until e (v @ e) = (v, e)" using Cons.prems by (auto split: prod.splits)
  moreover have "take (length e) ((c # v @ e) @ r) = take (length e) (c # v @ e)"
    by (subst take_append) simp
  ultimately show ?case using Cons.IH n by simp
qed

lemma SkipWhiteSpace_bracket: "blanks ws \<Longrightarrow> SkipWhiteSpace (Some (ws @ 60 # r)) enc = Some (60 # r)"
  by (rule SkipWhiteSpace_blanks) (auto simp: IsWhiteSpace_def)

lemma SkipWhiteSpace_at_bracket: "SkipWhiteSpace (Some (60 # r)) enc = Some (60 # r)"
  using SkipWhiteSpace_bracket [of "[]" r enc] by (simp add: blanks_def)

lemma StringEqual_Cons: "StringEqual (Some (c # q)) tag i enc = Inr (equal_prefix i enc (c # q) tag)"
  by (simp add: StringEqual_def)

lemma equal_prefix_exact: "equal_prefix False enc q t \<longleftrightarrow> take (length t) q = t"
  by (induction "False" enc q t rule: equal_prefix.induct) auto

lemma not_question: "is_name_start x \<or> x = 33 \<or> x = 47 \<Longrightarrow> ToLower x enc \<noteq> ToLower 63 enc"
proof -
  assume "is_name_start x \<or> x = 33 \<or> x = 47"
  then have "x \<noteq> 63" by (auto simp: is_name_start_def IsAlpha_def isalpha_def)
  moreover have "x + 32 = 63 \<Longrightarrow> x = 63 - 32" by (simp add: eq_diff_eq)
  moreover have "\<not> 65 \<le> (31 :: byte)" by simp
  ultimately show ?thesis by (auto simp: ToLower_def Let_def)
qed

lemma Identify_element:
  assumes "is_name_start x"
  shows "Identify enc (Some (60 # x # r)) = Inr (Some K_Element)"
proof -
  have x: "x \<noteq> 33" using assms by (auto simp: is_name_start_def IsAlpha_def isalpha_def)
  have "StringEqual (Some (60 # x # r)) (bytes_of ''<?xml'') True enc = Inr False"
    using not_question [of x enc] assms by (simp add: StringEqual_Cons bytes_of_def)
  moreover have "StringEqual (Some (60 # x # r)) (bytes_of ''<!--'') False enc = Inr False"
    "StringEqual (Some (60 # x # r)) (bytes_of ''<![CDATA['') False enc = Inr False"
    "StringEqual (Some (60 # x # r)) (bytes_of ''<!'') False enc = Inr False"
    using x by (simp_all add: StringEqual_Cons bytes_of_def)
  ultimately show ?thesis using assms
    by (simp add: Identify_def SkipWhiteSpace_at_bracket Let_def peek_Suc [of _ _ 0, simplified])
qed

lemma Identify_markup:
  assumes "take 1 r = [33]"
  shows "Identify enc (Some (60 # r)) = Inr (Some
    (if take 3 r = bytes_of ''!--'' then K_Comment else if take 8 r = bytes_of ''![CDATA['' then K_CData else K_Unknown))"
proof -
  obtain s where r: "r = 33 # s" using assms by (cases r) auto
  have "StringEqual (Some (60 # r)) (bytes_of ''<?xml'') True enc = Inr False"
    using not_question [of 33 enc] by (simp add: r StringEqual_Cons bytes_of_def)
  moreover have "StringEqual (Some (60 # r)) (bytes_of ''<!--'') False enc = Inr (take 3 r = bytes_of ''!--'')"
    "StringEqual (Some (60 # r)) (bytes_of ''<![CDATA['') False enc = Inr (take 8 r = bytes_of ''![CDATA['')"
    "StringEqual (Some (60 # r)) (bytes_of ''<!'') False enc = Inr True"
  proof -
    have b: "bytes_of ''<!--'' = 60 # bytes_of ''!--''" "bytes_of ''<![CDATA['' = 60 # bytes_of ''![CDATA[''"
      by (simp_all add: bytes_of_def)
    have "length (bytes_of ''!--'') = 3" "length (bytes_of ''![CDATA['') = 8" by (simp_all add: bytes_of_def)
    then show "StringEqual (Some (60 # r)) (bytes_of ''<!--'') False enc = Inr (take 3 r = bytes_of ''!--'')"
      "StringEqual (Some (60 # r)) (bytes_of ''<![CDATA['') False enc = Inr (take 8 r = bytes_of ''![CDATA['')"
      by (simp_all add: StringEqual_Cons equal_prefix_exact b)
  qed (simp add: StringEqual_Cons equal_prefix_exact bytes_of_def r)
  ultimately show ?thesis
    by (simp add: Identify_def SkipWhiteSpace_at_bracket Let_def)
qed

lemma comment_print_parse:
  assumes "raw_ok ''-->'' v" "pos_ok enc st"
  obtains st' where
    "comment_parse enc (Some (60 # bytes_of ''!--'' @ v @ bytes_of ''-->'' @ r)) st = Inr (Some r, XComment (cursor st') v, st')"
    "moved enc st st'"
proof -
  let ?p = "60 # bytes_of ''!--'' @ v @ bytes_of ''-->'' @ r"
  obtain st' where st': "stamp_at (Some ?p) enc st = Inr st'" "moved enc st st'" by (rule stamp_moved [OF assms(2)])
  have "StringEqual (Some ?p) (bytes_of ''<!--'') False enc = Inr True"
    by (simp add: StringEqual_Cons bytes_of_def)
  moreover have "drop 4 ?p = v @ bytes_of ''-->'' @ r" by (simp add: bytes_of_def)
  moreover have "raw_until (bytes_of ''-->'') (v @ bytes_of ''-->'' @ r) = (v, bytes_of ''-->'' @ r)"
    using assms(1) by (intro raw_until_append) (auto simp: raw_ok_def bytes_of_def)
  moreover have "drop 3 (bytes_of ''-->'' @ r) = r" by (simp add: bytes_of_def)
  ultimately have "comment_parse enc (Some ?p) st = Inr (Some r, XComment (cursor st') v, st')"
    using st'(1) by (simp add: comment_parse_def SkipWhiteSpace_at_bracket)
  then show thesis using st'(2) by (rule that)
qed

lemma unknown_print_parse:
  assumes "dtd_ok v" "pos_ok enc st"
  obtains st' where "unknown_parse enc (Some (60 # v @ 62 # r)) st = Inr (Some r, XUnknown (cursor st') v, st')" "moved enc st st'"
proof -
  obtain st' where st': "stamp_at (Some (60 # v @ 62 # r)) enc st = Inr st'" "moved enc st st'"
    by (rule stamp_moved [OF assms(2)])
  have "takeWhile (\<lambda>c. c \<noteq> 62) (v @ 62 # r) = v" "dropWhile (\<lambda>c. c \<noteq> 62) (v @ 62 # r) = 62 # r"
    using assms(1) by (auto simp: dtd_ok_def takeWhile_append dropWhile_append)
  with st' show thesis by (intro that [of st']) (simp_all add: unknown_parse_def SkipWhiteSpace_at_bracket)
qed

lemma cdata_print_parse:
  assumes "raw_ok '']]>'' v" "pos_ok enc st" "r \<noteq> []"
  obtains st' where
    "text_parse True True enc (Some (60 # bytes_of ''![CDATA['' @ v @ bytes_of '']]>'' @ r)) st
       = Inr (Some r, XText (cursor st') v True, st')" "moved enc st st'"
proof -
  let ?p = "60 # bytes_of ''![CDATA['' @ v @ bytes_of '']]>'' @ r"
  obtain st' where st': "stamp_at (Some ?p) enc st = Inr st'" "moved enc st st'" by (rule stamp_moved [OF assms(2)])
  have "StringEqual (Some ?p) (bytes_of ''<![CDATA['') False enc = Inr True"
    by (simp add: StringEqual_Cons bytes_of_def)
  moreover have "drop 9 ?p = v @ bytes_of '']]>'' @ r" by (simp add: bytes_of_def)
  moreover have "raw_until (bytes_of '']]>'') (v @ bytes_of '']]>'' @ r) = (v, bytes_of '']]>'' @ r)"
    using assms(1) by (intro raw_until_append) (auto simp: raw_ok_def bytes_of_def)
  moreover have "ReadText cw (Some (bytes_of '']]>'' @ r)) False (bytes_of '']]>'') False enc = Inr (Some r, [])" for cw
    using assms(3) by (auto simp: ReadText_def bytes_of_def keep_text.simps neq_Nil_conv)
  ultimately have "text_parse True True enc (Some ?p) st = Inr (Some r, XText (cursor st') v True, st')"
    using st'(1) by (simp add: text_parse_def)
  then show thesis using st'(2) by (rule that)
qed

lemma text_print_parse:
  assumes "printable enc (XText l v False)" "pos_ok enc st" "condense st" "blanks ws" "r \<noteq> []"
  obtains st' where
    "text_parse False False enc (Some (encoded v @ ws @ 60 # r)) st = Inr (Some (60 # r), XText (cursor st') v False, st')"
    "moved enc st st'"
proof -
  obtain c u where v: "v = c # u" "c \<noteq> 32" using assms(1) by (cases v) auto
  obtain b q where b: "encode_byte c = b # q" "b \<noteq> 60" "\<not> IsWhiteSpace b" "c \<noteq> TIXML_UTF_LEAD_0 \<Longrightarrow> b \<noteq> TIXML_UTF_LEAD_0"
    by (rule encode_byte_head [of c]) (use v(2) in auto)
  let ?p = "encoded v @ ws @ 60 # r"
  have p: "?p = b # q @ encoded u @ ws @ 60 # r" using v b by simp
  have c: "enc_ok enc c" using assms(1) v by (simp add: all_ok_def)
  have sk: "SkipWhiteSpace (Some ?p) enc = Some ?p"
    using SkipWhiteSpace_blanks [of "[]" b enc "q @ encoded u @ ws @ 60 # r"] b enc_ok_lead [OF c] p by (simp add: blanks_def)
  obtain st' where st': "stamp_at (Some ?p) enc st = Inr st'" "moved enc st st'" by (rule stamp_moved [OF assms(2)])
  have "StringEqual (Some ?p) (bytes_of ''<![CDATA['') False enc = Inr False"
    unfolding p using b(2) by (simp add: StringEqual_Cons bytes_of_def)
  moreover have "ReadText True (Some ?p) True [60] False enc = Inr (Some r, v)"
    using condense_text_encoded [of v enc False ws r "[]"] assms(1,4,5) sk
    by (auto simp: ReadText_def all_ok_def neq_Nil_conv)
  moreover have "condense st'" using st'(2) assms(3) by (simp add: moved_def)
  ultimately have "text_parse False False enc (Some ?p) st = Inr (Some (60 # r), XText (cursor st') v False, st')"
    using st'(1) assms(5) by (simp add: text_parse_def)
  then show thesis using st'(2) by (rule that)
qed

section \<open>Elements and their children\<close>

lemma blanks_simps [simp]:
  "blanks []" "blanks (c # ws) \<longleftrightarrow> (c = 32 \<or> c = 10) \<and> blanks ws" "blanks (ws @ ws') \<longleftrightarrow> blanks ws \<and> blanks ws'"
  by (auto simp: blanks_def)

lemma blanks_indent [simp]: "blanks (indent d)"
  by (induction d) (auto simp: indent_def bytes_of_def)

definition inner_print :: "nat \<Rightarrow> byte list \<Rightarrow> xnode list \<Rightarrow> byte list \<Rightarrow> byte list" where
  "inner_print depth v cs ws = children_print (depth + 1) cs @ ws @ 60 # 47 # v @ [62]"

lemma element_form:
  assumes "name_ok v"
  obtains ws where "blanks ws"
    "node_print depth (XElement l v as cs) = indent depth @ 60 # v @ concat (map (\<lambda>a. 32 # attr_print a) as) @
       (if cs = [] then [32, 47, 62] else 62 # inner_print depth v cs ws)"
proof -
  have v: "c_str v = v" using name_encoded(2) [OF assms] .
  have a: "concat (map (\<lambda>a. bytes_of '' '' @ attr_print a) as) = concat (map (\<lambda>a. 32 # attr_print a) as)"
    by (simp add: bytes_of_def)
  consider (none) "cs = []" | (single) lt vt ct where "cs = [XText lt vt ct]"
    | (more) "cs \<noteq> []" "\<And>lt vt ct. cs \<noteq> [XText lt vt ct]" by metis
  then show thesis
  proof cases
    case none
    then show thesis by (intro that [of "[]"]) (simp_all add: v a [unfolded bytes_of_def] bytes_of_def)
  next
    case single
    then show thesis
      by (intro that [of "[]"]) (simp_all add: v a [unfolded bytes_of_def] bytes_of_def inner_print_def is_text_def)
  next
    case more
    then have "node_print depth (XElement l v as cs) = indent depth @ 60 # v @ concat (map (\<lambda>a. 32 # attr_print a) as) @
        62 # children_print (depth + 1) cs @ [10] @ indent depth @ 60 # 47 # v @ [62]"
      using v a by (cases cs; cases "tl cs"; cases "hd cs") (auto simp: bytes_of_def)
    with more show thesis by (intro that [of "10 # indent depth"]) (simp_all add: inner_print_def)
  qed
qed

text \<open>What \<open>read_value\<close> does with printed children.\<close>

definition reads_children :: "encoding \<Rightarrow> nat \<Rightarrow> bool" where
  "reads_children enc n \<longleftrightarrow> (\<forall>cs depth ws0 ws r st prev.
     (\<forall>c \<in> set cs. printable enc c) \<and> spaced cs \<and> blanks ws0 \<and> blanks ws \<and> pos_ok enc st \<and> condense st \<and>
     length (ws0 @ children_print depth cs @ ws @ 60 # 47 # r) < n \<longrightarrow>
     (\<exists>cs' st'. read_value n enc (Some (ws0 @ children_print depth cs @ ws @ 60 # 47 # r)) prev st
         = Inr (Some (60 # 47 # r), prev @ cs', st') \<and>
       map erase cs' = map erase cs \<and> moved enc st st'))"

lemma reads_childrenD:
  assumes "reads_children enc n" "\<forall>c \<in> set cs. printable enc c" "spaced cs" "blanks ws0" "blanks ws" "pos_ok enc st"
    "condense st" "length (ws0 @ children_print depth cs @ ws @ 60 # 47 # r) < n"
  obtains cs' st' where
    "read_value n enc (Some (ws0 @ children_print depth cs @ ws @ 60 # 47 # r)) prev st = Inr (Some (60 # 47 # r), prev @ cs', st')"
    "map erase cs' = map erase cs" "moved enc st st'"
  using assms unfolding reads_children_def by blast

lemma element_print_parse:
  assumes el: "printable enc (XElement l v as cs)" and pos: "pos_ok enc st" and cw: "condense st"
    and ws: "blanks ws" and rv: "reads_children enc n"
    and len: "cs \<noteq> [] \<Longrightarrow> length (inner_print depth v cs ws @ r) < n"
  obtains n' st' where
    "element_parse (read_value n) enc (Some (60 # v @ concat (map (\<lambda>a. 32 # attr_print a) as) @
       (if cs = [] then [32, 47, 62] else 62 # inner_print depth v cs ws) @ r)) st = Inr (Some r, n', st')"
    "erase n' = erase (XElement l v as cs)" "moved enc st st'"
proof -
  let ?at = "concat (map (\<lambda>a. 32 # attr_print a) as)"
  let ?tl = "(if cs = [] then [32, 47, 62] else 62 # inner_print depth v cs ws) @ r"
  let ?p = "60 # v @ ?at @ ?tl"
  have v: "name_ok v" using el by simp
  obtain x u where x: "v = x # u" "is_name_byte x" "enc_ok enc x"
    using el by (cases v) (auto simp: name_ok_def all_ok_def)
  obtain st1 where st1: "stamp_at (Some ?p) enc st = Inr st1" "moved enc st st1" by (rule stamp_moved [OF pos])
  have pos1: "pos_ok enc st1" using st1(2) by (simp add: moved_def)
  have sk: "SkipWhiteSpace (Some (v @ ?at @ ?tl)) enc = Some (v @ ?at @ ?tl)"
    using SkipWhiteSpace_blanks [of "[]" x enc "u @ ?at @ ?tl"] name_byte_plain [OF x(2)] enc_ok_lead [OF x(3)] x(1) by simp
  obtain c q where cq: "?at @ ?tl = c # q" "c = 32 \<or> c = 62"
    by (cases as; cases "cs = []") auto
  have rn: "ReadName (Some (v @ ?at @ ?tl)) enc = Inr (Some (?at @ ?tl), v)"
    unfolding cq(1) using cq(2)
    by (intro ReadName_name v) (auto simp: is_name_byte_def IsAlphaNum_def isalpha_def isdigit_def)
  have as: "\<forall>a \<in> set as. attr_ok enc a" "distinct (map a_name ([] @ as))" "attrs_ok []"
    using el by (auto simp: attrs_ok_def)
  define t where "t = (if cs = [] then Tag_empty r else Tag_open (inner_print depth v cs ws @ r))"
  have tl: "?tl = 32 # 47 # 62 # r \<and> t = Tag_empty r \<or> ?tl = 62 # (inner_print depth v cs ws @ r) \<and> t = Tag_open (inner_print depth v cs ws @ r)"
    by (simp add: t_def)
  then have "\<exists>r'. ?tl = 32 # 47 # 62 # r' \<and> t = Tag_empty r' \<or> ?tl = 62 # r' \<and> t = Tag_open r'" by blast
  then obtain as' st2 where st2: "element_attrs enc (?at @ ?tl) [] st1 = Inr (t, as', st2)"
      "map erase_attr as' = map erase_attr as" "moved enc st1 st2"
    using element_attrs_print [OF as(1,3,2) pos1] by (metis append_Nil)
  have m2: "moved enc st st2" by (rule moved_trans [OF st1(2) st2(3)])
  have body: "element_parse (read_value n) enc (Some ?p) st =
      (case t of
         Tag_error \<Rightarrow> Inr (None, XElement (cursor st1) v as' [], st2)
       | Tag_empty q \<Rightarrow> Inr (Some q, XElement (cursor st1) v as' [], st2)
       | Tag_open q \<Rightarrow>
           bindE (read_value n enc (Some q) [] st2) (\<lambda>(p, cs, st).
             if no_more p then fail_with True TIXML_ERROR_READING_END_TAG p enc (XElement (cursor st1) v as' cs) st
             else
               bindE (StringEqual p (bytes_of ''</'' @ v) False enc) (\<lambda>closes.
               if closes then
                 let p = SkipWhiteSpace (Some (drop (2 + length v) (the p))) enc in
                 if \<not> no_more p \<and> peek (the p) 0 = 62 then Inr (Some (drop 1 (the p)), XElement (cursor st1) v as' cs, st)
                 else fail_with True TIXML_ERROR_READING_END_TAG p enc (XElement (cursor st1) v as' cs) st
               else fail_with True TIXML_ERROR_READING_END_TAG p enc (XElement (cursor st1) v as' cs) st)))"
    using st1(1) sk rn st2(1) cq(1)
    by (simp add: element_parse_def SkipWhiteSpace_at_bracket Let_def del: read_value.simps)
  show thesis
  proof (cases "cs = []")
    case True
    with body st2(2) m2 show thesis by (intro that [of "XElement (cursor st1) v as' []" st2]) (simp_all add: t_def)
  next
    case False
    have "pos_ok enc st2" "condense st2" using m2 cw by (simp_all add: moved_def)
    then obtain cs' st3 where
      st3: "read_value n enc (Some (inner_print depth v cs ws @ r)) [] st2 = Inr (Some (60 # 47 # v @ 62 # r), cs', st3)"
        "map erase cs' = map erase cs" "moved enc st2 st3"
      using reads_childrenD [OF rv, of cs "[]" ws st2 "depth + 1" "v @ 62 # r" "[]"] el ws len [OF False]
      by (auto simp: inner_print_def)
    have "StringEqual (Some (60 # 47 # v @ 62 # r)) (bytes_of ''</'' @ v) False enc = Inr True"
      by (simp add: StringEqual_Cons equal_prefix_exact bytes_of_def)
    moreover have "SkipWhiteSpace (Some (62 # r)) enc = Some (62 # r)"
      using SkipWhiteSpace_blanks [of "[]" 62 enc r] by (simp add: IsWhiteSpace_def)
    ultimately have "element_parse (read_value n) enc (Some ?p) st = Inr (Some r, XElement (cursor st1) v as' cs', st3)"
      using body st3(1) False by (simp add: t_def del: read_value.simps)
    with st2(2) st3(2) moved_trans [OF m2 st3(3)] show thesis
      by (intro that [of "XElement (cursor st1) v as' cs'" st3]) simp_all
  qed
qed

lemma take_before:
  assumes "take k v \<noteq> e" "x \<notin> set e" "length e = k"
  shows "take k (v @ x # r) \<noteq> e"
proof (cases "k \<le> length v")
  case False
  then have "x \<in> set (take k (v @ x # r))" by (simp add: take_Cons')
  with assms(2) show ?thesis by auto
qed (use assms(1) in simp)

lemma node_print_parse:
  assumes m: "printable enc m" "\<not> is_plain m" and pos: "pos_ok enc st" "condense st"
    and rv: "reads_children enc n" and r: "r \<noteq> []" and len: "length (node_print depth m @ r) \<le> n"
  obtains ws s tw kind n' st' where "node_print depth m = ws @ (60 # s) @ tw" "blanks ws" "blanks tw" "take 1 (s @ tw @ r) \<noteq> [47]"
    "Identify enc (Some (60 # s @ tw @ r)) = Inr (Some kind)"
    "node_parse (read_value n) kind enc (Some (60 # s @ tw @ r)) st = Inr (Some (tw @ r), n', st')"
    "erase n' = erase m" "moved enc st st'"
proof (cases m)
  case (XElement l v as cs)
  let ?at = "concat (map (\<lambda>a. 32 # attr_print a) as)"
  have v: "name_ok v" using m(1) XElement by simp
  then obtain x u where x: "v = x # u" "is_name_start x" by (cases v) (auto simp: name_ok_def)
  obtain ws where ws: "blanks ws" "node_print depth (XElement l v as cs) = indent depth @ 60 # v @ ?at @
       (if cs = [] then [32, 47, 62] else 62 # inner_print depth v cs ws)" by (rule element_form [OF v])
  let ?tl = "if cs = [] then [32, 47, 62] else 62 # inner_print depth v cs ws"
  have el: "printable enc (XElement l v as cs)" using m(1) XElement by simp
  have l: "cs \<noteq> [] \<Longrightarrow> length (inner_print depth v cs ws @ r) < n"
    using len unfolding XElement ws(2) by auto
  obtain n' st' where e: "element_parse (read_value n) enc (Some (60 # v @ ?at @ ?tl @ r)) st = Inr (Some r, n', st')"
      "erase n' = erase (XElement l v as cs)" "moved enc st st'"
    by (rule element_print_parse [OF el pos ws(1) rv l])
  show thesis
    by (rule that [of "indent depth" "v @ ?at @ ?tl" "[]" K_Element n' st'])
      (use e ws XElement x Identify_element [OF x(2)] in \<open>auto simp: node_parse_def is_name_start_def IsAlpha_def isalpha_def\<close>)
next
  case (XComment l v)
  let ?s = "bytes_of ''!--'' @ v @ bytes_of ''-->''"
  have c: "raw_ok ''-->'' v" using m(1) XComment by simp
  obtain st' where e: "comment_parse enc (Some (60 # bytes_of ''!--'' @ v @ bytes_of ''-->'' @ r)) st = Inr (Some r, XComment (cursor st') v, st')"
    "moved enc st st'" by (rule comment_print_parse [OF c pos(1)])
  have "Identify enc (Some (60 # ?s @ r)) = Inr (Some K_Comment)"
    by (subst Identify_markup) (simp_all add: bytes_of_def)
  then show thesis using e c
    by (intro that [of "indent depth" ?s "[]" K_Comment "XComment (cursor st') v" st'])
      (auto simp: XComment comment_print_def c_str_id raw_ok_def node_parse_def bytes_of_def)
next
  case (XUnknown l v)
  have c: "dtd_ok v" using m(1) XUnknown by simp
  obtain st' where e: "unknown_parse enc (Some (60 # v @ 62 # r)) st = Inr (Some r, XUnknown (cursor st') v, st')" "moved enc st st'"
    by (rule unknown_print_parse [OF c pos(1)])
  obtain u where v: "v = 33 # u" using c by (cases v) (auto simp: dtd_ok_def)
  have "Identify enc (Some (60 # v @ 62 # r)) = Inr (Some K_Unknown)"
    using c take_before [of 3 v "bytes_of ''!--''" 62 r] take_before [of 8 v "bytes_of ''![CDATA[''" 62 r]
    by (subst Identify_markup) (simp_all add: v, simp_all add: dtd_ok_def bytes_of_def)
  then show thesis using e c v
    by (intro that [of "indent depth" "v @ [62]" "[]" K_Unknown "XUnknown (cursor st') v" st'])
      (auto simp: XUnknown unknown_print_def c_str_id dtd_ok_def node_parse_def bytes_of_def)
next
  case (XText l v c)
  then have c: "c" "raw_ok '']]>'' v" using m by auto
  let ?s = "bytes_of ''![CDATA['' @ v @ bytes_of '']]>''"
  obtain st' where e: "text_parse True True enc (Some (60 # bytes_of ''![CDATA['' @ v @ bytes_of '']]>'' @ 10 # r)) st
       = Inr (Some (10 # r), XText (cursor st') v True, st')" "moved enc st st'"
    by (rule cdata_print_parse [OF c(2) pos(1), of "10 # r"]) simp
  have "Identify enc (Some (60 # ?s @ 10 # r)) = Inr (Some K_CData)"
    by (subst Identify_markup) (simp_all add: bytes_of_def)
  then show thesis using e c
    by (intro that [of "10 # indent depth" ?s "[10]" K_CData "XText (cursor st') v True" st'])
      (auto simp: XText text_print_def c_str_id raw_ok_def node_parse_def bytes_of_def)
next
  case (XDeclaration l v e s)
  with m(1) show thesis by simp
qed

lemma read_value_skip:
  assumes "condense st" "SkipWhiteSpace p enc = SkipWhiteSpace p' enc"
  shows "read_value n enc p prev st = read_value n enc p' prev st"
  using assms by (cases n) (auto simp: Let_def)

text \<open>The text behind a text: white space up to a bracket.\<close>

lemma children_bracket:
  assumes "\<forall>c \<in> set cs. printable enc c" "cs = [] \<or> \<not> is_plain (hd cs)" "blanks ws" "pos_ok enc st" "condense st"
  obtains ws1 tail where "children_print depth cs @ ws @ 60 # 47 # r = ws1 @ 60 # tail" "blanks ws1" "tail \<noteq> []"
proof (cases cs)
  case Nil
  with assms(3) show thesis by (intro that [of ws "47 # r"]) simp_all
next
  case (Cons m ns)
  have m: "printable enc m" "\<not> is_plain m" using assms(1,2) Cons by simp_all
  let ?R = "children_print depth ns @ ws @ 60 # 47 # r"
  have "\<exists>ws1 s. node_print depth m = ws1 @ 60 # s \<and> blanks ws1"
  proof (cases m)
    case (XElement l v as xs)
    then show ?thesis by - (rule exI [of _ "indent depth"], simp add: bytes_of_def)
  next
    case (XText l v c)
    with m have "c" by simp
    then show ?thesis unfolding XText
      by - (rule exI [of _ "10 # indent depth"], simp add: text_print_def bytes_of_def)
  next
    case (XComment l v)
    then show ?thesis by - (rule exI [of _ "indent depth"], simp add: comment_print_def bytes_of_def)
  next
    case (XUnknown l v)
    then show ?thesis by - (rule exI [of _ "indent depth"], simp add: unknown_print_def bytes_of_def)
  qed (use m in simp)
  then obtain ws1 s where s: "node_print depth m = ws1 @ 60 # s" "blanks ws1" by blast
  with Cons show thesis
    by (intro that [of "(if \<not> is_text m then [10] else []) @ ws1" "s @ ?R"]) auto
qed

lemma reads_children_Suc:
  assumes IH: "reads_children enc n"
  shows "reads_children enc (Suc n)"
  unfolding reads_children_def
proof (intro allI impI, elim conjE)
  fix cs depth ws0 ws r st prev
  assume cs: "\<forall>c \<in> set cs. printable enc c" "spaced cs" and ws: "blanks ws0" "blanks ws"
    and pos: "pos_ok enc st" "condense st"
    and len: "length (ws0 @ children_print depth cs @ ws @ 60 # 47 # r) < Suc n"
  let ?goal = "\<exists>cs' st'. read_value (Suc n) enc (Some (ws0 @ children_print depth cs @ ws @ 60 # 47 # r)) prev st
         = Inr (Some (60 # 47 # r), prev @ cs', st') \<and> map erase cs' = map erase cs \<and> moved enc st st'"
  show ?goal
  proof (cases cs)
    case Nil
    have sk: "SkipWhiteSpace (Some (ws0 @ ws @ 60 # 47 # r)) enc = Some (60 # 47 # r)"
      using SkipWhiteSpace_bracket [of "ws0 @ ws" "47 # r" enc] ws by simp
    have "StringEqual (Some (60 # 47 # r)) (bytes_of ''</'') False enc = Inr True"
      by (simp add: StringEqual_Cons bytes_of_def)
    with sk Nil moved_refl [OF pos(1)] show ?thesis by (simp add: Let_def)
  next
    case (Cons m ns)
    have pm: "printable enc m" "\<forall>c \<in> set ns. printable enc c" "spaced ns"
      using cs Cons by (auto elim: spaced.elims)
    let ?R = "children_print depth ns @ ws @ 60 # 47 # r"
    have R: "?R \<noteq> []" by simp
    show ?thesis
    proof (cases "is_plain m")
      case True
      then obtain l v where m: "m = XText l v False" by (cases m) auto
      have hd: "ns = [] \<or> \<not> is_plain (hd ns)" using cs(2) Cons True by (cases ns) auto
      obtain ws1 tail where tl: "?R = ws1 @ 60 # tail" "blanks ws1" "tail \<noteq> []"
        by (rule children_bracket [OF pm(2) hd ws(2) pos])
      have nr: "no_ref v" using pm(1) m by simp
      have pr: "node_print depth m = encoded v"
        using nr by (simp add: m text_print_def Encode_no_ref c_str_id [OF encoded_clean(1)])
      obtain c u where v: "v = c # u" "c \<noteq> 32" using pm(1) m by (cases v) auto
      obtain b q where b: "encode_byte c = b # q" "b \<noteq> 60" "\<not> IsWhiteSpace b" "c \<noteq> TIXML_UTF_LEAD_0 \<Longrightarrow> b \<noteq> TIXML_UTF_LEAD_0"
        by (rule encode_byte_head [of c]) (use v(2) in auto)
      have ce: "enc_ok enc c" using pm(1) m v by (simp add: all_ok_def)
      have sk: "SkipWhiteSpace (Some (ws0 @ encoded v @ ws1 @ 60 # tail)) enc = Some (encoded v @ ws1 @ 60 # tail)"
        using SkipWhiteSpace_blanks [OF ws(1) b(3), of enc "q @ encoded u @ ws1 @ 60 # tail"] b enc_ok_lead [OF ce] v by auto
      have pk: "peek (encoded v @ ws1 @ 60 # tail) 0 \<noteq> 60" using v b by simp
      obtain st1 where st1: "text_parse False False enc (Some (encoded v @ ws1 @ 60 # tail)) st
          = Inr (Some (60 # tail), XText (cursor st1) v False, st1)" "moved enc st st1"
        by (rule text_print_parse [OF pm(1) [unfolded m] pos tl(2,3)])
      have nb: "\<not> Blank v" using pm(1) m by simp
      let ?node = "XText (cursor st1) v False"
      have run: "read_value (Suc n) enc (Some (ws0 @ encoded v @ ws1 @ 60 # tail)) prev st
          = read_value n enc (Some (60 # tail)) (prev @ [?node]) st1"
        using sk pk st1(1) nb pos(2) v by (simp add: Let_def)
      have pos1: "pos_ok enc st1" "condense st1" using st1(2) pos by (simp_all add: moved_def)
      have again: "read_value n enc (Some (60 # tail)) (prev @ [?node]) st1 = read_value n enc (Some ([] @ ?R)) (prev @ [?node]) st1"
        using SkipWhiteSpace_bracket [OF tl(2), of tail enc] SkipWhiteSpace_at_bracket [of tail enc] tl(1)
        by (intro read_value_skip [OF pos1(2)]) simp
      have l: "length ([] @ ?R) < n"
        using len Cons pr b v by simp
      obtain cs' st' where "read_value n enc (Some ([] @ ?R)) (prev @ [?node]) st1 = Inr (Some (60 # 47 # r), (prev @ [?node]) @ cs', st')"
          "map erase cs' = map erase ns" "moved enc st1 st'"
        by (rule reads_childrenD [OF IH pm(2,3) _ ws(2) pos1 l]) simp
      then show ?thesis
        using run again m moved_trans [OF st1(2)] pr tl(1)
        by (intro exI [of _ "?node # cs'"] exI [of _ st']) (simp add: Cons is_text_def del: read_value.simps)
    next
      case False
      have l1: "length (node_print depth m @ ?R) \<le> n" using len Cons by simp
      obtain ws1 s tw kind n' st1 where k: "node_print depth m = ws1 @ (60 # s) @ tw" "blanks ws1" "blanks tw"
          "take 1 (s @ tw @ ?R) \<noteq> [47]" "Identify enc (Some (60 # s @ tw @ ?R)) = Inr (Some kind)"
          "node_parse (read_value n) kind enc (Some (60 # s @ tw @ ?R)) st = Inr (Some (tw @ ?R), n', st1)"
          "erase n' = erase m" "moved enc st st1"
        by (rule node_print_parse [OF pm(1) False pos IH R l1])
      let ?ws = "ws0 @ (if \<not> is_text m then [10] else []) @ ws1"
      have shape: "ws0 @ children_print depth cs @ ws @ 60 # 47 # r = ?ws @ 60 # s @ tw @ ?R" using Cons k(1) by simp
      have sk: "SkipWhiteSpace (Some (?ws @ 60 # s @ tw @ ?R)) enc = Some (60 # s @ tw @ ?R)"
        using SkipWhiteSpace_bracket [of ?ws "s @ tw @ ?R" enc] ws k(2) by simp
      have ne: "StringEqual (Some (60 # s @ tw @ ?R)) (bytes_of ''</'') False enc = Inr False"
        using k(4) by (simp add: StringEqual_Cons equal_prefix_exact bytes_of_def)
      have run: "read_value (Suc n) enc (Some (?ws @ 60 # s @ tw @ ?R)) prev st = read_value n enc (Some (tw @ ?R)) (prev @ [n']) st1"
        using sk ne k(5,6) by (simp add: Let_def)
      have pos1: "pos_ok enc st1" "condense st1" using k(8) pos by (simp_all add: moved_def)
      have l: "length (tw @ ?R) < n" using len Cons k(1) by simp
      obtain cs' st' where "read_value n enc (Some (tw @ ?R)) (prev @ [n']) st1 = Inr (Some (60 # 47 # r), (prev @ [n']) @ cs', st')"
          "map erase cs' = map erase ns" "moved enc st1 st'"
        by (rule reads_childrenD [OF IH pm(2,3) k(3) ws(2) pos1 l])
      then show ?thesis
        unfolding shape
        using run k(7) moved_trans [OF k(8)]
        by (intro exI [of _ "n' # cs'"] exI [of _ st']) (simp add: Cons del: read_value.simps)
    qed
  qed
qed

lemma reads_children: "reads_children enc n"
  by (induction n) (simp add: reads_children_def, rule reads_children_Suc)

end
