(* ===== verification/Xml_Save.thy ===== *)
theory Xml_Save
  imports Xml_Round
begin

text \<open>
  The round trip of whole documents: \<^verbatim>\<open>SaveFile\<close>, then \<^verbatim>\<open>LoadFile\<close>. A document may begin with a
  declaration, whose encoding decides how the rest is read.
\<close>

section \<open>Declarations\<close>

definition decl_part :: "byte list \<Rightarrow> bool" where
  "decl_part v \<longleftrightarrow> (\<forall>c \<in> set v. c < 128 \<and> encode_byte c = [c])"

lemma decl_part_facts:
  assumes "decl_part v"
  shows "encoded v = v" "no_ref v" "all_ok enc v" "34 \<notin> set v" "0 \<notin> set v" "13 \<notin> set v" "c_str v = v"
proof -
  show e: "encoded v = v" using assms by (induction v) (auto simp: decl_part_def)
  show z: "0 \<notin> set v" "13 \<notin> set v" using encoded_clean [of v] e by auto
  show "c_str v = v" by (rule c_str_id [OF z(1)])
  show "34 \<notin> set v" using assms by (auto simp: decl_part_def encode_byte_def bytes_of_def)
  show "all_ok enc v" using assms by (auto simp: decl_part_def all_ok_def enc_ok_def)
  have "38 \<notin> set v" using assms by (auto simp: decl_part_def encode_byte_def bytes_of_def)
  then show "no_ref v" by (induction v) auto
qed

definition part_attr :: "string \<Rightarrow> byte list \<Rightarrow> xattr" where
  "part_attr name v = \<lparr>a_name = bytes_of name, a_value = v, a_location = no_location\<rparr>"

lemma part_attr_print:
  assumes "decl_part v" "name \<in> {''version'', ''encoding'', ''standalone''}" "v \<noteq> []"
  shows "attr_ok enc (part_attr name v)" "named_part name v = attr_print (part_attr name v) @ [32]"
proof -
  have n: "name_ok (bytes_of name)" "all_ok enc (bytes_of name)" "c_str (bytes_of name) = bytes_of name"
    using assms(2)
    by (auto simp: name_ok_def bytes_of_def is_name_start_def IsAlpha_def isalpha_def is_name_byte_def IsAlphaNum_def
        all_ok_def enc_ok_def c_str_def)
  with decl_part_facts [OF assms(1)] show a: "attr_ok enc (part_attr name v)"
    by (simp add: attr_ok_def part_attr_def)
  show "named_part name v = attr_print (part_attr name v) @ [32]"
    using decl_part_facts [OF assms(1)] n name_encoded [OF n(1)] assms(3)
    by (simp add: named_part_def attr_print_def part_attr_def Encode_no_ref) (simp add: bytes_of_def)
qed

lemma ToLower_eq: "ToLower v enc = (if 65 \<le> v \<and> v \<le> 90 then v + 32 else v)"
  by (auto simp: ToLower_def Let_def word_le_nat_alt word_less_nat_alt)

text \<open>One part of a declaration; \<open>put_part\<close> says which of the three values it sets.\<close>

fun put_part :: "string \<Rightarrow> byte list \<Rightarrow> byte list \<times> byte list \<times> byte list \<Rightarrow> byte list \<times> byte list \<times> byte list" where
  "put_part name v (ver, e, s) =
     (if v = [] then (ver, e, s) else if name = ''version'' then (v, e, s) else if name = ''encoding'' then (ver, v, s) else (ver, e, v))"

declare put_part.simps [simp del]

lemma declaration_part:
  assumes v: "decl_part v" and name: "name \<in> {''version'', ''encoding'', ''standalone''}" and pos: "pos_ok enc st"
  obtains st' where
    "declaration_loop enc (Some (32 # named_part name v @ r)) d st = declaration_loop enc (Some (32 # r)) (put_part name v d) st'"
    "moved enc st st'"
proof (cases "v = []")
  case True
  then show thesis using moved_refl [OF pos] by (intro that [of st]) (cases d, simp_all add: named_part_def put_part.simps)
next
  case False
  obtain ver e s where d: "d = (ver, e, s)" by (cases d)
  let ?a = "part_attr name v"
  note p = part_attr_print [OF v name False]
  obtain q where q: "attr_print ?a = bytes_of name @ 61 # q # v @ [q]"
    using attr_print_form [OF p(1) [of enc]] decl_part_facts(1) [OF v] by (auto simp: part_attr_def)
  let ?p = "attr_print ?a @ 32 # r"
  obtain a' st' where a: "attr_parse False enc (SkipWhiteSpace (Some (32 # attr_print ?a @ 32 # r)) enc) st = Inr (Some (32 # r), a', st')"
      "a_value a' = a_value ?a" "moved enc st st'"
    by (rule attr_parse_print [OF p(1) pos, of "32 # r" False]) auto
  have sk: "SkipWhiteSpace (Some (32 # ?p)) enc = Some ?p"
    using name q by (auto simp: bytes_of_def intro!: SkipWhiteSpace_blanks [of "[32]", simplified] simp: IsWhiteSpace_def)
  have eq: "StringEqual (Some ?p) (bytes_of w) True enc = Inr (w = name)" if "w \<in> {''version'', ''encoding'', ''standalone''}" for w
    using name that q by (auto simp: StringEqual_Cons bytes_of_def ToLower_eq)
  have av: "c_str (a_value a') = v" using a(2) decl_part_facts(7) [OF v] by (simp add: part_attr_def)
  define P where "P = ?p"
  have P: "SkipWhiteSpace (Some (32 # P)) enc = Some P" "attr_parse False enc (Some P) st = Inr (Some (32 # r), a', st')"
      "StringEqual (Some P) (bytes_of ''version'') True enc = Inr (name = ''version'')"
      "StringEqual (Some P) (bytes_of ''encoding'') True enc = Inr (name = ''encoding'')"
      "StringEqual (Some P) (bytes_of ''standalone'') True enc = Inr (name = ''standalone'')"
    using sk a(1) eq [of "''version''"] eq [of "''encoding''"] eq [of "''standalone''"] by (auto simp: P_def)
  consider "name = ''version''" | "name = ''encoding''" | "name = ''standalone''" using name by blast
  then have "declaration_loop enc (Some (32 # P)) d st = declaration_loop enc (Some (32 # r)) (put_part name v d) st'"
    by cases (simp_all add: declaration_loop.simps [of enc "Some (32 # P)"] P d av False put_part.simps)
  then show thesis using a(3) p(2) by (intro that [of st']) (simp_all add: P_def)
qed

lemma declaration_end:
  "declaration_loop enc (Some (32 # 63 # 62 # r)) d st = Inr (Some r, d, st)"
proof -
  obtain ver e s where d: "d = (ver, e, s)" by (cases d)
  have sk: "SkipWhiteSpace (Some (32 # 63 # 62 # r)) enc = Some (63 # 62 # r)"
    using SkipWhiteSpace_blanks [of "[32]" 63 enc "62 # r"] by (simp add: IsWhiteSpace_def)
  have eq: "StringEqual (Some (63 # 62 # r)) (bytes_of w) True enc = Inr False" if "w \<in> {''version'', ''encoding'', ''standalone''}" for w
    using that by (auto simp: StringEqual_Cons bytes_of_def ToLower_eq)
  have "declaration_loop enc (Some (32 # 63 # 62 # r)) d st = declaration_loop enc (Some (62 # r)) d st"
    using sk eq by (subst declaration_loop.simps) (simp add: d is_skipped_def IsWhiteSpace_def)
  also have "\<dots> = Inr (Some r, d, st)" by (simp add: declaration_loop.simps)
  finally show ?thesis .
qed

lemma declaration_print_parse:
  assumes v: "decl_part v" "decl_part e" "decl_part s" and pos: "pos_ok enc st"
  obtains l st' where
    "declaration_parse enc (Some (declaration_print v e s @ r)) st = Inr (Some r, XDeclaration l v e s, st')" "moved enc st st'"
proof -
  let ?body = "named_part ''version'' v @ named_part ''encoding'' e @ named_part ''standalone'' s @ 63 # 62 # r"
  let ?p = "declaration_print v e s @ r"
  have p: "?p = 60 # 63 # 120 # 109 # 108 # 32 # ?body"
    by (simp add: declaration_print_def bytes_of_def)
  obtain st1 where st1: "stamp_at (Some ?p) enc st = Inr st1" "moved enc st st1" by (rule stamp_moved [OF pos])
  have pos1: "pos_ok enc st1" using st1(2) by (simp add: moved_def)
  obtain st2 where st2: "declaration_loop enc (Some (32 # ?body)) ([], [], []) st1 = declaration_loop enc
      (Some (32 # named_part ''encoding'' e @ named_part ''standalone'' s @ 63 # 62 # r)) (put_part ''version'' v ([], [], [])) st2" "moved enc st1 st2"
    by (rule declaration_part [OF v(1) _ pos1, where name = "''version''"]) (simp, rule that)
  have pos2: "pos_ok enc st2" using st2(2) by (simp add: moved_def)
  obtain st3 where st3: "declaration_loop enc
      (Some (32 # named_part ''encoding'' e @ named_part ''standalone'' s @ 63 # 62 # r)) (put_part ''version'' v ([], [], [])) st2
      = declaration_loop enc (Some (32 # named_part ''standalone'' s @ 63 # 62 # r))
          (put_part ''encoding'' e (put_part ''version'' v ([], [], []))) st3" "moved enc st2 st3"
    by (rule declaration_part [OF v(2) _ pos2, where name = "''encoding''"]) (simp, rule that)
  have pos3: "pos_ok enc st3" using st3(2) by (simp add: moved_def)
  obtain st4 where st4: "declaration_loop enc (Some (32 # named_part ''standalone'' s @ 63 # 62 # r))
          (put_part ''encoding'' e (put_part ''version'' v ([], [], []))) st3
      = declaration_loop enc (Some (32 # 63 # 62 # r))
          (put_part ''standalone'' s (put_part ''encoding'' e (put_part ''version'' v ([], [], [])))) st4" "moved enc st3 st4"
    by (rule declaration_part [OF v(3) _ pos3, where name = "''standalone''"]) (simp, rule that)
  have parts: "put_part ''standalone'' s (put_part ''encoding'' e (put_part ''version'' v ([], [], []))) = (v, e, s)" by (simp add: put_part.simps)
  have run: "declaration_loop enc (Some (32 # ?body)) ([], [], []) st1 = Inr (Some r, (v, e, s), st4)"
    using st2(1) st3(1) st4(1) unfolding parts declaration_end by simp
  define P where "P = ?p"
  have "StringEqual (Some P) (bytes_of ''<?xml'') True enc = Inr True"
    unfolding P_def p by (simp add: StringEqual_Cons bytes_of_def)
  moreover have "SkipWhiteSpace (Some P) enc = Some P" unfolding P_def p by (rule SkipWhiteSpace_at_bracket)
  moreover have "drop 5 P = 32 # ?body" "P \<noteq> []" unfolding P_def p by simp_all
  moreover have "stamp_at (Some P) enc st = Inr st1" unfolding P_def by (rule st1(1))
  ultimately have "declaration_parse enc (Some P) st = Inr (Some r, XDeclaration (cursor st1) v e s, st4)"
    using run by (simp add: declaration_parse_def Let_def)
  then have "declaration_parse enc (Some ?p) st = Inr (Some r, XDeclaration (cursor st1) v e s, st4)" by (simp only: P_def)
  then show thesis using moved_trans [OF moved_trans [OF moved_trans [OF st1(2) st2(2)] st3(2)] st4(2)] by (rule that)
qed

section \<open>The bytes of a printed document\<close>

definition clean :: "encoding \<Rightarrow> byte list \<Rightarrow> bool" where
  "clean enc t \<longleftrightarrow> 0 \<notin> set t \<and> 13 \<notin> set t \<and> all_ok enc t"

lemma clean_simps [simp]:
  "clean enc []" "clean enc (c # t) \<longleftrightarrow> c \<noteq> 0 \<and> c \<noteq> 13 \<and> enc_ok enc c \<and> clean enc t"
  "clean enc (s @ t) \<longleftrightarrow> clean enc s \<and> clean enc t"
  by (auto simp: clean_def all_ok_def)

lemma clean_concat [simp]: "clean enc (concat ts) \<longleftrightarrow> (\<forall>t \<in> set ts. clean enc t)"
  by (induction ts) auto

lemma enc_ok_ascii: "c < 128 \<Longrightarrow> enc_ok enc c"
  by (simp add: enc_ok_def)

lemma clean_encode_byte: "enc_ok enc c \<Longrightarrow> clean enc (encode_byte c)"
proof -
  assume c: "enc_ok enc c"
  have "c < 32 \<Longrightarrow> clean enc (hex_reference c)"
    using control_digits [of c] by (auto simp: hex_reference_def control_ok_def bytes_of_def enc_ok_ascii)
  moreover have "0 \<notin> set (encode_byte c)" "13 \<notin> set (encode_byte c)" using encode_byte_clean by auto
  ultimately show ?thesis using c by (auto simp: encode_byte_def bytes_of_def enc_ok_ascii split: if_splits)
qed

lemma clean_encoded: "all_ok enc v \<Longrightarrow> clean enc (encoded v)"
  by (auto simp: all_ok_def intro: clean_encode_byte)

lemma clean_indent [simp]: "clean enc (indent d)"
  by (induction d) (auto simp: indent_def bytes_of_def enc_ok_ascii)

lemma clean_name: "name_ok v \<Longrightarrow> all_ok enc v \<Longrightarrow> clean enc v"
  using name_byte_plain by (auto simp: clean_def name_ok_def) (metis IsWhiteSpace_def)

lemma clean_attr: "attr_ok enc a \<Longrightarrow> clean enc (attr_print a)"
proof -
  assume a: "attr_ok enc a"
  then obtain q where "attr_print a = a_name a @ 61 # q # encoded (a_value a) @ [q]" "q = 34 \<or> q = 39"
    by (rule attr_print_form)
  with a show ?thesis by (auto simp: attr_ok_def all_ok_def enc_ok_ascii intro: clean_name clean_encode_byte)
qed

lemma children_clean: "\<forall>n \<in> set ns. clean enc (node_print d n) \<Longrightarrow> clean enc (children_print d ns)"
  by (induction ns) (auto simp: enc_ok_ascii)

lemma printed_clean: "printable enc n \<Longrightarrow> clean enc (node_print d n)"
proof (induction n arbitrary: d)
  case (XElement l v as cs)
  have v: "name_ok v" using XElement.prems by simp
  obtain ws where ws: "blanks ws" "node_print d (XElement l v as cs) = indent d @ 60 # v @ concat (map (\<lambda>a. 32 # attr_print a) as) @
       (if cs = [] then [32, 47, 62] else 62 # inner_print d v cs ws)" by (rule element_form [OF v])
  have "clean enc ws" using ws(1) by (induction ws) (auto simp: enc_ok_ascii)
  moreover have "clean enc v" using XElement.prems by (simp add: clean_name)
  moreover have "clean enc (children_print (d + 1) cs)" using XElement by (intro children_clean) auto
  moreover have "\<forall>a \<in> set as. clean enc (attr_print a)" using XElement.prems by (simp add: clean_attr)
  ultimately show ?case unfolding ws(2) by (auto simp: inner_print_def enc_ok_ascii)
next
  case (XComment l v)
  then show ?case by (auto simp: comment_print_def c_str_id raw_ok_def bytes_of_def enc_ok_ascii) (auto simp: clean_def)
next
  case (XUnknown l v)
  then show ?case by (auto simp: unknown_print_def c_str_id dtd_ok_def bytes_of_def enc_ok_ascii) (auto simp: clean_def)
next
  case (XText l v c)
  show ?case
  proof (cases c)
    case True
    with XText have "clean enc v" "0 \<notin> set v" by (auto simp: clean_def raw_ok_def)
    with True show ?thesis by (auto simp: text_print_def c_str_id bytes_of_def enc_ok_ascii)
  next
    case False
    with XText show ?thesis
      by (simp add: text_print_def Encode_no_ref c_str_id [OF encoded_clean(1)] clean_encoded del: clean_concat)
  qed
qed simp

section \<open>Documents\<close>

definition doc_text :: "xnode list \<Rightarrow> byte list" where
  "doc_text ns = concat (map (\<lambda>n. node_print 0 n @ [10]) ns)"

definition top_ok :: "encoding \<Rightarrow> xnode \<Rightarrow> bool" where
  "top_ok enc n \<longleftrightarrow> printable enc n \<and> \<not> is_text n"

lemma top_ok_facts: "top_ok enc n \<Longrightarrow> printable enc n \<and> \<not> is_plain n"
  by (cases n) (auto simp: top_ok_def is_text_def)

lemma doc_text_clean: "\<forall>n \<in> set ns. top_ok enc n \<Longrightarrow> clean enc (doc_text ns)"
  by (auto simp: doc_text_def enc_ok_ascii top_ok_def intro: printed_clean)

lemma erase_not_declaration:
  "erase n' = erase n \<Longrightarrow> printable enc n \<Longrightarrow> (case n' of XDeclaration l v e s \<Rightarrow> f e | _ \<Rightarrow> x) = x"
  by (cases n; cases n') auto

lemma doc_loop_print:
  assumes "\<forall>n \<in> set ns. top_ok enc n" "blanks ws0" "pos_ok enc st" "condense st" "length (ws0 @ doc_text ns) < k"
  shows "\<exists>q ns' st'. doc_loop k enc (SkipWhiteSpace (Some (ws0 @ doc_text ns)) enc) prev st = Inr (q, enc, prev @ ns', st') \<and>
    map erase ns' = map erase ns \<and> moved enc st st'"
  using assms
proof (induction ns arbitrary: ws0 k prev st)
  case Nil
  have "no_more (SkipWhiteSpace (Some ws0) enc)"
  proof -
    have b: "IsWhiteSpace x \<and> \<not> is_mark (x # q)" if "x \<in> set ws0" for x q
      using that Nil(2) by (auto simp: blanks_def IsWhiteSpace_def is_mark_def peek_def)
    then have "skip_utf8 ws0 = []" by (induction ws0) auto
    moreover have "dropWhile IsWhiteSpace ws0 = []" using b by (simp add: dropWhile_eq_Nil_conv)
    ultimately show ?thesis by (cases ws0) (auto simp: SkipWhiteSpace_def simp del: skip_utf8.simps dropWhile.simps)
  qed
  with Nil show ?case by (cases k) (auto simp: doc_text_def moved_refl)
next
  case (Cons m ns)
  obtain k' where k: "k = Suc k'" using Cons.prems(5) by (cases k) auto
  let ?r = "10 # doc_text ns"
  have t: "doc_text (m # ns) = node_print 0 m @ ?r" by (simp add: doc_text_def)
  have m: "printable enc m" "\<not> is_plain m" using top_ok_facts Cons.prems(1) by auto
  have len: "length (node_print 0 m @ ?r) \<le> k'" using Cons.prems(5) t k by simp
  obtain ws1 s tw kind n' st1 where n: "node_print 0 m = ws1 @ (60 # s) @ tw" "blanks ws1" "blanks tw"
      "Identify enc (Some (60 # s @ tw @ ?r)) = Inr (Some kind)"
      "node_parse (read_value k') kind enc (Some (60 # s @ tw @ ?r)) st = Inr (Some (tw @ ?r), n', st1)"
      "erase n' = erase m" "moved enc st st1"
    by (rule node_print_parse [OF m Cons.prems(3,4) reads_children _ len]) simp_all
  have sk: "SkipWhiteSpace (Some (ws0 @ doc_text (m # ns))) enc = Some (60 # s @ tw @ ?r)"
    using SkipWhiteSpace_bracket [of "ws0 @ ws1" "s @ tw @ ?r" enc] Cons.prems(2) n(1,2) t by simp
  have p1: "pos_ok enc st1" "condense st1" using n(7) Cons.prems(4) by (simp_all add: moved_def)
  have l: "length ((tw @ [10]) @ doc_text ns) < k'" using len n(1) by simp
  have b: "blanks (tw @ [10])" using n(3) by simp
  obtain q ns' st' where IH: "doc_loop k' enc (SkipWhiteSpace (Some ((tw @ [10]) @ doc_text ns)) enc) (prev @ [n']) st1
        = Inr (q, enc, (prev @ [n']) @ ns', st')" "map erase ns' = map erase ns" "moved enc st1 st'"
    using Cons.IH [OF _ b p1 l, of "prev @ [n']"] Cons.prems(1) by auto
  have "doc_loop k enc (SkipWhiteSpace (Some (ws0 @ doc_text (m # ns))) enc) prev st
      = doc_loop k' enc (SkipWhiteSpace (Some ((tw @ [10]) @ doc_text ns)) enc) (prev @ [n']) st1"
    unfolding k sk using n(4,5) by (simp add: erase_not_declaration [OF n(6) m(1)])
  with IH n(6) moved_trans [OF n(7)] show ?case by (auto intro!: exI [of _ "n' # ns'"])
qed

text \<open>The documents that come back: a declaration may come first, then at least one node.\<close>

fun saveable :: "xnode list \<Rightarrow> bool" where
  "saveable (XDeclaration l v e s # ns) \<longleftrightarrow>
     decl_part v \<and> decl_part e \<and> decl_part s \<and>
     (case declared_encoding e of Inl f \<Rightarrow> False | Inr enc \<Rightarrow> \<forall>n \<in> set ns. top_ok enc n)"
| "saveable ns \<longleftrightarrow> ns \<noteq> [] \<and> (\<forall>n \<in> set ns. top_ok TIXML_ENCODING_UNKNOWN n)"

lemma saveable_cases:
  assumes "saveable cs"
  obtains (decl) l v e s ns enc where "cs = XDeclaration l v e s # ns" "decl_part v" "decl_part e" "decl_part s"
      "declared_encoding e = Inr enc" "\<forall>n \<in> set ns. top_ok enc n"
    | (plain) "cs \<noteq> []" "\<forall>n \<in> set cs. top_ok TIXML_ENCODING_UNKNOWN n"
  using assms
  by (cases cs rule: saveable.cases) (auto split: sum.splits intro: that)

lemma normalize_id: "0 \<notin> set b \<Longrightarrow> 13 \<notin> set b \<Longrightarrow> normalize b = b"
  by (induction b rule: normalize.induct) auto

lemma declaration_clean:
  assumes "decl_part v" "decl_part e" "decl_part s"
  shows "clean TIXML_ENCODING_UTF8 (declaration_print v e s)"
proof -
  have "clean TIXML_ENCODING_UTF8 (named_part n w)" if "decl_part w" "n \<in> {''version'', ''encoding'', ''standalone''}" for n w
    using decl_part_facts [OF that(1)] that(2) by (auto simp: named_part_def bytes_of_def clean_def all_ok_def enc_ok_def)
  with assms show ?thesis by (simp add: declaration_print_def) (simp add: bytes_of_def enc_ok_ascii)
qed

lemma clean_any: "clean TIXML_ENCODING_UTF8 t \<Longrightarrow> clean enc t"
  by (auto simp: clean_def all_ok_def enc_ok_def)

lemma clean_lead: "clean TIXML_ENCODING_UTF8 t \<Longrightarrow> TIXML_UTF_LEAD_0 \<notin> set t"
  by (auto simp: clean_def all_ok_def enc_ok_def word_less_nat_alt)

text \<open>The first byte of a printed document is a bracket.\<close>

lemma saveable_head:
  assumes "saveable cs"
  obtains t where "doc_text cs = 60 # t"
  using assms
proof (cases rule: saveable_cases)
  case (decl l v e s ns enc)
  then show thesis by (intro that) (simp add: doc_text_def declaration_print_def bytes_of_def)
next
  case plain
  then obtain m ns where m: "cs = m # ns" "printable TIXML_ENCODING_UNKNOWN m" "\<not> is_text m"
    by (cases cs) (auto simp: top_ok_def)
  have i: "indent 0 = []" by (simp add: indent_def)
  from m show thesis
    by (cases m) (auto intro!: that simp: doc_text_def i comment_print_def unknown_print_def bytes_of_def is_text_def)
qed

lemma doc_loop_saved:
  assumes cs: "saveable cs" and len: "length (doc_text cs) + 1 < k"
    and st: "pd st = ParsingData_new (doc_text cs) ts 0 0" "1 \<le> ts" "condense st"
  obtains q enc cs' st' where
    "doc_loop k TIXML_ENCODING_UNKNOWN (Some (doc_text cs)) [] st = Inr (q, enc, cs', st')"
    "map erase cs' = map erase cs" "xerr st' = xerr st"
proof -
  let ?U = TIXML_ENCODING_UNKNOWN
  have pos: "pos_ok ?U st" using st by (simp add: pos_ok_def ParsingData_new_def)
  obtain t where head: "doc_text cs = 60 # t" by (rule saveable_head [OF cs])
  from cs show thesis
  proof (cases rule: saveable_cases)
    case plain
    have sk: "SkipWhiteSpace (Some ([] @ doc_text cs)) ?U = Some (doc_text cs)"
      unfolding head by (simp add: SkipWhiteSpace_at_bracket)
    from doc_loop_print [OF plain(2) _ pos st(3), of "[]" k "[]"] len
    show thesis unfolding sk by (auto simp: moved_def intro: that)
  next
    case (decl l v e s ns enc)
    obtain k' where k: "k = Suc k'" using len by (cases k) auto
    let ?r = "10 # doc_text ns"
    have t: "doc_text cs = declaration_print v e s @ ?r" using decl(1) by (simp add: doc_text_def)
    obtain l' st1 where d: "declaration_parse ?U (Some (declaration_print v e s @ ?r)) st = Inr (Some ?r, XDeclaration l' v e s, st1)"
        "moved ?U st st1" by (rule declaration_print_parse [OF decl(2-4) pos])
    have id: "Identify ?U (Some (doc_text cs)) = Inr (Some K_Declaration)"
    proof -
      have "\<exists>u. doc_text cs = 60 # 63 # 120 # 109 # 108 # u" by (simp add: t declaration_print_def bytes_of_def)
      then show ?thesis by (auto simp: Identify_def SkipWhiteSpace_at_bracket StringEqual_Cons bytes_of_def peek_def)
    qed
    have pos1: "pos_ok enc st1"
    proof (cases "enc = TIXML_ENCODING_UTF8")
      case True
      have "clean TIXML_ENCODING_UTF8 (doc_text cs)"
        using declaration_clean [OF decl(2-4)] doc_text_clean [OF decl(6)] True by (simp add: t enc_ok_ascii)
      then have "keeps True st st" using st(1) clean_lead by (simp add: keeps_def ParsingData_new_def)
      from declaration_parse_sound [OF this, of ?U "Some (declaration_print v e s @ ?r)"] d(1)
      have "TIXML_UTF_LEAD_0 \<notin> set (stamp (pd st1))" by (simp add: sound_def keeps_def)
      with d(2) show ?thesis by (simp add: moved_def pos_ok_def)
    next
      case False
      with d(2) show ?thesis by (simp add: moved_def pos_ok_def)
    qed
    have cw: "condense st1" using d(2) st(3) by (simp add: moved_def)
    have l: "length ([10] @ doc_text ns) < k'" using len k t by (simp add: declaration_print_def bytes_of_def)
    have loop: "doc_loop k ?U (Some (doc_text cs)) [] st
        = doc_loop k' enc (SkipWhiteSpace (Some ([10] @ doc_text ns)) enc) [XDeclaration l' v e s] st1"
      using id d(1) decl(5) unfolding k by (simp add: t node_parse_def)
    have bl: "blanks [10]" by simp
    obtain q ns' st' where
      "doc_loop k' enc (SkipWhiteSpace (Some ([10] @ doc_text ns)) enc) [XDeclaration l' v e s] st1
         = Inr (q, enc, [XDeclaration l' v e s] @ ns', st')" "map erase ns' = map erase ns" "moved enc st1 st'"
      using doc_loop_print [OF decl(6) bl pos1 cw l, of "[XDeclaration l' v e s]"] by blast
    with loop decl(1) d(2) show thesis
      by (intro that [of q enc "[XDeclaration l' v e s] @ ns'" st']) (auto simp: moved_def)
  qed
qed

lemma save_load:
  assumes "saveable (d_children doc)" "\<not> d_useMicrosoftBOM doc"
    and "SaveFile True False doc = (True, Some bytes)" "length bytes + 2 \<le> fuel"
  shows "\<exists>doc'. LoadFile True fuel (Some bytes) Document_new = Inr (True, doc') \<and>
    map erase (d_children doc') = map erase (d_children doc)"
proof -
  have b: "bytes = doc_text (d_children doc)"
    using assms(2,3) by (auto simp: SaveFile_def SaveFile_to_def doc_print_def doc_text_def)
  obtain t where head: "doc_text (d_children doc) = 60 # t" by (rule saveable_head [OF assms(1)])
  have "\<exists>enc. clean enc (doc_text (d_children doc))"
    using assms(1)
  proof (cases rule: saveable_cases)
    case (decl l v e s ns enc)
    with declaration_clean [OF decl(2-4)] doc_text_clean [OF decl(6)] show ?thesis
      by (intro exI [of _ enc]) (simp add: doc_text_def enc_ok_ascii clean_any)
  qed (use doc_text_clean in blast)
  then have nz: "normalize bytes = bytes" unfolding b by (auto simp: clean_def intro: normalize_id)
  define st where "st = \<lparr>pd = ParsingData_new bytes 4 0 0, xerr = None, condense = True\<rparr>"
  have l: "length (doc_text (d_children doc)) + 1 < fuel" using assms(4) b by simp
  have st: "pd st = ParsingData_new (doc_text (d_children doc)) 4 0 0" "condense st" "xerr st = None"
    by (simp_all add: st_def b)
  obtain q enc cs' st' where r: "doc_loop fuel TIXML_ENCODING_UNKNOWN (Some (doc_text (d_children doc))) [] st = Inr (q, enc, cs', st')"
      "map erase cs' = map erase (d_children doc)" "xerr st' = xerr st"
    by (rule doc_loop_saved [OF assms(1) l st(1) _ st(2)]) simp
  have ne: "cs' \<noteq> []" using r(2) assms(1) by auto
  have "doc_Parse True fuel bytes TIXML_ENCODING_UNKNOWN Document_new = Inr (q, Document_new\<lparr>d_children := cs'\<rparr>)"
    using r(1,3) ne st(3) unfolding b head
    by (simp add: doc_Parse_def Document_new_def SkipWhiteSpace_at_bracket st_def b head)
  then have "LoadFile True fuel (Some bytes) Document_new = Inr (True, Document_new\<lparr>d_children := cs'\<rparr>)"
    using nz b head by (simp add: LoadFile_def Document_new_def)
  with r(2) show ?thesis by auto
qed

section \<open>Property\<close>

text \<open>
  C12: What \<^verbatim>\<open>SaveFile\<close> writes for a document of well-formed names, texts of words with single spaces
  and at most one declaration, which comes first, \<^verbatim>\<open>LoadFile\<close> reads back without an error as the same
  tree: the same elements with the same attributes, texts, comments and character data in the same
  order; only the positions of the nodes are new. Special characters and control characters survive.
\<close>

theorem xml_save_load:
  assumes "saveable (d_children doc)" "\<not> d_useMicrosoftBOM doc"
    and "SaveFile True False doc = (True, Some bytes)" "length bytes + 2 \<le> fuel"
  shows "\<exists>doc'. LoadFile True fuel (Some bytes) Document_new = Inr (True, doc') \<and>
    map erase (d_children doc') = map erase (d_children doc)"
  by (rule save_load [OF assms])

definition saved_doc :: document where
  "saved_doc = Document_new\<lparr>d_children :=
     [XDeclaration no_location (bytes_of ''1.0'') (bytes_of ''UTF-8'') [],
      XElement no_location (bytes_of ''core'')
        [\<lparr>a_name = bytes_of ''tick'', a_value = bytes_of ''<33 & more>'' @ [34, 9], a_location = no_location\<rparr>]
        [XText no_location (bytes_of ''a & b'') False,
         XElement no_location (bytes_of ''loop'') [] [],
         XComment no_location (bytes_of '' note - ''),
         XText no_location (bytes_of ''x ]] <y>'') True]]\<rparr>"

theorem xml_save_load_witness:
  "\<exists>doc'. LoadFile True 300 (Some (doc_print saved_doc)) Document_new = Inr (True, doc') \<and>
     map erase (d_children doc') = map erase (d_children saved_doc)"
proof -
  have "saveable (d_children saved_doc)" by code_simp
  moreover have "\<not> d_useMicrosoftBOM saved_doc" by code_simp
  moreover have "SaveFile True False saved_doc = (True, Some (doc_print saved_doc))"
    by (simp add: SaveFile_def SaveFile_to_def saved_doc_def Document_new_def)
  moreover have "length (doc_print saved_doc) + 2 \<le> 300" by code_simp
  ultimately show ?thesis by (rule xml_save_load)
qed

end
