(* ===== verification/Xml_Dom.thy ===== *)
theory Xml_Dom
  imports Xml_Parse
begin

text \<open>
  The node operations of src/Public/tinyxml/tinyxml.cpp (\<^verbatim>\<open>TiXmlNode\<close> and its classes): nodes live on
  a heap and are linked by the pointers \<^verbatim>\<open>parent\<close>, \<^verbatim>\<open>firstChild\<close>, \<^verbatim>\<open>lastChild\<close>, \<^verbatim>\<open>prev\<close> and \<^verbatim>\<open>next\<close>; a freed
  node is no cell of the heap any more, and reading it is a fault. Theory Xml_Parse has the trees that
  the parser builds as values; theories Xml_Tree and Xml_Edit relate the two.

  A walk visits each node at most once unless its links are a cycle, so it takes as many units of
  fuel as nodes were ever allocated; running out is \<open>Diverges\<close>. The attributes of an element are the
  list of Xml_Parse; theory Xml_Attrs shows that the ring of the code keeps such a list.
\<close>

section \<open>Nodes on the heap\<close>

datatype node_type =
    TINYXML_DOCUMENT | TINYXML_ELEMENT | TINYXML_COMMENT | TINYXML_UNKNOWN | TINYXML_TEXT | TINYXML_DECLARATION

text \<open>What the classes add to a node.\<close>

datatype node_body =
    Body_document "(xml_error \<times> location) option" s32 bool
  | Body_element "xattr list"
  | Body_comment
  | Body_unknown
  | Body_text bool
  | Body_declaration "byte list" "byte list" "byte list"

type_synonym naddr = nat

record dnode =
  n_userData :: nat
  n_location :: location
  n_body :: node_body
  n_value :: "byte list"
  n_parent :: "naddr option"
  n_firstChild :: "naddr option"
  n_lastChild :: "naddr option"
  n_prev :: "naddr option"
  n_next :: "naddr option"

record dom =
  cells :: "naddr \<rightharpoonup> dnode"
  next_addr :: nat

fun body_type :: "node_body \<Rightarrow> node_type" where
  "body_type (Body_document e t b) = TINYXML_DOCUMENT"
| "body_type (Body_element as) = TINYXML_ELEMENT"
| "body_type Body_comment = TINYXML_COMMENT"
| "body_type Body_unknown = TINYXML_UNKNOWN"
| "body_type (Body_text c) = TINYXML_TEXT"
| "body_type (Body_declaration v e s) = TINYXML_DECLARATION"

definition n_type :: "dnode \<Rightarrow> node_type" where
  "n_type n = body_type (n_body n)"

definition Value :: "dnode \<Rightarrow> cstr" where
  "Value n = c_str (n_value n)"

definition node_at :: "naddr \<Rightarrow> dom \<Rightarrow> dnode outcome" where
  "node_at a h = (case cells h a of None \<Rightarrow> Inl WildPointer | Some n \<Rightarrow> Inr n)"

text \<open>Writing a field of a node.\<close>

definition upd :: "naddr \<Rightarrow> (dnode \<Rightarrow> dnode) \<Rightarrow> dom \<Rightarrow> dom outcome" where
  "upd a f h = bindE (node_at a h) (\<lambda>n. Inr (h\<lparr>cells := (cells h)(a \<mapsto> f n)\<rparr>))"

definition free_node :: "naddr \<Rightarrow> dom \<Rightarrow> dom outcome" where
  "free_node a h =
     (case cells h a of None \<Rightarrow> Inl BadDelete | Some n \<Rightarrow> Inr (h\<lparr>cells := (cells h)(a := None)\<rparr>))"

text \<open>\<^verbatim>\<open>new\<close>, with the constructor of the node.\<close>

definition Node_new :: "node_body \<Rightarrow> dnode" where
  "Node_new b = \<lparr>n_userData = 0, n_location = no_location, n_body = b, n_value = [], n_parent = None,
     n_firstChild = None, n_lastChild = None, n_prev = None, n_next = None\<rparr>"

definition alloc :: "dnode \<Rightarrow> dom \<Rightarrow> naddr \<times> dom" where
  "alloc n h = (next_addr h, h\<lparr>cells := (cells h)(next_addr h \<mapsto> n), next_addr := Suc (next_addr h)\<rparr>)"

definition Document_body :: node_body where
  "Document_body = Body_document None 4 False"

definition Element_new :: "cstr \<Rightarrow> dnode" where
  "Element_new v = (Node_new (Body_element []))\<lparr>n_value := v\<rparr>"

definition Text_new :: "cstr \<Rightarrow> dnode" where
  "Text_new v = (Node_new (Body_text False))\<lparr>n_value := v\<rparr>"

definition Comment_new :: "cstr \<Rightarrow> dnode" where
  "Comment_new v = (Node_new Body_comment)\<lparr>n_value := v\<rparr>"

definition Declaration_new :: "cstr \<Rightarrow> cstr \<Rightarrow> cstr \<Rightarrow> dnode" where
  "Declaration_new v e s = Node_new (Body_declaration v e s)"

section \<open>Walks\<close>

text \<open>\<^verbatim>\<open>for (node = p; node; node = step(node)) if (test(node)) return node; return 0;\<close>\<close>

fun walk :: "nat \<Rightarrow> (dnode \<Rightarrow> naddr option) \<Rightarrow> (dnode \<Rightarrow> bool) \<Rightarrow> naddr option \<Rightarrow> dom \<Rightarrow> naddr option outcome" where
  "walk f go test None h = Inr None"
| "walk 0 go test (Some a) h = Inl Diverges"
| "walk (Suc f) go test (Some a) h =
     bindE (node_at a h) (\<lambda>n. if test n then Inr (Some a) else walk f go test (go n) h)"

definition has_value :: "cstr \<Rightarrow> dnode \<Rightarrow> bool" where
  "has_value v n \<longleftrightarrow> Value n = v"

definition ToDocument :: "dnode \<Rightarrow> bool" where
  "ToDocument n \<longleftrightarrow> n_type n = TINYXML_DOCUMENT"

definition ToElement :: "dnode \<Rightarrow> bool" where
  "ToElement n \<longleftrightarrow> n_type n = TINYXML_ELEMENT"

definition ToText :: "dnode \<Rightarrow> bool" where
  "ToText n \<longleftrightarrow> n_type n = TINYXML_TEXT"

definition Node_FirstChild :: "cstr \<Rightarrow> naddr \<Rightarrow> dom \<Rightarrow> naddr option outcome" where
  "Node_FirstChild v this h =
     bindE (node_at this h) (\<lambda>t. walk (next_addr h) n_next (has_value v) (n_firstChild t) h)"

definition Node_LastChild :: "cstr \<Rightarrow> naddr \<Rightarrow> dom \<Rightarrow> naddr option outcome" where
  "Node_LastChild v this h =
     bindE (node_at this h) (\<lambda>t. walk (next_addr h) n_prev (has_value v) (n_lastChild t) h)"

definition Node_NextSibling :: "cstr \<Rightarrow> naddr \<Rightarrow> dom \<Rightarrow> naddr option outcome" where
  "Node_NextSibling v this h =
     bindE (node_at this h) (\<lambda>t. walk (next_addr h) n_next (has_value v) (n_next t) h)"

definition Node_PreviousSibling :: "cstr \<Rightarrow> naddr \<Rightarrow> dom \<Rightarrow> naddr option outcome" where
  "Node_PreviousSibling v this h =
     bindE (node_at this h) (\<lambda>t. walk (next_addr h) n_prev (has_value v) (n_prev t) h)"

definition IterateChildren :: "naddr option \<Rightarrow> naddr \<Rightarrow> dom \<Rightarrow> naddr option outcome" where
  "IterateChildren previous this h =
     (case previous of
        None \<Rightarrow> bindE (node_at this h) (\<lambda>t. Inr (n_firstChild t))
      | Some p \<Rightarrow> bindE (node_at p h) (\<lambda>n. bindE (xassert (n_parent n = Some this)) (\<lambda>_. Inr (n_next n))))"

definition IterateChildren_value :: "cstr \<Rightarrow> naddr option \<Rightarrow> naddr \<Rightarrow> dom \<Rightarrow> naddr option outcome" where
  "IterateChildren_value val previous this h =
     (case previous of
        None \<Rightarrow> Node_FirstChild val this h
      | Some p \<Rightarrow> bindE (node_at p h) (\<lambda>n. bindE (xassert (n_parent n = Some this)) (\<lambda>_. Node_NextSibling val p h)))"

definition Node_FirstChildElement :: "naddr \<Rightarrow> dom \<Rightarrow> naddr option outcome" where
  "Node_FirstChildElement this h =
     bindE (node_at this h) (\<lambda>t. walk (next_addr h) n_next ToElement (n_firstChild t) h)"

definition Node_NextSiblingElement :: "naddr \<Rightarrow> dom \<Rightarrow> naddr option outcome" where
  "Node_NextSiblingElement this h =
     bindE (node_at this h) (\<lambda>t. walk (next_addr h) n_next ToElement (n_next t) h)"

text \<open>The variants with a value loop over calls that are loops themselves.\<close>

fun walk_elements :: "nat \<Rightarrow> cstr \<Rightarrow> naddr option \<Rightarrow> dom \<Rightarrow> naddr option outcome" where
  "walk_elements f v None h = Inr None"
| "walk_elements 0 v (Some a) h = Inl Diverges"
| "walk_elements (Suc f) v (Some a) h =
     bindE (node_at a h) (\<lambda>n.
     if ToElement n then Inr (Some a)
     else bindE (Node_NextSibling v a h) (\<lambda>p. walk_elements f v p h))"

definition FirstChildElement_value :: "cstr \<Rightarrow> naddr \<Rightarrow> dom \<Rightarrow> naddr option outcome" where
  "FirstChildElement_value v this h =
     bindE (Node_FirstChild v this h) (\<lambda>p. walk_elements (next_addr h) v p h)"

definition NextSiblingElement_value :: "cstr \<Rightarrow> naddr \<Rightarrow> dom \<Rightarrow> naddr option outcome" where
  "NextSiblingElement_value v this h =
     bindE (Node_NextSibling v this h) (\<lambda>p. walk_elements (next_addr h) v p h)"

definition GetDocument :: "naddr \<Rightarrow> dom \<Rightarrow> naddr option outcome" where
  "GetDocument this h = walk (next_addr h) n_parent ToDocument (Some this) h"

definition GetText :: "naddr \<Rightarrow> dom \<Rightarrow> cstr option outcome" where
  "GetText this h =
     bindE (node_at this h) (\<lambda>t.
     case n_firstChild t of
       None \<Rightarrow> Inr None
     | Some c \<Rightarrow> bindE (node_at c h) (\<lambda>n. Inr (if ToText n then Some (Value n) else None)))"

section \<open>Destruction\<close>

text \<open>
  \<^verbatim>\<open>while (node) { temp = node; node = node->next; delete temp; }\<close>, where deleting a node does the same to its
  children first (\<^verbatim>\<open>~TiXmlNode\<close>, and \<^verbatim>\<open>ClearThis\<close> of \<^verbatim>\<open>~TiXmlElement\<close>).
\<close>

fun delete_chain :: "nat \<Rightarrow> naddr option \<Rightarrow> dom \<Rightarrow> dom outcome" where
  "delete_chain f None h = Inr h"
| "delete_chain 0 (Some a) h = Inl Diverges"
| "delete_chain (Suc f) (Some a) h =
     bindE (node_at a h) (\<lambda>n.
     bindE (delete_chain f (n_firstChild n) h) (\<lambda>h.
     bindE (free_node a h) (\<lambda>h. delete_chain f (n_next n) h)))"

definition delete_node :: "naddr \<Rightarrow> dom \<Rightarrow> dom outcome" where
  "delete_node a h =
     bindE (node_at a h) (\<lambda>n. bindE (delete_chain (next_addr h) (n_firstChild n) h) (free_node a))"

definition Node_Clear :: "naddr \<Rightarrow> dom \<Rightarrow> dom outcome" where
  "Node_Clear this h =
     bindE (node_at this h) (\<lambda>t.
     bindE (delete_chain (next_addr h) (n_firstChild t) h) (\<lambda>h.
     upd this (\<lambda>t. t\<lparr>n_firstChild := None, n_lastChild := None\<rparr>) h))"

section \<open>Attributes of an element\<close>

text \<open>\<^verbatim>\<open>First()\<close> and \<^verbatim>\<open>Next()\<close>: an attribute without name and value is taken for the sentinel.\<close>

definition like_sentinel :: "xattr \<Rightarrow> bool" where
  "like_sentinel a \<longleftrightarrow> a_value a = [] \<and> a_name a = []"

fun visible_attrs :: "xattr list \<Rightarrow> xattr list" where
  "visible_attrs [] = []"
| "visible_attrs (a # as) = a # takeWhile (\<lambda>b. \<not> like_sentinel b) as"

definition FindOrCreate :: "cstr \<Rightarrow> xattr list \<Rightarrow> xattr list outcome" where
  "FindOrCreate name as =
     (case Find name as of
        Some a \<Rightarrow> Inr as
      | None \<Rightarrow>
          bindE (Add \<lparr>a_name = [], a_value = [], a_location = no_location\<rparr> as) (\<lambda>as.
          Inr (butlast as @ [(last as)\<lparr>a_name := name\<rparr>])))"

fun set_value :: "cstr \<Rightarrow> cstr \<Rightarrow> xattr list \<Rightarrow> xattr list" where
  "set_value name v [] = []"
| "set_value name v (a # as) = (if c_str (a_name a) = name then a\<lparr>a_value := v\<rparr> # as else a # set_value name v as)"

definition set_attribute :: "cstr \<Rightarrow> cstr \<Rightarrow> xattr list \<Rightarrow> xattr list outcome" where
  "set_attribute name v as = bindE (FindOrCreate name as) (\<lambda>as. Inr (set_value name v as))"

fun copy_attrs :: "xattr list \<Rightarrow> xattr list \<Rightarrow> xattr list outcome" where
  "copy_attrs [] as = Inr as"
| "copy_attrs (b # bs) as = bindE (set_attribute (c_str (a_name b)) (c_str (a_value b)) as) (copy_attrs bs)"

text \<open>The list of attributes of an element on the heap.\<close>

definition on_attrs :: "(xattr list \<Rightarrow> xattr list outcome) \<Rightarrow> naddr \<Rightarrow> dom \<Rightarrow> dom outcome" where
  "on_attrs f this h =
     bindE (node_at this h) (\<lambda>t.
     case n_body t of
       Body_element as \<Rightarrow> bindE (f as) (\<lambda>as. upd this (\<lambda>t. t\<lparr>n_body := Body_element as\<rparr>) h)
     | _ \<Rightarrow> Inl WildPointer)"

definition SetAttribute :: "cstr \<Rightarrow> cstr \<Rightarrow> naddr \<Rightarrow> dom \<Rightarrow> dom outcome" where
  "SetAttribute name v = on_attrs (set_attribute name v)"

definition RemoveAttribute :: "cstr \<Rightarrow> naddr \<Rightarrow> dom \<Rightarrow> dom outcome" where
  "RemoveAttribute name =
     on_attrs (\<lambda>as. Inr (case Find name as of None \<Rightarrow> as | Some a \<Rightarrow> remove1 a as))"

section \<open>Linking\<close>

text \<open>\<^verbatim>\<open>if (GetDocument()) GetDocument()->SetError(TIXML_ERROR_DOCUMENT_TOP_ONLY, 0, 0, ...)\<close>; the first error stays.\<close>

fun top_only :: "node_body \<Rightarrow> node_body" where
  "top_only (Body_document None t b) = Body_document (Some (TIXML_ERROR_DOCUMENT_TOP_ONLY, no_location)) t b"
| "top_only b = b"

definition set_top_only :: "naddr \<Rightarrow> dom \<Rightarrow> dom outcome" where
  "set_top_only this h =
     bindE (GetDocument this h) (\<lambda>d.
     case d of None \<Rightarrow> Inr h | Some d \<Rightarrow> upd d (\<lambda>n. n\<lparr>n_body := top_only (n_body n)\<rparr>) h)"

text \<open>\<^verbatim>\<open>node->GetDocument() == 0 || node->GetDocument() == this->GetDocument()\<close>\<close>

definition document_fits :: "naddr \<Rightarrow> naddr \<Rightarrow> dom \<Rightarrow> bool outcome" where
  "document_fits node this h =
     bindE (GetDocument node h) (\<lambda>d.
     if d = None then Inr True else bindE (GetDocument this h) (\<lambda>e. Inr (d = e)))"

definition link_end :: "naddr \<Rightarrow> naddr \<Rightarrow> dom \<Rightarrow> dom outcome" where
  "link_end node this h =
     bindE (upd node (\<lambda>n. n\<lparr>n_parent := Some this\<rparr>) h) (\<lambda>h.
     bindE (node_at this h) (\<lambda>t.
     bindE (upd node (\<lambda>n. n\<lparr>n_prev := n_lastChild t, n_next := None\<rparr>) h) (\<lambda>h.
     bindE (case n_lastChild t of
         Some l \<Rightarrow> upd l (\<lambda>n. n\<lparr>n_next := Some node\<rparr>) h
       | None \<Rightarrow> upd this (\<lambda>t. t\<lparr>n_firstChild := Some node\<rparr>) h) (\<lambda>h.
     upd this (\<lambda>t. t\<lparr>n_lastChild := Some node\<rparr>) h))))"

definition LinkEndChild :: "naddr \<Rightarrow> naddr \<Rightarrow> dom \<Rightarrow> (naddr option \<times> dom) outcome" where
  "LinkEndChild node this h =
     bindE (node_at node h) (\<lambda>n.
     bindE (xassert (n_parent n = None \<or> n_parent n = Some this)) (\<lambda>_.
     bindE (document_fits node this h) (\<lambda>fits.
     bindE (xassert fits) (\<lambda>_.
     if n_type n = TINYXML_DOCUMENT then
       bindE (delete_node node h) (\<lambda>h. bindE (set_top_only this h) (\<lambda>h. Inr (None, h)))
     else bindE (link_end node this h) (\<lambda>h. Inr (Some node, h))))))"

section \<open>Copies\<close>

text \<open>\<^verbatim>\<open>TiXmlNode::CopyTo\<close>, and what \<^verbatim>\<open>CopyTo\<close> of the leaf classes adds.\<close>

definition copy_fields :: "dnode \<Rightarrow> dnode \<Rightarrow> dnode" where
  "copy_fields n t = t\<lparr>n_value := Value n, n_userData := n_userData n, n_location := n_location n\<rparr>"

fun copy_body :: "node_body \<Rightarrow> node_body \<Rightarrow> node_body" where
  "copy_body (Body_text c) b = Body_text c"
| "copy_body (Body_declaration v e s) b = Body_declaration v e s"
| "copy_body (Body_document err t m) b = Body_document err t m"
| "copy_body _ b = b"

text \<open>What \<^verbatim>\<open>Clone\<close> of a class makes before it copies.\<close>

definition clone_new :: "dnode \<Rightarrow> dnode" where
  "clone_new n =
     (case n_body n of
        Body_document e t b \<Rightarrow> Node_new Document_body
      | Body_element as \<Rightarrow> Element_new (Value n)
      | Body_comment \<Rightarrow> Node_new Body_comment
      | Body_unknown \<Rightarrow> Node_new Body_unknown
      | Body_text c \<Rightarrow> Text_new []
      | Body_declaration v e s \<Rightarrow> Node_new (Body_declaration [] [] []))"

text \<open>The copy of a node, with its attributes but without its children.\<close>

definition clone_cell :: "dnode \<Rightarrow> dnode outcome" where
  "clone_cell n =
     (let t = copy_fields n (clone_new n) in
      case n_body n of
        Body_element as \<Rightarrow> bindE (copy_attrs (visible_attrs as) []) (\<lambda>bs. Inr (t\<lparr>n_body := Body_element bs\<rparr>))
      | b \<Rightarrow> Inr (t\<lparr>n_body := copy_body b (n_body t)\<rparr>))"

text \<open>Elements and documents also copy their children; the other classes are leaves.\<close>

definition has_children :: "dnode \<Rightarrow> bool" where
  "has_children n \<longleftrightarrow> n_type n = TINYXML_ELEMENT \<or> n_type n = TINYXML_DOCUMENT"

fun clone_node :: "nat \<Rightarrow> naddr \<Rightarrow> dom \<Rightarrow> (naddr \<times> dom) outcome"
  and clone_children :: "nat \<Rightarrow> naddr option \<Rightarrow> naddr \<Rightarrow> dom \<Rightarrow> dom outcome" where
  "clone_node 0 a h = Inl Diverges"
| "clone_node (Suc f) a h =
     bindE (node_at a h) (\<lambda>n.
     bindE (clone_cell n) (\<lambda>t.
       let (b, h) = alloc t h in
       if has_children n then bindE (clone_children f (n_firstChild n) b h) (\<lambda>h. Inr (b, h)) else Inr (b, h)))"
| "clone_children f None target h = Inr h"
| "clone_children 0 (Some a) target h = Inl Diverges"
| "clone_children (Suc f) (Some a) target h =
     bindE (clone_node f a h) (\<lambda>(b, h).
     bindE (LinkEndChild b target h) (\<lambda>(_, h).
     bindE (node_at a h) (\<lambda>n. clone_children f (n_next n) target h)))"

definition Clone :: "naddr \<Rightarrow> dom \<Rightarrow> (naddr \<times> dom) outcome" where
  "Clone a h = clone_node (2 * next_addr h) a h"

section \<open>Editing\<close>

text \<open>\<open>addThis\<close> of the operations that insert: a document is refused, every other node is cloned.\<close>

definition with_clone ::
  "naddr \<Rightarrow> naddr \<Rightarrow> (naddr \<Rightarrow> dom \<Rightarrow> (naddr option \<times> dom) outcome) \<Rightarrow> dom \<Rightarrow> (naddr option \<times> dom) outcome" where
  "with_clone addThis this f h =
     bindE (node_at addThis h) (\<lambda>n.
     if n_type n = TINYXML_DOCUMENT then bindE (set_top_only this h) (\<lambda>h. Inr (None, h))
     else bindE (Clone addThis h) (\<lambda>(node, h). f node h))"

definition InsertEndChild :: "naddr \<Rightarrow> naddr \<Rightarrow> dom \<Rightarrow> (naddr option \<times> dom) outcome" where
  "InsertEndChild addThis this = with_clone addThis this (\<lambda>node. LinkEndChild node this)"

definition link_before :: "naddr \<Rightarrow> naddr \<Rightarrow> naddr \<Rightarrow> dom \<Rightarrow> dom outcome" where
  "link_before node beforeThis this h =
     bindE (node_at beforeThis h) (\<lambda>b.
     bindE (upd node (\<lambda>n. n\<lparr>n_parent := Some this, n_next := Some beforeThis, n_prev := n_prev b\<rparr>) h) (\<lambda>h.
     bindE (case n_prev b of
         Some p \<Rightarrow> upd p (\<lambda>n. n\<lparr>n_next := Some node\<rparr>) h
       | None \<Rightarrow> bindE (node_at this h) (\<lambda>t. bindE (xassert (n_firstChild t = Some beforeThis)) (\<lambda>_.
           upd this (\<lambda>t. t\<lparr>n_firstChild := Some node\<rparr>) h))) (\<lambda>h.
     upd beforeThis (\<lambda>n. n\<lparr>n_prev := Some node\<rparr>) h)))"

definition link_after :: "naddr \<Rightarrow> naddr \<Rightarrow> naddr \<Rightarrow> dom \<Rightarrow> dom outcome" where
  "link_after node afterThis this h =
     bindE (node_at afterThis h) (\<lambda>b.
     bindE (upd node (\<lambda>n. n\<lparr>n_parent := Some this, n_prev := Some afterThis, n_next := n_next b\<rparr>) h) (\<lambda>h.
     bindE (case n_next b of
         Some q \<Rightarrow> upd q (\<lambda>n. n\<lparr>n_prev := Some node\<rparr>) h
       | None \<Rightarrow> bindE (node_at this h) (\<lambda>t. bindE (xassert (n_lastChild t = Some afterThis)) (\<lambda>_.
           upd this (\<lambda>t. t\<lparr>n_lastChild := Some node\<rparr>) h))) (\<lambda>h.
     upd afterThis (\<lambda>n. n\<lparr>n_next := Some node\<rparr>) h)))"

text \<open>\<^verbatim>\<open>if (!child || child->parent != this) return 0;\<close>\<close>

definition if_child ::
  "naddr option \<Rightarrow> naddr \<Rightarrow> (naddr \<Rightarrow> (naddr option \<times> dom) outcome) \<Rightarrow> dom \<Rightarrow> (naddr option \<times> dom) outcome" where
  "if_child child this f h =
     (case child of
        None \<Rightarrow> Inr (None, h)
      | Some c \<Rightarrow> bindE (node_at c h) (\<lambda>n. if n_parent n \<noteq> Some this then Inr (None, h) else f c))"

definition InsertBeforeChild :: "naddr option \<Rightarrow> naddr \<Rightarrow> naddr \<Rightarrow> dom \<Rightarrow> (naddr option \<times> dom) outcome" where
  "InsertBeforeChild beforeThis addThis this h =
     if_child beforeThis this (\<lambda>c.
       with_clone addThis this (\<lambda>node h. bindE (link_before node c this h) (\<lambda>h. Inr (Some node, h))) h) h"

definition InsertAfterChild :: "naddr option \<Rightarrow> naddr \<Rightarrow> naddr \<Rightarrow> dom \<Rightarrow> (naddr option \<times> dom) outcome" where
  "InsertAfterChild afterThis addThis this h =
     if_child afterThis this (\<lambda>c.
       with_clone addThis this (\<lambda>node h. bindE (link_after node c this h) (\<lambda>h. Inr (Some node, h))) h) h"

definition splice :: "naddr \<Rightarrow> naddr \<Rightarrow> naddr \<Rightarrow> dom \<Rightarrow> dom outcome" where
  "splice node replaceThis this h =
     bindE (node_at replaceThis h) (\<lambda>r.
     bindE (upd node (\<lambda>n. n\<lparr>n_next := n_next r, n_prev := n_prev r\<rparr>) h) (\<lambda>h.
     bindE (case n_next r of
         Some q \<Rightarrow> upd q (\<lambda>n. n\<lparr>n_prev := Some node\<rparr>) h
       | None \<Rightarrow> upd this (\<lambda>t. t\<lparr>n_lastChild := Some node\<rparr>) h) (\<lambda>h.
     bindE (node_at replaceThis h) (\<lambda>r.
     case n_prev r of
         Some p \<Rightarrow> upd p (\<lambda>n. n\<lparr>n_next := Some node\<rparr>) h
       | None \<Rightarrow> upd this (\<lambda>t. t\<lparr>n_firstChild := Some node\<rparr>) h))))"

definition ReplaceChild :: "naddr option \<Rightarrow> naddr \<Rightarrow> naddr \<Rightarrow> dom \<Rightarrow> (naddr option \<times> dom) outcome" where
  "ReplaceChild replaceThis withThis this h =
     if_child replaceThis this (\<lambda>c.
       with_clone withThis this (\<lambda>node h.
         bindE (splice node c this h) (\<lambda>h.
         bindE (delete_node c h) (\<lambda>h.
         bindE (upd node (\<lambda>n. n\<lparr>n_parent := Some this\<rparr>) h) (\<lambda>h. Inr (Some node, h))))) h) h"

definition unlink :: "naddr \<Rightarrow> naddr \<Rightarrow> dom \<Rightarrow> dom outcome" where
  "unlink removeThis this h =
     bindE (node_at removeThis h) (\<lambda>r.
     bindE (case n_next r of
         Some q \<Rightarrow> upd q (\<lambda>n. n\<lparr>n_prev := n_prev r\<rparr>) h
       | None \<Rightarrow> upd this (\<lambda>t. t\<lparr>n_lastChild := n_prev r\<rparr>) h) (\<lambda>h.
     case n_prev r of
         Some p \<Rightarrow> upd p (\<lambda>n. n\<lparr>n_next := n_next r\<rparr>) h
       | None \<Rightarrow> upd this (\<lambda>t. t\<lparr>n_firstChild := n_next r\<rparr>) h))"

definition RemoveChild :: "naddr option \<Rightarrow> naddr \<Rightarrow> dom \<Rightarrow> (bool \<times> dom) outcome" where
  "RemoveChild removeThis this h =
     (case removeThis of
        None \<Rightarrow> Inr (False, h)
      | Some c \<Rightarrow>
          bindE (node_at c h) (\<lambda>n.
          bindE (xassert (n_parent n = Some this)) (\<lambda>_.
          bindE (unlink c this h) (\<lambda>h.
          bindE (delete_node c h) (\<lambda>h. Inr (True, h))))))"

end
