(* ===== verification/Xml_Tree.thy ===== *)
theory Xml_Tree
  imports Xml_Dom
begin

text \<open>
  The shape that the links of the nodes keep: every node has an ordered list of children, no node is
  in two lists, no node is below itself, and the five pointers of every node say just that. What
  the walks find and what a deletion frees is stated over those lists.
\<close>

section \<open>Lists of children\<close>

fun first_of :: "naddr list \<Rightarrow> naddr option \<Rightarrow> naddr option" where
  "first_of [] d = d"
| "first_of (a # as) d = Some a"

definition last_of :: "naddr option \<Rightarrow> naddr list \<Rightarrow> naddr option" where
  "last_of d as = (if as = [] then d else Some (last as))"

lemma first_of_append [simp]: "first_of (xs @ ys) d = first_of xs (first_of ys d)"
  by (cases xs) simp_all

lemma last_of_simps [simp]:
  "last_of d [] = d" "last_of d (xs @ [a]) = Some a" "last_of d (a # as) = last_of (Some a) as"
  "last_of d (xs @ a # as) = last_of (Some a) as"
  by (simp_all add: last_of_def)

lemma last_of_append: "last_of d (xs @ ys) = last_of (last_of d xs) ys"
  by (simp add: last_of_def)

fun seg :: "(naddr \<rightharpoonup> dnode) \<Rightarrow> naddr \<Rightarrow> naddr option \<Rightarrow> naddr list \<Rightarrow> naddr option \<Rightarrow> bool" where
  "seg c p prv [] nxt \<longleftrightarrow> True"
| "seg c p prv (a # as) nxt \<longleftrightarrow>
     (\<exists>n. c a = Some n \<and> n_parent n = Some p \<and> n_prev n = prv \<and> n_next n = first_of as nxt) \<and> seg c p (Some a) as nxt"

lemma seg_append:
  "seg c p prv (xs @ ys) nxt \<longleftrightarrow> seg c p prv xs (first_of ys nxt) \<and> seg c p (last_of prv xs) ys nxt"
  by (induction xs arbitrary: prv) auto

lemma seg_cong:
  "seg c p prv xs nxt \<Longrightarrow>
   (\<And>a n. a \<in> set xs \<Longrightarrow> c a = Some n \<Longrightarrow>
      \<exists>m. c' a = Some m \<and> n_parent m = n_parent n \<and> n_prev m = n_prev n \<and> n_next m = n_next n) \<Longrightarrow>
   seg c' p prv xs nxt"
  by (induction xs arbitrary: prv) fastforce+

lemma seg_at: "seg c p prv (xs @ a # ys) nxt \<Longrightarrow>
    \<exists>n. c a = Some n \<and> n_parent n = Some p \<and> n_prev n = last_of prv xs \<and> n_next n = first_of ys nxt"
  by (simp add: seg_append)

lemma seg_parent: "seg c p prv xs nxt \<Longrightarrow> a \<in> set xs \<Longrightarrow> \<exists>n. c a = Some n \<and> n_parent n = Some p"
  by (induction xs arbitrary: prv) auto

section \<open>Forests\<close>

definition below :: "(naddr \<Rightarrow> naddr list) \<Rightarrow> (naddr \<times> naddr) set" where
  "below ch = {(a, p). a \<in> set (ch p)}"

definition desc :: "(naddr \<Rightarrow> naddr list) \<Rightarrow> naddr \<Rightarrow> naddr set" where
  "desc ch a = {b. (b, a) \<in> (below ch)\<^sup>*}"

definition forest :: "(naddr \<Rightarrow> naddr list) \<Rightarrow> bool" where
  "forest ch \<longleftrightarrow> acyclic (below ch) \<and> (\<forall>p. distinct (ch p)) \<and>
     (\<forall>a p q. a \<in> set (ch p) \<longrightarrow> a \<in> set (ch q) \<longrightarrow> p = q)"

lemma desc_self [simp]: "a \<in> desc ch a"
  by (simp add: desc_def)

lemma desc_not_empty [simp]: "desc ch a \<noteq> {}"
  using desc_self by blast

lemma desc_unfold: "desc ch a = insert a (\<Union>b \<in> set (ch a). desc ch b)"
proof -
  have "(b, a) \<in> (below ch)\<^sup>* \<longleftrightarrow> b = a \<or> (\<exists>d \<in> set (ch a). (b, d) \<in> (below ch)\<^sup>*)" for b
    by (auto simp: below_def elim: rtranclE intro: rtrancl_into_rtrancl)
  then show ?thesis by (auto simp: desc_def)
qed

lemma desc_trans: "b \<in> desc ch a \<Longrightarrow> d \<in> desc ch b \<Longrightarrow> d \<in> desc ch a"
  unfolding desc_def by (auto intro: rtrancl_trans)

lemma desc_child: "b \<in> desc ch a \<Longrightarrow> d \<in> set (ch b) \<Longrightarrow> d \<in> desc ch a"
  by (rule desc_trans) (auto simp: desc_def below_def)

lemma not_below_self:
  assumes "forest ch" "b \<in> set (ch a)"
  shows "a \<notin> desc ch b"
proof
  assume "a \<in> desc ch b"
  with assms(2) have "(b, b) \<in> (below ch)\<^sup>+" unfolding desc_def below_def
    by (metis (no_types, lifting) case_prodI mem_Collect_eq rtrancl_into_trancl2)
  with assms(1) show False by (simp add: forest_def acyclic_def)
qed

text \<open>Going up is a function, so two ancestors of a node are above each other.\<close>

lemma ancestors_line:
  assumes "forest ch" "(d, a) \<in> (below ch)\<^sup>*" "(d, b) \<in> (below ch)\<^sup>*"
  shows "(a, b) \<in> (below ch)\<^sup>* \<or> (b, a) \<in> (below ch)\<^sup>*"
  using assms(2)
proof (induction rule: rtrancl_induct)
  case base
  with assms(3) show ?case by simp
next
  case (step y z)
  from step.IH show ?case
  proof
    assume "(y, b) \<in> (below ch)\<^sup>*"
    then show ?thesis
    proof (cases rule: converse_rtranclE)
      case base
      with step.hyps(2) show ?thesis by auto
    next
      case (step y')
      with \<open>(y, z) \<in> below ch\<close> assms(1) have "y' = z" by (auto simp: forest_def below_def)
      with step show ?thesis by simp
    qed
  next
    assume "(b, y) \<in> (below ch)\<^sup>*"
    with step.hyps(2) show ?thesis by (auto intro: rtrancl_into_rtrancl)
  qed
qed

lemma siblings_disjoint:
  assumes f: "forest ch" and a: "a \<in> set (ch p)" and b: "b \<in> set (ch p)" and ne: "a \<noteq> b"
  shows "desc ch a \<inter> desc ch b = {}"
proof -
  have up: "(x, y) \<notin> (below ch)\<^sup>*" if x: "x \<in> set (ch p)" and y: "y \<in> set (ch p)" and "x \<noteq> y" for x y
  proof
    assume "(x, y) \<in> (below ch)\<^sup>*"
    then show False
    proof (cases rule: converse_rtranclE)
      case base
      with \<open>x \<noteq> y\<close> show False by simp
    next
      case (step z)
      with x f have "z = p" by (auto simp: forest_def below_def)
      with step have "p \<in> desc ch y" by (simp add: desc_def)
      with not_below_self [OF f y] show False by simp
    qed
  qed
  show ?thesis using ancestors_line [OF f] up [OF a b ne] up [OF b a] ne unfolding desc_def by blast
qed

section \<open>Nodes that hold a forest\<close>

definition node_ok :: "(naddr \<rightharpoonup> dnode) \<Rightarrow> (naddr \<Rightarrow> naddr list) \<Rightarrow> naddr \<Rightarrow> dnode \<Rightarrow> bool" where
  "node_ok c ch a n \<longleftrightarrow>
     n_firstChild n = first_of (ch a) None \<and> n_lastChild n = last_of None (ch a) \<and> seg c a None (ch a) None \<and>
     (n_parent n = None \<longrightarrow> n_prev n = None \<and> n_next n = None) \<and>
     (\<forall>q. n_parent n = Some q \<longrightarrow> a \<in> set (ch q)) \<and>
     (n_type n = TINYXML_DOCUMENT \<longrightarrow> n_parent n = None)"

definition links_ok :: "(naddr \<rightharpoonup> dnode) \<Rightarrow> (naddr \<Rightarrow> naddr list) \<Rightarrow> bool" where
  "links_ok c ch \<longleftrightarrow> forest ch \<and> (\<forall>a. c a = None \<longrightarrow> ch a = []) \<and> (\<forall>a n. c a = Some n \<longrightarrow> node_ok c ch a n)"

definition dom_ok :: "dom \<Rightarrow> (naddr \<Rightarrow> naddr list) \<Rightarrow> bool" where
  "dom_ok h ch \<longleftrightarrow> links_ok (cells h) ch \<and> (\<forall>a. cells h a \<noteq> None \<longrightarrow> a < next_addr h)"

lemma links_child:
  assumes "links_ok c ch" "a \<in> set (ch p)"
  shows "\<exists>n. c a = Some n \<and> n_parent n = Some p" "\<exists>t. c p = Some t"
proof -
  show "\<exists>t. c p = Some t" using assms by (cases "c p") (auto simp: links_ok_def)
  with assms show "\<exists>n. c a = Some n \<and> n_parent n = Some p"
    using seg_parent by (fastforce simp: links_ok_def node_ok_def)
qed

lemma links_desc: "links_ok c ch \<Longrightarrow> c a \<noteq> None \<Longrightarrow> b \<in> desc ch a \<Longrightarrow> c b \<noteq> None"
proof -
  assume l: "links_ok c ch" "c a \<noteq> None" "b \<in> desc ch a"
  from l(3) have "(b, a) \<in> (below ch)\<^sup>*" by (simp add: desc_def)
  then show ?thesis
  proof (cases rule: converse_rtranclE)
    case base
    with l show ?thesis by simp
  next
    case (step z)
    then show ?thesis using links_child(1) [OF l(1), of b z] by (auto simp: below_def)
  qed
qed

lemma dom_finite:
  assumes "dom_ok h ch" "cells h a \<noteq> None"
  shows "finite (desc ch a)" "card (desc ch a) \<le> next_addr h"
proof -
  have "desc ch a \<subseteq> {..<next_addr h}"
  proof
    fix b
    assume "b \<in> desc ch a"
    with assms have "cells h b \<noteq> None" by (intro links_desc) (auto simp: dom_ok_def)
    with assms(1) show "b \<in> {..<next_addr h}" by (simp add: dom_ok_def)
  qed
  then show "finite (desc ch a)" "card (desc ch a) \<le> next_addr h"
    by (auto dest: finite_subset, metis card_lessThan card_mono finite_lessThan)
qed

section \<open>Deleting\<close>

fun nexts :: "(naddr \<rightharpoonup> dnode) \<Rightarrow> naddr list \<Rightarrow> bool" where
  "nexts c [] \<longleftrightarrow> True"
| "nexts c (a # as) \<longleftrightarrow> (\<exists>n. c a = Some n \<and> n_next n = first_of as None) \<and> nexts c as"

definition readable :: "(naddr \<rightharpoonup> dnode) \<Rightarrow> (naddr \<Rightarrow> naddr list) \<Rightarrow> naddr set \<Rightarrow> bool" where
  "readable c ch S \<longleftrightarrow> (\<forall>b \<in> S. \<exists>n. c b = Some n \<and> n_firstChild n = first_of (ch b) None \<and> nexts c (ch b))"

lemma seg_nexts: "seg c p prv as None \<Longrightarrow> nexts c as"
  by (induction as arbitrary: prv) auto

lemma nexts_cong: "nexts c as \<Longrightarrow> (\<And>a. a \<in> set as \<Longrightarrow> c' a = c a) \<Longrightarrow> nexts c' as"
  by (induction as) auto

lemma readable_cong:
  assumes "readable c ch S" "\<And>a. a \<in> S \<Longrightarrow> c' a = c a" "\<And>a b. a \<in> S \<Longrightarrow> b \<in> set (ch a) \<Longrightarrow> b \<in> S"
  shows "readable c' ch S"
  unfolding readable_def
proof
  fix b
  assume b: "b \<in> S"
  with assms(1) obtain n where "c b = Some n" "n_firstChild n = first_of (ch b) None" "nexts c (ch b)"
    by (auto simp: readable_def)
  moreover have "nexts c' (ch b)" using calculation(3) by (rule nexts_cong) (use assms(2,3) b in blast)
  ultimately show "\<exists>n. c' b = Some n \<and> n_firstChild n = first_of (ch b) None \<and> nexts c' (ch b)"
    using assms(2) [OF b] by simp
qed

definition family :: "(naddr \<Rightarrow> naddr list) \<Rightarrow> naddr list \<Rightarrow> naddr set" where
  "family ch as = (\<Union>a \<in> set as. desc ch a)"

definition apart :: "(naddr \<Rightarrow> naddr list) \<Rightarrow> naddr list \<Rightarrow> bool" where
  "apart ch as \<longleftrightarrow> distinct as \<and> (\<forall>a \<in> set as. \<forall>b \<in> set as. a \<noteq> b \<longrightarrow> desc ch a \<inter> desc ch b = {})"

lemma family_simps [simp]: "family ch [] = {}" "family ch (a # as) = desc ch a \<union> family ch as"
  by (simp_all add: family_def)

lemma in_family: "a \<in> set as \<Longrightarrow> a \<in> family ch as"
  unfolding family_def using desc_self by blast

lemma desc_family: "desc ch a = insert a (family ch (ch a))"
  unfolding family_def by (rule desc_unfold)

lemma family_closed: "b \<in> family ch as \<Longrightarrow> d \<in> set (ch b) \<Longrightarrow> d \<in> family ch as"
  by (auto simp: family_def dest: desc_child)

lemma apart_Cons: "apart ch (a # as) \<longleftrightarrow> a \<notin> set as \<and> desc ch a \<inter> family ch as = {} \<and> apart ch as"
  by (fastforce simp: apart_def family_def)

lemma children_apart: "forest ch \<Longrightarrow> apart ch (ch a)"
  using siblings_disjoint unfolding apart_def forest_def by blast

lemma not_in_family: "forest ch \<Longrightarrow> a \<notin> family ch (ch a)"
  unfolding family_def using not_below_self by blast

lemma readable_subset: "readable c ch S \<Longrightarrow> T \<subseteq> S \<Longrightarrow> readable c ch T"
  by (auto simp: readable_def)

lemma delete_chain_ok:
  "forest ch \<Longrightarrow> finite (family ch as) \<Longrightarrow> card (family ch as) \<le> f \<Longrightarrow> apart ch as \<Longrightarrow>
   readable (cells h) ch (family ch as) \<Longrightarrow> nexts (cells h) as \<Longrightarrow>
   delete_chain f (first_of as None) h = Inr (h\<lparr>cells := (cells h) |` (- family ch as)\<rparr>)"
proof (induction f arbitrary: as h)
  case 0
  then have "family ch as = {}" by simp
  then have "as = []" by (cases as) simp_all
  then show ?case by simp
next
  case (Suc f)
  show ?case
  proof (cases as)
    case Nil
    then show ?thesis by simp
  next
    case (Cons a bs)
    let ?K = "family ch (ch a)" and ?B = "family ch bs"
    have D: "family ch as = insert a (?K \<union> ?B)" using Cons by (auto simp: desc_family [of ch a])
    have ap: "desc ch a \<inter> ?B = {}" "apart ch bs" using Suc.prems(4) Cons by (simp_all add: apart_Cons)
    have aK: "a \<notin> ?K" by (rule not_in_family [OF Suc.prems(1)])
    have aB: "a \<notin> ?B" "?K \<inter> ?B = {}" using ap(1) by (auto simp: desc_family [of ch a])
    have fin: "finite ?K" "finite ?B" using Suc.prems(2) unfolding D by simp_all
    have "card (family ch as) = Suc (card ?K + card ?B)"
      unfolding D using aK aB fin by (simp add: card_Un_disjoint)
    with Suc.prems(3) have crd: "card ?K \<le> f" "card ?B \<le> f" by simp_all
    from Suc.prems(6) Cons obtain n where n: "cells h a = Some n" "n_next n = first_of bs None" "nexts (cells h) bs"
      by auto
    have "a \<in> family ch as" using D by simp
    with Suc.prems(5) n(1) have rd: "n_firstChild n = first_of (ch a) None" "nexts (cells h) (ch a)"
      by (auto simp: readable_def)
    have "readable (cells h) ch ?K" using Suc.prems(5) D by (auto elim: readable_subset)
    from Suc.IH [OF Suc.prems(1) fin(1) crd(1) children_apart [OF Suc.prems(1)] this rd(2)]
    have 1: "delete_chain f (n_firstChild n) h = Inr (h\<lparr>cells := (cells h) |` (- ?K)\<rparr>)" using rd(1) by simp
    let ?h = "h\<lparr>cells := ((cells h) |` (- ?K))(a := None)\<rparr>"
    have same: "cells ?h x = cells h x" if "x \<in> ?B" for x
      using that aB by (auto simp: restrict_map_def)
    have "readable (cells ?h) ch ?B"
      by (rule readable_cong [of "cells h"]) (use Suc.prems(5) D same family_closed in \<open>auto elim!: readable_subset\<close>)
    moreover have "nexts (cells ?h) bs"
      by (rule nexts_cong [OF n(3)]) (rule same, rule in_family)
    ultimately have "delete_chain f (first_of bs None) ?h = Inr (?h\<lparr>cells := (cells ?h) |` (- ?B)\<rparr>)"
      using Suc.IH [OF Suc.prems(1) fin(2) crd(2) ap(2)] by blast
    moreover have "(cells ?h) |` (- ?B) = (cells h) |` (- family ch as)"
      unfolding D by (rule ext) (auto simp: restrict_map_def)
    moreover have "cells (h\<lparr>cells := (cells h) |` (- ?K)\<rparr>) a = Some n" using n(1) aK by (simp add: restrict_map_def)
    ultimately show ?thesis using Cons n(1,2) 1 by (simp add: node_at_def free_node_def)
  qed
qed

text \<open>Deleting a node whose descendants can be read frees it and them, and nothing else.\<close>

lemma delete_node_ok:
  assumes "forest ch" "finite (desc ch a)" "card (desc ch a) \<le> next_addr h" "readable (cells h) ch (desc ch a)"
  shows "delete_node a h = Inr (h\<lparr>cells := (cells h) |` (- desc ch a)\<rparr>)"
proof -
  let ?K = "family ch (ch a)"
  have aK: "a \<notin> ?K" by (rule not_in_family [OF assms(1)])
  have fin: "finite ?K" "card ?K \<le> next_addr h"
    using assms(2,3) aK by (simp_all add: desc_family [of ch a])
  from assms(4) obtain n where n: "cells h a = Some n" "n_firstChild n = first_of (ch a) None" "nexts (cells h) (ch a)"
    unfolding readable_def by (meson desc_self)
  have "readable (cells h) ch ?K" using assms(4) by (rule readable_subset) (auto simp: desc_family [of ch a])
  note d = delete_chain_ok [OF assms(1) fin children_apart [OF assms(1)] this n(3)]
  have "((cells h) |` (- ?K))(a := None) = (cells h) |` (- desc ch a)"
    unfolding desc_family [of ch a] by (rule ext) (auto simp: restrict_map_def)
  with d n aK show ?thesis by (simp add: delete_node_def node_at_def free_node_def restrict_map_def)
qed

lemma links_readable: "links_ok c ch \<Longrightarrow> (\<And>b. b \<in> S \<Longrightarrow> c b \<noteq> None) \<Longrightarrow> readable c ch S"
  unfolding readable_def links_ok_def node_ok_def by (meson not_None_eq seg_nexts)

section \<open>Changing one list of children\<close>

text \<open>
  What is left to check when the children of one node change: a node keeps its children, and
  either keeps its own links, or is one of the new children, or stands alone.
\<close>

definition relinked :: "(naddr \<rightharpoonup> dnode) \<Rightarrow> (naddr \<Rightarrow> naddr list) \<Rightarrow> naddr \<Rightarrow> naddr list \<Rightarrow> naddr \<Rightarrow> dnode \<Rightarrow> bool" where
  "relinked c ch p xs a m \<longleftrightarrow>
     (\<exists>n. c a = Some n \<and> n_type m = n_type n \<and>
        (a \<noteq> p \<longrightarrow> n_firstChild m = n_firstChild n \<and> n_lastChild m = n_lastChild n) \<and>
        (if a \<in> set xs then n_type n \<noteq> TINYXML_DOCUMENT
         else if a \<in> set (ch p) then n_parent m = None \<and> n_prev m = None \<and> n_next m = None
         else n_parent m = n_parent n \<and> n_prev m = n_prev n \<and> n_next m = n_next n))"

lemma links_relink:
  assumes l: "links_ok c ch" and f: "forest (ch(p := xs))" and d: "dom c' = dom c"
    and p: "c' p = Some t" "n_firstChild t = first_of xs None" "n_lastChild t = last_of None xs"
    and s: "seg c' p None xs None"
    and k: "\<And>a m. c' a = Some m \<Longrightarrow> relinked c ch p xs a m"
  shows "links_ok c' (ch(p := xs))"
proof -
  let ?ch = "ch(p := xs)"
  have other: "seg c' q None (ch q) None" if q: "q \<noteq> p" "c' q \<noteq> None" for q
  proof -
    from q(2) d obtain n where "c q = Some n" by blast
    with l have "seg c q None (ch q) None" by (simp add: links_ok_def node_ok_def)
    then show ?thesis
    proof (rule seg_cong)
      fix a n
      assume a: "a \<in> set (ch q)" "c a = Some n"
      then obtain m where m: "c' a = Some m" using d by blast
      have "a \<notin> set xs" using f a(1) q(1) unfolding forest_def by (metis fun_upd_apply)
      moreover have "a \<notin> set (ch p)" using l a(1) q(1) unfolding links_ok_def forest_def by blast
      moreover have "n_parent n = Some q" using links_child(1) [OF l a(1)] a(2) by auto
      ultimately show "\<exists>m. c' a = Some m \<and> n_parent m = n_parent n \<and> n_prev m = n_prev n \<and> n_next m = n_next n"
        using k [OF m] a(2) m by (auto simp: relinked_def)
    qed
  qed
  have "node_ok c' ?ch a m" if m: "c' a = Some m" for a m
  proof -
    from k [OF m] obtain n where n: "c a = Some n" "n_type m = n_type n"
        "a \<noteq> p \<longrightarrow> n_firstChild m = n_firstChild n \<and> n_lastChild m = n_lastChild n"
      by (auto simp: relinked_def)
    from l n(1) have o: "node_ok c ch a n" by (simp add: links_ok_def)
    have "n_firstChild m = first_of (?ch a) None \<and> n_lastChild m = last_of None (?ch a) \<and> seg c' a None (?ch a) None"
      using o n(3) p m s other [of a] by (cases "a = p") (simp_all add: node_ok_def)
    moreover have "(n_parent m = None \<longrightarrow> n_prev m = None \<and> n_next m = None) \<and>
        (\<forall>q. n_parent m = Some q \<longrightarrow> a \<in> set (?ch q)) \<and> (n_type m = TINYXML_DOCUMENT \<longrightarrow> n_parent m = None)"
    proof (cases "a \<in> set xs")
      case True
      with s seg_parent [of c' p None xs None a] m have "n_parent m = Some p" by auto
      with True k [OF m] n show ?thesis by (auto simp: relinked_def)
    next
      case False
      with k [OF m] n(1) o n(2) show ?thesis by (auto simp: relinked_def node_ok_def split: if_splits)
    qed
    ultimately show ?thesis by (simp add: node_ok_def)
  qed
  moreover have "?ch a = []" if "c' a = None" for a
  proof -
    have "a \<noteq> p" using that p(1) by auto
    moreover have "c a = None" using that d by (metis domIff)
    ultimately show ?thesis using l by (simp add: links_ok_def)
  qed
  ultimately show ?thesis using f by (simp add: links_ok_def)
qed

text \<open>Taking away a tree that nothing else points to.\<close>

lemma forest_subset:
  assumes "forest ch" "\<And>a. set (ch' a) \<subseteq> set (ch a)" "\<And>a. distinct (ch' a)"
  shows "forest ch'"
  unfolding forest_def
proof (intro conjI allI impI)
  have "below ch' \<subseteq> below ch" using assms(2) by (auto simp: below_def)
  with assms(1) show "acyclic (below ch')" unfolding forest_def by (blast intro: acyclic_subset)
next
  fix a p q
  assume "a \<in> set (ch' p)" "a \<in> set (ch' q)"
  with assms(1,2) show "p = q" unfolding forest_def by blast
qed (rule assms(3))

lemma links_drop:
  assumes l: "links_ok c ch" and r: "c r = Some n" "n_parent n = None"
  shows "links_ok (c |` (- desc ch r)) (\<lambda>a. if a \<in> desc ch r then [] else ch a)"
proof -
  let ?D = "desc ch r" and ?c = "c |` (- desc ch r)" and ?ch = "\<lambda>a. if a \<in> desc ch r then [] else ch a"
  have up: "p \<in> ?D" if "a \<in> ?D" "a \<in> set (ch p)" for a p
  proof -
    from that(1) have "(a, r) \<in> (below ch)\<^sup>*" by (simp add: desc_def)
    then show ?thesis
    proof (cases rule: converse_rtranclE)
      case base
      with links_child(1) [OF l that(2)] r show ?thesis by simp
    next
      case (step z)
      with that(2) l have "z = p" by (auto simp: links_ok_def forest_def below_def)
      with step show ?thesis by (simp add: desc_def)
    qed
  qed
  have "forest ?ch" by (rule forest_subset [of ch]) (use l in \<open>auto simp: links_ok_def forest_def\<close>)
  moreover have "node_ok ?c ?ch a m" if "?c a = Some m" for a m
  proof -
    from that have a: "a \<notin> ?D" "c a = Some m" by (auto simp: restrict_map_def split: if_splits)
    with l have o: "node_ok c ch a m" by (simp add: links_ok_def)
    moreover have "seg ?c a None (ch a) None"
      by (rule seg_cong [of c]) (use o a(1) up in \<open>auto simp: node_ok_def restrict_map_def\<close>)
    moreover have "a \<in> set (?ch q)" if "n_parent m = Some q" for q
    proof -
      have "a \<in> set (ch q)" using o that by (simp add: node_ok_def)
      with a(1) desc_child [of q ch r a] show ?thesis by auto
    qed
    ultimately show ?thesis using a(1) by (simp add: node_ok_def)
  qed
  moreover have "?ch a = []" if "?c a = None" for a
    using that l by (auto simp: restrict_map_def links_ok_def split: if_splits)
  ultimately show ?thesis by (simp add: links_ok_def)
qed

end
