(* ===== verification/Xml_Edit.thy ===== *)
theory Xml_Edit
  imports Xml_Tree
begin

text \<open>
  What linking and unlinking do to the lists of children: each operation of \<^verbatim>\<open>TiXmlNode\<close> that changes
  pointers puts a node into one list, takes one out, or exchanges two, and leaves the shape of
  theory Xml_Tree intact.
\<close>

section \<open>Reading and writing\<close>

lemma node_at_simp: "cells h a = Some n \<Longrightarrow> node_at a h = Inr n"
  by (simp add: node_at_def)

lemma upd_simp: "cells h a = Some n \<Longrightarrow> upd a f h = Inr (h\<lparr>cells := (cells h)(a \<mapsto> f n)\<rparr>)"
  by (simp add: upd_def node_at_def)

lemma node_at_eq_Inr [outcome_simps]: "node_at a h = Inr n \<longleftrightarrow> cells h a = Some n"
  by (auto simp: node_at_def split: option.splits)

section \<open>Exchanging a child\<close>

text \<open>In the list \<open>ys @ gone @ zs\<close> of the children of \<open>p\<close>, \<open>mid\<close> takes the place of \<open>gone\<close>.\<close>

definition relink_cell ::
  "naddr \<Rightarrow> naddr list \<Rightarrow> naddr list \<Rightarrow> naddr list \<Rightarrow> naddr list \<Rightarrow> naddr \<Rightarrow> dnode \<Rightarrow> dnode" where
  "relink_cell p ys gone mid zs a n =
     (if mid = [a] then n\<lparr>n_parent := Some p, n_prev := last_of None ys, n_next := first_of zs None\<rparr>
      else if gone = [a] then n\<lparr>n_parent := None, n_prev := None, n_next := None\<rparr>
      else if a = p then n\<lparr>n_firstChild := first_of (ys @ mid @ zs) None, n_lastChild := last_of None (ys @ mid @ zs)\<rparr>
      else if last_of None ys = Some a then n\<lparr>n_next := first_of (mid @ zs) None\<rparr>
      else if first_of zs None = Some a then n\<lparr>n_prev := last_of None (ys @ mid)\<rparr>
      else n)"

definition relink ::
  "naddr \<Rightarrow> naddr list \<Rightarrow> naddr list \<Rightarrow> naddr list \<Rightarrow> naddr list \<Rightarrow> (naddr \<rightharpoonup> dnode) \<Rightarrow> naddr \<rightharpoonup> dnode" where
  "relink p ys gone mid zs c = (\<lambda>a. map_option (relink_cell p ys gone mid zs a) (c a))"

lemma seg_last:
  "seg c p prv ys nxt \<Longrightarrow> distinct ys \<Longrightarrow>
   (\<And>a n. a \<in> set ys \<Longrightarrow> c a = Some n \<Longrightarrow>
      \<exists>m. c' a = Some m \<and> n_parent m = n_parent n \<and> n_prev m = n_prev n \<and>
        n_next m = (if last_of None ys = Some a then nxt' else n_next n)) \<Longrightarrow>
   seg c' p prv ys nxt'"
proof (induction ys arbitrary: prv)
  case Nil
  then show ?case by simp
next
  case (Cons a ys)
  from Cons.prems(1) obtain n where n: "c a = Some n" "n_parent n = Some p" "n_prev n = prv" "n_next n = first_of ys nxt"
      "seg c p (Some a) ys nxt" by auto
  have "seg c' p (Some a) ys nxt'"
  proof (rule Cons.IH [OF n(5)])
    show "distinct ys" using Cons.prems(2) by simp
    fix b m
    assume b: "b \<in> set ys" "c b = Some m"
    then have "last_of None (a # ys) = last_of None ys" by (auto simp: last_of_def)
    with Cons.prems(3) [of b m] b
    show "\<exists>m'. c' b = Some m' \<and> n_parent m' = n_parent m \<and> n_prev m' = n_prev m \<and>
        n_next m' = (if last_of None ys = Some b then nxt' else n_next m)" by simp
  qed
  moreover have "last_of None (a # ys) = Some a \<longleftrightarrow> ys = []"
    using Cons.prems(2) by (auto simp: last_of_def)
  then have "(if last_of None (a # ys) = Some a then nxt' else n_next n) = first_of ys nxt'"
    using n(4) by (cases ys) auto
  moreover have "a \<in> set (a # ys)" by simp
  from Cons.prems(3) [OF this n(1)] obtain m where "c' a = Some m" "n_parent m = n_parent n" "n_prev m = n_prev n"
      "n_next m = (if last_of None (a # ys) = Some a then nxt' else n_next n)" by blast
  ultimately show ?case using n(2,3) by simp
qed

lemma seg_first:
  assumes "seg c p prv zs nxt" "distinct zs"
    "\<And>a n. a \<in> set zs \<Longrightarrow> c a = Some n \<Longrightarrow>
      \<exists>m. c' a = Some m \<and> n_parent m = n_parent n \<and> n_next m = n_next n \<and>
        n_prev m = (if first_of zs None = Some a then prv' else n_prev n)"
  shows "seg c' p prv' zs nxt"
proof (cases zs)
  case (Cons a bs)
  with assms(1) have "seg c p (Some a) bs nxt" by simp
  then have "seg c' p (Some a) bs nxt"
  proof (rule seg_cong)
    fix b n
    assume b: "b \<in> set bs" "c b = Some n"
    with assms(2) Cons have "first_of zs None \<noteq> Some b" "b \<in> set zs" by auto
    with assms(3) [of b n] b
    show "\<exists>m. c' b = Some m \<and> n_parent m = n_parent n \<and> n_prev m = n_prev n \<and> n_next m = n_next n" by auto
  qed
  moreover from assms(1) Cons obtain n where "c a = Some n" "n_parent n = Some p" "n_next n = first_of bs nxt" by auto
  moreover have "a \<in> set zs" using Cons by simp
  ultimately show ?thesis using assms(3) [of a n] Cons by auto
qed simp

lemma relink_types [simp]: "n_type (relink_cell p ys gone mid zs a n) = n_type n"
  by (simp add: relink_cell_def n_type_def)

lemma relink_ok:
  assumes l: "links_ok c ch" and xs: "ch p = ys @ gone @ zs" and f: "forest (ch(p := ys @ mid @ zs))"
    and len: "length gone \<le> 1" "length mid \<le> 1" "set gone \<inter> set mid = {}"
    and p: "c p = Some t"
    and m: "\<And>a. a \<in> set mid \<Longrightarrow> \<exists>n. c a = Some n \<and> n_parent n = None \<and> n_type n \<noteq> TINYXML_DOCUMENT"
  shows "links_ok (relink p ys gone mid zs c) (ch(p := ys @ mid @ zs))"
proof -
  let ?c = "relink p ys gone mid zs c" and ?xs = "ys @ mid @ zs"
  let ?r = "relink_cell p ys gone mid zs"
  have dst: "distinct ?xs" using f unfolding forest_def by (metis fun_upd_same)
  have dst0: "distinct (ys @ gone @ zs)" using l xs unfolding links_ok_def forest_def by metis
  have pxs: "p \<notin> set ?xs" using not_below_self [OF f, of p p] by auto
  have pys: "p \<notin> set (ch p)" using not_below_self [of ch p p] l by (auto simp: links_ok_def)
  have "node_ok c ch p t" using l p by (simp add: links_ok_def)
  then have old: "seg c p None (ys @ gone @ zs) None" by (simp only: node_ok_def xs)
  have c: "?c a = Some (?r a n)" if "c a = Some n" for a n using that by (simp add: relink_def)
  have one: "mid = [a]" if "a \<in> set mid" for a using that len(2) by (cases mid) auto
  have one0: "gone = [a]" if "a \<in> set gone" for a using that len(1) by (cases gone) auto
  have lst: "last_of None ys = Some a \<Longrightarrow> a \<in> set ys" for a by (auto simp: last_of_def split: if_splits)
  have fst: "first_of zs None = Some a \<Longrightarrow> a \<in> set zs" for a by (cases zs) auto
  have ys: "?r a n = n\<lparr>n_next := if last_of None ys = Some a then first_of (mid @ zs) None else n_next n\<rparr>"
    if a: "a \<in> set ys" for a n
  proof -
    have "a \<notin> set zs" using dst a by auto
    then have "first_of zs None \<noteq> Some a" using fst by blast
    moreover have "mid \<noteq> [a]" "gone \<noteq> [a]" "a \<noteq> p" using a dst dst0 pxs by auto
    ultimately show ?thesis by (simp add: relink_cell_def)
  qed
  have zs: "?r a n = n\<lparr>n_prev := if first_of zs None = Some a then last_of None (ys @ mid) else n_prev n\<rparr>"
    if a: "a \<in> set zs" for a n
  proof -
    have "a \<notin> set ys" using dst a by auto
    then have "last_of None ys \<noteq> Some a" using lst by blast
    moreover have "mid \<noteq> [a]" "gone \<noteq> [a]" "a \<noteq> p" using a dst dst0 pxs by auto
    ultimately show ?thesis by (simp add: relink_cell_def)
  qed
  have new: "seg ?c p None ?xs None"
    unfolding seg_append
  proof (intro conjI)
    show "seg ?c p None ys (first_of (mid @ zs) None)"
      by (rule seg_last [of c p None ys "first_of (gone @ zs) None"])
        (use old dst c ys in \<open>auto simp: seg_append\<close>)
    show "seg ?c p (last_of None ys) mid (first_of zs None)"
    proof (cases mid)
      case (Cons a as)
      then have mid: "mid = [a]" using len(2) by simp
      with m [of a] obtain n where "c a = Some n" by auto
      with mid show ?thesis by (simp add: relink_def relink_cell_def)
    qed simp
    have "seg ?c p (last_of None (ys @ mid)) zs None"
      by (rule seg_first [of c p "last_of None (ys @ gone)"])
        (use old dst c zs in \<open>auto simp: seg_append last_of_def split: if_splits\<close>)
    then show "seg ?c p (last_of (last_of None ys) mid) zs None"
      by (simp only: last_of_append)
  qed
  show ?thesis
  proof (rule links_relink [OF l f _ _ _ _ new])
    show "dom ?c = dom c" by (auto simp: relink_def dom_def)
    have "mid \<noteq> [p]" "gone \<noteq> [p]" using pxs pys xs by auto
    then show "?c p = Some (t\<lparr>n_firstChild := first_of ?xs None, n_lastChild := last_of None ?xs\<rparr>)"
      using c [OF p] by (simp add: relink_cell_def)
    fix a n'
    assume "?c a = Some n'"
    then obtain n where n: "c a = Some n" "n' = ?r a n" by (auto simp: relink_def)
    have doc: "n_type n \<noteq> TINYXML_DOCUMENT" if "a \<in> set ?xs"
    proof (cases "a \<in> set mid")
      case True
      with m [of a] n(1) show ?thesis by auto
    next
      case False
      with that xs have "a \<in> set (ch p)" by auto
      with links_child(1) [OF l] n(1) obtain q where "n_parent n = Some q" by fastforce
      with l n(1) show ?thesis by (auto simp: links_ok_def node_ok_def)
    qed
    show "relinked c ch p ?xs a n'"
    proof (cases "a \<in> set ?xs")
      case True
      moreover have "n_firstChild n' = n_firstChild n \<and> n_lastChild n' = n_lastChild n"
        using True pxs n(2) by (auto simp: relink_cell_def)
      ultimately show ?thesis using doc n by (simp add: relinked_def)
    next
      case False
      then have no: "mid \<noteq> [a]" "last_of None ys \<noteq> Some a" "first_of zs None \<noteq> Some a"
        using lst fst by auto
      show ?thesis
      proof (cases "a \<in> set (ch p)")
        case True
        with False xs one0 have "gone = [a]" by auto
        with no n True False pys show ?thesis by (auto simp: relinked_def relink_cell_def n_type_def)
      next
        case nin: False
        with xs have "gone \<noteq> [a]" by auto
        with no n nin False show ?thesis by (simp add: relinked_def relink_cell_def n_type_def)
      qed
    qed
  qed simp_all
qed

section \<open>Forests that change\<close>

lemma forest_insert:
  assumes f: "forest ch" and r: "\<And>q. node \<notin> set (ch q)" and p: "p \<notin> desc ch node"
    and xs: "set xs = insert node (set (ch p))" "distinct xs"
  shows "forest (ch(p := xs))"
  unfolding forest_def
proof (intro conjI allI impI)
  have "below (ch(p := xs)) = insert (node, p) (below ch)"
    using xs(1) by (auto simp: below_def split: if_splits)
  moreover have "(p, node) \<notin> (below ch)\<^sup>*" using p by (simp add: desc_def)
  ultimately show "acyclic (below (ch(p := xs)))" using f by (simp add: forest_def acyclic_insert)
  show "distinct ((ch(p := xs)) q)" for q using f xs(2) by (simp add: forest_def)
  fix a q q'
  assume "a \<in> set ((ch(p := xs)) q)" "a \<in> set ((ch(p := xs)) q')"
  with f r xs(1) show "q = q'" unfolding forest_def by (auto split: if_splits)
qed

lemma forest_less: "forest ch \<Longrightarrow> set xs \<subseteq> set (ch p) \<Longrightarrow> distinct xs \<Longrightarrow> forest (ch(p := xs))"
  by (rule forest_subset [of ch]) (auto simp: forest_def)

text \<open>A root is in no list; what is below it stays below it.\<close>

lemma root_free: "links_ok c ch \<Longrightarrow> c a = Some n \<Longrightarrow> n_parent n = None \<Longrightarrow> a \<notin> set (ch q)"
  using links_child(1) by fastforce

lemma child_type: "links_ok c ch \<Longrightarrow> c a = Some n \<Longrightarrow> n_parent n = Some p \<Longrightarrow> n_type n \<noteq> TINYXML_DOCUMENT"
  by (auto simp: links_ok_def node_ok_def)

section \<open>The document of a node\<close>

lemma walk_up:
  "links_ok (cells h) ch \<Longrightarrow> cells h a \<noteq> None \<Longrightarrow> finite {p. (a, p) \<in> (below ch)\<^sup>*} \<Longrightarrow>
   card {p. (a, p) \<in> (below ch)\<^sup>*} \<le> f \<Longrightarrow>
   \<exists>d. walk f n_parent ToDocument (Some a) h = Inr d \<and>
     (\<forall>r. d = Some r \<longrightarrow> (a, r) \<in> (below ch)\<^sup>* \<and> (\<exists>n. cells h r = Some n \<and> n_type n = TINYXML_DOCUMENT))"
proof (induction f arbitrary: a)
  case 0
  then have "{p. (a, p) \<in> (below ch)\<^sup>*} = {}" by simp
  then show ?case by blast
next
  case (Suc f)
  from Suc.prems(2) obtain n where n: "cells h a = Some n" by blast
  with Suc.prems(1) have o: "node_ok (cells h) ch a n" by (simp add: links_ok_def)
  show ?case
  proof (cases "n_parent n")
    case None
    with n show ?thesis by (auto simp: node_at_simp ToDocument_def)
  next
    case (Some p)
    with o have p: "a \<in> set (ch p)" by (simp add: node_ok_def)
    have up: "{q. (a, q) \<in> (below ch)\<^sup>*} = insert a {q. (p, q) \<in> (below ch)\<^sup>*}"
    proof -
      have "q = a \<or> (p, q) \<in> (below ch)\<^sup>*" if "(a, q) \<in> (below ch)\<^sup>*" for q
        using that
      proof (cases rule: converse_rtranclE)
        case (step z)
        with p Suc.prems(1) have "z = p" by (auto simp: links_ok_def forest_def below_def)
        with step show ?thesis by simp
      qed simp
      then show ?thesis using p by (auto simp: below_def intro: converse_rtrancl_into_rtrancl)
    qed
    have "(p, a) \<notin> (below ch)\<^sup>*"
      using not_below_self [of ch a p] Suc.prems(1) p by (simp add: links_ok_def desc_def)
    then have "a \<notin> {q. (p, q) \<in> (below ch)\<^sup>*}" by simp
    with Suc.prems(3,4) up have "finite {q. (p, q) \<in> (below ch)\<^sup>*}" "card {q. (p, q) \<in> (below ch)\<^sup>*} \<le> f"
      by simp_all
    moreover have "cells h p \<noteq> None" using links_child(2) [OF Suc.prems(1) p] by auto
    ultimately obtain d where d: "walk f n_parent ToDocument (Some p) h = Inr d"
        "\<forall>r. d = Some r \<longrightarrow> (p, r) \<in> (below ch)\<^sup>* \<and> (\<exists>n. cells h r = Some n \<and> n_type n = TINYXML_DOCUMENT)"
      using Suc.IH Suc.prems(1) by blast
    have "\<not> ToDocument n" using child_type [OF Suc.prems(1) n Some] by (simp add: ToDocument_def)
    with d n Some p show ?thesis
      by (auto simp: node_at_simp below_def intro!: exI [of _ d] intro: converse_rtrancl_into_rtrancl)
  qed
qed

lemma GetDocument_ok:
  assumes "dom_ok h ch" "cells h a \<noteq> None"
  shows "\<exists>d. GetDocument a h = Inr d \<and>
    (\<forall>r. d = Some r \<longrightarrow> (a, r) \<in> (below ch)\<^sup>* \<and> (\<exists>n. cells h r = Some n \<and> n_type n = TINYXML_DOCUMENT))"
proof -
  have l: "links_ok (cells h) ch" using assms(1) by (simp add: dom_ok_def)
  have "{p. (a, p) \<in> (below ch)\<^sup>*} \<subseteq> {..<next_addr h}"
  proof
    fix p
    assume "p \<in> {p. (a, p) \<in> (below ch)\<^sup>*}"
    then have "(a, p) \<in> (below ch)\<^sup>*" by simp
    then have "cells h p \<noteq> None"
    proof (cases rule: rtranclE)
      case base
      with assms(2) show ?thesis by simp
    next
      case (step y)
      then show ?thesis using links_child(2) [OF l, of y p] by (auto simp: below_def)
    qed
    with assms(1) show "p \<in> {..<next_addr h}" by (simp add: dom_ok_def)
  qed
  then have "finite {p. (a, p) \<in> (below ch)\<^sup>*}" "card {p. (a, p) \<in> (below ch)\<^sup>*} \<le> next_addr h"
    by (auto dest: finite_subset, metis card_lessThan card_mono finite_lessThan)
  from walk_up [OF l assms(2) this] show ?thesis by (simp add: GetDocument_def)
qed

lemma GetDocument_root:
  assumes "dom_ok h ch" "cells h a = Some n" "n_parent n = None"
  shows "GetDocument a h = Inr (if n_type n = TINYXML_DOCUMENT then Some a else None)"
proof -
  have "0 < next_addr h" using assms by (cases "next_addr h") (auto simp: dom_ok_def)
  then obtain f where "next_addr h = Suc f" by (cases "next_addr h") auto
  with assms show ?thesis by (simp add: GetDocument_def node_at_simp ToDocument_def)
qed

section \<open>Appending\<close>

lemma relink_self [simp]: "c p = None \<Longrightarrow> relink p ys gone mid zs c p = None"
  by (simp add: relink_def)

lemma dom_relink [simp]: "relink p ys gone mid zs c a = None \<longleftrightarrow> c a = None"
  by (simp add: relink_def)

lemma same_cells: "(\<And>a. c a = c' a) \<Longrightarrow> h\<lparr>cells := c\<rparr> = h\<lparr>cells := c'\<rparr>"
  by presburger

lemma link_end_relink:
  assumes "links_ok (cells h) ch" "cells h node = Some n" "cells h this = Some t" "n_parent n = None" "node \<noteq> this"
  shows "link_end node this h = Inr (h\<lparr>cells := relink this (ch this) [] [node] [] (cells h)\<rparr>)"
proof -
  let ?xs = "ch this"
  have o: "n_firstChild t = first_of ?xs None" "n_lastChild t = last_of None ?xs"
    using assms(1,3) by (auto simp: links_ok_def node_ok_def)
  have no: "node \<notin> set ?xs" "this \<notin> set ?xs"
    using root_free [OF assms(1,2,4)] not_below_self [of ch this this] assms(1) by (auto simp: links_ok_def)
  show ?thesis
  proof (cases "?xs = []")
    case True
    with o have "n_lastChild t = None" by simp
    with True assms(2,3,5) o show ?thesis
      by (simp add: link_end_def upd_simp node_at_simp)
        (rule same_cells, auto simp: relink_def relink_cell_def map_option_case split: option.splits)
  next
    case False
    then obtain l where l: "last_of None ?xs = Some l" "l = last ?xs" by (simp add: last_of_def)
    with False have mem: "l \<in> set ?xs" by simp
    with links_child(1) [OF assms(1)] obtain m where m: "cells h l = Some m" by blast
    have ne: "l \<noteq> node" "l \<noteq> this" using mem no by auto
    from False obtain a as where "?xs = a # as" by (cases ?xs) auto
    then have "first_of (?xs @ [node]) None = n_firstChild t" using o by simp
    with l m ne assms(2,3,5) o show ?thesis
      by (simp add: link_end_def upd_simp node_at_simp)
        (rule same_cells, auto simp: relink_def relink_cell_def map_option_case split: option.splits)
  qed
qed

definition payload :: "dnode \<Rightarrow> nat \<times> location \<times> node_body \<times> byte list" where
  "payload n = (n_userData n, n_location n, n_body n, n_value n)"

definition contents :: "dom \<Rightarrow> naddr \<rightharpoonup> nat \<times> location \<times> node_body \<times> byte list" where
  "contents h = (\<lambda>a. map_option payload (cells h a))"

lemma payload_relink [simp]: "payload (relink_cell p ys gone mid zs a n) = payload n"
  by (simp add: payload_def relink_cell_def)

lemma contents_relink [simp]: "contents (h\<lparr>cells := relink p ys gone mid zs (cells h)\<rparr>) = contents h"
  by (simp add: contents_def relink_def fun_eq_iff option.map_comp comp_def)

lemma dom_ok_relink:
  assumes "dom_ok h ch" "ch p = ys @ gone @ zs" "forest (ch(p := ys @ mid @ zs))"
    "length gone \<le> 1" "length mid \<le> 1" "set gone \<inter> set mid = {}" "cells h p = Some t"
    "\<And>a. a \<in> set mid \<Longrightarrow> \<exists>n. cells h a = Some n \<and> n_parent n = None \<and> n_type n \<noteq> TINYXML_DOCUMENT"
  shows "dom_ok (h\<lparr>cells := relink p ys gone mid zs (cells h)\<rparr>) (ch(p := ys @ mid @ zs))"
  using assms relink_ok [of "cells h" ch p ys gone zs mid t] by (simp add: dom_ok_def)

lemma LinkEndChild_relink:
  assumes d: "dom_ok h ch" and n: "cells h node = Some n" "n_parent n = None" "n_type n \<noteq> TINYXML_DOCUMENT"
    and t: "cells h this = Some t" and b: "this \<notin> desc ch node"
  shows "LinkEndChild node this h = Inr (Some node, h\<lparr>cells := relink this (ch this) [] [node] [] (cells h)\<rparr>)"
    "dom_ok (h\<lparr>cells := relink this (ch this) [] [node] [] (cells h)\<rparr>) (ch(this := ch this @ [node]))"
proof -
  have l: "links_ok (cells h) ch" using d by (simp add: dom_ok_def)
  have ne: "node \<noteq> this" using b by auto
  show "LinkEndChild node this h = Inr (Some node, h\<lparr>cells := relink this (ch this) [] [node] [] (cells h)\<rparr>)"
    using n GetDocument_root [OF d n(1,2)] link_end_relink [OF l n(1) t n(2) ne]
    by (simp add: LinkEndChild_def node_at_simp document_fits_def)
  have f: "forest ch" using l by (simp add: links_ok_def)
  have "forest (ch(this := ch this @ [] @ [node]))"
    by (rule forest_insert [OF f root_free [OF l n(1,2)] b])
      (use f root_free [OF l n(1,2)] in \<open>auto simp: forest_def\<close>)
  then show "dom_ok (h\<lparr>cells := relink this (ch this) [] [node] [] (cells h)\<rparr>) (ch(this := ch this @ [node]))"
    using dom_ok_relink [OF d, of this "ch this" "[]" "[]" "[node]" t] n t by simp
qed

end
