(* ===== verification/Xml_Clone.thy ===== *)
theory Xml_Clone
  imports Xml_Edit
begin

text \<open>
  The tree a node stands for, and \<^verbatim>\<open>Clone\<close>: it makes the same tree out of new nodes and leaves every
  old node as it was.
\<close>

section \<open>Trees of contents\<close>

type_synonym payload = "nat \<times> location \<times> node_body \<times> byte list"

datatype ptree = PNode payload "ptree list"

text \<open>What the links say, and the walk that reads it.\<close>

inductive depicts :: "dom \<Rightarrow> (naddr \<Rightarrow> naddr list) \<Rightarrow> naddr \<Rightarrow> ptree \<Rightarrow> bool" for h ch where
  "contents h a = Some p \<Longrightarrow> list_all2 (depicts h ch) (ch a) ts \<Longrightarrow> depicts h ch a (PNode p ts)"
  monos list_all2_mono

inductive_cases depicts_PNode [elim]: "depicts h ch a (PNode p ts)"
inductive_cases depicts_tree: "depicts h ch a t"

fun read_chain :: "nat \<Rightarrow> naddr option \<Rightarrow> dom \<Rightarrow> ptree list outcome" where
  "read_chain f None h = Inr []"
| "read_chain 0 (Some a) h = Inl Diverges"
| "read_chain (Suc f) (Some a) h =
     bindE (node_at a h) (\<lambda>n.
     bindE (read_chain f (n_firstChild n) h) (\<lambda>ks.
     bindE (read_chain f (n_next n) h) (\<lambda>ts. Inr (PNode (payload n) ks # ts))))"

definition read_tree :: "naddr \<Rightarrow> dom \<Rightarrow> ptree outcome" where
  "read_tree a h =
     bindE (node_at a h) (\<lambda>n.
     bindE (read_chain (next_addr h) (n_firstChild n) h) (\<lambda>ks. Inr (PNode (payload n) ks)))"

lemma desc_cong:
  assumes "\<And>x. x \<in> desc ch a \<Longrightarrow> ch' x = ch x"
  shows "desc ch' a = desc ch a"
proof
  show "desc ch' a \<subseteq> desc ch a"
  proof
    fix b
    assume "b \<in> desc ch' a"
    then have "(b, a) \<in> (below ch')\<^sup>*" by (simp add: desc_def)
    then show "b \<in> desc ch a"
    proof (induction rule: converse_rtrancl_induct)
      case (step y z)
      with assms have "y \<in> set (ch z)" by (auto simp: below_def)
      with step.IH show ?case by (rule desc_child)
    qed simp
  qed
  show "desc ch a \<subseteq> desc ch' a"
  proof
    fix b
    assume "b \<in> desc ch a"
    then have "(b, a) \<in> (below ch)\<^sup>*" by (simp add: desc_def)
    then show "b \<in> desc ch' a"
    proof (induction rule: converse_rtrancl_induct)
      case (step y z)
      then have "z \<in> desc ch a" by (simp add: desc_def)
      with assms step have "y \<in> set (ch' z)" by (auto simp: below_def)
      with step.IH show ?case by (rule desc_child)
    qed simp
  qed
qed

lemma family_cong: "(\<And>x. x \<in> family ch as \<Longrightarrow> ch' x = ch x) \<Longrightarrow> family ch' as = family ch as"
  unfolding family_def by (intro SUP_cong refl desc_cong) auto

lemma apart_cong:
  assumes "apart ch as" "\<And>x. x \<in> family ch as \<Longrightarrow> ch' x = ch x"
  shows "apart ch' as"
proof -
  have "desc ch' a = desc ch a" if "a \<in> set as" for a
    by (rule desc_cong) (use assms(2) that in \<open>auto simp: family_def\<close>)
  with assms(1) show ?thesis by (simp add: apart_def)
qed

lemma depicts_cong:
  "depicts h ch a t \<Longrightarrow> (\<And>x. x \<in> desc ch a \<Longrightarrow> contents h' x = contents h x \<and> ch' x = ch x) \<Longrightarrow> depicts h' ch' a t"
proof (induction rule: depicts.induct)
  case (1 a p ts)
  have "list_all2 (depicts h' ch') (ch a) ts"
    by (rule list.rel_mono_strong [OF 1(2)]) (use 1(3) desc_trans [of _ ch a] in \<open>auto simp: desc_unfold [of ch a]\<close>)
  with 1(1) 1(3) [of a] show ?case by (auto intro!: depicts.intros)
qed

lemma depicts_list_cong:
  assumes "list_all2 (depicts h ch) as ts" "\<And>x. x \<in> family ch as \<Longrightarrow> contents h' x = contents h x \<and> ch' x = ch x"
  shows "list_all2 (depicts h' ch') as ts"
  by (rule list.rel_mono_strong [OF assms(1)], erule depicts_cong) (use assms(2) in \<open>auto simp: family_def\<close>)


text \<open>Every node stands for a tree, and the walk reads it.\<close>

lemma depicts_exists:
  assumes l: "links_ok (cells h) ch" and a: "cells h a \<noteq> None" "finite (desc ch a)"
  shows "\<exists>t. depicts h ch a t"
  using a
proof (induction "card (desc ch a)" arbitrary: a rule: less_induct)
  case less
  have f: "forest ch" using l by (simp add: links_ok_def)
  have "\<exists>t. depicts h ch b t" if b: "b \<in> set (ch a)" for b
  proof (rule less.hyps)
    have "desc ch b \<subset> desc ch a"
      using b not_below_self [OF f b] by (auto simp: desc_unfold [of ch a])
    then show "card (desc ch b) < card (desc ch a)" using less.prems(2) by (rule psubset_card_mono [rotated])
    show "cells h b \<noteq> None" using links_child(1) [OF l b] by auto
    show "finite (desc ch b)" using less.prems(2) b by (auto simp: desc_unfold [of ch a] intro: finite_subset)
  qed
  then obtain T where "\<And>b. b \<in> set (ch a) \<Longrightarrow> depicts h ch b (T b)" by metis
  then have "list_all2 (depicts h ch) (ch a) (map T (ch a))" by (auto simp: list_all2_conv_all_nth)
  moreover obtain n where "cells h a = Some n" using less.prems(1) by blast
  ultimately show ?case by (auto simp: contents_def intro!: exI depicts.intros)
qed

lemma read_chain_ok:
  "forest ch \<Longrightarrow> finite (family ch as) \<Longrightarrow> card (family ch as) \<le> f \<Longrightarrow> apart ch as \<Longrightarrow>
   readable (cells h) ch (family ch as) \<Longrightarrow> nexts (cells h) as \<Longrightarrow> list_all2 (depicts h ch) as ts \<Longrightarrow>
   read_chain f (first_of as None) h = Inr ts"
proof (induction f arbitrary: as ts)
  case 0
  then have "family ch as = {}" by simp
  then have "as = []" by (cases as) simp_all
  with 0 show ?case by simp
next
  case (Suc f)
  show ?case
  proof (cases as)
    case Nil
    with Suc.prems(7) show ?thesis by simp
  next
    case (Cons a bs)
    let ?K = "family ch (ch a)" and ?B = "family ch bs"
    have D: "family ch as = insert a (?K \<union> ?B)" using Cons by (auto simp: desc_family [of ch a])
    have ap: "desc ch a \<inter> ?B = {}" "apart ch bs" using Suc.prems(4) Cons by (simp_all add: apart_Cons)
    have aK: "a \<notin> ?K" by (rule not_in_family [OF Suc.prems(1)])
    have aB: "a \<notin> ?B" "?K \<inter> ?B = {}" using ap(1) by (auto simp: desc_family [of ch a])
    have fin: "finite ?K" "finite ?B" using Suc.prems(2) unfolding D by simp_all
    have "card (family ch as) = Suc (card ?K + card ?B)"
      unfolding D using aK aB fin by (simp add: card_Un_disjoint)
    with Suc.prems(3) have crd: "card ?K \<le> f" "card ?B \<le> f" by simp_all
    from Suc.prems(6) Cons obtain n where n: "cells h a = Some n" "n_next n = first_of bs None" "nexts (cells h) bs"
      by auto
    have "a \<in> family ch as" using D by simp
    with Suc.prems(5) n(1) have rd: "n_firstChild n = first_of (ch a) None" "nexts (cells h) (ch a)"
      by (auto simp: readable_def)
    from Suc.prems(7) Cons obtain t us where t: "ts = t # us" "depicts h ch a t" "list_all2 (depicts h ch) bs us"
      by (auto simp: list_all2_Cons1)
    from t(2) n(1) obtain ks where k: "t = PNode (payload n) ks" "list_all2 (depicts h ch) (ch a) ks"
      by (auto elim!: depicts_tree simp: contents_def)
    have "readable (cells h) ch ?K" "readable (cells h) ch ?B"
      using Suc.prems(5) D by (auto elim: readable_subset)
    from Suc.IH [OF Suc.prems(1) fin(1) crd(1) children_apart [OF Suc.prems(1)] this(1) rd(2) k(2)]
      Suc.IH [OF Suc.prems(1) fin(2) crd(2) ap(2) this(2) n(3) t(3)]
    show ?thesis using Cons n rd t k by (simp add: node_at_simp)
  qed
qed

lemma read_tree_ok:
  assumes d: "dom_ok h ch" and a: "cells h a \<noteq> None" and t: "depicts h ch a t"
  shows "read_tree a h = Inr t"
proof -
  let ?K = "family ch (ch a)"
  have l: "links_ok (cells h) ch" and f: "forest ch" using d by (simp_all add: dom_ok_def links_ok_def)
  have aK: "a \<notin> ?K" by (rule not_in_family [OF f])
  have fin: "finite ?K" "card ?K \<le> next_addr h"
    using dom_finite [OF d a] aK by (simp_all add: desc_family [of ch a])
  have r: "readable (cells h) ch (desc ch a)" by (rule links_readable [OF l links_desc [OF l a]])
  obtain n where n: "cells h a = Some n" using a by blast
  with r have rd: "n_firstChild n = first_of (ch a) None" "nexts (cells h) (ch a)"
    unfolding readable_def by (metis desc_self option.inject)+
  from t n obtain ks where k: "t = PNode (payload n) ks" "list_all2 (depicts h ch) (ch a) ks"
    by (auto elim!: depicts_tree simp: contents_def)
  have "readable (cells h) ch ?K" using r by (rule readable_subset) (auto simp: desc_family [of ch a])
  from read_chain_ok [OF f fin children_apart [OF f] this rd(2) k(2)] n rd(1) k(1)
  show ?thesis by (simp add: read_tree_def node_at_simp)
qed

section \<open>Attributes of a copy\<close>

definition attrs_good :: "xattr list \<Rightarrow> bool" where
  "attrs_good as \<longleftrightarrow> distinct (map (\<lambda>a. c_str (a_name a)) as) \<and> [] \<notin> (\<lambda>a. c_str (a_name a)) ` set as"

text \<open>An attribute as it is copied: the C strings of its name and value, and no place in the text.\<close>

definition plain :: "xattr \<Rightarrow> xattr" where
  "plain a = \<lparr>a_name = c_str (a_name a), a_value = c_str (a_value a), a_location = no_location\<rparr>"

lemma c_str_idem [simp]: "c_str (c_str v) = c_str v"
  by (simp add: c_str_def takeWhile_takeWhile)

lemma plain_name [simp]: "c_str (a_name (plain a)) = c_str (a_name a)" "a_name (plain a) = c_str (a_name a)"
  by (simp_all add: plain_def)

lemma attrs_good_plain [simp]: "attrs_good (map plain as) = attrs_good as"
  by (simp add: attrs_good_def image_image comp_def)

lemma Find_absent: "Find name as = None \<longleftrightarrow> name \<notin> (\<lambda>a. c_str (a_name a)) ` set as"
  by (auto simp: Find_def find_None_iff)

lemma c_str_Nil [simp]: "c_str [] = []"
  by (simp add: c_str_def)

lemma set_value_new:
  "name \<notin> (\<lambda>a. c_str (a_name a)) ` set as \<Longrightarrow> c_str (a_name b) = name \<Longrightarrow>
   set_value name v (as @ [b]) = as @ [b\<lparr>a_value := v\<rparr>]"
  by (induction as) auto

lemma set_attribute_new:
  assumes "name \<notin> (\<lambda>a. c_str (a_name a)) ` set as" "[] \<notin> (\<lambda>a. c_str (a_name a)) ` set as" "c_str name = name"
  shows "set_attribute name v as = Inr (as @ [\<lparr>a_name = name, a_value = v, a_location = no_location\<rparr>])"
proof -
  have "Find name as = None" "Find [] as = None" using assms(1,2) by (simp_all add: Find_absent)
  moreover have "set_value name v (as @ [\<lparr>a_name = name, a_value = [], a_location = no_location\<rparr>]) =
      as @ [\<lparr>a_name = name, a_value = v, a_location = no_location\<rparr>]"
    by (subst set_value_new) (use assms in simp_all)
  ultimately show ?thesis by (simp add: set_attribute_def FindOrCreate_def Add_def)
qed

lemma copy_attrs_good:
  "attrs_good (as @ bs) \<Longrightarrow> copy_attrs bs (map plain as) = Inr (map plain (as @ bs))"
proof (induction bs arbitrary: as)
  case (Cons b bs)
  have "set_attribute (c_str (a_name b)) (c_str (a_value b)) (map plain as) = Inr (map plain (as @ [b]))"
    by (subst set_attribute_new) (use Cons.prems in \<open>auto simp: attrs_good_def plain_def image_image\<close>)
  with Cons.IH [of "as @ [b]"] Cons.prems show ?case by simp
qed simp

lemma visible_all: "[] \<notin> (\<lambda>a. c_str (a_name a)) ` set as \<Longrightarrow> visible_attrs as = as"
proof (cases as)
  case (Cons a bs)
  assume "[] \<notin> (\<lambda>a. c_str (a_name a)) ` set as"
  moreover have "c_str (a_name b) = []" if "like_sentinel b" for b using that by (simp add: like_sentinel_def)
  ultimately have "\<forall>b \<in> set bs. \<not> like_sentinel b" using Cons by force
  then have "takeWhile (\<lambda>b. \<not> like_sentinel b) bs = bs" by simp
  with Cons show ?thesis by simp
qed simp

section \<open>Copies of nodes\<close>

fun clone_body :: "node_body \<Rightarrow> node_body" where
  "clone_body (Body_element as) = Body_element (map plain as)"
| "clone_body b = b"

fun clone_payload :: "payload \<Rightarrow> payload" where
  "clone_payload (u, l, b, v) = (u, l, clone_body b, c_str v)"

fun payload_parent :: "payload \<Rightarrow> bool" where
  "payload_parent (u, l, b, v) \<longleftrightarrow> body_type b = TINYXML_ELEMENT \<or> body_type b = TINYXML_DOCUMENT"

text \<open>A copy drops what the leaf classes have below them.\<close>

fun clone_tree :: "ptree \<Rightarrow> ptree" where
  "clone_tree (PNode p ts) = PNode (clone_payload p) (if payload_parent p then map clone_tree ts else [])"

definition clonable :: "dom \<Rightarrow> bool" where
  "clonable h \<longleftrightarrow> (\<forall>a u l as v. contents h a = Some (u, l, Body_element as, v) \<longrightarrow> attrs_good as)"

lemma clonable_contents: "contents h' = contents h \<Longrightarrow> clonable h' = clonable h"
  by (simp add: clonable_def)

lemma clonable_at: "clonable h \<Longrightarrow> cells h a = Some n \<Longrightarrow> n_body n = Body_element as \<Longrightarrow> attrs_good as"
  unfolding clonable_def by (drule spec [of _ a], drule spec [of _ "n_userData n"], drule spec [of _ "n_location n"])
    (simp add: contents_def payload_def)

lemma clone_cell_ok:
  assumes "\<And>as. n_body n = Body_element as \<Longrightarrow> attrs_good as"
  shows "\<exists>t. clone_cell n = Inr t \<and> payload t = clone_payload (payload n) \<and>
    n_parent t = None \<and> n_prev t = None \<and> n_next t = None \<and> n_firstChild t = None \<and> n_lastChild t = None"
proof (cases "n_body n")
  case (Body_element as)
  with assms have g: "attrs_good as" by blast
  from copy_attrs_good [of "[]" as] g visible_all [of as]
  have "copy_attrs (visible_attrs as) [] = Inr (map plain as)" by (simp add: attrs_good_def)
  with Body_element show ?thesis
    by (simp add: clone_cell_def clone_new_def copy_fields_def Element_new_def Node_new_def payload_def Value_def)
qed (simp_all add: clone_cell_def clone_new_def copy_fields_def Node_new_def Text_new_def payload_def
    Document_body_def Value_def Let_def)

lemma payload_type: "payload m = clone_payload (payload n) \<Longrightarrow> n_type m = n_type n"
  by (cases "n_body n") (auto simp: payload_def n_type_def)

lemma has_children_payload: "has_children n = payload_parent (payload n)"
  by (simp add: has_children_def payload_def n_type_def)

section \<open>Cloning\<close>

lemma alloc_ok:
  assumes d: "dom_ok h ch" and t: "n_parent t = None" "n_prev t = None" "n_next t = None" "n_firstChild t = None"
    "n_lastChild t = None" and a: "alloc t h = (b, h')"
  shows "dom_ok h' ch" "b = next_addr h" "next_addr h' = Suc (next_addr h)" "cells h' = (cells h)(next_addr h \<mapsto> t)"
    "ch (next_addr h) = []"
proof -
  show h': "b = next_addr h" "next_addr h' = Suc (next_addr h)" "cells h' = (cells h)(next_addr h \<mapsto> t)"
    using a by (auto simp: alloc_def)
  have l: "links_ok (cells h) ch" and bound: "\<And>a. cells h a \<noteq> None \<Longrightarrow> a < next_addr h"
    using d by (simp_all add: dom_ok_def)
  have none: "cells h (next_addr h) = None" using bound by blast
  with l show nil: "ch (next_addr h) = []" by (simp add: links_ok_def)
  have s: "seg (cells h') a prv as nxt" if "seg (cells h) a prv as nxt" for a prv as nxt
    using that by (rule seg_cong) (use none h' in auto)
  have "node_ok (cells h') ch a n" if "cells h' a = Some n" for a n
  proof (cases "a = next_addr h")
    case True
    with that t h' nil show ?thesis by (simp add: node_ok_def)
  next
    case False
    with that h' have "node_ok (cells h) ch a n" using l by (simp add: links_ok_def)
    then show ?thesis using s by (simp add: node_ok_def)
  qed
  then have "links_ok (cells h') ch" using l h' by (auto simp: links_ok_def)
  then show "dom_ok h' ch" using bound h' by (auto simp: dom_ok_def less_Suc_eq)
qed

text \<open>On \<open>S\<close>, nodes and their lists are as before.\<close>

definition old_kept :: "naddr set \<Rightarrow> dom \<Rightarrow> (naddr \<Rightarrow> naddr list) \<Rightarrow> dom \<Rightarrow> (naddr \<Rightarrow> naddr list) \<Rightarrow> bool" where
  "old_kept S h ch h' ch' \<longleftrightarrow> next_addr h \<le> next_addr h' \<and> (\<forall>x \<in> S. cells h' x = cells h x \<and> ch' x = ch x)"

lemma old_kept_trans: "old_kept S h ch h1 ch1 \<Longrightarrow> old_kept S h1 ch1 h2 ch2 \<Longrightarrow> old_kept S h ch h2 ch2"
  by (auto simp: old_kept_def)

text \<open>What is above an old node is old.\<close>

lemma new_apart:
  assumes d: "dom_ok h ch" and d1: "dom_ok h1 ch1" and k: "old_kept {..<next_addr h} h ch h1 ch1" and b: "cells h b \<noteq> None"
  shows "b \<notin> desc ch1 (next_addr h)"
proof
  have bound: "x < next_addr h" if "cells h x \<noteq> None" for x using d that by (simp add: dom_ok_def)
  assume "b \<in> desc ch1 (next_addr h)"
  then have "(b, next_addr h) \<in> (below ch1)\<^sup>*" by (simp add: desc_def)
  then have "cells h (next_addr h) \<noteq> None" using b
  proof (induction rule: converse_rtrancl_induct)
    case (step y z)
    have l: "links_ok (cells h) ch" and l1: "links_ok (cells h1) ch1" using d d1 by (simp_all add: dom_ok_def)
    have "y \<in> set (ch1 z)" using step(1) by (simp add: below_def)
    from links_child(1) [OF l1 this] obtain n where n: "cells h1 y = Some n" "n_parent n = Some z" by blast
    then have "cells h y = Some n" using k bound [OF step(4)] by (simp add: old_kept_def)
    then have "y \<in> set (ch z)" using l n(2) by (auto simp: links_ok_def node_ok_def)
    then have "cells h z \<noteq> None" using l by (auto simp: links_ok_def)
    with step(3) show ?case by blast
  qed
  with bound show False by blast
qed

definition clones :: "nat \<Rightarrow> bool" where
  "clones f \<longleftrightarrow> (\<forall>h ch a t. dom_ok h ch \<longrightarrow> clonable h \<longrightarrow> cells h a \<noteq> None \<longrightarrow> depicts h ch a t \<longrightarrow>
     2 * card (desc ch a) \<le> Suc f \<longrightarrow>
     (\<exists>h' ch' m. clone_node f a h = Inr (next_addr h, h') \<and> dom_ok h' ch' \<and> clonable h' \<and>
        old_kept {..<next_addr h} h ch h' ch' \<and> cells h' (next_addr h) = Some m \<and> n_parent m = None \<and>
        depicts h' ch' (next_addr h) (clone_tree t)))"

definition clones_all :: "nat \<Rightarrow> bool" where
  "clones_all f \<longleftrightarrow> (\<forall>h ch as ts b tb S. dom_ok h ch \<longrightarrow> clonable h \<longrightarrow> nexts (cells h) as \<longrightarrow> apart ch as \<longrightarrow>
     list_all2 (depicts h ch) as ts \<longrightarrow> 2 * card (family ch as) \<le> f \<longrightarrow>
     (\<forall>a \<in> set as. \<exists>n q. cells h a = Some n \<and> n_parent n = Some q) \<longrightarrow>
     family ch as \<subseteq> S \<longrightarrow> S \<subseteq> {..<next_addr h} - {b} \<longrightarrow> b < next_addr h \<longrightarrow> cells h b = Some tb \<longrightarrow>
     set (ch b) \<inter> S = {} \<longrightarrow>
     (\<exists>h' ch' bs m. clone_children f (first_of as None) b h = Inr h' \<and> dom_ok h' ch' \<and> clonable h' \<and>
        old_kept S h ch h' ch' \<and> cells h' b = Some m \<and> n_parent m = n_parent tb \<and> payload m = payload tb \<and>
        ch' b = ch b @ bs \<and> list_all2 (depicts h' ch') bs (map clone_tree ts) \<and>
        (\<forall>x < next_addr h. x \<noteq> b \<longrightarrow> contents h' x = contents h x \<and> ch' x = ch x)))"

lemma clones_Suc:
  assumes "clones_all f"
  shows "clones (Suc f)"
  unfolding clones_def
proof (intro allI impI)
  fix h ch a t
  assume d: "dom_ok h ch" and cl: "clonable h" and a: "cells h a \<noteq> None" and t: "depicts h ch a t"
    and c: "2 * card (desc ch a) \<le> Suc (Suc f)"
  obtain n where n: "cells h a = Some n" using a by blast
  have l: "links_ok (cells h) ch" using d by (simp add: dom_ok_def)
  from t n obtain ts where ts: "t = PNode (payload n) ts" "list_all2 (depicts h ch) (ch a) ts"
    by (auto elim!: depicts_tree simp: contents_def)
  have "attrs_good as" if "n_body n = Body_element as" for as
    by (rule clonable_at [OF cl n that])
  from clone_cell_ok [of n, OF this] obtain u where u: "clone_cell n = Inr u" "payload u = clone_payload (payload n)"
      "n_parent u = None" "n_prev u = None" "n_next u = None" "n_firstChild u = None" "n_lastChild u = None" by blast
  let ?b = "next_addr h"
  define h1 where "h1 = snd (alloc u h)"
  have al: "alloc u h = (?b, h1)" by (simp add: h1_def alloc_def)
  note ok = alloc_ok [OF d u(3-7) al]
  have ct: "contents h1 = (contents h)(?b \<mapsto> payload u)" by (simp add: contents_def ok(4) fun_eq_iff)
  have cl1: "clonable h1"
    unfolding clonable_def
  proof (intro allI impI)
    fix x v l as w
    assume x: "contents h1 x = Some (v, l, Body_element as, w)"
    show "attrs_good as"
    proof (cases "x = ?b")
      case True
      with x ct u(2) have "clone_payload (payload n) = (v, l, Body_element as, w)" by simp
      then obtain as0 where "n_body n = Body_element as0" "as = map plain as0"
        by (cases "n_body n") (auto simp: payload_def)
      with \<open>\<And>as. n_body n = Body_element as \<Longrightarrow> attrs_good as\<close> show ?thesis by simp
    next
      case False
      with x ct have "contents h x = Some (v, l, Body_element as, w)" by simp
      with cl show ?thesis unfolding clonable_def by blast
    qed
  qed
  have kept: "old_kept {..<?b} h ch h1 ch" by (simp add: old_kept_def ok(3,4))
  show "\<exists>h' ch' m. clone_node (Suc f) a h = Inr (?b, h') \<and> dom_ok h' ch' \<and> clonable h' \<and>
      old_kept {..<?b} h ch h' ch' \<and> cells h' ?b = Some m \<and> n_parent m = None \<and> depicts h' ch' ?b (clone_tree t)"
  proof (cases "has_children n")
    case False
    have "depicts h1 ch ?b (PNode (payload u) [])"
      by (rule depicts.intros) (simp_all add: ct ok(5))
    with False n u ts ok cl1 kept al show ?thesis
      by (auto simp: node_at_simp has_children_payload intro!: exI [of _ h1] exI [of _ ch])
  next
    case True
    let ?as = "ch a"
    have f: "forest ch" using l by (simp add: links_ok_def)
    have aK: "a \<notin> family ch ?as" by (rule not_in_family [OF f])
    have "finite (family ch ?as)" using dom_finite(1) [OF d a] by (simp add: desc_family [of ch a])
    with c aK have c1: "2 * card (family ch ?as) \<le> f" by (simp add: desc_family [of ch a])
    have fam: "family ch ?as \<subseteq> {..<?b}"
    proof
      fix x
      assume "x \<in> family ch ?as"
      then have "x \<in> desc ch a" by (simp add: desc_family [of ch a])
      with links_desc [OF l a] d show "x \<in> {..<?b}" by (simp add: dom_ok_def)
    qed
    have o: "n_firstChild n = first_of ?as None" "seg (cells h) a None ?as None"
      using l n by (auto simp: links_ok_def node_ok_def)
    have same: "cells h1 x = cells h x" if "x \<in> family ch ?as" for x using fam that by (auto simp: ok(4))
    have 1: "nexts (cells h1) ?as"
      by (rule nexts_cong [OF seg_nexts [OF o(2)]]) (rule same, rule in_family)
    have 2: "list_all2 (depicts h1 ch) ?as ts"
      by (rule depicts_list_cong [OF ts(2)]) (use fam in \<open>auto simp: ct\<close>)
    have 3: "\<exists>n q. cells h1 x = Some n \<and> n_parent n = Some q" if x: "x \<in> set ?as" for x
      unfolding same [OF in_family [OF x]] using links_child(1) [OF l x] by blast
    have b: "cells h1 ?b = Some u" "?b < next_addr h1" "set (ch ?b) \<inter> {..<?b} = {}" "{..<?b} \<subseteq> {..<next_addr h1} - {?b}"
      by (auto simp: ok(3-5))
    from assms [unfolded clones_all_def, rule_format, OF ok(1) cl1 1 children_apart [OF f] 2 c1 3 fam
        b(4,2,1,3)]
    obtain h' ch' bs m where r: "clone_children f (first_of ?as None) ?b h1 = Inr h'" "dom_ok h' ch'" "clonable h'"
        "old_kept {..<?b} h1 ch h' ch'" "cells h' ?b = Some m" "n_parent m = n_parent u" "payload m = payload u"
        "ch' ?b = ch ?b @ bs" "list_all2 (depicts h' ch') bs (map clone_tree ts)" by blast
    have "depicts h' ch' ?b (PNode (payload u) (map clone_tree ts))"
      by (rule depicts.intros) (use r(5,7-9) ok(5) in \<open>simp_all add: contents_def\<close>)
    moreover have "old_kept {..<?b} h ch h' ch'" by (rule old_kept_trans [OF kept r(4)])
    moreover have "clone_node (Suc f) a h = Inr (?b, h')"
      using n u(1) al True o(1) r(1) by (simp add: node_at_simp)
    ultimately show ?thesis using r True ts(1) u(2,3) by (auto simp: has_children_payload)
  qed
qed

lemma relink_other:
  "x \<noteq> p \<Longrightarrow> x \<notin> set mid \<Longrightarrow> x \<notin> set gone \<Longrightarrow> last_of None ys \<noteq> Some x \<Longrightarrow> first_of zs None \<noteq> Some x \<Longrightarrow>
   relink p ys gone mid zs c x = c x"
  by (cases "c x") (auto simp: relink_def relink_cell_def)

lemma clones_all_Suc:
  assumes "clones f" "clones_all f"
  shows "clones_all (Suc f)"
  unfolding clones_all_def
proof (intro allI impI)
  fix h ch as ts b tb S
  assume d: "dom_ok h ch" and cl: "clonable h" and nx: "nexts (cells h) as" and ap: "apart ch as"
    and t: "list_all2 (depicts h ch) as ts" and c: "2 * card (family ch as) \<le> Suc f"
    and par: "\<forall>a \<in> set as. \<exists>n q. cells h a = Some n \<and> n_parent n = Some q"
    and fam: "family ch as \<subseteq> S" and Sb: "S \<subseteq> {..<next_addr h} - {b}" "b < next_addr h" and tb: "cells h b = Some tb"
    and young: "set (ch b) \<inter> S = {}"
  let ?P = "\<lambda>h' ch' bs m. clone_children (Suc f) (first_of as None) b h = Inr h' \<and> dom_ok h' ch' \<and> clonable h' \<and>
        old_kept S h ch h' ch' \<and> cells h' b = Some m \<and> n_parent m = n_parent tb \<and> payload m = payload tb \<and>
        ch' b = ch b @ bs \<and> list_all2 (depicts h' ch') bs (map clone_tree ts) \<and>
        (\<forall>x < next_addr h. x \<noteq> b \<longrightarrow> contents h' x = contents h x \<and> ch' x = ch x)"
  show "\<exists>h' ch' bs m. ?P h' ch' bs m"
  proof (cases as)
    case Nil
    then have "?P h ch [] tb" using d cl tb t by (simp add: old_kept_def)
    then show ?thesis by blast
  next
    case (Cons a as')
    from t Cons obtain s ts' where s: "ts = s # ts'" "depicts h ch a s" "list_all2 (depicts h ch) as' ts'"
      by (auto simp: list_all2_Cons1)
    from nx Cons obtain n where n: "cells h a = Some n" "n_next n = first_of as' None" "nexts (cells h) as'" by auto
    from par Cons n(1) obtain q where q: "n_parent n = Some q" by auto
    have l: "links_ok (cells h) ch" using d by (simp add: dom_ok_def)
    have D: "family ch as = desc ch a \<union> family ch as'" using Cons by simp
    have ap': "desc ch a \<inter> family ch as' = {}" "apart ch as'" using ap Cons by (simp_all add: apart_Cons)
    have "finite S" using Sb(1) by (rule finite_subset) simp
    then have fin: "finite (desc ch a)" "finite (family ch as')" using fam unfolding D by (auto dest: finite_subset)
    have "card (family ch as) = card (desc ch a) + card (family ch as')"
      unfolding D using fin ap'(1) by (rule card_Un_disjoint)
    moreover have "card (desc ch a) \<ge> 1" using fin(1) by (simp add: Suc_le_eq card_gt_0_iff)
    ultimately have crd: "2 * card (desc ch a) \<le> Suc f" "2 * card (family ch as') \<le> f" using c by simp_all
    have aB: "a \<in> S" using fam desc_self [of a ch] unfolding D by blast
    have nz: "cells h a \<noteq> None" using n(1) by simp
    from assms(1) [unfolded clones_def, rule_format, OF d cl nz s(2) crd(1)]
    obtain h1 ch1 m where 1: "clone_node f a h = Inr (next_addr h, h1)" "dom_ok h1 ch1" "clonable h1"
        "old_kept {..<next_addr h} h ch h1 ch1" "cells h1 (next_addr h) = Some m" "n_parent m = None"
        "depicts h1 ch1 (next_addr h) (clone_tree s)" by blast
    let ?c = "next_addr h"
    have old1: "cells h1 x = cells h x" "ch1 x = ch x" if "x < ?c" for x using 1(4) that by (simp_all add: old_kept_def)
    have l1: "links_ok (cells h1) ch1" using 1(2) by (simp add: dom_ok_def)
    have fc: "forest ch1" using l1 by (simp add: links_ok_def)
    have tb1: "cells h1 b = Some tb" "ch1 b = ch b" using old1 [OF Sb(2)] tb by simp_all
    have bc: "b \<notin> desc ch1 ?c"
      by (rule new_apart [OF d 1(2,4)]) (use tb in simp)
    have "n_type m = n_type n"
    proof -
      obtain us where "s = PNode (payload n) us" using s(2) n(1) by (auto elim!: depicts_tree simp: contents_def)
      then have "payload m = clone_payload (payload n)"
        using 1(5,7) by (auto elim!: depicts_tree simp: contents_def)
      then show ?thesis by (rule payload_type)
    qed
    then have doc: "n_type m \<noteq> TINYXML_DOCUMENT" using child_type [OF l n(1) q] by simp
    note lk = LinkEndChild_relink [OF 1(2,5,6) doc tb1(1) bc]
    let ?h2 = "h1\<lparr>cells := relink b (ch1 b) [] [?c] [] (cells h1)\<rparr>" and ?ch2 = "ch1(b := ch1 b @ [?c])"
    have keep2: "cells ?h2 x = cells h x \<and> ?ch2 x = ch x" if x: "x \<in> S" for x
    proof -
      have "x < ?c" "x \<noteq> b" "x \<noteq> ?c" using x Sb(1) by auto
      moreover have "last_of None (ch1 b) \<noteq> Some x"
      proof
        assume "last_of None (ch1 b) = Some x"
        then have "x \<in> set (ch b)" using tb1(2) by (auto simp: last_of_def split: if_splits)
        with young x show False by auto
      qed
      ultimately show ?thesis using old1 [of x] by (simp add: relink_other)
    qed
    have k2: "old_kept S h ch ?h2 ?ch2" using keep2 1(4) by (simp add: old_kept_def)
    have same: "contents ?h2 x = contents h x \<and> ?ch2 x = ch x" if "x \<in> family ch as'" for x
      using keep2 [of x] fam that unfolding D contents_def by auto
    have f2: "family ?ch2 as' = family ch as'" by (rule family_cong) (use same in blast)
    have nx2: "nexts (cells ?h2) as'"
      by (rule nexts_cong [OF n(3)]) (use keep2 fam in_family [of _ as' ch] in \<open>auto simp: D\<close>)
    have ap2: "apart ?ch2 as'" by (rule apart_cong [OF ap'(2)]) (use same in blast)
    have t2: "list_all2 (depicts ?h2 ?ch2) as' ts'" by (rule depicts_list_cong [OF s(3) same])
    have par2: "\<exists>n q. cells ?h2 x = Some n \<and> n_parent n = Some q" if x: "x \<in> set as'" for x
    proof -
      have "x \<in> S" using fam in_family [OF x, of ch] by (auto simp: D)
      with keep2 [of x] par x Cons show ?thesis by auto
    qed
    have m2: "cells ?h2 b = Some (relink_cell b (ch1 b) [] [?c] [] b tb)" using tb1 by (simp add: relink_def)
    have pb: "n_parent (relink_cell b (ch1 b) [] [?c] [] b tb) = n_parent tb" using Sb(2) by (simp add: relink_cell_def)
    have young2: "set (?ch2 b) \<inter> S = {}" using young Sb(1) tb1(2) by auto
    have grow: "next_addr h \<le> next_addr h1" using 1(4) by (simp add: old_kept_def)
    have b2: "b < next_addr ?h2" "S \<subseteq> {..<next_addr ?h2} - {b}" using Sb grow by auto
    have cl2: "clonable ?h2" using 1(3) by (simp add: clonable_contents [of ?h2 h1])
    have "2 * card (family ?ch2 as') \<le> f" "family ?ch2 as' \<subseteq> S" using crd(2) fam unfolding f2 D by auto
    from assms(2) [unfolded clones_all_def, rule_format, OF lk(2) cl2 nx2 ap2 t2 this(1) par2 this(2) b2(2,1) m2 young2]
    obtain h' ch' bs m' where r: "clone_children f (first_of as' None) b ?h2 = Inr h'" "dom_ok h' ch'" "clonable h'"
        "old_kept S ?h2 ?ch2 h' ch'" "cells h' b = Some m'" "n_parent m' = n_parent (relink_cell b (ch1 b) [] [?c] [] b tb)"
        "payload m' = payload (relink_cell b (ch1 b) [] [?c] [] b tb)"
        "ch' b = ?ch2 b @ bs" "list_all2 (depicts h' ch') bs (map clone_tree ts')"
        "\<forall>x < next_addr ?h2. x \<noteq> b \<longrightarrow> contents h' x = contents ?h2 x \<and> ch' x = ?ch2 x" by blast
    have far: "contents h' x = contents h1 x \<and> ch' x = ch1 x" if "x < next_addr h1" "x \<noteq> b" for x
      using r(10) that by simp
    have "depicts h' ch' ?c (clone_tree s)"
    proof (rule depicts_cong [OF 1(7)])
      fix x
      assume x: "x \<in> desc ch1 ?c"
      with bc have "x \<noteq> b" by auto
      moreover have "cells h1 x \<noteq> None" using links_desc [OF l1 _ x] 1(5) by simp
      then have "x < next_addr h1" using 1(2) by (simp add: dom_ok_def)
      ultimately show "contents h' x = contents h1 x \<and> ch' x = ch1 x" by (rule far [rotated])
    qed
    then have "list_all2 (depicts h' ch') (?c # bs) (map clone_tree ts)" using r(9) s(1) by simp
    moreover have "clone_children (Suc f) (first_of as None) b h = Inr h'"
      using Cons 1(1) lk(1) keep2 [OF aB] n(1,2) r(1) by (simp add: node_at_simp)
    moreover have "ch' b = ch b @ ?c # bs" using r(8) tb1(2) by simp
    moreover have "old_kept S h ch h' ch'" by (rule old_kept_trans [OF k2 r(4)])
    moreover have "\<forall>x < next_addr h. x \<noteq> b \<longrightarrow> contents h' x = contents h x \<and> ch' x = ch x"
    proof (intro allI impI)
      fix x
      assume x: "x < next_addr h" "x \<noteq> b"
      from grow far [of x] x old1 [of x] show "contents h' x = contents h x \<and> ch' x = ch x" by (simp add: contents_def)
    qed
    ultimately have "?P h' ch' (?c # bs) m'" using r(2,3,5-7) pb by simp
    then show ?thesis by blast
  qed
qed

lemma clones_any: "clones f" "clones_all f"
proof (induction f)
  case 0
  show "clones 0"
    unfolding clones_def
  proof (intro allI impI)
    fix h ch a t
    assume h: "dom_ok h ch" "cells h a \<noteq> None" "2 * card (desc ch a) \<le> Suc 0"
    from h(3) have "card (desc ch a) = 0" by arith
    with dom_finite(1) [OF h(1,2)] show "\<exists>h' ch' m. clone_node 0 a h = Inr (next_addr h, h') \<and> dom_ok h' ch' \<and> clonable h' \<and>
        old_kept {..<next_addr h} h ch h' ch' \<and> cells h' (next_addr h) = Some m \<and> n_parent m = None \<and>
        depicts h' ch' (next_addr h) (clone_tree t)" by simp
  qed
  show "clones_all 0"
    unfolding clones_all_def
  proof (intro allI impI)
    fix h ch as ts b tb S
    assume h: "dom_ok h ch" "clonable h" "list_all2 (depicts h ch) as ts" "2 * card (family ch as) \<le> 0"
      "family ch as \<subseteq> S" "S \<subseteq> {..<next_addr h} - {b}" "cells h b = Some tb"
    from h(5,6) have "family ch as \<subseteq> {..<next_addr h}" by blast
    then have "finite (family ch as)" by (rule finite_subset) simp
    with h(4) have "as = []" by (cases as) auto
    with h show "\<exists>h' ch' bs m. clone_children 0 (first_of as None) b h = Inr h' \<and> dom_ok h' ch' \<and> clonable h' \<and>
        old_kept S h ch h' ch' \<and> cells h' b = Some m \<and> n_parent m = n_parent tb \<and> payload m = payload tb \<and>
        ch' b = ch b @ bs \<and> list_all2 (depicts h' ch') bs (map clone_tree ts) \<and>
        (\<forall>x < next_addr h. x \<noteq> b \<longrightarrow> contents h' x = contents h x \<and> ch' x = ch x)"
      by (auto simp: old_kept_def intro!: exI [of _ h] exI [of _ ch])
  qed
next
  case (Suc f)
  show "clones (Suc f)" by (rule clones_Suc [OF Suc(2)])
  show "clones_all (Suc f)" by (rule clones_all_Suc [OF Suc])
qed

lemma Clone_ok:
  assumes d: "dom_ok h ch" and cl: "clonable h" and a: "cells h a \<noteq> None" and t: "depicts h ch a t"
  shows "\<exists>h' ch' m. Clone a h = Inr (next_addr h, h') \<and> dom_ok h' ch' \<and> clonable h' \<and>
    old_kept {..<next_addr h} h ch h' ch' \<and> cells h' (next_addr h) = Some m \<and> n_parent m = None \<and>
    depicts h' ch' (next_addr h) (clone_tree t)"
proof -
  have "2 * card (desc ch a) \<le> Suc (2 * next_addr h)" using dom_finite(2) [OF d a] by simp
  with clones_any(1) [of "2 * next_addr h"] assms show ?thesis unfolding clones_def Clone_def by blast
qed

end
