(* ===== verification/Xml_Ops.thy ===== *)
theory Xml_Ops
  imports Xml_Clone Runs
begin

text \<open>
  The editing operations of \<^verbatim>\<open>TiXmlNode\<close>: what each does to the lists of children, that it clones what
  it inserts, and that it frees exactly what it takes out; and that every sequence of edits keeps the
  tree in shape.
\<close>

section \<open>The children, read from the links\<close>

fun chain_of :: "nat \<Rightarrow> naddr option \<Rightarrow> dom \<Rightarrow> naddr list" where
  "chain_of f None h = []"
| "chain_of 0 (Some a) h = []"
| "chain_of (Suc f) (Some a) h = a # (case cells h a of None \<Rightarrow> [] | Some n \<Rightarrow> chain_of f (n_next n) h)"

definition kids :: "dom \<Rightarrow> naddr \<Rightarrow> naddr list" where
  "kids h a = (case cells h a of None \<Rightarrow> [] | Some n \<Rightarrow> chain_of (next_addr h) (n_firstChild n) h)"

definition dom_inv :: "dom \<Rightarrow> bool" where
  "dom_inv h \<longleftrightarrow> dom_ok h (kids h)"

lemma chain_of_nexts: "nexts (cells h) as \<Longrightarrow> length as \<le> f \<Longrightarrow> chain_of f (first_of as None) h = as"
proof (induction as arbitrary: f)
  case (Cons a as)
  then obtain g where "f = Suc g" by (cases f) auto
  with Cons show ?case by auto
qed simp

lemma dom_ok_kids:
  assumes "dom_ok h ch"
  shows "kids h = ch"
proof
  fix a
  have l: "links_ok (cells h) ch" using assms by (simp add: dom_ok_def)
  show "kids h a = ch a"
  proof (cases "cells h a")
    case None
    with l show ?thesis by (simp add: kids_def links_ok_def)
  next
    case (Some n)
    with l have o: "node_ok (cells h) ch a n" by (simp add: links_ok_def)
    then have "seg (cells h) a None (ch a) None" by (simp add: node_ok_def)
    then have n: "n_firstChild n = first_of (ch a) None" "nexts (cells h) (ch a)" "distinct (ch a)"
      using o l by (simp_all add: seg_nexts node_ok_def links_ok_def forest_def)
    have "set (ch a) \<subseteq> {..<next_addr h}" using assms links_child(1) [OF l, of _ a] by (fastforce simp: dom_ok_def)
    then have "card (set (ch a)) \<le> next_addr h" by (metis card_lessThan card_mono finite_lessThan)
    with n Some show ?thesis by (simp add: kids_def distinct_card chain_of_nexts)
  qed
qed

lemma dom_ok_inv: "dom_ok h ch \<Longrightarrow> dom_inv h"
  by (simp add: dom_inv_def dom_ok_kids)

section \<open>Where an edit links\<close>

lemma child_split:
  assumes "links_ok c ch" "a \<in> set (ch p)"
  obtains ys zs where "ch p = ys @ a # zs" "a \<notin> set ys" "a \<notin> set zs"
proof -
  from assms(2) obtain ys zs where "ch p = ys @ a # zs" by (meson split_list)
  moreover have "distinct (ch p)" using assms(1) by (simp add: links_ok_def forest_def)
  ultimately show thesis using that by auto
qed

text \<open>A child with its neighbours.\<close>

lemma child_cell:
  assumes l: "links_ok c ch" and s: "ch p = ys @ a # zs"
  obtains n t where "c a = Some n" "n_parent n = Some p" "n_prev n = last_of None ys" "n_next n = first_of zs None"
    "c p = Some t" "n_firstChild t = first_of (ys @ a # zs) None" "n_lastChild t = last_of None (ys @ a # zs)"
    "p \<notin> set (ys @ a # zs)" "distinct (ys @ a # zs)"
proof -
  have a: "a \<in> set (ch p)" using s by simp
  obtain t where t: "c p = Some t" using links_child(2) [OF l a] by blast
  with l have "node_ok c ch p t" by (simp add: links_ok_def)
  then have o: "n_firstChild t = first_of (ys @ a # zs) None" "n_lastChild t = last_of None (ys @ a # zs)"
      "seg c p None (ys @ a # zs) None"
    by (simp_all add: node_ok_def s del: first_of_append last_of_simps)
  from seg_at [OF o(3)] obtain n where n: "c a = Some n" "n_parent n = Some p" "n_prev n = last_of None ys"
      "n_next n = first_of zs None" by blast
  have "forest ch" using l by (simp add: links_ok_def)
  then have "p \<notin> set (ch p)" "distinct (ch p)" using not_below_self [of ch p p] by (auto simp: forest_def)
  with n t o that s show thesis by simp
qed

lemma last_of_mem: "last_of None ys = Some a \<Longrightarrow> a \<in> set ys"
  by (auto simp: last_of_def split: if_splits)

lemma first_of_mem: "first_of zs None = Some a \<Longrightarrow> a \<in> set zs"
  by (cases zs) auto

lemma neighbour_cell: "links_ok c ch \<Longrightarrow> set ys \<subseteq> set (ch p) \<Longrightarrow> a \<in> set ys \<Longrightarrow> \<exists>n. c a = Some n"
  using links_child(1) by blast

lemma last_of_cases: "last_of None ys = None \<and> ys = [] \<or> (\<exists>l ys'. last_of None ys = Some l \<and> ys = ys' @ [l])"
  by (cases ys rule: rev_cases) simp_all

lemma link_before_relink:
  assumes l: "links_ok (cells h) ch" and s: "ch this = ys @ b # zs"
    and n: "cells h node = Some n" "n_parent n = None" "node \<noteq> this"
  shows "link_before node b this h = Inr (h\<lparr>cells := relink this ys [] [node] (b # zs) (cells h)\<rparr>)"
proof -
  obtain m t where b: "cells h b = Some m" "n_prev m = last_of None ys" "cells h this = Some t"
      "n_firstChild t = first_of (ys @ b # zs) None" "n_lastChild t = last_of None (ys @ b # zs)"
      "this \<notin> set (ys @ b # zs)" "distinct (ys @ b # zs)"
    using child_cell [OF l s] by metis
  have no: "node \<notin> set (ys @ b # zs)" using root_free [OF l n(1,2), of this] s by simp
  show ?thesis
    using last_of_cases [of ys]
  proof
    assume "last_of None ys = None \<and> ys = []"
    with b n no show ?thesis
      by (simp add: link_before_def upd_simp node_at_simp)
        (rule same_cells, auto simp: relink_def relink_cell_def map_option_case split: option.splits)
  next
    assume "\<exists>l ys'. last_of None ys = Some l \<and> ys = ys' @ [l]"
    then obtain p ys' where p: "ys = ys' @ [p]" by blast
    then obtain pn where "cells h p = Some pn" using neighbour_cell [OF l, of ys this p] s by auto
    moreover have "first_of (ys' @ p # b # zs) None = first_of (ys' @ p # node # b # zs) None" by (cases ys') simp_all
    ultimately show ?thesis using p b n no
      by (simp add: link_before_def upd_simp node_at_simp)
        (rule same_cells, auto simp: relink_def relink_cell_def map_option_case split: option.splits)
  qed
qed

lemma first_of_cases: "first_of zs None = None \<and> zs = [] \<or> (\<exists>q zs'. first_of zs None = Some q \<and> zs = q # zs')"
  by (cases zs) simp_all

lemma link_after_relink:
  assumes l: "links_ok (cells h) ch" and s: "ch this = ys @ b # zs"
    and n: "cells h node = Some n" "n_parent n = None" "node \<noteq> this"
  shows "link_after node b this h = Inr (h\<lparr>cells := relink this (ys @ [b]) [] [node] zs (cells h)\<rparr>)"
proof -
  obtain m t where b: "cells h b = Some m" "n_next m = first_of zs None" "cells h this = Some t"
      "n_firstChild t = first_of (ys @ b # zs) None" "n_lastChild t = last_of None (ys @ b # zs)"
      "this \<notin> set (ys @ b # zs)" "distinct (ys @ b # zs)"
    using child_cell [OF l s] by metis
  have no: "node \<notin> set (ys @ b # zs)" using root_free [OF l n(1,2), of this] s by simp
  have fst: "first_of ys (Some b) = n_firstChild t" using b(4) by simp
  show ?thesis
    using first_of_cases [of zs]
  proof
    assume "first_of zs None = None \<and> zs = []"
    with b n no fst show ?thesis
      by (simp add: link_after_def upd_simp node_at_simp)
        (rule same_cells, auto simp: relink_def relink_cell_def map_option_case split: option.splits)
  next
    assume "\<exists>q zs'. first_of zs None = Some q \<and> zs = q # zs'"
    then obtain q zs' where q: "zs = q # zs'" by blast
    then obtain qn where "cells h q = Some qn" using neighbour_cell [OF l, of zs this q] s by auto
    with q b n no fst show ?thesis
      by (simp add: link_after_def upd_simp node_at_simp)
        (rule same_cells, auto simp: relink_def relink_cell_def map_option_case split: option.splits)
  qed
qed

text \<open>
  What is taken out keeps its own links, and a node put in by \<^verbatim>\<open>ReplaceChild\<close> gets its parent only
  after the deletion; apart from that the cells are relinked.
\<close>

lemma unlink_relink:
  assumes l: "links_ok (cells h) ch" and s: "ch this = ys @ r # zs"
  shows "\<exists>c. unlink r this h = Inr (h\<lparr>cells := c\<rparr>) \<and> c r = cells h r \<and>
    (\<forall>x. x \<noteq> r \<longrightarrow> c x = relink this ys [r] [] zs (cells h) x)"
proof -
  obtain m t where b: "cells h r = Some m" "n_prev m = last_of None ys" "n_next m = first_of zs None" "cells h this = Some t"
      "n_firstChild t = first_of (ys @ r # zs) None" "n_lastChild t = last_of None (ys @ r # zs)"
      "this \<notin> set (ys @ r # zs)" "distinct (ys @ r # zs)"
    using child_cell [OF l s] by metis
  have nb: "\<exists>n. cells h x = Some n" if "x \<in> set ys \<or> x \<in> set zs" for x
    using links_child(1) [OF l, of x this] s that by auto
  from last_of_cases [of ys] show ?thesis
  proof
    assume ys: "last_of None ys = None \<and> ys = []"
    from first_of_cases [of zs] show ?thesis
    proof
      assume "first_of zs None = None \<and> zs = []"
      with ys b show ?thesis
        by (auto simp: unlink_def upd_simp node_at_simp relink_def relink_cell_def map_option_case split: option.splits
            intro!: exI)
    next
      assume "\<exists>q zs'. first_of zs None = Some q \<and> zs = q # zs'"
      then obtain q zs' where q: "zs = q # zs'" by blast
      then obtain qn where "cells h q = Some qn" using nb [of q] by auto
      with q ys b show ?thesis
        by (auto simp: unlink_def upd_simp node_at_simp relink_def relink_cell_def map_option_case split: option.splits
            intro!: exI)
    qed
  next
    assume "\<exists>p ys'. last_of None ys = Some p \<and> ys = ys' @ [p]"
    then obtain p ys' where p: "ys = ys' @ [p]" by blast
    then obtain pn where pn: "cells h p = Some pn" using nb [of p] by auto
    have f1: "first_of ys' (Some p) = n_firstChild t" using b(5) p by simp
    from first_of_cases [of zs] show ?thesis
    proof
      assume "first_of zs None = None \<and> zs = []"
      with p pn b f1 show ?thesis
        by (auto simp: unlink_def upd_simp node_at_simp relink_def relink_cell_def map_option_case split: option.splits
            intro!: exI)
    next
      assume "\<exists>q zs'. first_of zs None = Some q \<and> zs = q # zs'"
      then obtain q zs' where q: "zs = q # zs'" by blast
      then obtain qn where "cells h q = Some qn" using nb [of q] by auto
      with q p pn b f1 show ?thesis
        by (auto simp: unlink_def upd_simp node_at_simp relink_def relink_cell_def map_option_case split: option.splits
            intro!: exI)
    qed
  qed
qed

lemma splice_relink:
  assumes l: "links_ok (cells h) ch" and s: "ch this = ys @ r # zs"
    and n: "cells h node = Some n" "n_parent n = None" "node \<noteq> this"
  shows "\<exists>c m. splice node r this h = Inr (h\<lparr>cells := c\<rparr>) \<and> c r = cells h r \<and>
    (\<forall>x. x \<noteq> r \<longrightarrow> x \<noteq> node \<longrightarrow> c x = relink this ys [r] [node] zs (cells h) x) \<and>
    c node = Some m \<and> relink this ys [r] [node] zs (cells h) node = Some (m\<lparr>n_parent := Some this\<rparr>)"
proof -
  obtain m t where b: "cells h r = Some m" "n_prev m = last_of None ys" "n_next m = first_of zs None" "cells h this = Some t"
      "n_firstChild t = first_of (ys @ r # zs) None" "n_lastChild t = last_of None (ys @ r # zs)"
      "this \<notin> set (ys @ r # zs)" "distinct (ys @ r # zs)"
    using child_cell [OF l s] by metis
  have no: "node \<notin> set (ys @ r # zs)" using root_free [OF l n(1,2), of this] s by simp
  have nb: "\<exists>n. cells h x = Some n" if "x \<in> set ys \<or> x \<in> set zs" for x
    using links_child(1) [OF l, of x this] s that by auto
  from last_of_cases [of ys] show ?thesis
  proof
    assume ys: "last_of None ys = None \<and> ys = []"
    from first_of_cases [of zs] show ?thesis
    proof
      assume "first_of zs None = None \<and> zs = []"
      with ys b n no show ?thesis
        by (auto simp: splice_def upd_simp node_at_simp relink_def relink_cell_def map_option_case split: option.splits
            intro!: exI)
    next
      assume "\<exists>q zs'. first_of zs None = Some q \<and> zs = q # zs'"
      then obtain q zs' where q: "zs = q # zs'" by blast
      then obtain qn where "cells h q = Some qn" using nb [of q] by auto
      with q ys b n no show ?thesis
        by (auto simp: splice_def upd_simp node_at_simp relink_def relink_cell_def map_option_case split: option.splits
            intro!: exI)
    qed
  next
    assume "\<exists>p ys'. last_of None ys = Some p \<and> ys = ys' @ [p]"
    then obtain p ys' where p: "ys = ys' @ [p]" by blast
    then obtain pn where pn: "cells h p = Some pn" using nb [of p] by auto
    have f1: "first_of ys' (Some p) = n_firstChild t" using b(5) p by simp
    from first_of_cases [of zs] show ?thesis
    proof
      assume "first_of zs None = None \<and> zs = []"
      with p pn b n no f1 show ?thesis
        by (auto simp: splice_def upd_simp node_at_simp relink_def relink_cell_def map_option_case split: option.splits
            intro!: exI)
    next
      assume "\<exists>q zs'. first_of zs None = Some q \<and> zs = q # zs'"
      then obtain q zs' where q: "zs = q # zs'" by blast
      then obtain qn where "cells h q = Some qn" using nb [of q] by auto
      with q p pn b n no f1 show ?thesis
        by (auto simp: splice_def upd_simp node_at_simp relink_def relink_cell_def map_option_case split: option.splits
            intro!: exI)
    qed
  qed
qed

section \<open>Freeing what was taken out\<close>

definition without :: "naddr set \<Rightarrow> (naddr \<Rightarrow> naddr list) \<Rightarrow> naddr \<Rightarrow> naddr list" where
  "without D ch a = (if a \<in> D then [] else ch a)"

text \<open>\<open>g\<close> is the heap \<open>h\<close> with the links of the node to be deleted tidied up.\<close>

lemma delete_detached:
  assumes d: "dom_ok g ch" "next_addr g = next_addr h" and r: "cells g r = Some n" "n_parent n = None"
    and same: "\<And>x. x \<in> desc ch r \<Longrightarrow> x \<noteq> r \<Longrightarrow> cells h x = cells g x"
    and top: "cells h r = Some m" "n_firstChild m = n_firstChild n"
  shows "delete_node r h = Inr (h\<lparr>cells := (cells h) |` (- desc ch r)\<rparr>)"
    "dom_ok (g\<lparr>cells := (cells g) |` (- desc ch r)\<rparr>) (without (desc ch r) ch)"
proof -
  have l: "links_ok (cells g) ch" using d by (simp add: dom_ok_def)
  have f: "forest ch" using l by (simp add: links_ok_def)
  have nz: "cells g r \<noteq> None" using r by simp
  have fin: "finite (desc ch r)" "card (desc ch r) \<le> next_addr h"
    using dom_finite [OF d(1) nz] d(2) by simp_all
  have rd: "readable (cells g) ch (desc ch r)" by (rule links_readable [OF l links_desc [OF l nz]])
  have "readable (cells h) ch (desc ch r)"
    unfolding readable_def
  proof
    fix b
    assume b: "b \<in> desc ch r"
    with rd obtain k where k: "cells g b = Some k" "n_firstChild k = first_of (ch b) None" "nexts (cells g) (ch b)"
      by (auto simp: readable_def)
    have "nexts (cells h) (ch b)"
    proof (rule nexts_cong [OF k(3)])
      fix a
      assume a: "a \<in> set (ch b)"
      have "a \<noteq> r" using root_free [OF l r, of b] a by auto
      with same [OF desc_child [OF b a]] show "cells h a = cells g a" by simp
    qed
    with k r top same [OF b] show "\<exists>n. cells h b = Some n \<and> n_firstChild n = first_of (ch b) None \<and> nexts (cells h) (ch b)"
      by (cases "b = r") auto
  qed
  from delete_node_ok [OF f fin this]
  show "delete_node r h = Inr (h\<lparr>cells := (cells h) |` (- desc ch r)\<rparr>)" .
  show "dom_ok (g\<lparr>cells := (cells g) |` (- desc ch r)\<rparr>) (without (desc ch r) ch)"
    using links_drop [OF l r] d unfolding without_def dom_ok_def by (auto simp: restrict_map_def split: if_splits)
qed

lemma desc_upd_above: "forest ch \<Longrightarrow> r \<in> set (ch p) \<Longrightarrow> desc (ch(p := xs)) r = desc ch r"
  using not_below_self [of ch r p] by (intro desc_cong) auto

lemma restrict_same:
  assumes "r \<in> D" "\<And>x. x \<noteq> r \<Longrightarrow> c x = c' x"
  shows "c |` (- D) = c' |` (- D)"
proof
  fix x
  show "(c |` (- D)) x = (c' |` (- D)) x" using assms by (cases "x = r") (auto simp: restrict_map_def)
qed

lemma contents_dropped: "contents (h\<lparr>cells := (relink p ys gone mid zs (cells h)) |` S\<rparr>) = (contents h) |` S"
  by (auto simp: contents_def relink_def restrict_map_def fun_eq_iff option.map_comp comp_def)

lemma RemoveChild_ok:
  assumes d: "dom_ok h ch" and r: "r \<in> set (ch this)"
  shows "\<exists>h'. RemoveChild (Some r) this h = Inr (True, h') \<and>
    dom_ok h' (without (desc ch r) (ch(this := remove1 r (ch this)))) \<and> next_addr h' = next_addr h \<and>
    contents h' = (contents h) |` (- desc ch r)"
proof -
  have l: "links_ok (cells h) ch" using d by (simp add: dom_ok_def)
  have f: "forest ch" using l by (simp add: links_ok_def)
  obtain ys zs where s: "ch this = ys @ r # zs" "r \<notin> set ys" "r \<notin> set zs" using child_split [OF l r] by blast
  obtain n t where n: "cells h r = Some n" "n_parent n = Some this" "cells h this = Some t" "this \<notin> set (ys @ r # zs)"
      "distinct (ys @ r # zs)"
    using child_cell [OF l s(1)] by metis
  let ?ch = "ch(this := ys @ [] @ zs)" and ?c = "relink this ys [r] [] zs (cells h)"
  let ?g = "h\<lparr>cells := ?c\<rparr>"
  have f1: "forest ?ch" by (rule forest_less [OF f]) (use s(1) n(5) in auto)
  have d1: "dom_ok ?g ?ch"
    by (rule dom_ok_relink [OF d, of this ys "[r]" zs "[]" t]) (use s(1) f1 n in simp_all)
  have D: "desc (ch(this := ys @ zs)) r = desc ch r" by (rule desc_upd_above [OF f r])
  obtain c where c: "unlink r this h = Inr (h\<lparr>cells := c\<rparr>)" "c r = cells h r" "\<forall>x. x \<noteq> r \<longrightarrow> c x = ?c x"
    using unlink_relink [OF l s(1)] by blast
  have g: "cells ?g r = Some (n\<lparr>n_parent := None, n_prev := None, n_next := None\<rparr>)"
    using n(1) by (simp add: relink_def relink_cell_def)
  have "delete_node r (h\<lparr>cells := c\<rparr>) = Inr (h\<lparr>cells := c |` (- desc ch r)\<rparr>)"
    using delete_detached(1) [OF d1 _ g, of "h\<lparr>cells := c\<rparr>" n] c n(1) by (simp add: D)
  moreover have "c |` (- desc ch r) = ?c |` (- desc ch r)"
    by (rule restrict_same [of r]) (use c(3) in auto)
  ultimately have "RemoveChild (Some r) this h = Inr (True, h\<lparr>cells := ?c |` (- desc ch r)\<rparr>)"
    using n c by (simp add: RemoveChild_def node_at_simp)
  moreover have "dom_ok (h\<lparr>cells := ?c |` (- desc ch r)\<rparr>) (without (desc ch r) (ch(this := remove1 r (ch this))))"
    using delete_detached(2) [OF d1 _ g, of "h\<lparr>cells := c\<rparr>" n] c n(1) s by (simp add: D remove1_append)
  ultimately show ?thesis by (auto simp: contents_dropped)
qed

section \<open>Putting in\<close>

text \<open>A root that can become a child of \<open>this\<close>.\<close>

definition can_join :: "dom \<Rightarrow> (naddr \<Rightarrow> naddr list) \<Rightarrow> naddr \<Rightarrow> naddr \<Rightarrow> bool" where
  "can_join h ch node this \<longleftrightarrow>
     (\<exists>n. cells h node = Some n \<and> n_parent n = None \<and> n_type n \<noteq> TINYXML_DOCUMENT) \<and> cells h this \<noteq> None \<and>
     this \<notin> desc ch node"

lemma place_ok:
  assumes d: "dom_ok h ch" and j: "can_join h ch node this" and s: "ch this = ys @ zs"
  shows "dom_ok (h\<lparr>cells := relink this ys [] [node] zs (cells h)\<rparr>) (ch(this := ys @ node # zs))"
proof -
  have l: "links_ok (cells h) ch" and f: "forest ch" using d by (simp_all add: dom_ok_def links_ok_def)
  from j obtain n t where n: "cells h node = Some n" "n_parent n = None" "n_type n \<noteq> TINYXML_DOCUMENT"
      "cells h this = Some t" "this \<notin> desc ch node" by (auto simp: can_join_def)
  have "distinct (ys @ zs)" using f s unfolding forest_def by metis
  then have "forest (ch(this := ys @ node # zs))"
    by (intro forest_insert [OF f root_free [OF l n(1,2)] n(5)])
      (use s root_free [OF l n(1,2), of this] in auto)
  with dom_ok_relink [OF d, of this ys "[]" zs "[node]" t] n s show ?thesis by simp
qed

lemma join_steps:
  assumes d: "dom_ok h ch" and j: "can_join h ch node this"
  shows "LinkEndChild node this h = Inr (Some node, h\<lparr>cells := relink this (ch this) [] [node] [] (cells h)\<rparr>)"
    "ch this = ys @ b # zs \<Longrightarrow>
      link_before node b this h = Inr (h\<lparr>cells := relink this ys [] [node] (b # zs) (cells h)\<rparr>)"
    "ch this = ys @ b # zs \<Longrightarrow>
      link_after node b this h = Inr (h\<lparr>cells := relink this (ys @ [b]) [] [node] zs (cells h)\<rparr>)"
proof -
  have l: "links_ok (cells h) ch" using d by (simp add: dom_ok_def)
  from j obtain n t where n: "cells h node = Some n" "n_parent n = None" "n_type n \<noteq> TINYXML_DOCUMENT"
      "cells h this = Some t" "this \<notin> desc ch node" by (auto simp: can_join_def)
  have ne: "node \<noteq> this" using n(5) by auto
  show "LinkEndChild node this h = Inr (Some node, h\<lparr>cells := relink this (ch this) [] [node] [] (cells h)\<rparr>)"
    by (rule LinkEndChild_relink(1) [OF d n])
  show "link_before node b this h = Inr (h\<lparr>cells := relink this ys [] [node] (b # zs) (cells h)\<rparr>)"
    if "ch this = ys @ b # zs" by (rule link_before_relink [OF l that n(1,2) ne])
  show "link_after node b this h = Inr (h\<lparr>cells := relink this (ys @ [b]) [] [node] zs (cells h)\<rparr>)"
    if "ch this = ys @ b # zs" by (rule link_after_relink [OF l that n(1,2) ne])
qed

lemma replace_steps:
  assumes d: "dom_ok h ch" and j: "can_join h ch node this" and s: "ch this = ys @ r # zs"
  defines "D \<equiv> desc ch r"
  shows "\<exists>h1 h2 h'. splice node r this h = Inr h1 \<and> delete_node r h1 = Inr h2 \<and>
    upd node (\<lambda>n. n\<lparr>n_parent := Some this\<rparr>) h2 = Inr h' \<and> next_addr h' = next_addr h \<and>
    dom_ok h' (without D (ch(this := ys @ node # zs))) \<and> contents h' = (contents h) |` (- D)"
proof -
  have l: "links_ok (cells h) ch" and f: "forest ch" using d by (simp_all add: dom_ok_def links_ok_def)
  from j obtain n t where n: "cells h node = Some n" "n_parent n = None" "n_type n \<noteq> TINYXML_DOCUMENT"
      "cells h this = Some t" "this \<notin> desc ch node" by (auto simp: can_join_def)
  have ne: "node \<noteq> this" using n(5) by auto
  obtain m where m: "cells h r = Some m" "n_parent m = Some this" "this \<notin> set (ys @ r # zs)" "distinct (ys @ r # zs)"
    using child_cell [OF l s] by metis
  have rt: "r \<in> set (ch this)" using s by simp
  have free: "node \<notin> set (ch q)" for q by (rule root_free [OF l n(1,2)])
  have nD: "node \<notin> D"
  proof
    assume "node \<in> D"
    then have "(node, r) \<in> (below ch)\<^sup>*" by (simp add: D_def desc_def)
    then show False
      by (cases rule: converse_rtranclE) (use free [of this] rt free in \<open>auto simp: below_def\<close>)
  qed
  let ?xs = "ys @ [node] @ zs"
  let ?ch = "ch(this := ?xs)" and ?c = "relink this ys [r] [node] zs (cells h)"
  let ?g = "h\<lparr>cells := ?c\<rparr>" and ?less = "ch(this := ys @ zs)"
  have f0: "forest ?less" by (rule forest_less [OF f]) (use s m(4) in auto)
  have "desc ?less node = desc ch node" by (rule desc_cong) (use n(5) in auto)
  then have "forest (?less(this := ?xs))"
    by (intro forest_insert [OF f0, of node]) (use n(5) free s m(4) free [of this] in \<open>auto split: if_splits\<close>)
  then have f1: "forest ?ch" by simp
  have d1: "dom_ok ?g ?ch"
    by (rule dom_ok_relink [OF d, of this ys "[r]" zs "[node]" t]) (use s f1 n free [of this] in auto)
  have D: "desc (ch(this := ys @ node # zs)) r = D" unfolding D_def by (rule desc_upd_above [OF f rt])
  obtain c k where c: "splice node r this h = Inr (h\<lparr>cells := c\<rparr>)" "c r = cells h r"
      "\<forall>x. x \<noteq> r \<longrightarrow> x \<noteq> node \<longrightarrow> c x = ?c x" "c node = Some k" "?c node = Some (k\<lparr>n_parent := Some this\<rparr>)"
    using splice_relink [OF l s n(1,2) ne] by blast
  have nr: "node \<noteq> r" using free [of this] rt by auto
  have g: "cells ?g r = Some (m\<lparr>n_parent := None, n_prev := None, n_next := None\<rparr>)"
    using m(1) nr by (simp add: relink_def relink_cell_def)
  have same: "x \<in> D \<Longrightarrow> x \<noteq> r \<Longrightarrow> c x = ?c x" for x using c(3) nD by auto
  have del: "delete_node r (h\<lparr>cells := c\<rparr>) = Inr (h\<lparr>cells := c |` (- D)\<rparr>)"
    using delete_detached(1) [OF d1 _ g, of "h\<lparr>cells := c\<rparr>" m] c(2) m(1) same by (simp add: D)
  have "(c |` (- D))(node \<mapsto> k\<lparr>n_parent := Some this\<rparr>) = ?c |` (- D)"
  proof
    fix x
    show "((c |` (- D))(node \<mapsto> k\<lparr>n_parent := Some this\<rparr>)) x = (?c |` (- D)) x"
      using c(3,5) nD desc_self [of r ch] unfolding D_def
      by (cases "x = node"; cases "x = r") (auto simp: restrict_map_def)
  qed
  with c(4) nD have "upd node (\<lambda>n. n\<lparr>n_parent := Some this\<rparr>) (h\<lparr>cells := c |` (- D)\<rparr>) = Inr (h\<lparr>cells := ?c |` (- D)\<rparr>)"
    by (simp add: upd_simp restrict_map_def)
  moreover have "dom_ok (h\<lparr>cells := ?c |` (- D)\<rparr>) (without D (ch(this := ys @ node # zs)))"
    using delete_detached(2) [OF d1 _ g, of "h\<lparr>cells := c\<rparr>" m] c(2) m(1) same by (simp add: D)
  ultimately show ?thesis using c(1) del by (auto simp: contents_dropped)
qed

section \<open>Clearing\<close>

lemma family_parent:
  assumes l: "links_ok c ch" and a: "a \<in> family ch (ch p)" and x: "a \<in> set (ch x)"
  shows "x = p \<or> x \<in> family ch (ch p)"
proof -
  from a obtain b where b: "b \<in> set (ch p)" "(a, b) \<in> (below ch)\<^sup>*" by (auto simp: family_def desc_def)
  from b(2) show ?thesis
  proof (cases rule: converse_rtranclE)
    case base
    with b(1) x l show ?thesis by (auto simp: links_ok_def forest_def)
  next
    case (step z)
    with x l have "z = x" by (auto simp: links_ok_def forest_def below_def)
    with step b(1) show ?thesis by (auto simp: family_def desc_def)
  qed
qed

lemma Clear_ok:
  assumes d: "dom_ok h ch" and t: "cells h this = Some t"
  defines "D \<equiv> family ch (ch this)"
  shows "\<exists>h'. Node_Clear this h = Inr h' \<and> dom_ok h' (without D (ch(this := []))) \<and>
    next_addr h' = next_addr h \<and> contents h' = (contents h) |` (- D)"
proof -
  have l: "links_ok (cells h) ch" and f: "forest ch" using d by (simp_all add: dom_ok_def links_ok_def)
  have nz: "cells h this \<noteq> None" using t by simp
  have tD: "this \<notin> D" unfolding D_def by (rule not_in_family [OF f])
  have sub: "D \<subseteq> desc ch this" unfolding D_def desc_family [of ch this] by blast
  have fin: "finite D" "card D \<le> next_addr h"
    using dom_finite [OF d nz] sub by (auto intro: finite_subset order_trans [OF card_mono])
  have o: "node_ok (cells h) ch this t" using l t by (simp add: links_ok_def)
  then have nx: "nexts (cells h) (ch this)" by (auto simp: node_ok_def intro: seg_nexts)
  have rd: "readable (cells h) ch D"
    by (rule links_readable [OF l links_desc [OF l nz]]) (use sub in blast)
  have del: "delete_chain (next_addr h) (n_firstChild t) h = Inr (h\<lparr>cells := (cells h) |` (- D)\<rparr>)"
    using delete_chain_ok [OF f, of "ch this" "next_addr h" h] fin rd nx children_apart [OF f] o
    unfolding D_def by (simp add: node_ok_def)
  let ?t = "t\<lparr>n_firstChild := None, n_lastChild := None\<rparr>"
  let ?c = "((cells h) |` (- D))(this \<mapsto> ?t)" and ?ch = "without D (ch(this := []))"
  have run: "Node_Clear this h = Inr (h\<lparr>cells := ?c\<rparr>)"
    using t tD del by (simp add: Node_Clear_def node_at_simp upd_simp restrict_map_def)
  have "forest ?ch"
    by (rule forest_subset [OF f]) (use f in \<open>auto simp: without_def forest_def\<close>)
  moreover have "?ch a = []" if "?c a = None" for a
    using that l by (auto simp: without_def links_ok_def restrict_map_def split: if_splits)
  moreover have "node_ok ?c ?ch a m" if m: "?c a = Some m" for a m
  proof -
    obtain k where k: "cells h a = Some k" "a \<notin> D" "n_parent m = n_parent k" "n_prev m = n_prev k" "n_next m = n_next k"
        "n_type m = n_type k" "a \<noteq> this \<longrightarrow> m = k" "a = this \<longrightarrow> m = ?t"
      using m t tD by (auto simp: restrict_map_def n_type_def split: if_splits)
    have ok: "node_ok (cells h) ch a k" using l k(1) by (simp add: links_ok_def)
    have "a \<in> set (?ch q)" if "n_parent m = Some q" for q
    proof -
      have q: "a \<in> set (ch q)" using ok that k(3) by (simp add: node_ok_def)
      have "q \<noteq> this" using q k(2) in_family [of a "ch this" ch] by (auto simp: D_def)
      moreover have "q \<notin> D" using q k(2) family_closed [of q ch "ch this" a] by (auto simp: D_def)
      ultimately show ?thesis using q by (simp add: without_def)
    qed
    moreover have "n_firstChild m = first_of (?ch a) None \<and> n_lastChild m = last_of None (?ch a) \<and> seg ?c a None (?ch a) None"
    proof (cases "a = this")
      case True
      with k(8) tD show ?thesis by (simp add: without_def)
    next
      case False
      have "seg ?c a None (ch a) None"
      proof (rule seg_cong [of "cells h"])
        show "seg (cells h) a None (ch a) None" using ok by (simp add: node_ok_def)
        fix x n
        assume x: "x \<in> set (ch a)" "cells h x = Some n"
        have "x \<notin> D"
          using family_parent [OF l _ x(1), of this] False k(2) unfolding D_def by blast
        with x(2) t show "\<exists>m. ?c x = Some m \<and> n_parent m = n_parent n \<and> n_prev m = n_prev n \<and> n_next m = n_next n"
          by (cases "x = this") (auto simp: restrict_map_def)
      qed
      with False k ok show ?thesis by (simp add: without_def node_ok_def)
    qed
    ultimately show ?thesis using ok k by (simp add: node_ok_def)
  qed
  ultimately have "links_ok ?c ?ch" by (simp add: links_ok_def)
  then have "dom_ok (h\<lparr>cells := ?c\<rparr>) ?ch"
    using d t by (auto simp: dom_ok_def restrict_map_def split: if_splits)
  moreover have "contents (h\<lparr>cells := ?c\<rparr>) = (contents h) |` (- D)"
    using t tD by (auto simp: contents_def restrict_map_def fun_eq_iff payload_def)
  ultimately show ?thesis using run by auto
qed

section \<open>Edits\<close>

lemma cloned_join:
  assumes d: "dom_ok h ch" and cl: "clonable h" and n: "cells h add = Some n" "n_type n \<noteq> TINYXML_DOCUMENT"
    and t: "cells h this \<noteq> None"
  shows "\<exists>h1 ch1 s. read_tree add h = Inr s \<and> Clone add h = Inr (next_addr h, h1) \<and> dom_ok h1 ch1 \<and> clonable h1 \<and>
    old_kept {..<next_addr h} h ch h1 ch1 \<and> can_join h1 ch1 (next_addr h) this \<and>
    depicts h1 ch1 (next_addr h) (clone_tree s) \<and>
    (\<forall>x < next_addr h. desc ch1 x = desc ch x) \<and> (\<forall>x < next_addr h. x \<notin> desc ch1 (next_addr h))"
proof -
  let ?b = "next_addr h"
  have l: "links_ok (cells h) ch" using d by (simp add: dom_ok_def)
  have nz: "cells h add \<noteq> None" using n by simp
  obtain s where s: "depicts h ch add s" using depicts_exists [OF l nz dom_finite(1) [OF d nz]] by blast
  from Clone_ok [OF d cl nz s] obtain h1 ch1 m where
    1: "Clone add h = Inr (?b, h1)" "dom_ok h1 ch1" "clonable h1" "old_kept {..<?b} h ch h1 ch1" "cells h1 ?b = Some m"
      "n_parent m = None" "depicts h1 ch1 ?b (clone_tree s)" by blast
  have l1: "links_ok (cells h1) ch1" using 1(2) by (simp add: dom_ok_def)
  have old: "cells h1 x = cells h x" "ch1 x = ch x" if "x < ?b" for x using 1(4) that by (simp_all add: old_kept_def)
  have up: "z < ?b" if x: "x < ?b" "x \<in> set (ch1 z)" for x z
  proof -
    obtain k where k: "cells h1 x = Some k" "n_parent k = Some z" using links_child(1) [OF l1 x(2)] by blast
    with old(1) [OF x(1)] have "cells h x = Some k" by simp
    with l have "node_ok (cells h) ch x k" by (simp add: links_ok_def)
    with k(2) have "x \<in> set (ch z)" by (simp add: node_ok_def)
    with links_child(2) [OF l] d show ?thesis by (auto simp: dom_ok_def)
  qed
  have above: "x \<notin> desc ch1 ?b" if "x < ?b" for x
  proof
    assume "x \<in> desc ch1 ?b"
    then have "(x, ?b) \<in> (below ch1)\<^sup>*" by (simp add: desc_def)
    then show False using that
      by (induction rule: converse_rtrancl_induct) (auto simp: below_def dest: up)
  qed
  have dsc: "desc ch1 x = desc ch x" if x: "x < ?b" for x
  proof (rule desc_cong)
    fix y
    assume y: "y \<in> desc ch x"
    have "y < ?b"
    proof (cases "cells h x")
      case None
      with l have "ch x = []" by (simp add: links_ok_def)
      with y x show ?thesis by (simp add: desc_unfold [of ch x])
    next
      case (Some k)
      with links_desc [OF l _ y] d show ?thesis by (simp add: dom_ok_def)
    qed
    then show "ch1 y = ch y" by (rule old(2))
  qed
  have tb: "this < ?b" using d t by (simp add: dom_ok_def)
  have "n_type m = n_type n"
  proof -
    obtain us where "s = PNode (payload n) us" using s n(1) by (auto elim!: depicts_tree simp: contents_def)
    then have "payload m = clone_payload (payload n)" using 1(5,7) by (auto elim!: depicts_tree simp: contents_def)
    then show ?thesis by (rule payload_type)
  qed
  then have "can_join h1 ch1 ?b this" using 1(5,6) n(2) t old(1) [OF tb] above [OF tb] by (simp add: can_join_def)
  with 1 read_tree_ok [OF d nz s] dsc above show ?thesis by blast
qed

end
