(* ===== verification/Xml_Edits.thy ===== *)
theory Xml_Edits
  imports Xml_Ops
begin

text \<open>
  The edits of a tree as steps of a machine, what each does to the children, and the properties of
  the editing operations.
\<close>

section \<open>Edits as steps\<close>

text \<open>
  The node that is inserted is \<open>add\<close>, the child an edit refers to is \<open>b\<close>; the node whose children
  change is an argument of the step.
\<close>

datatype edit =
    Append naddr | Before naddr naddr | After naddr naddr | Replace naddr naddr | Remove naddr | Clear_all

definition do_edit :: "naddr \<times> edit \<Rightarrow> dom \<Rightarrow> dom outcome" where
  "do_edit te h =
     (case te of (this, e) \<Rightarrow>
      bindE (node_at this h) (\<lambda>_.
      case e of
        Append add \<Rightarrow> bindE (InsertEndChild add this h) (\<lambda>(_, h). Inr h)
      | Before b add \<Rightarrow> bindE (InsertBeforeChild (Some b) add this h) (\<lambda>(_, h). Inr h)
      | After b add \<Rightarrow> bindE (InsertAfterChild (Some b) add this h) (\<lambda>(_, h). Inr h)
      | Replace b add \<Rightarrow> bindE (ReplaceChild (Some b) add this h) (\<lambda>(_, h). Inr h)
      | Remove b \<Rightarrow> bindE (RemoveChild (Some b) this h) (\<lambda>(_, h). Inr h)
      | Clear_all \<Rightarrow> Node_Clear this h))"

fun added :: "edit \<Rightarrow> naddr option" where
  "added (Append add) = Some add"
| "added (Before b add) = Some add"
| "added (After b add) = Some add"
| "added (Replace b add) = Some add"
| "added _ = None"

fun child_named :: "edit \<Rightarrow> naddr option" where
  "child_named (Before b add) = Some b"
| "child_named (After b add) = Some b"
| "child_named (Replace b add) = Some b"
| "child_named (Remove b) = Some b"
| "child_named _ = None"

fun taken :: "edit \<Rightarrow> naddr list \<Rightarrow> naddr list" where
  "taken (Replace b add) xs = [b]"
| "taken (Remove b) xs = [b]"
| "taken Clear_all xs = xs"
| "taken _ xs = []"

text \<open>The edit of a list that each stands for; \<open>nu\<close> is the new node.\<close>

fun new_kids :: "edit \<Rightarrow> naddr \<Rightarrow> naddr list \<Rightarrow> naddr list" where
  "new_kids (Append add) nu xs = xs @ [nu]"
| "new_kids (Before b add) nu xs = concat (map (\<lambda>x. if x = b then [nu, x] else [x]) xs)"
| "new_kids (After b add) nu xs = concat (map (\<lambda>x. if x = b then [x, nu] else [x]) xs)"
| "new_kids (Replace b add) nu xs = map (\<lambda>x. if x = b then nu else x) xs"
| "new_kids (Remove b) nu xs = filter (\<lambda>x. x \<noteq> b) xs"
| "new_kids Clear_all nu xs = []"

definition edit_fits :: "edit \<Rightarrow> naddr \<Rightarrow> dom \<Rightarrow> bool" where
  "edit_fits e this h \<longleftrightarrow> cells h this \<noteq> None \<and>
     (case child_named e of None \<Rightarrow> True | Some b \<Rightarrow> b \<in> set (kids h this)) \<and>
     (case added e of None \<Rightarrow> True
      | Some a \<Rightarrow> (case cells h a of None \<Rightarrow> False | Some n \<Rightarrow> n_type n \<noteq> TINYXML_DOCUMENT))"

definition freed :: "edit \<Rightarrow> naddr \<Rightarrow> dom \<Rightarrow> naddr set" where
  "freed e this h = family (kids h) (taken e (kids h this))"

text \<open>What holds of a tree that was edited.\<close>

definition edited :: "edit \<Rightarrow> naddr \<Rightarrow> dom \<Rightarrow> dom \<Rightarrow> bool" where
  "edited e this h h' \<longleftrightarrow> dom_inv h' \<and> clonable h' \<and>
     kids h' this = new_kids e (next_addr h) (kids h this) \<and>
     (\<forall>x < next_addr h.
        if x \<in> freed e this h then cells h' x = None
        else contents h' x = contents h x \<and> (x = this \<or> kids h' x = kids h x)) \<and>
     (\<forall>a. added e = Some a \<longrightarrow> (\<exists>s. read_tree a h = Inr s \<and> read_tree (next_addr h) h' = Inr (clone_tree s)))"

lemma clonable_less: "clonable h \<Longrightarrow> contents h' = contents h |` S \<Longrightarrow> clonable h'"
  unfolding clonable_def by (simp add: restrict_map_def)

lemma contents_None: "contents h a = None \<longleftrightarrow> cells h a = None"
  by (simp add: contents_def)

lemma concat_single: "b \<notin> set xs \<Longrightarrow> concat (map (\<lambda>x. if x = b then f x else [x]) xs) = xs"
  by (induction xs) auto

lemma map_single: "b \<notin> set xs \<Longrightarrow> map (\<lambda>x. if x = b then y else x) xs = xs"
  by (induction xs) auto

section \<open>Every edit does what it stands for\<close>

lemma insert_edited:
  assumes d: "dom_ok h (kids h)" and a: "added e = Some add" and t: "cells h this \<noteq> None"
    and s: "read_tree add h = Inr s" and k: "old_kept {..<next_addr h} h (kids h) h1 ch1" and cl: "clonable h1"
    and j: "can_join h1 ch1 (next_addr h) this"
    and p: "depicts h1 ch1 (next_addr h) (clone_tree s)"
    and ab: "\<forall>x < next_addr h. x \<notin> desc ch1 (next_addr h)"
    and h': "dom_ok h' (without (freed e this h) (ch1(this := new_kids e (next_addr h) (kids h this))))"
      "contents h' = (contents h1) |` (- freed e this h)"
    and f: "freed e this h \<subseteq> {..<next_addr h}" "this \<notin> freed e this h"
  shows "edited e this h h'"
proof -
  let ?b = "next_addr h" and ?D = "freed e this h"
  let ?ch = "without ?D (ch1(this := new_kids e ?b (kids h this)))"
  have tb: "this < ?b" using d t by (simp add: dom_ok_def)
  have kd: "kids h' = ?ch" by (rule dom_ok_kids [OF h'(1)])
  have old: "cells h1 x = cells h x" "ch1 x = kids h x" if "x < ?b" for x using k that by (simp_all add: old_kept_def)
  have "kids h' this = new_kids e ?b (kids h this)" using f(2) by (simp add: kd without_def)
  moreover have "if x \<in> ?D then cells h' x = None else contents h' x = contents h x \<and> (x = this \<or> kids h' x = kids h x)"
    if x: "x < ?b" for x
  proof (cases "x \<in> ?D")
    case True
    then have "contents h' x = None" by (simp add: h'(2))
    with True show ?thesis by (simp add: contents_None)
  next
    case False
    moreover have "contents h1 x = contents h x" using old(1) [OF x] by (simp add: contents_def)
    ultimately show ?thesis using old(2) [OF x] by (simp add: h'(2) kd without_def)
  qed
  moreover have "depicts h' ?ch ?b (clone_tree s)"
  proof (rule depicts_cong [OF p])
    fix x
    assume "x \<in> desc ch1 ?b"
    with ab have "\<not> x < ?b" by blast
    then have "x \<notin> ?D" "x \<noteq> this" using f(1) tb by auto
    then show "contents h' x = contents h1 x \<and> ?ch x = ch1 x" by (simp add: h'(2) without_def)
  qed
  moreover have "cells h' ?b \<noteq> None"
  proof -
    have "?b \<notin> ?D" using f(1) by auto
    moreover have "contents h1 ?b \<noteq> None" using j by (auto simp: can_join_def contents_def)
    ultimately show ?thesis using h'(2) by (metis contents_None restrict_in ComplI)
  qed
  ultimately show ?thesis
    using read_tree_ok [OF h'(1)] dom_ok_inv [OF h'(1)] clonable_less [OF cl h'(2)] a s by (simp add: edited_def)
qed

lemma without_none [simp]: "without {} ch = ch"
  by (simp add: without_def fun_eq_iff)

lemma restrict_all [simp]: "m |` (- {}) = m"
  by (simp add: restrict_map_def)

text \<open>The three insertions: they relink the clone into the list, and free nothing.\<close>

lemma place_edited:
  assumes d: "dom_ok h (kids h)" and a: "added e = Some add" "taken e (kids h this) = []" and t: "cells h this \<noteq> None"
    and s: "read_tree add h = Inr s" and k: "old_kept {..<next_addr h} h (kids h) h1 ch1" and cl: "clonable h1"
    and d1: "dom_ok h1 ch1" and j: "can_join h1 ch1 (next_addr h) this"
    and p: "depicts h1 ch1 (next_addr h) (clone_tree s)"
    and ab: "\<forall>x < next_addr h. x \<notin> desc ch1 (next_addr h)"
    and xs: "kids h this = ys @ zs" "new_kids e (next_addr h) (kids h this) = ys @ next_addr h # zs"
  shows "edited e this h (h1\<lparr>cells := relink this ys [] [next_addr h] zs (cells h1)\<rparr>)"
proof -
  let ?h = "h1\<lparr>cells := relink this ys [] [next_addr h] zs (cells h1)\<rparr>"
  have fr: "freed e this h = {}" by (simp add: freed_def a(2))
  have "this < next_addr h" using d t by (simp add: dom_ok_def)
  with k xs(1) have "ch1 this = ys @ zs" by (simp add: old_kept_def)
  from place_ok [OF d1 j this]
  have "dom_ok ?h (without (freed e this h) (ch1(this := new_kids e (next_addr h) (kids h this))))" by (simp only: fr without_none xs(2))
  moreover have "contents ?h = (contents h1) |` (- freed e this h)" by (simp only: fr restrict_all contents_relink)
  ultimately show ?thesis by (rule insert_edited [OF d a(1) t s k cl j p ab]) (simp_all add: fr)
qed

lemma with_clone_simp:
  "cells h add = Some n \<Longrightarrow> n_type n \<noteq> TINYXML_DOCUMENT \<Longrightarrow> Clone add h = Inr (b, h1) \<Longrightarrow>
   with_clone add this f h = f b h1"
  by (simp add: with_clone_def node_at_simp)

lemma if_child_simp: "cells h c = Some n \<Longrightarrow> n_parent n = Some this \<Longrightarrow> if_child (Some c) this f h = f c"
  by (simp add: if_child_def node_at_simp)

lemma edit_ok:
  assumes i: "dom_inv h" and cl: "clonable h" and fit: "edit_fits e this h"
  shows "\<exists>h'. do_edit (this, e) h = Inr h' \<and> edited e this h h'"
proof -
  have d: "dom_ok h (kids h)" using i by (simp add: dom_inv_def)
  have l: "links_ok (cells h) (kids h)" and f: "forest (kids h)" using d by (simp_all add: dom_ok_def links_ok_def)
  obtain t where t: "cells h this = Some t" using fit by (auto simp: edit_fits_def)
  have nz: "cells h this \<noteq> None" using t by simp
  let ?b = "next_addr h" and ?xs = "kids h this"
  have split: "\<exists>ys zs. ?xs = ys @ b # zs \<and> b \<notin> set ys \<and> b \<notin> set zs" if "b \<in> set ?xs" for b
    using child_split [OF l that] by metis
  have frD: "freed e this h \<subseteq> {..<?b}" "this \<notin> freed e this h" if "set (taken e ?xs) \<subseteq> set ?xs"
  proof -
    have "freed e this h \<subseteq> family (kids h) ?xs" using that by (auto simp: freed_def family_def)
    moreover have "this \<notin> family (kids h) ?xs" by (rule not_in_family [OF f])
    moreover have "x < ?b" if "x \<in> family (kids h) ?xs" for x
    proof -
      have "x \<in> desc (kids h) this" using that by (simp add: desc_family [of "kids h" this])
      with links_desc [OF l nz] d show ?thesis by (simp add: dom_ok_def)
    qed
    ultimately show "freed e this h \<subseteq> {..<?b}" "this \<notin> freed e this h" by auto
  qed
  have lone: "edited e this h h'"
    if "added e = None" "dom_ok h' (without (freed e this h) ((kids h)(this := new_kids e ?b ?xs)))"
      "contents h' = (contents h) |` (- freed e this h)" "this \<notin> freed e this h" for h'
    using that dom_ok_kids [OF that(2)] dom_ok_inv [OF that(2)] clonable_less [OF cl that(3)]
    by (auto simp: edited_def without_def contents_None [symmetric])
  show ?thesis
  proof (cases "added e")
    case None
    show ?thesis
    proof (cases e)
      case (Remove b)
      with fit have b: "b \<in> set ?xs" by (simp add: edit_fits_def)
      obtain ys zs where s: "?xs = ys @ b # zs" "b \<notin> set ys" "b \<notin> set zs" using split [OF b] by blast
      have "filter (\<lambda>x. x \<noteq> b) ys = ys" "filter (\<lambda>x. x \<noteq> b) zs = zs" using s by (auto intro!: filter_True)
      with s Remove have "remove1 b ?xs = new_kids e ?b ?xs" by (simp add: remove1_append)
      moreover have "freed e this h = desc (kids h) b" by (simp add: freed_def Remove)
      ultimately obtain h' where "RemoveChild (Some b) this h = Inr (True, h')"
          "dom_ok h' (without (freed e this h) ((kids h)(this := new_kids e ?b ?xs)))"
          "contents h' = (contents h) |` (- freed e this h)"
        using RemoveChild_ok [OF d b] by auto
      with lone [OF None] frD(2) b Remove show ?thesis by (auto simp: do_edit_def t node_at_simp)
    next
      case Clear_all
      have "freed e this h = family (kids h) ?xs" by (simp add: freed_def Clear_all)
      with Clear_ok [OF d t] Clear_all obtain h' where "Node_Clear this h = Inr h'"
          "dom_ok h' (without (freed e this h) ((kids h)(this := new_kids e ?b ?xs)))"
          "contents h' = (contents h) |` (- freed e this h)"
        by auto
      with lone [OF None] frD(2) Clear_all show ?thesis by (auto simp: do_edit_def t node_at_simp)
    qed (use None in simp_all)
  next
    case (Some add)
    with fit obtain n where n: "cells h add = Some n" "n_type n \<noteq> TINYXML_DOCUMENT"
      by (auto simp: edit_fits_def split: option.splits)
    obtain h1 ch1 s where c: "read_tree add h = Inr s" "Clone add h = Inr (?b, h1)" "dom_ok h1 ch1" "clonable h1"
        "old_kept {..<?b} h (kids h) h1 ch1" "can_join h1 ch1 ?b this" "depicts h1 ch1 ?b (clone_tree s)"
        "\<forall>x < ?b. desc ch1 x = desc (kids h) x" "\<forall>x < ?b. x \<notin> desc ch1 ?b"
      using cloned_join [OF d cl n nz] by blast
    have tb: "this < ?b" using d t by (simp add: dom_ok_def)
    then have ch1: "ch1 this = ?xs" using c(5) by (simp add: old_kept_def)
    note wc = with_clone_simp [OF n c(2)]
    note place = place_edited [OF d Some _ nz c(1,5,4,3,6,7,9)]
    have chld: "if_child (Some x) this g h = g x" if x: "x \<in> set ?xs" for x g
      using links_child(1) [OF l x] if_child_simp by blast
    show ?thesis
    proof (cases e)
      case (Append a)
      with Some have a: "a = add" by simp
      have "edited e this h (h1\<lparr>cells := relink this ?xs [] [?b] [] (cells h1)\<rparr>)"
        by (rule place) (simp_all add: Append)
      with a wc join_steps(1) [OF c(3,6)] ch1 show ?thesis by (simp add: Append InsertEndChild_def do_edit_def t node_at_simp)
    next
      case (Before b a)
      with Some have a: "a = add" by simp
      from fit Before have b: "b \<in> set ?xs" by (simp add: edit_fits_def)
      obtain ys zs where s: "?xs = ys @ b # zs" "b \<notin> set ys" "b \<notin> set zs" using split [OF b] by blast
      have "edited e this h (h1\<lparr>cells := relink this ys [] [?b] (b # zs) (cells h1)\<rparr>)"
        by (rule place) (use s in \<open>simp_all add: Before concat_single\<close>)
      with a wc join_steps(2) [OF c(3,6), of ys b zs] ch1 s(1) chld [OF b] show ?thesis
        by (simp add: Before InsertBeforeChild_def do_edit_def t node_at_simp)
    next
      case (After b a)
      with Some have a: "a = add" by simp
      from fit After have b: "b \<in> set ?xs" by (simp add: edit_fits_def)
      obtain ys zs where s: "?xs = ys @ b # zs" "b \<notin> set ys" "b \<notin> set zs" using split [OF b] by blast
      have "edited e this h (h1\<lparr>cells := relink this (ys @ [b]) [] [?b] zs (cells h1)\<rparr>)"
        by (rule place) (use s in \<open>simp_all add: After concat_single\<close>)
      with a wc join_steps(3) [OF c(3,6), of ys b zs] ch1 s(1) chld [OF b] show ?thesis
        by (simp add: After InsertAfterChild_def do_edit_def t node_at_simp)
    next
      case (Replace b a)
      with Some have a: "a = add" by simp
      from fit Replace have b: "b \<in> set ?xs" by (simp add: edit_fits_def)
      obtain ys zs where s: "?xs = ys @ b # zs" "b \<notin> set ys" "b \<notin> set zs" using split [OF b] by blast
      have "b < ?b" using links_child(1) [OF l b] d by (auto simp: dom_ok_def)
      with c(8) have D: "desc ch1 b = freed e this h" by (simp add: freed_def Replace)
      have nk: "new_kids e ?b ?xs = ys @ ?b # zs" using s by (simp add: Replace map_single)
      obtain h2 h3 h' where r: "splice ?b b this h1 = Inr h2" "delete_node b h2 = Inr h3"
          "upd ?b (\<lambda>n. n\<lparr>n_parent := Some this\<rparr>) h3 = Inr h'"
          "dom_ok h' (without (freed e this h) (ch1(this := new_kids e ?b ?xs)))"
          "contents h' = (contents h1) |` (- freed e this h)"
        using replace_steps [OF c(3,6), of ys b zs] ch1 s(1) unfolding D nk by auto
      have tk: "set (taken e ?xs) \<subseteq> set ?xs" using b by (simp add: Replace)
      have "edited e this h h'" by (rule insert_edited [OF d Some nz c(1,5,4,6,7,9) r(4,5) frD [OF tk]])
      with a wc r chld [OF b] show ?thesis by (simp add: Replace ReplaceChild_def do_edit_def t node_at_simp)
    qed (use Some in simp_all)
  qed
qed

section \<open>What else can happen\<close>

text \<open>Changing what a node holds, but neither its class nor its links.\<close>

lemma cell_ok:
  assumes d: "dom_ok h ch" and n: "cells h a = Some n" and m: "n_type m = n_type n" "n_parent m = n_parent n"
    "n_prev m = n_prev n" "n_next m = n_next n" "n_firstChild m = n_firstChild n" "n_lastChild m = n_lastChild n"
  shows "dom_ok (h\<lparr>cells := (cells h)(a \<mapsto> m)\<rparr>) ch"
proof -
  let ?c = "(cells h)(a \<mapsto> m)"
  have l: "links_ok (cells h) ch" using d by (simp add: dom_ok_def)
  have s: "seg ?c p prv xs nxt" if "seg (cells h) p prv xs nxt" for p prv xs nxt
    using that by (rule seg_cong) (use n m in auto)
  have "node_ok ?c ch x k" if k: "?c x = Some k" for x k
  proof (cases "x = a")
    case True
    from l n have "node_ok (cells h) ch a n" by (simp add: links_ok_def)
    with True k m s show ?thesis by (simp add: node_ok_def)
  next
    case False
    with k l have "node_ok (cells h) ch x k" by (simp add: links_ok_def)
    with s show ?thesis by (simp add: node_ok_def)
  qed
  moreover have "ch x = []" if "?c x = None" for x using that l by (simp add: links_ok_def split: if_splits)
  ultimately have "links_ok ?c ch" using l by (simp add: links_ok_def)
  then show ?thesis using d n by (auto simp: dom_ok_def)
qed

lemma body_ok:
  assumes d: "dom_ok h ch" and n: "cells h a = Some n" and b: "body_type b = n_type n"
  shows "dom_ok (h\<lparr>cells := (cells h)(a \<mapsto> n\<lparr>n_body := b\<rparr>)\<rparr>) ch"
  by (rule cell_ok [OF d n]) (use b in \<open>simp_all add: n_type_def\<close>)

lemma contents_upd: "contents (h\<lparr>cells := (cells h)(a \<mapsto> m)\<rparr>) = (contents h)(a \<mapsto> payload m)"
  by (simp add: contents_def fun_eq_iff)

lemma cell_clonable:
  assumes "clonable h" "\<And>as. n_body m = Body_element as \<Longrightarrow> attrs_good as"
  shows "clonable (h\<lparr>cells := (cells h)(a \<mapsto> m)\<rparr>)"
  using assms unfolding clonable_def contents_upd by (simp add: payload_def split: if_splits)

lemma body_clonable:
  assumes "clonable h" "cells h a = Some n" "\<And>as. b = Body_element as \<Longrightarrow> attrs_good as"
  shows "clonable (h\<lparr>cells := (cells h)(a \<mapsto> n\<lparr>n_body := b\<rparr>)\<rparr>)"
  using assms by (intro cell_clonable) simp_all

definition tree_inv :: "dom \<Rightarrow> bool" where
  "tree_inv h \<longleftrightarrow> dom_inv h \<and> clonable h"

lemma body_inv:
  assumes "tree_inv h" "cells h a = Some n" "body_type b = n_type n" "\<And>as. b = Body_element as \<Longrightarrow> attrs_good as"
  shows "tree_inv (h\<lparr>cells := (cells h)(a \<mapsto> n\<lparr>n_body := b\<rparr>)\<rparr>)"
  using assms body_ok [of h "kids h" a n b] body_clonable [of h a n b] dom_ok_inv unfolding tree_inv_def dom_inv_def
  by blast

lemma top_only_type [simp]: "body_type (top_only b) = body_type b"
  by (cases b rule: top_only.cases) simp_all

lemma set_top_only_inv:
  assumes "set_top_only this h = Inr h'" "tree_inv h" "cells h this \<noteq> None"
  shows "tree_inv h'"
proof -
  have d: "dom_ok h (kids h)" using assms(2) by (simp add: tree_inv_def dom_inv_def)
  from GetDocument_ok [OF d assms(3)] obtain r where r: "GetDocument this h = Inr r"
      "\<forall>x. r = Some x \<longrightarrow> (\<exists>n. cells h x = Some n \<and> n_type n = TINYXML_DOCUMENT)" by blast
  show ?thesis
  proof (cases r)
    case None
    with r assms show ?thesis by (simp add: set_top_only_def)
  next
    case (Some x)
    with r(2) obtain n where n: "cells h x = Some n" "n_type n = TINYXML_DOCUMENT" by blast
    have "h' = h\<lparr>cells := (cells h)(x \<mapsto> n\<lparr>n_body := top_only (n_body n)\<rparr>)\<rparr>"
      using assms(1) r(1) Some n(1) by (simp add: set_top_only_def upd_simp)
    moreover have "top_only (n_body n) \<noteq> Body_element as" for as
      using n(2) by (cases "n_body n" rule: top_only.cases) (auto simp: n_type_def)
    ultimately show ?thesis using body_inv [OF assms(2) n(1), of "top_only (n_body n)"] by (simp add: n_type_def)
  qed
qed

lemma with_clone_refused:
  assumes "with_clone add this f h = Inr (r, h')" "\<nexists>n. cells h add = Some n \<and> n_type n \<noteq> TINYXML_DOCUMENT"
  shows "set_top_only this h = Inr h'"
  using assms by (auto simp: with_clone_def outcome_simps split: if_splits)

lemma if_child_refused:
  assumes "if_child (Some b) this f h = Inr (r, h')" "tree_inv h"
  shows "h' = h \<or> b \<in> set (kids h this) \<and> f b = Inr (r, h')"
proof -
  from assms(1) obtain n where n: "cells h b = Some n" by (auto simp: if_child_def outcome_simps)
  have "node_ok (cells h) (kids h) b n" using assms(2) n by (simp add: tree_inv_def dom_inv_def dom_ok_def links_ok_def)
  with assms(1) n show ?thesis by (auto simp: if_child_def node_at_simp node_ok_def split: if_splits)
qed

lemma edit_inv:
  assumes "do_edit te h = Inr h'" "tree_inv h"
  shows "tree_inv h'"
proof -
  obtain this e where te: "te = (this, e)" by fastforce
  have t: "cells h this \<noteq> None" using assms(1) by (auto simp: te do_edit_def outcome_simps)
  then obtain tn where tn: "node_at this h = Inr tn" by (auto simp: node_at_def)
  note run = assms(1) [unfolded te do_edit_def, simplified tn, simplified]
  show ?thesis
  proof (cases "edit_fits e this h")
    case True
    with edit_ok [of h e this] assms te show ?thesis by (auto simp: tree_inv_def edited_def)
  next
    case no: False
    have top: "tree_inv h'" if "set_top_only this h = Inr h'" using set_top_only_inv [OF that assms(2) t] .
    have kid: "tree_inv h'"
      if "if_child (Some b) this (\<lambda>c. with_clone add this (g c) h) h = Inr (r, h')" "child_named e = Some b" "added e = Some add"
      for b add g r
      using if_child_refused [OF that(1) assms(2)]
    proof
      assume "b \<in> set (kids h this) \<and> with_clone add this (g b) h = Inr (r, h')"
      with no t that(2,3) with_clone_refused top show ?thesis by (fastforce simp: edit_fits_def split: option.splits)
    qed (use assms(2) in simp)
    show ?thesis
    proof (cases e)
      case (Append add)
      with run obtain r where "with_clone add this (\<lambda>node. LinkEndChild node this) h = Inr (r, h')"
        by (auto simp: InsertEndChild_def outcome_simps)
      from with_clone_refused [OF this] no t top Append show ?thesis by (fastforce simp: edit_fits_def split: option.splits)
    next
      case (Before b add)
      with run kid show ?thesis by (auto simp: InsertBeforeChild_def outcome_simps)
    next
      case (After b add)
      with run kid show ?thesis by (auto simp: InsertAfterChild_def outcome_simps)
    next
      case (Replace b add)
      with run kid show ?thesis by (auto simp: ReplaceChild_def outcome_simps)
    next
      case (Remove b)
      with run obtain n where n: "cells h b = Some n" "n_parent n = Some this"
        by (auto simp: RemoveChild_def outcome_simps)
      have "node_ok (cells h) (kids h) b n" using assms(2) n(1) by (simp add: tree_inv_def dom_inv_def dom_ok_def links_ok_def)
      with n no t Remove show ?thesis by (auto simp: edit_fits_def node_ok_def)
    next
      case Clear_all
      with no t show ?thesis by (simp add: edit_fits_def)
    qed
  qed
qed

section \<open>A program that builds and edits trees\<close>

datatype maker =
    New_document | New_element cstr | New_text cstr | New_comment cstr | New_unknown | New_declaration cstr cstr cstr

fun made :: "maker \<Rightarrow> dnode" where
  "made New_document = Node_new Document_body"
| "made (New_element v) = Element_new v"
| "made (New_text v) = Text_new v"
| "made (New_comment v) = Comment_new v"
| "made New_unknown = Node_new Body_unknown"
| "made (New_declaration v e s) = Declaration_new v e s"

datatype dom_step = Make maker | Edit naddr edit | Put_attr naddr cstr cstr | Drop_attr naddr cstr

fun do_dom :: "dom_step \<Rightarrow> dom \<Rightarrow> dom outcome" where
  "do_dom (Make k) h = Inr (snd (alloc (made k) h))"
| "do_dom (Edit this e) h = do_edit (this, e) h"
| "do_dom (Put_attr this name v) h = SetAttribute name v this h"
| "do_dom (Drop_attr this name) h = RemoveAttribute name this h"

text \<open>An attribute gets a name: a C string that is not empty.\<close>

fun named_attr :: "dom_step \<Rightarrow> bool" where
  "named_attr (Put_attr this name v) \<longleftrightarrow> name \<noteq> [] \<and> c_str name = name"
| "named_attr _ \<longleftrightarrow> True"

lemma set_value_names: "map (\<lambda>a. c_str (a_name a)) (set_value name v as) = map (\<lambda>a. c_str (a_name a)) as"
  by (induction as) simp_all

lemma attrs_good_names: "map (\<lambda>a. c_str (a_name a)) as = map (\<lambda>a. c_str (a_name a)) bs \<Longrightarrow> attrs_good as = attrs_good bs"
  by (simp add: attrs_good_def image_set del: set_map)

lemma set_attribute_good:
  assumes "set_attribute name v as = Inr bs" "attrs_good as" "name \<noteq> []" "c_str name = name"
  shows "attrs_good bs"
proof (cases "Find name as")
  case None
  then have n: "name \<notin> (\<lambda>a. c_str (a_name a)) ` set as" by (simp add: Find_absent)
  moreover have "[] \<notin> (\<lambda>a. c_str (a_name a)) ` set as" using assms(2) by (simp add: attrs_good_def)
  ultimately have "bs = as @ [\<lparr>a_name = name, a_value = v, a_location = no_location\<rparr>]"
    using set_attribute_new [OF n _ assms(4)] assms(1) by simp
  with n assms(2-4) show ?thesis by (simp add: attrs_good_def)
next
  case (Some a)
  with assms(1) have "bs = set_value name v as" by (simp add: set_attribute_def FindOrCreate_def)
  with assms(2) attrs_good_names [OF set_value_names] show ?thesis by simp
qed

lemma distinct_map_remove1: "distinct (map f xs) \<Longrightarrow> distinct (map f (remove1 a xs))"
proof (induction xs)
  case (Cons x xs)
  have "f ` set (remove1 a xs) \<subseteq> f ` set xs" by (rule image_mono [OF set_remove1_subset])
  with Cons show ?case by auto
qed simp

lemma remove_attr_good: "attrs_good as \<Longrightarrow> attrs_good (remove1 a as)"
  using set_remove1_subset [of a as] by (auto simp: attrs_good_def distinct_map_remove1)

lemma on_attrs_inv:
  assumes "on_attrs f this h = Inr h'" "tree_inv h" "\<And>as bs. attrs_good as \<Longrightarrow> f as = Inr bs \<Longrightarrow> attrs_good bs"
  shows "tree_inv h'"
proof -
  from assms(1) obtain n as bs where n: "cells h this = Some n" "n_body n = Body_element as" "f as = Inr bs"
      "h' = h\<lparr>cells := (cells h)(this \<mapsto> n\<lparr>n_body := Body_element bs\<rparr>)\<rparr>"
    by (cases "cells h this"; cases "n_body (the (cells h this))")
      (auto simp: on_attrs_def upd_def node_at_def bindE_eq_Inr)
  have "attrs_good as" using assms(2) n(1,2) clonable_at unfolding tree_inv_def by blast
  then have "attrs_good bs" using assms(3) n(3) by blast
  with body_inv [OF assms(2) n(1), of "Body_element bs"] n(2,4) show ?thesis by (simp add: n_type_def)
qed

lemma alloc_inv:
  assumes "tree_inv h" "n_parent t = None" "n_prev t = None" "n_next t = None" "n_firstChild t = None"
    "n_lastChild t = None" "\<And>as. n_body t = Body_element as \<Longrightarrow> attrs_good as"
  shows "tree_inv (snd (alloc t h))"
proof -
  have d: "dom_ok h (kids h)" and cl: "clonable h" using assms(1) by (simp_all add: tree_inv_def dom_inv_def)
  obtain b h' where a: "alloc t h = (b, h')" by fastforce
  note ok = alloc_ok [OF d assms(2-6) a]
  have "contents h' = (contents h)(next_addr h \<mapsto> payload t)" by (simp add: contents_def ok(4) fun_eq_iff)
  then have "clonable h'" using cl assms(7) unfolding clonable_def by (simp add: payload_def)
  with dom_ok_inv [OF ok(1)] show ?thesis by (simp add: tree_inv_def a)
qed

lemma attrs_good_Nil [simp]: "attrs_good []"
  by (simp add: attrs_good_def)

lemma do_dom_inv:
  assumes "do_dom c h = Inr h'" "tree_inv h" "named_attr c"
  shows "tree_inv h'"
proof (cases c)
  case (Make k)
  have "tree_inv (snd (alloc (made k) h))"
    by (rule alloc_inv [OF assms(2)]; cases k)
      (simp_all add: Node_new_def Element_new_def Text_new_def Comment_new_def Declaration_new_def Document_body_def)
  with assms(1) Make show ?thesis by simp
next
  case (Edit this e)
  with assms edit_inv show ?thesis by simp
next
  case (Put_attr this name v)
  with assms set_attribute_good show ?thesis by (auto simp: SetAttribute_def intro: on_attrs_inv)
next
  case (Drop_attr this name)
  with assms show ?thesis
    by (auto simp: RemoveAttribute_def remove_attr_good split: option.splits intro!: on_attrs_inv [of _ this h h'])
qed

interpretation tree_edits: outcome_system do_dom named_attr tree_inv
  by unfold_locales (rule do_dom_inv)

end
