(* ===== verification/Xml_Walks.thy ===== *)
theory Xml_Walks
  imports Xml_Edits
begin

text \<open>
  What the searches of \<^verbatim>\<open>TiXmlNode\<close> find, \<^verbatim>\<open>TiXmlHandle\<close>, and the properties of the node operations.
\<close>

section \<open>Searching the children\<close>

abbreviation (input) cell :: "dom \<Rightarrow> naddr \<Rightarrow> dnode" where
  "cell h a \<equiv> the (cells h a)"

lemma walk_next:
  "nexts (cells h) as \<Longrightarrow> length as \<le> f \<Longrightarrow>
   walk f n_next test (first_of as None) h = Inr (find (\<lambda>a. test (cell h a)) as)"
proof (induction as arbitrary: f)
  case (Cons a as)
  then obtain g where "f = Suc g" by (cases f) auto
  with Cons show ?case by (auto simp: node_at_simp)
qed simp

fun prevs :: "(naddr \<rightharpoonup> dnode) \<Rightarrow> naddr list \<Rightarrow> bool" where
  "prevs c [] \<longleftrightarrow> True"
| "prevs c (a # as) \<longleftrightarrow> (\<exists>n. c a = Some n \<and> n_prev n = first_of as None) \<and> prevs c as"

lemma prevs_append: "prevs c (xs @ [a]) \<Longrightarrow> prevs c [a]"
  by (induction xs) auto

lemma walk_prev:
  "prevs (cells h) as \<Longrightarrow> length as \<le> f \<Longrightarrow>
   walk f n_prev test (first_of as None) h = Inr (find (\<lambda>a. test (cell h a)) as)"
proof (induction as arbitrary: f)
  case (Cons a as)
  then obtain g where "f = Suc g" by (cases f) auto
  with Cons show ?case by (auto simp: node_at_simp)
qed simp

lemma seg_prevs: "seg c p None as nxt \<Longrightarrow> prevs c (rev as)"
proof (induction as arbitrary: nxt rule: rev_induct)
  case (snoc a as)
  then have s: "seg c p None as (Some a)" "\<exists>n. c a = Some n \<and> n_prev n = last_of None as" by (auto simp: seg_append)
  have "first_of (rev as) None = last_of None as" by (cases as rule: rev_cases) simp_all
  with snoc.IH [OF s(1)] s(2) show ?case by simp
qed simp

text \<open>The children of a node, as the walks see them.\<close>

lemma kids_facts:
  assumes "dom_inv h" "cells h this = Some t"
  shows "n_firstChild t = first_of (kids h this) None" "n_lastChild t = first_of (rev (kids h this)) None"
    "nexts (cells h) (kids h this)" "prevs (cells h) (rev (kids h this))" "length (kids h this) \<le> next_addr h"
    "seg (cells h) this None (kids h this) None"
proof -
  have d: "dom_ok h (kids h)" using assms(1) by (simp add: dom_inv_def)
  then have l: "links_ok (cells h) (kids h)" by (simp add: dom_ok_def)
  with assms(2) have o: "node_ok (cells h) (kids h) this t" by (simp add: links_ok_def)
  then show s: "seg (cells h) this None (kids h this) None" by (simp add: node_ok_def)
  then show "nexts (cells h) (kids h this)" "prevs (cells h) (rev (kids h this))"
    by (rule seg_nexts, rule seg_prevs)
  show "n_firstChild t = first_of (kids h this) None" using o by (simp add: node_ok_def)
  show "n_lastChild t = first_of (rev (kids h this)) None"
    using o by (cases "kids h this" rule: rev_cases) (simp_all add: node_ok_def)
  have "set (kids h this) \<subseteq> {..<next_addr h}"
    using d links_child(1) [OF l, of _ this] by (fastforce simp: dom_ok_def)
  then have "card (set (kids h this)) \<le> next_addr h" by (metis card_lessThan card_mono finite_lessThan)
  moreover have "distinct (kids h this)" using l by (simp add: links_ok_def forest_def)
  ultimately show "length (kids h this) \<le> next_addr h" by (simp add: distinct_card)
qed

lemma nexts_suffix: "nexts c (xs @ ys) \<Longrightarrow> nexts c ys"
  by (induction xs) auto

lemma prevs_suffix: "prevs c (xs @ ys) \<Longrightarrow> prevs c ys"
  by (induction xs) auto

lemma sibling_walks:
  assumes i: "dom_inv h" and s: "kids h p = ys @ a # zs"
  shows "Node_NextSibling v a h = Inr (find (\<lambda>b. has_value v (cell h b)) zs)"
    "Node_PreviousSibling v a h = Inr (find (\<lambda>b. has_value v (cell h b)) (rev ys))"
    "Node_NextSiblingElement a h = Inr (find (\<lambda>b. ToElement (cell h b)) zs)"
proof -
  have l: "links_ok (cells h) (kids h)" using i by (simp add: dom_inv_def dom_ok_def)
  obtain n t where n: "cells h a = Some n" "n_prev n = last_of None ys" "n_next n = first_of zs None" "cells h p = Some t"
    using child_cell [OF l s] by metis
  note k = kids_facts [OF i n(4)]
  have nx: "nexts (cells h) zs" using nexts_suffix [of "cells h" "ys @ [a]" zs] k(3) s by simp
  have pv: "prevs (cells h) (rev ys)" using prevs_suffix [of "cells h" "rev zs @ [a]" "rev ys"] k(4) s by simp
  have len: "length zs \<le> next_addr h" "length (rev ys) \<le> next_addr h" using k(5) s by simp_all
  have p: "n_prev n = first_of (rev ys) None" using n(2) by (cases ys rule: rev_cases) simp_all
  show "Node_NextSibling v a h = Inr (find (\<lambda>b. has_value v (cell h b)) zs)"
    "Node_PreviousSibling v a h = Inr (find (\<lambda>b. has_value v (cell h b)) (rev ys))"
    "Node_NextSiblingElement a h = Inr (find (\<lambda>b. ToElement (cell h b)) zs)"
    by (simp_all add: Node_NextSibling_def Node_PreviousSibling_def Node_NextSiblingElement_def node_at_simp n(1) n(3) p
        walk_next [OF nx len(1)] walk_prev [OF pv len(2)])
qed

lemma walk_elements_ok:
  assumes i: "dom_inv h"
  shows "kids h p = xs @ ys \<Longrightarrow> length ys \<le> f \<Longrightarrow>
    walk_elements f v (find (\<lambda>a. has_value v (cell h a)) ys) h =
      Inr (find (\<lambda>a. has_value v (cell h a) \<and> ToElement (cell h a)) ys)"
proof (induction f arbitrary: xs ys)
  case 0
  then show ?case by simp
next
  case (Suc f)
  show ?case
  proof (cases "find (\<lambda>a. has_value v (cell h a)) ys")
    case None
    then have "find (\<lambda>a. has_value v (cell h a) \<and> ToElement (cell h a)) ys = None" by (auto simp: find_None_iff)
    with None show ?thesis by simp
  next
    case (Some a)
    from find_split [OF this] obtain us zs where s: "ys = us @ a # zs" "\<forall>y \<in> set us. \<not> has_value v (cell h y)"
        "has_value v (cell h a)" by blast
    have l: "links_ok (cells h) (kids h)" using i by (simp add: dom_inv_def dom_ok_def)
    have k: "kids h p = (xs @ us) @ a # zs" using Suc.prems(1) s(1) by simp
    obtain n where n: "cells h a = Some n" using child_cell [OF l k] by metis
    have skip: "find P (us @ a # zs) = (if P a then Some a else find P zs)" if "\<forall>y \<in> set us. \<not> P y" for P
      using that by (induction us) auto
    have "find (\<lambda>a. has_value v (cell h a) \<and> ToElement (cell h a)) ys =
        (if ToElement n then Some a else find (\<lambda>a. has_value v (cell h a) \<and> ToElement (cell h a)) zs)"
      unfolding s(1) using s(2,3) n by (subst skip) auto
    moreover have "walk_elements f v (find (\<lambda>a. has_value v (cell h a)) zs) h =
        Inr (find (\<lambda>a. has_value v (cell h a) \<and> ToElement (cell h a)) zs)"
      by (rule Suc.IH [of "xs @ us @ [a]"]) (use k Suc.prems(2) s(1) in simp_all)
    ultimately show ?thesis using Some n sibling_walks(1) [OF i k, of v] by (simp add: node_at_simp)
  qed
qed

section \<open>Handles\<close>

text \<open>\<^verbatim>\<open>TiXmlHandle\<close> holds a node or \<^verbatim>\<open>NULL\<close>; every call on \<^verbatim>\<open>NULL\<close> gives \<^verbatim>\<open>NULL\<close> again.\<close>

definition handle :: "(naddr \<Rightarrow> naddr option outcome) \<Rightarrow> naddr option \<Rightarrow> naddr option outcome" where
  "handle f node = (case node of None \<Rightarrow> Inr None | Some a \<Rightarrow> f a)"

definition node_first :: "naddr \<Rightarrow> dom \<Rightarrow> naddr option outcome" where
  "node_first a h = bindE (node_at a h) (\<lambda>n. Inr (n_firstChild n))"

definition node_next :: "naddr \<Rightarrow> dom \<Rightarrow> naddr option outcome" where
  "node_next a h = bindE (node_at a h) (\<lambda>n. Inr (n_next n))"

text \<open>\<^verbatim>\<open>for (i = 0; child && i < count; child = step(child), ++i)\<close>\<close>

fun advance :: "(naddr \<Rightarrow> naddr option outcome) \<Rightarrow> nat \<Rightarrow> naddr option \<Rightarrow> naddr option outcome" where
  "advance go 0 p = Inr p"
| "advance go (Suc k) None = Inr None"
| "advance go (Suc k) (Some a) = bindE (go a) (advance go k)"

definition Handle_FirstChild :: "naddr option \<Rightarrow> dom \<Rightarrow> naddr option outcome" where
  "Handle_FirstChild node h = handle (\<lambda>a. node_first a h) node"

definition Handle_FirstChild_value :: "cstr \<Rightarrow> naddr option \<Rightarrow> dom \<Rightarrow> naddr option outcome" where
  "Handle_FirstChild_value v node h = handle (\<lambda>a. Node_FirstChild v a h) node"

definition Handle_FirstChildElement :: "naddr option \<Rightarrow> dom \<Rightarrow> naddr option outcome" where
  "Handle_FirstChildElement node h = handle (\<lambda>a. Node_FirstChildElement a h) node"

definition Handle_FirstChildElement_value :: "cstr \<Rightarrow> naddr option \<Rightarrow> dom \<Rightarrow> naddr option outcome" where
  "Handle_FirstChildElement_value v node h = handle (\<lambda>a. FirstChildElement_value v a h) node"

definition Handle_Child :: "s32 \<Rightarrow> naddr option \<Rightarrow> dom \<Rightarrow> naddr option outcome" where
  "Handle_Child count node h =
     handle (\<lambda>a. bindE (node_first a h) (advance (\<lambda>c. node_next c h) (nat count))) node"

definition Handle_Child_value :: "cstr \<Rightarrow> s32 \<Rightarrow> naddr option \<Rightarrow> dom \<Rightarrow> naddr option outcome" where
  "Handle_Child_value v count node h =
     handle (\<lambda>a. bindE (Node_FirstChild v a h) (advance (\<lambda>c. Node_NextSibling v c h) (nat count))) node"

definition Handle_ChildElement :: "s32 \<Rightarrow> naddr option \<Rightarrow> dom \<Rightarrow> naddr option outcome" where
  "Handle_ChildElement count node h =
     handle (\<lambda>a. bindE (Node_FirstChildElement a h) (advance (\<lambda>c. Node_NextSiblingElement c h) (nat count))) node"

definition Handle_ChildElement_value :: "cstr \<Rightarrow> s32 \<Rightarrow> naddr option \<Rightarrow> dom \<Rightarrow> naddr option outcome" where
  "Handle_ChildElement_value v count node h =
     handle (\<lambda>a. bindE (FirstChildElement_value v a h) (advance (\<lambda>c. NextSiblingElement_value v c h) (nat count))) node"

text \<open>The \<open>k\<close>-th of a list, from zero.\<close>

definition nth_of :: "'a list \<Rightarrow> nat \<Rightarrow> 'a option" where
  "nth_of xs k = (if k < length xs then Some (xs ! k) else None)"

lemma nth_of_simps [simp]: "nth_of [] k = None" "nth_of (x # xs) 0 = Some x" "nth_of (x # xs) (Suc k) = nth_of xs k"
  by (simp_all add: nth_of_def)

lemma advance_ok:
  assumes go: "\<And>ys a zs. ks = ys @ a # zs \<Longrightarrow> go a = Inr (find P zs)"
  shows "ks = xs @ ys \<Longrightarrow> advance go k (find P ys) = Inr (nth_of (filter P ys) k)"
proof (induction k arbitrary: xs ys)
  case 0
  have "find P ys = nth_of (filter P ys) 0" by (induction ys) simp_all
  then show ?case by simp
next
  case (Suc k)
  show ?case
  proof (cases "find P ys")
    case None
    then have "filter P ys = []" by (auto simp: find_None_iff filter_empty_conv)
    with None show ?thesis by simp
  next
    case (Some a)
    from find_split [OF this] obtain us zs where s: "ys = us @ a # zs" "\<forall>y \<in> set us. \<not> P y" "P a" by blast
    then have f: "filter P ys = a # filter P zs" by (simp add: filter_empty_conv)
    have "ks = (xs @ us) @ a # zs" using Suc.prems s(1) by simp
    from go [OF this] Suc.IH [of "xs @ us @ [a]" zs] Suc.prems s(1) Some f show ?thesis by simp
  qed
qed

lemma first_of_find: "first_of xs None = find (\<lambda>_. True) xs"
  by (cases xs) simp_all

section \<open>The searches\<close>

lemma NextElement_value_ok:
  assumes i: "dom_inv h" and s: "kids h p = ys @ a # zs"
  shows "NextSiblingElement_value v a h = Inr (find (\<lambda>b. has_value v (cell h b) \<and> ToElement (cell h b)) zs)"
proof -
  have l: "links_ok (cells h) (kids h)" using i by (simp add: dom_inv_def dom_ok_def)
  obtain t where "cells h p = Some t" using child_cell [OF l s] by metis
  from kids_facts(5) [OF i this] s have len: "length zs \<le> next_addr h" by simp
  show ?thesis
    using walk_elements_ok [OF i, of p "ys @ [a]" zs] s len by (simp add: NextSiblingElement_value_def sibling_walks(1) [OF i s])
qed

lemma first_walks:
  assumes i: "dom_inv h" and t: "cells h this = Some t"
  shows "Node_FirstChild v this h = Inr (find (\<lambda>a. has_value v (cell h a)) (kids h this))"
    "Node_LastChild v this h = Inr (find (\<lambda>a. has_value v (cell h a)) (rev (kids h this)))"
    "Node_FirstChildElement this h = Inr (find (\<lambda>a. ToElement (cell h a)) (kids h this))"
    "FirstChildElement_value v this h = Inr (find (\<lambda>a. has_value v (cell h a) \<and> ToElement (cell h a)) (kids h this))"
    "node_first this h = Inr (find (\<lambda>_. True) (kids h this))"
proof -
  note k = kids_facts [OF i t]
  show f: "Node_FirstChild v this h = Inr (find (\<lambda>a. has_value v (cell h a)) (kids h this))"
    "Node_FirstChildElement this h = Inr (find (\<lambda>a. ToElement (cell h a)) (kids h this))"
    by (simp_all add: Node_FirstChild_def Node_FirstChildElement_def node_at_simp t k(1) walk_next [OF k(3,5)])
  show "Node_LastChild v this h = Inr (find (\<lambda>a. has_value v (cell h a)) (rev (kids h this)))"
    using walk_prev [OF k(4), of "next_addr h"] k(5) by (simp add: Node_LastChild_def node_at_simp t k(2))
  show "FirstChildElement_value v this h = Inr (find (\<lambda>a. has_value v (cell h a) \<and> ToElement (cell h a)) (kids h this))"
    using walk_elements_ok [OF i, of this "[]" "kids h this"] k(5) by (simp add: FirstChildElement_value_def f(1))
  show "node_first this h = Inr (find (\<lambda>_. True) (kids h this))"
    by (simp add: node_first_def node_at_simp t k(1) first_of_find)
qed

lemma node_next_ok:
  assumes i: "dom_inv h" and s: "kids h p = ys @ a # zs"
  shows "node_next a h = Inr (find (\<lambda>_. True) zs)"
proof -
  have l: "links_ok (cells h) (kids h)" using i by (simp add: dom_inv_def dom_ok_def)
  obtain n where "cells h a = Some n" "n_next n = first_of zs None" using child_cell [OF l s] by metis
  then show ?thesis by (simp add: node_next_def node_at_simp first_of_find)
qed

end
