(* ===== verification/Xml_Dom_Spec.thy ===== *)
theory Xml_Dom_Spec
  imports Xml_Walks
begin

text \<open>
  The properties of the node operations of tinyxml: trees stay trees whatever is built and edited, an
  edit is the edit of a list, a clone is a copy, the searches find the first match; and what linking
  a node by its pointer can break.
\<close>

section \<open>A concrete tree\<close>

definition empty_dom :: dom where
  "empty_dom = \<lparr>cells = Map.empty, next_addr = 0\<rparr>"

definition sample_steps :: "dom_step list" where
  "sample_steps = [Make New_document, Make (New_element [97]), Make (New_text [98]), Put_attr 1 [99] [100],
     Edit 1 (Append 2), Edit 0 (Append 1), Edit 4 (Before 5 2)]"

text \<open>The document 0 with the element 4, whose children are the texts 6 and 5.\<close>

definition sample_dom :: dom where
  "sample_dom = (case runE do_dom sample_steps empty_dom of Inr h \<Rightarrow> h | Inl _ \<Rightarrow> empty_dom)"

lemma sample_run: "runE do_dom sample_steps empty_dom = Inr sample_dom"
proof -
  have "\<not> isl (runE do_dom sample_steps empty_dom)" by code_simp
  then show ?thesis by (auto simp: sample_dom_def isl_def split: sum.splits)
qed

lemma tree_inv_empty: "tree_inv empty_dom"
proof -
  have "dom_ok empty_dom (\<lambda>_. [])"
    by (simp add: dom_ok_def empty_dom_def links_ok_def forest_def below_def acyclic_def)
  moreover have "clonable empty_dom" by (simp add: clonable_def contents_def empty_dom_def)
  ultimately show ?thesis by (simp add: tree_inv_def dom_ok_inv)
qed

lemma sample_named: "list_all named_attr sample_steps"
  by (simp add: sample_steps_def c_str_def)

lemma sample_inv: "tree_inv sample_dom"
  by (rule tree_edits.run_invar [OF tree_inv_empty sample_named sample_run])

lemma sample_cells: "cells sample_dom 0 \<noteq> None" "cells sample_dom 1 \<noteq> None" "cells sample_dom 4 \<noteq> None"
  "cells sample_dom 5 \<noteq> None"
  by code_simp+

lemma sample_kids: "kids sample_dom 0 = [4]" "kids sample_dom 1 = [3]" "kids sample_dom 4 = [6, 5]"
  "next_addr sample_dom = 7"
  by code_simp+

lemma sample_texts: "has_value [98] (the (cells sample_dom 5))" "has_value [98] (the (cells sample_dom 6))"
  by code_simp+

lemma walk_Suc: "walk f go test p h = Inr r \<Longrightarrow> walk (Suc f) go test p h = Inr r"
proof (induction f go test p h rule: walk.induct)
  case (3 f go test a h)
  then obtain n where n: "node_at a h = Inr n" "(if test n then Inr (Some a) else walk f go test (go n) h) = Inr r"
    by (auto simp: bindE_eq_Inr)
  with 3(1) [OF n(1)] show ?case by (simp split: if_splits)
qed simp_all

section \<open>Properties\<close>



text \<open>
  C16: Every edit is the edit of a list. On a well-formed tree \<^verbatim>\<open>InsertEndChild\<close>, \<^verbatim>\<open>InsertBeforeChild\<close>,
  \<^verbatim>\<open>InsertAfterChild\<close>, \<^verbatim>\<open>ReplaceChild\<close>, \<^verbatim>\<open>RemoveChild\<close> and \<^verbatim>\<open>Clear\<close> with a node to insert that is no
  document and a child that is one succeed, change the list of children as their name says, free
  the subtrees they take out and nothing else, and leave the contents and the children of every
  other node alone; what they insert is a copy of the tree they were given.
\<close>

theorem dom_edits_refine:
  assumes "tree_inv h" "edit_fits e this h"
  shows "\<exists>h'. do_edit (this, e) h = Inr h' \<and> tree_inv h' \<and>
    kids h' this = new_kids e (next_addr h) (kids h this) \<and>
    (\<forall>x < next_addr h.
       if x \<in> freed e this h then cells h' x = None
       else contents h' x = contents h x \<and> (x = this \<or> kids h' x = kids h x)) \<and>
    (\<forall>a. added e = Some a \<longrightarrow> (\<exists>s. read_tree a h = Inr s \<and> read_tree (next_addr h) h' = Inr (clone_tree s)))"
  using edit_ok [of h e this] assms unfolding tree_inv_def edited_def by blast

theorem dom_edits_refine_witness:
  "\<exists>h'. do_edit (4, Replace 6 1) sample_dom = Inr h' \<and> kids h' 4 = [7, 5] \<and> cells h' 6 = None"
proof -
  have "edit_fits (Replace 6 1) 4 sample_dom" by code_simp
  from dom_edits_refine [OF sample_inv this] obtain h' where h': "do_edit (4, Replace 6 1) sample_dom = Inr h'"
      "kids h' 4 = new_kids (Replace 6 1) 7 [6, 5]"
      "\<forall>x < 7. if x \<in> freed (Replace 6 1) 4 sample_dom then cells h' x = None
        else contents h' x = contents sample_dom x \<and> (x = 4 \<or> kids h' x = kids sample_dom x)"
    unfolding sample_kids by blast
  have "6 \<in> freed (Replace 6 1) 4 sample_dom" by (simp add: freed_def)
  with h' show ?thesis by auto
qed

text \<open>
  C17: \<^verbatim>\<open>Clone\<close> of any node of a well-formed tree ends and makes the same tree out of new nodes, with the
  C strings of the values and without the places of the attributes; it writes no old node.
\<close>

theorem clone_copies:
  assumes "tree_inv h" "cells h a \<noteq> None"
  shows "\<exists>h' s. Clone a h = Inr (next_addr h, h') \<and> read_tree a h = Inr s \<and>
    read_tree (next_addr h) h' = Inr (clone_tree s) \<and> tree_inv h' \<and>
    (\<forall>x < next_addr h. cells h' x = cells h x \<and> kids h' x = kids h x)"
proof -
  have d: "dom_ok h (kids h)" and cl: "clonable h" using assms(1) by (simp_all add: tree_inv_def dom_inv_def)
  have l: "links_ok (cells h) (kids h)" using d by (simp add: dom_ok_def)
  obtain s where s: "depicts h (kids h) a s" using depicts_exists [OF l assms(2) dom_finite(1) [OF d assms(2)]] by blast
  from Clone_ok [OF d cl assms(2) s] obtain h' ch' m where
    1: "Clone a h = Inr (next_addr h, h')" "dom_ok h' ch'" "clonable h'" "old_kept {..<next_addr h} h (kids h) h' ch'"
      "cells h' (next_addr h) = Some m" "depicts h' ch' (next_addr h) (clone_tree s)" by blast
  have "read_tree (next_addr h) h' = Inr (clone_tree s)" using read_tree_ok [OF 1(2) _ 1(6)] 1(5) by simp
  then show ?thesis
    using 1 read_tree_ok [OF d assms(2) s] dom_ok_inv [OF 1(2)] dom_ok_kids [OF 1(2)]
    by (auto simp: tree_inv_def old_kept_def)
qed

theorem clone_copies_witness:
  "\<exists>h' s. Clone 4 sample_dom = Inr (7, h') \<and> read_tree 4 sample_dom = Inr s \<and> read_tree 7 h' = Inr (clone_tree s)"
  using clone_copies [OF sample_inv sample_cells(3)] unfolding sample_kids by blast

text \<open>
  The searches end and find what their comments promise, on the list of children: \<^verbatim>\<open>FirstChild(v)\<close>
  the first with the value, \<^verbatim>\<open>LastChild(v)\<close> the last, \<^verbatim>\<open>FirstChildElement\<close> the first element,
  \<^verbatim>\<open>FirstChildElement(v)\<close> the first element with the value, and the sibling searches the next and the
  previous one.
\<close>

theorem dom_searches:
  assumes "tree_inv h" "kids h p = ys @ a # zs"
  shows "Node_FirstChild v p h = Inr (find (\<lambda>b. has_value v (cell h b)) (kids h p)) \<and>
    Node_LastChild v p h = Inr (find (\<lambda>b. has_value v (cell h b)) (rev (kids h p))) \<and>
    Node_FirstChildElement p h = Inr (find (\<lambda>b. ToElement (cell h b)) (kids h p)) \<and>
    FirstChildElement_value v p h = Inr (find (\<lambda>b. has_value v (cell h b) \<and> ToElement (cell h b)) (kids h p)) \<and>
    Node_NextSibling v a h = Inr (find (\<lambda>b. has_value v (cell h b)) zs) \<and>
    Node_PreviousSibling v a h = Inr (find (\<lambda>b. has_value v (cell h b)) (rev ys)) \<and>
    NextSiblingElement_value v a h = Inr (find (\<lambda>b. has_value v (cell h b) \<and> ToElement (cell h b)) zs)"
proof -
  have i: "dom_inv h" using assms(1) by (simp add: tree_inv_def)
  then have l: "links_ok (cells h) (kids h)" by (simp add: dom_inv_def dom_ok_def)
  obtain t where t: "cells h p = Some t" using child_cell [OF l assms(2)] by metis
  show ?thesis
    using first_walks [OF i t] sibling_walks [OF i assms(2)] NextElement_value_ok [OF i assms(2)] by simp
qed

theorem dom_searches_witness:
  "Node_FirstChild [98] 4 sample_dom = Inr (Some 6) \<and> Node_PreviousSibling [98] 5 sample_dom = Inr (Some 6)"
  using dom_searches [OF sample_inv, of 4 "[6]" 5 "[]" "[98]"] sample_kids(3)
  by (simp add: sample_texts)

text \<open>
  A handle picks a child by its place: \<^verbatim>\<open>Child(n)\<close> the \<open>n\<close>-th child, \<^verbatim>\<open>Child(v, n)\<close> the \<open>n\<close>-th with the value,
  \<^verbatim>\<open>ChildElement(n)\<close> and \<^verbatim>\<open>ChildElement(v, n)\<close> the \<open>n\<close>-th element, counted from zero; \<^verbatim>\<open>NULL\<close> if there are
  not so many, and the first for a negative number.
\<close>

theorem handles_pick:
  assumes "tree_inv h" "cells h this \<noteq> None"
  shows "Handle_Child count (Some this) h = Inr (nth_of (kids h this) (nat count)) \<and>
    Handle_Child_value v count (Some this) h = Inr (nth_of (filter (\<lambda>b. has_value v (cell h b)) (kids h this)) (nat count)) \<and>
    Handle_ChildElement count (Some this) h = Inr (nth_of (filter (\<lambda>b. ToElement (cell h b)) (kids h this)) (nat count)) \<and>
    Handle_ChildElement_value v count (Some this) h =
      Inr (nth_of (filter (\<lambda>b. has_value v (cell h b) \<and> ToElement (cell h b)) (kids h this)) (nat count)) \<and>
    Handle_Child count None h = Inr None"
proof -
  have i: "dom_inv h" using assms(1) by (simp add: tree_inv_def)
  obtain t where t: "cells h this = Some t" using assms(2) by blast
  note f = first_walks [OF i t]
  have adv: "advance go k (find P (kids h this)) = Inr (nth_of (filter P (kids h this)) k)"
    if "\<And>ys a zs. kids h this = ys @ a # zs \<Longrightarrow> go a = Inr (find P zs)" for go P k
    using advance_ok [of "kids h this" go P "[]"] that by simp
  show ?thesis
    using adv [OF node_next_ok [OF i]] adv [OF sibling_walks(1) [OF i]] adv [OF sibling_walks(3) [OF i]]
      adv [OF NextElement_value_ok [OF i]]
    by (simp add: Handle_Child_def Handle_Child_value_def Handle_ChildElement_def Handle_ChildElement_value_def
        handle_def f)
qed

theorem handles_pick_witness: "Handle_Child 1 (Some 4) sample_dom = Inr (Some 5)"
  using handles_pick [OF sample_inv sample_cells(3), of 1] sample_kids by simp

text \<open>
  Linking a document never succeeds, and never reports the error its comment names. If the document
  is not the one \<^verbatim>\<open>this\<close> lives in, an assertion of \<^verbatim>\<open>LinkEndChild\<close> fails. If it is, \<^verbatim>\<open>delete node\<close> frees
  the whole tree with \<^verbatim>\<open>this\<close> in it, and \<^verbatim>\<open>GetDocument()\<close> then reads a freed node.
\<close>

theorem link_document_fails:
  assumes "tree_inv h" "cells h node = Some n" "n_type n = TINYXML_DOCUMENT" "cells h this \<noteq> None"
  shows "LinkEndChild node this h = (if GetDocument this h = Inr (Some node) then Inl WildPointer else Inl (Assertion ''tinyxml''))"
proof -
  have d: "dom_ok h (kids h)" using assms(1) by (simp add: tree_inv_def dom_inv_def)
  have l: "links_ok (cells h) (kids h)" using d by (simp add: dom_ok_def)
  then have "node_ok (cells h) (kids h) node n" using assms(2) by (simp add: links_ok_def)
  then have p: "n_parent n = None" using assms(3) by (simp add: node_ok_def)
  have g: "GetDocument node h = Inr (Some node)" using GetDocument_root [OF d assms(2) p] assms(3) by simp
  obtain r where r: "GetDocument this h = Inr r" "\<forall>x. r = Some x \<longrightarrow> (this, x) \<in> (below (kids h))\<^sup>*"
    using GetDocument_ok [OF d assms(4)] by blast
  show ?thesis
  proof (cases "r = Some node")
    case False
    with r(1) g assms(2) p show ?thesis by (simp add: LinkEndChild_def node_at_simp document_fits_def)
  next
    case True
    have nz: "cells h node \<noteq> None" using assms(2) by simp
    have "readable (cells h) (kids h) (desc (kids h) node)" by (rule links_readable [OF l links_desc [OF l nz]])
    moreover have "forest (kids h)" using l by (simp add: links_ok_def)
    ultimately have "delete_node node h = Inr (h\<lparr>cells := (cells h) |` (- desc (kids h) node)\<rparr>)"
      using delete_node_ok dom_finite [OF d nz] by blast
    moreover have "this \<in> desc (kids h) node" using r(2) True by (simp add: desc_def)
    moreover have "0 < next_addr h" using d nz by (auto simp: dom_ok_def intro: gr_zeroI)
    then obtain f where "next_addr h = Suc f" by (cases "next_addr h") auto
    ultimately show ?thesis using True r(1) g assms(2,3) p
      by (simp add: LinkEndChild_def node_at_simp document_fits_def set_top_only_def GetDocument_def node_at_def)
  qed
qed

theorem link_document_fails_witness:
  "LinkEndChild 0 4 sample_dom = Inl WildPointer \<and> LinkEndChild 0 1 sample_dom = Inl (Assertion ''tinyxml'')"
proof -
  obtain n where n: "cells sample_dom 0 = Some n" using sample_cells(1) by blast
  have "n_type (the (cells sample_dom 0)) = TINYXML_DOCUMENT" by code_simp
  then have doc: "n_type n = TINYXML_DOCUMENT" using n by simp
  have "GetDocument 4 sample_dom = Inr (Some 0)" "GetDocument 1 sample_dom = Inr None" by code_simp+
  then show ?thesis
    using link_document_fails [OF sample_inv n doc sample_cells(3)] link_document_fails [OF sample_inv n doc sample_cells(2)]
    by simp
qed

text \<open>
  The assertion of \<^verbatim>\<open>LinkEndChild\<close> lets a node be linked again that is already a child of \<^verbatim>\<open>this\<close>. For
  the last child the call then makes the node its own successor, and every search from it that does not
  match at once runs forever.
\<close>

theorem link_twice_loops:
  assumes "tree_inv h" "kids h this = xs @ [node]" "cells h node = Some n" "Value n \<noteq> v"
  shows "\<exists>h'. LinkEndChild node this h = Inr (Some node, h') \<and> Node_NextSibling v node h' = Inl Diverges"
proof -
  have d: "dom_ok h (kids h)" using assms(1) by (simp add: tree_inv_def dom_inv_def)
  have l: "links_ok (cells h) (kids h)" using d by (simp add: dom_ok_def)
  obtain n' t where c: "cells h node = Some n'" "n_parent n' = Some this" "cells h this = Some t"
      "n_lastChild t = last_of None (xs @ [node])" "this \<notin> set (xs @ [node])"
    using child_cell [OF l, of this xs node "[]"] assms(2) by metis
  then have n: "n_parent n = Some this" "n_lastChild t = Some node" "this \<noteq> node" using assms(3) by simp_all
  have doc: "n_type n \<noteq> TINYXML_DOCUMENT" by (rule child_type [OF l assms(3) n(1)])
  have "0 < next_addr h" using d assms(3) by (cases "next_addr h") (auto simp: dom_ok_def)
  then obtain f where f: "next_addr h = Suc f" by (cases "next_addr h") auto
  have nz: "cells h node \<noteq> None" using assms(3) by simp
  obtain r where r: "GetDocument node h = Inr r" using GetDocument_ok [OF d nz] by blast
  then have "walk f n_parent ToDocument (Some this) h = Inr r"
    using assms(3) doc n(1) f by (simp add: GetDocument_def node_at_simp ToDocument_def)
  from walk_Suc [OF this] have "GetDocument this h = Inr r" unfolding GetDocument_def f .
  with r have fits: "document_fits node this h = Inr True" by (simp add: document_fits_def)
  let ?m = "n\<lparr>n_parent := Some this, n_prev := Some node, n_next := Some node\<rparr>"
  let ?h = "h\<lparr>cells := (cells h)(node \<mapsto> ?m, this \<mapsto> t\<lparr>n_lastChild := Some node\<rparr>)\<rparr>"
  have run: "LinkEndChild node this h = Inr (Some node, ?h)"
    using assms(3) c(3) n doc fits by (simp add: LinkEndChild_def node_at_simp link_end_def upd_simp fun_upd_twist)
  have "walk g n_next (has_value v) (Some node) ?h = Inl Diverges" for g
    using n(3) assms(4) by (induction g) (simp_all add: node_at_simp has_value_def Value_def)
  with run n(3) show ?thesis by (auto simp: Node_NextSibling_def node_at_simp)
qed

theorem link_twice_loops_witness:
  "\<exists>h'. LinkEndChild 5 4 sample_dom = Inr (Some 5, h') \<and> Node_NextSibling [97] 5 h' = Inl Diverges"
proof -
  obtain n where n: "cells sample_dom 5 = Some n" using sample_cells(4) by blast
  have "Value (the (cells sample_dom 5)) \<noteq> [97]" by code_simp
  then have "Value n \<noteq> [97]" using n by simp
  from link_twice_loops [OF sample_inv _ n this, of 4 "[6]"] sample_kids(3) show ?thesis by simp
qed

end
