(* ===== verification/Xml_Assign.thy ===== *)
theory Xml_Assign
  imports Xml_Edits
begin

text \<open>
  The copy constructors, \<^verbatim>\<open>operator=\<close> and setters of the classes of nodes (src/Public/tinyxml). An
  assignment clears its target and fills it with \<^verbatim>\<open>CopyTo\<close>: the target becomes the tree of the source,
  unless it is the source.
\<close>

section \<open>Operations\<close>

text \<open>\<^verbatim>\<open>CopyTo\<close> of the class of \<open>base\<close>, into a node of the same class.\<close>

definition Node_CopyTo :: "naddr \<Rightarrow> naddr \<Rightarrow> dom \<Rightarrow> dom outcome" where
  "Node_CopyTo base target h =
     bindE (node_at base h) (\<lambda>n.
     bindE (upd target (copy_fields n) h) (\<lambda>h.
     bindE (case n_body n of
         Body_element as \<Rightarrow> on_attrs (copy_attrs (visible_attrs as)) target h
       | b \<Rightarrow> upd target (\<lambda>t. t\<lparr>n_body := copy_body b (n_body t)\<rparr>) h) (\<lambda>h.
     if has_children n then
       bindE (node_at base h) (\<lambda>n. clone_children (2 * next_addr h) (n_firstChild n) target h)
     else Inr h)))"

text \<open>\<^verbatim>\<open>while (attributeSet.First()) ...\<close> removes every attribute.\<close>

definition ClearThis :: "naddr \<Rightarrow> dom \<Rightarrow> dom outcome" where
  "ClearThis this h = bindE (Node_Clear this h) (on_attrs (\<lambda>_. Inr []) this)"

definition Element_assign :: "naddr \<Rightarrow> naddr \<Rightarrow> dom \<Rightarrow> dom outcome" where
  "Element_assign base this h = bindE (ClearThis this h) (Node_CopyTo base this)"

definition Document_assign :: "naddr \<Rightarrow> naddr \<Rightarrow> dom \<Rightarrow> dom outcome" where
  "Document_assign copy this h = bindE (Node_Clear this h) (Node_CopyTo copy this)"

definition Comment_assign :: "naddr \<Rightarrow> naddr \<Rightarrow> dom \<Rightarrow> dom outcome" where
  "Comment_assign base this h = bindE (Node_Clear this h) (Node_CopyTo base this)"

definition Declaration_assign :: "naddr \<Rightarrow> naddr \<Rightarrow> dom \<Rightarrow> dom outcome" where
  "Declaration_assign copy this h = bindE (Node_Clear this h) (Node_CopyTo copy this)"

definition Text_assign :: "naddr \<Rightarrow> naddr \<Rightarrow> dom \<Rightarrow> dom outcome" where
  "Text_assign base this = Node_CopyTo base this"

definition Unknown_assign :: "naddr \<Rightarrow> naddr \<Rightarrow> dom \<Rightarrow> dom outcome" where
  "Unknown_assign copy this = Node_CopyTo copy this"

text \<open>\<^verbatim>\<open>TiXmlElement(const TiXmlElement&)\<close>\<close>

definition Element_copy :: "naddr \<Rightarrow> dom \<Rightarrow> (naddr \<times> dom) outcome" where
  "Element_copy copy h =
     (let (this, h) = alloc (Node_new (Body_element [])) h in
      bindE (Node_CopyTo copy this h) (\<lambda>h. Inr (this, h)))"

definition Node_SetValue :: "cstr \<Rightarrow> naddr \<Rightarrow> dom \<Rightarrow> dom outcome" where
  "Node_SetValue v this = upd this (\<lambda>t. t\<lparr>n_value := v\<rparr>)"

definition SetUserData :: "nat \<Rightarrow> naddr \<Rightarrow> dom \<Rightarrow> dom outcome" where
  "SetUserData user this = upd this (\<lambda>t. t\<lparr>n_userData := user\<rparr>)"

definition SetCDATA :: "bool \<Rightarrow> naddr \<Rightarrow> dom \<Rightarrow> dom outcome" where
  "SetCDATA c this =
     upd this (\<lambda>t. t\<lparr>n_body := (case n_body t of Body_text _ \<Rightarrow> Body_text c | b \<Rightarrow> b)\<rparr>)"

definition SetTabSize :: "s32 \<Rightarrow> naddr \<Rightarrow> dom \<Rightarrow> dom outcome" where
  "SetTabSize n this =
     upd this (\<lambda>t. t\<lparr>n_body := (case n_body t of Body_document e _ m \<Rightarrow> Body_document e n m | b \<Rightarrow> b)\<rparr>)"

definition ClearError :: "naddr \<Rightarrow> dom \<Rightarrow> dom outcome" where
  "ClearError this =
     upd this (\<lambda>t. t\<lparr>n_body := (case n_body t of Body_document _ n m \<Rightarrow> Body_document None n m | b \<Rightarrow> b)\<rparr>)"

section \<open>An assignment copies\<close>

lemma CopyTo_ok:
  assumes d: "dom_ok h ch" and cl: "clonable h" and n: "cells h base = Some n" and t: "cells h this = Some t"
    and ty: "n_type t = n_type n" "has_children n" and empty: "ch this = []" "\<And>as. n_body t = Body_element as \<Longrightarrow> as = []"
    and apart: "this \<notin> desc ch base" and s: "depicts h ch base s"
  shows "\<exists>h' ch'. Node_CopyTo base this h = Inr h' \<and> dom_ok h' ch' \<and> clonable h' \<and> depicts h' ch' this (clone_tree s) \<and>
    (\<forall>x < next_addr h. x \<noteq> this \<longrightarrow> contents h' x = contents h x \<and> ch' x = ch x)"
proof -
  have l: "links_ok (cells h) ch" and f: "forest ch" using d by (simp_all add: dom_ok_def links_ok_def)
  have nz: "cells h base \<noteq> None" using n by simp
  have bt: "base \<noteq> this" using apart by auto
  from s n obtain ts where ts: "s = PNode (payload n) ts" "list_all2 (depicts h ch) (ch base) ts"
    by (auto elim!: depicts_tree simp: contents_def)
  define m where "m = (copy_fields n t)\<lparr>n_body := clone_body (n_body n)\<rparr>"
  define h1 where "h1 = h\<lparr>cells := (cells h)(this \<mapsto> m)\<rparr>"
  have m: "n_type m = n_type t" "n_parent m = n_parent t" "n_prev m = n_prev t" "n_next m = n_next t"
    "n_firstChild m = n_firstChild t" "n_lastChild m = n_lastChild t" "payload m = clone_payload (payload n)"
    using ty(1) by (cases "n_body n"; simp add: m_def copy_fields_def n_type_def payload_def Value_def)+
  have good: "attrs_good as" if "n_body n = Body_element as" for as by (rule clonable_at [OF cl n that])
  have run: "Node_CopyTo base this h = bindE (node_at base h1) (\<lambda>n. clone_children (2 * next_addr h1) (n_firstChild n) this h1)"
  proof (cases "n_body n")
    case (Body_element as)
    with ty(1) empty(2) have b: "n_body t = Body_element []" by (cases "n_body t") (auto simp: n_type_def)
    from copy_attrs_good [of "[]" as] good [OF Body_element] visible_all [of as]
    have "copy_attrs (visible_attrs as) [] = Inr (map plain as)" by (simp add: attrs_good_def)
    with Body_element b n t ty(2) show ?thesis
      by (simp add: Node_CopyTo_def node_at_simp upd_simp on_attrs_def copy_fields_def m_def h1_def)
  qed (use n t ty in \<open>simp_all add: Node_CopyTo_def node_at_simp upd_simp copy_fields_def m_def h1_def has_children_def n_type_def\<close>)
  have d1: "dom_ok h1 ch" unfolding h1_def by (rule cell_ok [OF d t m(1-6)])
  have l1: "links_ok (cells h1) ch" using d1 by (simp add: dom_ok_def)
  have cl1: "clonable h1"
    unfolding h1_def
  proof (rule cell_clonable [OF cl])
    fix as
    assume "n_body m = Body_element as"
    then obtain as0 where "n_body n = Body_element as0" "as = map plain as0"
      by (cases "n_body n") (auto simp: m_def)
    with good show "attrs_good as" by simp
  qed
  let ?S = "family ch (ch base)"
  have sub: "?S \<subseteq> desc ch base" by (auto simp: desc_family [of ch base])
  have S: "?S \<subseteq> {..<next_addr h1} - {this}"
  proof
    fix x
    assume "x \<in> ?S"
    with sub have x: "x \<in> desc ch base" by blast
    with apart have "x \<noteq> this" by auto
    with links_desc [OF l nz x] d show "x \<in> {..<next_addr h1} - {this}" by (simp add: dom_ok_def h1_def)
  qed
  have base1: "cells h1 base = Some n" using n bt by (simp add: h1_def)
  have "node_ok (cells h1) ch base n" using l1 base1 by (simp add: links_ok_def)
  then have o: "n_firstChild n = first_of (ch base) None" "nexts (cells h1) (ch base)"
    by (auto simp: node_ok_def intro: seg_nexts)
  have card: "2 * card ?S \<le> 2 * next_addr h1"
    using dom_finite [OF d nz] card_mono [OF dom_finite(1) [OF d nz] sub] by (simp add: h1_def)
  have ts1: "list_all2 (depicts h1 ch) (ch base) ts"
    by (rule depicts_list_cong [OF ts(2)]) (use S in \<open>auto simp: h1_def contents_upd\<close>)
  have par: "\<exists>n q. cells h1 x = Some n \<and> n_parent n = Some q" if "x \<in> set (ch base)" for x
    using links_child(1) [OF l1 that] by blast
  have this1: "cells h1 this = Some m" "this < next_addr h1" "set (ch this) \<inter> ?S = {}"
    using d t empty(1) by (simp_all add: h1_def dom_ok_def)
  from clones_any(2) [unfolded clones_all_def, rule_format, OF d1 cl1 o(2) children_apart [OF f] ts1 card par order_refl S
      this1(2,1,3)]
  obtain h' ch' bs m' where r: "clone_children (2 * next_addr h1) (first_of (ch base) None) this h1 = Inr h'" "dom_ok h' ch'"
      "clonable h'" "cells h' this = Some m'" "payload m' = payload m" "ch' this = ch this @ bs"
      "list_all2 (depicts h' ch') bs (map clone_tree ts)"
      "\<forall>x < next_addr h1. x \<noteq> this \<longrightarrow> contents h' x = contents h1 x \<and> ch' x = ch x" by blast
  have "depicts h' ch' this (PNode (payload m) (map clone_tree ts))"
    by (rule depicts.intros) (use r(4-7) empty(1) in \<open>simp_all add: contents_def\<close>)
  moreover have "clone_tree s = PNode (payload m) (map clone_tree ts)"
    using ts(1) m(7) ty(2) by (simp add: has_children_payload)
  moreover have "Node_CopyTo base this h = Inr h'" using run base1 o(1) r(1) by (simp add: node_at_simp)
  moreover have "\<forall>x < next_addr h. x \<noteq> this \<longrightarrow> contents h' x = contents h x \<and> ch' x = ch x"
    using r(8) by (simp add: h1_def contents_upd)
  ultimately show ?thesis using r(2,3) by auto
qed

text \<open>Two nodes that are not above each other share nothing.\<close>

lemma desc_disjoint:
  assumes "forest ch" "a \<notin> desc ch b" "b \<notin> desc ch a"
  shows "desc ch a \<inter> desc ch b = {}"
  using ancestors_line [OF assms(1)] assms(2,3) unfolding desc_def by blast

lemma restrict_clonable:
  assumes "clonable h" "contents h' = (contents h) |` S"
  shows "clonable h'"
  using assms unfolding clonable_def by (simp add: restrict_map_def split: if_splits)

lemma Clear_this:
  assumes d: "dom_ok h ch" and cl: "clonable h" and t: "cells h this = Some t"
  shows "\<exists>h1 t1. Node_Clear this h = Inr h1 \<and> dom_ok h1 (without (family ch (ch this)) (ch(this := []))) \<and> clonable h1 \<and>
    next_addr h1 = next_addr h \<and> cells h1 this = Some t1 \<and> payload t1 = payload t \<and>
    contents h1 = (contents h) |` (- family ch (ch this))"
proof -
  have "forest ch" using d by (simp add: dom_ok_def links_ok_def)
  then have no: "this \<notin> family ch (ch this)" by (rule not_in_family)
  obtain h1 where h1: "Node_Clear this h = Inr h1" "dom_ok h1 (without (family ch (ch this)) (ch(this := [])))"
      "next_addr h1 = next_addr h" "contents h1 = (contents h) |` (- family ch (ch this))"
    using Clear_ok [OF d t] by blast
  have "contents h1 this = Some (payload t)" using h1(4) no t by (simp add: contents_def restrict_map_def)
  then obtain t1 where "cells h1 this = Some t1" "payload t1 = payload t" by (auto simp: contents_def)
  with h1 restrict_clonable [OF cl h1(4)] show ?thesis by blast
qed

lemma cleared_copy:
  assumes d: "dom_ok h ch" and b: "cells h base = Some n" "cells h this = Some t"
    and apart: "this \<notin> desc ch base" "base \<notin> desc ch this"
    and h1: "dom_ok h1 (without (family ch (ch this)) (ch(this := [])))" "clonable h1" "next_addr h1 = next_addr h"
      "cells h1 this = Some t1" "\<And>x. x \<noteq> this \<Longrightarrow> x \<notin> family ch (ch this) \<Longrightarrow> contents h1 x = contents h x"
    and t1: "n_type t1 = n_type n" "has_children n" "\<And>as. n_body t1 = Body_element as \<Longrightarrow> as = []"
  shows "\<exists>h'. Node_CopyTo base this h1 = Inr h' \<and> dom_inv h' \<and> clonable h' \<and>
    (\<exists>s. read_tree base h = Inr s \<and> read_tree this h' = Inr (clone_tree s) \<and> read_tree base h' = Inr s)"
proof -
  let ?D = "family ch (ch this)"
  let ?ch = "without ?D (ch(this := []))"
  have f: "forest ch" using d by (simp add: dom_ok_def links_ok_def)
  have nz: "cells h base \<noteq> None" using b by simp
  obtain s where s: "depicts h ch base s"
    using depicts_exists [OF _ nz dom_finite(1) [OF d nz]] d by (auto simp: dom_ok_def)
  have sep: "x \<noteq> this \<and> x \<notin> ?D" if "x \<in> desc ch base" for x
    using desc_disjoint [OF f apart] that by (auto simp: desc_family [of ch this])
  have s1: "depicts h1 ?ch base s"
    by (rule depicts_cong [OF s]) (use sep h1(5) in \<open>simp add: without_def\<close>)
  have dc: "desc ?ch base = desc ch base" by (rule desc_cong) (use sep in \<open>simp add: without_def\<close>)
  have ct: "contents h1 base = contents h base" using sep [of base] h1(5) by simp
  with b(1) obtain n1 where n1: "cells h1 base = Some n1" "payload n1 = payload n" by (auto simp: contents_def)
  then have ty: "n_type n1 = n_type n" by (simp add: payload_def n_type_def)
  with t1(2) have hc: "has_children n1" by (simp add: has_children_def)
  have e: "?ch this = []" by (simp add: without_def)
  obtain h' ch' where r: "Node_CopyTo base this h1 = Inr h'" "dom_ok h' ch'" "clonable h'" "depicts h' ch' this (clone_tree s)"
      "\<forall>x < next_addr h1. x \<noteq> this \<longrightarrow> contents h' x = contents h1 x \<and> ch' x = ?ch x"
    using CopyTo_ok [OF h1(1,2) n1(1) h1(4) _ hc e t1(3) _ s1] t1(1) ty apart(1) dc by auto
  have "depicts h' ch' base s"
  proof (rule depicts_cong [OF s1])
    fix x
    assume "x \<in> desc ?ch base"
    then have x: "x \<in> desc ch base" by (simp only: dc)
    have "cells h x \<noteq> None" using links_desc [of "cells h" ch base x] nz x d by (simp add: dom_ok_def)
    then have "x < next_addr h1" using d h1(3) by (simp add: dom_ok_def)
    with r(5) sep [OF x] show "contents h' x = contents h1 x \<and> ch' x = ?ch x" by simp
  qed
  moreover have "cells h' base \<noteq> None" "cells h' this \<noteq> None"
    using calculation r(4) by (auto elim!: depicts_tree simp: contents_def)
  ultimately have "read_tree base h' = Inr s" "read_tree this h' = Inr (clone_tree s)"
    using read_tree_ok [OF r(2)] r(4) by simp_all
  with r read_tree_ok [OF d nz s] dom_ok_inv [OF r(2)] show ?thesis by blast
qed

text \<open>
  An element or a document that is assigned another one becomes the same tree, made of new nodes, and the
  source stays as it was; the old children are freed.
\<close>

theorem assign_copies:
  assumes "tree_inv h" "cells h base = Some n" "cells h this = Some t" "n_type t = n_type n"
    "this \<notin> desc (kids h) base" "base \<notin> desc (kids h) this"
  shows "n_type n = TINYXML_ELEMENT \<Longrightarrow> \<exists>h'. Element_assign base this h = Inr h' \<and> tree_inv h' \<and>
      (\<exists>s. read_tree base h = Inr s \<and> read_tree this h' = Inr (clone_tree s) \<and> read_tree base h' = Inr s)"
    and "n_type n = TINYXML_DOCUMENT \<Longrightarrow> \<exists>h'. Document_assign base this h = Inr h' \<and> tree_inv h' \<and>
      (\<exists>s. read_tree base h = Inr s \<and> read_tree this h' = Inr (clone_tree s) \<and> read_tree base h' = Inr s)"
proof -
  have d: "dom_ok h (kids h)" "clonable h" using assms(1) by (simp_all add: tree_inv_def dom_inv_def)
  obtain h1 t1 where c: "Node_Clear this h = Inr h1"
      "dom_ok h1 (without (family (kids h) (kids h this)) ((kids h)(this := [])))" "clonable h1" "next_addr h1 = next_addr h"
      "cells h1 this = Some t1" "payload t1 = payload t"
      "contents h1 = (contents h) |` (- family (kids h) (kids h this))"
    using Clear_this [OF d assms(3)] by blast
  have old: "contents h1 x = contents h x" if "x \<noteq> this" "x \<notin> family (kids h) (kids h this)" for x
    using that c(7) by (simp add: restrict_map_def)
  have ty: "n_type t1 = n_type n" "n_body t1 = n_body t" using c(6) assms(4) by (simp_all add: payload_def n_type_def)
  show "\<exists>h'. Document_assign base this h = Inr h' \<and> tree_inv h' \<and>
      (\<exists>s. read_tree base h = Inr s \<and> read_tree this h' = Inr (clone_tree s) \<and> read_tree base h' = Inr s)"
    if doc: "n_type n = TINYXML_DOCUMENT"
  proof -
    have "n_body t1 \<noteq> Body_element as" for as using doc ty(1) by (auto simp: n_type_def)
    then show ?thesis
      using cleared_copy [OF d(1) assms(2,3,5,6) c(2-5) old ty(1)] c(1) doc
      by (simp add: Document_assign_def has_children_def tree_inv_def)
  qed
  show "\<exists>h'. Element_assign base this h = Inr h' \<and> tree_inv h' \<and>
      (\<exists>s. read_tree base h = Inr s \<and> read_tree this h' = Inr (clone_tree s) \<and> read_tree base h' = Inr s)"
    if el: "n_type n = TINYXML_ELEMENT"
  proof -
    from el ty(1) obtain as where as: "n_body t1 = Body_element as" by (cases "n_body t1") (auto simp: n_type_def)
    let ?t = "t1\<lparr>n_body := Body_element []\<rparr>"
    let ?h = "h1\<lparr>cells := (cells h1)(this \<mapsto> ?t)\<rparr>"
    have "dom_ok ?h (without (family (kids h) (kids h this)) ((kids h)(this := [])))"
      by (rule cell_ok [OF c(2,5)]) (use as in \<open>simp_all add: n_type_def\<close>)
    moreover have "clonable ?h" by (rule cell_clonable [OF c(3)]) (simp add: attrs_good_def)
    moreover have "contents ?h x = contents h x" if "x \<noteq> this" "x \<notin> family (kids h) (kids h this)" for x
      using that old by (simp add: contents_upd)
    moreover have "n_type ?t = n_type n" using ty(1) as by (simp add: n_type_def)
    moreover have "ClearThis this h = Inr ?h" using c(1,5) as by (simp add: ClearThis_def on_attrs_def node_at_simp upd_simp)
    ultimately show ?thesis
      using cleared_copy [OF d(1) assms(2,3,5,6), of ?h ?t] c(4) el
      by (simp add: Element_assign_def has_children_def tree_inv_def)
  qed
qed

text \<open>The copy constructor of an element makes the same tree.\<close>

theorem element_copy_constructor:
  assumes "tree_inv h" "cells h a = Some n" "n_type n = TINYXML_ELEMENT"
  shows "\<exists>h'. Element_copy a h = Inr (next_addr h, h') \<and> tree_inv h' \<and>
    (\<exists>s. read_tree a h = Inr s \<and> read_tree (next_addr h) h' = Inr (clone_tree s))"
proof -
  let ?b = "next_addr h" and ?e = "Node_new (Body_element [])"
  have d: "dom_ok h (kids h)" and cl: "clonable h" using assms(1) by (simp_all add: tree_inv_def dom_inv_def)
  have nz: "cells h a \<noteq> None" using assms(2) by simp
  have l: "links_ok (cells h) (kids h)" using d by (simp add: dom_ok_def)
  define h1 where "h1 = snd (alloc ?e h)"
  have al: "alloc ?e h = (?b, h1)" by (simp add: h1_def alloc_def)
  have new: "n_parent ?e = None" "n_prev ?e = None" "n_next ?e = None" "n_firstChild ?e = None" "n_lastChild ?e = None"
    by (simp_all add: Node_new_def)
  note ok = alloc_ok [OF d new al]
  have ct: "contents h1 = (contents h)(?b \<mapsto> payload ?e)" by (simp add: contents_def ok(4) fun_eq_iff)
  with cl have cl1: "clonable h1" unfolding clonable_def by (simp add: payload_def Node_new_def attrs_good_def)
  have bound: "x < ?b" if "x \<in> desc (kids h) a" for x using links_desc [OF l nz that] d by (simp add: dom_ok_def)
  obtain s where s: "depicts h (kids h) a s" using depicts_exists [OF l nz dom_finite(1) [OF d nz]] by blast
  have s1: "depicts h1 (kids h) a s"
    by (rule depicts_cong [OF s]) (use bound ct in fastforce)
  have a1: "cells h1 a = Some n" using bound [of a] assms(2) by (simp add: ok(4))
  have b1: "cells h1 ?b = Some ?e" by (simp add: ok(4))
  have ty: "n_type ?e = n_type n" "has_children n" "n_body ?e = Body_element as \<Longrightarrow> as = []" for as
    using assms(3) by (simp_all add: n_type_def has_children_def Node_new_def)
  have apart: "?b \<notin> desc (kids h) a" using bound by blast
  from CopyTo_ok [OF ok(1) cl1 a1 b1 ty(1,2) ok(5) ty(3) apart s1] obtain h' ch' where
    r: "Node_CopyTo a ?b h1 = Inr h'" "dom_ok h' ch'" "clonable h'" "depicts h' ch' ?b (clone_tree s)" by blast
  have "cells h' ?b \<noteq> None" using r(4) by (auto elim!: depicts_tree simp: contents_def)
  from read_tree_ok [OF r(2) this r(4)] read_tree_ok [OF d nz s] r(1,3) dom_ok_inv [OF r(2)] al
  show ?thesis by (simp add: Element_copy_def tree_inv_def)
qed

text \<open>
  An element that is assigned to itself loses its attributes and frees its children: \<^verbatim>\<open>operator=\<close> clears its
  target first and does not ask whether it is the source.
\<close>

theorem element_self_assign:
  assumes "tree_inv h" "cells h this = Some t" "n_type t = TINYXML_ELEMENT"
  shows "\<exists>h'. Element_assign this this h = Inr h' \<and>
    read_tree this h' = Inr (PNode (n_userData t, n_location t, Body_element [], Value t) []) \<and>
    (\<forall>x \<in> desc (kids h) this - {this}. cells h' x = None)"
proof -
  let ?D = "family (kids h) (kids h this)"
  have d: "dom_ok h (kids h)" "clonable h" using assms(1) by (simp_all add: tree_inv_def dom_inv_def)
  obtain h1 t1 where c: "Node_Clear this h = Inr h1" "dom_ok h1 (without ?D ((kids h)(this := [])))"
      "cells h1 this = Some t1" "payload t1 = payload t" "contents h1 = (contents h) |` (- ?D)"
    using Clear_this [OF d assms(2)] by blast
  have ty: "n_userData t1 = n_userData t" "n_location t1 = n_location t" "n_value t1 = n_value t" "n_body t1 = n_body t"
    using c(4) by (simp_all add: payload_def)
  from assms(3) obtain as where "n_body t = Body_element as" by (cases "n_body t") (auto simp: n_type_def)
  with ty(4) have as: "n_body t1 = Body_element as" by simp
  have "node_ok (cells h1) (without ?D ((kids h)(this := []))) this t1" using c(2,3) by (simp add: dom_ok_def links_ok_def)
  then have none: "n_firstChild t1 = None" by (simp add: node_ok_def without_def)
  let ?t = "t1\<lparr>n_value := Value t1, n_body := Body_element []\<rparr>"
  let ?h = "h1\<lparr>cells := (cells h1)(this \<mapsto> ?t)\<rparr>"
  have "ClearThis this h = Inr (h1\<lparr>cells := (cells h1)(this \<mapsto> t1\<lparr>n_body := Body_element []\<rparr>)\<rparr>)"
    using c(1,3) as by (simp add: ClearThis_def on_attrs_def node_at_simp upd_simp)
  then have run: "Element_assign this this h = Inr ?h"
    using none by (simp add: Element_assign_def Node_CopyTo_def node_at_simp upd_simp on_attrs_def copy_fields_def
        has_children_def n_type_def Value_def)
  have "read_tree this ?h = Inr (PNode (n_userData t, n_location t, Body_element [], Value t) [])"
    using none ty by (simp add: read_tree_def node_at_simp payload_def Value_def)
  moreover have "cells ?h x = None" if "x \<in> desc (kids h) this - {this}" for x
  proof -
    from that have "x \<in> ?D" "x \<noteq> this" by (auto simp: desc_family [of "kids h" this])
    moreover from this c(5) have "contents h1 x = None" by (simp add: restrict_map_def)
    ultimately show ?thesis by (simp add: contents_def)
  qed
  ultimately show ?thesis using run by blast
qed

end
