(* ===== verification/Xml_Attrs.thy ===== *)
theory Xml_Attrs
  imports Xml_Dom
begin

text \<open>
  \<^verbatim>\<open>TiXmlAttributeSet\<close> (src/Public/tinyxml): the attributes of an element are a ring of nodes through a
  sentinel. Every operation on the ring is the operation on the list of theories Xml_Parse and
  Xml_Dom; the walk with \<^verbatim>\<open>First\<close> and \<^verbatim>\<open>Next\<close> sees all of it but what looks like the sentinel.
\<close>

section \<open>The ring\<close>

record acell =
  c_name :: "byte list"
  c_value :: "byte list"
  c_location :: location
  c_prev :: "nat option"
  c_next :: "nat option"

record aring =
  acells :: "nat \<rightharpoonup> acell"
  next_attr :: nat
  sentinel :: nat

definition acell_at :: "nat option \<Rightarrow> aring \<Rightarrow> acell outcome" where
  "acell_at p r =
     (case p of
        None \<Rightarrow> Inl NullPointer
      | Some a \<Rightarrow> (case acells r a of None \<Rightarrow> Inl WildPointer | Some n \<Rightarrow> Inr n))"

definition aupd :: "nat option \<Rightarrow> (acell \<Rightarrow> acell) \<Rightarrow> aring \<Rightarrow> aring outcome" where
  "aupd p f r = bindE (acell_at p r) (\<lambda>n. Inr (r\<lparr>acells := (acells r)(the p \<mapsto> f n)\<rparr>))"

definition acell_new :: acell where
  "acell_new = \<lparr>c_name = [], c_value = [], c_location = no_location, c_prev = None, c_next = None\<rparr>"

text \<open>\<^verbatim>\<open>TiXmlAttributeSet()\<close>\<close>

definition AttributeSet_new :: aring where
  "AttributeSet_new = \<lparr>acells = [0 \<mapsto> acell_new\<lparr>c_prev := Some 0, c_next := Some 0\<rparr>], next_attr = 1, sentinel = 0\<rparr>"

text \<open>\<^verbatim>\<open>for (node = sentinel.next; node != &sentinel; node = node->next) if (test(node)) return node; return 0;\<close>\<close>

fun ring_walk :: "nat \<Rightarrow> (nat \<Rightarrow> acell \<Rightarrow> bool) \<Rightarrow> nat option \<Rightarrow> aring \<Rightarrow> nat option outcome" where
  "ring_walk f test p r =
     (if p = Some (sentinel r) then Inr None
      else case f of
        0 \<Rightarrow> Inl Diverges
      | Suc g \<Rightarrow> bindE (acell_at p r) (\<lambda>n. if test (the p) n then Inr p else ring_walk g test (c_next n) r))"

declare ring_walk.simps [simp del]

definition Ring_Find :: "cstr \<Rightarrow> aring \<Rightarrow> nat option outcome" where
  "Ring_Find name r =
     bindE (acell_at (Some (sentinel r)) r) (\<lambda>s. ring_walk (next_attr r) (\<lambda>_ n. c_str (c_name n) = name) (c_next s) r)"

definition Ring_Add :: "nat \<Rightarrow> aring \<Rightarrow> aring outcome" where
  "Ring_Add addMe r =
     bindE (acell_at (Some addMe) r) (\<lambda>a.
     bindE (Ring_Find (c_str (c_name a)) r) (\<lambda>found.
     bindE (xassert (found = None)) (\<lambda>_.
     bindE (aupd (Some addMe) (\<lambda>n. n\<lparr>c_next := Some (sentinel r)\<rparr>) r) (\<lambda>r.
     bindE (acell_at (Some (sentinel r)) r) (\<lambda>s.
     bindE (aupd (Some addMe) (\<lambda>n. n\<lparr>c_prev := c_prev s\<rparr>) r) (\<lambda>r.
     bindE (aupd (c_prev s) (\<lambda>n. n\<lparr>c_next := Some addMe\<rparr>) r) (\<lambda>r.
     aupd (Some (sentinel r)) (\<lambda>n. n\<lparr>c_prev := Some addMe\<rparr>) r)))))))"

definition Ring_Remove :: "nat \<Rightarrow> aring \<Rightarrow> aring outcome" where
  "Ring_Remove removeMe r =
     bindE (acell_at (Some (sentinel r)) r) (\<lambda>s.
     bindE (ring_walk (next_attr r) (\<lambda>a _. a = removeMe) (c_next s) r) (\<lambda>found.
     bindE (xassert (found \<noteq> None)) (\<lambda>_.
     bindE (acell_at (Some removeMe) r) (\<lambda>n.
     bindE (aupd (c_prev n) (\<lambda>p. p\<lparr>c_next := c_next n\<rparr>) r) (\<lambda>r.
     bindE (aupd (c_next n) (\<lambda>q. q\<lparr>c_prev := c_prev n\<rparr>) r) (\<lambda>r.
     aupd (Some removeMe) (\<lambda>n. n\<lparr>c_next := None, c_prev := None\<rparr>) r))))))"

definition Ring_FindOrCreate :: "cstr \<Rightarrow> aring \<Rightarrow> (nat \<times> aring) outcome" where
  "Ring_FindOrCreate name r =
     bindE (Ring_Find name r) (\<lambda>found.
     case found of
       Some a \<Rightarrow> Inr (a, r)
     | None \<Rightarrow>
         (let a = next_attr r; r = r\<lparr>acells := (acells r)(a \<mapsto> acell_new), next_attr := Suc a\<rparr> in
          bindE (Ring_Add a r) (\<lambda>r.
          bindE (aupd (Some a) (\<lambda>n. n\<lparr>c_name := name\<rparr>) r) (\<lambda>r. Inr (a, r)))))"

definition Ring_SetAttribute :: "cstr \<Rightarrow> cstr \<Rightarrow> aring \<Rightarrow> aring outcome" where
  "Ring_SetAttribute name v r =
     bindE (Ring_FindOrCreate name r) (\<lambda>(a, r). aupd (Some a) (\<lambda>n. n\<lparr>c_value := v\<rparr>) r)"

definition Ring_RemoveAttribute :: "cstr \<Rightarrow> aring \<Rightarrow> aring outcome" where
  "Ring_RemoveAttribute name r =
     bindE (Ring_Find name r) (\<lambda>found.
     case found of
       None \<Rightarrow> Inr r
     | Some a \<Rightarrow> bindE (Ring_Remove a r) (\<lambda>r. Inr (r\<lparr>acells := (acells r)(a := None)\<rparr>)))"

text \<open>\<^verbatim>\<open>First()\<close>, \<^verbatim>\<open>Last()\<close> of the set; \<^verbatim>\<open>Next()\<close>, \<^verbatim>\<open>Previous()\<close> of an attribute.\<close>

definition Ring_First :: "aring \<Rightarrow> nat option outcome" where
  "Ring_First r = bindE (acell_at (Some (sentinel r)) r) (\<lambda>s. Inr (if c_next s = Some (sentinel r) then None else c_next s))"

definition Ring_Last :: "aring \<Rightarrow> nat option outcome" where
  "Ring_Last r = bindE (acell_at (Some (sentinel r)) r) (\<lambda>s. Inr (if c_prev s = Some (sentinel r) then None else c_prev s))"

definition Ring_Next :: "nat \<Rightarrow> aring \<Rightarrow> nat option outcome" where
  "Ring_Next a r =
     bindE (acell_at (Some a) r) (\<lambda>n.
     bindE (acell_at (c_next n) r) (\<lambda>q. Inr (if c_value q = [] \<and> c_name q = [] then None else c_next n)))"

definition Ring_Previous :: "nat \<Rightarrow> aring \<Rightarrow> nat option outcome" where
  "Ring_Previous a r =
     bindE (acell_at (Some a) r) (\<lambda>n.
     bindE (acell_at (c_prev n) r) (\<lambda>q. Inr (if c_value q = [] \<and> c_name q = [] then None else c_prev n)))"

text \<open>\<^verbatim>\<open>for (attrib = First(); attrib; attrib = attrib->Next())\<close>, the attributes it visits.\<close>

fun ring_visit :: "nat \<Rightarrow> nat option \<Rightarrow> aring \<Rightarrow> nat list outcome" where
  "ring_visit f None r = Inr []"
| "ring_visit 0 (Some a) r = Inl Diverges"
| "ring_visit (Suc f) (Some a) r = bindE (Ring_Next a r) (\<lambda>p. bindE (ring_visit f p r) (\<lambda>as. Inr (a # as)))"

definition Ring_attributes :: "aring \<Rightarrow> nat list outcome" where
  "Ring_attributes r = bindE (Ring_First r) (\<lambda>p. ring_visit (next_attr r) p r)"

section \<open>Its list\<close>

definition anext :: "(nat \<rightharpoonup> acell) \<Rightarrow> nat \<Rightarrow> nat \<Rightarrow> bool" where
  "anext c a b \<longleftrightarrow> (\<exists>n. c a = Some n \<and> c_next n = Some b)"

definition aprev :: "(nat \<rightharpoonup> acell) \<Rightarrow> nat \<Rightarrow> nat \<Rightarrow> bool" where
  "aprev c b a \<longleftrightarrow> (\<exists>n. c b = Some n \<and> c_prev n = Some a)"

fun around :: "(nat \<rightharpoonup> acell) \<Rightarrow> nat list \<Rightarrow> bool" where
  "around c [] \<longleftrightarrow> True"
| "around c [a] \<longleftrightarrow> True"
| "around c (a # b # as) \<longleftrightarrow> anext c a b \<and> aprev c b a \<and> around c (b # as)"

definition ring_ok :: "aring \<Rightarrow> nat list \<Rightarrow> bool" where
  "ring_ok r as \<longleftrightarrow>
     distinct (sentinel r # as) \<and> around (acells r) (sentinel r # as @ [sentinel r]) \<and>
     (\<forall>a. acells r a \<noteq> None \<longrightarrow> a < next_attr r) \<and> (\<forall>a \<in> set as. acells r a \<noteq> None) \<and>
     (\<exists>s. acells r (sentinel r) = Some s \<and> c_name s = [] \<and> c_value s = [])"

definition attr_of :: "acell \<Rightarrow> xattr" where
  "attr_of n = \<lparr>a_name = c_name n, a_value = c_value n, a_location = c_location n\<rparr>"

definition attrs_at :: "aring \<Rightarrow> nat list \<Rightarrow> xattr list" where
  "attrs_at r as = map (\<lambda>a. attr_of (the (acells r a))) as"

lemma around_append: "around c (xs @ a # ys) \<longleftrightarrow> around c (xs @ [a]) \<and> around c (a # ys)"
proof (induction xs)
  case (Cons x xs)
  then show ?case by (cases xs) auto
qed simp

lemma around_cong:
  "around c xs \<Longrightarrow> (\<And>a b. a \<in> set (butlast xs) \<Longrightarrow> anext c a b \<Longrightarrow> anext c' a b) \<Longrightarrow>
   (\<And>a b. a \<in> set (tl xs) \<Longrightarrow> aprev c a b \<Longrightarrow> aprev c' a b) \<Longrightarrow> around c' xs"
proof (induction c xs rule: around.induct)
  case (3 c a b as)
  have "around c' (b # as)"
  proof (rule 3(1))
    show "around c (b # as)" using 3(2) by simp
    show "\<And>x y. x \<in> set (butlast (b # as)) \<Longrightarrow> anext c x y \<Longrightarrow> anext c' x y" using 3(3) by simp
    show "\<And>x y. x \<in> set (tl (b # as)) \<Longrightarrow> aprev c x y \<Longrightarrow> aprev c' x y" using 3(4) by simp
  qed
  with 3 show ?case by simp
qed simp_all

lemma acell_at_simp: "acells r a = Some n \<Longrightarrow> acell_at (Some a) r = Inr n"
  by (simp add: acell_at_def)

lemma aupd_simp: "acells r a = Some n \<Longrightarrow> aupd (Some a) f r = Inr (r\<lparr>acells := (acells r)(a \<mapsto> f n)\<rparr>)"
  by (simp add: aupd_def acell_at_def)

lemma ring_walk_ok:
  "around (acells r) (a # as @ [sentinel r]) \<Longrightarrow> sentinel r \<notin> set as \<Longrightarrow> \<forall>x \<in> set as. acells r x \<noteq> None \<Longrightarrow>
   length as \<le> f \<Longrightarrow> acells r a = Some n \<Longrightarrow>
   ring_walk f test (c_next n) r = Inr (find (\<lambda>x. test x (the (acells r x))) as)"
proof (induction as arbitrary: a n f)
  case Nil
  then have "c_next n = Some (sentinel r)" by (auto simp: anext_def)
  then show ?case by (subst ring_walk.simps) simp
next
  case (Cons b as)
  then obtain g where f: "f = Suc g" by (cases f) auto
  from Cons.prems(3) obtain m where m: "acells r b = Some m" by auto
  from Cons.prems(1,5) have n: "c_next n = Some b" by (cases as) (auto simp: anext_def)
  have "around (acells r) (b # as @ [sentinel r])" using Cons.prems(1) by simp
  from Cons.IH [OF this _ _ _ m, of g] Cons.prems f
  have "ring_walk g test (c_next m) r = Inr (find (\<lambda>x. test x (the (acells r x))) as)" by simp
  with Cons.prems(2) m n f show ?case by (subst ring_walk.simps) (auto simp: acell_at_simp)
qed

lemma ring_length: "ring_ok r as \<Longrightarrow> length as \<le> next_attr r"
proof -
  assume r: "ring_ok r as"
  then have "set as \<subseteq> {..<next_attr r}" by (auto simp: ring_ok_def)
  then have "card (set as) \<le> next_attr r" by (metis card_lessThan card_mono finite_lessThan)
  with r show ?thesis by (simp add: ring_ok_def distinct_card)
qed

lemma ring_search:
  assumes "ring_ok r as" "acells r (sentinel r) = Some s"
  shows "ring_walk (next_attr r) test (c_next s) r = Inr (find (\<lambda>x. test x (the (acells r x))) as)"
  by (rule ring_walk_ok [OF _ _ _ ring_length [OF assms(1)] assms(2)]) (use assms(1) in \<open>auto simp: ring_ok_def\<close>)

lemma find_map: "find P (map f xs) = map_option f (find (\<lambda>x. P (f x)) xs)"
  by (induction xs) auto

lemma Ring_Find_ok:
  assumes "ring_ok r as"
  shows "\<exists>p. Ring_Find name r = Inr p \<and> p = find (\<lambda>x. c_str (c_name (the (acells r x))) = name) as \<and>
    Find name (attrs_at r as) = map_option (\<lambda>a. attr_of (the (acells r a))) p"
proof -
  obtain s where s: "acells r (sentinel r) = Some s" using assms by (auto simp: ring_ok_def)
  show ?thesis
    using ring_search [OF assms s, of "\<lambda>_ n. c_str (c_name n) = name"] s
    by (simp add: Ring_Find_def acell_at_simp Find_def attrs_at_def find_map attr_of_def)
qed

section \<open>Adding and removing\<close>

definition same_attrs :: "aring \<Rightarrow> aring \<Rightarrow> bool" where
  "same_attrs r r' \<longleftrightarrow> sentinel r' = sentinel r \<and> next_attr r' = next_attr r \<and>
     (\<forall>x. map_option attr_of (acells r' x) = map_option attr_of (acells r x))"

lemma same_attrs_cell: "same_attrs r r' \<Longrightarrow> acells r x = Some n \<Longrightarrow> \<exists>m. acells r' x = Some m \<and> attr_of m = attr_of n"
  unfolding same_attrs_def by (cases "acells r' x") (force dest: spec [of _ x])+

lemma same_attrs_at:
  assumes "same_attrs r r'" "\<forall>x \<in> set as. acells r x \<noteq> None"
  shows "attrs_at r' as = attrs_at r as"
  unfolding attrs_at_def
proof (rule map_cong [OF refl])
  fix x
  assume "x \<in> set as"
  with assms(2) obtain n where n: "acells r x = Some n" by auto
  with same_attrs_cell [OF assms(1) n] show "attr_of (the (acells r' x)) = attr_of (the (acells r x))" by auto
qed

text \<open>What is left to check when links change.\<close>

lemma ring_relinked:
  assumes "ring_ok r as" "same_attrs r r'" "distinct (sentinel r # bs)"
    "around (acells r') (sentinel r # bs @ [sentinel r])" "\<forall>a \<in> set bs. acells r a \<noteq> None"
  shows "ring_ok r' bs"
proof -
  have d: "acells r' x = None \<longleftrightarrow> acells r x = None" for x
    using assms(2) by (metis same_attrs_def option.map_disc_iff)
  obtain s where s: "acells r (sentinel r) = Some s" "c_name s = []" "c_value s = []" using assms(1) by (auto simp: ring_ok_def)
  then obtain s' where s': "acells r' (sentinel r) = Some s'" using d by fastforce
  have "map_option attr_of (acells r' (sentinel r)) = map_option attr_of (acells r (sentinel r))"
    using assms(2) by (simp add: same_attrs_def)
  with s s' have "c_name s' = []" "c_value s' = []" by (simp_all add: attr_of_def)
  with assms s' d show ?thesis by (auto simp: ring_ok_def same_attrs_def)
qed

lemma ring_last:
  assumes "around c (s # as @ [s])"
  shows "anext c (last (s # as)) s" "aprev c s (last (s # as))" "around c (s # as)"
proof -
  have "anext c (last (s # as)) s \<and> aprev c s (last (s # as)) \<and> around c (s # as)"
  proof (cases as rule: rev_cases)
    case Nil
    with assms show ?thesis by simp
  next
    case (snoc bs p)
    with assms have "around c ((s # bs) @ p # [s])" by simp
    then have "around c ((s # bs) @ [p])" "around c [p, s]" unfolding around_append [of c "s # bs" p "[s]"] by simp_all
    with snoc show ?thesis by simp
  qed
  then show "anext c (last (s # as)) s" "aprev c s (last (s # as))" "around c (s # as)" by blast+
qed

lemma last_not_butlast: "distinct xs \<Longrightarrow> xs \<noteq> [] \<Longrightarrow> last xs \<notin> set (butlast xs)"
  by (metis append_butlast_last_id distinct_append disjoint_iff list.set_intros(1))

lemma Ring_Add_ok:
  assumes r: "ring_ok r as" and a: "acells r a = Some n" "a \<noteq> sentinel r" "a \<notin> set as"
    and free: "Ring_Find (c_str (c_name n)) r = Inr None"
  shows "\<exists>r'. Ring_Add a r = Inr r' \<and> ring_ok r' (as @ [a]) \<and> same_attrs r r'"
proof -
  let ?s = "sentinel r" and ?c = "acells r"
  define p where "p = last (?s # as)"
  have ar: "around ?c (?s # as @ [?s])" and dst: "distinct (?s # as)" using r by (simp_all add: ring_ok_def)
  note lst = ring_last [OF ar, folded p_def]
  obtain s where s: "?c ?s = Some s" "c_prev s = Some p" using lst(2) by (auto simp: aprev_def)
  obtain pn where pc: "?c p = Some pn" using lst(1) by (auto simp: anext_def)
  have pa: "p \<noteq> a" using a(2,3) last_in_set [of "?s # as"] by (auto simp: p_def)
  define c1 where "c1 = ?c(a \<mapsto> n\<lparr>c_next := Some ?s, c_prev := Some p\<rparr>)"
  define c2 where "c2 = c1(p \<mapsto> pn\<lparr>c_next := Some a\<rparr>)"
  define s2 where "s2 = (if p = ?s then pn\<lparr>c_next := Some a\<rparr> else s)"
  define c3 where "c3 = c2(?s \<mapsto> s2\<lparr>c_prev := Some a\<rparr>)"
  let ?r = "r\<lparr>acells := c3\<rparr>"
  have c2s: "c2 ?s = Some s2" using s(1) pc a(2) by (auto simp: c2_def c1_def s2_def)
  have "Ring_Add a r = Inr ?r"
    using a s pc pa free
    by (cases "p = ?s") (simp_all add: Ring_Add_def acell_at_simp aupd_simp c3_def c2_def c1_def s2_def)
  moreover have same: "same_attrs r ?r"
    using a(1) s(1) pc by (auto simp: same_attrs_def c3_def c2_def c1_def s2_def attr_of_def)
  moreover have "ring_ok ?r (as @ [a])"
  proof (rule ring_relinked [OF r same])
    show "distinct (?s # as @ [a])" using dst a(2,3) by auto
    show "\<forall>x \<in> set (as @ [a]). acells r x \<noteq> None" using r a(1) by (auto simp: ring_ok_def)
    have nb: "p \<notin> set (butlast (?s # as))" unfolding p_def by (rule last_not_butlast [OF dst]) simp
    have "around c3 (?s # as)"
    proof (rule around_cong [OF lst(3)])
      fix x y
      assume x: "x \<in> set (butlast (?s # as))" "anext ?c x y"
      have "x \<noteq> a" using in_set_butlastD [OF x(1)] a(2,3) by auto
      with x nb s show "anext c3 x y" by (auto simp: anext_def c3_def c2_def c1_def s2_def)
    next
      fix x y
      assume x: "x \<in> set (tl (?s # as))" "aprev ?c x y"
      then have "x \<noteq> a" "x \<noteq> ?s" using a(3) dst by auto
      with x(2) pc show "aprev c3 x y" by (auto simp: aprev_def c3_def c2_def c1_def)
    qed
    moreover have bp: "butlast (?s # as) @ [p] = ?s # as" unfolding p_def by (rule append_butlast_last_id) simp
    ultimately have "around c3 (butlast (?s # as) @ [p])" by simp
    moreover have "around c3 [p, a, ?s]"
      using a(2) pa pc c2s by (auto simp: anext_def aprev_def c3_def c2_def c1_def s2_def)
    ultimately have "around c3 (butlast (?s # as) @ p # [a, ?s])"
      by (simp only: around_append [of c3 "butlast (?s # as)" p "[a, ?s]"])
    moreover have "butlast (?s # as) @ p # [a, ?s] = ?s # (as @ [a]) @ [?s]"
      using bp by (metis append_Cons append_Nil append_assoc)
    ultimately have "around c3 (?s # (as @ [a]) @ [?s])" by (simp only:)
    then show "around (acells ?r) (?s # (as @ [a]) @ [?s])" by simp
  qed
  ultimately show ?thesis by blast
qed

lemma find_self: "a \<in> set as \<Longrightarrow> find (\<lambda>x. x = a) as = Some a"
  by (induction as) auto

lemma Ring_Remove_ok:
  assumes r: "ring_ok r (ys @ a # zs)"
  shows "\<exists>r'. Ring_Remove a r = Inr r' \<and> ring_ok r' (ys @ zs) \<and> same_attrs r r'"
proof -
  let ?s = "sentinel r" and ?c = "acells r"
  have ar: "around ?c ((?s # ys) @ a # (zs @ [?s]))" and dst: "distinct (?s # ys @ a # zs)"
    using r by (simp_all add: ring_ok_def)
  from ar have ar1: "around ?c ((?s # ys) @ [a])" and ar2: "around ?c (a # zs @ [?s])"
    unfolding around_append [of ?c "?s # ys" a "zs @ [?s]"] by simp_all
  define B where "B = butlast (?s # ys)"
  define p where "p = last (?s # ys)"
  have Bp: "?s # ys = B @ [p]" unfolding B_def p_def by (rule append_butlast_last_id [symmetric]) simp
  define q where "q = hd (zs @ [?s])"
  define T where "T = tl (zs @ [?s])"
  have qT: "zs @ [?s] = q # T" unfolding q_def T_def by (cases zs) simp_all
  from ar1 Bp have "around ?c (B @ p # [a])" by simp
  then have pre: "around ?c (B @ [p])" "anext ?c p a" "aprev ?c a p" unfolding around_append [of ?c B p "[a]"] by simp_all
  from ar2 qT have post: "anext ?c a q" "aprev ?c q a" "around ?c (q # T)" by simp_all
  obtain n where n: "?c a = Some n" "c_next n = Some q" "c_prev n = Some p"
    using pre(3) post(1) by (auto simp: anext_def aprev_def)
  obtain pn qn where pq: "?c p = Some pn" "?c q = Some qn" using pre(2) post(2) by (auto simp: anext_def aprev_def)
  have mem: "p \<in> set (?s # ys)" "q \<in> set (zs @ [?s])" using Bp qT by simp_all
  have ne: "p \<noteq> a" "q \<noteq> a" using mem dst by auto
  obtain s where s: "?c ?s = Some s" using r by (auto simp: ring_ok_def)
  have found: "ring_walk (next_attr r) (\<lambda>x _. x = a) (c_next s) r = Inr (Some a)"
    using ring_search [OF r s, of "\<lambda>x _. x = a"] find_self [of a "ys @ a # zs"] by simp
  define c1 where "c1 = ?c(p \<mapsto> pn\<lparr>c_next := Some q\<rparr>)"
  define q1 where "q1 = (if q = p then pn\<lparr>c_next := Some q\<rparr> else qn)"
  define c3 where "c3 = c1(q \<mapsto> q1\<lparr>c_prev := Some p\<rparr>, a \<mapsto> n\<lparr>c_next := None, c_prev := None\<rparr>)"
  let ?r = "r\<lparr>acells := c3\<rparr>"
  have "Ring_Remove a r = Inr ?r"
    using n pq ne s found
    by (cases "q = p") (simp_all add: Ring_Remove_def acell_at_simp aupd_simp c3_def c1_def q1_def)
  moreover have same: "same_attrs r ?r"
    using n pq by (auto simp: same_attrs_def c3_def c1_def q1_def attr_of_def)
  moreover have "ring_ok ?r (ys @ zs)"
  proof (rule ring_relinked [OF r same])
    show "distinct (?s # ys @ zs)" using dst by auto
    show "\<forall>x \<in> set (ys @ zs). acells r x \<noteq> None" using r by (auto simp: ring_ok_def)
    have "distinct (B @ [p])" using dst Bp [symmetric] by simp
    then have pB: "p \<notin> set B" by simp
    have "around c3 (B @ [p])"
    proof (rule around_cong [OF pre(1)])
      fix x y
      assume x: "x \<in> set (butlast (B @ [p]))" "anext ?c x y"
      then have "x \<in> set (?s # ys)" using Bp by simp
      then have "x \<noteq> a" using dst by auto
      with x pB pq show "anext c3 x y" by (auto simp: anext_def c3_def c1_def q1_def)
    next
      fix x y
      assume x: "x \<in> set (tl (B @ [p]))" "aprev ?c x y"
      then have "x \<in> set ys" using Bp by (metis list.sel(3))
      then have "x \<noteq> a" "x \<noteq> q" using dst mem(2) by auto
      with x(2) pq show "aprev c3 x y" by (auto simp: aprev_def c3_def c1_def)
    qed
    moreover have "distinct (q # T)" using dst qT [symmetric] by auto
    then have "q \<notin> set T" by simp
    have "around c3 (q # T)"
    proof (rule around_cong [OF post(3)])
      fix x y
      assume x: "x \<in> set (butlast (q # T))" "anext ?c x y"
      then have "x \<in> set zs" using qT by (metis butlast_snoc)
      then have "x \<noteq> a" "x \<noteq> p" using dst mem(1) by auto
      with x(2) pq show "anext c3 x y" by (auto simp: anext_def c3_def c1_def q1_def)
    next
      fix x y
      assume x: "x \<in> set (tl (q # T))" "aprev ?c x y"
      then have "x \<in> set T" by simp
      then have "x \<noteq> q" "x \<in> set (zs @ [?s])" using \<open>q \<notin> set T\<close> qT by auto
      then have "x \<noteq> a" "x \<noteq> q" using dst by auto
      with x(2) pq show "aprev c3 x y" by (auto simp: aprev_def c3_def c1_def)
    qed
    moreover have "anext c3 p q" "aprev c3 q p" using ne pq by (auto simp: anext_def aprev_def c3_def c1_def q1_def)
    ultimately have "around c3 (B @ p # q # T)" unfolding around_append [of c3 B p "q # T"] by simp
    moreover have "B @ p # q # T = ?s # (ys @ zs) @ [?s]" using Bp qT by simp
    ultimately have "around c3 (?s # (ys @ zs) @ [?s])" by (simp only:)
    then show "around (acells ?r) (?s # (ys @ zs) @ [?s])" by simp
  qed
  ultimately show ?thesis by blast
qed

section \<open>The operations of an element\<close>

lemma ring_payload:
  assumes r: "ring_ok r as" and a: "a \<in> set as" "acells r a = Some n" "c_next m = c_next n" "c_prev m = c_prev n"
  shows "ring_ok (r\<lparr>acells := (acells r)(a \<mapsto> m)\<rparr>) as"
proof -
  have "around ((acells r)(a \<mapsto> m)) (sentinel r # as @ [sentinel r])"
    by (rule around_cong [of "acells r"]) (use r a in \<open>auto simp: ring_ok_def anext_def aprev_def\<close>)
  with r a show ?thesis by (auto simp: ring_ok_def)
qed

lemma ring_new:
  assumes "ring_ok r as"
  shows "ring_ok (r\<lparr>acells := (acells r)(next_attr r \<mapsto> acell_new), next_attr := Suc (next_attr r)\<rparr>) as"
    "next_attr r \<noteq> sentinel r" "next_attr r \<notin> set as"
proof -
  show n: "next_attr r \<noteq> sentinel r" "next_attr r \<notin> set as" using assms by (auto simp: ring_ok_def)
  have "around ((acells r)(next_attr r \<mapsto> acell_new)) (sentinel r # as @ [sentinel r])"
    by (rule around_cong [of "acells r"]) (use assms n in \<open>auto simp: ring_ok_def anext_def aprev_def dest: in_set_butlastD\<close>)
  with assms n show "ring_ok (r\<lparr>acells := (acells r)(next_attr r \<mapsto> acell_new), next_attr := Suc (next_attr r)\<rparr>) as"
    by (auto simp: ring_ok_def less_Suc_eq)
qed

lemma set_value_split:
  "\<forall>x \<in> set ys. c_str (a_name x) \<noteq> name \<Longrightarrow> c_str (a_name b) = name \<Longrightarrow>
   set_value name v (ys @ b # zs) = ys @ b\<lparr>a_value := v\<rparr> # zs"
  by (induction ys) auto

lemma attrs_at_append [simp]: "attrs_at r (xs @ ys) = attrs_at r xs @ attrs_at r ys"
  by (simp add: attrs_at_def)

lemma attrs_at_other: "a \<notin> set as \<Longrightarrow> acells r' = (acells r)(a \<mapsto> m) \<Longrightarrow> attrs_at r' as = attrs_at r as"
  by (auto simp: attrs_at_def)

text \<open>Both do the same: they fail in the same way, or end in a ring of the new list.\<close>

definition ring_does :: "aring outcome \<Rightarrow> xattr list outcome \<Rightarrow> bool" where
  "ring_does x y \<longleftrightarrow>
     (case x of Inl e \<Rightarrow> y = Inl e | Inr r \<Rightarrow> \<exists>as. ring_ok r as \<and> y = Inr (attrs_at r as))"

lemma SetAttribute_does:
  assumes r: "ring_ok r as" and nm: "c_str name = name"
  shows "ring_does (Ring_SetAttribute name v r) (set_attribute name v (attrs_at r as))"
proof -
  obtain p where p: "Ring_Find name r = Inr p" "p = find (\<lambda>x. c_str (c_name (the (acells r x))) = name) as"
      "Find name (attrs_at r as) = map_option (\<lambda>a. attr_of (the (acells r a))) p"
    using Ring_Find_ok [OF r] by blast
  show ?thesis
  proof (cases p)
    case (Some a)
    with p(2) have "find (\<lambda>x. c_str (c_name (the (acells r x))) = name) as = Some a" by simp
    from find_split [OF this] obtain ys zs where s: "as = ys @ a # zs"
        "\<forall>x \<in> set ys. c_str (c_name (the (acells r x))) \<noteq> name" "c_str (c_name (the (acells r a))) = name" by blast
    obtain n where n: "acells r a = Some n" using r s(1) by (auto simp: ring_ok_def)
    let ?r = "r\<lparr>acells := (acells r)(a \<mapsto> n\<lparr>c_value := v\<rparr>)\<rparr>"
    have "ring_ok ?r as" by (rule ring_payload [OF r _ n]) (use s in simp_all)
    moreover have "a \<notin> set ys" "a \<notin> set zs" using r s(1) by (simp_all add: ring_ok_def)
    then have "attrs_at ?r ys = attrs_at r ys" "attrs_at ?r zs = attrs_at r zs" by (simp_all add: attrs_at_other)
    moreover have "set_value name v (attrs_at r as) = attrs_at r ys @ (attr_of n)\<lparr>a_value := v\<rparr> # attrs_at r zs"
      using s n set_value_split [of "attrs_at r ys" name "attr_of n" v "attrs_at r zs"] by (auto simp: attrs_at_def attr_of_def)
    moreover have "attrs_at ?r (a # zs) = (attr_of n)\<lparr>a_value := v\<rparr> # attrs_at ?r zs"
      by (simp add: attrs_at_def attr_of_def)
    ultimately have "ring_ok ?r as \<and> set_value name v (attrs_at r as) = attrs_at ?r as" using s(1) by simp
    moreover have "Ring_SetAttribute name v r = Inr ?r"
      using p(1) Some n by (simp add: Ring_SetAttribute_def Ring_FindOrCreate_def aupd_simp)
    moreover have "set_attribute name v (attrs_at r as) = Inr (set_value name v (attrs_at r as))"
      using p(3) Some by (simp add: set_attribute_def FindOrCreate_def)
    ultimately show ?thesis by (auto simp: ring_does_def)
  next
    case None
    let ?a = "next_attr r"
    let ?r1 = "r\<lparr>acells := (acells r)(?a \<mapsto> acell_new), next_attr := Suc ?a\<rparr>"
    note new = ring_new [OF r]
    obtain q where q: "Ring_Find [] ?r1 = Inr q" "Find [] (attrs_at ?r1 as) = map_option (\<lambda>a. attr_of (the (acells ?r1 a))) q"
      using Ring_Find_ok [OF new(1)] by blast
    have at1: "attrs_at ?r1 as = attrs_at r as" using new(3) by (simp add: attrs_at_other)
    have c0: "c_str [] = []" by (simp add: c_str_def)
    have ca: "acells ?r1 ?a = Some acell_new" by simp
    show ?thesis
    proof (cases q)
      case (Some b)
      have "Ring_Add ?a ?r1 = Inl (Assertion ''tinyxml'')"
        using q(1) Some c0 by (simp add: Ring_Add_def acell_at_simp acell_new_def)
      moreover have "Add \<lparr>a_name = [], a_value = [], a_location = no_location\<rparr> (attrs_at r as) = Inl (Assertion ''tinyxml'')"
        using q(2) Some at1 c0 by (simp add: Add_def)
      ultimately show ?thesis
        using p None by (simp add: ring_does_def Ring_SetAttribute_def Ring_FindOrCreate_def set_attribute_def FindOrCreate_def Let_def)
    next
      case nq: None
      have "Ring_Find (c_str (c_name acell_new)) ?r1 = Inr None" using q(1) nq c0 by (simp add: acell_new_def)
      from Ring_Add_ok [OF new(1) ca _ new(3) this] new(2) obtain r2 where
        2: "Ring_Add ?a ?r1 = Inr r2" "ring_ok r2 (as @ [?a])" "same_attrs ?r1 r2" by auto
      obtain m where m: "acells r2 ?a = Some m" "attr_of m = attr_of acell_new" using same_attrs_cell [OF 2(3) ca] by blast
      let ?m = "m\<lparr>c_name := name, c_value := v\<rparr>"
      let ?r3 = "r2\<lparr>acells := (acells r2)(?a \<mapsto> ?m)\<rparr>"
      have "Ring_SetAttribute name v r = Inr ?r3"
        using p(1) None 2(1) m(1) by (simp add: Ring_SetAttribute_def Ring_FindOrCreate_def Let_def aupd_simp)
      moreover have "ring_ok ?r3 (as @ [?a])" by (rule ring_payload [OF 2(2) _ m(1)]) simp_all
      moreover have "attrs_at ?r3 (as @ [?a]) = attrs_at r as @ [\<lparr>a_name = name, a_value = v, a_location = no_location\<rparr>]"
      proof -
        have "attrs_at r2 as = attrs_at r as"
          using same_attrs_at [OF 2(3), of as] new(1) at1 by (simp add: ring_ok_def)
        moreover have "attrs_at ?r3 as = attrs_at r2 as" using new(3) by (simp add: attrs_at_other)
        ultimately show ?thesis using m(2) by (simp add: attrs_at_def attr_of_def acell_new_def)
      qed
      moreover have "set_attribute name v (attrs_at r as) =
          Inr (attrs_at r as @ [\<lparr>a_name = name, a_value = v, a_location = no_location\<rparr>])"
      proof -
        have "Find [] (attrs_at r as) = None" using q(2) nq at1 by simp
        moreover have "\<forall>x \<in> set (attrs_at r as). c_str (a_name x) \<noteq> name" using p(3) None by (auto simp: Find_def find_None_iff)
        then have "set_value name v (attrs_at r as @ [\<lparr>a_name = name, a_value = [], a_location = no_location\<rparr>]) =
            attrs_at r as @ [\<lparr>a_name = name, a_value = v, a_location = no_location\<rparr>]"
          using set_value_split [of "attrs_at r as" name "\<lparr>a_name = name, a_value = [], a_location = no_location\<rparr>" v "[]"] nm
          by simp
        ultimately show ?thesis using p(3) None c0 by (simp add: set_attribute_def FindOrCreate_def Add_def)
      qed
      ultimately show ?thesis by (auto simp: ring_does_def)
    qed
  qed
qed

lemma RemoveAttribute_does:
  assumes r: "ring_ok r as"
  shows "ring_does (Ring_RemoveAttribute name r)
    (Inr (case Find name (attrs_at r as) of None \<Rightarrow> attrs_at r as | Some a \<Rightarrow> remove1 a (attrs_at r as)))"
proof -
  obtain p where p: "Ring_Find name r = Inr p" "p = find (\<lambda>x. c_str (c_name (the (acells r x))) = name) as"
      "Find name (attrs_at r as) = map_option (\<lambda>a. attr_of (the (acells r a))) p"
    using Ring_Find_ok [OF r] by blast
  show ?thesis
  proof (cases p)
    case None
    with p r show ?thesis by (auto simp: ring_does_def Ring_RemoveAttribute_def)
  next
    case (Some a)
    with p(2) have "find (\<lambda>x. c_str (c_name (the (acells r x))) = name) as = Some a" by simp
    from find_split [OF this] obtain ys zs where s: "as = ys @ a # zs"
        "\<forall>x \<in> set ys. c_str (c_name (the (acells r x))) \<noteq> name" "c_str (c_name (the (acells r a))) = name" by blast
    obtain r' where r': "Ring_Remove a r = Inr r'" "ring_ok r' (ys @ zs)" "same_attrs r r'"
      using Ring_Remove_ok [of r ys a zs] r s(1) by blast
    have al: "\<forall>x \<in> set (ys @ zs). acells r x \<noteq> None" and an: "a \<noteq> sentinel r" "a \<notin> set (ys @ zs)"
      using r s(1) by (auto simp: ring_ok_def)
    let ?r = "r'\<lparr>acells := (acells r')(a := None)\<rparr>"
    have an': "a \<noteq> sentinel r'" using an r'(3) by (simp add: same_attrs_def)
    have "around (acells ?r) (sentinel r' # (ys @ zs) @ [sentinel r'])"
      by (rule around_cong [of "acells r'"])
        (use r'(2) an an' in \<open>auto simp: ring_ok_def anext_def aprev_def dest: in_set_butlastD\<close>)
    with r'(2) an an' have "ring_ok ?r (ys @ zs)" by (auto simp: ring_ok_def)
    moreover have "attrs_at ?r (ys @ zs) = attrs_at r (ys @ zs)"
      using same_attrs_at [OF r'(3) al] an(2) by (auto simp: attrs_at_def)
    moreover have "remove1 (attr_of (the (acells r a))) (attrs_at r as) = attrs_at r (ys @ zs)"
    proof -
      have "attr_of (the (acells r a)) \<notin> set (attrs_at r ys)" using s(2,3) by (auto simp: attrs_at_def attr_of_def)
      with s(1) show ?thesis by (simp add: remove1_append) (simp add: attrs_at_def)
    qed
    moreover have "Ring_RemoveAttribute name r = Inr ?r"
      using p(1) Some r'(1) by (simp add: Ring_RemoveAttribute_def)
    moreover have "Find name (attrs_at r as) = Some (attr_of (the (acells r a)))" using p(3) Some by simp
    ultimately show ?thesis by (auto simp: ring_does_def intro!: exI [of _ "ys @ zs"])
  qed
qed

section \<open>Looking at all attributes\<close>

lemma ring_visit_ok:
  assumes "\<exists>s. acells r (sentinel r) = Some s \<and> c_name s = [] \<and> c_value s = []"
  shows "around (acells r) (a # as @ [sentinel r]) \<Longrightarrow> \<forall>x \<in> set as. acells r x \<noteq> None \<Longrightarrow> length as < f \<Longrightarrow>
    ring_visit f (Some a) r = Inr (a # takeWhile (\<lambda>x. \<not> like_sentinel (attr_of (the (acells r x)))) as)"
proof (induction as arbitrary: a f)
  case Nil
  then obtain g where "f = Suc g" by (cases f) auto
  with Nil assms show ?case by (auto simp: Ring_Next_def acell_at_def anext_def)
next
  case (Cons b as)
  then obtain g where f: "f = Suc g" by (cases f) auto
  from Cons.prems(2) obtain m where m: "acells r b = Some m" by auto
  from Cons.prems(1) obtain n where n: "acells r a = Some n" "c_next n = Some b" by (auto simp: anext_def)
  have "around (acells r) (b # as @ [sentinel r])" using Cons.prems(1) by simp
  from Cons.IH [OF this, of g] Cons.prems(2,3) f
  have "ring_visit g (Some b) r = Inr (b # takeWhile (\<lambda>x. \<not> like_sentinel (attr_of (the (acells r x)))) as)" by simp
  with f m n show ?case by (simp add: Ring_Next_def acell_at_simp like_sentinel_def attr_of_def)
qed

lemma Ring_attributes_ok:
  assumes r: "ring_ok r as"
  shows "\<exists>bs. Ring_attributes r = Inr bs \<and> attrs_at r bs = visible_attrs (attrs_at r as)"
proof (cases as)
  case Nil
  with r obtain s where "acells r (sentinel r) = Some s" "c_next s = Some (sentinel r)" by (auto simp: ring_ok_def anext_def)
  with Nil show ?thesis by (simp add: Ring_attributes_def Ring_First_def acell_at_simp attrs_at_def)
next
  case (Cons a bs)
  with r obtain s where s: "acells r (sentinel r) = Some s" "c_next s = Some a" "a \<noteq> sentinel r"
    by (auto simp: ring_ok_def anext_def)
  have "around (acells r) (a # bs @ [sentinel r])" "\<forall>x \<in> set bs. acells r x \<noteq> None" using r Cons by (auto simp: ring_ok_def)
  from ring_visit_ok [OF _ this, of "next_attr r"] r ring_length [OF r] Cons
  have "ring_visit (next_attr r) (Some a) r = Inr (a # takeWhile (\<lambda>x. \<not> like_sentinel (attr_of (the (acells r x)))) bs)"
    by (simp add: ring_ok_def)
  with s Cons show ?thesis
    by (simp add: Ring_attributes_def Ring_First_def acell_at_simp attrs_at_def takeWhile_map comp_def)
qed

section \<open>Properties\<close>

text \<open>
  C30: the ring of attributes is the list of attributes. Setting and removing an attribute relinks the
  ring into one of the new list, or fails the same assertion as the list does; the addresses stay
  distinct, every link has its way back, and a loop over \<^verbatim>\<open>First\<close> and \<^verbatim>\<open>Next\<close> ends and visits the
  attributes up to the first, behind the first place, without name and value.
\<close>

theorem attr_ring_refines:
  assumes "ring_ok r as" "c_str name = name"
  shows "ring_does (Ring_SetAttribute name v r) (set_attribute name v (attrs_at r as)) \<and>
    ring_does (Ring_RemoveAttribute name r)
      (Inr (case Find name (attrs_at r as) of None \<Rightarrow> attrs_at r as | Some a \<Rightarrow> remove1 a (attrs_at r as))) \<and>
    (\<exists>bs. Ring_attributes r = Inr bs \<and> attrs_at r bs = visible_attrs (attrs_at r as))"
  using SetAttribute_does [OF assms, of v] RemoveAttribute_does [OF assms(1), of name] Ring_attributes_ok [OF assms(1)]
  by blast

text \<open>The ring of a new element.\<close>

lemma ring_ok_new: "ring_ok AttributeSet_new []"
  by (simp add: ring_ok_def AttributeSet_new_def acell_new_def anext_def aprev_def)

lemma attr_ring_refines_witness:
  "ring_does (Ring_SetAttribute [97] [98] AttributeSet_new)
     (Inr [\<lparr>a_name = [97], a_value = [98], a_location = no_location\<rparr>])"
proof -
  have "set_attribute [97] [98] [] = Inr [\<lparr>a_name = [97], a_value = [98], a_location = no_location\<rparr>]"
    by (simp add: set_attribute_def FindOrCreate_def Find_def Add_def c_str_def)
  then show ?thesis
    using attr_ring_refines [OF ring_ok_new, of "[97]" "[98]"] by (simp add: attrs_at_def c_str_def)
qed

end
