(* ===== verification/Xml_Query.thy ===== *)
theory Xml_Query
  imports Xml_Clone Tools
begin

text \<open>
  The typed access to the attributes of an element (src/Public/tinyxml: \<^verbatim>\<open>QueryIntAttribute\<close>,
  \<^verbatim>\<open>QueryUnsignedAttribute\<close>, \<^verbatim>\<open>QueryBoolAttribute\<close>, \<^verbatim>\<open>SetAttribute\<close> with a number), on the list of
  attributes. An out parameter is returned as an option: \<open>None\<close> is not written. The access as a
  floating point number is not modelled.
\<close>

section \<open>Reading numbers\<close>

datatype query = TIXML_SUCCESS | TIXML_NO_ATTRIBUTE | TIXML_WRONG_TYPE

text \<open>
  \<^verbatim>\<open>sscanf(s, "%d", &i) == 1\<close>: white space, a sign, and at least one digit; a value outside \<^verbatim>\<open>int\<close> is
  undefined behaviour (C11 7.21.6.2).
\<close>

definition scan_int :: "string \<Rightarrow> s32 option outcome" where
  "scan_int str =
     (let s = dropWhile is_space str;
          ds = (case s of [] \<Rightarrow> [] | c # cs \<Rightarrow> if c = CHR ''-'' \<or> c = CHR ''+'' then cs else s) in
      if ds = [] \<or> \<not> is_digit (hd ds) then Inr None else bindE (atoi s) (\<lambda>i. Inr (Some i)))"

definition QueryIntValue :: "byte list \<Rightarrow> (query \<times> s32 option) outcome" where
  "QueryIntValue value =
     bindE (scan_int (string_of (c_str value))) (\<lambda>i.
       Inr (if i \<noteq> None then TIXML_SUCCESS else TIXML_WRONG_TYPE, i))"

definition IntValue :: "byte list \<Rightarrow> s32 outcome" where
  "IntValue value = atoi (string_of (c_str value))"

definition QueryIntAttribute :: "cstr \<Rightarrow> xattr list \<Rightarrow> (query \<times> s32 option) outcome" where
  "QueryIntAttribute name as =
     (case Find name as of None \<Rightarrow> Inr (TIXML_NO_ATTRIBUTE, None) | Some a \<Rightarrow> QueryIntValue (a_value a))"

text \<open>\<^verbatim>\<open>int ival = 0; result = QueryIntValue(&ival); *value = (unsigned) ival;\<close>\<close>

definition QueryUnsignedAttribute :: "cstr \<Rightarrow> xattr list \<Rightarrow> (query \<times> u32 option) outcome" where
  "QueryUnsignedAttribute name as =
     (case Find name as of
        None \<Rightarrow> Inr (TIXML_NO_ATTRIBUTE, None)
      | Some a \<Rightarrow>
          bindE (QueryIntValue (a_value a)) (\<lambda>(result, i).
            Inr (result, Some (word_of_int (case i of None \<Rightarrow> 0 | Some i \<Rightarrow> i)))))"

text \<open>\<^verbatim>\<open>StringEqual(a) || StringEqual(b) || ...\<close> of the value, from left to right.\<close>

fun equals_one_of :: "cstr \<Rightarrow> cstr list \<Rightarrow> bool outcome" where
  "equals_one_of v [] = Inr False"
| "equals_one_of v (t # ts) =
     bindE (StringEqual (Some v) t True TIXML_ENCODING_UNKNOWN) (\<lambda>eq. if eq then Inr True else equals_one_of v ts)"

definition QueryBoolAttribute :: "cstr \<Rightarrow> xattr list \<Rightarrow> (query \<times> bool option) outcome" where
  "QueryBoolAttribute name as =
     (case Find name as of
        None \<Rightarrow> Inr (TIXML_NO_ATTRIBUTE, None)
      | Some a \<Rightarrow>
          bindE (equals_one_of (c_str (a_value a)) [bytes_of ''true'', bytes_of ''yes'', bytes_of ''1'']) (\<lambda>yes.
          if yes then Inr (TIXML_SUCCESS, Some True)
          else
            bindE (equals_one_of (c_str (a_value a)) [bytes_of ''false'', bytes_of ''no'', bytes_of ''0'']) (\<lambda>no.
            if no then Inr (TIXML_SUCCESS, Some False) else Inr (TIXML_WRONG_TYPE, None))))"

text \<open>\<^verbatim>\<open>Attribute(name, &i)\<close>: the value, and the number if it is one.\<close>

definition Attribute_int :: "cstr \<Rightarrow> xattr list \<Rightarrow> (cstr option \<times> s32 option) outcome" where
  "Attribute_int name as =
     (case Find name as of
        None \<Rightarrow> Inr (None, None)
      | Some a \<Rightarrow> bindE (QueryIntValue (a_value a)) (\<lambda>(_, i). Inr (Some (c_str (a_value a)), i)))"

section \<open>Writing numbers\<close>

text \<open>\<^verbatim>\<open>snprintf(buf, 64, "%d", v)\<close> never needs more than twelve bytes.\<close>

definition SetIntValue :: "s32 \<Rightarrow> byte list" where
  "SetIntValue v = bytes_of (show_int v)"

definition set_int_attribute :: "cstr \<Rightarrow> s32 \<Rightarrow> xattr list \<Rightarrow> xattr list outcome" where
  "set_int_attribute name v = set_attribute name (SetIntValue v)"

section \<open>What was written is read back\<close>

lemma scan_show_int:
  assumes "in_s32 v"
  shows "scan_int (show_int v) = Inr (Some v)"
proof -
  obtain c cs where cs: "show_nat (nat \<bar>v\<bar>) = c # cs" by (cases "show_nat (nat \<bar>v\<bar>)") auto
  have c: "is_digit c" "\<not> is_space c" "c \<noteq> CHR ''-''" "c \<noteq> CHR ''+''"
    using show_nat_digits [of c "nat \<bar>v\<bar>"] cs by auto
  have minus: "\<not> is_space (CHR ''-'')" by (simp add: is_space_def)
  show ?thesis
  proof (cases "v < 0")
    case True
    with cs have "show_int v = CHR ''-'' # c # cs" by (simp add: show_int_def)
    moreover from this atoi_show_int [OF assms] have "atoi (CHR ''-'' # c # cs) = Inr v" by simp
    ultimately show ?thesis using c minus by (simp add: scan_int_def)
  next
    case False
    with cs have "show_int v = c # cs" by (simp add: show_int_def)
    moreover from this atoi_show_int [OF assms] have "atoi (c # cs) = Inr v" by simp
    ultimately show ?thesis using c by (simp add: scan_int_def)
  qed
qed

lemma show_int_no_zero: "c_str (bytes_of (show_int v)) = bytes_of (show_int v)"
proof -
  have "(of_char c :: byte) \<noteq> 0" if "c \<in> set (show_int v)" for c
  proof -
    from that have "is_digit c \<or> c = CHR ''-''"
      by (auto simp: show_int_def split: if_splits dest: show_nat_digits)
    then have "(of_char c :: nat) \<noteq> 0" by (auto simp: is_digit_def)
    then show ?thesis by (metis unat_0 unat_of_char)
  qed
  then have "\<forall>b \<in> set (bytes_of (show_int v)). b \<noteq> 0" by (auto simp: bytes_of_def)
  then show ?thesis unfolding c_str_def by (simp add: takeWhile_eq_all_conv)
qed

lemma Find_Cons: "Find name (a # as) = (if c_str (a_name a) = name then Some a else Find name as)"
  by (simp add: Find_def)

lemma Find_set_value:
  "Find name (set_value name v as) = map_option (\<lambda>a. a\<lparr>a_value := v\<rparr>) (Find name as)"
  "other \<noteq> name \<Longrightarrow> Find other (set_value name v as) = Find other as"
  by (induction as) (auto simp: Find_Cons Find_def)

lemma Find_append: "Find name (as @ bs) = (case Find name as of None \<Rightarrow> Find name bs | Some a \<Rightarrow> Some a)"
  by (induction as) (auto simp: Find_Cons Find_def)

lemma set_attribute_Find:
  assumes "set_attribute name v as = Inr bs" "c_str name = name"
  shows "\<exists>a. Find name bs = Some a \<and> a_value a = v" "other \<noteq> name \<Longrightarrow> c_str other = other \<Longrightarrow> Find other bs = Find other as"
proof -
  from assms(1) obtain cs where c: "FindOrCreate name as = Inr cs" "bs = set_value name v cs"
    by (auto simp: set_attribute_def bindE_eq_Inr)
  have cs: "Find name cs \<noteq> None \<and> (other \<noteq> name \<longrightarrow> Find other cs = Find other as)"
  proof (cases "Find name as")
    case (Some a)
    with c(1) show ?thesis by (simp add: FindOrCreate_def)
  next
    case None
    with c(1) have "cs = as @ [\<lparr>a_name = name, a_value = [], a_location = no_location\<rparr>]"
      by (auto simp: FindOrCreate_def Add_def bindE_eq_Inr)
    moreover have "Find x [] = None" for x by (simp add: Find_def)
    ultimately show ?thesis using assms(2) None by (auto simp: Find_append Find_Cons split: option.splits)
  qed
  then show "\<exists>a. Find name bs = Some a \<and> a_value a = v" "other \<noteq> name \<Longrightarrow> c_str other = other \<Longrightarrow> Find other bs = Find other as"
    unfolding c(2) by (auto simp: Find_set_value)
qed

lemma set_attribute_runs:
  assumes "attrs_good as" "c_str name = name"
  shows "\<exists>bs. set_attribute name v as = Inr bs"
proof (cases "Find name as")
  case None
  with assms show ?thesis
    using set_attribute_new [of name as v] by (auto simp: Find_absent attrs_good_def)
qed (simp add: set_attribute_def FindOrCreate_def)

section \<open>Properties\<close>

text \<open>
  C32: A number put into an attribute is read back: after \<^verbatim>\<open>SetAttribute(name, v)\<close> \<^verbatim>\<open>QueryIntAttribute\<close>,
  \<^verbatim>\<open>Attribute(name, &i)\<close> and \<^verbatim>\<open>QueryUnsignedAttribute\<close> succeed with \<open>v\<close>, for every \<^verbatim>\<open>int\<close>, and every
  other attribute is as before. The set keeps its names different as long as no attribute has the
  empty name.
\<close>

theorem int_attribute_roundtrip:
  assumes "attrs_good as" "c_str name = name" "in_s32 v"
  shows "\<exists>bs. set_int_attribute name v as = Inr bs \<and>
    QueryIntAttribute name bs = Inr (TIXML_SUCCESS, Some v) \<and>
    Attribute_int name bs = Inr (Some (bytes_of (show_int v)), Some v) \<and>
    QueryUnsignedAttribute name bs = Inr (TIXML_SUCCESS, Some (word_of_int v)) \<and>
    (\<forall>other. other \<noteq> name \<longrightarrow> Find other bs = Find other as)"
proof -
  obtain bs where bs: "set_attribute name (SetIntValue v) as = Inr bs" using set_attribute_runs [OF assms(1,2)] by blast
  from set_attribute_Find(1) [OF this assms(2)] obtain a where a: "Find name bs = Some a" "a_value a = SetIntValue v" by blast
  have "QueryIntValue (SetIntValue v) = Inr (TIXML_SUCCESS, Some v)"
    by (simp add: QueryIntValue_def SetIntValue_def show_int_no_zero string_of_bytes scan_show_int [OF assms(3)])
  moreover have "Find other bs = Find other as" if "other \<noteq> name" for other
  proof (cases "c_str other = other")
    case True
    with set_attribute_Find(2) [OF bs assms(2) that] show ?thesis .
  next
    case False
    then have "Find other xs = None" for xs by (auto simp: Find_absent)
    then show ?thesis by simp
  qed
  ultimately show ?thesis
    using bs a by (simp add: set_int_attribute_def QueryIntAttribute_def Attribute_int_def QueryUnsignedAttribute_def
        SetIntValue_def show_int_no_zero)
qed

theorem int_attribute_roundtrip_witness:
  "\<exists>bs. set_int_attribute [97] (- 12) [] = Inr bs \<and> QueryIntAttribute [97] bs = Inr (TIXML_SUCCESS, Some (- 12))"
  using int_attribute_roundtrip [of "[]" "[97]" "- 12"] by (auto simp: attrs_good_def c_str_def in_s32_def)

text \<open>The bytes of \<open>t\<close>, in any case, at the beginning of a value.\<close>

definition begins_with :: "cstr \<Rightarrow> string \<Rightarrow> bool" where
  "begins_with v t \<longleftrightarrow>
     (let lower = map (\<lambda>c. ToLower c TIXML_ENCODING_UNKNOWN) in
      take (length t) (lower v) = lower (bytes_of t))"

lemma equal_prefix_take:
  "equal_prefix True enc q t \<longleftrightarrow> take (length t) (map (\<lambda>c. ToLower c enc) q) = map (\<lambda>c. ToLower c enc) t"
proof (induction True enc q t rule: equal_prefix.induct)
  case (3 enc c q t ts)
  then show ?case by auto
qed simp_all

lemma equals_one_of_begins:
  "v \<noteq> [] \<Longrightarrow> equals_one_of v (map bytes_of ts) = Inr (\<exists>t \<in> set ts. begins_with v t)"
proof (induction ts)
  case (Cons t ts)
  then show ?case
    by (cases v) (auto simp: StringEqual_def equal_prefix_take begins_with_def Let_def bytes_of_def comp_def)
qed simp

text \<open>
  \<^verbatim>\<open>QueryBoolAttribute\<close> looks at the beginning of the value, not at the value: whatever begins with
  \<^verbatim>\<open>true\<close>, \<^verbatim>\<open>yes\<close> or \<^verbatim>\<open>1\<close> in any case is true, else whatever begins with \<^verbatim>\<open>false\<close>, \<^verbatim>\<open>no\<close> or \<^verbatim>\<open>0\<close> is false. And an
  attribute with an empty value, as in \<^verbatim>\<open>a=""\<close>, fails an assertion of \<^verbatim>\<open>StringEqual\<close> instead of being of
  the wrong type.
\<close>

theorem bool_attribute_prefix:
  assumes "Find name as = Some a"
  shows "QueryBoolAttribute name as =
    (let v = c_str (a_value a) in
     if v = [] then Inl (Assertion ''tinyxml'')
     else if begins_with v ''true'' \<or> begins_with v ''yes'' \<or> begins_with v ''1'' then Inr (TIXML_SUCCESS, Some True)
     else if begins_with v ''false'' \<or> begins_with v ''no'' \<or> begins_with v ''0'' then Inr (TIXML_SUCCESS, Some False)
     else Inr (TIXML_WRONG_TYPE, None))"
proof (cases "c_str (a_value a) = []")
  case True
  with assms show ?thesis by (simp add: QueryBoolAttribute_def StringEqual_def)
next
  case False
  with equals_one_of_begins [OF this, of "[''true'', ''yes'', ''1'']"]
    equals_one_of_begins [OF False, of "[''false'', ''no'', ''0'']"] assms
  show ?thesis by (simp add: QueryBoolAttribute_def Let_def del: equals_one_of.simps)
qed

theorem bool_attribute_prefix_witness:
  "QueryBoolAttribute [97] [\<lparr>a_name = [97], a_value = bytes_of ''Nothing'', a_location = no_location\<rparr>] =
     Inr (TIXML_SUCCESS, Some False)"
proof -
  let ?a = "\<lparr>a_name = [97], a_value = bytes_of ''Nothing'', a_location = no_location\<rparr>"
  have f: "Find [97] [?a] = Some ?a" by (simp add: Find_def c_str_def)
  have b: "begins_with (c_str (a_value ?a)) ''no''" "\<not> begins_with (c_str (a_value ?a)) ''true''"
    "\<not> begins_with (c_str (a_value ?a)) ''yes''" "\<not> begins_with (c_str (a_value ?a)) ''1''" "c_str (a_value ?a) \<noteq> []"
    by code_simp+
  show ?thesis using b by (simp only: bool_attribute_prefix [OF f] Let_def if_True if_False simp_thms)
qed

text \<open>
  An attribute with the empty name blocks the element: the attribute that \<^verbatim>\<open>FindOrCreate\<close> makes is added
  to the set before it gets its name, so from then on every name that is not there yet fails the
  assertion of \<^verbatim>\<open>Add\<close>, while the names that are there can still be set.
\<close>

theorem empty_name_blocks:
  assumes "set_attribute [] w as = Inr bs"
  shows "set_attribute name v bs =
    (if Find name bs = None then Inl (Assertion ''tinyxml'') else Inr (set_value name v bs))"
proof -
  have "c_str [] = []" by (simp add: c_str_def)
  from set_attribute_Find(1) [OF assms this] have "Find [] bs \<noteq> None" by auto
  with \<open>c_str [] = []\<close> show ?thesis by (auto simp: set_attribute_def FindOrCreate_def Add_def)
qed

theorem empty_name_blocks_witness:
  "set_attribute [97] [98] [\<lparr>a_name = [], a_value = [99], a_location = no_location\<rparr>] = Inl (Assertion ''tinyxml'')"
proof -
  have "set_attribute [] [99] [] = Inr [\<lparr>a_name = [], a_value = [99], a_location = no_location\<rparr>]"
    by (simp add: set_attribute_def FindOrCreate_def Find_def Add_def c_str_def)
  from empty_name_blocks [OF this, of "[97]" "[98]"] show ?thesis by (simp add: Find_def c_str_def)
qed

end
