(* ===== verification/Xml_String.thy ===== *)
theory Xml_String
  imports Xml_Text
begin

text \<open>
  \<^verbatim>\<open>TiXmlString\<close> (src/Public/tinyxml/tinystr.h and tinystr.cpp), the string the XML reader keeps its names and
  values in, as it is built without \<^verbatim>\<open>TIXML_USE_STL\<close>. A string is a pointer to a block with a size, a
  capacity and bytes; all empty strings share the static \<^verbatim>\<open>nullrep_\<close>. The other theories of the reader
  use byte lists; here every operation is shown to be one of byte lists. Sizes are natural numbers:
  a \<^verbatim>\<open>size_t\<close> cannot be exhausted by strings that fit into the memory.
\<close>

section \<open>Blocks\<close>

text \<open>A byte of a new block has no value until it is written.\<close>

record rep =
  r_size :: nat
  r_capacity :: nat
  r_str :: "byte option list"

text \<open>\<^verbatim>\<open>rep_\<close>, where \<open>None\<close> is \<^verbatim>\<open>&nullrep_\<close>.\<close>

type_synonym tstring = "rep option"

definition nullrep :: rep where
  "nullrep = \<lparr>r_size = 0, r_capacity = 0, r_str = [Some 0]\<rparr>"

definition rep_of :: "tstring \<Rightarrow> rep" where
  "rep_of s = (case s of None \<Rightarrow> nullrep | Some r \<Rightarrow> r)"

definition ts_length :: "tstring \<Rightarrow> nat" where
  "ts_length s = r_size (rep_of s)"

definition ts_capacity :: "tstring \<Rightarrow> nat" where
  "ts_capacity s = r_capacity (rep_of s)"

definition ts_empty :: "tstring \<Rightarrow> bool" where
  "ts_empty s \<longleftrightarrow> r_size (rep_of s) = 0"

text \<open>\<^verbatim>\<open>str[size = sz] = 0\<close>; writing it into \<^verbatim>\<open>nullrep_\<close> leaves the block as it is when \<open>sz\<close> is zero.\<close>

definition put_size :: "nat \<Rightarrow> rep \<Rightarrow> rep outcome" where
  "put_size sz r =
     (if sz < length (r_str r) then Inr (r\<lparr>r_size := sz, r_str := (r_str r)[sz := Some 0]\<rparr>) else Inl OutOfBounds)"

definition ts_init :: "nat \<Rightarrow> nat \<Rightarrow> tstring outcome" where
  "ts_init sz cap =
     (if cap \<noteq> 0 then
        bindE (put_size sz \<lparr>r_size = 0, r_capacity = cap, r_str = replicate (Suc cap) None\<rparr>) (\<lambda>r. Inr (Some r))
      else Inr None)"

text \<open>Where bytes are copied from: bytes elsewhere, or this string's own block, from an offset on.\<close>

datatype tsource = Elsewhere "byte list" | Own nat

definition source_bytes :: "tsource \<Rightarrow> nat \<Rightarrow> tstring \<Rightarrow> byte option list outcome" where
  "source_bytes src len s =
     (case src of
        Elsewhere bs \<Rightarrow> if len \<le> length bs then Inr (map Some (take len bs)) else Inl OutOfBounds
      | Own i \<Rightarrow>
          if i + len \<le> length (r_str (rep_of s)) then Inr (take len (drop i (r_str (rep_of s)))) else Inl OutOfBounds)"

text \<open>\<^verbatim>\<open>memcpy\<close> or \<^verbatim>\<open>memmove\<close> to the place \<open>i\<close> of a block, then \<^verbatim>\<open>set_size\<close>.\<close>

definition put_bytes :: "nat \<Rightarrow> byte option list \<Rightarrow> tstring \<Rightarrow> tstring outcome" where
  "put_bytes i bs s =
     (case s of
        None \<Rightarrow> if bs = [] then Inr None else Inl OutOfBounds
      | Some r \<Rightarrow>
          if i + length bs \<le> length (r_str r) then Inr (Some (r\<lparr>r_str := blit (r_str r) i bs\<rparr>)) else Inl OutOfBounds)"

definition set_size :: "nat \<Rightarrow> tstring \<Rightarrow> tstring outcome" where
  "set_size sz s =
     (case s of
        None \<Rightarrow> bindE (put_size sz nullrep) (\<lambda>r. Inr None)
      | Some r \<Rightarrow> bindE (put_size sz r) (\<lambda>r. Inr (Some r)))"

section \<open>Operations\<close>

definition ts_new :: tstring where
  "ts_new = None"

text \<open>\<^verbatim>\<open>TiXmlString(const char*, len)\<close>; the other constructors call it with their length.\<close>

definition ts_of :: "byte list \<Rightarrow> nat \<Rightarrow> tstring outcome" where
  "ts_of bs len =
     bindE (ts_init len len) (\<lambda>s. bindE (source_bytes (Elsewhere bs) len s) (\<lambda>cs. put_bytes 0 cs s))"

definition ts_reserve :: "nat \<Rightarrow> tstring \<Rightarrow> tstring outcome" where
  "ts_reserve cap s =
     (if cap > ts_capacity s then
        bindE (ts_init (ts_length s) cap) (\<lambda>tmp.
        bindE (source_bytes (Own 0) (ts_length s) s) (\<lambda>bs. put_bytes 0 bs tmp))
      else Inr s)"

definition ts_assign :: "tsource \<Rightarrow> nat \<Rightarrow> tstring \<Rightarrow> tstring outcome" where
  "ts_assign src len s =
     (let cap = ts_capacity s in
      bindE (source_bytes src len s) (\<lambda>bs.
      if len > cap \<or> cap > 3 * (len + 8) then bindE (ts_init len len) (put_bytes 0 bs)
      else bindE (put_bytes 0 bs s) (set_size len)))"

text \<open>The block that \<^verbatim>\<open>reserve\<close> replaces is deleted with its temporary: bytes of this string are gone then.\<close>

definition ts_append :: "tsource \<Rightarrow> nat \<Rightarrow> tstring \<Rightarrow> tstring outcome" where
  "ts_append src len s =
     (let newsize = ts_length s + len; grows = newsize > ts_capacity s in
      bindE (if grows then ts_reserve (newsize + ts_capacity s) s else Inr s) (\<lambda>t.
      bindE (case src of
          Elsewhere bs \<Rightarrow> source_bytes src len t
        | Own i \<Rightarrow> if grows then Inl WildPointer else source_bytes src len t) (\<lambda>bs.
      bindE (put_bytes (ts_length t) bs t) (set_size newsize))))"

definition ts_clear :: "tstring \<Rightarrow> tstring" where
  "ts_clear s = None"

definition ts_at :: "nat \<Rightarrow> tstring \<Rightarrow> byte option outcome" where
  "ts_at i s = bindE (xassert (i < ts_length s)) (\<lambda>_. Inr (r_str (rep_of s) ! i))"

text \<open>\<^verbatim>\<open>c_str()\<close> up to the first zero.\<close>

fun c_bytes :: "byte option list \<Rightarrow> cstr outcome" where
  "c_bytes [] = Inl OutOfBounds"
| "c_bytes (None # bs) = Inl WildPointer"
| "c_bytes (Some b # bs) = (if b = 0 then Inr [] else bindE (c_bytes bs) (\<lambda>cs. Inr (b # cs)))"

definition ts_c_str :: "tstring \<Rightarrow> cstr outcome" where
  "ts_c_str s = c_bytes (r_str (rep_of s))"

text \<open>\<^verbatim>\<open>find(c, offset)\<close>; \<open>None\<close> is \<^verbatim>\<open>npos\<close>.\<close>

definition ts_find :: "byte \<Rightarrow> nat \<Rightarrow> tstring \<Rightarrow> nat option outcome" where
  "ts_find c offset s =
     (if offset \<ge> ts_length s then Inr None
      else bindE (c_bytes (drop offset (r_str (rep_of s)))) (\<lambda>p.
        let q = takeWhile (\<lambda>b. b \<noteq> c) p in Inr (if length q < length p then Some (offset + length q) else None)))"

text \<open>\<^verbatim>\<open>==\<close> and \<^verbatim>\<open><\<close>, by \<^verbatim>\<open>strcmp\<close>, which compares unsigned bytes.\<close>

definition ts_equal :: "tstring \<Rightarrow> tstring \<Rightarrow> bool outcome" where
  "ts_equal a b =
     (if ts_length a = ts_length b then
        bindE (ts_c_str a) (\<lambda>x. bindE (ts_c_str b) (\<lambda>y. Inr (x = y)))
      else Inr False)"

fun str_less :: "cstr \<Rightarrow> cstr \<Rightarrow> bool" where
  "str_less x [] \<longleftrightarrow> False"
| "str_less [] (b # y) \<longleftrightarrow> True"
| "str_less (a # x) (b # y) \<longleftrightarrow> a < b \<or> a = b \<and> str_less x y"

definition ts_less :: "tstring \<Rightarrow> tstring \<Rightarrow> bool outcome" where
  "ts_less a b = bindE (ts_c_str a) (\<lambda>x. bindE (ts_c_str b) (\<lambda>y. Inr (str_less x y)))"

text \<open>\<^verbatim>\<open>data()\<close> and \<^verbatim>\<open>length()\<close> of another string, as the source of a copy.\<close>

fun all_written :: "byte option list \<Rightarrow> byte list outcome" where
  "all_written [] = Inr []"
| "all_written (None # bs) = Inl WildPointer"
| "all_written (Some b # bs) = bindE (all_written bs) (\<lambda>cs. Inr (b # cs))"

definition ts_data :: "tstring \<Rightarrow> byte list outcome" where
  "ts_data s = all_written (take (ts_length s) (r_str (rep_of s)))"

definition ts_plus :: "tstring \<Rightarrow> tstring \<Rightarrow> tstring outcome" where
  "ts_plus a b =
     bindE (ts_reserve (ts_length a + ts_length b) ts_new) (\<lambda>tmp.
     bindE (ts_data a) (\<lambda>x.
     bindE (ts_append (Elsewhere x) (ts_length a) tmp) (\<lambda>tmp.
     bindE (ts_data b) (\<lambda>y. ts_append (Elsewhere y) (ts_length b) tmp))))"

section \<open>Strings as byte lists\<close>

definition rep_ok :: "rep \<Rightarrow> byte list \<Rightarrow> bool" where
  "rep_ok r bs \<longleftrightarrow> r_size r = length bs \<and> length bs \<le> r_capacity r \<and> length (r_str r) = Suc (r_capacity r) \<and>
     take (Suc (length bs)) (r_str r) = map Some bs @ [Some 0]"

text \<open>The string \<open>s\<close> holds the bytes \<open>bs\<close>, and a zero behind them.\<close>

definition holds :: "tstring \<Rightarrow> byte list \<Rightarrow> bool" where
  "holds s bs \<longleftrightarrow> rep_ok (rep_of s) bs \<and> (s \<noteq> None \<longrightarrow> 0 < ts_capacity s)"

lemma holds_new [simp]: "holds None []"
  by (simp add: holds_def rep_of_def rep_ok_def nullrep_def)

lemma holds_length: "holds s bs \<Longrightarrow> ts_length s = length bs"
  by (simp add: holds_def rep_ok_def ts_length_def)

lemma holds_None: "holds None bs \<longleftrightarrow> bs = []"
  by (auto simp: holds_def rep_of_def rep_ok_def nullrep_def)

lemma holds_take: "holds s bs \<Longrightarrow> take (length bs) (r_str (rep_of s)) = map Some bs"
proof -
  assume h: "holds s bs"
  have "take (Suc (length bs)) (r_str (rep_of s)) = map Some bs @ [Some 0]"
    using h by (simp only: holds_def rep_ok_def)
  from arg_cong [where f = "take (length bs)", OF this] show ?thesis by simp
qed

text \<open>A block with some bytes at its front gets its size.\<close>

lemma size_ok:
  assumes "length (r_str r) = Suc (r_capacity r)" "length bs \<le> r_capacity r" "take (length bs) (r_str r) = map Some bs"
  shows "\<exists>r'. put_size (length bs) r = Inr r' \<and> rep_ok r' bs \<and> r_capacity r' = r_capacity r"
proof -
  let ?s = "(r_str r)[length bs := Some 0]"
  have "take (Suc (length bs)) ?s = take (length bs) ?s @ [?s ! length bs]"
    by (rule take_Suc_conv_app_nth) (use assms in simp)
  with assms have "take (Suc (length bs)) ?s = map Some bs @ [Some 0]" by simp
  with assms show ?thesis by (simp add: put_size_def rep_ok_def)
qed

lemma init_ok:
  assumes "sz \<le> cap" "cap \<noteq> 0"
  shows "\<exists>r. ts_init sz cap = Inr (Some r) \<and> r_size r = sz \<and> r_capacity r = cap \<and> length (r_str r) = Suc cap \<and>
    r_str r ! sz = Some 0"
  using assms by (auto simp: ts_init_def put_size_def simp del: replicate_Suc)

text \<open>Copying bytes into a fresh block of their size.\<close>

lemma put_front:
  assumes "length (r_str r) = Suc (r_capacity r)" "r_size r = length bs" "length bs \<le> r_capacity r"
    "r_str r ! length bs = Some 0" "0 < r_capacity r"
  shows "\<exists>r'. put_bytes 0 (map Some bs) (Some r) = Inr (Some r') \<and> holds (Some r') bs \<and> r_capacity r' = r_capacity r"
proof -
  let ?s = "blit (r_str r) 0 (map Some bs)"
  have "take (Suc (length bs)) ?s = map Some bs @ take 1 (drop (length bs) (r_str r))"
    by (simp add: blit_def)
  also have "take 1 (drop (length bs) (r_str r)) = [r_str r ! length bs]"
    using assms by (simp add: take_Suc_conv_app_nth)
  finally have "take (Suc (length bs)) ?s = map Some bs @ [Some 0]" using assms by simp
  with assms show ?thesis by (simp add: put_bytes_def holds_def rep_of_def rep_ok_def ts_capacity_def)
qed

lemma reserve_ok:
  assumes h: "holds s bs"
  shows "\<exists>t. ts_reserve cap s = Inr t \<and> holds t bs \<and> ts_capacity t = max cap (ts_capacity s)"
proof (cases "cap > ts_capacity s")
  case False
  with h show ?thesis by (auto simp: ts_reserve_def max_def)
next
  case True
  have len: "ts_length s = length bs" by (rule holds_length [OF h])
  have le: "length bs \<le> ts_capacity s" using h by (simp add: holds_def rep_ok_def ts_capacity_def)
  obtain r where r: "ts_init (length bs) cap = Inr (Some r)" "r_size r = length bs" "r_capacity r = cap"
      "length (r_str r) = Suc cap" "r_str r ! length bs = Some 0"
    using init_ok [of "length bs" cap] le True by auto
  have src: "source_bytes (Own 0) (length bs) s = Inr (map Some bs)"
    using holds_take [OF h] h by (simp add: source_bytes_def holds_def rep_ok_def)
  from put_front [of r bs] r le True obtain r' where "put_bytes 0 (map Some bs) (Some r) = Inr (Some r')"
      "holds (Some r') bs" "r_capacity r' = cap" by auto
  with True len r(1) src show ?thesis by (auto simp: ts_reserve_def ts_capacity_def rep_of_def max_def)
qed

lemma append_fits:
  assumes h: "holds t bs" and fits: "length bs + length cs \<le> ts_capacity t"
  shows "\<exists>u. bindE (put_bytes (length bs) (map Some cs) t) (set_size (length bs + length cs)) = Inr u \<and>
    holds u (bs @ cs) \<and> ts_capacity u = ts_capacity t"
proof (cases t)
  case None
  with h fits have "bs = []" "cs = []" by (auto simp: holds_None ts_capacity_def rep_of_def nullrep_def)
  with None show ?thesis by (simp add: put_bytes_def set_size_def nullrep_def put_size_def)
next
  case (Some r)
  have ok: "rep_ok r bs" "0 < r_capacity r" "length bs + length cs \<le> r_capacity r"
    using h fits Some by (simp_all add: holds_def rep_of_def ts_capacity_def)
  let ?r = "r\<lparr>r_str := blit (r_str r) (length bs) (map Some cs)\<rparr>"
  have b: "length bs + length (map Some cs) \<le> length (r_str r)" using ok by (simp add: rep_ok_def)
  then have put: "put_bytes (length bs) (map Some cs) t = Inr (Some ?r)" by (simp add: put_bytes_def Some)
  have "take (length bs) (r_str r) = map Some bs" using holds_take [OF h] Some by (simp add: rep_of_def)
  then have "take (length (bs @ cs)) (r_str ?r) = map Some (bs @ cs)" using b by (simp add: blit_def)
  then obtain r' where "put_size (length bs + length cs) ?r = Inr r'" "rep_ok r' (bs @ cs)" "r_capacity r' = r_capacity r"
    using size_ok [of ?r "bs @ cs"] ok b by (auto simp: rep_ok_def)
  with put ok show ?thesis by (simp add: set_size_def holds_def rep_of_def ts_capacity_def Some)
qed

lemma ts_append_ok:
  assumes h: "holds s bs"
  shows "\<exists>t. ts_append (Elsewhere cs) (length cs) s = Inr t \<and> holds t (bs @ cs) \<and>
    ts_capacity t = (if length bs + length cs > ts_capacity s then length bs + length cs + ts_capacity s else ts_capacity s)"
proof -
  let ?n = "length bs + length cs"
  have len: "ts_length s = length bs" by (rule holds_length [OF h])
  obtain t where t: "(if ?n > ts_capacity s then ts_reserve (?n + ts_capacity s) s else Inr s) = Inr t" "holds t bs"
      "ts_capacity t = (if ?n > ts_capacity s then ?n + ts_capacity s else ts_capacity s)" "?n \<le> ts_capacity t"
    using reserve_ok [OF h, of "?n + ts_capacity s"] h by (cases "?n > ts_capacity s") auto
  have lt: "ts_length t = length bs" by (rule holds_length [OF t(2)])
  have "ts_append (Elsewhere cs) (length cs) s = bindE (put_bytes (length bs) (map Some cs) t) (set_size ?n)"
    using t(1) len lt by (simp add: ts_append_def Let_def source_bytes_def split del: if_split)
  with append_fits [OF t(2,4)] t(3) show ?thesis by auto
qed

text \<open>\<^verbatim>\<open>assign\<close> from bytes elsewhere, or from the string itself: they are copied before the old block is deleted.\<close>

lemma assign_ok:
  assumes h: "holds s bs" and src: "source_bytes src (length cs) s = Inr (map Some cs)"
  shows "\<exists>t. ts_assign src (length cs) s = Inr t \<and> holds t cs"
proof (cases "length cs > ts_capacity s \<or> ts_capacity s > 3 * (length cs + 8)")
  case True
  then have eq: "ts_assign src (length cs) s = bindE (ts_init (length cs) (length cs)) (put_bytes 0 (map Some cs))"
    by (simp only: ts_assign_def Let_def src bindE_Inr if_True)
  show ?thesis
  proof (cases "cs = []")
    case True
    with eq show ?thesis by (simp add: ts_init_def put_bytes_def)
  next
    case False
    then obtain r where "ts_init (length cs) (length cs) = Inr (Some r)" "r_size r = length cs" "r_capacity r = length cs"
        "length (r_str r) = Suc (length cs)" "r_str r ! length cs = Some 0"
      using init_ok [of "length cs" "length cs"] by auto
    with eq False put_front [of r cs] show ?thesis by auto
  qed
next
  case False
  then have eq: "ts_assign src (length cs) s = bindE (put_bytes 0 (map Some cs) s) (set_size (length cs))"
    by (simp only: ts_assign_def Let_def src bindE_Inr if_False)
  show ?thesis
  proof (cases s)
    case None
    with False have "cs = []" by (simp add: ts_capacity_def rep_of_def nullrep_def)
    with None eq show ?thesis by (simp add: put_bytes_def set_size_def put_size_def nullrep_def)
  next
    case (Some r)
    let ?r = "r\<lparr>r_str := blit (r_str r) 0 (map Some cs)\<rparr>"
    have ok: "length (r_str r) = Suc (r_capacity r)" "length cs \<le> r_capacity r" "0 < r_capacity r"
      using h False Some by (simp_all add: holds_def rep_ok_def rep_of_def ts_capacity_def)
    then have put: "put_bytes 0 (map Some cs) s = Inr (Some ?r)" by (simp add: put_bytes_def Some)
    obtain r' where "put_size (length cs) ?r = Inr r'" "rep_ok r' cs" "r_capacity r' = r_capacity r"
      using size_ok [of ?r cs] ok by (auto simp: blit_def)
    with eq put ok show ?thesis by (simp add: set_size_def holds_def rep_of_def ts_capacity_def)
  qed
qed

lemma own_bytes:
  assumes "holds s bs" "i + n \<le> length bs"
  shows "source_bytes (Own i) n s = Inr (map Some (take n (drop i bs)))"
proof -
  have "take n (drop i (r_str (rep_of s))) = take n (drop i (take (length bs) (r_str (rep_of s))))"
    using assms(2) by (simp add: drop_take min_def)
  also have "\<dots> = map Some (take n (drop i bs))" by (simp add: holds_take [OF assms(1)] drop_map take_map)
  finally show ?thesis using assms by (simp add: source_bytes_def holds_def rep_ok_def)
qed

lemma all_written_map: "all_written (map Some bs) = Inr bs"
  by (induction bs) auto

lemma data_ok: "holds s bs \<Longrightarrow> ts_data s = Inr bs"
  by (simp add: ts_data_def holds_length holds_take all_written_map)

lemma c_bytes_map: "0 \<notin> set bs \<Longrightarrow> c_bytes (map Some bs @ Some 0 # xs) = Inr bs"
  by (induction bs) auto

lemma c_str_ok:
  assumes "holds s bs" "0 \<notin> set bs"
  shows "ts_c_str s = Inr bs"
proof -
  have "take (Suc (length bs)) (r_str (rep_of s)) = map Some bs @ [Some 0]"
    using assms(1) by (simp only: holds_def rep_ok_def)
  then obtain xs where "r_str (rep_of s) = map Some bs @ Some 0 # xs"
    using append_take_drop_id [of "Suc (length bs)" "r_str (rep_of s)"] by (metis append_Cons append_Nil append_assoc)
  then show ?thesis by (simp add: ts_c_str_def c_bytes_map [OF assms(2)])
qed

lemma plus_ok:
  assumes "holds a x" "holds b y"
  shows "\<exists>t. ts_plus a b = Inr t \<and> holds t (x @ y)"
proof -
  obtain t where t: "ts_reserve (length x + length y) ts_new = Inr t" "holds t []"
    using reserve_ok [of None "[]"] by (auto simp: ts_new_def)
  obtain u where u: "ts_append (Elsewhere x) (length x) t = Inr u" "holds u x" using ts_append_ok [OF t(2), of x] by auto
  obtain v where v: "ts_append (Elsewhere y) (length y) u = Inr v" "holds v (x @ y)" using ts_append_ok [OF u(2), of y] by auto
  from t u v show ?thesis by (simp add: ts_plus_def holds_length [OF assms(1)] holds_length [OF assms(2)] data_ok [OF assms(1)]
      data_ok [OF assms(2)])
qed

lemma compare_ok:
  assumes "holds a x" "holds b y" "0 \<notin> set x" "0 \<notin> set y"
  shows "ts_equal a b = Inr (x = y)" and "ts_less a b = Inr (str_less x y)"
  using assms by (auto simp: ts_equal_def ts_less_def holds_length c_str_ok)

lemma of_ok: "\<exists>s. ts_of bs (length bs) = Inr s \<and> holds s bs"
proof (cases "bs = []")
  case True
  then show ?thesis by (simp add: ts_of_def ts_init_def source_bytes_def put_bytes_def)
next
  case False
  then obtain r where "ts_init (length bs) (length bs) = Inr (Some r)" "r_size r = length bs" "r_capacity r = length bs"
      "length (r_str r) = Suc (length bs)" "r_str r ! length bs = Some 0"
    using init_ok [of "length bs" "length bs"] by auto
  with False put_front [of r bs] show ?thesis by (auto simp: ts_of_def source_bytes_def)
qed

text \<open>\<^verbatim>\<open>find\<close> gives the first place of the byte at or behind the offset.\<close>

lemma places_eq:
  "find (\<lambda>i. bs ! i = c) [n..<length bs] =
     (let q = takeWhile (\<lambda>b. b \<noteq> c) (drop n bs) in if length q < length (drop n bs) then Some (n + length q) else None)"
proof (cases "n \<le> length bs")
  case True
  then show ?thesis
  proof (induction rule: inc_induct)
    case base
    then show ?case by simp
  next
    case (step n)
    then have "drop n bs = bs ! n # drop (Suc n) bs" "[n..<length bs] = n # [Suc n..<length bs]"
      by (simp_all add: Cons_nth_drop_Suc upt_conv_Cons)
    with step.IH show ?case by (simp add: Let_def)
  qed
qed simp

lemma find_ok:
  assumes "holds s bs" "0 \<notin> set bs"
  shows "ts_find c n s = Inr (find (\<lambda>i. bs ! i = c) [n..<length bs])"
proof (cases "n < length bs")
  case True
  have "take (Suc (length bs)) (r_str (rep_of s)) = map Some bs @ [Some 0]"
    using assms(1) by (simp only: holds_def rep_ok_def)
  then obtain xs where "r_str (rep_of s) = map Some bs @ Some 0 # xs"
    using append_take_drop_id [of "Suc (length bs)" "r_str (rep_of s)"] by (metis append_Cons append_Nil append_assoc)
  with True have "drop n (r_str (rep_of s)) = map Some (drop n bs) @ Some 0 # xs" by (simp add: drop_map)
  moreover have "0 \<notin> set (drop n bs)" using assms(2) in_set_dropD by fast
  ultimately have "c_bytes (drop n (r_str (rep_of s))) = Inr (drop n bs)" by (simp add: c_bytes_map)
  with True show ?thesis by (simp add: ts_find_def holds_length [OF assms(1)] places_eq Let_def)
qed (simp add: ts_find_def holds_length [OF assms(1)])

section \<open>Properties\<close>

text \<open>C31: the string of the XML reader is a byte list followed by a zero. Appending, assigning, reserving and adding
  never write outside the block or into the shared empty one and give the list that the operation gives,
  whatever the capacity; assigning a part of the string to the string itself does too. A search gives the first
  place of the byte at or behind the offset.\<close>

theorem tinystr_refines:
  assumes "holds s bs" "holds s' cs" "0 \<notin> set bs" "i + n \<le> length bs"
  shows "ts_length s = length bs \<and> ts_c_str s = Inr bs \<and>
    (\<exists>t. ts_append (Elsewhere xs) (length xs) s = Inr t \<and> holds t (bs @ xs)) \<and>
    (\<exists>t. ts_assign (Elsewhere xs) (length xs) s = Inr t \<and> holds t xs) \<and>
    (\<exists>t. ts_assign (Own i) n s = Inr t \<and> holds t (take n (drop i bs))) \<and>
    (\<exists>t. ts_reserve cap s = Inr t \<and> holds t bs \<and> cap \<le> ts_capacity t) \<and>
    (\<exists>t. ts_plus s s' = Inr t \<and> holds t (bs @ cs)) \<and>
    (\<exists>t. ts_of xs (length xs) = Inr t \<and> holds t xs) \<and>
    ts_find c k s = Inr (find (\<lambda>j. bs ! j = c) [k..<length bs])"
proof -
  have "source_bytes (Elsewhere xs) (length xs) s = Inr (map Some xs)" by (simp add: source_bytes_def)
  then have "\<exists>t. ts_assign (Elsewhere xs) (length xs) s = Inr t \<and> holds t xs" by (rule assign_ok [OF assms(1)])
  moreover have "length (take n (drop i bs)) = n" using assms(4) by simp
  then have "\<exists>t. ts_assign (Own i) n s = Inr t \<and> holds t (take n (drop i bs))"
    using assign_ok [OF assms(1), of "Own i" "take n (drop i bs)"] own_bytes [OF assms(1,4)] by simp
  moreover have "\<exists>t. ts_append (Elsewhere xs) (length xs) s = Inr t \<and> holds t (bs @ xs)"
    using ts_append_ok [OF assms(1), of xs] by blast
  moreover have "\<exists>t. ts_reserve cap s = Inr t \<and> holds t bs \<and> cap \<le> ts_capacity t"
    using reserve_ok [OF assms(1), of cap] by auto
  ultimately show ?thesis
    using holds_length [OF assms(1)] c_str_ok [OF assms(1,3)] plus_ok [OF assms(1,2)] of_ok [of xs]
      find_ok [OF assms(1,3)] by blast
qed

lemma tinystr_refines_witness:
  "(\<exists>t. ts_append (Elsewhere [50, 51]) (length [50, 51 :: byte]) None = Inr t \<and> holds t ([] @ [50, 51])) \<and>
   (\<exists>t. ts_plus None None = Inr t \<and> holds t ([] @ []))"
  using tinystr_refines [of None "[]" None "[]" 0 0 "[50, 51]" 0] by simp

text \<open>A string that is appended to itself and has to grow reads its bytes from the block that the growth deleted;
  with room for them it is doubled.\<close>

theorem tinystr_self_append:
  assumes "holds s bs"
  shows "if ts_capacity s < 2 * length bs then ts_append (Own 0) (ts_length s) s = Inl WildPointer
    else \<exists>t. ts_append (Own 0) (ts_length s) s = Inr t \<and> holds t (bs @ bs)"
proof (cases "ts_capacity s < 2 * length bs")
  case True
  have "ts_length s = length bs" by (rule holds_length [OF assms])
  with True reserve_ok [OF assms, of "length bs + length bs + ts_capacity s"] show ?thesis
    by (auto simp: ts_append_def Let_def)
next
  case False
  have "source_bytes (Own 0) (length bs) s = Inr (map Some bs)" using own_bytes [OF assms, of 0 "length bs"] by simp
  moreover have "ts_length s = length bs" by (rule holds_length [OF assms])
  ultimately have "ts_append (Own 0) (ts_length s) s =
      bindE (put_bytes (length bs) (map Some bs) s) (set_size (length bs + length bs))"
    using False by (simp add: ts_append_def Let_def)
  with append_fits [OF assms, of bs] False show ?thesis by auto
qed

lemma tinystr_self_append_witness:
  "\<exists>s. ts_of [65, 66] 2 = Inr s \<and> ts_append (Own 0) (ts_length s) s = Inl WildPointer"
proof -
  have s: "ts_of [65, 66] 2 = Inr (Some \<lparr>r_size = 2, r_capacity = 2, r_str = [Some 65, Some 66, Some 0]\<rparr>)" by code_simp
  have "holds (Some \<lparr>r_size = 2, r_capacity = 2, r_str = [Some 65, Some 66, Some 0]\<rparr>) [65, 66]"
    by (simp add: holds_def rep_ok_def rep_of_def ts_capacity_def)
  from tinystr_self_append [OF this] s show ?thesis by (simp add: ts_capacity_def rep_of_def)
qed

end
