(* ===== verification/Config.thy ===== *)
theory Config
  imports Modules Xml_Parse Tools
begin

text \<open>
  src/kernel/configmgr: the two configuration files, read with the XML reader of theory Xml_Parse.
  A file system is a function from names to contents. The process was built with \<^verbatim>\<open>TASSERT\<close>, so
  a file that is missing or an element that is not found stops it; a missing attribute is the null
  pointer that \<^verbatim>\<open>StringAsInt\<close> refuses. Each file is read with fuel for its length, which theory
  Xml_Spec shows to be enough.
\<close>

type_synonym files = "string \<Rightarrow> byte list option"

record core_config =
  sLoopduration :: s32
  sNetThdCount :: s32
  sNetframetick :: s32
  sNetSendSize :: s32
  sNetRecvSize :: s32
  sHttpThdCount :: s32
  sHttpframetick :: s32
  sTimerlooptick :: s32

record configmgr =
  m_oCoreConfig :: core_config
  m_oModuleConfig :: module_config

text \<open>A new manager; its numbers are not initialised by the code.\<close>

definition Configmgr_new :: "core_config \<Rightarrow> configmgr" where
  "Configmgr_new garbage = \<lparr>m_oCoreConfig = garbage, m_oModuleConfig = \<lparr>strModulePath = [], vctModules = []\<rparr>\<rparr>"

definition load_xml :: "files \<Rightarrow> string \<Rightarrow> (bool \<times> document) outcome" where
  "load_xml fs path =
     LoadFile True (case fs path of None \<Rightarrow> 0 | Some bytes \<Rightarrow> length bytes + 2) (fs path) Document_new"

definition child_element :: "string \<Rightarrow> xnode \<Rightarrow> string \<Rightarrow> xnode outcome" where
  "child_element name root msg =
     (case FirstChildElement (bytes_of name) root of
        [] \<Rightarrow> Inl (Assertion msg)
      | p # ps \<Rightarrow> Inr p)"

definition int_attribute :: "string \<Rightarrow> xnode \<Rightarrow> s32 outcome" where
  "int_attribute name p = StringAsInt (map_option string_of (Attribute (bytes_of name) p))"

text \<open>The body of \<^verbatim>\<open>LoadCoreConfig\<close> behind the root element.\<close>

definition read_core :: "xnode \<Rightarrow> core_config \<Rightarrow> core_config outcome" where
  "read_core pRoot cfg =
     bindE (child_element ''loop'' pRoot ''core xml format error, can't find child loop'') (\<lambda>p.
     bindE (int_attribute ''tick'' p) (\<lambda>tick.
     let cfg = cfg\<lparr>sLoopduration := tick\<rparr> in
     bindE (child_element ''netthread'' pRoot ''core xml format error, can't find child netthread'') (\<lambda>p.
     bindE (int_attribute ''count'' p) (\<lambda>count.
     let cfg = cfg\<lparr>sNetThdCount := count\<rparr> in
     bindE (int_attribute ''frametick'' p) (\<lambda>frametick.
     let cfg = cfg\<lparr>sNetframetick := frametick\<rparr> in
     bindE (int_attribute ''send_size'' p) (\<lambda>send_size.
     let cfg = cfg\<lparr>sNetSendSize := send_size\<rparr> in
     bindE (int_attribute ''recv_size'' p) (\<lambda>recv_size.
     let cfg = cfg\<lparr>sNetRecvSize := recv_size\<rparr> in
     bindE (child_element ''httpthread'' pRoot ''core xml format error, can't find child httpthread'') (\<lambda>p.
     bindE (int_attribute ''count'' p) (\<lambda>count.
     let cfg = cfg\<lparr>sHttpThdCount := count\<rparr> in
     bindE (int_attribute ''frametick'' p) (\<lambda>frametick.
     let cfg = cfg\<lparr>sHttpframetick := frametick\<rparr> in
     bindE (child_element ''timer'' pRoot ''core xml format error, can't find child timer'') (\<lambda>p.
     bindE (int_attribute ''tick'' p) (\<lambda>tick.
       Inr (cfg\<lparr>sTimerlooptick := tick\<rparr>)))))))))))))"

definition LoadCoreConfig :: "files \<Rightarrow> string \<Rightarrow> configmgr \<Rightarrow> (bool \<times> configmgr) outcome" where
  "LoadCoreConfig fs app mgr =
     bindE (load_xml fs (app @ ''/config/core.xml'')) (\<lambda>(ok, doc).
     if \<not> ok then bindE (TASSERT False ''can't find core file'') (\<lambda>_. Inr (False, mgr))
     else
       case RootElement doc of
         None \<Rightarrow> Inl (Assertion ''core xml format error'')
       | Some pRoot \<Rightarrow>
           bindE (read_core pRoot (m_oCoreConfig mgr)) (\<lambda>cfg. Inr (True, mgr\<lparr>m_oCoreConfig := cfg\<rparr>)))"

text \<open>The loop over the modules, from the first \<^verbatim>\<open>module\<close> element on.\<close>

lemma NextElement_length: "length (NextElement v ns) \<le> length ns"
  by (induction v ns rule: NextElement.induct) auto

function module_loop :: "xnode list \<Rightarrow> string list \<Rightarrow> string list outcome" where
  "module_loop [] mods = Inr mods"
| "module_loop (p # ps) mods =
     (case Attribute (bytes_of ''name'') p of
        None \<Rightarrow> Inl (Assertion ''module.xml form error, can't find module's name'')
      | Some pName \<Rightarrow> module_loop (NextSiblingElement (bytes_of ''module'') (p # ps)) (mods @ [string_of pName]))"
  by pat_completeness auto
termination
  by (relation "measure (\<lambda>(ps, mods). length ps)")
    (auto simp: NextSiblingElement_def intro: le_imp_less_Suc NextElement_length)

definition read_modules :: "xnode \<Rightarrow> module_config \<Rightarrow> module_config outcome" where
  "read_modules pRoot cfg =
     (case Attribute (bytes_of ''path'') pRoot of
        None \<Rightarrow> Inl (Assertion ''module.xml format error, can't find module path'')
      | Some pPath \<Rightarrow>
          let cfg = cfg\<lparr>strModulePath := string_of pPath\<rparr> in
          bindE (module_loop (FirstChildElement (bytes_of ''module'') pRoot) (vctModules cfg)) (\<lambda>mods.
            Inr (cfg\<lparr>vctModules := mods\<rparr>)))"

definition LoadModuleConfig :: "files \<Rightarrow> string \<Rightarrow> configmgr \<Rightarrow> (bool \<times> configmgr) outcome" where
  "LoadModuleConfig fs app mgr =
     bindE (load_xml fs (app @ ''/config/module.xml'')) (\<lambda>(ok, doc).
     if \<not> ok then bindE (TASSERT False ''can't find module file'') (\<lambda>_. Inr (False, mgr))
     else
       case RootElement doc of
         None \<Rightarrow> Inl (Assertion ''module.xml format error'')
       | Some pRoot \<Rightarrow>
           bindE (read_modules pRoot (m_oModuleConfig mgr)) (\<lambda>cfg. Inr (True, mgr\<lparr>m_oModuleConfig := cfg\<rparr>)))"

definition Configmgr_Redry :: "files \<Rightarrow> string \<Rightarrow> configmgr \<Rightarrow> (bool \<times> configmgr) outcome" where
  "Configmgr_Redry fs app mgr =
     bindE (LoadCoreConfig fs app mgr) (\<lambda>(ok, mgr). if ok then LoadModuleConfig fs app mgr else Inr (False, mgr))"

text \<open>\<^verbatim>\<open>getInstance\<close>: \<open>p\<close> is the static pointer.\<close>

definition Configmgr_getInstance :: "files \<Rightarrow> string \<Rightarrow> core_config \<Rightarrow> configmgr option \<Rightarrow> configmgr option outcome" where
  "Configmgr_getInstance fs app garbage p =
     (case p of
        Some mgr \<Rightarrow> Inr (Some mgr)
      | None \<Rightarrow>
          bindE (Configmgr_Redry fs app (Configmgr_new garbage)) (\<lambda>(ok, mgr).
            if \<not> ok then bindE (TASSERT False ''configmgr module cant be ready'') (\<lambda>_. Inr None)
            else Inr (Some mgr)))"

definition Configmgr_Initialize :: "configmgr \<Rightarrow> bool" where
  "Configmgr_Initialize mgr = True"

definition Configmgr_Destory :: "configmgr \<Rightarrow> bool" where
  "Configmgr_Destory mgr = True"

definition GetCoreConfig :: "configmgr \<Rightarrow> core_config" where
  "GetCoreConfig mgr = m_oCoreConfig mgr"

definition GetModuleConfig :: "configmgr \<Rightarrow> module_config" where
  "GetModuleConfig mgr = m_oModuleConfig mgr"

end
