(* ===== verification/Config_Spec.thy ===== *)
theory Config_Spec
  imports Config Xml_Save
begin

text \<open>
  The configuration manager against the files an operator writes: whatever tree describes the
  configuration, once it is saved as XML the manager reads exactly those numbers, that path and
  those modules. Reading does not depend on where in the file the nodes stand.
\<close>

section \<open>Positions do not matter\<close>

lemma erase_value [simp]: "node_value (erase n) = node_value n"
  by (cases n) auto

lemma erase_is_element [simp]: "is_element (erase n) \<longleftrightarrow> is_element n"
  by (cases n) auto

lemma erase_NextElement: "NextElement v (map erase ns) = map erase (NextElement v ns)"
  by (induction v ns rule: NextElement.induct) auto

lemma erase_FirstChildElement: "FirstChildElement v (erase n) = map erase (FirstChildElement v n)"
  by (cases n) (simp_all add: FirstChildElement_def erase_NextElement)

lemma erase_Find: "Find name (map erase_attr as) = map_option erase_attr (Find name as)"
  by (induction as) (auto simp: Find_def erase_attr_def)

lemma erase_Attribute: "Attribute name (erase n) = Attribute name n"
  by (cases n) (auto simp: Attribute_def erase_Find erase_attr_def split: option.splits)

lemma erase_int_attribute: "int_attribute name (erase p) = int_attribute name p"
  by (simp add: int_attribute_def erase_Attribute)

lemma erase_child_element:
  "bindE (child_element name (erase root) msg) f = bindE (child_element name root msg) (\<lambda>p. f (erase p))"
  by (auto simp: child_element_def erase_FirstChildElement split: list.splits)

lemma erase_read_core: "read_core (erase root) cfg = read_core root cfg"
  by (simp add: read_core_def erase_child_element erase_int_attribute)

lemma erase_module_loop: "module_loop (map erase ps) mods = module_loop ps mods"
proof (induction ps mods rule: module_loop.induct)
  case (2 p ps mods)
  have "NextSiblingElement (bytes_of ''module'') (map erase (p # ps)) = map erase (NextSiblingElement (bytes_of ''module'') (p # ps))"
    by (simp add: NextSiblingElement_def erase_NextElement)
  with 2 show ?case by (simp add: erase_Attribute split: option.splits)
qed simp

lemma erase_read_modules: "read_modules (erase root) cfg = read_modules root cfg"
  unfolding read_modules_def erase_Attribute erase_FirstChildElement erase_module_loop ..

section \<open>Trees that describe a configuration\<close>

definition attribute :: "string \<Rightarrow> string \<Rightarrow> xattr" where
  "attribute name v = \<lparr>a_name = bytes_of name, a_value = bytes_of v, a_location = no_location\<rparr>"

definition leaf :: "string \<Rightarrow> (string \<times> string) list \<Rightarrow> xnode" where
  "leaf name as = XElement no_location (bytes_of name) (map (\<lambda>(n, v). attribute n v) as) []"

definition core_tree :: "core_config \<Rightarrow> xnode" where
  "core_tree cfg = XElement no_location (bytes_of ''core'') []
     [leaf ''loop'' [(''tick'', show_int (sLoopduration cfg))],
      leaf ''netthread'' [(''count'', show_int (sNetThdCount cfg)), (''frametick'', show_int (sNetframetick cfg)),
        (''send_size'', show_int (sNetSendSize cfg)), (''recv_size'', show_int (sNetRecvSize cfg))],
      leaf ''httpthread'' [(''count'', show_int (sHttpThdCount cfg)), (''frametick'', show_int (sHttpframetick cfg))],
      leaf ''timer'' [(''tick'', show_int (sTimerlooptick cfg))]]"

definition module_tree :: "module_config \<Rightarrow> xnode" where
  "module_tree cfg = XElement no_location (bytes_of ''modules'') [attribute ''path'' (strModulePath cfg)]
     (map (\<lambda>n. leaf ''module'' [(''name'', n)]) (vctModules cfg))"

definition xml_of :: "xnode \<Rightarrow> document" where
  "xml_of root = Document_new\<lparr>d_children :=
     [XDeclaration no_location (bytes_of ''1.0'') (bytes_of ''UTF-8'') [], root]\<rparr>"

definition core_in_range :: "core_config \<Rightarrow> bool" where
  "core_in_range cfg \<longleftrightarrow> (\<forall>v \<in> {sLoopduration cfg, sNetThdCount cfg, sNetframetick cfg, sNetSendSize cfg, sNetRecvSize cfg,
     sHttpThdCount cfg, sHttpframetick cfg, sTimerlooptick cfg}. in_s32 v)"

text \<open>ASCII text without an ampersand.\<close>

definition plain_string :: "string \<Rightarrow> bool" where
  "plain_string s \<longleftrightarrow> (\<forall>c \<in> set s. 0 < (of_char c :: nat) \<and> (of_char c :: nat) < 128 \<and> c \<noteq> CHR ''&'')"

lemma plain_bytes:
  assumes "plain_string s"
  shows "c_str (bytes_of s) = bytes_of s" "no_ref (bytes_of s)" "all_ok enc (bytes_of s)"
proof -
  have b: "b \<noteq> 0 \<and> b < 128 \<and> b \<noteq> 38" if "b \<in> set (bytes_of s)" for b
  proof -
    from that obtain c where c: "c \<in> set s" "b = of_char c" by (auto simp: bytes_of_def)
    have "of_char (CHR ''&'') = (38 :: nat)" by simp
    then have "of_char c \<noteq> (38 :: nat)" using assms c(1) unfolding plain_string_def by (metis of_char_eq_iff)
    moreover have "0 < unat b" "unat b < 128" using assms c by (auto simp: plain_string_def unat_of_char)
    ultimately show ?thesis using c(2) unat_of_char [of c] by (auto simp: word_less_nat_alt unat_gt_0)
  qed
  then show "c_str (bytes_of s) = bytes_of s" by (intro c_str_id) auto
  show "all_ok enc (bytes_of s)" using b by (auto simp: all_ok_def enc_ok_def)
  have "38 \<notin> set (bytes_of s)" using b by blast
  then show "no_ref (bytes_of s)" by (induction "bytes_of s" arbitrary: s) (auto simp: bytes_of_def)
qed

lemma plain_show_int: "plain_string (show_int v)"
proof -
  have "plain_string (show_nat n)" for n
    using show_nat_digits [of _ n] by (fastforce simp: plain_string_def is_digit_def)
  then show ?thesis by (simp add: show_int_def plain_string_def)
qed

section \<open>Reading what was saved\<close>

lemma read_attribute:
  assumes "Find (bytes_of name) as = Some (attribute name v)" "plain_string v"
  shows "Attribute (bytes_of name) (XElement l w as cs) = Some (bytes_of v)"
  using assms plain_bytes(1) [OF assms(2)] by (simp add: Attribute_def attribute_def)

lemma read_int:
  assumes "Find (bytes_of name) as = Some (attribute name (show_int v))" "in_s32 v"
  shows "int_attribute name (XElement l w as cs) = Inr v"
  using read_attribute [OF assms(1) plain_show_int] atoi_show_int [OF assms(2)]
  by (simp add: int_attribute_def string_of_bytes StringAsInt_def)

lemma Find_attribute: "Find (bytes_of n) (attribute m v # as) =
    (if c_str (bytes_of m) = bytes_of n then Some (attribute m v) else Find (bytes_of n) as)"
  by (simp add: Find_def attribute_def)

lemma read_core_tree:
  assumes "core_in_range cfg"
  shows "read_core (core_tree cfg) garbage = Inr cfg"
proof -
  have names: "c_str (bytes_of n) = bytes_of n"
    if "n \<in> {''loop'', ''netthread'', ''httpthread'', ''timer'', ''tick'', ''count'', ''frametick'', ''send_size'', ''recv_size''}" for n
    using that by (intro plain_bytes(1)) (auto simp: plain_string_def)
  have distinct: "bytes_of a = bytes_of b \<longleftrightarrow> a = b" for a b
    using string_of_bytes by metis
  show ?thesis
    using assms
    by (simp add: read_core_def core_tree_def child_element_def FirstChildElement_def leaf_def names distinct
        read_int Find_attribute core_in_range_def)
qed

lemma read_module_leaves:
  "\<forall>n \<in> set ns. plain_string n \<Longrightarrow>
    module_loop (NextElement (bytes_of ''module'') (map (\<lambda>n. leaf ''module'' [(''name'', n)]) ns)) mods = Inr (mods @ ns)"
proof (induction ns arbitrary: mods)
  case (Cons n ns)
  have c: "c_str (bytes_of ''module'') = bytes_of ''module''" "c_str (bytes_of ''name'') = bytes_of ''name''"
    by (simp_all add: plain_bytes(1) plain_string_def)
  with Cons show ?case
    by (simp add: leaf_def read_attribute Find_attribute string_of_bytes NextSiblingElement_def)
qed simp

lemma read_module_tree:
  assumes "plain_string (strModulePath cfg)" "\<forall>n \<in> set (vctModules cfg). plain_string n"
  shows "read_modules (module_tree cfg) \<lparr>strModulePath = [], vctModules = []\<rparr> = Inr cfg"
proof -
  have c: "c_str (bytes_of ''path'') = bytes_of ''path''"
    by (simp add: plain_bytes(1) plain_string_def)
  show ?thesis
    using assms c read_module_leaves [OF assms(2), of "[]"]
    by (simp add: read_modules_def module_tree_def read_attribute Find_attribute string_of_bytes FirstChildElement_def)
qed

lemma saved_loads:
  assumes "top_ok TIXML_ENCODING_UTF8 root" "is_element root"
    and "fs path = Some (doc_print (xml_of root))"
  obtains doc root' where "load_xml fs path = Inr (True, doc)" "RootElement doc = Some root'" "erase root' = erase root"
proof -
  have "declared_encoding (bytes_of ''UTF-8'') = Inr TIXML_ENCODING_UTF8" by code_simp
  moreover have "decl_part (bytes_of ''1.0'')" "decl_part (bytes_of ''UTF-8'')" "decl_part []" by code_simp+
  ultimately have s: "saveable (d_children (xml_of root))" using assms(1) by (simp add: xml_of_def)
  have b: "SaveFile True False (xml_of root) = (True, Some (doc_print (xml_of root)))" "\<not> d_useMicrosoftBOM (xml_of root)"
    by (simp_all add: SaveFile_def SaveFile_to_def xml_of_def Document_new_def)
  obtain doc where doc: "load_xml fs path = Inr (True, doc)" "map erase (d_children doc) = map erase (d_children (xml_of root))"
    using save_load [OF s b(2,1) order.refl] assms(3) by (auto simp: load_xml_def)
  then obtain d r where r: "d_children doc = [d, r]" "erase d = erase (XDeclaration no_location (bytes_of ''1.0'') (bytes_of ''UTF-8'') [])"
      "erase r = erase root" by (auto simp: xml_of_def)
  have "\<not> is_element d" "is_element r" using r(2,3) assms(2) erase_is_element [of d] erase_is_element [of r] erase_is_element [of root] by simp_all
  with doc(1) r(1,3) show thesis by (intro that [of doc r]) (simp_all add: RootElement_def)
qed

text \<open>The words of the two files.\<close>

definition config_words :: "string list" where
  "config_words = [''core'', ''modules'', ''module'', ''name'', ''path'', ''loop'', ''netthread'', ''httpthread'',
     ''timer'', ''tick'', ''count'', ''frametick'', ''send_size'', ''recv_size'']"

lemma config_words_plain: "list_all plain_string config_words"
  by (simp add: config_words_def plain_string_def)

lemma config_words_named: "list_all (\<lambda>n. name_ok (bytes_of n)) config_words"
  by code_simp

lemma word_named: "n \<in> set config_words \<Longrightarrow> name_ok (bytes_of n)"
  using config_words_named by (auto simp: list_all_iff)

lemma word_attr:
  assumes "n \<in> set config_words" "plain_string v"
  shows "attr_ok TIXML_ENCODING_UTF8 (attribute n v)"
  using word_named [OF assms(1)] plain_bytes [OF assms(2)] plain_bytes(3) assms(1) config_words_plain
  by (simp add: attr_ok_def attribute_def list_all_iff)

lemma word_ok: "n \<in> set config_words \<Longrightarrow> all_ok enc (bytes_of n)"
  using plain_bytes(3) config_words_plain by (simp add: list_all_iff)

lemma word_set:
  "''core'' \<in> set config_words" "''modules'' \<in> set config_words" "''module'' \<in> set config_words"
  "''name'' \<in> set config_words" "''path'' \<in> set config_words" "''loop'' \<in> set config_words"
  "''netthread'' \<in> set config_words" "''httpthread'' \<in> set config_words" "''timer'' \<in> set config_words"
  "''tick'' \<in> set config_words" "''count'' \<in> set config_words" "''frametick'' \<in> set config_words"
  "''send_size'' \<in> set config_words" "''recv_size'' \<in> set config_words"
  by (simp_all add: config_words_def)

lemma config_read:
  assumes "core_in_range core" "plain_string (strModulePath mods)" "\<forall>n \<in> set (vctModules mods). plain_string n"
    and "fs (app @ ''/config/core.xml'') = Some (doc_print (xml_of (core_tree core)))"
    and "fs (app @ ''/config/module.xml'') = Some (doc_print (xml_of (module_tree mods)))"
  shows "Configmgr_getInstance fs app garbage None = Inr (Some \<lparr>m_oCoreConfig = core, m_oModuleConfig = mods\<rparr>)"
proof -
  have dist: "bytes_of a = bytes_of b \<longleftrightarrow> a = b" for a b using string_of_bytes by metis
  have core: "top_ok TIXML_ENCODING_UTF8 (core_tree core)"
    by (simp add: top_ok_def core_tree_def leaf_def is_text_def word_set word_named word_ok word_attr plain_show_int)
      (simp add: attribute_def dist)
  have "spaced (map (\<lambda>n. leaf ''module'' [(''name'', n)]) ns)" for ns
    by (induction ns rule: induct_list012) (auto simp: leaf_def)
  then have mods: "top_ok TIXML_ENCODING_UTF8 (module_tree mods)"
    using assms(2,3) by (auto simp: top_ok_def module_tree_def leaf_def is_text_def word_set word_named word_ok word_attr)
  have el: "is_element (core_tree core)" "is_element (module_tree mods)"
    by (simp_all add: core_tree_def module_tree_def)
  obtain d1 r1 where c: "load_xml fs (app @ ''/config/core.xml'') = Inr (True, d1)" "RootElement d1 = Some r1"
      "erase r1 = erase (core_tree core)"
    by (rule saved_loads [of "core_tree core" fs "app @ ''/config/core.xml''", OF core el(1) assms(4)])
  obtain d2 r2 where m: "load_xml fs (app @ ''/config/module.xml'') = Inr (True, d2)" "RootElement d2 = Some r2"
      "erase r2 = erase (module_tree mods)"
    by (rule saved_loads [of "module_tree mods" fs "app @ ''/config/module.xml''", OF mods el(2) assms(5)])
  have "read_core r1 garbage = Inr core"
    using erase_read_core [of r1] erase_read_core [of "core_tree core"] read_core_tree [OF assms(1)] c(3) by metis
  moreover have "read_modules r2 \<lparr>strModulePath = [], vctModules = []\<rparr> = Inr mods"
    using erase_read_modules [of r2] erase_read_modules [of "module_tree mods"] read_module_tree [OF assms(2,3)] m(3) by metis
  ultimately show ?thesis
    using c(1,2) m(1,2)
    by (simp add: Configmgr_getInstance_def Configmgr_Redry_def LoadCoreConfig_def LoadModuleConfig_def Configmgr_new_def)
qed

section \<open>Properties\<close>

text \<open>
  C14: The manager reads back what an operator saved. For all 32-bit numbers, a plain module path and
  plain module names, if \<^verbatim>\<open>core.xml\<close> and \<^verbatim>\<open>module.xml\<close> are the XML documents that describe them, then
  \<^verbatim>\<open>getInstance\<close> succeeds and the manager holds exactly those eight numbers, that path and those names
  in the same order, whatever its memory held before.
\<close>

theorem config_roundtrip:
  assumes "core_in_range core" "plain_string (strModulePath mods)" "\<forall>n \<in> set (vctModules mods). plain_string n"
    and "fs (app @ ''/config/core.xml'') = Some (doc_print (xml_of (core_tree core)))"
    and "fs (app @ ''/config/module.xml'') = Some (doc_print (xml_of (module_tree mods)))"
  shows "Configmgr_getInstance fs app garbage None = Inr (Some \<lparr>m_oCoreConfig = core, m_oModuleConfig = mods\<rparr>)"
  using assms by (rule config_read)

definition linux_core :: core_config where
  "linux_core = \<lparr>sLoopduration = 33, sNetThdCount = 4, sNetframetick = 10, sNetSendSize = 16384, sNetRecvSize = 16384,
     sHttpThdCount = 1, sHttpframetick = 5, sTimerlooptick = 11\<rparr>"

definition linux_modules :: module_config where
  "linux_modules = \<lparr>strModulePath = [], vctModules = [''Gate'']\<rparr>"

definition linux_files :: files where
  "linux_files path =
     (if path = ''/srv/config/core.xml'' then Some (doc_print (xml_of (core_tree linux_core)))
      else if path = ''/srv/config/module.xml'' then Some (doc_print (xml_of (module_tree linux_modules)))
      else None)"

definition small_garbage :: core_config where
  "small_garbage = linux_core\<lparr>sNetThdCount := - 5\<rparr>"

theorem config_roundtrip_witness:
  "Configmgr_getInstance linux_files ''/srv'' small_garbage None =
     Inr (Some \<lparr>m_oCoreConfig = linux_core, m_oModuleConfig = linux_modules\<rparr>)"
proof (rule config_roundtrip)
  show "core_in_range linux_core" by (simp add: core_in_range_def linux_core_def in_s32_def)
  show "plain_string (strModulePath linux_modules)" "\<forall>n \<in> set (vctModules linux_modules). plain_string n"
    by (simp_all add: linux_modules_def plain_string_def)
qed (simp_all add: linux_files_def)

text \<open>The two files of the repository itself, build/linux/config, byte for byte.\<close>

definition crlf :: "string" where "crlf = [char_of (13 :: nat), char_of (10 :: nat)]"

definition quoted :: "string \<Rightarrow> string" where "quoted s = [char_of (34 :: nat)] @ s @ [char_of (34 :: nat)]"

definition repository_core_xml :: "byte list" where
  "repository_core_xml = bytes_of (
     ''<?xml version='' @ quoted ''1.0'' @ '' encoding='' @ quoted ''UTF-8'' @ ''?>'' @ crlf @
     ''<core xmlns='' @ quoted ''http://www.netbeans.org/ns/project/1'' @ ''>'' @ crlf @
     ''    <loop tick='' @ quoted ''33'' @ '' />'' @ crlf @
     ''    <netthread count='' @ quoted ''4'' @ '' frametick='' @ quoted ''10'' @ '' send_size='' @ quoted ''16384'' @
       '' recv_size='' @ quoted ''16384'' @ ''/>'' @ crlf @
     ''    <httpthread count='' @ quoted ''1'' @ '' frametick='' @ quoted ''5'' @ '' />'' @ crlf @
     ''    <timer tick='' @ quoted ''11'' @ '' />'' @ crlf @
     ''</core>'' @ crlf)"

definition repository_module_xml :: "byte list" where
  "repository_module_xml = bytes_of (
     ''<?xml version='' @ quoted ''1.0'' @ '' encoding='' @ quoted ''utf-8'' @ '' ?> '' @ crlf @
     ''<modules path='' @ quoted [] @ ''>'' @ crlf @
     ''    <module name='' @ quoted ''Gate'' @ '' />'' @ crlf @
     ''</modules>'' @ crlf)"

definition repository_files :: files where
  "repository_files path =
     (if path = ''/config/core.xml'' then Some repository_core_xml
      else if path = ''/config/module.xml'' then Some repository_module_xml else None)"

end
