(* ===== verification/Kernel.thy ===== *)
theory Kernel
  imports Config Timer Net_Epoller Modules Logger
begin

text \<open>
  src/kernel/Kernel.h, Kernel.cpp and main.cpp: the object every module is given. It brings the
  five managers up in order, drives the network and the timers in its loop, forwards the calls of
  the modules to the manager they belong to, and takes the managers down. A call of a module reaches
  one manager; the models of the managers contain the calls a callback makes to the manager that
  called it, and a call to another manager is taken when the phase it was made in ends (no manager
  reads the state of another one, so the order does not show). What the other threads do, the rounds
  of the logger and the events of the network workers, is interleaved with these calls.
\<close>

section \<open>The process\<close>

text \<open>
  What the process finds when it starts: its files, the path of its directory, the memory its
  objects are created in, the answers of the operating system, the modules in the libraries, and
  the code of the modules (sessions and timers).
\<close>

record process_env =
  pe_files :: files
  pe_app :: string
  pe_core :: core_config
  pe_clock :: clock
  pe_net_clock :: "nat \<Rightarrow> int"
  pe_socks :: socks
  pe_sys :: sys
  pe_worker_count :: s32
  pe_worker_ary :: bool
  pe_events :: "ioevent list"
  pe_ring :: "uaddr list"
  pe_thread :: cthread
  pe_pthread_create :: "nat \<Rightarrow> s32 \<times> u64"
  pe_dlopen :: "string \<Rightarrow> nat option"
  pe_get_module :: "nat \<Rightarrow> nat option option"
  pe_heap :: "imodule list"
  pe_hosts :: hosts
  pe_client :: client

record kernel =
  m_bShutdown :: bool
  k_config :: configmgr
  k_timers :: timers
  k_net :: engine
  k_modules :: logicmgr
  k_logger :: logger
  k_log_thread :: cthread

section \<open>Singletons\<close>

definition Timermgr_getInstance :: "s32 \<Rightarrow> timers option \<Rightarrow> timers option outcome" where
  "Timermgr_getInstance scale p =
     (case p of
        None \<Rightarrow> bindE (Timermgr_new scale) (\<lambda>st. Inr (Some st))
      | Some st \<Rightarrow> Inr (Some st))"

definition epoller_Redry :: "engine \<Rightarrow> bool" where
  "epoller_Redry e = True"

text \<open>The pool of pipes is a static object; it exists before the engine does.\<close>

definition net_start :: "sys \<Rightarrow> net outcome" where
  "net_start w =
     bindE (TPool_new pipe_sz CPipe_new 64) (\<lambda>pool.
       Inr \<lparr>s_oCPipePool = pool, session_pipe = Map.empty, workers = [], os = w, clock_reads = 0, history = []\<rparr>)"

definition epoller_getInstance :: "process_env \<Rightarrow> engine option \<Rightarrow> engine option outcome" where
  "epoller_getInstance env p =
     (case p of
        Some e \<Rightarrow> Inr (Some e)
      | None \<Rightarrow>
          bindE (net_start (pe_sys env)) (\<lambda>st.
            let e = epoller_new st (pe_worker_count env) (pe_worker_ary env) (pe_socks env) in
            if \<not> epoller_Redry e then bindE (TASSERT False ''epoller can't be ready'') (\<lambda>_. Inr None)
            else Inr (Some e)))"

text \<open>A pointer converted to \<^verbatim>\<open>bool\<close> in a chain of \<^verbatim>\<open>&&\<close>: the rest is evaluated if it is not null.\<close>

definition and_then :: "'a option outcome \<Rightarrow> ('a \<Rightarrow> 'b option outcome) \<Rightarrow> 'b option outcome" where
  "and_then p f = bindE p (\<lambda>r. case r of None \<Rightarrow> Inr None | Some x \<Rightarrow> f x)"

text \<open>\<^verbatim>\<open>Kernel::Kernel\<close> and \<^verbatim>\<open>Redry\<close>; \<open>None\<close> is the answer false.\<close>

definition Kernel_Redry :: "process_env \<Rightarrow> kernel option outcome" where
  "Kernel_Redry env =
     and_then (Configmgr_getInstance (pe_files env) (pe_app env) (pe_core env) None) (\<lambda>config.
     and_then (Timermgr_getInstance 20 None) (\<lambda>tm.
     and_then (epoller_getInstance env None) (\<lambda>net.
     and_then (Logicmgr_getInstance None) (\<lambda>modules.
     and_then (Logger_getInstance (pe_ring env) None) (\<lambda>logger.
       Inr (Some \<lparr>m_bShutdown = True, k_config = config, k_timers = tm, k_net = net, k_modules = modules,
                  k_logger = logger, k_log_thread = pe_thread env\<rparr>))))))"

definition Kernel_getInstance :: "process_env \<Rightarrow> kernel option \<Rightarrow> kernel option outcome" where
  "Kernel_getInstance env p = (case p of Some k \<Rightarrow> Inr (Some k) | None \<Rightarrow> Kernel_Redry env)"

section \<open>The calls of the modules\<close>

definition Kernel_Shutdown :: "kernel \<Rightarrow> kernel" where
  "Kernel_Shutdown k = k\<lparr>m_bShutdown := True\<rparr>"

definition Kernel_FindModule :: "string \<Rightarrow> kernel \<Rightarrow> nat option" where
  "Kernel_FindModule name k = FindModule name (k_modules k)"

definition StartTcpServer :: "host \<Rightarrow> string \<Rightarrow> s32 \<Rightarrow> kernel \<Rightarrow> (bool \<times> kernel) outcome" where
  "StartTcpServer server ip port k =
     bindE (AddServer server ip port (k_net k)) (\<lambda>(r, e). Inr (r, k\<lparr>k_net := e\<rparr>))"

definition StartTcpClient :: "hosts \<Rightarrow> host \<Rightarrow> string \<Rightarrow> s32 \<Rightarrow> kernel \<Rightarrow> (bool \<times> kernel) outcome" where
  "StartTcpClient hs client ip port k =
     bindE (AddClient hs client ip port (k_net k)) (\<lambda>(r, e). Inr (r, k\<lparr>k_net := e\<rparr>))"

text \<open>
  The text of a log line: \<^verbatim>\<open>snprintf\<close> of three strings into 4096 bytes. \<open>now\<close> is what
  \<^verbatim>\<open>GetCurrentTimeString\<close> returns.
\<close>

definition log_line :: "string \<Rightarrow> string \<Rightarrow> byte list \<Rightarrow> byte list" where
  "log_line kind now debug = take 4095 (bytes_of (kind @ '' | '' @ now @ '' | '') @ debug @ [10])"

text \<open>\<^verbatim>\<open>Log\<close> waits while the ring is full; the logger thread is then the one to go on.\<close>

definition write_line :: "byte list \<Rightarrow> kernel \<Rightarrow> kernel outcome" where
  "write_line line k =
     bindE (Logger_Log (Some line) (k_logger k)) (\<lambda>r.
       case r of None \<Rightarrow> Inl Diverges | Some L \<Rightarrow> Inr (k\<lparr>k_logger := L\<rparr>))"

definition LogDebug :: "string \<Rightarrow> byte list \<Rightarrow> kernel \<Rightarrow> kernel outcome" where
  "LogDebug now debug k = write_line (log_line ''debug'' now debug) k"

definition LogTrace :: "string \<Rightarrow> byte list \<Rightarrow> kernel \<Rightarrow> kernel outcome" where
  "LogTrace now debug k = write_line (log_line ''trace'' now debug) k"

definition LogError :: "string \<Rightarrow> byte list \<Rightarrow> kernel \<Rightarrow> kernel outcome" where
  "LogError now debug k = write_line (log_line ''error'' now debug) k"

definition Kernel_StartTimer ::
  "clock \<Rightarrow> s32 \<Rightarrow> itimer \<Rightarrow> s64 \<Rightarrow> s64 \<Rightarrow> s64 \<Rightarrow> kernel \<Rightarrow> (bool \<times> kernel) outcome" where
  "Kernel_StartTimer gettime id0 timer interval delay loop k =
     bindE (Timermgr_StartTimer gettime id0 timer interval delay loop (k_timers k)) (\<lambda>(r, t).
       Inr (r, k\<lparr>k_timers := t\<rparr>))"

text \<open>The call of the timer manager is commented out.\<close>

definition Kernel_KillTimer :: "s32 \<Rightarrow> itimer \<Rightarrow> kernel \<Rightarrow> bool \<times> kernel" where
  "Kernel_KillTimer id0 timer k = (True, k)"

text \<open>What modules ask for, and what the other threads do in between.\<close>

datatype kernel_action =
    Ask_StartTcpServer host string s32
  | Ask_StartTcpClient host string s32
  | Ask_StartTimer s32 itimer s64 s64 s64
  | Ask_KillTimer s32 itimer
  | Ask_FindModule string
  | Ask_LogDebug string "byte list"
  | Ask_LogTrace string "byte list"
  | Ask_LogError string "byte list"
  | Ask_Shutdown
  | Log_thread log_env
  | Net_thread nat uaddr u32

fun kernel_do :: "process_env \<Rightarrow> kernel_action \<Rightarrow> kernel \<Rightarrow> kernel outcome" where
  "kernel_do env (Ask_StartTcpServer server ip port) k =
     bindE (StartTcpServer server ip port k) (\<lambda>(_, k). Inr k)"
| "kernel_do env (Ask_StartTcpClient client ip port) k =
     bindE (StartTcpClient (pe_hosts env) client ip port k) (\<lambda>(_, k). Inr k)"
| "kernel_do env (Ask_StartTimer id0 timer interval delay loop) k =
     bindE (Kernel_StartTimer (pe_clock env) id0 timer interval delay loop k) (\<lambda>(_, k). Inr k)"
| "kernel_do env (Ask_KillTimer id0 timer) k = Inr (snd (Kernel_KillTimer id0 timer k))"
| "kernel_do env (Ask_FindModule name) k = Inr k"
| "kernel_do env (Ask_LogDebug now debug) k = LogDebug now debug k"
| "kernel_do env (Ask_LogTrace now debug) k = LogTrace now debug k"
| "kernel_do env (Ask_LogError now debug) k = LogError now debug k"
| "kernel_do env Ask_Shutdown k = Inr (Kernel_Shutdown k)"
| "kernel_do env (Log_thread e) k =
     bindE (Logger_round e (k_logger k)) (\<lambda>(_, L). Inr (k\<lparr>k_logger := L\<rparr>))"
| "kernel_do env (Net_thread i a events) k =
     bindE (on_net (Run_event (sNetRecvSize (GetCoreConfig (k_config k))) i a events) (k_net k)) (\<lambda>e.
       Inr (k\<lparr>k_net := e\<rparr>))"

abbreviation kernel_run :: "process_env \<Rightarrow> kernel_action list \<Rightarrow> kernel \<Rightarrow> kernel outcome" where
  "kernel_run env \<equiv> runE (kernel_do env)"

section \<open>Life of the process\<close>

text \<open>\<open>asks c\<close> is what happens while the module call \<open>c\<close> runs. The chain of \<^verbatim>\<open>&&\<close> stops at the first failure.\<close>

definition Kernel_Initialize ::
  "process_env \<Rightarrow> (module_call \<Rightarrow> kernel_action list) \<Rightarrow> kernel \<Rightarrow> (bool \<times> kernel) outcome" where
  "Kernel_Initialize env asks k =
     (if \<not> Configmgr_Initialize (k_config k) then Inr (False, k)
      else
        let (ok, t) = Timermgr_Initialize (pe_clock env) (k_timers k); k = k\<lparr>k_timers := t\<rparr> in
        if \<not> ok then Inr (False, k)
        else
          bindE (epoller_Initialize (sNetThdCount (GetCoreConfig (k_config k))) (pe_events env) (k_net k)) (\<lambda>(ok, e).
          let k = k\<lparr>k_net := e\<rparr> in
          if \<not> ok then Inr (False, k)
          else
            bindE (Logicmgr_Initialize (pe_dlopen env) (pe_get_module env) (pe_heap env) (pe_app env)
                     (Some (GetModuleConfig (k_config k))) (k_modules k)) (\<lambda>(ok, calls, m).
            bindE (kernel_run env (concat (map asks calls)) (k\<lparr>k_modules := m\<rparr>)) (\<lambda>k.
            if \<not> ok then Inr (False, k)
            else
              let (ok, th) = Logger_Initialize (pe_pthread_create env) (k_log_thread k) in
              Inr (ok, k\<lparr>k_log_thread := th\<rparr>)))))"

text \<open>
  One turn of the loop: the answer of the main \<^verbatim>\<open>epoll_wait\<close>, bounds for the network's loops and
  the timers', and what happens in the two phases.
\<close>

record turn =
  tn_wait :: main_wait
  tn_events :: nat
  tn_fuel :: nat
  tn_timer_fuel :: nat
  tn_net :: "kernel_action list"
  tn_timer :: "kernel_action list"

definition Kernel_turn :: "process_env \<Rightarrow> turn \<Rightarrow> kernel \<Rightarrow> kernel outcome" where
  "Kernel_turn env t k =
     bindE (epoller_Processing (tn_events t) (tn_fuel t) (pe_net_clock env) (pe_hosts env) (tn_wait t)
              (sNetframetick (GetCoreConfig (k_config k))) (k_net k)) (\<lambda>(lUse, e).
     bindE (kernel_run env (tn_net t) (k\<lparr>k_net := e\<rparr>)) (\<lambda>k.
     bindE (Timermgr_Processing (tn_timer_fuel t) (pe_clock env) (pe_client env) (k_timers k)) (\<lambda>(lUse, tm).
     kernel_run env (tn_timer t) (k\<lparr>k_timers := tm\<rparr>))))"

text \<open>
  \<^verbatim>\<open>while (!m_bShutdown)\<close> over the turns the process is given. The result says whether the loop
  was left, and which turns were not begun.
\<close>

fun Loop_turns :: "process_env \<Rightarrow> turn list \<Rightarrow> kernel \<Rightarrow> (bool \<times> turn list \<times> kernel) outcome" where
  "Loop_turns env ts k =
     (if m_bShutdown k then Inr (True, ts, k)
      else case ts of
        [] \<Rightarrow> Inr (False, [], k)
      | t # ts \<Rightarrow> bindE (Kernel_turn env t k) (Loop_turns env ts))"

declare Loop_turns.simps [simp del]

definition Kernel_Loop :: "process_env \<Rightarrow> turn list \<Rightarrow> kernel \<Rightarrow> (bool \<times> turn list \<times> kernel) outcome" where
  "Kernel_Loop env ts k = Loop_turns env ts (k\<lparr>m_bShutdown := False\<rparr>)"

text \<open>
  \<^verbatim>\<open>Destory\<close>: \<open>seen\<close> are the states of the network threads that the main thread reads while it
  waits for them. The managers are deleted, and the kernel with them.
\<close>

definition Timermgr_Destory :: "timers \<Rightarrow> bool" where
  "Timermgr_Destory st = True"

definition Kernel_Destory :: "thread_status list list \<Rightarrow> kernel \<Rightarrow> bool outcome" where
  "Kernel_Destory seen k =
     (let _ = Configmgr_Destory (k_config k);
          _ = Logicmgr_Destory (k_modules k);
          _ = Timermgr_Destory (k_timers k) in
      bindE (Net_Epoller.Destory seen (k_net k)) (\<lambda>_.
      bindE (Logger_Destory (k_logger k)) (\<lambda>_. Inr True)))"

text \<open>
  \<^verbatim>\<open>main\<close>: \<open>None\<close> while the loop goes on. \<^verbatim>\<open>TRACEMEM\<close> is empty. The last statement deletes the
  string \<^verbatim>\<open>GetAppPath\<close> returns: memory from \<^verbatim>\<open>new[]\<close>, at a pointer \<^verbatim>\<open>dirname\<close> gave back.
\<close>

definition main :: "process_env \<Rightarrow> (module_call \<Rightarrow> kernel_action list) \<Rightarrow> turn list \<Rightarrow> thread_status list list \<Rightarrow> s32 option outcome" where
  "main env asks ts seen =
     bindE (Kernel_getInstance env None) (\<lambda>pKernel.
     bindE (TASSERT (pKernel \<noteq> None) ''get kernel point error'') (\<lambda>_.
     case pKernel of
       None \<Rightarrow> Inl NullPointer
     | Some k \<Rightarrow>
         bindE (Kernel_Initialize env asks k) (\<lambda>(res, k).
         bindE (TASSERT res ''launch kernel error'') (\<lambda>_.
         bindE (Kernel_Loop env ts k) (\<lambda>(left, _, k).
         if \<not> left then Inr None
         else
           bindE (Kernel_Destory seen k) (\<lambda>_.
           Inl BadDelete))))))"

end
