(* ===== verification/Kernel_Spec.thy ===== *)
theory Kernel_Spec
  imports Kernel Config_Spec Timer_Spec Net_Balance Logger_Spec
begin

text \<open>
  The kernel as a whole: what a start brings up, that the loop ends with the turn in which a module
  asks for it, what holds of the managers in every state the kernel can be in (the histories of the
  timers, the load of the workers, the pool of the log), and what its end comes to.
\<close>

section \<open>Actions\<close>

text \<open>Timer requests are the only calls with an obligation: the interval and the delay are sane.\<close>

fun action_ok :: "kernel_action \<Rightarrow> bool" where
  "action_ok (Ask_StartTimer id0 timer interval delay loop) = request_ok (StartTimer id0 timer interval delay loop)"
| "action_ok _ = True"

lemma write_line_fields:
  "write_line line k = Inr k' \<Longrightarrow> \<exists>L. Logger_Log (Some line) (k_logger k) = Inr (Some L) \<and> k' = k\<lparr>k_logger := L\<rparr>"
  by (auto simp: write_line_def bindE_eq_Inr split: option.splits)

lemmas log_defs = LogDebug_def LogTrace_def LogError_def

text \<open>What an action may change.\<close>

lemma kernel_do_cases:
  assumes "kernel_do env c k = Inr k'"
  obtains (same) "k' = k"
  | (shutdown) "c = Ask_Shutdown" "k' = k\<lparr>m_bShutdown := True\<rparr>"
  | (net) e where "k' = k\<lparr>k_net := e\<rparr>" "load e = load (k_net k)"
  | (timer) id0 timer interval delay loop r t where "c = Ask_StartTimer id0 timer interval delay loop"
      "Timermgr_StartTimer (pe_clock env) id0 timer interval delay loop (k_timers k) = Inr (r, t)" "k' = k\<lparr>k_timers := t\<rparr>"
  | (log) line L where "Logger_Log (Some line) (k_logger k) = Inr (Some L)" "k' = k\<lparr>k_logger := L\<rparr>"
  | (thread) e go L where "Logger_round e (k_logger k) = Inr (go, L)" "k' = k\<lparr>k_logger := L\<rparr>"
proof (cases c)
  case (Ask_StartTcpServer server ip port)
  then show thesis using assms net AddServer_load by (auto simp: StartTcpServer_def bindE_eq_Inr)
next
  case (Ask_StartTcpClient client ip port)
  then show thesis using assms net AddClient_load by (auto simp: StartTcpClient_def bindE_eq_Inr)
next
  case (Ask_StartTimer id0 timer interval delay loop)
  then show thesis using assms timer by (auto simp: Kernel_StartTimer_def bindE_eq_Inr)
next
  case (Net_thread i a events)
  then obtain e where e: "on_net (Run_event (sNetRecvSize (GetCoreConfig (k_config k))) i a events) (k_net k) = Inr e"
      "k' = k\<lparr>k_net := e\<rparr>" using assms by (auto simp: bindE_eq_Inr)
  have "load e = load (k_net k)" by (rule on_net_load [OF e(1)]) (rule Run_event_counts)
  with e(2) show thesis by (rule net)
next
  case (Log_thread e)
  then show thesis using assms thread by (auto simp: bindE_eq_Inr)
next
  case (Ask_LogDebug now msg)
  then show thesis using assms write_line_fields log by (fastforce simp: log_defs)
next
  case (Ask_LogTrace now msg)
  then show thesis using assms write_line_fields log by (fastforce simp: log_defs)
next
  case (Ask_LogError now msg)
  then show thesis using assms write_line_fields log by (fastforce simp: log_defs)
next
  case (Ask_KillTimer id0 timer)
  with assms have "k' = k" by (simp add: Kernel_KillTimer_def)
  then show thesis by (rule same)
next
  case (Ask_FindModule name)
  with assms have "k' = k" by simp
  then show thesis by (rule same)
next
  case Ask_Shutdown
  with assms have "k' = k\<lparr>m_bShutdown := True\<rparr>" by (simp add: Kernel_Shutdown_def)
  with Ask_Shutdown show thesis by (rule shutdown)
qed

section \<open>The loop\<close>

text \<open>Who asks for the end in a turn.\<close>

definition asks_shutdown :: "turn \<Rightarrow> bool" where
  "asks_shutdown t \<longleftrightarrow> Ask_Shutdown \<in> set (tn_net t @ tn_timer t)"

fun turns :: "process_env \<Rightarrow> turn list \<Rightarrow> kernel \<Rightarrow> kernel outcome" where
  "turns env [] k = Inr k"
| "turns env (t # ts) k = bindE (Kernel_turn env t k) (turns env ts)"

lemma kernel_do_shutdown:
  "kernel_do env c k = Inr k' \<Longrightarrow> m_bShutdown k' \<longleftrightarrow> m_bShutdown k \<or> c = Ask_Shutdown"
proof (cases "c = Ask_Shutdown")
  case False
  assume "kernel_do env c k = Inr k'"
  then show ?thesis by (cases rule: kernel_do_cases) (use False in auto)
qed (auto simp: Kernel_Shutdown_def)

lemma kernel_run_shutdown:
  "kernel_run env cs k = Inr k' \<Longrightarrow> m_bShutdown k' \<longleftrightarrow> m_bShutdown k \<or> Ask_Shutdown \<in> set cs"
  by (induction cs arbitrary: k) (auto simp: bindE_eq_Inr dest: kernel_do_shutdown)

lemma Kernel_turn_shutdown:
  "Kernel_turn env t k = Inr k' \<Longrightarrow> m_bShutdown k' \<longleftrightarrow> m_bShutdown k \<or> asks_shutdown t"
  by (auto simp: Kernel_turn_def bindE_eq_Inr asks_shutdown_def dest!: kernel_run_shutdown)

text \<open>The turns up to the first that asks for the end, and the ones behind it.\<close>

fun until_shutdown :: "turn list \<Rightarrow> turn list \<times> turn list" where
  "until_shutdown [] = ([], [])"
| "until_shutdown (t # ts) =
     (if asks_shutdown t then ([t], ts) else let (as, bs) = until_shutdown ts in (t # as, bs))"

lemma Loop_turns_shutdown: "m_bShutdown k \<Longrightarrow> Loop_turns env ts k = Inr (True, ts, k)"
  by (simp add: Loop_turns.simps)

lemma Loop_turns_run:
  "\<not> m_bShutdown k \<Longrightarrow> Loop_turns env ts k =
     bindE (turns env (fst (until_shutdown ts)) k) (\<lambda>k. Inr (list_ex asks_shutdown ts, snd (until_shutdown ts), k))"
proof (induction ts arbitrary: k)
  case Nil
  then show ?case by (simp add: Loop_turns.simps)
next
  case (Cons t ts)
  show ?case
  proof (cases "Kernel_turn env t k")
    case (Inl e)
    with Cons.prems show ?thesis by (simp add: Loop_turns.simps split: prod.splits)
  next
    case (Inr k')
    with Kernel_turn_shutdown [OF Inr] Cons.prems Cons.IH [of k'] show ?thesis
      by (auto simp: Loop_turns.simps [of env "t # ts"] Loop_turns_shutdown split: prod.splits)
  qed
qed

section \<open>What holds in every state\<close>

definition log_pool_ok :: "logger \<Rightarrow> bool" where
  "log_pool_ok L \<longleftrightarrow> pool_reach log_sz (TStream_new LOG_BLOCK) 256 64 (m_oPoolStream L)"

lemma new_logger_pool: "Logger_getInstance junk None = Inr (Some L) \<Longrightarrow> log_pool_ok L"
  by (auto simp: Logger_getInstance_def Logger_new_def Logger_Redry_def log_pool_ok_def bindE_eq_Inr intro: pr_new)

lemma Logger_Log_pool:
  assumes "log_pool_ok L" "Logger_Log (Some line) L = Inr (Some L')"
  shows "log_pool_ok L'"
proof -
  from assms(2) obtain a pool s where c: "TPool_Create log_sz (TStream_new LOG_BLOCK) 64 (m_oPoolStream L) = Inr (Some a, pool)"
      "m_oPoolStream L' = put_unit a s pool"
    by (auto simp: Logger_Log_def bindE_eq_Inr split: option.splits)
  have "pool_inv log_sz (m_oPoolStream L)" using pool_reach_inv assms(1) by (fastforce simp: log_pool_ok_def)
  from TPool_Create_ok [OF this, of 64 "TStream_new LOG_BLOCK"] c(1) have "a \<in> in_use pool" by auto
  with assms(1) c show ?thesis by (auto simp: log_pool_ok_def intro: pr_create pr_write)
qed

lemma write_log_pool:
  "write_log e a L = Inr L' \<Longrightarrow> TPool_Recover log_sz a (m_oPoolStream L) = Inr (m_oPoolStream L')"
  unfolding write_log_def by (auto simp: bindE_eq_Inr simp del: if_split split del: if_split)

lemma Logger_round_pool:
  assumes "log_pool_ok L" "Logger_round e L = Inr (go, L')"
  shows "log_pool_ok L'"
proof (cases "TQueue_Read (m_oQueueStream L)")
  case None
  with assms show ?thesis by (auto simp: Logger_round_def log_pool_ok_def split: if_splits)
next
  case (Some r)
  then obtain a q where "write_log e a (L\<lparr>m_oQueueStream := q\<rparr>) = Inr L'"
    using assms(2) by (cases r) (auto simp: Logger_round_def bindE_eq_Inr)
  from write_log_pool [OF this] assms(1) show ?thesis by (auto simp: log_pool_ok_def intro: pr_recover)
qed

text \<open>
  \<open>w\<close> is what the balancing reads, \<open>mgr\<close> the configuration, \<open>reg\<close> the registry of the modules. The
  timers have a history if the modules keep their obligation (\<open>good\<close>).
\<close>

definition kernel_inv :: "process_env \<Rightarrow> bool \<Rightarrow> s64 list \<times> s32 \<times> bool \<Rightarrow> configmgr \<Rightarrow> logicmgr \<Rightarrow> kernel \<Rightarrow> bool" where
  "kernel_inv env good w mgr reg k \<longleftrightarrow>
     (good \<longrightarrow> timer_reach (pe_clock env) (pe_client env) (k_timers k)) \<and> load (k_net k) = w \<and>
     log_pool_ok (k_logger k) \<and> k_config k = mgr \<and> k_modules k = reg"

lemma kernel_do_inv:
  assumes "kernel_inv env good w mgr reg k" "good \<Longrightarrow> action_ok c" "kernel_do env c k = Inr k'"
  shows "kernel_inv env good w mgr reg k'"
  using assms(3)
proof (cases rule: kernel_do_cases)
  case (timer id0 timer interval delay loop r t)
  then have d: "do_request (pe_clock env) (StartTimer id0 timer interval delay loop) (k_timers k) = Inr t" by simp
  have "timer_reach (pe_clock env) (pe_client env) t" if good
    by (rule tr_request [OF _ _ d]) (use timer assms(1,2) that in \<open>simp_all add: kernel_inv_def\<close>)
  with timer assms(1) show ?thesis by (simp add: kernel_inv_def)
next
  case (log line L)
  with assms(1) Logger_Log_pool [OF _ log(1)] show ?thesis by (simp add: kernel_inv_def)
next
  case (thread e go L)
  with assms(1) Logger_round_pool [OF _ thread(1)] show ?thesis by (simp add: kernel_inv_def)
qed (use assms(1) in \<open>simp_all add: kernel_inv_def\<close>)

interpretation kernel_calls: outcome_system "kernel_do env" "\<lambda>c. good \<longrightarrow> action_ok c"
    "kernel_inv env good w mgr reg" for env good w mgr reg
  by unfold_locales (auto intro: kernel_do_inv)

lemma kernel_run_inv:
  "kernel_inv env good w mgr reg k \<Longrightarrow> (good \<Longrightarrow> \<forall>c \<in> set cs. action_ok c) \<Longrightarrow> kernel_run env cs k = Inr k' \<Longrightarrow>
    kernel_inv env good w mgr reg k'"
  using kernel_calls.run_invar [of env good w mgr reg k cs k'] by (simp add: list_all_iff)

definition turn_ok :: "turn \<Rightarrow> bool" where
  "turn_ok t \<longleftrightarrow> (\<forall>c \<in> set (tn_net t @ tn_timer t). action_ok c)"

lemma Kernel_turn_inv:
  assumes "kernel_inv env good w mgr reg k" "good \<Longrightarrow> turn_ok t" "Kernel_turn env t k = Inr k'"
  shows "kernel_inv env good w mgr reg k'"
proof -
  from assms(3) obtain u e k1 v tm where
    p: "epoller_Processing (tn_events t) (tn_fuel t) (pe_net_clock env) (pe_hosts env) (tn_wait t)
          (sNetframetick (GetCoreConfig (k_config k))) (k_net k) = Inr (u, e)"
      "kernel_run env (tn_net t) (k\<lparr>k_net := e\<rparr>) = Inr k1"
      "Timermgr_Processing (tn_timer_fuel t) (pe_clock env) (pe_client env) (k_timers k1) = Inr (v, tm)"
      "kernel_run env (tn_timer t) (k1\<lparr>k_timers := tm\<rparr>) = Inr k'"
    by (auto simp: Kernel_turn_def bindE_eq_Inr)
  have "kernel_inv env good w mgr reg (k\<lparr>k_net := e\<rparr>)"
    using assms(1) epoller_Processing_load [OF p(1)] by (simp add: kernel_inv_def)
  from kernel_run_inv [OF this _ p(2)] assms(2) have "kernel_inv env good w mgr reg k1" by (simp add: turn_ok_def)
  with tr_process [OF _ p(3)] have "kernel_inv env good w mgr reg (k1\<lparr>k_timers := tm\<rparr>)" by (simp add: kernel_inv_def)
  from kernel_run_inv [OF this _ p(4)] assms(2) show ?thesis by (simp add: turn_ok_def)
qed

lemma Loop_turns_inv:
  "kernel_inv env good w mgr reg k \<Longrightarrow> (good \<Longrightarrow> \<forall>t \<in> set ts. turn_ok t) \<Longrightarrow>
    Loop_turns env ts k = Inr (left, rest, k') \<Longrightarrow> kernel_inv env good w mgr reg k'"
proof (induction ts arbitrary: k)
  case Nil
  then show ?case by (simp add: Loop_turns.simps split: if_splits)
next
  case (Cons t ts)
  show ?case
  proof (cases "m_bShutdown k")
    case True
    with Cons.prems show ?thesis by (simp add: Loop_turns.simps)
  next
    case False
    with Cons.prems(3) obtain k1 where k1: "Kernel_turn env t k = Inr k1" "Loop_turns env ts k1 = Inr (left, rest, k')"
      by (auto simp: Loop_turns.simps [of env "t # ts"] bindE_eq_Inr)
    from Kernel_turn_inv [OF Cons.prems(1) _ k1(1)] Cons.prems(2) have "kernel_inv env good w mgr reg k1" by auto
    from Cons.IH [OF this _ k1(2)] Cons.prems(2) show ?thesis by auto
  qed
qed

section \<open>The start\<close>

text \<open>What \<^verbatim>\<open>getInstance\<close> leaves behind: new managers and nothing else.\<close>

lemma getInstance_fields:
  assumes "Kernel_getInstance env None = Inr (Some k)"
  shows "Timermgr_new 20 = Inr (k_timers k)" "log_pool_ok (k_logger k)" "k_modules k = Logicmgr_new" "m_bShutdown k"
    and "\<exists>st. k_net k = epoller_new st (pe_worker_count env) (pe_worker_ary env) (pe_socks env)"
    and "Configmgr_getInstance (pe_files env) (pe_app env) (pe_core env) None = Inr (Some (k_config k))"
proof -
  from assms obtain mgr tm e m L where
    p: "Configmgr_getInstance (pe_files env) (pe_app env) (pe_core env) None = Inr (Some mgr)"
      "Timermgr_getInstance 20 None = Inr (Some tm)" "epoller_getInstance env None = Inr (Some e)"
      "Logicmgr_getInstance None = Inr (Some m)" "Logger_getInstance (pe_ring env) None = Inr (Some L)"
    and k: "k = \<lparr>m_bShutdown = True, k_config = mgr, k_timers = tm, k_net = e, k_modules = m, k_logger = L,
      k_log_thread = pe_thread env\<rparr>"
    by (auto simp: Kernel_getInstance_def Kernel_Redry_def and_then_def bindE_eq_Inr split: option.splits)
  show "Timermgr_new 20 = Inr (k_timers k)" using p(2) k by (auto simp: Timermgr_getInstance_def bindE_eq_Inr)
  show "log_pool_ok (k_logger k)" using new_logger_pool [OF p(5)] k by simp
  show "k_modules k = Logicmgr_new" using p(4) k by (simp add: Logicmgr_getInstance_def Logicmgr_Redry_def)
  show "\<exists>st. k_net k = epoller_new st (pe_worker_count env) (pe_worker_ary env) (pe_socks env)"
    using p(3) k by (auto simp: epoller_getInstance_def epoller_Redry_def bindE_eq_Inr)
  show "m_bShutdown k" "Configmgr_getInstance (pe_files env) (pe_app env) (pe_core env) None = Inr (Some (k_config k))"
    using p(1) k by simp_all
qed

text \<open>The part of \<^verbatim>\<open>Initialize\<close> before the modules run, and the modules' part.\<close>

lemma Initialize_parts:
  assumes "Kernel_Initialize env asks k = Inr (True, k')"
  obtains e calls m k1 where
    "epoller_Initialize (sNetThdCount (GetCoreConfig (k_config k))) (pe_events env) (k_net k) = Inr (True, e)"
    "Logicmgr_Initialize (pe_dlopen env) (pe_get_module env) (pe_heap env) (pe_app env)
       (Some (GetModuleConfig (k_config k))) (k_modules k) = Inr (True, calls, m)"
    "kernel_run env (concat (map asks calls))
       (k\<lparr>k_timers := snd (Timermgr_Initialize (pe_clock env) (k_timers k)), k_net := e, k_modules := m\<rparr>) = Inr k1"
    "k' = k1\<lparr>k_log_thread := snd (Logger_Initialize (pe_pthread_create env) (k_log_thread k1))\<rparr>"
  using assms
  by (auto simp: Kernel_Initialize_def Configmgr_Initialize_def Timermgr_Initialize_def Let_def bindE_eq_Inr
      split: if_splits prod.splits)

lemma started_inv:
  assumes k0: "Kernel_getInstance env None = Inr (Some k0)" and k1: "Kernel_Initialize env asks k0 = Inr (True, k1)"
    and good: "good \<Longrightarrow> \<forall>c. \<forall>a \<in> set (asks c). action_ok a"
  shows "\<exists>reg. kernel_inv env good
     (replicate (nat (sNetThdCount (GetCoreConfig (k_config k0)))) 0, sNetThdCount (GetCoreConfig (k_config k0)), True)
     (k_config k0) reg k1"
proof -
  note f = getInstance_fields [OF k0]
  from k1 show ?thesis
  proof (cases rule: Initialize_parts)
    case (1 e calls m k')
    from f(5) 1(1) obtain st where "epoller_Initialize (sNetThdCount (GetCoreConfig (k_config k0))) (pe_events env)
        (epoller_new st (pe_worker_count env) (pe_worker_ary env) (pe_socks env)) = Inr (True, e)" by auto
    note l = Initialize_load(1) [OF this]
    let ?k = "k0\<lparr>k_timers := snd (Timermgr_Initialize (pe_clock env) (k_timers k0)), k_net := e, k_modules := m\<rparr>"
    have "kernel_inv env good (load e) (k_config k0) m ?k"
      using f(2) tr_init [OF f(1)] by (simp add: kernel_inv_def)
    from kernel_run_inv [OF this _ 1(3)] good have "kernel_inv env good (load e) (k_config k0) m k'" by auto
    with 1(4) l show ?thesis by (auto simp: kernel_inv_def)
  qed
qed

text \<open>Workers open their descriptors in order.\<close>

lemma start_workers_opens:
  "sock_answers (socks e) = as @ rest \<Longrightarrow> length as = length js \<Longrightarrow> \<forall>r \<in> set as. ans_ret r \<noteq> - 1 \<Longrightarrow>
    \<exists>w. start_workers js e = Inr (e\<lparr>socks := w, ep_net := (ep_net e)\<lparr>workers :=
      fold (\<lambda>(i, r) ws. ws[i := (ws ! i)\<lparr>w_lEpollFd := ans_ret r\<rparr>]) (zip js as) (workers (ep_net e))\<rparr>\<rparr>)"
proof (induction js arbitrary: as e)
  case (Cons j js)
  then obtain r as' where as: "as = r # as'" by (cases as) auto
  let ?ws = "(workers (ep_net e))[j := (workers (ep_net e) ! j)\<lparr>w_lEpollFd := ans_ret r\<rparr>]"
  let ?e = "e\<lparr>socks := \<lparr>sock_answers = as' @ rest, sock_calls = sock_calls (socks e) @ [Call_epoll_create]\<rparr>,
      ep_net := (ep_net e)\<lparr>workers := ?ws\<rparr>\<rparr>"
  have "sock_call Call_epoll_create (socks e) = Inr (r, socks ?e)"
    using Cons.prems(1) as by (simp add: sock_call_def)
  moreover have "ans_ret r \<noteq> - 1" using Cons.prems(3) as by simp
  ultimately have step: "start_workers (j # js) e = start_workers js ?e" by (simp add: worker_Initialize_def)
  have "sock_answers (socks ?e) = as' @ rest" "length as' = length js" "\<forall>r \<in> set as'. ans_ret r \<noteq> - 1"
    using Cons.prems as by simp_all
  from Cons.IH [OF this] step as show ?case by simp
next
  case Nil
  show ?case by (rule exI [of _ "socks e"]) (use Nil.prems(2) in simp)
qed

lemma fold_fill:
  assumes "length as = n" "length xs = k"
  shows "fold (\<lambda>(i, r) ws. ws[i := f (ws ! i) r]) (zip [k..<k + n] as) (xs @ replicate n w) = xs @ map (f w) as"
  using assms
proof (induction as arbitrary: xs k n)
  case (Cons r as)
  then obtain m where n: "n = Suc m" by (cases n) auto
  have u: "[k..<k + n] = k # [Suc k..<Suc k + m]" by (simp add: n upt_rec)
  have "length as = m" "length (xs @ [f w r]) = Suc k" using Cons.prems n by simp_all
  from Cons.IH [OF this] Cons.prems n show ?case unfolding u by (simp add: list_update_append nth_append)
qed simp

lemma epoller_opens:
  assumes "sock_answers w = Ans ep 0 [] # map (\<lambda>fd. Ans fd 0 []) fds @ rest" "length fds = nat n" "0 \<le> n"
    and "- 1 \<notin> set (ep # fds)"
  shows "\<exists>e. epoller_Initialize n junk (epoller_new st jc ja w) = Inr (True, e) \<and> ep_lEpollFD e = ep \<and>
    ep_nWorkerCount e = n \<and> workers (ep_net e) = map (\<lambda>fd. (worker_new junk)\<lparr>w_lEpollFd := fd\<rparr>) fds"
proof -
  let ?w = "w\<lparr>sock_answers := map (\<lambda>fd. Ans fd 0 []) fds @ rest, sock_calls := sock_calls w @ [Call_epoll_create]\<rparr>"
  let ?e = "(epoller_new st jc ja w)\<lparr>ep_nWorkerCount := n, socks := ?w, ep_lEpollFD := ep, ep_pWorkerAry := True,
      ep_net := st\<lparr>workers := replicate (nat n) (worker_new junk)\<rparr>\<rparr>"
  have "sock_answers (socks ?e) = map (\<lambda>fd. Ans fd 0 []) fds @ rest" "length (map (\<lambda>fd. Ans fd 0 []) fds) = length [0..<nat n]"
    "\<forall>r \<in> set (map (\<lambda>fd. Ans fd 0 []) fds). ans_ret r \<noteq> - 1"
    using assms(2,4) by auto
  from start_workers_opens [OF this] obtain w' where
    run: "start_workers [0..<nat n] ?e = Inr (?e\<lparr>socks := w', ep_net := (ep_net ?e)\<lparr>workers :=
      fold (\<lambda>(i, r) ws. ws[i := (ws ! i)\<lparr>w_lEpollFd := ans_ret r\<rparr>])
        (zip [0..<nat n] (map (\<lambda>fd. Ans fd 0 []) fds)) (workers (ep_net ?e))\<rparr>\<rparr>)" by blast
  have fill: "fold (\<lambda>(i, r) ws. ws[i := (ws ! i)\<lparr>w_lEpollFd := ans_ret r\<rparr>])
      (zip [0..<nat n] (map (\<lambda>fd. Ans fd 0 []) fds)) (replicate (nat n) (worker_new junk)) =
      map (\<lambda>fd. (worker_new junk)\<lparr>w_lEpollFd := fd\<rparr>) fds"
    using fold_fill [of "map (\<lambda>fd. Ans fd 0 []) fds" "nat n" "[]" 0 "\<lambda>wk r. wk\<lparr>w_lEpollFd := ans_ret r\<rparr>" "worker_new junk"]
      assms(2) by (simp add: o_def)
  have "epoller_Initialize n junk (epoller_new st jc ja w) = bindE (start_workers [0..<nat n] ?e) (\<lambda>e. Inr (True, e))"
    using assms(1,3,4) by (simp add: epoller_Initialize_def epoller_new_def sock_call_def Let_def)
  with run fill show ?thesis by (simp add: o_def map_idI)
qed

text \<open>
  The files describe \<open>core\<close> and \<open>mods\<close>, the descriptors \<open>ep\<close> and \<open>fds\<close> are what
  \<^verbatim>\<open>epoll_create\<close> answers, and the libraries bring modules that the registry takes.
\<close>

definition good_start ::
  "process_env \<Rightarrow> core_config \<Rightarrow> module_config \<Rightarrow> s64 \<Rightarrow> s64 list \<Rightarrow> module_call list \<Rightarrow> logicmgr \<Rightarrow> bool" where
  "good_start env core mods ep fds mcs reg \<longleftrightarrow>
     core_in_range core \<and> plain_string (strModulePath mods) \<and> (\<forall>n \<in> set (vctModules mods). plain_string n) \<and>
     pe_files env (pe_app env @ ''/config/core.xml'') = Some (doc_print (xml_of (core_tree core))) \<and>
     pe_files env (pe_app env @ ''/config/module.xml'') = Some (doc_print (xml_of (module_tree mods))) \<and>
     0 \<le> sNetThdCount core \<and> length fds = nat (sNetThdCount core) \<and> - 1 \<notin> set (ep # fds) \<and>
     (\<exists>rest. sock_answers (pe_socks env) = Ans ep 0 [] # map (\<lambda>fd. Ans fd 0 []) fds @ rest) \<and>
     Logicmgr_Initialize (pe_dlopen env) (pe_get_module env) (pe_heap env) (pe_app env) (Some mods) Logicmgr_new =
       Inr (True, mcs, reg)"

lemma kernel_starts:
  assumes "good_start env core mods ep fds mcs reg"
  shows "\<exists>k0 k1. Kernel_getInstance env None = Inr (Some k0) \<and>
    Kernel_Initialize env asks k0 = bindE (kernel_run env (concat (map asks mcs)) k1) (\<lambda>k.
      Inr (True, k\<lparr>k_log_thread := snd (Logger_Initialize (pe_pthread_create env) (k_log_thread k))\<rparr>)) \<and>
    k_config k1 = \<lparr>m_oCoreConfig = core, m_oModuleConfig = mods\<rparr> \<and> k_modules k1 = reg \<and>
    ep_lEpollFD (k_net k1) = ep \<and> ep_nWorkerCount (k_net k1) = sNetThdCount core \<and>
    workers (ep_net (k_net k1)) = map (\<lambda>fd. (worker_new (pe_events env))\<lparr>w_lEpollFd := fd\<rparr>) fds \<and>
    m_nTimeScale (k_timers k1) = 20 \<and> m_lStartRunTick (k_timers k1) = to_s64 (pe_clock env 0) \<and>
    (\<exists>tm. Timermgr_new 20 = Inr tm \<and> k_timers k1 = snd (Timermgr_Initialize (pe_clock env) tm))"
proof -
  note g = assms [unfolded good_start_def]
  let ?mgr = "\<lparr>m_oCoreConfig = core, m_oModuleConfig = mods\<rparr>"
  have cfg: "Configmgr_getInstance (pe_files env) (pe_app env) (pe_core env) None = Inr (Some ?mgr)"
    using g by (intro config_read) auto
  obtain np sp where "TPool_new node_sz zero_node 64 = Inr np" "TPool_new slot_sz TimeSlot_new 1024 = Inr sp"
    using TPool_new_inv [of node_sz zero_node 64] TPool_new_inv [of slot_sz TimeSlot_new 1024] by blast
  then obtain tm where tm: "Timermgr_new 20 = Inr tm" "m_nTimeScale tm = 20" "reads tm = 0" by (simp add: Timermgr_new_def)
  obtain pool where "TPool_new pipe_sz CPipe_new 64 = Inr pool" using TPool_new_inv [of pipe_sz CPipe_new 64] by blast
  then obtain st where st: "net_start (pe_sys env) = Inr st" by (simp add: net_start_def)
  obtain lp where "TPool_new log_sz (TStream_new LOG_BLOCK) 256 = Inr lp"
    using TPool_new_inv [of log_sz "TStream_new LOG_BLOCK" 256] by blast
  then obtain L where L: "Logger_getInstance (pe_ring env) None = Inr (Some L)"
    by (simp add: Logger_getInstance_def Logger_new_def Logger_Redry_def)
  let ?e = "epoller_new st (pe_worker_count env) (pe_worker_ary env) (pe_socks env)"
  let ?k = "\<lparr>m_bShutdown = True, k_config = ?mgr, k_timers = tm, k_net = ?e, k_modules = Logicmgr_new, k_logger = L,
      k_log_thread = pe_thread env\<rparr>"
  have new: "Kernel_getInstance env None = Inr (Some ?k)"
    using cfg tm(1) st L by (simp add: Kernel_getInstance_def Kernel_Redry_def and_then_def Timermgr_getInstance_def
        epoller_getInstance_def epoller_Redry_def Logicmgr_getInstance_def Logicmgr_Redry_def)
  obtain e where e: "epoller_Initialize (sNetThdCount core) (pe_events env) ?e = Inr (True, e)" "ep_lEpollFD e = ep"
      "ep_nWorkerCount e = sNetThdCount core"
      "workers (ep_net e) = map (\<lambda>fd. (worker_new (pe_events env))\<lparr>w_lEpollFd := fd\<rparr>) fds"
    using g epoller_opens [of "pe_socks env" ep fds] by blast
  let ?k1 = "?k\<lparr>k_timers := snd (Timermgr_Initialize (pe_clock env) tm), k_net := e, k_modules := reg\<rparr>"
  have "Kernel_Initialize env asks ?k = bindE (kernel_run env (concat (map asks mcs)) ?k1) (\<lambda>k.
      Inr (True, k\<lparr>k_log_thread := snd (Logger_Initialize (pe_pthread_create env) (k_log_thread k))\<rparr>))"
    using g e(1) by (simp add: Kernel_Initialize_def Configmgr_Initialize_def Timermgr_Initialize_def GetTimeMillisecond_def
        GetCoreConfig_def GetModuleConfig_def Logger_Initialize_def Let_def case_prod_beta)
  with new e tm show ?thesis
    by (intro exI [of _ ?k] exI [of _ ?k1]) (simp add: Timermgr_Initialize_def GetTimeMillisecond_def)
qed

section \<open>A concrete process\<close>

text \<open>
  The configuration of the repository with two network threads; its one module starts a timer of
  100 ms, twice, when it is launched. The clock is the one of theory Timer_Spec.
\<close>

definition small_core :: core_config where
  "small_core = linux_core\<lparr>sNetThdCount := 2\<rparr>"

definition small_files :: files where
  "small_files path =
     (if path = ''/srv/config/core.xml'' then Some (doc_print (xml_of (core_tree small_core)))
      else if path = ''/srv/config/module.xml'' then Some (doc_print (xml_of (module_tree linux_modules)))
      else None)"

definition gate_registry :: logicmgr where
  "gate_registry = \<lparr>m_vctModules = [0], m_mapModules = Map.empty(''Gate'' \<mapsto> 0)\<rparr>"

definition small_module :: imodule where
  "small_module = \<lparr>m_pNextModule = None, m_pName = ''Gate'' @ replicate 60 NUL\<rparr>"

definition small_env :: process_env where
  "small_env = \<lparr>pe_files = small_files, pe_app = ''/srv'', pe_core = linux_core, pe_clock = example_clock,
     pe_net_clock = (\<lambda>_. 0),
     pe_socks = \<lparr>sock_answers = [Ans 3 0 [], Ans 4 0 [], Ans 5 0 []], sock_calls = []\<rparr>,
     pe_sys = os example_net, pe_worker_count = 0, pe_worker_ary = False,
     pe_events = replicate 3 \<lparr>io_type = IO_EVENT_TYPE_RECV, pCPipe = UAddr 0 0\<rparr>, pe_ring = [], pe_thread = CThread_new THREAD_STOPED,
     pe_pthread_create = (\<lambda>_. (0, 77)),
     pe_dlopen = (\<lambda>path. if path = ''/srv/libGate.so'' then Some 0 else None), pe_get_module = (\<lambda>_. Some (Some 0)),
     pe_heap = [small_module],
     pe_hosts = example_hosts, pe_client = example_client\<rparr>"

definition small_asks :: "module_call \<Rightarrow> kernel_action list" where
  "small_asks c = (if c = Module_Launched 0 then [Ask_StartTimer 7 1 100 0 2] else [])"

lemma small_module: "GetName small_module = Inr ''Gate''" "GetNext small_module = None"
  by code_simp (simp add: small_module_def GetNext_def)

lemma small_start:
  "good_start small_env small_core linux_modules 3 [4, 5] [Module_Initialize 0, Module_Launched 0] gate_registry"
proof -
  have "core_in_range small_core" "plain_string (strModulePath linux_modules)"
    "\<forall>n \<in> set (vctModules linux_modules). plain_string n"
    by (simp_all add: core_in_range_def small_core_def linux_core_def in_s32_def linux_modules_def plain_string_def)
  moreover have "Logicmgr_Initialize (pe_dlopen small_env) (pe_get_module small_env) (pe_heap small_env)
      (pe_app small_env) (Some linux_modules) Logicmgr_new =
      Inr (True, [Module_Initialize 0, Module_Launched 0], gate_registry)"
    by (simp add: Logicmgr_Initialize_def small_env_def linux_modules_def module_path_def register_chain.simps
        small_module Logicmgr_new_def gate_registry_def)
  ultimately show ?thesis
    by (simp add: good_start_def) (simp add: small_env_def small_files_def small_core_def linux_core_def)
qed

text \<open>A turn in which no socket is ready and no event waits.\<close>

lemma process_workers_idle:
  "\<forall>i \<in> set is. TQueue_Read (m_oEventQueue (workers st ! i)) = None \<Longrightarrow>
    \<exists>st'. process_workers (Suc n) fuel (\<lambda>_. 0) hs share is st = Inr st'"
proof (induction "is" arbitrary: st)
  case (Cons i js)
  let ?st = "st\<lparr>clock_reads := Suc (Suc (clock_reads st))\<rparr>"
  have "worker_Processing (Suc n) fuel (\<lambda>_. 0) hs i share st = Inr (0, ?st)"
    using Cons.prems by (simp add: worker_Processing_def read_clock_def read_queue_def to_s64_def chk_s64_def in_s64_def)
  with Cons.IH [of ?st] Cons.prems show ?case by simp
qed simp

lemma epoller_Processing_idle:
  assumes "0 \<le> ep_nWorkerCount e" "ep_nWorkerCount e < 1000"
    and "\<forall>i < nat (ep_nWorkerCount e). TQueue_Read (m_oEventQueue (workers (ep_net e) ! i)) = None"
  shows "\<exists>e'. epoller_Processing (Suc n) fuel (\<lambda>_. 0) hs (Main_events []) overtime e = Inr (0, e')"
proof -
  let ?d = "overtime sdiv (ep_nWorkerCount e + 1)"
  let ?st = "(ep_net e)\<lparr>clock_reads := Suc (Suc (Suc (Suc (clock_reads (ep_net e)))))\<rparr>"
  obtain st' where "process_workers (Suc n) fuel (\<lambda>_. 0) hs ?d [0..<nat (ep_nWorkerCount e)] ?st = Inr st'"
    using process_workers_idle [of "[0..<nat (ep_nWorkerCount e)]" ?st n fuel hs ?d] assms(3) by auto
  with assms(1,2) show ?thesis
    by (simp add: epoller_Processing_def DealEvent_def engine_clock_def read_clock_def to_s64_def chk_s64_def chk_s32_def
        in_s32_def in_s64_def div_s64_def on_net_def)
qed

lemma small_run:
  "\<exists>fuel k0 k1 k. Kernel_getInstance small_env None = Inr (Some k0) \<and>
    Kernel_Initialize small_env small_asks k0 = Inr (True, k1) \<and>
    Kernel_Loop small_env [\<lparr>tn_wait = Main_events [], tn_events = 1, tn_fuel = 1, tn_timer_fuel = fuel,
      tn_net = [], tn_timer = [Ask_Shutdown]\<rparr>] k1 = Inr (True, [], k)"
proof -
  obtain k0 k1 tm where k0: "Kernel_getInstance small_env None = Inr (Some k0)" and
    ini: "Kernel_Initialize small_env small_asks k0 = bindE (kernel_run small_env (concat (map small_asks
        [Module_Initialize 0, Module_Launched 0])) k1) (\<lambda>k.
      Inr (True, k\<lparr>k_log_thread := snd (Logger_Initialize (pe_pthread_create small_env) (k_log_thread k))\<rparr>))" and
    net: "ep_nWorkerCount (k_net k1) = 2"
      "workers (ep_net (k_net k1)) = map (\<lambda>fd. (worker_new (pe_events small_env))\<lparr>w_lEpollFd := fd\<rparr>) [4, 5]" and
    tm: "Timermgr_new 20 = Inr tm" "k_timers k1 = snd (Timermgr_Initialize (pe_clock small_env) tm)"
    using kernel_starts [OF small_start, of small_asks] by (auto simp: small_core_def)
  have clk: "pe_clock small_env = example_clock" "pe_net_clock small_env = (\<lambda>_. 0)" "pe_client small_env = example_client"
    by (simp_all add: small_env_def)
  have r: "request_ok (StartTimer 7 1 100 0 2)" by (simp add: in_s32_def)
  from do_request_ok [OF Timermgr_start_ok [OF example_clock_ok tm(1)] r] obtain L M t1 where
    t1: "do_request example_clock (StartTimer 7 1 100 0 2) (k_timers k1) = Inr t1" "timer_inv example_clock 0 L M {} t1"
      "grown 0 (\<lambda>_. []) Map.empty (k_timers k1) L M t1" unfolding tm(2) clk by blast
  have "m_nCursor t1 = 0"
    using t1(3) tm(2) by (simp add: grown_def same_frame_def Timermgr_Initialize_def GetTimeMillisecond_def Let_def)
  with t1(2) have "timer_inv example_clock (m_nCursor t1) L M {} t1" by simp
  from Processing_ok [OF this _ example_client_ok] example_clock_ok obtain N r t2 where
    t2: "\<forall>fuel > N. Timermgr_Processing fuel example_clock example_client t1 = Inr (r, t2)"
    by (auto simp: good_clock_def)
  from t1(1) obtain b where b: "Timermgr_StartTimer example_clock 7 1 100 0 2 (k_timers k1) = Inr (b, t1)"
    by (auto simp: bindE_eq_Inr)
  let ?k2 = "k1\<lparr>k_timers := t1, k_log_thread := snd (Logger_Initialize (pe_pthread_create small_env) (k_log_thread k1))\<rparr>"
  have k2: "Kernel_Initialize small_env small_asks k0 = Inr (True, ?k2)"
    using ini b clk by (simp add: small_asks_def Kernel_StartTimer_def)
  have "TQueue_Read (TQueue_new (pe_events small_env)) = None" by (simp add: small_env_def TQueue_Read_def TQueue_new_def)
  with net have "\<forall>i < nat (ep_nWorkerCount (k_net k1)). TQueue_Read (m_oEventQueue (workers (ep_net (k_net k1)) ! i)) = None"
    by (auto simp: worker_new_def dest: less_2_cases)
  from epoller_Processing_idle [OF _ _ this, of 0 "Suc 0" "pe_hosts small_env" "sNetframetick (GetCoreConfig (k_config k1))"]
    net(1) obtain e where
    e: "epoller_Processing (Suc 0) (Suc 0) (\<lambda>_. 0) (pe_hosts small_env) (Main_events [])
      (sNetframetick (GetCoreConfig (k_config k1))) (k_net k1) = Inr (0, e)" by auto
  let ?t = "\<lparr>tn_wait = Main_events [], tn_events = 1, tn_fuel = 1, tn_timer_fuel = Suc N, tn_net = [], tn_timer = [Ask_Shutdown]\<rparr>"
  have "Kernel_turn small_env ?t (?k2\<lparr>m_bShutdown := False\<rparr>) = Inr (?k2\<lparr>k_net := e, k_timers := t2, m_bShutdown := True\<rparr>)"
    using e t2 clk by (simp add: Kernel_turn_def Kernel_Shutdown_def)
  then have "Kernel_Loop small_env [?t] ?k2 = Inr (True, [], ?k2\<lparr>k_net := e, k_timers := t2, m_bShutdown := True\<rparr>)"
    by (simp add: Kernel_Loop_def Loop_turns.simps)
  with k0 k2 show ?thesis by blast
qed

section \<open>Properties\<close>

text \<open>
  C18: The start of the process. If the two files hold the documents that describe a configuration,
  the operating system gives an epoll descriptor for the engine and for every configured worker, and
  the libraries bring modules the registry takes, then \<^verbatim>\<open>getInstance\<close> succeeds and \<^verbatim>\<open>Initialize\<close>
  does exactly this: it hands the modules, in the order of the registry, a kernel whose configuration
  is the one in the files, whose engine has one worker per configured thread with its own
  descriptor, whose timers started at the first reading of the clock, and afterwards starts the thread
  of the log. The tick of the timers is 20 whatever the configuration says.
\<close>

theorem kernel_startup:
  assumes "good_start env core mods ep fds mcs reg"
  shows "\<exists>k0 k1. Kernel_getInstance env None = Inr (Some k0) \<and>
    Kernel_Initialize env asks k0 = bindE (kernel_run env (concat (map asks mcs)) k1) (\<lambda>k.
      Inr (True, k\<lparr>k_log_thread := snd (Logger_Initialize (pe_pthread_create env) (k_log_thread k))\<rparr>)) \<and>
    k_config k1 = \<lparr>m_oCoreConfig = core, m_oModuleConfig = mods\<rparr> \<and> k_modules k1 = reg \<and>
    ep_lEpollFD (k_net k1) = ep \<and> ep_nWorkerCount (k_net k1) = sNetThdCount core \<and>
    map w_lEpollFd (workers (ep_net (k_net k1))) = fds \<and>
    m_nTimeScale (k_timers k1) = 20 \<and> m_lStartRunTick (k_timers k1) = to_s64 (pe_clock env 0)"
proof -
  from kernel_starts [OF assms, of asks] obtain k0 k1 where
    k: "Kernel_getInstance env None = Inr (Some k0)"
      "Kernel_Initialize env asks k0 = bindE (kernel_run env (concat (map asks mcs)) k1) (\<lambda>k.
        Inr (True, k\<lparr>k_log_thread := snd (Logger_Initialize (pe_pthread_create env) (k_log_thread k))\<rparr>))"
      "k_config k1 = \<lparr>m_oCoreConfig = core, m_oModuleConfig = mods\<rparr>" "k_modules k1 = reg"
      "ep_lEpollFD (k_net k1) = ep" "ep_nWorkerCount (k_net k1) = sNetThdCount core"
      "workers (ep_net (k_net k1)) = map (\<lambda>fd. (worker_new (pe_events env))\<lparr>w_lEpollFd := fd\<rparr>) fds"
      "m_nTimeScale (k_timers k1) = 20" "m_lStartRunTick (k_timers k1) = to_s64 (pe_clock env 0)" by blast
  from k(7) have "map w_lEpollFd (workers (ep_net (k_net k1))) = fds" by (simp add: o_def)
  with k show ?thesis by blast
qed

theorem kernel_startup_witness:
  "\<exists>k0 k1. Kernel_getInstance small_env None = Inr (Some k0) \<and>
    Kernel_Initialize small_env (\<lambda>_. []) k0 = Inr (True, k1) \<and> ep_nWorkerCount (k_net k1) = 2 \<and>
    map w_lEpollFd (workers (ep_net (k_net k1))) = [4, 5] \<and> m_lStartRunTick (k_timers k1) = 1000 \<and>
    sTimerlooptick (m_oCoreConfig (k_config k1)) = 11 \<and> m_nTimeScale (k_timers k1) = 20"
proof -
  have "pe_clock small_env 0 = 1000" by (simp add: small_env_def example_clock_def)
  with kernel_startup [OF small_start, of "\<lambda>_. []"] show ?thesis
    by (auto simp: small_core_def linux_core_def in_s64_def)
qed

text \<open>
  C19: The loop runs whole turns and ends with the first one in which somebody asks for the end; the
  turns behind it are not begun, and without such a request the loop goes on. A request made before
  the loop starts is lost: the loop forgets it.
\<close>

theorem kernel_loop_ends:
  "Kernel_Loop env ts k =
     bindE (turns env (fst (until_shutdown ts)) (k\<lparr>m_bShutdown := False\<rparr>)) (\<lambda>k.
       Inr (list_ex asks_shutdown ts, snd (until_shutdown ts), k)) \<and>
   Kernel_Loop env ts (Kernel_Shutdown k) = Kernel_Loop env ts k"
  by (simp add: Kernel_Loop_def Loop_turns_run Kernel_Shutdown_def)

text \<open>
  C3: What holds of the whole process in every state its loop can reach, for modules that keep the
  obligations of the timer interface and whatever the other threads do: the calls the timers got are
  ones the interface allows and no timer leaks, the configuration is the one that was read, and the
  engine has the configured number of workers, the first of which takes every new connection.
\<close>

theorem kernel_invariant:
  assumes "Kernel_getInstance env None = Inr (Some k0)" "Kernel_Initialize env asks k0 = Inr (True, k1)"
    and "Kernel_Loop env ts k1 = Inr (left, rest, k)"
    and "good_clock (pe_clock env)" "client_ok (pe_client env)"
    and "\<forall>c. \<forall>a \<in> set (asks c). action_ok a" "\<forall>t \<in> set ts. turn_ok t"
  shows "(\<exists>M. monitor (trace (k_timers k)) Map.empty = Some M \<and> dom M = in_use (s_oTimeNodePool (k_timers k))) \<and>
    k_config k = k_config k0 \<and> k_modules k = k_modules k1 \<and>
    length (workers (ep_net (k_net k))) = nat (sNetThdCount (GetCoreConfig (k_config k0))) \<and>
    (0 < sNetThdCount (GetCoreConfig (k_config k0)) \<longrightarrow> BalancingWorker (k_net k) = Some 0)"
proof -
  let ?n = "sNetThdCount (GetCoreConfig (k_config k0))"
  let ?w = "(replicate (nat ?n) 0, ?n, True)"
  from started_inv [OF assms(1,2), of True] assms(6) obtain reg where
    i: "kernel_inv env True ?w (k_config k0) reg k1" by blast
  then have "kernel_inv env True ?w (k_config k0) reg (k1\<lparr>m_bShutdown := False\<rparr>)" by (simp add: kernel_inv_def)
  from Loop_turns_inv [OF this _ assms(3) [unfolded Kernel_Loop_def]] assms(7)
  have k: "timer_reach (pe_clock env) (pe_client env) (k_timers k)" "load (k_net k) = ?w" "k_config k = k_config k0"
      "k_modules k = reg" by (auto simp: kernel_inv_def)
  have "k_modules k1 = reg" using i by (simp add: kernel_inv_def)
  moreover have "length (workers (ep_net (k_net k))) = nat ?n"
  proof -
    have "map m_lOptCount (workers (ep_net (k_net k))) = replicate (nat ?n) 0" using k(2) by (simp add: load_def counts_def)
    then show ?thesis by (metis length_map length_replicate)
  qed
  ultimately show ?thesis using k zero_load_first [OF k(2)] timer_reach_monitor [OF k(1) assms(4,5)] by blast
qed

theorem kernel_invariant_witness:
  "\<exists>(k :: kernel) M. monitor (trace (k_timers k)) Map.empty = Some M \<and> dom M = in_use (s_oTimeNodePool (k_timers k)) \<and>
    length (workers (ep_net (k_net k))) = 2 \<and> BalancingWorker (k_net k) = Some 0"
proof -
  obtain fuel k0 k1 k where r: "Kernel_getInstance small_env None = Inr (Some k0)"
    "Kernel_Initialize small_env small_asks k0 = Inr (True, k1)"
    "Kernel_Loop small_env [\<lparr>tn_wait = Main_events [], tn_events = 1, tn_fuel = 1, tn_timer_fuel = fuel,
      tn_net = [], tn_timer = [Ask_Shutdown]\<rparr>] k1 = Inr (True, [], k)" using small_run by blast
  have "\<forall>c. \<forall>a \<in> set (small_asks c). action_ok a" by (simp add: small_asks_def in_s32_def)
  moreover have "good_clock (pe_clock small_env)" "client_ok (pe_client small_env)"
    by (simp_all add: small_env_def example_clock_ok example_client_ok)
  moreover have "sNetThdCount (GetCoreConfig (k_config k0)) = 2"
    using kernel_starts [OF small_start, of small_asks] getInstance_fields(6) [OF r(1)] r(1)
      config_read [of small_core linux_modules small_files "''/srv''" linux_core] small_start
    by (auto simp: good_start_def small_env_def GetCoreConfig_def small_core_def)
  ultimately obtain M where "monitor (trace (k_timers k)) Map.empty = Some M" "dom M = in_use (s_oTimeNodePool (k_timers k))"
    "length (workers (ep_net (k_net k))) = 2" "BalancingWorker (k_net k) = Some 0"
    using kernel_invariant [OF r] by (auto simp: turn_ok_def)
  then show ?thesis by blast
qed

text \<open>
  The end of the process. In every state the loop can be left in, \<^verbatim>\<open>Destory\<close> does not return: it
  waits for ever for a network thread, or it reaches the pool of the log, whose destructor releases
  its table with the wrong form of \<^verbatim>\<open>delete\<close>.
\<close>

theorem kernel_end_undefined:
  assumes "Kernel_getInstance env None = Inr (Some k0)" "Kernel_Initialize env asks k0 = Inr (True, k1)"
    and "Kernel_Loop env ts k1 = Inr (left, rest, k)"
  shows "Kernel_Destory seen k = Inl Diverges \<or> Kernel_Destory seen k = Inl BadDelete"
proof -
  from started_inv [OF assms(1,2), of False] obtain w reg where
    "kernel_inv env False w (k_config k0) reg k1" by blast
  then have "kernel_inv env False w (k_config k0) reg (k1\<lparr>m_bShutdown := False\<rparr>)" by (simp add: kernel_inv_def)
  from Loop_turns_inv [OF this _ assms(3) [unfolded Kernel_Loop_def]] have "log_pool_ok (k_logger k)"
    by (simp add: kernel_inv_def)
  then have bad: "Logger_Destory (k_logger k) = Inl BadDelete"
    using pool_table_form [of log_sz "TStream_new LOG_BLOCK" 256 "m_oPoolStream (k_logger k)"]
    by (simp add: log_pool_ok_def Logger_Destory_def)
  have wait: "wait_stopped ss = Inl Diverges \<or> wait_stopped ss = Inr ()" for ss by (induction ss) auto
  have workers: "terminate_workers seen is e = Inl Diverges \<or> (\<exists>e'. terminate_workers seen is e = Inr e')" for "is" e
  proof (induction "is" arbitrary: e)
    case (Cons i js)
    show ?case
    proof (cases "worker_Terminate (seen ! i) (workers (ep_net e) ! i)")
      case (Inl f)
      with wait [of "seen ! i"] show ?thesis by (auto simp: worker_Terminate_def split: if_splits)
    next
      case (Inr p)
      then show ?thesis by (cases p) (simp add: Cons.IH)
    qed
  qed simp
  from workers [of "[0..<nat (ep_nWorkerCount (k_net k))]" "k_net k"] bad show ?thesis
    by (auto simp: Kernel_Destory_def Net_Epoller.Destory_def)
qed

theorem kernel_end_undefined_witness:
  "\<exists>k. Kernel_Destory [[], []] k = Inl Diverges \<or> Kernel_Destory [[], []] k = Inl BadDelete"
  using small_run kernel_end_undefined by blast

end
