(* ===== verification/Iocp_Pipe.thy ===== *)
theory Iocp_Pipe
  imports Net_Epoller
begin

text \<open>
  The connections of the Windows engine: src/kernel/net/iocp/iocphead.h and iocphead.cpp (the event
  of an overlapped operation), Pipe.h, CPipe.h and CPipe.cpp. The debug configuration is modelled.

  Overlapped input and output is part of the state: an operation that was started, or posted, is in
  flight until a thread takes its completion from the completion port its socket belongs to. The
  system captures the buffer of an operation when it starts, but of the event it knows the address
  only: what the event says is read when the completion is taken. A pointer into a send stream is the
  size of the buffer it was taken from (the buffer of a stream is replaced when it grows, and only
  then) and an offset.
\<close>

type_synonym handle = nat

section \<open>Events\<close>

datatype event_ref = Recv_event uaddr | Send_event uaddr | Accept_event nat

datatype wcontext = Ctx_none | Ctx_CPipe uaddr | Ctx_SPipe nat

datatype iobuf = Null_buffer | Own_buffer | Stream_buffer s32 nat

text \<open>\<open>ev_bytes\<close> is the memory of \<^verbatim>\<open>pBuff\<close>; its length is \<^verbatim>\<open>buffLen\<close>.\<close>

record iocp_event =
  ev_opt :: eSocketOpt
  ev_code :: s32
  ev_wbuf :: iobuf
  ev_wlen :: s32
  ev_bytes :: "byte list"
  ev_socket :: s64
  ev_remote :: "byte list"
  ev_context :: wcontext

text \<open>\<^verbatim>\<open>clear\<close> zeroes all but the buffer; the operation with number zero is \<^verbatim>\<open>SO_ACCEPT\<close>.\<close>

definition event_clear :: "iocp_event \<Rightarrow> iocp_event" where
  "event_clear e =
     \<lparr>ev_opt = SO_ACCEPT, ev_code = 0,
      ev_wbuf = (if ev_bytes e = [] then Null_buffer else Own_buffer), ev_wlen = int (length (ev_bytes e)),
      ev_bytes = ev_bytes e, ev_socket = 0, ev_remote = replicate 16 0, ev_context = Ctx_none\<rparr>"

definition event_new :: "s32 \<Rightarrow> iocp_event outcome" where
  "event_new len0 =
     bindE (TASSERT (len0 \<ge> 0) ''wtf'') (\<lambda>_.
       Inr (event_clear \<lparr>ev_opt = SO_ACCEPT, ev_code = 0, ev_wbuf = Null_buffer, ev_wlen = 0,
         ev_bytes = replicate (nat len0) 0, ev_socket = 0, ev_remote = replicate 16 0, ev_context = Ctx_none\<rparr>))"

definition formartIocpevent :: "wcontext \<Rightarrow> s64 \<Rightarrow> eSocketOpt \<Rightarrow> iocp_event \<Rightarrow> iocp_event" where
  "formartIocpevent p socket event e =
     (event_clear e)\<lparr>ev_socket := socket, ev_context := p, ev_opt := event\<rparr>"

section \<open>The system\<close>

datatype wcall =
    W_socket
  | W_bind s64 "byte list"
  | W_ioctl s64
  | W_setsockopt s64 s64
  | W_listen s64 s32
  | W_new_port
  | W_add_port s64 handle
  | W_connect s64 "byte list" event_ref
  | W_accept s64 s64 event_ref
  | W_recv s64 event_ref
  | W_send s64 event_ref
  | W_post handle s64 event_ref
  | W_getpeername s64
  | W_get_function string
  | W_shutdown s64
  | W_close s64
  | W_close_handle handle
  | W_received s64 "byte list"
  | W_sent s64 "byte list"

text \<open>What a call returns, the error it sets, and the bytes it stores.\<close>

datatype wanswer = WAns (wa_ret: s64) (wa_err: s32) (wa_data: "byte list")

text \<open>
  What was started on an event: a completion that the program posts itself, the making of a
  connection, a receive into \<open>n\<close> bytes, or a send of \<open>n\<close> bytes at an address, of which the contents
  at the start are remembered: the system copies the bytes then, or reads them later.
\<close>

datatype overlapped = Posted | Connecting | Accepting | Receiving nat | Sending s32 nat nat "byte list"

text \<open>
  \<open>in_flight\<close> lists the operations whose completion nobody has taken: the port, the key of the
  socket, the event and the operation. \<open>w_ports\<close> says which port a socket belongs to, and the key.
  The last two calls record the bytes that went through a socket.
\<close>

record wos =
  w_answers :: "wanswer list"
  w_calls :: "wcall list"
  w_ports :: "s64 \<rightharpoonup> handle \<times> s64"
  in_flight :: "(handle \<times> s64 \<times> event_ref \<times> overlapped) list"

definition wcall :: "wcall \<Rightarrow> wos \<Rightarrow> (wanswer \<times> wos) outcome" where
  "wcall c w =
     (case w_answers w of
        [] \<Rightarrow> Inl Diverges
      | r # rs \<Rightarrow> Inr (r, w\<lparr>w_answers := rs, w_calls := w_calls w @ [c]\<rparr>))"

definition wnote :: "wcall \<Rightarrow> wos \<Rightarrow> wos" where
  "wnote c w = w\<lparr>w_calls := w_calls w @ [c]\<rparr>"

text \<open>An operation on a socket that was started; without a port its completion reaches nobody.\<close>

definition start_io :: "s64 \<Rightarrow> event_ref \<Rightarrow> overlapped \<Rightarrow> wos \<Rightarrow> wos" where
  "start_io s e v w =
     (case w_ports w s of
        None \<Rightarrow> w
      | Some (port, key) \<Rightarrow> w\<lparr>in_flight := in_flight w @ [(port, key, e, v)]\<rparr>)"

abbreviation (input) SOCKET_ERROR :: s64 where "SOCKET_ERROR \<equiv> - 1"
abbreviation (input) INVALID_SOCKET :: s64 where "INVALID_SOCKET \<equiv> - 1"
abbreviation (input) IO_PENDING :: s32 where "IO_PENDING \<equiv> 997"

text \<open>
  A call that starts an overlapped operation: \<open>fail\<close> is the return value that says that it did not
  succeed at once. The answer is whether it started, and the error.
\<close>

definition start_call ::
    "wcall \<Rightarrow> s64 \<Rightarrow> s64 \<Rightarrow> event_ref \<Rightarrow> overlapped \<Rightarrow> wos \<Rightarrow> (bool \<times> s32 \<times> wos) outcome" where
  "start_call c fail s e v w =
     bindE (wcall c w) (\<lambda>(r, w).
       if wa_ret r = fail \<and> wa_err r \<noteq> IO_PENDING then Inr (False, wa_err r, w)
       else Inr (True, wa_err r, start_io s e v w))"

text \<open>\<^verbatim>\<open>PostQueuedCompletionStatus\<close> puts a completion into a port.\<close>

definition post :: "handle \<Rightarrow> s64 \<Rightarrow> event_ref \<Rightarrow> wos \<Rightarrow> (bool \<times> wos) outcome" where
  "post port key e w =
     bindE (wcall (W_post port key e) w) (\<lambda>(r, w).
       if wa_ret r = 0 then Inr (False, w)
       else Inr (True, w\<lparr>in_flight := in_flight w @ [(port, key, e, Posted)]\<rparr>))"

definition close_sock :: "s64 \<Rightarrow> wos \<Rightarrow> wos" where
  "close_sock s w = wnote (W_close s) (w\<lparr>w_ports := (w_ports w)(s := None)\<rparr>)"

section \<open>CPipe\<close>

record wpipe =
  wp_nStatus :: eSocketStatus
  wp_lSocketHandler :: s64
  wp_oAddr :: "byte list"
  wp_hCompletionPort :: "handle option"
  wp_pHost :: host
  wp_bNeedPostOPT :: bool
  wp_pRecvEvent :: iocp_event
  wp_pSendEvent :: iocp_event
  wp_oRecvStream :: tstream
  wp_oSendStream :: tstream
  wp_nTestCount :: s32

definition WPipe_Pipe_Clear :: "wpipe \<Rightarrow> wpipe" where
  "WPipe_Pipe_Clear p = p\<lparr>wp_nStatus := SS_UNINITIALIZE, wp_lSocketHandler := INVALID_SOCKET, wp_oAddr := replicate 16 0\<rparr>"

definition WPipe_Close :: "wpipe \<Rightarrow> wpipe" where
  "WPipe_Close p = p\<lparr>wp_nStatus := SS_WAITCLOSE\<rparr>"

definition WPipe_Clear :: "wpipe \<Rightarrow> wpipe outcome" where
  "WPipe_Clear p =
     (let p = (WPipe_Pipe_Clear p)\<lparr>wp_hCompletionPort := None, wp_bNeedPostOPT := True\<rparr> in
      bindE (TStream_clear BUFF_SIZE (wp_oRecvStream p)) (\<lambda>r.
      bindE (TStream_clear BUFF_SIZE (wp_oSendStream p)) (\<lambda>s.
      Inr (p\<lparr>wp_oRecvStream := r, wp_oSendStream := s, wp_pRecvEvent := event_clear (wp_pRecvEvent p),
            wp_pSendEvent := event_clear (wp_pSendEvent p)\<rparr>))))"

text \<open>The constructor; the host is as the memory was (zero in a new block).\<close>

definition WPipe_new :: "s32 \<Rightarrow> wpipe outcome" where
  "WPipe_new sNetRecvSize =
     bindE (event_new sNetRecvSize) (\<lambda>r.
     bindE (event_new 0) (\<lambda>s.
     bindE (WPipe_Clear \<lparr>wp_nStatus = SS_UNINITIALIZE, wp_lSocketHandler = INVALID_SOCKET, wp_oAddr = replicate 16 0,
         wp_hCompletionPort = None, wp_pHost = 0, wp_bNeedPostOPT = True, wp_pRecvEvent = r, wp_pSendEvent = s,
         wp_oRecvStream = TStream_new BUFF_SIZE, wp_oSendStream = TStream_new BUFF_SIZE, wp_nTestCount = 0\<rparr>) (\<lambda>p.
     Inr (p\<lparr>wp_nTestCount := 0\<rparr>))))"

text \<open>\<open>a\<close> is the address of the pipe, which its events carry.\<close>

definition WPipe_DoConnect :: "uaddr \<Rightarrow> string \<Rightarrow> s32 \<Rightarrow> wpipe \<Rightarrow> wos \<Rightarrow> (bool \<times> wpipe \<times> wos) outcome" where
  "WPipe_DoConnect a ip port p w =
     (let p = p\<lparr>wp_pRecvEvent := formartIocpevent (Ctx_CPipe a) (wp_lSocketHandler p) SO_CONNECT (wp_pRecvEvent p)\<rparr>;
          p = p\<lparr>wp_oAddr := take 8 (sockaddr_in port (word_bytes 4 (inet_addr ip))) @ drop 8 (wp_oAddr p)\<rparr> in
      if inet_addr ip = - 1 then Inr (False, p, close_sock (wp_lSocketHandler p) w)
      else
        bindE (start_call (W_connect (wp_lSocketHandler p) (wp_oAddr p) (Recv_event a)) 0 (wp_lSocketHandler p)
                 (Recv_event a) Connecting w) (\<lambda>(ok, err, w).
        if \<not> ok then Inr (False, p, close_sock (wp_lSocketHandler p) w) else Inr (True, p, w)))"

definition WPipe_DoRecv :: "uaddr \<Rightarrow> wpipe \<Rightarrow> wos \<Rightarrow> (bool \<times> wpipe \<times> wos) outcome" where
  "WPipe_DoRecv a p w =
     bindE (TASSERT (wp_nStatus p \<noteq> SS_UNINITIALIZE) ''WTF'') (\<lambda>_.
     let p = p\<lparr>wp_pRecvEvent := formartIocpevent (Ctx_CPipe a) (wp_lSocketHandler p) SO_TCPRECV (wp_pRecvEvent p)\<rparr> in
     if wp_nStatus p = SS_ESTABLISHED then
       bindE (TASSERT (wp_lSocketHandler p \<noteq> 0) ''r u joking me'') (\<lambda>_.
       bindE (start_call (W_recv (wp_lSocketHandler p) (Recv_event a)) SOCKET_ERROR (wp_lSocketHandler p)
                (Recv_event a) (Receiving (nat (ev_wlen (wp_pRecvEvent p)))) w) (\<lambda>(ok, err, w).
       if \<not> ok then Inr (False, p\<lparr>wp_pRecvEvent := (wp_pRecvEvent p)\<lparr>ev_code := err\<rparr>\<rparr>, w)
       else Inr (True, p, w)))
     else if wp_bNeedPostOPT p then Inr (False, p, w)
     else Inr (True, p, w))"

text \<open>A null completion port is no port: posting to it fails.\<close>

definition post_to :: "handle option \<Rightarrow> s64 \<Rightarrow> event_ref \<Rightarrow> wos \<Rightarrow> (bool \<times> wos) outcome" where
  "post_to port key e w = (case port of None \<Rightarrow> Inr (False, w) | Some h \<Rightarrow> post h key e w)"

definition WPipe_Send :: "uaddr \<Rightarrow> byte list \<Rightarrow> s32 \<Rightarrow> wpipe \<Rightarrow> wos \<Rightarrow> (wpipe \<times> wos) outcome" where
  "WPipe_Send a pContext nSize p w =
     bindE (TStream_in BUFF_SIZE pContext nSize (wp_oSendStream p)) (\<lambda>s.
     let p = p\<lparr>wp_oSendStream := s\<rparr> in
     if wp_bNeedPostOPT p then
       let p = p\<lparr>wp_pSendEvent := formartIocpevent (Ctx_CPipe a) (wp_lSocketHandler p) SO_TCPSEND (wp_pSendEvent p)\<rparr> in
       bindE (post_to (wp_hCompletionPort p) (wp_lSocketHandler p) (Send_event a) w) (\<lambda>(res, w).
       bindE (TASSERT res ''post error , wtf'') (\<lambda>_.
       Inr (p\<lparr>wp_bNeedPostOPT := False\<rparr>, w)))
     else Inr (p, w))"

definition WPipe_In :: "byte list \<Rightarrow> s32 \<Rightarrow> wpipe \<Rightarrow> wpipe outcome" where
  "WPipe_In pContext nSize p =
     bindE (TStream_in BUFF_SIZE pContext nSize (wp_oRecvStream p)) (\<lambda>s. Inr (p\<lparr>wp_oRecvStream := s\<rparr>))"

text \<open>
  \<open>sLen\<close> is the configured size of a send. The length of the buffer is unsigned; the system reads
  that many bytes.
\<close>

definition WPipe_Out :: "s32 \<Rightarrow> uaddr \<Rightarrow> s32 \<Rightarrow> wpipe \<Rightarrow> wos \<Rightarrow> (bool \<times> wpipe \<times> wos) outcome" where
  "WPipe_Out sLen a nSize p w =
     bindE (TStream_out nSize (wp_oSendStream p)) (\<lambda>s.
     let p = p\<lparr>wp_oSendStream := s\<rparr> in
     if 0 = TStream_size s then
       Inr (SS_WAITCLOSE \<noteq> wp_nStatus p, p\<lparr>wp_bNeedPostOPT := True\<rparr>, w)
     else
       let e = formartIocpevent (Ctx_CPipe a) (wp_lSocketHandler p) SO_TCPSEND (wp_pSendEvent p);
           e = e\<lparr>ev_wbuf := Stream_buffer (m_max s) (nat (m_read s)),
                 ev_wlen := (if TStream_size s \<ge> sLen then sLen else TStream_size s) mod 2 ^ 32\<rparr>;
           p = p\<lparr>wp_pSendEvent := e\<rparr> in
       bindE (TASSERT (ev_wlen e \<noteq> 0) ''wtf'') (\<lambda>_.
       if length (TStream_buff s) < nat (ev_wlen e) then Inl OutOfBounds
       else
       bindE (start_call (W_send (wp_lSocketHandler p) (Send_event a)) SOCKET_ERROR (wp_lSocketHandler p)
                (Send_event a) (Sending (m_max s) (nat (m_read s)) (nat (ev_wlen e))
                  (take (nat (ev_wlen e)) (TStream_buff s))) w) (\<lambda>(ok, err, w).
       if \<not> ok then Inr (False, p\<lparr>wp_pSendEvent := (wp_pSendEvent p)\<lparr>ev_code := err\<rparr>\<rparr>, w)
       else Inr (True, p, w))))"

end
