(* ===== verification/Iocp_Worker.thy ===== *)
theory Iocp_Worker
  imports Iocp_Pipe
begin

text \<open>
  src/kernel/net/iocp/iocpworker.h and iocpworker.cpp: a worker of the Windows engine. Its thread
  (\<^verbatim>\<open>Run\<close>) takes completions from the worker's port, moves bytes between the system and the streams of
  the connections, starts the next operations and queues what the main thread must hear of;
  \<^verbatim>\<open>Processing\<close>, on the main thread, takes the queued events and calls the sessions, which are the
  parameter \<open>hosts\<close> of theory Net_Worker. The hash map from sockets to pipes is a map.

  \<^verbatim>\<open>CPipe::Send\<close> runs on the main thread while the worker handles completions; what both touch is
  guarded by the locks of the send stream, and each is a whole step. Which operation completes next,
  and how, is an argument of the worker's step.
\<close>

section \<open>State\<close>

record iworker =
  iw_nStatus :: thread_status
  iw_hCompletionPort :: "handle option"
  iw_mapSocketClient :: "s64 \<rightharpoonup> uaddr"
  iw_oEventQueue :: "ioevent tqueue"

record wnet =
  g_oCPipePool :: "wpipe tpool"
  wsession_pipe :: "host \<rightharpoonup> uaddr"
  iworkers :: "iworker list"
  wsys :: wos
  wclock_reads :: nat
  whistory :: "host_event list"

definition wpipe_at :: "wnet \<Rightarrow> uaddr \<Rightarrow> wpipe" where
  "wpipe_at st a = get_unit (g_oCPipePool st) a"

definition set_wpipe :: "uaddr \<Rightarrow> wpipe \<Rightarrow> wnet \<Rightarrow> wnet" where
  "set_wpipe a p st = st\<lparr>g_oCPipePool := put_unit a p (g_oCPipePool st)\<rparr>"

text \<open>Operations of one pipe, on the pipe at an address.\<close>

definition on_wpipe :: "uaddr \<Rightarrow> (wpipe \<Rightarrow> wos \<Rightarrow> (wpipe \<times> wos) outcome) \<Rightarrow> wnet \<Rightarrow> wnet outcome" where
  "on_wpipe a f st = bindE (f (wpipe_at st a) (wsys st)) (\<lambda>(p, w). Inr ((set_wpipe a p st)\<lparr>wsys := w\<rparr>))"

definition on_wpipe_ok ::
    "uaddr \<Rightarrow> (wpipe \<Rightarrow> wos \<Rightarrow> (bool \<times> wpipe \<times> wos) outcome) \<Rightarrow> wnet \<Rightarrow> (bool \<times> wnet) outcome" where
  "on_wpipe_ok a f st =
     bindE (f (wpipe_at st a) (wsys st)) (\<lambda>(ok, p, w). Inr (ok, (set_wpipe a p st)\<lparr>wsys := w\<rparr>))"

definition set_worker :: "nat \<Rightarrow> iworker \<Rightarrow> wnet \<Rightarrow> wnet" where
  "set_worker i wk st = st\<lparr>iworkers := (iworkers st)[i := wk]\<rparr>"

text \<open>The constructors leave the status as the memory was (\<open>st0\<close>).\<close>

definition iocpworker_new :: "thread_status \<Rightarrow> ioevent list \<Rightarrow> iworker" where
  "iocpworker_new st0 junk = \<lparr>iw_nStatus = st0, iw_hCompletionPort = None,
     iw_mapSocketClient = Map.empty, iw_oEventQueue = TQueue_new junk\<rparr>"

text \<open>\<^verbatim>\<open>CreateIoCompletionPort\<close> for a new port.\<close>

definition new_port :: "wos \<Rightarrow> (handle option \<times> wos) outcome" where
  "new_port w =
     bindE (wcall W_new_port w) (\<lambda>(r, w). Inr (if wa_ret r = 0 then None else Some (nat (wa_ret r)), w))"

definition iocpworker_Initialize :: "iworker \<Rightarrow> wos \<Rightarrow> (bool \<times> iworker \<times> wos) outcome" where
  "iocpworker_Initialize wk w =
     bindE (new_port w) (\<lambda>(port, w).
     let wk = wk\<lparr>iw_hCompletionPort := port\<rparr> in
     if port = None then bindE (TASSERT False ''CreateIoCompletionPort error'') (\<lambda>_. Inr (False, wk, w))
     else Inr (True, wk\<lparr>iw_nStatus := THREAD_STOPED\<rparr>, w))"

text \<open>
  \<^verbatim>\<open>CreateIoCompletionPort\<close> for a socket: the call succeeds when it answers the port. The key is the
  socket, converted to an unsigned long of 32 bits.
\<close>

definition add_port :: "s64 \<Rightarrow> handle option \<Rightarrow> wos \<Rightarrow> (bool \<times> wos) outcome" where
  "add_port s port w =
     (case port of
        None \<Rightarrow> Inr (False, w)
      | Some h \<Rightarrow>
          bindE (wcall (W_add_port s h) w) (\<lambda>(r, w).
          if wa_ret r \<noteq> int h then Inr (False, w)
          else Inr (True, w\<lparr>w_ports := (w_ports w)(s \<mapsto> (h, s mod 2 ^ 32))\<rparr>)))"

definition AddPIPE :: "nat \<Rightarrow> uaddr \<Rightarrow> wnet \<Rightarrow> (bool \<times> wnet) outcome" where
  "AddPIPE i a st =
     (let p = wpipe_at st a; port = iw_hCompletionPort (iworkers st ! i) in
      bindE (add_port (wp_lSocketHandler p) port (wsys st)) (\<lambda>(ok, w).
      if \<not> ok then
        let st = st\<lparr>wsys := close_sock (wp_lSocketHandler p) w\<rparr> in
        bindE (TASSERT False ''CreateIoCompletionPort error'') (\<lambda>_. Inr (False, st))
      else Inr (True, (set_wpipe a (p\<lparr>wp_hCompletionPort := port\<rparr>) st)\<lparr>wsys := w\<rparr>)))"

text \<open>\<^verbatim>\<open>sizeof(type_info)\<close> of the pipe pool.\<close>

abbreviation (input) wpipe_sz :: nat where "wpipe_sz \<equiv> 216"

section \<open>Sessions\<close>

fun do_whost_request :: "host_request \<Rightarrow> wnet \<Rightarrow> wnet outcome" where
  "do_whost_request (HostSend h bs) st =
     (case wsession_pipe st h of None \<Rightarrow> Inl NullPointer
      | Some a \<Rightarrow> on_wpipe a (WPipe_Send a bs (int (length bs))) st)"
| "do_whost_request (HostClose h) st =
     (case wsession_pipe st h of None \<Rightarrow> Inl NullPointer
      | Some a \<Rightarrow> Inr (set_wpipe a (WPipe_Close (wpipe_at st a)) st))"

fun do_whost_requests :: "host_request list \<Rightarrow> wnet \<Rightarrow> wnet outcome" where
  "do_whost_requests [] st = Inr st"
| "do_whost_requests (r # rs) st = bindE (do_whost_request r st) (do_whost_requests rs)"

definition wcall_host :: "hosts \<Rightarrow> host \<Rightarrow> host_event \<Rightarrow> wnet \<Rightarrow> wnet outcome" where
  "wcall_host hs h e st =
     (if h = 0 then Inl NullPointer
      else do_whost_requests (on_call hs (whistory st @ [e])) (st\<lparr>whistory := whistory st @ [e]\<rparr>))"

text \<open>\<^verbatim>\<open>m_pHost->m_pPipe = NULL\<close>.\<close>

definition wforget_pipe :: "host \<Rightarrow> wnet \<Rightarrow> wnet outcome" where
  "wforget_pipe h st = (if h = 0 then Inl NullPointer else Inr (st\<lparr>wsession_pipe := (wsession_pipe st)(h := None)\<rparr>))"

section \<open>The worker's map and its queue\<close>

definition CheckSocketClient :: "s64 \<Rightarrow> uaddr \<Rightarrow> iworker \<Rightarrow> bool" where
  "CheckSocketClient socket a wk = (iw_mapSocketClient wk socket = Some a)"

definition RelateSocketClient :: "s64 \<Rightarrow> uaddr \<Rightarrow> iworker \<Rightarrow> iworker outcome" where
  "RelateSocketClient socket a wk =
     bindE (TASSERT (iw_mapSocketClient wk socket = None) ''wtf'') (\<lambda>_.
     Inr (if iw_mapSocketClient wk socket = None
          then wk\<lparr>iw_mapSocketClient := (iw_mapSocketClient wk)(socket \<mapsto> a)\<rparr> else wk))"

text \<open>\<^verbatim>\<open>Add\<close> on a full queue waits for the main thread.\<close>

definition wqueue_event :: "nat \<Rightarrow> io_event_type \<Rightarrow> uaddr \<Rightarrow> wnet \<Rightarrow> wnet outcome" where
  "wqueue_event i ty a st =
     (case TQueue_Add \<lparr>io_type = ty, pCPipe = a\<rparr> (iw_oEventQueue (iworkers st ! i)) of
        None \<Rightarrow> Inl Diverges
      | Some q \<Rightarrow> Inr (set_worker i ((iworkers st ! i)\<lparr>iw_oEventQueue := q\<rparr>) st))"

definition SendDisconnectEvent :: "nat \<Rightarrow> s64 \<Rightarrow> uaddr \<Rightarrow> wnet \<Rightarrow> wnet outcome" where
  "SendDisconnectEvent i socket a st =
     (if iw_mapSocketClient (iworkers st ! i) socket = Some a then
        let p = wpipe_at st a; s = wp_lSocketHandler p;
            st = st\<lparr>wsys := close_sock s (wnote (W_setsockopt s 128) (wnote (W_shutdown s) (wsys st)))\<rparr>;
            st = set_wpipe a (p\<lparr>wp_lSocketHandler := INVALID_SOCKET\<rparr>) st in
        bindE (wqueue_event i IO_EVENT_TYPE_BREAK a st) (\<lambda>st.
        Inr (set_worker i ((iworkers st ! i)\<lparr>iw_mapSocketClient :=
               (iw_mapSocketClient (iworkers st ! i))(socket := None)\<rparr>) st))
      else Inr st)"

section \<open>The thread\<close>

text \<open>
  What \<^verbatim>\<open>GetQueuedCompletionStatus\<close> returns: nothing in 10 ms, or the completion of the \<open>k\<close>-th
  operation in flight; whether it succeeded, else its error; the bytes that were received, or how many
  bytes were sent, and whether the system read them when the send started or only now.
\<close>

datatype wait_status = Nothing_done | Completed nat bool s32 "byte list" nat bool

text \<open>
  An operation is taken from its own port only. A port is a queue: what was posted to it is there at
  once, so it is taken before everything that was posted or started later.
\<close>

definition take_done :: "handle option \<Rightarrow> nat \<Rightarrow> wos \<Rightarrow> ((s64 \<times> event_ref \<times> overlapped) \<times> wos) option" where
  "take_done port k w =
     (if k < length (in_flight w) \<and> Some (fst (in_flight w ! k)) = port \<and>
         list_all (\<lambda>(h, key, r, v). Some h = port \<longrightarrow> v \<noteq> Posted) (take k (in_flight w))
      then Some (snd (in_flight w ! k), w\<lparr>in_flight := take k (in_flight w) @ drop (Suc k) (in_flight w)\<rparr>)
      else None)"

text \<open>
  What the system did to memory by then, and the number of bytes it reports. A send that is read late
  from a buffer that the stream has given up is a read of freed memory.
\<close>

definition set_recv_bytes :: "uaddr \<Rightarrow> byte list \<Rightarrow> wnet \<Rightarrow> wnet" where
  "set_recv_bytes a bs st =
     (let p = wpipe_at st a; e = wp_pRecvEvent p in
      set_wpipe a (p\<lparr>wp_pRecvEvent := e\<lparr>ev_bytes := blit (ev_bytes e) 0 bs\<rparr>\<rparr>) st)"

definition send_memory :: "bool \<Rightarrow> s32 \<Rightarrow> nat \<Rightarrow> nat \<Rightarrow> byte list \<Rightarrow> tstream \<Rightarrow> byte list outcome" where
  "send_memory late mx off n bs s =
     (if \<not> late then Inr bs
      else if m_max s \<noteq> mx then Inl WildPointer
      else Inr (take n (drop off (m_pbuff s))))"

definition completed_bytes :: "nat \<Rightarrow> bool \<Rightarrow> overlapped \<Rightarrow> tstream \<Rightarrow> byte list outcome" where
  "completed_bytes m late v s =
     (case v of
        Sending mx off n bs \<Rightarrow> bindE (send_memory late mx off n bs s) (\<lambda>mem. Inr (take m mem))
      | _ \<Rightarrow> Inr [])"

fun perform_io :: "s64 \<Rightarrow> uaddr \<Rightarrow> overlapped \<Rightarrow> byte list \<Rightarrow> nat \<Rightarrow> bool \<Rightarrow> wnet \<Rightarrow> (nat \<times> wnet) outcome" where
  "perform_io key a (Receiving n) xs m late st =
     (let bs = take n xs in
      Inr (length bs, (set_recv_bytes a bs st)\<lparr>wsys := wnote (W_received key bs) (wsys st)\<rparr>))"
| "perform_io key a (Sending mx off n bs) xs m late st =
     bindE (completed_bytes m late (Sending mx off n bs) (wp_oSendStream (wpipe_at st a))) (\<lambda>bs.
     Inr (length bs, st\<lparr>wsys := wnote (W_sent key bs) (wsys st)\<rparr>))"
| "perform_io key a v xs m late st = Inr (0, st)"

text \<open>The event of a pipe. Completions of listening sockets go to another port.\<close>

definition event_of :: "event_ref \<Rightarrow> wpipe \<Rightarrow> iocp_event" where
  "event_of r p = (case r of Send_event a \<Rightarrow> wp_pSendEvent p | _ \<Rightarrow> wp_pRecvEvent p)"

definition set_event :: "event_ref \<Rightarrow> iocp_event \<Rightarrow> wpipe \<Rightarrow> wpipe" where
  "set_event r e p =
     (case r of Send_event a \<Rightarrow> p\<lparr>wp_pSendEvent := e\<rparr> | _ \<Rightarrow> p\<lparr>wp_pRecvEvent := e\<rparr>)"

text \<open>
  The cases of the \<^verbatim>\<open>switch\<close>; \<open>key\<close> is \<^verbatim>\<open>socket_handler\<close>, \<open>r\<close> the event that completed, \<open>a\<close> the pipe
  in its context, \<open>n\<close> the number of bytes and \<open>code\<close> the error.
\<close>

definition case_connect :: "nat \<Rightarrow> s32 \<Rightarrow> uaddr \<Rightarrow> wnet \<Rightarrow> wnet outcome" where
  "case_connect i code a st =
     wqueue_event i (if 0 = code then IO_EVENT_TYPE_CONNECTED else IO_EVENT_TYPE_CONNECTFAILD) a st"

definition case_accept :: "nat \<Rightarrow> s64 \<Rightarrow> uaddr \<Rightarrow> wnet \<Rightarrow> wnet outcome" where
  "case_accept i key a st =
     bindE (TASSERT (wp_nStatus (wpipe_at st a) \<noteq> SS_UNINITIALIZE) ''wtf'') (\<lambda>_.
     bindE (RelateSocketClient (wp_lSocketHandler (wpipe_at st a)) a (iworkers st ! i)) (\<lambda>wk.
     let st = set_worker i wk st in
     if SS_ESTABLISHED = wp_nStatus (wpipe_at st a) then
       bindE (on_wpipe_ok a (WPipe_DoRecv a) st) (\<lambda>(ok, st). Inr st)
     else if wp_bNeedPostOPT (wpipe_at st a) then SendDisconnectEvent i key a st
     else Inr st))"

definition case_recv :: "nat \<Rightarrow> s64 \<Rightarrow> event_ref \<Rightarrow> uaddr \<Rightarrow> nat \<Rightarrow> s32 \<Rightarrow> wnet \<Rightarrow> wnet outcome" where
  "case_recv i key r a n code st =
     (if CheckSocketClient key a (iworkers st ! i) then
        bindE (TASSERT (\<not> (n > 0 \<and> code \<noteq> 0)) ''wtf'') (\<lambda>_.
        bindE (TASSERT (r = Recv_event a) ''wtf'') (\<lambda>_.
        if n > 0 \<and> code = 0 then
          bindE (WPipe_In (ev_bytes (wp_pRecvEvent (wpipe_at st a))) (int n) (wpipe_at st a)) (\<lambda>p.
          bindE (on_wpipe_ok a (WPipe_DoRecv a) (set_wpipe a p st)) (\<lambda>(ok, st).
          if \<not> ok then SendDisconnectEvent i key a st
          else wqueue_event i IO_EVENT_TYPE_RECV a st))
        else if n \<le> 0 \<or> code \<noteq> 0 then SendDisconnectEvent i key a st
        else Inr st))
      else Inr st)"

definition case_send :: "s32 \<Rightarrow> nat \<Rightarrow> s64 \<Rightarrow> event_ref \<Rightarrow> uaddr \<Rightarrow> nat \<Rightarrow> s32 \<Rightarrow> wnet \<Rightarrow> wnet outcome" where
  "case_send sLen i key r a n code st =
     (if CheckSocketClient key a (iworkers st ! i) then
        bindE (TASSERT (\<not> (n > 0 \<and> code \<noteq> 0)) ''wtf'') (\<lambda>_.
        bindE (TASSERT (r = Send_event a) ''wtf'') (\<lambda>_.
        if code = 0 then
          bindE (on_wpipe_ok a (WPipe_Out sLen a (int n)) st) (\<lambda>(ok, st).
          if \<not> ok then SendDisconnectEvent i key a st else Inr st)
        else Inr st))
      else Inr st)"

definition complete_op :: "s32 \<Rightarrow> nat \<Rightarrow> s64 \<Rightarrow> event_ref \<Rightarrow> nat \<Rightarrow> s32 \<Rightarrow> iocp_event \<Rightarrow> wnet \<Rightarrow> wnet outcome" where
  "complete_op sLen i key r n code e st =
     (case ev_context e of
        Ctx_none \<Rightarrow> Inl NullPointer
      | Ctx_SPipe j \<Rightarrow> Inl WildPointer
      | Ctx_CPipe a \<Rightarrow>
          (case ev_opt e of
             SO_CONNECT \<Rightarrow> case_connect i code a st
           | SO_ACCEPT \<Rightarrow> case_accept i key a st
           | SO_TCPRECV \<Rightarrow> case_recv i key r a n code st
           | SO_TCPSEND \<Rightarrow> case_send sLen i key r a n code st))"

abbreviation (input) WAIT_TIMEOUT :: s32 where "WAIT_TIMEOUT \<equiv> 258"

text \<open>What \<^verbatim>\<open>Run\<close> does with a completion: \<open>r\<close> is the event of pipe \<open>b\<close>.\<close>

definition handle_done :: "s32 \<Rightarrow> nat \<Rightarrow> s64 \<Rightarrow> event_ref \<Rightarrow> uaddr \<Rightarrow> bool \<Rightarrow> s32 \<Rightarrow> nat \<Rightarrow> wnet \<Rightarrow> wnet outcome" where
  "handle_done sLen i key r b nSucceed code nIOBytes st =
     (let e = (event_of r (wpipe_at st b))\<lparr>ev_code := code\<rparr>;
          st = set_wpipe b (set_event r e (wpipe_at st b)) st in
      if \<not> nSucceed \<and> WAIT_TIMEOUT = code then Inr st
      else complete_op sLen i key r nIOBytes code e st)"

definition event_pipe :: "event_ref \<Rightarrow> uaddr option" where
  "event_pipe r = (case r of Recv_event b \<Rightarrow> Some b | Send_event b \<Rightarrow> Some b | Accept_event j \<Rightarrow> None)"

text \<open>One turn of the loop. A posted completion always succeeds, without bytes.\<close>

definition Run_turn :: "s32 \<Rightarrow> nat \<Rightarrow> wait_status \<Rightarrow> wnet \<Rightarrow> wnet outcome" where
  "Run_turn sLen i ans st =
     (case ans of
        Nothing_done \<Rightarrow> Inr st
      | Completed k ok err xs m late \<Rightarrow>
          (case take_done (iw_hCompletionPort (iworkers st ! i)) k (wsys st) of
             None \<Rightarrow> Inr st
           | Some ((key, r, v), w) \<Rightarrow>
               (case event_pipe r of
                  None \<Rightarrow> Inl WildPointer
                | Some b \<Rightarrow>
                    bindE (perform_io key b v xs m late (st\<lparr>wsys := w\<rparr>)) (\<lambda>(nIOBytes, st).
                    handle_done sLen i key r b (ok \<or> v = Posted) (if ok \<or> v = Posted then 0 else err) nIOBytes st))))"

fun iocpworker_Run_loop :: "s32 \<Rightarrow> nat \<Rightarrow> wait_status list \<Rightarrow> wnet \<Rightarrow> wnet outcome" where
  "iocpworker_Run_loop sLen i ans st =
     (if iw_nStatus (iworkers st ! i) = THREAD_STOPPING then
        Inr (set_worker i ((iworkers st ! i)\<lparr>iw_nStatus := THREAD_STOPED\<rparr>) st)
      else case ans of
        [] \<Rightarrow> Inl Diverges
      | an # ans' \<Rightarrow> bindE (Run_turn sLen i an st) (iocpworker_Run_loop sLen i ans'))"

definition iocpworker_Run :: "s32 \<Rightarrow> nat \<Rightarrow> wait_status list \<Rightarrow> wnet \<Rightarrow> wnet outcome" where
  "iocpworker_Run sLen i ans st =
     iocpworker_Run_loop sLen i ans (set_worker i ((iworkers st ! i)\<lparr>iw_nStatus := THREAD_WORKING\<rparr>) st)"

text \<open>\<open>seen\<close>: the values of the status that the main thread reads while it waits.\<close>

definition iocpworker_Terminate :: "thread_status list \<Rightarrow> iworker \<Rightarrow> iworker outcome" where
  "iocpworker_Terminate seen wk =
     (if THREAD_WORKING = iw_nStatus wk then
        bindE (wait_stopped seen) (\<lambda>_. Inr (wk\<lparr>iw_nStatus := THREAD_STOPED\<rparr>))
      else Inr wk)"

section \<open>The main thread\<close>

definition wread_clock :: "(nat \<Rightarrow> int) \<Rightarrow> wnet \<Rightarrow> s64 \<times> wnet" where
  "wread_clock gettime st = (to_s64 (gettime (wclock_reads st)), st\<lparr>wclock_reads := Suc (wclock_reads st)\<rparr>)"

definition wRecover :: "uaddr \<Rightarrow> wnet \<Rightarrow> wnet outcome" where
  "wRecover a st =
     bindE (TPool_Recover wpipe_sz a (g_oCPipePool st)) (\<lambda>pool. Inr (st\<lparr>g_oCPipePool := pool\<rparr>))"

text \<open>The four events. Another type falls through the \<^verbatim>\<open>switch\<close>.\<close>

definition event_recv :: "hosts \<Rightarrow> uaddr \<Rightarrow> wnet \<Rightarrow> wnet outcome" where
  "event_recv hs a st =
     (let p = wpipe_at st a; h = wp_pHost p; e = OnRecv h (pending (wp_oRecvStream p)) in
      if 0 \<noteq> TStream_size (wp_oRecvStream p) then
        let nUse = on_recv hs (whistory st @ [e]) in
        bindE (wcall_host hs h e st) (\<lambda>st.
        if nUse > 0 then
          bindE (TStream_out nUse (wp_oRecvStream (wpipe_at st a))) (\<lambda>s.
          Inr (set_wpipe a ((wpipe_at st a)\<lparr>wp_oRecvStream := s\<rparr>) st))
        else Inr st)
      else Inr st)"

definition event_break :: "hosts \<Rightarrow> uaddr \<Rightarrow> wnet \<Rightarrow> wnet outcome" where
  "event_break hs a st =
     bindE (TASSERT (SS_UNINITIALIZE \<noteq> wp_nStatus (wpipe_at st a)) ''check status modify'') (\<lambda>_.
     let st = set_wpipe a ((wpipe_at st a)\<lparr>wp_nStatus := SS_UNINITIALIZE\<rparr>) st;
         h = wp_pHost (wpipe_at st a) in
     bindE (wforget_pipe h st) (\<lambda>st.
     bindE (wcall_host hs h (OnDisconnect h) st) (wRecover a)))"

text \<open>What follows the establishment of a connection, made or accepted.\<close>

definition post_accepted :: "uaddr \<Rightarrow> wnet \<Rightarrow> wnet outcome" where
  "post_accepted a st =
     on_wpipe a (\<lambda>p w.
       let p = p\<lparr>wp_nStatus := SS_ESTABLISHED\<rparr>;
           p = p\<lparr>wp_pRecvEvent := formartIocpevent (Ctx_CPipe a) (wp_lSocketHandler p) SO_ACCEPT (wp_pRecvEvent p)\<rparr> in
       bindE (post_to (wp_hCompletionPort p) (wp_lSocketHandler p) (Recv_event a) w) (\<lambda>(res, w).
       bindE (TASSERT res ''PostQueuedCompletionStatus error'') (\<lambda>_. Inr (p, w)))) st"

definition event_connected :: "hosts \<Rightarrow> uaddr \<Rightarrow> wnet \<Rightarrow> wnet outcome" where
  "event_connected hs a st =
     bindE (post_accepted a st) (\<lambda>st.
     let h = wp_pHost (wpipe_at st a) in wcall_host hs h (OnConnected h) st)"

definition event_connectfaild :: "hosts \<Rightarrow> uaddr \<Rightarrow> wnet \<Rightarrow> wnet outcome" where
  "event_connectfaild hs a st =
     (let st = set_wpipe a ((wpipe_at st a)\<lparr>wp_nStatus := SS_UNINITIALIZE\<rparr>) st;
          h = wp_pHost (wpipe_at st a) in
      bindE (wcall_host hs h (OnConnectFailed h) st) (wRecover a))"

definition wdeal_ioevent :: "hosts \<Rightarrow> ioevent \<Rightarrow> wnet \<Rightarrow> wnet outcome" where
  "wdeal_ioevent hs e st =
     (case io_type e of
        IO_EVENT_TYPE_RECV \<Rightarrow> event_recv hs (pCPipe e) st
      | IO_EVENT_TYPE_BREAK \<Rightarrow> event_break hs (pCPipe e) st
      | IO_EVENT_TYPE_CONNECTED \<Rightarrow> event_connected hs (pCPipe e) st
      | IO_EVENT_TYPE_CONNECTFAILD \<Rightarrow> event_connectfaild hs (pCPipe e) st
      | _ \<Rightarrow> Inr st)"

definition wread_queue :: "nat \<Rightarrow> wnet \<Rightarrow> (ioevent \<times> wnet) option" where
  "wread_queue i st =
     (case TQueue_Read (iw_oEventQueue (iworkers st ! i)) of
        None \<Rightarrow> None
      | Some (e, q) \<Rightarrow> Some (e, set_worker i ((iworkers st ! i)\<lparr>iw_oEventQueue := q\<rparr>) st))"

text \<open>\<open>n\<close> bounds the turns of the loop.\<close>

fun wProcessing_loop :: "nat \<Rightarrow> (nat \<Rightarrow> int) \<Rightarrow> hosts \<Rightarrow> nat \<Rightarrow> s64 \<Rightarrow> s64 \<Rightarrow> wnet \<Rightarrow> (s64 \<times> wnet) outcome" where
  "wProcessing_loop 0 gettime hs i overtime lTick st = Inl Diverges"
| "wProcessing_loop (Suc n) gettime hs i overtime lTick st =
     (let finish = (\<lambda>st.
            let (now, st) = wread_clock gettime st in
            bindE (chk_s64 (now - lTick)) (\<lambda>lDoneTick.
            if lDoneTick \<ge> overtime then bindE (chk_s64 (overtime - lDoneTick)) (\<lambda>r. Inr (r, st))
            else wProcessing_loop n gettime hs i overtime lTick st)) in
      case wread_queue i st of
        Some (e, st) \<Rightarrow> bindE (wdeal_ioevent hs e st) finish
      | None \<Rightarrow>
          if TQueue_IsEmpty (iw_oEventQueue (iworkers st ! i)) then
            let (now, st) = wread_clock gettime st in bindE (chk_s64 (now - lTick)) (\<lambda>r. Inr (r, st))
          else finish st)"

definition iocpworker_Processing ::
    "nat \<Rightarrow> (nat \<Rightarrow> int) \<Rightarrow> hosts \<Rightarrow> nat \<Rightarrow> s64 \<Rightarrow> wnet \<Rightarrow> (s64 \<times> wnet) outcome" where
  "iocpworker_Processing n gettime hs i overtime st =
     (let (lTick, st) = wread_clock gettime st in wProcessing_loop n gettime hs i overtime lTick st)"

end
