(* ===== verification/Iocper.thy ===== *)
theory Iocper
  imports Iocp_Worker
begin

text \<open>
  src/kernel/net/iocp/iocper.h, iocper.cpp, SPipe.h and SPipe.cpp: listening sockets, connections
  made and accepted, start, turn and end of the Windows engine. All of it runs on the main thread.
  Configuration values (\<open>sNetThdCount\<close>, \<open>sNetRecvSize\<close>) are arguments.
\<close>

section \<open>State\<close>

text \<open>A listening pipe; its event is not released with it.\<close>

record wspipe =
  wsp_nStatus :: eSocketStatus
  wsp_lSocketHandler :: s64
  wsp_oAddr :: "byte list"
  wsp_hCompletionPort :: "handle option"
  wsp_pAcceptEvent :: iocp_event
  wsp_pHost :: host
  wsp_deleted :: bool

record wengine =
  wi_net :: wnet
  wi_hCompletionPortAC :: "handle option"
  wi_nWorkerCount :: s32
  wi_index :: s32
  wspipes :: "wspipe list"
  wserver_pipe :: "host \<rightharpoonup> nat"

text \<open>The constructor leaves port and host as the memory was.\<close>

definition WSPipe_new :: "handle option \<Rightarrow> host \<Rightarrow> wspipe outcome" where
  "WSPipe_new junk_port junk_host =
     bindE (event_new 256) (\<lambda>e.
     Inr \<lparr>wsp_nStatus = SS_UNINITIALIZE, wsp_lSocketHandler = INVALID_SOCKET, wsp_oAddr = replicate 16 0,
          wsp_hCompletionPort = junk_port, wsp_pAcceptEvent = e, wsp_pHost = junk_host, wsp_deleted = False\<rparr>)"

definition WSPipe_Send :: "byte list \<Rightarrow> s32 \<Rightarrow> wspipe \<Rightarrow> wspipe outcome" where
  "WSPipe_Send pContext nSize p = bindE (TASSERT False ''server pipe can send nothing.'') (\<lambda>_. Inr p)"

definition set_wspipe :: "nat \<Rightarrow> wspipe \<Rightarrow> wengine \<Rightarrow> wengine" where
  "set_wspipe j p e = e\<lparr>wspipes := (wspipes e)[j := p]\<rparr>"

definition on_wnet :: "(wnet \<Rightarrow> wnet outcome) \<Rightarrow> wengine \<Rightarrow> wengine outcome" where
  "on_wnet f e = bindE (f (wi_net e)) (\<lambda>st. Inr (e\<lparr>wi_net := st\<rparr>))"

text \<open>A system call of the engine.\<close>

definition on_wos :: "(wos \<Rightarrow> ('a \<times> wos) outcome) \<Rightarrow> wengine \<Rightarrow> ('a \<times> wengine) outcome" where
  "on_wos f e =
     bindE (f (wsys (wi_net e))) (\<lambda>(x, w). Inr (x, e\<lparr>wi_net := (wi_net e)\<lparr>wsys := w\<rparr>\<rparr>))"

definition wi_close :: "s64 \<Rightarrow> wengine \<Rightarrow> wengine" where
  "wi_close s e = e\<lparr>wi_net := (wi_net e)\<lparr>wsys := close_sock s (wsys (wi_net e))\<rparr>\<rparr>"

definition WSPipe_DoAccept :: "nat \<Rightarrow> wengine \<Rightarrow> (bool \<times> wengine) outcome" where
  "WSPipe_DoAccept j e =
     (let p = wspipes e ! j;
          ev = formartIocpevent (Ctx_SPipe j) INVALID_SOCKET SO_ACCEPT (wsp_pAcceptEvent p) in
      bindE (on_wos (wcall W_socket) e) (\<lambda>(r, e).
      let e = set_wspipe j (p\<lparr>wsp_pAcceptEvent := ev\<lparr>ev_socket := wa_ret r\<rparr>\<rparr>) e in
      if INVALID_SOCKET = wa_ret r then Inr (False, wi_close (wsp_lSocketHandler p) e)
      else
        bindE (on_wos (\<lambda>w. bindE (start_call (W_accept (wsp_lSocketHandler p) (wa_ret r) (Accept_event j)) 0
            (wsp_lSocketHandler p) (Accept_event j) Accepting w) (\<lambda>(ok, err, w). Inr (ok, w))) e) (\<lambda>(ok, e).
        if \<not> ok then
          let e = wi_close (wsp_lSocketHandler p) e in
          bindE (TASSERT False ''AcceptEx error'') (\<lambda>_. Inr (True, e))
        else Inr (True, e))))"

section \<open>Start\<close>

text \<open>
  \<^verbatim>\<open>GetAcceptExFun\<close> and \<^verbatim>\<open>GetConnectExFun\<close>: a socket, which is never closed, asks for the address of
  the function.
\<close>

definition GetAcceptExFun :: "wengine \<Rightarrow> (s64 \<times> wengine) outcome" where
  "GetAcceptExFun e =
     bindE (on_wos (wcall W_socket) e) (\<lambda>(r, e).
     bindE (on_wos (wcall (W_get_function ''AcceptEx'')) e) (\<lambda>(r, e).
     bindE (TASSERT (wa_ret r \<noteq> 0) ''Get AcceptEx fun error, error code'') (\<lambda>_. Inr (wa_ret r, e))))"

definition GetConnectExFun :: "wengine \<Rightarrow> (s64 \<times> wengine) outcome" where
  "GetConnectExFun e =
     bindE (on_wos (wcall W_socket) e) (\<lambda>(r, e).
     bindE (on_wos (wcall (W_get_function ''ConnectEx'')) e) (\<lambda>(r, e).
     bindE (TASSERT (wa_ret r \<noteq> 0) ''Get ConnectEx fun error, error code'') (\<lambda>_. Inr (wa_ret r, e))))"

definition iocper_new :: "wnet \<Rightarrow> handle option \<Rightarrow> wengine" where
  "iocper_new st junk_port = \<lparr>wi_net = st, wi_hCompletionPortAC = junk_port, wi_nWorkerCount = 0, wi_index = 0,
     wspipes = [], wserver_pipe = Map.empty\<rparr>"

text \<open>The ports of \<^verbatim>\<open>m_pCompletionPortAry\<close>, which nothing uses: \<open>n\<close> new ports.\<close>

fun unused_ports :: "nat \<Rightarrow> wengine \<Rightarrow> (bool \<times> wengine) outcome" where
  "unused_ports 0 e = Inr (True, e)"
| "unused_ports (Suc n) e =
     bindE (on_wos new_port e) (\<lambda>(port, e).
     if port = None then bindE (TASSERT False ''CreateIoCompletionPort error'') (\<lambda>_. Inr (False, e))
     else unused_ports n e)"

fun start_iworkers :: "nat list \<Rightarrow> wengine \<Rightarrow> wengine outcome" where
  "start_iworkers [] e = Inr e"
| "start_iworkers (i # js) e =
     bindE (iocpworker_Initialize (iworkers (wi_net e) ! i) (wsys (wi_net e))) (\<lambda>(ok, wk, w).
     let e = e\<lparr>wi_net := (set_worker i wk (wi_net e))\<lparr>wsys := w\<rparr>\<rparr> in
     bindE (TASSERT ok ''wtf'') (\<lambda>_. start_iworkers js e))"

definition iocper_Initialize ::
    "s32 \<Rightarrow> thread_status \<Rightarrow> ioevent list \<Rightarrow> wengine \<Rightarrow> (bool \<times> wengine) outcome" where
  "iocper_Initialize sNetThdCount st0 junk e =
     (let e = e\<lparr>wi_nWorkerCount := sNetThdCount\<rparr> in
      bindE (GetAcceptExFun e) (\<lambda>(f, e).
      if f = 0 then bindE (TASSERT False ''GetAcceptExFun error'') (\<lambda>_. Inr (False, e)) else
      bindE (GetConnectExFun e) (\<lambda>(f, e).
      if f = 0 then bindE (TASSERT False ''GetConnectExFun error'') (\<lambda>_. Inr (False, e)) else
      bindE (on_wos new_port e) (\<lambda>(port, e).
      let e = e\<lparr>wi_hCompletionPortAC := port\<rparr> in
      if port = None then bindE (TASSERT False ''CreateIoCompletionPort error'') (\<lambda>_. Inr (False, e)) else
      if wi_nWorkerCount e < 0 then Inl OutOfBounds
      else
        let n = nat (wi_nWorkerCount e) in
        bindE (unused_ports n e) (\<lambda>(ok, e).
        if \<not> ok then Inr (False, e)
        else
          let e = e\<lparr>wi_net := (wi_net e)\<lparr>iworkers := replicate n (iocpworker_new st0 junk)\<rparr>\<rparr> in
          bindE (start_iworkers [0..<n] e) (\<lambda>e. Inr (True, e)))))))"

section \<open>Connections\<close>

text \<open>\<open>sNetThdCount\<close> is at least 1 and the counter has not overflowed, or the program goes wrong here.\<close>

definition BalancingWork :: "s32 \<Rightarrow> wengine \<Rightarrow> (nat \<times> wengine) outcome" where
  "BalancingWork sNetThdCount e =
     bindE (chk_s32 (wi_index e + 1)) (\<lambda>next_index.
     if sNetThdCount = 0 then Inl DivByZero
     else
       let i = wi_index e smod sNetThdCount; e = e\<lparr>wi_index := next_index\<rparr> in
       if 0 \<le> i \<and> nat i < length (iworkers (wi_net e)) then Inr (nat i, e) else Inl OutOfBounds)"

text \<open>\<open>fresh\<close> is a pipe as the constructor makes it; the pool makes 64 at a time.\<close>

definition create_wpipe :: "s32 \<Rightarrow> wengine \<Rightarrow> (uaddr option \<times> wengine) outcome" where
  "create_wpipe sNetRecvSize e =
     bindE (WPipe_new sNetRecvSize) (\<lambda>fresh.
     bindE (TPool_Create wpipe_sz fresh 64 (g_oCPipePool (wi_net e))) (\<lambda>(p, pool).
     Inr (p, e\<lparr>wi_net := (wi_net e)\<lparr>g_oCPipePool := pool\<rparr>\<rparr>)))"

definition local_address :: "byte list" where
  "local_address = word_bytes 2 (2 :: 16 word) @ replicate 14 0"

text \<open>The chain of \<^verbatim>\<open>||\<close> in \<^verbatim>\<open>AddClient\<close>: whether a call failed, and the socket.\<close>

definition open_wclient :: "wengine \<Rightarrow> (bool \<times> s64 \<times> wengine) outcome" where
  "open_wclient e =
     bindE (on_wos (wcall W_socket) e) (\<lambda>(r, e). let s = wa_ret r in
     if INVALID_SOCKET = s then Inr (True, s, e) else
     bindE (on_wos (wcall (W_bind s local_address)) e) (\<lambda>(r, e).
     if SOCKET_ERROR = wa_ret r then Inr (True, s, e) else
     bindE (on_wos (wcall (W_ioctl s)) e) (\<lambda>(r, e).
     Inr (SOCKET_ERROR = wa_ret r, s, e))))"

definition connect_failed :: "hosts \<Rightarrow> host \<Rightarrow> uaddr \<Rightarrow> wengine \<Rightarrow> wengine outcome" where
  "connect_failed hs client a e =
     bindE (on_wnet (wcall_host hs client (OnConnectFailed client)) e) (\<lambda>e. on_wnet (wRecover a) e)"

definition iocper_AddClient ::
    "s32 \<Rightarrow> s32 \<Rightarrow> hosts \<Rightarrow> host \<Rightarrow> string \<Rightarrow> s32 \<Rightarrow> wengine \<Rightarrow> (bool \<times> wengine) outcome" where
  "iocper_AddClient sNetThdCount sNetRecvSize hs client ip port e =
     bindE (create_wpipe sNetRecvSize e) (\<lambda>(p, e).
     case p of None \<Rightarrow> Inl NullPointer
     | Some a \<Rightarrow>
       let e = e\<lparr>wi_net := set_wpipe a ((wpipe_at (wi_net e) a)\<lparr>wp_oAddr := local_address\<rparr>) (wi_net e)\<rparr> in
       bindE (open_wclient e) (\<lambda>(failed, s, e).
       if failed then
         bindE (TASSERT False ''AddClient error'') (\<lambda>_.
         bindE (on_wnet (wcall_host hs client (OnConnectFailed client)) e) (\<lambda>e.
         bindE (on_wnet (wRecover a) (wi_close s e)) (\<lambda>e. Inr (False, e))))
       else
         let e = e\<lparr>wi_net := set_wpipe a ((wpipe_at (wi_net e) a)\<lparr>wp_lSocketHandler := s, wp_pHost := client\<rparr>) (wi_net e)\<rparr> in
         bindE (BalancingWork sNetThdCount e) (\<lambda>(i, e).
         bindE (AddPIPE i a (wi_net e)) (\<lambda>(added, st).
         bindE (if added then on_wpipe_ok a (WPipe_DoConnect a ip port) st else Inr (False, st)) (\<lambda>(ok, st).
         let e = e\<lparr>wi_net := st\<rparr> in
         if ok then
           if client = 0 then Inl NullPointer
           else Inr (True, e\<lparr>wi_net := (wi_net e)\<lparr>wsession_pipe := (wsession_pipe (wi_net e))(client \<mapsto> a)\<rparr>\<rparr>)
         else bindE (connect_failed hs client a e) (\<lambda>e. Inr (False, e)))))))"

section \<open>Servers\<close>

definition open_wserver :: "wengine \<Rightarrow> (bool \<times> s64 \<times> wengine) outcome" where
  "open_wserver e =
     bindE (on_wos (wcall W_socket) e) (\<lambda>(r, e). let s = wa_ret r in
     if INVALID_SOCKET = s then Inr (True, s, e) else
     bindE (on_wos (wcall (W_setsockopt s 0x1001)) e) (\<lambda>(r, e).
     if SOCKET_ERROR = wa_ret r then Inr (True, s, e) else
     bindE (on_wos (wcall (W_setsockopt s 0x1002)) e) (\<lambda>(r, e).
     Inr (SOCKET_ERROR = wa_ret r, s, e))))"

text \<open>The second chain: address, bind, listen, completion port.\<close>

definition listen_on :: "s64 \<Rightarrow> string \<Rightarrow> byte list \<Rightarrow> wengine \<Rightarrow> (bool \<times> wengine) outcome" where
  "listen_on s ip addr e =
     (if - 1 = inet_addr ip then Inr (True, e)
      else
        bindE (on_wos (wcall (W_bind s addr)) e) (\<lambda>(r, e).
        if SOCKET_ERROR = wa_ret r then Inr (True, e) else
        bindE (on_wos (wcall (W_listen s 2048)) e) (\<lambda>(r, e).
        if SOCKET_ERROR = wa_ret r then Inr (True, e) else
        bindE (on_wos (add_port s (wi_hCompletionPortAC e)) e) (\<lambda>(ok, e). Inr (\<not> ok, e)))))"

definition delete_wspipe :: "nat \<Rightarrow> wengine \<Rightarrow> wengine" where
  "delete_wspipe j e = set_wspipe j ((wspipes e ! j)\<lparr>wsp_deleted := True\<rparr>) e"

definition wserver_forget :: "host \<Rightarrow> wengine \<Rightarrow> wengine outcome" where
  "wserver_forget h e = (if h = 0 then Inl NullPointer else Inr (e\<lparr>wserver_pipe := (wserver_pipe e)(h := None)\<rparr>))"

definition iocper_AddServer :: "hosts \<Rightarrow> host \<Rightarrow> string \<Rightarrow> s32 \<Rightarrow> wengine \<Rightarrow> (bool \<times> wengine) outcome" where
  "iocper_AddServer hs pServer ip port e =
     bindE (open_wserver e) (\<lambda>(failed, s, e).
     if failed then bindE (TASSERT False ''socket error'') (\<lambda>_. Inr (False, e))
     else
       bindE (WSPipe_new None 0) (\<lambda>sp.
       let j = length (wspipes e);
           sp = sp\<lparr>wsp_oAddr := sockaddr_in port (word_bytes 4 (inet_addr ip))\<rparr>;
           e = e\<lparr>wspipes := wspipes e @ [sp]\<rparr> in
       bindE (listen_on s ip (wsp_oAddr sp) e) (\<lambda>(failed, e).
       if failed then
         let e = delete_wspipe j (wi_close s e) in
         bindE (TASSERT False ''addserver error'') (\<lambda>_. Inr (False, e))
       else
         let e = set_wspipe j ((wspipes e ! j)\<lparr>wsp_nStatus := SS_ESTABLISHED, wsp_lSocketHandler := s,
               wsp_hCompletionPort := wi_hCompletionPortAC e, wsp_pHost := pServer\<rparr>) e in
         if pServer = 0 then Inl NullPointer
         else
           let e = e\<lparr>wserver_pipe := (wserver_pipe e)(pServer \<mapsto> j)\<rparr> in
           bindE (WSPipe_DoAccept j e) (\<lambda>(ok, e).
           if \<not> ok then
             bindE (on_wnet (wcall_host hs pServer (ServerError pServer)) (delete_wspipe j e)) (\<lambda>e.
             bindE (wserver_forget pServer e) (\<lambda>e. Inr (False, e)))
           else Inr (True, e)))))"

section \<open>Accepting\<close>

text \<open>
  \<^verbatim>\<open>CompletedAccept\<close>. \<open>accept_connection\<close> is the branch in which the new socket is in order: \<open>s\<close> is
  that socket, \<open>a\<close> the pipe taken from the pool.
\<close>

definition accept_connection :: "s32 \<Rightarrow> hosts \<Rightarrow> host \<Rightarrow> s64 \<Rightarrow> uaddr \<Rightarrow> wengine \<Rightarrow> wengine outcome" where
  "accept_connection sNetThdCount hs pServer s a e =
     bindE (TASSERT (pServer \<noteq> 0) ''wtf'') (\<lambda>_.
     let pClient = on_malloc hs (whistory (wi_net e) @ [MallocConnection pServer]) in
     bindE (on_wnet (wcall_host hs pServer (MallocConnection pServer)) e) (\<lambda>e.
     bindE (TASSERT (pClient \<noteq> 0) ''MallocConnection return a NULL point'') (\<lambda>_.
     if pClient = 0 then on_wnet (wRecover a) (wi_close s e)
     else
       bindE (BalancingWork sNetThdCount e) (\<lambda>(i, e).
       let st = wi_net e;
           st = set_wpipe a ((wpipe_at st a)\<lparr>wp_pHost := pClient, wp_lSocketHandler := s\<rparr>) st;
           st = st\<lparr>wsession_pipe := (wsession_pipe st)(pClient \<mapsto> a)\<rparr> in
       bindE (AddPIPE i a st) (\<lambda>(added, st).
       if added then
         bindE (post_accepted a st) (\<lambda>st.
         bindE (wcall_host hs pClient (OnConnected pClient) st) (\<lambda>st. Inr (e\<lparr>wi_net := st\<rparr>)))
       else bindE (wcall_host hs pClient (OnConnectFailed pClient) st) (\<lambda>st. Inr (e\<lparr>wi_net := st\<rparr>)))))))"

definition new_socket_failed :: "s64 \<Rightarrow> s64 \<Rightarrow> wengine \<Rightarrow> (bool \<times> byte list \<times> wengine) outcome" where
  "new_socket_failed s listener e =
     bindE (on_wos (wcall (W_setsockopt s 0x700B)) e) (\<lambda>(r, e).
     if 0 \<noteq> wa_ret r then Inr (True, [], e)
     else
       bindE (on_wos (wcall (W_getpeername s)) e) (\<lambda>(r, e).
       Inr (SOCKET_ERROR = wa_ret r, wa_data r, e)))"

definition accept_next :: "hosts \<Rightarrow> nat \<Rightarrow> wengine \<Rightarrow> wengine outcome" where
  "accept_next hs j e =
     bindE (WSPipe_DoAccept j e) (\<lambda>(ok, e).
     if \<not> ok then
       let h = wsp_pHost (wspipes e ! j) in
       bindE (on_wnet (wcall_host hs h (ServerError h)) e) (\<lambda>e.
       bindE (wserver_forget h e) (\<lambda>e. Inr (delete_wspipe j e)))
     else Inr e)"

text \<open>From the creation of the pipe on; \<open>ev\<close> is the event of listener \<open>j\<close>.\<close>

definition take_connection :: "s32 \<Rightarrow> s32 \<Rightarrow> hosts \<Rightarrow> nat \<Rightarrow> iocp_event \<Rightarrow> wengine \<Rightarrow> wengine outcome" where
  "take_connection sNetThdCount sNetRecvSize hs j ev e =
     bindE (create_wpipe sNetRecvSize e) (\<lambda>(p, e).
     bindE (TASSERT (p \<noteq> None) ''wtf'') (\<lambda>_.
     let a = the p; s = ev_socket ev in
     bindE (new_socket_failed s (wsp_lSocketHandler (wspipes e ! j)) e) (\<lambda>(failed, remote, e).
     bindE (if failed then on_wnet (wRecover a) (wi_close s e)
            else
              let e = set_wspipe j ((wspipes e ! j)\<lparr>wsp_pAcceptEvent := ev\<lparr>ev_remote := remote\<rparr>\<rparr>) e in
              accept_connection sNetThdCount hs (wsp_pHost (wspipes e ! j)) s a e)
       (accept_next hs j))))"

definition CompletedAccept :: "s32 \<Rightarrow> s32 \<Rightarrow> hosts \<Rightarrow> wait_status \<Rightarrow> wengine \<Rightarrow> wengine outcome" where
  "CompletedAccept sNetThdCount sNetRecvSize hs ans e =
     (case ans of
        Nothing_done \<Rightarrow> Inr e
      | Completed k ok err xs m late \<Rightarrow>
          (case take_done (wi_hCompletionPortAC e) k (wsys (wi_net e)) of
             None \<Rightarrow> Inr e
           | Some ((key, r, v), w) \<Rightarrow>
               (case r of
                  Accept_event j \<Rightarrow>
                    let e = e\<lparr>wi_net := (wi_net e)\<lparr>wsys := w\<rparr>\<rparr>;
                        code = (if ok then 0 else err);
                        ev = (wsp_pAcceptEvent (wspipes e ! j))\<lparr>ev_code := code\<rparr>;
                        e = set_wspipe j ((wspipes e ! j)\<lparr>wsp_pAcceptEvent := ev\<rparr>) e in
                    bindE (TASSERT (SO_ACCEPT = ev_opt ev) ''wtf'') (\<lambda>_.
                    if \<not> ok \<and> WAIT_TIMEOUT = code then Inr e
                    else if wsp_deleted (wspipes e ! j) then Inl WildPointer
                    else take_connection sNetThdCount sNetRecvSize hs j ev e)
                | _ \<Rightarrow> Inl WildPointer)))"

section \<open>A turn, and the end\<close>

definition wengine_clock :: "(nat \<Rightarrow> int) \<Rightarrow> wengine \<Rightarrow> s64 \<times> wengine" where
  "wengine_clock gettime e = (let (t, st) = wread_clock gettime (wi_net e) in (t, e\<lparr>wi_net := st\<rparr>))"

fun process_iworkers :: "nat \<Rightarrow> (nat \<Rightarrow> int) \<Rightarrow> hosts \<Rightarrow> s64 \<Rightarrow> nat list \<Rightarrow> wnet \<Rightarrow> wnet outcome" where
  "process_iworkers n gettime hs share [] st = Inr st"
| "process_iworkers n gettime hs share (i # js) st =
     bindE (iocpworker_Processing n gettime hs i share st) (\<lambda>(_, st). process_iworkers n gettime hs share js st)"

definition iocper_Processing ::
    "s32 \<Rightarrow> s32 \<Rightarrow> nat \<Rightarrow> (nat \<Rightarrow> int) \<Rightarrow> hosts \<Rightarrow> wait_status \<Rightarrow> s64 \<Rightarrow> wengine \<Rightarrow> (s64 \<times> wengine) outcome" where
  "iocper_Processing sNetThdCount sNetRecvSize n gettime hs ans overtime e =
     (let (lTick, e) = wengine_clock gettime e in
      bindE (CompletedAccept sNetThdCount sNetRecvSize hs ans e) (\<lambda>e.
      bindE (div_s64 overtime 4) (\<lambda>share.
      bindE (on_wnet (process_iworkers n gettime hs share [0..<nat (wi_nWorkerCount e)]) e) (\<lambda>e.
      let (now, e) = wengine_clock gettime e in
      bindE (chk_s64 (now - lTick)) (\<lambda>lUse. Inr (lUse, e))))))"

fun terminate_iworkers :: "thread_status list list \<Rightarrow> nat list \<Rightarrow> wengine \<Rightarrow> wengine outcome" where
  "terminate_iworkers seen [] e = Inr e"
| "terminate_iworkers seen (i # js) e =
     bindE (iocpworker_Terminate (seen ! i) (iworkers (wi_net e) ! i)) (\<lambda>wk.
     terminate_iworkers seen js (e\<lparr>wi_net := set_worker i wk (wi_net e)\<rparr>))"

definition iocper_Destory :: "thread_status list list \<Rightarrow> wengine \<Rightarrow> (bool \<times> wengine) outcome" where
  "iocper_Destory seen e =
     bindE (terminate_iworkers seen [0..<nat (wi_nWorkerCount e)] e) (\<lambda>e.
     let st = (wi_net e)\<lparr>iworkers := []\<rparr>;
         st = (case wi_hCompletionPortAC e of None \<Rightarrow> st | Some h \<Rightarrow> st\<lparr>wsys := wnote (W_close_handle h) (wsys st)\<rparr>) in
     Inr (True, e\<lparr>wi_net := st\<rparr>))"

end
