(* ===== verification/Iocp_Spec.thy ===== *)
theory Iocp_Spec
  imports Iocper
begin

text \<open>
  What holds of the Windows engine under every schedule of its threads, answers of the system and
  calls of the modules.
\<close>

section \<open>Schedules\<close>

text \<open>
  The main thread may make connections, take one accepted connection, deal with one event of a
  worker or run a whole turn; a module may call its sessions at any time; and a worker may handle a
  completion between any two of these.
\<close>

record wsettings =
  set_sNetThdCount :: s32
  set_sNetSendSize :: s32
  set_sNetRecvSize :: s32

datatype wstep =
    Start_engine thread_status "ioevent list"
  | Worker_turn nat wait_status
  | Session_calls "host_request list"
  | Accept_one wait_status
  | Deal_one nat
  | Whole_turn nat wait_status s64
  | Make_client host string s32
  | Make_server host string s32

fun iocp_step :: "wsettings \<Rightarrow> (nat \<Rightarrow> int) \<Rightarrow> hosts \<Rightarrow> wstep \<Rightarrow> wengine \<Rightarrow> wengine outcome" where
  "iocp_step c gettime hs (Start_engine st0 junk) e =
     bindE (iocper_Initialize (set_sNetThdCount c) st0 junk e) (\<lambda>(ok, e). Inr e)"
| "iocp_step c gettime hs (Worker_turn i ans) e = on_wnet (Run_turn (set_sNetSendSize c) i ans) e"
| "iocp_step c gettime hs (Session_calls rs) e = on_wnet (do_whost_requests rs) e"
| "iocp_step c gettime hs (Accept_one ans) e = CompletedAccept (set_sNetThdCount c) (set_sNetRecvSize c) hs ans e"
| "iocp_step c gettime hs (Deal_one i) e =
     (case wread_queue i (wi_net e) of
        None \<Rightarrow> Inr e
      | Some (ev, st) \<Rightarrow> on_wnet (wdeal_ioevent hs ev) (e\<lparr>wi_net := st\<rparr>))"
| "iocp_step c gettime hs (Whole_turn n ans overtime) e =
     bindE (iocper_Processing (set_sNetThdCount c) (set_sNetRecvSize c) n gettime hs ans overtime e) (\<lambda>(t, e). Inr e)"
| "iocp_step c gettime hs (Make_client h ip port) e =
     bindE (iocper_AddClient (set_sNetThdCount c) (set_sNetRecvSize c) hs h ip port e) (\<lambda>(ok, e). Inr e)"
| "iocp_step c gettime hs (Make_server h ip port) e =
     bindE (iocper_AddServer hs h ip port e) (\<lambda>(ok, e). Inr e)"

abbreviation iocp_run :: "wsettings \<Rightarrow> (nat \<Rightarrow> int) \<Rightarrow> hosts \<Rightarrow> wstep list \<Rightarrow> wengine \<Rightarrow> wengine outcome" where
  "iocp_run c gettime hs \<equiv> runE (iocp_step c gettime hs)"

text \<open>Before the start: the pool of pipes is a static object, and nothing is in flight.\<close>

definition fresh_wnet :: "wpipe tpool \<Rightarrow> wanswer list \<Rightarrow> wnet" where
  "fresh_wnet pool answers = \<lparr>g_oCPipePool = pool, wsession_pipe = Map.empty, iworkers = [],
     wsys = \<lparr>w_answers = answers, w_calls = [], w_ports = Map.empty, in_flight = []\<rparr>, wclock_reads = 0, whistory = []\<rparr>"

section \<open>Who may send\<close>

text \<open>
  A pipe is idle (\<open>m_bNeedPostOPT\<close> set, no send in flight), busy (one send in flight), or mute:
  nothing in flight, and the flag says that something is.
\<close>

definition sends :: "wos \<Rightarrow> uaddr \<Rightarrow> nat" where
  "sends w a = length (filter (\<lambda>x. fst (snd (snd x)) = Send_event a) (in_flight w))"

definition mute :: "wnet \<Rightarrow> uaddr \<Rightarrow> bool" where
  "mute st a \<longleftrightarrow> \<not> wp_bNeedPostOPT (wpipe_at st a) \<and> sends (wsys st) a = 0"

definition valid_wpipe :: "wnet \<Rightarrow> uaddr \<Rightarrow> bool" where
  "valid_wpipe st a \<longleftrightarrow> valid_unit (g_oCPipePool st) a"

definition send_ok :: "wnet \<Rightarrow> bool" where
  "send_ok st \<longleftrightarrow> pool_inv wpipe_sz (g_oCPipePool st) \<and>
     (\<forall>h a. wsession_pipe st h = Some a \<longrightarrow> valid_wpipe st a) \<and>
     (\<forall>a. \<not> valid_wpipe st a \<longrightarrow> sends (wsys st) a = 0) \<and>
     (\<forall>a. valid_wpipe st a \<longrightarrow> sends (wsys st) a \<le> 1 \<and> (wp_bNeedPostOPT (wpipe_at st a) \<longrightarrow> sends (wsys st) a = 0))"

text \<open>From one state to a later one.\<close>

definition evolves :: "wnet \<Rightarrow> wnet \<Rightarrow> bool" where
  "evolves st st' \<longleftrightarrow> send_ok st' \<and>
     (\<forall>a. valid_wpipe st a \<longrightarrow> valid_wpipe st' a \<and> (mute st a \<longrightarrow> mute st' a))"

lemma evolves_refl: "send_ok st \<Longrightarrow> evolves st st"
  by (simp add: evolves_def)

lemma evolves_trans: "evolves st st' \<Longrightarrow> evolves st' st'' \<Longrightarrow> evolves st st''"
  by (simp add: evolves_def)

lemma evolves_ok: "evolves st st' \<Longrightarrow> send_ok st'"
  by (simp add: evolves_def)

subsection \<open>The parts of a state that do not matter\<close>

named_theorems wnet_simps \<open>what reading a part of the state gives after another part was written\<close>

lemma wnet_parts [wnet_simps]:
  "wpipe_at (st\<lparr>wsys := w\<rparr>) a = wpipe_at st a"
  "wpipe_at (st\<lparr>wsession_pipe := m\<rparr>) a = wpipe_at st a"
  "wpipe_at (st\<lparr>whistory := hist\<rparr>) a = wpipe_at st a"
  "wpipe_at (st\<lparr>wclock_reads := n\<rparr>) a = wpipe_at st a"
  "wpipe_at (st\<lparr>iworkers := ws\<rparr>) a = wpipe_at st a"
  "wpipe_at (set_worker i wk st) a = wpipe_at st a"
  "valid_wpipe (st\<lparr>wsys := w\<rparr>) a = valid_wpipe st a"
  "valid_wpipe (st\<lparr>wsession_pipe := m\<rparr>) a = valid_wpipe st a"
  "valid_wpipe (st\<lparr>whistory := hist\<rparr>) a = valid_wpipe st a"
  "valid_wpipe (st\<lparr>wclock_reads := n\<rparr>) a = valid_wpipe st a"
  "valid_wpipe (st\<lparr>iworkers := ws\<rparr>) a = valid_wpipe st a"
  "valid_wpipe (set_worker i wk st) a = valid_wpipe st a"
  "valid_wpipe (set_wpipe b p st) a = valid_wpipe st a"
  "wsys (set_worker i wk st) = wsys st"
  "wsys (set_wpipe b p st) = wsys st"
  "wsession_pipe (set_wpipe b p st) = wsession_pipe st"
  "wsession_pipe (set_worker i wk st) = wsession_pipe st"
  "g_oCPipePool (set_worker i wk st) = g_oCPipePool st"
  "iworkers (set_wpipe b p st) = iworkers st"
  by (simp_all add: wpipe_at_def valid_wpipe_def set_worker_def set_wpipe_def)

lemma evolves_parts [simp]:
  "evolves st (st'\<lparr>whistory := hist\<rparr>) = evolves st st'"
  "evolves st (st'\<lparr>wclock_reads := n\<rparr>) = evolves st st'"
  "evolves st (st'\<lparr>iworkers := ws\<rparr>) = evolves st st'"
  "evolves st (set_worker i wk st') = evolves st st'"
  by (simp_all add: evolves_def send_ok_def mute_def wnet_simps)

lemma put_unit_invalid:
  assumes "\<not> valid_unit p a"
  shows "put_unit a v p = p"
proof -
  have "(m_pUnitAry p)[blk a := (m_pUnitAry p ! blk a)[idx a := x]] = m_pUnitAry p" for x
    using assms by (cases "blk a < length (m_pUnitAry p)") (auto simp: valid_unit_def list_update_beyond)
  then show ?thesis by (simp add: put_unit_def set_unit_info_def)
qed

lemma set_wpipe_invalid: "\<not> valid_wpipe st a \<Longrightarrow> set_wpipe a p st = st"
  by (simp add: set_wpipe_def valid_wpipe_def put_unit_invalid)

lemma wpipe_at_set:
  "valid_wpipe st a \<Longrightarrow> wpipe_at (set_wpipe a p st) b = (if b = a then p else wpipe_at st b)"
  by (simp add: wpipe_at_def set_wpipe_def valid_wpipe_def get_unit_def put_unit_def)

lemma pool_inv_set: "send_ok st \<Longrightarrow> pool_inv wpipe_sz (g_oCPipePool (set_wpipe a p st))"
  by (cases "valid_wpipe st a")
    (simp_all add: set_wpipe_invalid send_ok_def, simp add: set_wpipe_def valid_wpipe_def put_unit_ok)

text \<open>Writing a pipe without touching the flag.\<close>

lemma set_wpipe_evolves:
  assumes "send_ok st" "wp_bNeedPostOPT p = wp_bNeedPostOPT (wpipe_at st a)"
  shows "evolves st (set_wpipe a p st)"
proof (cases "valid_wpipe st a")
  case True
  have "wp_bNeedPostOPT (wpipe_at (set_wpipe a p st) b) = wp_bNeedPostOPT (wpipe_at st b)" for b
    using True assms(2) by (simp add: wpipe_at_set)
  with assms(1) pool_inv_set [OF assms(1)] show ?thesis
    by (simp add: evolves_def send_ok_def mute_def wnet_simps)
next
  case False
  with assms(1) show ?thesis by (simp add: set_wpipe_invalid evolves_refl)
qed

text \<open>Steps of the system that start no send.\<close>

lemma sys_evolves:
  assumes "send_ok st" "\<And>a. sends w a \<le> sends (wsys st) a"
  shows "evolves st (st\<lparr>wsys := w\<rparr>)"
proof -
  have "sends (wsys st) a = 0 \<Longrightarrow> sends w a = 0" for a using assms(2) [of a] by simp
  moreover have "sends (wsys st) a \<le> 1 \<Longrightarrow> sends w a \<le> 1" for a using assms(2) [of a] by simp
  ultimately show ?thesis using assms(1) by (auto simp: evolves_def send_ok_def mute_def wnet_simps)
qed

lemma sends_parts [simp]:
  "sends (w\<lparr>w_answers := rs\<rparr>) a = sends w a"
  "sends (w\<lparr>w_calls := cs\<rparr>) a = sends w a"
  "sends (w\<lparr>w_ports := ps\<rparr>) a = sends w a"
  "sends (wnote c w) a = sends w a"
  "sends (close_sock s w) a = sends w a"
  by (simp_all add: sends_def wnote_def close_sock_def)

lemma sends_started [simp]:
  "sends (w\<lparr>in_flight := in_flight w @ [(port, key, e, v)]\<rparr>) a = sends w a + (if e = Send_event a then 1 else 0)"
  by (simp add: sends_def)

lemma wcall_sends [simp]: "wcall c w = Inr (r, v) \<Longrightarrow> sends v a = sends w a"
  by (auto simp: wcall_def sends_def split: list.splits)

lemma start_call_sends:
  assumes "start_call c fail s e v w = Inr (ok, err, w')"
  shows "sends w' a \<le> sends w a + (if ok \<and> e = Send_event a then 1 else 0)"
    "e \<noteq> Send_event a \<Longrightarrow> sends w' a = sends w a"
proof -
  from assms obtain r w1 where "wcall c w = Inr (r, w1)"
      "(ok, w') = (if wa_ret r = fail \<and> wa_err r \<noteq> IO_PENDING then (False, w1) else (True, start_io s e v w1))"
    by (auto simp: start_call_def outcome_simps split: if_splits)
  then show "sends w' a \<le> sends w a + (if ok \<and> e = Send_event a then 1 else 0)"
    "e \<noteq> Send_event a \<Longrightarrow> sends w' a = sends w a"
    by (auto simp: start_io_def split: if_splits option.splits)
qed

lemma post_sends:
  "post_to port key e w = Inr (ok, w') \<Longrightarrow> sends w' a = sends w a + (if ok \<and> e = Send_event a then 1 else 0)"
  by (auto simp: post_to_def post_def outcome_simps split: option.splits if_splits)

lemma other_started:
  "start_call c fail s (Recv_event b) v w = Inr (ok, err, w') \<Longrightarrow> sends w' = sends w"
  "start_call c fail s (Accept_event j) v w = Inr (ok, err, w') \<Longrightarrow> sends w' = sends w"
  "post_to port key (Recv_event b) w = Inr (ok, w') \<Longrightarrow> sends w' = sends w"
  using start_call_sends(2) post_sends by fastforce+

subsection \<open>Pipes\<close>

lemma other_evolves:
  assumes "send_ok st" "wp_bNeedPostOPT p = wp_bNeedPostOPT (wpipe_at st a)" "\<And>b. sends w b \<le> sends (wsys st) b"
  shows "evolves st ((set_wpipe a p st)\<lparr>wsys := w\<rparr>)"
  by (rule evolves_trans [OF set_wpipe_evolves [OF assms(1,2)] sys_evolves])
    (use assms in \<open>auto simp: wnet_simps dest: evolves_ok [OF set_wpipe_evolves]\<close>)

lemma sender_evolves:
  assumes "send_ok st" "valid_wpipe st a" "\<And>b. b \<noteq> a \<Longrightarrow> sends w b = sends (wsys st) b"
    "sends w a \<le> 1" "wp_bNeedPostOPT p \<longrightarrow> sends w a = 0"
  shows "send_ok ((set_wpipe a p st)\<lparr>wsys := w\<rparr>)"
    "(mute st a \<Longrightarrow> \<not> wp_bNeedPostOPT p \<and> sends w a = 0) \<Longrightarrow> evolves st ((set_wpipe a p st)\<lparr>wsys := w\<rparr>)"
    "valid_wpipe st b \<Longrightarrow> b \<noteq> a \<Longrightarrow> mute st b \<Longrightarrow> mute ((set_wpipe a p st)\<lparr>wsys := w\<rparr>) b"
proof -
  let ?st = "(set_wpipe a p st)\<lparr>wsys := w\<rparr>"
  have inv: "pool_inv wpipe_sz (g_oCPipePool ?st)" using pool_inv_set [OF assms(1)] by simp
  have at: "wpipe_at ?st c = (if c = a then p else wpipe_at st c)" for c
    using assms(2) by (simp add: wnet_simps wpipe_at_set)
  have s: "\<forall>c. c \<noteq> a \<longrightarrow> sends w c = sends (wsys st) c" using assms(3) by blast
  have "sends w c = 0" if "\<not> valid_wpipe ?st c" for c
  proof -
    from that assms(2) have "c \<noteq> a" "\<not> valid_wpipe st c" by (auto simp: wnet_simps)
    with s assms(1) show ?thesis by (simp add: send_ok_def)
  qed
  moreover have "sends w c \<le> 1 \<and> (wp_bNeedPostOPT (wpipe_at ?st c) \<longrightarrow> sends w c = 0)" if "valid_wpipe ?st c" for c
    using that s assms(1,4,5) by (cases "c = a") (auto simp: wpipe_at_set [OF assms(2)] send_ok_def wnet_simps)
  moreover have "valid_wpipe ?st c" if "wsession_pipe ?st h = Some c" for h c
    using that assms(1) by (auto simp: send_ok_def wnet_simps)
  ultimately show ok: "send_ok ?st" using inv by (simp add: send_ok_def)
  show other: "mute ?st b" if "valid_wpipe st b" "b \<noteq> a" "mute st b" for b
    using that s by (simp add: mute_def at)
  show "evolves st ?st" if "mute st a \<Longrightarrow> \<not> wp_bNeedPostOPT p \<and> sends w a = 0"
  proof -
    have "mute ?st c" if "valid_wpipe st c" "mute st c" for c
      using other [of c] that \<open>mute st a \<Longrightarrow> _\<close> by (cases "c = a") (auto simp: mute_def at)
    with ok show ?thesis by (simp add: evolves_def wnet_simps)
  qed
qed

lemma WPipe_Send_sends:
  assumes "WPipe_Send a bs n p w = Inr (q, v)"
  shows "if wp_bNeedPostOPT p then \<not> wp_bNeedPostOPT q \<and> sends v a = sends w a + 1 \<and> (\<forall>b. b \<noteq> a \<longrightarrow> sends v b = sends w b)
    else \<not> wp_bNeedPostOPT q \<and> v = w"
proof (cases "wp_bNeedPostOPT p")
  case True
  with assms obtain s where s: "TStream_in BUFF_SIZE bs n (wp_oSendStream p) = Inr s"
    by (auto simp: WPipe_Send_def outcome_simps)
  with assms True obtain res where r: "post_to (wp_hCompletionPort p) (wp_lSocketHandler p) (Send_event a) w = Inr (res, v)"
      "res" "\<not> wp_bNeedPostOPT q"
    by (auto simp: WPipe_Send_def outcome_simps Let_def)
  with True post_sends [OF r(1)] show ?thesis by auto
next
  case False
  with assms show ?thesis by (auto simp: WPipe_Send_def outcome_simps Let_def)
qed

lemma Send_evolves:
  assumes "on_wpipe a (WPipe_Send a bs n) st = Inr st'" "send_ok st" "valid_wpipe st a"
  shows "evolves st st'"
proof -
  from assms(1) obtain q v where run: "WPipe_Send a bs n (wpipe_at st a) (wsys st) = Inr (q, v)"
      and st': "st' = (set_wpipe a q st)\<lparr>wsys := v\<rparr>"
    by (auto simp: on_wpipe_def outcome_simps)
  note f = WPipe_Send_sends [OF run]
  have ok: "sends (wsys st) a \<le> 1" "wp_bNeedPostOPT (wpipe_at st a) \<longrightarrow> sends (wsys st) a = 0"
    using assms(2,3) by (simp_all add: send_ok_def)
  show ?thesis
    unfolding st'
    by (rule sender_evolves(2) [OF assms(2,3)]) (use f ok in \<open>auto simp: mute_def split: if_splits\<close>)
qed

lemma Close_evolves: "send_ok st \<Longrightarrow> evolves st (set_wpipe a (WPipe_Close (wpipe_at st a)) st)"
  by (rule set_wpipe_evolves) (simp_all add: WPipe_Close_def)

lemma DoRecv_evolves:
  assumes "on_wpipe_ok a (WPipe_DoRecv b) st = Inr (ok, st')" "send_ok st"
  shows "evolves st st'"
proof -
  from assms(1) obtain q v where run: "WPipe_DoRecv b (wpipe_at st a) (wsys st) = Inr (ok, q, v)"
      and st': "st' = (set_wpipe a q st)\<lparr>wsys := v\<rparr>"
    by (auto simp: on_wpipe_ok_def outcome_simps)
  have "wp_bNeedPostOPT q = wp_bNeedPostOPT (wpipe_at st a) \<and> (\<forall>c. sends v c = sends (wsys st) c)"
    using run by (auto simp: WPipe_DoRecv_def outcome_simps Let_def dest!: other_started split: if_splits)
  then show ?thesis
    unfolding st' by (intro other_evolves [OF assms(2)]) auto
qed

lemma DoConnect_evolves:
  assumes "on_wpipe_ok a (WPipe_DoConnect b ip port) st = Inr (ok, st')" "send_ok st"
  shows "evolves st st'"
proof -
  from assms(1) obtain q v where run: "WPipe_DoConnect b ip port (wpipe_at st a) (wsys st) = Inr (ok, q, v)"
      and st': "st' = (set_wpipe a q st)\<lparr>wsys := v\<rparr>"
    by (auto simp: on_wpipe_ok_def outcome_simps)
  have "wp_bNeedPostOPT q = wp_bNeedPostOPT (wpipe_at st a) \<and> (\<forall>c. sends v c = sends (wsys st) c)"
    using run by (auto simp: WPipe_DoConnect_def outcome_simps Let_def dest!: other_started split: if_splits)
  then show ?thesis
    unfolding st' by (intro other_evolves [OF assms(2)]) auto
qed

lemma post_accepted_evolves:
  assumes "post_accepted a st = Inr st'" "send_ok st"
  shows "evolves st st'"
proof -
  from assms(1) obtain q port key v where
      q: "wp_bNeedPostOPT q = wp_bNeedPostOPT (wpipe_at st a)"
        "post_to port key (Recv_event a) (wsys st) = Inr (True, v)"
      and st': "st' = (set_wpipe a q st)\<lparr>wsys := v\<rparr>"
    by (auto simp: post_accepted_def on_wpipe_def outcome_simps Let_def intro: that [rotated])
  show ?thesis
    unfolding st' using q other_started(3) [OF q(2)] by (intro other_evolves [OF assms(2)]) auto
qed

text \<open>\<^verbatim>\<open>Out\<close>, after the completion of the send was taken.\<close>

lemma WPipe_Out_sends:
  assumes "WPipe_Out sLen a n p w = Inr (ok, q, v)" "sends w a = 0" "\<not> wp_bNeedPostOPT p"
  shows "(wp_bNeedPostOPT q \<longrightarrow> sends v a = 0) \<and> sends v a \<le> 1 \<and> (\<forall>b. b \<noteq> a \<longrightarrow> sends v b = sends w b)"
proof -
  from assms(1) obtain s where s: "TStream_out n (wp_oSendStream p) = Inr s"
    by (auto simp: WPipe_Out_def outcome_simps)
  show ?thesis
  proof (cases "TStream_size s = 0")
    case True
    with assms s show ?thesis by (auto simp: WPipe_Out_def Let_def)
  next
    case False
    with assms(1) s obtain err k v0 c where
      start: "start_call c SOCKET_ERROR k (Send_event a) v0 w = Inr (ok, err, v)"
        and q: "wp_bNeedPostOPT q = wp_bNeedPostOPT p"
      by (auto simp: WPipe_Out_def Let_def outcome_simps split: if_splits)
    have "sends v a \<le> 1" using start_call_sends(1) [OF start, of a] assms(2) by (simp split: if_splits)
    with start_call_sends(2) [OF start] q assms(3) show ?thesis by auto
  qed
qed

lemma Out_evolves:
  assumes "on_wpipe_ok a (WPipe_Out sLen a n) st = Inr (ok, st')" "send_ok st" "valid_wpipe st a" "mute st a"
  shows "send_ok st'" "valid_wpipe st' b = valid_wpipe st b" "valid_wpipe st b \<Longrightarrow> b \<noteq> a \<Longrightarrow> mute st b \<Longrightarrow> mute st' b"
proof -
  from assms(1) obtain q v where run: "WPipe_Out sLen a n (wpipe_at st a) (wsys st) = Inr (ok, q, v)"
      and st': "st' = (set_wpipe a q st)\<lparr>wsys := v\<rparr>"
    by (auto simp: on_wpipe_ok_def outcome_simps)
  have m: "sends (wsys st) a = 0" "\<not> wp_bNeedPostOPT (wpipe_at st a)" using assms(4) by (simp_all add: mute_def)
  note f = WPipe_Out_sends [OF run m]
  have f1: "c \<noteq> a \<Longrightarrow> sends v c = sends (wsys st) c" for c using f by simp
  have f2: "sends v a \<le> 1" "wp_bNeedPostOPT q \<longrightarrow> sends v a = 0" using f by simp_all
  show "send_ok st'" unfolding st' by (rule sender_evolves(1) [OF assms(2,3) f1 f2])
  show "valid_wpipe st' b = valid_wpipe st b" by (simp add: st' wnet_simps)
  show "valid_wpipe st b \<Longrightarrow> b \<noteq> a \<Longrightarrow> mute st b \<Longrightarrow> mute st' b"
    unfolding st' by (rule sender_evolves(3) [OF assms(2,3) f1 f2])
qed

subsection \<open>Sessions and the pool\<close>

lemma whost_request_evolves:
  assumes "do_whost_request r st = Inr st'" "send_ok st"
  shows "evolves st st'"
proof (cases r)
  case (HostSend h bs)
  with assms obtain a where "wsession_pipe st h = Some a" "on_wpipe a (WPipe_Send a bs (int (length bs))) st = Inr st'"
    by (auto split: option.splits)
  with assms(2) show ?thesis by (intro Send_evolves) (auto simp: send_ok_def)
next
  case (HostClose h)
  with assms show ?thesis by (auto simp: Close_evolves split: option.splits)
qed

lemma whost_requests_evolves:
  "do_whost_requests rs st = Inr st' \<Longrightarrow> send_ok st \<Longrightarrow> evolves st st'"
proof (induction rs arbitrary: st)
  case Nil
  then show ?case by (simp add: evolves_refl)
next
  case (Cons r rs)
  then obtain s1 where 1: "do_whost_request r st = Inr s1" "do_whost_requests rs s1 = Inr st'"
    by (auto simp: outcome_simps)
  note e = whost_request_evolves [OF 1(1) Cons.prems(2)]
  from evolves_trans [OF e Cons.IH [OF 1(2) evolves_ok [OF e]]] show ?case .
qed

lemma send_ok_parts [simp]:
  "send_ok (st\<lparr>whistory := hist\<rparr>) = send_ok st"
  "send_ok (st\<lparr>wclock_reads := n\<rparr>) = send_ok st"
  "send_ok (st\<lparr>iworkers := ws\<rparr>) = send_ok st"
  "send_ok (set_worker i wk st) = send_ok st"
  by (simp_all add: send_ok_def wnet_simps)

lemma evolves_from [simp]: "evolves (st\<lparr>whistory := hist\<rparr>) st' = evolves st st'"
  "evolves (set_worker i wk st) st' = evolves st st'"
  "evolves (st\<lparr>iworkers := ws\<rparr>) st' = evolves st st'"
  "evolves (st\<lparr>wclock_reads := n\<rparr>) st' = evolves st st'"
  by (simp_all add: evolves_def mute_def wnet_simps)

lemma wcall_host_evolves: "wcall_host hs h e st = Inr st' \<Longrightarrow> send_ok st \<Longrightarrow> evolves st st'"
  using whost_requests_evolves [of "on_call hs (whistory st @ [e])" "st\<lparr>whistory := whistory st @ [e]\<rparr>" st']
  by (simp add: wcall_host_def split: if_splits)

lemma session_pipe_evolves:
  assumes "send_ok st" "\<And>h a. m h = Some a \<Longrightarrow> valid_wpipe st a"
  shows "evolves st (st\<lparr>wsession_pipe := m\<rparr>)"
  using assms by (auto simp: evolves_def send_ok_def mute_def wnet_simps)

lemma wforget_evolves: "wforget_pipe h st = Inr st' \<Longrightarrow> send_ok st \<Longrightarrow> evolves st st'"
  by (auto simp: wforget_pipe_def send_ok_def split: if_splits intro!: session_pipe_evolves)

text \<open>The units of the pool keep their contents.\<close>

lemma pool_evolves:
  assumes "send_ok st" "pool_inv wpipe_sz pool"
    "\<And>a. valid_wpipe st a \<Longrightarrow> valid_unit pool a \<and> get_unit pool a = wpipe_at st a"
  shows "evolves st (st\<lparr>g_oCPipePool := pool\<rparr>)"
proof -
  let ?st = "st\<lparr>g_oCPipePool := pool\<rparr>"
  have at: "valid_wpipe ?st a = valid_unit pool a" "wpipe_at ?st a = get_unit pool a" for a
    by (simp_all add: valid_wpipe_def wpipe_at_def)
  have none: "sends (wsys st) a = 0" if "\<not> valid_wpipe st a" for a using that assms(1) by (simp add: send_ok_def)
  have "sends (wsys st) a \<le> 1 \<and> (wp_bNeedPostOPT (wpipe_at ?st a) \<longrightarrow> sends (wsys st) a = 0)" for a
    using assms(1) assms(3) [of a] none [of a] by (cases "valid_wpipe st a") (auto simp: at send_ok_def)
  moreover have "valid_wpipe ?st a" if "wsession_pipe st h = Some a" for h a
    using that assms(1) assms(3) [of a] by (auto simp: at send_ok_def)
  moreover have "sends (wsys st) a = 0" if "\<not> valid_wpipe ?st a" for a
    using that none [of a] assms(3) [of a] by (auto simp: at)
  ultimately have "send_ok ?st" using assms(2) by (simp add: send_ok_def)
  with assms(3) show ?thesis by (auto simp: evolves_def mute_def at)
qed

lemma TPool_Create_valid:
  assumes "TPool_Create sz ctor count p = Inr (r, q)" "valid_unit p b"
  shows "valid_unit q b"
proof -
  obtain p1 where p1: "(if m_list p = [] then AllocNewBlob sz ctor count p else Inr p) = Inr p1"
    using assms(1) unfolding TPool_Create_def bindE_eq_Inr by blast
  have q: "q = p1 \<or> (\<exists>a ti xs. q = (set_unit_info a ti p1)\<lparr>m_list := xs\<rparr>)"
    using assms(1) p1 by (cases "m_list p1") (auto simp: TPool_Create_def outcome_simps)
  have "valid_unit p1 b"
    using p1 assms(2) by (auto simp: AllocNewBlob_def outcome_simps valid_unit_def nth_append split: if_splits)
  with q show ?thesis by auto
qed

lemma wRecover_evolves:
  assumes "wRecover a st = Inr st'" "send_ok st"
  shows "evolves st st'"
proof -
  from assms(1) obtain pool where rec: "TPool_Recover wpipe_sz a (g_oCPipePool st) = Inr pool"
      and st': "st' = st\<lparr>g_oCPipePool := pool\<rparr>"
    by (auto simp: wRecover_def outcome_simps)
  have inv: "pool_inv wpipe_sz (g_oCPipePool st)" using assms(2) by (simp add: send_ok_def)
  from rec have use: "a \<in> in_use (g_oCPipePool st)"
    by (auto simp: TPool_Recover_def CheckAddr_def in_use_def outcome_simps split: if_splits)
  have v: "valid_unit pool b = valid_unit (g_oCPipePool st) b" for b
    using rec by (auto simp: TPool_Recover_def CheckAddr_def Let_def outcome_simps split: if_splits)
  from TPool_Recover_ok [OF inv use] rec have ok: "pool_inv wpipe_sz pool"
      "\<And>b. get_unit pool b = get_unit (g_oCPipePool st) b" by auto
  show ?thesis
    unfolding st' by (rule pool_evolves [OF assms(2) ok(1)]) (simp add: v ok(2) valid_wpipe_def wpipe_at_def)
qed

lemma create_wpipe_evolves:
  assumes "create_wpipe n e = Inr (p, e')" "send_ok (wi_net e)"
  shows "evolves (wi_net e) (wi_net e') \<and> (\<exists>a. p = Some a \<and> valid_wpipe (wi_net e') a)"
proof -
  let ?st = "wi_net e"
  from assms(1) obtain fresh pool where cr: "TPool_Create wpipe_sz fresh 64 (g_oCPipePool ?st) = Inr (p, pool)"
      and e': "wi_net e' = ?st\<lparr>g_oCPipePool := pool\<rparr>"
    by (auto simp: create_wpipe_def outcome_simps)
  have inv: "pool_inv wpipe_sz (g_oCPipePool ?st)" using assms(2) by (simp add: send_ok_def)
  from TPool_Create_ok [OF inv, of 64 fresh] cr obtain a where
    a: "p = Some a" "pool_inv wpipe_sz pool" "in_use pool = insert a (in_use (g_oCPipePool ?st))"
      "\<And>b. valid_unit (g_oCPipePool ?st) b \<Longrightarrow> get_unit pool b = get_unit (g_oCPipePool ?st) b"
    by auto
  have "evolves ?st (?st\<lparr>g_oCPipePool := pool\<rparr>)"
    using a(4) TPool_Create_valid [OF cr]
    by (intro pool_evolves [OF assms(2) a(2)]) (simp add: valid_wpipe_def wpipe_at_def)
  moreover have "a \<in> in_use pool" using a(3) by simp
  then have "valid_wpipe (?st\<lparr>g_oCPipePool := pool\<rparr>) a" by (simp add: valid_wpipe_def in_use_valid)
  ultimately show ?thesis using a(1) e' by simp
qed

section \<open>The worker\<close>

lemma wqueue_evolves: "wqueue_event i ty a st = Inr st' \<Longrightarrow> send_ok st \<Longrightarrow> evolves st st'"
  by (auto simp: wqueue_event_def evolves_refl split: option.splits)

lemma SendDisconnect_evolves:
  assumes "SendDisconnectEvent i key a st = Inr st'" "send_ok st"
  shows "evolves st st'"
proof (cases "iw_mapSocketClient (iworkers st ! i) key = Some a")
  case True
  let ?s = "wp_lSocketHandler (wpipe_at st a)"
  let ?w = "close_sock ?s (wnote (W_setsockopt ?s 128) (wnote (W_shutdown ?s) (wsys st)))"
  let ?p = "(wpipe_at st a)\<lparr>wp_lSocketHandler := INVALID_SOCKET\<rparr>"
  have "evolves st ((set_wpipe a ?p st)\<lparr>wsys := ?w\<rparr>)" by (rule other_evolves [OF assms(2)]) simp_all
  moreover have "(set_wpipe a ?p st)\<lparr>wsys := ?w\<rparr> = set_wpipe a ?p (st\<lparr>wsys := ?w\<rparr>)"
    by (simp add: set_wpipe_def)
  ultimately have 1: "evolves st (set_wpipe a ?p (st\<lparr>wsys := ?w\<rparr>))" by simp
  from True assms(1) obtain st1 wk where
    q: "wqueue_event i IO_EVENT_TYPE_BREAK a (set_wpipe a ?p (st\<lparr>wsys := ?w\<rparr>)) = Inr st1" "st' = set_worker i wk st1"
    by (auto simp: SendDisconnectEvent_def Let_def outcome_simps)
  from evolves_trans [OF 1 wqueue_evolves [OF q(1) evolves_ok [OF 1]]] q(2) show ?thesis by simp
next
  case False
  with assms show ?thesis by (simp add: SendDisconnectEvent_def evolves_refl)
qed

lemma case_accept_evolves:
  assumes "case_accept i key a st = Inr st'" "send_ok st"
  shows "evolves st st'"
proof -
  from assms(1) obtain wk where
    c: "(if SS_ESTABLISHED = wp_nStatus (wpipe_at (set_worker i wk st) a) then
           bindE (on_wpipe_ok a (WPipe_DoRecv a) (set_worker i wk st)) (\<lambda>(ok, st). Inr st)
         else if wp_bNeedPostOPT (wpipe_at (set_worker i wk st) a) then SendDisconnectEvent i key a (set_worker i wk st)
         else Inr (set_worker i wk st)) = Inr st'"
    by (auto simp: case_accept_def Let_def bindE_eq_Inr simp del: if_split split del: if_split)
  have ok: "send_ok (set_worker i wk st)" using assms(2) by simp
  have "evolves (set_worker i wk st) st'"
    using c DoRecv_evolves [OF _ ok] SendDisconnect_evolves [OF _ ok] evolves_refl [OF ok]
    by (auto simp: outcome_simps simp del: evolves_from evolves_parts split: if_splits)
  then show ?thesis by simp
qed

lemma case_recv_evolves:
  assumes "case_recv i key r a n code st = Inr st'" "send_ok st"
  shows "evolves st st'"
proof (cases "CheckSocketClient key a (iworkers st ! i)")
  case False
  with assms show ?thesis by (simp add: case_recv_def evolves_refl)
next
  case check: True
  show ?thesis
  proof (cases "n > 0 \<and> code = 0")
    case True
    with assms(1) check obtain p ok st1 where
      1: "WPipe_In (ev_bytes (wp_pRecvEvent (wpipe_at st a))) (int n) (wpipe_at st a) = Inr p"
        "on_wpipe_ok a (WPipe_DoRecv a) (set_wpipe a p st) = Inr (ok, st1)"
        "(if \<not> ok then SendDisconnectEvent i key a st1 else wqueue_event i IO_EVENT_TYPE_RECV a st1) = Inr st'"
      by (auto simp: case_recv_def outcome_simps)
    have e1: "evolves st (set_wpipe a p st)"
      by (rule set_wpipe_evolves [OF assms(2)]) (use 1(1) in \<open>auto simp: WPipe_In_def outcome_simps\<close>)
    note e2 = evolves_trans [OF e1 DoRecv_evolves [OF 1(2) evolves_ok [OF e1]]]
    have "evolves st1 st'"
      using 1(3) SendDisconnect_evolves [OF _ evolves_ok [OF e2]] wqueue_evolves [OF _ evolves_ok [OF e2]]
      by (auto split: if_splits)
    with e2 show ?thesis by (rule evolves_trans)
  next
    case False
    with assms check show ?thesis
      by (auto simp: case_recv_def outcome_simps evolves_refl intro: SendDisconnect_evolves split: if_splits)
  qed
qed

text \<open>A completion that is not a send's leaves the sends alone.\<close>

lemma case_send_other:
  assumes "case_send sLen i key (Recv_event b) a n code st = Inr st'" "send_ok st"
  shows "evolves st st'"
  using assms by (auto simp: case_send_def outcome_simps evolves_refl split: if_splits)

lemma case_send_evolves:
  assumes "case_send sLen i key (Send_event b) a n code st = Inr st'" "send_ok st" "valid_wpipe st b" "mute st b"
  shows "send_ok st'" "valid_wpipe st c \<Longrightarrow> valid_wpipe st' c" "valid_wpipe st c \<Longrightarrow> c \<noteq> b \<Longrightarrow> mute st c \<Longrightarrow> mute st' c"
proof -
  have "send_ok st' \<and> (valid_wpipe st c \<longrightarrow> valid_wpipe st' c \<and> (c \<noteq> b \<longrightarrow> mute st c \<longrightarrow> mute st' c))" for c
  proof (cases "CheckSocketClient key a (iworkers st ! i) \<and> code = 0")
    case True
    with assms(1) obtain ok st1 where 1: "a = b"
        "on_wpipe_ok b (WPipe_Out sLen b (int n)) st = Inr (ok, st1)"
        "(if \<not> ok then SendDisconnectEvent i key b st1 else Inr st1) = Inr st'"
      by (auto simp: case_send_def outcome_simps)
    note o = Out_evolves [OF 1(2) assms(2-4)]
    have "evolves st1 st'"
      using 1(3) SendDisconnect_evolves [OF _ o(1)] evolves_refl [OF o(1)] by (auto split: if_splits)
    with o show ?thesis by (auto simp: evolves_def)
  next
    case False
    with assms(1) have "st' = st" by (auto simp: case_send_def outcome_simps split: if_splits)
    with assms(2) show ?thesis by simp
  qed
  then show "send_ok st'" "valid_wpipe st c \<Longrightarrow> valid_wpipe st' c"
    "valid_wpipe st c \<Longrightarrow> c \<noteq> b \<Longrightarrow> mute st c \<Longrightarrow> mute st' c" by simp_all
qed

lemma take_done_sends:
  assumes "take_done port k w = Some ((key, r, v), w')"
  shows "sends w a = sends w' a + (if r = Send_event a then 1 else 0)"
proof -
  let ?f = "in_flight w"
  from assms have k: "k < length ?f" "snd (?f ! k) = (key, r, v)"
      "in_flight w' = take k ?f @ drop (Suc k) ?f"
    by (auto simp: take_done_def split: if_splits)
  from id_take_nth_drop [OF k(1)]
  have "filter P ?f = filter P (take k ?f @ ?f ! k # drop (Suc k) ?f)" for P by simp
  then show ?thesis using k(2,3) by (simp add: sends_def)
qed

lemma perform_io_evolves:
  "perform_io key b v xs m late st = Inr (n, st') \<Longrightarrow> send_ok st \<Longrightarrow> evolves st st'"
proof (induction key b v xs m late st rule: perform_io.induct)
  case (1 key a n0 xs m late st)
  let ?p = "(wpipe_at st a)\<lparr>wp_pRecvEvent := (wp_pRecvEvent (wpipe_at st a))
      \<lparr>ev_bytes := blit (ev_bytes (wp_pRecvEvent (wpipe_at st a))) 0 (take n0 xs)\<rparr>\<rparr>"
  have "evolves st ((set_wpipe a ?p st)\<lparr>wsys := wnote (W_received key (take n0 xs)) (wsys st)\<rparr>)"
    by (rule other_evolves [OF "1.prems"(2)]) simp_all
  with "1.prems"(1) show ?case by (auto simp: set_recv_bytes_def Let_def)
qed (auto simp: outcome_simps evolves_refl intro!: sys_evolves)

lemma set_event_flag: "wp_bNeedPostOPT (set_event r e p) = wp_bNeedPostOPT p"
  by (cases r) (simp_all add: set_event_def)

theorem Run_turn_evolves:
  assumes "Run_turn sLen i ans st = Inr st'" "send_ok st"
  shows "evolves st st'"
proof (cases ans)
  case Nothing_done
  with assms show ?thesis by (simp add: Run_turn_def evolves_refl)
next
  case (Completed k ok err xs m late)
  note ans = this
  show ?thesis
  proof (cases "take_done (iw_hCompletionPort (iworkers st ! i)) k (wsys st)")
    case None
    with assms ans show ?thesis by (simp add: Run_turn_def evolves_refl)
  next
    case (Some krvw)
    obtain key r v w where krvw: "krvw = ((key, r, v), w)" by (metis surj_pair)
    note td = take_done_sends [OF Some [unfolded krvw]]
    let ?st1 = "st\<lparr>wsys := w\<rparr>"
    have e1: "evolves st ?st1" by (rule sys_evolves [OF assms(2)]) (simp add: td)
    define code where "code = (if ok \<or> v = Posted then 0 else err)"
    from assms(1) ans Some krvw obtain b where b: "event_pipe r = Some b" by (auto simp: Run_turn_def split: option.splits)
    with assms(1) ans Some krvw obtain n st2 where
      2: "perform_io key b v xs m late ?st1 = Inr (n, st2)"
      and run: "handle_done sLen i key r b (ok \<or> v = Posted) code n st2 = Inr st'"
      by (auto simp: Run_turn_def code_def bindE_eq_Inr)
    have r: "r = Recv_event b \<or> r = Send_event b" using b by (cases r) (simp_all add: event_pipe_def)
    define e where "e = (event_of r (wpipe_at st2 b))\<lparr>ev_code := code\<rparr>"
    define st3 where "st3 = set_wpipe b (set_event r e (wpipe_at st2 b)) st2"
    have st': "st' = st3 \<or> complete_op sLen i key r n code e st3 = Inr st'"
      using run by (auto simp: handle_done_def Let_def e_def st3_def split: if_splits)
    note e2 = evolves_trans [OF e1 perform_io_evolves [OF 2 evolves_ok [OF e1]]]
    have e3: "evolves st st3"
      unfolding st3_def by (rule evolves_trans [OF e2 set_wpipe_evolves [OF evolves_ok [OF e2]]]) (rule set_event_flag)
    note ok3 = evolves_ok [OF e3]
    show ?thesis
    proof (cases "st' = st3")
      case True
      with e3 show ?thesis by simp
    next
      case False
      with st' have op: "complete_op sLen i key r n code e st3 = Inr st'" by simp
      then obtain a where a: "ev_context e = Ctx_CPipe a" by (auto simp: complete_op_def split: wcontext.splits)
      show ?thesis
      proof (cases "ev_opt e = SO_TCPSEND \<and> r = Send_event b")
        case True
        with op a have cs: "case_send sLen i key (Send_event b) a n code st3 = Inr st'"
          by (simp add: complete_op_def)
        have one: "sends (wsys st) b = Suc (sends w b)" using td [of b] True by simp
        have vb: "valid_wpipe st b" using assms(2) one unfolding send_ok_def by (metis Zero_not_Suc)
        then have "sends (wsys st) b \<le> 1" "wp_bNeedPostOPT (wpipe_at st b) \<longrightarrow> sends (wsys st) b = 0"
          using assms(2) by (simp_all add: send_ok_def)
        with one have "sends w b = 0" "\<not> wp_bNeedPostOPT (wpipe_at st b)" by simp_all
        then have "mute ?st1 b" by (simp add: mute_def wnet_simps)
        moreover have "evolves ?st1 st3"
        proof -
          have "evolves ?st1 st2" by (rule perform_io_evolves [OF 2 evolves_ok [OF e1]])
          moreover have "evolves st2 st3"
            unfolding st3_def by (rule set_wpipe_evolves [OF evolves_ok [OF e2]]) (rule set_event_flag)
          ultimately show ?thesis by (rule evolves_trans)
        qed
        ultimately have m3: "mute st3 b" "valid_wpipe st3 b"
          using vb by (auto simp: evolves_def wnet_simps)
        note c = case_send_evolves [OF cs ok3 m3(2,1)]
        have "\<not> mute st b" using one by (simp add: mute_def)
        with c e3 show ?thesis unfolding evolves_def by blast
      next
        case False
        with r op a have "evolves st3 st'"
          by (auto simp: complete_op_def case_connect_def intro: wqueue_evolves [OF _ ok3]
              case_accept_evolves [OF _ ok3] case_recv_evolves [OF _ ok3] case_send_other [OF _ ok3]
              split: eSocketOpt.splits)
        with e3 show ?thesis by (rule evolves_trans)
      qed
    qed
  qed
qed

section \<open>The main thread\<close>

lemma event_recv_evolves:
  assumes "event_recv hs a st = Inr st'" "send_ok st"
  shows "evolves st st'"
proof (cases "TStream_size (wp_oRecvStream (wpipe_at st a)) = 0")
  case True
  with assms show ?thesis by (simp add: event_recv_def Let_def evolves_refl)
next
  case False
  with assms(1) obtain h e st1 where 1: "wcall_host hs h e st = Inr st1"
      "st' = st1 \<or> (\<exists>s. st' = set_wpipe a ((wpipe_at st1 a)\<lparr>wp_oRecvStream := s\<rparr>) st1)"
    by (auto simp: event_recv_def Let_def outcome_simps split: if_splits)
  note e = wcall_host_evolves [OF 1(1) assms(2)]
  have "evolves st1 st'"
    using 1(2) evolves_refl [OF evolves_ok [OF e]] set_wpipe_evolves [OF evolves_ok [OF e]] by auto
  with e show ?thesis by (rule evolves_trans)
qed

lemma break_evolves:
  assumes "event_break hs a st = Inr st'" "send_ok st"
  shows "evolves st st'"
proof -
  let ?st = "set_wpipe a ((wpipe_at st a)\<lparr>wp_nStatus := SS_UNINITIALIZE\<rparr>) st"
  from assms(1) obtain h st1 st2 where 1: "wforget_pipe h ?st = Inr st1"
      "wcall_host hs h (OnDisconnect h) st1 = Inr st2" "wRecover a st2 = Inr st'"
    by (auto simp: event_break_def Let_def outcome_simps)
  have e0: "evolves st ?st" by (rule set_wpipe_evolves [OF assms(2)]) simp
  note e1 = evolves_trans [OF e0 wforget_evolves [OF 1(1) evolves_ok [OF e0]]]
  note e2 = evolves_trans [OF e1 wcall_host_evolves [OF 1(2) evolves_ok [OF e1]]]
  show ?thesis by (rule evolves_trans [OF e2 wRecover_evolves [OF 1(3) evolves_ok [OF e2]]])
qed

lemma connected_evolves:
  assumes "event_connected hs a st = Inr st'" "send_ok st"
  shows "evolves st st'"
proof -
  from assms(1) obtain h st1 where 1: "post_accepted a st = Inr st1" "wcall_host hs h (OnConnected h) st1 = Inr st'"
    by (auto simp: event_connected_def Let_def outcome_simps)
  note e = post_accepted_evolves [OF 1(1) assms(2)]
  show ?thesis by (rule evolves_trans [OF e wcall_host_evolves [OF 1(2) evolves_ok [OF e]]])
qed

lemma connectfaild_evolves:
  assumes "event_connectfaild hs a st = Inr st'" "send_ok st"
  shows "evolves st st'"
proof -
  let ?st = "set_wpipe a ((wpipe_at st a)\<lparr>wp_nStatus := SS_UNINITIALIZE\<rparr>) st"
  from assms(1) obtain h st1 where 1: "wcall_host hs h (OnConnectFailed h) ?st = Inr st1" "wRecover a st1 = Inr st'"
    by (auto simp: event_connectfaild_def Let_def outcome_simps)
  have e0: "evolves st ?st" by (rule set_wpipe_evolves [OF assms(2)]) simp
  note e1 = evolves_trans [OF e0 wcall_host_evolves [OF 1(1) evolves_ok [OF e0]]]
  show ?thesis by (rule evolves_trans [OF e1 wRecover_evolves [OF 1(2) evolves_ok [OF e1]]])
qed

lemma wdeal_evolves: "wdeal_ioevent hs ev st = Inr st' \<Longrightarrow> send_ok st \<Longrightarrow> evolves st st'"
  by (cases "io_type ev")
    (auto simp: wdeal_ioevent_def evolves_refl
      intro: event_recv_evolves break_evolves connected_evolves connectfaild_evolves)

lemma wread_queue_evolves:
  "wread_queue i st = Some (ev, st1) \<Longrightarrow> evolves st1 st' = evolves st st' \<and> send_ok st1 = send_ok st"
  by (auto simp: wread_queue_def split: option.splits)

lemma wread_clock_evolves:
  "wread_clock gettime st = (t, st1) \<Longrightarrow> evolves st1 st' = evolves st st' \<and> send_ok st1 = send_ok st"
  by (auto simp: wread_clock_def)

lemma wProcessing_evolves:
  "wProcessing_loop n gettime hs i overtime lTick st = Inr (t, st') \<Longrightarrow> send_ok st \<Longrightarrow> evolves st st'"
proof (induction n arbitrary: st)
  case 0
  then show ?case by simp
next
  case (Suc n)
  have finish: "evolves s st'"
    if "(let (now, st) = wread_clock gettime s in
            bindE (chk_s64 (now - lTick)) (\<lambda>lDoneTick.
            if lDoneTick \<ge> overtime then bindE (chk_s64 (overtime - lDoneTick)) (\<lambda>r. Inr (r, st))
            else wProcessing_loop n gettime hs i overtime lTick st)) = Inr (t, st')" "send_ok s" for s
  proof -
    obtain now s1 where c: "wread_clock gettime s = (now, s1)" by (metis surj_pair)
    note w = wread_clock_evolves [OF c]
    from that(2) w have ok: "send_ok s1" by simp
    have "evolves s1 st'"
      using that(1) Suc.IH [OF _ ok] evolves_refl [OF ok] by (auto simp: c outcome_simps split: if_splits)
    with w show ?thesis by simp
  qed
  show ?case
  proof (cases "wread_queue i st")
    case None
    show ?thesis
    proof (cases "TQueue_IsEmpty (iw_oEventQueue (iworkers st ! i))")
      case True
      with None Suc.prems show ?thesis
        by (auto simp: wread_clock_def Let_def outcome_simps evolves_refl)
    next
      case False
      with None Suc.prems(1) have "(let (now, st) = wread_clock gettime st in
            bindE (chk_s64 (now - lTick)) (\<lambda>lDoneTick.
            if lDoneTick \<ge> overtime then bindE (chk_s64 (overtime - lDoneTick)) (\<lambda>r. Inr (r, st))
            else wProcessing_loop n gettime hs i overtime lTick st)) = Inr (t, st')" by (simp add: Let_def)
      from finish [OF this Suc.prems(2)] show ?thesis .
    qed
  next
    case (Some p)
    then obtain ev s1 where q: "wread_queue i st = Some (ev, s1)" by (metis surj_pair)
    with Suc.prems(1) obtain s2 where d: "wdeal_ioevent hs ev s1 = Inr s2"
        "(let (now, st) = wread_clock gettime s2 in
            bindE (chk_s64 (now - lTick)) (\<lambda>lDoneTick.
            if lDoneTick \<ge> overtime then bindE (chk_s64 (overtime - lDoneTick)) (\<lambda>r. Inr (r, st))
            else wProcessing_loop n gettime hs i overtime lTick st)) = Inr (t, st')"
      by (auto simp: Let_def bindE_eq_Inr)
    note w = wread_queue_evolves [OF q]
    with Suc.prems(2) have ok: "send_ok s1" by simp
    note e = wdeal_evolves [OF d(1) ok]
    from evolves_trans [OF e finish [OF d(2) evolves_ok [OF e]]] w show ?thesis by simp
  qed
qed

lemma process_iworkers_evolves:
  "process_iworkers n gettime hs share is st = Inr st' \<Longrightarrow> send_ok st \<Longrightarrow> evolves st st'"
proof (induction "is" arbitrary: st)
  case Nil
  then show ?case by (simp add: evolves_refl)
next
  case (Cons i js)
  obtain t0 s0 where c: "wread_clock gettime st = (t0, s0)" by (metis surj_pair)
  from Cons.prems(1) c obtain t s1 where 1: "wProcessing_loop n gettime hs i share t0 s0 = Inr (t, s1)"
      "process_iworkers n gettime hs share js s1 = Inr st'"
    by (auto simp: iocpworker_Processing_def outcome_simps)
  note w = wread_clock_evolves [OF c]
  from Cons.prems(2) w have ok: "send_ok s0" by simp
  note e = wProcessing_evolves [OF 1(1) ok]
  from evolves_trans [OF e Cons.IH [OF 1(2) evolves_ok [OF e]]] w show ?case by simp
qed

section \<open>The engine\<close>

text \<open>Steps that change nothing but the system, and start no send.\<close>

definition only_sys :: "wengine \<Rightarrow> wengine \<Rightarrow> bool" where
  "only_sys e e' \<longleftrightarrow> (\<exists>w. wi_net e' = (wi_net e)\<lparr>wsys := w\<rparr> \<and> sends w = sends (wsys (wi_net e)))"

lemma only_sys_refl [simp]: "only_sys e e"
  by (auto simp: only_sys_def intro!: exI [of _ "wsys (wi_net e)"])

lemma only_sys_trans: "only_sys e e' \<Longrightarrow> only_sys e' e'' \<Longrightarrow> only_sys e e''"
  by (auto simp: only_sys_def)

lemma only_sys_evolves: "only_sys e e' \<Longrightarrow> send_ok (wi_net e) \<Longrightarrow> evolves (wi_net e) (wi_net e')"
  by (auto simp: only_sys_def intro!: sys_evolves)

lemma wi_net_other [simp]:
  "wi_net (set_wspipe j p e) = wi_net e" "wi_net (delete_wspipe j e) = wi_net e"
  by (simp_all add: set_wspipe_def delete_wspipe_def)

lemma only_sys_other [simp]:
  "only_sys e (set_wspipe j p e') = only_sys e e'" "only_sys (set_wspipe j p e) e' = only_sys e e'"
  "only_sys e (delete_wspipe j e') = only_sys e e'"
  "only_sys e (e'\<lparr>wi_hCompletionPortAC := port\<rparr>) = only_sys e e'"
  "only_sys (e\<lparr>wi_hCompletionPortAC := port\<rparr>) e' = only_sys e e'"
  "only_sys e (e'\<lparr>wserver_pipe := m\<rparr>) = only_sys e e'"
  "only_sys (e\<lparr>wserver_pipe := m\<rparr>) e' = only_sys e e'"
  "only_sys (e\<lparr>wspipes := ps\<rparr>) e' = only_sys e e'"
  "only_sys (e\<lparr>wi_nWorkerCount := n\<rparr>) e' = only_sys e e'"
  by (simp_all add: only_sys_def)

lemma wcall_sends_fun: "wcall c w = Inr (x, w') \<Longrightarrow> sends w' = sends w"
  by (auto simp: fun_eq_iff)

lemma new_port_sends: "new_port w = Inr (x, w') \<Longrightarrow> sends w' = sends w"
  by (auto simp: new_port_def outcome_simps wcall_sends_fun)

lemma add_port_sends: "add_port s port w = Inr (x, w') \<Longrightarrow> sends w' = sends w"
  by (auto simp: add_port_def outcome_simps fun_eq_iff wcall_sends_fun split: option.splits if_splits)

lemma on_wos_only:
  "on_wos f e = Inr (x, e') \<Longrightarrow> (\<And>w y w'. f w = Inr (y, w') \<Longrightarrow> sends w' = sends w) \<Longrightarrow> only_sys e e'"
  by (auto simp: on_wos_def only_sys_def outcome_simps)

lemma call_only: "on_wos (wcall c) e = Inr (x, e') \<Longrightarrow> only_sys e e'"
  by (erule on_wos_only) (rule wcall_sends_fun)

lemma port_only: "on_wos new_port e = Inr (x, e') \<Longrightarrow> only_sys e e'"
  by (erule on_wos_only) (rule new_port_sends)

lemma add_only: "on_wos (add_port s port) e = Inr (x, e') \<Longrightarrow> only_sys e e'"
  by (erule on_wos_only) (rule add_port_sends)

lemma accept_only:
  "on_wos (\<lambda>w. bindE (start_call c 0 s (Accept_event j) Accepting w) (\<lambda>(ok, err, w). Inr (ok, w))) e = Inr (x, e')
    \<Longrightarrow> only_sys e e'"
  by (erule on_wos_only) (auto simp: outcome_simps dest: other_started)

lemma close_only: "only_sys e (wi_close s e)"
  by (auto simp: wi_close_def only_sys_def fun_eq_iff intro!: exI [of _ "close_sock s (wsys (wi_net e))"])

lemma DoAccept_only: "WSPipe_DoAccept j e = Inr (ok, e') \<Longrightarrow> only_sys e e'"
  by (auto simp: WSPipe_DoAccept_def Let_def outcome_simps split: if_splits
      dest!: call_only accept_only intro: only_sys_trans only_sys_trans [OF _ close_only])

lemma open_wclient_only: "open_wclient e = Inr (x, s, e') \<Longrightarrow> only_sys e e'"
  by (auto simp: open_wclient_def Let_def outcome_simps split: if_splits
      dest!: call_only intro: only_sys_trans)

lemma open_wserver_only: "open_wserver e = Inr (x, s, e') \<Longrightarrow> only_sys e e'"
  by (auto simp: open_wserver_def Let_def outcome_simps split: if_splits
      dest!: call_only intro: only_sys_trans)

lemma listen_on_only: "listen_on s ip addr e = Inr (x, e') \<Longrightarrow> only_sys e e'"
  by (auto simp: listen_on_def Let_def outcome_simps split: if_splits
      dest!: call_only add_only intro: only_sys_trans)

lemma new_socket_only: "new_socket_failed s l e = Inr (x, r, e') \<Longrightarrow> only_sys e e'"
  by (auto simp: new_socket_failed_def Let_def outcome_simps split: if_splits
      dest!: call_only intro: only_sys_trans)

text \<open>Several steps.\<close>

definition leads :: "wengine \<Rightarrow> wengine \<Rightarrow> bool" where
  "leads e e' \<longleftrightarrow> (send_ok (wi_net e) \<longrightarrow> evolves (wi_net e) (wi_net e'))"

lemma leads_trans: "leads e e' \<Longrightarrow> leads e' e'' \<Longrightarrow> leads e e''"
  by (auto simp: leads_def dest: evolves_ok evolves_trans)

lemma leads_only: "only_sys e e' \<Longrightarrow> leads e e'"
  by (simp add: leads_def only_sys_evolves)

lemma leads_other [simp]:
  "leads e (set_wspipe j p e') = leads e e'" "leads (set_wspipe j p e) e' = leads e e'"
  "leads e (delete_wspipe j e') = leads e e'" "leads (delete_wspipe j e) e' = leads e e'"
  "leads e (e'\<lparr>wserver_pipe := m\<rparr>) = leads e e'"
  "leads (e\<lparr>wserver_pipe := m\<rparr>) e' = leads e e'"
  "leads (e\<lparr>wspipes := ps\<rparr>) e' = leads e e'"
  "leads (e\<lparr>wi_index := n\<rparr>) e' = leads e e'"
  "leads e (e'\<lparr>wi_index := n\<rparr>) = leads e e'"
  by (simp_all add: leads_def)

lemma leads_refl [simp]: "leads e e"
  by (simp add: leads_def evolves_refl)

lemma host_leads: "on_wnet (wcall_host hs h ev) e = Inr e' \<Longrightarrow> leads e e'"
  by (auto simp: on_wnet_def leads_def outcome_simps intro: wcall_host_evolves)

lemma recover_leads: "on_wnet (wRecover a) e = Inr e' \<Longrightarrow> leads e e'"
  by (auto simp: on_wnet_def leads_def outcome_simps intro: wRecover_evolves)

lemma close_leads: "leads e (wi_close s e)"
  by (rule leads_only [OF close_only])

lemma forget_leads: "wserver_forget h e = Inr e' \<Longrightarrow> leads e e'"
  by (auto simp: wserver_forget_def split: if_splits)

lemma Balancing_leads: "BalancingWork n e = Inr (i, e') \<Longrightarrow> wi_net e' = wi_net e"
  by (auto simp: BalancingWork_def Let_def outcome_simps split: if_splits)

lemma AddPIPE_evolves:
  assumes "AddPIPE i a st = Inr (ok, st')" "send_ok st"
  shows "evolves st st' \<and> valid_wpipe st' b = valid_wpipe st b"
proof -
  from assms(1) obtain w where 1: "add_port (wp_lSocketHandler (wpipe_at st a))
        (iw_hCompletionPort (iworkers st ! i)) (wsys st) = Inr (True, w)"
      "st' = (set_wpipe a ((wpipe_at st a)\<lparr>wp_hCompletionPort := iw_hCompletionPort (iworkers st ! i)\<rparr>) st)\<lparr>wsys := w\<rparr>"
    by (auto simp: AddPIPE_def Let_def outcome_simps split: if_splits)
  show ?thesis
    unfolding 1(2) using other_evolves [OF assms(2)] add_port_sends [OF 1(1)] by (auto simp: wnet_simps)
qed

lemma unused_ports_only: "unused_ports n e = Inr (ok, e') \<Longrightarrow> only_sys e e'"
  by (induction n arbitrary: e)
    (auto simp: outcome_simps split: if_splits dest!: port_only intro: only_sys_trans)

lemma start_iworkers_leads: "start_iworkers is e = Inr e' \<Longrightarrow> leads e e'"
proof (induction "is" arbitrary: e)
  case Nil
  then show ?case by simp
next
  case (Cons i js)
  let ?st = "wi_net e"
  from Cons.prems obtain wk w where 1: "iocpworker_Initialize (iworkers ?st ! i) (wsys ?st) = Inr (True, wk, w)"
      "start_iworkers js (e\<lparr>wi_net := (set_worker i wk ?st)\<lparr>wsys := w\<rparr>\<rparr>) = Inr e'"
    by (auto simp: Let_def outcome_simps)
  have s: "sends w = sends (wsys ?st)"
    using 1(1) by (auto simp: iocpworker_Initialize_def Let_def outcome_simps new_port_sends split: if_splits)
  have "evolves ?st ((set_worker i wk ?st)\<lparr>wsys := w\<rparr>)" if "send_ok ?st"
    using sys_evolves [of "set_worker i wk ?st" w] that s by (simp add: wnet_simps)
  then have "leads e (e\<lparr>wi_net := (set_worker i wk ?st)\<lparr>wsys := w\<rparr>\<rparr>)" by (simp add: leads_def)
  with Cons.IH [OF 1(2)] show ?case by (rule leads_trans [rotated])
qed

lemma GetFun_only: "GetAcceptExFun e = Inr (x, e') \<Longrightarrow> only_sys e e'" "GetConnectExFun e = Inr (x, e') \<Longrightarrow> only_sys e e'"
  by (auto simp: GetAcceptExFun_def GetConnectExFun_def outcome_simps dest!: call_only intro: only_sys_trans)

lemma Initialize_leads:
  assumes "iocper_Initialize n st0 junk e = Inr (ok, e')"
  shows "leads e e'"
proof -
  from assms obtain f1 e1 f2 e2 port e3 ok4 e4 where
    1: "GetAcceptExFun (e\<lparr>wi_nWorkerCount := n\<rparr>) = Inr (f1, e1)" "GetConnectExFun e1 = Inr (f2, e2)"
      "on_wos new_port e2 = Inr (port, e3)"
      "unused_ports (nat (wi_nWorkerCount e3)) (e3\<lparr>wi_hCompletionPortAC := port\<rparr>) = Inr (ok4, e4)"
      "e' = e4 \<or> start_iworkers [0..<nat (wi_nWorkerCount e3)] (e4\<lparr>wi_net := (wi_net e4)
        \<lparr>iworkers := replicate (nat (wi_nWorkerCount e3)) (iocpworker_new st0 junk)\<rparr>\<rparr>) = Inr e'"
    by (auto simp: iocper_Initialize_def Let_def outcome_simps split: if_splits)
  have "only_sys e e4"
    using GetFun_only(1) [OF 1(1)] GetFun_only(2) [OF 1(2)] port_only [OF 1(3)] unused_ports_only [OF 1(4)]
    by (auto intro: only_sys_trans)
  moreover have "leads e4 e'"
    using 1(5) start_iworkers_leads by (fastforce simp: leads_def)
  ultimately show ?thesis by (blast intro: leads_trans leads_only)
qed

lemma set_pipe_leads:
  assumes "wp_bNeedPostOPT p = wp_bNeedPostOPT (wpipe_at (wi_net e) a)"
  shows "leads e (e\<lparr>wi_net := set_wpipe a p (wi_net e)\<rparr>)"
  using set_wpipe_evolves assms by (simp add: leads_def)

text \<open>The valid pipes of a later state.\<close>

lemma leads_valid: "leads e e' \<Longrightarrow> send_ok (wi_net e) \<Longrightarrow> valid_wpipe (wi_net e) a \<Longrightarrow> valid_wpipe (wi_net e') a"
  by (simp add: leads_def evolves_def)

lemma leads_ok: "leads e e' \<Longrightarrow> send_ok (wi_net e) \<Longrightarrow> send_ok (wi_net e')"
  by (auto simp: leads_def dest: evolves_ok)

lemma AddClient_leads:
  assumes "iocper_AddClient n1 n2 hs client ip port e = Inr (ok, e')"
  shows "leads e e'"
  unfolding leads_def
proof
  assume ok0: "send_ok (wi_net e)"
  from assms obtain a e1 where cr: "create_wpipe n2 e = Inr (Some a, e1)"
    by (auto simp: iocper_AddClient_def outcome_simps split: option.splits)
  let ?e1 = "e1\<lparr>wi_net := set_wpipe a ((wpipe_at (wi_net e1) a)\<lparr>wp_oAddr := local_address\<rparr>) (wi_net e1)\<rparr>"
  from assms cr obtain s e2 i e3 b st4 ok5 st5 where
    2: "open_wclient ?e1 = Inr (False, s, e2)"
      "BalancingWork n1 (e2\<lparr>wi_net := set_wpipe a ((wpipe_at (wi_net e2) a)
        \<lparr>wp_lSocketHandler := s, wp_pHost := client\<rparr>) (wi_net e2)\<rparr>) = Inr (i, e3)"
      "AddPIPE i a (wi_net e3) = Inr (b, st4)"
      "(if b then on_wpipe_ok a (WPipe_DoConnect a ip port) st4 else Inr (False, st4)) = Inr (ok5, st5)"
      "if ok5 then e' = e3\<lparr>wi_net := st5\<lparr>wsession_pipe := (wsession_pipe st5)(client \<mapsto> a)\<rparr>\<rparr>
       else connect_failed hs client a (e3\<lparr>wi_net := st5\<rparr>) = Inr e'"
    by (auto simp: iocper_AddClient_def Let_def bindE_eq_Inr split: if_splits)
  let ?e2 = "e2\<lparr>wi_net := set_wpipe a ((wpipe_at (wi_net e2) a)
        \<lparr>wp_lSocketHandler := s, wp_pHost := client\<rparr>) (wi_net e2)\<rparr>"
  have c: "leads e e1" "valid_wpipe (wi_net e1) a"
    using create_wpipe_evolves [OF cr ok0] by (simp_all add: leads_def)
  have "leads e1 ?e1" "leads e2 ?e2" by (rule set_pipe_leads, simp)+
  moreover have "leads ?e1 e2" by (rule leads_only [OF open_wclient_only [OF 2(1)]])
  ultimately have l2: "leads e1 ?e2" by (blast intro: leads_trans)
  have ok2: "send_ok (wi_net ?e2)" "valid_wpipe (wi_net ?e2) a"
    using leads_ok [OF c(1) ok0] leads_valid [OF l2 _ c(2)] leads_ok [OF l2] by blast+
  have net3: "wi_net e3 = wi_net ?e2" by (rule Balancing_leads [OF 2(2)])
  from AddPIPE_evolves [OF 2(3), of a] ok2 net3
  have 4: "evolves (wi_net ?e2) st4" "valid_wpipe st4 a" by simp_all
  have e5: "evolves st4 st5"
    using 2(4) DoConnect_evolves [OF _ evolves_ok [OF 4(1)]] evolves_refl [OF evolves_ok [OF 4(1)]]
    by (auto split: if_splits)
  then have v5: "send_ok st5" "valid_wpipe st5 a" using 4(2) by (auto simp: evolves_def)
  have "evolves st5 (wi_net e')"
  proof (cases ok5)
    case True
    have "evolves st5 (st5\<lparr>wsession_pipe := (wsession_pipe st5)(client \<mapsto> a)\<rparr>)"
      by (rule session_pipe_evolves [OF v5(1)]) (use v5 in \<open>auto simp: send_ok_def split: if_splits\<close>)
    with True 2(5) show ?thesis by simp
  next
    case False
    with 2(5) obtain e6 where "on_wnet (wcall_host hs client (OnConnectFailed client)) (e3\<lparr>wi_net := st5\<rparr>) = Inr e6"
        "on_wnet (wRecover a) e6 = Inr e'"
      by (auto simp: connect_failed_def outcome_simps)
    then have "leads (e3\<lparr>wi_net := st5\<rparr>) e'" by (blast intro: leads_trans host_leads recover_leads)
    with v5 show ?thesis by (simp add: leads_def)
  qed
  with 4(1) e5 have "evolves (wi_net ?e2) (wi_net e')" by (blast intro: evolves_trans)
  moreover have "evolves (wi_net e) (wi_net ?e2)" using leads_trans [OF c(1) l2] ok0 by (simp add: leads_def)
  ultimately show "evolves (wi_net e) (wi_net e')" by (blast intro: evolves_trans)
qed

lemma AddServer_leads:
  assumes "iocper_AddServer hs srv ip port e = Inr (ok, e')"
  shows "leads e e'"
proof -
  from assms obtain s e1 where 1: "open_wserver e = Inr (False, s, e1)"
    unfolding iocper_AddServer_def bindE_eq_Inr by (auto split: if_splits simp: outcome_simps)
  with assms obtain sp where sp: "WSPipe_new None 0 = Inr sp"
    unfolding iocper_AddServer_def by (auto simp: bindE_eq_Inr simp del: split_paired_Ex)
  define addr where "addr = sockaddr_in port (word_bytes 4 (inet_addr ip))"
  define ps where "ps = wspipes e1 @ [sp\<lparr>wsp_oAddr := addr\<rparr>]"
  define j where "j = length (wspipes e1)"
  from assms 1 sp obtain e2 where 2: "listen_on s ip addr (e1\<lparr>wspipes := ps\<rparr>) = Inr (False, e2)"
    unfolding iocper_AddServer_def addr_def ps_def by (auto simp: Let_def bindE_eq_Inr split: if_splits)
  define e2' where "e2' = (set_wspipe j ((wspipes e2 ! j)\<lparr>wsp_nStatus := SS_ESTABLISHED, wsp_lSocketHandler := s,
      wsp_hCompletionPort := wi_hCompletionPortAC e2, wsp_pHost := srv\<rparr>) e2)"
  define e2s where "e2s = e2'\<lparr>wserver_pipe := (wserver_pipe e2')(srv \<mapsto> j)\<rparr>"
  have tail: "bindE (WSPipe_DoAccept j e2s) (\<lambda>(ok, e).
           if \<not> ok then
             bindE (on_wnet (wcall_host hs srv (ServerError srv)) (delete_wspipe j e)) (\<lambda>e.
             bindE (wserver_forget srv e) (\<lambda>e. Inr (False, e)))
           else Inr (True, e)) = Inr (ok, e')"
    using assms 1 sp 2 unfolding e2s_def e2'_def j_def
    by (simp add: iocper_AddServer_def Let_def addr_def ps_def split: if_splits)
  then obtain ok3 e3 where 3: "WSPipe_DoAccept j e2s = Inr (ok3, e3)" by (auto simp: bindE_eq_Inr)
  with tail have "leads e3 e'"
    by (auto simp: outcome_simps split: if_splits dest!: host_leads forget_leads intro: leads_trans)
  moreover have "only_sys e e2"
    using open_wserver_only [OF 1] listen_on_only [OF 2] by (auto intro: only_sys_trans)
  moreover have "only_sys e2 e3" using DoAccept_only [OF 3] by (simp add: e2s_def e2'_def)
  ultimately show ?thesis by (blast intro: leads_trans leads_only)
qed

lemma accept_next_leads:
  assumes "accept_next hs j e = Inr e'"
  shows "leads e e'"
  using assms
  by (auto simp: accept_next_def Let_def outcome_simps split: if_splits
      dest!: DoAccept_only leads_only host_leads forget_leads intro: leads_trans)

lemma accept_connection_leads:
  assumes "accept_connection n hs srv s a e = Inr e'" "valid_wpipe (wi_net e) a"
  shows "leads e e'"
  unfolding leads_def
proof
  assume ok0: "send_ok (wi_net e)"
  define c where "c = on_malloc hs (whistory (wi_net e) @ [MallocConnection srv])"
  from assms(1) obtain e1 where 1: "on_wnet (wcall_host hs srv (MallocConnection srv)) e = Inr e1" "c \<noteq> 0"
    by (auto simp: accept_connection_def c_def Let_def bindE_eq_Inr)
  from assms(1) 1 obtain i e2 where 2: "BalancingWork n e1 = Inr (i, e2)"
    unfolding c_def by (auto simp: accept_connection_def Let_def bindE_eq_Inr)
  let ?p = "(wpipe_at (wi_net e2) a)\<lparr>wp_pHost := c, wp_lSocketHandler := s\<rparr>"
  let ?st = "set_wpipe a ?p (wi_net e2)"
  let ?st2 = "?st\<lparr>wsession_pipe := (wsession_pipe ?st)(c \<mapsto> a)\<rparr>"
  from assms(1) 1 2 obtain ok3 st3 where 3: "AddPIPE i a ?st2 = Inr (ok3, st3)"
    unfolding c_def by (auto simp: accept_connection_def Let_def bindE_eq_Inr)
  from 3 have "ok3" by (auto simp: AddPIPE_def Let_def outcome_simps split: if_splits)
  with assms(1) 1 2 3 obtain st4 st5 where
    4: "post_accepted a st3 = Inr st4" "wcall_host hs c (OnConnected c) st4 = Inr st5" "e' = e2\<lparr>wi_net := st5\<rparr>"
    unfolding c_def by (auto simp: accept_connection_def Let_def bindE_eq_Inr)
  note l1 = host_leads [OF 1(1)]
  have ok1: "send_ok (wi_net e2)" "valid_wpipe (wi_net e2) a"
    using leads_ok [OF l1 ok0] leads_valid [OF l1 ok0 assms(2)] Balancing_leads [OF 2] by simp_all
  have E1: "evolves (wi_net e2) ?st" by (rule set_wpipe_evolves [OF ok1(1)]) simp
  have ok2: "send_ok ?st" "valid_wpipe ?st a" using E1 ok1(2) by (simp_all add: evolves_def)
  have E2: "evolves ?st ?st2"
    by (rule session_pipe_evolves [OF ok2(1)]) (use ok2 in \<open>auto simp: send_ok_def split: if_splits\<close>)
  have E3: "evolves ?st2 st3" using AddPIPE_evolves [OF 3 evolves_ok [OF E2]] by blast
  note E4 = post_accepted_evolves [OF 4(1) evolves_ok [OF E3]]
  note E5 = wcall_host_evolves [OF 4(2) evolves_ok [OF E4]]
  have "evolves (wi_net e) (wi_net e2)" using l1 ok0 Balancing_leads [OF 2] by (simp add: leads_def)
  with E1 E2 E3 E4 E5 4(3) show "evolves (wi_net e) (wi_net e')"
    by (simp del: evolves_from evolves_parts) (blast intro: evolves_trans)
qed

lemma take_connection_leads:
  assumes "take_connection n1 n2 hs j ev e = Inr e'"
  shows "leads e e'"
  unfolding leads_def
proof
  assume ok: "send_ok (wi_net e)"
  from assms obtain p e2 where 2: "create_wpipe n2 e = Inr (p, e2)" by (auto simp: take_connection_def bindE_eq_Inr)
  from create_wpipe_evolves [OF 2 ok] obtain a where a: "p = Some a" "valid_wpipe (wi_net e2) a"
    and l2: "leads e e2" by (auto simp: leads_def)
  from assms 2 obtain failed remote e3 e4 where
    3: "new_socket_failed (ev_socket ev) (wsp_lSocketHandler (wspipes e2 ! j)) e2 = Inr (failed, remote, e3)"
      "accept_next hs j e4 = Inr e'"
      "(if failed then on_wnet (wRecover (the p)) (wi_close (ev_socket ev) e3)
        else
          let e = set_wspipe j ((wspipes e3 ! j)\<lparr>wsp_pAcceptEvent := ev\<lparr>ev_remote := remote\<rparr>\<rparr>) e3 in
          accept_connection n1 hs (wsp_pHost (wspipes e ! j)) (ev_socket ev) (the p) e) = Inr e4"
    by (auto simp: take_connection_def bindE_eq_Inr Let_def simp del: if_split split del: if_split)
  have l3: "leads e2 e3" by (rule leads_only [OF new_socket_only [OF 3(1)]])
  have "valid_wpipe (wi_net e3) a" using leads_valid [OF l3 leads_ok [OF l2 ok] a(2)] .
  then have "leads e3 e4"
    using 3(3) a(1) by (auto simp: Let_def split: if_splits dest!: recover_leads accept_connection_leads
        intro: leads_trans [OF close_leads])
  with l2 l3 accept_next_leads [OF 3(2)] have "leads e e'" by (blast intro: leads_trans)
  with ok show "evolves (wi_net e) (wi_net e')" by (simp add: leads_def)
qed

lemma CompletedAccept_leads:
  assumes "CompletedAccept n1 n2 hs ans e = Inr e'"
  shows "leads e e'"
proof (cases ans)
  case Nothing_done
  with assms show ?thesis by (simp add: CompletedAccept_def)
next
  case (Completed k ok err xs m late)
  show ?thesis
  proof (cases "take_done (wi_hCompletionPortAC e) k (wsys (wi_net e))")
    case None
    with assms Completed show ?thesis by (simp add: CompletedAccept_def)
  next
    case (Some krvw)
    obtain key r v w where krvw: "krvw = ((key, r, v), w)" by (metis surj_pair)
    from assms Completed Some krvw obtain j where j: "r = Accept_event j"
      by (cases r) (auto simp: CompletedAccept_def)
    define ev where "ev = (wsp_pAcceptEvent (wspipes e ! j))\<lparr>ev_code := if ok then 0 else err\<rparr>"
    define e1 where "e1 = set_wspipe j ((wspipes e ! j)\<lparr>wsp_pAcceptEvent := ev\<rparr>) (e\<lparr>wi_net := (wi_net e)\<lparr>wsys := w\<rparr>\<rparr>)"
    have td: "sends w = sends (wsys (wi_net e))"
      using take_done_sends [OF Some [unfolded krvw]] j by (simp add: fun_eq_iff)
    have l1: "leads e e1" unfolding e1_def using td by (simp add: leads_def sys_evolves)
    have "e' = e1 \<or> take_connection n1 n2 hs j ev e1 = Inr e'"
      using assms Completed Some krvw j unfolding e1_def ev_def
      by (auto simp: CompletedAccept_def Let_def set_wspipe_def bindE_eq_Inr split: if_splits)
    with l1 show ?thesis by (auto intro: leads_trans take_connection_leads)
  qed
qed

lemma clock_leads: "wengine_clock gettime e = (t, e1) \<Longrightarrow> leads e e1"
  by (auto simp: wengine_clock_def leads_def wread_clock_def evolves_refl)

lemma Processing_leads:
  assumes "iocper_Processing n1 n2 n gettime hs ans overtime e = Inr (t, e')"
  shows "leads e e'"
proof -
  obtain t0 e0 where c: "wengine_clock gettime e = (t0, e0)" by (metis surj_pair)
  from assms c obtain e1 share e2 where
    1: "CompletedAccept n1 n2 hs ans e0 = Inr e1"
      "on_wnet (process_iworkers n gettime hs share [0..<nat (wi_nWorkerCount e1)]) e1 = Inr e2"
      "\<exists>now. wengine_clock gettime e2 = (now, e')"
    by (auto simp: iocper_Processing_def bindE_eq_Inr split_beta) (metis prod.collapse)
  have "leads e1 e2" using 1(2) by (auto simp: on_wnet_def leads_def outcome_simps intro: process_iworkers_evolves)
  with clock_leads [OF c] CompletedAccept_leads [OF 1(1)] 1(3) show ?thesis
    by (blast intro: leads_trans clock_leads)
qed

theorem iocp_step_leads:
  assumes "iocp_step c gettime hs s e = Inr e'"
  shows "leads e e'"
proof (cases s)
  case (Start_engine st0 junk)
  with assms show ?thesis by (auto simp: outcome_simps intro: Initialize_leads)
next
  case (Worker_turn i ans)
  with assms show ?thesis by (auto simp: on_wnet_def leads_def outcome_simps intro: Run_turn_evolves)
next
  case (Session_calls rs)
  with assms show ?thesis by (auto simp: on_wnet_def leads_def outcome_simps intro: whost_requests_evolves)
next
  case (Accept_one ans)
  with assms show ?thesis by (auto intro: CompletedAccept_leads)
next
  case (Deal_one i)
  show ?thesis
  proof (cases "wread_queue i (wi_net e)")
    case None
    with assms Deal_one show ?thesis by simp
  next
    case (Some p)
    then obtain ev st1 where q: "wread_queue i (wi_net e) = Some (ev, st1)" by (metis surj_pair)
    with assms Deal_one obtain st2 where 2: "wdeal_ioevent hs ev st1 = Inr st2" "e' = e\<lparr>wi_net := st2\<rparr>"
      by (auto simp: on_wnet_def outcome_simps)
    with wread_queue_evolves [OF q] wdeal_evolves [OF 2(1)] show ?thesis by (simp add: leads_def)
  qed
next
  case (Whole_turn n ans overtime)
  with assms show ?thesis by (auto simp: outcome_simps intro: Processing_leads)
next
  case (Make_client h ip port)
  with assms show ?thesis by (auto simp: outcome_simps intro: AddClient_leads)
next
  case (Make_server h ip port)
  with assms show ?thesis by (auto simp: outcome_simps intro: AddServer_leads)
qed

interpretation iocp_order: ordered_system "iocp_step c gettime hs" "\<lambda>_. True" "\<lambda>_. True" leads for c gettime hs
  by unfold_locales (auto intro: leads_trans iocp_step_leads)

lemma iocp_run_leads: "iocp_run c gettime hs ss e = Inr e' \<Longrightarrow> leads e e'"
  by (rule iocp_order.run_later) (simp_all add: list_all_iff)

section \<open>Properties\<close>

text \<open>The states the process can reach.\<close>

definition iocp_reaches :: "wsettings \<Rightarrow> (nat \<Rightarrow> int) \<Rightarrow> hosts \<Rightarrow> wengine \<Rightarrow> bool" where
  "iocp_reaches c gettime hs e \<longleftrightarrow>
     (\<exists>fresh pool answers port steps. WPipe_new (set_sNetRecvSize c) = Inr fresh \<and>
        TPool_new wpipe_sz fresh 64 = Inr pool \<and>
        iocp_run c gettime hs steps (iocper_new (fresh_wnet pool answers) port) = Inr e)"

lemma reaches_ok:
  assumes "iocp_reaches c gettime hs e"
  shows "send_ok (wi_net e)"
proof -
  from assms obtain fresh pool answers port steps where
    1: "TPool_new wpipe_sz fresh 64 = Inr pool"
      "iocp_run c gettime hs steps (iocper_new (fresh_wnet pool answers) port) = Inr e"
    by (auto simp: iocp_reaches_def)
  from TPool_new_inv [of wpipe_sz fresh 64] 1(1) have "pool_inv wpipe_sz pool" by auto
  then have "send_ok (wi_net (iocper_new (fresh_wnet pool answers) port))"
    by (simp add: iocper_new_def fresh_wnet_def send_ok_def sends_def)
  with iocp_run_leads [OF 1(2)] show ?thesis by (rule leads_ok)
qed

lemma reaches_run:
  "iocp_reaches c gettime hs e \<Longrightarrow> iocp_run c gettime hs ss e = Inr e' \<Longrightarrow> iocp_reaches c gettime hs e'"
proof -
  assume "iocp_reaches c gettime hs e" and run: "iocp_run c gettime hs ss e = Inr e'"
  then obtain fresh pool answers port steps where
    1: "WPipe_new (set_sNetRecvSize c) = Inr fresh" "TPool_new wpipe_sz fresh 64 = Inr pool"
    "iocp_run c gettime hs steps (iocper_new (fresh_wnet pool answers) port) = Inr e"
    unfolding iocp_reaches_def by blast
  then have "iocp_run c gettime hs (steps @ ss) (iocper_new (fresh_wnet pool answers) port) = Inr e'"
    using run by (simp add: runE_append)
  with 1(1,2) show ?thesis unfolding iocp_reaches_def by blast
qed

text \<open>A send that fails.\<close>

lemma failed_send_mutes:
  assumes "Run_turn sLen i (Completed k False err xs m late) st = Inr st'" "send_ok st"
    "take_done (iw_hCompletionPort (iworkers st ! i)) k (wsys st) = Some ((key, Send_event a, v), w)"
    "v \<noteq> Posted" "err \<noteq> 0"
  shows "evolves st st' \<and> valid_wpipe st a \<and> mute st' a"
proof -
  let ?st1 = "st\<lparr>wsys := w\<rparr>"
  note td = take_done_sends [OF assms(3)]
  have e1: "evolves st ?st1" by (rule sys_evolves [OF assms(2)]) (simp add: td)
  have one: "sends (wsys st) a = Suc (sends w a)" using td [of a] by simp
  have va: "valid_wpipe st a" using assms(2) one unfolding send_ok_def by (metis Zero_not_Suc)
  then have "sends (wsys st) a \<le> 1" "wp_bNeedPostOPT (wpipe_at st a) \<longrightarrow> sends (wsys st) a = 0"
    using assms(2) by (simp_all add: send_ok_def)
  with one have m1: "mute ?st1 a" by (simp add: mute_def wnet_simps)
  from assms(1,3,4) obtain n st2 where
    2: "perform_io key a v xs m late ?st1 = Inr (n, st2)"
    and run: "handle_done sLen i key (Send_event a) a False err n st2 = Inr st'"
    by (auto simp: Run_turn_def event_pipe_def bindE_eq_Inr)
  define e where "e = (wp_pSendEvent (wpipe_at st2 a))\<lparr>ev_code := err\<rparr>"
  define st3 where "st3 = set_wpipe a (set_event (Send_event a) e (wpipe_at st2 a)) st2"
  have "evolves ?st1 st2" by (rule perform_io_evolves [OF 2 evolves_ok [OF e1]])
  moreover from this have "evolves st2 st3"
    unfolding st3_def by (intro set_wpipe_evolves [OF evolves_ok]) (auto simp: set_event_flag)
  ultimately have e3: "evolves ?st1 st3" by (rule evolves_trans)
  have st': "st' = st3 \<or> complete_op sLen i key (Send_event a) n err e st3 = Inr st'"
    using run by (auto simp: handle_done_def event_of_def Let_def e_def st3_def split: if_splits)
  have "evolves st3 st'"
  proof (cases "st' = st3")
    case True
    with evolves_ok [OF e3] show ?thesis by (simp add: evolves_refl)
  next
    case False
    note ok3 = evolves_ok [OF e3]
    from False st' obtain b where b: "ev_context e = Ctx_CPipe b"
        "complete_op sLen i key (Send_event a) n err e st3 = Inr st'"
      by (auto simp: complete_op_def split: wcontext.splits)
    then show ?thesis
      using assms(5) ok3 by (auto simp: complete_op_def case_connect_def case_send_def outcome_simps
          intro: evolves_refl wqueue_evolves [OF _ ok3] case_accept_evolves [OF _ ok3] case_recv_evolves [OF _ ok3]
          split: eSocketOpt.splits if_splits)
  qed
  with e3 have "evolves ?st1 st'" by (rule evolves_trans)
  with m1 va have "mute st' a" by (simp add: evolves_def wnet_simps)
  moreover have "evolves st st'" by (rule Run_turn_evolves [OF assms(1,2)])
  ultimately show ?thesis using va by simp
qed

text \<open>
  C7: In every state of the Windows engine, whatever the schedule, the answers of the system and
  the calls of the modules, a connection has at most one send in flight, and none while
  \<^verbatim>\<open>m_bNeedPostOPT\<close> says that the next \<^verbatim>\<open>Send\<close> has to start one: the overlapped structure of the
  send event is never used by two operations, not even when the pipe is recycled.
\<close>

theorem iocp_send_discipline:
  assumes "iocp_reaches c gettime hs e" "valid_wpipe (wi_net e) a"
  shows "sends (wsys (wi_net e)) a \<le> 1 \<and>
    (wp_bNeedPostOPT (wpipe_at (wi_net e) a) \<longrightarrow> sends (wsys (wi_net e)) a = 0)"
  using reaches_ok [OF assms(1)] assms(2) by (simp add: send_ok_def)

definition quiet_hosts :: hosts where
  "quiet_hosts = \<lparr>on_recv = (\<lambda>_. 0), on_call = (\<lambda>_. []), on_malloc = (\<lambda>_. 7)\<rparr>"

definition example_settings :: wsettings where
  "example_settings = \<lparr>set_sNetThdCount = 1, set_sNetSendSize = 1024, set_sNetRecvSize = 1024\<rparr>"

lemma WPipe_new_ok: "\<exists>p. WPipe_new 1024 = Inr p"
  using TStream_clear_ok [OF stream_inv_new [of BUFF_SIZE]]
  by (auto simp: WPipe_new_def event_new_def WPipe_Clear_def WPipe_Pipe_Clear_def Let_def in_s32_def outcome_simps)

theorem iocp_send_discipline_witness:
  "\<exists>e. iocp_reaches example_settings (\<lambda>_. 0) quiet_hosts e \<and> valid_wpipe (wi_net e) (UAddr 0 5) \<and>
     sends (wsys (wi_net e)) (UAddr 0 5) \<le> 1"
proof -
  obtain fresh where f: "WPipe_new 1024 = Inr fresh" using WPipe_new_ok by blast
  obtain pool where p: "TPool_new wpipe_sz fresh 64 = Inr pool" "pool_inv wpipe_sz pool"
      "m_list pool = map (UAddr 0) [0..<64]"
    using TPool_new_inv [of wpipe_sz fresh 64] by blast
  let ?e = "iocper_new (fresh_wnet pool []) None"
  have "iocp_run example_settings (\<lambda>_. 0) quiet_hosts [Worker_turn 0 Nothing_done] ?e = Inr ?e"
    by (simp add: on_wnet_def Run_turn_def)
  with f p(1) have r: "iocp_reaches example_settings (\<lambda>_. 0) quiet_hosts ?e"
    unfolding iocp_reaches_def by (fastforce simp: example_settings_def)
  have "valid_unit pool (UAddr 0 5)" using pool_inv_free [OF p(2), of "UAddr 0 5"] p(3) by simp
  then have "valid_wpipe (wi_net ?e) (UAddr 0 5)" by (simp add: valid_wpipe_def iocper_new_def fresh_wnet_def)
  with r iocp_send_discipline [OF r this] show ?thesis by blast
qed

text \<open>
  A send that fails silences its pipe for ever: no operation is in flight and
  \<^verbatim>\<open>m_bNeedPostOPT\<close> is not set, so no \<^verbatim>\<open>Send\<close> starts one, and nothing the process does later,
  giving the pipe to a new connection included, changes that. (\<open>send_ok\<close> holds in every state the
  process can reach.)
\<close>

theorem iocp_failed_send_mutes:
  assumes "send_ok (wi_net e)"
    "take_done (iw_hCompletionPort (iworkers (wi_net e) ! i)) k (wsys (wi_net e)) = Some ((key, Send_event a, v), w)"
    "v \<noteq> Posted" "err \<noteq> 0"
    "iocp_run c gettime hs (Worker_turn i (Completed k False err xs m late) # steps) e = Inr e'"
  shows "sends (wsys (wi_net e')) a = 0 \<and> \<not> wp_bNeedPostOPT (wpipe_at (wi_net e') a)"
proof -
  from assms(5) obtain st1 where 1: "Run_turn (set_sNetSendSize c) i (Completed k False err xs m late) (wi_net e) = Inr st1"
      "iocp_run c gettime hs steps (e\<lparr>wi_net := st1\<rparr>) = Inr e'"
    by (auto simp: on_wnet_def outcome_simps)
  from failed_send_mutes [OF 1(1) assms(1-4)] have f: "evolves (wi_net e) st1" "valid_wpipe st1 a" "mute st1 a"
    by (auto simp: evolves_def)
  from iocp_run_leads [OF 1(2)] evolves_ok [OF f(1)] have "evolves st1 (wi_net e')" by (simp add: leads_def)
  with f(2,3) show ?thesis by (simp add: evolves_def mute_def)
qed

text \<open>One connection, of session 7, with a send of two bytes in flight.\<close>

definition example_wpipe :: wpipe where
  "example_wpipe =
     (let ev = \<lparr>ev_opt = SO_TCPSEND, ev_code = 0, ev_wbuf = Null_buffer, ev_wlen = 2, ev_bytes = [],
            ev_socket = 100, ev_remote = [], ev_context = Ctx_CPipe (UAddr 0 0)\<rparr> in
      \<lparr>wp_nStatus = SS_ESTABLISHED, wp_lSocketHandler = 100, wp_oAddr = [], wp_hCompletionPort = Some 3, wp_pHost = 7,
       wp_bNeedPostOPT = False, wp_pRecvEvent = ev\<lparr>ev_opt := SO_TCPRECV, ev_bytes := [0, 0, 0, 0]\<rparr>, wp_pSendEvent = ev,
       wp_oRecvStream = TStream_new BUFF_SIZE, wp_oSendStream = \<lparr>m_pbuff = [1, 2, 0, 0], m_read = 0, m_write = 2, m_max = 4\<rparr>,
       wp_nTestCount = 0\<rparr>)"

definition example_wnet :: wnet where
  "example_wnet = \<lparr>g_oCPipePool = \<lparr>m_list = [], m_sBlockCount = 1,
       m_pUnitAry = [[\<lparr>tunit = example_wpipe, len = wpipe_sz, status = IN_USE\<rparr>]], m_pUnitAry_form = Some Scalar\<rparr>,
     wsession_pipe = [7 \<mapsto> UAddr 0 0],
     iworkers = [\<lparr>iw_nStatus = THREAD_WORKING, iw_hCompletionPort = Some 3, iw_mapSocketClient = [100 \<mapsto> UAddr 0 0],
       iw_oEventQueue = TQueue_new (replicate 2 \<lparr>io_type = IO_EVENT_TYPE_COUNT, pCPipe = UAddr 0 0\<rparr>)\<rparr>],
     wsys = \<lparr>w_answers = [WAns 0 0 []], w_calls = [], w_ports = [100 \<mapsto> (3, 100)],
       in_flight = [(3, 100, Recv_event (UAddr 0 0), Receiving 4), (3, 100, Send_event (UAddr 0 0), Sending 4 0 2 [1, 2])]\<rparr>,
     wclock_reads = 0, whistory = []\<rparr>"

lemma example_wnet_ok: "send_ok example_wnet"
proof -
  have v: "valid_unit (g_oCPipePool example_wnet) a \<longleftrightarrow> a = UAddr 0 0" for a
    by (cases a) (auto simp: valid_unit_def example_wnet_def)
  have "pool_inv wpipe_sz (g_oCPipePool example_wnet)"
    unfolding pool_inv_def v by (auto simp: example_wnet_def unit_info_def)
  then show ?thesis
    unfolding send_ok_def valid_wpipe_def v
    by (auto simp: example_wnet_def sends_def wpipe_at_def get_unit_def unit_info_def example_wpipe_def Let_def)
qed

theorem iocp_failed_send_mutes_witness:
  "\<exists>e'. iocp_run example_settings (\<lambda>_. 0) quiet_hosts
       [Worker_turn 0 (Completed 1 False 64 [] 0 False), Session_calls [HostSend 7 [9]]]
       (iocper_new example_wnet None) = Inr e' \<and>
     sends (wsys (wi_net e')) (UAddr 0 0) = 0 \<and> \<not> wp_bNeedPostOPT (wpipe_at (wi_net e') (UAddr 0 0))"
proof -
  let ?e = "iocper_new example_wnet None"
  have "\<exists>e'. iocp_run example_settings (\<lambda>_. 0) quiet_hosts
       [Worker_turn 0 (Completed 1 False 64 [] 0 False), Session_calls [HostSend 7 [9]]] ?e = Inr e'"
    by (simp add: iocper_new_def example_wnet_def on_wnet_def Run_turn_def take_done_def event_pipe_def completed_bytes_def
        send_memory_def wnote_def wpipe_at_def get_unit_def unit_info_def example_wpipe_def Let_def handle_done_def event_of_def
        set_event_def set_wpipe_def put_unit_def set_unit_info_def complete_op_def case_send_def CheckSocketClient_def
        on_wpipe_def WPipe_Send_def TStream_in_def make_room_def in_s32_def in_s64_def blit_def)
  then obtain e' where run: "iocp_run example_settings (\<lambda>_. 0) quiet_hosts
       [Worker_turn 0 (Completed 1 False 64 [] 0 False), Session_calls [HostSend 7 [9]]] ?e = Inr e'" by blast
  have ok: "send_ok (wi_net ?e)" using example_wnet_ok by (simp add: iocper_new_def)
  have "\<exists>w. take_done (iw_hCompletionPort (iworkers (wi_net ?e) ! 0)) 1 (wsys (wi_net ?e)) =
      Some ((100, Send_event (UAddr 0 0), Sending 4 0 2 [1, 2]), w)"
    by (simp add: iocper_new_def example_wnet_def take_done_def)
  then obtain w where "take_done (iw_hCompletionPort (iworkers (wi_net ?e) ! 0)) 1 (wsys (wi_net ?e)) =
      Some ((100, Send_event (UAddr 0 0), Sending 4 0 2 [1, 2]), w)" by blast
  from iocp_failed_send_mutes [OF ok this _ _ run] run show ?thesis by simp
qed

end
