(* ===== verification/Iocp_Wire.thy ===== *)
theory Iocp_Wire
  imports Iocp_Spec
begin

text \<open>
  The bytes of one connection of the Windows engine: sessions give bytes on the main thread, the
  worker takes completions of the send that is in flight and starts the next one.
\<close>

section \<open>The sending side of a pipe\<close>

text \<open>
  \<open>Op_complete k m late\<close>: the worker takes the \<open>k\<close>-th operation in flight, a send of this pipe that
  took \<open>m\<close> bytes, and runs \<^verbatim>\<open>Out\<close>.
\<close>

datatype wpipe_op = Op_give "byte list" | Op_complete nat nat bool

fun do_wpipe_op :: "s32 \<Rightarrow> uaddr \<Rightarrow> wpipe_op \<Rightarrow> wpipe \<times> wos \<Rightarrow> (wpipe \<times> wos) outcome" where
  "do_wpipe_op sLen a (Op_give bs) (p, w) = WPipe_Send a bs (int (length bs)) p w"
| "do_wpipe_op sLen a (Op_complete k m late) (p, w) =
     (case take_done (wp_hCompletionPort p) k w of
        None \<Rightarrow> Inr (p, w)
      | Some ((key, r, v), w') \<Rightarrow>
          if r = Send_event a then
            bindE (completed_bytes m late v (wp_oSendStream p)) (\<lambda>bs.
            bindE (WPipe_Out sLen a (int (length bs)) p (wnote (W_sent key bs) w')) (\<lambda>(ok, p, w). Inr (p, w)))
          else Inr (p, w))"

abbreviation wpipe_ops :: "s32 \<Rightarrow> uaddr \<Rightarrow> wpipe_op list \<Rightarrow> wpipe \<times> wos \<Rightarrow> (wpipe \<times> wos) outcome" where
  "wpipe_ops sLen a \<equiv> runE (do_wpipe_op sLen a)"

fun given :: "wpipe_op list \<Rightarrow> byte list" where
  "given [] = []"
| "given (Op_give bs # ops) = bs @ given ops"
| "given (Op_complete k m late # ops) = given ops"

text \<open>The system copies the bytes when a send starts.\<close>

fun copied_early :: "wpipe_op \<Rightarrow> bool" where
  "copied_early (Op_give bs) = True"
| "copied_early (Op_complete k m late) = (\<not> late)"

text \<open>What went through sockets.\<close>

fun wire :: "wcall list \<Rightarrow> byte list" where
  "wire [] = []"
| "wire (W_sent s bs # cs) = bs @ wire cs"
| "wire (c # cs) = wire cs"

lemma wire_append [simp]: "wire (cs @ ds) = wire cs @ wire ds"
  by (induction cs rule: wire.induct) simp_all

text \<open>The sends in flight of a pipe are of the first bytes that wait in its stream.\<close>

definition send_of :: "tstream \<Rightarrow> overlapped \<Rightarrow> bool" where
  "send_of s v \<longleftrightarrow> v = Posted \<or>
     (\<exists>mx off n bs. v = Sending mx off n bs \<and> n \<le> length (pending s) \<and> bs = take n (pending s))"

definition flight_ok :: "uaddr \<Rightarrow> tstream \<Rightarrow> wos \<Rightarrow> bool" where
  "flight_ok a s w \<longleftrightarrow> (\<forall>port key v. (port, key, Send_event a, v) \<in> set (in_flight w) \<longrightarrow> send_of s v)"

lemma flight_add:
  assumes "flight_ok a s w" "in_flight v = in_flight w \<or> (\<exists>h key. in_flight v = in_flight w @ [(h, key, e, x)])" "send_of s x"
  shows "flight_ok a s v"
  using assms by (auto simp: flight_ok_def)

definition wpipe_ok :: "uaddr \<Rightarrow> wpipe \<Rightarrow> wos \<Rightarrow> bool" where
  "wpipe_ok a p w \<longleftrightarrow> pipe_stream (wp_oSendStream p) \<and> sends w a \<le> 1 \<and>
     (wp_bNeedPostOPT p \<longrightarrow> sends w a = 0 \<and> pending (wp_oSendStream p) = []) \<and> flight_ok a (wp_oSendStream p) w"

lemma wcall_facts:
  "wcall c w = Inr (r, v) \<Longrightarrow> in_flight v = in_flight w \<and> wire (w_calls v) = wire (w_calls w @ [c])"
  by (auto simp: wcall_def split: list.splits)

lemma post_facts:
  assumes "post_to port key e w = Inr (True, v)"
  shows "wire (w_calls v) = wire (w_calls w) \<and>
    (\<exists>h. in_flight v = in_flight w @ [(h, key, e, Posted)])"
  using assms by (auto simp: post_to_def post_def outcome_simps dest!: wcall_facts split: option.splits if_splits)

lemma start_facts:
  assumes "start_call c fail s e v w = Inr (ok, err, w')" "wire [c] = []"
  shows "wire (w_calls w') = wire (w_calls w) \<and>
    (in_flight w' = in_flight w \<or> (\<exists>h key. in_flight w' = in_flight w @ [(h, key, e, v)]))"
  using assms by (auto simp: start_call_def start_io_def outcome_simps dest!: wcall_facts split: option.splits if_splits)

lemma no_sends: "sends w a = 0 \<longleftrightarrow> (\<forall>x \<in> set (in_flight w). fst (snd (snd x)) \<noteq> Send_event a)"
  by (auto simp: sends_def filter_empty_conv)

lemma flight_none: "sends w a = 0 \<Longrightarrow> flight_ok a s w"
  by (fastforce simp: flight_ok_def no_sends)

lemma take_bytes:
  assumes "pipe_stream s" "n \<le> length (pending s)"
  shows "take n (TStream_buff s) = take n (pending s)"
proof -
  have "n \<le> nat (TStream_size s)" using length_pending [OF assms(1)] assms(2) by simp
  then show ?thesis by (simp add: pending_def min_def)
qed

lemma give_ok:
  assumes "WPipe_Send a bs (int (length bs)) p w = Inr (q, v)" "wpipe_ok a p w"
  shows "wpipe_ok a q v \<and> wire (w_calls v) = wire (w_calls w) \<and>
    pending (wp_oSendStream q) = pending (wp_oSendStream p) @ bs"
proof -
  from assms(1) obtain s where s: "TStream_in BUFF_SIZE bs (int (length bs)) (wp_oSendStream p) = Inr s"
    by (auto simp: WPipe_Send_def outcome_simps)
  have i: "pipe_stream s" "pending s = pending (wp_oSendStream p) @ bs"
    using buffer.push_law [OF _ s] assms(2) by (simp_all add: wpipe_ok_def)
  have fl: "flight_ok a s w" using assms(2) i(2) by (fastforce simp: flight_ok_def wpipe_ok_def send_of_def)
  show ?thesis
  proof (cases "wp_bNeedPostOPT p")
    case True
    with assms(1) s have post: "post_to (wp_hCompletionPort p) (wp_lSocketHandler p) (Send_event a) w = Inr (True, v)"
        "wp_oSendStream q = s" "\<not> wp_bNeedPostOPT q"
      by (auto simp: WPipe_Send_def outcome_simps Let_def)
    from post_facts [OF post(1)] obtain h where f: "wire (w_calls v) = wire (w_calls w)"
        "in_flight v = in_flight w @ [(h, wp_lSocketHandler p, Send_event a, Posted)]" by blast
    from True assms(2) have "sends w a = 0" by (simp add: wpipe_ok_def)
    with post_sends [OF post(1), of a] have "sends v a \<le> 1" by simp
    moreover have "flight_ok a s v" by (rule flight_add [OF fl, of v "Send_event a" Posted]) (use f(2) in \<open>auto simp: send_of_def\<close>)
    ultimately show ?thesis using post i f(1) by (simp add: wpipe_ok_def)
  next
    case False
    with assms(1) s have "q = p\<lparr>wp_oSendStream := s\<rparr>" "v = w" by (auto simp: WPipe_Send_def outcome_simps Let_def)
    with False assms(2) i fl show ?thesis by (simp add: wpipe_ok_def)
  qed
qed

lemma Out_ok:
  assumes "WPipe_Out sLen a (int n) p w = Inr (ok, q, v)" "pipe_stream (wp_oSendStream p)" "sends w a = 0" "\<not> wp_bNeedPostOPT p"
    "0 \<le> sLen"
  shows "wpipe_ok a q v \<and> wire (w_calls v) = wire (w_calls w) \<and>
    pending (wp_oSendStream q) = drop n (pending (wp_oSendStream p)) \<and> n \<le> length (pending (wp_oSendStream p))"
proof -
  from assms(1) obtain s where s: "TStream_out (int n) (wp_oSendStream p) = Inr s"
    by (auto simp: WPipe_Out_def outcome_simps)
  note o = buffer.pop_Inr [OF assms(2) s]
  from buffer.pop_law [OF assms(2) o(1)] s have d: "pending s = drop n (pending (wp_oSendStream p))" by simp
  note snd = WPipe_Out_sends [OF assms(1,3,4)]
  have len: "length (pending s) = nat (TStream_size s)" "0 \<le> TStream_size s"
    using length_pending [OF o(2)] o(2) by (auto simp: stream_inv_def TStream_size_def)
  show ?thesis
  proof (cases "TStream_size s = 0")
    case True
    with assms(1) s have "q = p\<lparr>wp_oSendStream := s, wp_bNeedPostOPT := True\<rparr>" "v = w"
      by (auto simp: WPipe_Out_def Let_def)
    with True o d len assms(3) show ?thesis by (simp add: wpipe_ok_def flight_none)
  next
    case False
    let ?n = "nat ((if TStream_size s \<ge> sLen then sLen else TStream_size s) mod 2 ^ 32)"
    have "TStream_size s < 2 ^ 31" using o(2) by (auto simp: stream_inv_def TStream_size_def in_s32_def)
    then have n: "?n \<le> length (pending s)" using len assms(5) by (auto simp: nat_mono)
    from False assms(1) s obtain err c key mx off where
      start: "start_call c SOCKET_ERROR (wp_lSocketHandler p) (Send_event a)
          (Sending mx off ?n (take ?n (TStream_buff s))) w = Inr (ok, err, v)" "wire [c] = []"
        and q: "wp_oSendStream q = s" "wp_bNeedPostOPT q = wp_bNeedPostOPT p"
      by (auto simp: WPipe_Out_def Let_def outcome_simps split: if_splits)
    note f = start_facts [OF start]
    have "flight_ok a s w" using assms(3) by (rule flight_none)
    moreover have "take ?n (TStream_buff s) = take ?n (pending s)" by (rule take_bytes [OF o(2) n])
    ultimately have "flight_ok a s v"
      using f n by (intro flight_add [of a s w v "Send_event a"]) (auto simp: send_of_def)
    with q snd o d f assms(4) show ?thesis by (simp add: wpipe_ok_def)
  qed
qed

text \<open>Taking a completion.\<close>

lemma take_done_mem:
  assumes "take_done port k w = Some ((key, r, v), w')"
  shows "\<exists>h. (h, key, r, v) \<in> set (in_flight w)" "w_calls w' = w_calls w"
  using assms by (auto simp: take_done_def split: if_splits) (metis nth_mem prod.collapse snd_conv)+

lemma completed_ok:
  assumes "completed_bytes m False v s = Inr bs"
    "send_of s v"
  shows "bs = take (length bs) (pending s)" "length bs \<le> length (pending s)"
  using assms by (auto simp: completed_bytes_def send_memory_def send_of_def min_def)

lemma do_wpipe_op_ok:
  assumes "do_wpipe_op sLen a oper (p, w) = Inr (q, v)" "wpipe_ok a p w" "copied_early oper" "0 \<le> sLen"
  shows "wpipe_ok a q v \<and>
    wire (w_calls v) @ pending (wp_oSendStream q) = wire (w_calls w) @ pending (wp_oSendStream p) @ given [oper]"
proof (cases oper)
  case (Op_give bs)
  with assms(1) have "WPipe_Send a bs (int (length bs)) p w = Inr (q, v)" by simp
  from give_ok [OF this assms(2)] Op_give show ?thesis by simp
next
  case (Op_complete k m late)
  show ?thesis
  proof (cases "take_done (wp_hCompletionPort p) k w")
    case None
    with assms Op_complete show ?thesis by simp
  next
    case (Some krvw)
    obtain key r ov w1 where krvw: "krvw = ((key, r, ov), w1)" by (metis surj_pair)
    note td = Some [unfolded krvw]
    show ?thesis
    proof (cases "r = Send_event a")
      case False
      with assms Op_complete td show ?thesis by simp
    next
      case True
      let ?s = "wp_oSendStream p"
      from assms(1,3) Op_complete td True obtain bs ok where
        1: "completed_bytes m False ov ?s = Inr bs"
          "WPipe_Out sLen a (int (length bs)) p (wnote (W_sent key bs) w1) = Inr (ok, q, v)"
        by (auto simp: outcome_simps)
      from take_done_sends [OF td, of a] True have "sends w a = Suc (sends w1 a)" by simp
      with assms(2) have s: "sends w1 a = 0" "\<not> wp_bNeedPostOPT p" by (auto simp: wpipe_ok_def)
      have str: "pipe_stream ?s" using assms(2) by (simp add: wpipe_ok_def)
      obtain h where "(h, key, Send_event a, ov) \<in> set (in_flight w)" using take_done_mem(1) [OF td] True by blast
      with assms(2) have "send_of ?s ov"
        by (auto simp: wpipe_ok_def flight_ok_def)
      note bs = completed_ok [OF 1(1) this]
      have "sends (wnote (W_sent key bs) w1) a = 0" using s(1) by simp
      note out = Out_ok [OF 1(2) str this s(2) assms(4)]
      have "bs @ drop (length bs) (pending ?s) = pending ?s" using bs(1) by (metis append_take_drop_id)
      with out take_done_mem(2) [OF td] Op_complete show ?thesis by (simp add: wnote_def)
    qed
  qed
qed

lemma given_concat: "concat (map (\<lambda>oper. given [oper]) ops) = given ops"
  by (induction ops rule: given.induct) simp_all

text \<open>The contract of a connection, kept by the pipe of the Windows engine.\<close>

interpretation iocp_link: byte_link "do_wpipe_op sLen a" "\<lambda>oper. copied_early oper \<and> 0 \<le> sLen"
    "\<lambda>(p, w). wpipe_ok a p w" "\<lambda>(p, w). wire (w_calls w)" "\<lambda>(p, w). pending (wp_oSendStream p)"
    "\<lambda>oper. given [oper]" "\<lambda>(p, w). wp_bNeedPostOPT p" for sLen a
proof unfold_locales
  fix c and s t :: "wpipe \<times> wos"
  assume s: "case s of (p, w) \<Rightarrow> wpipe_ok a p w" and c: "copied_early c \<and> 0 \<le> sLen"
    and run: "do_wpipe_op sLen a c s = Inr t"
  obtain p w q v where pw: "s = (p, w)" "t = (q, v)" by (metis surj_pair)
  from do_wpipe_op_ok [OF run [unfolded pw]] s c pw
  show "case t of (p, w) \<Rightarrow> wpipe_ok a p w"
    "(case t of (p, w) \<Rightarrow> wire (w_calls w)) @ (case t of (p, w) \<Rightarrow> pending (wp_oSendStream p)) =
      (case s of (p, w) \<Rightarrow> wire (w_calls w)) @ (case s of (p, w) \<Rightarrow> pending (wp_oSendStream p)) @ given [c]"
    by simp_all
qed (auto simp: wpipe_ok_def)

section \<open>Properties of the sending side\<close>


definition idle_wpipe :: wpipe where
  "idle_wpipe = example_wpipe\<lparr>wp_bNeedPostOPT := True, wp_oSendStream := TStream_new BUFF_SIZE\<rparr>"

definition idle_wos :: wos where
  "idle_wos = \<lparr>w_answers = [WAns 1 0 [], WAns (- 1) 997 [], WAns 0 0 []], w_calls = [], w_ports = [100 \<mapsto> (3, 100)], in_flight = []\<rparr>"

lemma idle_wpipe_ok: "wpipe_ok a idle_wpipe idle_wos"
  by (simp add: wpipe_ok_def idle_wpipe_def idle_wos_def stream_inv_new in_s32_def sends_def flight_ok_def)

lemmas wpipe_eval = idle_wpipe_def idle_wos_def example_wpipe_def Let_def WPipe_Send_def WPipe_Out_def TStream_new_def
  TStream_in_def make_room_def TStream_size_def TStream_buff_def TStream_out_def blit_def in_s32_def in_s64_def
  post_to_def post_def wcall_def take_done_def completed_bytes_def send_memory_def wnote_def start_call_def start_io_def

lemma example_ops_run:
  "\<exists>q v. wpipe_ops 1024 (UAddr 0 0) [Op_give [1, 2], Op_complete 0 0 False, Op_give [3], Op_complete 0 1 False]
       (idle_wpipe, idle_wos) = Inr (q, v) \<and> wire (w_calls v) = [1] \<and> pending (wp_oSendStream q) = [2, 3]"
  by (simp add: wpipe_eval pending_def)


text \<open>
  A system that reads the bytes later reads freed memory when a \<^verbatim>\<open>Send\<close> in between has made the stream
  grow: nothing keeps the buffer of a send that is in flight.
\<close>

theorem iocp_send_overrun:
  assumes "WPipe_Send a bs (int (length bs)) p w = Inr (q, v)" "pipe_stream (wp_oSendStream p)"
    "m_max (wp_oSendStream p) - m_write (wp_oSendStream p) < int (length bs)"
    "m_max (wp_oSendStream p) - TStream_size (wp_oSendStream p) \<le> int (length bs)"
  shows "completed_bytes m True (Sending (m_max (wp_oSendStream p)) off n cs) (wp_oSendStream q) = Inl WildPointer"
proof -
  let ?s = "wp_oSendStream p"
  from assms(1) have q: "TStream_in BUFF_SIZE bs (int (length bs)) ?s = Inr (wp_oSendStream q)"
    by (auto simp: WPipe_Send_def Let_def outcome_simps split: if_splits)
  then obtain t where t: "make_room BUFF_SIZE (int (length bs)) ?s = Inr t" "m_max (wp_oSendStream q) = m_max t"
    by (auto simp: TStream_in_def outcome_simps dest!: sym [of _ "wp_oSendStream q"])
  have "m_max ?s < m_max t"
  proof -
    have grow: "n0 \<le> n1" if "grow_size bl cur sz n0 = Inr n1" for bl cur sz n0 n1
      using that
    proof (induction bl cur sz n0 rule: grow_size.induct)
      case (1 bl cur sz n0)
      from "1.prems" show ?case
        by (subst (asm) grow_size.simps) (auto simp: outcome_simps split: if_splits dest: "1.IH")
    qed
    from t(1) assms(3,4) obtain n1 where "grow_size BUFF_SIZE (TStream_size ?s) (int (length bs)) (m_max ?s + BUFF_SIZE) = Inr n1"
        "m_max t = n1"
      by (auto simp: make_room_def Let_def TStream_size_def malloc_new_size_def outcome_simps)
    with grow show ?thesis by fastforce
  qed
  with t(2) show ?thesis by (simp add: completed_bytes_def send_memory_def)
qed

section \<open>The receiving side\<close>

definition worker_queue :: "nat \<Rightarrow> wnet \<Rightarrow> ioevent list" where
  "worker_queue i st = queued (iw_oEventQueue (iworkers st ! i))"

definition worker_map :: "nat \<Rightarrow> wnet \<Rightarrow> s64 \<rightharpoonup> uaddr" where
  "worker_map i st = iw_mapSocketClient (iworkers st ! i)"

definition worker_ok :: "nat \<Rightarrow> wnet \<Rightarrow> bool" where
  "worker_ok i st \<longleftrightarrow> i < length (iworkers st) \<and> queue_inv (iw_oEventQueue (iworkers st ! i))"

lemma worker_parts [wnet_simps]:
  "worker_queue i (set_wpipe a p st) = worker_queue i st" "worker_queue i (st\<lparr>wsys := w\<rparr>) = worker_queue i st"
  "worker_map i (set_wpipe a p st) = worker_map i st" "worker_map i (st\<lparr>wsys := w\<rparr>) = worker_map i st"
  "worker_ok i (set_wpipe a p st) = worker_ok i st" "worker_ok i (st\<lparr>wsys := w\<rparr>) = worker_ok i st"
  by (simp_all add: worker_queue_def worker_map_def worker_ok_def set_wpipe_def)

lemma wqueue_facts:
  assumes "wqueue_event i ty a st = Inr st'" "worker_ok i st"
  shows "worker_queue i st' = worker_queue i st @ [\<lparr>io_type = ty, pCPipe = a\<rparr>]" "worker_map i st' = worker_map i st"
    "wpipe_at st' = wpipe_at st" "wsys st' = wsys st" "worker_ok i st'"
proof -
  from assms(1) obtain q where q: "TQueue_Add \<lparr>io_type = ty, pCPipe = a\<rparr> (iw_oEventQueue (iworkers st ! i)) = Some q"
      "st' = set_worker i ((iworkers st ! i)\<lparr>iw_oEventQueue := q\<rparr>) st"
    by (auto simp: wqueue_event_def split: option.splits)
  have inv: "queue_inv (iw_oEventQueue (iworkers st ! i))" and i: "i < length (iworkers st)"
    using assms(2) by (simp_all add: worker_ok_def)
  from ring_queue.put_Some [OF inv q(1)] i q(2)
  show "worker_queue i st' = worker_queue i st @ [\<lparr>io_type = ty, pCPipe = a\<rparr>]" "worker_map i st' = worker_map i st"
    "wpipe_at st' = wpipe_at st" "wsys st' = wsys st" "worker_ok i st'"
    by (simp_all add: worker_queue_def worker_map_def worker_ok_def set_worker_def wpipe_at_def fun_eq_iff)
qed

lemma disconnect_facts:
  assumes "SendDisconnectEvent i key a st = Inr st'" "worker_ok i st" "worker_map i st key = Some a" "valid_wpipe st a"
  shows "worker_queue i st' = worker_queue i st @ [\<lparr>io_type = IO_EVENT_TYPE_BREAK, pCPipe = a\<rparr>]"
    "worker_map i st' = (worker_map i st)(key := None)"
    "wpipe_at st' a = (wpipe_at st a)\<lparr>wp_lSocketHandler := INVALID_SOCKET\<rparr>"
    "last (w_calls (wsys st')) = W_close (wp_lSocketHandler (wpipe_at st a))"
proof -
  let ?s = "wp_lSocketHandler (wpipe_at st a)"
  let ?w = "close_sock ?s (wnote (W_setsockopt ?s 128) (wnote (W_shutdown ?s) (wsys st)))"
  let ?st = "set_wpipe a ((wpipe_at st a)\<lparr>wp_lSocketHandler := INVALID_SOCKET\<rparr>) (st\<lparr>wsys := ?w\<rparr>)"
  from assms(1,3) obtain st1 where
    q: "wqueue_event i IO_EVENT_TYPE_BREAK a ?st = Inr st1"
      "st' = set_worker i ((iworkers st1 ! i)\<lparr>iw_mapSocketClient := (worker_map i st1)(key := None)\<rparr>) st1"
    by (auto simp: SendDisconnectEvent_def worker_map_def Let_def outcome_simps)
  have ok: "worker_ok i ?st" using assms(2) by (simp add: wnet_simps)
  note f = wqueue_facts [OF q(1) ok]
  have i: "i < length (iworkers st1)" using f(5) by (simp add: worker_ok_def)
  have e: "worker_queue i st' = worker_queue i st1" "worker_map i st' = (worker_map i st1)(key := None)"
    "wpipe_at st' = wpipe_at st1" "wsys st' = wsys st1"
    using q(2) i by (simp_all add: worker_queue_def worker_map_def set_worker_def wpipe_at_def fun_eq_iff)
  have v: "valid_wpipe (st\<lparr>wsys := ?w\<rparr>) a" using assms(4) by (simp add: wnet_simps)
  show "worker_queue i st' = worker_queue i st @ [\<lparr>io_type = IO_EVENT_TYPE_BREAK, pCPipe = a\<rparr>]"
    "worker_map i st' = (worker_map i st)(key := None)"
    using e f by (simp_all add: wnet_simps)
  show "wpipe_at st' a = (wpipe_at st a)\<lparr>wp_lSocketHandler := INVALID_SOCKET\<rparr>"
    using e f by (simp add: wpipe_at_set [OF v])
  show "last (w_calls (wsys st')) = W_close ?s"
    using e f by (simp add: wnet_simps close_sock_def wnote_def)
qed

text \<open>What the main thread is going to hear, and the state of the connection that goes with it.\<close>

definition recv_told :: "nat \<Rightarrow> s64 \<Rightarrow> uaddr \<Rightarrow> wnet \<Rightarrow> byte list \<Rightarrow> wnet \<Rightarrow> bool" where
  "recv_told i key a st bs st' \<longleftrightarrow>
     pending (wp_oRecvStream (wpipe_at st' a)) = pending (wp_oRecvStream (wpipe_at st a)) @ bs \<and>
     (if bs \<noteq> [] \<and> worker_map i st' key = Some a then
        worker_queue i st' = worker_queue i st @ [\<lparr>io_type = IO_EVENT_TYPE_RECV, pCPipe = a\<rparr>] \<and>
        wp_lSocketHandler (wpipe_at st' a) = wp_lSocketHandler (wpipe_at st a) \<and>
        ev_opt (wp_pRecvEvent (wpipe_at st' a)) = SO_TCPRECV
      else
        worker_queue i st' = worker_queue i st @ [\<lparr>io_type = IO_EVENT_TYPE_BREAK, pCPipe = a\<rparr>] \<and>
        worker_map i st' key = None \<and> wp_lSocketHandler (wpipe_at st' a) = INVALID_SOCKET \<and>
        last (w_calls (wsys st')) = W_close (wp_lSocketHandler (wpipe_at st a)))"

lemma case_recv_told:
  assumes "case_recv i key (Recv_event a) a n 0 st = Inr st'" "worker_ok i st" "valid_wpipe st a"
    "worker_map i st key = Some a" "pipe_stream (wp_oRecvStream (wpipe_at st a))"
    "n \<le> length (ev_bytes (wp_pRecvEvent (wpipe_at st a)))"
  shows "recv_told i key a st (take n (ev_bytes (wp_pRecvEvent (wpipe_at st a)))) st'"
proof -
  let ?p = "wpipe_at st a" and ?bs = "take n (ev_bytes (wp_pRecvEvent (wpipe_at st a)))"
  have check: "CheckSocketClient key a (iworkers st ! i)"
    using assms(4) by (simp add: CheckSocketClient_def worker_map_def)
  show ?thesis
  proof (cases "n = 0")
    case True
    with assms(1) check have "SendDisconnectEvent i key a st = Inr st'" by (simp add: case_recv_def)
    from disconnect_facts [OF this assms(2,4,3)] True show ?thesis by (simp add: recv_told_def)
  next
    case False
    with assms(1) check obtain p ok st1 where
      1: "WPipe_In (ev_bytes (wp_pRecvEvent ?p)) (int n) ?p = Inr p"
        "on_wpipe_ok a (WPipe_DoRecv a) (set_wpipe a p st) = Inr (ok, st1)"
        "(if \<not> ok then SendDisconnectEvent i key a st1 else wqueue_event i IO_EVENT_TYPE_RECV a st1) = Inr st'"
      by (auto simp: case_recv_def outcome_simps)
    from 1(1) obtain s where s: "TStream_in BUFF_SIZE (ev_bytes (wp_pRecvEvent ?p)) (int n) (wp_oRecvStream ?p) = Inr s"
        "p = ?p\<lparr>wp_oRecvStream := s\<rparr>" by (auto simp: WPipe_In_def outcome_simps)
    from TStream_in_Inr [OF assms(5) _ _ s(1)] assms(6) have s2: "pending s = pending (wp_oRecvStream ?p) @ ?bs" by simp
    have at: "wpipe_at (set_wpipe a p st) a = p" by (simp add: wpipe_at_set [OF assms(3)])
    from 1(2) obtain q w where q: "WPipe_DoRecv a p (wsys st) = Inr (ok, q, w)"
        "st1 = (set_wpipe a q (set_wpipe a p st))\<lparr>wsys := w\<rparr>"
      by (auto simp: on_wpipe_ok_def at wnet_simps outcome_simps)
    have q2: "wp_oRecvStream q = s" "wp_lSocketHandler q = wp_lSocketHandler ?p" "ev_opt (wp_pRecvEvent q) = SO_TCPRECV"
      using q(1) s(2) by (auto simp: WPipe_DoRecv_def formartIocpevent_def Let_def outcome_simps split: if_splits)
    have st1: "wpipe_at st1 a = q" "worker_queue i st1 = worker_queue i st" "worker_map i st1 = worker_map i st"
        "worker_ok i st1" "valid_wpipe st1 a"
      using q(2) assms(2,3) by (simp_all add: wnet_simps wpipe_at_set)
    have ne: "?bs \<noteq> []" using False assms(6) by auto
    show ?thesis
    proof (cases ok)
      case True
      with 1(3) have "wqueue_event i IO_EVENT_TYPE_RECV a st1 = Inr st'" by simp
      from wqueue_facts [OF this st1(4)] st1 q2 s2 assms(4) ne show ?thesis by (simp add: recv_told_def)
    next
      case False
      with 1(3) have "SendDisconnectEvent i key a st1 = Inr st'" by simp
      from disconnect_facts [OF this st1(4) _ st1(5)] st1 q2 s2 assms(4) show ?thesis by (simp add: recv_told_def)
    qed
  qed
qed


lemma example_worker_ok: "worker_ok 0 example_wnet" "worker_queue 0 example_wnet = []"
  using TQueue_new_ok [of "replicate 2 \<lparr>io_type = IO_EVENT_TYPE_COUNT, pCPipe = UAddr 0 0\<rparr>"]
  by (simp_all add: worker_ok_def worker_queue_def example_wnet_def)

lemma example_wpipe_at: "wpipe_at example_wnet (UAddr 0 0) = example_wpipe" "valid_wpipe example_wnet (UAddr 0 0)"
  by (simp_all add: wpipe_at_def example_wnet_def get_unit_def unit_info_def valid_wpipe_def valid_unit_def)


section \<open>Recycled pipes\<close>

text \<open>
  The pipe of a broken connection goes back to its pool as it is, and the next connection that gets it
  starts with the bytes and the flag it left: nobody calls \<^verbatim>\<open>Clear\<close>. (Sessions that make no calls in
  their callbacks.)
\<close>

lemma wcall_host_quiet:
  "wcall_host hs h ev st = Inr st' \<Longrightarrow> on_call hs = (\<lambda>_. []) \<Longrightarrow> st' = st\<lparr>whistory := whistory st @ [ev]\<rparr>"
  by (auto simp: wcall_host_def split: if_splits)

definition left_over :: "wpipe \<Rightarrow> tstream \<times> tstream \<times> bool" where
  "left_over p = (wp_oRecvStream p, wp_oSendStream p, wp_bNeedPostOPT p)"

lemma break_leaves:
  assumes "event_break hs a st = Inr st'" "on_call hs = (\<lambda>_. [])" "send_ok st" "valid_wpipe st a"
  shows "left_over (wpipe_at st' a) = left_over (wpipe_at st a) \<and> a \<notin> in_use (g_oCPipePool st')"
proof -
  let ?st = "set_wpipe a ((wpipe_at st a)\<lparr>wp_nStatus := SS_UNINITIALIZE\<rparr>) st"
  from assms(1) obtain h st1 st2 where 1: "wforget_pipe h ?st = Inr st1"
      "wcall_host hs h (OnDisconnect h) st1 = Inr st2" "wRecover a st2 = Inr st'"
    by (auto simp: event_break_def Let_def outcome_simps)
  have pool: "g_oCPipePool st2 = g_oCPipePool ?st"
    using 1(1) wcall_host_quiet [OF 1(2) assms(2)] by (auto simp: wforget_pipe_def split: if_splits)
  from 1(3) obtain pool' where rec: "TPool_Recover wpipe_sz a (g_oCPipePool ?st) = Inr pool'" "g_oCPipePool st' = pool'"
    by (auto simp: wRecover_def outcome_simps pool)
  from rec(1) have use: "a \<in> in_use (g_oCPipePool ?st)"
    by (auto simp: TPool_Recover_def CheckAddr_def in_use_def outcome_simps split: if_splits)
  from TPool_Recover_ok [OF pool_inv_set [OF assms(3)] use] rec
  have "wpipe_at st' a = wpipe_at ?st a" "a \<notin> in_use (g_oCPipePool st')" by (auto simp: wpipe_at_def)
  with assms(4) show ?thesis by (simp add: wpipe_at_set left_over_def)
qed

lemma accept_takes_over:
  assumes "accept_connection n hs srv s a e = Inr e'" "on_call hs = (\<lambda>_. [])" "valid_wpipe (wi_net e) a"
  shows "left_over (wpipe_at (wi_net e') a) = left_over (wpipe_at (wi_net e) a) \<and>
    wsession_pipe (wi_net e') (on_malloc hs (whistory (wi_net e) @ [MallocConnection srv])) = Some a"
proof -
  define c where "c = on_malloc hs (whistory (wi_net e) @ [MallocConnection srv])"
  from assms(1) obtain e1 where 1: "on_wnet (wcall_host hs srv (MallocConnection srv)) e = Inr e1" "c \<noteq> 0"
    by (auto simp: accept_connection_def c_def Let_def bindE_eq_Inr)
  from assms(1) 1 obtain i e2 where 2: "BalancingWork n e1 = Inr (i, e2)"
    unfolding c_def by (auto simp: accept_connection_def Let_def bindE_eq_Inr)
  let ?p = "(wpipe_at (wi_net e2) a)\<lparr>wp_pHost := c, wp_lSocketHandler := s\<rparr>"
  let ?st = "set_wpipe a ?p (wi_net e2)"
  let ?st2 = "?st\<lparr>wsession_pipe := (wsession_pipe ?st)(c \<mapsto> a)\<rparr>"
  from assms(1) 1 2 obtain ok3 st3 where 3: "AddPIPE i a ?st2 = Inr (ok3, st3)"
    unfolding c_def by (auto simp: accept_connection_def Let_def bindE_eq_Inr)
  from 3 have "ok3" by (auto simp: AddPIPE_def Let_def outcome_simps split: if_splits)
  with assms(1) 1 2 3 obtain st4 st5 where
    4: "post_accepted a st3 = Inr st4" "wcall_host hs c (OnConnected c) st4 = Inr st5" "e' = e2\<lparr>wi_net := st5\<rparr>"
    unfolding c_def by (auto simp: accept_connection_def Let_def bindE_eq_Inr)
  have e2: "wpipe_at (wi_net e2) a = wpipe_at (wi_net e) a" "valid_wpipe (wi_net e2) a"
    using 1(1) Balancing_leads [OF 2] assms(3)
    by (auto simp: on_wnet_def wnet_simps outcome_simps dest!: wcall_host_quiet [OF _ assms(2)])
  have v2: "valid_wpipe ?st2 a" using e2(2) by (simp add: wnet_simps)
  from 3 have 5: "left_over (wpipe_at st3 a) = left_over (wpipe_at ?st2 a)" "wsession_pipe st3 = wsession_pipe ?st2"
      "valid_wpipe st3 a"
    using v2 by (auto simp: AddPIPE_def Let_def outcome_simps wnet_simps wpipe_at_set left_over_def split: if_splits)
  from 4(1) 5(3) have "left_over (wpipe_at st4 a) = left_over (wpipe_at st3 a)" "wsession_pipe st4 = wsession_pipe st3"
    by (auto simp: post_accepted_def on_wpipe_def Let_def outcome_simps wnet_simps wpipe_at_set left_over_def)
  with 4(3) 5 wcall_host_quiet [OF 4(2) assms(2)] e2 show ?thesis
    by (simp add: c_def wnet_simps wpipe_at_set left_over_def)
qed

text \<open>
  The pipe of a broken connection goes back to its pool as it is: the next connection that is
  accepted on it hands its session the bytes that the previous peer sent last, and sends the bytes
  that were meant for the previous peer. (For sessions that make no calls in these callbacks.)
\<close>

theorem iocp_recycled_pipe_dirty:
  assumes "event_break hs a st = Inr st'" "accept_connection n hs srv s a e = Inr e'"
    "on_call hs = (\<lambda>_. [])" "send_ok st" "valid_wpipe st a" "valid_wpipe (wi_net e) a"
    "wpipe_at (wi_net e) a = wpipe_at st' a"
  shows "wp_oRecvStream (wpipe_at (wi_net e') a) = wp_oRecvStream (wpipe_at st a) \<and>
    wp_oSendStream (wpipe_at (wi_net e') a) = wp_oSendStream (wpipe_at st a) \<and>
    wp_bNeedPostOPT (wpipe_at (wi_net e') a) = wp_bNeedPostOPT (wpipe_at st a) \<and>
    wsession_pipe (wi_net e') (on_malloc hs (whistory (wi_net e) @ [MallocConnection srv])) = Some a"
  using break_leaves [OF assms(1,3-5)] accept_takes_over [OF assms(2,3,6)] assms(7) by (simp add: left_over_def)

definition used_wnet :: wnet where
  "used_wnet = set_wpipe (UAddr 0 0) (example_wpipe\<lparr>wp_oRecvStream := \<lparr>m_pbuff = [5, 6, 0, 0], m_read = 0, m_write = 2, m_max = 4\<rparr>\<rparr>)
     (example_wnet\<lparr>wsys := (wsys example_wnet)\<lparr>w_answers := [WAns 3 0 [], WAns 1 0 []]\<rparr>\<rparr>)"

lemmas wnet_eval = used_wnet_def example_wnet_def example_wpipe_def quiet_hosts_def Let_def set_wpipe_def put_unit_def
  set_unit_info_def unit_info_def wpipe_at_def get_unit_def event_break_def wforget_pipe_def wcall_host_def wRecover_def
  TPool_Recover_def CheckAddr_def valid_unit_def accept_connection_def on_wnet_def BalancingWork_def AddPIPE_def add_port_def
  wcall_def post_accepted_def on_wpipe_def post_to_def post_def in_s32_def formartIocpevent_def event_clear_def

theorem iocp_recycled_pipe_dirty_witness:
  "\<exists>st' e'. event_break quiet_hosts (UAddr 0 0) used_wnet = Inr st' \<and>
     accept_connection 1 quiet_hosts 9 101 (UAddr 0 0) (iocper_new st' None) = Inr e' \<and>
     pending (wp_oRecvStream (wpipe_at (wi_net e') (UAddr 0 0))) = [5, 6] \<and> wsession_pipe (wi_net e') 7 = Some (UAddr 0 0)"
proof -
  have "\<exists>st'. event_break quiet_hosts (UAddr 0 0) used_wnet = Inr st' \<and>
      (\<exists>e'. accept_connection 1 quiet_hosts 9 101 (UAddr 0 0) (iocper_new st' None) = Inr e')"
    by (simp add: wnet_eval iocper_new_def signed_modulo_int_def signed_divide_int_def)
  then obtain st' e' where r: "event_break quiet_hosts (UAddr 0 0) used_wnet = Inr st'"
      "accept_connection 1 quiet_hosts 9 101 (UAddr 0 0) (iocper_new st' None) = Inr e'" by blast
  have v: "valid_wpipe example_wnet (UAddr 0 0)" by (rule example_wpipe_at(2))
  have "evolves example_wnet used_wnet"
    unfolding used_wnet_def
    by (rule evolves_trans [OF sys_evolves [OF example_wnet_ok] set_wpipe_evolves])
      (simp_all add: wnet_simps example_wpipe_at evolves_ok [OF sys_evolves [OF example_wnet_ok]])
  with v have ok: "send_ok used_wnet" "valid_wpipe used_wnet (UAddr 0 0)" by (auto simp: evolves_def)
  have v2: "valid_wpipe (wi_net (iocper_new st' None)) (UAddr 0 0)"
    using break_evolves [OF r(1) ok(1)] ok(2) by (simp add: iocper_new_def evolves_def)
  have p: "pending (wp_oRecvStream (wpipe_at used_wnet (UAddr 0 0))) = [5, 6]"
    using v by (simp add: used_wnet_def wpipe_at_set wnet_simps pending_def TStream_size_def TStream_buff_def)
  have "on_call quiet_hosts = (\<lambda>_. [])" by (simp add: quiet_hosts_def)
  from iocp_recycled_pipe_dirty [OF r this ok v2] r p show ?thesis
    by (auto simp: iocper_new_def quiet_hosts_def)
qed

end
