(* ===== verification/Pb_Varint.thy ===== *)
theory Pb_Varint
  imports Bytes
begin

unbundle bit_operations_syntax

text \<open>
  The variable-length integers of the wire format of protocol buffers (Public/google/protobuf,
  io/coded_stream.h and io/coded_stream.cc) on arrays: the routines the library unrolls by
  hand to write one (\<^verbatim>\<open>WriteVarint32FallbackToArrayInline\<close>, \<^verbatim>\<open>WriteVarint64ToArrayInline\<close>), to
  compute its size (\<^verbatim>\<open>VarintSize32\<close>, \<^verbatim>\<open>VarintSize64\<close>) and to read one
  (\<^verbatim>\<open>ReadVarint32FromArray\<close>, the fast path of \<^verbatim>\<open>ReadVarint64Fallback\<close>), next to the loops of
  their slow paths. A pointer into a buffer is the list of the bytes from there to the end of
  the buffer; reading or writing behind the end is the fault \<open>OutOfBounds\<close>. The reference of
  all of them is the base-128 expansion of a natural number, least significant digit first,
  with the high bit set on every digit but the last.
\<close>

section \<open>Memory behind a pointer\<close>

definition mem_get :: "byte list \<Rightarrow> nat \<Rightarrow> byte outcome" where
  "mem_get m i = (if i < length m then Inr (m ! i) else Inl OutOfBounds)"

definition mem_set :: "byte list \<Rightarrow> nat \<Rightarrow> byte \<Rightarrow> byte list outcome" where
  "mem_set m i b = (if i < length m then Inr (m[i := b]) else Inl OutOfBounds)"

text \<open>\<^verbatim>\<open>target[i] &= 0x7F\<close>.\<close>

definition clear_top :: "byte list \<Rightarrow> nat \<Rightarrow> byte list outcome" where
  "clear_top m i = bindE (mem_get m i) (\<lambda>b. mem_set m i (b AND 0x7F))"

section \<open>Constants\<close>

definition kMaxVarintBytes :: nat where "kMaxVarintBytes = 10"
definition kMaxVarint32Bytes :: nat where "kMaxVarint32Bytes = 5"

section \<open>Writing\<close>

text \<open>\<^verbatim>\<open>CodedOutputStream::WriteVarint32FallbackToArrayInline\<close>: the new contents of the
  target and the distance of the pointer it returns.\<close>

definition WriteVarint32FallbackToArrayInline :: "u32 \<Rightarrow> byte list \<Rightarrow> (byte list \<times> nat) outcome" where
  "WriteVarint32FallbackToArrayInline v t =
    bindE (mem_set t 0 (ucast (v OR 0x80))) (\<lambda>t.
    if 2 ^ 7 \<le> v then
      bindE (mem_set t 1 (ucast (drop_bit 7 v OR 0x80))) (\<lambda>t.
      if 2 ^ 14 \<le> v then
        bindE (mem_set t 2 (ucast (drop_bit 14 v OR 0x80))) (\<lambda>t.
        if 2 ^ 21 \<le> v then
          bindE (mem_set t 3 (ucast (drop_bit 21 v OR 0x80))) (\<lambda>t.
          if 2 ^ 28 \<le> v then
            bindE (mem_set t 4 (ucast (drop_bit 28 v))) (\<lambda>t. Inr (t, 5))
          else bindE (clear_top t 3) (\<lambda>t. Inr (t, 4)))
        else bindE (clear_top t 2) (\<lambda>t. Inr (t, 3)))
      else bindE (clear_top t 1) (\<lambda>t. Inr (t, 2)))
    else bindE (clear_top t 0) (\<lambda>t. Inr (t, 1)))"

text \<open>\<^verbatim>\<open>WriteVarint32ToArray\<close> and \<^verbatim>\<open>WriteTagToArray\<close>: the one- and two-byte cases first.\<close>

definition WriteVarint32ToArray :: "u32 \<Rightarrow> byte list \<Rightarrow> (byte list \<times> nat) outcome" where
  "WriteVarint32ToArray v t =
    (if v < 0x80 then bindE (mem_set t 0 (ucast v)) (\<lambda>t. Inr (t, 1))
     else WriteVarint32FallbackToArrayInline v t)"

definition WriteTagToArray :: "u32 \<Rightarrow> byte list \<Rightarrow> (byte list \<times> nat) outcome" where
  "WriteTagToArray v t =
    (if v < 2 ^ 7 then bindE (mem_set t 0 (ucast v)) (\<lambda>t. Inr (t, 1))
     else if v < 2 ^ 14 then
       bindE (mem_set t 0 (ucast (v OR 0x80))) (\<lambda>t.
       bindE (mem_set t 1 (ucast (drop_bit 7 v))) (\<lambda>t. Inr (t, 2)))
     else WriteVarint32FallbackToArrayInline v t)"

text \<open>\<^verbatim>\<open>WriteVarint64ToArrayInline\<close>: the three pieces of the value, the search tree for the
  size, the fall-through of the labels \<^verbatim>\<open>size10\<close> to \<^verbatim>\<open>size1\<close>.\<close>

definition size_of_parts :: "u32 \<Rightarrow> u32 \<Rightarrow> u32 \<Rightarrow> nat" where
  "size_of_parts part0 part1 part2 =
    (if part2 = 0 then
       if part1 = 0 then
         if part0 < 2 ^ 14 then if part0 < 2 ^ 7 then 1 else 2
         else if part0 < 2 ^ 21 then 3 else 4
       else
         if part1 < 2 ^ 14 then if part1 < 2 ^ 7 then 5 else 6
         else if part1 < 2 ^ 21 then 7 else 8
     else if part2 < 2 ^ 7 then 9 else 10)"

definition size_label :: "nat \<Rightarrow> nat \<Rightarrow> u32 \<Rightarrow> byte list \<Rightarrow> byte list outcome" where
  "size_label siz i w t = (if i \<le> siz then mem_set t (i - 1) (ucast (w OR 0x80)) else Inr t)"

definition WriteVarint64ToArrayInline :: "u64 \<Rightarrow> byte list \<Rightarrow> (byte list \<times> nat) outcome" where
  "WriteVarint64ToArrayInline value t =
    (let part0 = ucast value :: u32;
         part1 = ucast (drop_bit 28 value) :: u32;
         part2 = ucast (drop_bit 56 value) :: u32;
         siz = size_of_parts part0 part1 part2
     in bindE (size_label siz 10 (drop_bit 7 part2) t) (\<lambda>t.
        bindE (size_label siz 9 part2 t) (\<lambda>t.
        bindE (size_label siz 8 (drop_bit 21 part1) t) (\<lambda>t.
        bindE (size_label siz 7 (drop_bit 14 part1) t) (\<lambda>t.
        bindE (size_label siz 6 (drop_bit 7 part1) t) (\<lambda>t.
        bindE (size_label siz 5 part1 t) (\<lambda>t.
        bindE (size_label siz 4 (drop_bit 21 part0) t) (\<lambda>t.
        bindE (size_label siz 3 (drop_bit 14 part0) t) (\<lambda>t.
        bindE (size_label siz 2 (drop_bit 7 part0) t) (\<lambda>t.
        bindE (size_label siz 1 part0 t) (\<lambda>t.
        bindE (clear_top t (siz - 1)) (\<lambda>t. Inr (t, siz)))))))))))))"


text \<open>The slow paths of \<^verbatim>\<open>WriteVarint32\<close> and \<^verbatim>\<open>WriteVarint64\<close>, the same loop at two widths:
  the bytes it leaves in the local array.\<close>

lemma unat_shift7: "unat (drop_bit 7 v) = unat v div 128"
  unfolding unat_drop_bit_eq by (simp add: drop_bit_eq_div)

function varint_loop :: "'a::len word \<Rightarrow> byte list" where
  "varint_loop value =
    (if 0x7F < unat value
     then ((ucast value AND 0x7F) OR 0x80) # varint_loop (drop_bit 7 value)
     else [ucast value AND 0x7F])"
  by pat_completeness auto
termination
  by (relation "measure unat") (auto simp: unat_shift7)

declare varint_loop.simps [simp del]

section \<open>Sizes\<close>

text \<open>\<^verbatim>\<open>VarintSize32\<close> with its fallback, and \<^verbatim>\<open>VarintSize64\<close>.\<close>

definition VarintSize32Fallback :: "u32 \<Rightarrow> nat" where
  "VarintSize32Fallback value =
    (if value < 2 ^ 7 then 1 else if value < 2 ^ 14 then 2 else if value < 2 ^ 21 then 3
     else if value < 2 ^ 28 then 4 else 5)"

definition VarintSize32 :: "u32 \<Rightarrow> nat" where
  "VarintSize32 value = (if value < 2 ^ 7 then 1 else VarintSize32Fallback value)"

definition VarintSize64 :: "u64 \<Rightarrow> nat" where
  "VarintSize64 value =
    (if value < 2 ^ 35 then
       if value < 2 ^ 7 then 1 else if value < 2 ^ 14 then 2 else if value < 2 ^ 21 then 3
       else if value < 2 ^ 28 then 4 else 5
     else
       if value < 2 ^ 42 then 6 else if value < 2 ^ 49 then 7 else if value < 2 ^ 56 then 8
       else if value < 2 ^ 63 then 9 else 10)"

section \<open>Reading\<close>

text \<open>\<^verbatim>\<open>ReadVarint32FromArray\<close>: the value and the distance of the pointer it returns, \<open>None\<close>
  for \<^verbatim>\<open>NULL\<close>. \<open>skip_high\<close> is the loop over the bytes above 32 bits.\<close>

fun skip_high :: "nat \<Rightarrow> byte list \<Rightarrow> nat \<Rightarrow> u32 \<Rightarrow> (u32 \<times> nat) option outcome" where
  "skip_high 0 m i result = Inr None"
| "skip_high (Suc k) m i result =
    bindE (mem_get m i) (\<lambda>b. if b AND 0x80 = 0 then Inr (Some (result, i + 1)) else skip_high k m (i + 1) result)"

definition ReadVarint32FromArray :: "byte list \<Rightarrow> (u32 \<times> nat) option outcome" where
  "ReadVarint32FromArray m =
    bindE (mem_get m 0) (\<lambda>b. let result = ucast b AND 0x7F :: u32 in
    if b AND 0x80 = 0 then Inr (Some (result, 1)) else
    bindE (mem_get m 1) (\<lambda>b. let result = result OR push_bit 7 (ucast b AND 0x7F) in
    if b AND 0x80 = 0 then Inr (Some (result, 2)) else
    bindE (mem_get m 2) (\<lambda>b. let result = result OR push_bit 14 (ucast b AND 0x7F) in
    if b AND 0x80 = 0 then Inr (Some (result, 3)) else
    bindE (mem_get m 3) (\<lambda>b. let result = result OR push_bit 21 (ucast b AND 0x7F) in
    if b AND 0x80 = 0 then Inr (Some (result, 4)) else
    bindE (mem_get m 4) (\<lambda>b. let result = result OR push_bit 28 (ucast b) in
    if b AND 0x80 = 0 then Inr (Some (result, 5)) else
    skip_high (kMaxVarintBytes - kMaxVarint32Bytes) m 5 result)))))"

text \<open>The fast path of \<^verbatim>\<open>ReadVarint64Fallback\<close>, in three 32-bit pieces. \<open>join_parts\<close> is the
  code behind the label \<^verbatim>\<open>done\<close>.\<close>

definition join_parts :: "u32 \<Rightarrow> u32 \<Rightarrow> u32 \<Rightarrow> u64" where
  "join_parts part0 part1 part2 = ucast part0 OR push_bit 28 (ucast part1) OR push_bit 56 (ucast part2)"

definition ReadVarint64FromArray :: "byte list \<Rightarrow> (u64 \<times> nat) option outcome" where
  "ReadVarint64FromArray m =
    bindE (mem_get m 0) (\<lambda>b. let part0 = ucast b AND 0x7F :: u32 in
    if b AND 0x80 = 0 then Inr (Some (join_parts part0 0 0, 1)) else
    bindE (mem_get m 1) (\<lambda>b. let part0 = part0 OR push_bit 7 (ucast b AND 0x7F) in
    if b AND 0x80 = 0 then Inr (Some (join_parts part0 0 0, 2)) else
    bindE (mem_get m 2) (\<lambda>b. let part0 = part0 OR push_bit 14 (ucast b AND 0x7F) in
    if b AND 0x80 = 0 then Inr (Some (join_parts part0 0 0, 3)) else
    bindE (mem_get m 3) (\<lambda>b. let part0 = part0 OR push_bit 21 (ucast b AND 0x7F) in
    if b AND 0x80 = 0 then Inr (Some (join_parts part0 0 0, 4)) else
    bindE (mem_get m 4) (\<lambda>b. let part1 = ucast b AND 0x7F :: u32 in
    if b AND 0x80 = 0 then Inr (Some (join_parts part0 part1 0, 5)) else
    bindE (mem_get m 5) (\<lambda>b. let part1 = part1 OR push_bit 7 (ucast b AND 0x7F) in
    if b AND 0x80 = 0 then Inr (Some (join_parts part0 part1 0, 6)) else
    bindE (mem_get m 6) (\<lambda>b. let part1 = part1 OR push_bit 14 (ucast b AND 0x7F) in
    if b AND 0x80 = 0 then Inr (Some (join_parts part0 part1 0, 7)) else
    bindE (mem_get m 7) (\<lambda>b. let part1 = part1 OR push_bit 21 (ucast b AND 0x7F) in
    if b AND 0x80 = 0 then Inr (Some (join_parts part0 part1 0, 8)) else
    bindE (mem_get m 8) (\<lambda>b. let part2 = ucast b AND 0x7F :: u32 in
    if b AND 0x80 = 0 then Inr (Some (join_parts part0 part1 part2, 9)) else
    bindE (mem_get m 9) (\<lambda>b. let part2 = part2 OR push_bit 7 (ucast b AND 0x7F) in
    if b AND 0x80 = 0 then Inr (Some (join_parts part0 part1 part2, 10)) else
    Inr None))))))))))"

section \<open>The reference\<close>

fun base128 :: "nat \<Rightarrow> byte list" where
  "base128 n = (if n < 128 then [of_nat n] else of_nat (n mod 128 + 128) # base128 (n div 128))"

declare base128.simps [simp del]

fun parse128 :: "nat \<Rightarrow> byte list \<Rightarrow> (nat \<times> nat) option outcome" where
  "parse128 0 bs = Inr None"
| "parse128 (Suc n) [] = Inl OutOfBounds"
| "parse128 (Suc n) (b # bs) =
    (if unat b < 128 then Inr (Some (unat b, 1))
     else bindE (parse128 n bs) (\<lambda>r. case r of None \<Rightarrow> Inr None | Some (v, k) \<Rightarrow> Inr (Some (unat b - 128 + 128 * v, Suc k))))"

lemma parse128_base128:
  "length (base128 n) \<le> m \<Longrightarrow> parse128 m (base128 n @ rest) = Inr (Some (n, length (base128 n)))"
proof (induction n arbitrary: m rule: base128.induct)
  case (1 n)
  have "unat (of_nat (n mod 128 + 128) :: byte) = (n mod 128 + 128) mod 256"
    by (simp only: unat_of_nat) simp
  then have b: "unat (of_nat (n mod 128 + 128) :: byte) = n mod 128 + 128" by simp
  have c: "n < 128 \<Longrightarrow> unat (of_nat n :: byte) = n" by (simp add: unat_of_nat)
  from 1 show ?case
    by (cases m) (auto simp: base128.simps [of n] b c simp del: of_nat_add split: if_splits)
qed

lemma base128_length: "n < 128 ^ Suc k \<Longrightarrow> length (base128 n) \<le> Suc k"
proof (induction k arbitrary: n)
  case 0 then show ?case by (simp add: base128.simps [of n])
next
  case (Suc k)
  then have "n div 128 < 128 ^ Suc k" by (simp add: less_mult_imp_div_less mult.commute)
  with Suc.IH show ?case by (simp add: base128.simps [of n])
qed

lemma base128_length_gt: "128 ^ k \<le> n \<Longrightarrow> k < length (base128 n)"
proof (induction k arbitrary: n)
  case 0 then show ?case by (simp add: base128.simps [of n])
next
  case (Suc k)
  then have "128 ^ k \<le> n div 128" by (simp add: less_eq_div_iff_mult_less_eq mult.commute)
  then have "k < length (base128 (n div 128))" by (rule Suc.IH)
  moreover have "(128 :: nat) * 1 \<le> 128 * 128 ^ k" by (intro mult_le_mono) simp_all
  then have "\<not> n < 128" using Suc.prems unfolding power_Suc by linarith
  ultimately show ?case by (simp add: base128.simps [of n])
qed

end
