(* ===== verification/Pb_Varint_Spec.thy ===== *)
theory Pb_Varint_Spec
  imports Pb_Varint
begin

unbundle bit_operations_syntax

text \<open>
  The correctness of the varint routines of \<open>Pb_Varint\<close>: every writer, unrolled or not, leaves
  the base-128 expansion of the value in its target and never writes behind it; the size
  functions are the length of that expansion; both readers are the reference parser, the 32-bit
  one keeping the low 32 bits; what is written is read back.
\<close>

section \<open>Digits as words\<close>

lemma low_byte: "b AND 0x7F = (of_nat (unat b mod 128) :: byte)"
proof -
  have m: "(0x7F :: byte) = mask 7" by (simp add: mask_eq_exp_minus_1)
  have "unat b mod 128 = take_bit 7 (unat b)" by (simp add: take_bit_eq_mod)
  then show ?thesis unfolding m by (simp only:) (rule bit_word_eqI, auto simp: bit_simps)
qed

lemma ucast_or_top: "8 \<le> LENGTH('a) \<Longrightarrow> (ucast ((v :: 'a::len word) OR 0x80) :: byte) = ucast v OR 0x80"
  by (rule bit_word_eqI) (simp add: bit_simps)

lemma unat_ucast_byte: "unat (ucast (v :: 'a::len word) :: byte) = unat v mod 256"
  by (simp add: unsigned_ucast_eq take_bit_eq_mod)

lemma join_digit:
  assumes "8 \<le> LENGTH('a)"
  shows "of_nat (unat (b :: byte) mod 128 + 128 * v) = (ucast b AND 0x7F) OR push_bit 7 (of_nat v :: 'a::len word)"
proof -
  have m: "(0x7F :: 'a word) = mask 7" by (simp add: mask_eq_exp_minus_1)
  have t: "unat b mod 128 = take_bit 7 (unat b)" by (simp add: take_bit_eq_mod)
  have "(ucast b AND 0x7F) OR push_bit 7 (of_nat v) = (ucast b AND 0x7F) + push_bit 7 (of_nat v :: 'a word)"
    unfolding m by (rule disjunctive_add_eq_or [symmetric], rule bit_word_eqI, auto simp: bit_simps)
  moreover have "ucast b AND 0x7F = (of_nat (unat b mod 128) :: 'a word)" 
    unfolding m t by (rule bit_word_eqI) (use assms in \<open>auto simp: bit_simps\<close>)
  ultimately show ?thesis by (simp add: push_bit_eq_mult mult.commute)
qed

section \<open>The loop is the reference\<close>

lemma cont_byte: "(b AND 0x7F) OR 0x80 = (of_nat (unat b mod 128 + 128) :: byte)"
proof -
  have "(b AND 0x7F) OR 0x80 = (b AND 0x7F) + 0x80"
    by (rule disjunctive_add_eq_or [symmetric]) (simp add: and.assoc)
  then show ?thesis by (simp add: low_byte)
qed

lemma varint_loop_base128: "varint_loop v = base128 (unat v)"
proof (induction v rule: varint_loop.induct)
  case (1 v)
  have m: "unat v mod 256 mod 128 = unat v mod 128" by (simp add: mod_mod_cancel)
  from 1 show ?case
    by (simp only: varint_loop.simps [of v] base128.simps [of "unat v"] cont_byte
        unat_ucast_byte unat_shift7 m) (simp add: low_byte unat_ucast_byte m)
qed

lemma varint_digits:
  "unat v < 128 ^ Suc k \<Longrightarrow> (k = 0 \<or> 128 ^ k \<le> unat v) \<Longrightarrow>
    varint_loop v = map (\<lambda>j. (ucast (drop_bit (7 * j) v) AND 0x7F) OR 0x80) [0..<k] @
      [ucast (drop_bit (7 * k) v) AND 0x7F]"
proof (induction k arbitrary: v)
  case 0 then show ?case by (simp add: varint_loop.simps [of v])
next
  case (Suc k)
  have "(128 :: nat) * 1 \<le> 128 * 128 ^ k" by (intro mult_le_mono) simp_all
  then have "127 < unat v" using Suc.prems unfolding power_Suc by linarith
  moreover have "unat (drop_bit 7 v) < 128 ^ Suc k" "128 ^ k \<le> unat (drop_bit 7 v)"
    using Suc.prems by (simp_all add: unat_shift7 less_mult_imp_div_less mult.commute less_eq_div_iff_mult_less_eq)
  then have "varint_loop (drop_bit 7 v) =
      map (\<lambda>j. (ucast (drop_bit (7 * j) (drop_bit 7 v)) AND 0x7F) OR 0x80) [0..<k] @
      [ucast (drop_bit (7 * k) (drop_bit 7 v)) AND 0x7F]" by (intro Suc.IH) simp_all
  ultimately show ?case
    by (subst varint_loop.simps) (simp add: upt_conv_Cons map_Suc_upt [symmetric] add.commute [of _ 7] del: upt_Suc)
qed

section \<open>The readers are the reference\<close>

fun acc_loop :: "nat \<Rightarrow> byte list \<Rightarrow> nat \<Rightarrow> 'a::len word \<Rightarrow> ('a word \<times> nat) option outcome" where
  "acc_loop 0 m i acc = Inr None"
| "acc_loop (Suc n) m i acc =
    bindE (mem_get m i) (\<lambda>b. let acc = acc OR push_bit (7 * i) (ucast b AND 0x7F) in
      if b AND 0x80 = 0 then Inr (Some (acc, i + 1)) else acc_loop n m (i + 1) acc)"

definition as_word :: "(nat \<times> nat) option outcome \<Rightarrow> ('a::len word \<times> nat) option outcome" where
  "as_word r = bindE r (\<lambda>q. Inr (map_option (\<lambda>(v, k). (of_nat v, k)) q))"

lemma bit_0x80: "bit (0x80 :: byte) n \<longleftrightarrow> n = 7"
proof -
  have "bit ((2 :: byte) ^ 7) n \<longleftrightarrow> possible_bit TYPE(byte) 7 \<and> n = 7" by (simp only: bit_exp_iff) auto
  then show ?thesis by auto
qed

lemma top_clear: "b AND 0x80 = 0 \<longleftrightarrow> unat (b :: byte) < 128"
proof -
  have "unat b < 2 ^ LENGTH(8)" by (rule unsigned_less)
  then have r: "unat b < 256" by simp
  have "b AND 0x80 = 0 \<longleftrightarrow> \<not> bit b 7"
  proof
    assume "b AND 0x80 = 0"
    then have "bit (b AND 0x80) 7 \<longleftrightarrow> bit (0 :: byte) 7" by simp
    then show "\<not> bit b 7" unfolding bit_and_iff bit_0x80 by simp
  next
    assume "\<not> bit b 7"
    show "b AND 0x80 = 0"
      by (rule bit_word_eqI) (use \<open>\<not> bit b 7\<close> in \<open>unfold bit_and_iff bit_0x80, auto\<close>)
  qed
  also have "bit b 7 \<longleftrightarrow> bit (unat b) 7" by (simp add: bit_unsigned_iff)
  also have "\<not> bit (unat b) 7 \<longleftrightarrow> unat b < 128"
  proof
    assume "unat b < 128"
    then show "\<not> bit (unat b) 7" by (simp add: bit_iff_odd)
  next
    assume "\<not> bit (unat b) 7"
    then have "even (unat b div 128)" by (simp add: bit_iff_odd)
    moreover have "unat b div 128 < 2" using r by simp
    ultimately have "unat b div 128 = 0" by (auto simp: less_2_cases_iff)
    then show "unat b < 128" by (simp add: div_eq_0_iff)
  qed
  finally show ?thesis .
qed

lemma byte_less: "unat (b :: byte) < 256"
proof -
  have "unat b < 2 ^ LENGTH(8)" by (rule unsigned_less)
  then show ?thesis by simp
qed

lemma acc_loop_parse:
  assumes "8 \<le> LENGTH('a)"
  shows "acc_loop n m i (acc :: 'a::len word) =
    bindE (parse128 n (drop i m)) (\<lambda>q. Inr (map_option (\<lambda>(v, k). (acc OR push_bit (7 * i) (of_nat v), i + k)) q))"
proof (induction n m i acc rule: acc_loop.induct)
  case (2 n m i acc)
  show ?case
  proof (cases "i < length m")
    case True
    note True' = True
    then have d: "drop i m = m ! i # drop (Suc i) m" by (rule Cons_nth_drop_Suc [symmetric])
    have s: "unat (m ! i) < 128 \<Longrightarrow> unat (m ! i) = unat (m ! i) mod 128 + 128 * 0" by simp
    have l: "\<not> unat (m ! i) < 128 \<Longrightarrow> unat (m ! i) - 128 = unat (m ! i) mod 128"
      using byte_less [of "m ! i"] by (simp add: mod_if)
    show ?thesis
    proof (cases "unat (m ! i) < 128")
      case True
      with s join_digit [OF assms, of "m ! i" 0] have "(of_nat (unat (m ! i)) :: 'a word) = ucast (m ! i) AND 0x7F"
        by simp
      with True d show ?thesis by (simp add: mem_get_def \<open>i < length m\<close> top_clear Let_def del: push_bit_and)
    next
      case False
      have s: "unat (m ! i) + 128 * v - 128 = unat (m ! i) mod 128 + 128 * v" for v
        using l [OF False] False by simp
      have j: "acc OR push_bit (7 * i) (of_nat (unat (m ! i) - 128 + 128 * v)) =
          acc OR push_bit (7 * i) (ucast (m ! i) AND 0x7F) OR push_bit (7 + 7 * i) (of_nat v)" for v
        unfolding l [OF False] join_digit [OF assms] by (simp add: push_bit_or or.assoc add.commute)
      have j': "acc OR push_bit (7 * i) (of_nat (unat (m ! i) + 128 * v - 128)) =
          acc OR push_bit (7 * i) (ucast (m ! i) AND 0x7F) OR push_bit (7 + 7 * i) (of_nat v)" for v
        unfolding s l [OF False, symmetric] by (rule j)
      have t: "m ! i AND 0x80 \<noteq> 0" using False by (simp add: top_clear)
      have p: "mem_get m i = Inr (m ! i)" using True' by (simp add: mem_get_def)
      note IH = 2 [OF p refl t]
      have "acc_loop (Suc n) m i acc = acc_loop n m (i + 1) (acc OR push_bit (7 * i) (ucast (m ! i) AND 0x7F))"
        using False True' by (simp add: mem_get_def top_clear Let_def del: push_bit_and)
      also have "\<dots> = bindE (parse128 (Suc n) (drop i m))
          (\<lambda>q. Inr (map_option (\<lambda>(v, k). (acc OR push_bit (7 * i) (of_nat v), i + k)) q))"
        by (subst d, subst IH)
          (auto simp: False bindE_assoc or.assoc j j' simp del: push_bit_and of_nat_add of_nat_mult of_nat_diff
            intro!: arg_cong [where f = "bindE _"] ext split: option.split)
      finally show ?thesis .
    qed
  qed (simp add: mem_get_def)
qed simp

lemma skip_high_loop: "32 \<le> 7 * i \<Longrightarrow> skip_high n m i acc = acc_loop n m i acc"
proof (induction n m i acc rule: skip_high.induct)
  case (2 k m i result)
  have "push_bit (7 * i) w = 0" for w :: u32
    by (rule bit_word_eqI) (use 2(2) in \<open>simp add: bit_simps\<close>)
  with 2 show ?case
    by (cases "mem_get m i") (auto simp: Let_def simp del: push_bit_and)
qed simp

lemma fifth_byte: "push_bit 28 (ucast (b :: byte) :: u32) = push_bit 28 (ucast b AND 0x7F)"
proof -
  have m: "(0x7F :: u32) = mask 7" by (simp add: mask_eq_exp_minus_1)
  show ?thesis unfolding m by (rule bit_word_eqI) (auto simp: bit_simps)
qed

lemma acc_loop_numeral:
  "acc_loop (numeral k) m i acc =
    bindE (mem_get m i) (\<lambda>b. let acc = acc OR push_bit (7 * i) (ucast b AND 0x7F) in
      if b AND 0x80 = 0 then Inr (Some (acc, i + 1)) else acc_loop (pred_numeral k) m (i + 1) acc)"
  "acc_loop 1 m i acc =
    bindE (mem_get m i) (\<lambda>b. let acc = acc OR push_bit (7 * i) (ucast b AND 0x7F) in
      if b AND 0x80 = 0 then Inr (Some (acc, i + 1)) else Inr None)"
  by (simp_all only: numeral_eq_Suc One_nat_def acc_loop.simps)

lemma ReadVarint32FromArray_loop: "ReadVarint32FromArray m = acc_loop kMaxVarintBytes m 0 0"
  by (simp add: ReadVarint32FromArray_def kMaxVarintBytes_def kMaxVarint32Bytes_def acc_loop_numeral
      skip_high_loop fifth_byte Let_def cong: if_cong del: push_bit_and One_nat_def)

lemma ucast_digit:
  "k \<le> 25 \<Longrightarrow> ucast (push_bit k (ucast (b :: byte) AND 0x7F) :: u32) = (push_bit k (ucast b AND 0x7F) :: u64)"
proof -
  assume k: "k \<le> 25"
  have m: "(0x7F :: u32) = mask 7" "(0x7F :: u64) = mask 7" by (simp_all add: mask_eq_exp_minus_1)
  show ?thesis unfolding m by (rule bit_word_eqI) (use k in \<open>auto simp: bit_simps\<close>)
qed

lemma ReadVarint64FromArray_loop: "ReadVarint64FromArray m = acc_loop kMaxVarintBytes m 0 0"
  by (simp add: ReadVarint64FromArray_def kMaxVarintBytes_def acc_loop_numeral
      Let_def join_parts_def unsigned_or_eq ucast_digit ucast_digit [of 0, simplified] push_bit_or or.assoc cong: if_cong del: push_bit_and One_nat_def)

section \<open>The writers are the reference\<close>

text \<open>\<open>put_varint t bs\<close>: \<open>bs\<close> at the start of the target, when it has the room.\<close>

definition put_varint :: "byte list \<Rightarrow> byte list \<Rightarrow> (byte list \<times> nat) outcome" where
  "put_varint t bs = (if length bs \<le> length t then Inr (bs @ drop (length bs) t, length bs) else Inl OutOfBounds)"

lemma poke_blit:
  "Suc i + length ys \<le> length t \<Longrightarrow> mem_set (blit t (Suc i) ys) i b = Inr (blit t i (b # ys))"
proof -
  assume a: "Suc i + length ys \<le> length t"
  then have "take (Suc i) t = take i t @ [t ! i]" by (simp add: take_Suc_conv_app_nth)
  with a show ?thesis by (simp add: mem_set_def blit_def list_update_append)
qed

lemma poke_front:
  "length bs < length t \<Longrightarrow> mem_set (bs @ drop (length bs) t) (length bs) b = Inr ((bs @ [b]) @ drop (Suc (length bs)) t)"
  by (simp add: mem_set_def list_update_append Cons_nth_drop_Suc [symmetric])

lemma poke_full: "length bs \<le> length t \<Longrightarrow> \<not> length bs < length t \<Longrightarrow>
    mem_set (bs @ drop (length bs) t) (length bs) b = Inl OutOfBounds"
  by (simp add: mem_set_def)

lemma clear_front: "i < length bs \<Longrightarrow> clear_top (bs @ r) i = Inr (bs[i := bs ! i AND 0x7F] @ r)"
  by (simp add: clear_top_def mem_get_def mem_set_def nth_append list_update_append)

definition front :: "byte list \<Rightarrow> byte list \<Rightarrow> byte list outcome" where
  "front t bs = (if length bs \<le> length t then Inr (bs @ drop (length bs) t) else Inl OutOfBounds)"

lemma front_first: "mem_set t 0 b = front t [b]"
  by (cases t) (simp_all add: mem_set_def front_def)

lemma front_next: "k = length bs \<Longrightarrow> bindE (front t bs) (\<lambda>t. bindE (mem_set t k b) f) = bindE (front t (bs @ [b])) f"
proof (cases "length bs < length t")
  case False
  moreover assume "k = length bs"
  ultimately show ?thesis using poke_full [of bs t b] by (auto simp: front_def)
qed (simp add: front_def poke_front)

lemma front_clear:
  "i < length bs \<Longrightarrow> bindE (front t bs) (\<lambda>t. bindE (clear_top t i) f) = bindE (front t (bs[i := bs ! i AND 0x7F])) f"
  by (simp add: front_def clear_front)

lemma front_put: "k = length bs \<Longrightarrow> bindE (front t bs) (\<lambda>t. Inr (t, k)) = put_varint t bs"
  by (simp add: front_def put_varint_def)

lemma ucast_narrow:
  "8 \<le> LENGTH('a) \<Longrightarrow> (ucast ((v :: 'a::len word) OR 0x80) AND 0x7F :: byte) = ucast v AND 0x7F"
proof -
  assume "8 \<le> LENGTH('a)"
  then have "(ucast (v OR 0x80) AND 0x7F :: byte) = (ucast v OR 0x80) AND 0x7F" by (simp only: ucast_or_top)
  also have "\<dots> = ucast v AND 0x7F" by (simp add: bit.conj_disj_distrib2)
  finally show ?thesis .
qed

lemma or_top: "(b :: byte) OR 0x80 = (b AND 0x7F) OR 0x80"
proof -
  have m: "(0x7F :: byte) = mask 7" by (simp add: mask_eq_exp_minus_1)
  show ?thesis unfolding m
    by (rule bit_word_eqI) (simp only: bit_or_iff bit_and_iff bit_mask_iff bit_0x80, auto)
qed

lemma ucast_cont:
  "8 \<le> LENGTH('a) \<Longrightarrow> (ucast ((v :: 'a::len word) OR 0x80) :: byte) = (ucast v AND 0x7F) OR 0x80"
  by (simp only: ucast_or_top or_top [of "ucast v"])

lemma cont_clear: "((b AND 0x7F) OR 0x80) AND 0x7F = (b AND 0x7F :: byte)"
  by (simp add: bit.conj_disj_distrib2 and.assoc)

lemma ucast_last: "unat (v :: 'a::len word) < 128 \<Longrightarrow> (ucast v AND 0x7F :: byte) = ucast v"
proof -
  assume "unat v < 128"
  then have "unat (ucast v :: byte) mod 128 = unat (ucast v :: byte)" by (simp add: unat_ucast_byte)
  then show ?thesis by (simp add: low_byte)
qed

lemma unat_u32_less: "unat (v :: u32) < 2 ^ 32"
proof -
  have "unat v < 2 ^ LENGTH(32)" by (rule unsigned_less)
  then show ?thesis by simp
qed

lemmas front_simps = front_first front_next front_clear front_put

lemma WriteVarint32_loop: "WriteVarint32FallbackToArrayInline v t = put_varint t (varint_loop v)"
proof -
  have top: "unat v < 4294967296" using unat_u32_less [of v] by simp
  consider "unat v < 128" | "128 \<le> unat v" "unat v < 16384" | "16384 \<le> unat v" "unat v < 2097152"
    | "2097152 \<le> unat v" "unat v < 268435456" | "268435456 \<le> unat v" by linarith
  then show ?thesis
  proof cases
    case 1
    with varint_digits [of v 0] show ?thesis
      by (simp add: WriteVarint32FallbackToArrayInline_def word_le_nat_alt front_simps ucast_narrow)
  next
    case 2
    with varint_digits [of v 1] show ?thesis
      by (simp add: WriteVarint32FallbackToArrayInline_def word_le_nat_alt front_simps ucast_narrow ucast_cont cont_clear)
  next
    case 3
    with varint_digits [of v 2] show ?thesis
      by (simp add: WriteVarint32FallbackToArrayInline_def word_le_nat_alt front_simps ucast_narrow ucast_cont cont_clear upt_rec [of _ "numeral _"])
  next
    case 4
    with varint_digits [of v 3] show ?thesis
      by (simp add: WriteVarint32FallbackToArrayInline_def word_le_nat_alt front_simps ucast_narrow ucast_cont cont_clear upt_rec [of _ "numeral _"])
  next
    case 5
    then have "unat (drop_bit 28 v) < 128" using top unfolding unat_drop_bit_eq by (simp add: drop_bit_eq_div)
    with 5 top varint_digits [of v 4] show ?thesis
      by (simp add: WriteVarint32FallbackToArrayInline_def word_le_nat_alt front_simps ucast_cont ucast_last upt_rec [of _ "numeral _"])
  qed
qed

text \<open>The 64-bit writer fills the target from the top.\<close>

lemma label_down:
  "i < siz \<Longrightarrow> Suc i + length ys \<le> length t \<Longrightarrow> siz = Suc i + length ys \<or> True \<Longrightarrow>
    size_label siz (Suc i) w (blit t (Suc i) ys) = Inr (blit t i (ucast (w OR 0x80) # ys))"
  by (simp add: size_label_def poke_blit)

lemma size_label_above: "siz < i \<Longrightarrow> size_label siz i w t = Inr t"
  by (simp add: size_label_def)

lemma size_label_first:
  "0 < i \<Longrightarrow> size_label i i w t = (if i \<le> length t then Inr (blit t (i - 1) [ucast (w OR 0x80)]) else Inl OutOfBounds)"
  using poke_blit [of "i - 1" "[]" t] by (auto simp: size_label_def mem_set_def)

lemma size_label_next:
  "i < siz \<Longrightarrow> 0 < i \<Longrightarrow> i + length ys \<le> length t \<Longrightarrow>
    size_label siz i w (blit t i ys) = Inr (blit t (i - 1) (ucast (w OR 0x80) # ys))"
  using poke_blit [of "i - 1" ys t] by (simp add: size_label_def)

lemma clear_blit: "i < length bs \<Longrightarrow> clear_top (blit t 0 bs) i = Inr (blit t 0 (bs[i := bs ! i AND 0x7F]))"
  by (simp add: blit_def clear_front)

lemma blit_put: "k = length bs \<Longrightarrow> k \<le> length t \<Longrightarrow> Inr (blit t 0 bs, k) = put_varint t bs"
  by (simp add: blit_def put_varint_def)

lemma part_byte:
  assumes "k \<le> 24" 
  shows "(ucast (drop_bit k (ucast (v :: u64) :: u32)) AND 0x7F :: byte) = ucast (drop_bit k v) AND 0x7F"
  by (rule bit_word_eqI) (use assms in \<open>auto simp: bit_simps\<close>)

lemmas part_bytes = part_byte part_byte [of 0, simplified]

lemma unat_parts:
  "unat (ucast (v :: u64) :: u32) = unat v mod 2 ^ 32"
  "unat (ucast (drop_bit 28 (v :: u64)) :: u32) = unat v div 2 ^ 28 mod 2 ^ 32"
  "unat (ucast (drop_bit 56 (v :: u64)) :: u32) = unat v div 2 ^ 56 mod 2 ^ 32"
  by (simp_all add: unsigned_ucast_eq take_bit_eq_mod unat_drop_bit_eq) (simp_all add: drop_bit_eq_div)

lemma unat_u64_less: "unat (v :: u64) < 2 ^ 64"
proof -
  have "unat v < 2 ^ LENGTH(64)" by (rule unsigned_less)
  then show ?thesis by simp
qed

definition varint_len :: "nat \<Rightarrow> nat" where
  "varint_len n =
    (if n < 2 ^ 7 then 1 else if n < 2 ^ 14 then 2 else if n < 2 ^ 21 then 3 else if n < 2 ^ 28 then 4
     else if n < 2 ^ 35 then 5 else if n < 2 ^ 42 then 6 else if n < 2 ^ 49 then 7
     else if n < 2 ^ 56 then 8 else if n < 2 ^ 63 then 9 else 10)"

lemma size_parts:
  "size_of_parts (ucast v) (ucast (drop_bit 28 v)) (ucast (drop_bit 56 v)) = varint_len (unat (v :: u64))"
proof -
  let ?n = "unat v"
  have z: "(w :: u32) = 0 \<longleftrightarrow> unat w = 0" for w by (simp add: unat_eq_0)
  have top: "?n < 2 ^ 64" by (rule unat_u64_less)
  then have p2: "?n div 2 ^ 56 mod 2 ^ 32 = ?n div 2 ^ 56" by simp
  consider "2 ^ 56 \<le> ?n" | "2 ^ 28 \<le> ?n" "?n < 2 ^ 56" | "?n < 2 ^ 28" by linarith
  then show ?thesis
  proof cases
    case 1
    then have "?n div 2 ^ 56 \<noteq> 0" "?n div 2 ^ 56 < 2 ^ 7 \<longleftrightarrow> ?n < 2 ^ 63"
      by (simp_all add: div_eq_0_iff div_less_iff_less_mult)
    then show ?thesis using 1
      unfolding size_of_parts_def z unat_parts(1) [of v] unat_parts(2, 3) p2 word_less_nat_alt varint_len_def by simp
  next
    case 2
    then have "?n div 2 ^ 56 = 0" by simp
    moreover from 2 have p1: "?n div 2 ^ 28 mod 2 ^ 32 = ?n div 2 ^ 28" "?n div 2 ^ 28 \<noteq> 0"
      by (simp_all add: div_eq_0_iff)
    moreover have "?n div 2 ^ 28 < 2 ^ 7 \<longleftrightarrow> ?n < 2 ^ 35" "?n div 2 ^ 28 < 2 ^ 14 \<longleftrightarrow> ?n < 2 ^ 42"
      "?n div 2 ^ 28 < 2 ^ 21 \<longleftrightarrow> ?n < 2 ^ 49"
      by (simp_all add: div_less_iff_less_mult)
    ultimately show ?thesis using 2
      unfolding size_of_parts_def z unat_parts(1) [of v] unat_parts(2, 3) p2 word_less_nat_alt varint_len_def by simp
  next
    case 3
    then have "?n div 2 ^ 56 = 0" "?n div 2 ^ 28 = 0" "?n mod 2 ^ 32 = ?n" by simp_all
    then show ?thesis using 3
      unfolding size_of_parts_def z unat_parts(1) [of v] unat_parts(2, 3) p2 word_less_nat_alt varint_len_def by simp
  qed
qed

lemma VarintSize64_len: "VarintSize64 v = varint_len (unat v)"
  by (auto simp: VarintSize64_def varint_len_def word_less_nat_alt)

lemma VarintSize32_len: "VarintSize32 v = varint_len (unat v)"
  using unat_u32_less [of v]
  by (auto simp: VarintSize32_def VarintSize32Fallback_def varint_len_def word_less_nat_alt)

lemma varint_len_bounds:
  assumes "n < 2 ^ 64"
  shows "n < 128 ^ varint_len n" "varint_len n = 1 \<or> 128 ^ (varint_len n - 1) \<le> n" "1 \<le> varint_len n" "varint_len n \<le> 10"
  using assms by (auto simp: varint_len_def)

lemma varint_loop_len: "unat v < 2 ^ 64 \<Longrightarrow> length (varint_loop v) = varint_len (unat v)"
proof -
  assume a: "unat v < 2 ^ 64"
  note b = varint_len_bounds [OF a]
  have "length (varint_loop v) = Suc (varint_len (unat v) - 1)"
    using b by (subst varint_digits [of v "varint_len (unat v) - 1"]) auto
  with b(3) show ?thesis by simp
qed

lemma WriteVarint64_loop: "WriteVarint64ToArrayInline v t = put_varint t (varint_loop v)"
proof -
  have top: "unat v < 2 ^ 64" by (rule unat_u64_less)
  note b = varint_len_bounds [OF top]
  define k where "k = varint_len (unat v)"
  have d: "varint_loop v = map (\<lambda>j. (ucast (drop_bit (7 * j) v) AND 0x7F) OR 0x80) [0..<k - 1] @
      [ucast (drop_bit (7 * (k - 1)) v) AND 0x7F]"
    using b unfolding k_def by (intro varint_digits) auto
  have "k = 1 \<or> k = 2 \<or> k = 3 \<or> k = 4 \<or> k = 5 \<or> k = 6 \<or> k = 7 \<or> k = 8 \<or> k = 9 \<or> k = 10"
    using b(3, 4) [folded k_def] by presburger
  note ks = this
  show ?thesis
  proof (cases "k \<le> length t")
    case False
    with ks d size_parts [of v] show ?thesis 
      by (elim disjE) (simp_all add: WriteVarint64ToArrayInline_def k_def [symmetric] Let_def size_label_above size_label_first put_varint_def)
  next
    case True
    from ks d size_parts [of v] True show ?thesis
      by (elim disjE) (simp_all add: WriteVarint64ToArrayInline_def k_def [symmetric] Let_def size_label_above size_label_first
         size_label_next clear_blit blit_put ucast_cont cont_clear part_bytes drop_bit_drop_bit upt_rec [of _ "numeral _"])
  qed
qed

lemma WriteVarint32ToArray_put: "WriteVarint32ToArray w t = put_varint t (base128 (unat w))"
proof (cases "unat w < 128")
  case True
  have "mem_set t 0 (ucast w) = front t [ucast w]" by (rule front_first)
  moreover have "base128 (unat w) = [ucast w]" using True by (simp add: base128.simps [of "unat w"])
  moreover have "w < 0x80" using True by (simp add: word_less_nat_alt)
  ultimately show ?thesis by (simp only: WriteVarint32ToArray_def if_True) (rule front_put, simp)
qed (simp add: WriteVarint32ToArray_def word_less_nat_alt WriteVarint32_loop varint_loop_base128)

lemma WriteTagToArray_put: "WriteTagToArray w t = put_varint t (base128 (unat w))"
proof -
  consider "unat w < 128" | "128 \<le> unat w" "unat w < 16384" | "16384 \<le> unat w" by linarith
  then show ?thesis
  proof cases
    case 1
    then show ?thesis using WriteVarint32ToArray_put [of w t]
      by (simp add: WriteTagToArray_def WriteVarint32ToArray_def word_less_nat_alt)
  next
    case 2
    then have "unat (drop_bit 7 w) < 128" by (simp add: unat_shift7)
    with 2 varint_digits [of w 1] show ?thesis
      by (simp add: WriteTagToArray_def word_less_nat_alt front_simps ucast_cont ucast_last varint_loop_base128)
  next
    case 3
    then show ?thesis
      by (simp add: WriteTagToArray_def word_less_nat_alt WriteVarint32_loop varint_loop_base128)
  qed
qed

section \<open>The properties\<close>

text \<open>C36: the hand-unrolled writers, the loops of the slow paths and the size functions agree: all
  write the base-128 expansion of the value at the start of the target, leave the bytes behind
  it alone, write nothing out of bounds when the target has room for exactly that expansion,
  and the size functions return its length.\<close>

theorem varint_writers_agree:
  "WriteVarint64ToArrayInline v t = put_varint t (base128 (unat v)) \<and>
   varint_loop v = base128 (unat v) \<and> VarintSize64 v = length (base128 (unat v)) \<and>
   WriteVarint32FallbackToArrayInline w t = put_varint t (base128 (unat w)) \<and>
   WriteVarint32ToArray w t = put_varint t (base128 (unat w)) \<and>
   WriteTagToArray w t = put_varint t (base128 (unat w)) \<and>
   varint_loop w = base128 (unat w) \<and> VarintSize32 w = length (base128 (unat w))"
  using varint_loop_len [of v] varint_loop_len [of w] unat_u64_less [of v] unat_u32_less [of w]
  by (simp add: WriteVarint64_loop WriteVarint32_loop VarintSize64_len VarintSize32_len
      WriteVarint32ToArray_put WriteTagToArray_put varint_loop_base128)

lemma varint_readers_agree:
  "ReadVarint64FromArray m = as_word (parse128 kMaxVarintBytes m) \<and>
   ReadVarint32FromArray m = as_word (parse128 kMaxVarintBytes m)"
  by (simp add: ReadVarint64FromArray_loop ReadVarint32FromArray_loop acc_loop_parse as_word_def)

lemma parse128_exact: "length (base128 n) \<le> kMaxVarintBytes \<Longrightarrow>
    parse128 kMaxVarintBytes (base128 n @ r) = Inr (Some (n, length (base128 n)))"
  by (rule parse128_base128)

lemma base128_length_u64: "length (base128 (unat (v :: u64))) \<le> kMaxVarintBytes"
  using varint_loop_len [OF unat_u64_less] varint_len_bounds(4) [OF unat_u64_less]
  by (simp add: varint_loop_base128 kMaxVarintBytes_def)

text \<open>C37: a 64-bit value written to any target with room for it is read back by the 64-bit reader,
  its low 32 bits by the 32-bit reader, both stopping right behind it; the bytes behind it are
  as before.\<close>

theorem varint_roundtrip:
  assumes "VarintSize64 v \<le> length t"
  shows "\<exists>t'. WriteVarint64ToArrayInline v t = Inr (t', VarintSize64 v) \<and>
    drop (VarintSize64 v) t' = drop (VarintSize64 v) t \<and> length t' = length t \<and>
    ReadVarint64FromArray t' = Inr (Some (v, VarintSize64 v)) \<and>
    ReadVarint32FromArray t' = Inr (Some (ucast v, VarintSize64 v))"
proof -
  let ?b = "base128 (unat v)"
  have size: "VarintSize64 v = length ?b" and
    w: "WriteVarint64ToArrayInline v t = put_varint t ?b"
    using varint_writers_agree [of v t] by blast+
  have "(of_nat (unat v) :: u32) = ucast v" by (simp add: unsigned_of_nat)
  moreover have "parse128 kMaxVarintBytes (?b @ drop (length ?b) t) = Inr (Some (unat v, length ?b))"
    by (rule parse128_exact [OF base128_length_u64])
  ultimately show ?thesis
    using assms unfolding w size put_varint_def by (simp add: varint_readers_agree as_word_def)
qed

lemma varint_roundtrip_witness:
  "\<exists>t'. WriteVarint64ToArrayInline 300 [0, 0, 7] = Inr (t', VarintSize64 300) \<and>
    drop (VarintSize64 300) t' = drop (VarintSize64 300) [0, 0, 7] \<and> length t' = length [0, 0, 7 :: byte] \<and>
    ReadVarint64FromArray t' = Inr (Some (300, VarintSize64 300)) \<and>
    ReadVarint32FromArray t' = Inr (Some (ucast (300 :: u64), VarintSize64 300))"
  by (rule varint_roundtrip) (simp add: VarintSize64_def)

text \<open>The condition under which \<^verbatim>\<open>ReadVarint32Fallback\<close>, \<^verbatim>\<open>ReadVarint64Fallback\<close> and
  \<^verbatim>\<open>ReadTagFallback\<close> take the fast path keeps it inside the buffer.\<close>

definition fast_path_ok :: "byte list \<Rightarrow> bool" where
  "fast_path_ok m \<longleftrightarrow> kMaxVarintBytes \<le> length m \<or> (m \<noteq> [] \<and> last m AND 0x80 = 0)"

lemma parse128_inside:
  "n \<le> length m \<or> (m \<noteq> [] \<and> unat (last m) < 128) \<Longrightarrow> \<exists>r. parse128 n m = Inr r"
proof (induction n m rule: parse128.induct)
  case (3 n b bs)
  show ?case
  proof (cases "unat b < 128")
    case False
    with 3(2) have "n \<le> length bs \<or> (bs \<noteq> [] \<and> unat (last bs) < 128)" by (auto split: if_splits)
    with 3(1) [OF False] show ?thesis using False by (auto split: option.split)
  qed simp
qed auto

theorem varint_fast_path_inside:
  "fast_path_ok m \<Longrightarrow> (\<exists>r. ReadVarint64FromArray m = Inr r) \<and> (\<exists>r. ReadVarint32FromArray m = Inr r)"
  using parse128_inside [of kMaxVarintBytes m]
  by (auto simp: fast_path_ok_def top_clear varint_readers_agree as_word_def)

end
