(* ===== verification/Pb_Wire.thy ===== *)
theory Pb_Wire
  imports Pb_Varint_Spec
begin

unbundle bit_operations_syntax

text \<open>
  The arithmetic of the wire format of protocol buffers (Public/google/protobuf,
  wire_format_lite.h): the ZigZag transform of signed integers, field tags and their size, and
  the sign-extended varints of \<^verbatim>\<open>int32\<close> fields. A left shift of a negative number keeps the
  bits, as gcc defines it.
\<close>

section \<open>ZigZag\<close>

definition ZigZagEncode32 :: "s32 \<Rightarrow> u32" where
  "ZigZagEncode32 n = push_bit 1 (word_of_int n) XOR signed_drop_bit 31 (word_of_int n)"

definition ZigZagDecode32 :: "u32 \<Rightarrow> s32" where
  "ZigZagDecode32 n = sint (drop_bit 1 n XOR - (n AND 1))"

definition ZigZagEncode64 :: "s64 \<Rightarrow> u64" where
  "ZigZagEncode64 n = push_bit 1 (word_of_int n) XOR signed_drop_bit 63 (word_of_int n)"

definition ZigZagDecode64 :: "u64 \<Rightarrow> s64" where
  "ZigZagDecode64 n = sint (drop_bit 1 n XOR - (n AND 1))"

section \<open>Tags\<close>

text \<open>Wire types are the numbers 0 to 5; a tag can hold 6 and 7, which no constant names.\<close>

definition TYPE_GROUP :: nat where "TYPE_GROUP = 10"
definition kTagTypeBits :: nat where "kTagTypeBits = 3"
definition kTagTypeMask :: u32 where "kTagTypeMask = push_bit kTagTypeBits 1 - 1"

definition MakeTag :: "s32 \<Rightarrow> u32 \<Rightarrow> u32" where
  "MakeTag field_number type = push_bit kTagTypeBits (word_of_int field_number) OR type"

definition GetTagWireType :: "u32 \<Rightarrow> u32" where
  "GetTagWireType tag = tag AND kTagTypeMask"

definition GetTagFieldNumber :: "u32 \<Rightarrow> s32" where
  "GetTagFieldNumber tag = sint (drop_bit kTagTypeBits tag)"

definition TagSize :: "s32 \<Rightarrow> nat \<Rightarrow> nat" where
  "TagSize field_number type =
    (let result = VarintSize32 (push_bit kTagTypeBits (word_of_int field_number))
     in if type = TYPE_GROUP then result * 2 else result)"

section \<open>Sign-extended varints\<close>

definition WriteVarint32SignExtendedToArray :: "s32 \<Rightarrow> byte list \<Rightarrow> (byte list \<times> nat) outcome" where
  "WriteVarint32SignExtendedToArray value t =
    (if value < 0 then WriteVarint64ToArrayInline (word_of_int value) t
     else WriteVarint32ToArray (word_of_int value) t)"

definition VarintSize32SignExtended :: "s32 \<Rightarrow> nat" where
  "VarintSize32SignExtended value = (if value < 0 then 10 else VarintSize32 (word_of_int value))"

section \<open>Lemmas\<close>

lemma sign_word:
  "signed_drop_bit (LENGTH('a) - 1) w = (if sint w < 0 then - 1 else (0 :: 'a::len word))"
proof -
  have n: "sint w < 0 \<longleftrightarrow> bit w (LENGTH('a) - 1)" by (simp flip: bit_last_iff)
  show ?thesis unfolding n by (rule bit_word_eqI) (auto simp: bit_simps min_def Suc_le_eq)
qed

lemma last_index: "n < l \<Longrightarrow> \<not> 1 + n < l \<longleftrightarrow> n = l - 1" for n l :: nat
  by linarith

lemma zigzag_word:
  fixes w :: "'a::len word"
  assumes "2 \<le> LENGTH('a)" and z: "z = push_bit 1 w XOR signed_drop_bit (LENGTH('a) - 1) w"
  shows "drop_bit 1 z XOR - (z AND 1) = w"
    and "uint z = (if sint w < 0 then - 2 * sint w - 1 else 2 * sint w)"
proof -
  show "drop_bit 1 z XOR - (z AND 1) = w"
  proof (cases "sint w < 0")
    case True
    then have "bit w (LENGTH('a) - 1)" by (simp add: bit_last_iff)
    from True have z1: "z = NOT (push_bit 1 w)" by (simp add: z sign_word del: One_nat_def)
    have "z AND 1 = 1" unfolding z1 by (rule bit_word_eqI) (auto simp: bit_simps simp del: One_nat_def)
    moreover have "NOT (drop_bit 1 z) = w"
      unfolding z1 by (rule bit_word_eqI) (use \<open>bit w _\<close> in \<open>auto simp: bit_simps last_index simp del: One_nat_def\<close>)
    ultimately show ?thesis by simp
  next
    case False
    then have "\<not> bit w (LENGTH('a) - 1)" by (simp add: bit_last_iff)
    from False have z0: "z = push_bit 1 w" by (simp add: z sign_word del: One_nat_def)
    have "z AND 1 = 0" unfolding z0 by (rule bit_word_eqI) (auto simp: bit_simps simp del: One_nat_def)
    moreover have "drop_bit 1 z = w"
      unfolding z0 by (rule bit_word_eqI) (use \<open>\<not> bit w _\<close> in \<open>auto simp: bit_simps last_index simp del: One_nat_def intro: ccontr\<close>)
    ultimately show ?thesis by simp
  qed
  show "uint z = (if sint w < 0 then - 2 * sint w - 1 else 2 * sint w)"
  proof -
    have p: "(2 :: int) ^ LENGTH('a) = 2 * 2 ^ (LENGTH('a) - 1)"
      using assms(1) by (metis len_gt_0 power_minus_mult mult.commute)
    have l: "- (2 ^ (LENGTH('a) - 1)) \<le> sint w" using sint_greater_eq [of w] by simp
    have r: "sint w < 2 ^ (LENGTH('a) - 1)" using sint_less [of w] by simp
    have w: "word_of_int (sint w) = w" by simp
    have z2: "z = word_of_int (if sint w < 0 then - 2 * sint w - 1 else 2 * sint w)"
    proof (cases "sint w < 0")
      case True
      then have "z = NOT (push_bit 1 w)" by (simp add: z sign_word del: One_nat_def)
      also have "\<dots> = - (2 * w) - 1" by (simp add: not_eq_complement push_bit_eq_mult mult.commute)
      also have "\<dots> = word_of_int (- 2 * sint w - 1)" by simp
      finally show ?thesis using True by simp
    next
      case False
      then have "z = push_bit 1 w" by (simp add: z sign_word del: One_nat_def)
      also have "\<dots> = word_of_int (2 * sint w)" by (simp add: push_bit_eq_mult mult.commute)
      finally show ?thesis using False by simp
    qed
    show ?thesis unfolding z2 uint_word_of_int p using l r by (intro mod_pos_pos_trivial) auto
  qed
qed

lemma zigzag32:
  assumes "in_s32 n"
  shows "ZigZagDecode32 (ZigZagEncode32 n) = n \<and> uint (ZigZagEncode32 n) = (if n < 0 then - 2 * n - 1 else 2 * n)"
proof -
  have s: "sint (word_of_int n :: u32) = n"
    using assms by (simp add: in_s32_def sint_sbintrunc' signed_take_bit_int_eq_self)
  have e: "ZigZagEncode32 n = push_bit 1 (word_of_int n) XOR signed_drop_bit (LENGTH(32) - 1) (word_of_int n)"
    by (simp add: ZigZagEncode32_def)
  show ?thesis using zigzag_word [OF _ e] s by (simp add: ZigZagDecode32_def del: One_nat_def)
qed

lemma zigzag64:
  assumes "in_s64 n"
  shows "ZigZagDecode64 (ZigZagEncode64 n) = n \<and> uint (ZigZagEncode64 n) = (if n < 0 then - 2 * n - 1 else 2 * n)"
proof -
  have s: "sint (word_of_int n :: u64) = n"
    using assms by (simp add: in_s64_def sint_sbintrunc' signed_take_bit_int_eq_self)
  have e: "ZigZagEncode64 n = push_bit 1 (word_of_int n) XOR signed_drop_bit (LENGTH(64) - 1) (word_of_int n)"
    by (simp add: ZigZagEncode64_def)
  show ?thesis using zigzag_word [OF _ e] s by (simp add: ZigZagDecode64_def del: One_nat_def)
qed

lemma tag_word:
  assumes "0 \<le> fn" "fn < 2 ^ 29" "unat type < 8"
  shows "unat (MakeTag fn type) = 8 * nat fn + unat type"
proof -
  have ty: "type = take_bit 3 type" using assms(3) by (simp add: word_unat_eq_iff unsigned_take_bit_eq take_bit_nat_eq_self)
  have "MakeTag fn type = push_bit 3 (word_of_int fn) + type"
    unfolding MakeTag_def kTagTypeBits_def
    by (rule disjunctive_add_eq_or [symmetric], subst ty, rule bit_word_eqI, auto simp: bit_simps)
  also have "\<dots> = of_nat (8 * nat fn + unat type)"
    using assms by (simp add: push_bit_eq_mult of_nat_nat)
  finally have "unat (MakeTag fn type) = (8 * nat fn + unat type) mod 2 ^ LENGTH(32)" by (simp only: unat_of_nat)
  then show ?thesis using assms by simp
qed

lemma tag_roundtrip:
  assumes "0 \<le> fn" "fn < 2 ^ 29" "unat type < 8"
  shows "GetTagFieldNumber (MakeTag fn type) = fn \<and> GetTagWireType (MakeTag fn type) = type \<and>
    TagSize fn ft = (if ft = TYPE_GROUP then 2 else 1) * VarintSize32 (MakeTag fn type)"
proof -
  have "unat (MakeTag fn 0) = 8 * nat fn" using tag_word [OF assms(1, 2), of 0] by simp
  note u = tag_word [OF assms] this
  have m: "kTagTypeMask = mask 3" by (simp add: kTagTypeMask_def kTagTypeBits_def mask_eq_exp_minus_1 push_bit_of_1)
  have d: "unat (drop_bit 3 (MakeTag fn type)) = nat fn"
    unfolding unat_drop_bit_eq using u assms by (simp add: drop_bit_eq_div)
  have "uint (drop_bit 3 (MakeTag fn type)) = fn" using d assms(1) by (simp add: uint_nat)
  then have "sint (drop_bit 3 (MakeTag fn type)) = fn"
    using assms by (simp add: sint_uint signed_take_bit_int_eq_self)
  moreover have "MakeTag fn type AND kTagTypeMask = type"
    unfolding m word_unat_eq_iff take_bit_eq_mask [symmetric] unsigned_take_bit_eq using u(1) assms
    by (simp add: take_bit_eq_mod)
  moreover have "VarintSize32 (MakeTag fn 0) = VarintSize32 (MakeTag fn type)"
    unfolding VarintSize32_len u using assms(3) by (simp add: varint_len_def)
  ultimately show ?thesis
    by (simp add: GetTagFieldNumber_def GetTagWireType_def TagSize_def kTagTypeBits_def MakeTag_def Let_def)
qed

lemma tag_roundtrip_witness:
  "GetTagFieldNumber (MakeTag 1000 2) = 1000 \<and> GetTagWireType (MakeTag 1000 2) = 2 \<and>
    TagSize 1000 9 = (if 9 = TYPE_GROUP then 2 else 1) * VarintSize32 (MakeTag 1000 2)"
  by (rule tag_roundtrip) simp_all

text \<open>An \<^verbatim>\<open>int32\<close> of any sign is written in the bytes \<^verbatim>\<open>VarintSize32SignExtended\<close> announces and
  read back by the 32-bit reader, although a negative one takes ten bytes.\<close>

theorem sign_extended_roundtrip:
  assumes "in_s32 n" "VarintSize32SignExtended n \<le> length t"
  shows "\<exists>t' v. WriteVarint32SignExtendedToArray n t = Inr (t', VarintSize32SignExtended n) \<and>
    ReadVarint32FromArray t' = Inr (Some (v, VarintSize32SignExtended n)) \<and> sint v = n"
proof (cases "n < 0")
  case True
  have "n mod 2 ^ 64 = (n + 2 ^ 64) mod 2 ^ 64" by (simp only: mod_add_self2)
  also have "(n + 2 ^ 64) mod 2 ^ 64 = n + 2 ^ 64"
    using assms(1) True by (intro mod_pos_pos_trivial) (simp_all add: in_s32_def)
  finally have "uint (word_of_int n :: u64) = n + 2 ^ 64" by (simp add: uint_word_of_int)
  then have "2 ^ 63 \<le> uint (word_of_int n :: u64)" using assms(1) by (simp add: in_s32_def)
  then have "nat (2 ^ 63) \<le> nat (uint (word_of_int n :: u64))" by (rule nat_mono)
  then have "2 ^ 63 \<le> unat (word_of_int n :: u64)"
    unfolding unat_eq_nat_uint [symmetric] by (simp only: nat_power_eq) simp
  then have "VarintSize64 (word_of_int n) = 10" by (simp add: VarintSize64_len varint_len_def)
  moreover have "(ucast (word_of_int n :: u64) :: u32) = word_of_int n"
    by (rule bit_word_eqI) (simp add: bit_simps)
  moreover have "sint (word_of_int n :: u32) = n"
    using assms(1) by (simp add: in_s32_def sint_sbintrunc' signed_take_bit_int_eq_self)
  ultimately show ?thesis
    using varint_roundtrip [of "word_of_int n" t] assms True
    by (auto simp: WriteVarint32SignExtendedToArray_def VarintSize32SignExtended_def)
next
  case False
  let ?w = "word_of_int n :: u32"
  have size: "VarintSize32 ?w = length (base128 (unat ?w))"
    and w: "WriteVarint32ToArray ?w t = put_varint t (base128 (unat ?w))"
    using varint_writers_agree [of _ t ?w] by blast+
  have "length (base128 (unat ?w)) \<le> kMaxVarintBytes"
    using varint_loop_len [of ?w] varint_len_bounds(4) [of "unat ?w"] unat_u32_less [of ?w]
    by (simp add: varint_loop_base128 kMaxVarintBytes_def)
  then have "parse128 kMaxVarintBytes (base128 (unat ?w) @ r) = Inr (Some (unat ?w, length (base128 (unat ?w))))" for r
    by (rule parse128_exact)
  moreover have "sint ?w = n"
    using assms(1) by (simp add: in_s32_def sint_sbintrunc' signed_take_bit_int_eq_self)
  ultimately show ?thesis
    using assms False by (simp add: WriteVarint32SignExtendedToArray_def VarintSize32SignExtended_def size w
      put_varint_def varint_readers_agree as_word_def)
qed

end
