(* ===== verification/Spec2Isabelle.thy ===== *)
theory Spec2Isabelle
  imports Pool Queue_SPSC Stream Timer_Spec Args Rand Net_Balance Gate_Spec Bundler_Spec
    Threads Logger_Spec Modules_Spec Clients_Spec Xml_Save Xml_Dom_Spec Xml_Assign Xml_Attrs Xml_Query
    Xml_String Config_Spec Kernel_Spec Iocp_Wire Pb_Wire
begin

text \<open>
  A verification library for kernel4gameserver, a C++ framework for game servers (src/).

  The program. A process is a kernel (src/kernel) that loads modules (src/logic) from shared
  libraries. The kernel reads two XML files, starts a network engine with worker threads, a timer
  wheel, a logger with its thread and the module manager, and then loops: it lets the engine hand the
  received bytes to the sessions of the modules and lets the timers fire, until a module asks for the
  end. Everything is built on the containers of src/Public: an object pool, a ring buffer between two
  threads, a byte stream with separate ends for reading and writing, and wrappers of threads and locks.
  The Linux build is modelled, with the assertions of its debug macro (theory Prelude says why), and
  beside it the network engine of the Windows build.

  The model. State is a record per class, with the names of the members; an operation is a function
  from state to state, in the type \<open>'a outcome\<close> when it can fail: a failed \<^verbatim>\<open>TASSERT\<close>, or undefined
  behaviour of C++ that the code can reach, is a value of type \<open>fault\<close>. Unsigned machine integers are
  words, signed ones are integers whose operations check the range and whose narrowing conversions keep
  the low bits. Objects that the code shares by pointer live in their pool, and an address names the
  unit there. What the program asks of the system (sockets, files, clocks, the dynamic loader, threads)
  is answered by arguments, and the calls are logged where a property is about them. Code of the
  modules that the engine and the timers call back is an argument too, a function of the history of the
  calls, so that a property holds for all modules; the three sample modules are modelled as well.

  Theories, bottom up.
    \<^item> Prelude: faults, outcomes, machine integers, lists as memory.
    \<^item> Runs: sequences of operations that may fail, and what holds along them: the interfaces
      \<open>outcome_system\<close> (an invariant and progress), \<open>ordered_system\<close> (a measure that only grows),
      \<open>refined_system\<close> (an abstract state that each step follows) and \<open>byte_link\<close> (bytes given = bytes
      gone + bytes pending). They are interpreted on the connections of both engines, the load of the
      workers, the bindings, the kernel and the edits of XML trees.
    \<^item> Tools (Tools.h), Bytes (integers in memory), Rand (CRand.h), Threads (CThread, CLock, CLockUnit).
    \<^item> Pool (TPool.h): every history of a pool; the interfaces \<open>cell_pool\<close> and \<open>recycling_pool\<close>, on which
      the components with pooled objects rest.
    \<^item> Queue (TQueue.h): refinement of a bounded FIFO, the interface \<open>bounded_fifo\<close>; Queue_SPSC: the same
      code cut into its memory accesses, under every interleaving of one producer and one consumer.
    \<^item> Stream (TStream.h): the byte stream, the interface \<open>byte_stream\<close>; Args (CData.h, CArgs.h): values
      packed into a stream and taken out again.
    \<^item> Timer and Timer_Spec (src/kernel/timermgr): the wheel, its slots and nodes; the specification is a
      monitor that follows the calls each timer object gets.
    \<^item> Net_Pipe (one connection: CPipe, Pipe), Net_Worker (epollWorker: the thread and the delivery on the
      main thread), Net_Session (what a session can rely on), Net_Epoller (epoller, SPipe: servers, clients,
      accepting, the turn of the engine), Net_Connect (connections being made), Net_Balance (the load of
      the workers).
    \<^item> Iocp_Pipe (iocp_event, CPipe, Pipe), Iocp_Worker (iocpworker), Iocper (iocper, SPipe): the engine of
      the Windows build on completion ports; Iocp_Spec: what holds under every schedule of its threads;
      Iocp_Wire: the bytes of one connection.
    \<^item> Bundler and Bundler_Spec (TBundler.h): bound member functions with deferred removal.
    \<^item> Logger and Logger_Spec (src/kernel/logger), Modules and Modules_Spec (IModule.h, src/kernel/logicmgr).
    \<^item> Gate and Gate_Spec, Clients and Clients_Spec (src/logic): the sample modules and what they do on the
      engine of the theories above.
    \<^item> Xml_Text, Xml_Parse, Xml_Print (src/Public/tinyxml): characters, the parser, the printer; Xml_Spec and
      Xml_Typed: fuel, termination and the types of the trees; Xml_Chars, Xml_Round, Xml_Save: printing and
      parsing are inverse.
    \<^item> Xml_Dom (tinyxml.cpp, the operations of \<^verbatim>\<open>TiXmlNode\<close> and its classes): nodes on a heap with the five
      links of the code. Xml_Tree says when links are a forest, Xml_Edit and Xml_Ops how one edit relinks it,
      Xml_Clone what a copy is, Xml_Edits the edits as steps of a program, Xml_Walks the searches and
      handles; Xml_Dom_Spec has the properties, Xml_Assign the assignments. Xml_Attrs: the attributes as the
      ring of the code; Xml_Query: attributes as numbers; Xml_String (tinystr.h, tinystr.cpp): the strings.
    \<^item> Pb_Varint (src/Public/google/protobuf/io/coded_stream.cc, coded_stream.h): the varints of protocol
      buffers on arrays; Pb_Varint_Spec: all writers are the base-128 expansion, the readers its inverse;
      Pb_Wire (wire_format_lite.h): ZigZag, tags, sign-extended varints.
    \<^item> Config and Config_Spec (src/kernel/configmgr): the two configuration files, through the XML reader.
    \<^item> Kernel and Kernel_Spec (src/kernel/Kernel.cpp, main.cpp): start, loop and end, composed of the
      managers above; every state the process can reach.

  What is shown. For each component an invariant that its operations preserve and, on it, the
  functional behaviour: pools hand out units nobody holds; the ring is a FIFO in both models; bytes come
  out of a stream, and reach a socket, complete and in order; each timer gets the calls its interface
  promises, no timer leaks and none is late by more than a slot; sessions get the received data before
  the disconnection; accepted connections get a clean pipe that a worker watches; the Windows engine
  never has two sends of a connection in flight, and a completed receive is appended and told once; the
  gate takes its input apart message by message; bound functions behave as a map; all modules are initialised before
  one is launched; XML trees survive saving and loading, and so does a configuration; editing a tree in
  place is editing lists of children, and a tree stays one; the kernel brings
  all of this up in the right order and its loop keeps it. Where the code does something else, the
  property says exactly what: unbounded loops, aborts that a client can cause, leaks, log lines that
  repeat, an end of the process that never returns.

  Fuel. Loops whose end is a property have fuel, and a property says how much is enough: the delivery
  to a session (\<open>deliver\<close>: the number of pending bytes plus one, for sessions that keep the contract),
  the events of one turn (the queue's capacity plus one), the slots of a timer round (some bound, for any
  clock of \<open>good_clock\<close>), the XML parser (the length of the file plus two: more changes nothing), the walks
  over nodes of a tree (the number of nodes ever made, and twice that for a copy). Loops
  that wait for another thread, and system calls that have no answer left, end in the fault
  \<open>Diverges\<close>. All other recursion is structural or has a termination proof.

  Interleaving. The rings between threads are cut into single accesses (Queue_SPSC). Elsewhere the code
  that threads share is guarded by locks or by those rings, and an operation is one step; the threads
  of the engine and of the logger are interleaved with the main thread by schedules chosen by the
  environment. In the Windows engine an overlapped operation stays in the state from its start to the
  turn of a worker that takes its completion; \<open>iocp_reaches\<close> is every state a schedule of workers, main
  thread and modules leads to.

  Not modelled. The crash dumps of Windows; attributes of XML as floating point numbers, whose text is
  made by the C library, and the variants of tinyxml that need \<^verbatim>\<open>TIXML_USE_STL\<close>; the allocation trace of
  MultiSys.cpp, which the macros switch off; TimerHandler.h and ITcpServer.cpp, which are not compiled; the protocol
  buffer library under src/Public/google above the integers of its wire format (its streams, messages,
  descriptors and compiler), and the code it generates. Output to the terminal has no effect on the state and is left out.
\<close>

end
